(* ===== verification/Prelude.thy ===== *)
theory Prelude
  imports Main "HOL-Library.Word"
begin

text \<open>
  What the component theories share: the machine types of the firmware, the collections its
  simplification rules are gathered in, the scan of a fixed array for its first matching slot,
  the ring buffer index arithmetic, big- and little-endian byte packing, and three interface
  locales (a stepped machine with an invariant, a prefix codec, a bounded first-in first-out
  queue) that the components interpret on their own operations.
\<close>

unbundle bit_operations_syntax

type_synonym u8 = "8 word"
type_synonym u16 = "16 word"
type_synonym u32 = "32 word"
type_synonym u64 = "64 word"
type_synonym bytes = "u8 list"

named_theorems state_simps
  \<open>unfolding rules of the operations on component states\<close>
named_theorems policy_simps
  \<open>unfolding rules of the stateless decision functions\<close>

subsection \<open>Scanning a fixed array\<close>

text \<open>The index of the first element that satisfies a test: the shape of every slot scan.\<close>

fun first_index :: "('a \<Rightarrow> bool) \<Rightarrow> 'a list \<Rightarrow> nat option" where
  "first_index P [] = None"
| "first_index P (x # xs) = (if P x then Some 0 else map_option Suc (first_index P xs))"

lemma first_index_None: "first_index P xs = None \<longleftrightarrow> (\<forall>x \<in> set xs. \<not> P x)"
  by (induction xs) auto

lemma first_index_SomeD:
  "first_index P xs = Some i \<Longrightarrow> i < length xs \<and> P (xs ! i) \<and> (\<forall>j < i. \<not> P (xs ! j))"
proof (induction xs arbitrary: i)
  case Nil
  then show ?case by simp
next
  case (Cons x xs)
  show ?case
  proof (cases "P x")
    case True
    with Cons.prems show ?thesis by simp
  next
    case False
    with Cons.prems obtain k where k: "first_index P xs = Some k" and i: "i = Suc k"
      by auto
    from Cons.IH [OF k] False show ?thesis
      by (auto simp: i nth_Cons split: nat.splits)
  qed
qed

lemma first_index_unique:
  assumes "i < length xs" "P (xs ! i)" "\<And>j. j < length xs \<Longrightarrow> P (xs ! j) \<Longrightarrow> j = i"
  shows "first_index P xs = Some i"
proof (cases "first_index P xs")
  case None
  with assms(1,2) show ?thesis by (auto simp: first_index_None)
next
  case (Some k)
  with first_index_SomeD [OF Some] assms(3) [of k] show ?thesis by simp
qed

lemma length_filter_eq_iff: "length (filter P xs) = length xs \<longleftrightarrow> list_all P xs"
proof (induction xs)
  case (Cons x xs)
  with length_filter_le [of P xs] show ?case by (auto simp del: length_filter_le)
qed simp

lemma list_all_update: "list_all P xs \<Longrightarrow> P y \<Longrightarrow> list_all P (xs[i := y])"
  by (auto simp: list_all_iff dest!: set_update_subset_insert [THEN subsetD])

lemma first_index_less: "first_index P xs = Some i \<Longrightarrow> i < length xs"
  by (simp add: first_index_SomeD)

lemma first_index_holds: "first_index P xs = Some i \<Longrightarrow> P (xs ! i)"
  by (simp add: first_index_SomeD)

lemma first_index_cong_on:
  "(\<And>x. x \<in> set xs \<Longrightarrow> P x = Q x) \<Longrightarrow> first_index P xs = first_index Q xs"
  by (induction xs) auto

lemma length_filter_update_add:
  "i < length xs \<Longrightarrow> \<not> P (xs ! i) \<Longrightarrow> P y \<Longrightarrow>
   length (filter P (xs[i := y])) = Suc (length (filter P xs))"
  by (induction xs arbitrary: i) (auto split: nat.splits)

lemma length_filter_update_del:
  "i < length xs \<Longrightarrow> P (xs ! i) \<Longrightarrow> \<not> P y \<Longrightarrow>
   Suc (length (filter P (xs[i := y]))) = length (filter P xs)"
  by (induction xs arbitrary: i) (auto split: nat.splits)

lemma length_filter_update_same:
  "i < length xs \<Longrightarrow> P (xs ! i) = P y \<Longrightarrow>
   length (filter P (xs[i := y])) = length (filter P xs)"
  by (induction xs arbitrary: i) (auto split: nat.splits)

subsection \<open>Early returns\<close>

text \<open>
  A procedure written as a sequence of stages, each of which either returns a value (Some) or
  falls through (None) to the next with the state it left.
\<close>

definition fall_through ::
    "('s \<Rightarrow> 'r option \<times> 's) \<Rightarrow> ('s \<Rightarrow> 'r option \<times> 's) \<Rightarrow> 's \<Rightarrow> 'r option \<times> 's" where
  "fall_through f g s = (case f s of (None, s') \<Rightarrow> g s' | (Some r, s') \<Rightarrow> (Some r, s'))"

lemma fall_through_cases:
  assumes "fall_through f g s = (r, s')"
  obtains (returned) x where "f s = (Some x, s')" "r = Some x"
  | (continued) t where "f s = (None, t)" "g t = (r, s')"
  using assms by (auto simp: fall_through_def split: prod.splits option.splits)

subsection \<open>Ring buffers\<close>

text \<open>
  A ring of fixed cells with a head index and a count is read as the list of its live cells,
  oldest first.
\<close>

definition ring_view :: "nat \<Rightarrow> nat \<Rightarrow> 'a list \<Rightarrow> 'a list" where
  "ring_view head n cells = map (\<lambda>i. cells ! ((head + i) mod length cells)) [0..<n]"

lemma ring_index_inj:
  assumes "i < (m :: nat)" "j < m" "(h + i) mod m = (h + j) mod m"
  shows "i = j"
proof -
  have "int ((h + i) mod m) = int ((h + j) mod m)" using assms(3) by simp
  then have "(int h + int i) mod int m = (int h + int j) mod int m"
    by (simp add: zmod_int)
  then have "int m dvd (int i - int j)"
    by (simp add: mod_eq_dvd_iff)
  moreover have "\<bar>int i - int j\<bar> < int m" using assms(1,2) by linarith
  ultimately show ?thesis
    by (metis dvd_imp_le_int eq_iff_diff_eq_0 linorder_not_le of_nat_eq_iff abs_of_nat)
qed

lemma length_ring_view [simp]: "length (ring_view h n cells) = n"
  by (simp add: ring_view_def)

lemma ring_view_0 [simp]: "ring_view h 0 cells = []"
  by (simp add: ring_view_def)

lemma ring_view_nth [simp]:
  "i < n \<Longrightarrow> ring_view h n cells ! i = cells ! ((h + i) mod length cells)"
  by (simp add: ring_view_def)

lemma ring_view_append:
  assumes "n < length cells"
  shows "ring_view h (Suc n) (cells[(h + n) mod length cells := x]) = ring_view h n cells @ [x]"
proof (rule nth_equalityI)
  fix i
  assume "i < length (ring_view h (Suc n) (cells[(h + n) mod length cells := x]))"
  then have i: "i < Suc n" by simp
  show "ring_view h (Suc n) (cells[(h + n) mod length cells := x]) ! i =
        (ring_view h n cells @ [x]) ! i"
  proof (cases "i = n")
    case True
    have "(h + n) mod length cells < length cells" using assms by (intro mod_less_divisor) linarith
    with True show ?thesis by (simp add: nth_append)
  next
    case False
    with i have "i < n" by simp
    moreover from this assms have "(h + i) mod length cells \<noteq> (h + n) mod length cells"
      using ring_index_inj [of i "length cells" n h] by auto
    ultimately show ?thesis by (simp add: nth_append)
  qed
qed simp

lemma ring_view_update:
  assumes "i < n" "n \<le> length cells"
  shows "ring_view h n (cells[(h + i) mod length cells := x]) = (ring_view h n cells)[i := x]"
proof (rule nth_equalityI)
  fix j
  assume "j < length (ring_view h n (cells[(h + i) mod length cells := x]))"
  then have j: "j < n" by simp
  have "(h + i) mod length cells < length cells" using assms by (intro mod_less_divisor) linarith
  moreover have "(h + i) mod length cells = (h + j) mod length cells \<longleftrightarrow> i = j"
    using ring_index_inj [of i "length cells" j h] assms j by auto
  ultimately show "ring_view h n (cells[(h + i) mod length cells := x]) ! j =
        ((ring_view h n cells)[i := x]) ! j"
    using j assms by (auto simp: nth_list_update)
qed simp

lemma ring_view_drop:
  assumes "0 < n" "n \<le> length cells"
  shows "ring_view ((h + 1) mod length cells) (n - 1) cells = tl (ring_view h n cells)"
proof (rule nth_equalityI)
  fix i
  assume "i < length (ring_view ((h + 1) mod length cells) (n - 1) cells)"
  then have i: "i < n - 1" by simp
  then show "ring_view ((h + 1) mod length cells) (n - 1) cells ! i = tl (ring_view h n cells) ! i"
    by (simp add: nth_tl mod_add_left_eq)
qed simp

lemma ring_view_clear_head:
  assumes "0 < n" "n \<le> length cells" "h < length cells"
  shows "ring_view ((h + 1) mod length cells) (n - 1) (cells[h := z]) = tl (ring_view h n cells)"
proof -
  have "ring_view h n (cells[h := z]) = (ring_view h n cells)[0 := z]"
    using ring_view_update [of 0 n cells h z] assms by simp
  moreover have "ring_view ((h + 1) mod length cells) (n - 1) (cells[h := z]) =
        tl (ring_view h n (cells[h := z]))"
    using ring_view_drop [of n "cells[h := z]" h] assms by simp
  ultimately show ?thesis
    by (cases "ring_view h n cells") auto
qed

lemma ring_view_hd: "0 < n \<Longrightarrow> h < length cells \<Longrightarrow> hd (ring_view h n cells) = cells ! h"
  by (simp add: ring_view_def upt_conv_Cons)

subsection \<open>Byte packing\<close>

text \<open>Two bytes as an unsigned 16-bit value, most significant first (wire headers) and least
  significant first (the configuration blob).\<close>

definition be16 :: "u8 \<Rightarrow> u8 \<Rightarrow> u16" where
  "be16 hi lo = push_bit 8 (ucast hi) OR ucast lo"

definition le16 :: "u8 \<Rightarrow> u8 \<Rightarrow> u16" where
  "le16 lo hi = ucast lo OR push_bit 8 (ucast hi)"

definition le32 :: "u8 \<Rightarrow> u8 \<Rightarrow> u8 \<Rightarrow> u8 \<Rightarrow> u32" where
  "le32 b0 b1 b2 b3 =
     ucast b0 OR push_bit 8 (ucast b1) OR push_bit 16 (ucast b2) OR push_bit 24 (ucast b3)"

lemma be16_bytes: "be16 (ucast (drop_bit 8 w)) (ucast w) = w"
  unfolding be16_def
  by (rule bit_word_eqI) (auto simp: bit_or_iff bit_push_bit_iff bit_ucast_iff bit_drop_bit_eq)

lemma byte_mask: "(0xFF :: 'a::len word) = mask 8"
  by (simp add: mask_eq_exp_minus_1)

lemma le16_bytes: "le16 (ucast (w AND 0xFF)) (ucast (drop_bit 8 w AND 0xFF)) = w"
  unfolding le16_def byte_mask
  by (rule bit_word_eqI)
    (auto simp: bit_or_iff bit_push_bit_iff bit_ucast_iff bit_drop_bit_eq bit_and_iff bit_mask_iff)

lemma le32_bytes:
  "le32 (ucast (w AND 0xFF)) (ucast (drop_bit 8 w AND 0xFF)) (ucast (drop_bit 16 w AND 0xFF))
     (ucast (drop_bit 24 w AND 0xFF)) = w"
proof (rule bit_word_eqI)
  fix n
  assume "n < LENGTH(32)"
  then consider "n < 8" | "8 \<le> n \<and> n < 16" | "16 \<le> n \<and> n < 24" | "24 \<le> n \<and> n < 32"
    by fastforce
  then show "bit (le32 (ucast (w AND 0xFF)) (ucast (drop_bit 8 w AND 0xFF))
      (ucast (drop_bit 16 w AND 0xFF)) (ucast (drop_bit 24 w AND 0xFF))) n = bit w n"
    by cases (simp_all add: le32_def byte_mask bit_or_iff bit_push_bit_iff bit_ucast_iff
        bit_drop_bit_eq bit_and_iff bit_mask_iff less_diff_conv2)
qed

lemma unat_byte_less: "unat (b :: u8) < 256"
proof -
  have "unat b < 2 ^ LENGTH(8)" by (rule unsigned_less)
  then show ?thesis by simp
qed

lemma unat_ucast_byte [simp]: "unat (ucast (b :: u8) :: u16) = unat b"
proof -
  have "unat b < 2 ^ 16" using unat_byte_less [of b] by simp
  then show ?thesis by (simp add: unsigned_ucast_eq take_bit_nat_eq_self)
qed

lemma unat_be16: "unat (be16 hi lo) = unat hi * 256 + unat lo"
proof -
  have "be16 hi lo = push_bit 8 (ucast hi) + ucast lo"
    unfolding be16_def
    by (rule disjunctive_add [symmetric])
      (auto simp: bit_push_bit_iff bit_ucast_iff dest: bit_imp_le_length)
  moreover have "unat (push_bit 8 (ucast hi) :: u16) = unat hi * 256"
    using unat_byte_less [of hi]
    by (simp add: push_bit_eq_mult unat_word_ariths)
  moreover have "unat hi * 256 + unat lo < 2 ^ 16"
    using unat_byte_less [of hi] unat_byte_less [of lo] by simp
  ultimately show ?thesis
    by (simp add: unat_word_ariths)
qed

subsection \<open>A stepped machine with an invariant\<close>

text \<open>
  The operations of a component as one step function over its events, the component's
  well-formedness as an invariant of the admissible events: the invariant then holds after every
  run, at every prefix of it.
\<close>

locale transition_system =
  fixes step :: "'s \<Rightarrow> 'e \<Rightarrow> 's"
    and inv :: "'s \<Rightarrow> bool"
    and admissible :: "'e \<Rightarrow> bool"
  assumes step_inv: "inv s \<Longrightarrow> admissible e \<Longrightarrow> inv (step s e)"
begin

lemma run_inv: "inv s \<Longrightarrow> list_all admissible es \<Longrightarrow> inv (foldl step s es)"
  by (induction es arbitrary: s) (auto simp: step_inv)

lemma prefix_inv:
  "inv s \<Longrightarrow> list_all admissible es \<Longrightarrow> inv (foldl step s (take n es))"
  by (rule run_inv) (auto simp: list_all_iff dest: in_set_takeD)

end

subsection \<open>Prefix codecs\<close>

text \<open>
  An encoder and a decoder that consumes the encoding and hands back what follows it. Such a
  codec is injective, and a sequence of encoded values decodes to the sequence.
\<close>

locale prefix_codec =
  fixes enc :: "'a \<Rightarrow> 'b list"
    and dec :: "'b list \<Rightarrow> ('a \<times> 'b list) option"
    and ok :: "'a \<Rightarrow> bool"
  assumes dec_enc: "ok x \<Longrightarrow> dec (enc x @ rest) = Some (x, rest)"
begin

lemma dec_enc_exact: "ok x \<Longrightarrow> dec (enc x) = Some (x, [])"
  using dec_enc [of x "[]"] by simp

lemma enc_prefix_free:
  assumes "ok x" "ok y" "enc x @ r = enc y @ s"
  shows "x = y \<and> r = s"
  using dec_enc [OF assms(1), of r] dec_enc [OF assms(2), of s] assms(3)
  by (metis option.inject prod.inject)

lemma enc_inject: "ok x \<Longrightarrow> ok y \<Longrightarrow> enc x = enc y \<Longrightarrow> x = y"
  using enc_prefix_free [of x y "[]" "[]"] by simp

lemma enc_all_inject:
  "length xs = length ys \<Longrightarrow> list_all ok xs \<Longrightarrow> list_all ok ys \<Longrightarrow>
   concat (map enc xs) = concat (map enc ys) \<Longrightarrow> xs = ys"
proof (induction xs ys rule: list_induct2)
  case Nil
  show ?case by (rule refl)
next
  case (Cons x xs y ys)
  from Cons.prems have "x = y \<and> concat (map enc xs) = concat (map enc ys)"
    by (intro enc_prefix_free) simp_all
  with Cons.IH Cons.prems show ?case by simp
qed

end

subsection \<open>Bounded first-in first-out queues\<close>

text \<open>
  What a bounded queue promises its client: a push that is accepted appends, a push that is
  refused changes nothing visible and happens only when the queue is full, a pop removes the
  oldest entry.
\<close>

locale bounded_fifo =
  fixes items :: "'q \<Rightarrow> 'a list"
    and push :: "'x \<Rightarrow> 'q \<Rightarrow> bool \<times> 'q"
    and pop :: "'q \<Rightarrow> 'q"
    and wf :: "'q \<Rightarrow> bool"
    and capacity :: nat
    and shows_as :: "'q \<Rightarrow> 'x \<Rightarrow> 'a \<Rightarrow> bool"
  assumes push_ok: "wf q \<Longrightarrow> length (items q) < capacity \<Longrightarrow>
      \<exists>a q'. push x q = (True, q') \<and> shows_as q x a \<and> items q' = items q @ [a]"
    and push_full: "wf q \<Longrightarrow> capacity \<le> length (items q) \<Longrightarrow>
      fst (push x q) = False \<and> items (snd (push x q)) = items q"
    and pop_items: "wf q \<Longrightarrow> items (pop q) = tl (items q)"
    and wf_push: "wf q \<Longrightarrow> wf (snd (push x q))"
    and wf_pop: "wf q \<Longrightarrow> wf (pop q)"
    and wf_bound: "wf q \<Longrightarrow> length (items q) \<le> capacity"
begin

lemma push_accepted_iff: "wf q \<Longrightarrow> fst (push x q) \<longleftrightarrow> length (items q) < capacity"
  using push_ok [of q x] push_full [of q x] by (cases "length (items q) < capacity") auto

lemma push_keeps_older: "wf q \<Longrightarrow> \<exists>new. items (snd (push x q)) = items q @ new"
proof (cases "length (items q) < capacity")
  case True
  assume "wf q"
  from push_ok [OF this True, of x] show ?thesis by auto
next
  case False
  assume "wf q"
  with False push_full [of q x] show ?thesis by (metis append.right_neutral linorder_not_less)
qed

lemma wf_pops: "wf q \<Longrightarrow> wf ((pop ^^ n) q)"
  by (induction n) (auto intro: wf_pop)

lemma items_pops: "wf q \<Longrightarrow> items ((pop ^^ n) q) = drop n (items q)"
  by (induction n) (auto simp: pop_items wf_pops drop_Suc tl_drop)

lemma drains: "wf q \<Longrightarrow> items ((pop ^^ capacity) q) = []"
  using wf_bound by (simp add: items_pops)

end

end
