(* ===== verification/RxFraming.thy ===== *)
theory RxFraming
  imports Prelude
begin

text \<open>
  main/logic/rx_framing.hpp: reassembly of the BLE byte stream into frames (a two-byte big-endian
  length followed by the payload), and the checks on frames the firmware sends. The framer's
  callbacks appear as a list of observed events; the one thing a frame callback may do to the
  framer, calling \<open>reset()\<close> from inside, is the argument \<open>resets\<close>, a predicate on the
  delivered payload.
\<close>

subsection \<open>State\<close>

datatype rx_framer_drop_reason = DropNone | InterChunkTimeout | CorruptLength | BufferOverflow

record rx_framer_stats =
  frames_completed :: u32
  timeout_drops :: u32
  corrupt_length_drops :: u32
  overflow_drops :: u32

definition rx_stats_zero :: rx_framer_stats where
  "rx_stats_zero = \<lparr>frames_completed = 0, timeout_drops = 0, corrupt_length_drops = 0,
     overflow_drops = 0\<rparr>"

record rx_framer =
  rx_timeout_ms :: u32
  rx_max_payload :: nat
  rx_last_chunk_time_ms :: u32
  rx_has_chunk_time :: bool
  rx_reset_generation :: u32
  rx_buffer :: bytes
  rx_stats :: rx_framer_stats

definition kHeaderSize :: nat where "kHeaderSize = 2"
definition kDefaultMaxPayload :: nat where "kDefaultMaxPayload = 2048"
definition kMaxFrameLength :: nat where "kMaxFrameLength = kDefaultMaxPayload"
definition kDefaultInterChunkTimeoutMs :: u32 where "kDefaultInterChunkTimeoutMs = 1000"

definition new_rx_framer :: "u32 \<Rightarrow> nat \<Rightarrow> rx_framer" where
  "new_rx_framer timeout max_payload =
     \<lparr>rx_timeout_ms = timeout, rx_max_payload = max_payload, rx_last_chunk_time_ms = 0,
      rx_has_chunk_time = False, rx_reset_generation = 0, rx_buffer = [],
      rx_stats = rx_stats_zero\<rparr>"

text \<open>What the callbacks observe, in order.\<close>

datatype rx_event = Frame bytes | Dropped rx_framer_drop_reason nat

subsection \<open>Operations\<close>

definition rx_reset :: "rx_framer \<Rightarrow> rx_framer" where
  "rx_reset f = f\<lparr>rx_buffer := [], rx_last_chunk_time_ms := 0, rx_has_chunk_time := False,
     rx_reset_generation := rx_reset_generation f + 1\<rparr>"

definition buffered_bytes :: "rx_framer \<Rightarrow> nat" where
  "buffered_bytes f = length (rx_buffer f)"

definition check_timeout :: "u32 \<Rightarrow> rx_framer \<Rightarrow> bool \<times> rx_event list \<times> rx_framer" where
  "check_timeout now f =
     (if rx_buffer f \<noteq> [] \<and> rx_has_chunk_time f \<and>
         rx_timeout_ms f < now - rx_last_chunk_time_ms f
      then (True, [Dropped InterChunkTimeout (length (rx_buffer f))],
            f\<lparr>rx_buffer := [], rx_has_chunk_time := False,
              rx_stats := (rx_stats f)\<lparr>timeout_drops := timeout_drops (rx_stats f) + 1\<rparr>\<rparr>)
      else (False, [], f))"

text \<open>
  The extraction loop. It returns the number of frames delivered, the events in order and the
  framer. A frame whose callback reset the framer ends the loop with the buffer the reset left.
\<close>

function (sequential) extract_frames ::
    "(bytes \<Rightarrow> bool) \<Rightarrow> rx_framer \<Rightarrow> nat \<times> rx_event list \<times> rx_framer" where
  "extract_frames resets f =
     (case rx_buffer f of
        hi # lo # rest \<Rightarrow>
          (let expected = unat (be16 hi lo) in
           if expected = 0 \<or> rx_max_payload f < expected
           then (0, [Dropped CorruptLength (length (rx_buffer f))],
                 f\<lparr>rx_buffer := [], rx_has_chunk_time := False,
                   rx_stats := (rx_stats f)\<lparr>corrupt_length_drops :=
                     corrupt_length_drops (rx_stats f) + 1\<rparr>\<rparr>)
           else if length (rx_buffer f) < kHeaderSize + expected then (0, [], f)
           else let payload = take expected rest;
                    f1 = (if resets payload then rx_reset f else f);
                    f2 = f1\<lparr>rx_stats := (rx_stats f1)\<lparr>frames_completed :=
                           frames_completed (rx_stats f1) + 1\<rparr>\<rparr>
                in if resets payload then (1, [Frame payload], f2)
                   else let (n, evs, f3) =
                          extract_frames resets (f2\<lparr>rx_buffer := drop (kHeaderSize + expected)
                                                                  (rx_buffer f)\<rparr>)
                        in (Suc n, Frame payload # evs, f3))
      | _ \<Rightarrow> (0, [], f))"
  by pat_completeness auto
termination
  by (relation "measure (\<lambda>(resets, f). length (rx_buffer f))") (auto simp: kHeaderSize_def)

declare extract_frames.simps [simp del]

definition push_chunk ::
    "(bytes \<Rightarrow> bool) \<Rightarrow> bytes option \<Rightarrow> u32 \<Rightarrow> u16 \<Rightarrow> rx_framer \<Rightarrow>
     nat \<times> rx_event list \<times> rx_framer" where
  "push_chunk resets data now arrival_span f0 =
     (let (_, evs0, f) = check_timeout now f0 in
      case data of
        None \<Rightarrow> (0, evs0, f)
      | Some chunk \<Rightarrow>
          let len = length chunk; kMaxBufferSize = kHeaderSize + rx_max_payload f + 512 in
          if len = 0 then (0, evs0, f)
          else if rx_timeout_ms f < ucast arrival_span
          then (0, evs0 @ [Dropped InterChunkTimeout (length (rx_buffer f) + len)],
                f\<lparr>rx_buffer := [], rx_has_chunk_time := False,
                  rx_stats := (rx_stats f)\<lparr>timeout_drops := timeout_drops (rx_stats f) + 1\<rparr>\<rparr>)
          else if kMaxBufferSize < len \<or> kMaxBufferSize - len < length (rx_buffer f)
          then (0, evs0 @ [Dropped BufferOverflow (length (rx_buffer f) + len)],
                f\<lparr>rx_buffer := [], rx_has_chunk_time := False,
                  rx_stats := (rx_stats f)\<lparr>overflow_drops := overflow_drops (rx_stats f) + 1\<rparr>\<rparr>)
          else let f1 = f\<lparr>rx_buffer := rx_buffer f @ chunk,
                          rx_last_chunk_time_ms := now + ucast arrival_span,
                          rx_has_chunk_time := True\<rparr>;
                   (n, evs, f2) = extract_frames resets f1
               in (n, evs0 @ evs,
                   if rx_buffer f2 = [] then f2\<lparr>rx_has_chunk_time := False\<rparr> else f2))"

subsection \<open>Outgoing frames\<close>

text \<open>
  The builder of tesla-ble is a parameter: it is handed the buffer resized to the capacity and
  returns its code, the buffer as it left it and the length it reports.
\<close>

definition resize_bytes :: "nat \<Rightarrow> bytes \<Rightarrow> bytes" where
  "resize_bytes n xs = take n xs @ replicate (n - length xs) 0"

definition build_ble_tx_frame ::
    "bytes \<Rightarrow> nat \<Rightarrow> (bytes \<Rightarrow> int \<times> bytes \<times> nat) \<Rightarrow> int \<times> bytes" where
  "build_ble_tx_frame wire capacity build =
     (let (rc, out, len) = build (resize_bytes capacity wire) in
      if rc \<noteq> 0 \<or> len = 0 \<or> capacity < len then (if rc \<noteq> 0 then rc else - 1, [])
      else (0, resize_bytes len out))"

fun first_tag_ok :: "bytes \<Rightarrow> u64 \<Rightarrow> nat \<Rightarrow> bool" where
  "first_tag_ok [] tag shift = False"
| "first_tag_ok (b # bs) tag shift =
     (if \<not> shift < 35 then False
      else let tag' = tag OR push_bit shift (ucast (b AND 0x7F)) in
           if b AND 0x80 = 0
           then let wire_type = tag' AND 0x07; field_number = drop_bit 3 tag'
                in 1 \<le> field_number \<and>
                   (wire_type = 0 \<or> wire_type = 1 \<or> wire_type = 2 \<or> wire_type = 5)
           else first_tag_ok bs tag' (shift + 7))"

definition is_well_formed_ble_frame :: "bytes \<Rightarrow> bool" where
  "is_well_formed_ble_frame wire =
     (if length wire < kHeaderSize + 1 then False
      else let declared = unat (be16 (wire ! 0) (wire ! 1)) in
           if declared \<noteq> length wire - kHeaderSize \<or> kMaxFrameLength < declared then False
           else first_tag_ok (drop kHeaderSize wire) 0 0)"

subsection \<open>The wire format as a prefix codec\<close>

text \<open>The sender's side: \<open>Client::prepend_length\<close> of the protocol library puts the big-endian
  length before the payload. The framer's own first step, as a decoder, undoes it.\<close>

definition rx_encode :: "bytes \<Rightarrow> bytes" where
  "rx_encode p = (let n = word_of_nat (length p) :: u16 in ucast (drop_bit 8 n) # ucast n # p)"

definition rx_payload_ok :: "nat \<Rightarrow> bytes \<Rightarrow> bool" where
  "rx_payload_ok cap p \<longleftrightarrow> 0 < length p \<and> length p \<le> cap \<and> length p < 2 ^ 16"

definition next_frame :: "nat \<Rightarrow> bytes \<Rightarrow> (bytes \<times> bytes) option" where
  "next_frame cap buf =
     (case buf of
        hi # lo # rest \<Rightarrow>
          (let n = unat (be16 hi lo) in
           if n = 0 \<or> cap < n \<or> length rest < n then None else Some (take n rest, drop n rest))
      | _ \<Rightarrow> None)"

lemma header_length: "length p < 2 ^ 16 \<Longrightarrow>
  unat (be16 (ucast (drop_bit 8 (word_of_nat (length p) :: u16)))
    (ucast (word_of_nat (length p) :: u16))) = length p"
  by (simp add: be16_bytes unat_of_nat take_bit_nat_eq_self)

lemma length_rx_encode [simp]: "length (rx_encode p) = 2 + length p"
  by (simp add: rx_encode_def Let_def)

interpretation rx_codec: prefix_codec rx_encode "next_frame cap" "rx_payload_ok cap" for cap
  by unfold_locales (auto simp: rx_encode_def next_frame_def rx_payload_ok_def Let_def header_length)

lemma extract_next_frame:
  assumes "next_frame (rx_max_payload f) (rx_buffer f) = Some (p, rest)" "\<not> resets p"
  shows "extract_frames resets f =
    (let (n, evs, f') = extract_frames resets
           (f\<lparr>rx_stats := (rx_stats f)\<lparr>frames_completed := frames_completed (rx_stats f) + 1\<rparr>,
              rx_buffer := rest\<rparr>)
     in (Suc n, Frame p # evs, f'))"
  using assms
  by (subst extract_frames.simps)
    (auto simp: next_frame_def kHeaderSize_def Let_def split: list.splits if_splits prod.splits)

lemma extract_incomplete:
  assumes "rx_buffer f = take k (rx_encode p)" "k < length (rx_encode p)"
    "rx_payload_ok (rx_max_payload f) p"
  shows "extract_frames resets f = (0, [], f)"
proof -
  let ?n = "word_of_nat (length p) :: u16"
  have n: "length p < 2 ^ 16" "0 < length p" "length p \<le> rx_max_payload f"
    using assms(3) by (auto simp: rx_payload_ok_def)
  consider "k = 0" | "k = 1" | m where "k = Suc (Suc m)" by (cases k; cases "k - 1") auto
  then show ?thesis
  proof cases
    case 3
    with assms(1) have "rx_buffer f = ucast (drop_bit 8 ?n) # ucast ?n # take m p"
      by (simp add: rx_encode_def Let_def)
    with 3 assms(2) n show ?thesis
      by (subst extract_frames.simps) (auto simp: Let_def kHeaderSize_def header_length)
  qed (use assms(1) in \<open>simp_all add: extract_frames.simps rx_encode_def Let_def\<close>)
qed

lemma extract_stream:
  assumes "list_all (rx_payload_ok (rx_max_payload f)) ps"
    and "rx_buffer f @ future = concat (map rx_encode ps)"
  shows "\<exists>k f'. extract_frames (\<lambda>_. False) f = (k, map Frame (take k ps), f') \<and> k \<le> length ps \<and>
    rx_buffer f' @ future = concat (map rx_encode (drop k ps)) \<and>
    (k < length ps \<longrightarrow> length (rx_buffer f') < length (rx_encode (ps ! k))) \<and>
    rx_max_payload f' = rx_max_payload f \<and> rx_timeout_ms f' = rx_timeout_ms f \<and>
    rx_last_chunk_time_ms f' = rx_last_chunk_time_ms f"
  using assms
proof (induction ps arbitrary: f)
  case Nil
  then show ?case by (simp add: extract_frames.simps)
next
  case (Cons p ps)
  let ?rest = "concat (map rx_encode ps)"
  have ok: "rx_payload_ok (rx_max_payload f) p" using Cons.prems(1) by simp
  have stream: "rx_buffer f @ future = rx_encode p @ ?rest" using Cons.prems(2) by simp
  show ?case
  proof (cases "length (rx_buffer f) < length (rx_encode p)")
    case True
    then have "rx_buffer f = take (length (rx_buffer f)) (rx_encode p)"
      using arg_cong [OF stream, of "take (length (rx_buffer f))"] by simp
    from extract_incomplete [OF this True ok]
    have "extract_frames (\<lambda>_. False) f = (0, [], f)" .
    then show ?thesis
      using True Cons.prems(2) by (intro exI [of _ 0] exI [of _ f]) simp
  next
    case False
    then have le: "length (rx_encode p) \<le> length (rx_buffer f)" by simp
    define r where "r = drop (length (rx_encode p)) (rx_buffer f)"
    have "take (length (rx_encode p)) (rx_buffer f) = rx_encode p"
      using arg_cong [OF stream, of "take (length (rx_encode p))"] le by simp
    moreover have "r @ future = ?rest"
      using arg_cong [OF stream, of "drop (length (rx_encode p))"] le by (simp add: r_def)
    ultimately have r: "rx_buffer f = rx_encode p @ r" "r @ future = ?rest"
      by (metis append_take_drop_id r_def)+
    let ?g = "f\<lparr>rx_stats := (rx_stats f)\<lparr>frames_completed := frames_completed (rx_stats f) + 1\<rparr>,
      rx_buffer := r\<rparr>"
    have "next_frame (rx_max_payload f) (rx_buffer f) = Some (p, r)"
      unfolding r(1) by (rule rx_codec.dec_enc) (rule ok)
    from extract_next_frame [OF this]
    have step: "extract_frames (\<lambda>_. False) f =
        (let (n, evs, f') = extract_frames (\<lambda>_. False) ?g in (Suc n, Frame p # evs, f'))"
      by simp
    obtain k f' where "extract_frames (\<lambda>_. False) ?g = (k, map Frame (take k ps), f')"
      "k \<le> length ps" "rx_buffer f' @ future = concat (map rx_encode (drop k ps))"
      "k < length ps \<longrightarrow> length (rx_buffer f') < length (rx_encode (ps ! k))"
      "rx_max_payload f' = rx_max_payload f"
      "rx_timeout_ms f' = rx_timeout_ms f" "rx_last_chunk_time_ms f' = rx_last_chunk_time_ms f"
      using Cons.IH [of ?g] Cons.prems(1) r(2) by auto
    with step show ?thesis
      by (intro exI [of _ "Suc k"] exI [of _ f']) simp
  qed
qed

subsection \<open>A stream cut into notifications\<close>

text \<open>Successive \<open>push_chunk\<close> calls, each with its arrival time and span.\<close>

fun push_run :: "rx_framer \<Rightarrow> (bytes \<times> u32 \<times> u16) list \<Rightarrow> rx_event list \<times> rx_framer" where
  "push_run f [] = ([], f)"
| "push_run f ((c, now, span) # cs) =
     (let (_, evs, f1) = push_chunk (\<lambda>_. False) (Some c) now span f;
          (evs', f2) = push_run f1 cs
      in (evs @ evs', f2))"

text \<open>Chunks of at most 512 bytes that arrive within the inter-chunk timeout of one another.\<close>

fun timely :: "u32 \<Rightarrow> u32 option \<Rightarrow> (bytes \<times> u32 \<times> u16) list \<Rightarrow> bool" where
  "timely timeout prev [] = True"
| "timely timeout prev ((c, now, span) # cs) =
     (c \<noteq> [] \<and> length c \<le> 512 \<and> ucast span \<le> timeout \<and>
      (case prev of None \<Rightarrow> True | Some t \<Rightarrow> now - t \<le> timeout) \<and>
      timely timeout (Some (now + ucast span)) cs)"

lemma push_chunk_accepts:
  assumes "rx_has_chunk_time f \<longrightarrow> now - rx_last_chunk_time_ms f \<le> rx_timeout_ms f"
    "c \<noteq> []" "length c \<le> 512" "ucast span \<le> rx_timeout_ms f"
    "length (rx_buffer f) < 2 + rx_max_payload f"
  shows "push_chunk resets (Some c) now span f =
    (let (n, evs, f') = extract_frames resets (f\<lparr>rx_buffer := rx_buffer f @ c,
           rx_last_chunk_time_ms := now + ucast span, rx_has_chunk_time := True\<rparr>)
     in (n, evs, if rx_buffer f' = [] then f'\<lparr>rx_has_chunk_time := False\<rparr> else f'))"
proof -
  have "check_timeout now f = (False, [], f)"
    using assms(1) by (auto simp: check_timeout_def)
  then show ?thesis
    using assms by (cases c) (auto simp: push_chunk_def kHeaderSize_def Let_def not_less)
qed

lemma push_run_stream:
  assumes "list_all (rx_payload_ok (rx_max_payload f)) ps"
    and "timely (rx_timeout_ms f) prev cs"
    and "rx_has_chunk_time f \<longrightarrow> prev = Some (rx_last_chunk_time_ms f)"
    and "rx_buffer f @ concat (map fst cs) @ future = concat (map rx_encode ps)"
    and "0 < length ps \<longrightarrow> length (rx_buffer f) < length (rx_encode (ps ! 0))"
  shows "\<exists>k f'. push_run f cs = (map Frame (take k ps), f') \<and> k \<le> length ps \<and>
    rx_buffer f' @ future = concat (map rx_encode (drop k ps)) \<and>
    (k < length ps \<longrightarrow> length (rx_buffer f') < length (rx_encode (ps ! k)))"
  using assms
proof (induction cs arbitrary: f ps prev)
  case Nil
  then show ?case by (intro exI [of _ 0] exI [of _ f]) simp
next
  case (Cons x cs)
  obtain c now span where x: "x = (c, now, span)" by (cases x)
  let ?f1 = "f\<lparr>rx_buffer := rx_buffer f @ c, rx_last_chunk_time_ms := now + ucast span,
    rx_has_chunk_time := True\<rparr>"
  have "list_all (rx_payload_ok (rx_max_payload ?f1)) ps"
    "rx_buffer ?f1 @ concat (map fst cs) @ future = concat (map rx_encode ps)"
    using Cons.prems(1,4) by (simp_all add: x)
  from extract_stream [OF this] obtain k f2 where
    ex: "extract_frames (\<lambda>_. False) ?f1 = (k, map Frame (take k ps), f2)" and k: "k \<le> length ps" and
    b2: "rx_buffer f2 @ concat (map fst cs) @ future = concat (map rx_encode (drop k ps))"
      "k < length ps \<longrightarrow> length (rx_buffer f2) < length (rx_encode (ps ! k))"
      "rx_max_payload f2 = rx_max_payload f"
      "rx_timeout_ms f2 = rx_timeout_ms f" "rx_last_chunk_time_ms f2 = now + ucast span"
    by auto
  have "length (rx_buffer f) < 2 + rx_max_payload f"
    using Cons.prems(1,4,5) by (cases ps) (auto simp: rx_payload_ok_def)
  define f3 where "f3 = (if rx_buffer f2 = [] then f2\<lparr>rx_has_chunk_time := False\<rparr> else f2)"
  have push: "push_chunk (\<lambda>_. False) (Some c) now span f = (k, map Frame (take k ps), f3)"
    using Cons.prems(2,3) \<open>length (rx_buffer f) < _\<close>
    by (subst push_chunk_accepts) (auto simp: x ex f3_def)
  have f3: "rx_buffer f3 = rx_buffer f2" "rx_max_payload f3 = rx_max_payload f"
    "rx_timeout_ms f3 = rx_timeout_ms f" "rx_last_chunk_time_ms f3 = now + ucast span"
    using b2 by (auto simp: f3_def)
  have "list_all (rx_payload_ok (rx_max_payload f3)) (drop k ps)"
    using Cons.prems(1) f3 by (auto simp: list_all_iff dest: in_set_dropD)
  moreover have "timely (rx_timeout_ms f3) (Some (now + ucast span)) cs"
    using Cons.prems(2) f3 by (simp add: x)
  ultimately obtain k' f' where rec: "push_run f3 cs = (map Frame (take k' (drop k ps)), f')"
    "k' \<le> length (drop k ps)" "rx_buffer f' @ future = concat (map rx_encode (drop k' (drop k ps)))"
    "k' < length (drop k ps) \<longrightarrow>
      length (rx_buffer f') < length (rx_encode (drop k ps ! k'))"
    using Cons.IH [of f3 "drop k ps" "Some (now + ucast span)"] b2 f3 by auto
  then show ?case
    using push k by (intro exI [of _ "k + k'"] exI [of _ f'])
      (simp add: x take_add [of k k'] add.commute [of k' k] del: take_add)
qed

subsection \<open>Every call sequence\<close>

datatype rx_call = RxPush "bytes option" u32 u16 | RxCheck u32 | RxReset

definition rx_step :: "(bytes \<Rightarrow> bool) \<Rightarrow> rx_framer \<Rightarrow> rx_call \<Rightarrow> rx_framer" where
  "rx_step resets f c =
     (case c of
        RxPush data now span \<Rightarrow> snd (snd (push_chunk resets data now span f))
      | RxCheck now \<Rightarrow> snd (snd (check_timeout now f))
      | RxReset \<Rightarrow> rx_reset f)"

text \<open>What a buffered partial frame occupies, and that its expiry clock is running.\<close>

definition rx_inv :: "rx_framer \<Rightarrow> bool" where
  "rx_inv f \<longleftrightarrow> length (rx_buffer f) < kHeaderSize + rx_max_payload f \<and>
     (rx_has_chunk_time f \<longleftrightarrow> rx_buffer f \<noteq> [])"

fun event_bytes :: "rx_event \<Rightarrow> nat" where
  "event_bytes (Frame p) = kHeaderSize + length p"
| "event_bytes (Dropped r n) = n"

fun frame_sizes_ok :: "nat \<Rightarrow> rx_event \<Rightarrow> bool" where
  "frame_sizes_ok cap (Frame p) = (0 < length p \<and> length p \<le> cap)"
| "frame_sizes_ok cap (Dropped r n) = True"

definition frame_count :: "rx_event list \<Rightarrow> nat" where
  "frame_count evs = length (filter (\<lambda>e. case e of Frame _ \<Rightarrow> True | _ \<Rightarrow> False) evs)"

lemma frame_count_simps [simp]:
  "frame_count [] = 0" "frame_count (Frame p # evs) = Suc (frame_count evs)"
  "frame_count (Dropped r n # evs) = frame_count evs"
  "frame_count (xs @ ys) = frame_count xs + frame_count ys"
  by (simp_all add: frame_count_def)

lemma check_timeout_facts:
  "check_timeout now f = (b, evs, f') \<Longrightarrow>
   frame_count evs = 0 \<and> list_all (frame_sizes_ok cap) evs \<and>
   rx_max_payload f' = rx_max_payload f \<and> rx_timeout_ms f' = rx_timeout_ms f \<and>
   length (rx_buffer f) = sum_list (map event_bytes evs) + length (rx_buffer f') \<and>
   (rx_inv f \<longrightarrow> rx_inv f')"
  by (auto simp: check_timeout_def rx_inv_def kHeaderSize_def split: if_splits)

abbreviation framer_counted :: "rx_framer \<Rightarrow> rx_framer" where
  "framer_counted f \<equiv>
     f\<lparr>rx_stats := (rx_stats f)\<lparr>frames_completed := frames_completed (rx_stats f) + 1\<rparr>\<rparr>"

lemma extract_cases:
  assumes "extract_frames resets f = (n, evs, f')"
  obtains (wait) "n = 0" "evs = []" "f' = f" "length (rx_buffer f) < kHeaderSize + rx_max_payload f"
  | (corrupt) st where "n = 0" "evs = [Dropped CorruptLength (length (rx_buffer f))]"
      "f' = f\<lparr>rx_buffer := [], rx_has_chunk_time := False, rx_stats := st\<rparr>"
  | (reset) payload where "0 < length payload" "length payload \<le> rx_max_payload f"
      "resets payload" "n = 1" "evs = [Frame payload]" "f' = framer_counted (rx_reset f)"
  | (frame) hi lo payload rest m evs' where "rx_buffer f = hi # lo # payload @ rest"
      "0 < length payload" "length payload \<le> rx_max_payload f" "\<not> resets payload"
      "extract_frames resets ((framer_counted f)\<lparr>rx_buffer := rest\<rparr>) = (m, evs', f')"
      "n = Suc m" "evs = Frame payload # evs'"
proof -
  consider (short) "length (rx_buffer f) < 2" | hi lo rest where "rx_buffer f = hi # lo # rest"
    by (cases "rx_buffer f"; cases "tl (rx_buffer f)") auto
  then show thesis
  proof cases
    case short
    then have "extract_frames resets f = (0, [], f)"
      by (subst extract_frames.simps) (auto split: list.splits)
    with short assms show ?thesis by (intro wait) (auto simp: kHeaderSize_def)
  next
    case 2
    let ?e = "unat (be16 hi lo)"
    let ?p = "take ?e rest"
    consider "?e = 0 \<or> rx_max_payload f < ?e" | "?e \<noteq> 0" "?e \<le> rx_max_payload f" "length rest < ?e"
      | "?e \<noteq> 0" "?e \<le> rx_max_payload f" "?e \<le> length rest" by linarith
    then show ?thesis
    proof cases
      case 1
      with 2 assms show ?thesis
        by (intro corrupt) (auto simp: extract_frames.simps [of resets f] Let_def)
    next
      case 2
      with \<open>rx_buffer f = hi # lo # rest\<close> assms show ?thesis
        by (intro wait) (auto simp: extract_frames.simps [of resets f] Let_def kHeaderSize_def)
    next
      case 3
      show ?thesis
      proof (cases "resets ?p")
        case True
        with 2 3 assms show ?thesis
          by (intro reset [of ?p])
            (auto simp: extract_frames.simps [of resets f] Let_def kHeaderSize_def)
      next
        case False
        obtain m evs' g where
          g: "extract_frames resets ((framer_counted f)\<lparr>rx_buffer := drop ?e rest\<rparr>) = (m, evs', g)"
          using prod_cases3 by blast
        with 2 3 False assms show ?thesis
          by (intro frame [of hi lo ?p "drop ?e rest" m evs'])
            (auto simp: extract_frames.simps [of resets f] Let_def kHeaderSize_def)
      qed
    qed
  qed
qed

lemma extract_facts:
  "extract_frames resets f = (n, evs, f') \<Longrightarrow>
   length (rx_buffer f') < kHeaderSize + rx_max_payload f \<and> rx_max_payload f' = rx_max_payload f \<and>
   (rx_buffer f' \<noteq> [] \<longrightarrow> rx_has_chunk_time f' = rx_has_chunk_time f) \<and>
   n = frame_count evs \<and> list_all (frame_sizes_ok (rx_max_payload f)) evs"
proof (induction "length (rx_buffer f)" arbitrary: f n evs rule: less_induct)
  case less
  from less.prems show ?case
  proof (cases rule: extract_cases)
    case (frame hi lo payload rest m evs')
    with less.hyps [of "(framer_counted f)\<lparr>rx_buffer := rest\<rparr>" m evs'] show ?thesis by simp
  qed (simp_all add: rx_reset_def kHeaderSize_def)
qed

lemma extract_conserves:
  "extract_frames resets f = (n, evs, f') \<Longrightarrow> \<forall>p. \<not> resets p \<Longrightarrow>
   length (rx_buffer f) = sum_list (map event_bytes evs) + length (rx_buffer f')"
proof (induction "length (rx_buffer f)" arbitrary: f n evs rule: less_induct)
  case less
  from less.prems(1) show ?case
  proof (cases rule: extract_cases)
    case (frame hi lo payload rest m evs')
    with less.hyps [of "(framer_counted f)\<lparr>rx_buffer := rest\<rparr>" m evs'] less.prems(2)
    show ?thesis by (simp add: kHeaderSize_def)
  qed (use less.prems(2) in simp_all)
qed

lemma extract_no_overflow:
  "extract_frames resets f = (n, evs, f') \<Longrightarrow> Dropped BufferOverflow k \<notin> set evs"
proof (induction "length (rx_buffer f)" arbitrary: f n evs rule: less_induct)
  case less
  from less.prems show ?case
  proof (cases rule: extract_cases)
    case (frame hi lo payload rest m evs')
    with less.hyps [of "(framer_counted f)\<lparr>rx_buffer := rest\<rparr>" m evs'] show ?thesis by simp
  qed simp_all
qed

text \<open>The ways through \<open>push_chunk\<close> after its timeout check.\<close>

lemma push_cases:
  assumes "push_chunk resets data now span f = (n, evs, f')"
  obtains (idle) "n = 0" "data = None \<or> data = Some []"
      "\<exists>b. check_timeout now f = (b, evs, f')"
  | (dropped) b evs0 g c r st where "data = Some c" "c \<noteq> []" "check_timeout now f = (b, evs0, g)"
      "n = 0" "evs = evs0 @ [Dropped r (length (rx_buffer g) + length c)]"
      "f' = g\<lparr>rx_buffer := [], rx_has_chunk_time := False, rx_stats := st\<rparr>"
      "r = BufferOverflow \<longrightarrow> kHeaderSize + rx_max_payload g + 512 < length (rx_buffer g) + length c"
  | (taken) b evs0 g c evs1 h where "data = Some c" "c \<noteq> []" "check_timeout now f = (b, evs0, g)"
      "extract_frames resets (g\<lparr>rx_buffer := rx_buffer g @ c,
         rx_last_chunk_time_ms := now + ucast span, rx_has_chunk_time := True\<rparr>) = (n, evs1, h)"
      "evs = evs0 @ evs1" "f' = (if rx_buffer h = [] then h\<lparr>rx_has_chunk_time := False\<rparr> else h)"
proof -
  obtain b evs0 g where g: "check_timeout now f = (b, evs0, g)" using prod_cases3 by blast
  consider "data = None \<or> data = Some []" | c where "data = Some c" "c \<noteq> []" by (cases data) auto
  then show thesis
  proof cases
    case 1
    have "n = 0 \<and> evs = evs0 \<and> f' = g" using 1 assms g by (auto simp: push_chunk_def)
    with 1 g show ?thesis using idle by blast
  next
    case (2 c)
    show ?thesis
    proof (cases "rx_timeout_ms g < ucast span \<or>
        kHeaderSize + rx_max_payload g + 512 < length c \<or>
        kHeaderSize + rx_max_payload g + 512 - length c < length (rx_buffer g)")
      case True
      with assms g 2 show ?thesis
        by (auto simp: push_chunk_def Let_def split: if_splits
            intro!: dropped [OF 2 g])
    next
      case False
      obtain m evs1 h where h: "extract_frames resets (g\<lparr>rx_buffer := rx_buffer g @ c,
         rx_last_chunk_time_ms := now + ucast span, rx_has_chunk_time := True\<rparr>) = (m, evs1, h)"
        using prod_cases3 by blast
      with False assms g 2 show ?thesis
        by (intro taken [OF 2 g, of evs1 h]) (auto simp: push_chunk_def Let_def)
    qed
  qed
qed

interpretation rx_machine: transition_system "rx_step resets" rx_inv "\<lambda>_. True" for resets
proof
  fix f :: rx_framer and c :: rx_call
  assume inv: "rx_inv f"
  show "rx_inv (rx_step resets f c)"
  proof (cases c)
    case (RxPush data now span)
    obtain n evs f' where p: "push_chunk resets data now span f = (n, evs, f')"
      using prod_cases3 by blast
    from p have "rx_inv f'"
    proof (cases rule: push_cases)
      case idle
      then show ?thesis using inv check_timeout_facts by blast
    next
      case (dropped b evs0 g c r st)
      then show ?thesis by (simp add: rx_inv_def kHeaderSize_def)
    next
      case (taken b evs0 g c evs1 h)
      from extract_facts [OF taken(4)] taken(6) show ?thesis by (auto simp: rx_inv_def)
    qed
    with p RxPush show ?thesis by (simp add: rx_step_def)
  next
    case (RxCheck now)
    obtain b evs f' where "check_timeout now f = (b, evs, f')" using prod_cases3 by blast
    with RxCheck inv show ?thesis using check_timeout_facts [of now f b evs f']
      by (simp add: rx_step_def)
  next
    case RxReset
    then show ?thesis by (simp add: rx_step_def rx_inv_def rx_reset_def kHeaderSize_def)
  qed
qed

lemma rx_inv_new: "rx_inv (new_rx_framer timeout cap)"
  by (simp add: rx_inv_def new_rx_framer_def kHeaderSize_def)

subsection \<open>Properties\<close>

text \<open>C7: However a well-formed stream of frames is cut into notifications, as long as each
  notification is non-empty, at most 512 bytes and within the timeout of the previous one, the
  framer delivers exactly the payloads sent, each once and in order, and ends with nothing
  buffered.\<close>

theorem rx_reassembly:
  assumes "list_all (rx_payload_ok cap) ps"
    and "timely timeout None cs"
    and "concat (map fst cs) = concat (map rx_encode ps)"
  shows "fst (push_run (new_rx_framer timeout cap) cs) = map Frame ps \<and>
    rx_buffer (snd (push_run (new_rx_framer timeout cap) cs)) = []"
proof -
  let ?f = "new_rx_framer timeout cap"
  obtain k f' where run: "push_run ?f cs = (map Frame (take k ps), f')" "k \<le> length ps"
    "rx_buffer f' = concat (map rx_encode (drop k ps))"
    "k < length ps \<longrightarrow> length (rx_buffer f') < length (rx_encode (ps ! k))"
    using push_run_stream [of ?f ps None cs "[]"] assms by (auto simp: new_rx_framer_def)
  then have "\<not> k < length ps" by (auto simp: Cons_nth_drop_Suc [symmetric])
  with run show ?thesis by simp
qed

theorem rx_reassembly_witness:
  "fst (push_run (new_rx_framer 1000 2048)
     [([0, 2], 5, 0), ([7], 20, 3), ([8, 0, 1, 9], 900, 0)]) = [Frame [7, 8], Frame [9]]"
  using rx_reassembly [of 2048 "[[7, 8], [9]]" 1000 "[([0, 2], 5, 0), ([7], 20, 3), ([8, 0, 1, 9], 900, 0)]"]
  by (simp add: rx_payload_ok_def rx_encode_def Let_def drop_bit_eq_div)

text \<open>After any sequence of pushes, timeout checks and resets, whatever the bytes and the
  times, the reassembly buffer holds less than one maximal frame and its expiry clock runs exactly
  while something is buffered, also when frame callbacks reset the framer.\<close>

theorem rx_buffer_bounded:
  "rx_inv (foldl (rx_step resets) (new_rx_framer timeout cap) calls)"
  by (rule rx_machine.run_inv) (simp_all add: rx_inv_new list_all_iff)

text \<open>In any reachable framer a push of at most 512 bytes never trips the buffer ceiling.\<close>

theorem rx_no_overflow:
  assumes "f = foldl (rx_step resets) (new_rx_framer timeout cap) calls" "length c \<le> 512"
    "push_chunk resets (Some c) now span f = (n, evs, f')"
  shows "Dropped BufferOverflow k \<notin> set evs"
proof -
  have inv: "rx_inv f"
    unfolding assms(1) by (rule rx_machine.run_inv) (simp_all add: rx_inv_new list_all_iff)
  have ct: "Dropped BufferOverflow k \<notin> set evs0" if "check_timeout now f = (b, evs0, g)" for b evs0 g
    using that by (auto simp: check_timeout_def split: if_splits)
  from assms(3) show ?thesis
  proof (cases rule: push_cases)
    case idle
    then show ?thesis using ct by blast
  next
    case (dropped b evs0 g d r st)
    have "length (rx_buffer g) < kHeaderSize + rx_max_payload g"
      using check_timeout_facts [OF dropped(3)] inv by (simp add: rx_inv_def)
    with dropped assms(2) ct show ?thesis by auto
  next
    case (taken b evs0 g d evs1 h)
    with ct extract_no_overflow [OF taken(4)] show ?thesis by auto
  qed
qed

theorem rx_no_overflow_witness:
  "case push_chunk (\<lambda>_. False) (Some [0, 3, 1]) 7 0 (new_rx_framer 1000 4) of
     (n, evs, f') \<Rightarrow> Dropped BufferOverflow 5 \<notin> set evs"
  using rx_no_overflow [of _ "\<lambda>_. False" 1000 4 "[]" "[0, 3, 1]" 7 0]
  by (auto split: prod.splits)

text \<open>A push that arrives more than the timeout after the last buffered byte never joins old
  bytes with new ones: it reports the old bytes as dropped and then behaves as the same push into
  an emptied framer.\<close>

theorem rx_gap_never_joined:
  assumes "rx_buffer f \<noteq> []" "rx_has_chunk_time f"
    "rx_timeout_ms f < now - rx_last_chunk_time_ms f"
  shows "push_chunk resets data now span f =
    (let (n, evs, f') = push_chunk resets data now span
           (f\<lparr>rx_buffer := [], rx_has_chunk_time := False,
             rx_stats := (rx_stats f)\<lparr>timeout_drops := timeout_drops (rx_stats f) + 1\<rparr>\<rparr>)
     in (n, Dropped InterChunkTimeout (length (rx_buffer f)) # evs, f'))"
  using assms by (cases data) (auto simp: push_chunk_def check_timeout_def Let_def split: prod.splits)

theorem rx_gap_never_joined_witness:
  "fst (snd (push_chunk (\<lambda>_. False) (Some [0, 1, 9]) 5000 0
     ((new_rx_framer 1000 4)\<lparr>rx_buffer := [0, 2, 8], rx_has_chunk_time := True,
        rx_last_chunk_time_ms := 10\<rparr>))) = [Dropped InterChunkTimeout 3, Frame [9]]"
  by (subst rx_gap_never_joined)
    (simp_all add: new_rx_framer_def push_chunk_def check_timeout_def kHeaderSize_def Let_def
      extract_frames.simps be16_def)

text \<open>No byte is lost or invented: the bytes buffered before a push and the bytes pushed are
  the delivered frames with their headers, the bytes reported as dropped, and what stays buffered;
  the returned count is the number of frames delivered and each has 1 to the maximum of payload
  bytes.\<close>

theorem rx_bytes_accounted:
  assumes "push_chunk (\<lambda>_. False) (Some c) now span f = (n, evs, f')"
  shows "length (rx_buffer f) + length c = sum_list (map event_bytes evs) + length (rx_buffer f') \<and>
    n = frame_count evs \<and> list_all (frame_sizes_ok (rx_max_payload f)) evs"
  using assms
proof (cases rule: push_cases)
  case idle
  then show ?thesis using check_timeout_facts by fastforce
next
  case (dropped b evs0 g d r st)
  from check_timeout_facts [OF dropped(3)] dropped show ?thesis by auto
next
  case (taken b evs0 g d evs1 h)
  from check_timeout_facts [OF taken(3), of "rx_max_payload f"]
    extract_facts [OF taken(4)] extract_conserves [OF taken(4)] taken
  show ?thesis by auto
qed

theorem rx_bytes_accounted_witness:
  "case push_chunk (\<lambda>_. False) (Some [0, 1, 9, 0]) 7 0 (new_rx_framer 1000 4) of
     (n, evs, f') \<Rightarrow> 4 = sum_list (map event_bytes evs) + length (rx_buffer f')"
  using rx_bytes_accounted [of "[0, 1, 9, 0]" 7 0 "new_rx_framer 1000 4"]
  by (auto simp: new_rx_framer_def split: prod.splits)

lemma small_byte_no_field:
  assumes "unat (b :: u8) \<le> 7"
  shows "\<not> first_tag_ok (b # bs) 0 0"
proof -
  have "unat b \<in> unat ` ({0, 1, 2, 3, 4, 5, 6, 7} :: u8 set)" using assms by auto
  then have "b \<in> {0, 1, 2, 3, 4, 5, 6, 7}" by (simp only: image_iff word_unat_eq_iff [symmetric]) auto
  then show ?thesis by (auto simp: Let_def drop_bit_eq_div)
qed

text \<open>A frame wrapped in a second length header is never accepted for sending: if the frame is
  well formed, its doubly prefixed form is not.\<close>

theorem double_prefix_rejected:
  assumes "is_well_formed_ble_frame w"
  shows "\<not> is_well_formed_ble_frame (rx_encode w)"
proof
  assume outer: "is_well_formed_ble_frame (rx_encode w)"
  from assms have len: "3 \<le> length w" "unat (be16 (w ! 0) (w ! 1)) = length w - 2"
    "length w \<le> 2050"
    by (auto simp: is_well_formed_ble_frame_def kHeaderSize_def kMaxFrameLength_def
        kDefaultMaxPayload_def Let_def split: if_splits)
  have "length w \<le> 2048" "first_tag_ok w 0 0"
    using outer len header_length [of w]
    by (auto simp: is_well_formed_ble_frame_def kHeaderSize_def kMaxFrameLength_def
        kDefaultMaxPayload_def rx_encode_def Let_def split: if_splits)
  moreover from this(1) len have "unat (w ! 0) \<le> 7" by (simp add: unat_be16)
  moreover obtain bs where "w = w ! 0 # bs" using len(1) by (cases w) auto
  ultimately show False using small_byte_no_field by metis
qed

theorem double_prefix_rejected_witness:
  "\<not> is_well_formed_ble_frame [0, 4, 0, 2, 8, 1]"
  using double_prefix_rejected [of "[0, 2, 8, 1]"]
  by (simp add: is_well_formed_ble_frame_def kHeaderSize_def kMaxFrameLength_def
      kDefaultMaxPayload_def be16_def rx_encode_def Let_def drop_bit_eq_div)

end
