(* ===== verification/Dispatcher.thy ===== *)
theory Dispatcher
  imports Prelude
begin

text \<open>
  main/logic/ble_dispatcher.hpp: attribution of BLE responses to the outstanding requests, with an
  anti-replay window per request. The fixed array of eight request slots is a list of eight
  records, a slot pointer is its index, the opaque user pointer a number or None. A response's
  request UUID is, as in the code, a possibly null byte pointer and a length.
\<close>

subsection \<open>Anti-replay window\<close>

record anti_replay_window =
  window :: u64
  highest_counter :: u32
  window_used :: bool

definition kWindowSize :: u32 where "kWindowSize = 64"

definition fresh_window :: anti_replay_window where
  "fresh_window = \<lparr>window = 0, highest_counter = 0, window_used = False\<rparr>"

definition window_is_valid :: "u32 \<Rightarrow> anti_replay_window \<Rightarrow> bool" where
  "window_is_valid counter w =
     (if \<not> window_used w then True
      else if highest_counter w < counter then True
      else if kWindowSize \<le> highest_counter w - counter then False
      else window w AND push_bit (unat (highest_counter w - counter)) 1 = 0)"

definition window_add :: "u32 \<Rightarrow> anti_replay_window \<Rightarrow> bool \<times> anti_replay_window" where
  "window_add counter w =
     (if \<not> window_used w
      then (True, w\<lparr>highest_counter := counter, window := 1, window_used := True\<rparr>)
      else if highest_counter w < counter
      then let shift = counter - highest_counter w
           in (True, w\<lparr>window := (if kWindowSize \<le> shift then 1
                                   else push_bit (unat shift) (window w) OR 1),
                       highest_counter := counter\<rparr>)
      else if kWindowSize \<le> highest_counter w - counter then (False, w)
      else let mask = push_bit (unat (highest_counter w - counter)) 1
           in if window w AND mask \<noteq> 0 then (False, w)
              else (True, w\<lparr>window := window w OR mask\<rparr>))"

definition window_reset :: "anti_replay_window \<Rightarrow> anti_replay_window" where
  "window_reset w = w\<lparr>window := 0, highest_counter := 0, window_used := False\<rparr>"

text \<open>The abstract window: the set of all counters accepted since the last reset.\<close>

definition window_rep :: "anti_replay_window \<Rightarrow> u32 set \<Rightarrow> bool" where
  "window_rep w S \<longleftrightarrow>
     (\<not> window_used w \<longrightarrow> S = {}) \<and>
     (window_used w \<longrightarrow> highest_counter w \<in> S \<and> (\<forall>c \<in> S. c \<le> highest_counter w) \<and>
       (\<forall>c \<le> highest_counter w. highest_counter w - c < 64 \<longrightarrow>
          (bit (window w) (unat (highest_counter w - c)) \<longleftrightarrow> c \<in> S)))"

text \<open>The abstract rule: accept the first counter, every counter above the maximum, and an unseen
  counter less than 64 below it.\<close>

definition replay_rule :: "u32 \<Rightarrow> u32 set \<Rightarrow> bool" where
  "replay_rule c S \<longleftrightarrow> S = {} \<or> Max S < c \<or> (Max S - c < 64 \<and> c \<notin> S)"

lemma and_push_bit_one: "w AND push_bit n 1 = 0 \<longleftrightarrow> \<not> bit (w :: 'a::len word) n"
proof (cases "n < LENGTH('a)")
  case True
  show ?thesis
  proof
    assume "w AND push_bit n 1 = 0"
    then have "\<not> bit (w AND push_bit n 1) n" by simp
    with True show "\<not> bit w n" by (simp add: bit_and_iff bit_exp_iff)
  next
    assume "\<not> bit w n"
    with True show "w AND push_bit n 1 = 0"
      by (intro bit_word_eqI) (auto simp: bit_and_iff bit_exp_iff)
  qed
next
  case False
  then show ?thesis
    by (auto intro!: bit_word_eqI simp: bit_and_iff bit_exp_iff dest: bit_imp_le_length)
qed

lemma window_valid_iff_add: "window_is_valid c w = fst (window_add c w)"
  by (simp add: window_is_valid_def window_add_def Let_def)

lemma window_rep_fresh: "window_rep fresh_window {}"
  by (simp add: window_rep_def fresh_window_def)

lemma window_rep_reset: "window_rep (window_reset w) {}"
  by (simp add: window_rep_def window_reset_def)

lemma window_rep_max: "window_rep w S \<Longrightarrow> window_used w \<Longrightarrow> S \<noteq> {} \<and> Max S = highest_counter w"
  by (auto simp: window_rep_def intro!: Max_eqI)

lemma window_rep_none: "window_rep w S \<Longrightarrow> \<not> window_used w \<Longrightarrow> S = {}"
  by (simp add: window_rep_def)

lemma word_gap:
  fixes a b c :: u32
  assumes "a < b" "c \<le> a"
  shows "unat (b - c) = unat (b - a) + unat (a - c)" "a - c < 64 \<Longrightarrow> unat (a - c) < 64"
proof -
  have fits: "unat (b - a) + unat (a - c) < 2 ^ LENGTH(32)"
    using assms unsigned_less [where 'a = nat, of b] by (simp add: unat_sub word_le_nat_alt word_less_nat_alt)
  show "unat (b - c) = unat (b - a) + unat (a - c)"
    using iffD1 [OF unat_add_lem fits] by simp
  show "a - c < 64 \<Longrightarrow> unat (a - c) < 64" by (simp add: word_less_nat_alt)
qed

lemma window_rep_higher:
  assumes rep: "window_rep w S" and used: "window_used w" and up: "highest_counter w < c"
  shows "window_rep (snd (window_add c w)) (insert c S)"
proof -
  let ?h = "highest_counter w"
  let ?s = "unat (c - ?h)"
  let ?w = "snd (window_add c w)"
  have win: "window ?w = (if 64 \<le> c - ?h then 1 else push_bit ?s (window w) OR 1)"
    "highest_counter ?w = c" "window_used ?w"
    using used up by (auto simp: window_add_def kWindowSize_def Let_def)
  have pos: "0 < ?s" using up by (simp add: unat_gt_0) 
  have "bit (window ?w) (unat (c - d)) \<longleftrightarrow> d \<in> insert c S" if d: "d \<le> c" "c - d < 64" for d
  proof (cases "d \<le> ?h")
    case True
    have gap: "unat (c - d) = ?s + unat (?h - d)" by (rule word_gap [OF up True])
    have lt: "unat (c - d) < 64" using d(2) by (simp add: word_less_nat_alt)
    then have "\<not> 64 \<le> c - ?h" using gap by (simp add: word_le_nat_alt)
    moreover have "?h - d < 64" using gap lt by (simp add: word_less_nat_alt)
    ultimately show ?thesis
      using rep used True gap lt pos up
      by (auto simp: win window_rep_def bit_or_iff bit_push_bit_iff bit_1_iff)
  next
    case False
    then have "d \<notin> S" using rep used by (auto simp: window_rep_def)
    moreover have "\<not> bit (push_bit ?s (window w)) (unat (c - d))"
    proof -
      have "unat (c - d) < ?s"
        using False d up by (auto simp: unat_sub word_le_nat_alt word_less_nat_alt not_le)
      then show ?thesis by (simp add: bit_push_bit_iff)
    qed
    ultimately show ?thesis
      using d by (auto simp: win bit_or_iff bit_1_iff unat_eq_0)
  qed
  moreover have "\<forall>d \<in> insert c S. d \<le> c"
    using rep used up by (auto simp: window_rep_def)
  ultimately show ?thesis using win by (simp add: window_rep_def)
qed

lemma window_rep_inside:
  assumes rep: "window_rep w S" and used: "window_used w" and low: "c \<le> highest_counter w"
    and near: "highest_counter w - c < 64"
  shows "window_rep (w\<lparr>window := window w OR push_bit (unat (highest_counter w - c)) 1\<rparr>) (insert c S)"
proof -
  let ?h = "highest_counter w"
  have "bit (window w OR push_bit (unat (?h - c)) 1) (unat (?h - d)) \<longleftrightarrow> d \<in> insert c S"
    if d: "d \<le> ?h" "?h - d < 64" for d
  proof -
    have "unat (?h - d) < 64" using d(2) by (simp add: word_less_nat_alt)
    moreover have "unat (?h - d) = unat (?h - c) \<longleftrightarrow> d = c"
      by (simp add: word_unat_eq_iff [symmetric])
    moreover have "bit (window w) (unat (?h - d)) \<longleftrightarrow> d \<in> S"
      using rep used d by (simp add: window_rep_def)
    ultimately show ?thesis by (auto simp: bit_or_iff bit_exp_iff)
  qed
  with rep used low show ?thesis by (auto simp: window_rep_def)
qed

lemma window_add_rule:
  assumes "window_rep w S"
  shows "fst (window_add c w) \<longleftrightarrow> replay_rule c S"
proof (cases "window_used w")
  case False
  with assms show ?thesis by (simp add: window_add_def replay_rule_def window_rep_none)
next
  case True
  note mx = window_rep_max [OF assms True]
  have "bit (window w) (unat (highest_counter w - c)) \<longleftrightarrow> c \<in> S"
    if "c \<le> highest_counter w" "highest_counter w - c < 64"
    using assms True that by (simp add: window_rep_def)
  then show ?thesis
    using True mx
    by (auto simp: window_add_def replay_rule_def kWindowSize_def Let_def and_push_bit_one
        simp del: push_bit_of_1 split: if_splits)
qed

lemma window_add_rep:
  assumes "window_rep w S"
  shows "window_rep (snd (window_add c w)) (if fst (window_add c w) then insert c S else S)"
proof -
  consider "\<not> window_used w" | "window_used w" "highest_counter w < c"
    | "window_used w" "c \<le> highest_counter w" "64 \<le> highest_counter w - c"
    | "window_used w" "c \<le> highest_counter w" "highest_counter w - c < 64"
    by (meson linorder_not_le)
  then show ?thesis
  proof cases
    case 1
    with assms show ?thesis
      by (auto simp: window_add_def window_rep_def bit_1_iff unat_eq_0)
  next
    case 2
    with window_rep_higher [OF assms 2] show ?thesis
      by (simp add: window_add_def Let_def)
  next
    case 3
    with assms show ?thesis by (auto simp: window_add_def kWindowSize_def)
  next
    case 4
    with assms window_rep_inside [OF assms 4(1,2,3)] show ?thesis
      by (auto simp: window_add_def kWindowSize_def Let_def not_le not_less simp del: push_bit_of_1)
  qed
qed

subsection \<open>What a replay filter gives its client\<close>

text \<open>The contract of a replay filter over the set of accepted keys: an accepted key is new and is
  remembered, a refusal changes nothing of the set. The keys a filter accepts in one run are then
  pairwise distinct.\<close>

locale replay_filter =
  fixes accept :: "'k \<Rightarrow> 'w \<Rightarrow> bool \<times> 'w"
    and rep :: "'w \<Rightarrow> 'k set \<Rightarrow> bool"
  assumes accept_new: "rep w S \<Longrightarrow> fst (accept k w) \<Longrightarrow> k \<notin> S"
    and accept_rep: "rep w S \<Longrightarrow> rep (snd (accept k w)) (if fst (accept k w) then insert k S else S)"
begin

fun accepted :: "'w \<Rightarrow> 'k list \<Rightarrow> 'k list" where
  "accepted w [] = []"
| "accepted w (k # ks) =
     (if fst (accept k w) then k # accepted (snd (accept k w)) ks else accepted (snd (accept k w)) ks)"

lemma accepted_distinct: "rep w S \<Longrightarrow> distinct (accepted w ks) \<and> set (accepted w ks) \<inter> S = {}"
proof (induction ks arbitrary: w S)
  case Nil
  show ?case by simp
next
  case (Cons k ks)
  from Cons.IH [OF accept_rep [OF Cons.prems, of k]] accept_new [OF Cons.prems, of k]
  show ?case by (auto split: if_splits)
qed

end

lemma replay_rule_new: "replay_rule c S \<Longrightarrow> c \<notin> S"
  using Max_ge [OF finite, of c S] by (auto simp: replay_rule_def not_le [symmetric])

interpretation window_filter: replay_filter window_add window_rep
proof
  fix w S and k :: u32
  assume rep: "window_rep w S"
  show "fst (window_add k w) \<Longrightarrow> k \<notin> S"
    using window_add_rule [OF rep] replay_rule_new [of k S] by simp
  show "window_rep (snd (window_add k w)) (if fst (window_add k w) then insert k S else S)"
    by (rule window_add_rep [OF rep])
qed

subsection \<open>Dispatcher state\<close>

datatype ble_domain = DomainNone | Broadcast | VehicleSecurity | Infotainment

type_synonym ble_uuid = bytes

definition kBleUuidSize :: nat where "kBleUuidSize = 16"

datatype vcsec_admission = Plaintext | Decrypt | DropPayload

definition vcsec_payload_admission :: "bool \<Rightarrow> bool \<Rightarrow> bool \<Rightarrow> vcsec_admission" where
  "vcsec_payload_admission encrypted session_ready has_request_hash =
     (if \<not> encrypted then Plaintext
      else if session_ready \<and> has_request_hash then Decrypt else DropPayload)"

definition is_zero_uuid :: "ble_uuid \<Rightarrow> bool" where
  "is_zero_uuid u = list_all (\<lambda>b. b = 0) u"

definition uuids_equal :: "bytes \<Rightarrow> bytes \<Rightarrow> nat \<Rightarrow> bool" where
  "uuids_equal a b len = (if len \<noteq> kBleUuidSize then False
     else take kBleUuidSize a = take kBleUuidSize b)"

datatype dispatch_drop_reason = DispatchNone | MissingSource | InvalidUuidLength | Unmatched | Replay

record dispatch_outcome =
  routed :: bool
  drop_reason :: dispatch_drop_reason
  outcome_request_id :: u32
  outcome_user_data :: "nat option"

record dispatcher_stats =
  routed_count :: u32
  unmatched_drops :: u32
  replay_drops :: u32
  invalid_uuid_drops :: u32
  missing_source_drops :: u32

record request_slot =
  slot_id :: u32
  slot_domain :: ble_domain
  slot_uuid :: ble_uuid
  slot_user_data :: "nat option"
  slot_replay :: anti_replay_window
  plaintext_count :: u32
  slot_active :: bool

record ble_dispatcher =
  slots :: "request_slot list"
  active_count :: nat
  next_request_id :: u32
  dstats :: dispatcher_stats

definition kMaxRequests :: nat where "kMaxRequests = 8"

definition empty_slot :: request_slot where
  "empty_slot = \<lparr>slot_id = 0, slot_domain = DomainNone, slot_uuid = replicate kBleUuidSize 0,
     slot_user_data = None, slot_replay = fresh_window, plaintext_count = 0, slot_active = False\<rparr>"

definition new_dispatcher :: ble_dispatcher where
  "new_dispatcher = \<lparr>slots = replicate kMaxRequests empty_slot, active_count = 0,
     next_request_id = 1, dstats = \<lparr>routed_count = 0, unmatched_drops = 0, replay_drops = 0,
     invalid_uuid_drops = 0, missing_source_drops = 0\<rparr>\<rparr>"

subsection \<open>Dispatcher operations\<close>

definition dispatcher_reset :: "ble_dispatcher \<Rightarrow> ble_dispatcher" where
  "dispatcher_reset d = d\<lparr>slots := map (\<lambda>_. empty_slot) (slots d), active_count := 0\<rparr>"

definition holds_uuid :: "ble_domain \<Rightarrow> ble_uuid \<Rightarrow> request_slot \<Rightarrow> bool" where
  "holds_uuid domain uuid s \<longleftrightarrow>
     slot_active s \<and> slot_domain s = domain \<and> uuids_equal (slot_uuid s) uuid kBleUuidSize"

definition register_request ::
    "ble_domain \<Rightarrow> ble_uuid \<Rightarrow> nat option \<Rightarrow> ble_dispatcher \<Rightarrow> u32 \<times> ble_dispatcher" where
  "register_request domain uuid user_data d =
     (if domain = DomainNone then (0, d)
      else if \<not> is_zero_uuid uuid \<and> list_ex (holds_uuid domain uuid) (slots d) then (0, d)
      else case first_index (\<lambda>s. \<not> slot_active s) (slots d) of
             None \<Rightarrow> (0, d)
           | Some i \<Rightarrow>
               let s = slots d ! i; id = next_request_id d; next = id + 1
               in (id, d\<lparr>slots := (slots d)[i := s\<lparr>slot_id := id, slot_domain := domain,
                               slot_uuid := uuid, slot_user_data := user_data,
                               slot_replay := window_reset (slot_replay s),
                               plaintext_count := 0, slot_active := True\<rparr>],
                         next_request_id := (if next = 0 then 1 else next),
                         active_count := active_count d + 1\<rparr>))"

definition unregister_request :: "u32 \<Rightarrow> ble_dispatcher \<Rightarrow> bool \<times> ble_dispatcher" where
  "unregister_request request_id d =
     (if request_id = 0 then (False, d)
      else case first_index (\<lambda>s. slot_active s \<and> slot_id s = request_id) (slots d) of
             None \<Rightarrow> (False, d)
           | Some i \<Rightarrow> (True, d\<lparr>slots := (slots d)[i := empty_slot],
                                active_count := active_count d - 1\<rparr>))"

definition has_request :: "u32 \<Rightarrow> ble_dispatcher \<Rightarrow> bool" where
  "has_request request_id d =
     (if request_id = 0 then False
      else list_ex (\<lambda>s. slot_active s \<and> slot_id s = request_id) (slots d))"

text \<open>The shared matcher: the index of the selected slot, or the reason there is none.\<close>

definition match_slot ::
    "ble_domain \<Rightarrow> bytes option \<Rightarrow> nat \<Rightarrow> ble_dispatcher \<Rightarrow> nat option \<times> dispatch_drop_reason" where
  "match_slot from uuid_bytes uuid_len d =
     (if from \<noteq> VehicleSecurity \<and> from \<noteq> Infotainment then (None, MissingSource)
      else if uuid_len \<noteq> 0 \<and> uuid_len \<noteq> kBleUuidSize then (None, InvalidUuidLength)
      else
        let exact = (case uuid_bytes of
                       Some u \<Rightarrow> if uuid_len = kBleUuidSize
                                 then first_index (holds_uuid from u) (slots d) else None
                     | None \<Rightarrow> None);
            matched = (if exact = None \<and> uuid_len = 0 \<and> from = VehicleSecurity
                       then first_index (\<lambda>s. slot_active s \<and> slot_domain s = VehicleSecurity)
                              (slots d)
                       else exact)
        in (case matched of None \<Rightarrow> (None, Unmatched) | Some i \<Rightarrow> (Some i, DispatchNone)))"

definition match_response ::
    "ble_domain \<Rightarrow> bytes option \<Rightarrow> nat \<Rightarrow> ble_dispatcher \<Rightarrow> dispatch_outcome" where
  "match_response from uuid_bytes uuid_len d =
     (case match_slot from uuid_bytes uuid_len d of
        (Some i, _) \<Rightarrow> \<lparr>routed = True, drop_reason = DispatchNone,
                        outcome_request_id = slot_id (slots d ! i),
                        outcome_user_data = slot_user_data (slots d ! i)\<rparr>
      | (None, reason) \<Rightarrow> \<lparr>routed = False, drop_reason = reason, outcome_request_id = 0,
                        outcome_user_data = None\<rparr>)"

definition record_match_rejection :: "dispatch_drop_reason \<Rightarrow> ble_dispatcher \<Rightarrow> ble_dispatcher" where
  "record_match_rejection reason d =
     (let st = dstats d in
      case reason of
        MissingSource \<Rightarrow> d\<lparr>dstats := st\<lparr>missing_source_drops := missing_source_drops st + 1\<rparr>\<rparr>
      | InvalidUuidLength \<Rightarrow> d\<lparr>dstats := st\<lparr>invalid_uuid_drops := invalid_uuid_drops st + 1\<rparr>\<rparr>
      | Unmatched \<Rightarrow> d\<lparr>dstats := st\<lparr>unmatched_drops := unmatched_drops st + 1\<rparr>\<rparr>
      | _ \<Rightarrow> d)"

definition match_response_or_record_rejection ::
    "ble_domain \<Rightarrow> bytes option \<Rightarrow> nat \<Rightarrow> ble_dispatcher \<Rightarrow> bool \<times> ble_dispatcher" where
  "match_response_or_record_rejection from uuid_bytes uuid_len d =
     (case match_slot from uuid_bytes uuid_len d of
        (Some _, _) \<Rightarrow> (True, d)
      | (None, reason) \<Rightarrow> (False, record_match_rejection reason d))"

text \<open>The replay check of the selected slot: an authenticated response carries its counter, a
  plaintext one has none.\<close>

definition slot_admit :: "u32 option \<Rightarrow> request_slot \<Rightarrow> bool \<times> request_slot" where
  "slot_admit counter s =
     (case counter of
        Some c \<Rightarrow> let (ok, w) = window_add c (slot_replay s) in (ok, s\<lparr>slot_replay := w\<rparr>)
      | None \<Rightarrow> if 0 < plaintext_count s then (False, s)
                else (True, s\<lparr>plaintext_count := plaintext_count s + 1\<rparr>))"

definition dispatch ::
    "ble_domain \<Rightarrow> bytes option \<Rightarrow> nat \<Rightarrow> u32 option \<Rightarrow> ble_dispatcher \<Rightarrow>
     dispatch_outcome \<times> ble_dispatcher" where
  "dispatch from uuid_bytes uuid_len counter d =
     (case match_slot from uuid_bytes uuid_len d of
        (None, reason) \<Rightarrow>
          (\<lparr>routed = False, drop_reason = reason, outcome_request_id = 0, outcome_user_data = None\<rparr>,
           record_match_rejection reason d)
      | (Some i, _) \<Rightarrow>
          let (ok, s) = slot_admit counter (slots d ! i);
              d1 = d\<lparr>slots := (slots d)[i := s]\<rparr>; st = dstats d
          in (if ok
              then (\<lparr>routed = True, drop_reason = DispatchNone, outcome_request_id = slot_id s,
                     outcome_user_data = slot_user_data s\<rparr>,
                    d1\<lparr>dstats := st\<lparr>routed_count := routed_count st + 1\<rparr>\<rparr>)
              else (\<lparr>routed = False, drop_reason = Replay, outcome_request_id = slot_id s,
                     outcome_user_data = slot_user_data s\<rparr>,
                    d1\<lparr>dstats := st\<lparr>replay_drops := replay_drops st + 1\<rparr>\<rparr>)))"

subsection \<open>Invariant\<close>

definition registered :: "request_slot \<Rightarrow> request_slot \<Rightarrow> bool" where
  "registered s t \<longleftrightarrow> slot_active s \<and> slot_active t \<and> slot_domain s = slot_domain t \<and>
     slot_uuid s = slot_uuid t"

definition slot_wf :: "request_slot \<Rightarrow> bool" where
  "slot_wf s \<longleftrightarrow> length (slot_uuid s) = kBleUuidSize \<and>
     (slot_active s \<longrightarrow> slot_domain s \<noteq> DomainNone \<and> slot_id s \<noteq> 0) \<and>
     (\<not> slot_active s \<longrightarrow> s = empty_slot)"

definition dispatcher_inv :: "ble_dispatcher \<Rightarrow> bool" where
  "dispatcher_inv d \<longleftrightarrow>
     length (slots d) = kMaxRequests \<and> next_request_id d \<noteq> 0 \<and> list_all slot_wf (slots d) \<and>
     active_count d = length (filter slot_active (slots d)) \<and>
     (\<forall>i < kMaxRequests. \<forall>j < kMaxRequests. i \<noteq> j \<and> registered (slots d ! i) (slots d ! j) \<longrightarrow>
        is_zero_uuid (slot_uuid (slots d ! i)))"

datatype dispatcher_call =
    Register ble_domain ble_uuid "nat option"
  | Unregister u32
  | Dispatch ble_domain "bytes option" nat "u32 option"
  | Admit ble_domain "bytes option" nat
  | Reject dispatch_drop_reason
  | DispatcherReset

definition dispatcher_step :: "ble_dispatcher \<Rightarrow> dispatcher_call \<Rightarrow> ble_dispatcher" where
  "dispatcher_step d c =
     (case c of
        Register domain uuid user_data \<Rightarrow> snd (register_request domain uuid user_data d)
      | Unregister request_id \<Rightarrow> snd (unregister_request request_id d)
      | Dispatch from uuid len counter \<Rightarrow> snd (dispatch from uuid len counter d)
      | Admit from uuid len \<Rightarrow> snd (match_response_or_record_rejection from uuid len d)
      | Reject reason \<Rightarrow> record_match_rejection reason d
      | DispatcherReset \<Rightarrow> dispatcher_reset d)"

text \<open>The type of a UUID argument is a 16-byte array.\<close>

fun call_ok :: "dispatcher_call \<Rightarrow> bool" where
  "call_ok (Register domain uuid user_data) = (length uuid = kBleUuidSize)"
| "call_ok c = True"

lemma empty_slot_wf [simp]: "slot_wf empty_slot" "\<not> slot_active empty_slot"
  by (simp_all add: slot_wf_def empty_slot_def)

lemma record_match_rejection_slots [simp]:
  "slots (record_match_rejection r d) = slots d"
  "active_count (record_match_rejection r d) = active_count d"
  "next_request_id (record_match_rejection r d) = next_request_id d"
  by (simp_all add: record_match_rejection_def Let_def split: dispatch_drop_reason.split)

lemma dispatcher_inv_cong:
  "slots d = slots e \<Longrightarrow> active_count d = active_count e \<Longrightarrow> next_request_id d = next_request_id e \<Longrightarrow>
   dispatcher_inv d = dispatcher_inv e"
  by (simp add: dispatcher_inv_def)

lemma new_dispatcher_inv: "dispatcher_inv new_dispatcher"
  by (auto simp: dispatcher_inv_def new_dispatcher_def kMaxRequests_def registered_def list_all_iff)

lemma dispatcher_reset_inv: "dispatcher_inv d \<Longrightarrow> dispatcher_inv (dispatcher_reset d)"
  by (auto simp: dispatcher_inv_def dispatcher_reset_def registered_def list_all_iff)

lemma unregister_inv:
  assumes "dispatcher_inv d"
  shows "dispatcher_inv (snd (unregister_request rid d))"
proof (cases "rid = 0 \<or> first_index (\<lambda>s. slot_active s \<and> slot_id s = rid) (slots d) = None")
  case True
  with assms show ?thesis by (auto simp: unregister_request_def)
next
  case False
  then obtain i where i: "first_index (\<lambda>s. slot_active s \<and> slot_id s = rid) (slots d) = Some i"
    and rid: "rid \<noteq> 0" by auto
  from first_index_SomeD [OF i] have lt: "i < length (slots d)" and act: "slot_active (slots d ! i)"
    by auto
  have "list_all slot_wf ((slots d)[i := empty_slot])"
    using assms by (auto simp: dispatcher_inv_def list_all_iff dest!: set_update_subset_insert [THEN subsetD])
  then show ?thesis
    using assms lt length_filter_update_del [of i "slots d" slot_active empty_slot] act
    by (auto simp: unregister_request_def i rid dispatcher_inv_def registered_def nth_list_update)
qed

lemma uuids_equal_iff:
  "length a = kBleUuidSize \<Longrightarrow> length b = kBleUuidSize \<Longrightarrow> uuids_equal a b kBleUuidSize \<longleftrightarrow> a = b"
  by (simp add: uuids_equal_def)

lemma window_reset_fresh: "window_reset w = fresh_window"
  by (cases w) (simp add: window_reset_def fresh_window_def)

lemma slot_overwritten:
  "s\<lparr>slot_id := i, slot_domain := dmn, slot_uuid := u, slot_user_data := ud, slot_replay := w,
     plaintext_count := n, slot_active := a\<rparr> =
   \<lparr>slot_id = i, slot_domain = dmn, slot_uuid = u, slot_user_data = ud, slot_replay = w,
     plaintext_count = n, slot_active = a\<rparr>"
  by (cases s) simp

lemma register_cases:
  assumes "register_request domain uuid ud d = (r, d')"
  obtains (refused) "r = 0" "d' = d"
      "domain = DomainNone \<or> (\<not> is_zero_uuid uuid \<and> list_ex (holds_uuid domain uuid) (slots d)) \<or>
       list_all slot_active (slots d)"
  | (taken) i s where "domain \<noteq> DomainNone"
      "is_zero_uuid uuid \<or> list_all (\<lambda>s. \<not> holds_uuid domain uuid s) (slots d)"
      "first_index (\<lambda>s. \<not> slot_active s) (slots d) = Some i" "r = next_request_id d"
      "s = \<lparr>slot_id = r, slot_domain = domain, slot_uuid = uuid, slot_user_data = ud,
        slot_replay = fresh_window, plaintext_count = 0, slot_active = True\<rparr>"
      "d' = d\<lparr>slots := (slots d)[i := s], next_request_id := (if r + 1 = 0 then 1 else r + 1),
        active_count := active_count d + 1\<rparr>"
proof -
  consider "domain = DomainNone \<or> (\<not> is_zero_uuid uuid \<and> list_ex (holds_uuid domain uuid) (slots d))"
    | "first_index (\<lambda>s. \<not> slot_active s) (slots d) = None"
    | i where "domain \<noteq> DomainNone" "is_zero_uuid uuid \<or> \<not> list_ex (holds_uuid domain uuid) (slots d)"
        "first_index (\<lambda>s. \<not> slot_active s) (slots d) = Some i"
    by (cases "first_index (\<lambda>s. \<not> slot_active s) (slots d)") blast+
  then show thesis
  proof cases
    case 1
    then have "register_request domain uuid ud d = (0, d)" by (auto simp: register_request_def)
    with 1 assms show ?thesis by (intro refused) auto
  next
    case 2
    then have "list_all slot_active (slots d)" by (simp add: list_all_iff first_index_None)
    with 2 assms show ?thesis
      by (intro refused) (auto simp: register_request_def split: if_splits)
  next
    case (3 i)
    let ?s = "\<lparr>slot_id = r, slot_domain = domain, slot_uuid = uuid, slot_user_data = ud,
        slot_replay = fresh_window, plaintext_count = 0, slot_active = True\<rparr>"
    have "r = next_request_id d \<and> d' = d\<lparr>slots := (slots d)[i := ?s],
        next_request_id := (if r + 1 = 0 then 1 else r + 1), active_count := active_count d + 1\<rparr>"
      using assms 3
      by (auto simp: register_request_def Let_def window_reset_fresh slot_overwritten)
    with 3 show ?thesis by (intro taken [of i ?s]) (auto simp: list_all_iff list_ex_iff)
  qed
qed

lemma register_inv:
  assumes inv: "dispatcher_inv d" and len: "length uuid = kBleUuidSize"
  shows "dispatcher_inv (snd (register_request domain uuid ud d))"
proof -
  obtain r d' where reg: "register_request domain uuid ud d = (r, d')" by (cases "register_request domain uuid ud d")
  from reg have "dispatcher_inv d'"
  proof (cases rule: register_cases)
    case refused
    with inv show ?thesis by simp
  next
    case (taken i s)
    from first_index_SomeD [OF taken(3)] have lt: "i < length (slots d)"
      and free: "\<not> slot_active (slots d ! i)" by auto
    have wf: "slot_wf s" using taken len inv by (simp add: slot_wf_def dispatcher_inv_def)
    have "list_all slot_wf (slots d')"
      using inv wf by (auto simp: taken dispatcher_inv_def list_all_iff dest!: set_update_subset_insert [THEN subsetD])
    moreover have "active_count d' = length (filter slot_active (slots d'))"
      using inv lt free length_filter_update_add [of i "slots d" slot_active s]
      by (simp add: taken dispatcher_inv_def)
    moreover have clash: "is_zero_uuid uuid"
      if "j < length (slots d)" "registered s (slots d ! j)" for j
    proof -
      have "length (slot_uuid (slots d ! j)) = kBleUuidSize"
        using that inv by (auto simp: dispatcher_inv_def list_all_length slot_wf_def)
      then have "holds_uuid domain uuid (slots d ! j)"
        using that len by (auto simp: holds_uuid_def registered_def taken uuids_equal_iff)
      with taken(2) that show ?thesis by (auto simp: list_all_length)
    qed
    have "is_zero_uuid (slot_uuid (slots d' ! j))"
      if "j < kMaxRequests" "k < kMaxRequests" "j \<noteq> k" "registered (slots d' ! j) (slots d' ! k)" for j k
      using that inv lt clash [of j] clash [of k]
      by (auto simp: taken dispatcher_inv_def nth_list_update registered_def split: if_splits)
    ultimately show ?thesis using inv by (auto simp: dispatcher_inv_def taken)
  qed
  with reg show ?thesis by simp
qed

lemma match_slot_SomeD:
  assumes "match_slot from u len d = (Some i, r)"
  shows "i < length (slots d)" "slot_active (slots d ! i)" "slot_domain (slots d ! i) = from"
    "from = VehicleSecurity \<or> from = Infotainment" "r = DispatchNone"
    "(\<exists>b. u = Some b \<and> len = kBleUuidSize \<and>
        uuids_equal (slot_uuid (slots d ! i)) b kBleUuidSize) \<or>
     (len = 0 \<and> from = VehicleSecurity \<and>
        (\<forall>j < i. \<not> (slot_active (slots d ! j) \<and> slot_domain (slots d ! j) = VehicleSecurity)))"
  using assms
  by (auto simp: match_slot_def Let_def holds_uuid_def kBleUuidSize_def
      split: if_splits option.splits dest!: first_index_SomeD)

lemma match_slot_NoneD:
  "match_slot from u len d = (None, r) \<Longrightarrow>
   r = MissingSource \<or> r = InvalidUuidLength \<or> r = Unmatched"
  by (auto simp: match_slot_def Let_def split: if_splits option.splits)

lemma slot_admit_keeps:
  assumes "slot_admit c s = (ok, t)"
  shows "slot_id t = slot_id s" "slot_domain t = slot_domain s" "slot_uuid t = slot_uuid s"
    "slot_user_data t = slot_user_data s" "slot_active t = slot_active s"
  using assms by (auto simp: slot_admit_def Let_def split: option.splits prod.splits if_splits)

lemma dispatch_cases:
  obtains (rejected) r where "match_slot from u len d = (None, r)"
      "dispatch from u len c d =
        (\<lparr>routed = False, drop_reason = r, outcome_request_id = 0, outcome_user_data = None\<rparr>,
         record_match_rejection r d)"
  | (matched) i s ok st where "match_slot from u len d = (Some i, DispatchNone)"
      "slot_admit c (slots d ! i) = (ok, s)"
      "dispatch from u len c d =
        (\<lparr>routed = ok, drop_reason = (if ok then DispatchNone else Replay),
          outcome_request_id = slot_id (slots d ! i),
          outcome_user_data = slot_user_data (slots d ! i)\<rparr>,
         d\<lparr>slots := (slots d)[i := s], dstats := st\<rparr>)"
      "st = (if ok then (dstats d)\<lparr>routed_count := routed_count (dstats d) + 1\<rparr>
             else (dstats d)\<lparr>replay_drops := replay_drops (dstats d) + 1\<rparr>)"
proof (cases "match_slot from u len d")
  case (Pair m r)
  show thesis
  proof (cases m)
    case None
    with Pair show ?thesis by (intro rejected) (auto simp: dispatch_def)
  next
    case (Some i)
    obtain ok s where adm: "slot_admit c (slots d ! i) = (ok, s)" by fastforce
    have "r = DispatchNone" using match_slot_SomeD(5) Pair Some by blast
    with Pair Some adm slot_admit_keeps [OF adm] show ?thesis
      by (intro matched [of i ok s]) (auto simp: dispatch_def Let_def)
  qed
qed

lemma dispatch_inv:
  assumes "dispatcher_inv d"
  shows "dispatcher_inv (snd (dispatch from u len c d))"
proof (cases rule: dispatch_cases [of "from" u len d c])
  case (rejected r)
  then show ?thesis using assms by (simp add: dispatcher_inv_cong [of "record_match_rejection r d" d])
next
  case (matched i s ok st)
  note m = match_slot_SomeD [OF matched(1)] and k = slot_admit_keeps [OF matched(2)]
  have "slot_wf s"
    using assms m(1,2) k by (auto simp: dispatcher_inv_def list_all_length slot_wf_def)
  then show ?thesis
    using assms m(1,2) k length_filter_update_same [of i "slots d" slot_active s]
    by (auto simp: matched dispatcher_inv_def registered_def nth_list_update list_all_length)
qed

interpretation dispatcher_machine: transition_system dispatcher_step dispatcher_inv call_ok
proof
  fix d c
  assume inv: "dispatcher_inv d" and ok: "call_ok c"
  have adm: "dispatcher_inv (snd (match_response_or_record_rejection f u n d))" for f u n
    using inv dispatcher_inv_cong [of "record_match_rejection r d" d for r]
    by (auto simp: match_response_or_record_rejection_def split: prod.split option.split)
  show "dispatcher_inv (dispatcher_step d c)"
    using inv ok adm dispatcher_inv_cong [of "record_match_rejection r d" d for r]
    by (cases c) (auto simp: dispatcher_step_def register_inv unregister_inv dispatch_inv
        dispatcher_reset_inv)
qed

subsection \<open>Replay protection of a registration\<close>

text \<open>A slot is a replay filter over authenticated counters and the one plaintext answer.\<close>

definition slot_rep :: "request_slot \<Rightarrow> u32 option set \<Rightarrow> bool" where
  "slot_rep s S \<longleftrightarrow> window_rep (slot_replay s) {c. Some c \<in> S} \<and>
     (None \<in> S \<longleftrightarrow> 0 < plaintext_count s)"

interpretation slot_filter: replay_filter slot_admit slot_rep
proof
  fix s S and k :: "u32 option"
  assume rep: "slot_rep s S"
  then have w: "window_rep (slot_replay s) {c. Some c \<in> S}" by (simp add: slot_rep_def)
  show "k \<notin> S" if "fst (slot_admit k s)"
    using rep that window_filter.accept_new [OF w]
    by (cases k) (auto simp: slot_admit_def slot_rep_def split: prod.splits if_splits)
  show "slot_rep (snd (slot_admit k s)) (if fst (slot_admit k s) then insert k S else S)"
  proof (cases k)
    case None
    have "0 < plaintext_count s + 1" if "\<not> 0 < plaintext_count s"
      using that by (simp add: not_less)
    with None rep show ?thesis
      by (auto simp: slot_admit_def slot_rep_def split: if_splits)
  next
    case (Some c)
    have "{c'. c' = c \<or> Some c' \<in> S} = insert c {c'. Some c' \<in> S}" by auto
    with Some rep window_filter.accept_rep [OF w, of c] show ?thesis
      by (auto simp: slot_admit_def slot_rep_def split: prod.splits if_splits)
  qed
qed

text \<open>The keys (counter, or None for a plaintext answer) routed through slot \<open>i\<close> by a call, and by
  a sequence of calls.\<close>

definition routed_through :: "nat \<Rightarrow> ble_dispatcher \<Rightarrow> dispatcher_call \<Rightarrow> u32 option list" where
  "routed_through i d c =
     (case c of
        Dispatch from uuid len counter \<Rightarrow>
          (if fst (match_slot from uuid len d) = Some i \<and>
              routed (fst (dispatch from uuid len counter d)) then [counter] else [])
      | _ \<Rightarrow> [])"

fun slot_log :: "nat \<Rightarrow> ble_dispatcher \<Rightarrow> dispatcher_call list \<Rightarrow> u32 option list" where
  "slot_log i d [] = []"
| "slot_log i d (c # cs) = routed_through i d c @ slot_log i (dispatcher_step d c) cs"

fun stays_active :: "nat \<Rightarrow> ble_dispatcher \<Rightarrow> dispatcher_call list \<Rightarrow> bool" where
  "stays_active i d [] = slot_active (slots d ! i)"
| "stays_active i d (c # cs) = (slot_active (slots d ! i) \<and> stays_active i (dispatcher_step d c) cs)"

lemma stays_active_now: "stays_active i d cs \<Longrightarrow> slot_active (slots d ! i)"
  by (cases cs) auto

lemma slot_rep_step:
  assumes rep: "slot_rep (slots d ! i) S" and i: "i < length (slots d)"
    and act: "slot_active (slots d ! i)" "slot_active (slots (dispatcher_step d c) ! i)"
  shows "slot_rep (slots (dispatcher_step d c) ! i) (set (routed_through i d c) \<union> S) \<and>
    distinct (routed_through i d c) \<and> set (routed_through i d c) \<inter> S = {} \<and>
    length (slots (dispatcher_step d c)) = length (slots d)"
proof (cases c)
  case (Register dmn u ud)
  obtain r d' where reg: "register_request dmn u ud d = (r, d')" by fastforce
  from reg show ?thesis
  proof (cases rule: register_cases)
    case refused
    with rep Register reg show ?thesis by (simp add: dispatcher_step_def routed_through_def)
  next
    case (taken j s)
    from first_index_SomeD [OF taken(3)] act(1) have "j \<noteq> i" by auto
    with rep Register reg taken show ?thesis by (simp add: dispatcher_step_def routed_through_def)
  qed
next
  case (Unregister rid)
  show ?thesis
  proof (cases "rid = 0 \<or> first_index (\<lambda>s. slot_active s \<and> slot_id s = rid) (slots d) = None")
    case True
    with rep Unregister show ?thesis
      by (auto simp: dispatcher_step_def routed_through_def unregister_request_def)
  next
    case False
    then obtain j where "rid \<noteq> 0" "first_index (\<lambda>s. slot_active s \<and> slot_id s = rid) (slots d) = Some j"
      by auto
    with rep Unregister act i show ?thesis
      by (cases "i = j") (auto simp: dispatcher_step_def routed_through_def unregister_request_def)
  qed
next
  case (Dispatch f u len ctr)
  show ?thesis
  proof (cases rule: dispatch_cases [of f u len d ctr])
    case (rejected r)
    with rep Dispatch show ?thesis by (simp add: dispatcher_step_def routed_through_def)
  next
    case (matched j s ok st)
    show ?thesis
    proof (cases "j = i")
      case True
      with matched i rep Dispatch slot_filter.accept_rep [OF rep, of ctr]
        slot_filter.accept_new [OF rep, of ctr]
      show ?thesis by (auto simp: dispatcher_step_def routed_through_def)
    next
      case False
      with matched rep Dispatch show ?thesis by (simp add: dispatcher_step_def routed_through_def)
    qed
  qed
next
  case (Admit f u len)
  with rep show ?thesis
    by (auto simp: dispatcher_step_def routed_through_def match_response_or_record_rejection_def
        split: prod.split option.split)
next
  case (Reject r)
  with rep show ?thesis by (simp add: dispatcher_step_def routed_through_def)
next
  case DispatcherReset
  with act i show ?thesis by (simp add: dispatcher_step_def dispatcher_reset_def)
qed

lemma slot_log_distinct:
  assumes "slot_rep (slots d ! i) S" "i < length (slots d)" "stays_active i d cs"
  shows "distinct (slot_log i d cs) \<and> set (slot_log i d cs) \<inter> S = {}"
  using assms
proof (induction cs arbitrary: d S)
  case Nil
  show ?case by simp
next
  case (Cons c cs)
  let ?d = "dispatcher_step d c"
  have act: "slot_active (slots d ! i)" "slot_active (slots ?d ! i)"
    using Cons.prems(3) stays_active_now by auto
  note step = slot_rep_step [OF Cons.prems(1,2) act]
  from Cons.IH [of ?d "set (routed_through i d c) \<union> S"] step Cons.prems(2,3)
  show ?case by (auto simp: Int_Un_distrib)
qed

subsection \<open>Properties\<close>

text \<open>C8: The anti-replay window implements the abstract rule over the set of all counters
  accepted since its reset: it accepts exactly the first counter, a counter above the maximum, or
  an unseen one less than 64 below it, \<open>is_valid\<close> predicts \<open>add\<close>, and the bit window represents
  the grown set afterwards.\<close>

theorem window_refines_rule:
  assumes "window_rep w S"
  shows "fst (window_add c w) = replay_rule c S \<and> window_is_valid c w = replay_rule c S \<and>
    window_rep (snd (window_add c w)) (if replay_rule c S then insert c S else S)"
  using assms window_add_rule [OF assms, of c] window_add_rep [OF assms, of c]
  by (simp add: window_valid_iff_add)

theorem window_refines_rule_witness:
  "fst (window_add 7 (snd (window_add 9 fresh_window))) = replay_rule 7 {9}"
proof -
  have "window_rep (snd (window_add 9 fresh_window)) {9}"
    using window_add_rep [OF window_rep_fresh, of 9] by (simp add: window_add_def fresh_window_def)
  from window_refines_rule [OF this] show ?thesis by blast
qed

text \<open>C31: After any sequence of registrations, removals, dispatches, admission checks and resets,
  the active count is the number of active slots, every active slot has a domain and a non-zero id,
  every free slot is blank, and no two active slots share a domain and a non-zero UUID.\<close>

theorem dispatcher_invariant:
  assumes "list_all call_ok cs"
  shows "dispatcher_inv (foldl dispatcher_step new_dispatcher cs)"
  by (rule dispatcher_machine.run_inv [OF new_dispatcher_inv assms])

theorem dispatcher_invariant_witness:
  "dispatcher_inv (foldl dispatcher_step new_dispatcher
     [Register VehicleSecurity (replicate 16 1) None, Dispatch VehicleSecurity None 0 (Some 3),
      Unregister 1, DispatcherReset])"
  by (rule dispatcher_invariant) (simp add: kBleUuidSize_def)

text \<open>C18: While a registration lives in its slot, every authenticated counter is routed through it
  at most once and at most one plaintext answer is, whatever other calls are interleaved.\<close>

theorem no_counter_routed_twice:
  assumes "dispatcher_inv d" "register_request domain uuid ud d = (r, d1)" "r \<noteq> 0"
    "slots d1 ! i \<noteq> slots d ! i" "stays_active i d1 cs"
  shows "distinct (slot_log i d1 cs)"
proof -
  from assms(2) show ?thesis
  proof (cases rule: register_cases)
    case refused
    with assms(3) show ?thesis by simp
  next
    case (taken j s)
    with assms(4) have ij: "i = j" by (cases "i = j") auto
    from first_index_SomeD [OF taken(3)] have lt: "j < length (slots d)" by simp
    then have "slot_rep (slots d1 ! i) {}"
      using taken ij window_rep_fresh by (simp add: slot_rep_def)
    from slot_log_distinct [OF this _ assms(5)] lt ij taken show ?thesis by simp
  qed
qed

theorem no_counter_routed_twice_witness:
  "distinct (slot_log 0 (snd (register_request VehicleSecurity (replicate 16 1) None new_dispatcher))
     [Dispatch VehicleSecurity None 0 (Some 3), Dispatch VehicleSecurity None 0 (Some 3)])"
  by (rule no_counter_routed_twice [OF new_dispatcher_inv, of VehicleSecurity "replicate 16 1" None 1])
    (simp_all add: register_request_def new_dispatcher_def kMaxRequests_def is_zero_uuid_def
      empty_slot_def Let_def holds_uuid_def kBleUuidSize_def numeral_eq_Suc dispatcher_step_def
      dispatch_def match_slot_def slot_admit_def window_add_def window_reset_def fresh_window_def)

text \<open>A response is routed only to an active request of its own domain: either its 16-byte UUID
  equals the request's, or it has no UUID, comes from VCSEC and the request is the first active
  VCSEC one. The outcome names that request's id and user data, \<open>match_response\<close> (which changes
  nothing) agrees, and no other slot is touched.\<close>

theorem dispatch_routes_to_match:
  assumes "dispatch from u len c d = (r, d')" "routed r"
  shows "\<exists>i < length (slots d). slot_active (slots d ! i) \<and> slot_domain (slots d ! i) = from \<and>
    from \<in> {VehicleSecurity, Infotainment} \<and>
    outcome_request_id r = slot_id (slots d ! i) \<and>
    outcome_user_data r = slot_user_data (slots d ! i) \<and>
    ((\<exists>b. u = Some b \<and> len = 16 \<and> uuids_equal (slot_uuid (slots d ! i)) b 16) \<or>
     (len = 0 \<and> from = VehicleSecurity \<and>
        (\<forall>j < i. \<not> (slot_active (slots d ! j) \<and> slot_domain (slots d ! j) = VehicleSecurity)))) \<and>
    match_response from u len d = r \<and> (\<forall>j. j \<noteq> i \<longrightarrow> slots d' ! j = slots d ! j)"
proof (cases rule: dispatch_cases [of "from" u len d c])
  case (rejected x)
  with assms show ?thesis by auto
next
  case (matched i s ok st)
  with assms match_slot_SomeD [OF matched(1)] show ?thesis
    by (intro exI [of _ i]) (auto simp: match_response_def kBleUuidSize_def)
qed

theorem dispatch_routes_to_match_witness:
  "match_response VehicleSecurity None 0
     (snd (register_request VehicleSecurity (replicate 16 1) (Some 5) new_dispatcher)) =
   fst (dispatch VehicleSecurity None 0 (Some 3)
     (snd (register_request VehicleSecurity (replicate 16 1) (Some 5) new_dispatcher)))"
proof -
  let ?d = "snd (register_request VehicleSecurity (replicate 16 1) (Some 5) new_dispatcher)"
  have "routed (fst (dispatch VehicleSecurity None 0 (Some 3) ?d))"
    by (simp add: register_request_def new_dispatcher_def kMaxRequests_def is_zero_uuid_def
      empty_slot_def Let_def holds_uuid_def kBleUuidSize_def numeral_eq_Suc
      dispatch_def match_slot_def slot_admit_def window_add_def window_reset_def fresh_window_def)
  from dispatch_routes_to_match [OF prod.collapse [symmetric] this] show ?thesis by blast
qed

text \<open>A registration is refused exactly for the domain None, for a non-zero UUID already active
  in the domain, or when all eight slots are active; otherwise it returns a non-zero id, and a
  response carrying its (non-zero) UUID is attributed to it.\<close>

theorem register_then_match:
  assumes "dispatcher_inv d" "length uuid = 16" "register_request domain uuid ud d = (r, d')"
  shows "(r = 0 \<longleftrightarrow> domain = DomainNone \<or> (\<not> is_zero_uuid uuid \<and> list_ex (holds_uuid domain uuid) (slots d)) \<or>
      active_count d = 8) \<and>
    (r \<noteq> 0 \<and> \<not> is_zero_uuid uuid \<and> domain \<in> {VehicleSecurity, Infotainment} \<longrightarrow>
      match_response domain (Some uuid) 16 d' =
        \<lparr>routed = True, drop_reason = DispatchNone, outcome_request_id = r,
         outcome_user_data = ud\<rparr>)"
  using assms(3)
proof (cases rule: register_cases)
  case refused
  then show ?thesis
    using assms(1) length_filter_eq_iff [of slot_active "slots d"]
    by (auto simp: dispatcher_inv_def kMaxRequests_def)
next
  case (taken i s)
  from first_index_SomeD [OF taken(3)] have lt: "i < length (slots d)"
    and free: "\<not> slot_active (slots d ! i)" by auto
  have "\<not> list_all slot_active (slots d)" using lt free by (auto simp: list_all_length)
  then have count: "active_count d \<noteq> 8"
    using assms(1) length_filter_eq_iff [of slot_active "slots d"]
    by (auto simp: dispatcher_inv_def kMaxRequests_def)
  have first: "first_index (holds_uuid domain uuid) (slots d') = Some i" if "\<not> is_zero_uuid uuid"
  proof (rule first_index_unique)
    show "i < length (slots d')" using lt by (simp add: taken)
    show "holds_uuid domain uuid (slots d' ! i)"
      using lt by (simp add: taken holds_uuid_def uuids_equal_def)
    show "j = i" if "j < length (slots d')" "holds_uuid domain uuid (slots d' ! j)" for j
      using that taken(2) \<open>\<not> is_zero_uuid uuid\<close> by (cases "j = i") (auto simp: taken list_all_length)
  qed
  have "r \<noteq> 0" using assms(1) by (simp add: taken dispatcher_inv_def)
  then show ?thesis
    using taken(1,2) count first lt
    by (auto simp: list_ex_iff list_all_iff match_response_def match_slot_def kBleUuidSize_def Let_def
        taken(5,6))
qed

theorem register_then_match_witness:
  "match_response Infotainment (Some (replicate 16 1)) 16
     (snd (register_request Infotainment (replicate 16 1) (Some 5) new_dispatcher)) =
   \<lparr>routed = True, drop_reason = DispatchNone, outcome_request_id = 1, outcome_user_data = Some 5\<rparr>"
proof -
  have "fst (register_request Infotainment (replicate 16 1) (Some 5) new_dispatcher) = 1"
    by (simp add: register_request_def new_dispatcher_def kMaxRequests_def is_zero_uuid_def
      empty_slot_def Let_def holds_uuid_def numeral_eq_Suc)
  with register_then_match [OF new_dispatcher_inv _ prod.collapse [symmetric],
      of "replicate 16 1" Infotainment "Some 5"]
  show ?thesis by (simp add: is_zero_uuid_def numeral_eq_Suc)
qed

text \<open>Every dispatch call changes exactly one of the five counters, by one: the routed counter
  if the response is routed, otherwise the counter of the reported reason. The admission check and
  an explicit rejection count the same reasons.\<close>

theorem dispatch_counts_once:
  "dstats (snd (dispatch from u len c d)) =
     (let r = fst (dispatch from u len c d); st = dstats d in
      if routed r then st\<lparr>routed_count := routed_count st + 1\<rparr>
      else if drop_reason r = Replay then st\<lparr>replay_drops := replay_drops st + 1\<rparr>
      else if drop_reason r = MissingSource
      then st\<lparr>missing_source_drops := missing_source_drops st + 1\<rparr>
      else if drop_reason r = InvalidUuidLength
      then st\<lparr>invalid_uuid_drops := invalid_uuid_drops st + 1\<rparr>
      else st\<lparr>unmatched_drops := unmatched_drops st + 1\<rparr>)"
proof (cases rule: dispatch_cases [of "from" u len d c])
  case (rejected r)
  with match_slot_NoneD [OF rejected(1)] show ?thesis
    by (auto simp: record_match_rejection_def Let_def)
next
  case (matched i s ok st)
  then show ?thesis by (auto simp: Let_def)
qed

end
