(* ===== verification/VcsecResponse.thy ===== *)
theory VcsecResponse
  imports Dispatcher
begin

text \<open>
  main/logic/vcsec_response.hpp: the bounded protobuf scan that captures the routing metadata of an
  outgoing VCSEC request, and the context that admits replies to the one live attempt. The cursor
  is the list of bytes still unread; every failing scan ends the capture, so a failed operation is
  None. Received addresses and UUIDs are, as in the code, a possibly null pointer and a size.
\<close>

subsection \<open>Requests\<close>

datatype vcsec_reply_kind = Action | Status | SessionInfo | WakePrerequisite
datatype vcsec_request_payload = Protobuf | SessionInfoRequest

record vcsec_request_metadata =
  md_reply_address :: ble_uuid
  md_uuid :: ble_uuid
  md_payload :: vcsec_request_payload

definition zero_uuid :: ble_uuid where "zero_uuid = replicate kBleUuidSize 0"

definition empty_metadata :: vcsec_request_metadata where
  "empty_metadata = \<lparr>md_reply_address = zero_uuid, md_uuid = zero_uuid, md_payload = Protobuf\<rparr>"

definition vcsec_reply_address_is_fresh :: "ble_uuid \<Rightarrow> ble_uuid \<Rightarrow> bool" where
  "vcsec_reply_address_is_fresh candidate previous \<longleftrightarrow>
     \<not> is_zero_uuid candidate \<and> candidate \<noteq> previous"

subsection \<open>Cursor\<close>

fun varint_from :: "nat \<Rightarrow> u64 \<Rightarrow> bytes \<Rightarrow> (u64 \<times> bytes) option" where
  "varint_from byte value [] = None"
| "varint_from byte value (next # rest) =
     (if 10 \<le> byte then None
      else if byte = 9 \<and> 1 < next then None
      else let value' = value OR push_bit (7 * byte) (ucast (next AND 0x7F)) in
           if next AND 0x80 = 0 then (if byte = 0 \<or> next \<noteq> 0 then Some (value', rest) else None)
           else varint_from (byte + 1) value' rest)"

definition cursor_varint :: "bytes \<Rightarrow> (u64 \<times> bytes) option" where
  "cursor_varint input = varint_from 0 0 input"

definition cursor_tag :: "bytes \<Rightarrow> (u32 \<times> u8 \<times> bytes) option" where
  "cursor_tag input =
     (case cursor_varint input of
        None \<Rightarrow> None
      | Some (key, rest) \<Rightarrow>
          if drop_bit 3 key = 0 \<or> 0x1FFFFFFF < drop_bit 3 key then None
          else Some (ucast (drop_bit 3 key), ucast (key AND 7), rest))"

definition cursor_bytes :: "bytes \<Rightarrow> (bytes \<times> bytes) option" where
  "cursor_bytes input =
     (case cursor_varint input of
        None \<Rightarrow> None
      | Some (len, rest) \<Rightarrow>
          if length rest < unat len then None else Some (take (unat len) rest, drop (unat len) rest))"

definition cursor_fixed :: "nat \<Rightarrow> bytes \<Rightarrow> bytes option" where
  "cursor_fixed n input = (if length input < n then None else Some (drop n input))"

definition cursor_skip :: "u8 \<Rightarrow> bytes \<Rightarrow> bytes option" where
  "cursor_skip wire input =
     (if wire = 0 then map_option snd (cursor_varint input)
      else if wire = 1 then cursor_fixed 8 input
      else if wire = 2 then map_option snd (cursor_bytes input)
      else if wire = 5 then cursor_fixed 4 input
      else None)"

lemma varint_from_shorter: "varint_from b v bs = Some (x, rest) \<Longrightarrow> length rest < length bs"
  by (induction b v bs rule: varint_from.induct) (auto simp: Let_def split: if_splits)

lemma cursor_varint_shorter [simp]:
  "cursor_varint bs = Some (x, rest) \<Longrightarrow> length rest < length bs"
  by (simp add: cursor_varint_def varint_from_shorter)

lemma cursor_tag_shorter [simp]: "cursor_tag bs = Some (f, w, rest) \<Longrightarrow> length rest < length bs"
  by (auto simp: cursor_tag_def dest: cursor_varint_shorter split: option.splits if_splits)

lemma cursor_bytes_shorter [simp]: "cursor_bytes bs = Some (d, rest) \<Longrightarrow> length rest < length bs"
  by (auto simp: cursor_bytes_def dest!: cursor_varint_shorter split: option.splits if_splits)

lemma cursor_skip_shorter [simp]: "cursor_skip w bs = Some rest \<Longrightarrow> length rest \<le> length bs"
  by (auto simp: cursor_skip_def cursor_fixed_def dest: cursor_varint_shorter cursor_bytes_shorter
      split: if_splits intro: less_imp_le)

subsection \<open>Capture\<close>

function destination_loop :: "bool \<Rightarrow> bytes \<Rightarrow> bool \<Rightarrow> ble_uuid \<Rightarrow> ble_uuid option" where
  "destination_loop source input seen address =
     (if input = [] then (if seen then Some address else None)
      else case cursor_tag input of
        None \<Rightarrow> None
      | Some (field, wire, rest) \<Rightarrow>
          if field = 1 then
            (if source \<or> seen \<or> wire \<noteq> 0 then None
             else case cursor_varint rest of
               None \<Rightarrow> None
             | Some (domain, rest') \<Rightarrow>
                 if domain \<noteq> 2 then None else destination_loop source rest' True address)
          else if field = 2 then
            (if \<not> source \<or> seen \<or> wire \<noteq> 2 then None
             else case cursor_bytes rest of
               None \<Rightarrow> None
             | Some (data, rest') \<Rightarrow>
                 if length data \<noteq> kBleUuidSize \<or> is_zero_uuid data then None
                 else destination_loop source rest' True data)
          else (case cursor_skip wire rest of
                  None \<Rightarrow> None
                | Some rest' \<Rightarrow> destination_loop source rest' seen address))"
  by pat_completeness auto
termination
  by (relation "measure (\<lambda>(source, input, seen, address). length input)")
    (auto dest!: cursor_tag_shorter cursor_varint_shorter cursor_bytes_shorter cursor_skip_shorter)

declare destination_loop.simps [simp del]

definition destination :: "bytes \<Rightarrow> bool \<Rightarrow> ble_uuid \<Rightarrow> ble_uuid option" where
  "destination data source address = destination_loop source data False address"

text \<open>What the scan has found so far: destination, source, UUID and payload seen, and the metadata.\<close>

record capture_state =
  cap_destination :: bool
  cap_source :: bool
  cap_uuid :: bool
  cap_payload :: bool
  cap_metadata :: vcsec_request_metadata

definition capture_start :: capture_state where
  "capture_start = \<lparr>cap_destination = False, cap_source = False, cap_uuid = False,
     cap_payload = False, cap_metadata = empty_metadata\<rparr>"

definition capture_field :: "u32 \<Rightarrow> bytes \<Rightarrow> capture_state \<Rightarrow> capture_state option" where
  "capture_field field data c =
     (let md = cap_metadata c in
      if field = 6 then
        (if cap_destination c then None
         else case destination data False (md_reply_address md) of
           None \<Rightarrow> None
         | Some a \<Rightarrow> Some (c\<lparr>cap_destination := True, cap_metadata := md\<lparr>md_reply_address := a\<rparr>\<rparr>))
      else if field = 7 then
        (if cap_source c then None
         else case destination data True (md_reply_address md) of
           None \<Rightarrow> None
         | Some a \<Rightarrow> Some (c\<lparr>cap_source := True, cap_metadata := md\<lparr>md_reply_address := a\<rparr>\<rparr>))
      else if field = 51 then
        (if cap_uuid c \<or> length data \<noteq> kBleUuidSize \<or> is_zero_uuid data then None
         else Some (c\<lparr>cap_uuid := True, cap_metadata := md\<lparr>md_uuid := data\<rparr>\<rparr>))
      else
        (if cap_payload c \<or> length data = 0 then None
         else Some (c\<lparr>cap_payload := True, cap_metadata := md\<lparr>md_payload :=
                       (if field = 10 then Protobuf else SessionInfoRequest)\<rparr>\<rparr>)))"

function capture_loop :: "bytes \<Rightarrow> capture_state \<Rightarrow> capture_state option" where
  "capture_loop input c =
     (if input = [] then Some c
      else case cursor_tag input of
        None \<Rightarrow> None
      | Some (field, wire, rest) \<Rightarrow>
          if field = 6 \<or> field = 7 \<or> field = 10 \<or> field = 14 \<or> field = 51 then
            (if wire \<noteq> 2 then None
             else case cursor_bytes rest of
               None \<Rightarrow> None
             | Some (data, rest') \<Rightarrow>
                 (case capture_field field data c of
                    None \<Rightarrow> None | Some c' \<Rightarrow> capture_loop rest' c'))
          else if field = 15 \<or> field = 50 then None
          else (case cursor_skip wire rest of None \<Rightarrow> None | Some rest' \<Rightarrow> capture_loop rest' c))"
  by pat_completeness auto
termination
  by (relation "measure (\<lambda>(input, c). length input)")
    (auto dest!: cursor_tag_shorter cursor_bytes_shorter cursor_skip_shorter)

declare capture_loop.simps [simp del]

definition capture_vcsec_request :: "bytes option \<Rightarrow> bool \<times> vcsec_request_metadata" where
  "capture_vcsec_request frame_ptr =
     (case frame_ptr of
        None \<Rightarrow> (False, empty_metadata)
      | Some frame \<Rightarrow>
          if length frame < 2 \<or> 2050 < length frame \<or>
             unat (be16 (frame ! 0) (frame ! 1)) \<noteq> length frame - 2 then (False, empty_metadata)
          else case capture_loop (drop 2 frame) capture_start of
            None \<Rightarrow> (False, empty_metadata)
          | Some c \<Rightarrow>
              if \<not> (cap_destination c \<and> cap_source c \<and> cap_uuid c \<and> cap_payload c)
              then (False, empty_metadata) else (True, cap_metadata c))"

subsection \<open>Reply context\<close>

record vcsec_attempt_state =
  at_generation :: u32
  at_command_id :: u32
  at_attempt :: u32
  at_kind :: vcsec_reply_kind
  at_executing :: bool
  at_now_ms :: u32
  at_enqueued_at_ms :: u32
  at_total_timeout_ms :: u32
  at_phase_started_at_ms :: u32
  at_phase_timeout_ms :: u32

record vcsec_reply_context =
  rc_reply_address :: ble_uuid
  rc_uuid :: ble_uuid
  rc_generation :: u32
  rc_command_id :: u32
  rc_attempt :: u32
  rc_kind :: vcsec_reply_kind
  rc_prepared :: bool
  rc_transmitted :: bool

definition retired_context :: vcsec_reply_context where
  "retired_context = \<lparr>rc_reply_address = zero_uuid, rc_uuid = zero_uuid, rc_generation = 0,
     rc_command_id = 0, rc_attempt = 0, rc_kind = Action, rc_prepared = False,
     rc_transmitted = False\<rparr>"

definition context_retire :: "vcsec_reply_context \<Rightarrow> vcsec_reply_context" where
  "context_retire c = retired_context"

definition context_prepare ::
    "vcsec_request_metadata \<Rightarrow> ble_uuid \<Rightarrow> u32 \<Rightarrow> u32 \<Rightarrow> u32 \<Rightarrow> vcsec_reply_kind \<Rightarrow>
     vcsec_reply_context \<Rightarrow> bool \<times> vcsec_reply_context" where
  "context_prepare md expected_address generation command_id attempt kind c0 =
     (let c = context_retire c0 in
      if command_id = 0 \<or> attempt = 0 \<or> is_zero_uuid expected_address \<or>
         md_reply_address md \<noteq> expected_address \<or> is_zero_uuid (md_uuid md) \<or>
         (if kind = SessionInfo then md_payload md \<noteq> SessionInfoRequest
          else md_payload md \<noteq> Protobuf)
      then (False, c)
      else (True, c\<lparr>rc_reply_address := md_reply_address md, rc_uuid := md_uuid md,
                    rc_generation := generation, rc_command_id := command_id,
                    rc_attempt := attempt, rc_kind := kind, rc_prepared := True\<rparr>))"

definition context_transmitted :: "vcsec_reply_context \<Rightarrow> vcsec_reply_context" where
  "context_transmitted c = c\<lparr>rc_transmitted := rc_prepared c\<rparr>"

definition bytes_match :: "bytes option \<Rightarrow> nat \<Rightarrow> bytes \<Rightarrow> bool" where
  "bytes_match ptr n expected \<longleftrightarrow>
     (case ptr of None \<Rightarrow> False
      | Some bs \<Rightarrow> n = length expected \<and> take n bs = take n expected)"

definition context_matches ::
    "vcsec_attempt_state \<Rightarrow> bytes option \<Rightarrow> nat \<Rightarrow> bytes option \<Rightarrow> nat \<Rightarrow> vcsec_reply_context \<Rightarrow>
     bool \<times> vcsec_reply_context" where
  "context_matches st address address_size uuid uuid_size c =
     (if \<not> rc_prepared c \<or> \<not> rc_transmitted c \<or> at_kind st \<noteq> rc_kind c then (False, c)
      else if \<not> at_executing st \<or> at_generation st \<noteq> rc_generation c \<or>
              at_command_id st \<noteq> rc_command_id c \<or> at_attempt st \<noteq> rc_attempt c \<or>
              (at_total_timeout_ms st \<noteq> 0 \<and>
                 at_total_timeout_ms st \<le> at_now_ms st - at_enqueued_at_ms st) \<or>
              at_phase_timeout_ms st = 0 \<or>
              at_phase_timeout_ms st \<le> at_now_ms st - at_phase_started_at_ms st
      then (False, context_retire c)
      else if \<not> bytes_match address address_size (rc_reply_address c) then (False, c)
      else (uuid_size = 0 \<or> bytes_match uuid uuid_size (rc_uuid c), c))"

subsection \<open>Varints are canonical\<close>

text \<open>The minimal little-endian base-128 encoding.\<close>

fun venc :: "nat \<Rightarrow> bytes" where
  "venc n = (if n < 128 then [word_of_nat n]
             else word_of_nat (128 + n mod 128) # venc (n div 128))"

declare venc.simps [simp del]

lemma byte_low_bits: "unat ((b :: u8) AND 0x7F) = unat b mod 128"
proof -
  have "(0x7F :: u8) = mask 7" by (simp add: mask_eq_exp_minus_1)
  then have "b AND 0x7F = take_bit 7 b" by (simp add: take_bit_eq_mask)
  then have "unat (b AND 0x7F) = take_bit 7 (unat b)" by (simp add: unsigned_take_bit_eq)
  then show ?thesis by (simp add: take_bit_eq_mod)
qed

lemma byte_high_bit: "(b :: u8) AND 0x80 = 0 \<longleftrightarrow> unat b < 128"
proof -
  have "(0x80 :: u8) = push_bit 7 1" by simp
  then have "b AND 0x80 = 0 \<longleftrightarrow> \<not> bit b 7" by (simp only: and_push_bit_one)
  moreover have "bit b 7 \<longleftrightarrow> odd (unat b div 128)"
    using bit_unsigned_iff [where 'a = nat, of b 7] by (simp add: bit_iff_odd)
  moreover have "unat b div 128 = 0 \<or> unat b div 128 = 1"
    using unat_byte_less [of b] by linarith
  ultimately show ?thesis by (auto simp: div_eq_0_iff)
qed

lemma or_shift:
  assumes "a < 2 ^ k"
  shows "(word_of_nat a :: u64) OR push_bit k (word_of_nat n) = word_of_nat (a + n * 2 ^ k)"
proof -
  have "\<not> bit a i" if "k \<le> i" for i
    using assms that bit_take_bit_iff [of k a i] by (simp add: take_bit_nat_eq_self)
  then have "(word_of_nat a :: u64) OR push_bit k (word_of_nat n) =
      word_of_nat a + push_bit k (word_of_nat n)"
    by (intro disjunctive_add [symmetric]) (auto simp: bit_push_bit_iff bit_of_nat_iff)
  then show ?thesis by (simp add: push_bit_eq_mult)
qed

lemma varint_step:
  assumes "a < 2 ^ (7 * k)"
  shows "(word_of_nat a :: u64) OR push_bit (7 * k) (ucast ((b :: u8) AND 0x7F)) =
    word_of_nat (a + (unat b mod 128) * 2 ^ (7 * k))"
proof -
  have "(ucast (b AND 0x7F) :: u64) = word_of_nat (unat (b AND 0x7F))" by simp
  also have "\<dots> = word_of_nat (unat b mod 128)" by (simp only: byte_low_bits)
  finally show ?thesis using or_shift [OF assms, of "unat b mod 128"] by (simp only:)
qed

lemma base128_pow: "(2 :: nat) ^ (7 * (k + 1)) = 128 * 2 ^ (7 * k)"
  by (simp add: power_add)

lemma base128_split:
  "(n :: nat) = q * 128 + r \<Longrightarrow> a + r * 2 ^ (7 * k) + q * 2 ^ (7 * (k + 1)) = a + n * 2 ^ (7 * k)"
  unfolding base128_pow by (simp add: algebra_simps)

lemma base128_bound:
  assumes "a < 2 ^ (7 * k)"
  shows "a + (m mod 128) * 2 ^ (7 * k) < (2 :: nat) ^ (7 * (k + 1))"
proof -
  have "m mod 128 \<le> 127" by simp
  then have "(m mod 128) * 2 ^ (7 * k) \<le> 127 * 2 ^ (7 * k)" by (rule mult_right_mono) simp
  with assms show ?thesis unfolding base128_pow by linarith
qed

text \<open>The decoder on one byte, over the numbers the words stand for.\<close>

lemma varint_from_byte:
  assumes "a < 2 ^ (7 * k)" "k < 9 \<or> (k = 9 \<and> unat b \<le> 1)"
  shows "varint_from k (word_of_nat a) (b # rest) =
    (if unat b < 128
     then if k = 0 \<or> b \<noteq> 0 then Some (word_of_nat (a + unat b * 2 ^ (7 * k)), rest) else None
     else varint_from (k + 1) (word_of_nat (a + (unat b mod 128) * 2 ^ (7 * k))) rest)"
proof -
  have "\<not> 10 \<le> k \<and> \<not> (k = 9 \<and> 1 < b)" using assms(2) by (auto simp: word_less_nat_alt)
  moreover have "unat b < 128 \<Longrightarrow> unat b mod 128 = unat b" by simp
  ultimately show ?thesis
    by (simp only: varint_from.simps Let_def varint_step [OF assms(1)] byte_high_bit if_False
        split: if_split) simp
qed

lemma varint_from_reject:
  "varint_from k v (b # rest) = Some r \<Longrightarrow> k < 9 \<or> (k = 9 \<and> unat b \<le> 1)"
  by (auto simp: word_less_nat_alt not_less split: if_splits)

declare varint_from.simps(2) [simp del]

lemma varint_from_venc:
  assumes "a < 2 ^ (7 * k)" "a + n * 2 ^ (7 * k) < 2 ^ 64" "k = 0 \<or> 0 < n"
  shows "varint_from k (word_of_nat a) (venc n @ rest) =
    Some (word_of_nat (a + n * 2 ^ (7 * k)), rest)"
  using assms
proof (induction n arbitrary: a k rule: venc.induct)
  case (1 n)
  have k: "k < 9 \<or> (k = 9 \<and> n \<le> 1)"
  proof (rule ccontr)
    assume "\<not> ?thesis"
    then have "10 \<le> k \<or> (k = 9 \<and> 2 \<le> n)" by linarith
    moreover have "(2 :: nat) ^ 64 \<le> n * 2 ^ (7 * k)" if "10 \<le> k"
    proof -
      have "(2 :: nat) ^ 64 \<le> 2 ^ (7 * k)" using that by (intro power_increasing) auto
      also have "\<dots> \<le> n * 2 ^ (7 * k)" using 1(4) that by simp
      finally show ?thesis .
    qed
    ultimately show False using 1(3) by auto
  qed
  show ?case
  proof (cases "n < 128")
    case True
    have u: "unat (word_of_nat n :: u8) = n" using True by (simp add: unat_of_nat take_bit_nat_eq_self)
    then have "(word_of_nat n :: u8) \<noteq> 0 \<longleftrightarrow> n \<noteq> 0" by (metis unat_0 unat_eq_0)
    with True u k 1(4) show ?thesis
      by (simp add: venc.simps [of n] varint_from_byte [OF 1(2)])
  next
    case False
    let ?b = "word_of_nat (128 + n mod 128) :: u8"
    have u: "unat ?b = 128 + n mod 128"
      by (simp add: unat_of_nat take_bit_nat_eq_self del: of_nat_add)
    have split: "a + (n mod 128) * 2 ^ (7 * k) + n div 128 * 2 ^ (7 * (k + 1)) = a + n * 2 ^ (7 * k)"
      by (rule base128_split) (simp add: div_mult_mod_eq)
    have "a + (n mod 128) * 2 ^ (7 * k) < 2 ^ (7 * (k + 1))"
      by (rule base128_bound) (rule 1(2))
    note IH = 1(1) [OF False this]
    have "0 < n div 128" using False by simp
    then have "varint_from (k + 1) (word_of_nat (a + (n mod 128) * 2 ^ (7 * k)))
        (venc (n div 128) @ rest) = Some (word_of_nat (a + n * 2 ^ (7 * k)), rest)"
      using IH [unfolded split] 1(3) by blast
    moreover have "k < 9" using k False by auto
    ultimately show ?thesis
      using False u unfolding venc.simps [of n]
      by (simp add: varint_from_byte [OF 1(2)] del: of_nat_add of_nat_mult)
  qed
qed

lemma continued_byte: "128 \<le> (m :: nat) \<Longrightarrow> m < 256 \<Longrightarrow> 128 + m mod 128 = m"
  by (drule le_Suc_ex) auto

lemma base128_last:
  assumes a: "(a :: nat) < 2 ^ (7 * k)" and k: "k < 9 \<or> (k = 9 \<and> n \<le> 1)" and n: "n < 128"
  shows "a + n * 2 ^ (7 * k) < 2 ^ 64"
proof -
  have "a + n * 2 ^ (7 * k) < (n + 1) * 2 ^ (7 * k)" using a by simp
  also have "\<dots> \<le> (2 :: nat) ^ 64"
  proof (cases "k = 9")
    case True
    with k have "n + 1 \<le> 2" by simp
    then have "(n + 1) * 2 ^ (7 * k) \<le> 2 * 2 ^ 63" using True by simp
    then show ?thesis by simp
  next
    case False
    then have "(2 :: nat) ^ (7 * k) \<le> 2 ^ 56" using k by (intro power_increasing) auto
    moreover have "n + 1 \<le> 128" using n by simp
    ultimately have "(n + 1) * 2 ^ (7 * k) \<le> 128 * (2 :: nat) ^ 56" by (intro mult_le_mono)
    then show ?thesis by simp
  qed
  finally show ?thesis .
qed

lemma varint_from_canonical:
  assumes "varint_from k (word_of_nat a) bs = Some (v, rest)" "a < 2 ^ (7 * k)"
  shows "\<exists>n. bs = venc n @ rest \<and> v = word_of_nat (a + n * 2 ^ (7 * k)) \<and>
    a + n * 2 ^ (7 * k) < 2 ^ 64 \<and> (k = 0 \<or> 0 < n)"
  using assms
proof (induction bs arbitrary: a k)
  case Nil
  then show ?case by simp
next
  case (Cons b bs)
  from varint_from_reject [OF Cons.prems(1)] have k: "k < 9 \<or> (k = 9 \<and> unat b \<le> 1)" .
  note byte = varint_from_byte [OF Cons.prems(2) k, of bs]
  show ?case
  proof (cases "unat b < 128")
    case True
    with byte Cons.prems(1) have "(if k = 0 \<or> b \<noteq> 0
      then Some (word_of_nat (a + unat b * 2 ^ (7 * k)), bs) else None) = Some (v, rest)"
      by (simp only: if_True)
    then have r: "k = 0 \<or> b \<noteq> 0" "rest = bs" "v = word_of_nat (a + unat b * 2 ^ (7 * k))"
      by (simp_all only: split: if_splits) simp_all
    have "a + unat b * 2 ^ (7 * k) < 2 ^ 64"
      by (rule base128_last [OF Cons.prems(2) k True])
    moreover have "b # bs = venc (unat b) @ rest" using True r(2) by (simp add: venc.simps [of "unat b"])
    moreover have "k = 0 \<or> 0 < unat b" using r(1) by (simp add: unat_gt_0)
    ultimately show ?thesis using r(3) by blast
  next
    case False
    with byte Cons.prems(1) have rec:
      "varint_from (k + 1) (word_of_nat (a + (unat b mod 128) * 2 ^ (7 * k))) bs = Some (v, rest)"
      by (simp only: if_False)
    have "a + (unat b mod 128) * 2 ^ (7 * k) < 2 ^ (7 * (k + 1))"
      by (rule base128_bound) (rule Cons.prems(2))
    from Cons.IH [OF rec this] obtain n where n: "bs = venc n @ rest" "k + 1 = 0 \<or> 0 < n"
      "v = word_of_nat (a + (unat b mod 128) * 2 ^ (7 * k) + n * 2 ^ (7 * (k + 1)))"
      "a + (unat b mod 128) * 2 ^ (7 * k) + n * 2 ^ (7 * (k + 1)) < 2 ^ 64" by blast
    let ?m = "n * 128 + unat b mod 128"
    have split: "a + (unat b mod 128) * 2 ^ (7 * k) + n * 2 ^ (7 * (k + 1)) = a + ?m * 2 ^ (7 * k)"
      by (rule base128_split) (rule refl)
    have b: "128 + unat b mod 128 = unat b" by (rule continued_byte) (use False unat_byte_less [of b] in simp_all)
    have pos: "0 < n" using n(2) by simp
    have m: "\<not> ?m < 128" "?m mod 128 = unat b mod 128" "?m div 128 = n" using pos by auto
    have "venc ?m = word_of_nat (128 + ?m mod 128) # venc (?m div 128)"
      by (subst venc.simps) (simp only: m(1) if_False)
    then have "venc ?m = word_of_nat (unat b) # venc n" by (simp only: m(2,3) b)
    then have "b # bs = venc ?m @ rest" using n(1) by simp
    moreover have "k = 0 \<or> 0 < ?m" using pos by simp
    ultimately show ?thesis using n(3,4) unfolding split by (intro exI [of _ ?m] conjI)
  qed
qed

interpretation varint: prefix_codec "\<lambda>v. venc (unat v)" cursor_varint "\<lambda>v. True"
proof
  fix v :: u64 and rest
  have "unat v < 2 ^ 64" using unsigned_less [where 'a = nat, of v] by simp
  then show "cursor_varint (venc (unat v) @ rest) = Some (v, rest)"
    using varint_from_venc [of 0 0 "unat v" rest] by (simp add: cursor_varint_def)
qed

lemma cursor_varint_canonical:
  assumes "cursor_varint bs = Some (v, rest)"
  shows "bs = venc (unat v) @ rest"
proof -
  have "varint_from 0 (word_of_nat 0) bs = Some (v, rest)"
    using assms by (simp add: cursor_varint_def)
  from varint_from_canonical [OF this]
  obtain n where n: "bs = venc n @ rest" "v = word_of_nat n" "n < 2 ^ 64" by auto
  have "unat v = n" using n(2,3) by (simp add: unat_of_nat take_bit_nat_eq_self)
  with n(1) show ?thesis by simp
qed

subsection \<open>Captured requests\<close>

definition vfield :: "nat \<Rightarrow> bytes \<Rightarrow> bytes" where
  "vfield tag data = venc tag @ venc (length data) @ data"

text \<open>A request as the protocol library serialises it: destination (domain VCSEC), source (the
  routing address), the payload field, the request UUID, behind the two-byte length.\<close>

definition request_body :: "ble_uuid \<Rightarrow> ble_uuid \<Rightarrow> vcsec_request_payload \<Rightarrow> bytes \<Rightarrow> bytes" where
  "request_body addr uuid payload data =
     vfield 50 [8, 2] @ vfield 58 (18 # 16 # addr) @
     vfield (if payload = Protobuf then 82 else 114) data @ vfield 410 uuid"

definition request_frame :: "ble_uuid \<Rightarrow> ble_uuid \<Rightarrow> vcsec_request_payload \<Rightarrow> bytes \<Rightarrow> bytes" where
  "request_frame addr uuid payload data =
     (let body = request_body addr uuid payload data; n = word_of_nat (length body) :: u16
      in ucast (drop_bit 8 n) # ucast n # body)"

lemma cursor_varint_venc: "n < 2 ^ 64 \<Longrightarrow> cursor_varint (venc n @ rest) = Some (word_of_nat n, rest)"
  using varint.dec_enc [of "word_of_nat n :: u64" rest]
  by (simp add: unat_of_nat take_bit_nat_eq_self)

lemma cursor_tag_venc:
  assumes "8 \<le> t" "t < 2 ^ 16"
  shows "cursor_tag (venc t @ rest) = Some (word_of_nat (t div 8), word_of_nat (t mod 8), rest)"
proof -
  let ?t = "word_of_nat t :: u64"
  have t8: "unat (word_of_nat (t div 8) :: u64) = t div 8"
    using assms by (simp add: unat_of_nat take_bit_nat_eq_self)
  have t: "unat ?t = t" using assms by (simp add: unat_of_nat take_bit_nat_eq_self)
  have "unat (drop_bit 3 ?t) = drop_bit 3 (unat ?t)" by (rule unat_drop_bit_eq)
  then have "unat (drop_bit 3 ?t) = t div 8" by (simp only: t drop_bit_eq_div) simp
  then have d: "drop_bit 3 ?t = word_of_nat (t div 8)" by (metis word_unat_eq_iff t8)
  have seven: "(7 :: u64) = mask 3" by (simp add: mask_eq_exp_minus_1)
  have "?t AND 7 = take_bit 3 ?t" by (simp only: seven take_bit_eq_mask)
  also have "\<dots> = word_of_nat (take_bit 3 t)" by (simp only: of_nat_take_bit)
  also have "take_bit 3 t = t mod 8" by (simp add: take_bit_eq_mod)
  finally have m: "?t AND 7 = word_of_nat (t mod 8)" .
  have "t div 8 < 2 ^ 13" "0 < t div 8" using assms by auto
  then have "(word_of_nat (t div 8) :: u64) \<noteq> 0" "\<not> 0x1FFFFFFF < (word_of_nat (t div 8) :: u64)"
    by (auto simp: word_less_nat_alt unat_of_nat take_bit_nat_eq_self unat_eq_0 [symmetric])
  moreover have "cursor_varint (venc t @ rest) = Some (?t, rest)"
    using assms by (intro cursor_varint_venc) simp
  moreover have "(ucast (word_of_nat (t div 8) :: u64) :: u32) = word_of_nat (t div 8)"
    using \<open>t div 8 < 2 ^ 13\<close>
    by (intro iffD2 [OF word_unat_eq_iff]) (simp add: unsigned_ucast_eq unat_of_nat take_bit_nat_eq_self)
  moreover have "(ucast (word_of_nat (t mod 8) :: u64) :: u8) = word_of_nat (t mod 8)"
    by (intro iffD2 [OF word_unat_eq_iff]) (simp add: unsigned_ucast_eq unat_of_nat take_bit_nat_eq_self)
  ultimately show ?thesis
    by (simp add: cursor_tag_def d m)
qed

lemma cursor_bytes_venc:
  "length data < 2 ^ 64 \<Longrightarrow> cursor_bytes (venc (length data) @ data @ rest) = Some (data, rest)"
  by (simp add: cursor_bytes_def cursor_varint_venc unat_of_nat take_bit_nat_eq_self)

lemma unat_of_small: "n < 2 ^ LENGTH('a) \<Longrightarrow> unat (word_of_nat n :: 'a::len word) = n"
  by (simp add: unat_of_nat take_bit_nat_eq_self)

lemma destination_vcsec: "destination [8, 2] False a = Some a"
  by (simp add: destination_def destination_loop.simps cursor_tag_def cursor_varint_def
      varint_from.simps Let_def drop_bit_eq_div)

lemma venc_16: "venc 16 = [16]"
  by (simp add: venc.simps)

lemma venc_18: "venc 18 = [18]"
  by (simp add: venc.simps)

lemma destination_source:
  assumes "length a = 16" "\<not> is_zero_uuid a"
  shows "destination (18 # 16 # a) True b = Some a"
proof -
  have "cursor_tag (18 # 16 # a) = Some (2, 2, 16 # a)"
    using cursor_tag_venc [of 18 "16 # a"] by (simp add: venc_18)
  moreover have "cursor_bytes (16 # a) = Some (a, [])"
    using cursor_bytes_venc [of a "[]"] assms(1) by (simp add: venc_16)
  ultimately show ?thesis
    using assms by (simp add: destination_def destination_loop.simps kBleUuidSize_def)
qed

lemma capture_loop_field:
  assumes "t \<in> {50, 58, 82, 114, 410}" "length data < 2 ^ 64"
    "capture_field (word_of_nat (t div 8)) data c = Some c'"
  shows "capture_loop (vfield t data @ rest) c = capture_loop rest c'"
proof -
  have "t mod 8 = 2" "t div 8 \<in> {6, 7, 10, 14, 51}" "8 \<le> t" "t < 2 ^ 16" using assms(1) by auto
  moreover from this have "cursor_tag (vfield t data @ rest) =
      Some (word_of_nat (t div 8), 2, venc (length data) @ data @ rest)"
    using cursor_tag_venc [of t "venc (length data) @ data @ rest"] by (simp add: vfield_def)
  moreover have "vfield t data @ rest \<noteq> []" by (simp add: vfield_def venc.simps [of t])
  ultimately show ?thesis
    using cursor_bytes_venc [OF assms(2), of rest] assms(3)
    by (subst capture_loop.simps) auto
qed

lemma capture_request_body:
  assumes "length addr = 16" "\<not> is_zero_uuid addr" "length uuid = 16" "\<not> is_zero_uuid uuid"
    "data \<noteq> []" "length data < 2 ^ 64"
  shows "\<exists>c. capture_loop (request_body addr uuid payload data) capture_start = Some c \<and>
    cap_destination c \<and> cap_source c \<and> cap_uuid c \<and> cap_payload c \<and>
    cap_metadata c = \<lparr>md_reply_address = addr, md_uuid = uuid, md_payload = payload\<rparr>"
proof -
  let ?c1 = "capture_start\<lparr>cap_destination := True\<rparr>"
  let ?c2 = "?c1\<lparr>cap_source := True, cap_metadata := empty_metadata\<lparr>md_reply_address := addr\<rparr>\<rparr>"
  let ?c3 = "?c2\<lparr>cap_payload := True, cap_metadata := empty_metadata\<lparr>md_reply_address := addr,
    md_payload := payload\<rparr>\<rparr>"
  let ?c4 = "?c3\<lparr>cap_uuid := True, cap_metadata := \<lparr>md_reply_address = addr, md_uuid = uuid,
    md_payload = payload\<rparr>\<rparr>"
  let ?t = "if payload = Protobuf then 82 else 114 :: nat"
  have f1: "capture_field (word_of_nat (50 div 8)) [8, 2] capture_start = Some ?c1"
    by (simp add: capture_field_def destination_vcsec capture_start_def Let_def)
  have f2: "capture_field (word_of_nat (58 div 8)) (18 # 16 # addr) ?c1 = Some ?c2"
    by (simp add: capture_field_def destination_source [OF assms(1,2)] capture_start_def Let_def)
  have f3: "capture_field (word_of_nat (?t div 8)) data ?c2 = Some ?c3"
    using assms(5) by (cases payload) (simp_all add: capture_field_def capture_start_def Let_def
        empty_metadata_def)
  have f4: "capture_field (word_of_nat (410 div 8)) uuid ?c3 = Some ?c4"
    using assms(3,4) by (simp add: capture_field_def capture_start_def Let_def empty_metadata_def
        kBleUuidSize_def)
  have "capture_loop (request_body addr uuid payload data) capture_start = capture_loop [] ?c4"
    unfolding request_body_def
    using capture_loop_field [OF _ _ f1, of "vfield 58 (18 # 16 # addr) @ vfield ?t data @ vfield 410 uuid"]
      capture_loop_field [OF _ _ f2, of "vfield ?t data @ vfield 410 uuid"]
      capture_loop_field [OF _ assms(6) f3, of "vfield 410 uuid"]
      capture_loop_field [OF _ _ f4, of "[]"] assms(1,3)
    by simp
  then show ?thesis by (simp add: capture_loop.simps capture_start_def)
qed

lemma destination_loop_shorter:
  "cursor_tag bs = Some (f, w, r) \<Longrightarrow> cursor_varint r = Some (d, r') \<Longrightarrow> length r' < length bs"
  "cursor_tag bs = Some (f, w, r) \<Longrightarrow> cursor_bytes r = Some (e, r') \<Longrightarrow> length r' < length bs"
  "cursor_tag bs = Some (f, w, r) \<Longrightarrow> cursor_skip w r = Some r' \<Longrightarrow> length r' < length bs"
  by (meson cursor_tag_shorter cursor_varint_shorter cursor_bytes_shorter cursor_skip_shorter
      less_trans le_less_trans)+

lemma destination_loop_keeps: "destination_loop False bs seen a = Some a' \<Longrightarrow> a' = a"
proof (induction "length bs" arbitrary: bs seen rule: less_induct)
  case less
  from less.prems show ?case
    by (subst (asm) destination_loop.simps)
      (auto split: if_splits option.splits prod.splits dest!: less.hyps [rotated]
        intro: destination_loop_shorter)
qed

lemma destination_loop_source:
  "destination_loop True bs seen a = Some a' \<Longrightarrow>
   seen \<longrightarrow> length a = 16 \<and> \<not> is_zero_uuid a \<Longrightarrow> length a' = 16 \<and> \<not> is_zero_uuid a'"
proof (induction "length bs" arbitrary: bs seen a rule: less_induct)
  case less
  from less.prems show ?case
    by (subst (asm) destination_loop.simps)
      (auto split: if_splits option.splits prod.splits dest!: less.hyps [rotated 1]
        simp: kBleUuidSize_def intro: destination_loop_shorter)
qed

text \<open>What a capture in progress has established of the metadata.\<close>

definition capture_ok :: "capture_state \<Rightarrow> bool" where
  "capture_ok c \<longleftrightarrow>
     (cap_source c \<longrightarrow> length (md_reply_address (cap_metadata c)) = 16 \<and>
        \<not> is_zero_uuid (md_reply_address (cap_metadata c))) \<and>
     (cap_uuid c \<longrightarrow> length (md_uuid (cap_metadata c)) = 16 \<and>
        \<not> is_zero_uuid (md_uuid (cap_metadata c)))"

lemma capture_field_ok: "capture_field f d c = Some c' \<Longrightarrow> capture_ok c \<Longrightarrow> capture_ok c'"
  by (auto simp: capture_field_def capture_ok_def Let_def destination_def kBleUuidSize_def
      dest!: destination_loop_source destination_loop_keeps split: if_splits option.splits)

lemma capture_loop_ok: "capture_loop bs c = Some c' \<Longrightarrow> capture_ok c \<Longrightarrow> capture_ok c'"
proof (induction "length bs" arbitrary: bs c rule: less_induct)
  case less
  from less.prems show ?case
    by (subst (asm) capture_loop.simps)
      (auto split: if_splits option.splits prod.splits dest!: less.hyps [rotated]
        intro: destination_loop_shorter capture_field_ok)
qed

lemma length_vfield: "length (vfield t d) = length (venc t) + length (venc (length d)) + length d"
  by (simp add: vfield_def)

subsection \<open>Properties\<close>

text \<open>Varints decode exactly the minimal encodings: every 64-bit value's minimal encoding is
  read back with what follows it untouched, and whatever the cursor accepts is the minimal encoding
  of the value it returns.\<close>

theorem varint_exact:
  "cursor_varint bs = Some (v, rest) \<longleftrightarrow> bs = venc (unat v) @ rest"
  using cursor_varint_canonical varint.dec_enc by auto

text \<open>Every well-formed VCSEC request frame is captured: reply address, request UUID and payload
  kind come out exactly as they were put in.\<close>

theorem capture_request:
  assumes "length addr = 16" "\<not> is_zero_uuid addr" "length uuid = 16" "\<not> is_zero_uuid uuid"
    "data \<noteq> []" "length (request_body addr uuid payload data) \<le> 2048"
  shows "capture_vcsec_request (Some (request_frame addr uuid payload data)) =
    (True, \<lparr>md_reply_address = addr, md_uuid = uuid, md_payload = payload\<rparr>)"
proof -
  let ?b = "request_body addr uuid payload data"
  have "length data < 2 ^ 64" using assms(6) by (simp add: request_body_def length_vfield)
  from capture_request_body [OF assms(1-5) this, of payload] obtain c where
    c: "capture_loop ?b capture_start = Some c" "cap_destination c" "cap_source c" "cap_uuid c"
      "cap_payload c" "cap_metadata c = \<lparr>md_reply_address = addr, md_uuid = uuid, md_payload = payload\<rparr>"
    by blast
  have "unat (be16 (ucast (drop_bit 8 (word_of_nat (length ?b) :: u16)))
      (ucast (word_of_nat (length ?b) :: u16))) = length ?b"
    using assms(6) by (simp add: be16_bytes unat_of_nat take_bit_nat_eq_self)
  with c assms(6) show ?thesis
    by (simp add: capture_vcsec_request_def request_frame_def Let_def)
qed

theorem capture_request_witness:
  "fst (capture_vcsec_request (Some (request_frame (replicate 16 1) (replicate 16 2) Protobuf [9])))"
  by (subst capture_request) (simp_all add: is_zero_uuid_def list_all_iff request_body_def length_vfield
      venc.simps)

text \<open>An accepted capture has a frame of 2 to 2050 bytes whose length header is exact, and a
  non-zero 16-byte reply address and UUID; a refused one leaves the default metadata.\<close>

theorem capture_sound:
  "case capture_vcsec_request frame_ptr of
     (False, md) \<Rightarrow> md = empty_metadata
   | (True, md) \<Rightarrow> (\<exists>frame. frame_ptr = Some frame \<and> 2 \<le> length frame \<and> length frame \<le> 2050 \<and>
       unat (be16 (frame ! 0) (frame ! 1)) = length frame - 2) \<and>
       length (md_reply_address md) = 16 \<and> \<not> is_zero_uuid (md_reply_address md) \<and>
       length (md_uuid md) = 16 \<and> \<not> is_zero_uuid (md_uuid md)"
proof -
  have "capture_ok capture_start" by (simp add: capture_ok_def capture_start_def)
  then have ok: "capture_loop bs capture_start = Some c \<Longrightarrow> capture_ok c" for bs c
    by (rule capture_loop_ok [rotated])
  show ?thesis
    using ok by (auto simp: capture_vcsec_request_def capture_ok_def not_less split: option.splits)
qed

text \<open>A reply is admitted only by a context that was prepared and whose request was transmitted,
  for the same kind, link generation, command and attempt, while the command executes and neither
  its total nor its phase timeout has run out, when the address is the request's and the UUID is
  absent or the request's; the context is kept. A question about the live kind after expiry retires
  the context, so nothing is admitted until a new request is prepared and transmitted.\<close>

theorem reply_admission:
  assumes "context_matches st address an uuid un c = (ok, c')"
  shows "(ok \<longrightarrow> c' = c \<and> rc_prepared c \<and> rc_transmitted c \<and> at_kind st = rc_kind c \<and>
      at_executing st \<and> at_generation st = rc_generation c \<and> at_command_id st = rc_command_id c \<and>
      at_attempt st = rc_attempt c \<and>
      (at_total_timeout_ms st = 0 \<or> at_now_ms st - at_enqueued_at_ms st < at_total_timeout_ms st) \<and>
      at_now_ms st - at_phase_started_at_ms st < at_phase_timeout_ms st \<and>
      bytes_match address an (rc_reply_address c) \<and> (un = 0 \<or> bytes_match uuid un (rc_uuid c))) \<and>
    (c' \<noteq> c \<longrightarrow> c' = retired_context \<and> (\<forall>st' a n u m. \<not> fst (context_matches st' a n u m c')))"
  using assms
  by (auto simp: context_matches_def context_retire_def retired_context_def not_le split: if_splits)

theorem reply_admission_witness:
  "\<not> fst (context_matches \<lparr>at_generation = 1, at_command_id = 2, at_attempt = 1, at_kind = Action,
      at_executing = False, at_now_ms = 0, at_enqueued_at_ms = 0, at_total_timeout_ms = 0,
      at_phase_started_at_ms = 0, at_phase_timeout_ms = 7000\<rparr> None 0 None 0
     (retired_context\<lparr>rc_prepared := True, rc_transmitted := True\<rparr>))"
  using reply_admission [OF prod.collapse [symmetric]]
  by (metis vcsec_attempt_state.select_convs(5))

end
