(* ===== verification/CommandTypes.thy ===== *)
theory CommandTypes
  imports Prelude
begin

text \<open>
  main/logic/session_state.hpp, command_result.hpp and command_fault.hpp: the session mirror, the
  outcome values of a command, and the decisions on vehicle faults. Texts are HOL strings; the
  code's C strings hold no NUL inside, so comparing them is equality.
\<close>

subsection \<open>Session mirror\<close>

datatype session_state = Unauthenticated | Authenticating | Established | InvalidSession

record session_tracker =
  session_state :: session_state
  session_epoch :: bytes
  session_counter :: u32
  session_clock :: u32

definition new_session :: session_tracker where
  "new_session = \<lparr>session_state = Unauthenticated, session_epoch = replicate 16 0, session_counter = 0,
     session_clock = 0\<rparr>"

definition session_reset :: "session_tracker \<Rightarrow> session_tracker" where
  "session_reset s = s\<lparr>session_state := Unauthenticated, session_epoch := replicate 16 0, session_counter := 0,
     session_clock := 0\<rparr>"

definition set_established :: "bytes \<Rightarrow> u32 \<Rightarrow> u32 \<Rightarrow> session_tracker \<Rightarrow> session_tracker" where
  "set_established ep cnt clock s = s\<lparr>session_epoch := ep, session_counter := max (session_counter s) cnt,
     session_clock := clock, session_state := Established\<rparr>"

definition is_authenticated :: "session_tracker \<Rightarrow> bool" where
  "is_authenticated s \<longleftrightarrow> session_state s = Established"

subsection \<open>Outcome texts and no-op policy\<close>

definition is_nominal_already_set :: "string \<Rightarrow> bool" where
  "is_nominal_already_set err \<longleftrightarrow> err = ''already_set''"

datatype command_outcome_policy = AlreadySetOnly | ChargeStart | ChargeStop

datatype command_noop = NoOpNone | AlreadySet | Complete | IsCharging | NotCharging

definition command_noop_code :: "command_noop \<Rightarrow> string option" where
  "command_noop_code v = (case v of AlreadySet \<Rightarrow> Some ''already_set'' | Complete \<Rightarrow> Some ''complete''
     | IsCharging \<Rightarrow> Some ''is_charging'' | NotCharging \<Rightarrow> Some ''not_charging''
     | NoOpNone \<Rightarrow> None)"

definition command_noop_text :: "command_noop \<Rightarrow> string" where
  "command_noop_text v = (case v of Complete \<Rightarrow> ''Charging is already complete''
     | IsCharging \<Rightarrow> ''Vehicle is already charging''
     | NotCharging \<Rightarrow> ''Vehicle is already not charging''
     | _ \<Rightarrow> ''command executed successfully'')"

definition infotainment_prefix :: string where
  "infotainment_prefix = ''Infotainment action failed: ''"

definition strip_action_prefix :: "string \<Rightarrow> string" where
  "strip_action_prefix reason =
     (if take (length infotainment_prefix) reason = infotainment_prefix
      then drop (length infotainment_prefix) reason else reason)"

definition admitted_command_noop :: "string \<Rightarrow> command_noop" where
  "admitted_command_noop reason0 =
     (let reason = strip_action_prefix reason0 in
      if reason = ''complete'' then Complete
      else if reason = ''is_charging'' then IsCharging
      else if reason = ''not_charging'' then NotCharging else AlreadySet)"

definition is_nominal_charge_outcome :: "command_outcome_policy \<Rightarrow> string \<Rightarrow> bool" where
  "is_nominal_charge_outcome policy reason0 =
     (let reason = strip_action_prefix reason0 in
      if policy = ChargeStart then reason = ''is_charging'' \<or> reason = ''complete''
      else policy = ChargeStop \<and> reason = ''not_charging'')"

definition command_result_text :: "bool \<Rightarrow> string \<Rightarrow> string" where
  "command_result_text ok err =
     (if ok \<or> is_nominal_already_set err then ''command executed successfully''
      else if err = [] then ''vehicle not reachable'' else err)"

datatype command_failure_origin = TransportOrTimeout | VehicleResponse | LocalPolicy

text \<open>\<open>string_view::find(p) != npos\<close>\<close>

fun contains_text :: "string \<Rightarrow> string \<Rightarrow> bool" where
  "contains_text p [] = (p = [])"
| "contains_text p (c # cs) = (take (length p) (c # cs) = p \<or> contains_text p cs)"

definition classify_command_failure :: "string \<Rightarrow> command_failure_origin" where
  "classify_command_failure err =
     (if contains_text ''vehicle asleep'' err then LocalPolicy
      else if contains_text ''authentication failed'' err \<or> contains_text ''whitelist'' err \<or>
              contains_text ''rejected'' err \<or> contains_text ''action failed'' err \<or>
              contains_text ''failed with error status'' err \<or>
              contains_text ''VCSEC command failed'' err \<or> contains_text ''vehicle fault:'' err
      then VehicleResponse else TransportOrTimeout)"

datatype severity = Temporary | Permanent | SeverityUnknown
datatype exec_outcome = MayHaveSucceeded | DefinitelyFailed | OutcomeUnknown

record command_error =
  ce_msg :: string
  ce_severity :: severity
  ce_outcome :: exec_outcome

text \<open>An operation result: \<open>success_\<close>, \<open>no_op_\<close> and the owned error pointer.\<close>

record operation_result =
  op_success :: bool
  op_no_op :: command_noop
  op_error :: "command_error option"

definition op_result_success :: "command_noop \<Rightarrow> operation_result" where
  "op_result_success n = \<lparr>op_success = True, op_no_op = n, op_error = None\<rparr>"

definition op_result_failure :: "command_error option \<Rightarrow> operation_result" where
  "op_result_failure e = \<lparr>op_success = False, op_no_op = NoOpNone, op_error = e\<rparr>"

definition op_result_failure_msg :: "string \<Rightarrow> operation_result" where
  "op_result_failure_msg msg =
     op_result_failure (Some \<lparr>ce_msg = msg, ce_severity = Temporary, ce_outcome = DefinitelyFailed\<rparr>)"

definition op_result_release_error ::
    "operation_result \<Rightarrow> command_error option \<times> operation_result" where
  "op_result_release_error r = (op_error r, r\<lparr>op_error := None\<rparr>)"

subsection \<open>Faults\<close>

datatype command_effect = Mutating | ReadOnly

record command_failure_info =
  fi_severity :: severity
  fi_outcome :: exec_outcome
  fi_no_op :: command_noop

definition default_failure_info :: command_failure_info where
  "default_failure_info = \<lparr>fi_severity = SeverityUnknown, fi_outcome = DefinitelyFailed,
     fi_no_op = NoOpNone\<rparr>"

definition execution_uncertain :: "command_failure_info \<Rightarrow> bool" where
  "execution_uncertain info \<longleftrightarrow> fi_outcome info \<noteq> DefinitelyFailed"

definition uncertain_command_failure :: command_failure_info where
  "uncertain_command_failure = \<lparr>fi_severity = SeverityUnknown, fi_outcome = MayHaveSucceeded,
     fi_no_op = NoOpNone\<rparr>"

definition wake_confirmation_required :: "bool \<Rightarrow> command_failure_info \<Rightarrow> bool" where
  "wake_confirmation_required send_success failure \<longleftrightarrow> send_success \<or> execution_uncertain failure"

record message_fault_decision =
  fd_known :: bool
  fd_temporary :: bool
  fd_possible_success :: bool
  fd_repair_session :: bool
  fd_reason :: string

definition mfd :: "bool \<Rightarrow> bool \<Rightarrow> bool \<Rightarrow> bool \<Rightarrow> string \<Rightarrow> message_fault_decision" where
  "mfd k t p r s = \<lparr>fd_known = k, fd_temporary = t, fd_possible_success = p,
     fd_repair_session = r, fd_reason = s\<rparr>"

definition classify_message_fault :: "u32 \<Rightarrow> message_fault_decision" where
  "classify_message_fault code =
    (if code = 0 then mfd False False True False ''vehicle fault: unconfirmed vehicle operation status''
     else if code = 1 then mfd True True False False ''vehicle fault: vehicle busy''
     else if code = 2 then mfd True True False False ''vehicle fault: vehicle subsystem timeout''
     else if code = 3 then mfd True False False False ''vehicle fault: key not on whitelist''
     else if code = 4 then mfd True False False False ''vehicle fault: vehicle key inactive''
     else if code = 5 then mfd True True False True ''vehicle fault: vehicle signature rejected''
     else if code = 6 then mfd True True False True ''vehicle fault: vehicle counter rejected''
     else if code = 7 then mfd True False False False ''vehicle fault: vehicle permission denied''
     else if code = 8 then mfd True False False False ''vehicle fault: invalid vehicle domain''
     else if code = 9 then mfd True False False False ''vehicle fault: invalid vehicle command''
     else if code = 10 then mfd True False False False ''vehicle fault: vehicle decoding failed''
     else if code = 11 then mfd True True False False ''vehicle fault: vehicle internal error''
     else if code = 12 then mfd True False False False ''vehicle fault: vehicle VIN mismatch''
     else if code = 13 then mfd True False False False ''vehicle fault: invalid vehicle parameter''
     else if code = 14 then mfd True False False False ''vehicle fault: vehicle keychain full''
     else if code = 15 then mfd True True False True ''vehicle fault: vehicle session epoch rejected''
     else if code = 16 then mfd True False False False ''vehicle fault: invalid vehicle IV length''
     else if code = 17 then mfd True True False True ''vehicle fault: vehicle command expired''
     else if code = 18 then mfd True False False False ''vehicle fault: vehicle identity unavailable''
     else if code = 19 then mfd True False False False ''vehicle fault: vehicle metadata hash failed''
     else if code = 20 then mfd True True False True ''vehicle fault: vehicle command TTL rejected''
     else if code = 21 then mfd True False False False ''vehicle fault: vehicle remote access disabled''
     else if code = 22 then mfd True False False False ''vehicle fault: vehicle service access disabled''
     else if code = 23 then
       mfd True False False False ''vehicle fault: vehicle account credentials required''
     else if code = 24 then mfd True False False False ''vehicle fault: vehicle request MTU exceeded''
     else if code = 25 then mfd True False True False ''vehicle fault: vehicle response MTU exceeded''
     else if code = 26 then mfd True False False False ''vehicle fault: vehicle repeated counter''
     else if code = 27 then mfd True False False False ''vehicle fault: invalid vehicle key handle''
     else if code = 28 then
       mfd True False False False ''vehicle fault: vehicle response encryption required''
     else mfd False False True False ''vehicle fault: unknown vehicle fault'')"

definition fault_allows_retry ::
    "message_fault_decision \<Rightarrow> bool \<Rightarrow> bool \<Rightarrow> command_effect \<Rightarrow> bool" where
  "fault_allows_retry d fault_authenticated payload_maybe_sent effect \<longleftrightarrow>
     fd_known d \<and> fd_temporary d \<and> \<not> fd_possible_success d \<and>
     (fault_authenticated \<or> \<not> payload_maybe_sent \<or> effect = ReadOnly)"

definition fault_failure_info ::
    "message_fault_decision \<Rightarrow> bool \<Rightarrow> bool \<Rightarrow> command_failure_info" where
  "fault_failure_info d fault_authenticated payload_maybe_sent =
     \<lparr>fi_severity = (if fd_known d then (if fd_temporary d then Temporary else Permanent)
                     else SeverityUnknown),
      fi_outcome = (if fd_possible_success d \<or> (payload_maybe_sent \<and> \<not> fault_authenticated)
                    then MayHaveSucceeded else DefinitelyFailed),
      fi_no_op = NoOpNone\<rparr>"

definition uncertain_command_reason :: string where
  "uncertain_command_reason = ''command outcome unknown; command may have executed''"

lemma counter_set_established: "session_counter (set_established ep cnt clock s) = max (session_counter s) cnt"
  by (simp add: set_established_def)

subsection \<open>Properties\<close>

text \<open>Re-establishing a session never lowers its counter: it becomes the larger of the local and
  the reported one, over any sequence of reports.\<close>

theorem session_counter_monotone:
  "session_counter (foldl (\<lambda>s (ep, cnt, clock). set_established ep cnt clock s) s0 reports) =
   Max (insert (session_counter s0) (set (map (\<lambda>(ep, cnt, clock). cnt) reports)))"
proof (induction reports arbitrary: s0)
  case Nil
  show ?case by simp
next
  case (Cons x xs)
  obtain ep cnt clock where x: "x = (ep, cnt, clock)" by (cases x)
  let ?A = "set (map (\<lambda>(ep, cnt, clock). cnt) xs)"
  have "max (session_counter s0) (Max (insert cnt ?A)) = Max (insert (session_counter s0) (insert cnt ?A))"
    by (simp add: Max_insert)
  moreover have "Max (insert (max (session_counter s0) cnt) ?A) = max (session_counter s0) (Max (insert cnt ?A))"
    by (cases "?A = {}") (simp_all add: max.assoc)
  ultimately show ?case
    by (simp add: x Cons.IH counter_set_established)
qed

text \<open>A fault that repairs the session is always temporary and known; a fault that may have
  executed is never temporary, so it never allows a retry whatever is authenticated; and an
  unauthenticated fault after a mutating payload may have been sent never allows one either.\<close>

theorem fault_retry_safe:
  "(fd_repair_session (classify_message_fault code) \<longrightarrow>
      fd_known (classify_message_fault code) \<and> fd_temporary (classify_message_fault code)) \<and>
   (fd_possible_success (classify_message_fault code) \<longrightarrow>
      \<not> fault_allows_retry (classify_message_fault code) auth sent effect) \<and>
   \<not> fault_allows_retry (classify_message_fault code) False True Mutating \<and>
   (fault_allows_retry (classify_message_fault code) auth sent Mutating \<longrightarrow>
      \<not> execution_uncertain (fault_failure_info (classify_message_fault code) auth sent))"
  by (auto simp: fault_allows_retry_def execution_uncertain_def fault_failure_info_def
      classify_message_fault_def mfd_def)

end
