(* ===== verification/CommandRunner.thy ===== *)
theory CommandRunner
  imports RxFraming VcsecResponse CommandTypes
begin

text \<open>
  main/logic/command_runner.hpp: the command FIFO and its state machine, and the order in which the
  vehicle task (VehicleController::drive_command_runner_) uses it. The queue is the code's ring of
  eight cells; \<open>current_command()\<close> is the head cell. Completion callbacks appear as a log of calls,
  oldest first: a command records whether it has a callback. Reason texts are NUL-free.
\<close>

subsection \<open>Types\<close>

datatype wake_policy = NoWakeSkip | NoWakeFail | WakeIfNeeded
datatype sleep_state = SleepUnknown | Asleep | Awake

definition sleep_state_from_vcsec :: "bool \<Rightarrow> bool \<Rightarrow> sleep_state" where
  "sleep_state_from_vcsec reported_awake reported_asleep =
     (if reported_asleep then Asleep else if reported_awake then Awake else SleepUnknown)"

definition vcsec_status_confirms_wake :: "sleep_state \<Rightarrow> bool \<Rightarrow> bool" where
  "vcsec_status_confirms_wake reported has_closure_statuses \<longleftrightarrow>
     reported = Awake \<or> has_closure_statuses"

definition next_asleep_since :: "u32 \<Rightarrow> sleep_state \<Rightarrow> u32 \<Rightarrow> u32" where
  "next_asleep_since since reported now =
     (if reported \<noteq> Asleep then 0 else if since \<noteq> 0 then since else now)"

definition vcsec_asleep_proven :: "sleep_state \<Rightarrow> u32 \<Rightarrow> u32 \<Rightarrow> u32 \<Rightarrow> u32 \<Rightarrow> bool" where
  "vcsec_asleep_proven current since now tick_hz debounce_s =
     (if current \<noteq> Asleep \<or> since = 0 \<or> tick_hz = 0 then False
      else debounce_s \<le> (now - since) div tick_hz)"

datatype command_state = StIdle | StEnsuringVcsec | StWaitingVcsecAuth | StEnsuringAwake
  | StWaitingWake | StEnsuringInfotainment | StWaitingInfoAuth | StReady | StAwaitingResponse
  | StCompleted | StFailed | StSkipped

datatype command_phase = PhQueued | PhEnsuringVcsecSession | PhEnsuringAwake
  | PhEnsuringInfotainmentSession | PhSendingRequest | PhAwaitingResponse | PhTerminal

datatype terminal_reason = TrNone | TrSuccess | TrAlreadySet | TrVehicleAsleep | TrResponseTimeout
  | TrStepTimeout | TrDeadlineExceeded | TrMaxRetriesExceeded | TrAuthenticationFailed
  | TrBleDisconnected | TrReplayDetected | TrCancelled

datatype tx_action = TxNone | SendVcsecSessionInfoRequest | SendWake | SendInfoSessionInfoRequest
  | SendCommandPayload

definition is_session_info_uuid_matching :: "bytes option \<Rightarrow> nat \<Rightarrow> bytes option \<Rightarrow> nat \<Rightarrow> bool" where
  "is_session_info_uuid_matching msg_uuid msg_len expected_uuid expected_len =
     (if msg_len = 0 then True
      else if msg_len \<noteq> expected_len then False
      else case (msg_uuid, expected_uuid) of
             (Some m, Some e) \<Rightarrow> take msg_len m = take msg_len e
           | _ \<Rightarrow> False)"

definition is_command_awaiting_session_auth :: "bool \<Rightarrow> bool \<Rightarrow> command_state \<Rightarrow> ble_domain \<Rightarrow> bool" where
  "is_command_awaiting_session_auth has_active completed st domain =
     (if \<not> has_active \<or> completed then False
      else if domain = VehicleSecurity then st = StWaitingVcsecAuth
      else if domain = Infotainment then st = StWaitingInfoAuth
      else False)"

definition is_fault_domain_matching :: "ble_domain \<Rightarrow> ble_domain \<Rightarrow> command_state \<Rightarrow> bool" where
  "is_fault_domain_matching fault_domain cmd_domain st =
     (if fault_domain = Broadcast then True
      else if fault_domain = VehicleSecurity
      then cmd_domain = VehicleSecurity \<or> st = StWaitingVcsecAuth
      else if fault_domain = Infotainment
      then cmd_domain = Infotainment \<and>
           (st = StWaitingInfoAuth \<or> st = StReady \<or> st = StAwaitingResponse)
      else False)"

datatype vcsec_op_action = OpWait | OpCompleteOk | OpError

definition evaluate_vcsec_operation_status :: "int \<Rightarrow> vcsec_op_action \<times> bool \<times> string" where
  "evaluate_vcsec_operation_status v =
     (if v = 1 then (OpWait, False, [])
      else if v = 0 then (OpCompleteOk, True, [])
      else (OpError, False, ''VCSEC command failed with error status''))"

record command_request =
  cmd_id :: u32
  cmd_name :: string
  cmd_domain :: ble_domain
  cmd_wake_policy :: wake_policy
  cmd_reply_kind :: vcsec_reply_kind
  cmd_outcome_policy :: command_outcome_policy
  cmd_uuid :: ble_uuid
  dispatcher_request_id :: u32
  cmd_state :: command_state
  cmd_phase :: command_phase
  cmd_failure :: command_failure_info
  enqueued_at_ms :: u32
  phase_started_at_ms :: u32
  last_tx_ms :: u32
  timeout_ms :: u32
  retry_count :: u32
  max_retries :: u32
  next_retry_delay_ms :: u32
  is_completed :: bool
  is_success :: bool
  is_already_set :: bool
  wake_confirmed :: bool
  error_message :: string
  cmd_terminal_reason :: terminal_reason
  completes_on_transmit :: bool
  cmd_effect :: command_effect
  payload_maybe_sent :: bool
  has_on_complete :: bool

definition default_command :: command_request where
  "default_command = \<lparr>cmd_id = 0, cmd_name = [], cmd_domain = VehicleSecurity,
     cmd_wake_policy = WakeIfNeeded, cmd_reply_kind = Action, cmd_outcome_policy = AlreadySetOnly,
     cmd_uuid = zero_uuid, dispatcher_request_id = 0, cmd_state = StIdle, cmd_phase = PhQueued,
     cmd_failure = default_failure_info, enqueued_at_ms = 0, phase_started_at_ms = 0,
     last_tx_ms = 0, timeout_ms = 20000, retry_count = 0, max_retries = 3,
     next_retry_delay_ms = 0, is_completed = False, is_success = False, is_already_set = False,
     wake_confirmed = False, error_message = [], cmd_terminal_reason = TrNone,
     completes_on_transmit = False, cmd_effect = Mutating, payload_maybe_sent = False,
     has_on_complete = False\<rparr>"

text \<open>One call of a completion callback: command id, success, text, failure information.\<close>

type_synonym completion = "u32 \<times> bool \<times> string \<times> command_failure_info"

record command_runner =
  rx_framer_of :: rx_framer
  dispatcher_of :: ble_dispatcher
  vcsec_session :: session_tracker
  info_session :: session_tracker
  queue :: "command_request list"
  queue_head :: nat
  queue_count :: nat
  next_cmd_id :: u32
  completions :: "completion list"

definition kMaxQueueSize :: nat where "kMaxQueueSize = 8"
definition kDefaultStepTimeoutMs :: u32 where "kDefaultStepTimeoutMs = 5000"
definition kDefaultResponseTimeoutMs :: u32 where "kDefaultResponseTimeoutMs = 7000"
definition kInitialRetryDelayMs :: u32 where "kInitialRetryDelayMs = 1000"
definition kMaxRetryDelayMs :: u32 where "kMaxRetryDelayMs = 5000"
definition kDefaultRxInterChunkTimeoutMs :: u32 where "kDefaultRxInterChunkTimeoutMs = 3000"

definition new_runner :: command_runner where
  "new_runner = \<lparr>rx_framer_of = new_rx_framer kDefaultRxInterChunkTimeoutMs kDefaultMaxPayload,
     dispatcher_of = new_dispatcher, vcsec_session = new_session, info_session = new_session,
     queue = replicate kMaxQueueSize default_command, queue_head = 0, queue_count = 0,
     next_cmd_id = 1, completions = []\<rparr>"

subsection \<open>Queue access\<close>

definition is_queue_full :: "command_runner \<Rightarrow> bool" where
  "is_queue_full r \<longleftrightarrow> kMaxQueueSize \<le> queue_count r"

definition has_active_command :: "command_runner \<Rightarrow> bool" where
  "has_active_command r \<longleftrightarrow> 0 < queue_count r"

text \<open>\<open>current_command()\<close>: the head cell, when the queue is not empty.\<close>

definition current :: "command_runner \<Rightarrow> command_request" where
  "current r = queue r ! queue_head r"

definition current_command :: "command_runner \<Rightarrow> command_request option" where
  "current_command r = (if queue_count r = 0 then None else Some (current r))"

definition upd_current :: "(command_request \<Rightarrow> command_request) \<Rightarrow> command_runner \<Rightarrow> command_runner" where
  "upd_current f r = r\<lparr>queue := (queue r)[queue_head r := f (current r)]\<rparr>"

definition commands :: "command_runner \<Rightarrow> command_request list" where
  "commands r = ring_view (queue_head r) (queue_count r) (queue r)"

subsection \<open>Completion and retry\<close>

definition unregister_current :: "command_runner \<Rightarrow> command_runner" where
  "unregister_current r =
     (if dispatcher_request_id (current r) \<noteq> 0
      then upd_current (\<lambda>c. c\<lparr>dispatcher_request_id := 0\<rparr>)
             (r\<lparr>dispatcher_of := snd (unregister_request (dispatcher_request_id (current r))
                                   (dispatcher_of r))\<rparr>)
      else r)"

definition finish_text :: "bool \<Rightarrow> string \<Rightarrow> command_failure_info \<Rightarrow> string" where
  "finish_text success err info =
     (if \<not> success \<and> execution_uncertain info
      then if err \<noteq> [] \<and> err \<noteq> uncertain_command_reason
           then uncertain_command_reason @ ''; '' @ err else uncertain_command_reason
      else err)"

definition finish_info :: "bool \<Rightarrow> command_failure_info \<Rightarrow> command_request \<Rightarrow> command_failure_info" where
  "finish_info success info c =
     (if \<not> success \<and> payload_maybe_sent c then info\<lparr>fi_outcome := MayHaveSucceeded\<rparr> else info)"

definition temporary_failure :: command_failure_info where
  "temporary_failure = \<lparr>fi_severity = Temporary, fi_outcome = DefinitelyFailed, fi_no_op = NoOpNone\<rparr>"

definition finish_command ::
    "bool \<Rightarrow> string \<Rightarrow> terminal_reason \<Rightarrow> command_failure_info \<Rightarrow> command_runner \<Rightarrow> command_runner" where
  "finish_command success err reason info0 r =
     (let c = current r; info = finish_info success info0 c; msg = finish_text success err info in
      if is_completed c then r
      else let r1 = upd_current (\<lambda>c. c\<lparr>is_completed := True, is_success := success,
                       cmd_failure := info, cmd_terminal_reason := reason,
                       cmd_state := (if success then StCompleted else StFailed),
                       cmd_phase := PhTerminal\<rparr>) r;
               r2 = upd_current (\<lambda>c. c\<lparr>error_message := msg\<rparr>) (unregister_current r1)
           in if has_on_complete c
              then r2\<lparr>completions := completions r2 @ [(cmd_id c, success, msg, info)]\<rparr> else r2)"

definition retry_delay :: "u32 \<Rightarrow> u32" where
  "retry_delay retries = min kMaxRetryDelayMs
     (kInitialRetryDelayMs * push_bit (unat (min (retries - 1) 10)) 1)"

definition schedule_retry :: "u32 \<Rightarrow> command_runner \<Rightarrow> command_runner" where
  "schedule_retry now r =
     unregister_current (upd_current (\<lambda>c. c\<lparr>retry_count := retry_count c + 1,
       next_retry_delay_ms := retry_delay (retry_count c + 1), wake_confirmed := False,
       phase_started_at_ms := now, cmd_state := StIdle, cmd_phase := PhQueued\<rparr>) r)"

subsection \<open>Queue operations\<close>

definition enqueue ::
    "string \<Rightarrow> ble_domain \<Rightarrow> wake_policy \<Rightarrow> u32 \<Rightarrow> u32 \<Rightarrow> ble_uuid \<Rightarrow> bool \<Rightarrow> bool \<Rightarrow> u32 \<Rightarrow>
     vcsec_reply_kind \<Rightarrow> command_runner \<Rightarrow> u32 \<times> command_runner" where
  "enqueue name domain policy timeout now uuid on_complete on_transmit retries kind r =
     (if kMaxQueueSize \<le> queue_count r then (0, r)
      else let tail = (queue_head r + queue_count r) mod kMaxQueueSize;
               id = next_cmd_id r;
               c = default_command\<lparr>cmd_id := id, cmd_name := name, cmd_domain := domain,
                     cmd_wake_policy := policy, cmd_uuid := uuid, enqueued_at_ms := now,
                     phase_started_at_ms := now, timeout_ms := timeout,
                     has_on_complete := on_complete, cmd_state := StIdle, cmd_phase := PhQueued,
                     completes_on_transmit := on_transmit, max_retries := retries,
                     cmd_reply_kind := kind\<rparr>
           in (id, r\<lparr>queue := (queue r)[tail := c],
                     next_cmd_id := (if id + 1 = 0 then 1 else id + 1),
                     queue_count := queue_count r + 1\<rparr>))"

definition find_command :: "(command_request \<Rightarrow> bool) \<Rightarrow> command_runner \<Rightarrow> nat option" where
  "find_command P r =
     map_option (\<lambda>i. (queue_head r + i) mod kMaxQueueSize) (first_index P (commands r))"

definition set_command_effect ::
    "u32 \<Rightarrow> command_effect \<Rightarrow> command_outcome_policy \<Rightarrow> command_runner \<Rightarrow> bool \<times> command_runner" where
  "set_command_effect cid effect policy r =
     (case find_command (\<lambda>c. cmd_id c = cid \<and> cmd_state c = StIdle \<and> \<not> payload_maybe_sent c) r of
        None \<Rightarrow> (False, r)
      | Some k \<Rightarrow> (True, r\<lparr>queue := (queue r)[k := (queue r ! k)\<lparr>cmd_effect := effect,
                                               cmd_outcome_policy := policy\<rparr>]\<rparr>))"

definition failure_info :: "u32 \<Rightarrow> command_runner \<Rightarrow> command_failure_info" where
  "failure_info cid r =
     (case find_command (\<lambda>c. cmd_id c = cid) r of
        None \<Rightarrow> uncertain_command_failure
      | Some k \<Rightarrow> cmd_failure (queue r ! k))"

definition pending_failure_info :: "u32 \<Rightarrow> command_runner \<Rightarrow> command_failure_info" where
  "pending_failure_info cid r =
     (case find_command (\<lambda>c. cmd_id c = cid) r of
        None \<Rightarrow> uncertain_command_failure
      | Some k \<Rightarrow>
          let c = queue r ! k in
          if is_completed c then if is_success c then uncertain_command_failure else cmd_failure c
          else if payload_maybe_sent c then uncertain_command_failure else temporary_failure)"

definition pop_current :: "command_runner \<Rightarrow> command_runner" where
  "pop_current r =
     (if queue_count r = 0 then r
      else let r1 = upd_current (\<lambda>_. default_command) (unregister_current r)
           in r1\<lparr>queue_head := (queue_head r + 1) mod kMaxQueueSize,
                 queue_count := queue_count r - 1\<rparr>)"

definition cancel_current :: "terminal_reason \<Rightarrow> command_runner \<Rightarrow> command_runner" where
  "cancel_current reason r =
     (if queue_count r = 0 then r
      else finish_command False ''command cancelled'' reason temporary_failure r)"

fun clear_loop :: "nat \<Rightarrow> command_runner \<Rightarrow> command_runner" where
  "clear_loop 0 r = r"
| "clear_loop (Suc n) r = clear_loop n (pop_current (cancel_current TrCancelled r))"

text \<open>The loop pops one command per round, so it runs \<open>queue_count\<close> rounds.\<close>

definition clear_runner :: "command_runner \<Rightarrow> command_runner" where
  "clear_runner r = (clear_loop (queue_count r) r)\<lparr>queue_head := 0, queue_count := 0\<rparr>"

definition runner_reset :: "bool \<Rightarrow> command_runner \<Rightarrow> command_runner" where
  "runner_reset reset_framer r =
     clear_runner (r\<lparr>rx_framer_of := (if reset_framer then rx_reset (rx_framer_of r) else rx_framer_of r),
       dispatcher_of := dispatcher_reset (dispatcher_of r),
       vcsec_session := session_reset (vcsec_session r),
       info_session := session_reset (info_session r)\<rparr>)"

definition already_set_info :: "command_noop \<Rightarrow> command_failure_info" where
  "already_set_info n = \<lparr>fi_severity = Temporary, fi_outcome = DefinitelyFailed, fi_no_op = n\<rparr>"

definition complete_current_command :: "bool \<Rightarrow> string \<Rightarrow> bool \<Rightarrow> command_runner \<Rightarrow> command_runner" where
  "complete_current_command success err already r =
     (if queue_count r = 0 then r
      else if already \<or> is_nominal_already_set err
      then finish_command True ''command executed successfully'' TrAlreadySet
             (already_set_info AlreadySet) (upd_current (\<lambda>c. c\<lparr>is_already_set := True\<rparr>) r)
      else if success then finish_command True [] TrSuccess temporary_failure r
      else finish_command False (if err = [] then ''command rejected by vehicle'' else err)
             TrAuthenticationFailed temporary_failure r)"

definition is_awaiting_session_auth :: "ble_domain \<Rightarrow> command_runner \<Rightarrow> bool" where
  "is_awaiting_session_auth domain r =
     (case current_command r of None \<Rightarrow> False
      | Some c \<Rightarrow> is_command_awaiting_session_auth True (is_completed c) (cmd_state c) domain)"

definition should_notify_signed_message_fault :: "ble_domain \<Rightarrow> command_runner \<Rightarrow> bool" where
  "should_notify_signed_message_fault domain r =
     (case current_command r of None \<Rightarrow> False
      | Some c \<Rightarrow> \<not> is_completed c \<and> is_fault_domain_matching domain (cmd_domain c) (cmd_state c))"

subsection \<open>Tick\<close>

definition finish_none :: "string \<Rightarrow> terminal_reason \<Rightarrow> command_runner \<Rightarrow> tx_action option \<times> command_runner" where
  "finish_none err reason r = (Some TxNone, finish_command False err reason temporary_failure r)"

definition tick_deadline :: "u32 \<Rightarrow> bool \<Rightarrow> command_runner \<Rightarrow> tx_action option \<times> command_runner" where
  "tick_deadline now connected r =
     (let c = current r in
      if 0 < timeout_ms c \<and> timeout_ms c \<le> now - enqueued_at_ms c
      then finish_none (if \<not> connected then ''connection lost; command deadline exhausted''
                        else ''command deadline exhausted'') TrDeadlineExceeded r
      else if \<not> connected then (Some TxNone, r) else (None, r))"

definition tick_backoff :: "u32 \<Rightarrow> command_runner \<Rightarrow> tx_action option \<times> command_runner" where
  "tick_backoff now r =
     (let c = current r in
      if next_retry_delay_ms c \<noteq> 0 \<and> cmd_state c \<noteq> StAwaitingResponse
      then if now - phase_started_at_ms c < next_retry_delay_ms c then (Some TxNone, r)
           else (None, upd_current (\<lambda>c. c\<lparr>next_retry_delay_ms := 0\<rparr>) r)
      else (None, r))"

definition tick_response :: "u32 \<Rightarrow> command_runner \<Rightarrow> tx_action option \<times> command_runner" where
  "tick_response now r =
     (let c = current r in
      if cmd_state c = StAwaitingResponse
      then if kDefaultResponseTimeoutMs \<le> now - last_tx_ms c
           then if cmd_effect c = Mutating \<and> payload_maybe_sent c
                then finish_none uncertain_command_reason TrResponseTimeout r
                else if retry_count c < max_retries c
                then (Some TxNone, unregister_current (upd_current (\<lambda>c. c\<lparr>
                        retry_count := retry_count c + 1,
                        next_retry_delay_ms := retry_delay (retry_count c + 1),
                        cmd_state := StReady, cmd_phase := PhSendingRequest,
                        phase_started_at_ms := now\<rparr>) r))
                else finish_none ''command response timeout; max retries exceeded''
                       TrMaxRetriesExceeded r
           else (Some TxNone, r)
      else (None, r))"

definition tick_awake :: "u32 \<Rightarrow> bool \<Rightarrow> command_runner \<Rightarrow> tx_action option \<times> command_runner" where
  "tick_awake now awake r =
     (let c = current r in
      if awake \<and> (cmd_state c = StWaitingWake \<or> cmd_phase c = PhEnsuringAwake)
      then (None, upd_current (\<lambda>c. c\<lparr>wake_confirmed := True, cmd_state := StIdle,
                    phase_started_at_ms := now\<rparr>) r)
      else (None, r))"

definition tick_step :: "u32 \<Rightarrow> command_runner \<Rightarrow> tx_action option \<times> command_runner" where
  "tick_step now r =
     (let c = current r in
      if cmd_state c = StWaitingVcsecAuth \<or> cmd_state c = StWaitingWake \<or>
         cmd_state c = StWaitingInfoAuth
      then if kDefaultStepTimeoutMs \<le> now - phase_started_at_ms c
           then if cmd_effect c = Mutating \<and> payload_maybe_sent c
                then finish_none uncertain_command_reason TrStepTimeout r
                else if retry_count c < max_retries c
                then (Some TxNone, upd_current (\<lambda>c. c\<lparr>retry_count := retry_count c + 1,
                        next_retry_delay_ms := kInitialRetryDelayMs, wake_confirmed := False,
                        cmd_state := StIdle, cmd_phase := PhQueued,
                        phase_started_at_ms := now\<rparr>) r)
                else finish_none ''authentication / wake timeout; max retries exceeded''
                       TrStepTimeout r
           else (Some TxNone, r)
      else (None, r))"

definition emit_payload :: "u32 \<Rightarrow> command_runner \<Rightarrow> tx_action option \<times> command_runner" where
  "emit_payload now r =
     (let c = current r in
      if 0 < next_retry_delay_ms c \<and> now - phase_started_at_ms c < next_retry_delay_ms c
      then (Some TxNone, r)
      else (Some SendCommandPayload, upd_current (\<lambda>c. c\<lparr>next_retry_delay_ms := 0,
              cmd_state := StReady, cmd_phase := PhSendingRequest, phase_started_at_ms := now\<rparr>) r))"

definition await_step ::
    "command_state \<Rightarrow> command_phase \<Rightarrow> tx_action \<Rightarrow> u32 \<Rightarrow> command_runner \<Rightarrow>
     tx_action option \<times> command_runner" where
  "await_step st ph action now r =
     (Some action, upd_current (\<lambda>c. c\<lparr>cmd_state := st, cmd_phase := ph,
                     phase_started_at_ms := now\<rparr>) r)"

definition tick_progress ::
    "u32 \<Rightarrow> bool \<Rightarrow> bool \<Rightarrow> command_runner \<Rightarrow> tx_action option \<times> command_runner" where
  "tick_progress now awake asleep r =
     (let c = current r in
      if cmd_domain c = VehicleSecurity
      then if cmd_name c = ''Whitelist Add Key'' then emit_payload now r
           else if \<not> is_authenticated (vcsec_session r)
           then await_step StWaitingVcsecAuth PhEnsuringVcsecSession SendVcsecSessionInfoRequest now r
           else emit_payload now r
      else if cmd_domain c = Infotainment
      then if \<not> is_authenticated (vcsec_session r)
           then await_step StWaitingVcsecAuth PhEnsuringVcsecSession SendVcsecSessionInfoRequest now r
           else if \<not> wake_confirmed c \<and> asleep
           then (case cmd_wake_policy c of
                   NoWakeSkip \<Rightarrow>
                     (Some TxNone, upd_current (\<lambda>c. c\<lparr>cmd_state := StSkipped\<rparr>)
                        (finish_command False ''vehicle asleep'' TrVehicleAsleep temporary_failure r))
                 | NoWakeFail \<Rightarrow>
                     (Some TxNone, upd_current (\<lambda>c. c\<lparr>cmd_state := StFailed\<rparr>)
                        (finish_command False ''vehicle asleep'' TrVehicleAsleep temporary_failure r))
                 | WakeIfNeeded \<Rightarrow> await_step StWaitingWake PhEnsuringAwake SendWake now r)
           else if \<not> wake_confirmed c \<and> \<not> awake \<and> cmd_wake_policy c = WakeIfNeeded
           then await_step StWaitingWake PhEnsuringAwake SendWake now r
           else if \<not> is_authenticated (info_session r)
           then await_step StWaitingInfoAuth PhEnsuringInfotainmentSession
                  SendInfoSessionInfoRequest now r
           else emit_payload now r
      else (Some TxNone, r))"

definition tick_stages ::
    "u32 \<Rightarrow> bool \<Rightarrow> bool \<Rightarrow> bool \<Rightarrow> command_runner \<Rightarrow> tx_action option \<times> command_runner" where
  "tick_stages now connected awake asleep =
     fall_through (tick_deadline now connected)
      (fall_through (tick_backoff now)
        (fall_through (tick_response now)
          (fall_through (tick_awake now awake)
            (fall_through (tick_step now) (tick_progress now awake asleep)))))"

definition tick :: "u32 \<Rightarrow> bool \<Rightarrow> bool \<Rightarrow> bool \<Rightarrow> command_runner \<Rightarrow> tx_action \<times> command_runner" where
  "tick now connected awake asleep r =
     (if queue_count r = 0 \<or> is_completed (current r) then (TxNone, r)
      else case tick_stages now connected awake asleep r of
             (Some a, r') \<Rightarrow> (a, r') | (None, r') \<Rightarrow> (TxNone, r'))"

subsection \<open>Notifications\<close>

definition notify_tx_started :: "tx_action \<Rightarrow> command_runner \<Rightarrow> command_runner" where
  "notify_tx_started action r =
     (if queue_count r \<noteq> 0 \<and> \<not> is_completed (current r) \<and> action = SendCommandPayload
      then upd_current (\<lambda>c. c\<lparr>payload_maybe_sent := True\<rparr>) r else r)"

definition register_current :: "command_runner \<Rightarrow> command_runner" where
  "register_current r =
     (let c = current r in
      if dispatcher_request_id c = 0
      then let (rid, d) = register_request (cmd_domain c) (cmd_uuid c) (Some (queue_head r))
                            (dispatcher_of r)
           in upd_current (\<lambda>c. c\<lparr>dispatcher_request_id := rid\<rparr>) (r\<lparr>dispatcher_of := d\<rparr>)
      else r)"

definition notify_tx_complete :: "tx_action \<Rightarrow> u32 \<Rightarrow> command_runner \<Rightarrow> command_runner" where
  "notify_tx_complete action now r =
     (if queue_count r = 0 then r
      else let r1 = upd_current (\<lambda>c. c\<lparr>last_tx_ms := now\<rparr>) (notify_tx_started action r) in
        if completes_on_transmit (current r1)
        then if action = SendCommandPayload
             then finish_command True ''payload transmitted'' TrSuccess temporary_failure r1 else r1
        else if cmd_state (current r1) = StReady
        then register_current (upd_current (\<lambda>c. c\<lparr>cmd_state := StAwaitingResponse,
               cmd_phase := PhAwaitingResponse, phase_started_at_ms := now\<rparr>) r1)
        else r1)"

definition notify_tx_failed :: "string \<Rightarrow> u32 \<Rightarrow> bool \<Rightarrow> command_runner \<Rightarrow> command_runner" where
  "notify_tx_failed reason now build_failure r =
     (let c = current r in
      if queue_count r = 0 \<or> is_completed c then r
      else if build_failure \<or> (payload_maybe_sent c \<and> cmd_effect c = Mutating) \<or>
              max_retries c \<le> retry_count c
      then finish_command False reason TrBleDisconnected
             \<lparr>fi_severity = (if build_failure then Permanent else Temporary),
              fi_outcome = DefinitelyFailed, fi_no_op = NoOpNone\<rparr> r
      else schedule_retry now r)"

definition notify_vehicle_awake :: "bool \<Rightarrow> command_runner \<Rightarrow> command_runner" where
  "notify_vehicle_awake awake r =
     (let c = current r in
      if queue_count r \<noteq> 0 \<and> awake \<and> (cmd_state c = StWaitingWake \<or> cmd_phase c = PhEnsuringAwake)
      then upd_current (\<lambda>c. c\<lparr>wake_confirmed := True, cmd_state := StIdle\<rparr>) r else r)"

definition notify_link_lost :: "string \<Rightarrow> command_runner \<Rightarrow> command_runner" where
  "notify_link_lost reason r =
     (if queue_count r = 0 then r
      else finish_command False reason TrBleDisconnected temporary_failure r)"

definition notify_message_fault ::
    "message_fault_decision \<Rightarrow> bool \<Rightarrow> u32 \<Rightarrow> command_runner \<Rightarrow> command_runner" where
  "notify_message_fault decision authenticated now r =
     (let c = current r in
      if queue_count r = 0 \<or> is_completed c then r
      else let info = fault_failure_info decision authenticated (payload_maybe_sent c);
               retry_allowed = fault_allows_retry decision authenticated (payload_maybe_sent c)
                                 (cmd_effect c);
               r1 = (if authenticated \<and> fd_known decision \<and> \<not> fd_possible_success decision
                     then upd_current (\<lambda>c. c\<lparr>payload_maybe_sent := False\<rparr>) r else r)
           in if retry_allowed \<and> retry_count (current r1) < max_retries (current r1)
              then schedule_retry now
                     (if authenticated \<and> \<not> fd_possible_success decision
                      then upd_current (\<lambda>c. c\<lparr>payload_maybe_sent := False\<rparr>) r1 else r1)
              else finish_command False (fd_reason decision) TrAuthenticationFailed info r1)"

definition notify_signed_message_fault :: "bool \<Rightarrow> string \<Rightarrow> command_runner \<Rightarrow> command_runner" where
  "notify_signed_message_fault is_session_error reason r =
     notify_message_fault
       ((classify_message_fault (if is_session_error then 15 else 0))\<lparr>fd_reason := reason\<rparr>) False
       (case current_command r of Some c \<Rightarrow> phase_started_at_ms c | None \<Rightarrow> 0) r"

definition handle_response ::
    "ble_domain \<Rightarrow> bytes option \<Rightarrow> nat \<Rightarrow> u32 option \<Rightarrow> bool \<Rightarrow> string \<Rightarrow> bool \<Rightarrow> command_runner \<Rightarrow>
     dispatch_outcome \<times> command_runner" where
  "handle_response from uuid_bytes uuid_len counter success err auth_rejection r =
     (let (outcome, d) = dispatch from uuid_bytes uuid_len counter (dispatcher_of r);
          r1 = r\<lparr>dispatcher_of := d\<rparr> in
      if \<not> routed outcome then (outcome, r1)
      else if queue_count r = 0 \<or> dispatcher_request_id (current r1) \<noteq> outcome_request_id outcome
      then (outcome, r1)
      else let r2 = (if \<not> success \<and> auth_rejection
                     then upd_current (\<lambda>c. c\<lparr>payload_maybe_sent := False\<rparr>) r1 else r1)
           in (outcome,
             if is_nominal_already_set err \<or>
                (\<not> success \<and> auth_rejection \<and> counter \<noteq> None \<and> from = Infotainment \<and>
                 is_nominal_charge_outcome (cmd_outcome_policy (current r2)) err)
             then finish_command True ''command executed successfully'' TrAlreadySet
                    (already_set_info (admitted_command_noop err))
                    (upd_current (\<lambda>c. c\<lparr>is_already_set := True\<rparr>) r2)
             else if success then finish_command True [] TrSuccess temporary_failure r2
             else finish_command False (if err = [] then ''command rejected by vehicle'' else err)
                    TrAuthenticationFailed
                    \<lparr>fi_severity = (if auth_rejection then Permanent else Temporary),
                     fi_outcome = DefinitelyFailed, fi_no_op = NoOpNone\<rparr> r2))"

definition push_rx_chunk ::
    "(bytes \<Rightarrow> bool) \<Rightarrow> bytes option \<Rightarrow> u32 \<Rightarrow> command_runner \<Rightarrow>
     nat \<times> rx_event list \<times> command_runner" where
  "push_rx_chunk resets data now r =
     (let (n, evs, f) = push_chunk resets data now 0 (rx_framer_of r)
      in (n, evs, r\<lparr>rx_framer_of := f\<rparr>))"

subsection \<open>One round of the vehicle task\<close>

text \<open>
  \<open>drive_command_runner_\<close> from the point where the command identity is ready: completed heads
  without a callback are popped, the tick decides an action, and the action's frame is built and
  written. What the builder and the BLE write do is an argument: the build fails (or yields a
  malformed frame), there is no transport object, the write fails after it was started, or it
  succeeds. The builder may replace the request UUID before the write.
\<close>

datatype tx_result = BuildFailed | NoTransport | WriteFailed | Written

definition pop_finished :: "command_runner \<Rightarrow> command_runner" where
  "pop_finished r =
     (if queue_count r \<noteq> 0 \<and> is_completed (current r) \<and> \<not> has_on_complete (current r)
      then pop_current r else r)"

definition transmit :: "tx_action \<Rightarrow> tx_result \<Rightarrow> ble_uuid option \<Rightarrow> u32 \<Rightarrow> command_runner \<Rightarrow> command_runner" where
  "transmit action result req_uuid now r0 =
     (let r = (case req_uuid of
                 Some u \<Rightarrow> if action = SendCommandPayload
                           then upd_current (\<lambda>c. c\<lparr>cmd_uuid := u\<rparr>) r0 else r0
               | None \<Rightarrow> r0) in
      case result of
        BuildFailed \<Rightarrow> notify_tx_failed ''Payload build failed'' now True r
      | NoTransport \<Rightarrow> notify_tx_failed ''BLE write failed'' now False r
      | WriteFailed \<Rightarrow> notify_tx_failed ''BLE write failed'' now False (notify_tx_started action r)
      | Written \<Rightarrow> notify_tx_complete action now (notify_tx_started action r))"

definition drive ::
    "u32 \<Rightarrow> bool \<Rightarrow> sleep_state \<Rightarrow> tx_result \<Rightarrow> ble_uuid option \<Rightarrow> command_runner \<Rightarrow>
     tx_action \<times> command_runner" where
  "drive now connected sleep result req_uuid r0 =
     (let r = pop_finished r0 in
      if queue_count r = 0 then (TxNone, r)
      else let (action, r1) = tick now connected (sleep = Awake) (sleep = Asleep) r in
           if is_completed (current r1) \<and> \<not> has_on_complete (current r1)
           then (TxNone, pop_current r1)
           else if action = TxNone then (TxNone, r1)
           else (action, transmit action result req_uuid now r1))"

end
