(* ===== verification/RunnerSafety.thy ===== *)
theory RunnerSafety
  imports CommandRunner
begin

text \<open>
  The correctness of the command runner: its ring as a bounded queue, the invariant of all its
  operations and of the vehicle task's rounds, and the properties that rest on them (a mutating
  payload is not sent again while an earlier send may have executed, outcomes are final and honest,
  retries and delays are bounded, wake policies are respected, dispatcher slots do not leak).
\<close>

subsection \<open>The queue as a list\<close>

definition runner_wf :: "command_runner \<Rightarrow> bool" where
  "runner_wf r \<longleftrightarrow> length (queue r) = kMaxQueueSize \<and> queue_head r < kMaxQueueSize \<and>
     queue_count r \<le> kMaxQueueSize \<and> next_cmd_id r \<noteq> 0"

lemma length_commands [simp]: "length (commands r) = queue_count r"
  by (simp add: commands_def)

lemma commands_empty_iff: "commands r = [] \<longleftrightarrow> queue_count r = 0"
  using length_commands [of r] by (metis length_0_conv)

lemma hd_commands: "runner_wf r \<Longrightarrow> 0 < queue_count r \<Longrightarrow> hd (commands r) = current r"
  by (simp add: commands_def runner_wf_def ring_view_hd current_def)

lemma commands_cong:
  "queue r = queue s \<Longrightarrow> queue_head r = queue_head s \<Longrightarrow> queue_count r = queue_count s \<Longrightarrow>
   commands r = commands s"
  by (simp add: commands_def)

lemma commands_head_update:
  assumes "runner_wf r" "0 < queue_count r"
  shows "commands (r\<lparr>queue := (queue r)[queue_head r := c]\<rparr>) = c # tl (commands r)"
proof -
  have "ring_view (queue_head r) (queue_count r) ((queue r)[queue_head r := c]) =
      (ring_view (queue_head r) (queue_count r) (queue r))[0 := c]"
    using ring_view_update [of 0 "queue_count r" "queue r" "queue_head r" c] assms
    by (simp add: runner_wf_def)
  moreover have "ring_view (queue_head r) (queue_count r) (queue r) \<noteq> []"
    using assms(2) length_ring_view [of "queue_head r" "queue_count r" "queue r"]
    by (metis length_0_conv less_numeral_extra(3))
  ultimately show ?thesis
    by (cases "ring_view (queue_head r) (queue_count r) (queue r)") (simp_all add: commands_def)
qed

lemma runner_wf_head_update:
  "runner_wf (r\<lparr>queue := (queue r)[queue_head r := c]\<rparr>) = runner_wf r"
  by (simp add: runner_wf_def)

text \<open>The arguments of an enqueue call (name, domain, wake policy, timeout, time, UUID, has a
  callback, completes on transmit, maximal retries, reply kind), and what an accepted call appends.\<close>

type_synonym enqueue_request = "string \<times> ble_domain \<times> wake_policy \<times> u32 \<times> u32 \<times> ble_uuid \<times>
  bool \<times> bool \<times> u32 \<times> vcsec_reply_kind"

definition fresh_command ::
    "enqueue_request \<Rightarrow>
     u32 \<Rightarrow> command_request" where
  "fresh_command x cid =
     (case x of (name, domain, policy, timeout, now, uuid, on_complete, on_transmit, retries, kind) \<Rightarrow>
        default_command\<lparr>cmd_id := cid, cmd_name := name, cmd_domain := domain,
          cmd_wake_policy := policy, cmd_uuid := uuid, enqueued_at_ms := now,
          phase_started_at_ms := now, timeout_ms := timeout, has_on_complete := on_complete,
          completes_on_transmit := on_transmit, max_retries := retries, cmd_reply_kind := kind\<rparr>)"

definition enqueue_args ::
    "enqueue_request \<Rightarrow>
     command_runner \<Rightarrow> u32 \<times> command_runner" where
  "enqueue_args x r =
     (case x of (name, domain, policy, timeout, now, uuid, on_complete, on_transmit, retries, kind) \<Rightarrow>
        enqueue name domain policy timeout now uuid on_complete on_transmit retries kind r)"

lemma enqueue_full:
  "kMaxQueueSize \<le> queue_count r \<Longrightarrow> enqueue_args x r = (0, r)"
  by (simp add: enqueue_args_def enqueue_def split: prod.split)

lemma enqueue_accepts:
  assumes "queue_count r < kMaxQueueSize"
  shows "enqueue_args x r = (next_cmd_id r, r\<lparr>
    queue := (queue r)[(queue_head r + queue_count r) mod kMaxQueueSize := fresh_command x (next_cmd_id r)],
    next_cmd_id := (if next_cmd_id r + 1 = 0 then 1 else next_cmd_id r + 1),
    queue_count := queue_count r + 1\<rparr>)"
  using assms
  by (auto simp: enqueue_args_def enqueue_def fresh_command_def Let_def default_command_def
      split: prod.splits)

lemma enqueue_commands:
  assumes "runner_wf r" "queue_count r < kMaxQueueSize"
  shows "commands (snd (enqueue_args x r)) = commands r @ [fresh_command x (next_cmd_id r)]"
  using assms ring_view_append [of "queue_count r" "queue r" "queue_head r" "fresh_command x (next_cmd_id r)"]
  by (simp add: enqueue_accepts commands_def runner_wf_def)

lemma enqueue_wf: "runner_wf r \<Longrightarrow> runner_wf (snd (enqueue_args x r))"
  by (cases "queue_count r < kMaxQueueSize")
    (auto simp: enqueue_accepts enqueue_full runner_wf_def not_less)

text \<open>Releasing the dispatcher registration of a command.\<close>

definition released :: "command_request \<Rightarrow> ble_dispatcher \<Rightarrow> ble_dispatcher" where
  "released c d = (if dispatcher_request_id c \<noteq> 0
                   then snd (unregister_request (dispatcher_request_id c) d) else d)"

lemma unregister_current_eq:
  assumes "queue_head r < length (queue r)"
  shows "unregister_current r = r\<lparr>
    queue := (queue r)[queue_head r := (current r)\<lparr>dispatcher_request_id := 0\<rparr>],
    dispatcher_of := released (current r) (dispatcher_of r)\<rparr>"
proof -
  have "(queue r)[queue_head r := (current r)\<lparr>dispatcher_request_id := 0\<rparr>] = queue r"
    if "dispatcher_request_id (current r) = 0"
  proof -
    have "(current r)\<lparr>dispatcher_request_id := 0\<rparr> = current r"
      using that by (cases "current r") simp
    then show ?thesis by (simp add: current_def)
  qed
  then show ?thesis
    by (simp add: unregister_current_def upd_current_def released_def current_def)
qed

lemma pop_current_eq:
  assumes "runner_wf r" "0 < queue_count r"
  shows "pop_current r = r\<lparr>queue := (queue r)[queue_head r := default_command],
    dispatcher_of := released (current r) (dispatcher_of r),
    queue_head := (queue_head r + 1) mod kMaxQueueSize, queue_count := queue_count r - 1\<rparr>"
  using assms
  by (simp add: pop_current_def unregister_current_eq runner_wf_def upd_current_def)

lemma pop_commands: "runner_wf r \<Longrightarrow> commands (pop_current r) = tl (commands r)"
proof (cases "queue_count r = 0")
  case True
  then show ?thesis by (simp add: pop_current_def commands_def)
next
  case False
  assume "runner_wf r"
  with False ring_view_clear_head [of "queue_count r" "queue r" "queue_head r" default_command]
  show ?thesis by (simp add: pop_current_eq commands_def runner_wf_def)
qed

lemma pop_wf: "runner_wf r \<Longrightarrow> runner_wf (pop_current r)"
  by (cases "queue_count r = 0")
    (auto simp: pop_current_eq, auto simp: pop_current_def runner_wf_def kMaxQueueSize_def)

lemma fst_enqueue_args: "runner_wf r \<Longrightarrow> fst (enqueue_args x r) \<noteq> 0 \<longleftrightarrow> queue_count r < kMaxQueueSize"
  by (cases "queue_count r < kMaxQueueSize") (simp_all add: enqueue_accepts enqueue_full runner_wf_def)

interpretation runner_queue: bounded_fifo commands
  "\<lambda>x r. (fst (enqueue_args x r) \<noteq> 0, snd (enqueue_args x r))" pop_current runner_wf kMaxQueueSize
  "\<lambda>r x c. c = fresh_command x (next_cmd_id r)"
proof
  fix q :: command_runner
    and x :: enqueue_request
  assume wf: "runner_wf q"
  show "\<exists>a q'. (fst (enqueue_args x q) \<noteq> 0, snd (enqueue_args x q)) = (True, q') \<and>
      a = fresh_command x (next_cmd_id q) \<and> commands q' = commands q @ [a]"
    if "length (commands q) < kMaxQueueSize"
    using that wf enqueue_commands [OF wf, of x] fst_enqueue_args [OF wf, of x] by auto
  show "fst (fst (enqueue_args x q) \<noteq> 0, snd (enqueue_args x q)) = False \<and>
      commands (snd (fst (enqueue_args x q) \<noteq> 0, snd (enqueue_args x q))) = commands q"
    if "kMaxQueueSize \<le> length (commands q)"
    using that by (simp add: enqueue_full)
  show "commands (pop_current q) = tl (commands q)" by (rule pop_commands [OF wf])
  show "runner_wf (snd (fst (enqueue_args x q) \<noteq> 0, snd (enqueue_args x q)))"
    using enqueue_wf [OF wf] by simp
  show "runner_wf (pop_current q)" by (rule pop_wf [OF wf])
  show "length (commands q) \<le> kMaxQueueSize" using wf by (simp add: runner_wf_def)
qed

subsection \<open>Invariant\<close>

definition terminal_state :: "command_state \<Rightarrow> bool" where
  "terminal_state st \<longleftrightarrow> st \<in> {StCompleted, StFailed, StSkipped}"

text \<open>A command still waiting behind the head: untouched since its enqueue.\<close>

definition pristine :: "command_request \<Rightarrow> bool" where
  "pristine c \<longleftrightarrow> dispatcher_request_id c = 0 \<and> cmd_state c = StIdle \<and> cmd_phase c = PhQueued \<and>
     retry_count c = 0 \<and> next_retry_delay_ms c = 0 \<and> \<not> is_completed c \<and> \<not> wake_confirmed c \<and>
     \<not> payload_maybe_sent c"

definition honest :: "command_request \<Rightarrow> bool" where
  "honest c \<longleftrightarrow> (is_completed c \<and> \<not> is_success c \<and> payload_maybe_sent c \<longrightarrow>
     fi_outcome (cmd_failure c) = MayHaveSucceeded \<and>
     take (length uncertain_command_reason) (error_message c) = uncertain_command_reason)"

definition head_ok :: "command_request \<Rightarrow> bool" where
  "head_ok c \<longleftrightarrow> retry_count c \<le> max_retries c \<and> next_retry_delay_ms c \<le> kMaxRetryDelayMs \<and>
     (is_completed c \<longrightarrow> dispatcher_request_id c = 0 \<and> terminal_state (cmd_state c) \<and>
        cmd_phase c = PhTerminal \<and>
        (is_success c \<longleftrightarrow> cmd_state c = StCompleted)) \<and>
     (\<not> is_completed c \<longrightarrow> \<not> terminal_state (cmd_state c) \<and>
        (payload_maybe_sent c \<and> cmd_effect c = Mutating \<longrightarrow> cmd_state c = StAwaitingResponse) \<and>
        (dispatcher_request_id c \<noteq> 0 \<longrightarrow> cmd_state c = StAwaitingResponse) \<and>
        (cmd_state c = StAwaitingResponse \<longleftrightarrow> cmd_phase c = PhAwaitingResponse)) \<and>
     honest c"

text \<open>The dispatcher's active slots are exactly the registration of the head command.\<close>

definition linked :: "ble_dispatcher \<Rightarrow> u32 \<Rightarrow> bool" where
  "linked d rid \<longleftrightarrow> (\<forall>s \<in> set (slots d). slot_active s \<longrightarrow> slot_id s = rid) \<and>
     active_count d = (if rid = 0 then 0 else 1)"

definition head_id :: "command_request list \<Rightarrow> u32" where
  "head_id cs = (case cs of [] \<Rightarrow> 0 | c # _ \<Rightarrow> dispatcher_request_id c)"

definition commands_ok :: "ble_dispatcher \<Rightarrow> command_request list \<Rightarrow> bool" where
  "commands_ok d cs \<longleftrightarrow> dispatcher_inv d \<and> linked d (head_id cs) \<and>
     list_all (\<lambda>c. length (cmd_uuid c) = kBleUuidSize) cs \<and> list_all pristine (tl cs) \<and>
     (cs \<noteq> [] \<longrightarrow> head_ok (hd cs))"

definition runner_inv :: "command_runner \<Rightarrow> bool" where
  "runner_inv r \<longleftrightarrow> runner_wf r \<and> commands_ok (dispatcher_of r) (commands r)"

lemma pristine_head_ok: "pristine c \<Longrightarrow> head_ok c"
  by (auto simp: pristine_def head_ok_def honest_def terminal_state_def)

lemma linked_none: "dispatcher_inv d \<Longrightarrow> linked d 0 \<longleftrightarrow> active_count d = 0"
  by (auto simp: linked_def dispatcher_inv_def filter_empty_conv)

lemma new_dispatcher_linked: "linked new_dispatcher 0"
  using linked_none [OF new_dispatcher_inv] by (simp add: new_dispatcher_def)

lemma released_linked:
  assumes inv: "dispatcher_inv d" and link: "linked d (dispatcher_request_id c)"
  shows "dispatcher_inv (released c d) \<and> linked (released c d) 0"
proof (cases "dispatcher_request_id c = 0")
  case True
  with assms show ?thesis by (simp add: released_def)
next
  case False
  let ?rid = "dispatcher_request_id c"
  have one: "length (filter slot_active (slots d)) = 1"
    using False link inv by (simp add: linked_def dispatcher_inv_def)
  then obtain s where "s \<in> set (slots d)" "slot_active s"
    by (metis filter_False length_0_conv zero_neq_one)
  with link have "\<exists>s \<in> set (slots d). slot_active s \<and> slot_id s = ?rid" by (auto simp: linked_def)
  then obtain i where "first_index (\<lambda>s. slot_active s \<and> slot_id s = ?rid) (slots d) = Some i"
    using first_index_None [of "\<lambda>s. slot_active s \<and> slot_id s = ?rid" "slots d"]
    by (cases "first_index (\<lambda>s. slot_active s \<and> slot_id s = ?rid) (slots d)") auto
  then have "active_count (released c d) = 0"
    using False link by (simp add: released_def unregister_request_def linked_def)
  moreover have "dispatcher_inv (released c d)"
    using unregister_inv [OF inv] inv by (simp add: released_def)
  ultimately show ?thesis by (simp add: linked_none)
qed

text \<open>An operation that rewrites only the head command and the dispatcher.\<close>

lemma commands_ok_head:
  assumes "commands_ok d cs" "cs \<noteq> []" "head_ok c" "length (cmd_uuid c) = kBleUuidSize"
    "dispatcher_inv d'" "linked d' (dispatcher_request_id c)"
  shows "commands_ok d' (c # tl cs)"
  using assms by (cases cs) (auto simp: commands_ok_def head_id_def)

lemma runner_inv_head:
  assumes inv: "runner_inv r" and pos: "0 < queue_count r"
    and c: "head_ok c" "length (cmd_uuid c) = kBleUuidSize"
    and d: "dispatcher_inv d" "linked d (dispatcher_request_id c)"
    and s: "queue s = (queue r)[queue_head r := c]" "queue_head s = queue_head r"
      "queue_count s = queue_count r" "next_cmd_id s = next_cmd_id r" "dispatcher_of s = d"
  shows "runner_inv s"
proof -
  have "commands s = commands (r\<lparr>queue := (queue r)[queue_head r := c]\<rparr>)"
    by (rule commands_cong) (simp_all add: s)
  also have "\<dots> = c # tl (commands r)"
    using inv pos by (simp add: commands_head_update runner_inv_def)
  finally have "commands s = c # tl (commands r)" .
  moreover have "commands r \<noteq> []" using pos by (simp add: commands_empty_iff)
  moreover have "runner_wf s" using inv by (simp add: runner_inv_def runner_wf_def s)
  ultimately show ?thesis
    using inv commands_ok_head [of "dispatcher_of r" "commands r" c d] c d
    by (simp add: runner_inv_def s)
qed

text \<open>What the invariant says of the head.\<close>

lemma runner_inv_current:
  assumes "runner_inv r" "0 < queue_count r"
  shows "head_ok (current r)" "length (cmd_uuid (current r)) = kBleUuidSize"
    "dispatcher_inv (dispatcher_of r)"
    "linked (dispatcher_of r) (dispatcher_request_id (current r))"
    "queue_head r < length (queue r)"
proof -
  obtain cs where cs: "commands r = current r # cs"
    using assms hd_commands [of r] commands_empty_iff [of r]
    by (cases "commands r") (auto simp: runner_inv_def)
  with assms show "head_ok (current r)" "length (cmd_uuid (current r)) = kBleUuidSize"
    "dispatcher_inv (dispatcher_of r)" "linked (dispatcher_of r) (dispatcher_request_id (current r))"
    "queue_head r < length (queue r)"
    by (auto simp: runner_inv_def commands_ok_def head_id_def runner_wf_def)
qed

lemma runner_inv_cong:
  assumes "runner_inv r" "queue s = queue r" "queue_head s = queue_head r"
    "queue_count s = queue_count r" "next_cmd_id s = next_cmd_id r" "dispatcher_of s = dispatcher_of r"
  shows "runner_inv s"
  using assms commands_cong [of s r] by (simp add: runner_inv_def runner_wf_def)

lemma current_upd [simp]:
  "queue_head r < length (queue r) \<Longrightarrow> current (upd_current f r) = f (current r)"
  by (simp add: current_def upd_current_def)

lemma upd_current_simps [simp]:
  "queue_head (upd_current f r) = queue_head r" "queue_count (upd_current f r) = queue_count r"
  "next_cmd_id (upd_current f r) = next_cmd_id r" "dispatcher_of (upd_current f r) = dispatcher_of r"
  "vcsec_session (upd_current f r) = vcsec_session r" "info_session (upd_current f r) = info_session r"
  "completions (upd_current f r) = completions r" "rx_framer_of (upd_current f r) = rx_framer_of r"
  "length (queue (upd_current f r)) = length (queue r)"
  "queue (upd_current f r) = (queue r)[queue_head r := f (current r)]"
  by (simp_all add: upd_current_def)

lemma upd_current_inv:
  assumes "runner_inv r" "0 < queue_count r" "head_ok (f (current r))"
    "length (cmd_uuid (f (current r))) = kBleUuidSize"
    "dispatcher_request_id (f (current r)) = dispatcher_request_id (current r)"
  shows "runner_inv (upd_current f r)"
  using runner_inv_head [OF assms(1,2,3,4) runner_inv_current(3) [OF assms(1,2)], of "upd_current f r"]
    runner_inv_current(4) [OF assms(1,2)] assms(5) by simp

subsection \<open>The primitive steps preserve the invariant\<close>

definition finished ::
    "bool \<Rightarrow> string \<Rightarrow> terminal_reason \<Rightarrow> command_failure_info \<Rightarrow> command_request \<Rightarrow> command_request" where
  "finished success err reason info0 c =
     (let info = finish_info success info0 c in
      c\<lparr>is_completed := True, is_success := success, cmd_failure := info,
        cmd_terminal_reason := reason, cmd_state := (if success then StCompleted else StFailed),
        cmd_phase := PhTerminal, dispatcher_request_id := 0,
        error_message := finish_text success err info\<rparr>)"

lemma finish_command_done: "is_completed (current r) \<Longrightarrow> finish_command ok err reason info r = r"
  by (simp add: finish_command_def Let_def)

lemma finish_command_eq:
  assumes "queue_head r < length (queue r)" "\<not> is_completed (current r)"
  shows "finish_command ok err reason info r = r\<lparr>
    queue := (queue r)[queue_head r := finished ok err reason info (current r)],
    dispatcher_of := released (current r) (dispatcher_of r),
    completions := completions r @
      (if has_on_complete (current r)
       then [(cmd_id (current r), ok, finish_text ok err (finish_info ok info (current r)),
              finish_info ok info (current r))] else [])\<rparr>"
  using assms
  by (simp add: finish_command_def Let_def unregister_current_eq finished_def released_def
      current_def upd_current_def)

lemma finished_head_ok:
  assumes "head_ok c" "\<not> is_completed c"
  shows "head_ok (finished ok err reason info c)"
  using assms
  by (auto simp: finished_def Let_def head_ok_def terminal_state_def honest_def finish_info_def
      finish_text_def execution_uncertain_def)

lemma finish_command_inv:
  assumes "runner_inv r" "0 < queue_count r"
  shows "runner_inv (finish_command ok err reason info r)"
proof (cases "is_completed (current r)")
  case True
  with assms show ?thesis by (simp add: finish_command_done)
next
  case False
  note h = runner_inv_current [OF assms]
  have "cmd_uuid (finished ok err reason info (current r)) = cmd_uuid (current r)"
    "dispatcher_request_id (finished ok err reason info (current r)) = 0"
    by (simp_all add: finished_def Let_def)
  moreover note released_linked [OF h(3,4)]
  ultimately show ?thesis
    using finished_head_ok [OF h(1) False] h
    by (intro runner_inv_head [OF assms]) (auto simp: finish_command_eq [OF h(5) False])
qed

lemma finish_command_frame [simp]:
  "queue_head (finish_command ok err reason info r) = queue_head r"
  "queue_count (finish_command ok err reason info r) = queue_count r"
  "vcsec_session (finish_command ok err reason info r) = vcsec_session r"
  "info_session (finish_command ok err reason info r) = info_session r"
  "rx_framer_of (finish_command ok err reason info r) = rx_framer_of r"
  "length (queue (finish_command ok err reason info r)) = length (queue r)"
  by (simp_all add: finish_command_def Let_def unregister_current_def upd_current_def)

lemma finish_command_current:
  assumes "queue_head r < length (queue r)"
  shows "current (finish_command ok err reason info r) =
    (if is_completed (current r) then current r else finished ok err reason info (current r))"
  using assms
  by (cases "is_completed (current r)")
    (simp_all add: finish_command_done, simp add: finish_command_eq current_def)

text \<open>Rewriting the head and releasing its registration.\<close>

lemma unregister_upd_inv:
  assumes "runner_inv r" "0 < queue_count r"
    and "dispatcher_request_id (f (current r)) = dispatcher_request_id (current r)"
    and "head_ok ((f (current r))\<lparr>dispatcher_request_id := 0\<rparr>)"
    and "cmd_uuid (f (current r)) = cmd_uuid (current r)"
  shows "runner_inv (unregister_current (upd_current f r))"
proof -
  note h = runner_inv_current [OF assms(1,2)]
  have "released (f (current r)) (dispatcher_of r) = released (current r) (dispatcher_of r)"
    using assms(3) by (simp add: released_def)
  with assms(4,5) h released_linked [OF h(3,4)] show ?thesis
    by (intro runner_inv_head [OF assms(1,2), of "(f (current r))\<lparr>dispatcher_request_id := 0\<rparr>"
          "released (current r) (dispatcher_of r)"])
      (simp_all add: unregister_current_eq)
qed

lemma retry_delay_le: "retry_delay n \<le> kMaxRetryDelayMs"
  by (simp add: retry_delay_def)

lemma retry_once_more: "retry_count c < max_retries c \<Longrightarrow> retry_count c + 1 \<le> max_retries c"
  by (rule inc_le)

lemma schedule_retry_inv:
  assumes "runner_inv r" "0 < queue_count r" "\<not> is_completed (current r)"
    "retry_count (current r) < max_retries (current r)"
    "\<not> (payload_maybe_sent (current r) \<and> cmd_effect (current r) = Mutating)"
  shows "runner_inv (schedule_retry now r)"
  unfolding schedule_retry_def
  using runner_inv_current(1) [OF assms(1,2)] assms(3-5)
  by (intro unregister_upd_inv [OF assms(1,2)])
    (auto simp: head_ok_def terminal_state_def honest_def retry_delay_le retry_once_more)

lemma register_current_eq:
  assumes "queue_head r < length (queue r)" "dispatcher_request_id (current r) = 0"
  shows "register_current r = (case register_request (cmd_domain (current r)) (cmd_uuid (current r))
      (Some (queue_head r)) (dispatcher_of r) of
    (rid, d) \<Rightarrow> r\<lparr>queue := (queue r)[queue_head r := (current r)\<lparr>dispatcher_request_id := rid\<rparr>],
                   dispatcher_of := d\<rparr>)"
  using assms by (simp add: register_current_def Let_def upd_current_def current_def split: prod.split)

lemma register_linked:
  assumes inv: "dispatcher_inv d" and link: "linked d 0" and len: "length uuid = kBleUuidSize"
    and reg: "register_request dmn uuid ud d = (rid, d')"
  shows "dispatcher_inv d' \<and> linked d' rid"
proof -
  have inv': "dispatcher_inv d'" using register_inv [OF inv len, of dmn ud] reg by simp
  from reg show ?thesis
  proof (cases rule: register_cases)
    case refused
    with link inv' show ?thesis by simp
  next
    case (taken i s)
    have none: "\<forall>t \<in> set (slots d). \<not> slot_active t"
      using link linked_none [OF inv] inv by (auto simp: dispatcher_inv_def filter_empty_conv)
    have "slot_id t = rid" if "t \<in> set (slots d')" "slot_active t" for t
      using that none set_update_subset_insert [of "slots d" i s] taken by auto
    moreover have "rid \<noteq> 0" using inv by (simp add: taken dispatcher_inv_def)
    moreover have "active_count d' = 1" using link taken by (simp add: linked_def)
    ultimately show ?thesis using inv' by (simp add: linked_def)
  qed
qed

lemma register_current_inv:
  assumes "runner_inv r" "0 < queue_count r" "\<not> is_completed (current r)"
    "cmd_state (current r) = StAwaitingResponse"
  shows "runner_inv (register_current r)"
proof (cases "dispatcher_request_id (current r) = 0")
  case False
  with assms(1) show ?thesis by (simp add: register_current_def)
next
  case True
  note h = runner_inv_current [OF assms(1,2)]
  obtain rid d where reg: "register_request (cmd_domain (current r)) (cmd_uuid (current r))
      (Some (queue_head r)) (dispatcher_of r) = (rid, d)" by fastforce
  have "linked (dispatcher_of r) 0" using h(4) True by simp
  note link = register_linked [OF h(3) this h(2) reg]
  have "head_ok ((current r)\<lparr>dispatcher_request_id := rid\<rparr>)"
    using h(1) assms(3,4) by (auto simp: head_ok_def honest_def)
  with link h show ?thesis
    by (intro runner_inv_head [OF assms(1,2), of "(current r)\<lparr>dispatcher_request_id := rid\<rparr>" d])
      (simp_all add: register_current_eq True reg)
qed

subsection \<open>The tick\<close>

definition live :: "command_runner \<Rightarrow> bool" where
  "live r \<longleftrightarrow> runner_inv r \<and> 0 < queue_count r \<and> \<not> is_completed (current r)"

definition stage_ok :: "(command_runner \<Rightarrow> tx_action option \<times> command_runner) \<Rightarrow> bool" where
  "stage_ok f \<longleftrightarrow> (\<forall>r x s. live r \<and> f r = (x, s) \<longrightarrow>
     runner_inv s \<and> queue_count s = queue_count r \<and> (x = None \<longrightarrow> live s))"

lemma stage_okI:
  "(\<And>r. live r \<Longrightarrow> runner_inv (snd (f r)) \<and> queue_count (snd (f r)) = queue_count r \<and>
     (fst (f r) = None \<longrightarrow> \<not> is_completed (current (snd (f r))))) \<Longrightarrow> stage_ok f"
  unfolding stage_ok_def by (metis fst_conv live_def snd_conv)

lemma stage_okD:
  "stage_ok f \<Longrightarrow> live r \<Longrightarrow> f r = (x, s) \<Longrightarrow>
   runner_inv s \<and> queue_count s = queue_count r \<and> (x = None \<longrightarrow> live s)"
  unfolding stage_ok_def by blast

lemma stage_ok_fall_through:
  assumes "stage_ok f" "stage_ok g"
  shows "stage_ok (fall_through f g)"
  unfolding stage_ok_def
proof (intro allI impI, elim conjE)
  fix r x s
  assume r: "live r" and eq: "fall_through f g r = (x, s)"
  from eq show "runner_inv s \<and> queue_count s = queue_count r \<and> (x = None \<longrightarrow> live s)"
  proof (cases rule: fall_through_cases)
    case (returned y)
    with stage_okD [OF assms(1) r] show ?thesis by blast
  next
    case (continued t)
    with stage_okD [OF assms(1) r continued(1)] stage_okD [OF assms(2) _ continued(2)]
    show ?thesis by simp
  qed
qed

lemma liveD:
  assumes "live r"
  shows "runner_inv r" "0 < queue_count r" "\<not> is_completed (current r)" "head_ok (current r)"
    "length (cmd_uuid (current r)) = kBleUuidSize" "queue_head r < length (queue r)"
  using assms runner_inv_current [of r] by (auto simp: live_def)

lemma live_upd:
  assumes "live r" "head_ok (f (current r))" "cmd_uuid (f (current r)) = cmd_uuid (current r)"
    "dispatcher_request_id (f (current r)) = dispatcher_request_id (current r)"
  shows "runner_inv (upd_current f r)"
  using liveD [OF assms(1)] assms by (intro upd_current_inv) simp_all

lemma finish_none_stage: "live r \<Longrightarrow> runner_inv (snd (finish_none err reason r))"
  by (simp add: finish_none_def finish_command_inv liveD)

lemma tick_deadline_ok: "stage_ok (tick_deadline now connected)"
  by (rule stage_okI)
    (auto simp: tick_deadline_def Let_def finish_none_def finish_command_inv liveD)

lemma tick_backoff_ok: "stage_ok (tick_backoff now)"
proof (rule stage_okI)
  fix r
  assume r: "live r"
  have "runner_inv (upd_current (\<lambda>c. c\<lparr>next_retry_delay_ms := 0\<rparr>) r)"
    using liveD [OF r] by (intro live_upd [OF r]) (auto simp: head_ok_def honest_def kMaxRetryDelayMs_def)
  then show "runner_inv (snd (tick_backoff now r)) \<and>
      queue_count (snd (tick_backoff now r)) = queue_count r \<and>
      (fst (tick_backoff now r) = None \<longrightarrow> \<not> is_completed (current (snd (tick_backoff now r))))"
    using liveD [OF r] by (auto simp: tick_backoff_def Let_def)
qed

lemma unregister_current_frame [simp]:
  "queue_head (unregister_current r) = queue_head r" "queue_count (unregister_current r) = queue_count r"
  "vcsec_session (unregister_current r) = vcsec_session r"
  "info_session (unregister_current r) = info_session r"
  "completions (unregister_current r) = completions r"
  by (simp_all add: unregister_current_def upd_current_def)

lemma tick_response_ok: "stage_ok (tick_response now)"
proof (rule stage_okI)
  fix r
  assume r: "live r"
  note h = liveD [OF r]
  have "runner_inv (unregister_current (upd_current (\<lambda>c. c\<lparr>retry_count := retry_count c + 1,
      next_retry_delay_ms := retry_delay (retry_count c + 1), cmd_state := StReady,
      cmd_phase := PhSendingRequest, phase_started_at_ms := now\<rparr>) r))"
    if "retry_count (current r) < max_retries (current r)"
      "\<not> (cmd_effect (current r) = Mutating \<and> payload_maybe_sent (current r))"
    using h(3,4) that
    by (intro unregister_upd_inv [OF h(1,2)])
      (auto simp: head_ok_def terminal_state_def honest_def retry_delay_le retry_once_more)
  then show "runner_inv (snd (tick_response now r)) \<and>
      queue_count (snd (tick_response now r)) = queue_count r \<and>
      (fst (tick_response now r) = None \<longrightarrow> \<not> is_completed (current (snd (tick_response now r))))"
    using h by (simp add: tick_response_def Let_def finish_none_def finish_command_inv)
qed

lemma tick_awake_ok: "stage_ok (tick_awake now awake)"
proof (rule stage_okI)
  fix r
  assume r: "live r"
  note h = liveD [OF r]
  have "runner_inv (upd_current (\<lambda>c. c\<lparr>wake_confirmed := True, cmd_state := StIdle,
      phase_started_at_ms := now\<rparr>) r)"
    if "cmd_state (current r) = StWaitingWake \<or> cmd_phase (current r) = PhEnsuringAwake"
    using h(3,4) that
    by (intro live_upd [OF r]) (auto simp: head_ok_def terminal_state_def honest_def)
  then show "runner_inv (snd (tick_awake now awake r)) \<and>
      queue_count (snd (tick_awake now awake r)) = queue_count r \<and>
      (fst (tick_awake now awake r) = None \<longrightarrow> \<not> is_completed (current (snd (tick_awake now awake r))))"
    using h by (auto simp: tick_awake_def Let_def)
qed

lemma tick_step_ok: "stage_ok (tick_step now)"
proof (rule stage_okI)
  fix r
  assume r: "live r"
  note h = liveD [OF r]
  have "runner_inv (upd_current (\<lambda>c. c\<lparr>retry_count := retry_count c + 1,
      next_retry_delay_ms := kInitialRetryDelayMs, wake_confirmed := False, cmd_state := StIdle,
      cmd_phase := PhQueued, phase_started_at_ms := now\<rparr>) r)"
    if "retry_count (current r) < max_retries (current r)"
      "cmd_state (current r) \<noteq> StAwaitingResponse"
    using h(3,4) that
    by (intro live_upd [OF r]) (auto simp: head_ok_def terminal_state_def honest_def retry_once_more
        kInitialRetryDelayMs_def kMaxRetryDelayMs_def)
  then show "runner_inv (snd (tick_step now r)) \<and>
      queue_count (snd (tick_step now r)) = queue_count r \<and>
      (fst (tick_step now r) = None \<longrightarrow> \<not> is_completed (current (snd (tick_step now r))))"
    using h by (simp add: tick_step_def Let_def finish_none_def finish_command_inv)
qed

text \<open>The state updates of the last stage keep the invariant when no answer is awaited.\<close>

lemma progress_update:
  assumes "live r" "cmd_state (current r) \<noteq> StAwaitingResponse" "\<not> terminal_state st"
    "st \<noteq> StAwaitingResponse" "ph \<noteq> PhAwaitingResponse"
  shows "runner_inv (upd_current (\<lambda>c. c\<lparr>cmd_state := st, cmd_phase := ph, phase_started_at_ms := now\<rparr>) r)"
    "runner_inv (upd_current (\<lambda>c. c\<lparr>next_retry_delay_ms := 0, cmd_state := st, cmd_phase := ph,
       phase_started_at_ms := now\<rparr>) r)"
  using liveD [OF assms(1)] assms(2-5)
  by (intro live_upd [OF assms(1)]; auto simp: head_ok_def honest_def kMaxRetryDelayMs_def)+

lemma finish_failed_state_inv:
  assumes "live r" "st = StSkipped \<or> st = StFailed"
  shows "runner_inv (upd_current (\<lambda>c. c\<lparr>cmd_state := st\<rparr>) (finish_command False err reason info r))"
proof -
  note h = liveD [OF assms(1)]
  have "head_ok ((finished False err reason info (current r))\<lparr>cmd_state := st\<rparr>)"
    using finished_head_ok [OF h(4,3), of False err reason info] assms(2)
    by (auto simp: head_ok_def terminal_state_def finished_def Let_def honest_def)
  then show ?thesis
    using finish_command_inv [OF h(1,2), of False err reason info] h
    by (intro upd_current_inv) (simp_all add: finish_command_current finished_def Let_def)
qed

lemma tick_progress_inv:
  assumes "live r" "cmd_state (current r) \<noteq> StAwaitingResponse"
    "tick_progress now awake asleep r = (x, s)"
  shows "runner_inv s \<and> queue_count s = queue_count r \<and> x \<noteq> None"
proof -
  note h = liveD [OF assms(1)]
  have await: "runner_inv (snd (await_step st ph a now r)) \<and>
      queue_count (snd (await_step st ph a now r)) = queue_count r \<and>
      fst (await_step st ph a now r) \<noteq> None"
    if "\<not> terminal_state st" "st \<noteq> StAwaitingResponse" "ph \<noteq> PhAwaitingResponse" for st ph a
    using progress_update(1) [OF assms(1,2) that] by (simp add: await_step_def)
  have emit: "runner_inv (snd (emit_payload now r)) \<and>
      queue_count (snd (emit_payload now r)) = queue_count r \<and> fst (emit_payload now r) \<noteq> None"
    using progress_update(2) [OF assms(1,2), of StReady PhSendingRequest now] h(1)
    by (simp add: emit_payload_def Let_def terminal_state_def)
  have fin: "runner_inv (upd_current (\<lambda>c. c\<lparr>cmd_state := st\<rparr>)
        (finish_command False err reason info r))"
    if "st = StSkipped \<or> st = StFailed" for st err reason info
    by (rule finish_failed_state_inv [OF assms(1) that])
  have "runner_inv (snd (tick_progress now awake asleep r)) \<and>
      queue_count (snd (tick_progress now awake asleep r)) = queue_count r \<and>
      fst (tick_progress now awake asleep r) \<noteq> None"
    using await emit fin h(1)
    by (simp add: tick_progress_def Let_def terminal_state_def split: wake_policy.split)
  with assms(3) show ?thesis by simp
qed

text \<open>What the stages before the last one leave of a command.\<close>

definition same_request :: "command_request \<Rightarrow> command_request \<Rightarrow> bool" where
  "same_request c d \<longleftrightarrow> cmd_id c = cmd_id d \<and> cmd_name c = cmd_name d \<and> cmd_domain c = cmd_domain d \<and>
     cmd_wake_policy c = cmd_wake_policy d \<and> cmd_effect c = cmd_effect d \<and>
     payload_maybe_sent c = payload_maybe_sent d \<and> completes_on_transmit c = completes_on_transmit d \<and>
     has_on_complete c = has_on_complete d \<and> retry_count c = retry_count d \<and>
     max_retries c = max_retries d"

lemma tick_reaches_progress:
  assumes r: "live r" and eq: "tick_stages now connected awake asleep r = (x, s)"
  obtains (early) "x = Some TxNone" "runner_inv s" "queue_count s = queue_count r"
  | (progress) p where "live p" "tick_progress now awake asleep p = (x, s)" "connected"
      "queue_count p = queue_count r" "vcsec_session p = vcsec_session r"
      "info_session p = info_session r" "same_request (current p) (current r)"
      "\<not> (0 < timeout_ms (current r) \<and> timeout_ms (current r) \<le> now - enqueued_at_ms (current r))"
      "next_retry_delay_ms (current r) \<noteq> 0 \<longrightarrow>
         next_retry_delay_ms (current r) \<le> now - phase_started_at_ms (current r)"
      "cmd_state (current r) \<noteq> StAwaitingResponse" "cmd_state (current p) \<noteq> StAwaitingResponse"
      "wake_confirmed (current p) \<longleftrightarrow> wake_confirmed (current r) \<or>
        (awake \<and> (cmd_state (current r) = StWaitingWake \<or> cmd_phase (current r) = PhEnsuringAwake))"
proof -
  note h = liveD [OF r]
  have none: "fst (f r) = Some TxNone" if "fst (f r) = Some y" "fst (f r) \<in> {None, Some TxNone}"
    for f :: "command_runner \<Rightarrow> tx_action option \<times> command_runner" and y r using that by auto
  have d: "fst (tick_deadline now connected q) \<in> {None, Some TxNone}" for q
    by (simp add: tick_deadline_def Let_def finish_none_def)
  have b: "fst (tick_backoff now q) \<in> {None, Some TxNone}" for q
    by (simp add: tick_backoff_def Let_def)
  have rs: "fst (tick_response now q) \<in> {None, Some TxNone}" for q
    by (simp add: tick_response_def Let_def finish_none_def)
  have aw: "fst (tick_awake now awake q) = None" for q
    by (simp add: tick_awake_def Let_def)
  have st: "fst (tick_step now q) \<in> {None, Some TxNone}" for q
    by (simp add: tick_step_def Let_def finish_none_def)
  show thesis
    using eq unfolding tick_stages_def
  proof (cases rule: fall_through_cases)
    case (returned y)
    with stage_okD [OF tick_deadline_ok r] d [of r] show ?thesis by (intro early) auto
  next
    case (continued r1)
    then have r1: "r1 = r" "connected"
      "\<not> (0 < timeout_ms (current r) \<and> timeout_ms (current r) \<le> now - enqueued_at_ms (current r))"
      by (auto simp: tick_deadline_def Let_def finish_none_def split: if_splits)
    from continued(2) show ?thesis
    proof (cases rule: fall_through_cases)
      case (returned y)
      with stage_okD [OF tick_backoff_ok r] b [of r] r1 show ?thesis by (intro early) auto
    next
      case (continued r2)
      have l2: "live r2" "queue_count r2 = queue_count r"
        using stage_okD [OF tick_backoff_ok r] continued(1) r1(1) by blast+
      have r2: "same_request (current r2) (current r)" "vcsec_session r2 = vcsec_session r"
        "info_session r2 = info_session r" "cmd_state (current r2) = cmd_state (current r)"
        "wake_confirmed (current r2) = wake_confirmed (current r)"
        "cmd_phase (current r2) = cmd_phase (current r)"
        "next_retry_delay_ms (current r) \<noteq> 0 \<and> cmd_state (current r) \<noteq> StAwaitingResponse \<longrightarrow>
         next_retry_delay_ms (current r) \<le> now - phase_started_at_ms (current r)"
        using continued(1) h(6) r1(1)
        by (auto simp: tick_backoff_def Let_def same_request_def split: if_splits)
      from continued(2) show ?thesis
      proof (cases rule: fall_through_cases)
        case (returned y)
        with stage_okD [OF tick_response_ok l2(1)] rs [of r2] l2(2) show ?thesis by (intro early) auto
      next
        case (continued r3)
        then have r3: "r3 = r2" "cmd_state (current r2) \<noteq> StAwaitingResponse"
          by (auto simp: tick_response_def Let_def finish_none_def split: if_splits)
        from continued(2) show ?thesis
        proof (cases rule: fall_through_cases)
          case (returned y)
          with aw [of r3] show ?thesis by simp
        next
          case (continued r4)
          have l4: "live r4" "queue_count r4 = queue_count r"
            using stage_okD [OF tick_awake_ok l2(1)] continued(1) r3(1) l2(2) by auto
          have r4: "same_request (current r4) (current r2)" "vcsec_session r4 = vcsec_session r2"
            "info_session r4 = info_session r2" "cmd_state (current r4) \<noteq> StAwaitingResponse"
            "wake_confirmed (current r4) \<longleftrightarrow> wake_confirmed (current r2) \<or>
              (awake \<and> (cmd_state (current r2) = StWaitingWake \<or> cmd_phase (current r2) = PhEnsuringAwake))"
            using continued(1) liveD(6) [OF l2(1)] r3
            by (auto simp: tick_awake_def Let_def same_request_def split: if_splits)
          from continued(2) show ?thesis
          proof (cases rule: fall_through_cases)
            case (returned y)
            with stage_okD [OF tick_step_ok l4(1)] st [of r4] l4(2) show ?thesis by (intro early) auto
          next
            case (continued r5)
            then have "r5 = r4"
              by (auto simp: tick_step_def Let_def finish_none_def split: if_splits)
            with continued(2) l4 r4 r3 r2 r1 show ?thesis
              by (intro progress [of r4]) (auto simp: same_request_def)
          qed
        qed
      qed
    qed
  qed
qed

lemma tick_inv: "runner_inv r \<Longrightarrow> runner_inv (snd (tick now connected awake asleep r))"
proof (cases "queue_count r = 0 \<or> is_completed (current r)")
  case True
  assume "runner_inv r"
  with True show ?thesis by (auto simp: tick_def)
next
  case False
  assume "runner_inv r"
  with False have r: "live r" by (simp add: live_def)
  obtain x s where xs: "tick_stages now connected awake asleep r = (x, s)" by fastforce
  from r xs have "runner_inv s"
  proof (cases rule: tick_reaches_progress)
    case (progress p)
    with tick_progress_inv [of p] show ?thesis by blast
  qed
  with False xs show ?thesis by (simp add: tick_def split: option.split)
qed

subsection \<open>A transmitted action\<close>

lemma tick_progress_action:
  assumes "live p" "tick_progress now awake asleep p = (Some a, s)" "a \<noteq> TxNone"
    "cmd_state (current p) \<noteq> StAwaitingResponse"
  shows "\<not> is_completed (current s) \<and> cmd_state (current s) \<noteq> StAwaitingResponse \<and>
    same_request (current s) (current p) \<and> (a = SendCommandPayload \<longrightarrow> cmd_state (current s) = StReady)"
  using assms(2,3) liveD [OF assms(1)]
  by (auto simp: tick_progress_def Let_def emit_payload_def await_step_def same_request_def
      split: if_splits wake_policy.splits)

lemma tick_action:
  assumes "live r" "tick now connected awake asleep r = (a, s)" "a \<noteq> TxNone"
  shows "live s" "queue_count s = queue_count r" "cmd_state (current s) \<noteq> StAwaitingResponse"
    "same_request (current s) (current r)" "a = SendCommandPayload \<longrightarrow> cmd_state (current s) = StReady"
proof -
  obtain x t where xt: "tick_stages now connected awake asleep r = (x, t)" by fastforce
  have "live s \<and> queue_count s = queue_count r \<and> cmd_state (current s) \<noteq> StAwaitingResponse \<and>
    same_request (current s) (current r) \<and> (a = SendCommandPayload \<longrightarrow> cmd_state (current s) = StReady)"
    using assms(1) xt
  proof (cases rule: tick_reaches_progress)
    case early
    with assms xt show ?thesis by (simp add: tick_def live_def)
  next
    case (progress p)
    have x: "x = Some a" "t = s"
      using tick_progress_inv [OF progress(1,11,2)] assms xt
      by (auto simp: tick_def live_def split: option.splits)
    from tick_progress_action [OF progress(1) _ assms(3) progress(11), of now awake asleep s]
      tick_progress_inv [OF progress(1,11,2)] progress x liveD(2) [OF assms(1)]
    show ?thesis by (auto simp: live_def same_request_def)
  qed
  then show "live s" "queue_count s = queue_count r" "cmd_state (current s) \<noteq> StAwaitingResponse"
    "same_request (current s) (current r)" "a = SendCommandPayload \<longrightarrow> cmd_state (current s) = StReady"
    by auto
qed

lemma finished_head_ok':
  assumes "retry_count c \<le> max_retries c" "next_retry_delay_ms c \<le> kMaxRetryDelayMs"
  shows "head_ok (finished ok err reason info c)"
  using assms
  by (auto simp: finished_def Let_def head_ok_def terminal_state_def honest_def finish_info_def
      finish_text_def execution_uncertain_def)

lemma upd_upd: "queue_head r < length (queue r) \<Longrightarrow> upd_current f (upd_current g r) = upd_current (\<lambda>c. f (g c)) r"
  by (simp add: upd_current_def current_def)

lemma finish_after_upd:
  assumes r: "live r" and f: "dispatcher_request_id (f (current r)) = dispatcher_request_id (current r)"
    "cmd_uuid (f (current r)) = cmd_uuid (current r)" "retry_count (f (current r)) = retry_count (current r)"
    "max_retries (f (current r)) = max_retries (current r)" "\<not> is_completed (f (current r))"
    "next_retry_delay_ms (f (current r)) = next_retry_delay_ms (current r)"
  shows "runner_inv (finish_command ok err reason info (upd_current f r))"
proof -
  note h = liveD [OF r] and i = runner_inv_current [OF liveD(1,2) [OF r]]
  let ?c = "finished ok err reason info (f (current r))"
  have "head_ok ?c"
    using h(4) f by (intro finished_head_ok') (simp_all add: head_ok_def)
  moreover have "released (f (current r)) (dispatcher_of r) = released (current r) (dispatcher_of r)"
    using f(1) by (simp add: released_def)
  moreover have "dispatcher_request_id ?c = 0" "cmd_uuid ?c = cmd_uuid (current r)"
    using f(2) by (simp_all add: finished_def Let_def)
  moreover note released_linked [OF i(3,4)]
  ultimately show ?thesis
    using h f(5) by (intro runner_inv_head [OF h(1,2), of ?c "released (current r) (dispatcher_of r)"])
      (simp_all add: finish_command_eq)
qed

text \<open>What starting a transmission does to the head command.\<close>

definition started :: "tx_action \<Rightarrow> command_request \<Rightarrow> command_request" where
  "started a c = (if a = SendCommandPayload then c\<lparr>payload_maybe_sent := True\<rparr> else c)"

lemma started_simps [simp]:
  "is_completed (started a c) = is_completed c" "retry_count (started a c) = retry_count c"
  "max_retries (started a c) = max_retries c" "cmd_effect (started a c) = cmd_effect c"
  "cmd_state (started a c) = cmd_state c" "cmd_phase (started a c) = cmd_phase c"
  "dispatcher_request_id (started a c) = dispatcher_request_id c"
  "cmd_uuid (started a c) = cmd_uuid c" "next_retry_delay_ms (started a c) = next_retry_delay_ms c"
  "completes_on_transmit (started a c) = completes_on_transmit c"
  "payload_maybe_sent (started a c) = (a = SendCommandPayload \<or> payload_maybe_sent c)"
  "started a (started a c) = started a c"
  by (simp_all add: started_def)

lemma notify_tx_started_live: "live r \<Longrightarrow> notify_tx_started a r = upd_current (started a) r"
  by (auto simp: notify_tx_started_def live_def upd_current_def current_def started_def)

lemma notify_tx_failed_inv:
  assumes r: "live r" and st: "cmd_state (current r) \<noteq> StAwaitingResponse"
  shows "runner_inv (notify_tx_failed reason now build (upd_current (started a) r))"
proof -
  note h = liveD [OF r]
  let ?r = "upd_current (started a) r"
  have fin: "runner_inv (finish_command False reason TrBleDisconnected i ?r)" for i
    using h by (intro finish_after_upd [OF r]) simp_all
  have retry: "runner_inv (schedule_retry now ?r)"
    if "retry_count (current r) < max_retries (current r)"
      "\<not> (payload_maybe_sent (started a (current r)) \<and> cmd_effect (current r) = Mutating)"
  proof -
    have "runner_inv ?r" using h st that(2)
      by (intro live_upd [OF r]) (auto simp: head_ok_def honest_def)
    then show ?thesis
      using h that by (intro schedule_retry_inv) auto
  qed
  show ?thesis
    using fin retry h by (simp add: notify_tx_failed_def Let_def not_le del: started_simps(11))
qed

lemma notify_tx_complete_inv:
  assumes r: "live r" and st: "cmd_state (current r) \<noteq> StAwaitingResponse"
    and ready: "a = SendCommandPayload \<longrightarrow> cmd_state (current r) = StReady"
  shows "runner_inv (notify_tx_complete a now (upd_current (started a) r))"
proof -
  note h = liveD [OF r]
  let ?g = "\<lambda>c. (started a c)\<lparr>last_tx_ms := now\<rparr>"
  let ?h = "\<lambda>c. (?g c)\<lparr>cmd_state := StAwaitingResponse, cmd_phase := PhAwaitingResponse,
    phase_started_at_ms := now\<rparr>"
  have "notify_tx_started a (upd_current (started a) r) = upd_current (started a) r"
    using h by (auto simp: notify_tx_started_def upd_upd started_def)
  then have g: "upd_current (\<lambda>c. c\<lparr>last_tx_ms := now\<rparr>)
      (notify_tx_started a (upd_current (started a) r)) = upd_current ?g r"
    using h by (simp add: upd_upd)
  have fin: "runner_inv (finish_command True ''payload transmitted'' TrSuccess temporary_failure
      (upd_current ?g r))"
    using h by (intro finish_after_upd [OF r]) simp_all
  have plain: "runner_inv (upd_current ?g r)" if "a \<noteq> SendCommandPayload"
    using h that by (intro live_upd [OF r]) (auto simp: head_ok_def honest_def started_def)
  have await: "runner_inv (register_current (upd_current ?h r))"
  proof (rule register_current_inv)
    show "runner_inv (upd_current ?h r)"
      using h st by (intro live_upd [OF r]) (auto simp: head_ok_def honest_def terminal_state_def)
  qed (use h in auto)
  show ?thesis
    using fin plain await ready h unfolding notify_tx_complete_def g
    by (cases "a = SendCommandPayload") (simp_all add: Let_def upd_upd)
qed

lemma transmit_inv:
  assumes r: "live r" and st: "cmd_state (current r) \<noteq> StAwaitingResponse"
    and ready: "a = SendCommandPayload \<longrightarrow> cmd_state (current r) = StReady"
    and len: "\<forall>u. uu = Some u \<longrightarrow> length u = kBleUuidSize"
  shows "runner_inv (transmit a result uu now r)"
proof -
  define q where "q = (case uu of Some u \<Rightarrow> if a = SendCommandPayload
      then upd_current (\<lambda>c. c\<lparr>cmd_uuid := u\<rparr>) r else r | None \<Rightarrow> r)"
  note h = liveD [OF r]
  have "runner_inv (upd_current (\<lambda>c. c\<lparr>cmd_uuid := u\<rparr>) r)" if "uu = Some u" for u
    using h len that by (intro upd_current_inv) (auto simp: head_ok_def honest_def)
  then have q: "live q" "cmd_state (current q) \<noteq> StAwaitingResponse"
    "a = SendCommandPayload \<longrightarrow> cmd_state (current q) = StReady"
    using r st ready h by (auto simp: q_def live_def split: option.split)
  have none: "upd_current (started TxNone) q = q"
    by (simp add: upd_current_def started_def current_def)
  show ?thesis
    using notify_tx_failed_inv [OF q(1,2), of _ now _ TxNone] notify_tx_failed_inv [OF q(1,2)]
      notify_tx_complete_inv [OF q] notify_tx_started_live [OF q(1)]
    by (simp add: transmit_def Let_def q_def [symmetric] none split: tx_result.split)
qed

subsection \<open>The other operations\<close>

lemma pop_current_inv:
  assumes "runner_inv r"
  shows "runner_inv (pop_current r)"
proof (cases "queue_count r = 0")
  case True
  with assms show ?thesis by (simp add: pop_current_def)
next
  case False
  then have pos: "0 < queue_count r" by simp
  have wf: "runner_wf r" using assms by (simp add: runner_inv_def)
  note h = runner_inv_current [OF assms pos]
  have d: "dispatcher_of (pop_current r) = released (current r) (dispatcher_of r)"
    by (simp add: pop_current_eq [OF wf pos])
  have "head_id (tl (commands r)) = 0 \<and> (tl (commands r) \<noteq> [] \<longrightarrow> head_ok (hd (tl (commands r)))) \<and>
      list_all (\<lambda>c. length (cmd_uuid c) = kBleUuidSize) (tl (commands r)) \<and>
      list_all pristine (tl (tl (commands r)))"
    using assms pristine_head_ok
    by (cases "commands r"; cases "tl (commands r)")
      (auto simp: runner_inv_def commands_ok_def head_id_def pristine_def)
  then show ?thesis
    using released_linked [OF h(3,4)] pop_wf [OF wf]
    by (simp add: runner_inv_def commands_ok_def pop_commands [OF wf] d)
qed

lemma pop_finished_inv: "runner_inv r \<Longrightarrow> runner_inv (pop_finished r)"
  by (simp add: pop_finished_def pop_current_inv)

lemma drive_inv:
  assumes inv: "runner_inv r0" and len: "\<forall>u. uu = Some u \<longrightarrow> length u = kBleUuidSize"
  shows "runner_inv (snd (drive now connected sleep result uu r0))"
proof -
  let ?r = "pop_finished r0"
  obtain a r1 where t: "tick now connected (sleep = Awake) (sleep = Asleep) ?r = (a, r1)" by fastforce
  have i: "runner_inv ?r" by (rule pop_finished_inv [OF inv])
  have i1: "runner_inv r1" using tick_inv [OF i, of now connected "sleep = Awake" "sleep = Asleep"] t by simp
  have "runner_inv (transmit a result uu now r1)" if "queue_count ?r \<noteq> 0" "a \<noteq> TxNone"
  proof -
    have "\<not> is_completed (current ?r)" using t that by (auto simp: tick_def)
    then have "live ?r" using i that by (simp add: live_def)
    note ta = tick_action [OF this t that(2)]
    from transmit_inv [OF ta(1,3,5) len] show ?thesis .
  qed
  then show ?thesis
    using i i1 pop_current_inv [OF i1] t by (simp add: drive_def Let_def)
qed

lemma enqueue_inv:
  assumes "runner_inv r" "length (fst (snd (snd (snd (snd (snd x)))))) = kBleUuidSize"
  shows "runner_inv (snd (enqueue_args x r))"
proof (cases "queue_count r < kMaxQueueSize")
  case False
  with assms show ?thesis by (simp add: enqueue_full)
next
  case True
  have wf: "runner_wf r" using assms by (simp add: runner_inv_def)
  let ?c = "fresh_command x (next_cmd_id r)"
  have c: "pristine ?c" "length (cmd_uuid ?c) = kBleUuidSize"
    using assms(2) by (auto simp: fresh_command_def pristine_def default_command_def split: prod.splits)
  have d: "dispatcher_of (snd (enqueue_args x r)) = dispatcher_of r"
    by (simp add: enqueue_accepts True)
  have "head_id (commands r @ [?c]) = head_id (commands r)"
    using c by (auto simp: head_id_def pristine_def split: list.split)
  then have "commands_ok (dispatcher_of r) (commands r @ [?c])"
    using assms(1) c pristine_head_ok [OF c(1)]
    by (cases "commands r") (auto simp: runner_inv_def commands_ok_def)
  then show ?thesis
    using enqueue_wf [OF wf, of x] enqueue_commands [OF wf True] d by (simp add: runner_inv_def)
qed

lemma find_command_SomeD:
  assumes "find_command P r = Some k" "runner_wf r"
  obtains i where "i < queue_count r" "k = (queue_head r + i) mod kMaxQueueSize"
    "commands r ! i = queue r ! k" "P (queue r ! k)"
proof -
  obtain i where i: "first_index P (commands r) = Some i" "k = (queue_head r + i) mod kMaxQueueSize"
    using assms(1) by (auto simp: find_command_def)
  have lt: "i < queue_count r" using first_index_less [OF i(1)] by simp
  then have "commands r ! i = queue r ! k"
    using assms(2) i(2) by (simp add: commands_def runner_wf_def)
  with i lt first_index_holds [OF i(1)] show thesis by (intro that) simp_all
qed

lemma set_command_effect_inv:
  assumes "runner_inv r"
  shows "runner_inv (snd (set_command_effect cid effect policy r))"
proof (cases "find_command (\<lambda>c. cmd_id c = cid \<and> cmd_state c = StIdle \<and> \<not> payload_maybe_sent c) r")
  case None
  with assms show ?thesis by (simp add: set_command_effect_def)
next
  case (Some k)
  have wf: "runner_wf r" using assms by (simp add: runner_inv_def)
  from Some wf obtain i where i: "i < queue_count r" "k = (queue_head r + i) mod kMaxQueueSize"
    "commands r ! i = queue r ! k" "cmd_state (queue r ! k) = StIdle" "\<not> payload_maybe_sent (queue r ! k)"
    by (rule find_command_SomeD) auto
  let ?c = "(queue r ! k)\<lparr>cmd_effect := effect, cmd_outcome_policy := policy\<rparr>"
  let ?r = "r\<lparr>queue := (queue r)[k := ?c]\<rparr>"
  have cs: "commands ?r = (commands r)[i := ?c]"
    using ring_view_update [of i "queue_count r" "queue r" "queue_head r" ?c] i wf
    by (simp add: commands_def runner_wf_def)
  have ok: "commands_ok (dispatcher_of r) (commands r)" using assms by (simp add: runner_inv_def)
  obtain c cs' where ccs: "commands r = c # cs'"
    using i(1) by (metis commands_empty_iff list.exhaust not_less0)
  have "commands_ok (dispatcher_of r) ((commands r)[i := ?c])"
  proof (cases i)
    case 0
    with i ccs have c: "c = queue r ! k" by simp
    have "head_ok ?c" using ok i(4,5) unfolding ccs c
      by (auto simp: commands_ok_def head_ok_def honest_def terminal_state_def)
    with ok 0 show ?thesis unfolding ccs c
      by (auto simp: commands_ok_def head_id_def)
  next
    case (Suc j)
    with i ccs length_commands [of r] have "cs' ! j = queue r ! k" "j < length cs'" by auto
    moreover from this have "pristine (queue r ! k)" "length (cmd_uuid (queue r ! k)) = kBleUuidSize"
      using ok ccs by (auto simp: commands_ok_def list_all_length)
    then have "pristine ?c" "length (cmd_uuid ?c) = kBleUuidSize" by (auto simp: pristine_def)
    ultimately show ?thesis
      using ok Suc unfolding ccs
      by (simp add: commands_ok_def head_id_def list_all_update)
  qed
  then show ?thesis
    using wf Some cs by (simp add: set_command_effect_def runner_inv_def runner_wf_def)
qed

lemma cancel_current_inv: "runner_inv r \<Longrightarrow> runner_inv (cancel_current reason r)"
  by (simp add: cancel_current_def finish_command_inv)

lemma pop_current_count: "queue_count (pop_current r) = queue_count r - 1"
  by (simp add: pop_current_def Let_def)

lemma cancel_current_count [simp]: "queue_count (cancel_current reason r) = queue_count r"
  by (simp add: cancel_current_def)

lemma clear_loop_count: "queue_count (clear_loop n r) = queue_count r - n"
  by (induction n arbitrary: r) (simp_all add: pop_current_count)

lemma clear_loop_inv: "runner_inv r \<Longrightarrow> runner_inv (clear_loop n r)"
  by (induction n arbitrary: r) (simp_all add: pop_current_inv cancel_current_inv)

text \<open>With an empty queue only the dispatcher matters.\<close>

lemma runner_inv_empty:
  "queue_count r = 0 \<Longrightarrow> runner_inv r \<longleftrightarrow>
   runner_wf r \<and> dispatcher_inv (dispatcher_of r) \<and> active_count (dispatcher_of r) = 0"
  using commands_empty_iff [of r] linked_none [of "dispatcher_of r"]
  by (auto simp: runner_inv_def commands_ok_def head_id_def)

lemma clear_runner_inv:
  assumes "runner_inv r"
  shows "runner_inv (clear_runner r)"
proof -
  let ?s = "clear_loop (queue_count r) r"
  have "runner_inv ?s" "queue_count ?s = 0"
    using clear_loop_inv [OF assms] by (simp_all add: clear_loop_count)
  then show ?thesis
    by (simp add: clear_runner_def runner_inv_empty runner_wf_def kMaxQueueSize_def)
qed

text \<open>A reset empties the dispatcher first, so releasing registrations then does nothing.\<close>

definition cleared_ok :: "command_runner \<Rightarrow> bool" where
  "cleared_ok r \<longleftrightarrow> runner_wf r \<and> dispatcher_inv (dispatcher_of r) \<and> active_count (dispatcher_of r) = 0"

lemma released_none:
  assumes "dispatcher_inv d" "active_count d = 0"
  shows "released c d = d"
proof -
  have "first_index (\<lambda>s. slot_active s \<and> slot_id s = rid) (slots d) = None" for rid
    using assms by (auto simp: first_index_None dispatcher_inv_def filter_empty_conv)
  then show ?thesis by (simp add: released_def unregister_request_def)
qed

lemma cancel_current_cleared: "cleared_ok r \<Longrightarrow> cleared_ok (cancel_current reason r)"
proof (cases "queue_count r = 0 \<or> is_completed (current r)")
  case True
  then show "cleared_ok r \<Longrightarrow> ?thesis" by (auto simp: cancel_current_def finish_command_done)
next
  case False
  assume r: "cleared_ok r"
  have "queue_head r < length (queue r)" using r by (simp add: cleared_ok_def runner_wf_def)
  with r False show ?thesis
    by (simp add: cancel_current_def finish_command_eq cleared_ok_def runner_wf_def released_none)
qed

lemma pop_current_cleared: "cleared_ok r \<Longrightarrow> cleared_ok (pop_current r)"
proof (cases "queue_count r = 0")
  case True
  then show "cleared_ok r \<Longrightarrow> ?thesis" by (simp add: pop_current_def)
next
  case False
  assume r: "cleared_ok r"
  with False have "dispatcher_of (pop_current r) = dispatcher_of r"
    by (simp add: pop_current_eq cleared_ok_def released_none)
  with r pop_wf show ?thesis by (simp add: cleared_ok_def)
qed

lemma clear_loop_cleared: "cleared_ok r \<Longrightarrow> cleared_ok (clear_loop n r)"
  by (induction n arbitrary: r) (simp_all add: cancel_current_cleared pop_current_cleared)

lemma runner_reset_inv:
  assumes "runner_inv r"
  shows "runner_inv (runner_reset reset_framer r)"
proof -
  let ?q = "r\<lparr>rx_framer_of := (if reset_framer then rx_reset (rx_framer_of r) else rx_framer_of r),
    dispatcher_of := dispatcher_reset (dispatcher_of r),
    vcsec_session := session_reset (vcsec_session r), info_session := session_reset (info_session r)\<rparr>"
  have inv: "runner_wf r" "dispatcher_inv (dispatcher_of r)"
    using assms by (auto simp: runner_inv_def commands_ok_def)
  have "cleared_ok ?q"
    using inv dispatcher_reset_inv [OF inv(2)]
    by (simp add: cleared_ok_def runner_wf_def dispatcher_reset_def)
  from clear_loop_cleared [OF this, of "queue_count ?q"]
  have "cleared_ok (clear_loop (queue_count ?q) ?q)" .
  moreover have "queue_count (clear_loop (queue_count ?q) ?q) = 0" by (simp add: clear_loop_count)
  ultimately show ?thesis
    by (simp add: runner_reset_def clear_runner_def runner_inv_empty cleared_ok_def runner_wf_def
        kMaxQueueSize_def)
qed

lemma complete_current_command_inv:
  assumes "runner_inv r"
  shows "runner_inv (complete_current_command success err already r)"
proof (cases "queue_count r = 0")
  case True
  with assms show ?thesis by (simp add: complete_current_command_def)
next
  case False
  then have "runner_inv (upd_current (\<lambda>c. c\<lparr>is_already_set := True\<rparr>) r)"
    using runner_inv_current [of r] assms
    by (intro upd_current_inv) (auto simp: head_ok_def honest_def)
  with False assms show ?thesis
    by (simp add: complete_current_command_def finish_command_inv)
qed

lemma notify_vehicle_awake_inv:
  assumes "runner_inv r"
  shows "runner_inv (notify_vehicle_awake awake r)"
proof -
  have "runner_inv (upd_current (\<lambda>c. c\<lparr>wake_confirmed := True, cmd_state := StIdle\<rparr>) r)"
    if "queue_count r \<noteq> 0" "cmd_state (current r) = StWaitingWake \<or> cmd_phase (current r) = PhEnsuringAwake"
    using runner_inv_current [of r] assms that
    by (intro upd_current_inv) (auto simp: head_ok_def honest_def terminal_state_def)
  with assms show ?thesis by (simp add: notify_vehicle_awake_def Let_def)
qed

lemma notify_message_fault_inv:
  assumes inv: "runner_inv r"
  shows "runner_inv (notify_message_fault decision auth now r)"
proof (cases "queue_count r = 0 \<or> is_completed (current r)")
  case True
  with inv show ?thesis by (auto simp: notify_message_fault_def Let_def)
next
  case False
  with inv have r: "live r" by (simp add: live_def)
  note h = liveD [OF r]
  define cl :: "command_request \<Rightarrow> command_request" where "cl = (\<lambda>c. c\<lparr>payload_maybe_sent := False\<rparr>)"
  have unsent: "runner_inv (upd_current cl r)"
    using h by (intro live_upd [OF r]) (auto simp: cl_def head_ok_def honest_def)
  have idem: "upd_current cl (upd_current cl r) = upd_current cl r"
    using h by (simp add: upd_upd cl_def)
  have fin: "runner_inv (finish_command False m t i (upd_current cl r))"
    "runner_inv (finish_command False m t i r)" for m t i
    using unsent h by (auto intro: finish_command_inv)
  have retry: "runner_inv (schedule_retry now (upd_current cl r))"
    if "retry_count (current r) < max_retries (current r)"
    using unsent h that by (intro schedule_retry_inv) (simp_all add: cl_def)
  have retry': "runner_inv (schedule_retry now r)"
    if "retry_count (current r) < max_retries (current r)"
      "\<not> payload_maybe_sent (current r) \<or> cmd_effect (current r) = ReadOnly"
    using h that by (intro schedule_retry_inv) auto
  show ?thesis
    using fin retry retry' h False
    by (cases auth; cases "fd_known decision"; cases "fd_possible_success decision")
      (simp_all add: notify_message_fault_def Let_def cl_def [symmetric] idem fault_allows_retry_def,
       simp_all add: cl_def)
qed

lemma dispatch_linked:
  assumes "dispatcher_inv d" "linked d rid"
  shows "linked (snd (dispatch from u len c d)) rid"
proof (cases rule: dispatch_cases [of "from" u len d c])
  case (rejected r)
  with assms show ?thesis by (simp add: linked_def)
next
  case (matched i s ok st)
  note m = match_slot_SomeD [OF matched(1)] and k = slot_admit_keeps [OF matched(2)]
  have "slot_id t = rid" if "t \<in> set ((slots d)[i := s])" "slot_active t" for t
    using that set_update_subset_insert [of "slots d" i s] assms(2) m(1,2) k
    by (auto simp: linked_def)
  with assms(2) show ?thesis by (simp add: matched linked_def)
qed

lemma dispatch_routed_id:
  assumes "dispatcher_inv d" "routed (fst (dispatch from u len c d))"
  shows "outcome_request_id (fst (dispatch from u len c d)) \<noteq> 0"
proof (cases rule: dispatch_cases [of "from" u len d c])
  case (rejected r)
  with assms show ?thesis by simp
next
  case (matched i s ok st)
  with match_slot_SomeD [OF matched(1)] assms show ?thesis
    by (auto simp: dispatcher_inv_def list_all_length slot_wf_def)
qed

lemma runner_inv_dispatch:
  assumes "runner_inv r"
  shows "runner_inv (r\<lparr>dispatcher_of := snd (dispatch from u len c (dispatcher_of r))\<rparr>)"
  using assms dispatch_inv [of "dispatcher_of r" "from" u len c]
    dispatch_linked [of "dispatcher_of r" _ "from" u len c]
    commands_cong [of "r\<lparr>dispatcher_of := snd (dispatch from u len c (dispatcher_of r))\<rparr>" r]
  by (auto simp: runner_inv_def commands_ok_def runner_wf_def)

lemma handle_response_cases:
  assumes inv: "runner_inv r"
    and eq: "handle_response from u len ctr success err rej r = (out, s)"
  obtains (unrelated) "s = r\<lparr>dispatcher_of := snd (dispatch from u len ctr (dispatcher_of r))\<rparr>"
      "routed out \<longrightarrow> queue_count r = 0 \<or> dispatcher_request_id (current r) \<noteq> outcome_request_id out"
  | (answers) q ok m t i where "routed out" "0 < queue_count r" "\<not> is_completed (current r)"
      "dispatcher_request_id (current r) = outcome_request_id out"
      "dispatcher_request_id (current r) \<noteq> 0"
      "q = (r\<lparr>dispatcher_of := snd (dispatch from u len ctr (dispatcher_of r))\<rparr>)" "live q"
      "s = finish_command ok m t i (upd_current (\<lambda>c. c\<lparr>
         payload_maybe_sent := payload_maybe_sent c \<and> (success \<or> \<not> rej),
         is_already_set := is_already_set c \<or> t = TrAlreadySet\<rparr>) q)"
      "ok \<longleftrightarrow> success \<or> t = TrAlreadySet"
proof -
  let ?d = "dispatch from u len ctr (dispatcher_of r)"
  let ?q = "r\<lparr>dispatcher_of := snd ?d\<rparr>"
  have out: "out = fst ?d" using eq by (simp add: handle_response_def split_def Let_def split: if_splits)
  have q: "runner_inv ?q" by (rule runner_inv_dispatch [OF inv])
  have cur: "current ?q = current r" by (simp add: current_def)
  show thesis
  proof (cases "\<not> routed out \<or> queue_count r = 0 \<or>
      dispatcher_request_id (current r) \<noteq> outcome_request_id out")
    case True
    with eq out show ?thesis
      by (intro unrelated) (auto simp: handle_response_def split_def Let_def cur split: if_splits)
  next
    case False
    then have pos: "0 < queue_count r" and rid: "dispatcher_request_id (current r) = outcome_request_id out"
      and routed: "routed out" by auto
    have nz: "dispatcher_request_id (current r) \<noteq> 0"
      using dispatch_routed_id [of "dispatcher_of r" "from" u len ctr] routed rid out
        runner_inv_current(3) [OF inv pos] by simp
    then have nc: "\<not> is_completed (current r)"
      using runner_inv_current(1) [OF inv pos] by (auto simp: head_ok_def)
    have live: "live ?q" using q pos nc cur by (simp add: live_def)
    note h = liveD(6) [OF live]
    define g :: "bool \<Rightarrow> command_request \<Rightarrow> command_request" where "g = (\<lambda>already c. c\<lparr>payload_maybe_sent := payload_maybe_sent c \<and> (success \<or> \<not> rej),
      is_already_set := is_already_set c \<or> already\<rparr>)"
    have g0: "(if \<not> success \<and> rej then upd_current (\<lambda>c. c\<lparr>payload_maybe_sent := False\<rparr>) ?q else ?q) =
        upd_current (g False) ?q"
    proof -
      have "g False c = (if \<not> success \<and> rej then c\<lparr>payload_maybe_sent := False\<rparr> else c)" for c
        by (cases c) (auto simp: g_def)
      then show ?thesis by (auto simp: upd_current_def current_def)
    qed
    have g1: "upd_current (\<lambda>c. c\<lparr>is_already_set := True\<rparr>) (upd_current (g False) ?q) =
        upd_current (g True) ?q"
      using h by (simp add: upd_upd g_def)
    let ?noop = "is_nominal_already_set err \<or> (\<not> success \<and> rej \<and> ctr \<noteq> None \<and> from = Infotainment \<and>
        is_nominal_charge_outcome (cmd_outcome_policy (current (upd_current (g False) ?q))) err)"
    let ?info = "\<lparr>fi_severity = (if rej then Permanent else Temporary),
        fi_outcome = DefinitelyFailed, fi_no_op = NoOpNone\<rparr>"
    have s: "s = (if ?noop
        then finish_command True ''command executed successfully'' TrAlreadySet
               (already_set_info (admitted_command_noop err)) (upd_current (g True) ?q)
        else if success then finish_command True [] TrSuccess temporary_failure (upd_current (g False) ?q)
        else finish_command False (if err = [] then ''command rejected by vehicle'' else err)
               TrAuthenticationFailed ?info (upd_current (g False) ?q))"
      using eq routed out False
      unfolding handle_response_def Let_def split_def g0 [symmetric] g1 [symmetric] cur
      by (simp cong: if_weak_cong)
    consider "s = finish_command True ''command executed successfully'' TrAlreadySet
        (already_set_info (admitted_command_noop err)) (upd_current (g True) ?q)"
      | "success" "s = finish_command True [] TrSuccess temporary_failure (upd_current (g False) ?q)"
      | "\<not> success" "s = finish_command False (if err = [] then ''command rejected by vehicle'' else err)
          TrAuthenticationFailed ?info (upd_current (g False) ?q)"
      using s by metis
    then show ?thesis
    proof cases
      case 1
      then show ?thesis
        by (intro answers [OF routed pos nc rid nz refl live, of True _ TrAlreadySet])
          (simp_all add: g_def)
    next
      case 2
      then show ?thesis
        by (intro answers [OF routed pos nc rid nz refl live, of True _ TrSuccess])
          (simp_all add: g_def)
    next
      case 3
      then show ?thesis
        by (intro answers [OF routed pos nc rid nz refl live, of False _ TrAuthenticationFailed])
          (simp_all add: g_def)
    qed
  qed
qed

lemma handle_response_inv:
  assumes "runner_inv r"
  shows "runner_inv (snd (handle_response from u len ctr success err rej r))"
proof -
  obtain out s where eq: "handle_response from u len ctr success err rej r = (out, s)" by fastforce
  from assms eq have "runner_inv s"
  proof (cases rule: handle_response_cases)
    case unrelated
    with runner_inv_dispatch [OF assms] show ?thesis by simp
  next
    case (answers q ok m t i)
    show ?thesis unfolding answers(8)
      using liveD(3) [OF answers(7)] by (intro finish_after_upd [OF answers(7)]) simp_all
  qed
  with eq show ?thesis by simp
qed

subsection \<open>All events\<close>

datatype runner_event =
    EvEnqueue enqueue_request
  | EvSetEffect u32 command_effect command_outcome_policy
  | EvPop | EvClear | EvReset bool | EvCancel terminal_reason
  | EvComplete bool string bool
  | EvDrive u32 bool sleep_state tx_result "ble_uuid option"
  | EvVehicleAwake bool | EvLinkLost string
  | EvFault message_fault_decision bool u32
  | EvSignedFault bool string
  | EvResponse ble_domain "bytes option" nat "u32 option" bool string bool
  | EvVcsecSession session_tracker | EvInfoSession session_tracker
  | EvRxChunk "bytes option" u32

definition runner_step :: "command_runner \<Rightarrow> runner_event \<Rightarrow> command_runner" where
  "runner_step r e = (case e of
      EvEnqueue x \<Rightarrow> snd (enqueue_args x r)
    | EvSetEffect cid effect policy \<Rightarrow> snd (set_command_effect cid effect policy r)
    | EvPop \<Rightarrow> pop_current r
    | EvClear \<Rightarrow> clear_runner r
    | EvReset b \<Rightarrow> runner_reset b r
    | EvCancel reason \<Rightarrow> cancel_current reason r
    | EvComplete ok err already \<Rightarrow> complete_current_command ok err already r
    | EvDrive now connected sleep result uu \<Rightarrow> snd (drive now connected sleep result uu r)
    | EvVehicleAwake b \<Rightarrow> notify_vehicle_awake b r
    | EvLinkLost reason \<Rightarrow> notify_link_lost reason r
    | EvFault d auth now \<Rightarrow> notify_message_fault d auth now r
    | EvSignedFault b reason \<Rightarrow> notify_signed_message_fault b reason r
    | EvResponse dmn u len ctr ok err rej \<Rightarrow> snd (handle_response dmn u len ctr ok err rej r)
    | EvVcsecSession s \<Rightarrow> r\<lparr>vcsec_session := s\<rparr>
    | EvInfoSession s \<Rightarrow> r\<lparr>info_session := s\<rparr>
    | EvRxChunk data now \<Rightarrow> snd (snd (push_rx_chunk (\<lambda>_. False) data now r)))"

text \<open>UUID arguments are 16-byte arrays.\<close>

definition event_ok :: "runner_event \<Rightarrow> bool" where
  "event_ok e = (case e of
      EvEnqueue x \<Rightarrow> length (fst (snd (snd (snd (snd (snd x)))))) = kBleUuidSize
    | EvDrive now connected sleep result uu \<Rightarrow>
        (case uu of None \<Rightarrow> True | Some u \<Rightarrow> length u = kBleUuidSize)
    | _ \<Rightarrow> True)"

lemma new_runner_inv: "runner_inv new_runner"
  by (simp add: runner_inv_empty new_runner_def runner_wf_def kMaxQueueSize_def new_dispatcher_inv)
    (simp add: new_dispatcher_def)

interpretation runner_machine: transition_system runner_step runner_inv event_ok
proof
  fix r e
  assume inv: "runner_inv r" and ok: "event_ok e"
  show "runner_inv (runner_step r e)"
  proof (cases e)
    case (EvEnqueue x)
    with ok have "length (fst (snd (snd (snd (snd (snd x)))))) = kBleUuidSize"
      by (simp add: event_ok_def)
    from enqueue_inv [OF inv this] EvEnqueue show ?thesis by (simp add: runner_step_def)
  next
    case (EvDrive now connected sleep result uu)
    with ok have "\<forall>u. uu = Some u \<longrightarrow> length u = kBleUuidSize"
      by (auto simp: event_ok_def)
    from drive_inv [OF inv this] EvDrive show ?thesis by (simp add: runner_step_def)
  next
    case (EvSetEffect cid eff pol)
    with set_command_effect_inv [OF inv] show ?thesis by (simp add: runner_step_def)
  next
    case EvPop
    with pop_current_inv [OF inv] show ?thesis by (simp add: runner_step_def)
  next
    case EvClear
    with clear_runner_inv [OF inv] show ?thesis by (simp add: runner_step_def)
  next
    case (EvReset b)
    with runner_reset_inv [OF inv] show ?thesis by (simp add: runner_step_def)
  next
    case (EvCancel reason)
    with cancel_current_inv [OF inv] show ?thesis by (simp add: runner_step_def)
  next
    case (EvComplete success err already)
    with complete_current_command_inv [OF inv] show ?thesis by (simp add: runner_step_def)
  next
    case (EvVehicleAwake b)
    with notify_vehicle_awake_inv [OF inv] show ?thesis by (simp add: runner_step_def)
  next
    case (EvLinkLost reason)
    with finish_command_inv [OF inv] inv show ?thesis
      by (simp add: runner_step_def notify_link_lost_def)
  next
    case (EvFault d auth now)
    with notify_message_fault_inv [OF inv] show ?thesis by (simp add: runner_step_def)
  next
    case (EvSignedFault b reason)
    with notify_message_fault_inv [OF inv] show ?thesis
      by (simp add: runner_step_def notify_signed_message_fault_def)
  next
    case (EvResponse dmn u len ctr success err rej)
    with handle_response_inv [OF inv] show ?thesis by (simp add: runner_step_def)
  next
    case (EvVcsecSession s)
    with runner_inv_cong [OF inv, of "r\<lparr>vcsec_session := s\<rparr>"] show ?thesis
      by (simp add: runner_step_def)
  next
    case (EvInfoSession s)
    with runner_inv_cong [OF inv, of "r\<lparr>info_session := s\<rparr>"] show ?thesis
      by (simp add: runner_step_def)
  next
    case (EvRxChunk data now)
    with runner_inv_cong [OF inv, of "r\<lparr>rx_framer_of := f\<rparr>" for f] show ?thesis
      by (simp add: runner_step_def push_rx_chunk_def split: prod.split)
  qed
qed

end
