(* ===== verification/RunnerProps.thy ===== *)
theory RunnerProps
  imports RunnerSafety
begin

text \<open>
  The properties of the command runner, on every state its operations and the vehicle task's rounds
  can reach from a fresh runner.
\<close>

abbreviation reached :: "runner_event list \<Rightarrow> command_runner" where
  "reached es \<equiv> foldl runner_step new_runner es"

lemma reached_inv: "list_all event_ok es \<Longrightarrow> runner_inv (reached es)"
  by (rule runner_machine.run_inv [OF new_runner_inv])

lemma reached_commands:
  assumes "list_all event_ok es" "c \<in> set (commands (reached es))"
  shows "head_ok c" "honest c"
proof -
  have "commands_ok (dispatcher_of (reached es)) (commands (reached es))"
    using reached_inv [OF assms(1)] by (simp add: runner_inv_def)
  with assms(2) show "head_ok c"
    by (cases "commands (reached es)") (auto simp: commands_ok_def list_all_iff pristine_head_ok)
  then show "honest c" by (simp add: head_ok_def)
qed

text \<open>What a transmitting round says of the command it transmits for.\<close>

lemma drive_action:
  assumes inv: "runner_inv r0" and eq: "drive now connected sleep result uu r0 = (a, s)" and a: "a \<noteq> TxNone"
  obtains r1 where "live (pop_finished r0)" "live r1"
    "tick now connected (sleep = Awake) (sleep = Asleep) (pop_finished r0) = (a, r1)"
    "s = transmit a result uu now r1"
proof -
  let ?r = "pop_finished r0"
  obtain b r1 where t: "tick now connected (sleep = Awake) (sleep = Asleep) ?r = (b, r1)" by fastforce
  have b: "queue_count ?r \<noteq> 0" "b = a" "s = transmit a result uu now r1"
    using eq a t by (auto simp: drive_def Let_def split: if_splits)
  then have "\<not> is_completed (current ?r)" using t a by (auto simp: tick_def)
  then have l: "live ?r" using pop_finished_inv [OF inv] b(1) by (simp add: live_def)
  from that [OF l tick_action(1) [OF l t] ] t b a show thesis by simp
qed

text \<open>An authenticated rejection that proves a submitted payload was not executed.\<close>

fun proves_unexecuted :: "runner_event \<Rightarrow> bool" where
  "proves_unexecuted (EvFault d auth now) = (auth \<and> fd_known d \<and> \<not> fd_possible_success d)"
| "proves_unexecuted (EvResponse dmn u len ctr ok err rej) = (\<not> ok \<and> rej)"
| "proves_unexecuted e = False"

fun drops_head :: "runner_event \<Rightarrow> bool" where
  "drops_head EvPop = True" | "drops_head EvClear = True" | "drops_head (EvReset b) = True"
| "drops_head e = False"

subsection \<open>How the head command evolves\<close>

definition outcome_of ::
    "command_request \<Rightarrow> bool \<times> bool \<times> command_failure_info \<times> string \<times> terminal_reason \<times> command_state" where
  "outcome_of c = (is_completed c, is_success c, cmd_failure c, error_message c,
     cmd_terminal_reason c, cmd_state c)"

definition callback_of :: "command_request \<Rightarrow> completion" where
  "callback_of c = (cmd_id c, is_success c, error_message c, cmd_failure c)"

text \<open>
  From \<open>c\<close> to \<open>d\<close> with these callback calls: a completed command keeps its outcome and makes no
  call; one that completes calls its callback once, with the outcome it ends up with; the record
  that its payload may have been sent is kept unless the event proves otherwise.
\<close>

definition evolves :: "bool \<Rightarrow> command_request \<Rightarrow> command_request \<Rightarrow> completion list \<Rightarrow> bool" where
  "evolves proves c d log \<longleftrightarrow> cmd_id d = cmd_id c \<and> has_on_complete d = has_on_complete c \<and>
     (payload_maybe_sent c \<and> \<not> proves \<longrightarrow> payload_maybe_sent d) \<and>
     (is_completed c \<longrightarrow> outcome_of d = outcome_of c \<and> log = []) \<and>
     (\<not> is_completed c \<longrightarrow>
        log = (if is_completed d \<and> has_on_complete c then [callback_of d] else []))"

lemma evolves_refl: "evolves p c c []"
  by (simp add: evolves_def)

lemma evolves_trans: "evolves p c d l1 \<Longrightarrow> evolves p d e l2 \<Longrightarrow> evolves p c e (l1 @ l2)"
  by (auto simp: evolves_def outcome_of_def callback_of_def)

definition leads :: "bool \<Rightarrow> command_runner \<Rightarrow> command_runner \<Rightarrow> bool" where
  "leads p r s \<longleftrightarrow> queue_head s = queue_head r \<and> length (queue s) = length (queue r) \<and>
     (\<exists>log. completions s = completions r @ log \<and> evolves p (current r) (current s) log)"

lemma leads_refl: "leads p r r"
  unfolding leads_def using evolves_refl by (metis append_Nil2)

lemma leads_trans: "leads p r s \<Longrightarrow> leads p s t \<Longrightarrow> leads p r t"
  unfolding leads_def by (metis append.assoc evolves_trans)

lemma leads_upd:
  assumes "queue_head r < length (queue r)" "evolves p (current r) (f (current r)) []"
  shows "leads p r (upd_current f r)"
  using assms unfolding leads_def by (intro conjI exI [of _ "[]"]) simp_all

lemma leads_same_queue:
  "queue s = queue r \<Longrightarrow> queue_head s = queue_head r \<Longrightarrow> completions s = completions r \<Longrightarrow> leads p r s"
  unfolding leads_def by (intro conjI exI [of _ "[]"]) (simp_all add: current_def evolves_refl)

lemma leads_finish:
  assumes "queue_head r < length (queue r)"
  shows "leads p r (finish_command ok err reason info r)"
proof (cases "is_completed (current r)")
  case True
  then show ?thesis by (simp add: finish_command_done leads_refl)
next
  case False
  let ?s = "finish_command ok err reason info r"
  have c: "current ?s = finished ok err reason info (current r)"
    using assms False by (simp add: finish_command_current)
  have "completions ?s = completions r @
      (if has_on_complete (current r) then [callback_of (current ?s)] else [])"
    using False assms unfolding c
    by (simp add: finish_command_eq callback_of_def finished_def Let_def)
  then show ?thesis
    using False unfolding leads_def
    by (intro conjI exI [of _ "if has_on_complete (current r) then [callback_of (current ?s)] else []"])
      (simp_all add: evolves_def c, simp_all add: finished_def Let_def)
qed

lemma leads_unregister:
  assumes "queue_head r < length (queue r)"
  shows "leads p r (unregister_current r)"
  using assms unfolding leads_def
  by (intro conjI exI [of _ "[]"])
    (simp_all add: unregister_current_eq, simp add: current_def evolves_def outcome_of_def callback_of_def)

lemma leads_schedule_retry:
  assumes "queue_head r < length (queue r)" "\<not> is_completed (current r)"
  shows "leads p r (schedule_retry now r)"
  unfolding schedule_retry_def
  by (rule leads_trans [OF leads_upd leads_unregister]) (use assms in \<open>simp_all add: evolves_def\<close>)

lemma leads_register:
  assumes "queue_head r < length (queue r)"
  shows "leads p r (register_current r)"
proof (cases "dispatcher_request_id (current r) = 0")
  case True
  with assms show ?thesis unfolding leads_def
    by (intro conjI exI [of _ "[]"])
      (simp_all add: register_current_eq current_def evolves_def outcome_of_def callback_of_def
        split: prod.split)
next
  case False
  then show ?thesis by (simp add: register_current_def leads_refl)
qed

lemma leads_finish_none:
  "queue_head r < length (queue r) \<Longrightarrow> leads p r (snd (finish_none err reason r))"
  by (simp add: finish_none_def leads_finish)

lemma leads_skip:
  assumes "queue_head r < length (queue r)" "\<not> is_completed (current r)"
  shows "leads p r (upd_current (\<lambda>c. c\<lparr>cmd_state := st\<rparr>) (finish_command False err reason info r))"
proof -
  let ?t = "finish_command False err reason info r"
  let ?s = "upd_current (\<lambda>c. c\<lparr>cmd_state := st\<rparr>) ?t"
  have c: "current ?s = (finished False err reason info (current r))\<lparr>cmd_state := st\<rparr>"
    using assms by (simp add: finish_command_current)
  have "completions ?s = completions r @
      (if has_on_complete (current r) then [callback_of (current ?s)] else [])"
    using assms unfolding c
    by (simp add: finish_command_eq callback_of_def finished_def Let_def)
  then show ?thesis
    using assms unfolding leads_def
    by (intro conjI exI [of _ "if has_on_complete (current r) then [callback_of (current ?s)] else []"])
      (simp_all add: evolves_def c, simp_all add: finished_def Let_def)
qed

definition stage_leads :: "(command_runner \<Rightarrow> tx_action option \<times> command_runner) \<Rightarrow> bool" where
  "stage_leads f \<longleftrightarrow> (\<forall>r p. live r \<longrightarrow> leads p r (snd (f r)))"

lemma stage_leads_fall_through:
  assumes "stage_ok f" "stage_leads f" "stage_leads g"
  shows "stage_leads (fall_through f g)"
  unfolding stage_leads_def
proof (intro allI impI)
  fix r p
  assume r: "live r"
  obtain x s where eq: "fall_through f g r = (x, s)" by fastforce
  from eq have "leads p r s"
  proof (cases rule: fall_through_cases)
    case (returned y)
    with assms(2) r show ?thesis by (metis snd_conv stage_leads_def)
  next
    case (continued t)
    have "live t" using stage_okD [OF assms(1) r continued(1)] by simp
    with assms(2,3) r continued show ?thesis
      unfolding stage_leads_def by (metis leads_trans snd_conv)
  qed
  with eq show "leads p r (snd (fall_through f g r))" by simp
qed

lemma leads_live_upd:
  assumes "live r" "\<And>c. cmd_id (f c) = cmd_id c \<and> has_on_complete (f c) = has_on_complete c \<and>
      is_completed (f c) = is_completed c \<and> payload_maybe_sent (f c) = payload_maybe_sent c"
  shows "leads p r (upd_current f r)"
  using liveD [OF assms(1)] assms(2) by (intro leads_upd) (simp_all add: evolves_def)

lemma leads_live_finish_none: "live r \<Longrightarrow> leads p r (snd (finish_none err reason r))"
  by (rule leads_finish_none) (rule liveD(6))

lemma tick_deadline_leads: "stage_leads (tick_deadline now connected)"
  by (simp add: stage_leads_def tick_deadline_def Let_def leads_live_finish_none leads_refl)

lemma tick_backoff_leads: "stage_leads (tick_backoff now)"
  by (simp add: stage_leads_def tick_backoff_def Let_def leads_live_upd leads_refl)

lemma tick_response_leads: "stage_leads (tick_response now)"
proof -
  have "leads p r (unregister_current (upd_current (\<lambda>c. c\<lparr>retry_count := retry_count c + 1,
      next_retry_delay_ms := retry_delay (retry_count c + 1), cmd_state := StReady,
      cmd_phase := PhSendingRequest, phase_started_at_ms := now\<rparr>) r))" if "live r" for p r
    using liveD(6) [OF that]
    by (intro leads_trans [OF leads_live_upd [OF that] leads_unregister]) simp_all
  then show ?thesis
    by (simp add: stage_leads_def tick_response_def Let_def leads_live_finish_none leads_refl)
qed

lemma tick_awake_leads: "stage_leads (tick_awake now awake)"
  by (simp add: stage_leads_def tick_awake_def Let_def leads_live_upd leads_refl)

lemma tick_step_leads: "stage_leads (tick_step now)"
  by (simp add: stage_leads_def tick_step_def Let_def leads_live_upd leads_live_finish_none leads_refl)

lemma await_step_leads: "live r \<Longrightarrow> leads p r (snd (await_step st ph a now r))"
  by (simp add: await_step_def leads_live_upd)

lemma emit_payload_leads: "live r \<Longrightarrow> leads p r (snd (emit_payload now r))"
  by (simp add: emit_payload_def Let_def leads_live_upd leads_refl)

lemma tick_progress_leads: "stage_leads (tick_progress now awake asleep)"
proof -
  have skip: "leads p r (upd_current (\<lambda>c. c\<lparr>cmd_state := st\<rparr>) (finish_command False err reason info r))"
    if "live r" for p r st err reason info
    using liveD(3,6) [OF that] by (rule leads_skip [rotated])
  show ?thesis
    by (simp add: stage_leads_def tick_progress_def Let_def await_step_leads emit_payload_leads
        leads_refl skip split: wake_policy.split)
qed

lemma tick_leads:
  assumes "runner_inv r"
  shows "leads p r (snd (tick now connected awake asleep r))"
proof (cases "queue_count r = 0 \<or> is_completed (current r)")
  case True
  then show ?thesis by (auto simp: tick_def leads_refl)
next
  case False
  with assms have "live r" by (simp add: live_def)
  moreover have "stage_leads (tick_stages now connected awake asleep)"
    unfolding tick_stages_def
    by (intro stage_leads_fall_through tick_deadline_ok tick_deadline_leads tick_backoff_ok
        tick_backoff_leads tick_response_ok tick_response_leads tick_awake_ok tick_awake_leads
        tick_step_ok tick_step_leads tick_progress_leads)
  ultimately have "leads p r (snd (tick_stages now connected awake asleep r))"
    by (simp add: stage_leads_def)
  with False show ?thesis
    by (auto simp: tick_def split: prod.split option.split)
qed

lemma started_identity [simp]:
  "cmd_id (started a c) = cmd_id c" "has_on_complete (started a c) = has_on_complete c"
  by (simp_all add: started_def)

lemma leads_started: "live r \<Longrightarrow> leads p r (upd_current (started a) r)"
  using liveD(3,6) [of r] by (intro leads_upd) (auto simp: evolves_def started_def)

lemma leads_frame:
  "leads p r s \<Longrightarrow> queue_head r < length (queue r) \<Longrightarrow> queue_head s < length (queue s)"
  by (simp add: leads_def)

lemma leads_tx_failed:
  assumes "queue_head r < length (queue r)"
  shows "leads p r (notify_tx_failed reason now build r)"
  using assms by (auto simp: notify_tx_failed_def Let_def
      intro: leads_refl leads_finish leads_schedule_retry)

lemma leads_tx_complete':
  assumes h: "queue_head r < length (queue r)" "\<not> is_completed (current r)" "queue_count r \<noteq> 0"
  shows "leads p r (notify_tx_complete a now (upd_current (started a) r))"
proof -
  let ?g = "\<lambda>c. (started a c)\<lparr>last_tx_ms := now\<rparr>"
  have "notify_tx_started a (upd_current (started a) r) = upd_current (started a) r"
    using h by (auto simp: notify_tx_started_def upd_upd started_def)
  then have g: "upd_current (\<lambda>c. c\<lparr>last_tx_ms := now\<rparr>)
      (notify_tx_started a (upd_current (started a) r)) = upd_current ?g r"
    using h by (simp add: upd_upd)
  have l: "leads p r (upd_current f r)" if "\<And>c. f c = (?g c)\<lparr>cmd_state := st, cmd_phase := ph,
      phase_started_at_ms := now\<rparr> \<or> f c = ?g c" for f st ph
    using h that [of "current r"]
    by (intro leads_upd) (auto simp: evolves_def)
  have fin: "leads p r (finish_command ok err reason info (upd_current ?g r))" for ok err reason info
    by (rule leads_trans [OF l leads_finish]) (use h in auto)
  have aw: "leads p r (register_current (upd_current (\<lambda>c. (?g c)\<lparr>cmd_state := StAwaitingResponse,
      cmd_phase := PhAwaitingResponse, phase_started_at_ms := now\<rparr>) r))"
    by (rule leads_trans [OF l leads_register]) (use h in auto)
  have pl: "leads p r (upd_current ?g r)" by (rule l) simp
  show ?thesis
    using fin aw pl h unfolding notify_tx_complete_def g
    by (cases "a = SendCommandPayload") (simp_all add: Let_def upd_upd)
qed

lemma leads_transmit:
  assumes r: "live r"
  shows "leads p r (transmit a result uu now r)"
proof -
  define q where "q = (case uu of Some u \<Rightarrow> if a = SendCommandPayload
      then upd_current (\<lambda>c. c\<lparr>cmd_uuid := u\<rparr>) r else r | None \<Rightarrow> r)"
  have q: "leads p r q"
    using leads_live_upd [OF r] by (auto simp: q_def leads_refl split: option.split)
  then have lt: "queue_head q < length (queue q)" using leads_frame liveD(6) [OF r] by blast
  have nc: "\<not> is_completed (current q)" "queue_count q \<noteq> 0"
    using liveD [OF r] by (auto simp: q_def split: option.split)
  have st: "notify_tx_started a q = upd_current (started a) q"
    using nc by (auto simp: notify_tx_started_def upd_current_def current_def started_def)
  have ls: "leads p q (upd_current (started a) q)"
    using lt nc by (intro leads_upd) (auto simp: evolves_def)
  have lt2: "queue_head (upd_current (started a) q) < length (queue (upd_current (started a) q))"
    using lt by simp
  have failed: "leads p q (notify_tx_failed m now b (upd_current (started a) q))" for m b
    by (rule leads_trans [OF ls leads_tx_failed [OF lt2]])
  have complete: "leads p q (notify_tx_complete a now (upd_current (started a) q))"
    by (rule leads_tx_complete') (use lt nc in auto)
  show ?thesis
    using leads_trans [OF q] failed complete leads_tx_failed [OF lt]
    by (simp add: transmit_def Let_def q_def [symmetric] st split: tx_result.split)
qed

lemma leads_clear_sent:
  "queue_head r < length (queue r) \<Longrightarrow> leads True r (upd_current (\<lambda>c. c\<lparr>payload_maybe_sent := False\<rparr>) r)"
  by (rule leads_upd) (auto simp: evolves_def outcome_of_def callback_of_def)

lemma leads_message_fault:
  assumes "queue_head r < length (queue r)"
  shows "leads (auth \<and> fd_known d \<and> \<not> fd_possible_success d) r (notify_message_fault d auth now r)"
proof (cases "queue_count r = 0 \<or> is_completed (current r)")
  case True
  then show ?thesis by (auto simp: notify_message_fault_def Let_def leads_refl)
next
  case False
  define cl :: "command_request \<Rightarrow> command_request" where "cl = (\<lambda>c. c\<lparr>payload_maybe_sent := False\<rparr>)"
  have cl: "leads True r (upd_current cl r)" unfolding cl_def by (rule leads_clear_sent [OF assms])
  have idem: "upd_current cl (upd_current cl r) = upd_current cl r"
    using assms by (simp add: upd_upd cl_def)
  have lt: "queue_head (upd_current cl r) < length (queue (upd_current cl r))" using assms by simp
  have nc: "\<not> is_completed (current (upd_current cl r))" using assms False by (simp add: cl_def)
  note up = leads_trans [OF cl leads_finish [OF lt]] leads_trans [OF cl leads_schedule_retry [OF lt nc]]
    leads_finish [OF assms] leads_schedule_retry [OF assms]
  show ?thesis
    using up False
    by (cases auth; cases "fd_known d"; cases "fd_possible_success d")
      (simp_all add: notify_message_fault_def Let_def cl_def [symmetric] idem fault_allows_retry_def)
qed

lemma leads_response:
  assumes inv: "runner_inv r" and pos: "0 < queue_count r"
  shows "leads (\<not> ok \<and> rej) r (snd (handle_response dmn u len ctr ok err rej r))"
proof -
  obtain out s where eq: "handle_response dmn u len ctr ok err rej r = (out, s)" by fastforce
  from inv eq have "leads (\<not> ok \<and> rej) r s"
  proof (cases rule: handle_response_cases)
    case unrelated
    then show ?thesis by (intro leads_same_queue) simp_all
  next
    case (answers q fok m t i)
    let ?f = "\<lambda>c. c\<lparr>payload_maybe_sent := payload_maybe_sent c \<and> (ok \<or> \<not> rej),
         is_already_set := is_already_set c \<or> t = TrAlreadySet\<rparr>"
    have "leads (\<not> ok \<and> rej) r q" unfolding answers(6) by (intro leads_same_queue) simp_all
    moreover have "leads (\<not> ok \<and> rej) q (upd_current ?f q)"
      using liveD(3,6) [OF answers(7)] by (intro leads_upd) (auto simp: evolves_def)
    moreover have "leads (\<not> ok \<and> rej) (upd_current ?f q) s"
      unfolding answers(8) using liveD(6) [OF answers(7)] by (intro leads_finish) simp
    ultimately show ?thesis using leads_trans by blast
  qed
  with eq show ?thesis by simp
qed

lemma tick_count:
  assumes "runner_inv r"
  shows "queue_count (snd (tick now connected awake asleep r)) = queue_count r"
proof (cases "queue_count r = 0 \<or> is_completed (current r)")
  case True
  then show ?thesis by (auto simp: tick_def)
next
  case False
  with assms have r: "live r" by (simp add: live_def)
  obtain x s where xs: "tick_stages now connected awake asleep r = (x, s)" by fastforce
  from r xs have "queue_count s = queue_count r"
  proof (cases rule: tick_reaches_progress)
    case (progress p)
    with tick_progress_inv [OF progress(1,11,2)] show ?thesis by simp
  qed
  with False xs show ?thesis by (simp add: tick_def split: option.split)
qed

lemma drive_head:
  assumes inv: "runner_inv r" and same: "queue_head (snd (drive now connected sleep result uu r)) = queue_head r"
    and pos: "0 < queue_count r"
  shows "leads p r (snd (drive now connected sleep result uu r))"
proof -
  let ?q = "pop_finished r"
  obtain a r1 where t: "tick now connected (sleep = Awake) (sleep = Asleep) ?q = (a, r1)" by fastforce
  have iq: "runner_inv ?q" by (rule pop_finished_inv [OF inv])
  have l1: "leads p ?q r1" for p
    using tick_leads [OF iq, of p now connected "sleep = Awake" "sleep = Asleep"] t by simp
  have hq: "queue_head ?q = queue_head r \<or>
      (queue_head ?q = (queue_head r + 1) mod kMaxQueueSize \<and> ?q = pop_current r)"
    by (simp add: pop_finished_def pop_current_def Let_def)
  have hd: "queue_head r < kMaxQueueSize" using inv by (simp add: runner_inv_def runner_wf_def)
  have tr: "queue_head (transmit a result uu now r1) = queue_head r1"
    if "queue_count ?q \<noteq> 0" "a \<noteq> TxNone"
  proof -
    have "\<not> is_completed (current ?q)" using t that by (auto simp: tick_def)
    then have "live ?q" using iq that by (simp add: live_def)
    from leads_transmit [OF tick_action(1) [OF this t that(2)]] show ?thesis
      unfolding leads_def by blast
  qed
  have h1: "queue_head r1 = queue_head ?q" using l1 unfolding leads_def by blast
  have popped: "queue_head (pop_current r1) \<in> {queue_head r1, (queue_head r1 + 1) mod kMaxQueueSize}"
    by (simp add: pop_current_def Let_def)
  have i1: "runner_inv r1" using tick_inv [OF iq, of now connected "sleep = Awake" "sleep = Asleep"] t by simp
  have wf1: "0 < queue_count r1 \<Longrightarrow> queue_head (pop_current r1) = (queue_head r1 + 1) mod kMaxQueueSize"
    using i1 by (simp add: pop_current_eq runner_inv_def)
  have ne: "(h + 1) mod kMaxQueueSize \<noteq> h" "((h + 1) mod kMaxQueueSize + 1) mod kMaxQueueSize \<noteq> h"
    if "h < kMaxQueueSize" for h
    using that by (auto simp: kMaxQueueSize_def mod_Suc)
  have stay: "queue_head ?q = queue_head r"
  proof (rule ccontr)
    assume "\<not> ?thesis"
    then have q: "queue_head ?q = (queue_head r + 1) mod kMaxQueueSize" using hq by blast
    have "queue_head (snd (drive now connected sleep result uu r)) \<in>
        {queue_head ?q, (queue_head ?q + 1) mod kMaxQueueSize}"
      using t tr h1 popped by (auto simp: drive_def Let_def)
    with same q ne [OF hd] show False by auto
  qed
  have qr: "?q = r"
  proof (rule ccontr)
    assume "?q \<noteq> r"
    then have "?q = pop_current r" by (auto simp: pop_finished_def split: if_splits)
    with stay ne(1) [OF hd] inv pos show False
      by (simp add: pop_current_eq runner_inv_def)
  qed
  have c1: "0 < queue_count r1"
    using tick_count [OF inv, of now connected "sleep = Awake" "sleep = Asleep"] t pos qr by simp
  have keep: "\<not> (is_completed (current r1) \<and> \<not> has_on_complete (current r1))"
    using same t qr pos h1 wf1 [OF c1] ne(1) [OF hd] by (auto simp: drive_def Let_def split: if_splits)
  have "leads p r (transmit a result uu now r1)" if "a \<noteq> TxNone"
  proof -
    have "\<not> is_completed (current r)" using t that qr by (auto simp: tick_def)
    then have "live r" using inv pos by (simp add: live_def)
    from leads_transmit [OF tick_action(1) [OF this _ that]] t qr have "leads p r1 (transmit a result uu now r1)"
      by metis
    with l1 [of p] qr show ?thesis using leads_trans by simp
  qed
  then show ?thesis
    using t qr pos keep l1 [of p] by (auto simp: drive_def Let_def)
qed

lemma step_leads:
  assumes inv: "runner_inv r" and pos: "0 < queue_count r" and keep: "\<not> drops_head e"
    and same: "queue_head (runner_step r e) = queue_head r"
  shows "leads (proves_unexecuted e) r (runner_step r e)"
proof -
  note lt = runner_inv_current(5) [OF inv pos]
  have wf: "runner_wf r" using inv by (simp add: runner_inv_def)
  show ?thesis
  proof (cases e)
    case (EvEnqueue x)
    show ?thesis
    proof (cases "queue_count r < kMaxQueueSize")
      case True
      let ?t = "(queue_head r + queue_count r) mod kMaxQueueSize"
      have "?t \<noteq> queue_head r"
        using True pos wf ring_index_inj [of "queue_count r" kMaxQueueSize 0 "queue_head r"]
        by (auto simp: runner_wf_def)
      with True EvEnqueue show ?thesis
        unfolding leads_def
        by (intro conjI exI [of _ "[]"])
          (simp_all add: runner_step_def enqueue_accepts current_def evolves_refl)
    next
      case False
      with EvEnqueue show ?thesis by (simp add: runner_step_def enqueue_full leads_refl)
    qed
  next
    case (EvSetEffect cid eff pol)
    have ev: "evolves p (current r) (current (r\<lparr>queue := (queue r)[k := (queue r ! k)
        \<lparr>cmd_effect := eff, cmd_outcome_policy := pol\<rparr>]\<rparr>)) []" for p k
      using lt by (cases "k = queue_head r")
        (simp_all add: current_def evolves_def outcome_of_def callback_of_def)
    have "leads False r (r\<lparr>queue := (queue r)[k := (queue r ! k)
        \<lparr>cmd_effect := eff, cmd_outcome_policy := pol\<rparr>]\<rparr>)" for k
      unfolding leads_def using ev by (intro conjI exI [of _ "[]"]) simp_all
    with EvSetEffect show ?thesis
      by (simp add: runner_step_def set_command_effect_def leads_refl split: option.split)
  next
    case (EvCancel reason)
    with pos lt show ?thesis by (simp add: runner_step_def cancel_current_def leads_finish)
  next
    case (EvComplete ok err already)
    have "leads False r (upd_current (\<lambda>c. c\<lparr>is_already_set := True\<rparr>) r)"
      using lt by (intro leads_upd) (auto simp: evolves_def outcome_of_def callback_of_def)
    from leads_trans [OF this leads_finish] leads_finish [OF lt] EvComplete pos lt show ?thesis
      by (simp add: runner_step_def complete_current_command_def)
  next
    case (EvDrive now connected sleep result uu)
    with drive_head [OF inv _ pos] same show ?thesis by (simp add: runner_step_def)
  next
    case (EvVehicleAwake b)
    have "leads False r (upd_current (\<lambda>c. c\<lparr>wake_confirmed := True, cmd_state := StIdle\<rparr>) r)"
      if "cmd_state (current r) = StWaitingWake \<or> cmd_phase (current r) = PhEnsuringAwake"
      using lt that runner_inv_current(1) [OF inv pos]
      by (intro leads_upd) (auto simp: evolves_def head_ok_def terminal_state_def)
    with EvVehicleAwake show ?thesis
      by (simp add: runner_step_def notify_vehicle_awake_def Let_def leads_refl)
  next
    case (EvLinkLost reason)
    with pos lt show ?thesis by (simp add: runner_step_def notify_link_lost_def leads_finish)
  next
    case (EvFault d auth now)
    with leads_message_fault [OF lt] show ?thesis by (simp add: runner_step_def)
  next
    case (EvSignedFault b reason)
    with leads_message_fault [OF lt, of False] show ?thesis
      by (simp add: runner_step_def notify_signed_message_fault_def)
  next
    case (EvResponse dmn u len ctr ok err rej)
    with leads_response [OF inv pos] show ?thesis by (simp add: runner_step_def)
  next
    case (EvVcsecSession s)
    then show ?thesis by (simp add: runner_step_def leads_same_queue)
  next
    case (EvInfoSession s)
    then show ?thesis by (simp add: runner_step_def leads_same_queue)
  next
    case (EvRxChunk data now)
    then show ?thesis
      by (simp add: runner_step_def push_rx_chunk_def leads_same_queue split: prod.split)
  qed (use keep in simp_all)
qed

subsection \<open>Clearing the queue\<close>

text \<open>The callback call a cancellation makes for one queued command.\<close>

definition cancel_calls :: "command_request \<Rightarrow> completion list" where
  "cancel_calls c =
     (if \<not> is_completed c \<and> has_on_complete c
      then [callback_of (finished False ''command cancelled'' TrCancelled temporary_failure c)] else [])"

lemma cancel_current_wf: "runner_wf r \<Longrightarrow> runner_wf (cancel_current reason r)"
  by (simp add: cancel_current_def finish_command_def Let_def unregister_current_def upd_current_def
      runner_wf_def)

lemma cancel_then_pop:
  assumes "runner_wf r" "0 < queue_count r"
  shows "completions (pop_current (cancel_current TrCancelled r)) =
      completions r @ cancel_calls (hd (commands r)) \<and>
    commands (pop_current (cancel_current TrCancelled r)) = tl (commands r) \<and>
    runner_wf (pop_current (cancel_current TrCancelled r))"
proof -
  let ?s = "cancel_current TrCancelled r"
  have lt: "queue_head r < length (queue r)" using assms(1) by (simp add: runner_wf_def)
  have wf: "runner_wf ?s" by (rule cancel_current_wf [OF assms(1)])
  have "completions ?s = completions r @ cancel_calls (current r)"
    using assms(2) lt by (cases "is_completed (current r)")
      (simp_all add: cancel_current_def finish_command_done finish_command_eq cancel_calls_def
        callback_of_def finished_def Let_def)
  moreover have "tl (commands ?s) = tl (commands r)"
  proof (cases "is_completed (current r)")
    case True
    with assms(2) show ?thesis by (simp add: cancel_current_def finish_command_done)
  next
    case False
    let ?c = "finished False ''command cancelled'' TrCancelled temporary_failure (current r)"
    have "commands ?s = commands (r\<lparr>queue := (queue r)[queue_head r := ?c]\<rparr>)"
      using assms(2) lt False by (intro commands_cong) (simp_all add: cancel_current_def finish_command_eq)
    with commands_head_update [OF assms] show ?thesis by simp
  qed
  moreover have "completions (pop_current ?s) = completions ?s"
    by (simp add: pop_current_def Let_def)
  ultimately show ?thesis
    using pop_commands [OF wf] pop_wf [OF wf] hd_commands [OF assms] by simp
qed

lemma clear_loop_calls:
  assumes "runner_wf r" "n \<le> queue_count r"
  shows "completions (clear_loop n r) = completions r @ concat (map cancel_calls (take n (commands r)))"
  using assms
proof (induction n arbitrary: r)
  case 0
  show ?case by simp
next
  case (Suc n)
  let ?s = "pop_current (cancel_current TrCancelled r)"
  have pos: "0 < queue_count r" using Suc.prems(2) by simp
  note s = cancel_then_pop [OF Suc.prems(1) pos]
  have "n \<le> queue_count ?s" using Suc.prems(2) by (simp add: pop_current_count)
  with Suc.IH [of ?s] s have "completions (clear_loop n ?s) = completions r @
      cancel_calls (hd (commands r)) @ concat (map cancel_calls (take n (tl (commands r))))" by simp
  moreover have "commands r \<noteq> []" using pos commands_empty_iff by force
  ultimately show ?case by (cases "commands r") simp_all
qed

text \<open>A short run used by the examples: the pairing command is queued and transmitted.\<close>

definition sample_run :: "runner_event list" where
  "sample_run = [EvEnqueue (''Whitelist Add Key'', VehicleSecurity, NoWakeSkip, 20000, 0,
      replicate 16 1, True, False, 3, Action), EvDrive 10 True SleepUnknown Written None]"

lemma sample_run_ok: "list_all event_ok sample_run"
  by (simp add: sample_run_def event_ok_def kBleUuidSize_def)

lemma sample_run_sent:
  "0 < queue_count (reached sample_run)" "payload_maybe_sent (current (reached sample_run))"
  "\<not> is_completed (current (reached sample_run))" "has_on_complete (current (reached sample_run))"
  by code_simp+

lemma sample_enqueue_ok: "list_all event_ok (take 1 sample_run)"
  by (simp add: sample_run_def event_ok_def kBleUuidSize_def)

subsection \<open>Properties\<close>

text \<open>A round never decides to transmit a mutating command whose payload carries the mark.\<close>

lemma marked_payload_not_sent:
  assumes "runner_inv r" and "drive now connected sleep result uu r = (SendCommandPayload, s)"
  shows "0 < queue_count (pop_finished r) \<and> \<not> is_completed (current (pop_finished r)) \<and>
    \<not> (cmd_effect (current (pop_finished r)) = Mutating \<and> payload_maybe_sent (current (pop_finished r)))"
proof -
  from drive_action [OF assms] obtain r1 where
    l: "live (pop_finished r)" "live r1" and
    t: "tick now connected (sleep = Awake) (sleep = Asleep) (pop_finished r) =
        (SendCommandPayload, r1)" by auto
  from tick_action(3,4) [OF l(1) t] liveD(3,4) [OF l(2)] liveD(2,3) [OF l(1)] show ?thesis
    by (auto simp: same_request_def head_ok_def)
qed

text \<open>Once a payload may have been sent, the current command keeps that mark through every event
  except an authenticated rejection that proves the payload unexecuted, as long as it stays the
  head.\<close>

theorem sent_mark_kept:
  assumes "list_all event_ok es" "r = reached es" "0 < queue_count r" "payload_maybe_sent (current r)"
    "\<not> drops_head e" "\<not> proves_unexecuted e" "queue_head (runner_step r e) = queue_head r"
  shows "payload_maybe_sent (current (runner_step r e))"
  using step_leads [of r e] reached_inv [OF assms(1)] assms by (auto simp: leads_def evolves_def)

theorem sent_mark_kept_witness:
  "payload_maybe_sent (current (runner_step (reached sample_run) (EvLinkLost ''lost'')))"
proof -
  have "queue_head (runner_step (reached sample_run) (EvLinkLost ''lost'')) =
      queue_head (reached sample_run)" by code_simp
  from sent_mark_kept [OF sample_run_ok refl sample_run_sent(1,2) _ _ this] show ?thesis by simp
qed

text \<open>A completed command's outcome is final: no event that leaves it at the head changes its
  success, failure information, text, terminal reason or state, nor calls a callback.\<close>

theorem outcome_final:
  assumes "list_all event_ok es" "r = reached es" "0 < queue_count r" "is_completed (current r)"
    "\<not> drops_head e" "queue_head (runner_step r e) = queue_head r"
  shows "outcome_of (current (runner_step r e)) = outcome_of (current r) \<and>
    completions (runner_step r e) = completions r"
  using step_leads [of r e] reached_inv [OF assms(1)] assms by (auto simp: leads_def evolves_def)

theorem outcome_final_witness:
  "let r = reached (sample_run @ [EvLinkLost ''lost'']) in
   outcome_of (current (runner_step r (EvComplete True [] False))) = outcome_of (current r)"
proof -
  let ?r = "reached (sample_run @ [EvLinkLost ''lost''])"
  have "list_all event_ok (sample_run @ [EvLinkLost ''lost''])"
    using sample_run_ok by (simp add: event_ok_def)
  moreover have "0 < queue_count ?r" "is_completed (current ?r)"
    "queue_head (runner_step ?r (EvComplete True [] False)) = queue_head ?r" by code_simp+
  ultimately show ?thesis
    using outcome_final [of "sample_run @ [EvLinkLost ''lost'']" ?r "EvComplete True [] False"]
    by (simp add: Let_def del: foldl_append)
qed

text \<open>C17: Failure outcomes are honest: in every reachable state, a queued command that failed while its
  payload may have been sent reports that it may have succeeded, and its text says so first.\<close>

theorem uncertain_outcome_reported:
  assumes "list_all event_ok es" "c \<in> set (commands (reached es))"
    "is_completed c" "\<not> is_success c" "payload_maybe_sent c"
  shows "execution_uncertain (cmd_failure c) \<and>
    take (length uncertain_command_reason) (error_message c) = uncertain_command_reason"
  using reached_commands(2) [OF assms(1,2)] assms(3-5)
  by (simp add: honest_def execution_uncertain_def)

theorem uncertain_outcome_reported_witness:
  "execution_uncertain (cmd_failure (current (reached (sample_run @ [EvLinkLost ''lost'']))))"
proof -
  let ?es = "sample_run @ [EvLinkLost ''lost'']"
  have ok: "list_all event_ok ?es" using sample_run_ok by (simp add: event_ok_def)
  have "commands (reached ?es) = [current (reached ?es)]" "is_completed (current (reached ?es))"
    "\<not> is_success (current (reached ?es))" "payload_maybe_sent (current (reached ?es))" by code_simp+
  then show ?thesis using uncertain_outcome_reported [OF ok, of "current (reached ?es)"] by simp
qed

text \<open>No command is retried more often than allowed and no retry delay exceeds five seconds.\<close>

theorem retries_bounded:
  assumes "list_all event_ok es" "c \<in> set (commands (reached es))"
  shows "retry_count c \<le> max_retries c \<and> next_retry_delay_ms c \<le> 5000"
  using reached_commands(1) [OF assms] by (simp add: head_ok_def kMaxRetryDelayMs_def)

theorem retries_bounded_witness: "retry_count (current (reached sample_run)) \<le> 3"
proof -
  have "commands (reached sample_run) = [current (reached sample_run)]"
    "max_retries (current (reached sample_run)) = 3" by code_simp+
  then show ?thesis using retries_bounded [OF sample_run_ok, of "current (reached sample_run)"] by simp
qed

text \<open>That a command has confirmed the car awake: it did before, or the car is reported awake while
  the command waits for its wake.\<close>

definition awake_confirmed :: "bool \<Rightarrow> command_request \<Rightarrow> bool" where
  "awake_confirmed awake c \<longleftrightarrow>
     wake_confirmed c \<or> (awake \<and> (cmd_state c = StWaitingWake \<or> cmd_phase c = PhEnsuringAwake))"

text \<open>C30: The tick transmits only while connected and only what the prerequisites allow: a session
  request when that session is missing; a wake only for an Infotainment command whose policy is to
  wake, that has not confirmed the car awake, when the car is reported asleep or is not known awake;
  the payload of a VehicleSecurity command, whether or not the car sleeps, only with the VCSEC
  session, the pairing command excepted; the payload of an Infotainment command only with both
  sessions, to a car reported asleep only after the command has confirmed it awake, and under the
  waking policy only to a car known awake or confirmed.\<close>

theorem tick_respects_prerequisites:
  assumes "list_all event_ok es" "r = reached es" "tick now connected awake asleep r = (a, s)" "a \<noteq> TxNone"
    "c = current r"
  shows "connected \<and> (case a of
      SendVcsecSessionInfoRequest \<Rightarrow> \<not> is_authenticated (vcsec_session r)
    | SendWake \<Rightarrow> cmd_domain c = Infotainment \<and> cmd_wake_policy c = WakeIfNeeded \<and>
        is_authenticated (vcsec_session r) \<and> \<not> awake_confirmed awake c \<and> (asleep \<or> \<not> awake)
    | SendInfoSessionInfoRequest \<Rightarrow> cmd_domain c = Infotainment \<and>
        is_authenticated (vcsec_session r) \<and> \<not> is_authenticated (info_session r) \<and>
        (awake_confirmed awake c \<or> \<not> asleep) \<and>
        (awake_confirmed awake c \<or> awake \<or> cmd_wake_policy c \<noteq> WakeIfNeeded)
    | SendCommandPayload \<Rightarrow>
        (cmd_domain c = VehicleSecurity \<and> cmd_name c = ''Whitelist Add Key'') \<or>
        (is_authenticated (vcsec_session r) \<and>
         (cmd_domain c = VehicleSecurity \<or> (cmd_domain c = Infotainment \<and>
          is_authenticated (info_session r) \<and> (awake_confirmed awake c \<or> \<not> asleep) \<and>
          (awake_confirmed awake c \<or> awake \<or> cmd_wake_policy c \<noteq> WakeIfNeeded))))
    | TxNone \<Rightarrow> False)"
proof -
  have "0 < queue_count r" "\<not> is_completed (current r)"
    using assms(3,4) by (auto simp: tick_def split: if_splits)
  then have r: "live r" using reached_inv [OF assms(1)] assms(2) by (simp add: live_def)
  obtain x t where xt: "tick_stages now connected awake asleep r = (x, t)" by fastforce
  from r xt show ?thesis
  proof (cases rule: tick_reaches_progress)
    case early
    with assms(3,4) xt r show ?thesis by (simp add: tick_def live_def)
  next
    case (progress p)
    have x: "x = Some a" "t = s"
      using tick_progress_inv [OF progress(1,11,2)] assms(3) xt r
      by (auto simp: tick_def live_def split: option.splits)
    note lp = liveD [OF progress(1)]
    have same: "cmd_domain (current p) = cmd_domain c" "cmd_name (current p) = cmd_name c"
      "cmd_wake_policy (current p) = cmd_wake_policy c"
      using progress(7) assms(5) by (auto simp: same_request_def)
    have w: "wake_confirmed (current p) = awake_confirmed awake c"
      using progress(12) assms(5) by (simp add: awake_confirmed_def)
    from progress(2) [unfolded x] assms(4) lp(6) progress(3,5,6) same w show ?thesis
      by (auto simp: tick_progress_def Let_def await_step_def emit_payload_def
          split: if_splits wake_policy.splits)
  qed
qed

theorem tick_respects_prerequisites_witness:
  "is_authenticated (vcsec_session (reached (take 1 sample_run))) \<or>
   cmd_name (current (reached (take 1 sample_run))) = ''Whitelist Add Key''"
proof -
  have "tick 10 True False False (reached (take 1 sample_run)) =
      (SendCommandPayload, snd (tick 10 True False False (reached (take 1 sample_run))))" by code_simp
  from tick_respects_prerequisites [OF sample_enqueue_ok refl this _ refl] show ?thesis by auto
qed

text \<open>Dispatcher slots do not leak: in every reachable state at most one registration is active, and
  every active one is the current command's, which is then waiting for its response.\<close>

theorem no_dispatcher_leak:
  assumes "list_all event_ok es" "r = reached es" "s \<in> set (slots (dispatcher_of r))" "slot_active s"
  shows "active_count (dispatcher_of r) = 1 \<and> 0 < queue_count r \<and>
    slot_id s = dispatcher_request_id (current r) \<and> cmd_state (current r) = StAwaitingResponse"
proof -
  have inv: "runner_inv r" using reached_inv [OF assms(1)] assms(2) by simp
  then have d: "dispatcher_inv (dispatcher_of r)" "linked (dispatcher_of r) (head_id (commands r))"
    by (auto simp: runner_inv_def commands_ok_def)
  have "slot_id s \<noteq> 0" using d(1) assms(3,4) by (auto simp: dispatcher_inv_def slot_wf_def list_all_iff)
  moreover have "slot_id s = head_id (commands r)" using d(2) assms(3,4) by (simp add: linked_def)
  ultimately have "commands r \<noteq> []" by (auto simp: head_id_def)
  then have pos: "0 < queue_count r" using commands_empty_iff by blast
  note h = runner_inv_current [OF inv pos]
  from h(4) assms(3,4) have "slot_id s = dispatcher_request_id (current r)" by (simp add: linked_def)
  with h pos \<open>slot_id s \<noteq> 0\<close> show ?thesis by (auto simp: linked_def head_ok_def)
qed

theorem no_dispatcher_leak_witness:
  "active_count (dispatcher_of (reached sample_run)) = 1"
proof -
  have "slots (dispatcher_of (reached sample_run)) ! 0 \<in> set (slots (dispatcher_of (reached sample_run)))"
    "slot_active (slots (dispatcher_of (reached sample_run)) ! 0)"
    by (rule nth_mem) code_simp+
  from no_dispatcher_leak [OF sample_run_ok refl this] show ?thesis by blast
qed

text \<open>A response changes the current command only when it is routed to that command's own
  registration, and then the command was waiting for a response and is completed by it.\<close>

theorem response_completes_only_waiting:
  assumes "list_all event_ok es" "r = reached es" "0 < queue_count r"
    "handle_response dmn u len ctr ok err rej r = (out, s)"
  shows "current s = current r \<or>
    (routed out \<and> outcome_request_id out = dispatcher_request_id (current r) \<and>
     cmd_state (current r) = StAwaitingResponse \<and> \<not> is_completed (current r) \<and>
     is_completed (current s) \<and> dispatcher_request_id (current s) = 0)"
proof -
  have inv: "runner_inv r" using reached_inv [OF assms(1)] assms(2) by simp
  from inv assms(4) show ?thesis
  proof (cases rule: handle_response_cases)
    case unrelated
    then show ?thesis by (simp add: current_def)
  next
    case (answers q fok m t i)
    note h = runner_inv_current(1) [OF inv assms(3)]
    have "is_completed (current s) \<and> dispatcher_request_id (current s) = 0"
      unfolding answers(8) using liveD(3,6) [OF answers(7)]
      by (simp add: finish_command_current finished_def Let_def)
    with answers(1-5) h show ?thesis by (auto simp: head_ok_def)
  qed
qed

theorem response_completes_only_waiting_witness:
  "let s = snd (handle_response VehicleSecurity None 0 None True [] False (reached sample_run)) in
   is_completed (current s) \<and> dispatcher_request_id (current s) = 0"
proof -
  let ?r = "reached sample_run"
  let ?s = "snd (handle_response VehicleSecurity None 0 None True [] False ?r)"
  have "is_completed (current ?s)" by code_simp
  with response_completes_only_waiting [OF sample_run_ok refl sample_run_sent(1) prod.collapse [symmetric],
      of VehicleSecurity None 0 None True "[]" False] sample_run_sent(3)
  show ?thesis by (auto simp: Let_def)
qed

text \<open>The runner is a first-in first-out queue of at most eight commands: an enqueue is accepted
  exactly when fewer are queued, an accepted one is appended untouched behind all others, a refused
  one changes nothing, a pop removes the oldest, and eight pops empty it.\<close>

theorem runner_is_fifo:
  assumes "list_all event_ok es" "r = reached es"
  shows "(fst (enqueue_args x r) \<noteq> 0 \<longleftrightarrow> length (commands r) < 8) \<and>
    commands (snd (enqueue_args x r)) = commands r @
      (if length (commands r) < 8 then [fresh_command x (next_cmd_id r)] else []) \<and>
    commands (pop_current r) = tl (commands r) \<and> commands ((pop_current ^^ 8) r) = []"
proof -
  have wf: "runner_wf r" using reached_inv [OF assms(1)] assms(2) by (simp add: runner_inv_def)
  have k: "kMaxQueueSize = 8" by (simp add: kMaxQueueSize_def)
  show ?thesis
    using runner_queue.push_accepted_iff [OF wf, of x] runner_queue.push_ok [OF wf, of x]
      runner_queue.push_full [OF wf, of x] runner_queue.pop_items [OF wf] runner_queue.drains [OF wf]
    unfolding k by auto
qed

theorem runner_is_fifo_witness:
  "commands (pop_current (reached sample_run)) = tl (commands (reached sample_run))"
  using runner_is_fifo [OF sample_run_ok refl] by blast

text \<open>Clearing the queue completes every command that is not completed yet as cancelled, calling
  its callback exactly once and in queue order, and leaves the queue empty.\<close>

theorem clear_cancels_all:
  assumes "list_all event_ok es" "r = reached es"
  shows "completions (clear_runner r) = completions r @ concat (map cancel_calls (commands r)) \<and>
    commands (clear_runner r) = []"
proof -
  have wf: "runner_wf r" using reached_inv [OF assms(1)] assms(2) by (simp add: runner_inv_def)
  from clear_loop_calls [OF wf order_refl] show ?thesis
    using commands_empty_iff [of "clear_runner r"] by (simp add: clear_runner_def)
qed

theorem clear_cancels_all_witness:
  "completions (clear_runner (reached sample_run)) = concat (map cancel_calls (commands (reached sample_run)))"
proof -
  have "completions (reached sample_run) = []" by code_simp
  with clear_cancels_all [OF sample_run_ok refl] show ?thesis by simp
qed

end
