(* ===== verification/RunnerHistory.thy ===== *)
theory RunnerHistory
  imports RunnerProps "HOL-Library.Sublist"
begin

text \<open>
  What a run of the command runner did, told over its events: which commands were accepted, which
  have left the queue and how, which payload was handed to the BLE transport for which command.
  Commands are counted in the order of their acceptance, so a command has one number for its whole
  life. Proved over these histories: a mutating payload is handed over twice only after an
  authenticated fault has proved the first one unexecuted, every command's callback is called
  exactly when the command completes, and a queue past its deadlines drains.
\<close>

subsection \<open>Histories\<close>

fun collected :: "(command_runner \<Rightarrow> runner_event \<Rightarrow> 'a list) \<Rightarrow> command_runner \<Rightarrow> runner_event list \<Rightarrow> 'a list" where
  "collected f r [] = []"
| "collected f r (e # es) = f r e @ collected f (runner_step r e) es"

lemma collected_snoc [simp]:
  "collected f r (es @ [e]) = collected f r es @ f (foldl runner_step r es) e"
  by (induction es arbitrary: r) simp_all

text \<open>The commands an event accepts into the queue.\<close>

definition accepted_by :: "command_runner \<Rightarrow> runner_event \<Rightarrow> command_request list" where
  "accepted_by r e = (case e of
      EvEnqueue x \<Rightarrow> if fst (enqueue_args x r) \<noteq> 0 then [fresh_command x (next_cmd_id r)] else []
    | _ \<Rightarrow> [])"

text \<open>The commands that leave the queue with an event, in order and as they are when they leave:
  clearing cancels what is not completed, a round of the vehicle task pops completed commands that
  have no callback.\<close>

definition cancelled :: "command_request \<Rightarrow> command_request" where
  "cancelled c = (if is_completed c then c
     else finished False ''command cancelled'' TrCancelled temporary_failure c)"

definition gone_by_drive :: "u32 \<Rightarrow> bool \<Rightarrow> sleep_state \<Rightarrow> command_runner \<Rightarrow> command_request list" where
  "gone_by_drive now connected sleep r =
     (let q = pop_finished r; r1 = snd (tick now connected (sleep = Awake) (sleep = Asleep) q) in
      (if queue_count q < queue_count r then [current r] else []) @
      (if queue_count q \<noteq> 0 \<and> is_completed (current r1) \<and> \<not> has_on_complete (current r1)
       then [current r1] else []))"

definition gone_by :: "command_runner \<Rightarrow> runner_event \<Rightarrow> command_request list" where
  "gone_by r e = (case e of
      EvPop \<Rightarrow> take 1 (commands r)
    | EvClear \<Rightarrow> map cancelled (commands r)
    | EvReset b \<Rightarrow> map cancelled (commands r)
    | EvDrive now connected sleep result uu \<Rightarrow> gone_by_drive now connected sleep r
    | _ \<Rightarrow> [])"

definition accepted_commands :: "runner_event list \<Rightarrow> command_request list" where
  "accepted_commands es = collected accepted_by new_runner es"

definition gone :: "runner_event list \<Rightarrow> command_request list" where
  "gone es = collected gone_by new_runner es"

text \<open>All commands of a run, by number: those that left the queue and those still in it.\<close>

definition all_commands :: "runner_event list \<Rightarrow> command_request list" where
  "all_commands es = gone es @ commands (reached es)"

definition identity :: "command_request \<Rightarrow> u32 \<times> bool" where
  "identity c = (cmd_id c, has_on_complete c)"

definition callback_calls :: "command_request \<Rightarrow> completion list" where
  "callback_calls c = (if is_completed c \<and> has_on_complete c then [callback_of c] else [])"

lemma evolves_calls: "evolves p c d log \<Longrightarrow> callback_calls d = callback_calls c @ log"
  by (auto simp: evolves_def callback_calls_def outcome_of_def callback_of_def)

lemma evolves_identity: "evolves p c d log \<Longrightarrow> identity d = identity c"
  by (simp add: evolves_def identity_def)

subsection \<open>Operations that touch only the head\<close>

definition touches :: "command_runner \<Rightarrow> command_runner \<Rightarrow> bool" where
  "touches r s \<longleftrightarrow> queue_head s = queue_head r \<and> queue_count s = queue_count r \<and>
     (\<exists>c. queue s = (queue r)[queue_head r := c])"

lemma touches_refl: "touches r r"
  unfolding touches_def by (metis list_update_id)

lemma touches_trans: "touches r s \<Longrightarrow> touches s t \<Longrightarrow> touches r t"
  unfolding touches_def by (metis list_update_overwrite)

lemma touches_same:
  "queue s = queue r \<Longrightarrow> queue_head s = queue_head r \<Longrightarrow> queue_count s = queue_count r \<Longrightarrow> touches r s"
  unfolding touches_def by (metis list_update_id)

lemma touches_upd: "touches r (upd_current f r)"
  unfolding touches_def by auto

lemma touches_unregister: "touches r (unregister_current r)"
proof -
  have "touches r (r\<lparr>dispatcher_of := d\<rparr>)" for d by (intro touches_same) simp_all
  then show ?thesis
    using touches_trans [OF _ touches_upd] touches_refl by (simp add: unregister_current_def)
qed

lemma touches_completions: "touches r (r\<lparr>completions := l\<rparr>)"
  by (intro touches_same) simp_all

lemma touches_finish: "touches r (finish_command ok err reason info r)"
proof -
  have "touches r (upd_current g (unregister_current (upd_current f r)))" for f g
    by (intro touches_trans [OF touches_trans [OF touches_upd touches_unregister] touches_upd])
  with touches_trans [OF this touches_completions] touches_refl show ?thesis
    by (simp add: finish_command_def Let_def)
qed

lemma touches_register: "touches r (register_current r)"
proof -
  have "touches r (upd_current f (r\<lparr>dispatcher_of := d\<rparr>))" for f d
    by (rule touches_trans [OF touches_same touches_upd]) simp_all
  then show ?thesis by (simp add: register_current_def Let_def touches_refl split: prod.split)
qed

lemma touches_schedule_retry: "touches r (schedule_retry now r)"
  unfolding schedule_retry_def by (rule touches_trans [OF touches_upd touches_unregister])

lemmas touches_rules = touches_refl touches_upd touches_finish touches_unregister
  touches_register touches_schedule_retry touches_trans [OF touches_upd touches_unregister]
  touches_trans [OF touches_finish touches_upd] touches_trans [OF touches_upd touches_finish]
  touches_trans [OF touches_upd touches_schedule_retry] touches_trans [OF touches_upd touches_upd]
  touches_trans [OF touches_upd touches_register]

lemma touches_fall_through:
  assumes "\<And>r. touches r (snd (f r))" "\<And>r. touches r (snd (g r))"
  shows "touches r (snd (fall_through f g r))"
proof -
  obtain x s where eq: "fall_through f g r = (x, s)" by fastforce
  from eq show ?thesis
  proof (cases rule: fall_through_cases)
    case (returned y)
    with assms(1) [of r] eq show ?thesis by simp
  next
    case (continued t)
    with assms(1) [of r] assms(2) [of t] eq show ?thesis by (auto intro: touches_trans)
  qed
qed

lemma touches_tick: "touches r (snd (tick now connected awake asleep r))"
proof -
  have "touches r (snd (tick_stages now connected awake asleep r))" for r
    unfolding tick_stages_def
    by (intro touches_fall_through)
      (simp_all add: tick_deadline_def tick_backoff_def tick_response_def tick_awake_def tick_step_def
        tick_progress_def await_step_def emit_payload_def finish_none_def Let_def touches_rules
        split: wake_policy.split)
  from this [of r] show ?thesis
    by (auto simp: tick_def touches_refl split: prod.split option.split)
qed

lemma touches_tx_started: "touches r (notify_tx_started a r)"
  by (simp add: notify_tx_started_def touches_rules)

lemma touches_tx_failed: "touches r (notify_tx_failed m now b r)"
  by (simp add: notify_tx_failed_def Let_def touches_rules)

lemma touches_tx_complete: "touches r (notify_tx_complete a now r)"
proof -
  have u: "touches r (upd_current f (notify_tx_started b r))" for f b
    by (rule touches_trans [OF touches_tx_started touches_upd])
  show ?thesis
    using u touches_trans [OF u touches_finish] touches_trans [OF u touches_trans [OF touches_upd touches_register]]
      touches_refl
    by (simp add: notify_tx_complete_def Let_def)
qed

lemma touches_transmit: "touches r (transmit a result uu now r)"
proof -
  define q where "q = (case uu of Some u \<Rightarrow> if a = SendCommandPayload
      then upd_current (\<lambda>c. c\<lparr>cmd_uuid := u\<rparr>) r else r | None \<Rightarrow> r)"
  have q: "touches r q" by (auto simp: q_def touches_rules split: option.split)
  have "touches q (notify_tx_failed m now b q)"
    "touches q (notify_tx_failed m now b (notify_tx_started a q))"
    "touches q (notify_tx_complete a now (notify_tx_started a q))" for m b
    using touches_tx_failed touches_trans [OF touches_tx_started touches_tx_failed]
      touches_trans [OF touches_tx_started touches_tx_complete] by auto
  then show ?thesis
    using touches_trans [OF q]
    by (simp add: transmit_def Let_def q_def [symmetric] split: tx_result.split)
qed

lemma touches_commands:
  assumes "runner_wf r" "0 < queue_count r" "touches r s"
  shows "commands s = current s # tl (commands r)"
proof -
  from assms(3) obtain c where s: "queue s = (queue r)[queue_head r := c]"
    "queue_head s = queue_head r" "queue_count s = queue_count r" unfolding touches_def by auto
  have "current s = c" using s assms(1) by (simp add: current_def runner_wf_def)
  moreover have "commands s = commands (r\<lparr>queue := (queue r)[queue_head r := c]\<rparr>)"
    using s by (intro commands_cong) simp_all
  ultimately show ?thesis using commands_head_update [OF assms(1,2)] by simp
qed

subsection \<open>The callback log and the queue after each event\<close>

text \<open>From \<open>r\<close> to \<open>s\<close> with these commands gone: the callbacks called in between are exactly
  those of the commands completed in between, and every command is still the one it was.\<close>

definition records :: "command_runner \<Rightarrow> command_request list \<Rightarrow> command_runner \<Rightarrow> bool" where
  "records r gs s \<longleftrightarrow> (\<exists>log. completions s = completions r @ log \<and>
     concat (map callback_calls (gs @ commands s)) = concat (map callback_calls (commands r)) @ log \<and>
     map identity (gs @ commands s) = map identity (commands r))"

lemma records_refl: "records r [] r"
  by (simp add: records_def)

lemma records_trans: "records r gs s \<Longrightarrow> records s hs t \<Longrightarrow> records r (gs @ hs) t"
  by (auto simp: records_def)

lemma records_count: "records r gs s \<Longrightarrow> length gs + queue_count s = queue_count r"
  unfolding records_def by (metis length_append length_commands length_map)

lemma records_same:
  "completions s = completions r \<Longrightarrow> commands s = commands r \<Longrightarrow> records r [] s"
  by (simp add: records_def)

lemma runner_wf_inv: "runner_inv r \<Longrightarrow> runner_wf r"
  by (simp add: runner_inv_def)

lemma commands_split:
  assumes "runner_wf r" "0 < queue_count r"
  shows "commands r = current r # tl (commands r)"
  using hd_commands [OF assms] commands_empty_iff [of r] assms(2) by (cases "commands r") auto

lemma waiting_calls:
  assumes "runner_inv r"
  shows "list_all pristine (tl (commands r))" "concat (map callback_calls (tl (commands r))) = []"
proof -
  show p: "list_all pristine (tl (commands r))"
    using assms by (simp add: runner_inv_def commands_ok_def)
  then show "concat (map callback_calls (tl (commands r))) = []"
    by (auto simp: list_all_iff pristine_def callback_calls_def)
qed

lemma records_touches:
  assumes inv: "runner_inv r" and pos: "0 < queue_count r" and t: "touches r s" and l: "leads p r s"
  shows "records r [] s"
proof -
  obtain log where log: "completions s = completions r @ log" "evolves p (current r) (current s) log"
    using l unfolding leads_def by auto
  note r = commands_split [OF runner_wf_inv [OF inv] pos]
  note s = touches_commands [OF runner_wf_inv [OF inv] pos t]
  have "concat (map callback_calls (commands s)) = concat (map callback_calls (commands r)) @ log"
    using evolves_calls [OF log(2)] waiting_calls(2) [OF inv] s r
    by (metis (no_types, lifting) append.right_neutral concat.simps(2) list.simps(9))
  moreover have "map identity (commands s) = map identity (commands r)"
    using evolves_identity [OF log(2)] s r by (metis list.simps(9))
  ultimately show ?thesis using log(1) unfolding records_def by (intro exI [of _ log]) simp
qed

lemma records_pop:
  assumes inv: "runner_inv r" and pos: "0 < queue_count r"
  shows "records r [current r] (pop_current r)"
proof -
  have "commands (pop_current r) = tl (commands r)" by (rule pop_commands [OF runner_wf_inv [OF inv]])
  moreover have "completions (pop_current r) = completions r"
    by (simp add: pop_current_def Let_def)
  ultimately show ?thesis
    using commands_split [OF runner_wf_inv [OF inv] pos]
    unfolding records_def by (intro exI [of _ "[]"]) (metis append.right_neutral append_Cons append_Nil)
qed

lemma cancelled_calls: "callback_calls (cancelled c) = callback_calls c @ cancel_calls c"
  by (simp add: cancelled_def callback_calls_def cancel_calls_def finished_def Let_def)

lemma cancelled_identity: "identity (cancelled c) = identity c"
  by (simp add: cancelled_def identity_def finished_def Let_def)

lemma cleared_calls:
  assumes "runner_inv r"
  shows "concat (map callback_calls (map cancelled (commands r))) =
    concat (map callback_calls (commands r)) @ concat (map cancel_calls (commands r))"
proof (cases "queue_count r = 0")
  case True
  then show ?thesis using commands_empty_iff [of r] by simp
next
  case False
  then have pos: "0 < queue_count r" by simp
  note cs = commands_split [OF runner_wf_inv [OF assms] pos]
  have none: "concat (map callback_calls (map cancelled xs)) = concat (map cancel_calls xs)"
    if "concat (map callback_calls xs) = []" for xs
    using that by (induction xs) (simp_all add: cancelled_calls)
  from none [OF waiting_calls(2) [OF assms]] waiting_calls(2) [OF assms] cs show ?thesis
    by (metis (no_types, lifting) append.assoc append_Nil2 cancelled_calls concat.simps(2) list.simps(9))
qed

lemma records_clear:
  assumes "runner_inv r" "runner_wf q" "commands q = commands r" "completions q = completions r"
  shows "records r (map cancelled (commands r)) (clear_runner q)"
proof -
  have "commands (clear_runner q) = []"
    using commands_empty_iff [of "clear_runner q"] by (simp add: clear_runner_def)
  moreover have "completions (clear_runner q) = completions q @ concat (map cancel_calls (commands q))"
    using clear_loop_calls [OF assms(2) order_refl] by (simp add: clear_runner_def)
  ultimately show ?thesis
    using cleared_calls [OF assms(1)] assms(3,4) unfolding records_def
    by (intro exI [of _ "concat (map cancel_calls (commands r))"])
      (simp add: cancelled_identity comp_def)
qed

subsection \<open>A round of the vehicle task\<close>

lemma pop_finished_cases:
  obtains (same) "pop_finished r = r" "\<not> (0 < queue_count r \<and> is_completed (current r) \<and> \<not> has_on_complete (current r))"
  | (popped) "pop_finished r = pop_current r" "0 < queue_count r" "is_completed (current r)"
      "\<not> has_on_complete (current r)"
  by (cases "queue_count r \<noteq> 0 \<and> is_completed (current r) \<and> \<not> has_on_complete (current r)")
    (auto simp: pop_finished_def)

lemma drive_parts:
  fixes r now connected sleep
  defines "q \<equiv> pop_finished r"
  defines "r1 \<equiv> snd (tick now connected (sleep = Awake) (sleep = Asleep) q)"
  assumes inv: "runner_inv r"
  obtains (idle) "queue_count q = 0" "drive now connected sleep result uu r = (TxNone, q)"
  | (popped) "0 < queue_count q" "runner_inv r1" "touches q r1" "\<And>p. leads p q r1"
      "is_completed (current r1)" "\<not> has_on_complete (current r1)"
      "drive now connected sleep result uu r = (TxNone, pop_current r1)"
  | (kept) a s where "0 < queue_count q" "touches q s" "\<And>p. leads p q s"
      "\<not> (is_completed (current r1) \<and> \<not> has_on_complete (current r1))"
      "drive now connected sleep result uu r = (a, s)"
proof (cases "queue_count q = 0")
  case True
  then show ?thesis by (intro idle) (simp_all add: drive_def Let_def q_def)
next
  case False
  obtain a where t: "tick now connected (sleep = Awake) (sleep = Asleep) q = (a, r1)"
    unfolding r1_def by (metis prod.collapse)
  have iq: "runner_inv q" unfolding q_def by (rule pop_finished_inv [OF inv])
  have i1: "runner_inv r1" unfolding r1_def by (rule tick_inv [OF iq])
  have l1: "leads p q r1" for p unfolding r1_def by (rule tick_leads [OF iq])
  have t1: "touches q r1" unfolding r1_def by (rule touches_tick)
  have pos: "0 < queue_count q" using False by simp
  show ?thesis
  proof (cases "is_completed (current r1) \<and> \<not> has_on_complete (current r1)")
    case True
    with pos i1 t1 l1 show ?thesis
      by (intro popped) (use t in \<open>simp_all add: drive_def Let_def q_def [symmetric]\<close>)
  next
    case keep: False
    show ?thesis
    proof (cases "a = TxNone")
      case True
      with keep pos t1 l1 t show ?thesis
        by (intro kept [of r1 a]) (auto simp add: drive_def Let_def q_def [symmetric])
    next
      case False
      have "\<not> is_completed (current q)" using t False by (auto simp: tick_def)
      then have "live q" using iq pos by (simp add: live_def)
      from leads_transmit [OF tick_action(1) [OF this t False]] l1
      have "leads p q (transmit a result uu now r1)" for p using leads_trans by blast
      moreover have "touches q (transmit a result uu now r1)"
        by (rule touches_trans [OF t1 touches_transmit])
      ultimately show ?thesis using False keep pos t
        by (intro kept [of "transmit a result uu now r1" a])
          (simp_all add: drive_def Let_def q_def [symmetric])
    qed
  qed
qed

lemma records_pop_finished:
  assumes "runner_inv r"
  shows "records r (if queue_count (pop_finished r) < queue_count r then [current r] else []) (pop_finished r)"
proof (cases rule: pop_finished_cases [of r])
  case same
  then show ?thesis by (simp add: records_refl)
next
  case popped
  then have "queue_count (pop_finished r) < queue_count r" by (simp add: pop_current_count)
  with popped records_pop [OF assms popped(2)] show ?thesis by simp
qed

lemma records_drive:
  assumes inv: "runner_inv r"
  shows "records r (gone_by_drive now connected sleep r) (snd (drive now connected sleep result uu r))"
proof -
  let ?q = "pop_finished r"
  let ?r1 = "snd (tick now connected (sleep = Awake) (sleep = Asleep) ?q)"
  note r0 = records_pop_finished [OF inv]
  have iq: "runner_inv ?q" by (rule pop_finished_inv [OF inv])
  from inv show ?thesis
  proof (cases rule: drive_parts [where now = now and connected = connected and sleep = sleep
        and result = result and uu = uu])
    case idle
    with r0 show ?thesis by (simp add: gone_by_drive_def Let_def)
  next
    case popped
    have "0 < queue_count ?r1" using popped(1,3) by (simp add: touches_def)
    from records_pop [OF popped(2) this] records_touches [OF iq popped(1,3,4)]
    have "records ?q [current ?r1] (pop_current ?r1)" using records_trans by fastforce
    from records_trans [OF r0 this] popped show ?thesis by (simp add: gone_by_drive_def Let_def)
  next
    case (kept a s)
    from records_trans [OF r0 records_touches [OF iq kept(1,2,3)]] kept show ?thesis
      by (auto simp: gone_by_drive_def Let_def)
  qed
qed

subsection \<open>Every event\<close>

lemma identity_fresh: "identity (fresh_command x i) = (i, fst (snd (snd (snd (snd (snd (snd x)))))))"
  by (simp add: fresh_command_def identity_def split: prod.split)

text \<open>Events that find no command change neither the log nor the queue.\<close>

lemma step_idle:
  assumes "queue_count r = 0" "\<forall>x. e \<noteq> EvEnqueue x"
  shows "completions (runner_step r e) = completions r \<and> queue_count (runner_step r e) = 0"
proof (cases e)
  case (EvResponse dmn u len ctr ok err rej)
  with assms(1) show ?thesis
    by (simp add: runner_step_def handle_response_def Let_def split: prod.split)
next
  case (EvDrive now connected sleep result uu)
  with assms(1) show ?thesis by (simp add: runner_step_def drive_def pop_finished_def Let_def)
next
  case EvClear
  with assms(1) show ?thesis by (simp add: runner_step_def clear_runner_def)
next
  case (EvReset b)
  with assms(1) show ?thesis by (simp add: runner_step_def runner_reset_def clear_runner_def)
qed (use assms in \<open>auto simp: runner_step_def set_command_effect_def find_command_def commands_def
    pop_current_def cancel_current_def complete_current_command_def notify_vehicle_awake_def
    notify_link_lost_def notify_message_fault_def notify_signed_message_fault_def push_rx_chunk_def
    Let_def split: option.split prod.split\<close>)

lemma records_idle:
  assumes "queue_count r = 0" "\<forall>x. e \<noteq> EvEnqueue x"
  shows "records r (gone_by r e) (runner_step r e)"
proof -
  have "commands r = []" "commands (runner_step r e) = []"
    using assms(1) step_idle [OF assms] commands_empty_iff by auto
  moreover have "gone_by r e = []"
    using assms(1) \<open>commands r = []\<close> by (cases e) (simp_all add: gone_by_def gone_by_drive_def pop_finished_def)
  ultimately show ?thesis using step_idle [OF assms] by (simp add: records_def)
qed

lemma touches_handle_response: "touches r (snd (handle_response dmn u len ctr ok err rej r))"
proof -
  have d: "touches r (r\<lparr>dispatcher_of := d\<rparr>)" for d by (intro touches_same) simp_all
  note up = touches_trans [OF d touches_upd]
  show ?thesis
    using d touches_trans [OF d touches_finish] touches_trans [OF up touches_finish]
      touches_trans [OF touches_trans [OF up touches_upd] touches_finish]
    by (simp add: handle_response_def Let_def split_def)
qed

lemma touches_message_fault: "touches r (notify_message_fault d auth now r)"
  using touches_trans [OF touches_trans [OF touches_upd touches_upd] touches_schedule_retry]
  by (simp add: notify_message_fault_def Let_def touches_rules)

text \<open>What the events do that neither add nor remove a command.\<close>

fun head_event :: "runner_event \<Rightarrow> bool" where
  "head_event (EvCancel a) = True" | "head_event (EvComplete a b c) = True"
| "head_event (EvVehicleAwake a) = True" | "head_event (EvLinkLost a) = True"
| "head_event (EvFault a b c) = True" | "head_event (EvSignedFault a b) = True"
| "head_event (EvResponse a b c d f g h) = True" | "head_event (EvVcsecSession a) = True"
| "head_event (EvInfoSession a) = True" | "head_event (EvRxChunk a b) = True"
| "head_event e = False"

lemma touches_head_event: "head_event e \<Longrightarrow> touches r (runner_step r e)"
  by (cases e)
    (simp_all add: runner_step_def cancel_current_def complete_current_command_def
      notify_vehicle_awake_def notify_link_lost_def notify_signed_message_fault_def push_rx_chunk_def
      touches_rules touches_handle_response touches_message_fault touches_same Let_def
      split: prod.split)

lemma records_head_event:
  assumes "runner_inv r" "0 < queue_count r" "head_event e"
  shows "records r [] (runner_step r e)"
proof -
  note t = touches_head_event [OF assms(3), of r]
  moreover have "\<not> drops_head e" using assms(3) by (cases e) simp_all
  ultimately show ?thesis
    using step_leads [OF assms(1,2), of e] by (intro records_touches [OF assms(1,2) t]) (simp add: touches_def)
qed

lemma ring_view_effect:
  assumes "\<And>c. f (c\<lparr>cmd_effect := eff, cmd_outcome_policy := pol\<rparr>) = f c"
  shows "map f (ring_view h n (q[k := (q ! k)\<lparr>cmd_effect := eff, cmd_outcome_policy := pol\<rparr>])) =
    map f (ring_view h n q)"
  using assms by (cases "q = []"; cases "k < length q")
    (auto simp: ring_view_def nth_list_update list_update_beyond)

lemma set_effect_commands:
  assumes "\<And>c. f (c\<lparr>cmd_effect := eff, cmd_outcome_policy := pol\<rparr>) = f c"
  shows "map f (commands (snd (set_command_effect cid eff pol r))) = map f (commands r)"
  using ring_view_effect [of f, OF assms]
  by (simp add: set_command_effect_def commands_def split: option.split)

lemma records_set_effect: "records r [] (snd (set_command_effect cid eff pol r))"
proof -
  have "completions (snd (set_command_effect cid eff pol r)) = completions r"
    by (simp add: set_command_effect_def split: option.split)
  moreover have "map identity (commands (snd (set_command_effect cid eff pol r))) = map identity (commands r)"
    by (rule set_effect_commands) (simp add: identity_def)
  moreover have "map callback_calls (commands (snd (set_command_effect cid eff pol r))) =
      map callback_calls (commands r)"
    by (rule set_effect_commands) (simp add: callback_calls_def callback_of_def)
  ultimately show ?thesis by (simp add: records_def)
qed

lemma records_step:
  assumes "runner_inv r" "\<forall>x. e \<noteq> EvEnqueue x"
  shows "records r (gone_by r e) (runner_step r e)"
proof (cases "queue_count r = 0")
  case True
  then show ?thesis by (rule records_idle [OF _ assms(2)])
next
  case False
  then have pos: "0 < queue_count r" by simp
  note wf = runner_wf_inv [OF assms(1)]
  show ?thesis
  proof (cases "head_event e")
    case True
    moreover have "gone_by r e = []" using True by (cases e) (simp_all add: gone_by_def)
    ultimately show ?thesis using records_head_event [OF assms(1) pos] by simp
  next
    case not_head: False
    show ?thesis
    proof (cases e)
      case EvPop
      have "take 1 (commands r) = [current r]" using commands_split [OF wf pos]
        by (metis One_nat_def take_Suc_Cons take0)
      with EvPop records_pop [OF assms(1) pos] show ?thesis by (simp add: gone_by_def runner_step_def)
    next
      case EvClear
      with records_clear [OF assms(1) wf] show ?thesis by (simp add: gone_by_def runner_step_def)
    next
      case (EvReset b)
      let ?q = "r\<lparr>rx_framer_of := (if b then rx_reset (rx_framer_of r) else rx_framer_of r),
        dispatcher_of := dispatcher_reset (dispatcher_of r),
        vcsec_session := session_reset (vcsec_session r), info_session := session_reset (info_session r)\<rparr>"
      have "runner_wf ?q" "commands ?q = commands r" "completions ?q = completions r"
        using wf commands_cong [of ?q r] by (simp_all add: runner_wf_def)
      with EvReset records_clear [OF assms(1)] show ?thesis
        by (simp add: gone_by_def runner_step_def runner_reset_def)
    next
      case (EvDrive now connected sleep result uu)
      with records_drive [OF assms(1)] show ?thesis by (simp add: gone_by_def runner_step_def)
    next
      case (EvSetEffect cid eff pol)
      with records_set_effect show ?thesis by (simp add: gone_by_def runner_step_def)
    qed (use assms(2) not_head in simp_all)
  qed
qed

lemma gone_snoc: "gone (es @ [e]) = gone es @ gone_by (reached es) e"
  by (simp add: gone_def)

lemma accepted_commands_snoc: "accepted_commands (es @ [e]) = accepted_commands es @ accepted_by (reached es) e"
  by (simp add: accepted_commands_def)

lemma history_step:
  assumes "list_all event_ok es"
    and "completions (reached es) = concat (map callback_calls (all_commands es))"
    and "map identity (all_commands es) = map identity (accepted_commands es)"
  shows "completions (reached (es @ [e])) = concat (map callback_calls (all_commands (es @ [e]))) \<and>
    map identity (all_commands (es @ [e])) = map identity (accepted_commands (es @ [e]))"
proof -
  let ?r = "reached es"
  have inv: "runner_inv ?r" by (rule reached_inv [OF assms(1)])
  have next_state: "reached (es @ [e]) = runner_step ?r e" by simp
  show ?thesis
  proof (cases "\<exists>x. e = EvEnqueue x")
    case True
    then obtain x where e: "e = EvEnqueue x" by blast
    note wf = runner_wf_inv [OF inv]
    have log: "completions (snd (enqueue_args x ?r)) = completions ?r"
      by (cases "queue_count ?r < kMaxQueueSize") (simp_all add: enqueue_full enqueue_accepts)
    have fresh: "callback_calls (fresh_command x i) = []" for i
      by (simp add: callback_calls_def fresh_command_def default_command_def split: prod.split)
    have cs: "commands (snd (enqueue_args x ?r)) = commands ?r @ accepted_by ?r e"
    proof (cases "queue_count ?r < kMaxQueueSize")
      case True
      with enqueue_commands [OF wf True] fst_enqueue_args [OF wf, of x] e show ?thesis
        by (simp add: accepted_by_def)
    next
      case False
      with e show ?thesis by (simp add: accepted_by_def enqueue_full)
    qed
    have calls: "concat (map callback_calls (accepted_by ?r e)) = []"
      using fresh e by (simp add: accepted_by_def)
    have "gone_by ?r e = []" using e by (simp add: gone_by_def)
    then have "all_commands (es @ [e]) = all_commands es @ accepted_by ?r e"
      using cs e by (simp add: all_commands_def gone_snoc runner_step_def)
    with assms(2,3) calls log e show ?thesis by (simp add: accepted_commands_snoc runner_step_def)
  next
    case False
    have "accepted_by ?r e = []"
    proof (cases e)
      case (EvEnqueue x)
      with False show ?thesis by blast
    qed (simp_all add: accepted_by_def)
    moreover from records_step [OF inv, of e] False have "records ?r (gone_by ?r e) (runner_step ?r e)" by blast
    ultimately show ?thesis
      using assms(2,3) by (auto simp: records_def all_commands_def gone_snoc accepted_commands_snoc)
  qed
qed

lemma history_exact:
  assumes "list_all event_ok es"
  shows "completions (reached es) = concat (map callback_calls (all_commands es)) \<and>
    map identity (all_commands es) = map identity (accepted_commands es)"
  using assms
proof (induction es rule: rev_induct)
  case Nil
  show ?case
    by (simp add: all_commands_def gone_def accepted_commands_def commands_def new_runner_def)
next
  case (snoc e es)
  then show ?case using history_step [of es e] by (simp del: foldl_append)
qed

subsection \<open>Payloads handed to the transport\<close>

text \<open>The number of the command whose payload the next event hands to the BLE transport: a round
  that decides to send it and whose frame is written, completely or not.\<close>

definition payload_handed :: "runner_event list \<Rightarrow> runner_event \<Rightarrow> nat option" where
  "payload_handed es e = (case e of
      EvDrive now connected sleep result uu \<Rightarrow>
        let r = reached es in
        if result \<in> {WriteFailed, Written} \<and>
           fst (drive now connected sleep result uu r) = SendCommandPayload
        then Some (length (gone es) + (queue_count r - queue_count (pop_finished r))) else None
    | _ \<Rightarrow> None)"

lemma payload_handedE:
  assumes "payload_handed es e = Some k"
  obtains now connected sleep result uu s where "e = EvDrive now connected sleep result uu"
    "result \<in> {WriteFailed, Written}"
    "drive now connected sleep result uu (reached es) = (SendCommandPayload, s)"
    "k = length (gone es) + (queue_count (reached es) - queue_count (pop_finished (reached es)))"
proof -
  obtain now connected sleep result uu where e: "e = EvDrive now connected sleep result uu"
    using assms by (cases e) (auto simp: payload_handed_def)
  obtain a s where d: "drive now connected sleep result uu (reached es) = (a, s)" by fastforce
  with e assms have "result \<in> {WriteFailed, Written}" "a = SendCommandPayload"
    "k = length (gone es) + (queue_count (reached es) - queue_count (pop_finished (reached es)))"
    by (auto simp: payload_handed_def Let_def split: if_splits)
  with d e that show thesis by blast
qed

text \<open>An authenticated fault that proves the payload of the head command was not executed.\<close>

fun proving_fault :: "runner_event \<Rightarrow> bool" where
  "proving_fault (EvFault d auth now) = (auth \<and> fd_known d \<and> \<not> fd_possible_success d)"
| "proving_fault e = False"

definition settled_or_marked :: "command_request \<Rightarrow> bool" where
  "settled_or_marked c \<longleftrightarrow> payload_maybe_sent c \<or> is_completed c"

lemma leads_settled:
  assumes "leads False r s" "settled_or_marked (current r)"
  shows "settled_or_marked (current s)"
  using assms by (auto simp: leads_def evolves_def settled_or_marked_def outcome_of_def)

lemma transmit_marks:
  assumes r: "live r" and res: "result \<in> {WriteFailed, Written}"
  shows "settled_or_marked (current (transmit SendCommandPayload result uu now r))"
proof -
  define q where "q = (case uu of Some u \<Rightarrow> upd_current (\<lambda>c. c\<lparr>cmd_uuid := u\<rparr>) r | None \<Rightarrow> r)"
  let ?s = "upd_current (started SendCommandPayload) q"
  have lt: "queue_head q < length (queue q)" and nc: "\<not> is_completed (current q)" "queue_count q \<noteq> 0"
    using liveD [OF r] by (auto simp: q_def split: option.split)
  have st: "notify_tx_started SendCommandPayload q = ?s"
    using nc by (auto simp: notify_tx_started_def upd_current_def current_def started_def)
  have mark: "settled_or_marked (current ?s)"
    using lt by (simp add: settled_or_marked_def started_def)
  have again: "upd_current (started SendCommandPayload) ?s = ?s"
    using lt by (simp add: upd_upd started_def)
  have "leads False ?s (notify_tx_failed m now b ?s)" for m b
    by (rule leads_tx_failed) (use lt in simp)
  moreover have "leads False ?s (notify_tx_complete SendCommandPayload now ?s)"
    using leads_tx_complete' [of ?s False SendCommandPayload now] lt nc by (simp add: again started_def)
  moreover have "transmit SendCommandPayload result uu now r =
      (if result = Written then notify_tx_complete SendCommandPayload now (notify_tx_started SendCommandPayload q)
       else notify_tx_failed ''BLE write failed'' now False (notify_tx_started SendCommandPayload q))"
    using res by (auto simp: transmit_def Let_def q_def split: option.split)
  ultimately show ?thesis using leads_settled [OF _ mark] by (simp add: st)
qed

lemma drive_marks:
  assumes inv: "runner_inv r" and res: "result \<in> {WriteFailed, Written}"
    and eq: "drive now connected sleep result uu r = (SendCommandPayload, s)"
  shows "settled_or_marked (current s)" "0 < queue_count s" "queue_count s = queue_count (pop_finished r)"
    "length (gone_by_drive now connected sleep r) = queue_count r - queue_count (pop_finished r)"
proof -
  from drive_action [OF inv eq] obtain r1 where
    l: "live (pop_finished r)" "live r1" and s: "s = transmit SendCommandPayload result uu now r1" and
    t: "tick now connected (sleep = Awake) (sleep = Asleep) (pop_finished r) = (SendCommandPayload, r1)" by auto
  show "settled_or_marked (current s)" unfolding s by (rule transmit_marks [OF l(2) res])
  show c: "queue_count s = queue_count (pop_finished r)"
    using touches_transmit [of r1 SendCommandPayload result uu now]
      touches_tick [of "pop_finished r" now connected "sleep = Awake" "sleep = Asleep"] t s
    by (simp add: touches_def)
  then show "0 < queue_count s" using liveD(2) [OF l(1)] by simp
  show "length (gone_by_drive now connected sleep r) = queue_count r - queue_count (pop_finished r)"
    using records_count [OF records_drive [OF inv, of now connected sleep result uu]] eq c by simp
qed

text \<open>One event further: unless it is a proving fault, the command at the head stays marked or is
  completed, or it has left the queue.\<close>

lemma response_settles:
  assumes inv: "runner_inv r" and pos: "0 < queue_count r" and s: "settled_or_marked (current r)"
  shows "settled_or_marked (current (snd (handle_response dmn u len ctr ok err rej r)))"
proof -
  obtain out t where eq: "handle_response dmn u len ctr ok err rej r = (out, t)" by fastforce
  from inv eq have "settled_or_marked (current t)"
  proof (cases rule: handle_response_cases)
    case unrelated
    with s show ?thesis by (simp add: current_def)
  next
    case (answers q fok m tr i)
    show ?thesis unfolding answers(8) using liveD(3,6) [OF answers(7)]
      by (simp add: settled_or_marked_def finish_command_current finished_def Let_def)
  qed
  with eq show ?thesis by simp
qed

lemma settled_step:
  assumes inv: "runner_inv r" and pos: "0 < queue_count r" and none: "gone_by r e = []"
    and s: "settled_or_marked (current r)" and quiet: "\<not> proving_fault e"
  shows "0 < queue_count (runner_step r e)" "settled_or_marked (current (runner_step r e))"
proof -
  note ne = commands_split [OF runner_wf_inv [OF inv] pos]
  have keep: "\<not> drops_head e"
    using none ne by (cases e) (auto simp: gone_by_def)
  have head: "queue_head (runner_step r e) = queue_head r \<and> 0 < queue_count (runner_step r e)"
  proof (cases e)
    case (EvEnqueue x)
    then show ?thesis using pos by (cases "queue_count r < kMaxQueueSize")
      (simp_all add: runner_step_def enqueue_accepts enqueue_full)
  next
    case (EvSetEffect cid eff pol)
    then show ?thesis using pos by (simp add: runner_step_def set_command_effect_def split: option.split)
  next
    case (EvDrive now connected sleep result uu)
    let ?q = "pop_finished r"
    from none EvDrive have n: "gone_by_drive now connected sleep r = []" by (simp add: gone_by_def)
    have q: "?q = r"
    proof (cases rule: pop_finished_cases [of r])
      case popped
      then have "queue_count ?q < queue_count r" by (simp add: pop_current_count)
      with n show ?thesis by (simp add: gone_by_drive_def Let_def)
    qed
    from inv show ?thesis
    proof (cases rule: drive_parts [where now = now and connected = connected and sleep = sleep
          and result = result and uu = uu])
      case idle
      with pos q show ?thesis by simp
    next
      case popped
      with n show ?thesis by (simp add: gone_by_drive_def Let_def)
    next
      case (kept a t)
      with pos q EvDrive show ?thesis by (simp add: runner_step_def touches_def)
    qed
  qed (use keep pos touches_head_event [of e r] in \<open>simp_all add: touches_def\<close>)
  then show "0 < queue_count (runner_step r e)" by simp
  from head have l: "leads (proves_unexecuted e) r (runner_step r e)"
    using step_leads [OF inv pos keep] by simp
  show "settled_or_marked (current (runner_step r e))"
  proof (cases "\<exists>dmn u len ctr ok err rej. e = EvResponse dmn u len ctr ok err rej")
    case True
    with response_settles [OF inv pos s] show ?thesis by (auto simp: runner_step_def)
  next
    case False
    then have "\<not> proves_unexecuted e" using quiet by (cases e) auto
    with l leads_settled [OF _ s] show ?thesis by simp
  qed
qed

text \<open>Between the two hand-overs: the command has left, or is at the head, marked or completed.\<close>

definition watched :: "nat \<Rightarrow> runner_event list \<Rightarrow> bool" where
  "watched k es \<longleftrightarrow> k < length (gone es) \<or>
     (length (gone es) = k \<and> 0 < queue_count (reached es) \<and> settled_or_marked (current (reached es)))"

lemma watched_step:
  assumes ok: "list_all event_ok es" and w: "watched k es"
    and quiet: "length (gone es) = k \<longrightarrow> \<not> proving_fault e"
  shows "watched k (es @ [e])"
proof (cases "length (gone es) = k \<and> gone_by (reached es) e = []")
  case True
  with w have "0 < queue_count (reached es)" "settled_or_marked (current (reached es))"
    by (auto simp: watched_def)
  from settled_step [OF reached_inv [OF ok] this(1) _ this(2)] True quiet
  show ?thesis by (simp add: watched_def gone_snoc)
next
  case False
  with w show ?thesis by (auto simp: watched_def gone_snoc)
qed

lemma watched_after:
  assumes "list_all event_ok (es @ fs)" "watched k es"
    and "\<And>gs f hs. fs = gs @ f # hs \<Longrightarrow> length (gone (es @ gs)) = k \<Longrightarrow> \<not> proving_fault f"
  shows "watched k (es @ fs)"
  using assms
proof (induction fs rule: rev_induct)
  case Nil
  then show ?case by simp
next
  case (snoc f fs)
  have "watched k (es @ fs)"
    using snoc.prems by (intro snoc.IH) (auto intro: snoc.prems(3) [of _ _ "_ @ [f]"])
  with watched_step [of "es @ fs" k f] snoc.prems(1) snoc.prems(3) [of fs f "[]"] show ?case
    by (simp del: foldl_append)
qed

lemma payload_handed_watched:
  assumes ok: "list_all event_ok es" and k: "payload_handed es e = Some k"
  shows "watched k (es @ [e])"
proof -
  obtain now connected sleep result uu s where e: "e = EvDrive now connected sleep result uu"
    and res: "result \<in> {WriteFailed, Written}"
    and act: "drive now connected sleep result uu (reached es) = (SendCommandPayload, s)"
    and n: "k = length (gone es) + (queue_count (reached es) - queue_count (pop_finished (reached es)))"
    using payload_handedE [OF k] by metis
  from drive_marks [OF reached_inv [OF ok] res act] act n e show ?thesis
    by (simp add: watched_def gone_snoc gone_by_def runner_step_def)
qed

subsection \<open>Draining a queue past its deadlines\<close>

text \<open>The owner of a command waits for its callback and then pops the command, which is at the head;
  one round of the vehicle task and the owner of the head command, and a sequence of them.\<close>

definition owner_collects :: "command_runner \<Rightarrow> command_runner" where
  "owner_collects r =
     (if queue_count r \<noteq> 0 \<and> is_completed (current r) \<and> has_on_complete (current r)
      then pop_current r else r)"

type_synonym round = "u32 \<times> bool \<times> sleep_state \<times> tx_result \<times> ble_uuid option"

definition vehicle_round :: "round \<Rightarrow> command_runner \<Rightarrow> tx_action \<times> command_runner" where
  "vehicle_round x r = (case x of (now, connected, sleep, result, uu) \<Rightarrow>
     let (a, s) = drive now connected sleep result uu r in (a, owner_collects s))"

fun vehicle_rounds :: "round list \<Rightarrow> command_runner \<Rightarrow> tx_action list \<times> command_runner" where
  "vehicle_rounds [] r = ([], r)"
| "vehicle_rounds (x # xs) r =
     (let (a, s) = vehicle_round x r; (as, t) = vehicle_rounds xs s in (a # as, t))"

definition past_deadline :: "u32 \<Rightarrow> command_request \<Rightarrow> bool" where
  "past_deadline now c \<longleftrightarrow> 0 < timeout_ms c \<and> timeout_ms c \<le> now - enqueued_at_ms c"

text \<open>What the callback of an expired command is told: its identifier, failure, and that the command
  may have succeeded when its payload may have been sent.\<close>

definition expiry_call :: "command_request \<Rightarrow> (u32 \<times> bool \<times> command_failure_info) list" where
  "expiry_call c = (if \<not> is_completed c \<and> has_on_complete c
     then [(cmd_id c, False, finish_info False temporary_failure c)] else [])"

definition call_facts :: "completion \<Rightarrow> u32 \<times> bool \<times> command_failure_info" where
  "call_facts x = (case x of (i, ok, msg, info) \<Rightarrow> (i, ok, info))"

definition deadline_text :: "string \<Rightarrow> bool" where
  "deadline_text msg \<longleftrightarrow> suffix ''command deadline exhausted'' msg"

text \<open>Some commands expired: they left the queue, and their callbacks were called.\<close>

definition expires :: "command_runner \<Rightarrow> command_runner \<Rightarrow> bool" where
  "expires r s \<longleftrightarrow> runner_inv s \<and> (\<exists>cs log. commands r = cs @ commands s \<and>
     completions s = completions r @ log \<and> map call_facts log = concat (map expiry_call cs) \<and>
     list_all (\<lambda>x. deadline_text (fst (snd (snd x)))) log)"

lemma expires_refl: "runner_inv r \<Longrightarrow> expires r r"
  by (simp add: expires_def)

lemma expires_trans: "expires r s \<Longrightarrow> expires s t \<Longrightarrow> expires r t"
proof -
  assume rs: "expires r s" and st: "expires s t"
  from rs obtain cs l where a: "commands r = cs @ commands s" "completions s = completions r @ l"
    "map call_facts l = concat (map expiry_call cs)" "list_all (\<lambda>x. deadline_text (fst (snd (snd x)))) l"
    unfolding expires_def by auto
  from st obtain ds k where b: "commands s = ds @ commands t" "completions t = completions s @ k"
    "map call_facts k = concat (map expiry_call ds)" "list_all (\<lambda>x. deadline_text (fst (snd (snd x)))) k"
    unfolding expires_def by auto
  from a b show "expires r t"
    using st unfolding expires_def by (intro conjI exI [of _ "cs @ ds"] exI [of _ "l @ k"]) auto
qed

lemma deadline_text_append: "deadline_text msg \<Longrightarrow> deadline_text (xs @ msg)"
  by (simp add: deadline_text_def suffix_appendI)

lemma expired_text:
  assumes "deadline_text err" "err \<noteq> []"
  shows "deadline_text (finish_text False err (finish_info False temporary_failure c))"
  using assms deadline_text_append [of err "uncertain_command_reason @ ''; ''"]
  by (auto simp: finish_text_def deadline_text_def uncertain_command_reason_def)

text \<open>The head leaves after it has completed: popped by the round or by its owner.\<close>

lemma expires_pop_completed:
  assumes "runner_inv r" "0 < queue_count r" "is_completed (current r)"
  shows "expires r (pop_current r)" "queue_count (pop_current r) = queue_count r - 1"
proof -
  note wf = runner_wf_inv [OF assms(1)]
  have "completions (pop_current r) = completions r" by (simp add: pop_current_def Let_def)
  moreover have "commands r = [current r] @ commands (pop_current r)"
    using commands_split [OF wf assms(2)] pop_commands [OF wf] by simp
  ultimately show "expires r (pop_current r)"
    using pop_current_inv [OF assms(1)] assms(3) unfolding expires_def
    by (intro conjI exI [of _ "[current r]"] exI [of _ "[]"]) (simp_all add: expiry_call_def)
  show "queue_count (pop_current r) = queue_count r - 1" by (simp add: pop_current_count)
qed

lemma tick_expired:
  assumes "live r" "past_deadline now (current r)"
  shows "tick now connected awake asleep r = (TxNone, finish_command False
      (if \<not> connected then ''connection lost; command deadline exhausted''
       else ''command deadline exhausted'') TrDeadlineExceeded temporary_failure r)"
  using assms liveD(2,3) [OF assms(1)]
  by (simp add: tick_def tick_stages_def fall_through_def tick_deadline_def Let_def finish_none_def
      past_deadline_def)

lemma expires_finish:
  assumes r: "live r" and err: "deadline_text err" "err \<noteq> []"
  shows "expires r (pop_current (finish_command False err TrDeadlineExceeded temporary_failure r))"
    "queue_count (pop_current (finish_command False err TrDeadlineExceeded temporary_failure r)) =
      queue_count r - 1"
proof -
  let ?s = "finish_command False err TrDeadlineExceeded temporary_failure r"
  note h = liveD [OF r]
  note wf = runner_wf_inv [OF h(1)]
  have s: "runner_inv ?s" by (rule finish_command_inv [OF h(1,2)])
  have log: "completions (pop_current ?s) = completions r @ (if has_on_complete (current r)
      then [(cmd_id (current r), False, finish_text False err (finish_info False temporary_failure (current r)),
             finish_info False temporary_failure (current r))] else [])"
    using h by (simp add: finish_command_eq pop_current_def Let_def)
  have "commands (pop_current ?s) = tl (commands r)"
    using pop_commands [OF runner_wf_inv [OF s]] touches_commands [OF wf h(2) touches_finish] by simp
  then have "commands r = [current r] @ commands (pop_current ?s)"
    using commands_split [OF wf h(2)] by simp
  with log show "expires r (pop_current ?s)"
    using pop_current_inv [OF s] expired_text [OF err] h(3) unfolding expires_def
    by (intro conjI exI [of _ "[current r]"]) (auto simp: expiry_call_def call_facts_def)
  show "queue_count (pop_current ?s) = queue_count r - 1" by (simp add: pop_current_count)
qed

lemma waiting_head:
  assumes "runner_inv r" "0 < queue_count s" "runner_wf s" "commands s = tl (commands r)"
  shows "\<not> is_completed (current s)"
  using waiting_calls(1) [OF assms(1)] commands_split [OF assms(3,2)] assms(4)
  by (metis list.set_intros(1) list_all_iff pristine_def)

lemma collects_none: "\<not> (0 < queue_count r \<and> is_completed (current r)) \<Longrightarrow> owner_collects r = r"
  by (auto simp: owner_collects_def)

text \<open>A round whose head is not completed and past its deadline.\<close>

lemma live_round_expires:
  assumes r: "live r" and d: "past_deadline now (current r)"
    and eq: "vehicle_round (now, connected, sleep, result, uu) r0 = (a, s)" and r0: "pop_finished r0 = r"
  shows "a = TxNone" "expires r s" "queue_count s = queue_count r - 1"
proof -
  define err where "err = (if \<not> connected then ''connection lost; command deadline exhausted''
       else ''command deadline exhausted'')"
  have err: "deadline_text err" "err \<noteq> []"
    by (auto simp: err_def deadline_text_def suffix_def)
  let ?t = "finish_command False err TrDeadlineExceeded temporary_failure r"
  note h = liveD [OF r]
  have fin: "is_completed (current ?t)" "has_on_complete (current ?t) = has_on_complete (current r)"
    using h by (simp_all add: finish_command_current finished_def Let_def)
  have wf: "runner_wf ?t" by (rule runner_wf_inv [OF finish_command_inv [OF h(1,2)]])
  have "commands (pop_current ?t) = tl (commands r)"
    using pop_commands [OF wf] touches_commands [OF runner_wf_inv [OF h(1)] h(2) touches_finish] by simp
  then have after: "owner_collects (pop_current ?t) = pop_current ?t"
    using waiting_head [OF h(1) _ pop_wf [OF wf]] by (intro collects_none) blast
  have "drive now connected sleep result uu r0 =
      (TxNone, if has_on_complete (current r) then ?t else pop_current ?t)"
    using tick_expired [OF r d] h(2) fin
    by (simp add: drive_def Let_def r0 err_def [symmetric])
  with eq after fin h(2) have "a = TxNone \<and> s = pop_current ?t"
    by (auto simp: vehicle_round_def owner_collects_def split: if_splits)
  with expires_finish [OF r err] show "a = TxNone" "expires r s" "queue_count s = queue_count r - 1"
    by simp_all
qed

lemma vehicle_round_expires:
  assumes inv: "runner_inv r" and past: "\<forall>c \<in> set (commands r). past_deadline now c"
    and eq: "vehicle_round (now, connected, sleep, result, uu) r = (a, s)"
  shows "a = TxNone \<and> expires r s \<and> queue_count s \<le> queue_count r - 1"
proof (cases "queue_count r = 0")
  case True
  then have "drive now connected sleep result uu r = (TxNone, r)"
    by (simp add: drive_def pop_finished_def Let_def)
  with eq True expires_refl [OF inv] show ?thesis by (auto simp: vehicle_round_def collects_none)
next
  case False
  then have pos: "0 < queue_count r" by simp
  note wf = runner_wf_inv [OF inv] and split = commands_split [OF runner_wf_inv [OF inv] pos]
  have past_cur: "past_deadline now (current r)" using past split by (metis list.set_intros(1))
  show ?thesis
  proof (cases rule: pop_finished_cases [of r])
    case popped
    let ?q = "pop_current r"
    note e = expires_pop_completed [OF inv pos popped(3)]
    have cs: "commands ?q = tl (commands r)" by (rule pop_commands [OF wf])
    show ?thesis
    proof (cases "queue_count ?q = 0")
      case True
      with popped eq have "a = TxNone \<and> s = ?q"
        by (auto simp: vehicle_round_def drive_def Let_def collects_none)
      with e show ?thesis by simp
    next
      case False
      have q: "live ?q"
        using waiting_head [OF inv _ pop_wf [OF wf] cs] pop_current_inv [OF inv] False by (simp add: live_def)
      have "current ?q \<in> set (commands r)"
        using commands_split [OF pop_wf [OF wf]] False cs split
        by (metis gr0I list.set_intros(1,2))
      with past have "past_deadline now (current ?q)" by blast
      from live_round_expires [OF q this eq popped(1)] expires_trans [OF e(1)] e(2) show ?thesis by simp
    qed
  next
    case same
    show ?thesis
    proof (cases "is_completed (current r)")
      case True
      with same pos have cb: "has_on_complete (current r)" by blast
      with True same pos have "drive now connected sleep result uu r = (TxNone, r)"
        by (simp add: drive_def tick_def Let_def)
      with eq True cb pos have "a = TxNone \<and> s = pop_current r"
        by (auto simp: vehicle_round_def owner_collects_def)
      with expires_pop_completed [OF inv pos True] show ?thesis by simp
    next
      case False
      with inv pos have "live r" by (simp add: live_def)
      from live_round_expires [OF this past_cur eq same(1)] show ?thesis by simp
    qed
  qed
qed

lemma vehicle_rounds_expire:
  assumes "runner_inv r" "\<forall>x \<in> set xs. \<forall>c \<in> set (commands r). past_deadline (fst x) c"
    "vehicle_rounds xs r = (as, s)"
  shows "set as \<subseteq> {TxNone} \<and> expires r s \<and> queue_count s \<le> queue_count r - length xs"
  using assms
proof (induction xs arbitrary: r as s)
  case Nil
  then show ?case by (simp add: expires_refl)
next
  case (Cons x xs)
  obtain now connected sleep result uu where x: "x = (now, connected, sleep, result, uu)" by (cases x)
  obtain a q where q: "vehicle_round x r = (a, q)" by fastforce
  obtain bs t where t: "vehicle_rounds xs q = (bs, t)" by fastforce
  have st: "as = a # bs" "s = t" using Cons.prems(3) q t by auto
  have "\<forall>c \<in> set (commands r). past_deadline now c" using Cons.prems(2) x by auto
  from vehicle_round_expires [OF Cons.prems(1) this] q x
  have a: "a = TxNone" "expires r q" "queue_count q \<le> queue_count r - 1" by auto
  then have "runner_inv q" "set (commands q) \<subseteq> set (commands r)" unfolding expires_def by auto
  with Cons.IH [OF _ _ t] Cons.prems(2)
  have "set bs \<subseteq> {TxNone} \<and> expires q t \<and> queue_count t \<le> queue_count q - length xs" by auto
  with a expires_trans [OF a(2)] st show ?case by auto
qed

text \<open>The example: the pairing command is handed over, the car answers busy, and after the back-off
  the payload is handed over again.\<close>

definition busy_fault :: runner_event where
  "busy_fault = EvFault (classify_message_fault 1) True 20"

definition second_round :: runner_event where
  "second_round = EvDrive 3000 True SleepUnknown Written None"

lemma busy_run_ok: "list_all event_ok (take 1 sample_run @ sample_run ! 1 # [busy_fault])"
  by (simp add: sample_run_def event_ok_def kBleUuidSize_def busy_fault_def)

lemma busy_run_handed:
  "payload_handed (take 1 sample_run) (sample_run ! 1) = Some 0"
  "payload_handed (take 1 sample_run @ sample_run ! 1 # [busy_fault]) second_round = Some 0"
  "cmd_effect (all_commands (take 1 sample_run @ sample_run ! 1 # [busy_fault]) ! 0) = Mutating"
  by code_simp+

subsection \<open>Properties\<close>

text \<open>C2: In any run, when the payload of a mutating command has been handed to the BLE transport
  (written completely or not) and is handed over a second time, then between the two, while that
  command was at the head of the queue, an authenticated message fault of a known kind proved that
  the vehicle had not executed it.\<close>

theorem mutating_payload_not_repeated:
  assumes "list_all event_ok (es @ e # fs)"
    and "payload_handed es e = Some k" "payload_handed (es @ e # fs) f = Some k"
    and "cmd_effect (all_commands (es @ e # fs) ! k) = Mutating"
  shows "\<exists>gs d now hs. fs = gs @ EvFault d True now # hs \<and> fd_known d \<and> \<not> fd_possible_success d \<and>
    length (gone (es @ e # gs)) = k"
proof (rule ccontr)
  assume none: "\<not> ?thesis"
  let ?r = "reached (es @ e # fs)"
  have inv: "runner_inv ?r" by (rule reached_inv [OF assms(1)])
  have "\<not> proving_fault x" if "fs = gs @ x # hs" "length (gone ((es @ [e]) @ gs)) = k" for gs x hs
  proof
    assume "proving_fault x"
    then obtain d now where "x = EvFault d True now" "fd_known d" "\<not> fd_possible_success d"
      by (cases x) auto
    with that none show False by auto
  qed
  moreover have "list_all event_ok es" using assms(1) by simp
  ultimately have "watched k ((es @ [e]) @ fs)"
    using watched_after [of "es @ [e]" fs k] assms(1) payload_handed_watched [OF _ assms(2)] by simp
  then have w: "watched k (es @ e # fs)" by simp
  obtain now connected sleep result uu s where
    act: "drive now connected sleep result uu ?r = (SendCommandPayload, s)"
    and n: "k = length (gone (es @ e # fs)) + (queue_count ?r - queue_count (pop_finished ?r))"
    using payload_handedE [OF assms(3)] by metis
  note m = marked_payload_not_sent [OF inv act]
  from w n have k: "length (gone (es @ e # fs)) = k" "settled_or_marked (current ?r)" "0 < queue_count ?r"
    and same: "queue_count ?r = queue_count (pop_finished ?r) \<or> queue_count ?r < queue_count (pop_finished ?r)"
    by (auto simp: watched_def)
  have q: "pop_finished ?r = ?r"
    using same by (cases rule: pop_finished_cases [of ?r]) (auto simp: pop_current_count)
  have "all_commands (es @ e # fs) ! k = current ?r"
    using k(1) commands_split [OF runner_wf_inv [OF inv] k(3)]
    unfolding all_commands_def by (metis nth_append_length)
  with assms(4) m q k(2) show False by (simp add: settled_or_marked_def)
qed

theorem mutating_payload_not_repeated_witness:
  "\<exists>gs d now hs. [busy_fault] = gs @ EvFault d True now # hs \<and> fd_known d \<and> \<not> fd_possible_success d \<and>
    length (gone (take 1 sample_run @ sample_run ! 1 # gs)) = 0"
  by (rule mutating_payload_not_repeated [OF busy_run_ok busy_run_handed])

text \<open>C28: Callbacks: after any run, the callbacks that were called are, in order and each once, those
  of the commands that have completed, each with the outcome its command ended with: whatever the
  events were, popping, clearing, resetting and the rounds of the vehicle task included. The
  commands counted are exactly the accepted ones, in the order of their acceptance.\<close>

theorem callback_called_once:
  assumes "list_all event_ok es"
  shows "completions (reached es) = concat (map callback_calls (all_commands es)) \<and>
    map identity (all_commands es) = map identity (accepted_commands es)"
  by (rule history_exact [OF assms])

theorem callback_called_once_witness:
  "length (completions (reached (sample_run @ [EvClear]))) = 1 \<and>
   map cmd_id (all_commands (sample_run @ [EvClear])) = [1]"
proof -
  let ?es = "sample_run @ [EvClear]"
  have ok: "list_all event_ok ?es" using sample_run_ok by (simp add: event_ok_def)
  have "length (concat (map callback_calls (all_commands ?es))) = 1" by code_simp
  moreover have "map identity (accepted_commands ?es) = [(1, True)]" by code_simp
  then have "map (fst \<circ> identity) (all_commands ?es) = [1]"
    using callback_called_once [OF ok] by (metis (no_types, lifting) list.map_comp fst_conv list.simps(8,9))
  moreover have "fst \<circ> identity = cmd_id" by (simp add: identity_def fun_eq_iff)
  ultimately show ?thesis using callback_called_once [OF ok] by simp
qed

text \<open>C29: When every command in the queue is past its deadline, the queue drains: after as many rounds
  of the vehicle task as there are commands (each followed by the owner of a completed head command
  collecting it), connected or not and whatever the writes would do, the queue is empty and nothing
  has been transmitted; the callback of every command that was not completed, waiting ones included,
  has been called once, in queue order, as a failure whose text ends with the exhausted deadline and
  which admits success exactly when the command's payload may have been sent.\<close>

theorem deadline_completes:
  assumes "list_all event_ok es" "r = reached es"
    and "\<forall>x \<in> set xs. \<forall>c \<in> set (commands r). past_deadline (fst x) c"
    and "length (commands r) \<le> length xs" "vehicle_rounds xs r = (as, s)"
  shows "commands s = [] \<and> set as \<subseteq> {TxNone} \<and>
    (\<exists>log. completions s = completions r @ log \<and>
       map call_facts log = concat (map expiry_call (commands r)) \<and>
       list_all (\<lambda>x. deadline_text (fst (snd (snd x)))) log)"
proof -
  have inv: "runner_inv r" using reached_inv [OF assms(1)] assms(2) by simp
  note e = vehicle_rounds_expire [OF inv assms(3,5)]
  then have "commands s = []" using assms(4) commands_empty_iff [of s] by simp
  with e show ?thesis unfolding expires_def by auto
qed

text \<open>The example: the transmitted command and one waiting behind it, two rounds after both deadlines.\<close>

definition waiting_run :: "runner_event list" where
  "waiting_run = sample_run @ [EvEnqueue (''Wake'', VehicleSecurity, NoWakeSkip, 20000, 5,
      replicate 16 1, True, False, 3, Action)]"

definition late_rounds :: "round list" where
  "late_rounds = [(30000, False, SleepUnknown, Written, None), (30200, True, Awake, Written, None)]"

theorem deadline_completes_witness:
  "map call_facts (completions (snd (vehicle_rounds late_rounds (reached waiting_run)))) =
   [(1, False, temporary_failure\<lparr>fi_outcome := MayHaveSucceeded\<rparr>), (2, False, temporary_failure)]"
proof -
  have ok: "list_all event_ok waiting_run"
    using sample_run_ok by (simp add: waiting_run_def event_ok_def kBleUuidSize_def)
  have past: "\<forall>x \<in> set late_rounds. \<forall>c \<in> set (commands (reached waiting_run)). past_deadline (fst x) c"
    and len: "length (commands (reached waiting_run)) \<le> length late_rounds"
    and none: "completions (reached waiting_run) = []"
    and calls: "concat (map expiry_call (commands (reached waiting_run))) =
      [(1, False, temporary_failure\<lparr>fi_outcome := MayHaveSucceeded\<rparr>), (2, False, temporary_failure)]"
    by code_simp+
  from deadline_completes [OF ok refl past len prod.collapse [symmetric]] none calls show ?thesis by auto
qed

end
