(* ===== verification/DeferredQueue.thy ===== *)
theory DeferredQueue
  imports RxFraming
begin

text \<open>
  main/logic/ble_deferred_queue.hpp, ble_deferred_event.hpp and ble_chunk.hpp: the fixed queue that
  carries BLE link changes and received bytes from the radio callbacks to the vehicle task. The
  sixteen cells are a list; the cell's union of arrival time and connection handle is two fields, of
  which the kind selects the one in use; \<open>memcpy\<close> is list surgery.
\<close>

subsection \<open>State\<close>

datatype ble_deferred_event_kind = LinkUp | LinkDown | Rx

definition ble_deferred_event_may_apply :: "ble_deferred_event_kind \<Rightarrow> u32 \<Rightarrow> u32 \<Rightarrow> bool" where
  "ble_deferred_event_may_apply kind event_generation current_generation =
     (if kind = LinkDown then True
      else event_generation AND 1 = 0 \<and> event_generation = current_generation)"

definition kBleDefaultWritePayload :: nat where "kBleDefaultWritePayload = 20"
definition kBleMaxWritePayload :: nat where "kBleMaxWritePayload = 244"

definition ble_write_payload_for_mtu :: "u16 \<Rightarrow> nat" where
  "ble_write_payload_for_mtu mtu =
     (if mtu \<le> 3 then kBleDefaultWritePayload
      else let payload = unat (mtu - 3) in
           if payload < kBleDefaultWritePayload then kBleDefaultWritePayload
           else if kBleMaxWritePayload < payload then kBleMaxWritePayload else payload)"

definition kDepth :: nat where "kDepth = 16"
definition kCellBytes :: nat where "kCellBytes = kBleMaxWritePayload"
definition kSliceBytes :: nat where "kSliceBytes = kBleDefaultWritePayload"
definition kRxWindowMs :: u32 where "kRxWindowMs = 3000"

record dq_event =
  ev_generation :: u32
  ev_received_ms :: u32
  ev_conn_handle :: u16
  ev_span_ms :: u16
  ev_size :: nat
  ev_kind :: ble_deferred_event_kind
  ev_data :: bytes

record dq_cell =
  cell_generation :: u32
  cell_received_ms :: u32
  cell_conn_handle :: u16
  cell_span_ms :: u16
  cell_size :: nat
  cell_kind :: ble_deferred_event_kind
  cell_data :: bytes

record deferred_queue =
  dq_cells :: "dq_cell list"
  dq_head :: nat
  dq_count :: nat
  dq_read_offset :: nat

definition zero_cell :: dq_cell where
  "zero_cell = \<lparr>cell_generation = 0, cell_received_ms = 0, cell_conn_handle = 0, cell_span_ms = 0,
     cell_size = 0, cell_kind = LinkUp, cell_data = replicate kCellBytes 0\<rparr>"

definition new_deferred_queue :: deferred_queue where
  "new_deferred_queue = \<lparr>dq_cells = replicate kDepth zero_cell, dq_head = 0, dq_count = 0,
     dq_read_offset = 0\<rparr>"

subsection \<open>Operations\<close>

definition dq_index :: "deferred_queue \<Rightarrow> nat \<Rightarrow> nat" where
  "dq_index q offset = (dq_head q + offset) mod kDepth"

definition dq_clear :: "deferred_queue \<Rightarrow> deferred_queue" where
  "dq_clear q = q\<lparr>dq_head := 0, dq_count := 0, dq_read_offset := 0\<rparr>"

definition push_link :: "bool \<Rightarrow> u16 \<Rightarrow> u32 \<Rightarrow> deferred_queue \<Rightarrow> bool \<times> deferred_queue" where
  "push_link connected handle generation q =
     (if dq_count q = kDepth then (False, q)
      else let i = dq_index q (dq_count q); cell = dq_cells q ! i
           in (True, q\<lparr>dq_cells := (dq_cells q)[i := cell\<lparr>cell_generation := generation,
                             cell_conn_handle := handle, cell_size := 0,
                             cell_kind := (if connected then LinkUp else LinkDown)\<rparr>],
                       dq_count := dq_count q + 1\<rparr>))"

text \<open>How many of \<open>size\<close> bytes fit the tail cell, and the time they would extend it to.\<close>

definition tail_span :: "u32 \<Rightarrow> deferred_queue \<Rightarrow> u32" where
  "tail_span received_ms q =
     (let tail = dq_cells q ! dq_index q (dq_count q - 1) in
      if dq_count q \<noteq> 0 \<and> cell_kind tail = Rx then received_ms - cell_received_ms tail else 0)"

definition tail_space :: "u32 \<Rightarrow> u32 \<Rightarrow> deferred_queue \<Rightarrow> nat" where
  "tail_space generation received_ms q =
     (let tail = dq_cells q ! dq_index q (dq_count q - 1); span = tail_span received_ms q in
      if dq_count q \<noteq> 0 \<and> cell_kind tail = Rx \<and> cell_generation tail = generation \<and>
         span \<le> kRxWindowMs \<and> ucast (cell_span_ms tail) \<le> span
      then kCellBytes - cell_size tail else 0)"

definition copy_into :: "nat \<Rightarrow> bytes \<Rightarrow> bytes \<Rightarrow> bytes" where
  "copy_into offset src dst = take offset dst @ src @ drop (offset + length src) dst"

definition push_rx :: "bytes option \<Rightarrow> u32 \<Rightarrow> u32 \<Rightarrow> deferred_queue \<Rightarrow> bool \<times> deferred_queue" where
  "push_rx data_ptr generation received_ms q =
     (case data_ptr of
        None \<Rightarrow> (False, q)
      | Some data \<Rightarrow>
          let n = length data in
          if n = 0 \<or> kCellBytes < n then (False, q)
          else let span = tail_span received_ms q;
                   space = tail_space generation received_ms q;
                   append = (if n < space then n else space) in
               if append \<noteq> n \<and> dq_count q = kDepth then (False, q)
               else let ti = dq_index q (dq_count q - 1); tail = dq_cells q ! ti;
                        q1 = (if append \<noteq> 0
                              then q\<lparr>dq_cells := (dq_cells q)[ti := tail\<lparr>
                                     cell_data := copy_into (cell_size tail) (take append data)
                                                    (cell_data tail),
                                     cell_size := (cell_size tail + append) mod 256,
                                     cell_span_ms := ucast span\<rparr>]\<rparr>
                              else q);
                        ni = dq_index q1 (dq_count q1); cell = dq_cells q1 ! ni;
                        q2 = (if append \<noteq> n
                              then q1\<lparr>dq_cells := (dq_cells q1)[ni := cell\<lparr>
                                     cell_generation := generation, cell_received_ms := received_ms,
                                     cell_span_ms := 0, cell_size := (n - append) mod 256,
                                     cell_kind := Rx,
                                     cell_data := copy_into 0 (drop append data) (cell_data cell)\<rparr>],
                                   dq_count := dq_count q1 + 1\<rparr>
                              else q1)
                    in (True, q2))"

definition blank_event :: dq_event where
  "blank_event = \<lparr>ev_generation = 0, ev_received_ms = 0, ev_conn_handle = 0, ev_span_ms = 0,
     ev_size = 0, ev_kind = LinkDown, ev_data = replicate kSliceBytes 0\<rparr>"

definition dq_advance :: "deferred_queue \<Rightarrow> deferred_queue" where
  "dq_advance q = q\<lparr>dq_head := (dq_head q + 1) mod kDepth, dq_count := dq_count q - 1,
     dq_read_offset := 0\<rparr>"

definition dq_pop :: "deferred_queue \<Rightarrow> dq_event option \<times> deferred_queue" where
  "dq_pop q =
     (if dq_count q = 0 then (None, q)
      else let cell = dq_cells q ! dq_head q;
               out = blank_event\<lparr>ev_generation := cell_generation cell, ev_kind := cell_kind cell\<rparr> in
           if cell_kind cell = Rx
           then let remaining = cell_size cell - dq_read_offset q;
                    n = (if remaining < kSliceBytes then remaining else kSliceBytes);
                    next = dq_read_offset q + n;
                    out1 = out\<lparr>ev_size := n mod 256,
                      ev_data := copy_into 0 (take n (drop (dq_read_offset q) (cell_data cell)))
                                   (ev_data out),
                      ev_received_ms := cell_received_ms cell,
                      ev_span_ms := (if next = cell_size cell then cell_span_ms cell else 0)\<rparr>
                in if next \<noteq> cell_size cell then (Some out1, q\<lparr>dq_read_offset := next mod 256\<rparr>)
                   else (Some out1, dq_advance q)
           else (Some (out\<lparr>ev_conn_handle := cell_conn_handle cell\<rparr>), dq_advance q))"

subsection \<open>The stream a queue stands for\<close>

datatype dq_item = LinkItem bool u16 u32 | ByteItem u8 u32

definition cell_items :: "nat \<Rightarrow> dq_cell \<Rightarrow> dq_item list" where
  "cell_items offset c = (case cell_kind c of
      LinkUp \<Rightarrow> [LinkItem True (cell_conn_handle c) (cell_generation c)]
    | LinkDown \<Rightarrow> [LinkItem False (cell_conn_handle c) (cell_generation c)]
    | Rx \<Rightarrow> map (\<lambda>b. ByteItem b (cell_generation c)) (drop offset (take (cell_size c) (cell_data c))))"

definition dq_view :: "deferred_queue \<Rightarrow> dq_cell list" where
  "dq_view q = ring_view (dq_head q) (dq_count q) (dq_cells q)"

definition dq_stream :: "deferred_queue \<Rightarrow> dq_item list" where
  "dq_stream q = (case dq_view q of [] \<Rightarrow> []
     | c # cs \<Rightarrow> cell_items (dq_read_offset q) c @ concat (map (cell_items 0) cs))"

definition event_items :: "dq_event \<Rightarrow> dq_item list" where
  "event_items e = (case ev_kind e of
      LinkUp \<Rightarrow> [LinkItem True (ev_conn_handle e) (ev_generation e)]
    | LinkDown \<Rightarrow> [LinkItem False (ev_conn_handle e) (ev_generation e)]
    | Rx \<Rightarrow> map (\<lambda>b. ByteItem b (ev_generation e)) (take (ev_size e) (ev_data e)))"

definition cell_ok :: "dq_cell \<Rightarrow> bool" where
  "cell_ok c \<longleftrightarrow> length (cell_data c) = kCellBytes \<and>
     (cell_kind c = Rx \<longrightarrow> 0 < cell_size c \<and> cell_size c \<le> kCellBytes \<and>
        ucast (cell_span_ms c) \<le> kRxWindowMs)"

definition dq_inv :: "deferred_queue \<Rightarrow> bool" where
  "dq_inv q \<longleftrightarrow> length (dq_cells q) = kDepth \<and> dq_head q < kDepth \<and> dq_count q \<le> kDepth \<and>
     list_all (\<lambda>c. length (cell_data c) = kCellBytes) (dq_cells q) \<and>
     list_all cell_ok (dq_view q) \<and>
     (dq_count q = 0 \<longrightarrow> dq_read_offset q = 0) \<and>
     (0 < dq_count q \<longrightarrow> (if cell_kind (hd (dq_view q)) = Rx
        then dq_read_offset q < cell_size (hd (dq_view q)) else dq_read_offset q = 0))"

lemmas dq_sizes = kDepth_def kCellBytes_def kSliceBytes_def kBleMaxWritePayload_def
  kBleDefaultWritePayload_def

lemma length_copy_into [simp]:
  "offset + length src \<le> length dst \<Longrightarrow> length (copy_into offset src dst) = length dst"
  by (simp add: copy_into_def)

lemma take_copy_into:
  "offset + length src \<le> length dst \<Longrightarrow> take (offset + length src) (copy_into offset src dst) = take offset dst @ src"
  by (simp add: copy_into_def)

lemma length_dq_view [simp]: "length (dq_view q) = dq_count q"
  by (simp add: dq_view_def)

lemma dq_view_Nil: "dq_view q = [] \<longleftrightarrow> dq_count q = 0"
  by (metis length_0_conv length_dq_view)

lemma dq_view_append:
  assumes "dq_inv q" "dq_count q < kDepth"
  shows "dq_view (q\<lparr>dq_cells := (dq_cells q)[dq_index q (dq_count q) := c], dq_count := dq_count q + 1\<rparr>) =
    dq_view q @ [c]"
  using assms ring_view_append [of "dq_count q" "dq_cells q" "dq_head q" c]
  by (simp add: dq_view_def dq_index_def dq_inv_def)

lemma dq_view_update_tail:
  assumes "dq_inv q" "0 < dq_count q"
  shows "dq_view (q\<lparr>dq_cells := (dq_cells q)[dq_index q (dq_count q - 1) := c]\<rparr>) =
    (dq_view q)[dq_count q - 1 := c]"
  using assms ring_view_update [of "dq_count q - 1" "dq_count q" "dq_cells q" "dq_head q" c]
  by (simp add: dq_view_def dq_index_def dq_inv_def)

lemma dq_tail_nth:
  "dq_inv q \<Longrightarrow> 0 < dq_count q \<Longrightarrow> dq_cells q ! dq_index q (dq_count q - 1) = dq_view q ! (dq_count q - 1)"
  by (simp add: dq_view_def dq_index_def dq_inv_def)

lemma dq_head_nth: "dq_inv q \<Longrightarrow> 0 < dq_count q \<Longrightarrow> dq_cells q ! dq_head q = hd (dq_view q)"
  by (simp add: dq_view_def dq_inv_def ring_view_hd)

lemma dq_view_advance:
  "dq_inv q \<Longrightarrow> 0 < dq_count q \<Longrightarrow> dq_view (dq_advance q) = tl (dq_view q)"
  using ring_view_drop [of "dq_count q" "dq_cells q" "dq_head q"]
  by (simp add: dq_view_def dq_advance_def dq_inv_def)

lemma stream_snoc:
  assumes "dq_view q' = dq_view q @ [c]" "dq_read_offset q' = dq_read_offset q"
    "dq_count q = 0 \<longrightarrow> dq_read_offset q = 0"
  shows "dq_stream q' = dq_stream q @ cell_items 0 c"
proof (cases "dq_view q")
  case Nil
  then have "dq_count q = 0" using length_dq_view [of q] by simp
  with assms Nil show ?thesis by (simp add: dq_stream_def)
next
  case (Cons d ds)
  with assms show ?thesis by (simp add: dq_stream_def)
qed

lemma stream_extend_last:
  assumes "dq_view q = xs @ [c]" "dq_view q' = xs @ [c']" "dq_read_offset q' = dq_read_offset q"
    "cell_items 0 c' = cell_items 0 c @ new"
    "cell_items (dq_read_offset q) c' = cell_items (dq_read_offset q) c @ new"
  shows "dq_stream q' = dq_stream q @ new"
  using assms by (cases xs) (simp_all add: dq_stream_def)

lemma list_update_snoc: "xs \<noteq> [] \<Longrightarrow> xs[length xs - 1 := y] = butlast xs @ [y]"
  by (cases xs rule: rev_cases) (simp_all add: list_update_append)

lemma dq_view_snoc: "0 < dq_count q \<Longrightarrow> dq_view q = butlast (dq_view q) @ [dq_view q ! (dq_count q - 1)]"
  using length_dq_view [of q] append_butlast_last_id [of "dq_view q"] last_conv_nth [of "dq_view q"]
  by (metis length_0_conv less_numeral_extra(3))

lemma new_deferred_queue_inv: "dq_inv new_deferred_queue"
  by (auto simp: dq_inv_def new_deferred_queue_def dq_view_def kDepth_def zero_cell_def list_all_iff)

lemma dq_clear_inv: "dq_inv q \<Longrightarrow> dq_inv (dq_clear q)"
  by (auto simp: dq_inv_def dq_clear_def dq_view_def kDepth_def)

text \<open>A new cell behind the others.\<close>

lemma dq_append_cell:
  assumes inv: "dq_inv q" and room: "dq_count q < kDepth" and c: "cell_ok c"
  defines "q' \<equiv> q\<lparr>dq_cells := (dq_cells q)[dq_index q (dq_count q) := c], dq_count := dq_count q + 1\<rparr>"
  shows "dq_inv q' \<and> dq_stream q' = dq_stream q @ cell_items 0 c"
proof -
  have view: "dq_view q' = dq_view q @ [c]"
    unfolding q'_def by (rule dq_view_append [OF inv room])
  have stream: "dq_stream q' = dq_stream q @ cell_items 0 c"
    by (rule stream_snoc [OF view]) (use inv in \<open>simp_all add: q'_def dq_inv_def\<close>)
  have len: "length (cell_data c) = kCellBytes" using c by (simp add: cell_ok_def)
  have cells: "list_all (\<lambda>c. length (cell_data c) = kCellBytes) (dq_cells q')"
    using inv len by (simp add: q'_def dq_inv_def list_all_update)
  have view_ok: "list_all cell_ok (dq_view q')"
    using inv c by (simp add: view dq_inv_def)
  have hd: "if cell_kind (hd (dq_view q')) = Rx
      then dq_read_offset q' < cell_size (hd (dq_view q')) else dq_read_offset q' = 0"
  proof (cases "dq_view q")
    case Nil
    then have "dq_count q = 0" using length_dq_view [of q] by simp
    then have "dq_read_offset q' = 0" using inv by (simp add: q'_def dq_inv_def)
    with Nil view c show ?thesis by (simp add: cell_ok_def)
  next
    case (Cons d ds)
    then have "0 < dq_count q" using length_dq_view [of q] by simp
    with Cons view inv show ?thesis by (auto simp: q'_def dq_inv_def split: if_splits)
  qed
  have "length (dq_cells q') = kDepth" "dq_head q' < kDepth" "dq_count q' \<le> kDepth" "dq_count q' \<noteq> 0"
    using inv room by (auto simp: q'_def dq_inv_def)
  with cells view_ok hd stream show ?thesis by (simp add: dq_inv_def)
qed

lemma push_link_ok:
  assumes "dq_inv q" "push_link connected handle generation q = (ok, q')"
  shows "dq_inv q' \<and> (ok \<longleftrightarrow> dq_count q < kDepth) \<and>
    dq_stream q' = dq_stream q @ (if ok then [LinkItem connected handle generation] else [])"
proof (cases "dq_count q = kDepth")
  case True
  with assms show ?thesis by (auto simp: push_link_def)
next
  case False
  then have room: "dq_count q < kDepth" using assms(1) by (simp add: dq_inv_def)
  let ?c = "(dq_cells q ! dq_index q (dq_count q))\<lparr>cell_generation := generation,
    cell_conn_handle := handle, cell_size := 0,
    cell_kind := (if connected then LinkUp else LinkDown)\<rparr>"
  have "dq_index q (dq_count q) < length (dq_cells q)"
    using assms(1) by (simp add: dq_index_def dq_inv_def kDepth_def)
  then have "length (cell_data (dq_cells q ! dq_index q (dq_count q))) = kCellBytes"
    using assms(1) by (simp add: dq_inv_def list_all_length)
  then have "cell_ok ?c" by (simp add: cell_ok_def)
  from dq_append_cell [OF assms(1) room this] False assms(2) room show ?thesis
    by (auto simp: push_link_def Let_def cell_items_def)
qed

lemma drop_append_copy:
  assumes "off \<le> n" "n + length src \<le> length dst"
  shows "drop off (take (n + length src) (copy_into n src dst)) = drop off (take n dst) @ src"
  using assms by (simp add: take_copy_into)

text \<open>Bytes appended to the tail cell.\<close>

lemma dq_extend_tail:
  assumes inv: "dq_inv q" and pos: "0 < dq_count q"
    and tail: "tail = dq_cells q ! dq_index q (dq_count q - 1)" "cell_kind tail = Rx"
    and src: "src \<noteq> []" "cell_size tail + length src \<le> kCellBytes"
    and span: "ucast span \<le> kRxWindowMs"
  defines "c \<equiv> tail\<lparr>cell_data := copy_into (cell_size tail) src (cell_data tail),
    cell_size := cell_size tail + length src, cell_span_ms := span\<rparr>"
  defines "q' \<equiv> q\<lparr>dq_cells := (dq_cells q)[dq_index q (dq_count q - 1) := c]\<rparr>"
  shows "dq_inv q' \<and> dq_stream q' = dq_stream q @ map (\<lambda>b. ByteItem b (cell_generation tail)) src"
proof -
  have tv: "tail = dq_view q ! (dq_count q - 1)" using tail(1) dq_tail_nth [OF inv pos] by simp
  then have "tail \<in> set (dq_view q)" using pos by simp
  then have ok: "cell_ok tail" using inv by (auto simp: dq_inv_def list_all_iff)
  then have len: "length (cell_data tail) = kCellBytes" "0 < cell_size tail" "cell_size tail \<le> kCellBytes"
    using tail(2) by (auto simp: cell_ok_def)
  have cok: "cell_ok c"
    using len src span tail(2) by (simp add: c_def cell_ok_def)
  have view: "dq_view q' = butlast (dq_view q) @ [c]"
  proof -
    have "dq_view q' = (dq_view q)[dq_count q - 1 := c]"
      unfolding q'_def by (rule dq_view_update_tail [OF inv pos])
    moreover have "dq_view q \<noteq> []" using pos by (metis length_dq_view length_0_conv less_numeral_extra(3))
    ultimately show ?thesis using list_update_snoc [of "dq_view q" c] by simp
  qed
  have old: "dq_view q = butlast (dq_view q) @ [tail]" using dq_view_snoc [OF pos] tv by simp
  have items: "cell_items off c = cell_items off tail @ map (\<lambda>b. ByteItem b (cell_generation tail)) src"
    if "off \<le> cell_size tail" for off
    using that len src(2) tail(2) drop_append_copy [of off "cell_size tail" src "cell_data tail"]
    by (simp add: cell_items_def c_def)
  have off: "dq_read_offset q < cell_size tail \<or> butlast (dq_view q) \<noteq> []"
    using inv pos tail(2) old by (cases "butlast (dq_view q)") (auto simp: dq_inv_def)
  have stream: "dq_stream q' = dq_stream q @ map (\<lambda>b. ByteItem b (cell_generation tail)) src"
  proof (cases "butlast (dq_view q)")
    case Nil
    with off have "dq_read_offset q \<le> cell_size tail" by simp
    with old view Nil items show ?thesis by (simp add: dq_stream_def q'_def)
  next
    case (Cons d ds)
    with old view items [of 0] show ?thesis by (simp add: dq_stream_def q'_def)
  qed
  have hd: "if cell_kind (hd (dq_view q')) = Rx
      then dq_read_offset q' < cell_size (hd (dq_view q')) else dq_read_offset q' = 0"
  proof (cases "butlast (dq_view q)")
    case Nil
    with off view tail(2) show ?thesis by (simp add: q'_def c_def)
  next
    case (Cons d ds)
    then have "hd (dq_view q) = d" using old by (metis append_Cons list.sel(1))
    with Cons view inv pos show ?thesis by (auto simp: q'_def dq_inv_def split: if_splits)
  qed
  have "list_all cell_ok (butlast (dq_view q))"
    using inv by (auto simp: dq_inv_def list_all_iff dest: in_set_butlastD)
  then have "list_all cell_ok (dq_view q')" using cok by (simp add: view)
  moreover have "list_all (\<lambda>c. length (cell_data c) = kCellBytes) (dq_cells q')"
    using inv cok by (simp add: q'_def dq_inv_def list_all_update cell_ok_def)
  moreover have "length (dq_cells q') = kDepth" "dq_head q' < kDepth" "dq_count q' \<le> kDepth"
    "dq_count q' \<noteq> 0"
    using inv pos by (auto simp: q'_def dq_inv_def)
  ultimately show ?thesis using hd stream by (simp add: dq_inv_def)
qed

lemma tail_space_pos:
  assumes "dq_inv q" "tail_space generation now q \<noteq> 0"
  shows "0 < dq_count q" "cell_kind (dq_cells q ! dq_index q (dq_count q - 1)) = Rx"
    "cell_generation (dq_cells q ! dq_index q (dq_count q - 1)) = generation"
    "tail_space generation now q = kCellBytes - cell_size (dq_cells q ! dq_index q (dq_count q - 1))"
    "tail_span now q \<le> kRxWindowMs"
  using assms(2) by (auto simp: tail_space_def Let_def split: if_splits)

lemma span_fits: "(s :: u32) \<le> kRxWindowMs \<Longrightarrow> (ucast (ucast s :: u16) :: u32) = s"
proof -
  assume "s \<le> kRxWindowMs"
  then have "unat s \<le> 3000" by (simp add: kRxWindowMs_def word_le_nat_alt)
  then have "unat s < 2 ^ 16" by simp
  then show ?thesis
    by (intro iffD2 [OF word_unat_eq_iff]) (simp add: unsigned_ucast_eq unsigned_take_bit_eq take_bit_nat_eq_self)
qed

lemma push_rx_ok:
  assumes inv: "dq_inv q" and eq: "push_rx (Some data) generation now q = (ok, q')"
  shows "dq_inv q' \<and> (\<not> ok \<longrightarrow> q' = q) \<and>
    dq_stream q' = dq_stream q @ (if ok then map (\<lambda>b. ByteItem b generation) data else [])"
proof -
  let ?n = "length data"
  let ?space = "tail_space generation now q"
  define a where "a = (if ?n < ?space then ?n else ?space)"
  have a: "a \<le> ?space" "a \<le> ?n" "a \<noteq> 0 \<Longrightarrow> ?space \<noteq> 0" by (auto simp: a_def split: if_splits)
  let ?i = "dq_index q (dq_count q - 1)"
  let ?tail = "dq_cells q ! ?i"
  show ?thesis
  proof (cases "?n = 0 \<or> kCellBytes < ?n \<or> (a \<noteq> ?n \<and> dq_count q = kDepth)")
    case True
    then have "push_rx (Some data) generation now q = (False, q)"
      unfolding push_rx_def option.case Let_def a_def [symmetric] by auto
    with eq inv show ?thesis by simp
  next
    case False
    then have n: "0 < ?n" "?n \<le> kCellBytes" and room: "a \<noteq> ?n \<longrightarrow> dq_count q \<noteq> kDepth" by auto
    define q1 where "q1 = (if a \<noteq> 0
      then q\<lparr>dq_cells := (dq_cells q)[?i := ?tail\<lparr>
             cell_data := copy_into (cell_size ?tail) (take a data) (cell_data ?tail),
             cell_size := cell_size ?tail + a, cell_span_ms := ucast (tail_span now q)\<rparr>]\<rparr>
      else q)"
    have q1: "dq_inv q1 \<and> dq_count q1 = dq_count q \<and>
      dq_stream q1 = dq_stream q @ map (\<lambda>b. ByteItem b generation) (take a data)"
    proof (cases "a = 0")
      case True
      with inv show ?thesis by (simp add: q1_def)
    next
      case nz: False
      then have sp: "?space \<noteq> 0" by (rule a(3))
      note t = tail_space_pos [OF inv sp]
      have "length (take a data) = a" using a(2) by simp
      moreover have "cell_size ?tail + a \<le> kCellBytes"
      proof -
        have "a \<le> ?space" by (rule a(1))
        with t(4) sp show ?thesis by linarith
      qed
      moreover have "ucast (ucast (tail_span now q) :: u16) \<le> kRxWindowMs"
        using span_fits [OF t(5)] t(5) by simp
      ultimately show ?thesis
        using dq_extend_tail [OF inv t(1) refl t(2), of "take a data" "ucast (tail_span now q)"] nz t(3) n
        by (simp add: q1_def)
    qed
    define q2 where "q2 = (if a \<noteq> ?n
      then let ni = dq_index q1 (dq_count q1); cell = dq_cells q1 ! ni in
           q1\<lparr>dq_cells := (dq_cells q1)[ni := cell\<lparr>cell_generation := generation,
             cell_received_ms := now, cell_span_ms := 0, cell_size := ?n - a, cell_kind := Rx,
             cell_data := copy_into 0 (drop a data) (cell_data cell)\<rparr>], dq_count := dq_count q1 + 1\<rparr>
      else q1)"
    have q2: "dq_inv q2 \<and> dq_stream q2 = dq_stream q1 @ map (\<lambda>b. ByteItem b generation) (drop a data)"
    proof (cases "a = ?n")
      case True
      with q1 show ?thesis by (simp add: q2_def)
    next
      case more: False
      let ?cell = "dq_cells q1 ! dq_index q1 (dq_count q1)"
      let ?c = "?cell\<lparr>cell_generation := generation, cell_received_ms := now, cell_span_ms := 0,
        cell_size := ?n - a, cell_kind := Rx, cell_data := copy_into 0 (drop a data) (cell_data ?cell)\<rparr>"
      have lt: "a < ?n" using more a(2) by simp
      have "dq_index q1 (dq_count q1) < length (dq_cells q1)"
        using q1 by (simp add: dq_index_def dq_inv_def kDepth_def)
      then have len: "length (cell_data ?cell) = kCellBytes"
        using q1 by (simp add: dq_inv_def list_all_length)
      then have "cell_ok ?c" using lt n by (simp add: cell_ok_def kRxWindowMs_def)
      moreover have "dq_count q1 < kDepth" using q1 room more by (simp add: dq_inv_def)
      moreover have "cell_items 0 ?c = map (\<lambda>b. ByteItem b generation) (drop a data)"
        using len n take_copy_into [of 0 "drop a data" "cell_data ?cell"] by (simp add: cell_items_def)
      ultimately show ?thesis
        using q1 dq_append_cell [of q1 ?c] more by (simp add: q2_def Let_def)
    qed
    have a256: "a \<noteq> 0 \<Longrightarrow> (cell_size ?tail + a) mod 256 = cell_size ?tail + a"
    proof -
      assume "a \<noteq> 0"
      then have sp: "?space \<noteq> 0" by (rule a(3))
      note t = tail_space_pos [OF inv sp]
      have "a \<le> ?space" by (rule a(1))
      with t(4) sp have "cell_size ?tail + a \<le> kCellBytes" by linarith
      then show ?thesis by (simp add: dq_sizes)
    qed
    have n256: "(?n - a) mod 256 = ?n - a" using n by (simp add: dq_sizes)
    have "push_rx (Some data) generation now q = (True, q2)"
      unfolding push_rx_def option.case Let_def a_def [symmetric]
      using False n256
      by (cases "a = 0"; cases "a = ?n") (use a256 in \<open>simp_all add: q2_def q1_def Let_def\<close>)
    with eq q1 q2 show ?thesis
      by (auto simp: map_append [symmetric] simp del: map_append)
  qed
qed

lemma dq_pop_ok:
  assumes inv: "dq_inv q" and eq: "dq_pop q = (out, q')"
  shows "dq_inv q' \<and> (case out of
      None \<Rightarrow> dq_stream q = [] \<and> q' = q
    | Some e \<Rightarrow> dq_stream q = event_items e @ dq_stream q' \<and> event_items e \<noteq> [] \<and>
        ev_size e \<le> kSliceBytes \<and> length (ev_data e) = kSliceBytes \<and>
        (ev_kind e = Rx \<longrightarrow> ucast (ev_span_ms e) \<le> kRxWindowMs))"
proof (cases "dq_count q = 0")
  case True
  then have "dq_view q = []" by (simp add: dq_view_Nil)
  with True eq inv show ?thesis by (auto simp: dq_pop_def dq_stream_def)
next
  case False
  then have pos: "0 < dq_count q" by simp
  define c where "c = hd (dq_view q)"
  obtain cs where view: "dq_view q = c # cs"
    using False length_dq_view [of q] by (cases "dq_view q") (auto simp: c_def)
  have cell: "dq_cells q ! dq_head q = c" using dq_head_nth [OF inv pos] by (simp add: c_def)
  have cok: "cell_ok c" "list_all cell_ok cs" using inv view by (auto simp: dq_inv_def)
  have adv: "dq_view (dq_advance q) = cs" using dq_view_advance [OF inv pos] view by simp
  have cs_ne: "0 < dq_count q - 1 \<Longrightarrow> cs \<noteq> []" using length_dq_view [of q] view by auto
  have adv_inv: "dq_inv (dq_advance q)"
  proof -
    have "cell_kind (hd cs) = Rx \<longrightarrow> 0 < cell_size (hd cs)" if "cs \<noteq> []"
      using cok(2) that by (cases cs) (auto simp: cell_ok_def)
    then show ?thesis
      using inv cok adv cs_ne by (auto simp: dq_inv_def) (auto simp: dq_advance_def kDepth_def)
  qed
  have adv_stream: "dq_stream (dq_advance q) = concat (map (cell_items 0) cs)"
    unfolding dq_stream_def adv by (cases cs) (simp_all add: dq_advance_def)
  have stream: "dq_stream q = cell_items (dq_read_offset q) c @ concat (map (cell_items 0) cs)"
    by (simp add: dq_stream_def view)
  show ?thesis
  proof (cases "cell_kind c = Rx")
    case link: False
    then have off: "dq_read_offset q = 0" using inv pos view by (simp add: dq_inv_def)
    have "q' = dq_advance q" "out = Some (blank_event\<lparr>ev_generation := cell_generation c,
        ev_kind := cell_kind c, ev_conn_handle := cell_conn_handle c\<rparr>)"
      using eq link False by (auto simp: dq_pop_def cell Let_def)
    with link adv_inv adv_stream stream off show ?thesis
      by (cases "cell_kind c") (auto simp: cell_items_def event_items_def blank_event_def)
  next
    case rx: True
    let ?o = "dq_read_offset q"
    define n where "n = (if cell_size c - ?o < kSliceBytes then cell_size c - ?o else kSliceBytes)"
    have o: "?o < cell_size c" "cell_size c \<le> kCellBytes" "length (cell_data c) = kCellBytes"
      using inv pos view rx cok(1) by (auto simp: dq_inv_def cell_ok_def)
    have n: "0 < n" "n \<le> kSliceBytes" "?o + n \<le> cell_size c"
      using o by (auto simp: n_def dq_sizes)
    have m256: "n mod 256 = n" "(?o + n) mod 256 = ?o + n" using n o by (auto simp: dq_sizes)
    define src where "src = take n (drop ?o (cell_data c))"
    have src: "length src = n" using n o by (simp add: src_def)
    define e where "e = blank_event\<lparr>ev_generation := cell_generation c, ev_kind := Rx, ev_size := n,
      ev_data := copy_into 0 src (replicate kSliceBytes 0), ev_received_ms := cell_received_ms c,
      ev_span_ms := (if ?o + n = cell_size c then cell_span_ms c else 0)\<rparr>"
    have items: "event_items e = map (\<lambda>b. ByteItem b (cell_generation c)) src"
      using take_copy_into [of 0 src "replicate kSliceBytes 0"] src n
      by (simp add: event_items_def e_def)
    have edge: "ev_size e \<le> kSliceBytes \<and> length (ev_data e) = kSliceBytes \<and>
        ucast (ev_span_ms e) \<le> kRxWindowMs \<and> event_items e \<noteq> []"
      using n src cok(1) rx items by (auto simp: e_def cell_ok_def kRxWindowMs_def)
    have "n \<le> cell_size c - ?o" using n(3) by simp
    then have src_cut: "src = take n (drop ?o (take (cell_size c) (cell_data c)))"
      by (simp add: src_def drop_take min_absorb1)
    have cut: "drop ?o (take (cell_size c) (cell_data c)) =
        src @ drop (?o + n) (take (cell_size c) (cell_data c))"
      unfolding src_cut by (metis append_take_drop_id drop_drop add.commute)
    have pop: "dq_pop q = (if ?o + n \<noteq> cell_size c then (Some e, q\<lparr>dq_read_offset := ?o + n\<rparr>)
        else (Some e, dq_advance q))"
      using False rx m256
      by (simp add: dq_pop_def cell Let_def n_def [symmetric] e_def src_def blank_event_def)
    show ?thesis
    proof (cases "?o + n = cell_size c")
      case True
      then have "cell_items ?o c = event_items e"
        using rx cut items o by (simp add: cell_items_def)
      with pop True eq adv_inv adv_stream stream edge show ?thesis by auto
    next
      case part: False
      let ?q = "q\<lparr>dq_read_offset := ?o + n\<rparr>"
      have v: "dq_view ?q = c # cs" using view by (simp add: dq_view_def)
      have "dq_inv ?q" using inv n part rx view v False by (auto simp: dq_inv_def)
      moreover have "dq_stream q = event_items e @ dq_stream ?q"
        using rx cut items by (simp add: dq_stream_def view v cell_items_def)
      ultimately show ?thesis using pop part eq edge by auto
    qed
  qed
qed

subsection \<open>Every call sequence\<close>

datatype dq_call = PushLink bool u16 u32 | PushRx "bytes option" u32 u32 | Pop | ClearAll

text \<open>One call: the queue after it, the items it accepted and the items it handed out.\<close>

definition dq_call_result :: "deferred_queue \<Rightarrow> dq_call \<Rightarrow> deferred_queue \<times> dq_item list \<times> dq_item list" where
  "dq_call_result q c = (case c of
      PushLink connected handle generation \<Rightarrow>
        (let (ok, q') = push_link connected handle generation q
         in (q', if ok then [LinkItem connected handle generation] else [], []))
    | PushRx data generation now \<Rightarrow>
        (let (ok, q') = push_rx data generation now q
         in (q', case data of Some bs \<Rightarrow> if ok then map (\<lambda>b. ByteItem b generation) bs else []
                 | None \<Rightarrow> [], []))
    | Pop \<Rightarrow>
        (let (out, q') = dq_pop q
         in (q', [], case out of Some e \<Rightarrow> event_items e | None \<Rightarrow> []))
    | ClearAll \<Rightarrow> (dq_clear q, [], []))"

definition dq_step :: "deferred_queue \<Rightarrow> dq_call \<Rightarrow> deferred_queue" where
  "dq_step q c = fst (dq_call_result q c)"

fun dq_accepted :: "deferred_queue \<Rightarrow> dq_call list \<Rightarrow> dq_item list" where
  "dq_accepted q [] = []"
| "dq_accepted q (c # cs) = fst (snd (dq_call_result q c)) @ dq_accepted (dq_step q c) cs"

fun dq_delivered :: "deferred_queue \<Rightarrow> dq_call list \<Rightarrow> dq_item list" where
  "dq_delivered q [] = []"
| "dq_delivered q (c # cs) = snd (snd (dq_call_result q c)) @ dq_delivered (dq_step q c) cs"

lemma dq_call_ok:
  assumes inv: "dq_inv q"
  shows "dq_inv (dq_step q c) \<and> (c \<noteq> ClearAll \<longrightarrow>
    dq_stream q @ fst (snd (dq_call_result q c)) = snd (snd (dq_call_result q c)) @ dq_stream (dq_step q c))"
proof (cases c)
  case (PushLink b h g)
  obtain ok q' where eq: "push_link b h g q = (ok, q')" by fastforce
  from push_link_ok [OF inv eq] eq PushLink show ?thesis by (simp add: dq_step_def dq_call_result_def)
next
  case (PushRx d g now)
  obtain ok q' where eq: "push_rx d g now q = (ok, q')" by fastforce
  show ?thesis
  proof (cases d)
    case None
    with eq PushRx inv show ?thesis by (auto simp: dq_step_def dq_call_result_def push_rx_def)
  next
    case (Some data)
    with push_rx_ok [OF inv, of data g now ok q'] eq PushRx show ?thesis
      by (simp add: dq_step_def dq_call_result_def)
  qed
next
  case Pop
  obtain out q' where eq: "dq_pop q = (out, q')" by fastforce
  have step: "dq_step q c = q'" "fst (snd (dq_call_result q c)) = []"
    "snd (snd (dq_call_result q c)) = (case out of Some e \<Rightarrow> event_items e | None \<Rightarrow> [])"
    by (simp_all add: dq_step_def dq_call_result_def Pop eq)
  show ?thesis
    using dq_pop_ok [OF inv eq] unfolding step by (cases out) auto
next
  case ClearAll
  with dq_clear_inv [OF inv] show ?thesis by (simp add: dq_step_def dq_call_result_def)
qed

interpretation dq_machine: transition_system dq_step dq_inv "\<lambda>_. True"
  by unfold_locales (simp add: dq_call_ok)

lemma dq_run_stream:
  "dq_inv q \<Longrightarrow> ClearAll \<notin> set cs \<Longrightarrow>
   dq_delivered q cs @ dq_stream (foldl dq_step q cs) = dq_stream q @ dq_accepted q cs"
proof (induction cs arbitrary: q)
  case Nil
  show ?case by simp
next
  case (Cons c cs)
  note ok = dq_call_ok [OF Cons.prems(1), of c]
  have "c \<noteq> ClearAll" using Cons.prems(2) by auto
  with ok Cons.IH [of "dq_step q c"] Cons.prems(2) show ?case
    by (metis append.assoc dq_accepted.simps(2) dq_delivered.simps(2) foldl_Cons list.set_intros(2))
qed

subsection \<open>Properties\<close>

text \<open>C9: The queue is one ordered stream of link changes and bytes: over any pushes and pops, what was
  handed out followed by what is still queued is exactly what was accepted, each byte with the link
  generation it arrived under. Coalescing bytes into cells and slicing them never reorders, drops,
  duplicates or crosses a link change.\<close>

theorem deferred_queue_in_order:
  assumes "ClearAll \<notin> set cs"
  shows "dq_delivered new_deferred_queue cs @ dq_stream (foldl dq_step new_deferred_queue cs) =
    dq_accepted new_deferred_queue cs"
  using dq_run_stream [OF new_deferred_queue_inv assms]
  by (simp add: dq_stream_def dq_view_def new_deferred_queue_def)

theorem deferred_queue_in_order_witness:
  "dq_delivered new_deferred_queue [PushRx (Some [1, 2]) 4 10, PushLink False 7 5, Pop] = [ByteItem 1 4, ByteItem 2 4]"
proof -
  let ?cs = "[PushRx (Some [1, 2]) 4 10, PushLink False 7 5, Pop]"
  have "dq_stream (foldl dq_step new_deferred_queue ?cs) = [LinkItem False 7 5]"
    "dq_accepted new_deferred_queue ?cs = [ByteItem 1 4, ByteItem 2 4, LinkItem False 7 5]" by code_simp+
  with deferred_queue_in_order [of ?cs] show ?thesis by simp
qed

text \<open>In every reachable queue a push is all or nothing: a refused one leaves the queue as it was
  and an accepted one adds all its bytes; a link change is refused only when all sixteen cells are in
  use.\<close>

theorem deferred_push_atomic:
  assumes "q = foldl dq_step new_deferred_queue cs"
  shows "(case push_rx (Some data) generation now q of (ok, q') \<Rightarrow>
      if ok then dq_stream q' = dq_stream q @ map (\<lambda>b. ByteItem b generation) data else q' = q) \<and>
    (case push_link connected handle generation q of (ok, q') \<Rightarrow>
      (ok \<longleftrightarrow> dq_count q < 16) \<and> (if ok
        then dq_stream q' = dq_stream q @ [LinkItem connected handle generation] else q' = q))"
proof -
  have inv: "dq_inv q"
    unfolding assms by (rule dq_machine.run_inv [OF new_deferred_queue_inv]) (simp add: list_all_iff)
  obtain ok q' where eq: "push_rx (Some data) generation now q = (ok, q')" by fastforce
  obtain ok2 q2 where eq2: "push_link connected handle generation q = (ok2, q2)" by fastforce
  have "dq_count q \<le> 16" using inv by (simp add: dq_inv_def kDepth_def)
  with push_rx_ok [OF inv eq] push_link_ok [OF inv eq2] eq eq2 show ?thesis
    by (auto simp: kDepth_def push_link_def Let_def split: if_splits)
qed

theorem deferred_push_atomic_witness:
  "fst (push_link True 1 2 new_deferred_queue)"
  using deferred_push_atomic [where q = new_deferred_queue and cs = "[]" and connected = True and handle = 1
    and generation = 2]
  by (cases "push_link True 1 2 new_deferred_queue") (auto simp: new_deferred_queue_def)

text \<open>What a reachable queue hands the framer is always within the framer's limits: a received slice
  has 1 to 20 bytes and an arrival span of at most 3000 ms, so pushing it into a framer with the
  runner's 3000 ms timeout never drops it for its span and never trips the buffer ceiling.\<close>

theorem deferred_slices_fit_framer:
  assumes "q = foldl dq_step new_deferred_queue cs" "dq_pop q = (Some e, q')" "ev_kind e = Rx"
    "rx_inv f" "rx_timeout_ms f = 3000"
  shows "0 < ev_size e \<and> ev_size e \<le> 20 \<and> ucast (ev_span_ms e) \<le> (3000 :: u32) \<and>
    (\<exists>b evs g. check_timeout (ev_received_ms e) f = (b, evs, g) \<and>
      push_chunk resets (Some (take (ev_size e) (ev_data e))) (ev_received_ms e) (ev_span_ms e) f =
      (let (n, evs', h) = extract_frames resets (g\<lparr>rx_buffer := rx_buffer g @ take (ev_size e) (ev_data e),
             rx_last_chunk_time_ms := ev_received_ms e + ucast (ev_span_ms e), rx_has_chunk_time := True\<rparr>)
       in (n, evs @ evs', if rx_buffer h = [] then h\<lparr>rx_has_chunk_time := False\<rparr> else h)))"
proof -
  have inv: "dq_inv q"
    unfolding assms(1) by (rule dq_machine.run_inv [OF new_deferred_queue_inv]) (simp add: list_all_iff)
  from dq_pop_ok [OF inv assms(2)] assms(3)
  have e: "0 < ev_size e" "ev_size e \<le> 20" "ucast (ev_span_ms e) \<le> (3000 :: u32)" "length (ev_data e) = 20"
    by (auto simp: event_items_def dq_sizes kRxWindowMs_def)
  obtain b evs g where g: "check_timeout (ev_received_ms e) f = (b, evs, g)" using prod_cases3 by blast
  have "rx_inv g" "rx_timeout_ms g = 3000"
    using check_timeout_facts [OF g] assms(4,5) by auto
  with e g show ?thesis
    by (auto simp: push_chunk_def Let_def rx_inv_def kHeaderSize_def not_less split: prod.splits)
qed

theorem deferred_slices_fit_framer_witness:
  "ev_size (the (fst (dq_pop (foldl dq_step new_deferred_queue [PushRx (Some [1, 2]) 4 10])))) \<le> 20"
proof -
  let ?q = "foldl dq_step new_deferred_queue [PushRx (Some [1, 2]) 4 10]"
  obtain e q' where e: "dq_pop ?q = (Some e, q')" "ev_kind e = Rx"
  proof
    show "dq_pop ?q = (Some (the (fst (dq_pop ?q))), snd (dq_pop ?q))" by code_simp
    show "ev_kind (the (fst (dq_pop ?q))) = Rx" by code_simp
  qed
  have "rx_timeout_ms (new_rx_framer 3000 2048) = 3000" by (simp add: new_rx_framer_def)
  from deferred_slices_fit_framer [OF refl e rx_inv_new this] e show ?thesis by simp
qed

end
