(* ===== verification/ConfigStore.thy ===== *)
theory ConfigStore
  imports Prelude
begin

text \<open>
  main/logic/config_store.hpp: the credential and service configuration in one versioned,
  CRC-checked blob. A \<open>std::string\<close> field holds arbitrary bytes and is a byte list; an output
  pointer is an optional buffer that the writer updates in place.
\<close>

subsection \<open>State\<close>

record config_blob =
  wifi_ssid :: bytes
  wifi_pass :: bytes
  wifi_ssid_backup :: bytes
  wifi_pass_backup :: bytes
  wifi_rollback_active :: bool
  wifi_rolled_back :: bool
  cfg_vin :: bytes
  mqtt_uri :: bytes
  syslog_uri :: bytes
  ota_channel :: u32
  has_ota :: bool

definition new_config_blob :: config_blob where
  "new_config_blob = \<lparr>wifi_ssid = [], wifi_pass = [], wifi_ssid_backup = [], wifi_pass_backup = [],
     wifi_rollback_active = False, wifi_rolled_back = False, cfg_vin = [], mqtt_uri = [],
     syslog_uri = [], ota_channel = 0, has_ota = False\<rparr>"

definition config_apply_setup_wifi :: "config_blob \<Rightarrow> bytes \<Rightarrow> bytes \<Rightarrow> config_blob" where
  "config_apply_setup_wifi cfg ssid pass =
     cfg\<lparr>wifi_ssid := ssid, wifi_pass := pass, wifi_ssid_backup := [], wifi_pass_backup := [],
         wifi_rollback_active := False, wifi_rolled_back := False\<rparr>"

definition kServiceTargetInputMaxBytes :: nat where "kServiceTargetInputMaxBytes = 64"
definition kServiceTargetPreserveMaxBytes :: nat where "kServiceTargetPreserveMaxBytes = 120"

definition kConfigBlobMagic :: bytes where "kConfigBlobMagic = [0x54, 0x4B, 0x43, 0x31]"
definition kConfigBlobVersion :: u8 where "kConfigBlobVersion = 1"
definition kConfigBlobVersionMin :: u8 where "kConfigBlobVersionMin = 1"

definition kConfigMaxSsidLen :: nat where "kConfigMaxSsidLen = 32"
definition kConfigMaxWifiPassLen :: nat where "kConfigMaxWifiPassLen = 64"
definition kConfigMaxVinLen :: nat where "kConfigMaxVinLen = 17"
definition kConfigMaxUriLen :: nat where "kConfigMaxUriLen = kServiceTargetPreserveMaxBytes"
definition kConfigBlobDecodeMaxStr :: nat where "kConfigBlobDecodeMaxStr = 256"

definition kBlobHeaderBytes :: nat where "kBlobHeaderBytes = 5"
definition kBlobCrcBytes :: nat where "kBlobCrcBytes = 4"

definition blob_str_bytes :: "nat \<Rightarrow> nat" where "blob_str_bytes max_len = 2 + max_len"

definition kConfigBlobEncodedMax :: nat where
  "kConfigBlobEncodedMax = kBlobHeaderBytes + blob_str_bytes kConfigMaxSsidLen +
     blob_str_bytes kConfigMaxWifiPassLen + blob_str_bytes kConfigMaxSsidLen +
     blob_str_bytes kConfigMaxWifiPassLen + 1 + blob_str_bytes kConfigMaxVinLen +
     blob_str_bytes kConfigMaxUriLen + blob_str_bytes kConfigMaxUriLen + kBlobCrcBytes"

definition kConfigBlobCapBytes :: nat where "kConfigBlobCapBytes = 512"

lemmas config_bounds = kConfigMaxSsidLen_def kConfigMaxWifiPassLen_def kConfigMaxVinLen_def
  kConfigMaxUriLen_def kServiceTargetPreserveMaxBytes_def

lemmas blob_sizes = kBlobHeaderBytes_def kBlobCrcBytes_def kConfigBlobVersion_def
  kConfigBlobVersionMin_def kConfigBlobDecodeMaxStr_def

subsection \<open>Checksum\<close>

definition crc_bit :: "u32 \<Rightarrow> u32" where
  "crc_bit crc = drop_bit 1 crc XOR (0xEDB88320 AND (NOT (crc AND 1) + 1))"

definition crc_byte :: "u32 \<Rightarrow> u8 \<Rightarrow> u32" where
  "crc_byte crc b = (crc_bit ^^ 8) (crc XOR ucast b)"

definition config_crc32 :: "bytes \<Rightarrow> u32" where
  "config_crc32 data = foldl crc_byte 0xFFFFFFFF data XOR 0xFFFFFFFF"

subsection \<open>Writing\<close>

record blob_writer =
  w_out :: bytes
  w_cap :: nat
  w_n :: nat
  w_ok :: bool

definition put_u8 :: "u8 \<Rightarrow> blob_writer \<Rightarrow> blob_writer" where
  "put_u8 x w =
     (if \<not> w_ok w then w
      else if w_cap w \<le> w_n w then w\<lparr>w_ok := False\<rparr>
      else w\<lparr>w_out := (w_out w)[w_n w := x], w_n := w_n w + 1\<rparr>)"

definition put_u16 :: "u16 \<Rightarrow> blob_writer \<Rightarrow> blob_writer" where
  "put_u16 x w = put_u8 (ucast (drop_bit 8 x AND 0xFF)) (put_u8 (ucast (x AND 0xFF)) w)"

definition put_u32 :: "u32 \<Rightarrow> blob_writer \<Rightarrow> blob_writer" where
  "put_u32 x w = put_u8 (ucast (drop_bit 24 x AND 0xFF)) (put_u8 (ucast (drop_bit 16 x AND 0xFF))
     (put_u8 (ucast (drop_bit 8 x AND 0xFF)) (put_u8 (ucast (x AND 0xFF)) w)))"

definition put_str :: "bytes \<Rightarrow> nat \<Rightarrow> blob_writer \<Rightarrow> blob_writer" where
  "put_str s max_len w =
     (if \<not> w_ok w then w
      else if max_len < length s then w\<lparr>w_ok := False\<rparr>
      else foldl (\<lambda>w c. put_u8 c w) (put_u16 (of_nat (length s)) w) s)"

definition config_flags :: "config_blob \<Rightarrow> u8" where
  "config_flags c = (if wifi_rollback_active c then 1 else 0) OR (if wifi_rolled_back c then 2 else 0) OR
     (if has_ota c then 4 else 0) OR (if ota_channel c \<noteq> 0 then 8 else 0)"

definition config_blob_encode :: "config_blob \<Rightarrow> bytes option \<Rightarrow> nat \<Rightarrow> nat \<times> bytes option" where
  "config_blob_encode c out_ptr cap =
     (case out_ptr of
        None \<Rightarrow> (0, None)
      | Some out \<Rightarrow>
          let w0 = \<lparr>w_out = out, w_cap = cap, w_n = 0, w_ok = True\<rparr>;
              w1 = put_u8 kConfigBlobVersion (foldl (\<lambda>w b. put_u8 b w) w0 kConfigBlobMagic);
              w2 = put_str (wifi_pass_backup c) kConfigMaxWifiPassLen
                     (put_str (wifi_ssid_backup c) kConfigMaxSsidLen
                     (put_str (wifi_pass c) kConfigMaxWifiPassLen
                     (put_str (wifi_ssid c) kConfigMaxSsidLen w1)));
              w3 = put_u8 (config_flags c) w2;
              w4 = put_str (syslog_uri c) kConfigMaxUriLen (put_str (mqtt_uri c) kConfigMaxUriLen
                     (put_str (cfg_vin c) kConfigMaxVinLen w3))
          in if \<not> w_ok w4 then (0, Some (w_out w4))
             else let w5 = put_u32 (config_crc32 (take (w_n w4) (w_out w4))) w4
                  in if \<not> w_ok w5 then (0, Some (w_out w5)) else (w_n w5, Some (w_out w5)))"

subsection \<open>Reading\<close>

definition get_str :: "bytes \<Rightarrow> nat \<Rightarrow> nat \<Rightarrow> (bytes \<times> nat) option" where
  "get_str img body_end p =
     (if body_end < p + 2 then None
      else let n = unat (le16 (img ! p) (img ! (p + 1))); p' = p + 2 in
           if kConfigBlobDecodeMaxStr < n \<or> body_end < p' + n then None
           else Some (take n (drop p' img), p' + n))"

definition decode_body :: "bytes \<Rightarrow> nat \<Rightarrow> nat \<Rightarrow> config_blob option" where
  "decode_body img body_end p0 =
     (case get_str img body_end p0 of None \<Rightarrow> None | Some (ssid, p1) \<Rightarrow>
      case get_str img body_end p1 of None \<Rightarrow> None | Some (pass, p2) \<Rightarrow>
      case get_str img body_end p2 of None \<Rightarrow> None | Some (ssid_backup, p3) \<Rightarrow>
      case get_str img body_end p3 of None \<Rightarrow> None | Some (pass_backup, p4) \<Rightarrow>
      if body_end < p4 + 1 then None else
      let flags = img ! p4 in
      case get_str img body_end (p4 + 1) of None \<Rightarrow> None | Some (vin, p5) \<Rightarrow>
      case get_str img body_end p5 of None \<Rightarrow> None | Some (mqtt, p6) \<Rightarrow>
      case get_str img body_end p6 of None \<Rightarrow> None | Some (syslog, p7) \<Rightarrow>
      if p7 \<noteq> body_end then None
      else Some \<lparr>wifi_ssid = ssid, wifi_pass = pass, wifi_ssid_backup = ssid_backup,
             wifi_pass_backup = pass_backup, wifi_rollback_active = (flags AND 1 \<noteq> 0),
             wifi_rolled_back = (flags AND 2 \<noteq> 0), cfg_vin = vin, mqtt_uri = mqtt,
             syslog_uri = syslog, ota_channel = (if flags AND 8 \<noteq> 0 then 1 else 0),
             has_ota = (flags AND 4 \<noteq> 0)\<rparr>)"

definition config_blob_decode :: "bytes option \<Rightarrow> config_blob \<Rightarrow> bool \<times> config_blob" where
  "config_blob_decode in_ptr out =
     (case in_ptr of
        None \<Rightarrow> (False, out)
      | Some img \<Rightarrow>
          let len = length img in
          if len < kBlobHeaderBytes + kBlobCrcBytes then (False, out)
          else if img ! 0 \<noteq> kConfigBlobMagic ! 0 \<or> img ! 1 \<noteq> kConfigBlobMagic ! 1 \<or>
                  img ! 2 \<noteq> kConfigBlobMagic ! 2 \<or> img ! 3 \<noteq> kConfigBlobMagic ! 3 then (False, out)
          else let version = img ! 4 in
          if version < kConfigBlobVersionMin \<or> kConfigBlobVersion < version then (False, out)
          else let want = le32 (img ! (len - 4)) (img ! (len - 3)) (img ! (len - 2)) (img ! (len - 1)) in
          if config_crc32 (take (len - 4) img) \<noteq> want then (False, out)
          else case decode_body img (len - kBlobCrcBytes) kBlobHeaderBytes of
                 None \<Rightarrow> (False, out)
               | Some c \<Rightarrow> (True, c))"

definition config_save_succeeded :: "bool \<Rightarrow> bool \<Rightarrow> bool \<Rightarrow> bool" where
  "config_save_succeeded blob_ok aux_ok require_aux \<longleftrightarrow> blob_ok \<and> (\<not> require_aux \<or> aux_ok)"

subsection \<open>The layout\<close>

definition le16_image :: "u16 \<Rightarrow> bytes" where
  "le16_image w = [ucast (w AND 0xFF), ucast (drop_bit 8 w AND 0xFF)]"

definition le32_image :: "u32 \<Rightarrow> bytes" where
  "le32_image w = [ucast (w AND 0xFF), ucast (drop_bit 8 w AND 0xFF), ucast (drop_bit 16 w AND 0xFF),
     ucast (drop_bit 24 w AND 0xFF)]"

definition str_image :: "bytes \<Rightarrow> bytes" where
  "str_image s = le16_image (of_nat (length s)) @ s"

definition fields_image :: "u8 \<Rightarrow> config_blob \<Rightarrow> bytes" where
  "fields_image flags c = str_image (wifi_ssid c) @ str_image (wifi_pass c) @
     str_image (wifi_ssid_backup c) @ str_image (wifi_pass_backup c) @ [flags] @
     str_image (cfg_vin c) @ str_image (mqtt_uri c) @ str_image (syslog_uri c)"

definition body_image :: "u8 \<Rightarrow> config_blob \<Rightarrow> bytes" where
  "body_image flags c = kConfigBlobMagic @ [kConfigBlobVersion] @ fields_image flags c"

definition config_image :: "u8 \<Rightarrow> config_blob \<Rightarrow> bytes" where
  "config_image flags c = body_image flags c @ le32_image (config_crc32 (body_image flags c))"

definition config_fits :: "config_blob \<Rightarrow> bool" where
  "config_fits c \<longleftrightarrow> length (wifi_ssid c) \<le> kConfigMaxSsidLen \<and> length (wifi_pass c) \<le> kConfigMaxWifiPassLen \<and>
     length (wifi_ssid_backup c) \<le> kConfigMaxSsidLen \<and> length (wifi_pass_backup c) \<le> kConfigMaxWifiPassLen \<and>
     length (cfg_vin c) \<le> kConfigMaxVinLen \<and> length (mqtt_uri c) \<le> kConfigMaxUriLen \<and>
     length (syslog_uri c) \<le> kConfigMaxUriLen"

definition config_readable :: "config_blob \<Rightarrow> bool" where
  "config_readable c \<longleftrightarrow> list_all (\<lambda>s. length s \<le> kConfigBlobDecodeMaxStr)
     [wifi_ssid c, wifi_pass c, wifi_ssid_backup c, wifi_pass_backup c, cfg_vin c, mqtt_uri c, syslog_uri c]"

lemma length_le16_image [simp]: "length (le16_image w) = 2"
  by (simp add: le16_image_def)

lemma length_le32_image [simp]: "length (le32_image w) = 4"
  by (simp add: le32_image_def)

lemma length_str_image [simp]: "length (str_image s) = 2 + length s"
  by (simp add: str_image_def)

lemma config_fits_readable: "config_fits c \<Longrightarrow> config_readable c"
  by (simp add: config_fits_def config_readable_def config_bounds kConfigBlobDecodeMaxStr_def)

lemma config_image_length:
  "config_fits c \<Longrightarrow> length (config_image flags c) \<le> kConfigBlobEncodedMax"
  by (simp add: config_image_def body_image_def fields_image_def config_fits_def kConfigBlobEncodedMax_def
      blob_str_bytes_def kBlobHeaderBytes_def kBlobCrcBytes_def kConfigBlobMagic_def)

subsection \<open>The writer appends\<close>

text \<open>\<open>emits ok xs f\<close>: the writer action \<open>f\<close> appends exactly \<open>xs\<close>, unless \<open>ok\<close> is false or the
  buffer is too small; then it leaves the writer failed, for good.\<close>

definition written :: "blob_writer \<Rightarrow> bytes" where
  "written w = take (w_n w) (w_out w)"

definition writer_wf :: "blob_writer \<Rightarrow> bool" where
  "writer_wf w \<longleftrightarrow> w_n w \<le> w_cap w \<and> w_cap w \<le> length (w_out w)"

definition emits :: "bool \<Rightarrow> bytes \<Rightarrow> (blob_writer \<Rightarrow> blob_writer) \<Rightarrow> bool" where
  "emits ok xs f \<longleftrightarrow> (\<forall>w. writer_wf w \<longrightarrow> writer_wf (f w) \<and> w_cap (f w) = w_cap w \<and>
     length (w_out (f w)) = length (w_out w) \<and>
     (w_ok (f w) \<longleftrightarrow> w_ok w \<and> ok \<and> w_n w + length xs \<le> w_cap w) \<and>
     (w_ok (f w) \<longrightarrow> w_n (f w) = w_n w + length xs \<and> written (f w) = written w @ xs))"

lemma emits_comp:
  "emits ok xs f \<Longrightarrow> emits ok' ys g \<Longrightarrow> emits (ok \<and> ok') (xs @ ys) (\<lambda>w. g (f w))"
  unfolding emits_def by (smt (verit) add.assoc append.assoc le_add1 le_trans length_append)

lemma emits_id: "emits True [] (\<lambda>w. w)"
  by (auto simp: emits_def writer_wf_def)

lemma emits_put_u8: "emits True [x] (put_u8 x)"
  by (auto simp: emits_def put_u8_def writer_wf_def written_def take_Suc_conv_app_nth)

lemma emits_foldl: "emits True xs (\<lambda>w. foldl (\<lambda>w c. put_u8 c w) w xs)"
proof (induction xs)
  case Nil
  show ?case using emits_id by simp
next
  case (Cons x xs)
  from emits_comp [OF emits_put_u8 Cons.IH] show ?case by simp
qed

lemma emits_put_u16: "emits True (le16_image x) (put_u16 x)"
  using emits_comp [OF emits_put_u8 emits_put_u8]
  unfolding put_u16_def [abs_def] le16_image_def by simp

lemma emits_put_u32: "emits True (le32_image x) (put_u32 x)"
  using emits_comp [OF emits_comp [OF emits_put_u8 emits_put_u8] emits_comp [OF emits_put_u8 emits_put_u8]]
  unfolding put_u32_def [abs_def] le32_image_def by simp

lemma emits_put_str: "emits (length s \<le> m) (str_image s) (put_str s m)"
proof (cases "length s \<le> m")
  case True
  have "emits True (str_image s) (\<lambda>w. foldl (\<lambda>w c. put_u8 c w) (put_u16 (of_nat (length s)) w) s)"
    using emits_comp [OF emits_put_u16 emits_foldl] by (simp add: str_image_def)
  with True show ?thesis by (auto simp: emits_def put_str_def)
next
  case False
  then show ?thesis by (auto simp: emits_def put_str_def writer_wf_def)
qed

lemma encode_writes:
  assumes "cap \<le> length out"
  shows "config_blob_encode c (Some out) cap =
    (if config_fits c \<and> length (config_image (config_flags c) c) \<le> cap
     then (length (config_image (config_flags c) c), snd (config_blob_encode c (Some out) cap))
     else (0, snd (config_blob_encode c (Some out) cap))) \<and>
    (\<exists>buf. snd (config_blob_encode c (Some out) cap) = Some buf \<and> length buf = length out \<and>
      (config_fits c \<and> length (config_image (config_flags c) c) \<le> cap \<longrightarrow>
       take (length (config_image (config_flags c) c)) buf = config_image (config_flags c) c))"
proof -
  define w0 where "w0 = \<lparr>w_out = out, w_cap = cap, w_n = 0, w_ok = True\<rparr>"
  define body where "body w = put_str (syslog_uri c) kConfigMaxUriLen (put_str (mqtt_uri c) kConfigMaxUriLen
    (put_str (cfg_vin c) kConfigMaxVinLen (put_u8 (config_flags c)
    (put_str (wifi_pass_backup c) kConfigMaxWifiPassLen (put_str (wifi_ssid_backup c) kConfigMaxSsidLen
    (put_str (wifi_pass c) kConfigMaxWifiPassLen (put_str (wifi_ssid c) kConfigMaxSsidLen
    (put_u8 kConfigBlobVersion (foldl (\<lambda>w b. put_u8 b w) w kConfigBlobMagic)))))))))" for w
  define img where "img = body_image (config_flags c) c"
  note e1 = emits_comp [OF emits_foldl [of kConfigBlobMagic] emits_put_u8 [of kConfigBlobVersion]]
  note e2 = emits_comp [OF e1 emits_put_str [of "wifi_ssid c" kConfigMaxSsidLen]]
  note e3 = emits_comp [OF e2 emits_put_str [of "wifi_pass c" kConfigMaxWifiPassLen]]
  note e4 = emits_comp [OF e3 emits_put_str [of "wifi_ssid_backup c" kConfigMaxSsidLen]]
  note e5 = emits_comp [OF e4 emits_put_str [of "wifi_pass_backup c" kConfigMaxWifiPassLen]]
  note e6 = emits_comp [OF e5 emits_put_u8 [of "config_flags c"]]
  note e7 = emits_comp [OF e6 emits_put_str [of "cfg_vin c" kConfigMaxVinLen]]
  note e8 = emits_comp [OF e7 emits_put_str [of "mqtt_uri c" kConfigMaxUriLen]]
  note e9 = emits_comp [OF e8 emits_put_str [of "syslog_uri c" kConfigMaxUriLen]]
  have em: "emits (config_fits c) img body"
    unfolding body_def [abs_def]
    using e9
    by (simp add: config_fits_def img_def body_image_def fields_image_def conj_assoc)
  have w0: "writer_wf w0" "w_cap w0 = cap" "w_n w0 = 0" "w_ok w0" "w_out w0 = out"
    using assms by (simp_all add: w0_def writer_wf_def)
  define w4 where "w4 = body w0"
  have w4: "writer_wf w4" "w_cap w4 = cap" "length (w_out w4) = length out"
    "w_ok w4 \<longleftrightarrow> config_fits c \<and> length img \<le> cap"
    "w_ok w4 \<Longrightarrow> w_n w4 = length img" "w_ok w4 \<Longrightarrow> written w4 = img"
    using em w0 by (auto simp: emits_def w4_def written_def)
  define w5 where "w5 = put_u32 (config_crc32 img) w4"
  have w5: "length (w_out w5) = length out" "w_ok w5 \<longleftrightarrow> w_ok w4 \<and> w_n w4 + 4 \<le> cap"
    "w_ok w5 \<Longrightarrow> w_n w5 = w_n w4 + 4" "w_ok w5 \<Longrightarrow> written w5 = written w4 @ le32_image (config_crc32 img)"
    using emits_put_u32 [of "config_crc32 img"] w4(1-3) by (auto simp: emits_def w5_def)
  have enc: "config_blob_encode c (Some out) cap =
      (if \<not> w_ok w4 then (0, Some (w_out w4)) else if \<not> w_ok w5 then (0, Some (w_out w5))
       else (w_n w5, Some (w_out w5)))"
    using w4(6) by (simp add: config_blob_encode_def Let_def w0_def [symmetric] body_def [symmetric]
        w4_def [symmetric] w5_def written_def)
  have image: "config_image (config_flags c) c = img @ le32_image (config_crc32 img)"
    by (simp add: config_image_def img_def)
  show ?thesis
  proof (cases "w_ok w4 \<and> w_ok w5")
    case True
    with w4 w5 show ?thesis unfolding enc image by (auto simp: written_def)
  next
    case False
    with w4 w5 show ?thesis unfolding enc image by auto
  qed
qed

subsection \<open>The reader accepts exactly the layout\<close>

lemma le16_image_value:
  "n < 65536 \<Longrightarrow> unat (le16 (le16_image (of_nat n) ! 0) (le16_image (of_nat n) ! 1)) = n"
  unfolding le16_image_def by (simp add: le16_bytes unat_of_nat take_bit_nat_eq_self)

lemma bit_byte_high [simp]: "\<not> bit (b :: u8) (8 + n)"
  using bit_imp_le_length [of b "8 + n"] by auto

lemma le16_image_inverse: "le16_image (le16 lo hi) = [lo, hi]"
  unfolding le16_image_def byte_mask le16_def
  by (auto intro!: bit_word_eqI
      simp: bit_or_iff bit_push_bit_iff bit_ucast_iff bit_drop_bit_eq bit_and_iff bit_mask_iff)

lemma get_str_prefix:
  assumes "body_end \<le> length img" "length s \<le> kConfigBlobDecodeMaxStr"
    "drop p (take body_end img) = str_image s @ r"
  shows "get_str img body_end p = Some (s, p + 2 + length s) \<and>
    drop (p + 2 + length s) (take body_end img) = r \<and> p + 2 + length s \<le> body_end"
proof -
  have "length (drop p (take body_end img)) = body_end - p" using assms(1) by simp
  then have len: "p + 2 + length s + length r = body_end"
    using assms(3) by simp
  have "img ! (p + i) = drop p (take body_end img) ! i" if "i < 2" for i
    using assms(1) len that by simp
  from this [of 0] this [of 1] have hd: "img ! p = le16_image (of_nat (length s)) ! 0"
    "img ! (p + 1) = le16_image (of_nat (length s)) ! 1"
    unfolding assms(3) by (simp_all add: str_image_def nth_append)
  have n: "unat (le16 (img ! p) (img ! (p + 1))) = length s"
    unfolding hd by (rule le16_image_value) (use assms(2) in \<open>simp add: kConfigBlobDecodeMaxStr_def\<close>)
  have rest: "drop (p + 2) (take body_end img) = s @ r"
    using arg_cong [OF assms(3), of "drop 2"] by (simp add: str_image_def add.commute)
  have "take (length s) (drop (p + 2) img) = take (length s) (drop (p + 2) (take body_end img))"
    using len by (simp add: drop_take min_absorb1)
  then have "take (length s) (drop (p + 2) img) = s" unfolding rest by simp
  moreover have "drop (p + 2 + length s) (take body_end img) = r"
    using arg_cong [OF rest, of "drop (length s)"] by (simp add: ac_simps)
  ultimately show ?thesis using n len assms(2) by (simp add: get_str_def Let_def)
qed

lemma get_str_sound:
  assumes "body_end \<le> length img" "get_str img body_end p = Some (s, p')"
  shows "length s \<le> kConfigBlobDecodeMaxStr \<and> p' \<le> body_end \<and>
    drop p (take body_end img) = str_image s @ drop p' (take body_end img)"
proof -
  let ?n = "unat (le16 (img ! p) (img ! (p + 1)))"
  from assms(2) have g: "p + 2 \<le> body_end" "?n \<le> kConfigBlobDecodeMaxStr" "p + 2 + ?n \<le> body_end"
    "s = take ?n (drop (p + 2) img)" "p' = p + 2 + ?n"
    by (auto simp: get_str_def Let_def not_less split: if_splits)
  then have len: "length s = ?n" using assms(1) by simp
  have "take 2 (drop p (take body_end img)) = [img ! p, img ! (p + 1)]"
    using g assms(1) by (simp add: drop_take numeral_2_eq_2 take_Suc_conv_app_nth)
  also have "\<dots> = le16_image (of_nat (length s))"
    unfolding len by (simp add: le16_image_inverse)
  finally have hd: "take 2 (drop p (take body_end img)) = le16_image (of_nat (length s))" .
  have "take ?n (drop (p + 2) (take body_end img)) = s"
    using g by (simp add: drop_take min_absorb1)
  then have "drop (p + 2) (take body_end img) = s @ drop p' (take body_end img)"
    using g(5) append_take_drop_id [of ?n "drop (p + 2) (take body_end img)"] by (simp add: add.commute)
  then have "drop p (take body_end img) = str_image s @ drop p' (take body_end img)"
    using append_take_drop_id [of 2 "drop p (take body_end img)"] hd
    by (simp add: str_image_def add.commute)
  with g len show ?thesis by simp
qed

text \<open>The configuration a flags byte and the seven strings stand for.\<close>

definition apply_flags :: "u8 \<Rightarrow> config_blob \<Rightarrow> config_blob" where
  "apply_flags flags c = c\<lparr>wifi_rollback_active := (flags AND 1 \<noteq> 0), wifi_rolled_back := (flags AND 2 \<noteq> 0),
     ota_channel := (if flags AND 8 \<noteq> 0 then 1 else 0), has_ota := (flags AND 4 \<noteq> 0)\<rparr>"

lemma fields_image_apply_flags [simp]: "fields_image f (apply_flags flags c) = fields_image f c"
  by (simp add: fields_image_def apply_flags_def)

lemma drop_ConsD: "drop n xs = y # ys \<Longrightarrow> n < length xs \<and> xs ! n = y \<and> drop (Suc n) xs = ys"
  by (metis Cons_nth_drop_Suc drop_eq_Nil2 list.distinct(1) list.inject not_le)

lemma decode_body_complete:
  assumes "body_end \<le> length img" "config_readable c"
    "drop p (take body_end img) = fields_image flags c"
  shows "decode_body img body_end p = Some (apply_flags flags c)"
proof -
  note get = get_str_prefix [OF assms(1)]
  from assms(2) have len: "length (wifi_ssid c) \<le> kConfigBlobDecodeMaxStr" "length (wifi_pass c) \<le> kConfigBlobDecodeMaxStr"
    "length (wifi_ssid_backup c) \<le> kConfigBlobDecodeMaxStr" "length (wifi_pass_backup c) \<le> kConfigBlobDecodeMaxStr"
    "length (cfg_vin c) \<le> kConfigBlobDecodeMaxStr" "length (mqtt_uri c) \<le> kConfigBlobDecodeMaxStr"
    "length (syslog_uri c) \<le> kConfigBlobDecodeMaxStr" by (simp_all add: config_readable_def)
  obtain p1 where g1: "get_str img body_end p = Some (wifi_ssid c, p1)"
    "drop p1 (take body_end img) = drop (2 + length (wifi_ssid c)) (fields_image flags c)"
    using get [OF len(1), of p] assms(3) by (simp add: fields_image_def)
  obtain p2 where g2: "get_str img body_end p1 = Some (wifi_pass c, p2)"
    "drop p2 (take body_end img) = str_image (wifi_ssid_backup c) @ str_image (wifi_pass_backup c) @ [flags] @
     str_image (cfg_vin c) @ str_image (mqtt_uri c) @ str_image (syslog_uri c)"
    using get [OF len(2), of p1] g1(2) by (simp add: fields_image_def)
  obtain p3 where g3: "get_str img body_end p2 = Some (wifi_ssid_backup c, p3)"
    "drop p3 (take body_end img) = str_image (wifi_pass_backup c) @ [flags] @
     str_image (cfg_vin c) @ str_image (mqtt_uri c) @ str_image (syslog_uri c)"
    using get [OF len(3), of p2] g2(2) by simp
  obtain p4 where g4: "get_str img body_end p3 = Some (wifi_pass_backup c, p4)"
    "drop p4 (take body_end img) = flags # str_image (cfg_vin c) @ str_image (mqtt_uri c) @ str_image (syslog_uri c)"
    using get [OF len(4), of p3] g3(2) by simp
  then have f: "p4 < body_end" "img ! p4 = flags"
    "drop (p4 + 1) (take body_end img) = str_image (cfg_vin c) @ str_image (mqtt_uri c) @ str_image (syslog_uri c)"
    using assms(1) drop_ConsD [OF g4(2)] by auto
  obtain p5 where g5: "get_str img body_end (p4 + 1) = Some (cfg_vin c, p5)"
    "drop p5 (take body_end img) = str_image (mqtt_uri c) @ str_image (syslog_uri c)"
    using get [OF len(5), of "p4 + 1"] f(3) by simp
  obtain p6 where g6: "get_str img body_end p5 = Some (mqtt_uri c, p6)"
    "drop p6 (take body_end img) = str_image (syslog_uri c)"
    using get [OF len(6), of p5] g5(2) by simp
  obtain p7 where g7: "get_str img body_end p6 = Some (syslog_uri c, p7)"
    "drop p7 (take body_end img) = []" "p7 \<le> body_end"
    using get [OF len(7), of p6 "[]"] g6(2) by simp
  then have "p7 = body_end" using assms(1) by simp
  then show ?thesis
    using g1(1) g2(1) g3(1) g4(1) g5(1) g6(1) g7(1) f
    by (simp add: decode_body_def apply_flags_def)
qed

lemma decode_body_sound:
  assumes e: "body_end \<le> length img" and dec: "decode_body img body_end p = Some c"
  shows "\<exists>flags. config_readable c \<and> c = apply_flags flags c \<and>
    drop p (take body_end img) = fields_image flags c"
proof -
  from dec obtain ssid p1 pass p2 sb p3 pb p4 v p5 m p6 y p7 where g:
    "get_str img body_end p = Some (ssid, p1)" "get_str img body_end p1 = Some (pass, p2)"
    "get_str img body_end p2 = Some (sb, p3)" "get_str img body_end p3 = Some (pb, p4)"
    "p4 + 1 \<le> body_end" "get_str img body_end (p4 + 1) = Some (v, p5)"
    "get_str img body_end p5 = Some (m, p6)" "get_str img body_end p6 = Some (y, p7)" "p7 = body_end"
    and c: "c = apply_flags (img ! p4) \<lparr>wifi_ssid = ssid, wifi_pass = pass, wifi_ssid_backup = sb,
      wifi_pass_backup = pb, wifi_rollback_active = False, wifi_rolled_back = False, cfg_vin = v,
      mqtt_uri = m, syslog_uri = y, ota_channel = 0, has_ota = False\<rparr>"
    by (auto simp: decode_body_def apply_flags_def Let_def not_less split: option.splits prod.splits if_splits)
  note s = get_str_sound [OF e]
  have "drop p4 (take body_end img) = (img ! p4) # drop (p4 + 1) (take body_end img)"
    using g(5) e Cons_nth_drop_Suc [of p4 "take body_end img"] by simp
  then have "drop p (take body_end img) = fields_image (img ! p4) c"
    using s [OF g(1)] s [OF g(2)] s [OF g(3)] s [OF g(4)] s [OF g(6)] s [OF g(7)] s [OF g(8)] g(9)
    by (simp add: fields_image_def c apply_flags_def)
  moreover have "config_readable c"
    using s [OF g(1)] s [OF g(2)] s [OF g(3)] s [OF g(4)] s [OF g(6)] s [OF g(7)] s [OF g(8)]
    by (simp add: config_readable_def c apply_flags_def)
  moreover have "c = apply_flags (img ! p4) c" by (simp add: c apply_flags_def)
  ultimately show ?thesis by blast
qed

lemma le32_le32_image: "le32 (le32_image w ! 0) (le32_image w ! 1) (le32_image w ! 2) (le32_image w ! 3) = w"
  unfolding le32_image_def using le32_bytes [of w] by simp

lemma le32_image_inj: "le32_image a = le32_image b \<Longrightarrow> a = b"
  using le32_le32_image [of a] le32_le32_image [of b] by simp

lemma bit_byte_out [simp]: "8 \<le> n \<Longrightarrow> \<not> bit (b :: u8) n"
  using bit_imp_le_length [of b n] by auto

lemma le32_image_inverse: "le32_image (le32 a b c d) = [a, b, c, d]"
  unfolding le32_image_def byte_mask le32_def
  by (auto intro!: bit_word_eqI
      simp: bit_or_iff bit_push_bit_iff bit_ucast_iff bit_drop_bit_eq bit_and_iff bit_mask_iff)

lemma split_last4:
  assumes "4 \<le> length xs"
  shows "xs = take (length xs - 4) xs @ [xs ! (length xs - 4), xs ! (length xs - 3), xs ! (length xs - 2), xs ! (length xs - 1)]"
proof -
  have "drop (length xs - 4) xs = [xs ! (length xs - 4), xs ! (length xs - 3), xs ! (length xs - 2), xs ! (length xs - 1)]"
    using assms by (auto simp: list_eq_iff_nth_eq less_Suc_eq numeral_eq_Suc Suc_diff_Suc)
  then show ?thesis using append_take_drop_id [of "length xs - 4" xs] by simp
qed

lemma split_first5:
  assumes "5 \<le> length xs"
  shows "xs = [xs ! 0, xs ! 1, xs ! 2, xs ! 3, xs ! 4] @ drop 5 xs"
proof -
  have "take 5 xs = [xs ! 0, xs ! 1, xs ! 2, xs ! 3, xs ! 4]"
    using assms by (auto simp: list_eq_iff_nth_eq less_Suc_eq numeral_eq_Suc)
  then show ?thesis using append_take_drop_id [of 5 xs] by simp
qed

text \<open>What the checks before the body establish, as a layout.\<close>

lemma image_crc:
  assumes "4 \<le> length img"
  shows "config_crc32 (take (length img - 4) img) =
      le32 (img ! (length img - 4)) (img ! (length img - 3)) (img ! (length img - 2)) (img ! (length img - 1)) \<longleftrightarrow>
    img = take (length img - 4) img @ le32_image (config_crc32 (take (length img - 4) img))"
  (is "?crc = ?want \<longleftrightarrow> _")
proof
  assume "?crc = ?want"
  then show "img = take (length img - 4) img @ le32_image ?crc"
    using split_last4 [OF assms] by (simp add: le32_image_inverse)
next
  assume "img = take (length img - 4) img @ le32_image ?crc"
  with split_last4 [OF assms] have "le32_image ?crc = le32_image ?want"
    by (metis le32_image_inverse same_append_eq)
  then show "?crc = ?want" by (metis le32_le32_image)
qed

lemma version_ok: "\<not> ((v :: u8) < kConfigBlobVersionMin \<or> kConfigBlobVersion < v) \<longleftrightarrow> v = kConfigBlobVersion"
  unfolding kConfigBlobVersion_def kConfigBlobVersionMin_def word_unat_eq_iff word_less_nat_alt by auto

lemma decode_exact:
  "config_blob_decode (Some img) old = (True, c) \<longleftrightarrow>
     config_readable c \<and> (\<exists>flags. c = apply_flags flags c \<and> img = config_image flags c)"
proof
  assume dec: "config_blob_decode (Some img) old = (True, c)"
  then have len: "9 \<le> length img"
    and magic: "img ! 0 = kConfigBlobMagic ! 0" "img ! 1 = kConfigBlobMagic ! 1"
      "img ! 2 = kConfigBlobMagic ! 2" "img ! 3 = kConfigBlobMagic ! 3" "img ! 4 = kConfigBlobVersion"
    and crc: "config_crc32 (take (length img - 4) img) =
      le32 (img ! (length img - 4)) (img ! (length img - 3)) (img ! (length img - 2)) (img ! (length img - 1))"
    and body: "decode_body img (length img - 4) 5 = Some c"
    using version_ok [of "img ! 4"]
    by (auto simp: config_blob_decode_def Let_def kBlobHeaderBytes_def kBlobCrcBytes_def
        split: if_splits option.splits)
  obtain flags where f: "config_readable c" "c = apply_flags flags c"
    "drop 5 (take (length img - 4) img) = fields_image flags c"
    using decode_body_sound [OF _ body] by auto
  have "take (length img - 4) img = body_image flags c"
    using split_first5 [of "take (length img - 4) img"] len magic f(3)
    by (simp add: body_image_def kConfigBlobMagic_def)
  with image_crc [of img] crc len have "img = config_image flags c"
    by (simp add: config_image_def)
  with f show "config_readable c \<and> (\<exists>flags. c = apply_flags flags c \<and> img = config_image flags c)" by blast
next
  assume "config_readable c \<and> (\<exists>flags. c = apply_flags flags c \<and> img = config_image flags c)"
  then obtain flags where f: "config_readable c" "c = apply_flags flags c" "img = config_image flags c" by blast
  have body: "take (length img - 4) img = body_image flags c"
    by (simp add: f(3) config_image_def)
  have len: "9 \<le> length img" by (simp add: f(3) config_image_def body_image_def kConfigBlobMagic_def)
  have magic: "img ! 0 = kConfigBlobMagic ! 0" "img ! 1 = kConfigBlobMagic ! 1"
    "img ! 2 = kConfigBlobMagic ! 2" "img ! 3 = kConfigBlobMagic ! 3" "img ! 4 = kConfigBlobVersion"
    by (simp_all add: f(3) config_image_def body_image_def kConfigBlobMagic_def)
  have crc: "config_crc32 (take (length img - 4) img) =
      le32 (img ! (length img - 4)) (img ! (length img - 3)) (img ! (length img - 2)) (img ! (length img - 1))"
    using image_crc [of img] len body f(3) by (simp add: config_image_def)
  have fields: "drop 5 (take (length img - 4) img) = fields_image flags c"
    unfolding body by (simp add: body_image_def kConfigBlobMagic_def)
  have "decode_body img (length img - 4) 5 = Some c"
    using decode_body_complete [OF _ f(1) fields] f(2) by simp
  with len magic crc version_ok [of "img ! 4"]
  show "config_blob_decode (Some img) old = (True, c)"
    by (simp add: config_blob_decode_def Let_def kBlobHeaderBytes_def kBlobCrcBytes_def)
qed

lemma decode_rejects: "fst (config_blob_decode p old) = False \<Longrightarrow> config_blob_decode p old = (False, old)"
  by (auto simp: config_blob_decode_def Let_def split: option.splits if_splits)

lemma config_flags_bits:
  "config_flags c AND 1 \<noteq> 0 \<longleftrightarrow> wifi_rollback_active c" "config_flags c AND 2 \<noteq> 0 \<longleftrightarrow> wifi_rolled_back c"
  "config_flags c AND 4 \<noteq> 0 \<longleftrightarrow> has_ota c" "config_flags c AND 8 \<noteq> 0 \<longleftrightarrow> ota_channel c \<noteq> 0"
  by (cases "wifi_rollback_active c"; cases "wifi_rolled_back c"; cases "has_ota c";
      cases "ota_channel c = 0"; simp add: config_flags_def)+

lemma apply_config_flags:
  "apply_flags (config_flags c) c = c\<lparr>ota_channel := (if ota_channel c \<noteq> 0 then 1 else 0)\<rparr>"
  unfolding apply_flags_def config_flags_bits by simp

subsection \<open>The checksum sees every single-byte change\<close>

lemma xor_cancel_right [simp]: "x XOR z = y XOR z \<longleftrightarrow> x = (y :: u32)"
proof
  assume "x XOR z = y XOR z"
  then have "(x XOR z) XOR z = (y XOR z) XOR z" by (rule arg_cong)
  then show "x = y" by (simp add: xor.assoc)
qed simp

lemma xor_cancel_left [simp]: "z XOR x = z XOR y \<longleftrightarrow> x = (y :: u32)"
  using xor_cancel_right [of x z y] by (simp add: xor.commute)

lemma crc_bit_inj: "inj crc_bit"
proof (rule injI)
  fix x y :: u32
  assume eq: "crc_bit x = crc_bit y"
  have mask: "NOT (z AND 1) + 1 = (if bit z 0 then (- 1 :: u32) else 0)" for z :: u32
    by (auto simp: and_one_eq odd_iff_mod_2_eq_one bit_0)
  have top: "bit (crc_bit z) 31 \<longleftrightarrow> bit z 0" for z
    unfolding crc_bit_def mask using bit_imp_le_length [of z 32]
    by (auto simp: bit_xor_iff bit_drop_bit_eq bit_and_iff)
  have b: "bit x 0 \<longleftrightarrow> bit y 0" using top [of x] top [of y] eq by simp
  have "drop_bit 1 x = drop_bit 1 y"
    using eq b unfolding crc_bit_def mask by (cases "bit x 0") simp_all
  then have d: "bit x (Suc n) \<longleftrightarrow> bit y (Suc n)" for n
    using bit_drop_bit_eq [of 1 x] bit_drop_bit_eq [of 1 y] by (simp add: fun_eq_iff)
  show "x = y"
  proof (rule bit_word_eqI)
    fix n
    show "bit x n \<longleftrightarrow> bit y n" using b d by (cases n) simp_all
  qed
qed

lemma ucast_ucast_id_byte: "ucast (ucast (b :: u8) :: u32) = b"
  by (rule bit_word_eqI) (simp add: bit_ucast_iff)

lemma crc_byte_inj: "crc_byte c a = crc_byte d b \<Longrightarrow> c XOR ucast a = d XOR ucast b"
  unfolding crc_byte_def by (rule injD [OF inj_fn [OF crc_bit_inj]])

lemma crc_byte_byte: "crc_byte c a = crc_byte c b \<Longrightarrow> a = b"
proof -
  assume "crc_byte c a = crc_byte c b"
  then have "(ucast a :: u32) = ucast b" using crc_byte_inj [of c a c b] by (simp only: xor_cancel_left)
  then have "(ucast (ucast a :: u32) :: u8) = ucast (ucast b :: u32)" by simp
  then show "a = b" by (simp only: ucast_ucast_id_byte)
qed

lemma crc_fold_inj: "foldl crc_byte c ys = foldl crc_byte d ys \<Longrightarrow> c = d"
proof (induction ys arbitrary: c d)
  case (Cons y ys)
  then have "crc_byte c y = crc_byte d y" by simp
  then have "c XOR ucast y = d XOR ucast y" by (rule crc_byte_inj)
  then show ?case by (simp only: xor_cancel_right)
qed simp

lemma crc_single_byte:
  assumes "i < length xs" "config_crc32 (xs[i := b]) = config_crc32 xs"
  shows "xs ! i = b"
proof -
  have up: "xs[i := b] = take i xs @ b # drop (Suc i) xs" using assms(1) by (simp add: upd_conv_take_nth_drop)
  have xs: "xs = take i xs @ xs ! i # drop (Suc i) xs" using assms(1) by (simp add: id_take_nth_drop)
  have "foldl crc_byte 0xFFFFFFFF (xs[i := b]) = foldl crc_byte 0xFFFFFFFF xs"
    using assms(2) unfolding config_crc32_def by (simp only: xor_cancel_right)
  then have "foldl crc_byte 0xFFFFFFFF (take i xs @ b # drop (Suc i) xs) =
      foldl crc_byte 0xFFFFFFFF (take i xs @ xs ! i # drop (Suc i) xs)"
    using up xs by simp
  then have "crc_byte (foldl crc_byte 0xFFFFFFFF (take i xs)) b = crc_byte (foldl crc_byte 0xFFFFFFFF (take i xs)) (xs ! i)"
    by (auto dest: crc_fold_inj)
  then show ?thesis by (auto dest: crc_byte_byte)
qed

lemma crc_bit_8:
  "(crc_bit ^^ 8) x = crc_bit (crc_bit (crc_bit (crc_bit (crc_bit (crc_bit (crc_bit (crc_bit x)))))))"
  by (simp add: numeral_eq_Suc)

lemmas crc_eval = config_crc32_def crc_byte_def crc_bit_8 crc_bit_def

lemma config_crc32_check: "config_crc32 [0x31, 0x32, 0x33, 0x34, 0x35, 0x36, 0x37, 0x38, 0x39] = 0xCBF43926"
  by (simp add: crc_eval)

definition crc_sealed :: "bytes \<Rightarrow> bool" where
  "crc_sealed img \<longleftrightarrow> 4 \<le> length img \<and>
     img = take (length img - 4) img @ le32_image (config_crc32 (take (length img - 4) img))"

lemma decode_sealed: "fst (config_blob_decode (Some img) old) \<Longrightarrow> crc_sealed img"
  using decode_exact [of img old "snd (config_blob_decode (Some img) old)"]
  by (cases "config_blob_decode (Some img) old") (auto simp: crc_sealed_def config_image_def)

lemma sealed_tail:
  assumes "crc_sealed img"
  shows "drop (length img - 4) img = le32_image (config_crc32 (take (length img - 4) img))"
proof -
  let ?t = "take (length img - 4) img"
  have "?t @ drop (length img - 4) img = img" by simp
  also have "\<dots> = ?t @ le32_image (config_crc32 ?t)"
    using assms unfolding crc_sealed_def by (rule conjunct2)
  finally show ?thesis by (simp only: same_append_eq)
qed

lemma sealed_single_byte:
  assumes "crc_sealed img" "crc_sealed (img[i := b])" "i < length img"
  shows "img ! i = b"
proof (cases "i < length img - 4")
  case True
  let ?t = "take (length img - 4) img"
  have t: "take (length img - 4) (img[i := b]) = ?t[i := b]"
    by (rule take_update_swap)
  have d: "drop (length img - 4) (img[i := b]) = drop (length img - 4) img"
    using True by (rule drop_update_cancel)
  have "le32_image (config_crc32 (?t[i := b])) = le32_image (config_crc32 ?t)"
    using sealed_tail [OF assms(2)] unfolding length_list_update t d sealed_tail [OF assms(1)] by (rule sym)
  then have "config_crc32 (?t[i := b]) = config_crc32 ?t" by (rule le32_image_inj)
  from crc_single_byte [OF _ this] True have "?t ! i = b" by simp
  then show ?thesis using True by simp
next
  case False
  then have t: "take (length img - 4) (img[i := b]) = take (length img - 4) img" by simp
  have "drop (length img - 4) (img[i := b]) = drop (length img - 4) img"
    using sealed_tail [OF assms(2)] unfolding length_list_update t sealed_tail [OF assms(1)] .
  with t have "take (length img - 4) (img[i := b]) @ drop (length img - 4) (img[i := b]) =
      take (length img - 4) img @ drop (length img - 4) img" by (simp only:)
  then have "img[i := b] = img" by (simp only: append_take_drop_id)
  then show ?thesis using assms(3) nth_list_update_eq [of i img b] by simp
qed

subsection \<open>Properties\<close>

text \<open>C20: Saving and loading a configuration. With a buffer of at least 473 bytes, encoding returns 0 exactly
  when a field is over its bound; otherwise it returns the blob's length, at most 473, and decoding
  those bytes gives the same configuration back (the channel as 0 or 1), whatever was in the target.\<close>

theorem config_roundtrip:
  assumes "config_blob_encode c (Some out) cap = (n, buf)" "kConfigBlobEncodedMax \<le> cap" "cap \<le> length out"
  shows "(n = 0 \<longleftrightarrow> \<not> config_fits c) \<and> n \<le> kConfigBlobEncodedMax \<and>
    (n \<noteq> 0 \<longrightarrow> (\<exists>bs. buf = Some bs \<and>
      config_blob_decode (Some (take n bs)) old = (True, c\<lparr>ota_channel := (if ota_channel c \<noteq> 0 then 1 else 0)\<rparr>)))"
proof (cases "config_fits c")
  case True
  let ?img = "config_image (config_flags c) c"
  let ?c = "c\<lparr>ota_channel := (if ota_channel c \<noteq> 0 then 1 else 0)\<rparr>"
  have len: "length ?img \<le> kConfigBlobEncodedMax" by (rule config_image_length [OF True])
  with encode_writes [OF assms(3), of c] assms(1,2) True
  obtain bs where "n = length ?img" "buf = Some bs" "take n bs = ?img" by auto
  moreover have "config_blob_decode (Some ?img) old = (True, ?c)"
  proof -
    have same: "config_image (config_flags c) c = config_image (config_flags c) ?c"
      by (simp add: config_image_def body_image_def fields_image_def)
    have "?c = apply_flags (config_flags c) ?c"
      using apply_config_flags [of c] by (simp add: apply_flags_def)
    moreover have "config_readable ?c" using config_fits_readable [OF True] by (simp add: config_readable_def)
    ultimately show ?thesis unfolding decode_exact same by blast
  qed
  ultimately show ?thesis using len True by (auto simp: config_image_def)
next
  case False
  with encode_writes [OF assms(3), of c] assms(1) show ?thesis by auto
qed

theorem config_roundtrip_witness:
  "\<exists>n bs. config_blob_encode (config_apply_setup_wifi new_config_blob [0x61] [0x62, 0x63])
      (Some (replicate 512 0)) 512 = (n, Some bs) \<and> n \<noteq> 0 \<and>
    config_blob_decode (Some (take n bs)) new_config_blob =
      (True, config_apply_setup_wifi new_config_blob [0x61] [0x62, 0x63])"
proof -
  let ?c = "config_apply_setup_wifi new_config_blob [0x61] [0x62, 0x63]"
  obtain n buf where eq: "config_blob_encode ?c (Some (replicate 512 0)) 512 = (n, buf)" by fastforce
  have max: "kConfigBlobEncodedMax \<le> 512"
    by (simp add: kConfigBlobEncodedMax_def config_bounds blob_str_bytes_def blob_sizes)
  have "config_fits ?c"
    by (simp add: config_fits_def config_apply_setup_wifi_def new_config_blob_def config_bounds)
  moreover have "?c\<lparr>ota_channel := (if ota_channel ?c \<noteq> 0 then 1 else 0)\<rparr> = ?c"
    by (simp add: config_apply_setup_wifi_def new_config_blob_def)
  ultimately show ?thesis using config_roundtrip [OF eq max, of new_config_blob] eq by auto
qed

text \<open>C32: The loader accepts exactly the images of readable configurations: an image is taken if and only if it
  is magic, version 1, the seven strings and the flags byte in order with nothing left over, and the
  matching checksum; the configuration returned is the one it spells. Anything else leaves the target
  untouched.\<close>

theorem config_decode_exact:
  "(config_blob_decode (Some img) old = (True, c) \<longleftrightarrow>
     config_readable c \<and> (\<exists>flags. c = apply_flags flags c \<and> img = config_image flags c)) \<and>
   (fst (config_blob_decode p old) \<or> config_blob_decode p old = (False, old))"
  using decode_exact decode_rejects by blast

text \<open>C33: Any single corrupted byte of a stored configuration, checksum bytes included, is detected: the
  loader refuses the damaged image and keeps the target.\<close>

theorem config_corruption_detected:
  assumes "fst (config_blob_decode (Some img) old)" "i < length img" "b \<noteq> img ! i"
  shows "config_blob_decode (Some (img[i := b])) old' = (False, old')"
proof (rule decode_rejects)
  show "fst (config_blob_decode (Some (img[i := b])) old') = False"
    using sealed_single_byte [OF decode_sealed [OF assms(1)] decode_sealed assms(2)] assms(3) by blast
qed

theorem config_corruption_detected_witness:
  "config_blob_decode (Some ((config_image 0 new_config_blob)[7 := 1])) new_config_blob = (False, new_config_blob)"
proof (rule config_corruption_detected)
  show "fst (config_blob_decode (Some (config_image 0 new_config_blob)) new_config_blob)"
  proof -
    have "config_blob_decode (Some (config_image 0 new_config_blob)) new_config_blob = (True, new_config_blob)"
      unfolding decode_exact
      by (auto simp: config_readable_def new_config_blob_def apply_flags_def intro!: exI [of _ 0])
    then show ?thesis by simp
  qed
  show "7 < length (config_image 0 new_config_blob)" "1 \<noteq> config_image 0 new_config_blob ! 7"
    by (simp_all add: config_image_def body_image_def fields_image_def new_config_blob_def
        kConfigBlobMagic_def str_image_def le16_image_def)
qed

end
