(* ===== verification/WifiConfig.thy ===== *)
theory WifiConfig
  imports ConfigStore
begin

text \<open>
  main/logic/wifi_rollback.hpp, wifi_credentials.hpp and config_request.hpp: the credential rollback
  policy, credential validation, and the order of effects of a configuration request. The callbacks of
  a request are state transformers over an unspecified state.
\<close>

subsection \<open>Rollback policy\<close>

datatype wifi_retry_action = Retry | PauseForEthernet | Exhausted

definition wifi_retry_action_for :: "bool \<Rightarrow> bool \<Rightarrow> bool \<Rightarrow> int \<Rightarrow> int \<Rightarrow> wifi_retry_action" where
  "wifi_retry_action_for ethernet_lease wifi_proven rollback_pending attempts maximum =
     (if ethernet_lease then PauseForEthernet
      else if \<not> wifi_proven \<and> \<not> rollback_pending \<and> attempts \<ge> maximum then Exhausted else Retry)"

definition wifi_trial_can_commit :: "bool \<Rightarrow> bool \<Rightarrow> bool" where
  "wifi_trial_can_commit wifi_proven rollback_unpersisted \<longleftrightarrow> wifi_proven \<and> \<not> rollback_unpersisted"

datatype disco_class = NoDisco | Auth | ApAbsent | OtherReason

definition disco_class_of :: "int \<Rightarrow> disco_class" where
  "disco_class_of reason =
     (if reason = 0 then NoDisco
      else if reason \<in> {2, 15, 202, 204, 210, 211} then Auth
      else if reason \<in> {201, 212} then ApAbsent
      else OtherReason)"

definition kWifiBootWindowS :: int where "kWifiBootWindowS = 30"
definition kWifiRollbackGraceS :: int where "kWifiRollbackGraceS = 180"
definition kWifiAuthToRollback :: int where "kWifiAuthToRollback = 2"

datatype rollback_action = WaitMore | RollBack

record rollback_watch =
  watch_auth :: int

definition rollback_step :: "disco_class \<Rightarrow> int \<Rightarrow> rollback_watch \<Rightarrow> rollback_action \<times> rollback_watch" where
  "rollback_step story elapsed_s st =
     (if elapsed_s < kWifiBootWindowS then (WaitMore, st)
      else let st' = (if story = Auth then st\<lparr>watch_auth := watch_auth st + 1\<rparr> else st\<lparr>watch_auth := 0\<rparr>) in
           if story = Auth \<and> kWifiAuthToRollback \<le> watch_auth st' then (RollBack, st')
           else ((if kWifiRollbackGraceS \<le> elapsed_s then RollBack else WaitMore), st'))"

definition stage_wifi_change :: "bytes \<Rightarrow> bytes \<Rightarrow> config_blob \<Rightarrow> config_blob" where
  "stage_wifi_change ssid pass cfg =
     (let cfg1 = (if \<not> wifi_rollback_active cfg \<and> wifi_ssid cfg \<noteq> []
                  then cfg\<lparr>wifi_ssid_backup := wifi_ssid cfg, wifi_pass_backup := wifi_pass cfg,
                           wifi_rollback_active := True\<rparr>
                  else cfg)
      in cfg1\<lparr>wifi_rolled_back := False, wifi_ssid := ssid, wifi_pass := pass\<rparr>)"

subsection \<open>Credential validation\<close>

datatype wifi_credential_error = CredOk | SsidLength | EmbeddedNul | PasswordLength | RawPskNotHex

definition wifi_is_hex_psk :: "bytes \<Rightarrow> bool" where
  "wifi_is_hex_psk password \<longleftrightarrow> length password = 64 \<and>
     list_all (\<lambda>c. (48 \<le> c \<and> c \<le> 57) \<or> (97 \<le> c \<and> c \<le> 102) \<or> (65 \<le> c \<and> c \<le> 70)) password"

definition wifi_credentials_error :: "bytes \<Rightarrow> bytes \<Rightarrow> wifi_credential_error" where
  "wifi_credentials_error ssid password =
     (if ssid = [] \<or> 32 < length ssid then SsidLength
      else if 0 \<in> set ssid \<or> 0 \<in> set password then EmbeddedNul
      else if password = [] then CredOk
      else if length password = 64
           then (if wifi_is_hex_psk password then CredOk else RawPskNotHex)
      else if length password < 8 \<or> 63 < length password then PasswordLength
      else CredOk)"

definition wifi_credentials_reason :: "wifi_credential_error \<Rightarrow> string" where
  "wifi_credentials_reason e = (case e of
      CredOk \<Rightarrow> ''''
    | SsidLength \<Rightarrow> ''SSID must be 1-32 bytes''
    | EmbeddedNul \<Rightarrow> ''SSID/password contains an invalid NUL byte''
    | PasswordLength \<Rightarrow> ''password must be empty, 8-63 bytes, or a 64-hex PSK''
    | RawPskNotHex \<Rightarrow> ''a 64-byte WiFi PSK must contain hexadecimal digits only'')"

subsection \<open>A one-string configuration request\<close>

datatype config_submission_status = Ready | MissingBody | TooLarge | BodyNoMemory | ReceiveFailed
  | MalformedJson | JsonTooDeep | JsonUnsupportedNul | JsonNoMemory | ObjectRequired
  | StringFieldRequired | JsonTooManyValues | DuplicateJsonKey

record config_string_submission =
  sub_status :: config_submission_status
  sub_value :: bytes

definition config_submission_http_status :: "config_submission_status \<Rightarrow> int" where
  "config_submission_http_status status =
     (if status = TooLarge then 413
      else if status = BodyNoMemory \<or> status = JsonNoMemory then 503
      else if status = Ready then 200 else 400)"

definition config_submission_reason :: "config_submission_status \<Rightarrow> string" where
  "config_submission_reason status =
     (if status = MissingBody then ''missing body''
      else if status = TooLarge then ''request body too large''
      else if status = BodyNoMemory \<or> status = JsonNoMemory then ''out of memory''
      else if status = ReceiveFailed then ''request body read failed''
      else if status = MalformedJson then ''invalid JSON''
      else if status = JsonTooDeep then ''JSON nesting too deep''
      else if status = JsonUnsupportedNul then ''JSON NUL escape not supported''
      else if status = JsonTooManyValues then ''too many JSON values''
      else if status = DuplicateJsonKey then ''duplicate JSON key''
      else if status = ObjectRequired then ''JSON object required''
      else if status = StringFieldRequired then ''required string field missing''
      else '''')"

record config_probe_verdict =
  probe_ok :: bool
  probe_status :: int
  probe_reason :: string

record config_string_messages =
  unchanged_empty :: string
  unchanged_value :: string
  invalid_value :: string
  saved_empty :: string
  saved_value :: string
  save_failed :: string

definition apply_config_string ::
    "config_string_submission \<Rightarrow> (bytes \<Rightarrow> 's \<Rightarrow> bytes \<times> 's) \<Rightarrow> ('s \<Rightarrow> bytes \<times> 's) \<Rightarrow>
     (bytes \<Rightarrow> 's \<Rightarrow> bool \<times> 's) \<Rightarrow> (bytes \<Rightarrow> 's \<Rightarrow> config_probe_verdict \<times> 's) \<Rightarrow>
     (bytes \<Rightarrow> 's \<Rightarrow> bool \<times> 's) \<Rightarrow> (int \<Rightarrow> bool \<Rightarrow> string \<Rightarrow> 's \<Rightarrow> int \<times> 's) \<Rightarrow> ('s \<Rightarrow> 's) \<Rightarrow>
     config_string_messages \<Rightarrow> 's \<Rightarrow> int \<times> 's" where
  "apply_config_string submission normalise load validate probe save respond commit messages s0 =
     (if sub_status submission \<noteq> Ready
      then respond (config_submission_http_status (sub_status submission)) False
             (config_submission_reason (sub_status submission)) s0
      else let (val, s1) = normalise (sub_value submission) s0; (current, s2) = load s1 in
           if val = current
           then respond 200 True (if val = [] then unchanged_empty messages else unchanged_value messages) s2
           else let (valid, s3) = validate val s2 in
           if \<not> valid then respond 400 False (invalid_value messages) s3
           else let (checked, s4) = probe val s3 in
           if \<not> probe_ok checked then respond (probe_status checked) False (probe_reason checked) s4
           else let (stored, s5) = save val s4;
                    (response, s6) = respond (if stored then 200 else 500) stored
                      (if stored then (if val = [] then saved_empty messages else saved_value messages)
                       else save_failed messages) s5
                in (response, if stored then commit s6 else s6))"

subsection \<open>Lemmas\<close>

definition fresh_watch :: rollback_watch where "fresh_watch = \<lparr>watch_auth = 0\<rparr>"

text \<open>The policy fed one checkpoint after another: the action of each, and the watch left.\<close>

fun rollback_run :: "(disco_class \<times> int) list \<Rightarrow> rollback_watch \<Rightarrow> rollback_watch" where
  "rollback_run [] w = w"
| "rollback_run ((c, t) # hs) w = rollback_run hs (snd (rollback_step c t w))"

text \<open>The class seen at the most recent checkpoint past the boot window.\<close>

definition last_counted :: "(disco_class \<times> int) list \<Rightarrow> disco_class" where
  "last_counted hs = (case filter (\<lambda>(c, t). kWifiBootWindowS \<le> t) (rev hs) of [] \<Rightarrow> NoDisco | h # _ \<Rightarrow> fst h)"

lemma rollback_run_append: "rollback_run (xs @ ys) w = rollback_run ys (rollback_run xs w)"
  by (induction xs arbitrary: w) auto

lemma last_counted_snoc:
  "last_counted (hs @ [(c, t)]) = (if kWifiBootWindowS \<le> t then c else last_counted hs)"
  by (simp add: last_counted_def)

lemma rollback_run_auth:
  "0 \<le> watch_auth (rollback_run hs fresh_watch) \<and>
   (0 < watch_auth (rollback_run hs fresh_watch) \<longleftrightarrow> last_counted hs = Auth)"
proof (induction hs rule: rev_induct)
  case Nil
  show ?case by (simp add: fresh_watch_def last_counted_def)
next
  case (snoc h hs)
  obtain c t where h: "h = (c, t)" by fastforce
  show ?case
    using snoc by (auto simp: h rollback_run_append last_counted_snoc rollback_step_def Let_def)
qed

lemma stage_keeps_backup:
  "wifi_rollback_active cfg \<Longrightarrow> wifi_rollback_active (stage_wifi_change s p cfg) \<and>
     wifi_ssid_backup (stage_wifi_change s p cfg) = wifi_ssid_backup cfg \<and>
     wifi_pass_backup (stage_wifi_change s p cfg) = wifi_pass_backup cfg"
  by (simp add: stage_wifi_change_def)

definition stage_all :: "(bytes \<times> bytes) list \<Rightarrow> config_blob \<Rightarrow> config_blob" where
  "stage_all changes cfg = foldl (\<lambda>c (s, p). stage_wifi_change s p c) cfg changes"

lemma stage_all_keeps:
  "wifi_rollback_active cfg \<Longrightarrow> wifi_rollback_active (stage_all cs cfg) \<and>
     wifi_ssid_backup (stage_all cs cfg) = wifi_ssid_backup cfg \<and>
     wifi_pass_backup (stage_all cs cfg) = wifi_pass_backup cfg"
proof (induction cs arbitrary: cfg)
  case (Cons c cs)
  obtain s p where c: "c = (s, p)" by fastforce
  from stage_keeps_backup [OF Cons.prems, of s p] Cons.IH [of "stage_wifi_change s p cfg"]
  show ?case by (simp add: stage_all_def c)
qed (simp add: stage_all_def)

lemma stage_all_current:
  "cs \<noteq> [] \<Longrightarrow> wifi_ssid (stage_all cs cfg) = fst (List.last cs) \<and> wifi_pass (stage_all cs cfg) = snd (List.last cs) \<and>
     \<not> wifi_rolled_back (stage_all cs cfg)"
  by (cases cs rule: rev_cases) (auto simp: stage_all_def stage_wifi_change_def Let_def)

lemma credentials_ok_lengths:
  "wifi_credentials_error ssid pass = CredOk \<Longrightarrow> 0 < length ssid \<and> length ssid \<le> kConfigMaxSsidLen \<and>
     length pass \<le> kConfigMaxWifiPassLen \<and> 0 \<notin> set ssid \<and> 0 \<notin> set pass"
  by (auto simp: wifi_credentials_error_def config_bounds split: if_splits)

subsection \<open>Properties\<close>

text \<open>The rollback decision, after any history of checkpoints: the backup is restored exactly when the
  checkpoint is past the 30 s boot window and either 180 s have passed or the access point refuses the
  credentials now and did so at the previous counted checkpoint too. A single refusal, or an absent
  network, never spends the new credentials early.\<close>

theorem rollback_decision:
  "fst (rollback_step story elapsed_s (rollback_run hs fresh_watch)) = RollBack \<longleftrightarrow>
     30 \<le> elapsed_s \<and> (180 \<le> elapsed_s \<or> (story = Auth \<and> last_counted hs = Auth))"
  using rollback_run_auth [of hs]
  by (auto simp: rollback_step_def Let_def kWifiBootWindowS_def kWifiRollbackGraceS_def kWifiAuthToRollback_def)

text \<open>C35: Staging credential changes one after another, with no proof in between, from a configuration that
  has credentials and no change on trial: the rollback is armed, the backup is still the original pair,
  and the current pair is the last one submitted.\<close>

theorem staging_keeps_proven_pair:
  assumes "\<not> wifi_rollback_active cfg" "wifi_ssid cfg \<noteq> []" "cs \<noteq> []"
  shows "wifi_rollback_active (stage_all cs cfg) \<and> wifi_ssid_backup (stage_all cs cfg) = wifi_ssid cfg \<and>
    wifi_pass_backup (stage_all cs cfg) = wifi_pass cfg \<and>
    (wifi_ssid (stage_all cs cfg), wifi_pass (stage_all cs cfg)) = List.last cs \<and>
    \<not> wifi_rolled_back (stage_all cs cfg)"
proof -
  obtain s p rest where cs: "cs = (s, p) # rest" using assms(3) by (cases cs) auto
  have "stage_all cs cfg = stage_all rest (stage_wifi_change s p cfg)" by (simp add: stage_all_def cs)
  moreover have "wifi_rollback_active (stage_wifi_change s p cfg) \<and>
      wifi_ssid_backup (stage_wifi_change s p cfg) = wifi_ssid cfg \<and>
      wifi_pass_backup (stage_wifi_change s p cfg) = wifi_pass cfg"
    using assms by (simp add: stage_wifi_change_def)
  ultimately show ?thesis
    using stage_all_keeps [of "stage_wifi_change s p cfg" rest] stage_all_current [OF assms(3), of cfg] by auto
qed

theorem staging_keeps_proven_pair_witness:
  "wifi_ssid_backup (stage_all [([2], []), ([3], [])] (new_config_blob\<lparr>wifi_ssid := [1]\<rparr>)) = [1]"
  using staging_keeps_proven_pair [of "new_config_blob\<lparr>wifi_ssid := [1]\<rparr>" "[([2], []), ([3], [])]"]
  by (simp add: new_config_blob_def)

text \<open>From a device without stored credentials the first change arms nothing, so a second one before the
  restart takes the first, untried pair as its backup.\<close>

theorem staging_unproven_backup:
  "wifi_rollback_active (stage_all [([2], [5]), ([3], [6])] new_config_blob) \<and>
   wifi_ssid_backup (stage_all [([2], [5]), ([3], [6])] new_config_blob) = [2] \<and>
   wifi_pass_backup (stage_all [([2], [5]), ([3], [6])] new_config_blob) = [5]"
  by (simp add: stage_all_def stage_wifi_change_def new_config_blob_def)

text \<open>Credentials that pass validation can always be stored: staging them, or committing them from the
  setup form, keeps a configuration inside the encoder's bounds and free of NUL bytes in the pair, so
  saving it cannot be refused.\<close>

theorem accepted_credentials_are_storable:
  assumes "wifi_credentials_error ssid pass = CredOk" "config_fits cfg"
  shows "config_fits (stage_wifi_change ssid pass cfg) \<and> config_fits (config_apply_setup_wifi cfg ssid pass) \<and>
    wifi_ssid (stage_wifi_change ssid pass cfg) \<noteq> [] \<and> 0 \<notin> set ssid \<and> 0 \<notin> set pass \<and>
    (pass = [] \<or> 8 \<le> length pass \<and> length pass \<le> 63 \<or> wifi_is_hex_psk pass)"
  using assms credentials_ok_lengths [OF assms(1)]
  by (auto simp: config_fits_def stage_wifi_change_def config_apply_setup_wifi_def Let_def config_bounds
      wifi_credentials_error_def split: if_splits)

theorem accepted_credentials_are_storable_witness:
  "config_fits (stage_wifi_change [0x61] [] new_config_blob)"
  using accepted_credentials_are_storable [of "[0x61]" "[]" new_config_blob]
  by (simp add: wifi_credentials_error_def config_fits_def new_config_blob_def)

text \<open>The order of effects of a configuration request. When every callback records its call, the record
  is one of six: a rejected submission, an unchanged value, an invalid value or a failed probe answers
  and touches nothing else; a failed save answers 500 and does not commit; a stored value is answered
  first and committed last.\<close>

datatype config_effect = Load | Validate | Probe | Save bytes | Respond int bool | Commit

definition logged_request ::
    "config_string_submission \<Rightarrow> (bytes \<Rightarrow> bytes) \<Rightarrow> bytes \<Rightarrow> (bytes \<Rightarrow> bool) \<Rightarrow>
     (bytes \<Rightarrow> config_probe_verdict) \<Rightarrow> (bytes \<Rightarrow> bool) \<Rightarrow> config_string_messages \<Rightarrow>
     config_effect list" where
  "logged_request submission normalise current validate probe save messages =
     snd (apply_config_string submission (\<lambda>v s. (normalise v, s)) (\<lambda>s. (current, s @ [Load]))
       (\<lambda>v s. (validate v, s @ [Validate])) (\<lambda>v s. (probe v, s @ [Probe]))
       (\<lambda>v s. (save v, s @ [Save v])) (\<lambda>code ok why s. (code, s @ [Respond code ok]))
       (\<lambda>s. s @ [Commit]) messages [])"

theorem config_request_effect_order:
  "logged_request sub normalise current validate probe save messages =
     (let v = normalise (sub_value sub) in
      if sub_status sub \<noteq> Ready then [Respond (config_submission_http_status (sub_status sub)) False]
      else if v = current then [Load, Respond 200 True]
      else if \<not> validate v then [Load, Validate, Respond 400 False]
      else if \<not> probe_ok (probe v) then [Load, Validate, Probe, Respond (probe_status (probe v)) False]
      else if save v then [Load, Validate, Probe, Save v, Respond 200 True, Commit]
      else [Load, Validate, Probe, Save v, Respond 500 False])"
  by (simp add: logged_request_def apply_config_string_def Let_def)

end
