(* ===== verification/NvsStorage.thy ===== *)
theory NvsStorage
  imports Prelude
begin

text \<open>
  main/logic/nvs_contract.hpp, nvs_string_load.hpp, nvs_blob_load.hpp and main/nvs_storage.cpp: the
  registry of persistent records and the adapter every record goes through. The flash driver (ESP-IDF's
  NVS) is a parameter: a record of its calls over an unspecified device state \<open>'n\<close>. Reads return a new
  device state as well, so that a record may change between the two calls of a probe-and-read. A call
  that may fail to allocate asks \<open>alloc_ok\<close>. Logging is not modelled.
\<close>

subsection \<open>The registry\<close>

datatype nvs_namespace = Config | TeslaBle | UnknownNs
datatype storage_api = Blob | String | RawBlob
datatype nvs_owner = ConfigHttp | LegacyConfigMirror | Clock | VinTransition | BleDiscovery
  | HeapWatchdog | BootGuard | TeslaBleLibrary | Pairing | KeyRotation
datatype nvs_retention = DurableAcrossOta | LegacyDowngradeMirror | ReplaceableCache | RecoveryJournal

record nvs_entry =
  en_namespace :: nvs_namespace
  en_logical_key :: string
  en_stored_key :: string
  en_api :: storage_api
  en_owner :: nvs_owner
  en_retention :: nvs_retention
  en_secret :: bool

definition kConfigNamespace :: string where "kConfigNamespace = ''tesla_cfg''"
definition kTeslaBleNamespace :: string where "kTeslaBleNamespace = ''tesla_ble''"
definition kConfigBlob :: string where "kConfigBlob = ''cfg''"
definition kLegacyWifiSsid :: string where "kLegacyWifiSsid = ''wifi_ssid''"
definition kLegacyWifiPass :: string where "kLegacyWifiPass = ''wifi_pass''"
definition kLegacyVin :: string where "kLegacyVin = ''vin''"
definition kLegacyMqttUri :: string where "kLegacyMqttUri = ''mqtt_uri''"
definition kLegacySyslogUri :: string where "kLegacySyslogUri = ''syslog_uri''"
definition kLastTime :: string where "kLastTime = ''last_time''"
definition kVinTransition :: string where "kVinTransition = ''vin_txn''"
definition kBleMac :: string where "kBleMac = ''ble_mac''"
definition kRebootReason :: string where "kRebootReason = ''reboot_why''"
definition kBootFailures :: string where "kBootFailures = ''boot_fails''"
definition kPrivateKey :: string where "kPrivateKey = ''private_key''"
definition kSessionVcsec :: string where "kSessionVcsec = ''session_vcsec''"
definition kSessionInfotainment :: string where "kSessionInfotainment = ''session_infotainment''"
definition kPairedAt :: string where "kPairedAt = ''paired_at''"
definition kKeyCreated :: string where "kKeyCreated = ''key_created''"
definition kKeyRotation :: string where "kKeyRotation = ''key_rotate''"

lemmas nvs_names = kConfigNamespace_def kTeslaBleNamespace_def kConfigBlob_def kLegacyWifiSsid_def
  kLegacyWifiPass_def kLegacyVin_def kLegacyMqttUri_def kLegacySyslogUri_def kLastTime_def
  kVinTransition_def kBleMac_def kRebootReason_def kBootFailures_def kPrivateKey_def
  kSessionVcsec_def kSessionInfotainment_def kPairedAt_def kKeyCreated_def kKeyRotation_def

definition mk_entry :: "nvs_namespace \<Rightarrow> string \<Rightarrow> string \<Rightarrow> storage_api \<Rightarrow> nvs_owner \<Rightarrow> nvs_retention \<Rightarrow> bool \<Rightarrow> nvs_entry" where
  "mk_entry ns logical stored api owner retention secret =
     \<lparr>en_namespace = ns, en_logical_key = logical, en_stored_key = stored, en_api = api,
      en_owner = owner, en_retention = retention, en_secret = secret\<rparr>"

definition kEntries :: "nvs_entry list" where
  "kEntries = [
     mk_entry Config kConfigBlob kConfigBlob RawBlob ConfigHttp DurableAcrossOta True,
     mk_entry Config kLegacyWifiSsid kLegacyWifiSsid String LegacyConfigMirror LegacyDowngradeMirror True,
     mk_entry Config kLegacyWifiPass kLegacyWifiPass String LegacyConfigMirror LegacyDowngradeMirror True,
     mk_entry Config kLegacyVin kLegacyVin String LegacyConfigMirror LegacyDowngradeMirror True,
     mk_entry Config kLegacyMqttUri kLegacyMqttUri String LegacyConfigMirror LegacyDowngradeMirror True,
     mk_entry Config kLegacySyslogUri kLegacySyslogUri String LegacyConfigMirror LegacyDowngradeMirror True,
     mk_entry Config kLastTime kLastTime String Clock ReplaceableCache False,
     mk_entry Config kVinTransition kVinTransition String VinTransition RecoveryJournal True,
     mk_entry Config kBleMac kBleMac String BleDiscovery ReplaceableCache True,
     mk_entry Config kRebootReason kRebootReason String HeapWatchdog RecoveryJournal False,
     mk_entry Config kBootFailures kBootFailures String BootGuard RecoveryJournal False,
     mk_entry TeslaBle kPrivateKey kPrivateKey Blob TeslaBleLibrary DurableAcrossOta True,
     mk_entry TeslaBle kSessionVcsec ''sess_vcsec'' Blob TeslaBleLibrary ReplaceableCache True,
     mk_entry TeslaBle kSessionInfotainment ''sess_info'' Blob TeslaBleLibrary ReplaceableCache True,
     mk_entry TeslaBle kPairedAt kPairedAt String Pairing ReplaceableCache False,
     mk_entry TeslaBle kKeyCreated kKeyCreated String Pairing DurableAcrossOta False,
     mk_entry TeslaBle kKeyRotation kKeyRotation Blob KeyRotation RecoveryJournal True]"

definition classify_namespace :: "string \<Rightarrow> nvs_namespace" where
  "classify_namespace v = (if v = kConfigNamespace then Config
     else if v = kTeslaBleNamespace then TeslaBle else UnknownNs)"

definition nvs_find :: "nvs_namespace \<Rightarrow> string \<Rightarrow> nvs_entry option" where
  "nvs_find ns key = List.find (\<lambda>e. en_namespace e = ns \<and> en_logical_key e = key) kEntries"

definition entry_clash :: "nvs_entry \<Rightarrow> nvs_entry \<Rightarrow> bool" where
  "entry_clash e o' \<longleftrightarrow> en_namespace e = en_namespace o' \<and>
     (en_logical_key e = en_logical_key o' \<or> en_stored_key e = en_stored_key o')"

fun entries_valid :: "nvs_entry list \<Rightarrow> bool" where
  "entries_valid [] = True"
| "entries_valid (e # es) =
     (if en_namespace e = UnknownNs \<or> en_logical_key e = '''' \<or> en_stored_key e = '''' \<or>
         15 < length (en_stored_key e) then False
      else if list_ex (entry_clash e) es then False
      else entries_valid es)"

definition nvs_valid :: bool where
  "nvs_valid \<longleftrightarrow> \<not> (15 < length kConfigNamespace \<or> 15 < length kTeslaBleNamespace) \<and> entries_valid kEntries"

subsection \<open>Classifying a two-call read\<close>

datatype nvs_probe = ProbeOk | ProbeNotFound | ProbeError
datatype nvs_load_state = LoadError | LoadMissing | LoadPresent

definition classify_nvs_string_load :: "nvs_probe \<Rightarrow> nat \<Rightarrow> bool \<Rightarrow> nat \<Rightarrow> bool \<Rightarrow> bool \<Rightarrow> nvs_load_state" where
  "classify_nvs_string_load probe probed_len read_ok read_len value_well_formed allow_empty =
     (if probe = ProbeNotFound then LoadMissing
      else if probe \<noteq> ProbeOk \<or> probed_len = 0 \<or> (\<not> allow_empty \<and> probed_len = 1) \<or> \<not> read_ok \<or>
              read_len \<noteq> probed_len \<or> \<not> value_well_formed then LoadError
      else LoadPresent)"

definition classify_nvs_blob_load :: "nvs_probe \<Rightarrow> nat \<Rightarrow> bool \<Rightarrow> nat \<Rightarrow> nvs_load_state" where
  "classify_nvs_blob_load probe probed_len read_ok read_len =
     (if probe = ProbeNotFound then LoadMissing
      else if probe \<noteq> ProbeOk \<or> probed_len = 0 \<or> \<not> read_ok \<or> read_len \<noteq> probed_len then LoadError
      else LoadPresent)"

subsection \<open>The driver and the adapter's state\<close>

datatype nvs_err = NvsOk | NvsNotFound | NvsFail

record 'n nvs_api =
  nvs_open :: "string \<Rightarrow> 'n \<Rightarrow> nvs_err \<times> 'n"
  nvs_blob_len :: "string \<Rightarrow> 'n \<Rightarrow> (nvs_err \<times> nat) \<times> 'n"
  nvs_blob_read :: "string \<Rightarrow> nat \<Rightarrow> 'n \<Rightarrow> (nvs_err \<times> bytes) \<times> 'n"
  nvs_str_len :: "string \<Rightarrow> 'n \<Rightarrow> (nvs_err \<times> nat) \<times> 'n"
  nvs_str_read :: "string \<Rightarrow> nat \<Rightarrow> 'n \<Rightarrow> (nvs_err \<times> bytes) \<times> 'n"
  nvs_set_blob :: "string \<Rightarrow> bytes \<Rightarrow> 'n \<Rightarrow> nvs_err \<times> 'n"
  nvs_set_str :: "string \<Rightarrow> bytes \<Rightarrow> 'n \<Rightarrow> nvs_err \<times> 'n"
  nvs_erase_key :: "string \<Rightarrow> 'n \<Rightarrow> nvs_err \<times> 'n"
  nvs_commit :: "'n \<Rightarrow> nvs_err \<times> 'n"
  alloc_ok :: "nat \<Rightarrow> 'n \<Rightarrow> bool"

record 'n nvs_store =
  ns_kind :: nvs_namespace
  nvs_initialized :: bool
  session_vcsec_present :: int
  nvs_dev :: 'n

definition new_nvs_store :: "string \<Rightarrow> 'n \<Rightarrow> 'n nvs_store" where
  "new_nvs_store namespace_name dev = \<lparr>ns_kind = classify_namespace namespace_name,
     nvs_initialized = False, session_vcsec_present = -1, nvs_dev = dev\<rparr>"

definition nvs_initialize :: "'n nvs_api \<Rightarrow> string \<Rightarrow> 'n nvs_store \<Rightarrow> bool \<times> 'n nvs_store" where
  "nvs_initialize api ns s =
     (if ns_kind s = UnknownNs then (False, s)
      else case nvs_open api ns (nvs_dev s) of (err, d) \<Rightarrow>
        if err \<noteq> NvsOk then (False, s\<lparr>nvs_dev := d\<rparr>)
        else (True, s\<lparr>nvs_dev := d, nvs_initialized := True\<rparr>))"

definition map_key :: "'n nvs_store \<Rightarrow> string \<Rightarrow> storage_api \<Rightarrow> bool \<Rightarrow> string option" where
  "map_key s key api erase_any_api =
     (case nvs_find (ns_kind s) key of None \<Rightarrow> None
      | Some e \<Rightarrow> if \<not> erase_any_api \<and> en_api e \<noteq> api then None else Some (en_stored_key e))"

subsection \<open>Blob records\<close>

definition nvs_load :: "'n nvs_api \<Rightarrow> string \<Rightarrow> 'n nvs_store \<Rightarrow> (bool \<times> bytes) \<times> 'n nvs_store" where
  "nvs_load api key s =
     (if \<not> nvs_initialized s then ((False, []), s)
      else case map_key s key Blob False of None \<Rightarrow> ((False, []), s)
      | Some k \<Rightarrow> (case nvs_blob_len api k (nvs_dev s) of ((err, probed_len), d1) \<Rightarrow>
          if err \<noteq> NvsOk then ((False, []), s\<lparr>nvs_dev := d1\<rparr>)
          else if probed_len = 0 then ((False, []), s\<lparr>nvs_dev := d1\<rparr>)
          else if \<not> alloc_ok api probed_len d1 then ((False, []), s\<lparr>nvs_dev := d1\<rparr>)
          else case nvs_blob_read api k probed_len d1 of ((err2, data), d2) \<Rightarrow>
            if err2 \<noteq> NvsOk \<or> length data \<noteq> probed_len then ((False, []), s\<lparr>nvs_dev := d2\<rparr>)
            else ((True, data), s\<lparr>nvs_dev := d2\<rparr>)))"

definition blob_exists :: "'n nvs_api \<Rightarrow> string \<Rightarrow> 'n nvs_store \<Rightarrow> bool \<times> 'n nvs_store" where
  "blob_exists api key s =
     (if \<not> nvs_initialized s then (False, s)
      else if key = kSessionVcsec \<and> 0 \<le> session_vcsec_present s then (session_vcsec_present s = 1, s)
      else case map_key s key Blob False of None \<Rightarrow> (False, s)
      | Some k \<Rightarrow> (case nvs_blob_len api k (nvs_dev s) of ((err, len), d1) \<Rightarrow>
          let s1 = s\<lparr>nvs_dev := d1\<rparr>;
              cached = (\<lambda>v. if key = kSessionVcsec then s1\<lparr>session_vcsec_present := v\<rparr> else s1) in
          if err = NvsNotFound then (False, cached 0)
          else if err \<noteq> NvsOk then (False, s1)
          else if len = 0 then (False, cached 0)
          else (True, cached 1)))"

text \<open>The probe's answer: whether the query worked, and whether the record exists.\<close>

definition probe_blob :: "'n nvs_api \<Rightarrow> string \<Rightarrow> 'n nvs_store \<Rightarrow> (bool \<times> bool) \<times> 'n nvs_store" where
  "probe_blob api key s =
     (if \<not> nvs_initialized s then ((False, False), s)
      else case map_key s key Blob False of None \<Rightarrow> ((False, False), s)
      | Some k \<Rightarrow> (case nvs_blob_len api k (nvs_dev s) of ((err, len), d1) \<Rightarrow>
          if err = NvsNotFound then ((True, False), s\<lparr>nvs_dev := d1\<rparr>)
          else if err \<noteq> NvsOk then ((False, False), s\<lparr>nvs_dev := d1\<rparr>)
          else ((True, True), s\<lparr>nvs_dev := d1\<rparr>)))"

definition nvs_save :: "'n nvs_api \<Rightarrow> string \<Rightarrow> bytes \<Rightarrow> 'n nvs_store \<Rightarrow> bool \<times> 'n nvs_store" where
  "nvs_save api key buffer s =
     (if \<not> nvs_initialized s then (False, s)
      else case map_key s key Blob False of None \<Rightarrow> (False, s)
      | Some k \<Rightarrow> (case nvs_set_blob api k buffer (nvs_dev s) of (err, d1) \<Rightarrow>
          if err \<noteq> NvsOk then (False, s\<lparr>nvs_dev := d1\<rparr>)
          else case nvs_commit api d1 of (err2, d2) \<Rightarrow>
            if err2 \<noteq> NvsOk then (False, s\<lparr>nvs_dev := d2\<rparr>)
            else (True, if key = kSessionVcsec then s\<lparr>nvs_dev := d2, session_vcsec_present := 1\<rparr>
                        else s\<lparr>nvs_dev := d2\<rparr>)))"

definition nvs_remove :: "'n nvs_api \<Rightarrow> string \<Rightarrow> 'n nvs_store \<Rightarrow> bool \<times> 'n nvs_store" where
  "nvs_remove api key s =
     (if \<not> nvs_initialized s then (False, s)
      else case map_key s key Blob True of None \<Rightarrow> (False, s)
      | Some k \<Rightarrow> (case nvs_erase_key api k (nvs_dev s) of (err, d1) \<Rightarrow>
          if err \<noteq> NvsOk \<and> err \<noteq> NvsNotFound then (False, s\<lparr>nvs_dev := d1\<rparr>)
          else case nvs_commit api d1 of (err2, d2) \<Rightarrow>
            if err2 \<noteq> NvsOk then (False, s\<lparr>nvs_dev := d2\<rparr>)
            else (True, if key = kSessionVcsec then s\<lparr>nvs_dev := d2, session_vcsec_present := 0\<rparr>
                        else s\<lparr>nvs_dev := d2\<rparr>)))"

subsection \<open>String records\<close>

text \<open>A C string of a stored record: its bytes up to and with the terminating NUL. A null key reads as
  the empty key, which the registry does not hold.\<close>

definition c_str :: "bytes \<Rightarrow> bytes" where
  "c_str s = takeWhile (\<lambda>c. c \<noteq> 0) s @ [0]"

definition key_or_empty :: "string option \<Rightarrow> string" where
  "key_or_empty key = (case key of Some k \<Rightarrow> k | None \<Rightarrow> [])"

definition nvs_load_str :: "'n nvs_api \<Rightarrow> string option \<Rightarrow> bytes \<Rightarrow> 'n nvs_store \<Rightarrow> (bool \<times> bytes) \<times> 'n nvs_store" where
  "nvs_load_str api key out s =
     (if \<not> nvs_initialized s then ((False, out), s)
      else case map_key s (key_or_empty key) String False of None \<Rightarrow> ((False, out), s)
      | Some k \<Rightarrow> (case nvs_str_len api k (nvs_dev s) of ((err, probed_len), d1) \<Rightarrow>
          if err = NvsNotFound \<or> probed_len = 0 then ((False, out), s\<lparr>nvs_dev := d1\<rparr>)
          else if err \<noteq> NvsOk then ((False, out), s\<lparr>nvs_dev := d1\<rparr>)
          else if \<not> alloc_ok api probed_len d1 then ((False, out), s\<lparr>nvs_dev := d1\<rparr>)
          else case nvs_str_read api k probed_len d1 of ((err2, buf), d2) \<Rightarrow>
            if \<not> (err2 = NvsOk \<and> length buf = probed_len \<and> last buf = 0 \<and> 0 \<notin> set (take (probed_len - 1) buf))
            then ((False, out), s\<lparr>nvs_dev := d2\<rparr>)
            else if \<not> alloc_ok api (probed_len - 1) d2 then ((False, out), s\<lparr>nvs_dev := d2\<rparr>)
            else ((True, take (probed_len - 1) buf), s\<lparr>nvs_dev := d2\<rparr>)))"

definition probe_of :: "nvs_err \<Rightarrow> nvs_probe" where
  "probe_of err = (case err of NvsOk \<Rightarrow> ProbeOk | NvsNotFound \<Rightarrow> ProbeNotFound | NvsFail \<Rightarrow> ProbeError)"

definition nvs_load_str_state ::
    "'n nvs_api \<Rightarrow> string option \<Rightarrow> bool \<Rightarrow> 'n nvs_store \<Rightarrow> (nvs_load_state \<times> bytes) \<times> 'n nvs_store" where
  "nvs_load_str_state api key allow_empty s =
     (if \<not> nvs_initialized s then ((LoadError, []), s)
      else case map_key s (key_or_empty key) String False of None \<Rightarrow> ((LoadError, []), s)
      | Some k \<Rightarrow> (case nvs_str_len api k (nvs_dev s) of ((err, probed_len), d1) \<Rightarrow>
          if probe_of err = ProbeNotFound then ((LoadMissing, []), s\<lparr>nvs_dev := d1\<rparr>)
          else if probe_of err = ProbeError \<or> probed_len = 0 \<or> (\<not> allow_empty \<and> probed_len = 1)
          then ((LoadError, []), s\<lparr>nvs_dev := d1\<rparr>)
          else if \<not> alloc_ok api probed_len d1 then ((LoadError, []), s\<lparr>nvs_dev := d1\<rparr>)
          else case nvs_str_read api k probed_len d1 of ((err2, buf), d2) \<Rightarrow>
            let read_ok = (err2 = NvsOk);
                well_formed = (read_ok \<and> length buf = probed_len \<and> (allow_empty \<or> hd buf \<noteq> 0) \<and>
                   last buf = 0 \<and> 0 \<notin> set (take (probed_len - 1) buf));
                state = classify_nvs_string_load (probe_of err) probed_len read_ok (length buf)
                          well_formed allow_empty
            in if state \<noteq> LoadPresent then ((LoadError, []), s\<lparr>nvs_dev := d2\<rparr>)
               else if \<not> alloc_ok api (probed_len - 1) d2 then ((LoadError, []), s\<lparr>nvs_dev := d2\<rparr>)
               else ((LoadPresent, take (probed_len - 1) buf), s\<lparr>nvs_dev := d2\<rparr>)))"

definition nvs_save_str :: "'n nvs_api \<Rightarrow> string option \<Rightarrow> bytes \<Rightarrow> 'n nvs_store \<Rightarrow> bool \<times> 'n nvs_store" where
  "nvs_save_str api key v s =
     (if \<not> nvs_initialized s then (False, s)
      else case map_key s (key_or_empty key) String False of None \<Rightarrow> (False, s)
      | Some k \<Rightarrow> (case nvs_set_str api k (c_str v) (nvs_dev s) of (err, d1) \<Rightarrow>
          if err \<noteq> NvsOk then (False, s\<lparr>nvs_dev := d1\<rparr>)
          else case nvs_commit api d1 of (err2, d2) \<Rightarrow> (err2 = NvsOk, s\<lparr>nvs_dev := d2\<rparr>)))"

subsection \<open>The raw configuration blob\<close>

definition nvs_load_blob_state :: "'n nvs_api \<Rightarrow> string option \<Rightarrow> 'n nvs_store \<Rightarrow> (nvs_load_state \<times> bytes) \<times> 'n nvs_store" where
  "nvs_load_blob_state api key s =
     (if \<not> nvs_initialized s then ((LoadError, []), s)
      else case map_key s (key_or_empty key) RawBlob False of None \<Rightarrow> ((LoadError, []), s)
      | Some k \<Rightarrow> (case nvs_blob_len api k (nvs_dev s) of ((err, probed_len), d1) \<Rightarrow>
          if probe_of err = ProbeNotFound then ((LoadMissing, []), s\<lparr>nvs_dev := d1\<rparr>)
          else if probe_of err \<noteq> ProbeOk \<or> probed_len = 0 then ((LoadError, []), s\<lparr>nvs_dev := d1\<rparr>)
          else if \<not> alloc_ok api probed_len d1 then ((LoadError, []), s\<lparr>nvs_dev := d1\<rparr>)
          else case nvs_blob_read api k probed_len d1 of ((err2, data), d2) \<Rightarrow>
            if classify_nvs_blob_load (probe_of err) probed_len (err2 = NvsOk) (length data) \<noteq> LoadPresent
            then ((LoadError, []), s\<lparr>nvs_dev := d2\<rparr>)
            else ((LoadPresent, data), s\<lparr>nvs_dev := d2\<rparr>)))"

definition nvs_load_blob :: "'n nvs_api \<Rightarrow> string option \<Rightarrow> 'n nvs_store \<Rightarrow> (bool \<times> bytes) \<times> 'n nvs_store" where
  "nvs_load_blob api key s = (case nvs_load_blob_state api key s of
     ((state, data), s') \<Rightarrow> ((state = LoadPresent, data), s'))"

definition nvs_save_blob :: "'n nvs_api \<Rightarrow> string option \<Rightarrow> bytes option \<Rightarrow> 'n nvs_store \<Rightarrow> bool \<times> 'n nvs_store" where
  "nvs_save_blob api key data_ptr s =
     (case data_ptr of None \<Rightarrow> (False, s)
      | Some data \<Rightarrow>
        if \<not> nvs_initialized s \<or> data = [] then (False, s)
        else case map_key s (key_or_empty key) RawBlob False of None \<Rightarrow> (False, s)
        | Some k \<Rightarrow> (case nvs_set_blob api k data (nvs_dev s) of (err, d1) \<Rightarrow>
            if err \<noteq> NvsOk then (False, s\<lparr>nvs_dev := d1\<rparr>)
            else case nvs_commit api d1 of (err2, d2) \<Rightarrow> (err2 = NvsOk, s\<lparr>nvs_dev := d2\<rparr>)))"

subsection \<open>The registry never aliases\<close>

lemma entries_valid_distinct:
  "entries_valid es \<Longrightarrow> e \<in> set es \<Longrightarrow> o' \<in> set es \<Longrightarrow> entry_clash e o' \<Longrightarrow> e = o'"
proof (induction es)
  case (Cons x xs)
  then have "\<not> list_ex (entry_clash x) xs" "entries_valid xs" by (auto split: if_splits)
  with Cons show ?case by (auto simp: list_ex_iff entry_clash_def)
qed simp

lemma entries_valid_keys:
  "entries_valid es \<Longrightarrow> e \<in> set es \<Longrightarrow>
   en_namespace e \<noteq> UnknownNs \<and> en_logical_key e \<noteq> [] \<and> en_stored_key e \<noteq> [] \<and> length (en_stored_key e) \<le> 15"
  by (induction es) (auto split: if_splits)

lemma registry_valid: nvs_valid
  by code_simp

lemma nvs_find_SomeD:
  "nvs_find ns key = Some e \<Longrightarrow> e \<in> set kEntries \<and> en_namespace e = ns \<and> en_logical_key e = key"
  unfolding nvs_find_def find_Some_iff by auto

lemma nvs_find_stored_inj:
  assumes "nvs_find ns k = Some e" "nvs_find ns k' = Some e'" "en_stored_key e = en_stored_key e'"
  shows "k = k'"
proof -
  have "entry_clash e e'" using nvs_find_SomeD [OF assms(1)] nvs_find_SomeD [OF assms(2)] assms(3)
    by (simp add: entry_clash_def)
  with registry_valid have "e = e'"
    using nvs_find_SomeD [OF assms(1)] nvs_find_SomeD [OF assms(2)]
    by (auto simp: nvs_valid_def dest: entries_valid_distinct)
  with nvs_find_SomeD [OF assms(1)] nvs_find_SomeD [OF assms(2)] show ?thesis by simp
qed

subsection \<open>What the driver promises\<close>

text \<open>The documented behaviour of the flash driver, over the records its state holds: a read changes no
  record and reports the record there, or that there is none; a write or an erase touches the named
  record only, and did its work when it reports success; a commit changes no record.\<close>

definition keeps_others :: "(string \<Rightarrow> bytes option) \<Rightarrow> (string \<Rightarrow> bytes option) \<Rightarrow> string \<Rightarrow> bool" where
  "keeps_others r r' k \<longleftrightarrow> (\<forall>k'. k' \<noteq> k \<longrightarrow> r' k' = r k')"

definition len_ok :: "(string \<Rightarrow> 'n \<Rightarrow> (nvs_err \<times> nat) \<times> 'n) \<Rightarrow> ('n \<Rightarrow> string \<Rightarrow> bytes option) \<Rightarrow> bool" where
  "len_ok f rec \<longleftrightarrow> (\<forall>k d err n d'. f k d = ((err, n), d') \<longrightarrow> rec d' = rec d \<and>
     (err = NvsNotFound \<longrightarrow> rec d k = None) \<and> (err = NvsOk \<longrightarrow> (\<exists>v. rec d k = Some v \<and> length v = n)))"

definition read_ok :: "(string \<Rightarrow> nat \<Rightarrow> 'n \<Rightarrow> (nvs_err \<times> bytes) \<times> 'n) \<Rightarrow> ('n \<Rightarrow> string \<Rightarrow> bytes option) \<Rightarrow> bool" where
  "read_ok f rec \<longleftrightarrow> (\<forall>k n d err v d'. f k n d = ((err, v), d') \<longrightarrow> rec d' = rec d \<and>
     (err = NvsOk \<longrightarrow> rec d k = Some v))"

definition set_ok :: "(string \<Rightarrow> bytes \<Rightarrow> 'n \<Rightarrow> nvs_err \<times> 'n) \<Rightarrow> ('n \<Rightarrow> string \<Rightarrow> bytes option) \<Rightarrow> bool" where
  "set_ok f rec \<longleftrightarrow> (\<forall>k v d err d'. f k v d = (err, d') \<longrightarrow> keeps_others (rec d) (rec d') k \<and>
     (err = NvsOk \<longrightarrow> rec d' k = Some v))"

definition nvs_driver_ok :: "'n nvs_api \<Rightarrow> ('n \<Rightarrow> string \<Rightarrow> bytes option) \<Rightarrow> bool" where
  "nvs_driver_ok api rec \<longleftrightarrow>
     len_ok (nvs_blob_len api) rec \<and> read_ok (nvs_blob_read api) rec \<and>
     len_ok (nvs_str_len api) rec \<and> read_ok (nvs_str_read api) rec \<and>
     set_ok (nvs_set_blob api) rec \<and> set_ok (nvs_set_str api) rec \<and>
     (\<forall>k d err d'. nvs_erase_key api k d = (err, d') \<longrightarrow> keeps_others (rec d) (rec d') k \<and>
        (err \<noteq> NvsFail \<longrightarrow> rec d' k = None)) \<and>
     (\<forall>d err d'. nvs_commit api d = (err, d') \<longrightarrow> rec d' = rec d)"

lemma len_okD:
  assumes "len_ok f rec" "f k d = ((err, n), d')"
  shows "rec d' = rec d" "err = NvsNotFound \<Longrightarrow> rec d k = None"
    "err = NvsOk \<Longrightarrow> \<exists>v. rec d k = Some v \<and> length v = n"
  using assms unfolding len_ok_def by blast+

lemma read_okD:
  assumes "read_ok f rec" "f k n d = ((err, v), d')"
  shows "rec d' = rec d" "err = NvsOk \<Longrightarrow> rec d k = Some v"
  using assms unfolding read_ok_def by blast+

lemma set_okD:
  assumes "set_ok f rec" "f k v d = (err, d')"
  shows "keeps_others (rec d) (rec d') k" "err = NvsOk \<Longrightarrow> rec d' k = Some v"
  using assms unfolding set_ok_def by blast+

lemma driver_parts:
  assumes "nvs_driver_ok api rec"
  shows "len_ok (nvs_blob_len api) rec" "read_ok (nvs_blob_read api) rec" "len_ok (nvs_str_len api) rec"
    "read_ok (nvs_str_read api) rec" "set_ok (nvs_set_blob api) rec" "set_ok (nvs_set_str api) rec"
  using assms unfolding nvs_driver_ok_def by simp_all

lemma driver_erase:
  "nvs_driver_ok api rec \<Longrightarrow> nvs_erase_key api k d = (err, d') \<Longrightarrow> keeps_others (rec d) (rec d') k \<and>
     (err \<noteq> NvsFail \<longrightarrow> rec d' k = None)"
  unfolding nvs_driver_ok_def by blast

lemma driver_commit: "nvs_driver_ok api rec \<Longrightarrow> nvs_commit api d = (err, d') \<Longrightarrow> rec d' = rec d"
  unfolding nvs_driver_ok_def by blast

subsection \<open>The adapter over logical keys\<close>

text \<open>The record a logical key of the adapter's namespace names.\<close>

definition record_of :: "('n \<Rightarrow> string \<Rightarrow> bytes option) \<Rightarrow> 'n nvs_store \<Rightarrow> string \<Rightarrow> bytes option" where
  "record_of rec s key = (case nvs_find (ns_kind s) key of None \<Rightarrow> None
     | Some e \<Rightarrow> rec (nvs_dev s) (en_stored_key e))"

lemma record_of_update:
  assumes "nvs_find (ns_kind s) key = Some e" "keeps_others (rec (nvs_dev s)) (rec d) (en_stored_key e)"
    "ns_kind s' = ns_kind s" "rec (nvs_dev s') = rec d" "key' \<noteq> key"
  shows "record_of rec s' key' = record_of rec s key'"
proof (cases "nvs_find (ns_kind s) key'")
  case (Some e')
  then have "en_stored_key e' \<noteq> en_stored_key e"
    using nvs_find_stored_inj [OF Some assms(1)] assms(5) by auto
  with assms Some show ?thesis by (simp add: record_of_def keeps_others_def)
qed (simp add: record_of_def assms(3))

lemma record_of_same:
  "ns_kind s' = ns_kind s \<Longrightarrow> rec (nvs_dev s') = rec (nvs_dev s) \<Longrightarrow> record_of rec s' = record_of rec s"
  by (rule ext) (simp add: record_of_def split: option.splits)

text \<open>The identity of an adapter: its namespace and that it is open.\<close>

definition same_adapter :: "'n nvs_store \<Rightarrow> 'n nvs_store \<Rightarrow> bool" where
  "same_adapter s s' \<longleftrightarrow> ns_kind s' = ns_kind s \<and> nvs_initialized s' = nvs_initialized s"

text \<open>A call that hands the driver one write and one commit.\<close>

lemma record_write:
  assumes "nvs_find (ns_kind s) key = Some e" "keeps_others (rec (nvs_dev s)) (rec d) (en_stored_key e)"
    "ns_kind s' = ns_kind s" "rec (nvs_dev s') = rec d"
  shows "(\<forall>k. k \<noteq> key \<longrightarrow> record_of rec s' k = record_of rec s k) \<and>
    record_of rec s' key = rec d (en_stored_key e)"
  using record_of_update [OF assms] assms by (auto simp: record_of_def)

lemma map_key_Some:
  "map_key s key api any = Some k \<Longrightarrow> \<exists>e. nvs_find (ns_kind s) key = Some e \<and> en_stored_key e = k"
  by (auto simp: map_key_def split: option.splits if_splits)

lemma nvs_remove_ok:
  assumes drv: "nvs_driver_ok api rec" and eq: "nvs_remove api key s = (ok, s')"
  shows "same_adapter s s' \<and> (\<forall>k. k \<noteq> key \<longrightarrow> record_of rec s' k = record_of rec s k) \<and>
    (ok \<longrightarrow> record_of rec s' key = None)"
proof (cases "nvs_initialized s \<and> map_key s key Blob True \<noteq> None")
  case True
  then obtain e where init: "nvs_initialized s" and m: "map_key s key Blob True = Some (en_stored_key e)"
    and e: "nvs_find (ns_kind s) key = Some e" using map_key_Some by blast
  obtain err d1 where er: "nvs_erase_key api (en_stored_key e) (nvs_dev s) = (err, d1)" by fastforce
  obtain err2 d2 where co: "nvs_commit api d1 = (err2, d2)" by fastforce
  note d = driver_erase [OF drv er] driver_commit [OF drv co]
  have s': "same_adapter s s'" "rec (nvs_dev s') = rec d1" "ok \<Longrightarrow> err \<noteq> NvsFail"
    using eq init m er co d by (auto simp: nvs_remove_def same_adapter_def split: if_splits)
  from record_write [OF e _ _ s'(2)] d s' show ?thesis by (auto simp: same_adapter_def)
next
  case False
  then show ?thesis using eq by (auto simp: nvs_remove_def same_adapter_def split: if_splits)
qed

lemma nvs_save_ok:
  assumes drv: "nvs_driver_ok api rec" and eq: "nvs_save api key v s = (ok, s')"
  shows "same_adapter s s' \<and> (\<forall>k. k \<noteq> key \<longrightarrow> record_of rec s' k = record_of rec s k) \<and>
    (ok \<longrightarrow> record_of rec s' key = Some v)"
proof (cases "nvs_initialized s \<and> map_key s key Blob False \<noteq> None")
  case True
  then obtain e where init: "nvs_initialized s" and m: "map_key s key Blob False = Some (en_stored_key e)"
    and e: "nvs_find (ns_kind s) key = Some e" using map_key_Some by blast
  obtain err d1 where er: "nvs_set_blob api (en_stored_key e) v (nvs_dev s) = (err, d1)" by fastforce
  obtain err2 d2 where co: "nvs_commit api d1 = (err2, d2)" by fastforce
  note d = set_okD [OF driver_parts(5) [OF drv] er] driver_commit [OF drv co]
  have s': "same_adapter s s'" "rec (nvs_dev s') = rec d1" "ok \<Longrightarrow> err = NvsOk"
    using eq init m er co d by (auto simp: nvs_save_def same_adapter_def split: if_splits)
  from record_write [OF e _ _ s'(2)] d s' show ?thesis by (auto simp: same_adapter_def)
next
  case False
  then show ?thesis using eq by (auto simp: nvs_save_def same_adapter_def split: if_splits)
qed

lemma nvs_save_str_ok:
  assumes drv: "nvs_driver_ok api rec" and eq: "nvs_save_str api (Some key) v s = (ok, s')"
  shows "same_adapter s s' \<and> (\<forall>k. k \<noteq> key \<longrightarrow> record_of rec s' k = record_of rec s k) \<and>
    (ok \<longrightarrow> record_of rec s' key = Some (c_str v))"
proof (cases "nvs_initialized s \<and> map_key s key String False \<noteq> None")
  case True
  then obtain e where init: "nvs_initialized s" and m: "map_key s key String False = Some (en_stored_key e)"
    and e: "nvs_find (ns_kind s) key = Some e" using map_key_Some by blast
  obtain err d1 where er: "nvs_set_str api (en_stored_key e) (c_str v) (nvs_dev s) = (err, d1)" by fastforce
  obtain err2 d2 where co: "nvs_commit api d1 = (err2, d2)" by fastforce
  note d = set_okD [OF driver_parts(6) [OF drv] er] driver_commit [OF drv co]
  have s': "same_adapter s s'" "rec (nvs_dev s') = rec d1" "ok \<Longrightarrow> err = NvsOk"
    using eq init m er co d by (auto simp: nvs_save_str_def key_or_empty_def same_adapter_def split: if_splits)
  from record_write [OF e _ _ s'(2)] d s' show ?thesis by (auto simp: same_adapter_def)
next
  case False
  then show ?thesis using eq by (auto simp: nvs_save_str_def key_or_empty_def same_adapter_def split: if_splits)
qed

lemma nvs_save_blob_ok:
  assumes drv: "nvs_driver_ok api rec" and eq: "nvs_save_blob api (Some key) (Some v) s = (ok, s')"
  shows "same_adapter s s' \<and> (\<forall>k. k \<noteq> key \<longrightarrow> record_of rec s' k = record_of rec s k) \<and>
    (ok \<longrightarrow> record_of rec s' key = Some v)"
proof (cases "nvs_initialized s \<and> v \<noteq> [] \<and> map_key s key RawBlob False \<noteq> None")
  case True
  then obtain e where init: "nvs_initialized s" "v \<noteq> []" and m: "map_key s key RawBlob False = Some (en_stored_key e)"
    and e: "nvs_find (ns_kind s) key = Some e" using map_key_Some by blast
  obtain err d1 where er: "nvs_set_blob api (en_stored_key e) v (nvs_dev s) = (err, d1)" by fastforce
  obtain err2 d2 where co: "nvs_commit api d1 = (err2, d2)" by fastforce
  note d = set_okD [OF driver_parts(5) [OF drv] er] driver_commit [OF drv co]
  have s': "same_adapter s s'" "rec (nvs_dev s') = rec d1" "ok \<Longrightarrow> err = NvsOk"
    using eq init m er co d by (auto simp: nvs_save_blob_def key_or_empty_def same_adapter_def split: if_splits)
  from record_write [OF e _ _ s'(2)] d s' show ?thesis by (auto simp: same_adapter_def)
next
  case False
  then show ?thesis using eq by (auto simp: nvs_save_blob_def key_or_empty_def same_adapter_def split: if_splits)
qed

lemma nvs_load_blob_state_ok:
  assumes drv: "nvs_driver_ok api rec" and eq: "nvs_load_blob_state api (Some key) s = ((state, v), s')"
  shows "same_adapter s s' \<and> record_of rec s' = record_of rec s \<and>
    (case state of LoadMissing \<Rightarrow> record_of rec s key = None \<and> v = []
     | LoadPresent \<Rightarrow> record_of rec s key = Some v \<and> v \<noteq> [] | LoadError \<Rightarrow> v = [])"
proof (cases "nvs_initialized s \<and> map_key s key RawBlob False \<noteq> None")
  case True
  then obtain e where init: "nvs_initialized s" and m: "map_key s key RawBlob False = Some (en_stored_key e)"
    and e: "nvs_find (ns_kind s) key = Some e" using map_key_Some by blast
  obtain err n d1 where le: "nvs_blob_len api (en_stored_key e) (nvs_dev s) = ((err, n), d1)" by (metis surj_pair)
  obtain err2 w d2 where re: "nvs_blob_read api (en_stored_key e) n d1 = ((err2, w), d2)" by (metis surj_pair)
  note l = len_okD [OF driver_parts(1) [OF drv] le] and r = read_okD [OF driver_parts(2) [OF drv] re]
  have s': "same_adapter s s'" "rec (nvs_dev s') = rec (nvs_dev s)"
    using eq init m le re l r
    by (auto simp: nvs_load_blob_state_def key_or_empty_def same_adapter_def split: if_splits)
  have "case state of LoadMissing \<Rightarrow> err = NvsNotFound \<and> v = []
     | LoadPresent \<Rightarrow> err2 = NvsOk \<and> v = w \<and> w \<noteq> [] | LoadError \<Rightarrow> v = []"
    using eq init m le re
    by (auto simp: nvs_load_blob_state_def key_or_empty_def probe_of_def classify_nvs_blob_load_def
        split: if_splits nvs_load_state.splits nvs_err.splits)
  with l r e s' record_of_same [of s' s rec] show ?thesis
    by (auto simp: record_of_def same_adapter_def split: nvs_load_state.splits)
next
  case False
  then show ?thesis using eq
    by (auto simp: nvs_load_blob_state_def key_or_empty_def same_adapter_def split: if_splits)
qed

lemma take_last_nul:
  "length buf = n \<Longrightarrow> n \<noteq> 0 \<Longrightarrow> last buf = 0 \<Longrightarrow> 0 \<notin> set (take (n - 1) buf) \<Longrightarrow> buf = c_str (take (n - 1) buf)"
proof -
  assume a: "length buf = n" "n \<noteq> 0" "last buf = 0" "0 \<notin> set (take (n - 1) buf)"
  then have "buf = take (n - 1) buf @ [0]"
    by (metis append_butlast_last_id butlast_conv_take length_0_conv)
  moreover have "takeWhile (\<lambda>c. c \<noteq> 0) (take (n - 1) buf) = take (n - 1) buf"
    using a(4) by (auto simp: takeWhile_eq_all_conv)
  then have "c_str (take (n - 1) buf) = take (n - 1) buf @ [0]" by (simp only: c_str_def)
  ultimately show ?thesis by (simp only:)
qed

lemma nvs_load_str_state_ok:
  assumes drv: "nvs_driver_ok api rec" and eq: "nvs_load_str_state api (Some key) allow_empty s = ((state, v), s')"
  shows "same_adapter s s' \<and> record_of rec s' = record_of rec s \<and>
    (case state of LoadMissing \<Rightarrow> record_of rec s key = None \<and> v = []
     | LoadPresent \<Rightarrow> record_of rec s key = Some (c_str v) \<and> 0 \<notin> set v \<and> (allow_empty \<or> v \<noteq> [])
     | LoadError \<Rightarrow> v = [])"
proof (cases "nvs_initialized s \<and> map_key s key String False \<noteq> None")
  case True
  then obtain e where init: "nvs_initialized s" and m: "map_key s key String False = Some (en_stored_key e)"
    and e: "nvs_find (ns_kind s) key = Some e" using map_key_Some by blast
  obtain err n d1 where le: "nvs_str_len api (en_stored_key e) (nvs_dev s) = ((err, n), d1)" by (metis surj_pair)
  obtain err2 w d2 where re: "nvs_str_read api (en_stored_key e) n d1 = ((err2, w), d2)" by (metis surj_pair)
  note l = len_okD [OF driver_parts(3) [OF drv] le] and r = read_okD [OF driver_parts(4) [OF drv] re]
  have s': "same_adapter s s'" "rec (nvs_dev s') = rec (nvs_dev s)"
    using eq init m le re l r
    by (auto simp: nvs_load_str_state_def key_or_empty_def same_adapter_def Let_def split: if_splits)
  have st: "case state of LoadMissing \<Rightarrow> err = NvsNotFound \<and> v = []
     | LoadPresent \<Rightarrow> err2 = NvsOk \<and> v = take (n - 1) w \<and> length w = n \<and> n \<noteq> 0 \<and> last w = 0 \<and>
         0 \<notin> set (take (n - 1) w) \<and> (allow_empty \<or> n \<noteq> 1)
     | LoadError \<Rightarrow> v = []"
    using eq init m le re
    by (auto simp: nvs_load_str_state_def key_or_empty_def probe_of_def classify_nvs_string_load_def Let_def
        split: if_splits nvs_load_state.splits nvs_err.splits)
  show ?thesis
  proof (cases state)
    case LoadPresent
    with st have p: "err2 = NvsOk" "v = take (n - 1) w" "length w = n" "n \<noteq> 0" "last w = 0"
      "0 \<notin> set v" "allow_empty \<or> n \<noteq> 1" by auto
    then have "w = c_str v" using take_last_nul [of w n] by simp
    moreover have "allow_empty \<or> v \<noteq> []" using p by (cases w) auto
    ultimately show ?thesis
      using LoadPresent p r l(1) e s' record_of_same [of s' s rec]
      by (simp add: record_of_def same_adapter_def)
  qed (use st l e s' record_of_same [of s' s rec] in \<open>auto simp: record_of_def same_adapter_def\<close>)
next
  case False
  then show ?thesis using eq
    by (auto simp: nvs_load_str_state_def key_or_empty_def same_adapter_def split: if_splits)
qed

subsection \<open>The cached session probe\<close>

definition session_cache_ok :: "('n \<Rightarrow> string \<Rightarrow> bytes option) \<Rightarrow> 'n nvs_store \<Rightarrow> bool" where
  "session_cache_ok rec s \<longleftrightarrow>
     (session_vcsec_present s = 1 \<longrightarrow> (\<exists>v. record_of rec s kSessionVcsec = Some v \<and> v \<noteq> [])) \<and>
     (session_vcsec_present s = 0 \<longrightarrow> record_of rec s kSessionVcsec \<in> {None, Some []}) \<and>
     session_vcsec_present s \<in> {-1, 0, 1}"

lemma blob_exists_ok:
  assumes drv: "nvs_driver_ok api rec" and eq: "blob_exists api key s = (found, s')"
    and c: "session_cache_ok rec s"
  shows "same_adapter s s' \<and> record_of rec s' = record_of rec s \<and> session_cache_ok rec s' \<and>
    (found \<longrightarrow> (\<exists>v. record_of rec s key = Some v \<and> v \<noteq> []))"
proof (cases "nvs_initialized s \<and> \<not> (key = kSessionVcsec \<and> 0 \<le> session_vcsec_present s) \<and>
    map_key s key Blob False \<noteq> None")
  case True
  then obtain e where init: "nvs_initialized s" "\<not> (key = kSessionVcsec \<and> 0 \<le> session_vcsec_present s)"
    and m: "map_key s key Blob False = Some (en_stored_key e)"
    and e: "nvs_find (ns_kind s) key = Some e" using map_key_Some by blast
  obtain err n d1 where le: "nvs_blob_len api (en_stored_key e) (nvs_dev s) = ((err, n), d1)" by (metis surj_pair)
  note l = len_okD [OF driver_parts(1) [OF drv] le]
  have s': "same_adapter s s'" "rec (nvs_dev s') = rec (nvs_dev s)"
    using eq init m le l
    by (auto simp: blob_exists_def same_adapter_def Let_def split: if_splits)
  have same: "record_of rec s' = record_of rec s"
    using s' record_of_same [of s' s rec] by (simp add: same_adapter_def)
  have key: "record_of rec s key = rec (nvs_dev s) (en_stored_key e)" using e by (simp add: record_of_def)
  have found: "found \<longrightarrow> (\<exists>v. record_of rec s key = Some v \<and> v \<noteq> [])"
    using eq init m le l key by (auto simp: blob_exists_def Let_def split: if_splits)
  have "session_vcsec_present s' = session_vcsec_present s \<or> key = kSessionVcsec \<and>
      (session_vcsec_present s' = 1 \<and> err = NvsOk \<and> n \<noteq> 0 \<or>
       session_vcsec_present s' = 0 \<and> (err = NvsNotFound \<or> err = NvsOk \<and> n = 0))"
    using eq init m le by (auto simp: blob_exists_def Let_def split: if_splits)
  then have "session_cache_ok rec s'"
    using c l key by (auto simp: session_cache_ok_def same)
  with s' same found show ?thesis by blast
next
  case False
  then show ?thesis using eq c
    by (auto simp: blob_exists_def same_adapter_def session_cache_ok_def split: if_splits)
qed

lemma session_record: "nvs_find TeslaBle kSessionVcsec \<noteq> None" "nvs_find Config kSessionVcsec = None"
  by code_simp+

lemma nvs_save_cache:
  assumes drv: "nvs_driver_ok api rec" and eq: "nvs_save api key v s = (True, s')"
    and c: "session_cache_ok rec s" and v: "v \<noteq> []"
  shows "session_cache_ok rec s'"
proof -
  note ok = nvs_save_ok [OF drv eq]
  have "session_vcsec_present s' = (if key = kSessionVcsec then 1 else session_vcsec_present s)"
    using eq by (auto simp: nvs_save_def split: if_splits option.splits prod.splits)
  with ok c v show ?thesis by (auto simp: session_cache_ok_def)
qed

lemma nvs_remove_cache:
  assumes drv: "nvs_driver_ok api rec" and eq: "nvs_remove api key s = (True, s')"
    and c: "session_cache_ok rec s"
  shows "session_cache_ok rec s'"
proof -
  note ok = nvs_remove_ok [OF drv eq]
  have "session_vcsec_present s' = (if key = kSessionVcsec then 0 else session_vcsec_present s)"
    using eq by (auto simp: nvs_remove_def split: if_splits option.splits prod.splits)
  with ok c show ?thesis by (auto simp: session_cache_ok_def)
qed

subsection \<open>A concrete driver\<close>

text \<open>A flash that holds its records in a map and whose n-th commit fails when the n-th flag says so:
  it meets the promises, so that what rests on them can be evaluated.\<close>

record map_flash =
  mf_records :: "string \<Rightarrow> bytes option"
  mf_commit_fails :: "bool list"

definition map_flash_api :: "map_flash nvs_api" where
  "map_flash_api = \<lparr>nvs_open = (\<lambda>ns d. (NvsOk, d)),
     nvs_blob_len = (\<lambda>k d. (case mf_records d k of None \<Rightarrow> (NvsNotFound, 0) | Some v \<Rightarrow> (NvsOk, length v), d)),
     nvs_blob_read = (\<lambda>k n d. (case mf_records d k of None \<Rightarrow> (NvsNotFound, []) | Some v \<Rightarrow> (NvsOk, v), d)),
     nvs_str_len = (\<lambda>k d. (case mf_records d k of None \<Rightarrow> (NvsNotFound, 0) | Some v \<Rightarrow> (NvsOk, length v), d)),
     nvs_str_read = (\<lambda>k n d. (case mf_records d k of None \<Rightarrow> (NvsNotFound, []) | Some v \<Rightarrow> (NvsOk, v), d)),
     nvs_set_blob = (\<lambda>k v d. (NvsOk, d\<lparr>mf_records := (mf_records d)(k \<mapsto> v)\<rparr>)),
     nvs_set_str = (\<lambda>k v d. (NvsOk, d\<lparr>mf_records := (mf_records d)(k \<mapsto> v)\<rparr>)),
     nvs_erase_key = (\<lambda>k d. (if mf_records d k = None then NvsNotFound else NvsOk,
        d\<lparr>mf_records := (mf_records d)(k := None)\<rparr>)),
     nvs_commit = (\<lambda>d. (if mf_commit_fails d \<noteq> [] \<and> hd (mf_commit_fails d) then NvsFail else NvsOk,
        d\<lparr>mf_commit_fails := tl (mf_commit_fails d)\<rparr>)),
     alloc_ok = (\<lambda>n d. True)\<rparr>"

lemma map_flash_ok: "nvs_driver_ok map_flash_api mf_records"
  by (auto simp: nvs_driver_ok_def map_flash_api_def len_ok_def read_ok_def set_ok_def keeps_others_def
      split: option.splits if_splits)

definition map_store :: "nvs_namespace \<Rightarrow> (string \<times> bytes) list \<Rightarrow> bool list \<Rightarrow> map_flash nvs_store" where
  "map_store ns records fails = \<lparr>ns_kind = ns, nvs_initialized = True, session_vcsec_present = -1,
     nvs_dev = \<lparr>mf_records = map_of records, mf_commit_fails = fails\<rparr>\<rparr>"

subsection \<open>The interface of the record store\<close>

text \<open>What clients that only erase records rely on: a confirmed removal leaves no record, and a removal,
  confirmed or not, leaves every other record as it was. The adapter provides it over any driver that
  keeps its promises.\<close>

locale record_storage =
  fixes remove :: "string \<Rightarrow> 's \<Rightarrow> bool \<times> 's"
    and stored :: "'s \<Rightarrow> string \<Rightarrow> bytes option"
  assumes remove_done: "remove k s = (True, s') \<Longrightarrow> stored s' k = None"
    and remove_only: "remove k s = (b, s') \<Longrightarrow> k' \<noteq> k \<Longrightarrow> stored s' k' = stored s k'"

locale nvs_backed =
  fixes api :: "'n nvs_api" and rec :: "'n \<Rightarrow> string \<Rightarrow> bytes option"
  assumes driver: "nvs_driver_ok api rec"

lemma nvs_record_storage: "nvs_driver_ok api rec \<Longrightarrow> record_storage (nvs_remove api) (record_of rec)"
  using nvs_remove_ok [of api rec] by unfold_locales blast+

sublocale nvs_backed \<subseteq> storage: record_storage "nvs_remove api" "record_of rec"
  by (rule nvs_record_storage [OF driver])

interpretation flash: nvs_backed map_flash_api mf_records
  by unfold_locales (rule map_flash_ok)

subsection \<open>Properties\<close>

text \<open>Persistent records never alias: two keys of one namespace that the registry maps to the same flash
  key are the same key, and every flash key fits the driver's fifteen characters.\<close>

theorem nvs_keys_never_alias:
  assumes "nvs_find ns key = Some e" "nvs_find ns key' = Some e'"
  shows "(en_stored_key e = en_stored_key e' \<longleftrightarrow> key = key') \<and>
    en_stored_key e \<noteq> [] \<and> length (en_stored_key e) \<le> 15 \<and> ns \<noteq> UnknownNs"
  using nvs_find_stored_inj [OF assms] nvs_find_SomeD [OF assms(1)] assms registry_valid
  by (auto simp: nvs_valid_def dest: entries_valid_keys)

theorem nvs_keys_never_alias_witness:
  "en_stored_key (the (nvs_find TeslaBle kSessionInfotainment)) \<noteq> en_stored_key (the (nvs_find TeslaBle kSessionVcsec))"
proof -
  obtain e e' where "nvs_find TeslaBle kSessionInfotainment = Some e" "nvs_find TeslaBle kSessionVcsec = Some e'"
    by (simp add: nvs_find_def kEntries_def mk_entry_def nvs_names)
  with nvs_keys_never_alias [OF this] show ?thesis by (simp add: nvs_names)
qed

text \<open>A safety-critical string read under any driver that keeps its promises, in whatever state: Missing
  only when the record is absent; Present only with the record's own text, free of NUL bytes and not
  empty unless that was allowed; anything else is an error with an empty result. A string whose save
  was confirmed is never read as missing, and comes back cut at its first NUL or not at all; no other
  record is touched by the save.\<close>

theorem nvs_string_read_after_write:
  assumes drv: "nvs_driver_ok api rec" and save: "nvs_save_str api (Some key) v s = (ok, s1)"
    and load: "nvs_load_str_state api (Some key) allow_empty s1 = ((state, v'), s2)"
  shows "(\<forall>k. k \<noteq> key \<longrightarrow> record_of rec s2 k = record_of rec s k) \<and>
    (ok \<longrightarrow> state \<noteq> LoadMissing \<and> (state = LoadPresent \<longrightarrow> v' = takeWhile (\<lambda>c. c \<noteq> 0) v)) \<and>
    (state = LoadMissing \<longrightarrow> record_of rec s1 key = None) \<and>
    (state = LoadPresent \<longrightarrow> record_of rec s1 key = Some (c_str v') \<and> 0 \<notin> set v' \<and> (allow_empty \<or> v' \<noteq> [])) \<and>
    (state \<noteq> LoadPresent \<longrightarrow> v' = [])"
proof -
  have cut: "c_str v = c_str v' \<Longrightarrow> 0 \<notin> set v' \<Longrightarrow> v' = takeWhile (\<lambda>c. c \<noteq> 0) v"
    by (metis (mono_tags, lifting) append1_eq_conv c_str_def takeWhile_eq_all_conv)
  show ?thesis
    using nvs_save_str_ok [OF drv save] nvs_load_str_state_ok [OF drv load] cut
    by (auto split: nvs_load_state.splits)
qed

theorem nvs_string_read_after_write_witness:
  "fst (nvs_load_str_state map_flash_api (Some kVinTransition) False
     (snd (nvs_save_str map_flash_api (Some kVinTransition) [0x41, 0x42] (map_store Config [] [])))) = (LoadPresent, [0x41, 0x42])"
proof -
  let ?s = "map_store Config [] []"
  obtain ok s1 where save: "nvs_save_str map_flash_api (Some kVinTransition) [0x41, 0x42] ?s = (ok, s1)" by fastforce
  obtain state v' s2 where load: "nvs_load_str_state map_flash_api (Some kVinTransition) False s1 = ((state, v'), s2)"
    by (metis surj_pair)
  have "fst (nvs_save_str map_flash_api (Some kVinTransition) [0x41, 0x42] ?s)" by code_simp
  then have "ok" using save by simp
  have "fst (fst (nvs_load_str_state map_flash_api (Some kVinTransition) False
     (snd (nvs_save_str map_flash_api (Some kVinTransition) [0x41, 0x42] ?s)))) = LoadPresent" by code_simp
  then have "state = LoadPresent" using save load by simp
  with nvs_string_read_after_write [OF map_flash_ok save load] \<open>ok\<close> save load show ?thesis by simp
qed

datatype nvs_call = CallExists string | CallSave string bytes | CallRemove string

definition nvs_call_step :: "'n nvs_api \<Rightarrow> 'n nvs_store \<Rightarrow> nvs_call \<Rightarrow> bool \<times> 'n nvs_store" where
  "nvs_call_step api s c = (case c of
      CallExists key \<Rightarrow> blob_exists api key s
    | CallSave key v \<Rightarrow> nvs_save api key v s
    | CallRemove key \<Rightarrow> nvs_remove api key s)"

inductive confirmed_run :: "'n nvs_api \<Rightarrow> 'n nvs_store \<Rightarrow> 'n nvs_store \<Rightarrow> bool" for api where
  confirmed_start: "confirmed_run api s s"
| confirmed_exists: "confirmed_run api s s1 \<Longrightarrow> nvs_call_step api s1 (CallExists key) = (b, s2) \<Longrightarrow> confirmed_run api s s2"
| confirmed_save: "confirmed_run api s s1 \<Longrightarrow> nvs_call_step api s1 (CallSave key v) = (True, s2) \<Longrightarrow> v \<noteq> [] \<Longrightarrow>
    confirmed_run api s s2"
| confirmed_remove: "confirmed_run api s s1 \<Longrightarrow> nvs_call_step api s1 (CallRemove key) = (True, s2) \<Longrightarrow>
    confirmed_run api s s2"

text \<open>The cached answer to the session probe is right in every state that reads, confirmed saves of a
  non-empty record and confirmed removals can reach: a session reported present is there.\<close>

theorem session_cache_right:
  assumes drv: "nvs_driver_ok api rec" and init: "nvs_initialize api ns (new_nvs_store ns d) = (True, s0)"
    and run: "confirmed_run api s0 s" and probe: "blob_exists api kSessionVcsec s = (True, s')"
  shows "\<exists>v. record_of rec s kSessionVcsec = Some v \<and> v \<noteq> []"
proof -
  have start: "session_cache_ok rec s0"
    using init by (auto simp: session_cache_ok_def nvs_initialize_def new_nvs_store_def split: if_splits prod.splits)
  have "session_cache_ok rec s"
    using run start
  proof (induction s0 s rule: confirmed_run.induct)
    case (confirmed_exists s0 s1 key b s2)
    then show ?case using blob_exists_ok [OF drv] by (auto simp: nvs_call_step_def)
  next
    case (confirmed_save s0 s1 key v s2)
    then show ?case using nvs_save_cache [OF drv] by (auto simp: nvs_call_step_def)
  next
    case (confirmed_remove s0 s1 key s2)
    then show ?case using nvs_remove_cache [OF drv] by (auto simp: nvs_call_step_def)
  qed simp
  from blob_exists_ok [OF drv probe this] show ?thesis by simp
qed

theorem session_cache_right_witness:
  "\<exists>s v. confirmed_run map_flash_api (snd (nvs_initialize map_flash_api kTeslaBleNamespace
      (new_nvs_store kTeslaBleNamespace \<lparr>mf_records = Map.empty, mf_commit_fails = []\<rparr>))) s \<and>
    record_of mf_records s kSessionVcsec = Some v \<and> v \<noteq> []"
proof -
  let ?d = "\<lparr>mf_records = Map.empty, mf_commit_fails = []\<rparr>"
  obtain b0 s0 where init: "nvs_initialize map_flash_api kTeslaBleNamespace (new_nvs_store kTeslaBleNamespace ?d) = (b0, s0)"
    by fastforce
  obtain b1 s1 where save: "nvs_save map_flash_api kSessionVcsec [7] s0 = (b1, s1)" by fastforce
  obtain b2 s2 where probe: "blob_exists map_flash_api kSessionVcsec s1 = (b2, s2)" by fastforce
  have "fst (nvs_initialize map_flash_api kTeslaBleNamespace (new_nvs_store kTeslaBleNamespace ?d)) \<and>
    fst (nvs_save map_flash_api kSessionVcsec [7]
      (snd (nvs_initialize map_flash_api kTeslaBleNamespace (new_nvs_store kTeslaBleNamespace ?d)))) \<and>
    fst (blob_exists map_flash_api kSessionVcsec (snd (nvs_save map_flash_api kSessionVcsec [7]
      (snd (nvs_initialize map_flash_api kTeslaBleNamespace (new_nvs_store kTeslaBleNamespace ?d))))))"
    by code_simp
  with init save probe have "b0" "b1" "b2" by simp_all
  have run: "confirmed_run map_flash_api s0 s1"
    by (rule confirmed_save [OF confirmed_start, of _ _ kSessionVcsec "[7]"])
      (use save \<open>b1\<close> in \<open>simp_all add: nvs_call_step_def\<close>)
  from session_cache_right [OF map_flash_ok _ run, of kTeslaBleNamespace ?d s2] init probe \<open>b0\<close> \<open>b2\<close> run
  show ?thesis by auto
qed

text \<open>A removal that erased the record but whose commit failed leaves the cached answer standing: the probe
  still reports the session that is gone.\<close>

theorem stale_session_cache:
  "let (found1, s1) = blob_exists map_flash_api kSessionVcsec (map_store TeslaBle [(''sess_vcsec'', [1])] [True]);
       (removed, s2) = nvs_remove map_flash_api kSessionVcsec s1;
       (found2, s3) = blob_exists map_flash_api kSessionVcsec s2
   in found1 \<and> \<not> removed \<and> record_of mf_records s2 kSessionVcsec = None \<and> found2"
  by code_simp

end
