(* ===== verification/ConfigBlob.thy ===== *)
theory ConfigBlob
  imports ConfigStore NvsStorage
begin

text \<open>
  main/config_blob.cpp: loading and saving the configuration through the storage adapter. The file's
  statics (the encode buffer, its lease and the published rollback flag) are a record; the build's
  Kconfig defaults are a parameter.
\<close>

subsection \<open>State\<close>

datatype config_load_state = CfgBlob | CfgLegacy | CfgError

record config_defaults =
  default_ssid :: bytes
  default_pass :: bytes
  default_vin :: bytes
  default_mqtt :: bytes
  default_syslog :: bytes

record config_statics =
  encode_buffer :: bytes
  encode_active :: bool
  wifi_rolled_back_flag :: bool

definition cfg_init_wifi_rollback_status :: "bool \<Rightarrow> config_statics \<Rightarrow> config_statics" where
  "cfg_init_wifi_rollback_status rolled_back st = st\<lparr>wifi_rolled_back_flag := rolled_back\<rparr>"

definition cfg_wifi_rolled_back :: "config_statics \<Rightarrow> bool" where
  "cfg_wifi_rolled_back st = wifi_rolled_back_flag st"

subsection \<open>Loading\<close>

text \<open>One legacy key: its value, or the default when the key is absent; None on a read error.\<close>

definition read_legacy :: "'n nvs_api \<Rightarrow> string \<Rightarrow> bytes \<Rightarrow> 'n nvs_store \<Rightarrow> bytes option \<times> 'n nvs_store" where
  "read_legacy api key field s =
     (case nvs_load_str_state api (Some key) True s of ((state, v), s') \<Rightarrow>
        (case state of LoadPresent \<Rightarrow> Some v | LoadMissing \<Rightarrow> Some field | LoadError \<Rightarrow> None, s'))"

definition load_legacy :: "'n nvs_api \<Rightarrow> config_defaults \<Rightarrow> config_blob \<Rightarrow> 'n nvs_store \<Rightarrow> (bool \<times> config_blob) \<times> 'n nvs_store" where
  "load_legacy api defaults out s0 =
     (case read_legacy api kLegacyWifiSsid (default_ssid defaults) s0 of (None, s1) \<Rightarrow> ((False, out), s1)
      | (Some ssid, s1) \<Rightarrow> (case read_legacy api kLegacyWifiPass (default_pass defaults) s1 of (None, s2) \<Rightarrow> ((False, out), s2)
      | (Some pass, s2) \<Rightarrow> (case read_legacy api kLegacyVin (default_vin defaults) s2 of (None, s3) \<Rightarrow> ((False, out), s3)
      | (Some vin, s3) \<Rightarrow> (case read_legacy api kLegacyMqttUri (default_mqtt defaults) s3 of (None, s4) \<Rightarrow> ((False, out), s4)
      | (Some mqtt, s4) \<Rightarrow> (case read_legacy api kLegacySyslogUri (default_syslog defaults) s4 of (None, s5) \<Rightarrow> ((False, out), s5)
      | (Some syslog, s5) \<Rightarrow>
          ((True, new_config_blob\<lparr>wifi_ssid := ssid, wifi_pass := pass, cfg_vin := vin,
              mqtt_uri := mqtt, syslog_uri := syslog\<rparr>), s5))))))"

definition cfg_load_state :: "'n nvs_api \<Rightarrow> config_defaults \<Rightarrow> config_blob \<Rightarrow> 'n nvs_store \<Rightarrow>
    (config_load_state \<times> config_blob) \<times> 'n nvs_store" where
  "cfg_load_state api defaults out s =
     (case nvs_load_blob_state api (Some kConfigBlob) s of ((raw_state, raw), s1) \<Rightarrow>
        if raw_state = LoadError then ((CfgError, out), s1)
        else if raw_state = LoadMissing
        then (case load_legacy api defaults out s1 of ((ok, out'), s2) \<Rightarrow>
                if ok then ((CfgLegacy, out'), s2) else ((CfgError, out'), s2))
        else (case config_blob_decode (Some raw) out of (ok, out') \<Rightarrow>
                if ok then ((CfgBlob, out'), s1) else ((CfgError, out'), s1)))"

definition cfg_load :: "'n nvs_api \<Rightarrow> config_defaults \<Rightarrow> config_blob \<Rightarrow> 'n nvs_store \<Rightarrow> (bool \<times> config_blob) \<times> 'n nvs_store" where
  "cfg_load api defaults out s = (case cfg_load_state api defaults out s of
     ((state, out'), s') \<Rightarrow> ((state = CfgBlob, out'), s'))"

definition cfg_load_for_update :: "'n nvs_api \<Rightarrow> config_defaults \<Rightarrow> config_blob \<Rightarrow> 'n nvs_store \<Rightarrow> (bool \<times> config_blob) \<times> 'n nvs_store" where
  "cfg_load_for_update api defaults out s = (case cfg_load_state api defaults new_config_blob s of
     ((state, loaded), s') \<Rightarrow> if state = CfgError then ((False, out), s') else ((True, loaded), s'))"

subsection \<open>Saving\<close>

text \<open>The lease of the encode buffer: acquired when free, and given back with the buffer zeroed.\<close>

definition lease_acquire :: "config_statics \<Rightarrow> bool \<times> config_statics" where
  "lease_acquire st = (\<not> encode_active st, st\<lparr>encode_active := True\<rparr>)"

definition lease_release :: "config_statics \<Rightarrow> config_statics" where
  "lease_release st = st\<lparr>encode_buffer := replicate (length (encode_buffer st)) 0, encode_active := False\<rparr>"

text \<open>The best-effort mirror: it stops at the first key that could not be written.\<close>

fun save_mirrors :: "'n nvs_api \<Rightarrow> (string \<times> bytes) list \<Rightarrow> 'n nvs_store \<Rightarrow> bool \<times> 'n nvs_store" where
  "save_mirrors api [] s = (True, s)"
| "save_mirrors api ((key, v) # rest) s =
     (case nvs_save_str api (Some key) v s of (ok, s') \<Rightarrow> if ok then save_mirrors api rest s' else (False, s'))"

definition cfg_save :: "'n nvs_api \<Rightarrow> config_blob \<Rightarrow> config_statics \<Rightarrow> 'n nvs_store \<Rightarrow>
    bool \<times> config_statics \<times> 'n nvs_store" where
  "cfg_save api c st0 s =
     (case lease_acquire st0 of (held, st) \<Rightarrow>
        if \<not> held then (False, st, s)
        else case config_blob_encode c (Some (encode_buffer st)) kConfigBlobCapBytes of (n, buf) \<Rightarrow>
          let st1 = st\<lparr>encode_buffer := the buf\<rparr> in
          if n = 0 then (False, lease_release st1, s)
          else case nvs_save_blob api (Some kConfigBlob) (Some (take n (encode_buffer st1))) s of (ok, s1) \<Rightarrow>
            if \<not> ok then (False, lease_release st1, s1)
            else let st2 = st1\<lparr>wifi_rolled_back_flag := wifi_rolled_back c\<rparr>;
                     (mirrored, s2) = save_mirrors api [(kLegacyWifiSsid, wifi_ssid c), (kLegacyWifiPass, wifi_pass c),
                       (kLegacyVin, cfg_vin c), (kLegacyMqttUri, mqtt_uri c), (kLegacySyslogUri, syslog_uri c)] s1
                 in (True, lease_release st2, s2))"

definition new_statics :: config_statics where
  "new_statics = \<lparr>encode_buffer = replicate kConfigBlobCapBytes 0, encode_active = False, wifi_rolled_back_flag = False\<rparr>"

definition statics_ok :: "config_statics \<Rightarrow> bool" where
  "statics_ok st \<longleftrightarrow> length (encode_buffer st) = kConfigBlobCapBytes"

subsection \<open>What a save and a load do\<close>

lemma save_mirrors_ok:
  assumes "nvs_driver_ok api rec"
  shows "save_mirrors api kvs s = (ok, s') \<Longrightarrow> same_adapter s s' \<and>
    (\<forall>k. k \<notin> fst ` set kvs \<longrightarrow> record_of rec s' k = record_of rec s k)"
proof (induction kvs arbitrary: s)
  case Nil
  then show ?case by (simp add: same_adapter_def)
next
  case (Cons kv kvs)
  obtain key v where kv: "kv = (key, v)" by fastforce
  obtain b s1 where w: "nvs_save_str api (Some key) v s = (b, s1)" by fastforce
  note one = nvs_save_str_ok [OF assms w]
  show ?case
  proof (cases b)
    case True
    then have "save_mirrors api kvs s1 = (ok, s')" using Cons.prems kv w by simp
    from Cons.IH [OF this] one show ?thesis by (auto simp: same_adapter_def kv)
  next
    case False
    then have "s' = s1" using Cons.prems kv w by simp
    with one show ?thesis by (auto simp: kv)
  qed
qed

lemma kConfigBlob_not_mirrored:
  "kConfigBlob \<notin> {kLegacyWifiSsid, kLegacyWifiPass, kLegacyVin, kLegacyMqttUri, kLegacySyslogUri}"
  by (simp add: nvs_names)

lemma encode_into:
  assumes "length buf = kConfigBlobCapBytes" "config_blob_encode c (Some buf) kConfigBlobCapBytes = (n, out)"
  shows "\<exists>bs. out = Some bs \<and> length bs = length buf \<and>
    (if config_fits c then 0 < n \<and> take n bs = config_image (config_flags c) c else n = 0)"
proof -
  have cap: "config_fits c \<Longrightarrow> length (config_image (config_flags c) c) \<le> kConfigBlobCapBytes"
    using config_image_length [of c "config_flags c"]
    by (simp add: kConfigBlobCapBytes_def kConfigBlobEncodedMax_def config_bounds blob_str_bytes_def blob_sizes)
  have "0 < length (config_image (config_flags c) c)" by (simp add: config_image_def)
  with encode_writes [of kConfigBlobCapBytes buf c] assms cap show ?thesis by (cases "config_fits c") auto
qed

lemma cfg_save_ok:
  assumes drv: "nvs_driver_ok api rec" and st: "statics_ok st" and save: "cfg_save api c st s = (ok, st', s')"
  shows "same_adapter s s' \<and> statics_ok st' \<and>
    (ok \<longrightarrow> config_fits c \<and> record_of rec s' kConfigBlob = Some (config_image (config_flags c) c)) \<and>
    wifi_rolled_back_flag st' = (if ok then wifi_rolled_back c else wifi_rolled_back_flag st) \<and>
    (encode_active st \<or> \<not> config_fits c \<longrightarrow> \<not> ok \<and> s' = s) \<and>
    (\<not> encode_active st \<longrightarrow> \<not> encode_active st' \<and> encode_buffer st' = replicate kConfigBlobCapBytes 0)"
proof (cases "encode_active st")
  case True
  with save st show ?thesis by (auto simp: cfg_save_def lease_acquire_def statics_ok_def same_adapter_def)
next
  case free: False
  obtain n out where enc: "config_blob_encode c (Some (encode_buffer st)) kConfigBlobCapBytes = (n, out)" by fastforce
  obtain bs where bs: "out = Some bs" "length bs = kConfigBlobCapBytes"
    "if config_fits c then 0 < n \<and> take n bs = config_image (config_flags c) c else n = 0"
    using encode_into [OF _ enc] st by (auto simp: statics_ok_def)
  obtain b s1 where sb: "nvs_save_blob api (Some kConfigBlob) (Some (take n bs)) s = (b, s1)" by fastforce
  obtain m s2 where sm: "save_mirrors api [(kLegacyWifiSsid, wifi_ssid c), (kLegacyWifiPass, wifi_pass c),
      (kLegacyVin, cfg_vin c), (kLegacyMqttUri, mqtt_uri c), (kLegacySyslogUri, syslog_uri c)] s1 = (m, s2)" by fastforce
  note blob = nvs_save_blob_ok [OF drv sb] and mirror = save_mirrors_ok [OF drv sm]
  have same2: "record_of rec s2 kConfigBlob = record_of rec s1 kConfigBlob"
    using mirror kConfigBlob_not_mirrored by simp
  show ?thesis
  proof (cases "config_fits c \<and> b")
    case True
    with free enc bs sb sm save have "ok" "s' = s2"
      "st' = lease_release (st\<lparr>encode_active := True, encode_buffer := bs, wifi_rolled_back_flag := wifi_rolled_back c\<rparr>)"
      by (auto simp: cfg_save_def lease_acquire_def)
    with True free bs blob mirror same2 show ?thesis
      by (auto simp: same_adapter_def statics_ok_def lease_release_def)
  next
    case False
    with free enc bs sb save have "\<not> ok" "s' = (if config_fits c then s1 else s)"
      "st' = lease_release (st\<lparr>encode_active := True, encode_buffer := bs\<rparr>)"
      by (auto simp: cfg_save_def lease_acquire_def split: if_splits)
    with free bs blob show ?thesis
      by (auto simp: same_adapter_def statics_ok_def lease_release_def)
  qed
qed

text \<open>One legacy field: the stored text, or the default when the key is absent.\<close>

definition legacy_value :: "bytes option \<Rightarrow> bytes \<Rightarrow> bytes \<Rightarrow> bool" where
  "legacy_value r field v \<longleftrightarrow> (case r of None \<Rightarrow> v = field | Some w \<Rightarrow> w = c_str v \<and> 0 \<notin> set v)"

lemma read_legacy_ok:
  assumes drv: "nvs_driver_ok api rec" and eq: "read_legacy api key field s = (r, s')"
  shows "same_adapter s s' \<and> record_of rec s' = record_of rec s \<and>
    (case r of Some v \<Rightarrow> legacy_value (record_of rec s key) field v | None \<Rightarrow> True)"
proof -
  obtain state v s1 where l: "nvs_load_str_state api (Some key) True s = ((state, v), s1)" by (metis surj_pair)
  from nvs_load_str_state_ok [OF drv l] eq l show ?thesis
    by (auto simp: read_legacy_def legacy_value_def split: nvs_load_state.splits)
qed

lemma load_legacy_ok:
  assumes drv: "nvs_driver_ok api rec" and eq: "load_legacy api defs out s = ((ok, c), s')"
  shows "same_adapter s s' \<and> record_of rec s' = record_of rec s \<and> (\<not> ok \<longrightarrow> c = out) \<and> (ok \<longrightarrow>
    legacy_value (record_of rec s kLegacyWifiSsid) (default_ssid defs) (wifi_ssid c) \<and>
    legacy_value (record_of rec s kLegacyWifiPass) (default_pass defs) (wifi_pass c) \<and>
    legacy_value (record_of rec s kLegacyVin) (default_vin defs) (cfg_vin c) \<and>
    legacy_value (record_of rec s kLegacyMqttUri) (default_mqtt defs) (mqtt_uri c) \<and>
    legacy_value (record_of rec s kLegacySyslogUri) (default_syslog defs) (syslog_uri c) \<and>
    \<not> wifi_rollback_active c \<and> \<not> wifi_rolled_back c)"
proof -
  obtain r1 s1 where l1: "read_legacy api kLegacyWifiSsid (default_ssid defs) s = (r1, s1)" by fastforce
  obtain r2 s2 where l2: "read_legacy api kLegacyWifiPass (default_pass defs) s1 = (r2, s2)" by fastforce
  obtain r3 s3 where l3: "read_legacy api kLegacyVin (default_vin defs) s2 = (r3, s3)" by fastforce
  obtain r4 s4 where l4: "read_legacy api kLegacyMqttUri (default_mqtt defs) s3 = (r4, s4)" by fastforce
  obtain r5 s5 where l5: "read_legacy api kLegacySyslogUri (default_syslog defs) s4 = (r5, s5)" by fastforce
  note ok = read_legacy_ok [OF drv]
  show ?thesis
    using ok [OF l1] ok [OF l2] ok [OF l3] ok [OF l4] ok [OF l5] eq l1 l2 l3 l4 l5
    by (cases r1; cases r2; cases r3; cases r4; cases r5)
      (auto simp: load_legacy_def same_adapter_def new_config_blob_def)
qed

lemma decode_own_image:
  "config_fits c \<Longrightarrow> config_blob_decode (Some (config_image (config_flags c) c)) old =
     (True, c\<lparr>ota_channel := (if ota_channel c \<noteq> 0 then 1 else 0)\<rparr>)"
proof -
  let ?c = "c\<lparr>ota_channel := (if ota_channel c \<noteq> 0 then 1 else 0)\<rparr>"
  assume fits: "config_fits c"
  have "config_image (config_flags c) c = config_image (config_flags c) ?c"
    by (simp add: config_image_def body_image_def fields_image_def)
  moreover have "?c = apply_flags (config_flags c) ?c"
    using apply_config_flags [of c] by (simp add: apply_flags_def)
  moreover have "config_readable ?c" using config_fits_readable [OF fits] by (simp add: config_readable_def)
  ultimately show ?thesis using decode_exact [of "config_image (config_flags c) c" old ?c] by auto
qed

lemma cfg_load_state_ok:
  assumes drv: "nvs_driver_ok api rec" and load: "cfg_load_state api defs old s = ((state, c), s')"
  shows "same_adapter s s' \<and> record_of rec s' = record_of rec s \<and> (case state of
      CfgBlob \<Rightarrow> (\<exists>img. record_of rec s kConfigBlob = Some img \<and> config_blob_decode (Some img) old = (True, c))
    | CfgLegacy \<Rightarrow> record_of rec s kConfigBlob = None \<and>
        legacy_value (record_of rec s kLegacyWifiSsid) (default_ssid defs) (wifi_ssid c) \<and>
        legacy_value (record_of rec s kLegacyWifiPass) (default_pass defs) (wifi_pass c) \<and>
        legacy_value (record_of rec s kLegacyVin) (default_vin defs) (cfg_vin c) \<and>
        legacy_value (record_of rec s kLegacyMqttUri) (default_mqtt defs) (mqtt_uri c) \<and>
        legacy_value (record_of rec s kLegacySyslogUri) (default_syslog defs) (syslog_uri c) \<and>
        \<not> wifi_rollback_active c \<and> \<not> wifi_rolled_back c
    | CfgError \<Rightarrow> c = old)"
proof -
  obtain raw_state raw s1 where raw: "nvs_load_blob_state api (Some kConfigBlob) s = ((raw_state, raw), s1)"
    by (metis surj_pair)
  note r = nvs_load_blob_state_ok [OF drv raw]
  show ?thesis
  proof (cases raw_state)
    case LoadError
    with r raw load show ?thesis by (auto simp: cfg_load_state_def)
  next
    case LoadMissing
    obtain ok out s2 where l: "load_legacy api defs old s1 = ((ok, out), s2)" by (metis surj_pair)
    from load_legacy_ok [OF drv l] LoadMissing r raw l load show ?thesis
      by (cases ok) (auto simp: cfg_load_state_def same_adapter_def)
  next
    case LoadPresent
    obtain ok out where d: "config_blob_decode (Some raw) old = (ok, out)" by fastforce
    have "\<not> ok \<Longrightarrow> out = old" using decode_rejects [of "Some raw" old] d by auto
    with LoadPresent r raw d load show ?thesis
      by (cases ok) (auto simp: cfg_load_state_def)
  qed
qed

subsection \<open>Properties\<close>

text \<open>C34: A configuration whose save reported success is the one the next load gives, whatever else is
  stored and whether or not the legacy mirrors could be written: the load never falls back to the
  legacy keys, returns the saved configuration (the channel as 0 or 1) or a read error, and only a read
  error leaves the target as it was. The published rollback flag is the saved one.\<close>

theorem saved_config_is_loaded:
  assumes drv: "nvs_driver_ok api rec" and st: "statics_ok st"
    and save: "cfg_save api c st s = (True, st', s')"
    and load: "cfg_load_state api defs old s' = ((state, c'), s'')"
  shows "state \<noteq> CfgLegacy \<and>
    (state = CfgBlob \<longrightarrow> c' = c\<lparr>ota_channel := (if ota_channel c \<noteq> 0 then 1 else 0)\<rparr>) \<and>
    (state = CfgError \<longrightarrow> c' = old) \<and> cfg_wifi_rolled_back st' = wifi_rolled_back c"
proof -
  have s: "config_fits c" "record_of rec s' kConfigBlob = Some (config_image (config_flags c) c)"
    "cfg_wifi_rolled_back st' = wifi_rolled_back c"
    using cfg_save_ok [OF drv st save] by (simp_all add: cfg_wifi_rolled_back_def)
  with cfg_load_state_ok [OF drv load] decode_own_image [OF s(1), of old] show ?thesis
    by (cases state) auto
qed

definition sample_config :: config_blob where
  "sample_config = new_config_blob\<lparr>wifi_ssid := [0x61, 0x62], wifi_rolled_back := True\<rparr>"

definition no_defaults :: config_defaults where
  "no_defaults = \<lparr>default_ssid = [], default_pass = [], default_vin = [], default_mqtt = [], default_syslog = []\<rparr>"

lemma sample_config_fits: "config_fits sample_config"
  by (simp add: sample_config_def config_fits_def new_config_blob_def config_bounds)

lemma statics_ok_new: "statics_ok new_statics"
  by (simp add: statics_ok_def new_statics_def)

lemma sample_save: "\<exists>st' s'. cfg_save map_flash_api sample_config new_statics (map_store Config [] []) = (True, st', s') \<and>
    fst (nvs_load_blob_state map_flash_api (Some kConfigBlob) s') = (LoadPresent, config_image (config_flags sample_config) sample_config)"
proof -
  let ?s = "map_store Config [] []"
  let ?img = "config_image (config_flags sample_config) sample_config"
  obtain n out where enc: "config_blob_encode sample_config (Some (encode_buffer new_statics)) kConfigBlobCapBytes = (n, out)"
    by fastforce
  have "length (encode_buffer new_statics) = kConfigBlobCapBytes" by (simp add: new_statics_def)
  from encode_into [OF this enc] sample_config_fits
  obtain bs where bs: "out = Some bs" "0 < n" "take n bs = ?img" by auto
  have m: "map_key ?s kConfigBlob RawBlob False = Some kConfigBlob" by code_simp
  have ne: "?img \<noteq> []" by (simp add: config_image_def body_image_def kConfigBlobMagic_def)
  obtain s1 where w: "nvs_save_blob map_flash_api (Some kConfigBlob) (Some ?img) ?s = (True, s1)"
    using m ne by (auto simp: nvs_save_blob_def map_store_def key_or_empty_def map_flash_api_def)
  obtain b2 s2 where mir: "save_mirrors map_flash_api [(kLegacyWifiSsid, wifi_ssid sample_config),
      (kLegacyWifiPass, wifi_pass sample_config), (kLegacyVin, cfg_vin sample_config),
      (kLegacyMqttUri, mqtt_uri sample_config), (kLegacySyslogUri, syslog_uri sample_config)] s1 = (b2, s2)" by fastforce
  obtain st' where save: "cfg_save map_flash_api sample_config new_statics ?s = (True, st', s2)"
    using enc bs w mir by (simp add: cfg_save_def lease_acquire_def new_statics_def)
  have s2: "same_adapter ?s s2" "record_of mf_records s2 kConfigBlob = Some ?img"
    using cfg_save_ok [OF map_flash_ok statics_ok_new save] by auto
  then have m2: "map_key s2 kConfigBlob RawBlob False = Some kConfigBlob" "nvs_initialized s2"
    using m by (auto simp: map_key_def same_adapter_def map_store_def)
  then have "mf_records (nvs_dev s2) kConfigBlob = Some ?img"
    using s2 m m2 by (auto simp: record_of_def map_key_def split: option.splits if_splits)
  then have "fst (nvs_load_blob_state map_flash_api (Some kConfigBlob) s2) = (LoadPresent, ?img)"
    using m2 ne by (simp add: nvs_load_blob_state_def key_or_empty_def map_flash_api_def probe_of_def classify_nvs_blob_load_def)
  with save show ?thesis by blast
qed

theorem saved_config_is_loaded_witness:
  "\<exists>st' s' s''. cfg_save map_flash_api sample_config new_statics (map_store Config [] []) = (True, st', s') \<and>
     cfg_load_state map_flash_api no_defaults new_config_blob s' = ((CfgBlob, sample_config), s'')"
proof -
  obtain st' s' where save: "cfg_save map_flash_api sample_config new_statics (map_store Config [] []) = (True, st', s')"
    and read: "fst (nvs_load_blob_state map_flash_api (Some kConfigBlob) s') =
      (LoadPresent, config_image (config_flags sample_config) sample_config)" using sample_save by blast
  obtain state c' s'' where load: "cfg_load_state map_flash_api no_defaults new_config_blob s' = ((state, c'), s'')" by (metis surj_pair)
  have "state = CfgBlob"
    using load read decode_own_image [OF sample_config_fits, of new_config_blob]
    by (auto simp: cfg_load_state_def split: prod.splits)
  moreover have "sample_config\<lparr>ota_channel := (if ota_channel sample_config \<noteq> 0 then 1 else 0)\<rparr> = sample_config"
    by (simp add: sample_config_def new_config_blob_def)
  ultimately show ?thesis
    using saved_config_is_loaded [OF map_flash_ok statics_ok_new save load] save load by auto
qed

text \<open>Loading fails closed. A load never changes a record. The legacy keys are used only when the blob is
  absent, each field then being its stored text or the build's default, with no rollback armed or
  reported; a blob is used only when it decodes; an unreadable or damaged blob is an error that leaves
  the caller's configuration untouched.\<close>

theorem config_load_fails_closed:
  assumes "nvs_driver_ok api rec" "cfg_load_state api defs old s = ((state, c), s')"
  shows "record_of rec s' = record_of rec s \<and> (case state of
      CfgBlob \<Rightarrow> (\<exists>img flags. record_of rec s kConfigBlob = Some img \<and> img = config_image flags c)
    | CfgLegacy \<Rightarrow> record_of rec s kConfigBlob = None \<and>
        legacy_value (record_of rec s kLegacyWifiSsid) (default_ssid defs) (wifi_ssid c) \<and>
        legacy_value (record_of rec s kLegacyWifiPass) (default_pass defs) (wifi_pass c) \<and>
        legacy_value (record_of rec s kLegacyVin) (default_vin defs) (cfg_vin c) \<and>
        legacy_value (record_of rec s kLegacyMqttUri) (default_mqtt defs) (mqtt_uri c) \<and>
        legacy_value (record_of rec s kLegacySyslogUri) (default_syslog defs) (syslog_uri c) \<and>
        \<not> wifi_rollback_active c \<and> \<not> wifi_rolled_back c
    | CfgError \<Rightarrow> c = old)"
  using cfg_load_state_ok [OF assms] by (cases state) (auto simp: decode_exact)

theorem config_load_fails_closed_witness:
  "snd (fst (cfg_load_state map_flash_api no_defaults sample_config (map_store Config [(kConfigBlob, [1, 2, 3])] []))) = sample_config"
proof -
  let ?s = "map_store Config [(kConfigBlob, [1, 2, 3])] []"
  obtain state c s' where load: "cfg_load_state map_flash_api no_defaults sample_config ?s = ((state, c), s')" by (metis surj_pair)
  have "fst (nvs_load_blob_state map_flash_api (Some kConfigBlob) ?s) = (LoadPresent, [1, 2, 3])" by code_simp
  then have "state = CfgError"
    using load by (auto simp: cfg_load_state_def config_blob_decode_def blob_sizes split: prod.splits)
  with config_load_fails_closed [OF map_flash_ok load] load show ?thesis by simp
qed

text \<open>A save that is refused, because another save holds the buffer or a field is over its bound, writes
  nothing at all; no save, confirmed or not, leaves the encoded credentials in the buffer.\<close>

theorem refused_save_writes_nothing:
  assumes "nvs_driver_ok api rec" "statics_ok st" "cfg_save api c st s = (ok, st', s')"
  shows "(encode_active st \<or> \<not> config_fits c \<longrightarrow> \<not> ok \<and> s' = s) \<and>
    (\<not> encode_active st \<longrightarrow> encode_buffer st' = replicate kConfigBlobCapBytes 0 \<and> \<not> encode_active st') \<and>
    (\<not> ok \<longrightarrow> cfg_wifi_rolled_back st' = cfg_wifi_rolled_back st)"
  using cfg_save_ok [OF assms] by (simp add: cfg_wifi_rolled_back_def)

theorem refused_save_writes_nothing_witness:
  "cfg_save map_flash_api sample_config (new_statics\<lparr>encode_active := True\<rparr>) (map_store Config [] []) =
     (False, new_statics\<lparr>encode_active := True\<rparr>, map_store Config [] [])"
proof -
  let ?st = "new_statics\<lparr>encode_active := True\<rparr>"
  obtain ok st' s' where save: "cfg_save map_flash_api sample_config ?st (map_store Config [] []) = (ok, st', s')"
    by (metis prod_cases3)
  have st: "statics_ok ?st" using statics_ok_new by (simp add: statics_ok_def)
  have "st' = ?st" using save by (simp add: cfg_save_def lease_acquire_def)
  with refused_save_writes_nothing [OF map_flash_ok st save] save show ?thesis by simp
qed

end
