(* ===== verification/Texts.thy ===== *)
theory Texts
  imports Prelude
begin

text \<open>
  What the components that read and write text share: a C++ text is a list of characters, a
  character is its byte (\<open>unsigned char\<close>, as on the target), the classes of characters the parsers
  test, decimal numbers as \<open>std::to_string\<close> prints them and as the digit loops read them.
\<close>

subsection \<open>Characters\<close>

abbreviation code_of :: "char \<Rightarrow> nat" where "code_of c \<equiv> of_char c"

definition is_digit_char :: "char \<Rightarrow> bool" where
  "is_digit_char c \<longleftrightarrow> 48 \<le> code_of c \<and> code_of c \<le> 57"


subsection \<open>Decimal numbers\<close>

text \<open>\<open>std::to_string\<close> of an unsigned number.\<close>

fun to_decimal :: "nat \<Rightarrow> string" where
  "to_decimal n = (if n < 10 then [char_of (48 + n)]
     else to_decimal (n div 10) @ [char_of (48 + n mod 10)])"

declare to_decimal.simps [simp del]


lemma digit_char: "d < 10 \<Longrightarrow> is_digit_char (char_of (48 + d)) \<and> code_of (char_of (48 + d)) - 48 = d \<and>
    char_of (48 + d) \<noteq> CHR '':''"
proof -
  assume d: "d < 10"
  then have "of_char (char_of (48 + d) :: char) = (48 + d :: nat)" by simp
  moreover have "char_of (48 + d) \<noteq> CHR '':''"
  proof
    assume "char_of (48 + d) = CHR '':''"
    then have "(of_char (char_of (48 + d) :: char) :: nat) = of_char (CHR '':'')" by (rule arg_cong)
    with d show False by simp
  qed
  ultimately show ?thesis using d by (auto simp: is_digit_char_def)
qed

lemma digit_char_decimal: "is_digit_char c \<Longrightarrow> [c] = to_decimal (code_of c - 48)"
proof -
  assume c: "is_digit_char c"
  then have "code_of c - 48 < 10" unfolding is_digit_char_def by linarith
  with c show ?thesis by (simp add: to_decimal.simps is_digit_char_def)
qed

lemma zero_char: "char_of (48 :: nat) = CHR ''0''"
  by code_simp

lemma to_decimal_first: "0 < n \<Longrightarrow> \<exists>c cs. to_decimal n = c # cs \<and> c \<noteq> CHR ''0'' \<and> is_digit_char c"
proof (induction n rule: to_decimal.induct)
  case (1 n)
  show ?case
  proof (cases "n < 10")
    case True
    have "char_of (48 + n) \<noteq> CHR ''0''"
    proof
      assume "char_of (48 + n) = CHR ''0''"
      then have "(of_char (char_of (48 + n) :: char) :: nat) = of_char (CHR ''0'')" by (rule arg_cong)
      with True 1(2) show False by simp
    qed
    with True digit_char [OF True] show ?thesis by (simp add: to_decimal.simps)
  next
    case False
    then have "0 < n div 10" by (simp add: div_greater_zero_iff)
    with 1 False obtain c cs where "to_decimal (n div 10) = c # cs" "c \<noteq> CHR ''0''" "is_digit_char c" by blast
    with False show ?thesis by (subst to_decimal.simps) simp
  qed
qed

lemma to_decimal_digits: "list_all is_digit_char (to_decimal n)"
proof (induction n rule: to_decimal.induct)
  case (1 n)
  then show ?case using digit_char [of n] digit_char [of "n mod 10"]
    by (subst to_decimal.simps) (simp add: list_all_append)
qed

text \<open>The number a row of digits stands for.\<close>

definition dec_value :: "string \<Rightarrow> nat" where
  "dec_value s = foldl (\<lambda>v c. v * 10 + (code_of c - 48)) 0 s"

lemma dec_value_simps [simp]:
  "dec_value [] = 0"
  "dec_value (s @ [c]) = dec_value s * 10 + (code_of c - 48)"
  by (simp_all add: dec_value_def)

lemma dec_value_to_decimal [simp]: "dec_value (to_decimal n) = n"
proof (induction n rule: to_decimal.induct)
  case (1 n)
  show ?case
  proof (cases "n < 10")
    case True
    with digit_char [OF True] show ?thesis by (subst to_decimal.simps) (simp add: dec_value_def)
  next
    case False
    with 1 digit_char [of "n mod 10"] show ?thesis by (subst to_decimal.simps) simp
  qed
qed

lemma char_of_digit: "is_digit_char c \<Longrightarrow> char_of (48 + (code_of c - 48)) = c"
  by (simp add: is_digit_char_def)

lemma digit_less: "is_digit_char c \<Longrightarrow> code_of c - 48 < 10"
  unfolding is_digit_char_def by linarith

definition canonical_digits :: "string \<Rightarrow> bool" where
  "canonical_digits s \<longleftrightarrow> s \<noteq> [] \<and> list_all is_digit_char s \<and> (hd s = CHR ''0'' \<longrightarrow> length s = 1)"

lemma digit_zero: "is_digit_char c \<Longrightarrow> code_of c - 48 = 0 \<longleftrightarrow> c = CHR ''0''"
proof -
  assume c: "is_digit_char c"
  show ?thesis
  proof
    assume "code_of c - 48 = 0"
    with char_of_digit [OF c] zero_char show "c = CHR ''0''" by simp
  qed simp
qed

lemma canonical_positive:
  "canonical_digits s \<Longrightarrow> s \<noteq> ''0'' \<Longrightarrow> 0 < dec_value s"
proof (induction s rule: rev_induct)
  case (snoc c s)
  show ?case
  proof (cases "s = []")
    case True
    with snoc.prems digit_zero [of c] show ?thesis
      by (auto simp: canonical_digits_def dec_value_def is_digit_char_def)
  next
    case False
    with snoc.prems have "canonical_digits s" "s \<noteq> ''0''" by (auto simp: canonical_digits_def)
    from snoc.IH [OF this] show ?thesis by simp
  qed
qed (simp add: canonical_digits_def)

lemma to_decimal_dec_value: "canonical_digits s \<Longrightarrow> to_decimal (dec_value s) = s"
proof (induction s rule: rev_induct)
  case (snoc c s)
  then have c: "is_digit_char c" by (simp add: canonical_digits_def)
  show ?case
  proof (cases "s = []")
    case True
    then have "dec_value (s @ [c]) = code_of c - 48" by (simp add: dec_value_def)
    with True digit_char_decimal [OF c] show ?thesis by simp
  next
    case False
    with snoc.prems have s: "canonical_digits s" "s \<noteq> ''0''" by (auto simp: canonical_digits_def)
    from canonical_positive [OF s] digit_less [OF c]
    have "to_decimal (dec_value s * 10 + (code_of c - 48)) = to_decimal (dec_value s) @ [char_of (48 + (code_of c - 48))]"
      by (subst to_decimal.simps) simp
    with snoc.IH [OF s(1)] char_of_digit [OF c] show ?thesis by simp
  qed
qed (simp add: canonical_digits_def)

lemma canonical_to_decimal: "canonical_digits (to_decimal n)"
proof (cases "n = 0")
  case True
  then show ?thesis by (simp add: to_decimal.simps zero_char canonical_digits_def is_digit_char_def)
next
  case False
  with to_decimal_first [of n] to_decimal_digits [of n] show ?thesis
    by (auto simp: canonical_digits_def)
qed

subsection \<open>Searching\<close>

text \<open>\<open>find\<close> and \<open>rfind\<close> of a character, \<open>find_first_of\<close> of a set of characters, \<open>find\<close> of a text; the
  position is None for \<open>npos\<close>.\<close>

definition find_if :: "(char \<Rightarrow> bool) \<Rightarrow> string \<Rightarrow> nat option" where
  "find_if P s = (if list_ex P s then Some (length (takeWhile (\<lambda>c. \<not> P c) s)) else None)"

definition find_char :: "char \<Rightarrow> string \<Rightarrow> nat option" where
  "find_char c = find_if (\<lambda>x. x = c)"

definition rfind_char :: "char \<Rightarrow> string \<Rightarrow> nat option" where
  "rfind_char c s = map_option (\<lambda>i. length s - 1 - i) (find_char c (rev s))"

fun find_text :: "string \<Rightarrow> string \<Rightarrow> nat option" where
  "find_text pat [] = (if pat = [] then Some 0 else None)"
| "find_text pat (c # cs) =
     (if take (length pat) (c # cs) = pat then Some 0 else map_option Suc (find_text pat cs))"

definition starts_with :: "string \<Rightarrow> string \<Rightarrow> bool" where
  "starts_with prefix s \<longleftrightarrow> take (length prefix) s = prefix"

lemma starts_with_append [simp]: "starts_with p (p @ s)"
  by (simp add: starts_with_def)

lemma starts_with_split: "starts_with p s \<longleftrightarrow> (\<exists>t. s = p @ t)"
  by (metis append_eq_conv_conj append_take_drop_id starts_with_def)

lemma find_if_None: "find_if P s = None \<longleftrightarrow> (\<forall>c \<in> set s. \<not> P c)"
  by (simp add: find_if_def list_ex_iff)

lemma find_if_split: "find_if P s = Some i \<longleftrightarrow> i < length s \<and> P (s ! i) \<and> (\<forall>c \<in> set (take i s). \<not> P c)"
proof (induction s arbitrary: i)
  case (Cons x xs)
  have step: "find_if P (x # xs) = (if P x then Some 0 else map_option Suc (find_if P xs))"
    by (auto simp: find_if_def)
  show ?case
  proof (cases i)
    case (Suc j)
    with Cons [of j] step show ?thesis by auto
  qed (auto simp: step)
qed (simp add: find_if_def)

lemma find_char_None: "find_char c s = None \<longleftrightarrow> c \<notin> set s"
  by (auto simp: find_char_def find_if_None)

lemma find_char_append: "c \<notin> set a \<Longrightarrow> find_char c (a @ c # b) = Some (length a)"
  by (auto simp: find_char_def find_if_split nth_append)

lemma find_char_split: "find_char c s = Some i \<longleftrightarrow> (\<exists>a b. s = a @ c # b \<and> c \<notin> set a \<and> i = length a)"
proof
  assume "find_char c s = Some i"
  then have "i < length s" "s ! i = c" "c \<notin> set (take i s)" by (auto simp: find_char_def find_if_split)
  then show "\<exists>a b. s = a @ c # b \<and> c \<notin> set a \<and> i = length a"
    by (metis id_take_nth_drop length_take min.absorb2 less_imp_le)
qed (auto simp: find_char_append)

lemma rfind_char_None: "rfind_char c s = None \<longleftrightarrow> c \<notin> set s"
  by (simp add: rfind_char_def find_char_None)

lemma rfind_char_append: "c \<notin> set b \<Longrightarrow> rfind_char c (a @ c # b) = Some (length a)"
  using find_char_append [of c "rev b" "rev a"] by (simp add: rfind_char_def)

lemma last_split: "c \<in> set s \<Longrightarrow> \<exists>a b. s = a @ c # b \<and> c \<notin> set b"
  by (metis split_list_last)

end
