(* ===== verification/Identity.thy ===== *)
theory Identity
  imports NvsStorage Texts
begin

text \<open>
  main/logic/key_rotation.hpp, vin_transition.hpp and vin.hpp: the decisions and
  transactions that keep the vehicle identity (VIN, private key, peer sessions) consistent across
  failed writes and power loss. Text is a character list; \<open>size_t\<close> is a natural number below
  \<open>2 ^ 32\<close>, its maximum on the target. The tesla-ble client and the storage are parameters.
\<close>

subsection \<open>Key rotation: decisions\<close>

definition hex_digit :: "nat \<Rightarrow> char" where
  "hex_digit n = ''0123456789ABCDEF'' ! n"

definition key_fingerprint_text :: "bytes option \<Rightarrow> string" where
  "key_fingerprint_text digest_ptr = (case digest_ptr of None \<Rightarrow> []
     | Some digest \<Rightarrow> if length digest < 4 then []
       else concat (map (\<lambda>i. [hex_digit (unat (drop_bit 4 (digest ! i))), hex_digit (unat (digest ! i AND 15))] @
                             (if i < 3 then [CHR '':''] else [])) [0, 1, 2, 3]))"

datatype key_created_date_result = Stamped | Retired | Untrusted

text \<open>The callbacks either finish with a verdict or throw (None); an exception counts as failure.\<close>

definition stamp_or_retire_key_date ::
    "bool \<Rightarrow> ('s \<Rightarrow> bool option \<times> 's) \<Rightarrow> ('s \<Rightarrow> bool option \<times> 's) \<Rightarrow> 's \<Rightarrow> key_created_date_result \<times> 's" where
  "stamp_or_retire_key_date stamp_allowed stamp retire s =
     (let (stamped, s1) = (if stamp_allowed then stamp s else (None, s)) in
      if stamped = Some True then (Stamped, s1)
      else let (retired, s2) = retire s1 in
           (if retired = Some True then Retired else Untrusted, s2))"

datatype key_rotation_result = NotCommitted | CommitUnknown | CleanupPending | RotationComplete

definition key_rotation_committed :: "key_rotation_result \<Rightarrow> bool" where
  "key_rotation_committed r \<longleftrightarrow> r = CleanupPending \<or> r = RotationComplete"

definition key_rotation_runtime_safe :: "key_rotation_result \<Rightarrow> bool" where
  "key_rotation_runtime_safe r \<longleftrightarrow> r = RotationComplete"

definition key_rotation_requires_reload :: "key_rotation_result \<Rightarrow> bool" where
  "key_rotation_requires_reload r \<longleftrightarrow> r = CommitUnknown"

definition key_rotation_reboot_confirms_ota :: "key_rotation_result \<Rightarrow> bool" where
  "key_rotation_reboot_confirms_ota r \<longleftrightarrow> r = RotationComplete"

datatype initial_key_boot_action = UseExisting | GenerateInitial | HaltAfterEmptyRecovery

definition decide_initial_key_boot_action :: "bool \<Rightarrow> bool \<Rightarrow> initial_key_boot_action" where
  "decide_initial_key_boot_action key_exists recovered_rotation =
     (if key_exists then UseExisting
      else if recovered_rotation then HaltAfterEmptyRecovery else GenerateInitial)"

datatype vehicle_task_start_phase = ControllerWired | IdentityResolved | BleReady | EssentialServicesReady

definition vehicle_tasks_may_start :: "vehicle_task_start_phase \<Rightarrow> bool \<Rightarrow> bool" where
  "vehicle_tasks_may_start phase safe_mode \<longleftrightarrow> \<not> safe_mode \<and> phase = EssentialServicesReady"

datatype key_rotation_boot_state = BootReady | CleanupRequired | BootBlocked
datatype key_rotation_marker_probe = MarkerError | MarkerMissing | MarkerPresent
datatype key_generation_preflight = Proceed | ExistingKeyRefused | ProbeFailed

definition decide_key_generation_preflight :: "bool \<Rightarrow> bool \<Rightarrow> bool \<Rightarrow> key_generation_preflight" where
  "decide_key_generation_preflight allow_replace probe_ok key_exists =
     (if allow_replace then Proceed
      else if \<not> probe_ok then ProbeFailed
      else if key_exists then ExistingKeyRefused else Proceed)"

definition private_key_identity_verified :: "bool \<Rightarrow> bool \<Rightarrow> bool \<Rightarrow> bool" where
  "private_key_identity_verified probe_ok key_exists fingerprint_available \<longleftrightarrow>
     probe_ok \<and> (\<not> key_exists \<or> fingerprint_available)"

datatype automatic_key_action = Continue | Generate | StorageUnavailable | RebootRequired
  | RecoveryRequired | AutomaticCommitReload

definition decide_automatic_key_action :: "bool \<Rightarrow> bool \<Rightarrow> bool \<Rightarrow> bool \<Rightarrow> automatic_key_action" where
  "decide_automatic_key_action probe_ok key_exists runtime_safe recovery_hint =
     (if \<not> probe_ok then StorageUnavailable
      else if key_exists \<and> \<not> runtime_safe then RebootRequired
      else if recovery_hint then RecoveryRequired
      else if \<not> key_exists then (if runtime_safe then RebootRequired else Generate)
      else if runtime_safe then Continue else RebootRequired)"

definition pairing_block_reason :: "bool \<Rightarrow> bool \<Rightarrow> bool \<Rightarrow> automatic_key_action \<Rightarrow> string option" where
  "pairing_block_reason key_reload cleanup_pending vin_pending action =
     (if key_reload \<or> action = AutomaticCommitReload then Some ''key_reload_required''
      else if vin_pending then Some ''vin_transition_pending''
      else if cleanup_pending then Some ''key_cleanup_pending''
      else if action = StorageUnavailable then Some ''key_storage_unavailable''
      else if action = RebootRequired then Some ''key_runtime_mismatch''
      else None)"

definition classify_key_rotation_marker_probe :: "bool \<Rightarrow> bool \<Rightarrow> key_rotation_marker_probe" where
  "classify_key_rotation_marker_probe probe_ok marker_exists =
     (if \<not> probe_ok then MarkerError else if marker_exists then MarkerPresent else MarkerMissing)"

definition decide_key_rotation_boot :: "bool \<Rightarrow> bool \<Rightarrow> bool \<Rightarrow> bool \<Rightarrow> key_rotation_boot_state" where
  "decide_key_rotation_boot marker_present cleanup_attempted cleanup_succeeded marker_removed =
     (if \<not> marker_present then BootReady
      else if \<not> cleanup_attempted then CleanupRequired
      else if cleanup_succeeded \<and> marker_removed then BootReady else BootBlocked)"

subsection \<open>Key rotation: storage sequences\<close>

record key_rotation_boot_cleanup =
  vcsec_removed :: bool
  info_removed :: bool
  paired_removed :: bool
  date_removed :: bool
  marker_removed :: bool

definition peers_erased :: "key_rotation_boot_cleanup \<Rightarrow> bool" where
  "peers_erased c \<longleftrightarrow> vcsec_removed c \<and> info_removed c \<and> paired_removed c \<and> date_removed c"

definition cleanup_state :: "key_rotation_boot_cleanup \<Rightarrow> key_rotation_boot_state" where
  "cleanup_state c = decide_key_rotation_boot True True (peers_erased c) (marker_removed c)"

definition run_key_rotation_boot_cleanup ::
    "(string \<Rightarrow> 's \<Rightarrow> bool \<times> 's) \<Rightarrow> 's \<Rightarrow> key_rotation_boot_cleanup \<times> 's" where
  "run_key_rotation_boot_cleanup remove s0 =
     (let (vcsec, s1) = remove kSessionVcsec s0;
          (info, s2) = remove kSessionInfotainment s1;
          (paired, s3) = remove kPairedAt s2;
          (date, s4) = remove kKeyCreated s3;
          c = \<lparr>vcsec_removed = vcsec, info_removed = info, paired_removed = paired,
               date_removed = date, marker_removed = False\<rparr>
      in if peers_erased c
         then let (marker, s5) = remove kKeyRotation s4 in (c\<lparr>marker_removed := marker\<rparr>, s5)
         else (c, s4))"

datatype key_rotation_journal_retire = JournalRetired | DatePending | JournalPending

definition retire_key_rotation_journal ::
    "(string \<Rightarrow> 's \<Rightarrow> bool \<times> 's) \<Rightarrow> bool \<Rightarrow> 's \<Rightarrow> key_rotation_journal_retire \<times> bool \<times> 's" where
  "retire_key_rotation_journal remove date_untrusted s0 =
     (let (date_ok, s1) = (if date_untrusted then remove kKeyCreated s0 else (True, s0)) in
      if \<not> date_ok then (DatePending, True, s1)
      else let (gone, s2) = remove kKeyRotation s1 in
           (if gone then JournalRetired else JournalPending, False, s2))"

subsection \<open>Key rotation: regenerating the key\<close>

definition kPrivateKeyPemCapacity :: nat where "kPrivateKeyPemCapacity = 2048"

datatype key_regeneration_result = Committed | ExportExistingFailed | CreateFailed | ExportNewFailed | PersistFailed

text \<open>The client's calls: its result code, and for an export the length and the filled buffer.\<close>

record 'c key_client =
  has_private_key :: "'c \<Rightarrow> bool"
  get_private_key :: "nat \<Rightarrow> 'c \<Rightarrow> int \<times> nat \<times> bytes"
  create_private_key :: "'c \<Rightarrow> int \<times> 'c"
  load_private_key :: "bytes \<Rightarrow> 'c \<Rightarrow> int \<times> 'c"

definition export_key :: "'c key_client \<Rightarrow> nat \<Rightarrow> 'c \<Rightarrow> bytes option" where
  "export_key client capacity c = (case get_private_key client capacity c of (rc, len, buf) \<Rightarrow>
     if rc \<noteq> 0 \<or> len = 0 \<or> capacity < len then None else Some (take len buf))"

definition regenerate_private_key ::
    "'c key_client \<Rightarrow> (bytes \<Rightarrow> 's \<Rightarrow> bool \<times> 's) \<Rightarrow> nat \<Rightarrow> 'c \<Rightarrow> 's \<Rightarrow> key_regeneration_result \<times> 'c \<times> 's" where
  "regenerate_private_key client persist capacity c0 s0 =
     (let had_old = has_private_key client c0;
          old = (if had_old then export_key client capacity c0 else None) in
      if had_old \<and> old = None then (ExportExistingFailed, c0, s0)
      else let restore_old = (\<lambda>c. if had_old then snd (load_private_key client (the old) c) else c);
               (rc, c1) = create_private_key client c0 in
           if rc \<noteq> 0 then (CreateFailed, restore_old c1, s0)
           else case export_key client capacity c1 of
                  None \<Rightarrow> (ExportNewFailed, restore_old c1, s0)
                | Some new_key \<Rightarrow>
                    let (saved, s1) = persist new_key s0 in
                    if \<not> saved then (PersistFailed, restore_old c1, s1) else (Committed, c1, s1))"

subsection \<open>VIN\<close>

definition vin_is_plausible :: "string \<Rightarrow> bool" where
  "vin_is_plausible vin \<longleftrightarrow> length vin = 17 \<and>
     list_all (\<lambda>c. is_digit_char c \<or> ((65 \<le> code_of c \<and> code_of c \<le> 90) \<and>
        c \<noteq> CHR ''I'' \<and> c \<noteq> CHR ''O'' \<and> c \<noteq> CHR ''Q'')) vin"

subsection \<open>VIN transition: the journal\<close>

record vin_transition_marker =
  previous_vin :: string
  previous_key_id :: string

datatype vin_journal_action = JournalContinue | JournalRecover | JournalHalt

definition decide_vin_transition_journal :: "nvs_load_state \<Rightarrow> bool \<Rightarrow> vin_journal_action" where
  "decide_vin_transition_journal load_state marker_valid =
     (if load_state = LoadMissing then JournalContinue
      else if load_state = LoadPresent \<and> marker_valid then JournalRecover
      else JournalHalt)"

definition vin_transition_key_evidence_verified :: "string \<Rightarrow> string \<Rightarrow> bool \<Rightarrow> bool \<Rightarrow> bool" where
  "vin_transition_key_evidence_verified prev_key_id current_key_id key_probe_ok key_present =
     (if \<not> key_probe_ok then False
      else let fingerprint_present = (current_key_id \<noteq> []) in
           if key_present \<noteq> fingerprint_present then False
           else if \<not> fingerprint_present \<and> prev_key_id \<noteq> [] then False
           else True)"

definition vin_transition_key_id_valid :: "string \<Rightarrow> bool" where
  "vin_transition_key_id_valid key_id =
     (if key_id = [] then True
      else if length key_id \<noteq> 11 \<or> key_id ! 2 \<noteq> CHR '':'' \<or> key_id ! 5 \<noteq> CHR '':'' \<or> key_id ! 8 \<noteq> CHR '':''
      then False
      else list_all (\<lambda>i. i = 2 \<or> i = 5 \<or> i = 8 \<or>
             (is_digit_char (key_id ! i) \<or> (65 \<le> code_of (key_id ! i) \<and> code_of (key_id ! i) \<le> 70)))
             [0..<length key_id])"

definition kVinTransitionMarkerPrefix :: string where "kVinTransitionMarkerPrefix = ''VT1:''"

definition make_vin_transition_marker :: "string \<Rightarrow> string \<Rightarrow> string" where
  "make_vin_transition_marker prev_vin prev_key_id =
     (if \<not> vin_transition_key_id_valid prev_key_id then []
      else kVinTransitionMarkerPrefix @ to_decimal (length prev_vin) @ '':'' @
           to_decimal (length prev_key_id) @ '':'' @ prev_vin @ prev_key_id)"

definition kSizeMax :: nat where "kSizeMax = 2 ^ 32 - 1"

text \<open>The position in the text is the part still to read; running out of text before the colon fails.\<close>

fun parse_length_loop :: "string \<Rightarrow> nat \<Rightarrow> bool \<Rightarrow> (nat \<times> string) option" where
  "parse_length_loop [] parsed have_digit = None"
| "parse_length_loop (c # cs) parsed have_digit =
     (if c = CHR '':'' then (if have_digit then Some (parsed, cs) else None)
      else if \<not> is_digit_char c then None
      else let digit = code_of c - 48 in
           if (kSizeMax - digit) div 10 < parsed then None
           else parse_length_loop cs (parsed * 10 + digit) True)"

definition parse_vin_transition_length :: "string \<Rightarrow> (nat \<times> string) option" where
  "parse_vin_transition_length rest = parse_length_loop rest 0 False"

definition parse_vin_transition_marker :: "string \<Rightarrow> vin_transition_marker \<Rightarrow> bool \<times> vin_transition_marker" where
  "parse_vin_transition_marker encoded out =
     (if length encoded < length kVinTransitionMarkerPrefix \<or>
         take (length kVinTransitionMarkerPrefix) encoded \<noteq> kVinTransitionMarkerPrefix then (False, out)
      else case parse_vin_transition_length (drop (length kVinTransitionMarkerPrefix) encoded) of
        None \<Rightarrow> (False, out)
      | Some (vin_len, rest1) \<Rightarrow> (case parse_vin_transition_length rest1 of
          None \<Rightarrow> (False, out)
        | Some (key_len, rest) \<Rightarrow>
            let remaining = length rest in
            if remaining < vin_len \<or> key_len \<noteq> remaining - vin_len then (False, out)
            else let vin = take vin_len rest; key_id = take key_len (drop vin_len rest) in
                 if \<not> vin_transition_key_id_valid key_id then (False, out)
                 else (True, \<lparr>previous_vin = vin, previous_key_id = key_id\<rparr>)))"

subsection \<open>VIN transition: decisions\<close>

datatype vin_transition_recovery = ClearMarker | RollBackPreviousVin | CompleteNewIdentity | HaltInconsistent

datatype vin_transition_apply = IdentityUnverified | IdentityRecoveryPending | StageFailed
  | RollBackPreviousIdentity | RecoverAmbiguousIdentity | RecoverCommittedIdentity | ApplyComplete

definition vin_transition_recovery_blocks_staging :: "bool \<Rightarrow> bool \<Rightarrow> bool" where
  "vin_transition_recovery_blocks_staging key_reload_required pairing_cleanup_pending \<longleftrightarrow>
     key_reload_required \<or> pairing_cleanup_pending"

definition decide_vin_transition_apply :: "bool \<Rightarrow> bool \<Rightarrow> key_rotation_result \<Rightarrow> vin_transition_apply" where
  "decide_vin_transition_apply identity_verified staged rotation =
     (if \<not> identity_verified then IdentityUnverified
      else if \<not> staged then StageFailed
      else case rotation of
          NotCommitted \<Rightarrow> RollBackPreviousIdentity
        | CommitUnknown \<Rightarrow> RecoverAmbiguousIdentity
        | CleanupPending \<Rightarrow> RecoverCommittedIdentity
        | RotationComplete \<Rightarrow> ApplyComplete)"

definition decide_vin_transition_recovery ::
    "vin_transition_marker \<Rightarrow> string \<Rightarrow> string \<Rightarrow> vin_transition_recovery" where
  "decide_vin_transition_recovery marker configured_vin current_key_id =
     (let key_changed = (current_key_id \<noteq> previous_key_id marker);
          vin_changed = (configured_vin \<noteq> previous_vin marker) in
      if \<not> key_changed \<and> \<not> vin_changed then ClearMarker
      else if \<not> key_changed \<and> vin_changed then RollBackPreviousVin
      else if key_changed \<and> vin_changed then CompleteNewIdentity
      else HaltInconsistent)"

definition vin_transition_cleanup_ready_for_marker_removal :: "bool \<Rightarrow> bool \<Rightarrow> bool \<Rightarrow> bool \<Rightarrow> bool" where
  "vin_transition_cleanup_ready_for_marker_removal vcsec info paired mac \<longleftrightarrow> vcsec \<and> info \<and> paired \<and> mac"

subsection \<open>Lemmas\<close>

lemma parse_decimal:
  "n \<le> kSizeMax \<Longrightarrow> parse_length_loop (to_decimal n @ rest) 0 False = parse_length_loop rest n True"
proof (induction n arbitrary: rest rule: to_decimal.induct)
  case (1 n)
  show ?case
  proof (cases "n < 10")
    case True
    with digit_char [OF True] show ?thesis by (simp add: to_decimal.simps Let_def)
  next
    case False
    let ?d = "n mod 10"
    have step: "to_decimal n = to_decimal (n div 10) @ [char_of (48 + ?d)]"
      using False by (subst to_decimal.simps) simp
    have "n div 10 \<le> kSizeMax" using 1(2) by (meson div_le_dividend le_trans)
    then have ih: "parse_length_loop (to_decimal (n div 10) @ char_of (48 + ?d) # rest) 0 False =
        parse_length_loop (char_of (48 + ?d) # rest) (n div 10) True"
      using 1(1) [OF False, of "char_of (48 + ?d) # rest"] by simp
    have "n div 10 * 10 + ?d = n" by simp
    then have "n div 10 \<le> (kSizeMax - ?d) div 10" using 1(2)
      by (metis add_diff_cancel_right' diff_le_mono div_le_mono div_mult_self_is_m zero_less_numeral)
    with digit_char [of ?d] have "parse_length_loop (char_of (48 + ?d) # rest) (n div 10) True =
        parse_length_loop rest n True" by (simp add: Let_def not_less)
    with ih step show ?thesis by simp
  qed
qed

lemma parse_make_marker:
  assumes "vin_transition_key_id_valid key_id" "length vin \<le> kSizeMax"
  shows "parse_vin_transition_marker (make_vin_transition_marker vin key_id) out =
    (True, \<lparr>previous_vin = vin, previous_key_id = key_id\<rparr>)"
proof -
  have "length key_id \<le> kSizeMax"
    using assms(1) by (auto simp: vin_transition_key_id_valid_def kSizeMax_def split: if_splits)
  with assms show ?thesis
    by (simp add: parse_vin_transition_marker_def make_vin_transition_marker_def parse_vin_transition_length_def
        kVinTransitionMarkerPrefix_def parse_decimal)
qed

subsection \<open>Cleanup over any record store\<close>

text \<open>The store after each step of the boot cleanup, so that a power loss between any two of them is one of
  these states.\<close>

definition cleanup_trace :: "(string \<Rightarrow> 's \<Rightarrow> bool \<times> 's) \<Rightarrow> 's \<Rightarrow> 's list" where
  "cleanup_trace remove s0 =
     (let (vcsec, s1) = remove kSessionVcsec s0; (info, s2) = remove kSessionInfotainment s1;
          (paired, s3) = remove kPairedAt s2; (date, s4) = remove kKeyCreated s3
      in [s0, s1, s2, s3, s4] @ (if vcsec \<and> info \<and> paired \<and> date then [snd (remove kKeyRotation s4)] else []))"

definition peer_records :: "string list" where
  "peer_records = [kSessionVcsec, kSessionInfotainment, kPairedAt, kKeyCreated]"

lemma peer_record_keys: "distinct (kKeyRotation # peer_records)" "kPrivateKey \<notin> set (kKeyRotation # peer_records)"
  by (simp_all add: peer_records_def nvs_names)

context record_storage begin

lemma removed_stays:
  "remove k s = (b, s') \<Longrightarrow> stored s k' = None \<Longrightarrow> k' \<noteq> k \<or> b \<Longrightarrow> stored s' k' = None"
  using remove_done remove_only by (cases "k' = k") auto

lemma boot_cleanup_steps:
  assumes run: "run_key_rotation_boot_cleanup remove s = (c, s')"
  shows "last (cleanup_trace remove s) = s'"
    and "t \<in> set (cleanup_trace remove s) \<Longrightarrow> k \<notin> set (kKeyRotation # peer_records) \<Longrightarrow> stored t k = stored s k"
    and "t \<in> set (cleanup_trace remove s) \<Longrightarrow> stored t kKeyRotation = stored s kKeyRotation \<or>
      (\<forall>k \<in> set peer_records. stored t k = None)"
    and "peers_erased c \<Longrightarrow> \<forall>k \<in> set peer_records. stored s' k = None"
    and "cleanup_state c = BootReady \<Longrightarrow> stored s' kKeyRotation = None \<and> peers_erased c"
    and "\<not> peers_erased c \<Longrightarrow> stored s' kKeyRotation = stored s kKeyRotation"
proof -
  obtain b1 s1 where r1: "remove kSessionVcsec s = (b1, s1)" by fastforce
  obtain b2 s2 where r2: "remove kSessionInfotainment s1 = (b2, s2)" by fastforce
  obtain b3 s3 where r3: "remove kPairedAt s2 = (b3, s3)" by fastforce
  obtain b4 s4 where r4: "remove kKeyCreated s3 = (b4, s4)" by fastforce
  obtain b5 s5 where r5: "remove kKeyRotation s4 = (b5, s5)" by fastforce
  note keys = peer_record_keys [unfolded peer_records_def]
  have c: "c = \<lparr>vcsec_removed = b1, info_removed = b2, paired_removed = b3, date_removed = b4,
      marker_removed = b1 \<and> b2 \<and> b3 \<and> b4 \<and> b5\<rparr>" and s': "s' = (if b1 \<and> b2 \<and> b3 \<and> b4 then s5 else s4)"
    using run by (auto simp: run_key_rotation_boot_cleanup_def r1 r2 r3 r4 r5 peers_erased_def Let_def split: if_splits)
  have tr: "cleanup_trace remove s = [s, s1, s2, s3, s4] @ (if b1 \<and> b2 \<and> b3 \<and> b4 then [s5] else [])"
    by (simp add: cleanup_trace_def r1 r2 r3 r4 r5)
  note only = remove_only [OF r1] remove_only [OF r2] remove_only [OF r3] remove_only [OF r4] remove_only [OF r5]
  have gone: "b1 \<Longrightarrow> stored s1 kSessionVcsec = None" "b2 \<Longrightarrow> stored s2 kSessionInfotainment = None"
    "b3 \<Longrightarrow> stored s3 kPairedAt = None" "b4 \<Longrightarrow> stored s4 kKeyCreated = None" "b5 \<Longrightarrow> stored s5 kKeyRotation = None"
    using r1 r2 r3 r4 r5 remove_done by auto
  have all_gone: "b1 \<and> b2 \<and> b3 \<and> b4 \<Longrightarrow> (\<forall>k \<in> set peer_records. stored s4 k = None \<and> stored s5 k = None)"
    using gone only keys by (auto simp: peer_records_def)
  show "last (cleanup_trace remove s) = s'" by (simp add: tr s')
  show "t \<in> set (cleanup_trace remove s) \<Longrightarrow> k \<notin> set (kKeyRotation # peer_records) \<Longrightarrow> stored t k = stored s k"
    using only unfolding tr by (auto simp: peer_records_def split: if_splits)
  show "t \<in> set (cleanup_trace remove s) \<Longrightarrow> stored t kKeyRotation = stored s kKeyRotation \<or>
      (\<forall>k \<in> set peer_records. stored t k = None)"
    using only all_gone keys unfolding tr by (auto split: if_splits)
  show "peers_erased c \<Longrightarrow> \<forall>k \<in> set peer_records. stored s' k = None"
    using all_gone by (auto simp: c s' peers_erased_def)
  show "cleanup_state c = BootReady \<Longrightarrow> stored s' kKeyRotation = None \<and> peers_erased c"
    using gone by (auto simp: c s' peers_erased_def cleanup_state_def decide_key_rotation_boot_def split: if_splits)
  show "\<not> peers_erased c \<Longrightarrow> stored s' kKeyRotation = stored s kKeyRotation"
    using only keys by (auto simp: c s' peers_erased_def)
qed

lemma journal_retire_steps:
  assumes "retire_key_rotation_journal remove untrusted s = (r, untrusted', s')"
  shows "(r = JournalRetired \<longrightarrow> stored s' kKeyRotation = None \<and> (untrusted \<longrightarrow> stored s' kKeyCreated = None)) \<and>
    (r = DatePending \<longrightarrow> untrusted' \<and> untrusted \<and> stored s' kKeyRotation = stored s kKeyRotation) \<and>
    (untrusted' \<longleftrightarrow> r = DatePending)"
proof -
  obtain b1 s1 where r1: "remove kKeyCreated s = (b1, s1)" by fastforce
  obtain b2 s2 where r2: "remove kKeyRotation s1 = (b2, s2)" by fastforce
  obtain b3 s3 where r3: "remove kKeyRotation s = (b3, s3)" by fastforce
  have ne: "kKeyCreated \<noteq> kKeyRotation" by (simp add: nvs_names)
  show ?thesis
    using assms remove_done [of kKeyCreated s s1] remove_done [of kKeyRotation s1 s2] remove_done [of kKeyRotation s s3]
      remove_only [OF r1, of kKeyRotation] remove_only [OF r2, of kKeyCreated] ne r1 r2 r3
    by (cases untrusted; cases b1; cases b2; cases b3) (auto simp: retire_key_rotation_journal_def)
qed

end

subsection \<open>Regeneration over any client\<close>

text \<open>The documented behaviour of the client, over the key it holds: a successful export is a full copy of
  that key, and a load of an exported key that reports success makes it the held key, whatever was created
  in between. Nothing is said of a load that reports an error: the library drops the held key before it
  parses the new one.\<close>

definition key_client_ok :: "'c key_client \<Rightarrow> ('c \<Rightarrow> bytes option) \<Rightarrow> bool" where
  "key_client_ok client held \<longleftrightarrow>
     (\<forall>c. has_private_key client c \<longleftrightarrow> held c \<noteq> None) \<and>
     (\<forall>c cap k. export_key client cap c = Some k \<longrightarrow> held c = Some k) \<and>
     (\<forall>c c' c'' cap k. export_key client cap c = Some k \<longrightarrow> load_private_key client k c' = (0, c'') \<longrightarrow>
        held c'' = Some k)"

lemma regenerate_cases:
  assumes ok: "key_client_ok client held"
    and run: "regenerate_private_key client persist cap c s = (r, c', s')"
  shows "r = Committed \<Longrightarrow> \<exists>k. held c' = Some k \<and> persist k s = (True, s')"
    and "r \<noteq> Committed \<Longrightarrow> s' = s \<or> (\<exists>k. persist k s = (False, s') \<and> r = PersistFailed)"
    and "r = ExportExistingFailed \<longleftrightarrow> held c \<noteq> None \<and> export_key client cap c = None"
    and "r = ExportExistingFailed \<Longrightarrow> c' = c"
    and "r \<noteq> Committed \<Longrightarrow> r \<noteq> ExportExistingFailed \<Longrightarrow> held c = Some k \<Longrightarrow>
      c' = snd (load_private_key client k (snd (create_private_key client c)))"
    and "r \<noteq> Committed \<Longrightarrow> r \<noteq> ExportExistingFailed \<Longrightarrow> held c = None \<Longrightarrow>
      c' = snd (create_private_key client c)"
proof -
  have has: "has_private_key client x \<longleftrightarrow> held x \<noteq> None" for x using ok unfolding key_client_ok_def by blast
  have ex: "export_key client cap x = Some k \<Longrightarrow> held x = Some k" for x k using ok unfolding key_client_ok_def by blast
  obtain rc c1 where cr: "create_private_key client c = (rc, c1)" by fastforce
  note facts = run has [of c] ex [of c] ex [of c1] cr
  show "r = Committed \<Longrightarrow> \<exists>k. held c' = Some k \<and> persist k s = (True, s')"
    "r \<noteq> Committed \<Longrightarrow> s' = s \<or> (\<exists>k. persist k s = (False, s') \<and> r = PersistFailed)"
    "r = ExportExistingFailed \<longleftrightarrow> held c \<noteq> None \<and> export_key client cap c = None"
    "r = ExportExistingFailed \<Longrightarrow> c' = c"
    "r \<noteq> Committed \<Longrightarrow> r \<noteq> ExportExistingFailed \<Longrightarrow> held c = Some k \<Longrightarrow>
      c' = snd (load_private_key client k (snd (create_private_key client c)))"
    "r \<noteq> Committed \<Longrightarrow> r \<noteq> ExportExistingFailed \<Longrightarrow> held c = None \<Longrightarrow>
      c' = snd (create_private_key client c)"
    using facts
    by (cases "export_key client cap c"; cases "export_key client cap c1";
      auto simp: regenerate_private_key_def Let_def split: if_splits prod.splits)+
qed

lemma restored_key:
  assumes ok: "key_client_ok client held"
    and run: "regenerate_private_key client persist cap c s = (r, c', s')"
    and fail: "r \<noteq> Committed" "r \<noteq> ExportExistingFailed" and old: "held c = Some k"
    and load: "fst (load_private_key client k (snd (create_private_key client c))) = 0"
  shows "held c' = Some k"
proof -
  note cases = regenerate_cases [OF ok run]
  have "export_key client cap c = Some k"
    using cases(3) fail(2) old ok unfolding key_client_ok_def by (cases "export_key client cap c") auto
  moreover have "load_private_key client k (snd (create_private_key client c)) = (0, c')"
    using cases(5) [OF fail old] load by (metis prod.collapse)
  ultimately show ?thesis using ok unfolding key_client_ok_def by blast
qed

subsection \<open>Properties\<close>

text \<open>The VIN journal round trips: for any previous VIN, empty or malformed ones included, and any valid
  key id, the marker that is written parses back to exactly that pair; an invalid key id yields no marker
  at all, which the parser refuses.\<close>

theorem vin_marker_roundtrip:
  assumes "length vin \<le> kSizeMax"
  shows "if vin_transition_key_id_valid key_id
    then parse_vin_transition_marker (make_vin_transition_marker vin key_id) out =
      (True, \<lparr>previous_vin = vin, previous_key_id = key_id\<rparr>)
    else make_vin_transition_marker vin key_id = [] \<and>
      parse_vin_transition_marker (make_vin_transition_marker vin key_id) out = (False, out)"
  using parse_make_marker [OF _ assms]
  by (simp add: make_vin_transition_marker_def parse_vin_transition_marker_def kVinTransitionMarkerPrefix_def)

theorem vin_marker_roundtrip_witness:
  "parse_vin_transition_marker (make_vin_transition_marker ''A:1|'' ''0A:1B:2C:3D'') \<lparr>previous_vin = [], previous_key_id = []\<rparr> =
     (True, \<lparr>previous_vin = ''A:1|'', previous_key_id = ''0A:1B:2C:3D''\<rparr>)"
proof -
  have "vin_transition_key_id_valid ''0A:1B:2C:3D''" by code_simp
  moreover have "length ''A:1|'' \<le> kSizeMax" by (simp add: kSizeMax_def)
  ultimately show ?thesis
    using vin_marker_roundtrip [of "''A:1|''" "''0A:1B:2C:3D''" "\<lparr>previous_vin = [], previous_key_id = []\<rparr>"] by simp
qed

text \<open>C24: The boot cleanup of an interrupted key rotation, over the storage adapter and any driver that keeps
  its promises, with any pattern of failing erases and a power loss between any two steps: in every
  state on the way either the journal is untouched, so the next boot repeats the cleanup, or no peer
  session, pairing date or key date is left; the private key and every other record are never touched;
  the boot is reported ready only when the journal and all four records are gone.\<close>

theorem key_rotation_cleanup_safe:
  assumes drv: "nvs_driver_ok api rec"
    and run: "run_key_rotation_boot_cleanup (nvs_remove api) s = (c, s')"
  shows "last (cleanup_trace (nvs_remove api) s) = s' \<and>
    (\<forall>t \<in> set (cleanup_trace (nvs_remove api) s).
       (record_of rec t kKeyRotation = record_of rec s kKeyRotation \<or>
        (\<forall>k \<in> set peer_records. record_of rec t k = None)) \<and>
       (\<forall>k. k \<notin> set (kKeyRotation # peer_records) \<longrightarrow> record_of rec t k = record_of rec s k)) \<and>
    (cleanup_state c = BootReady \<longrightarrow> record_of rec s' kKeyRotation = None \<and>
       (\<forall>k \<in> set peer_records. record_of rec s' k = None))"
  (is "?last \<and> (\<forall>t \<in> ?trace. ?safe t \<and> ?rest t) \<and> ?ready")
proof -
  note steps = record_storage.boot_cleanup_steps [OF nvs_record_storage [OF drv] run]
  have "?safe t \<and> ?rest t" if t: "t \<in> ?trace" for t
    using steps(3) [OF t] steps(2) [OF t] by blast
  moreover have ?ready using steps(4,5) by blast
  ultimately show ?thesis using steps(1) by blast
qed

theorem key_rotation_cleanup_safe_witness:
  "record_of mf_records (snd (run_key_rotation_boot_cleanup (nvs_remove map_flash_api)
      (map_store TeslaBle [(''sess_vcsec'', [1]), (kKeyRotation, [1]), (kPrivateKey, [9])] []))) kKeyRotation = None"
proof -
  let ?s = "map_store TeslaBle [(''sess_vcsec'', [1]), (kKeyRotation, [1]), (kPrivateKey, [9])] []"
  obtain c s' where run: "run_key_rotation_boot_cleanup (nvs_remove map_flash_api) ?s = (c, s')" by fastforce
  have "cleanup_state (fst (run_key_rotation_boot_cleanup (nvs_remove map_flash_api) ?s)) = BootReady" by code_simp
  with key_rotation_cleanup_safe [OF map_flash_ok run] run show ?thesis by simp
qed

text \<open>C16: Key regeneration fails closed, for any client that keeps its promises and any storage. A
  committed result means the key the client now holds is the one that was stored. Every other result has
  stored nothing unless the store itself reported the failure. An existing key is never replaced exactly
  when it cannot be exported, and then the client is untouched. After every other failure a key that was
  held before has been loaded again over whatever was created: the client is the one that load leaves,
  and it holds the old key whenever the load reports success (the code does not look at what the load
  reports).\<close>

theorem regenerate_key_fail_closed:
  assumes "key_client_ok client held" "regenerate_private_key client persist cap c s = (r, c', s')"
  shows "(r = Committed \<longrightarrow> (\<exists>k. held c' = Some k \<and> persist k s = (True, s'))) \<and>
    (r \<noteq> Committed \<longrightarrow> s' = s \<or> (\<exists>k. persist k s = (False, s') \<and> r = PersistFailed)) \<and>
    (r = ExportExistingFailed \<longleftrightarrow> held c \<noteq> None \<and> export_key client cap c = None) \<and>
    (r = ExportExistingFailed \<longrightarrow> c' = c) \<and>
    (\<forall>k. r \<noteq> Committed \<and> r \<noteq> ExportExistingFailed \<and> held c = Some k \<longrightarrow>
       c' = snd (load_private_key client k (snd (create_private_key client c))) \<and>
       (fst (load_private_key client k (snd (create_private_key client c))) = 0 \<longrightarrow> held c' = Some k))"
  using regenerate_cases [OF assms] restored_key [OF assms] by blast

text \<open>A client that holds a key and counts the keys it made.\<close>

definition counting_client :: "(bytes option \<times> nat) key_client" where
  "counting_client = \<lparr>has_private_key = (\<lambda>c. fst c \<noteq> None),
     get_private_key = (\<lambda>cap c. case fst c of None \<Rightarrow> (1, 0, []) | Some k \<Rightarrow>
        if length k \<le> cap then (0, length k, k) else (1, 0, [])),
     create_private_key = (\<lambda>c. (0, (Some [of_nat (snd c), 1], snd c + 1))),
     load_private_key = (\<lambda>k c. (0, (Some k, snd c)))\<rparr>"

lemma counting_client_ok: "key_client_ok counting_client fst"
  by (auto simp: key_client_ok_def counting_client_def export_key_def split: option.splits if_splits)

theorem regenerate_key_fail_closed_witness:
  "fst (fst (snd (regenerate_private_key counting_client (\<lambda>k s. (False, s)) kPrivateKeyPemCapacity (Some [5], 3) ()))) = Some [5]"
proof -
  obtain r c' s' where run: "regenerate_private_key counting_client (\<lambda>k s. (False, s)) kPrivateKeyPemCapacity (Some [5], 3) () = (r, c', s')"
    by (metis prod_cases3)
  have "fst (regenerate_private_key counting_client (\<lambda>k s. (False, s)) kPrivateKeyPemCapacity (Some [5], 3) ()) = PersistFailed"
    by code_simp
  moreover have "fst (load_private_key counting_client [5] x) = 0" for x
    by (simp add: counting_client_def)
  ultimately show ?thesis
    using regenerate_key_fail_closed [OF counting_client_ok run] run by (auto simp: prod_eq_iff)
qed

text \<open>The restoring load can be refused unnoticed: a client that keeps all its promises but refuses the
  load after it dropped its key is left without the key, while the result only says that the store failed
  and the stored key is still the old one.\<close>

definition refusing_client :: "(bytes option \<times> nat) key_client" where
  "refusing_client = counting_client\<lparr>load_private_key := (\<lambda>k c. (-1, (None, snd c)))\<rparr>"

lemma refusing_client_ok: "key_client_ok refusing_client fst"
  using counting_client_ok by (auto simp: key_client_ok_def refusing_client_def counting_client_def export_key_def)

theorem restore_failure_unreported:
  "regenerate_private_key refusing_client (\<lambda>k s. (False, s)) kPrivateKeyPemCapacity (Some [5], 3) () =
     (PersistFailed, (None, 4), ())"
  by code_simp

end
