(* ===== verification/Recovery.thy ===== *)
theory Recovery
  imports Identity
begin

text \<open>
  main/logic/reset_reason.hpp, heap_watchdog.hpp, boot_guard.hpp and heap_supervision.hpp: why the device
  last booted, the heap watchdog, the unhealthy-restart ledger with its safe mode, and the supervision of
  qualified healthy runs. Milliseconds keep their width (32 bits in the watchdog, 64 in the supervisor);
  small counters that the code saturates are natural numbers.
\<close>

subsection \<open>Reset reasons\<close>

datatype reset_code = RcUnknown | RcPowerOn | RcExt | RcSw | RcPanic | RcIntWdt | RcTaskWdt | RcOtherWdt
  | RcDeepSleep | RcBrownout | RcSdio | RcUsb | RcJtag | RcEfuse | RcPwrGlitch | RcCpuLockup

definition reset_codes :: "reset_code list" where
  "reset_codes = [RcUnknown, RcPowerOn, RcExt, RcSw, RcPanic, RcIntWdt, RcTaskWdt, RcOtherWdt,
     RcDeepSleep, RcBrownout, RcSdio, RcUsb, RcJtag, RcEfuse, RcPwrGlitch, RcCpuLockup]"

text \<open>A raw code outside the table is none of the named codes.\<close>

definition reset_code_of :: "int \<Rightarrow> reset_code option" where
  "reset_code_of code = (if 0 \<le> code \<and> code < 16 then Some (reset_codes ! nat code) else None)"

definition reset_slugs :: "string list" where
  "reset_slugs = [''unknown'', ''power_on'', ''ext'', ''sw'', ''panic'', ''int_wdt'', ''task_wdt'', ''wdt'',
     ''deepsleep'', ''brownout'', ''sdio'', ''usb'', ''jtag'', ''efuse'', ''pwr_glitch'', ''cpu_lockup'']"

definition reset_reason_slug :: "32 word \<Rightarrow> string" where
  "reset_reason_slug code = reset_slugs ! (if unat code < length reset_slugs then unat code else 0)"

definition reset_is_fault :: "int \<Rightarrow> bool" where
  "reset_is_fault code = (case reset_code_of code of None \<Rightarrow> False
     | Some c \<Rightarrow> c \<in> {RcPanic, RcIntWdt, RcTaskWdt, RcOtherWdt, RcBrownout, RcPwrGlitch, RcCpuLockup})"

subsection \<open>Heap watchdog\<close>

datatype reboot_reason_state = ReasonMissing | ReasonPresent | ReasonError

definition kHeapCriticalBytes :: nat where "kHeapCriticalBytes = 4096"
definition kHeapCriticalHoldMs :: u32 where "kHeapCriticalHoldMs = 300000"

datatype heap_action = HeapOk | HeapRecovered | HeapArmed | HeapWatching | HeapRestart

record heap_verdict =
  hv_action :: heap_action
  hv_critical_ms :: u32
  hv_ota_excused :: bool

record heap_watchdog =
  hw_critical :: bool
  hw_since_ms :: u32

record heap_sample =
  largest_block :: nat
  sample_now_ms :: u32
  sample_ota_busy :: bool

definition kHeapMaxConsecutiveRestarts :: nat where "kHeapMaxConsecutiveRestarts = 5"

definition heap_may_restart :: "u8 \<Rightarrow> bool" where
  "heap_may_restart consecutive \<longleftrightarrow> unat consecutive < kHeapMaxConsecutiveRestarts"

definition heap_reason_format :: "u8 \<Rightarrow> string" where
  "heap_reason_format consecutive =
     (let n = unat consecutive in
      ''heap:'' @ (if 100 \<le> n then [char_of (48 + (n div 100) mod 10)] else []) @
      (if 10 \<le> n then [char_of (48 + (n div 10) mod 10)] else []) @ [char_of (48 + n mod 10)])"

text \<open>The digits after the prefix; a number above 255 saturates as soon as it is seen.\<close>

fun heap_reason_digits :: "string \<Rightarrow> nat \<Rightarrow> u8" where
  "heap_reason_digits [] n = of_nat n"
| "heap_reason_digits (d # ds) n =
     (if \<not> is_digit_char d then 0
      else let n' = n * 10 + (code_of d - 48) in if 255 < n' then 255 else heap_reason_digits ds n')"

definition heap_reason_parse :: "string option \<Rightarrow> u8" where
  "heap_reason_parse s_ptr = (case s_ptr of None \<Rightarrow> 0
     | Some s \<Rightarrow> if take 5 s \<noteq> ''heap:'' then 0
       else if drop 5 s = [] then 0 else heap_reason_digits (drop 5 s) 0)"

definition heap_restart_in_ms :: "u32 \<Rightarrow> u32" where
  "heap_restart_in_ms critical_ms =
     (if kHeapCriticalHoldMs \<le> critical_ms then 0 else kHeapCriticalHoldMs - critical_ms)"

definition heap_watch :: "heap_sample \<Rightarrow> heap_watchdog \<Rightarrow> heap_verdict \<times> heap_watchdog" where
  "heap_watch s w =
     (let verdict = (\<lambda>a ms. \<lparr>hv_action = a, hv_critical_ms = ms, hv_ota_excused = False\<rparr>) in
      if kHeapCriticalBytes \<le> largest_block s
      then (if \<not> hw_critical w then (verdict HeapOk 0, w)
            else (verdict HeapRecovered (sample_now_ms s - hw_since_ms w), w\<lparr>hw_critical := False\<rparr>))
      else if \<not> hw_critical w
           then (verdict HeapArmed 0, w\<lparr>hw_critical := True, hw_since_ms := sample_now_ms s\<rparr>)
      else let held = sample_now_ms s - hw_since_ms w in
           if kHeapCriticalHoldMs \<le> held then (verdict HeapRestart held, w)
           else (verdict HeapWatching held, w))"

subsection \<open>The unhealthy-restart ledger\<close>

definition kBootFailThreshold :: nat where "kBootFailThreshold = 4"
definition kBootHealthyS :: u32 where "kBootHealthyS = 1800"
definition kBootFailMax :: nat where "kBootFailMax = 100"
definition kUnhealthyRestartLimit :: nat where "kUnhealthyRestartLimit = 5"

datatype boot_counter_cause = CauseClean | CauseFault | CauseHeapRecovery | CauseUncertain

definition boot_healthy_clear_allowed :: "boot_counter_cause \<Rightarrow> reboot_reason_state \<Rightarrow> bool" where
  "boot_healthy_clear_allowed cause reason \<longleftrightarrow> cause \<noteq> CauseUncertain \<and> reason \<noteq> ReasonError"

definition boot_counter_cause_of :: "int \<Rightarrow> reboot_reason_state \<Rightarrow> boot_counter_cause" where
  "boot_counter_cause_of code reason =
     (if reset_is_fault code then CauseFault
      else if reason = ReasonError then CauseUncertain
      else if reason = ReasonPresent
           then (if reset_code_of code = Some RcSw then CauseHeapRecovery else CauseUncertain)
      else case reset_code_of code of None \<Rightarrow> CauseUncertain
           | Some c \<Rightarrow> if c \<in> {RcPowerOn, RcExt, RcSw, RcDeepSleep, RcSdio, RcUsb, RcJtag}
                       then CauseClean else CauseUncertain)"

definition boot_activity_seed_allowed :: "int \<Rightarrow> reboot_reason_state \<Rightarrow> bool" where
  "boot_activity_seed_allowed code reason \<longleftrightarrow>
     reason = ReasonMissing \<and> boot_counter_cause_of code reason = CauseClean"

definition boot_shared_count :: "nat \<Rightarrow> boot_counter_cause \<Rightarrow> reboot_reason_state \<Rightarrow> nat \<Rightarrow> nat" where
  "boot_shared_count stored cause reason legacy_heap_streak =
     (let previous = (if kBootFailMax < stored then kBootFailMax else stored);
          legacy_verified = (cause \<noteq> CauseClean \<and> reason = ReasonPresent \<and>
             legacy_heap_streak \<le> kHeapMaxConsecutiveRestarts);
          floor = (if legacy_verified \<and> previous < legacy_heap_streak then legacy_heap_streak else previous)
      in if cause = CauseClean then 0
         else if cause \<noteq> CauseFault then floor
         else if floor < kBootFailMax then floor + 1 else kBootFailMax)"

definition boot_heap_reservation_next :: "nat \<Rightarrow> nat \<Rightarrow> nat \<Rightarrow> bool \<times> nat" where
  "boot_heap_reservation_next observed confirmed_floor next_out =
     (if kBootFailMax < observed \<or> kBootFailMax < confirmed_floor then (False, next_out)
      else let current = (if confirmed_floor < observed then observed else confirmed_floor) in
           if kUnhealthyRestartLimit \<le> current then (False, next_out) else (True, current + 1))"

fun boot_fail_digits :: "string \<Rightarrow> nat \<Rightarrow> nat option" where
  "boot_fail_digits [] v = Some v"
| "boot_fail_digits (c # cs) v =
     (if \<not> is_digit_char c then None
      else let digit = code_of c - 48 in
           if (kBootFailMax - digit) div 10 < v then None else boot_fail_digits cs (v * 10 + digit))"

definition boot_fail_parse :: "string option \<Rightarrow> nat option" where
  "boot_fail_parse raw_ptr = (case raw_ptr of None \<Rightarrow> None
     | Some raw \<Rightarrow> (case raw of [] \<Rightarrow> None
        | c # cs \<Rightarrow> if c = CHR ''0'' then (if cs \<noteq> [] then None else Some 0)
                    else boot_fail_digits raw 0))"

definition boot_fail_next :: "nat \<Rightarrow> boot_counter_cause \<Rightarrow> nat" where
  "boot_fail_next stored cause =
     (let cur = (if kBootFailMax < stored then kBootFailMax else stored) in
      if cause = CauseClean then 0
      else if cause \<noteq> CauseFault then cur
      else if kBootFailMax \<le> cur then kBootFailMax else cur + 1)"

definition boot_safe_mode :: "nat \<Rightarrow> bool" where
  "boot_safe_mode n \<longleftrightarrow> kBootFailThreshold \<le> n"

definition boot_healthy_elapsed :: "u32 \<Rightarrow> bool" where
  "boot_healthy_elapsed uptime_s \<longleftrightarrow> kBootHealthyS \<le> uptime_s"

subsection \<open>Supervision\<close>

definition kRecoverySampleMs :: u64 where "kRecoverySampleMs = 30000"
definition kRecoveryFreshMs :: u64 where "kRecoveryFreshMs = 60000"
definition kRecoveryHealthyMs :: u64 where "kRecoveryHealthyMs = ucast kBootHealthyS * 1000"
definition kRecoveryRetryMs :: u64 where "kRecoveryRetryMs = 300000"

definition vehicle_iteration_successful :: "bool \<Rightarrow> bool \<Rightarrow> bool" where
  "vehicle_iteration_successful runner_failed parse_fault \<longleftrightarrow> \<not> runner_failed \<and> \<not> parse_fault"

record vehicle_progress =
  vp_last_ms :: u64
  vp_present :: bool

definition progress_publish :: "u64 \<Rightarrow> vehicle_progress \<Rightarrow> vehicle_progress" where
  "progress_publish now p = p\<lparr>vp_last_ms := now, vp_present := True\<rparr>"

definition progress_fresh :: "u64 \<Rightarrow> vehicle_progress \<Rightarrow> bool" where
  "progress_fresh now p \<longleftrightarrow> vp_present p \<and> vp_last_ms p \<le> now \<and> now - vp_last_ms p \<le> kRecoveryFreshMs"

record recovery_healthy_run =
  hr_since_ms :: u64
  hr_last_ms :: u64
  hr_observed :: bool
  hr_active :: bool

definition new_healthy_run :: recovery_healthy_run where
  "new_healthy_run = \<lparr>hr_since_ms = 0, hr_last_ms = 0, hr_observed = False, hr_active = False\<rparr>"

definition healthy_run_sample :: "u64 \<Rightarrow> bool \<Rightarrow> recovery_healthy_run \<Rightarrow> bool \<times> recovery_healthy_run" where
  "healthy_run_sample now eligible h =
     (let h1 = (if \<not> eligible \<or> (hr_observed h \<and> (now < hr_last_ms h \<or> kRecoveryFreshMs < now - hr_last_ms h))
                then h\<lparr>hr_active := False\<rparr> else h);
          h2 = h1\<lparr>hr_last_ms := now, hr_observed := True\<rparr> in
      if \<not> eligible then (False, h2)
      else let h3 = (if \<not> hr_active h2 then h2\<lparr>hr_active := True, hr_since_ms := now\<rparr> else h2)
           in (kRecoveryHealthyMs \<le> now - hr_since_ms h3, h3))"

record recovery_health =
  rh_ready :: bool
  rh_host_synced :: bool
  rh_host_reset_free :: bool
  rh_vehicle_progress_fresh :: bool
  rh_network_up :: bool
  rh_ota_busy :: bool
  rh_largest_internal :: nat

definition recovery_health_eligible :: "recovery_health \<Rightarrow> bool" where
  "recovery_health_eligible h \<longleftrightarrow> rh_ready h \<and> rh_host_synced h \<and> rh_host_reset_free h \<and>
     rh_vehicle_progress_fresh h \<and> rh_network_up h \<and> \<not> rh_ota_busy h \<and>
     kHeapCriticalBytes \<le> rh_largest_internal h"

record heap_recovery_budget =
  hb_effective :: u8
  hb_trusted :: bool

definition budget_seed :: "u8 \<Rightarrow> bool \<Rightarrow> heap_recovery_budget" where
  "budget_seed count trusted_seed =
     (if \<not> trusted_seed \<or> kHeapMaxConsecutiveRestarts < unat count
      then \<lparr>hb_effective = of_nat kHeapMaxConsecutiveRestarts, hb_trusted = False\<rparr>
      else \<lparr>hb_effective = count, hb_trusted = True\<rparr>)"

definition budget_decay :: "bool \<Rightarrow> heap_recovery_budget \<Rightarrow> bool \<times> heap_recovery_budget" where
  "budget_decay qualified b =
     (if \<not> qualified \<or> \<not> hb_trusted b \<or> hb_effective b = 0 then (False, b)
      else (True, b\<lparr>hb_effective := 0\<rparr>))"

definition budget_may_restart :: "heap_recovery_budget \<Rightarrow> bool" where
  "budget_may_restart b \<longleftrightarrow> hb_trusted b \<and> heap_may_restart (hb_effective b)"

record recovery_write_cadence =
  wc_last_ms :: u64
  wc_attempted :: bool

definition cadence_due :: "u64 \<Rightarrow> recovery_write_cadence \<Rightarrow> bool" where
  "cadence_due now w \<longleftrightarrow> \<not> wc_attempted w \<or> (wc_last_ms w \<le> now \<and> kRecoveryRetryMs \<le> now - wc_last_ms w)"

definition cadence_attempt :: "u64 \<Rightarrow> recovery_write_cadence \<Rightarrow> recovery_write_cadence" where
  "cadence_attempt now w = w\<lparr>wc_last_ms := now, wc_attempted := True\<rparr>"

record recovery_diagnostic =
  rd_last_ms :: u64
  rd_suppressed :: u32
  rd_emitted :: bool

definition diagnostic_emit :: "u64 \<Rightarrow> recovery_diagnostic \<Rightarrow> (bool \<times> u32) \<times> recovery_diagnostic" where
  "diagnostic_emit now d =
     (if rd_emitted d \<and> (now < rd_last_ms d \<or> now - rd_last_ms d < kRecoveryRetryMs)
      then ((False, 0), if rd_suppressed d \<noteq> -1 then d\<lparr>rd_suppressed := rd_suppressed d + 1\<rparr> else d)
      else ((True, rd_suppressed d), d\<lparr>rd_suppressed := 0, rd_emitted := True, rd_last_ms := now\<rparr>))"

lemma word_minus_antimono: "(a :: 'a::len word) \<le> b \<Longrightarrow> b \<le> n \<Longrightarrow> n - b \<le> n - a"
  by (simp add: word_le_nat_alt unat_sub [OF order.trans] unat_sub word_less_eq_iff_unsigned)

subsection \<open>Runs of the watchdog\<close>

definition heap_critical :: "heap_sample \<Rightarrow> bool" where
  "heap_critical s \<longleftrightarrow> largest_block s < kHeapCriticalBytes"

definition new_heap_watchdog :: heap_watchdog where
  "new_heap_watchdog = \<lparr>hw_critical = False, hw_since_ms = 0\<rparr>"

definition heap_watch_all :: "heap_sample list \<Rightarrow> heap_watchdog" where
  "heap_watch_all xs = foldl (\<lambda>w s. snd (heap_watch s w)) new_heap_watchdog xs"

text \<open>The critical samples the history ends with.\<close>

definition critical_run :: "heap_sample list \<Rightarrow> heap_sample list" where
  "critical_run xs = rev (takeWhile heap_critical (rev xs))"

lemma critical_run_snoc:
  "critical_run (xs @ [s]) = (if heap_critical s then critical_run xs @ [s] else [])"
  by (simp add: critical_run_def)

lemma critical_run_Nil [simp]: "critical_run [] = []"
  by (simp add: critical_run_def)

lemma heap_watch_all_run:
  "hw_critical (heap_watch_all xs) \<longleftrightarrow> critical_run xs \<noteq> []"
  "critical_run xs \<noteq> [] \<Longrightarrow> hw_since_ms (heap_watch_all xs) = sample_now_ms (hd (critical_run xs))"
proof (induction xs rule: rev_induct)
  case (snoc s xs)
  { case 1
    then show ?case using snoc
      by (auto simp: heap_watch_all_def heap_watch_def critical_run_snoc heap_critical_def Let_def) }
  { case 2
    then show ?case using snoc
      by (auto simp: heap_watch_all_def heap_watch_def critical_run_snoc heap_critical_def Let_def
          split: if_splits) }
qed (simp_all add: heap_watch_all_def new_heap_watchdog_def)

subsection \<open>Runs of the healthy clock\<close>

text \<open>Samples that are all eligible and never more than a minute apart.\<close>

fun steady :: "(u64 \<times> bool) list \<Rightarrow> bool" where
  "steady [] = True"
| "steady [x] = snd x"
| "steady (x # y # zs) \<longleftrightarrow> snd x \<and> fst x \<le> fst y \<and> fst y - fst x \<le> kRecoveryFreshMs \<and> steady (y # zs)"

definition healthy_all :: "(u64 \<times> bool) list \<Rightarrow> recovery_healthy_run" where
  "healthy_all xs = foldl (\<lambda>h (now, ok). snd (healthy_run_sample now ok h)) new_healthy_run xs"

lemma steady_snoc:
  "zs \<noteq> [] \<Longrightarrow> steady (zs @ [x]) \<longleftrightarrow> steady zs \<and> snd x \<and> fst (last zs) \<le> fst x \<and>
     fst x - fst (last zs) \<le> kRecoveryFreshMs"
  by (induction zs rule: steady.induct) auto

lemma steady_drop: "steady (ys @ zs) \<Longrightarrow> steady zs"
proof (induction ys)
  case (Cons y ys)
  then show ?case by (cases "ys @ zs") auto
qed simp

lemma steady_mono: "steady (x # zs) \<Longrightarrow> y \<in> set (x # zs) \<Longrightarrow> fst x \<le> fst y"
proof (induction zs arbitrary: x)
  case (Cons z zs)
  then have le: "fst x \<le> fst z" and st: "steady (z # zs)" by auto
  show ?case
  proof (cases "y = x")
    case False
    with Cons.prems have "y \<in> set (z # zs)" by auto
    from Cons.IH [OF st this] le show ?thesis by (rule order.trans [rotated])
  qed (rule order.eq_iff [THEN iffD1, THEN conjunct1], simp)
qed simp

lemma steady_last: "steady (zs @ [x]) \<Longrightarrow> snd x"
  using steady_drop [of zs "[x]"] by simp

text \<open>The longest steady ending of the history.\<close>

fun steady_from :: "(u64 \<times> bool) list \<Rightarrow> (u64 \<times> bool) list" where
  "steady_from [] = []"
| "steady_from (x # xs) = (if steady (x # xs) then x # xs else steady_from xs)"

lemma steady_from_steady: "steady (steady_from xs)"
  by (induction xs) auto

lemma steady_from_suffix: "\<exists>ys. xs = ys @ steady_from xs"
proof (induction xs)
  case (Cons x xs)
  then obtain ys where "xs = ys @ steady_from xs" ..
  then have "x # xs = (x # ys) @ steady_from xs" by simp
  then show ?case by (metis append_Nil steady_from.simps(2))
qed simp

lemma steady_from_max: "steady zs \<Longrightarrow> \<exists>us. steady_from (ys @ zs) = us @ zs"
proof (induction ys)
  case Nil
  then show ?case by (cases zs) auto
qed auto

lemma steady_from_snoc:
  "steady_from (xs @ [x]) =
     (if \<not> snd x then []
      else if steady_from xs \<noteq> [] \<and> steady (steady_from xs @ [x]) then steady_from xs @ [x] else [x])"
proof (induction xs)
  case (Cons y xs)
  show ?case
  proof (cases "steady (y # xs)")
    case True
    have "xs \<noteq> [] \<Longrightarrow> \<not> steady ((y # xs) @ [x]) \<Longrightarrow> \<not> steady (xs @ [x])"
      using True by (subst (asm) steady_snoc) (auto simp: steady_snoc dest: steady_drop [of "[y]"])
    moreover have "xs \<noteq> [] \<Longrightarrow> steady_from xs = xs"
      using True steady_drop [of "[y]" xs] by (cases xs) auto
    ultimately show ?thesis using True Cons steady_last [of "y # xs" x]
      by (cases "xs = []") (auto simp: steady_snoc)
  next
    case False
    then have "\<not> steady ((y # xs) @ [x])" by (subst steady_snoc) auto
    with False Cons show ?thesis by simp
  qed
qed simp

lemma healthy_all_snoc: "healthy_all (xs @ [(now, ok)]) = snd (healthy_run_sample now ok (healthy_all xs))"
  by (simp add: healthy_all_def)

lemma steady_from_last: "steady_from xs \<noteq> [] \<Longrightarrow> last (steady_from xs) = last xs"
  using steady_from_suffix [of xs] by (metis last_append)

lemma healthy_all_run:
  shows "hr_observed (healthy_all xs) \<longleftrightarrow> xs \<noteq> []"
    and "xs \<noteq> [] \<Longrightarrow> hr_last_ms (healthy_all xs) = fst (last xs)"
    and "hr_active (healthy_all xs) \<longleftrightarrow> steady_from xs \<noteq> []"
    and "steady_from xs \<noteq> [] \<Longrightarrow> hr_since_ms (healthy_all xs) = fst (hd (steady_from xs))"
proof (induction xs rule: rev_induct)
  case (snoc x xs)
  obtain now ok where x: "x = (now, ok)" by fastforce
  note run = snoc steady_from_last [of xs] steady_from_steady [of xs]
  have nil: "xs = [] \<Longrightarrow> steady_from xs = []" by simp
  { case 1 show ?case by (simp add: x healthy_all_snoc healthy_run_sample_def Let_def) }
  { case 2 show ?case by (simp add: x healthy_all_snoc healthy_run_sample_def Let_def) }
  { case 3 show ?case
      by (simp add: x healthy_all_snoc healthy_run_sample_def Let_def steady_from_snoc) }
  { case 4 then show ?case using run nil
      by (cases "steady_from xs = []")
        (auto simp: x healthy_all_snoc healthy_run_sample_def Let_def steady_from_snoc steady_snoc
          split: if_splits) }
qed (simp_all add: healthy_all_def new_healthy_run_def)

lemma healthy_sample_run:
  "fst (healthy_run_sample now ok (healthy_all xs)) \<longleftrightarrow> steady_from (xs @ [(now, ok)]) \<noteq> [] \<and>
     kRecoveryHealthyMs \<le> now - fst (hd (steady_from (xs @ [(now, ok)])))"
proof -
  note after = healthy_all_run(3,4) [of "xs @ [(now, ok)]", unfolded healthy_all_snoc]
  have "fst (healthy_run_sample now ok h) \<longleftrightarrow> hr_active (snd (healthy_run_sample now ok h)) \<and>
      kRecoveryHealthyMs \<le> now - hr_since_ms (snd (healthy_run_sample now ok h))" for h
    by (auto simp: healthy_run_sample_def Let_def split: if_splits)
  then show ?thesis using after
    by (cases "steady_from (xs @ [(now, ok)]) = []") (simp_all only: simp_thms)
qed

lemma steady_from_earliest:
  assumes "xs = ys @ zs" "zs \<noteq> []" "steady zs"
  shows "steady_from xs \<noteq> []" "fst (hd (steady_from xs)) \<le> fst (hd zs)"
proof -
  obtain us where us: "steady_from xs = us @ zs" using steady_from_max [OF assms(3), of ys] assms(1) by auto
  with assms show "steady_from xs \<noteq> []" by simp
  show "fst (hd (steady_from xs)) \<le> fst (hd zs)"
  proof (cases us)
    case (Cons u us')
    with us steady_from_steady [of xs] steady_mono [of u "us' @ zs" "hd zs"] assms show ?thesis by auto
  qed (use us in simp)
qed

subsection \<open>Properties\<close>

lemma heap_watch_restart_iff:
  "hv_action (fst (heap_watch s (heap_watch_all xs))) = HeapRestart \<longleftrightarrow>
     heap_critical s \<and> critical_run xs \<noteq> [] \<and>
     kHeapCriticalHoldMs \<le> sample_now_ms s - sample_now_ms (hd (critical_run xs))"
proof (cases "critical_run xs = []")
  case True
  then show ?thesis using heap_watch_all_run(1) [of xs]
    by (simp add: heap_watch_def heap_critical_def Let_def)
next
  case False
  then show ?thesis using heap_watch_all_run [of xs]
    by (simp add: heap_watch_def heap_critical_def Let_def not_le)
qed

text \<open>The heap watchdog asks for a restart exactly when the history ends in an unbroken run of critical
  samples, the newest included, whose first is at least five minutes old on the wrapping clock; one
  healthy sample anywhere in between starts the count again.\<close>

theorem heap_watch_restarts_iff:
  "hv_action (fst (heap_watch s (heap_watch_all xs))) = HeapRestart \<longleftrightarrow>
     heap_critical s \<and> critical_run xs \<noteq> [] \<and>
     kHeapCriticalHoldMs \<le> sample_now_ms s - sample_now_ms (hd (critical_run xs))"
  by (rule heap_watch_restart_iff)

text \<open>A sample qualifies the device as healthy exactly when the history ends in eligible samples that are
  never more than a minute apart, in order, and span at least thirty minutes: a gap, a clock that goes back
  or one ineligible sample starts the count again.\<close>

theorem healthy_run_qualifies_iff:
  "fst (healthy_run_sample now ok (healthy_all xs)) \<longleftrightarrow>
     (\<exists>ys zs. xs @ [(now, ok)] = ys @ zs \<and> zs \<noteq> [] \<and> steady zs \<and> kRecoveryHealthyMs \<le> now - fst (hd zs))"
  (is "_ \<longleftrightarrow> ?spec")
proof
  obtain ys where ys: "xs @ [(now, ok)] = ys @ steady_from (xs @ [(now, ok)])" using steady_from_suffix by blast
  assume "fst (healthy_run_sample now ok (healthy_all xs))"
  with ys steady_from_steady [of "xs @ [(now, ok)]"] show ?spec unfolding healthy_sample_run by blast
next
  assume ?spec
  then obtain ys zs where zs: "xs @ [(now, ok)] = ys @ zs" "zs \<noteq> []" "steady zs"
    "kRecoveryHealthyMs \<le> now - fst (hd zs)" by blast
  note early = steady_from_earliest [OF zs(1-3)]
  from zs(1,2) have "last zs = (now, ok)" by (metis last_appendR last_snoc)
  with zs(2) have "(now, ok) \<in> set (hd zs # tl zs)" by (metis last_in_set list.collapse)
  with steady_mono [of "hd zs" "tl zs"] zs(2,3) have "fst (hd zs) \<le> now" by fastforce
  with early(2) have "now - fst (hd zs) \<le> now - fst (hd (steady_from (xs @ [(now, ok)])))"
    by (rule word_minus_antimono)
  with zs(4) early(1) show "fst (healthy_run_sample now ok (healthy_all xs))"
    unfolding healthy_sample_run by (blast intro: order.trans)
qed

subsection \<open>The ledger's text and its count\<close>

lemma boot_digits_value:
  "boot_fail_digits cs v = Some n \<Longrightarrow> v \<le> n \<and> n \<le> kBootFailMax \<or> cs = [] \<and> n = v"
proof (induction cs v rule: boot_fail_digits.induct)
  case (2 c cs v)
  let ?d = "code_of c - 48"
  from 2(2) have c: "is_digit_char c" "\<not> (kBootFailMax - ?d) div 10 < v" and
    r: "boot_fail_digits cs (v * 10 + ?d) = Some n" by (auto simp: Let_def split: if_splits)
  have "?d \<le> 9" using c(1) by (auto simp: is_digit_char_def)
  then have le: "v * 10 + ?d \<le> kBootFailMax" using c(2) by (simp add: kBootFailMax_def)
  from 2(1) [OF _ refl _ r] c have "v * 10 + ?d \<le> n \<and> n \<le> kBootFailMax \<or> cs = [] \<and> n = v * 10 + ?d" by simp
  with le show ?case by auto
qed simp

text \<open>The decimal text of a number, most significant digit first, has no leading zero.\<close>

lemma boot_digits_decimal:
  "n \<le> kBootFailMax \<Longrightarrow> boot_fail_digits (to_decimal n @ rest) 0 = boot_fail_digits rest n"
proof (induction n arbitrary: rest rule: to_decimal.induct)
  case (1 n)
  show ?case
  proof (cases "n < 10")
    case True
    with digit_char [OF True] show ?thesis by (simp add: to_decimal.simps Let_def kBootFailMax_def)
  next
    case False
    let ?d = "n mod 10"
    have step: "to_decimal n = to_decimal (n div 10) @ [char_of (48 + ?d)]"
      using False by (subst to_decimal.simps) simp
    have "boot_fail_digits (to_decimal (n div 10) @ char_of (48 + ?d) # rest) 0 =
        boot_fail_digits (char_of (48 + ?d) # rest) (n div 10)"
      using 1(1) [OF False, of "char_of (48 + ?d) # rest"] 1(2) by simp
    moreover have "n div 10 \<le> (kBootFailMax - ?d) div 10"
      using 1(2) by (auto simp: kBootFailMax_def) presburger
    ultimately show ?thesis using digit_char [of ?d] step by (simp add: Let_def not_less)
  qed
qed

lemma boot_digits_inverse:
  "boot_fail_digits cs v = Some n \<Longrightarrow> 0 < v \<Longrightarrow> to_decimal n = to_decimal v @ cs"
proof (induction cs v rule: boot_fail_digits.induct)
  case (2 c cs v)
  let ?d = "code_of c - 48"
  from 2(2) have c: "is_digit_char c" "\<not> (kBootFailMax - ?d) div 10 < v" and
    r: "boot_fail_digits cs (v * 10 + ?d) = Some n" by (auto simp: Let_def split: if_splits)
  have d: "?d < 10" using c(1) by (auto simp: is_digit_char_def)
  have "to_decimal n = to_decimal (v * 10 + ?d) @ cs" using 2(1) [OF _ refl _ r] c 2(3) by simp
  moreover have "to_decimal (v * 10 + ?d) = to_decimal v @ [char_of (48 + ?d)]"
    using 2(3) d by (subst to_decimal.simps) simp
  moreover have "char_of (48 + ?d) = c" using c(1) by (simp add: is_digit_char_def)
  ultimately show ?case by simp
qed simp

lemma boot_fail_parse_decimal: "n \<le> kBootFailMax \<Longrightarrow> boot_fail_parse (Some (to_decimal n)) = Some n"
proof (cases "n = 0")
  case False
  assume n: "n \<le> kBootFailMax"
  obtain c cs where "to_decimal n = c # cs" "c \<noteq> CHR ''0''" using to_decimal_first [of n] False by auto
  with boot_digits_decimal [OF n, of "[]"] show ?thesis by (simp add: boot_fail_parse_def)
qed (simp add: boot_fail_parse_def to_decimal.simps zero_char)

lemma boot_fail_parse_eq:
  "boot_fail_parse (Some raw) = Some n \<longleftrightarrow> n \<le> kBootFailMax \<and> raw = to_decimal n"
proof
  assume p: "boot_fail_parse (Some raw) = Some n"
  then obtain c cs where raw: "raw = c # cs" by (auto simp: boot_fail_parse_def split: list.splits)
  show "n \<le> kBootFailMax \<and> raw = to_decimal n"
  proof (cases "c = CHR ''0''")
    case True
    with p raw have "cs = []" "n = 0" by (simp_all add: boot_fail_parse_def split: if_splits)
    with True raw show ?thesis by (simp add: to_decimal.simps zero_char)
  next
    case False
    let ?d = "code_of c - 48"
    from p raw False have "boot_fail_digits (c # cs) 0 = Some n" by (simp add: boot_fail_parse_def)
    then have c: "is_digit_char c" and r: "boot_fail_digits cs ?d = Some n"
      by (simp_all add: Let_def split: if_splits)
    have d: "?d \<le> 9" using c unfolding is_digit_char_def by linarith
    have "c = char_of (48 + ?d)" using c by (simp add: is_digit_char_def)
    with False have "0 < ?d" by (cases "?d = 0") (auto simp: zero_char)
    with boot_digits_inverse [OF r] digit_char_decimal [OF c] raw have "raw = to_decimal n"
      by (metis append_Cons append_Nil)
    with boot_digits_value [OF r] d show ?thesis by (auto simp: kBootFailMax_def)
  qed
qed (use boot_fail_parse_decimal in auto)

text \<open>The persisted restart counter is read back exactly: a text is accepted as n if and only if n is at
  most 100 and the text is the one that is written for n; every other text, signed, padded, empty or too
  large, is refused.\<close>

theorem boot_fail_parse_exact:
  "boot_fail_parse (Some raw) = Some n \<longleftrightarrow> n \<le> kBootFailMax \<and> raw = to_decimal n"
  by (rule boot_fail_parse_eq)

text \<open>Without a legacy streak the enrolled count is the plain one.\<close>

lemma boot_shared_count_plain: "boot_shared_count stored cause reason 0 = boot_fail_next stored cause"
  by (auto simp: boot_shared_count_def boot_fail_next_def Let_def)

definition boot_counts :: "nat \<Rightarrow> boot_counter_cause list \<Rightarrow> nat" where
  "boot_counts stored causes = foldl boot_fail_next stored causes"

definition faults_since_clean :: "boot_counter_cause list \<Rightarrow> nat" where
  "faults_since_clean causes = length (filter (\<lambda>c. c = CauseFault) (takeWhile (\<lambda>c. c \<noteq> CauseClean) (rev causes)))"

lemma faults_since_clean_snoc:
  "faults_since_clean (cs @ [c]) = (if c = CauseClean then 0
     else if c = CauseFault then Suc (faults_since_clean cs) else faults_since_clean cs)"
  by (simp add: faults_since_clean_def)

text \<open>The crash-loop latch over a history of boots, starting from a cleared counter: the counter is the
  number of fault boots since the last known-clean one, saturated at 100, and safe mode is on exactly from
  the fourth; boots of uncertain cause neither clear nor charge it.\<close>

theorem boot_ledger_counts_faults:
  "boot_counts 0 causes = min kBootFailMax (faults_since_clean causes) \<and>
   (boot_safe_mode (boot_counts 0 causes) \<longleftrightarrow> kBootFailThreshold \<le> faults_since_clean causes)"
proof -
  have "boot_counts 0 causes = min kBootFailMax (faults_since_clean causes)"
  proof (induction causes rule: rev_induct)
    case Nil
    show ?case by (simp add: boot_counts_def faults_since_clean_def)
  next
    case (snoc c cs)
    then show ?case
      by (auto simp: boot_counts_def faults_since_clean_snoc boot_fail_next_def kBootFailMax_def Let_def)
  qed
  then show ?thesis by (auto simp: boot_safe_mode_def kBootFailThreshold_def kBootFailMax_def)
qed

end
