(* ===== verification/OtaPolicy.thy ===== *)
theory OtaPolicy
  imports Prelude
begin

text \<open>
  main/logic/health_gate.hpp, ota_recovery_memory.hpp, config_commit.hpp and ota_lifetime.hpp, with the
  guards of main/ota_update.cpp: when a probationary image may be confirmed, the one gate that keeps OTA,
  identity changes, fault restarts, health maintenance and configuration restarts apart, and the time
  budget of an operation. The gate's compare-and-swap calls are atomic steps. Times and byte counts are
  64-bit words, sizes of memory blocks natural numbers.
\<close>

subsection \<open>Recovery memory\<close>

datatype ota_recovery_use = TlsAdmission | ImageConfirmation | OperationEntry

definition kOtaRecoveryEntryRequiredB :: nat where "kOtaRecoveryEntryRequiredB = 59392"
definition kOtaTlsInContentB :: nat where "kOtaTlsInContentB = 16384"
definition kOtaTlsOutContentB :: nat where "kOtaTlsOutContentB = 4096"
definition kOtaTlsPayloadOverheadMaxB :: nat where "kOtaTlsPayloadOverheadMaxB = 2048"
definition kOtaTlsInternalHeaderB :: nat where "kOtaTlsInternalHeaderB = 13"

definition kOtaTlsInRecordBoundB :: nat where
  "kOtaTlsInRecordBoundB = kOtaTlsInContentB + kOtaTlsPayloadOverheadMaxB + kOtaTlsInternalHeaderB"

definition kOtaTlsOutRecordBoundB :: nat where
  "kOtaTlsOutRecordBoundB = kOtaTlsOutContentB + kOtaTlsPayloadOverheadMaxB + kOtaTlsInternalHeaderB"

definition kOtaTlsRecordCapacityB :: nat where
  "kOtaTlsRecordCapacityB = (if kOtaTlsOutRecordBoundB < kOtaTlsInRecordBoundB
     then kOtaTlsInRecordBoundB else kOtaTlsOutRecordBoundB)"

record ota_recovery_requirements =
  entry_bytes :: nat
  tls_record_bytes :: nat

definition kOtaRecoveryRequirements :: ota_recovery_requirements where
  "kOtaRecoveryRequirements = \<lparr>entry_bytes = kOtaRecoveryEntryRequiredB, tls_record_bytes = kOtaTlsRecordCapacityB\<rparr>"

definition ota_recovery_required_bytes_for :: "ota_recovery_use \<Rightarrow> ota_recovery_requirements \<Rightarrow> nat" where
  "ota_recovery_required_bytes_for use req = (case use of
      ImageConfirmation \<Rightarrow> entry_bytes req
    | OperationEntry \<Rightarrow> entry_bytes req
    | TlsAdmission \<Rightarrow> tls_record_bytes req)"

definition ota_recovery_requirement_valid :: "nat \<Rightarrow> bool" where
  "ota_recovery_requirement_valid required \<longleftrightarrow> required \<noteq> 0"

definition ota_recovery_memory_affordable :: "nat \<Rightarrow> nat \<Rightarrow> bool" where
  "ota_recovery_memory_affordable internal_largest required \<longleftrightarrow>
     ota_recovery_requirement_valid required \<and> required \<le> internal_largest"

subsection \<open>The health gate\<close>

datatype health_verdict = VerdictWait | VerdictCommit | VerdictGiveUp
datatype runtime_health_failure = HealthNone | NotReady | HostUnsynced | HostReset | CriticalHeap

record runtime_health_sample =
  rs_failure :: runtime_health_failure
  rs_largest :: nat

definition sample_is_healthy :: "runtime_health_sample \<Rightarrow> bool" where
  "sample_is_healthy s \<longleftrightarrow> rs_failure s = HealthNone"

text \<open>The four probes are callbacks: each may change what the next one sees.\<close>

definition sample_runtime_health ::
    "('s \<Rightarrow> bool \<times> 's) \<Rightarrow> ('s \<Rightarrow> bool \<times> 's) \<Rightarrow> ('s \<Rightarrow> nat \<times> 's) \<Rightarrow> ('s \<Rightarrow> nat \<times> 's) \<Rightarrow> nat \<Rightarrow> 's \<Rightarrow>
     runtime_health_sample \<times> 's" where
  "sample_runtime_health ready synced resets heap required_recovery_bytes s =
     (let (is_ready, s1) = ready s in
      if \<not> is_ready then (\<lparr>rs_failure = NotReady, rs_largest = 0\<rparr>, s1)
      else let (is_synced, s2) = synced s1 in
      if \<not> is_synced then (\<lparr>rs_failure = HostUnsynced, rs_largest = 0\<rparr>, s2)
      else let (n, s3) = resets s2 in
      if n \<noteq> 0 then (\<lparr>rs_failure = HostReset, rs_largest = 0\<rparr>, s3)
      else let (largest, s4) = heap s3 in
           (\<lparr>rs_failure = (if \<not> ota_recovery_memory_affordable largest required_recovery_bytes
                            then CriticalHeap else HealthNone), rs_largest = largest\<rparr>, s4))"

definition kHealthGateBaseS :: u32 where "kHealthGateBaseS = 90"
definition kHealthGateCapS :: u32 where "kHealthGateCapS = 600"

definition health_gate_decide :: "u32 \<Rightarrow> u32 \<Rightarrow> u32 \<Rightarrow> bool \<Rightarrow> bool \<Rightarrow> bool \<Rightarrow> health_verdict" where
  "health_gate_decide elapsed_s base_window_s hard_cap_s link_expected link_up runtime_healthy =
     (let healthy = ((link_up \<or> \<not> link_expected) \<and> runtime_healthy) in
      if base_window_s \<le> elapsed_s \<and> healthy then VerdictCommit
      else if hard_cap_s \<le> elapsed_s then VerdictGiveUp
      else VerdictWait)"

subsection \<open>Image verification and the identity entries\<close>

datatype ota_verification_state = VerStable | VerPendingVerify | VerUnknown

definition ota_verification_name :: "ota_verification_state \<Rightarrow> string" where
  "ota_verification_name state = (case state of VerStable \<Rightarrow> ''stable''
     | VerPendingVerify \<Rightarrow> ''pending_verify'' | VerUnknown \<Rightarrow> ''unknown'')"

datatype identity_mutation_entry = HttpGenerateKey | HttpSetVin | InitialKey | AutomaticKey | AutomaticEnrollment

datatype gate_state = GateIdle | GateOta | GateIdentityMutation | GateFaultRestart | GateHealthCommit
  | GateConfigRestart

definition operation_owner_name :: "gate_state \<Rightarrow> string" where
  "operation_owner_name state = (case state of GateIdle \<Rightarrow> ''idle'' | GateOta \<Rightarrow> ''ota''
     | GateIdentityMutation \<Rightarrow> ''identity'' | GateFaultRestart \<Rightarrow> ''fault_restart''
     | GateHealthCommit \<Rightarrow> ''health_maintenance'' | GateConfigRestart \<Rightarrow> ''config_restart'')"

datatype ota_reboot_class = SuccessfulUserConfigCommit | AutomaticIdentityRecovery | AutomaticWifiRollback
  | AutomaticFaultRecovery

definition ota_reboot_confirms_pending_image :: "ota_reboot_class \<Rightarrow> bool" where
  "ota_reboot_confirms_pending_image c \<longleftrightarrow> c = SuccessfulUserConfigCommit"

definition identity_mutation_allowed :: "ota_verification_state \<Rightarrow> identity_mutation_entry \<Rightarrow> bool" where
  "identity_mutation_allowed state entry \<longleftrightarrow> state = VerStable"

definition ota_operation_may_start :: "gate_state \<Rightarrow> bool" where
  "ota_operation_may_start state \<longleftrightarrow> state = GateIdle"

definition identity_mutation_may_start :: "ota_verification_state \<Rightarrow> gate_state \<Rightarrow> identity_mutation_entry \<Rightarrow> bool" where
  "identity_mutation_may_start verification gate entry \<longleftrightarrow>
     identity_mutation_allowed verification entry \<and> gate = GateIdle"

definition identity_mutation_entry_name :: "identity_mutation_entry \<Rightarrow> string" where
  "identity_mutation_entry_name entry = (case entry of HttpGenerateKey \<Rightarrow> ''HTTP key generation''
     | HttpSetVin \<Rightarrow> ''HTTP VIN transition'' | InitialKey \<Rightarrow> ''initial key generation''
     | AutomaticKey \<Rightarrow> ''automatic key rotation'' | AutomaticEnrollment \<Rightarrow> ''automatic key enrollment'')"

subsection \<open>The gate\<close>

record operation_acquisition =
  acquired :: bool
  observed :: gate_state

text \<open>A compare-and-swap: whether it swapped, the value it saw, the value it left.\<close>

definition compare_exchange :: "gate_state \<Rightarrow> gate_state \<Rightarrow> gate_state \<Rightarrow> bool \<times> gate_state \<times> gate_state" where
  "compare_exchange expected desired state =
     (if state = expected then (True, expected, desired) else (False, state, state))"

definition gate_try_begin_observed :: "gate_state \<Rightarrow> gate_state \<Rightarrow> operation_acquisition \<times> gate_state" where
  "gate_try_begin_observed owner g =
     (if owner = GateIdle then (\<lparr>acquired = False, observed = GateIdle\<rparr>, g)
      else let (ok, expected, g') = compare_exchange GateIdle owner g
           in (\<lparr>acquired = ok, observed = expected\<rparr>, g'))"

definition gate_try_begin :: "gate_state \<Rightarrow> gate_state \<Rightarrow> bool \<times> gate_state" where
  "gate_try_begin owner g = (let (a, g') = gate_try_begin_observed owner g in (acquired a, g'))"

definition gate_finish :: "gate_state \<Rightarrow> gate_state \<Rightarrow> bool \<times> gate_state" where
  "gate_finish owner g =
     (if owner = GateIdle then (False, g)
      else let (ok, _, g') = compare_exchange owner GateIdle g in (ok, g'))"

subsection \<open>The guards\<close>

text \<open>A guard object: the owner it acquires for, whether it holds the gate, whether it was sealed.\<close>

record op_guard =
  og_owner :: gate_state
  og_held :: bool
  og_sealed :: bool

definition fault_guard_new :: "gate_state \<Rightarrow> op_guard \<times> gate_state" where
  "fault_guard_new g = (let (a, g') = gate_try_begin_observed GateFaultRestart g
     in (\<lparr>og_owner = GateFaultRestart, og_held = acquired a, og_sealed = False\<rparr>, g'))"

definition fault_guard_seal :: "op_guard \<Rightarrow> op_guard" where
  "fault_guard_seal o' = (if og_held o' then o'\<lparr>og_sealed := True\<rparr> else o')"

definition fault_guard_drop :: "op_guard \<Rightarrow> gate_state \<Rightarrow> gate_state" where
  "fault_guard_drop o' g = (if og_held o' \<and> \<not> og_sealed o' then snd (gate_finish GateFaultRestart g) else g)"

definition health_guard_new :: "gate_state \<Rightarrow> op_guard \<times> gate_state" where
  "health_guard_new g = (let (a, g') = gate_try_begin_observed GateHealthCommit g
     in (\<lparr>og_owner = GateHealthCommit, og_held = acquired a, og_sealed = False\<rparr>, g'))"

definition health_guard_drop :: "op_guard \<Rightarrow> gate_state \<Rightarrow> gate_state" where
  "health_guard_drop o' g = (if og_held o' then snd (gate_finish GateHealthCommit g) else g)"

definition config_guard_fresh :: op_guard where
  "config_guard_fresh = \<lparr>og_owner = GateConfigRestart, og_held = False, og_sealed = False\<rparr>"

definition config_guard_owns_gate :: "op_guard \<Rightarrow> gate_state \<Rightarrow> bool" where
  "config_guard_owns_gate o' g \<longleftrightarrow> og_held o' \<and> g = GateConfigRestart"

definition config_guard_try_begin :: "op_guard \<Rightarrow> gate_state \<Rightarrow> bool \<times> op_guard \<times> gate_state" where
  "config_guard_try_begin o' g =
     (if og_held o' then (config_guard_owns_gate o' g, o', g)
      else let (ok, g') = gate_try_begin GateConfigRestart g in (ok, o'\<lparr>og_held := ok\<rparr>, g'))"

definition config_guard_seal :: "op_guard \<Rightarrow> gate_state \<Rightarrow> op_guard" where
  "config_guard_seal o' g = (if config_guard_owns_gate o' g then o'\<lparr>og_sealed := True\<rparr> else o')"

definition config_guard_drop :: "op_guard \<Rightarrow> gate_state \<Rightarrow> gate_state" where
  "config_guard_drop o' g = (if og_held o' \<and> \<not> og_sealed o' then snd (gate_finish GateConfigRestart g) else g)"

text \<open>The identity guard samples the image state before and after it acquires the gate.\<close>

definition identity_guard_new ::
    "ota_verification_state \<Rightarrow> gate_state \<Rightarrow> ota_verification_state \<Rightarrow> identity_mutation_entry \<Rightarrow> gate_state \<Rightarrow>
     op_guard \<times> gate_state" where
  "identity_guard_new before expected after entry g =
     (let none = \<lparr>og_owner = GateIdentityMutation, og_held = False, og_sealed = False\<rparr> in
      if \<not> identity_mutation_may_start before expected entry then (none, g)
      else let (ok, g1) = gate_try_begin GateIdentityMutation g in
      if \<not> ok then (none, g1)
      else if \<not> identity_mutation_allowed after entry
           then (none, snd (gate_finish GateIdentityMutation g1))
           else (none\<lparr>og_held := True\<rparr>, g1))"

definition identity_guard_drop :: "op_guard \<Rightarrow> gate_state \<Rightarrow> gate_state" where
  "identity_guard_drop o' g = (if og_held o' then snd (gate_finish GateIdentityMutation g) else g)"

definition begin_ota_operation :: "gate_state \<Rightarrow> op_guard \<times> gate_state" where
  "begin_ota_operation g = (let (ok, g') = gate_try_begin GateOta g
     in (\<lparr>og_owner = GateOta, og_held = ok, og_sealed = False\<rparr>, g'))"

definition finish_ota_operation :: "op_guard \<Rightarrow> gate_state \<Rightarrow> gate_state" where
  "finish_ota_operation o' g = (if og_held o' then snd (gate_finish GateOta g) else g)"

subsection \<open>Configuration restarts\<close>

datatype config_image_result = CiNone | CiValid | CiUndefined | CiConfirmed | CiPending | CiNew | CiUnsupported
  | CiUnknown | CiNotReady | CiHostUnsynced | CiHostReset | CiCriticalHeap | CiMarkUnknown | CiWrongOwner | CiWrongClass

definition config_health_failure :: "runtime_health_failure \<Rightarrow> config_image_result" where
  "config_health_failure failure = (case failure of HealthNone \<Rightarrow> CiNone | NotReady \<Rightarrow> CiNotReady
     | HostUnsynced \<Rightarrow> CiHostUnsynced | HostReset \<Rightarrow> CiHostReset | CriticalHeap \<Rightarrow> CiCriticalHeap)"

definition config_wifi_may_save :: "config_image_result \<Rightarrow> bool" where
  "config_wifi_may_save img \<longleftrightarrow> img = CiValid \<or> img = CiUndefined"

definition config_image_warning :: "config_image_result \<Rightarrow> bool" where
  "config_image_warning img \<longleftrightarrow> img \<noteq> CiNone \<and> \<not> config_wifi_may_save img \<and> img \<noteq> CiConfirmed"

definition config_image_code :: "config_image_result \<Rightarrow> string" where
  "config_image_code img = (case img of CiNone \<Rightarrow> ''not_attempted'' | CiValid \<Rightarrow> ''already_valid''
     | CiUndefined \<Rightarrow> ''not_in_probation'' | CiConfirmed \<Rightarrow> ''confirmed'' | CiPending \<Rightarrow> ''pending''
     | CiNew \<Rightarrow> ''new'' | CiUnsupported \<Rightarrow> ''unsupported_state'' | CiNotReady \<Rightarrow> ''runtime_not_ready''
     | CiHostUnsynced \<Rightarrow> ''host_unsynced'' | CiHostReset \<Rightarrow> ''host_reset''
     | CiCriticalHeap \<Rightarrow> ''critical_heap'' | CiMarkUnknown \<Rightarrow> ''mark_outcome_unknown''
     | CiWrongOwner \<Rightarrow> ''wrong_owner'' | CiWrongClass \<Rightarrow> ''wrong_reboot_class'' | CiUnknown \<Rightarrow> ''state_unknown'')"

definition config_commit_reason :: "config_image_result \<Rightarrow> string" where
  "config_commit_reason img =
     (if img \<in> {CiPending, CiNew}
      then ''configuration saved for the next boot; firmware remains unconfirmed''
      else if img = CiNotReady
      then ''configuration saved for the next boot; firmware unconfirmed: runtime not ready''
      else if img = CiHostUnsynced
      then ''configuration saved for the next boot; firmware unconfirmed: BLE host not synced''
      else if img = CiHostReset
      then ''configuration saved for the next boot; firmware unconfirmed: BLE host reset''
      else if img = CiCriticalHeap
      then ''configuration saved for the next boot; firmware unconfirmed: insufficient OTA recovery headroom''
      else ''configuration saved for the next boot; firmware verification is uncertain'')"

subsection \<open>The time budget of an operation\<close>

definition kCriticalWriterGraceMs :: u64 where "kCriticalWriterGraceMs = 300000"
definition kMetadataBudgetBytes :: u64 where "kMetadataBudgetBytes = 2 * 8192"

record time_policy =
  setup_ms :: u64
  finalize_ms :: u64
  minimum_bytes_per_second :: u32

definition kOperationTimePolicy :: time_policy where
  "kOperationTimePolicy = \<lparr>setup_ms = 15000, finalize_ms = 10000, minimum_bytes_per_second = 16 * 1024\<rparr>"

record op_budget =
  bd_policy :: time_policy
  bd_started :: u64
  bd_last :: u64
  bd_deadline :: u64
  bd_maximum :: u64
  bd_valid :: bool
  bd_initialized :: bool

definition new_budget :: op_budget where
  "new_budget = \<lparr>bd_policy = \<lparr>setup_ms = 0, finalize_ms = 0, minimum_bytes_per_second = 0\<rparr>, bd_started = 0,
     bd_last = 0, bd_deadline = 0, bd_maximum = 0, bd_valid = False, bd_initialized = False\<rparr>"

abbreviation u64_max :: u64 where "u64_max \<equiv> - 1"

definition duration_for :: "time_policy \<Rightarrow> u64 \<Rightarrow> u64 option" where
  "duration_for p bytes =
     (if u64_max div 1000 < bytes then None
      else let scaled = bytes * 1000;
               rate = ucast (minimum_bytes_per_second p);
               transfer = scaled div rate + (if scaled mod rate \<noteq> 0 then 1 else 0) in
      if u64_max - transfer < setup_ms p then None
      else let first = setup_ms p + transfer in
      if u64_max - first < finalize_ms p then None
      else let result = first + finalize_ms p in if result \<noteq> 0 then Some result else None)"

definition budget_begin :: "u64 \<Rightarrow> u64 \<Rightarrow> time_policy \<Rightarrow> op_budget \<Rightarrow> bool \<times> op_budget" where
  "budget_begin now maximum_bytes p b =
     (if bd_initialized b then (False, b)
      else let b1 = b\<lparr>bd_initialized := True, bd_valid := False, bd_started := now, bd_last := now,
                      bd_maximum := maximum_bytes, bd_policy := p\<rparr> in
      if minimum_bytes_per_second p = 0 \<or> maximum_bytes = 0 then (False, b1)
      else case duration_for p maximum_bytes of None \<Rightarrow> (False, b1)
        | Some duration \<Rightarrow> if u64_max - now < duration then (False, b1)
            else (True, b1\<lparr>bd_deadline := now + duration, bd_valid := True\<rparr>))"

definition budget_live :: "u64 \<Rightarrow> op_budget \<Rightarrow> bool \<times> op_budget" where
  "budget_live now b =
     (if \<not> bd_valid b \<or> now < bd_last b \<or> now < bd_started b \<or> bd_deadline b \<le> now
      then (False, b\<lparr>bd_valid := False\<rparr>)
      else (True, b\<lparr>bd_last := now\<rparr>))"

definition budget_tighten :: "u64 \<Rightarrow> op_budget \<Rightarrow> bool \<times> op_budget" where
  "budget_tighten bytes b =
     (if \<not> bd_valid b \<or> bytes = 0 \<or> bd_maximum b < bytes then (False, b)
      else case duration_for (bd_policy b) bytes of None \<Rightarrow> (False, b)
        | Some duration \<Rightarrow> if u64_max - bd_started b < duration then (False, b)
            else let candidate = bd_started b + duration in
                 (True, if candidate < bd_deadline b then b\<lparr>bd_deadline := candidate\<rparr> else b))"

subsection \<open>The writer's grace in a critical episode\<close>

record critical_episode =
  ce_since :: u64
  ce_last :: u64
  ce_grace :: u64
  ce_active :: bool
  ce_invalid_clock :: bool
  ce_expired :: bool

definition new_episode :: critical_episode where
  "new_episode = \<lparr>ce_since = 0, ce_last = 0, ce_grace = 0, ce_active = False, ce_invalid_clock = False,
     ce_expired = False\<rparr>"

definition episode_excused :: "u64 \<Rightarrow> nat \<Rightarrow> bool \<Rightarrow> u64 \<Rightarrow> critical_episode \<Rightarrow> bool \<times> critical_episode" where
  "episode_excused now internal_largest active_writer grace_ms e =
     (if 4096 \<le> internal_largest then (False, new_episode)
      else let e1 = (if \<not> ce_active e
               then e\<lparr>ce_active := True, ce_since := now, ce_last := now, ce_grace := grace_ms\<rparr>
               else e\<lparr>ce_invalid_clock := (now < ce_last e \<or> ce_invalid_clock e),
                      ce_grace := (if grace_ms < ce_grace e then grace_ms else ce_grace e)\<rparr>);
               e2 = e1\<lparr>ce_last := now, ce_invalid_clock := (now < ce_since e1 \<or> ce_invalid_clock e1)\<rparr>;
               e3 = (if \<not> ce_invalid_clock e2 \<and> ce_grace e2 \<le> now - ce_since e2
                     then e2\<lparr>ce_expired := True\<rparr> else e2)
           in if ce_invalid_clock e3 \<or> ce_expired e3 then (False, e3) else (active_writer, e3))"

definition episode_elapsed :: "u64 \<Rightarrow> critical_episode \<Rightarrow> u64" where
  "episode_elapsed now e = (if ce_active e \<and> ce_since e \<le> now then now - ce_since e else 0)"

subsection \<open>The gate as a system of guards\<close>

record gate_system =
  gs_gate :: gate_state
  gs_guards :: "nat \<Rightarrow> op_guard option"

datatype gate_event = NewFault nat | SealFault nat | NewHealth nat | NewConfig nat | BeginConfig nat
  | SealConfig nat | NewIdentity nat ota_verification_state gate_state ota_verification_state identity_mutation_entry
  | NewOta nat | DropGuard nat

definition guard_drop :: "op_guard \<Rightarrow> gate_state \<Rightarrow> gate_state" where
  "guard_drop o' g = (case og_owner o' of
      GateFaultRestart \<Rightarrow> fault_guard_drop o' g
    | GateHealthCommit \<Rightarrow> health_guard_drop o' g
    | GateConfigRestart \<Rightarrow> config_guard_drop o' g
    | GateIdentityMutation \<Rightarrow> identity_guard_drop o' g
    | GateOta \<Rightarrow> finish_ota_operation o' g
    | GateIdle \<Rightarrow> g)"

definition gs_put :: "nat \<Rightarrow> op_guard \<times> gate_state \<Rightarrow> gate_system \<Rightarrow> gate_system" where
  "gs_put i r s = s\<lparr>gs_gate := snd r, gs_guards := (gs_guards s)(i \<mapsto> fst r)\<rparr>"

definition gs_new :: "nat \<Rightarrow> (gate_state \<Rightarrow> op_guard \<times> gate_state) \<Rightarrow> gate_system \<Rightarrow> gate_system" where
  "gs_new i f s = (if gs_guards s i \<noteq> None then s else gs_put i (f (gs_gate s)) s)"

definition gs_step :: "gate_system \<Rightarrow> gate_event \<Rightarrow> gate_system" where
  "gs_step s e = (case e of
      NewFault i \<Rightarrow> gs_new i fault_guard_new s
    | NewHealth i \<Rightarrow> gs_new i health_guard_new s
    | NewConfig i \<Rightarrow> gs_new i (\<lambda>g. (config_guard_fresh, g)) s
    | NewIdentity i before expected after entry \<Rightarrow> gs_new i (identity_guard_new before expected after entry) s
    | NewOta i \<Rightarrow> gs_new i begin_ota_operation s
    | SealFault i \<Rightarrow> (case gs_guards s i of
          Some o' \<Rightarrow> if og_owner o' = GateFaultRestart then gs_put i (fault_guard_seal o', gs_gate s) s else s
        | None \<Rightarrow> s)
    | BeginConfig i \<Rightarrow> (case gs_guards s i of
          Some o' \<Rightarrow> if og_owner o' = GateConfigRestart
            then gs_put i (snd (config_guard_try_begin o' (gs_gate s))) s else s
        | None \<Rightarrow> s)
    | SealConfig i \<Rightarrow> (case gs_guards s i of
          Some o' \<Rightarrow> if og_owner o' = GateConfigRestart
            then gs_put i (config_guard_seal o' (gs_gate s), gs_gate s) s else s
        | None \<Rightarrow> s)
    | DropGuard i \<Rightarrow> (case gs_guards s i of
          Some o' \<Rightarrow> s\<lparr>gs_gate := guard_drop o' (gs_gate s), gs_guards := (gs_guards s)(i := None)\<rparr>
        | None \<Rightarrow> s))"

definition gs_start :: gate_system where
  "gs_start = \<lparr>gs_gate = GateIdle, gs_guards = Map.empty\<rparr>"

text \<open>Guard i holds the gate.\<close>

definition holds :: "gate_system \<Rightarrow> nat \<Rightarrow> bool" where
  "holds s i \<longleftrightarrow> (\<exists>o'. gs_guards s i = Some o' \<and> og_held o')"

text \<open>What every guard object satisfies beside the gate it belongs to.\<close>

definition guard_ok :: "gate_state \<Rightarrow> op_guard \<Rightarrow> bool" where
  "guard_ok g o' \<longleftrightarrow> og_owner o' \<noteq> GateIdle \<and> (og_held o' \<longrightarrow> g = og_owner o') \<and>
     (og_sealed o' \<longrightarrow> og_held o' \<and> og_owner o' \<in> {GateFaultRestart, GateConfigRestart})"

definition gate_inv :: "gate_system \<Rightarrow> bool" where
  "gate_inv s \<longleftrightarrow> (\<forall>i o'. gs_guards s i = Some o' \<longrightarrow> guard_ok (gs_gate s) o') \<and>
     (\<forall>i j. holds s i \<longrightarrow> holds s j \<longrightarrow> i = j)"

lemmas guard_defs = fault_guard_new_def health_guard_new_def config_guard_fresh_def identity_guard_new_def
  begin_ota_operation_def gate_try_begin_def gate_try_begin_observed_def compare_exchange_def gate_finish_def

lemmas guard_drop_defs = guard_drop_def fault_guard_drop_def health_guard_drop_def config_guard_drop_def
  identity_guard_drop_def finish_ota_operation_def gate_finish_def compare_exchange_def

text \<open>What a new guard is: it holds the gate only if the gate was idle and is now its own.\<close>

definition fresh_guard :: "(gate_state \<Rightarrow> op_guard \<times> gate_state) \<Rightarrow> bool" where
  "fresh_guard f \<longleftrightarrow> (\<forall>g o' g'. f g = (o', g') \<longrightarrow> og_owner o' \<noteq> GateIdle \<and> \<not> og_sealed o' \<and>
     (if og_held o' then g = GateIdle \<and> g' = og_owner o' else g' = g))"

lemma fresh_guards:
  "fresh_guard fault_guard_new" "fresh_guard health_guard_new" "fresh_guard (\<lambda>g. (config_guard_fresh, g))"
  "fresh_guard (identity_guard_new before expected after entry)" "fresh_guard begin_ota_operation"
  by (auto simp: fresh_guard_def guard_defs Let_def split: if_splits)

lemma guard_drop_cases:
  "guard_drop o' g = (if og_held o' \<and> \<not> (og_sealed o' \<and> og_owner o' \<in> {GateFaultRestart, GateConfigRestart}) \<and>
     g = og_owner o' then GateIdle else g)"
  by (cases "og_owner o'") (auto simp: guard_drop_defs)

lemma holds_put: "holds (gs_put i r s) j \<longleftrightarrow> (if j = i then og_held (fst r) else holds s j)"
  by (simp add: holds_def gs_put_def)

lemma put_fields [simp]: "gs_gate (gs_put i r s) = snd r" "gs_guards (gs_put i r s) = (gs_guards s)(i \<mapsto> fst r)"
  by (simp_all add: gs_put_def)

lemma gate_invD:
  "gate_inv s \<Longrightarrow> gs_guards s i = Some o' \<Longrightarrow> guard_ok (gs_gate s) o'"
  "gate_inv s \<Longrightarrow> holds s i \<Longrightarrow> holds s j \<Longrightarrow> i = j"
  unfolding gate_inv_def by blast+

lemma gate_invI:
  "(\<And>i o'. gs_guards s i = Some o' \<Longrightarrow> guard_ok (gs_gate s) o') \<Longrightarrow>
   (\<And>i j. holds s i \<Longrightarrow> holds s j \<Longrightarrow> i = j) \<Longrightarrow> gate_inv s"
  unfolding gate_inv_def by blast

lemma idle_none_holds: "gate_inv s \<Longrightarrow> gs_gate s = GateIdle \<Longrightarrow> \<not> holds s i"
  using gate_invD(1) [of s i] by (auto simp: holds_def guard_ok_def)

lemma guard_ok_unheld: "guard_ok g o' \<Longrightarrow> \<not> og_held o' \<Longrightarrow> guard_ok g' o'"
  by (simp add: guard_ok_def)

lemma gs_put_inv:
  assumes inv: "gate_inv s" and ok: "guard_ok g' o'"
    and alone: "g' \<noteq> gs_gate s \<or> og_held o' \<Longrightarrow> (\<forall>j. j \<noteq> i \<longrightarrow> \<not> holds s j)"
  shows "gate_inv (gs_put i (o', g') s)"
proof -
  have "guard_ok g' p" if "gs_guards s j = Some p" "j \<noteq> i" for j p
  proof (cases "og_held p")
    case True
    with that have "holds s j" by (simp add: holds_def)
    with alone that have "g' = gs_gate s" by blast
    with gate_invD(1) [OF inv that(1)] show ?thesis by simp
  qed (use gate_invD(1) [OF inv that(1)] guard_ok_unheld in blast)
  moreover have "holds (gs_put i (o', g') s) j \<Longrightarrow> holds (gs_put i (o', g') s) k \<Longrightarrow> j = k" for j k
    using alone gate_invD(2) [OF inv] by (auto simp: holds_put split: if_splits)
  ultimately show ?thesis using ok by (auto simp: gate_inv_def)
qed

lemma gs_new_inv:
  assumes inv: "gate_inv s" and f: "fresh_guard f"
  shows "gate_inv (gs_new i f s)"
proof (cases "gs_guards s i")
  case None
  obtain o' g' where eq: "f (gs_gate s) = (o', g')" by fastforce
  from f eq have o': "og_owner o' \<noteq> GateIdle" "\<not> og_sealed o'"
    "if og_held o' then gs_gate s = GateIdle \<and> g' = og_owner o' else g' = gs_gate s"
    unfolding fresh_guard_def by blast+
  then have ok: "guard_ok g' o'" by (cases "og_held o'") (simp_all add: guard_ok_def)
  have "gs_gate s = GateIdle" if "g' \<noteq> gs_gate s \<or> og_held o'"
    using that o'(3) by (cases "og_held o'") simp_all
  then have "\<forall>j. j \<noteq> i \<longrightarrow> \<not> holds s j" if "g' \<noteq> gs_gate s \<or> og_held o'"
    using that idle_none_holds [OF inv] by simp
  from gs_put_inv [OF inv ok this] None show ?thesis by (simp add: gs_new_def eq)
qed (use inv in \<open>simp add: gs_new_def\<close>)

lemma gs_drop_inv:
  assumes inv: "gate_inv s" and o': "gs_guards s i = Some o'"
  shows "gate_inv (s\<lparr>gs_gate := guard_drop o' (gs_gate s), gs_guards := (gs_guards s)(i := None)\<rparr>)"
    (is "gate_inv ?s")
proof -
  have holds: "holds ?s j \<longleftrightarrow> j \<noteq> i \<and> holds s j" for j by (simp add: holds_def)
  have kept: "guard_ok (guard_drop o' (gs_gate s)) p" if p: "gs_guards s j = Some p" "j \<noteq> i" for j p
  proof (cases "og_held p")
    case True
    with p have "holds s j" by (simp add: holds_def)
    have "\<not> og_held o'"
    proof
      assume "og_held o'"
      with o' have "holds s i" by (simp add: holds_def)
      from gate_invD(2) [OF inv this \<open>holds s j\<close>] p(2) show False by simp
    qed
    with gate_invD(1) [OF inv p(1)] show ?thesis by (simp add: guard_drop_cases)
  next
    case False
    show ?thesis by (rule guard_ok_unheld [OF gate_invD(1) [OF inv p(1)] False])
  qed
  have ok: "guard_ok (gs_gate ?s) p" if "gs_guards ?s j = Some p" for j p
    using that kept [of j p] by (cases "j = i") simp_all
  have one: "j = k" if "holds ?s j" "holds ?s k" for j k
    using that gate_invD(2) [OF inv, of j k] by (simp add: holds)
  show ?thesis by (rule gate_invI [OF ok one])
qed

lemma gs_step_inv:
  assumes inv: "gate_inv s"
  shows "gate_inv (gs_step s e)"
proof -
  have put: "gate_inv (gs_put i (o', g') s)"
    if "gs_guards s i = Some p" "guard_ok g' o'" "og_held p \<or> \<not> og_held o' \<or> gs_gate s = GateIdle"
      "g' = gs_gate s \<or> gs_gate s = GateIdle" for i p o' g'
  proof (rule gs_put_inv [OF inv that(2)])
    assume "g' \<noteq> gs_gate s \<or> og_held o'"
    with that have "gs_gate s = GateIdle \<or> holds s i" by (auto simp: holds_def)
    with idle_none_holds [OF inv] gate_invD(2) [OF inv] show "\<forall>j. j \<noteq> i \<longrightarrow> \<not> holds s j" by blast
  qed
  note ok = gate_invD(1) [OF inv]
  show ?thesis
  proof (cases e)
    case (SealFault i)
    show ?thesis
    proof (cases "gs_guards s i")
      case (Some p)
      have "og_owner p = GateFaultRestart \<Longrightarrow> guard_ok (gs_gate s) (fault_guard_seal p)"
        "og_held (fault_guard_seal p) = og_held p"
        using ok [OF Some] by (auto simp: fault_guard_seal_def guard_ok_def)
      with inv put [OF Some] SealFault Some show ?thesis by (simp add: gs_step_def)
    qed (use inv SealFault in \<open>simp add: gs_step_def\<close>)
  next
    case (BeginConfig i)
    show ?thesis
    proof (cases "gs_guards s i")
      case (Some p)
      obtain b p' g' where eq: "config_guard_try_begin p (gs_gate s) = (b, p', g')" by (metis surj_pair)
      have "og_owner p = GateConfigRestart \<Longrightarrow> guard_ok g' p' \<and> (og_held p \<or> \<not> og_held p' \<or> gs_gate s = GateIdle) \<and>
          (g' = gs_gate s \<or> gs_gate s = GateIdle)"
        using ok [OF Some] eq
        by (auto simp: config_guard_try_begin_def guard_defs guard_ok_def Let_def split: if_splits)
      with inv put [OF Some] BeginConfig Some eq show ?thesis by (simp add: gs_step_def)
    qed (use inv BeginConfig in \<open>simp add: gs_step_def\<close>)
  next
    case (SealConfig i)
    show ?thesis
    proof (cases "gs_guards s i")
      case (Some p)
      have "og_owner p = GateConfigRestart \<Longrightarrow> guard_ok (gs_gate s) (config_guard_seal p (gs_gate s))"
        "og_held (config_guard_seal p (gs_gate s)) = og_held p"
        using ok [OF Some] by (auto simp: config_guard_seal_def config_guard_owns_gate_def guard_ok_def)
      with inv put [OF Some] SealConfig Some show ?thesis by (simp add: gs_step_def)
    qed (use inv SealConfig in \<open>simp add: gs_step_def\<close>)
  qed (use inv fresh_guards gs_new_inv gs_drop_inv in \<open>auto simp: gs_step_def split: option.split\<close>)
qed

interpretation gate: transition_system gs_step gate_inv "\<lambda>e. True"
  by unfold_locales (rule gs_step_inv)

lemma gs_start_inv: "gate_inv gs_start"
  by (simp add: gate_inv_def gs_start_def holds_def)

text \<open>Once a guard is sealed, or gone after its seal, the gate is shut for good.\<close>

definition gate_shut :: "gate_state \<Rightarrow> gate_system \<Rightarrow> bool" where
  "gate_shut g s \<longleftrightarrow> g \<noteq> GateIdle \<and> gs_gate s = g \<and>
     (\<forall>i o'. gs_guards s i = Some o' \<and> og_held o' \<longrightarrow> og_sealed o' \<and> og_owner o' \<in> {GateFaultRestart, GateConfigRestart})"

lemma gate_shutI:
  assumes "gate_inv s" "gs_guards s i = Some o'" "og_sealed o'"
  shows "gate_shut (og_owner o') s"
proof -
  note ok = gate_invD(1) [OF assms(1)]
  have h: "holds s i" using ok [OF assms(2)] assms by (simp add: holds_def guard_ok_def)
  have "p = o'" if "gs_guards s j = Some p" "og_held p" for j p
  proof -
    from that have "holds s j" by (simp add: holds_def)
    from gate_invD(2) [OF assms(1) h this] that assms(2) show ?thesis by simp
  qed
  then show ?thesis using ok [OF assms(2)] assms(3) by (auto simp: gate_shut_def guard_ok_def)
qed

lemma gate_shut_new: "gate_shut g s \<Longrightarrow> fresh_guard f \<Longrightarrow> gate_shut g (gs_new i f s)"
proof -
  assume shut: "gate_shut g s" and f: "fresh_guard f"
  obtain o' g' where eq: "f (gs_gate s) = (o', g')" by fastforce
  from f eq have "if og_held o' then gs_gate s = GateIdle \<and> g' = og_owner o' else g' = gs_gate s"
    unfolding fresh_guard_def by blast
  with shut have "\<not> og_held o' \<and> g' = g" by (auto simp: gate_shut_def split: if_splits)
  with shut show ?thesis by (auto simp: gs_new_def eq gate_shut_def)
qed

lemma gate_shut_step:
  assumes "gate_shut g s"
  shows "gate_shut g (gs_step s e)"
proof (cases e)
  case (DropGuard i)
  then show ?thesis using assms
    by (cases "gs_guards s i") (auto simp: gs_step_def gate_shut_def guard_drop_cases)
next
  case (SealFault i)
  then show ?thesis using assms
    by (cases "gs_guards s i") (auto simp: gs_step_def gate_shut_def fault_guard_seal_def)
next
  case (BeginConfig i)
  show ?thesis
  proof (cases "gs_guards s i")
    case (Some p)
    have "snd (config_guard_try_begin p (gs_gate s)) = (p, gs_gate s)"
      using assms by (auto simp: gate_shut_def config_guard_try_begin_def guard_defs Let_def)
    with Some BeginConfig assms show ?thesis by (auto simp: gs_step_def gate_shut_def)
  qed (use assms BeginConfig in \<open>simp add: gs_step_def\<close>)
next
  case (SealConfig i)
  then show ?thesis using assms
    by (cases "gs_guards s i") (auto simp: gs_step_def gate_shut_def config_guard_seal_def config_guard_owns_gate_def)
qed (simp_all add: gs_step_def gate_shut_new [OF assms] fresh_guards)

lemma gate_shut_run: "gate_shut g s \<Longrightarrow> gate_shut g (foldl gs_step s es)"
  by (induction es arbitrary: s) (simp_all add: gate_shut_step)

subsection \<open>Durations\<close>

lemma u64_max: "unat u64_max = 2 ^ 64 - 1"
  by (simp add: unsigned_minus_1_eq_mask mask_eq_exp_minus_1)

definition ceil_div :: "nat \<Rightarrow> nat \<Rightarrow> nat" where
  "ceil_div a b = (a + b - 1) div b"

lemma ceil_div_mod: "0 < b \<Longrightarrow> a div b + (if a mod b \<noteq> 0 then 1 else 0) = ceil_div a b"
proof -
  assume b: "0 < b"
  have "(q * b + r) div b + (if (q * b + r) mod b \<noteq> 0 then 1 else 0) = (q * b + r + b - 1) div b" if "r < b" for q r
  proof -
    have base: "(q * b + r) div b = q" "(q * b + r) mod b = r" using b that by simp_all
    have "(q * b + r + b - 1) div b = q + (if r \<noteq> 0 then 1 else 0)"
    proof (cases r)
      case 0
      then have e: "q * b + r + b - 1 = (b - 1) + q * b" using b by linarith
      have "(q * b + r + b - 1) div b = q + (b - 1) div b"
        unfolding e by (rule div_mult_self1) (use b in simp)
      then show ?thesis using b 0 by simp
    next
      case (Suc k)
      then have e: "q * b + r + b - 1 = k + (q + 1) * b" by simp
      have "(q * b + r + b - 1) div b = q + 1 + k div b"
        unfolding e by (rule div_mult_self1) (use b in simp)
      then show ?thesis using Suc that by simp
    qed
    with base show ?thesis by (simp only:)
  qed
  from this [of "a mod b" "a div b"] b show ?thesis by (simp add: ceil_div_def)
qed

lemma ceil_div_le: "0 < b \<Longrightarrow> ceil_div a b \<le> a"
proof -
  assume b: "0 < b"
  have "b * (a div b) + a mod b = a" by simp
  moreover have "a div b \<le> b * (a div b)" using b by simp
  ultimately have "a div b + a mod b \<le> a" by linarith
  then show ?thesis unfolding ceil_div_mod [OF b, symmetric] by (cases "a mod b = 0") simp_all
qed

text \<open>The duration without wrap-around: setup, the transfer rounded up, finalization.\<close>

definition ideal_duration :: "time_policy \<Rightarrow> nat \<Rightarrow> nat" where
  "ideal_duration p bytes = unat (setup_ms p) + ceil_div (bytes * 1000) (unat (minimum_bytes_per_second p)) +
     unat (finalize_ms p)"

lemma unat_ucast_32_64 [simp]: "unat (ucast (w :: u32) :: u64) = unat w"
proof -
  have "unat w < 2 ^ LENGTH(32)" by (rule unsigned_less)
  then have "unat w < 2 ^ 64" by simp
  then show ?thesis by (simp add: unsigned_ucast_eq take_bit_nat_eq_self)
qed

lemma word_max_minus: "u64_max - a < b \<longleftrightarrow> 2 ^ 64 \<le> unat a + unat b"
proof -
  have "a \<le> u64_max" by simp
  then have "unat (u64_max - a) = 2 ^ 64 - 1 - unat a" by (subst unat_sub) (simp_all add: u64_max)
  moreover have "unat a < 2 ^ LENGTH(64)" by (rule unsigned_less)
  ultimately show ?thesis unfolding word_less_nat_alt by (simp; arith)
qed

lemma unat_add_small: "unat (a :: u64) + unat b < 2 ^ 64 \<Longrightarrow> unat (a + b) = unat a + unat b"
  by (simp add: unat_word_ariths)

lemma duration_for_exact:
  assumes "minimum_bytes_per_second p \<noteq> 0"
  shows "map_option unat (duration_for p bytes) =
    (if unat bytes \<le> (2 ^ 64 - 1) div 1000 \<and> ideal_duration p (unat bytes) < 2 ^ 64 \<and> ideal_duration p (unat bytes) \<noteq> 0
     then Some (ideal_duration p (unat bytes)) else None)"
proof (cases "u64_max div 1000 < bytes")
  case True
  then show ?thesis by (simp add: duration_for_def word_less_nat_alt unat_div u64_max)
next
  case False
  then have small: "unat bytes \<le> (2 ^ 64 - 1) div 1000" by (simp add: word_less_nat_alt unat_div u64_max)
  then have "unat bytes * 1000 < 2 ^ 64" by simp
  then have scaled: "unat (bytes * 1000) = unat bytes * 1000" by (simp add: unat_word_ariths)
  let ?rate = "ucast (minimum_bytes_per_second p) :: u64"
  let ?transfer = "bytes * 1000 div ?rate + (if bytes * 1000 mod ?rate \<noteq> 0 then 1 else 0)"
  let ?ceil = "ceil_div (unat bytes * 1000) (unat (minimum_bytes_per_second p))"
  have rate: "0 < unat (minimum_bytes_per_second p)" using assms by (simp add: unat_gt_0)
  have "bytes * 1000 mod ?rate = 0 \<longleftrightarrow> (unat bytes * 1000) mod unat (minimum_bytes_per_second p) = 0"
    by (simp add: unat_eq_zero [symmetric] unat_mod scaled)
  moreover have ceil: "?ceil \<le> unat bytes * 1000" by (rule ceil_div_le [OF rate])
  ultimately have transfer: "unat ?transfer = ?ceil"
    using ceil_div_mod [OF rate, of "unat bytes * 1000"] small
    by (auto simp: unat_div scaled unat_add_small split: if_splits)
  define t where "t = ?transfer"
  have t: "unat t = ?ceil" by (simp only: t_def transfer)
  have dur: "duration_for p bytes = (if u64_max - t < setup_ms p then None
      else if u64_max - (setup_ms p + t) < finalize_ms p then None
      else if setup_ms p + t + finalize_ms p \<noteq> 0 then Some (setup_ms p + t + finalize_ms p) else None)"
    by (simp only: duration_for_def Let_def False if_False t_def)
  have d: "ideal_duration p (unat bytes) = unat (setup_ms p) + unat t + unat (finalize_ms p)"
    by (simp add: ideal_duration_def t)
  have first: "unat (setup_ms p + t) = unat (setup_ms p) + unat t" if "\<not> u64_max - t < setup_ms p"
    using that by (simp add: word_max_minus unat_add_small)
  show ?thesis
  proof (cases "u64_max - t < setup_ms p \<or> u64_max - (setup_ms p + t) < finalize_ms p")
    case True
    then have "duration_for p bytes = None" by (auto simp: dur)
    moreover have "2 ^ 64 \<le> ideal_duration p (unat bytes)"
      using True first unfolding d word_max_minus
      by (cases "2 ^ 64 \<le> unat t + unat (setup_ms p)") simp_all
    ultimately show ?thesis by simp
  next
    case ok: False
    with first have f: "unat (setup_ms p + t) = unat (setup_ms p) + unat t" by simp
    from ok have "unat (setup_ms p + t) + unat (finalize_ms p) < 2 ^ 64"
      by (simp add: word_max_minus)
    then have r: "unat (setup_ms p + t + finalize_ms p) = ideal_duration p (unat bytes)"
      and lt: "ideal_duration p (unat bytes) < 2 ^ 64"
      by (simp_all add: unat_add_small f d)
    from ok have "duration_for p bytes = (if setup_ms p + t + finalize_ms p \<noteq> 0
        then Some (setup_ms p + t + finalize_ms p) else None)" by (simp add: dur)
    then show ?thesis using r lt small by (simp add: unat_eq_zero [symmetric])
  qed
qed

subsection \<open>Runs of a budget and of an episode\<close>

datatype budget_call = BeginAgain u64 u64 time_policy | Live u64 | Tighten u64

definition budget_step :: "op_budget \<Rightarrow> budget_call \<Rightarrow> bool \<times> op_budget" where
  "budget_step b c = (case c of
      BeginAgain now n p \<Rightarrow> budget_begin now n p b
    | Live now \<Rightarrow> budget_live now b
    | Tighten n \<Rightarrow> budget_tighten n b)"

definition budget_run :: "op_budget \<Rightarrow> budget_call list \<Rightarrow> op_budget" where
  "budget_run b cs = foldl (\<lambda>b c. snd (budget_step b c)) b cs"

text \<open>What later calls keep of a budget.\<close>

definition budget_extends :: "op_budget \<Rightarrow> op_budget \<Rightarrow> bool" where
  "budget_extends b b' \<longleftrightarrow> bd_initialized b' \<and> bd_deadline b' \<le> bd_deadline b \<and> bd_started b' = bd_started b \<and>
     (bd_valid b' \<longrightarrow> bd_valid b \<and> bd_last b \<le> bd_last b')"

lemma budget_step_extends: "bd_initialized b \<Longrightarrow> budget_extends b (snd (budget_step b c))"
  by (cases c) (auto simp: budget_step_def budget_extends_def budget_begin_def budget_live_def budget_tighten_def
      Let_def split: option.splits)

lemma budget_run_extends: "bd_initialized b \<Longrightarrow> budget_extends b (budget_run b cs)"
proof (induction cs rule: rev_induct)
  case Nil
  then show ?case by (simp add: budget_run_def budget_extends_def)
next
  case (snoc c cs)
  then have e: "budget_extends b (budget_run b cs)" by simp
  then have "budget_extends (budget_run b cs) (snd (budget_step (budget_run b cs) c))"
    by (intro budget_step_extends) (simp add: budget_extends_def)
  with e show ?case by (auto simp: budget_run_def budget_extends_def intro: order.trans)
qed

text \<open>The samples of one critical episode: the time, whether a writer is active, the grace asked for.\<close>

definition episode_run :: "(u64 \<times> bool \<times> u64) list \<Rightarrow> critical_episode" where
  "episode_run xs = foldl (\<lambda>e (now, w, grace). snd (episode_excused now 0 w grace e)) new_episode xs"

fun clock_ok :: "u64 list \<Rightarrow> bool" where
  "clock_ok (a # b # xs) \<longleftrightarrow> a \<le> b \<and> clock_ok (b # xs)"
| "clock_ok _ = True"

lemma clock_ok_snoc: "clock_ok (xs @ [a, b]) \<longleftrightarrow> clock_ok (xs @ [a]) \<and> a \<le> b"
  by (induction xs rule: clock_ok.induct) auto

lemma clock_ok_first: "clock_ok (a # xs) \<Longrightarrow> x \<in> set (a # xs) \<Longrightarrow> a \<le> x"
proof (induction xs arbitrary: a)
  case (Cons b xs)
  then have "a \<le> b" "clock_ok (b # xs)" by auto
  with Cons.IH [of b] Cons.prems(2) show ?case by (auto intro: order.trans)
qed simp

definition graces :: "(u64 \<times> bool \<times> u64) list \<Rightarrow> u64 set" where
  "graces xs = (\<lambda>(now, w, g). g) ` set xs"

lemma graces_snoc [simp]: "graces (xs @ [(now, w, g)]) = insert g (graces xs)"
  by (simp add: graces_def)

definition episode_view :: "(u64 \<times> bool \<times> u64) list \<Rightarrow> critical_episode \<Rightarrow> bool" where
  "episode_view xs e \<longleftrightarrow> ce_active e \<and> ce_since e = fst (hd xs) \<and> ce_last e = fst (last xs) \<and>
     (ce_invalid_clock e \<longleftrightarrow> \<not> clock_ok (map fst xs)) \<and>
     ce_grace e \<in> graces xs \<and> (\<forall>g \<in> graces xs. ce_grace e \<le> g) \<and>
     (clock_ok (map fst xs) \<longrightarrow> (ce_expired e \<longleftrightarrow> ce_grace e \<le> fst (last xs) - fst (hd xs)))"

lemma episode_run_snoc: "episode_run (xs @ [(now, w, g)]) = snd (episode_excused now 0 w g (episode_run xs))"
  by (simp add: episode_run_def)

lemma episode_step_view:
  assumes xs: "xs \<noteq> []" and v: "episode_view xs e"
  shows "episode_view (xs @ [(now, w, g)]) (snd (episode_excused now 0 w g e))"
proof -
  obtain ys t where ys: "map fst xs = ys @ [t]" using xs by (metis append_butlast_last_id map_is_Nil_conv)
  then have t: "t = fst (last xs)" using xs by (metis last_map last_snoc)
  have ok: "clock_ok (map fst (xs @ [(now, w, g)])) \<longleftrightarrow> clock_ok (map fst xs) \<and> ce_last e \<le> now"
    using clock_ok_snoc [of ys t now] v by (simp add: ys t episode_view_def)
  have first: "clock_ok (map fst xs) \<Longrightarrow> fst (hd xs) \<le> ce_last e"
    using clock_ok_first [of "fst (hd xs)" "map fst (tl xs)" "fst (last xs)"] xs v
    by (cases xs) (auto simp: episode_view_def)
  let ?G = "if g < ce_grace e then g else ce_grace e"
  have G: "?G \<in> insert g (graces xs)" "\<forall>h \<in> insert g (graces xs). ?G \<le> h" "?G \<le> ce_grace e"
    using v by (auto simp: episode_view_def not_less)
  have late: "ce_expired e \<Longrightarrow> clock_ok (map fst xs) \<Longrightarrow> ce_last e \<le> now \<Longrightarrow> ?G \<le> now - ce_since e"
  proof -
    assume a: "ce_expired e" "clock_ok (map fst xs)" "ce_last e \<le> now"
    have "ce_since e \<le> ce_last e" using first a v by (simp add: episode_view_def)
    then have "ce_last e - ce_since e \<le> now - ce_since e" by (rule word_le_minus_mono_left [OF a(3)])
    moreover have "ce_grace e \<le> ce_last e - ce_since e" using v a by (simp add: episode_view_def)
    ultimately show ?thesis using G(3) by (meson order.trans)
  qed
  let ?bad = "now < ce_since e \<or> now < ce_last e \<or> ce_invalid_clock e"
  have bad: "?bad \<longleftrightarrow> \<not> (clock_ok (map fst xs) \<and> ce_last e \<le> now)"
    using first v by (auto simp: episode_view_def not_le)
  let ?e = "snd (episode_excused now 0 w g e)"
  have "ce_active e" using v by (simp add: episode_view_def)
  then have e: "ce_active ?e" "ce_since ?e = ce_since e" "ce_last ?e = now" "ce_invalid_clock ?e \<longleftrightarrow> ?bad"
    "ce_grace ?e = ?G" "ce_expired ?e \<longleftrightarrow> ce_expired e \<or> \<not> ?bad \<and> ?G \<le> now - ce_since e"
    by (simp_all add: episode_excused_def Let_def)
  have "ce_since e = fst (hd (xs @ [(now, w, g)]))" using v xs by (simp add: episode_view_def)
  with e bad ok late G show ?thesis by (simp only: episode_view_def graces_snoc) auto
qed

lemma episode_run_view: "xs \<noteq> [] \<Longrightarrow> episode_view xs (episode_run xs)"
proof (induction xs rule: rev_induct)
  case (snoc x xs)
  obtain now w g where x: "x = (now, w, g)" by (metis surj_pair)
  show ?case
  proof (cases "xs = []")
    case True
    then show ?thesis by (simp add: x episode_run_def episode_view_def episode_excused_def new_episode_def graces_def Let_def)
  next
    case False
    with snoc episode_step_view [OF False] show ?thesis by (simp add: x episode_run_snoc)
  qed
qed simp

lemma episode_excused_result:
  "fst (episode_excused now 0 w g e) \<longleftrightarrow> w \<and> \<not> ce_invalid_clock (snd (episode_excused now 0 w g e)) \<and>
     \<not> ce_expired (snd (episode_excused now 0 w g e))"
  by (auto simp: episode_excused_def Let_def)

subsection \<open>Properties\<close>

text \<open>C27: The operation gate excludes: after any interleaving of constructions, begins, seals and destructions
  of the guards of OTA operations, identity changes, fault restarts, health maintenance and configuration
  restarts, at most one guard holds the gate and the gate then names its owner; an identity guard holds
  it only if the image was stable before and after it got in.\<close>

theorem operations_exclude_each_other:
  assumes "s = foldl gs_step gs_start es"
  shows "(holds s i \<and> holds s j \<longrightarrow> i = j) \<and>
    (\<forall>o'. gs_guards s i = Some o' \<and> og_held o' \<longrightarrow> gs_gate s = og_owner o' \<and> og_owner o' \<noteq> GateIdle) \<and>
    (og_held (fst (identity_guard_new before expected after entry g)) \<longrightarrow> before = VerStable \<and> after = VerStable)"
proof -
  have "gate_inv s" unfolding assms by (rule gate.run_inv [OF gs_start_inv]) (simp add: list_all_iff)
  then have "holds s i \<and> holds s j \<longrightarrow> i = j"
    "\<forall>o'. gs_guards s i = Some o' \<and> og_held o' \<longrightarrow> gs_gate s = og_owner o' \<and> og_owner o' \<noteq> GateIdle"
    using gate_invD by (auto simp: guard_ok_def)
  then show ?thesis
    by (auto simp: identity_guard_new_def identity_mutation_may_start_def identity_mutation_allowed_def Let_def
        split: if_splits prod.splits)
qed

theorem operations_exclude_each_other_witness:
  "\<not> (let s = foldl gs_step gs_start [NewFault 0, NewHealth 1, NewOta 2] in holds s 0 \<and> holds s 1)"
  using operations_exclude_each_other [OF refl, of "[NewFault 0, NewHealth 1, NewOta 2]" 0 1 VerStable GateIdle VerStable InitialKey GateIdle]
  by (auto simp: Let_def)

text \<open>A sealed guard shuts the gate for good: from then on, whatever guards are constructed, begun or
  destroyed, the sealed one included, the gate keeps its owner and no other guard ever gets it, so nothing
  starts between the last durable effect and the restart.\<close>

theorem sealed_gate_stays_shut:
  assumes "s = foldl gs_step gs_start es" "gs_guards s i = Some o'" "og_sealed o'"
  shows "gs_gate (foldl gs_step s es') = og_owner o' \<and>
    (\<forall>j p. gs_guards (foldl gs_step s es') j = Some p \<and> og_held p \<longrightarrow> og_sealed p)"
proof -
  have "gate_inv s" unfolding assms(1) by (rule gate.run_inv [OF gs_start_inv]) (simp add: list_all_iff)
  from gate_shut_run [OF gate_shutI [OF this assms(2,3)], of es'] show ?thesis
    unfolding gate_shut_def by blast
qed

theorem sealed_gate_stays_shut_witness:
  "gs_gate (foldl gs_step gs_start [NewFault 0, SealFault 0, DropGuard 0, NewOta 1]) = GateFaultRestart"
proof -
  let ?s = "foldl gs_step gs_start [NewFault 0, SealFault 0]"
  let ?o = "\<lparr>og_owner = GateFaultRestart, og_held = True, og_sealed = True\<rparr>"
  have "gs_guards ?s 0 = Some ?o" by code_simp
  from sealed_gate_stays_shut [OF refl this, of "[DropGuard 0, NewOta 1]"] show ?thesis by simp
qed

text \<open>The duration of a transfer is computed without wrap-around: the 64-bit result is setup plus the bytes
  at the minimum rate, rounded up to a millisecond, plus finalization, exactly when that number is positive
  and fits; otherwise the operation is refused.\<close>

theorem duration_exact_or_refused:
  assumes "minimum_bytes_per_second p \<noteq> 0"
  shows "map_option unat (duration_for p bytes) =
    (if unat bytes \<le> (2 ^ 64 - 1) div 1000 \<and> ideal_duration p (unat bytes) < 2 ^ 64 \<and> ideal_duration p (unat bytes) \<noteq> 0
     then Some (ideal_duration p (unat bytes)) else None)"
  by (rule duration_for_exact [OF assms])

theorem duration_exact_or_refused_witness:
  "map_option unat (duration_for kOperationTimePolicy 1638400) = Some 125000"
proof -
  have "minimum_bytes_per_second kOperationTimePolicy \<noteq> 0" by (simp add: kOperationTimePolicy_def)
  from duration_exact_or_refused [OF this, of 1638400] show ?thesis
    by (simp add: ideal_duration_def ceil_div_def kOperationTimePolicy_def)
qed

text \<open>An operation's time budget cannot be renewed: after it began, no further begin is accepted, the
  deadline never moves later, a check at or after the deadline fails, and once a check has failed every
  later one fails too.\<close>

theorem budget_never_renewed:
  assumes begun: "budget_begin now n p new_budget = (True, b)"
  shows "bd_deadline (budget_run b cs) \<le> bd_deadline b \<and>
    \<not> fst (budget_begin now' n' p' (budget_run b cs)) \<and>
    (bd_deadline b \<le> t \<longrightarrow> \<not> fst (budget_live t (budget_run b cs))) \<and>
    (\<not> fst (budget_live t (budget_run b cs)) \<longrightarrow>
       \<not> fst (budget_live t' (budget_run (snd (budget_live t (budget_run b cs))) cs')))"
proof -
  have init: "bd_initialized b"
    using begun by (auto simp: budget_begin_def new_budget_def Let_def split: if_splits option.splits)
  note ext = budget_run_extends [OF init, of cs]
  have dead: "\<not> fst (budget_live t' (budget_run (snd (budget_live t (budget_run b cs))) cs'))"
    if "\<not> fst (budget_live t (budget_run b cs))"
  proof -
    let ?d = "snd (budget_live t (budget_run b cs))"
    have "\<not> bd_valid ?d" "bd_initialized ?d"
      using that ext by (auto simp: budget_live_def budget_extends_def split: if_splits)
    with budget_run_extends [of ?d cs'] show ?thesis by (auto simp: budget_live_def budget_extends_def)
  qed
  from ext have "bd_deadline (budget_run b cs) \<le> bd_deadline b" "bd_initialized (budget_run b cs)"
    by (auto simp: budget_extends_def)
  then show ?thesis using dead by (auto simp: budget_begin_def budget_live_def)
qed

theorem budget_never_renewed_witness:
  "\<not> fst (budget_live 25100 (budget_run (snd (budget_begin 0 1638 kOperationTimePolicy new_budget))
     [Live 25000, BeginAgain 25050 1638 kOperationTimePolicy]))"
proof -
  obtain b where b: "budget_begin 0 1638 kOperationTimePolicy new_budget = (True, b)" and d: "bd_deadline b = 25100"
    by (simp add: budget_begin_def new_budget_def kOperationTimePolicy_def duration_for_def Let_def)
  from budget_never_renewed [OF b, of "[Live 25000, BeginAgain 25050 1638 kOperationTimePolicy]" 0 0 kOperationTimePolicy 25100]
  show ?thesis by (simp add: b d)
qed

text \<open>While internal memory stays critical, a writer is excused exactly as long as the clock never went back
  and the time since the first critical sample is below every grace that was asked for since then: asking
  again, with a larger grace or by another writer, never extends it.\<close>

theorem writer_grace_exact:
  "fst (episode_excused now 0 w g (episode_run xs)) \<longleftrightarrow>
     w \<and> clock_ok (map fst xs @ [now]) \<and>
     (\<forall>g' \<in> insert g (graces xs). now - fst (hd (xs @ [(now, w, g)])) < g')"
proof -
  let ?xs = "xs @ [(now, w, g)]"
  have v: "episode_view ?xs (snd (episode_excused now 0 w g (episode_run xs)))"
    using episode_run_view [of ?xs] by (simp add: episode_run_snoc)
  let ?e = "snd (episode_excused now 0 w g (episode_run xs))"
  have "now - fst (hd ?xs) < ce_grace ?e \<longleftrightarrow> (\<forall>g' \<in> insert g (graces xs). now - fst (hd ?xs) < g')"
    using v by (auto simp: episode_view_def intro: less_le_trans)
  with v show ?thesis unfolding episode_excused_result by (auto simp: episode_view_def not_le)
qed

theorem writer_grace_exact_witness:
  "fst (episode_excused 120 0 True 1000 (episode_run [(100, True, 50)])) \<and>
   \<not> fst (episode_excused 150 0 True 1000 (episode_run [(100, True, 50)]))"
  using writer_grace_exact [of 120 True 1000 "[(100, True, 50)]"] writer_grace_exact [of 150 True 1000 "[(100, True, 50)]"]
  by (simp add: graces_def)

end
