(* ===== verification/SafeMode.thy ===== *)
theory SafeMode
  imports Recovery OtaPolicy
begin

text \<open>
  main/safe_mode.cpp, reboot_reason.hpp and heap_supervisor.cpp: the durable ledger of unhealthy restarts
  behind safe mode, the breadcrumb a deliberate restart leaves for the next boot, and the supervisor that
  decides on such a restart. Records go through the adapter of \<open>NvsStorage\<close>; the volatile word
  \<open>s_recovery\<close> is passed along. The adapter's calls do not throw and the counter's text fits a small
  string, so the catch branches of the source, which answer like a failed call, are not reached. The
  supervisor's readings (clock, heap, radio, the operation gate) are inputs of its step. Logging is left out.
\<close>

subsection \<open>Texts as stored bytes\<close>

definition text_bytes :: "string \<Rightarrow> bytes" where
  "text_bytes s = map (\<lambda>c. of_nat (code_of c)) s"

definition bytes_text :: "bytes \<Rightarrow> string" where
  "bytes_text bs = map (\<lambda>b. char_of (unat b)) (takeWhile (\<lambda>b. b \<noteq> 0) bs)"

subsection \<open>The ledger\<close>

definition kCountMask :: u16 where "kCountMask = 0x7f"
definition kLatched :: u16 where "kLatched = 0x80"
definition kTrusted :: u16 where "kTrusted = 0x100"
definition kClearPending :: u16 where "kClearPending = 0x200"

lemmas ledger_bits = kCountMask_def kLatched_def kTrusted_def kClearPending_def

definition load_count :: "'n nvs_api \<Rightarrow> bool \<Rightarrow> 'n nvs_store \<Rightarrow> nat option \<times> 'n nvs_store" where
  "load_count api require_present s =
     (case nvs_load_str_state api (Some kBootFailures) False s of ((state, raw), s') \<Rightarrow>
        if state = LoadMissing \<and> \<not> require_present then (Some 0, s')
        else if state \<noteq> LoadPresent then (None, s')
        else (boot_fail_parse (Some (bytes_text raw)), s'))"

definition store_count :: "'n nvs_api \<Rightarrow> nat \<Rightarrow> 'n nvs_store \<Rightarrow> bool \<times> 'n nvs_store" where
  "store_count api count s = nvs_save_str api (Some kBootFailures) (text_bytes (to_decimal count)) s"

text \<open>The answer (whether the device is in safe mode), the volatile word, the store.\<close>

definition safe_mode_begin ::
    "'n nvs_api \<Rightarrow> boot_counter_cause \<Rightarrow> reboot_reason_state \<Rightarrow> nat \<Rightarrow> 'n nvs_store \<Rightarrow> bool \<times> u16 \<times> 'n nvs_store" where
  "safe_mode_begin api cause reason legacy_heap_streak s =
     (case load_count api False s of (None, s1) \<Rightarrow> (True, kLatched, s1)
      | (Some previous, s1) \<Rightarrow>
          let nxt = boot_shared_count previous cause reason legacy_heap_streak in
          case store_count api nxt s1 of (stored, s2) \<Rightarrow>
          if \<not> stored then (True, kLatched, s2)
          else let latched = boot_safe_mode nxt; trusted = boot_healthy_clear_allowed cause reason in
               (latched, of_nat nxt OR (if latched then kLatched else 0) OR (if trusted then kTrusted else 0) OR
                  (if \<not> latched \<and> nxt \<noteq> 0 \<and> trusted then kClearPending else 0), s2))"

definition safe_mode_active :: "u16 \<Rightarrow> bool" where
  "safe_mode_active r \<longleftrightarrow> r AND kLatched \<noteq> 0"

definition safe_mode_healthy_clear_pending :: "u16 \<Rightarrow> bool" where
  "safe_mode_healthy_clear_pending r \<longleftrightarrow>
     r AND (kLatched OR kTrusted OR kClearPending) = kTrusted OR kClearPending"

definition safe_mode_clear_after_healthy_run ::
    "'n nvs_api \<Rightarrow> bool \<Rightarrow> bool \<Rightarrow> u16 \<Rightarrow> 'n nvs_store \<Rightarrow> bool \<times> u16 \<times> 'n nvs_store" where
  "safe_mode_clear_after_healthy_run api owner qualified_now r s =
     (if \<not> owner \<or> \<not> qualified_now \<or> \<not> safe_mode_healthy_clear_pending r then (False, r, s)
      else case load_count api True s of (None, s1) \<Rightarrow> (False, r, s1)
      | (Some _, s1) \<Rightarrow> (case store_count api 0 s1 of (stored, s2) \<Rightarrow>
          if \<not> stored then (False, r, s2) else (True, kTrusted, s2)))"

text \<open>The reservation's count; zero is no authority.\<close>

definition safe_mode_prepare_heap_restart ::
    "'n nvs_api \<Rightarrow> bool \<Rightarrow> ota_verification_state \<Rightarrow> u16 \<Rightarrow> 'n nvs_store \<Rightarrow> nat \<times> u16 \<times> 'n nvs_store" where
  "safe_mode_prepare_heap_restart api held verification r s =
     (if \<not> held then (0, r, s)
      else if r AND kTrusted = 0 \<or> verification \<noteq> VerStable then (0, r, s)
      else case load_count api True s of (None, s1) \<Rightarrow> (0, r, s1)
      | (Some seen, s1) \<Rightarrow>
          (case boot_heap_reservation_next seen (unat (r AND kCountMask)) 0 of (granted, nxt) \<Rightarrow>
           if \<not> granted then (0, r, s1)
           else case store_count api nxt s1 of (stored, s2) \<Rightarrow>
             if \<not> stored then (0, r, s2)
             else (nxt, of_nat nxt OR (r AND (kLatched OR kTrusted)) OR
                     (if r AND kLatched = 0 then kClearPending else 0), s2)))"

subsection \<open>The breadcrumb\<close>

record reboot_reason_record =
  rr_state :: reboot_reason_state
  rr_heap_restarts :: u8
  rr_text :: string

definition make_reboot_reason_record :: "reboot_reason_state \<Rightarrow> string option \<Rightarrow> u8 \<Rightarrow> reboot_reason_record" where
  "make_reboot_reason_record state text_ptr heap_restarts =
     \<lparr>rr_state = state, rr_heap_restarts = heap_restarts,
      rr_text = (case text_ptr of None \<Rightarrow> [] | Some t \<Rightarrow> take 23 t)\<rparr>"

definition persist_reboot_reason :: "'n nvs_api \<Rightarrow> string option \<Rightarrow> 'n nvs_store option \<Rightarrow> bool \<times> 'n nvs_store option" where
  "persist_reboot_reason api why cfg =
     (case (cfg, why) of (Some s, Some w) \<Rightarrow>
        (case nvs_save_str api (Some kRebootReason) (text_bytes w) s of (ok, s') \<Rightarrow> (ok, Some s'))
      | _ \<Rightarrow> (False, cfg))"

definition heap_cap :: u8 where "heap_cap = of_nat kHeapMaxConsecutiveRestarts"

definition take_reboot_reason :: "'n nvs_api \<Rightarrow> 'n nvs_store \<Rightarrow> reboot_reason_record \<times> 'n nvs_store" where
  "take_reboot_reason api s =
     (case nvs_load_str_state api (Some kRebootReason) False s of ((loaded, why), s1) \<Rightarrow>
        if loaded = LoadMissing then (make_reboot_reason_record ReasonMissing None 0, s1)
        else if loaded = LoadError
        then (make_reboot_reason_record ReasonError (Some ''heap:nvs-read-error'') heap_cap, s1)
        else let heap_restarts = heap_reason_parse (Some (bytes_text why));
                 canonical = heap_reason_format heap_restarts;
                 valid = (1 \<le> heap_restarts \<and> heap_restarts \<le> heap_cap \<and> why = text_bytes canonical) in
        case nvs_remove api kRebootReason s1 of (removed, s2) \<Rightarrow>
          if \<not> removed then (make_reboot_reason_record ReasonError (Some ''heap:nvs-clear-error'') heap_cap, s2)
          else if \<not> valid then (make_reboot_reason_record ReasonError (Some ''heap:nvs-invalid'') heap_cap, s2)
          else (make_reboot_reason_record ReasonPresent (Some canonical) heap_restarts, s2))"

subsection \<open>The volatile word\<close>

lemma ledger_exps: "kLatched = 2 ^ 7" "kTrusted = 2 ^ 8" "kClearPending = 2 ^ 9"
  by (simp_all add: ledger_bits)

lemma flag_bits [simp]: "bit kLatched n \<longleftrightarrow> n = 7" "bit kTrusted n \<longleftrightarrow> n = 8" "bit kClearPending n \<longleftrightarrow> n = 9"
  by (simp_all only: ledger_exps bit_exp_iff) auto

lemma flag_bit: "r AND kLatched = 0 \<longleftrightarrow> \<not> bit r 7" "r AND kTrusted = 0 \<longleftrightarrow> \<not> bit r 8"
  unfolding ledger_exps by (simp_all only: and_exp_eq_0_iff_not_bit)

lemma pending_bit: "r AND (kLatched OR kTrusted OR kClearPending) = kTrusted OR kClearPending \<longleftrightarrow>
   \<not> bit r 7 \<and> bit r 8 \<and> bit r 9"
proof
  assume eq: "r AND (kLatched OR kTrusted OR kClearPending) = kTrusted OR kClearPending"
  have "bit (r AND (kLatched OR kTrusted OR kClearPending)) n \<longleftrightarrow> bit (kTrusted OR kClearPending) n" for n
    by (simp only: eq)
  from this [of 7] this [of 8] this [of 9] show "\<not> bit r 7 \<and> bit r 8 \<and> bit r 9"
    by (simp add: bit_and_iff bit_or_iff)
next
  assume b: "\<not> bit r 7 \<and> bit r 8 \<and> bit r 9"
  show "r AND (kLatched OR kTrusted OR kClearPending) = kTrusted OR kClearPending"
    by (rule bit_word_eqI) (use b in \<open>auto simp: bit_and_iff bit_or_iff\<close>)
qed

definition ledger_word :: "nat \<Rightarrow> bool \<Rightarrow> bool \<Rightarrow> bool \<Rightarrow> u16" where
  "ledger_word n l t p = of_nat n OR (if l then kLatched else 0) OR (if t then kTrusted else 0) OR
     (if p then kClearPending else 0)"

lemma small_bit: "n < 2 ^ 7 \<Longrightarrow> 7 \<le> k \<Longrightarrow> \<not> bit (of_nat n :: u16) k"
proof -
  assume n: "n < 2 ^ 7" "7 \<le> k"
  then have "n < 2 ^ k" by (meson less_le_trans one_le_numeral power_increasing)
  then have "\<not> bit n k" by (simp add: bit_iff_odd)
  then show ?thesis by (simp add: bit_of_nat_iff)
qed

lemma ledger_word_flags:
  assumes "n < 2 ^ 7"
  shows "bit (ledger_word n l t p) 7 \<longleftrightarrow> l" "bit (ledger_word n l t p) 8 \<longleftrightarrow> t" "bit (ledger_word n l t p) 9 \<longleftrightarrow> p"
  using small_bit [OF assms] by (auto simp: ledger_word_def bit_or_iff)

lemma ledger_word_count:
  assumes "n < 2 ^ 7"
  shows "unat (ledger_word n l t p AND kCountMask) = n"
proof -
  have m: "kCountMask = mask 7" by (simp add: kCountMask_def mask_eq_exp_minus_1)
  have low: "bit (of_nat n :: u16) k \<Longrightarrow> k < 7" for k using small_bit [OF assms] by (meson not_le)
  have "take_bit 7 (ledger_word n l t p) = of_nat n"
    by (intro bit_word_eqI) (auto simp: ledger_word_def bit_take_bit_iff bit_or_iff dest: low)
  then show ?thesis using assms by (simp add: m take_bit_eq_mask [symmetric] take_bit_nat_eq_self unat_of_nat)
qed

subsection \<open>The durable count\<close>

lemma text_bytes_text: "0 \<notin> set raw \<Longrightarrow> text_bytes (bytes_text raw) = raw"
proof -
  assume "0 \<notin> set raw"
  then have "takeWhile (\<lambda>b. b \<noteq> 0) raw = raw" by (auto simp: takeWhile_eq_all_conv)
  moreover have "map (\<lambda>b. of_nat (code_of (char_of (unat b)))) raw = raw" for raw :: bytes
    using unat_byte_less by (induction raw) simp_all
  ultimately show ?thesis by (simp add: text_bytes_def bytes_text_def comp_def)
qed

lemma digit_byte: "is_digit_char c \<Longrightarrow> (of_nat (code_of c) :: u8) \<noteq> 0 \<and> char_of (unat (of_nat (code_of c) :: u8)) = c"
proof -
  assume c: "is_digit_char c"
  then have v: "unat (of_nat (code_of c) :: u8) = code_of c" by (simp add: is_digit_char_def unat_of_nat)
  then have "(of_nat (code_of c) :: u8) \<noteq> 0" using c by (metis is_digit_char_def not_numeral_le_zero unat_0)
  with v show ?thesis by simp
qed

lemma bytes_text_digits: "list_all is_digit_char t \<Longrightarrow> 0 \<notin> set (text_bytes t) \<and> bytes_text (text_bytes t) = t"
  by (induction t) (auto simp: text_bytes_def bytes_text_def digit_byte)

definition count_record :: "nat \<Rightarrow> bytes" where
  "count_record n = c_str (text_bytes (to_decimal n))"

definition ledger_is :: "('n \<Rightarrow> string \<Rightarrow> bytes option) \<Rightarrow> 'n nvs_store \<Rightarrow> nat \<Rightarrow> bool" where
  "ledger_is rec s n \<longleftrightarrow> (case record_of rec s kBootFailures of None \<Rightarrow> n = 0
     | Some v \<Rightarrow> n \<le> kBootFailMax \<and> v = count_record n)"

lemma load_count_ok:
  assumes drv: "nvs_driver_ok api rec" and eq: "load_count api require_present s = (r, s')"
  shows "same_adapter s s' \<and> record_of rec s' = record_of rec s \<and>
    (\<forall>n. r = Some n \<longrightarrow> ledger_is rec s n \<and> (require_present \<longrightarrow> record_of rec s kBootFailures \<noteq> None))"
proof -
  obtain state raw s1 where l: "nvs_load_str_state api (Some kBootFailures) False s = ((state, raw), s1)" by (metis surj_pair)
  note ok = nvs_load_str_state_ok [OF drv l]
  have s1: "s' = s1" using eq l by (auto simp: load_count_def split: if_splits)
  have "ledger_is rec s n \<and> (require_present \<longrightarrow> record_of rec s kBootFailures \<noteq> None)" if "r = Some n" for n
  proof (cases state)
    case LoadPresent
    then have "boot_fail_parse (Some (bytes_text raw)) = Some n" using eq l that by (simp add: load_count_def)
    then have n: "n \<le> kBootFailMax" "bytes_text raw = to_decimal n" unfolding boot_fail_parse_eq by auto
    from ok LoadPresent have "record_of rec s kBootFailures = Some (c_str raw)" "0 \<notin> set raw" by auto
    with n text_bytes_text [of raw] show ?thesis by (simp add: ledger_is_def count_record_def)
  qed (use eq l ok that in \<open>auto simp: load_count_def ledger_is_def split: if_splits\<close>)
  with ok s1 show ?thesis by simp
qed

text \<open>Documented of the flash driver: a failed write leaves the old record or the new one.\<close>

definition nvs_set_atomic :: "'n nvs_api \<Rightarrow> ('n \<Rightarrow> string \<Rightarrow> bytes option) \<Rightarrow> bool" where
  "nvs_set_atomic api rec \<longleftrightarrow> (\<forall>k v d err d'. nvs_set_str api k v d = (err, d') \<longrightarrow>
     rec d' k = rec d k \<or> rec d' k = Some v)"

lemma save_str_atomic:
  assumes drv: "nvs_driver_ok api rec" and at: "nvs_set_atomic api rec"
    and eq: "nvs_save_str api (Some key) v s = (ok, s')"
  shows "record_of rec s' key = record_of rec s key \<or> record_of rec s' key = Some (c_str v)"
proof (cases "nvs_initialized s \<and> map_key s key String False \<noteq> None")
  case True
  then obtain e where init: "nvs_initialized s" and m: "map_key s key String False = Some (en_stored_key e)"
    and e: "nvs_find (ns_kind s) key = Some e" using map_key_Some by blast
  obtain err d1 where er: "nvs_set_str api (en_stored_key e) (c_str v) (nvs_dev s) = (err, d1)" by fastforce
  obtain err2 d2 where co: "nvs_commit api d1 = (err2, d2)" by fastforce
  have "rec d1 (en_stored_key e) = rec (nvs_dev s) (en_stored_key e) \<or> rec d1 (en_stored_key e) = Some (c_str v)"
    using at er unfolding nvs_set_atomic_def by blast
  moreover have "rec d2 = rec d1" by (rule driver_commit [OF drv co])
  ultimately show ?thesis using eq init m er co e
    by (auto simp: nvs_save_str_def key_or_empty_def record_of_def split: if_splits)
next
  case False
  then show ?thesis using eq by (auto simp: nvs_save_str_def key_or_empty_def split: if_splits)
qed

lemma store_count_ok:
  assumes drv: "nvs_driver_ok api rec" and eq: "store_count api n s = (ok, s')"
  shows "ok \<Longrightarrow> record_of rec s' kBootFailures = Some (count_record n)"
    and "k \<noteq> kBootFailures \<Longrightarrow> record_of rec s' k = record_of rec s k"
    and "nvs_set_atomic api rec \<Longrightarrow> record_of rec s' kBootFailures = record_of rec s kBootFailures \<or>
      record_of rec s' kBootFailures = Some (count_record n)"
  using nvs_save_str_ok [OF drv eq [unfolded store_count_def]] save_str_atomic [OF drv _ eq [unfolded store_count_def]]
  by (auto simp: count_record_def)

lemma count_record_inj: "n \<le> kBootFailMax \<Longrightarrow> m \<le> kBootFailMax \<Longrightarrow> count_record n = count_record m \<Longrightarrow> n = m"
proof -
  assume n: "n \<le> kBootFailMax" "m \<le> kBootFailMax" and eq: "count_record n = count_record m"
  note no = bytes_text_digits [OF to_decimal_digits]
  have "takeWhile (\<lambda>c. c \<noteq> 0) (text_bytes (to_decimal j)) = text_bytes (to_decimal j)" for j
    using no [of j] by (auto simp: takeWhile_eq_all_conv)
  with eq have "text_bytes (to_decimal n) = text_bytes (to_decimal m)" by (simp add: count_record_def c_str_def)
  with no [of n] no [of m] have "to_decimal n = to_decimal m" by metis
  with n boot_fail_parse_decimal show ?thesis by (metis option.inject)
qed

lemma ledger_is_unique: "ledger_is rec s n \<Longrightarrow> ledger_is rec s m \<Longrightarrow> n = m"
  by (auto simp: ledger_is_def count_record_inj split: option.splits)

lemma ledger_is_same: "record_of rec s' = record_of rec s \<Longrightarrow> ledger_is rec s' n = ledger_is rec s n"
  by (simp add: ledger_is_def)

lemma boot_shared_count_le: "boot_shared_count stored cause reason legacy \<le> kBootFailMax"
  by (auto simp: boot_shared_count_def kBootFailMax_def kHeapMaxConsecutiveRestarts_def Let_def)

lemma boot_shared_count_grows:
  "cause \<noteq> CauseClean \<Longrightarrow> stored \<le> kBootFailMax \<Longrightarrow> stored \<le> boot_shared_count stored cause reason legacy"
  by (auto simp: boot_shared_count_def Let_def)

text \<open>What the next boot's ledger can be after a boot: the old count, or the new one.\<close>

lemma safe_mode_begin_ledger:
  assumes drv: "nvs_driver_ok api rec" and eq: "safe_mode_begin api cause reason legacy s = (latched, r, s')"
  shows "\<not> latched \<Longrightarrow> \<exists>previous. ledger_is rec s previous \<and>
      ledger_is rec s' (boot_shared_count previous cause reason legacy) \<and>
      unat (r AND kCountMask) = boot_shared_count previous cause reason legacy \<and> \<not> safe_mode_active r \<and>
      boot_shared_count previous cause reason legacy < kBootFailThreshold"
    and "nvs_set_atomic api rec \<Longrightarrow> cause \<noteq> CauseClean \<Longrightarrow> ledger_is rec s' m \<Longrightarrow> \<exists>n \<le> m. ledger_is rec s n"
    and "k \<noteq> kBootFailures \<Longrightarrow> record_of rec s' k = record_of rec s k"
proof -
  obtain c s1 where l: "load_count api False s = (c, s1)" by fastforce
  note lo = load_count_ok [OF drv l]
  consider (unread) "c = None" "s' = s1" "latched"
    | (read) previous ok s2 where "c = Some previous"
      "store_count api (boot_shared_count previous cause reason legacy) s1 = (ok, s2)" "s' = s2"
      "\<not> ok \<Longrightarrow> latched"
    using eq l by (auto simp: safe_mode_begin_def Let_def split: option.splits prod.splits if_splits)
  then have "(\<not> latched \<longrightarrow> (\<exists>previous. ledger_is rec s previous \<and>
      ledger_is rec s' (boot_shared_count previous cause reason legacy) \<and>
      unat (r AND kCountMask) = boot_shared_count previous cause reason legacy \<and> \<not> safe_mode_active r \<and>
      boot_shared_count previous cause reason legacy < kBootFailThreshold)) \<and>
    (nvs_set_atomic api rec \<longrightarrow> cause \<noteq> CauseClean \<longrightarrow> ledger_is rec s' m \<longrightarrow> (\<exists>n \<le> m. ledger_is rec s n)) \<and>
    (k \<noteq> kBootFailures \<longrightarrow> record_of rec s' k = record_of rec s k)"
  proof cases
    case unread
    then show ?thesis using lo ledger_is_same [of rec s' s m] by auto
  next
    case read
    let ?n = "boot_shared_count previous cause reason legacy"
    note st = store_count_ok [OF drv read(2)]
    from lo read(1) have prev: "ledger_is rec s previous" by simp
    then have p100: "previous \<le> kBootFailMax" by (auto simp: ledger_is_def split: option.splits)
    have n: "?n \<le> kBootFailMax" by (rule boot_shared_count_le)
    then have n7: "?n < 2 ^ 7" by (simp add: kBootFailMax_def)
    have "unat (r AND kCountMask) = ?n \<and> \<not> safe_mode_active r \<and> ?n < kBootFailThreshold \<and> ok" if "\<not> latched"
    proof -
      from that read(4) have ok by blast
      with that eq l read have "\<not> boot_safe_mode ?n" and
        r: "r = ledger_word ?n False (boot_healthy_clear_allowed cause reason)
          (?n \<noteq> 0 \<and> boot_healthy_clear_allowed cause reason)"
        by (auto simp: safe_mode_begin_def ledger_word_def Let_def)
      with \<open>ok\<close> show ?thesis using ledger_word_flags [OF n7] ledger_word_count [OF n7]
        by (simp add: safe_mode_active_def flag_bit boot_safe_mode_def not_le)
    qed
    moreover have "ok \<Longrightarrow> ledger_is rec s' ?n" using st(1) n read(3) by (simp add: ledger_is_def)
    moreover have "\<exists>n \<le> m. ledger_is rec s n" if "nvs_set_atomic api rec" "cause \<noteq> CauseClean" "ledger_is rec s' m"
    proof -
      from st(3) [OF that(1)] consider "record_of rec s' kBootFailures = record_of rec s kBootFailures"
        | "record_of rec s' kBootFailures = Some (count_record ?n)" using read(3) lo by auto
      then show ?thesis
      proof cases
        case 1
        with that(3) show ?thesis by (auto simp: ledger_is_def)
      next
        case 2
        with that(3) n have "m = ?n" by (simp add: ledger_is_def count_record_inj)
        with prev boot_shared_count_grows [OF that(2) p100] show ?thesis by blast
      qed
    qed
    ultimately show ?thesis using prev st(2) read(3) lo by auto
  qed
  then show "\<not> latched \<Longrightarrow> \<exists>previous. ledger_is rec s previous \<and>
      ledger_is rec s' (boot_shared_count previous cause reason legacy) \<and>
      unat (r AND kCountMask) = boot_shared_count previous cause reason legacy \<and> \<not> safe_mode_active r \<and>
      boot_shared_count previous cause reason legacy < kBootFailThreshold"
    and "nvs_set_atomic api rec \<Longrightarrow> cause \<noteq> CauseClean \<Longrightarrow> ledger_is rec s' m \<Longrightarrow> \<exists>n \<le> m. ledger_is rec s n"
    and "k \<noteq> kBootFailures \<Longrightarrow> record_of rec s' k = record_of rec s k"
    by blast+
qed

lemma prepare_cases:
  assumes drv: "nvs_driver_ok api rec" and eq: "safe_mode_prepare_heap_restart api held ver r s = (n, r', s')"
  shows "k \<noteq> kBootFailures \<Longrightarrow> record_of rec s' k = record_of rec s k"
    and "n \<noteq> 0 \<Longrightarrow> held \<and> ver = VerStable \<and> r AND kTrusted \<noteq> 0 \<and> n \<le> kUnhealthyRestartLimit \<and>
      unat (r AND kCountMask) < n \<and> (\<exists>m < n. ledger_is rec s m \<and> record_of rec s kBootFailures \<noteq> None) \<and>
      ledger_is rec s' n \<and> unat (r' AND kCountMask) = n"
    and "n = 0 \<Longrightarrow> r' = r"
    and "nvs_set_atomic api rec \<Longrightarrow> ledger_is rec s' m \<Longrightarrow> \<exists>j \<le> m. ledger_is rec s j"
proof -
  obtain c s1 where l: "load_count api True s = (c, s1)" by fastforce
  note lo = load_count_ok [OF drv l]
  consider (refused) "n = 0" "r' = r" "s' = s \<or> s' = s1"
    | (tried) seen nxt ok s2 where "held" "ver = VerStable" "r AND kTrusted \<noteq> 0" "c = Some seen"
      "boot_heap_reservation_next seen (unat (r AND kCountMask)) 0 = (True, nxt)"
      "store_count api nxt s1 = (ok, s2)" "s' = s2" "n = (if ok then nxt else 0)"
      "r' = (if ok then of_nat nxt OR (r AND (kLatched OR kTrusted)) OR
         (if r AND kLatched = 0 then kClearPending else 0) else r)"
    using eq l by (auto simp: safe_mode_prepare_heap_restart_def split: option.splits prod.splits if_splits)
  then have "(k \<noteq> kBootFailures \<longrightarrow> record_of rec s' k = record_of rec s k) \<and>
    (n \<noteq> 0 \<longrightarrow> held \<and> ver = VerStable \<and> r AND kTrusted \<noteq> 0 \<and> n \<le> kUnhealthyRestartLimit \<and>
      unat (r AND kCountMask) < n \<and> (\<exists>m < n. ledger_is rec s m \<and> record_of rec s kBootFailures \<noteq> None) \<and>
      ledger_is rec s' n \<and> unat (r' AND kCountMask) = n) \<and> (n = 0 \<longrightarrow> r' = r) \<and>
    (nvs_set_atomic api rec \<longrightarrow> ledger_is rec s' m \<longrightarrow> (\<exists>j \<le> m. ledger_is rec s j))"
  proof cases
    case refused
    then show ?thesis using lo ledger_is_same [of rec s' s m] by auto
  next
    case tried
    note st = store_count_ok [OF drv tried(6)]
    from lo tried(4) have seen: "ledger_is rec s seen" "record_of rec s kBootFailures \<noteq> None" by simp_all
    from tried(5) have n: "seen < nxt" "unat (r AND kCountMask) < nxt" "nxt \<le> kUnhealthyRestartLimit"
      by (auto simp: boot_heap_reservation_next_def Let_def split: if_splits)
    then have n100: "nxt \<le> kBootFailMax" and n7: "nxt < 2 ^ 7"
      by (simp_all add: kBootFailMax_def kUnhealthyRestartLimit_def)
    have "r' = ledger_word nxt (bit r 7) (bit r 8) (\<not> bit r 7)" if ok
    proof (rule bit_word_eqI)
      fix i assume "i < LENGTH(16)"
      show "bit r' i = bit (ledger_word nxt (bit r 7) (bit r 8) (\<not> bit r 7)) i"
        using that tried(9) by (auto simp: ledger_word_def bit_or_iff bit_and_iff flag_bit)
    qed
    then have count: "ok \<Longrightarrow> unat (r' AND kCountMask) = nxt" using ledger_word_count [OF n7] by simp
    have led: "ok \<Longrightarrow> ledger_is rec s' nxt" using st(1) n100 tried(7) by (simp add: ledger_is_def)
    have "\<exists>j \<le> m. ledger_is rec s j" if "nvs_set_atomic api rec" "ledger_is rec s' m"
    proof -
      from st(3) [OF that(1)] consider "record_of rec s' kBootFailures = record_of rec s kBootFailures"
        | "record_of rec s' kBootFailures = Some (count_record nxt)" using tried(7) lo by auto
      then show ?thesis
      proof cases
        case 1
        with that(2) show ?thesis by (auto simp: ledger_is_def)
      next
        case 2
        with that(2) n100 have "m = nxt" by (simp add: ledger_is_def count_record_inj)
        with seen n show ?thesis by (meson less_imp_le)
      qed
    qed
    with tried seen n count led st(2) lo show ?thesis by auto
  qed
  then show "k \<noteq> kBootFailures \<Longrightarrow> record_of rec s' k = record_of rec s k"
    and "n \<noteq> 0 \<Longrightarrow> held \<and> ver = VerStable \<and> r AND kTrusted \<noteq> 0 \<and> n \<le> kUnhealthyRestartLimit \<and>
      unat (r AND kCountMask) < n \<and> (\<exists>m < n. ledger_is rec s m \<and> record_of rec s kBootFailures \<noteq> None) \<and>
      ledger_is rec s' n \<and> unat (r' AND kCountMask) = n"
    and "n = 0 \<Longrightarrow> r' = r"
    and "nvs_set_atomic api rec \<Longrightarrow> ledger_is rec s' m \<Longrightarrow> \<exists>j \<le> m. ledger_is rec s j"
    by blast+
qed

subsection \<open>The supervisor\<close>

record supervisor =
  sv_budget :: heap_recovery_budget
  sv_watchdog :: heap_watchdog
  sv_writer_grace :: critical_episode
  sv_healthy_run :: recovery_healthy_run
  sv_clear_write :: recovery_write_cadence
  sv_restart_write :: recovery_write_cadence
  sv_diagnostic :: recovery_diagnostic
  sv_shutdown_committed :: bool

definition new_supervisor :: "heap_recovery_budget \<Rightarrow> supervisor" where
  "new_supervisor budget = \<lparr>sv_budget = budget, sv_watchdog = new_heap_watchdog, sv_writer_grace = new_episode,
     sv_healthy_run = new_healthy_run, sv_clear_write = \<lparr>wc_last_ms = 0, wc_attempted = False\<rparr>,
     sv_restart_write = \<lparr>wc_last_ms = 0, wc_attempted = False\<rparr>,
     sv_diagnostic = \<lparr>rd_last_ms = 0, rd_suppressed = 0, rd_emitted = False\<rparr>, sv_shutdown_committed = False\<rparr>"

text \<open>The budget the supervisor starts with, from the breadcrumb of the last boot.\<close>

definition supervisor_startup :: "reboot_reason_record \<Rightarrow> supervisor" where
  "supervisor_startup boot_reason =
     new_supervisor (budget_seed (rr_heap_restarts boot_reason) (rr_state boot_reason \<noteq> ReasonError))"

text \<open>The readings of one iteration, in the order they are taken: the clock and the heap at its start, whether
  OTA was busy at the two places that ask; then those of a restart attempt (the gate, the heap, OTA, the
  clock, the image state) and those of the maintenance (the health probes, the gate, the clock, the probes
  again).\<close>

record sup_readings =
  si_now :: u64
  si_largest :: nat
  si_busy_watch :: bool
  si_busy_writer :: bool
  si_gate_restart :: gate_state
  si_largest_again :: nat
  si_busy_again :: bool
  si_now_restart :: u64
  si_verification :: ota_verification_state
  si_health :: recovery_health
  si_gate_health :: gate_state
  si_now_health :: u64
  si_health_again :: recovery_health

definition healthy_now :: "recovery_health \<Rightarrow> bool" where
  "healthy_now h = (if \<not> rh_ready h then False else recovery_health_eligible h)"

definition report_degraded :: "u64 \<Rightarrow> supervisor \<Rightarrow> supervisor" where
  "report_degraded now s = s\<lparr>sv_diagnostic := snd (diagnostic_emit now (sv_diagnostic s))\<rparr>"

record 'n sup_out =
  so_restart :: bool
  so_abort_request :: bool
  so_gate :: gate_state
  so_super :: supervisor
  so_word :: u16
  so_store :: "'n nvs_store"

definition sup_idle :: "gate_state \<Rightarrow> supervisor \<Rightarrow> u16 \<Rightarrow> 'n nvs_store \<Rightarrow> 'n sup_out" where
  "sup_idle g s r st = \<lparr>so_restart = False, so_abort_request = False, so_gate = g, so_super = s, so_word = r,
     so_store = st\<rparr>"

definition attempt_heap_restart ::
    "'n nvs_api \<Rightarrow> sup_readings \<Rightarrow> supervisor \<Rightarrow> u16 \<Rightarrow> 'n nvs_store \<Rightarrow> 'n sup_out" where
  "attempt_heap_restart api i s r st =
     (let g = si_gate_restart i in
      if \<not> budget_may_restart (sv_budget s) then sup_idle g (report_degraded (si_now i) s) r st
      else if \<not> cadence_due (si_now i) (sv_restart_write s) then sup_idle g s r st
      else let (owner, g1) = fault_guard_new g in
      if \<not> og_held owner then sup_idle (fault_guard_drop owner g1) (report_degraded (si_now i) s) r st
      else if kHeapCriticalBytes \<le> si_largest_again i \<or> si_busy_again i
      then sup_idle (fault_guard_drop owner g1) s r st
      else let s1 = s\<lparr>sv_restart_write := cadence_attempt (si_now_restart i) (sv_restart_write s)\<rparr>;
               (reservation, r1, st1) = safe_mode_prepare_heap_restart api (og_held owner) (si_verification i) r st in
      if reservation = 0
      then sup_idle (fault_guard_drop owner g1) (report_degraded (si_now_restart i) s1) r1 st1
      else let nxt = hb_effective (sv_budget s) + 1;
               (persisted, cfg) = persist_reboot_reason api (Some (heap_reason_format nxt)) (Some st1);
               st2 = (case cfg of Some x \<Rightarrow> x | None \<Rightarrow> st1) in
      if \<not> persisted
      then sup_idle (fault_guard_drop owner g1) (report_degraded (si_now_restart i) s1) r1 st2
      else (sup_idle g1 (s1\<lparr>sv_shutdown_committed := True\<rparr>) r1 st2)\<lparr>so_restart := True\<rparr>)"

definition maintain_healthy_run ::
    "'n nvs_api \<Rightarrow> sup_readings \<Rightarrow> gate_state \<Rightarrow> supervisor \<Rightarrow> u16 \<Rightarrow> 'n nvs_store \<Rightarrow> 'n sup_out" where
  "maintain_healthy_run api i g s r st =
     (let (qualified, h1) = healthy_run_sample (si_now i) (healthy_now (si_health i)) (sv_healthy_run s);
          s1 = s\<lparr>sv_healthy_run := h1\<rparr> in
      if \<not> qualified then sup_idle g s1 r st
      else if \<not> safe_mode_healthy_clear_pending r \<or> \<not> cadence_due (si_now i) (sv_clear_write s1)
      then sup_idle g s1 r st
      else let (owner, g1) = health_guard_new (si_gate_health i) in
      if \<not> og_held owner then sup_idle (health_guard_drop owner g1) (report_degraded (si_now i) s1) r st
      else let (still, h2) = healthy_run_sample (si_now_health i) (healthy_now (si_health_again i)) h1;
               s2 = s1\<lparr>sv_healthy_run := h2\<rparr> in
      if \<not> still then sup_idle (health_guard_drop owner g1) s2 r st
      else let s3 = s2\<lparr>sv_clear_write := cadence_attempt (si_now_health i) (sv_clear_write s2)\<rparr>;
               (cleared, r1, st1) = safe_mode_clear_after_healthy_run api (og_held owner) True r st in
      sup_idle (health_guard_drop owner g1)
        (if \<not> cleared then report_degraded (si_now_health i) s3
         else s3\<lparr>sv_budget := snd (budget_decay True (sv_budget s3))\<rparr>) r1 st1)"

definition supervisor_iteration ::
    "'n nvs_api \<Rightarrow> sup_readings \<Rightarrow> supervisor \<Rightarrow> u16 \<Rightarrow> 'n nvs_store \<Rightarrow> 'n sup_out" where
  "supervisor_iteration api i s r st =
     (if sv_shutdown_committed s then sup_idle (si_gate_restart i) s r st
      else let (verdict, w) = heap_watch \<lparr>largest_block = si_largest i, sample_now_ms = ucast (si_now i),
                 sample_ota_busy = si_busy_watch i\<rparr> (sv_watchdog s);
               (excused, e) = episode_excused (si_now i) (si_largest i) (si_busy_writer i) kCriticalWriterGraceMs
                 (sv_writer_grace s);
               s1 = s\<lparr>sv_watchdog := w, sv_writer_grace := e\<rparr>;
               out = (if hv_action verdict = HeapRestart
                      then if si_busy_writer i
                           then (sup_idle (si_gate_restart i) (report_degraded (si_now i) s1) r st)
                                  \<lparr>so_abort_request := \<not> excused\<rparr>
                           else attempt_heap_restart api i s1 r st
                      else sup_idle (si_gate_restart i) s1 r st) in
           if so_restart out then out
           else let m = maintain_healthy_run api i (so_gate out) (so_super out) (so_word out) (so_store out)
                in m\<lparr>so_abort_request := so_abort_request out\<rparr>)"

text \<open>An iteration that threw: the interval is not counted as healthy.\<close>

definition supervisor_failed :: "u64 \<Rightarrow> u64 \<Rightarrow> supervisor \<Rightarrow> supervisor" where
  "supervisor_failed now_sample now_report s =
     (if sv_shutdown_committed s then s
      else report_degraded now_report
             (s\<lparr>sv_healthy_run := snd (healthy_run_sample now_sample False (sv_healthy_run s))\<rparr>))"

subsection \<open>Histories of the ledger\<close>

datatype ledger_event = LedgerBoot boot_counter_cause reboot_reason_state nat
  | LedgerPrepare bool ota_verification_state
  | LedgerClear bool bool

text \<open>One event: the authority it granted (zero for none), the volatile word, the store. A boot starts with
  whatever the store holds.\<close>

definition ledger_step :: "'n nvs_api \<Rightarrow> ledger_event \<Rightarrow> u16 \<times> 'n nvs_store \<Rightarrow> nat \<times> u16 \<times> 'n nvs_store" where
  "ledger_step api e rs = (case rs of (r, s) \<Rightarrow> (case e of
      LedgerBoot cause reason legacy \<Rightarrow> (case safe_mode_begin api cause reason legacy s of (_, r', s') \<Rightarrow> (0, r', s'))
    | LedgerPrepare held ver \<Rightarrow> safe_mode_prepare_heap_restart api held ver r s
    | LedgerClear owner qualified \<Rightarrow>
        (case safe_mode_clear_after_healthy_run api owner qualified r s of (_, r', s') \<Rightarrow> (0, r', s'))))"

text \<open>The authorities granted over a history, oldest first.\<close>

fun ledger_grants :: "'n nvs_api \<Rightarrow> ledger_event list \<Rightarrow> u16 \<times> 'n nvs_store \<Rightarrow> nat list" where
  "ledger_grants api [] rs = []"
| "ledger_grants api (e # es) rs = (case ledger_step api e rs of (n, rs') \<Rightarrow>
     (if n = 0 then [] else [n]) @ ledger_grants api es rs')"

text \<open>An event that gives back credit: a known-clean boot, or a clear after a healthy run.\<close>

definition gives_credit :: "ledger_event \<Rightarrow> bool" where
  "gives_credit e = (case e of LedgerBoot cause reason legacy \<Rightarrow> cause = CauseClean
     | LedgerPrepare held ver \<Rightarrow> False | LedgerClear owner qualified \<Rightarrow> True)"

definition ledger_at_least :: "('n \<Rightarrow> string \<Rightarrow> bytes option) \<Rightarrow> 'n nvs_store \<Rightarrow> nat \<Rightarrow> bool" where
  "ledger_at_least rec s m \<longleftrightarrow> (\<forall>n. ledger_is rec s n \<longrightarrow> m \<le> n)"

lemma ledger_step_floor:
  assumes drv: "nvs_driver_ok api rec" and at: "nvs_set_atomic api rec" and e: "\<not> gives_credit e"
    and step: "ledger_step api e (r, s) = (n, r', s')" and m: "ledger_at_least rec s m"
  shows "if n = 0 then ledger_at_least rec s' m
    else m < n \<and> n \<le> kUnhealthyRestartLimit \<and> ledger_at_least rec s' n"
proof (cases e)
  case (LedgerBoot cause reason legacy)
  with step obtain b where "safe_mode_begin api cause reason legacy s = (b, r', s')" and n: "n = 0"
    by (auto simp: ledger_step_def split: prod.splits)
  from safe_mode_begin_ledger(2) [OF drv this(1) at] e LedgerBoot m n show ?thesis
    by (fastforce simp: ledger_at_least_def gives_credit_def)
next
  case (LedgerPrepare held ver)
  with step have eq: "safe_mode_prepare_heap_restart api held ver r s = (n, r', s')" by (simp add: ledger_step_def)
  note p = prepare_cases [OF drv eq]
  show ?thesis
  proof (cases "n = 0")
    case True
    with p(4) [OF at] m show ?thesis by (fastforce simp: ledger_at_least_def)
  next
    case False
    from p(2) [OF False] obtain k where k: "k < n" "ledger_is rec s k" "ledger_is rec s' n" "n \<le> kUnhealthyRestartLimit" by blast
    then have "m < n" using m unfolding ledger_at_least_def by (meson order.strict_trans1)
    moreover have "ledger_at_least rec s' n"
      unfolding ledger_at_least_def using k(3) ledger_is_unique by blast
    ultimately show ?thesis using False k(4) by simp
  qed
qed (use e in \<open>simp add: gives_credit_def\<close>)

lemma ledger_grants_rising:
  assumes drv: "nvs_driver_ok api rec" and at: "nvs_set_atomic api rec"
  shows "list_all (\<lambda>e. \<not> gives_credit e) es \<Longrightarrow> ledger_at_least rec (snd rs) m \<Longrightarrow>
    sorted_wrt (<) (m # ledger_grants api es rs) \<and> (\<forall>n \<in> set (ledger_grants api es rs). n \<le> kUnhealthyRestartLimit)"
proof (induction es arbitrary: rs m)
  case (Cons e es)
  obtain r s where rs: "rs = (r, s)" by fastforce
  obtain n r' s' where st: "ledger_step api e (r, s) = (n, r', s')" by (metis surj_pair)
  from ledger_step_floor [OF drv at _ st, of m] Cons.prems rs
  have f: "if n = 0 then ledger_at_least rec s' m
    else m < n \<and> n \<le> kUnhealthyRestartLimit \<and> ledger_at_least rec s' n" by simp
  show ?case
  proof (cases "n = 0")
    case True
    with Cons.IH [of "(r', s')" m] Cons.prems f rs st show ?thesis by simp
  next
    case False
    with Cons.IH [of "(r', s')" n] Cons.prems f rs st show ?thesis by fastforce
  qed
qed simp

lemma rising_length: "sorted_wrt (<) (m # ns) \<Longrightarrow> \<forall>n \<in> set ns. n \<le> b \<Longrightarrow> ns \<noteq> [] \<Longrightarrow> m + length ns \<le> (b :: nat)"
proof (induction ns arbitrary: m)
  case (Cons n ns)
  then have "m < n" "n \<le> b" "sorted_wrt (<) (n # ns)" by auto
  with Cons.IH [of n] Cons.prems show ?case by (cases "ns = []") auto
qed simp

lemma map_flash_atomic: "nvs_set_atomic map_flash_api mf_records"
  by (auto simp: nvs_set_atomic_def map_flash_api_def)

subsection \<open>Properties\<close>

text \<open>C10: Automatic restarts are bounded across reboots, power losses and failing writes: over any history of
  boots of any non-clean cause and of restart requests, from any store, the authorities granted are strictly
  increasing and at most five; the ones already charged count, so a store that starts at n grants at most
  five minus n. Only a known-clean boot or a clear after a qualified healthy run gives credit back.\<close>

theorem heap_restarts_bounded:
  assumes drv: "nvs_driver_ok api rec" and at: "nvs_set_atomic api rec"
    and es: "list_all (\<lambda>e. \<not> gives_credit e) es" and start: "ledger_is rec s n"
  shows "sorted_wrt (<) (ledger_grants api es (r, s)) \<and>
    (ledger_grants api es (r, s) \<noteq> [] \<longrightarrow> n + length (ledger_grants api es (r, s)) \<le> kUnhealthyRestartLimit)"
proof -
  have "ledger_at_least rec s n" unfolding ledger_at_least_def using start ledger_is_unique by blast
  from ledger_grants_rising [OF drv at es, of "(r, s)" n] this
  have g: "sorted_wrt (<) (n # ledger_grants api es (r, s))"
    "\<forall>k \<in> set (ledger_grants api es (r, s)). k \<le> kUnhealthyRestartLimit" by simp_all
  with rising_length [OF g] show ?thesis by simp
qed

theorem heap_restarts_bounded_witness:
  "length (ledger_grants map_flash_api
     [LedgerBoot CauseHeapRecovery ReasonPresent 0, LedgerPrepare True VerStable, LedgerPrepare True VerStable]
     (0, map_store Config [] [])) \<le> 5"
proof -
  let ?es = "[LedgerBoot CauseHeapRecovery ReasonPresent 0, LedgerPrepare True VerStable, LedgerPrepare True VerStable]"
  have "ledger_is mf_records (map_store Config [] []) 0"
    by (simp add: ledger_is_def record_of_def map_store_def split: option.split)
  from heap_restarts_bounded [OF map_flash_ok map_flash_atomic _ this, of ?es 0]
  show ?thesis
    by (cases "ledger_grants map_flash_api ?es (0, map_store Config [] []) = []")
      (simp_all add: gives_credit_def kUnhealthyRestartLimit_def)
qed

subsection \<open>The breadcrumb read back\<close>

lemma take_reason_cases:
  assumes drv: "nvs_driver_ok api rec" and eq: "take_reboot_reason api s = (r, s')"
  shows "(rr_state r = ReasonMissing \<longrightarrow> record_of rec s kRebootReason = None \<and> rr_heap_restarts r = 0) \<and>
    (rr_state r = ReasonPresent \<longrightarrow> 1 \<le> rr_heap_restarts r \<and> rr_heap_restarts r \<le> heap_cap \<and>
       record_of rec s kRebootReason = Some (c_str (text_bytes (heap_reason_format (rr_heap_restarts r)))) \<and>
       record_of rec s' kRebootReason = None) \<and>
    (rr_state r = ReasonError \<longrightarrow> rr_heap_restarts r = heap_cap) \<and>
    (\<forall>k. k \<noteq> kRebootReason \<longrightarrow> record_of rec s' k = record_of rec s k)"
proof -
  obtain loaded why s1 where l: "nvs_load_str_state api (Some kRebootReason) False s = ((loaded, why), s1)" by (metis surj_pair)
  obtain removed s2 where rm: "nvs_remove api kRebootReason s1 = (removed, s2)" by fastforce
  note lo = nvs_load_str_state_ok [OF drv l] and ro = nvs_remove_ok [OF drv rm]
  let ?n = "heap_reason_parse (Some (bytes_text why))"
  show ?thesis
  proof (cases loaded)
    case LoadPresent
    show ?thesis
    proof (cases "removed \<and> 1 \<le> ?n \<and> ?n \<le> heap_cap \<and> why = text_bytes (heap_reason_format ?n)")
      case True
      then have "r = make_reboot_reason_record ReasonPresent (Some (heap_reason_format ?n)) ?n" "s' = s2"
        using eq l rm LoadPresent by (simp_all add: take_reboot_reason_def Let_def)
      with True lo ro LoadPresent show ?thesis by (simp add: make_reboot_reason_record_def)
    next
      case False
      then have "rr_state r = ReasonError \<and> rr_heap_restarts r = heap_cap \<and> s' = s2"
        using eq l rm LoadPresent
        by (auto simp: take_reboot_reason_def make_reboot_reason_record_def Let_def split: if_splits)
      with lo ro LoadPresent show ?thesis by simp
    qed
  qed (use eq l lo in \<open>auto simp: take_reboot_reason_def make_reboot_reason_record_def\<close>)
qed

lemma small_reasons:
  assumes "1 \<le> n" "n \<le> heap_cap"
  shows "heap_reason_parse (Some (heap_reason_format n)) = n \<and> 0 \<notin> set (text_bytes (heap_reason_format n)) \<and>
    bytes_text (text_bytes (heap_reason_format n)) = heap_reason_format n"
proof -
  have "unat n \<le> 5" "unat n \<noteq> 0" using assms
    by (auto simp: heap_cap_def kHeapMaxConsecutiveRestarts_def word_le_nat_alt)
  then have "unat n \<in> {1, 2, 3, 4, 5}" by auto
  then have "(of_nat (unat n) :: u8) \<in> of_nat ` {1, 2, 3, 4, 5}" by (rule imageI)
  then have "n \<in> {1, 2, 3, 4, 5}" by simp
  moreover have "list_all (\<lambda>n. heap_reason_parse (Some (heap_reason_format n)) = n \<and>
      0 \<notin> set (text_bytes (heap_reason_format n)) \<and>
      bytes_text (text_bytes (heap_reason_format n)) = heap_reason_format n) [1, 2, 3, 4, 5 :: u8]" by code_simp
  ultimately show ?thesis by auto
qed

text \<open>The breadcrumb of a deliberate restart is read back once and exactly: after a confirmed write for
  streak n the next boot reads that n, and then it is gone, or it reports an error with the streak at its
  cap; it never reads as an ordinary boot. Conversely only the exact text of a streak from 1 to 5 is
  accepted, only a record that is not there is an ordinary boot, and no other record is touched.\<close>

theorem breadcrumb_read_once:
  assumes drv: "nvs_driver_ok api rec" and n: "1 \<le> n" "n \<le> heap_cap"
    and save: "persist_reboot_reason api (Some (heap_reason_format n)) (Some s) = (True, Some s1)"
    and take: "take_reboot_reason api s1 = (r, s2)"
  shows "(rr_state r = ReasonPresent \<and> rr_heap_restarts r = n \<and> record_of rec s2 kRebootReason = None \<or>
      rr_state r = ReasonError \<and> rr_heap_restarts r = heap_cap) \<and>
    (\<forall>k. k \<noteq> kRebootReason \<longrightarrow> record_of rec s2 k = record_of rec s k)"
proof -
  from save have st: "nvs_save_str api (Some kRebootReason) (text_bytes (heap_reason_format n)) s = (True, s1)"
    by (simp add: persist_reboot_reason_def split: prod.splits)
  note sv = nvs_save_str_ok [OF drv st] and tk = take_reason_cases [OF drv take]
  have cut: "c_str (text_bytes (heap_reason_format m)) = text_bytes (heap_reason_format m) @ [0]"
    if "1 \<le> m" "m \<le> heap_cap" for m
    using small_reasons [OF that] by (simp add: c_str_def) (auto simp: takeWhile_eq_all_conv)
  have "rr_heap_restarts r = n" if p: "rr_state r = ReasonPresent"
  proof -
    from tk p have m: "1 \<le> rr_heap_restarts r" "rr_heap_restarts r \<le> heap_cap"
      "record_of rec s1 kRebootReason = Some (c_str (text_bytes (heap_reason_format (rr_heap_restarts r))))" by auto
    with sv have "c_str (text_bytes (heap_reason_format (rr_heap_restarts r))) = c_str (text_bytes (heap_reason_format n))"
      by simp
    then have "text_bytes (heap_reason_format (rr_heap_restarts r)) = text_bytes (heap_reason_format n)"
      by (simp add: cut m n)
    then show ?thesis using small_reasons [OF m(1,2)] small_reasons [OF n] by metis
  qed
  with tk sv show ?thesis by (cases "rr_state r") auto
qed

theorem breadcrumb_read_once_witness:
  "rr_heap_restarts (fst (take_reboot_reason map_flash_api (the (snd (persist_reboot_reason map_flash_api
     (Some (heap_reason_format 3)) (Some (map_store Config [] []))))))) \<in> {3, heap_cap}"
proof -
  let ?p = "persist_reboot_reason map_flash_api (Some (heap_reason_format 3)) (Some (map_store Config [] []))"
  have "fst ?p \<and> snd ?p \<noteq> None" by code_simp
  then obtain s1 where p: "?p = (True, Some s1)" by (cases ?p) auto
  obtain r s2 where t: "take_reboot_reason map_flash_api s1 = (r, s2)" by fastforce
  have "1 \<le> (3 :: u8) \<and> 3 \<le> heap_cap" by code_simp
  with breadcrumb_read_once [OF map_flash_ok _ _ p t] p t show ?thesis by auto
qed

text \<open>Normal operation needs a durable ledger: the boot guard lets the device out of safe mode only when
  the old count could be read, the new one was confirmed in flash, is below four, and stands in the
  volatile word; an unreadable, malformed or unwritable ledger always ends in safe mode. No other record is
  touched.\<close>

theorem normal_mode_is_durable:
  assumes drv: "nvs_driver_ok api rec" and eq: "safe_mode_begin api cause reason legacy s = (False, r, s')"
  shows "\<exists>previous. ledger_is rec s previous \<and> ledger_is rec s' (boot_shared_count previous cause reason legacy) \<and>
    boot_shared_count previous cause reason legacy < kBootFailThreshold \<and>
    unat (r AND kCountMask) = boot_shared_count previous cause reason legacy \<and> \<not> safe_mode_active r \<and>
    (\<forall>k. k \<noteq> kBootFailures \<longrightarrow> record_of rec s' k = record_of rec s k)"
  using safe_mode_begin_ledger(1) [OF drv eq] safe_mode_begin_ledger(3) [OF drv eq] by blast

theorem normal_mode_is_durable_witness:
  "ledger_is mf_records (snd (snd (safe_mode_begin map_flash_api CauseFault ReasonMissing 0
     (map_store Config [(kBootFailures, count_record 2)] [])))) 3"
proof -
  let ?s = "map_store Config [(kBootFailures, count_record 2)] []"
  obtain b r s' where eq: "safe_mode_begin map_flash_api CauseFault ReasonMissing 0 ?s = (b, r, s')" by (metis surj_pair)
  have "\<not> fst (safe_mode_begin map_flash_api CauseFault ReasonMissing 0 ?s)" by code_simp
  with eq have "safe_mode_begin map_flash_api CauseFault ReasonMissing 0 ?s = (False, r, s')" by simp
  from normal_mode_is_durable [OF map_flash_ok this] obtain p where
    p: "ledger_is mf_records ?s p" "ledger_is mf_records s' (boot_shared_count p CauseFault ReasonMissing 0)" by blast
  have "ledger_is mf_records ?s 2" by code_simp
  with p(1) ledger_is_unique have "p = 2" by blast
  moreover have "boot_shared_count 2 CauseFault ReasonMissing 0 = 3" by code_simp
  ultimately show ?thesis using p(2) eq by simp
qed

subsection \<open>The supervisor's authority\<close>

lemma persist_present:
  assumes "persist_reboot_reason api (Some w) (Some st) = (ok, cfg)"
  shows "\<exists>st'. cfg = Some st' \<and> nvs_save_str api (Some kRebootReason) (text_bytes w) st = (ok, st')"
  using assms by (auto simp: persist_reboot_reason_def split: prod.splits)

lemma attempt_restart_cases:
  assumes drv: "nvs_driver_ok api rec" and restart: "so_restart (attempt_heap_restart api i s r st)"
  shows "si_gate_restart i = GateIdle \<and> so_gate (attempt_heap_restart api i s r st) = GateFaultRestart \<and>
    si_largest_again i < kHeapCriticalBytes \<and> \<not> si_busy_again i \<and> si_verification i = VerStable \<and>
    budget_may_restart (sv_budget s) \<and> cadence_due (si_now i) (sv_restart_write s) \<and>
    sv_shutdown_committed (so_super (attempt_heap_restart api i s r st)) \<and>
    (\<exists>n m. n \<le> kUnhealthyRestartLimit \<and> m < n \<and> ledger_is rec st m \<and>
       ledger_is rec (so_store (attempt_heap_restart api i s r st)) n \<and>
       record_of rec (so_store (attempt_heap_restart api i s r st)) kRebootReason =
         Some (c_str (text_bytes (heap_reason_format (hb_effective (sv_budget s) + 1)))))"
proof -
  let ?out = "attempt_heap_restart api i s r st"
  obtain owner g1 where o': "fault_guard_new (si_gate_restart i) = (owner, g1)" by fastforce
  obtain n r1 st1 where p: "safe_mode_prepare_heap_restart api (og_held owner) (si_verification i) r st = (n, r1, st1)"
    by (metis surj_pair)
  obtain ok cfg where q: "persist_reboot_reason api (Some (heap_reason_format (hb_effective (sv_budget s) + 1))) (Some st1) = (ok, cfg)"
    by fastforce
  then obtain st2 where cfg: "cfg = Some st2"
    and save: "nvs_save_str api (Some kRebootReason) (text_bytes (heap_reason_format (hb_effective (sv_budget s) + 1))) st1 = (ok, st2)"
    using persist_present [OF q] by blast
  note defs = attempt_heap_restart_def sup_idle_def Let_def
  have b: "budget_may_restart (sv_budget s)" by (rule ccontr) (use restart in \<open>simp add: defs\<close>)
  have c: "cadence_due (si_now i) (sv_restart_write s)" by (rule ccontr) (use restart b in \<open>simp add: defs\<close>)
  have h: "og_held owner" by (rule ccontr) (use restart b c in \<open>simp add: defs o'\<close>)
  have e: "\<not> (kHeapCriticalBytes \<le> si_largest_again i \<or> si_busy_again i)"
    by (rule ccontr) (use restart b c h in \<open>simp add: defs o'\<close>)
  note p' = p [unfolded eqTrueI [OF h]]
  have n: "n \<noteq> 0" by (rule ccontr) (use restart b c h e in \<open>simp add: defs o' p'\<close>)
  have ok by (rule ccontr) (use restart b c h e n in \<open>simp add: defs o' p' q cfg\<close>)
  have out: "so_gate ?out = g1" "so_store ?out = st2" "sv_shutdown_committed (so_super ?out)"
    using b c h e n \<open>ok\<close> by (simp_all add: defs o' p' q cfg)
  have gate: "si_gate_restart i = GateIdle" "g1 = GateFaultRestart"
    using o' h by (auto simp: guard_defs Let_def split: if_splits)
  note pr = prepare_cases(2) [OF drv p n] and sv = nvs_save_str_ok [OF drv save]
  from pr obtain m where m: "m < n" "ledger_is rec st m" "ledger_is rec st1 n" "n \<le> kUnhealthyRestartLimit"
    "si_verification i = VerStable" by blast
  have "record_of rec st2 kBootFailures = record_of rec st1 kBootFailures" using sv by (simp add: nvs_names)
  then have "ledger_is rec st2 n" using m(3) by (simp add: ledger_is_def)
  moreover have "record_of rec st2 kRebootReason =
      Some (c_str (text_bytes (heap_reason_format (hb_effective (sv_budget s) + 1))))" using sv \<open>ok\<close> by simp
  ultimately have "\<exists>n m. n \<le> kUnhealthyRestartLimit \<and> m < n \<and> ledger_is rec st m \<and> ledger_is rec (so_store ?out) n \<and>
      record_of rec (so_store ?out) kRebootReason =
        Some (c_str (text_bytes (heap_reason_format (hb_effective (sv_budget s) + 1))))"
    unfolding out using m(1,2,4) by blast
  with b c e gate out m(5) show ?thesis by (simp only: not_le de_Morgan_disj simp_thms)
qed

text \<open>C11: The authority of an automatic restart: whenever the supervisor restarts the device, the internal heap
  has been critical without a break for at least five minutes and still is, no OTA writer was active at
  either look, the operation gate was idle and is now held for the restart, the running image is verified,
  and before the restart both the shared ledger, charged by at least one and at most five in all, and the
  breadcrumb naming the streak were confirmed in flash.\<close>

theorem heap_restart_authority:
  assumes drv: "nvs_driver_ok api rec" and history: "sv_watchdog s = heap_watch_all xs"
    and restart: "so_restart (supervisor_iteration api i s r st)"
  shows "si_largest i < kHeapCriticalBytes \<and> critical_run xs \<noteq> [] \<and>
    kHeapCriticalHoldMs \<le> ucast (si_now i) - sample_now_ms (hd (critical_run xs)) \<and>
    si_largest_again i < kHeapCriticalBytes \<and> \<not> si_busy_writer i \<and> \<not> si_busy_again i \<and>
    si_gate_restart i = GateIdle \<and> so_gate (supervisor_iteration api i s r st) = GateFaultRestart \<and>
    si_verification i = VerStable \<and> \<not> sv_shutdown_committed s \<and>
    (\<exists>n m. n \<le> kUnhealthyRestartLimit \<and> m < n \<and> ledger_is rec st m \<and>
       ledger_is rec (so_store (supervisor_iteration api i s r st)) n \<and>
       record_of rec (so_store (supervisor_iteration api i s r st)) kRebootReason =
         Some (c_str (text_bytes (heap_reason_format (hb_effective (sv_budget s) + 1)))))"
proof -
  let ?sample = "\<lparr>largest_block = si_largest i, sample_now_ms = ucast (si_now i), sample_ota_busy = si_busy_watch i\<rparr>"
  obtain v w where hw: "heap_watch ?sample (sv_watchdog s) = (v, w)" by fastforce
  obtain ex e where ee: "episode_excused (si_now i) (si_largest i) (si_busy_writer i) kCriticalWriterGraceMs (sv_writer_grace s) = (ex, e)"
    by fastforce
  let ?s1 = "s\<lparr>sv_watchdog := w, sv_writer_grace := e\<rparr>"
  let ?out = "attempt_heap_restart api i ?s1 r st"
  have maintain: "\<not> so_restart (maintain_healthy_run api i g s r st)" for g s r st
    by (auto simp: maintain_healthy_run_def sup_idle_def Let_def split: prod.split)
  have act: "\<not> sv_shutdown_committed s" "hv_action v = HeapRestart" "\<not> si_busy_writer i" "so_restart ?out"
    using restart maintain by (auto simp: supervisor_iteration_def hw ee sup_idle_def Let_def split: if_splits)
  have ee': "episode_excused (si_now i) (si_largest i) False kCriticalWriterGraceMs (sv_writer_grace s) = (ex, e)"
    using ee act(3) by simp
  from act have out: "supervisor_iteration api i s r st = ?out"
    by (simp add: supervisor_iteration_def hw ee' Let_def)
  note att = attempt_restart_cases [OF drv act(4)]
  have "heap_critical ?sample \<and> critical_run xs \<noteq> [] \<and>
      kHeapCriticalHoldMs \<le> ucast (si_now i) - sample_now_ms (hd (critical_run xs))"
    using heap_watch_restart_iff [of ?sample xs] hw act(2) history by simp
  then show ?thesis using att act unfolding out by (simp add: heap_critical_def)
qed

definition example_health :: recovery_health where
  "example_health = \<lparr>rh_ready = True, rh_host_synced = True, rh_host_reset_free = True,
     rh_vehicle_progress_fresh = True, rh_network_up = True, rh_ota_busy = False, rh_largest_internal = 700\<rparr>"

definition example_readings :: sup_readings where
  "example_readings = \<lparr>si_now = 400000, si_largest = 700, si_busy_watch = False, si_busy_writer = False,
     si_gate_restart = GateIdle, si_largest_again = 700, si_busy_again = False, si_now_restart = 400001,
     si_verification = VerStable, si_health = example_health, si_gate_health = GateIdle, si_now_health = 400002,
     si_health_again = example_health\<rparr>"

definition example_supervisor :: supervisor where
  "example_supervisor = (new_supervisor (budget_seed 0 True))\<lparr>sv_watchdog :=
     heap_watch_all [\<lparr>largest_block = 700, sample_now_ms = 30000, sample_ota_busy = False\<rparr>]\<rparr>"

theorem heap_restart_authority_witness:
  "record_of mf_records (so_store (supervisor_iteration map_flash_api example_readings example_supervisor 0x301
     (map_store Config [(kBootFailures, count_record 1)] []))) kRebootReason =
   Some (c_str (text_bytes ''heap:1''))"
proof -
  let ?st = "map_store Config [(kBootFailures, count_record 1)] []"
  let ?xs = "[\<lparr>largest_block = 700, sample_now_ms = 30000, sample_ota_busy = False\<rparr>]"
  have h: "sv_watchdog example_supervisor = heap_watch_all ?xs" by (simp add: example_supervisor_def)
  have "so_restart (supervisor_iteration map_flash_api example_readings example_supervisor 0x301 ?st)" by code_simp
  from heap_restart_authority [OF map_flash_ok h this]
  have "record_of mf_records (so_store (supervisor_iteration map_flash_api example_readings example_supervisor 0x301 ?st)) kRebootReason =
    Some (c_str (text_bytes (heap_reason_format (hb_effective (sv_budget example_supervisor) + 1))))" by blast
  moreover have "heap_reason_format (hb_effective (sv_budget example_supervisor) + 1) = ''heap:1''" by code_simp
  ultimately show ?thesis by simp
qed

text \<open>Credit comes back only durably and only in good health: a clear succeeds only for the holder of the
  maintenance lease, while the run is qualified, outside safe mode, on a trusted ledger with a clear
  pending; zero is then confirmed in flash before the volatile count is dropped. A clear that fails changes
  neither the volatile word nor any other record.\<close>

theorem healthy_clear_is_durable:
  assumes drv: "nvs_driver_ok api rec"
    and eq: "safe_mode_clear_after_healthy_run api owner qualified r s = (ok, r', s')"
  shows "(if ok then owner \<and> qualified \<and> \<not> safe_mode_active r \<and> r AND kTrusted \<noteq> 0 \<and>
        ledger_is rec s' 0 \<and> unat (r' AND kCountMask) = 0 \<and> \<not> safe_mode_active r'
      else r' = r) \<and> (\<forall>k. k \<noteq> kBootFailures \<longrightarrow> record_of rec s' k = record_of rec s k)"
proof -
  obtain c s1 where l: "load_count api True s = (c, s1)" by fastforce
  obtain b s2 where st: "store_count api 0 s1 = (b, s2)" by fastforce
  note lo = load_count_ok [OF drv l] and so = store_count_ok [OF drv st]
  have kt: "kTrusted = ledger_word 0 False True False" by (simp add: ledger_word_def)
  have bits: "safe_mode_healthy_clear_pending r \<Longrightarrow> \<not> safe_mode_active r \<and> r AND kTrusted \<noteq> 0"
    by (simp add: safe_mode_healthy_clear_pending_def safe_mode_active_def pending_bit flag_bit)
  have word: "unat (kTrusted AND kCountMask) = 0" "\<not> safe_mode_active kTrusted"
    using ledger_word_count [of 0 False True False] ledger_word_flags [of 0 False True False]
    by (simp_all add: kt [symmetric] safe_mode_active_def flag_bit)
  show ?thesis
  proof (cases "owner \<and> qualified \<and> safe_mode_healthy_clear_pending r \<and> c \<noteq> None")
    case True
    then have e: "ok = b" "s' = s2" "r' = (if b then kTrusted else r)"
      using eq l st by (auto simp: safe_mode_clear_after_healthy_run_def split: if_splits)
    have "b \<Longrightarrow> ledger_is rec s2 0" using so(1) by (simp add: ledger_is_def kBootFailMax_def)
    then show ?thesis using True e bits word so(2) lo by (cases b) auto
  next
    case False
    then have "\<not> ok \<and> r' = r \<and> (s' = s \<or> s' = s1)"
      using eq l by (auto simp: safe_mode_clear_after_healthy_run_def split: if_splits option.splits)
    then show ?thesis using lo by auto
  qed
qed

theorem healthy_clear_is_durable_witness:
  "let s = map_store Config [(kBootFailures, count_record 2)] [];
       (ok, r', s') = safe_mode_clear_after_healthy_run map_flash_api True True 0x302 s
   in ok \<and> ledger_is mf_records s' 0"
proof -
  let ?s = "map_store Config [(kBootFailures, count_record 2)] []"
  obtain ok r' s' where eq: "safe_mode_clear_after_healthy_run map_flash_api True True 0x302 ?s = (ok, r', s')"
    by (metis surj_pair)
  have "fst (safe_mode_clear_after_healthy_run map_flash_api True True 0x302 ?s)" by code_simp
  with eq healthy_clear_is_durable [OF map_flash_ok eq] show ?thesis by (simp add: Let_def)
qed

end
