(* ===== verification/PowerLoss.thy ===== *)
theory PowerLoss
  imports ConfigBlob SafeMode
begin

text \<open>
  What power loss and failing writes can do to the records of the adapter (main/nvs_storage.cpp): the
  atomicity that ESP-IDF documents of the flash driver, a driver that dies after any number of calls
  and still keeps every promise, and what each adapter call and a save of the configuration can leave
  behind under it.
\<close>

subsection \<open>What a power loss can leave\<close>

text \<open>Documented of the flash driver: a write or an erase that did not report success has left the old record
  or done its work; there is nothing in between. A power loss is a driver that fails every call from
  some moment on.\<close>

definition nvs_write_atomic :: "'n nvs_api \<Rightarrow> ('n \<Rightarrow> string \<Rightarrow> bytes option) \<Rightarrow> bool" where
  "nvs_write_atomic api rec \<longleftrightarrow>
     (\<forall>k v d err d'. nvs_set_str api k v d = (err, d') \<longrightarrow> rec d' k = rec d k \<or> rec d' k = Some v) \<and>
     (\<forall>k v d err d'. nvs_set_blob api k v d = (err, d') \<longrightarrow> rec d' k = rec d k \<or> rec d' k = Some v) \<and>
     (\<forall>k d err d'. nvs_erase_key api k d = (err, d') \<longrightarrow> rec d' k = rec d k \<or> rec d' k = None)"

text \<open>The driver as it is until a number of calls has been made, and dead from then on.\<close>

definition mortal_call :: "'r \<Rightarrow> ('n \<Rightarrow> 'r \<times> 'n) \<Rightarrow> 'n \<times> nat \<Rightarrow> 'r \<times> ('n \<times> nat)" where
  "mortal_call dead f d = (case d of (n, 0) \<Rightarrow> (dead, (n, 0))
     | (n, Suc calls) \<Rightarrow> (case f n of (r, n') \<Rightarrow> (r, (n', calls))))"

definition mortal_api :: "'n nvs_api \<Rightarrow> ('n \<times> nat) nvs_api" where
  "mortal_api api = \<lparr>
     nvs_open = (\<lambda>k. mortal_call NvsFail (nvs_open api k)),
     nvs_blob_len = (\<lambda>k. mortal_call (NvsFail, 0) (nvs_blob_len api k)),
     nvs_blob_read = (\<lambda>k n. mortal_call (NvsFail, []) (nvs_blob_read api k n)),
     nvs_str_len = (\<lambda>k. mortal_call (NvsFail, 0) (nvs_str_len api k)),
     nvs_str_read = (\<lambda>k n. mortal_call (NvsFail, []) (nvs_str_read api k n)),
     nvs_set_blob = (\<lambda>k v. mortal_call NvsFail (nvs_set_blob api k v)),
     nvs_set_str = (\<lambda>k v. mortal_call NvsFail (nvs_set_str api k v)),
     nvs_erase_key = (\<lambda>k. mortal_call NvsFail (nvs_erase_key api k)),
     nvs_commit = mortal_call NvsFail (nvs_commit api),
     alloc_ok = (\<lambda>n d. alloc_ok api n (fst d))\<rparr>"

lemma mortal_call_cases:
  "mortal_call dead f d = (r, d') \<Longrightarrow> r = dead \<and> d' = d \<or> f (fst d) = (r, fst d')"
  by (auto simp: mortal_call_def split: prod.splits nat.splits)

lemma mortal_len_ok: "len_ok f rec \<Longrightarrow> len_ok (\<lambda>k. mortal_call (NvsFail, 0) (f k)) (\<lambda>d. rec (fst d))"
  unfolding len_ok_def by (fastforce dest!: mortal_call_cases)

lemma mortal_read_ok: "read_ok f rec \<Longrightarrow> read_ok (\<lambda>k n. mortal_call (NvsFail, []) (f k n)) (\<lambda>d. rec (fst d))"
  unfolding read_ok_def by (fastforce dest!: mortal_call_cases)

lemma mortal_set_ok: "set_ok f rec \<Longrightarrow> set_ok (\<lambda>k v. mortal_call NvsFail (f k v)) (\<lambda>d. rec (fst d))"
  unfolding set_ok_def keeps_others_def by (fastforce dest!: mortal_call_cases)

lemma mortal_erase_ok:
  assumes "\<forall>k d err d'. f k d = (err, d') \<longrightarrow> keeps_others (rec d) (rec d') k \<and> (err \<noteq> NvsFail \<longrightarrow> rec d' k = None)"
  shows "\<forall>k d err d'. mortal_call NvsFail (f k) d = (err, d') \<longrightarrow>
    keeps_others (rec (fst d)) (rec (fst d')) k \<and> (err \<noteq> NvsFail \<longrightarrow> rec (fst d') k = None)"
proof (intro allI impI)
  fix k d err d' assume "mortal_call NvsFail (f k) d = (err, d')"
  from mortal_call_cases [OF this] show "keeps_others (rec (fst d)) (rec (fst d')) k \<and> (err \<noteq> NvsFail \<longrightarrow> rec (fst d') k = None)"
    using assms by (auto simp: keeps_others_def)
qed

lemma mortal_commit_ok:
  "\<forall>d err d'. f d = (err, d') \<longrightarrow> rec d' = rec d \<Longrightarrow>
   \<forall>d err d'. mortal_call NvsFail f d = (err, d') \<longrightarrow> rec (fst d') = rec (fst d)"
  by (fastforce dest!: mortal_call_cases)

lemma mortal_driver_ok: "nvs_driver_ok api rec \<Longrightarrow> nvs_driver_ok (mortal_api api) (\<lambda>d. rec (fst d))"
  unfolding nvs_driver_ok_def mortal_api_def nvs_api.simps
  by (intro conjI mortal_len_ok mortal_read_ok mortal_set_ok mortal_erase_ok mortal_commit_ok) (elim conjE, assumption)+

lemma mortal_atomic: "nvs_write_atomic api rec \<Longrightarrow> nvs_write_atomic (mortal_api api) (\<lambda>d. rec (fst d))"
proof -
  assume at: "nvs_write_atomic api rec"
  note parts = at [unfolded nvs_write_atomic_def]
  have 1: "rec (fst d') k = rec (fst d) k \<or> rec (fst d') k = Some v"
    if "mortal_call NvsFail (nvs_set_str api k v) d = (err, d')" for k v d err d'
    using mortal_call_cases [OF that] parts [THEN conjunct1] by metis
  have 2: "rec (fst d') k = rec (fst d) k \<or> rec (fst d') k = Some v"
    if "mortal_call NvsFail (nvs_set_blob api k v) d = (err, d')" for k v d err d'
    using mortal_call_cases [OF that] parts [THEN conjunct2, THEN conjunct1] by metis
  have 3: "rec (fst d') k = rec (fst d) k \<or> rec (fst d') k = None"
    if "mortal_call NvsFail (nvs_erase_key api k) d = (err, d')" for k d err d'
    using mortal_call_cases [OF that] parts [THEN conjunct2, THEN conjunct2] by metis
  show ?thesis unfolding nvs_write_atomic_def mortal_api_def nvs_api.simps using 1 2 3 by blast
qed

subsection \<open>Records around single calls\<close>

lemma atomic_parts:
  assumes "nvs_write_atomic api rec"
  shows "nvs_set_str api k v d = (err, d') \<Longrightarrow> rec d' k = rec d k \<or> rec d' k = Some v"
    and "nvs_set_blob api k v d = (err, d') \<Longrightarrow> rec d' k = rec d k \<or> rec d' k = Some v"
    and "nvs_erase_key api k d = (err, d') \<Longrightarrow> rec d' k = rec d k \<or> rec d' k = None"
    and "nvs_set_atomic api rec"
  using assms unfolding nvs_write_atomic_def nvs_set_atomic_def by metis+

lemma remove_atomic:
  assumes drv: "nvs_driver_ok api rec" and at: "nvs_write_atomic api rec"
    and eq: "nvs_remove api key s = (ok, s')"
  shows "record_of rec s' key = record_of rec s key \<or> record_of rec s' key = None"
proof (cases "nvs_initialized s \<and> map_key s key Blob True \<noteq> None")
  case True
  then obtain e where init: "nvs_initialized s" and m: "map_key s key Blob True = Some (en_stored_key e)"
    and e: "nvs_find (ns_kind s) key = Some e" using map_key_Some by blast
  obtain err d1 where er: "nvs_erase_key api (en_stored_key e) (nvs_dev s) = (err, d1)" by fastforce
  obtain err2 d2 where co: "nvs_commit api d1 = (err2, d2)" by fastforce
  show ?thesis using eq init m er co e atomic_parts(3) [OF at er] driver_commit [OF drv co]
    by (auto simp: nvs_remove_def record_of_def split: if_splits)
qed (use eq in \<open>auto simp: nvs_remove_def split: if_splits\<close>)

lemma save_atomic:
  assumes drv: "nvs_driver_ok api rec" and at: "nvs_write_atomic api rec"
    and eq: "nvs_save api key v s = (ok, s')"
  shows "record_of rec s' key = record_of rec s key \<or> record_of rec s' key = Some v"
proof (cases "nvs_initialized s \<and> map_key s key Blob False \<noteq> None")
  case True
  then obtain e where init: "nvs_initialized s" and m: "map_key s key Blob False = Some (en_stored_key e)"
    and e: "nvs_find (ns_kind s) key = Some e" using map_key_Some by blast
  obtain err d1 where er: "nvs_set_blob api (en_stored_key e) v (nvs_dev s) = (err, d1)" by fastforce
  obtain err2 d2 where co: "nvs_commit api d1 = (err2, d2)" by fastforce
  show ?thesis using eq init m er co e atomic_parts(2) [OF at er] driver_commit [OF drv co]
    by (auto simp: nvs_save_def record_of_def split: if_splits)
qed (use eq in \<open>auto simp: nvs_save_def split: if_splits\<close>)

lemma save_blob_atomic:
  assumes drv: "nvs_driver_ok api rec" and at: "nvs_write_atomic api rec"
    and eq: "nvs_save_blob api (Some key) (Some v) s = (ok, s')"
  shows "record_of rec s' key = record_of rec s key \<or> record_of rec s' key = Some v"
proof (cases "nvs_initialized s \<and> v \<noteq> [] \<and> map_key s key RawBlob False \<noteq> None")
  case True
  then obtain e where init: "nvs_initialized s" "v \<noteq> []" and m: "map_key s key RawBlob False = Some (en_stored_key e)"
    and e: "nvs_find (ns_kind s) key = Some e" using map_key_Some by blast
  obtain err d1 where er: "nvs_set_blob api (en_stored_key e) v (nvs_dev s) = (err, d1)" by fastforce
  obtain err2 d2 where co: "nvs_commit api d1 = (err2, d2)" by fastforce
  show ?thesis using eq init m er co e atomic_parts(2) [OF at er] driver_commit [OF drv co]
    by (auto simp: nvs_save_blob_def key_or_empty_def record_of_def split: if_splits)
qed (use eq in \<open>auto simp: nvs_save_blob_def key_or_empty_def split: if_splits\<close>)

text \<open>A probe, a load and an existence query change no record, and say what they saw.\<close>

lemma probe_blob_ok:
  assumes drv: "nvs_driver_ok api rec" and eq: "probe_blob api key s = ((ok, found), s')"
  shows "same_adapter s s' \<and> record_of rec s' = record_of rec s \<and>
    (ok \<longrightarrow> (found \<longleftrightarrow> record_of rec s key \<noteq> None))"
proof (cases "nvs_initialized s \<and> map_key s key Blob False \<noteq> None")
  case True
  then obtain e where init: "nvs_initialized s" and m: "map_key s key Blob False = Some (en_stored_key e)"
    and e: "nvs_find (ns_kind s) key = Some e" using map_key_Some by blast
  obtain err n d1 where le: "nvs_blob_len api (en_stored_key e) (nvs_dev s) = ((err, n), d1)" by (metis surj_pair)
  note l = len_okD [OF driver_parts(1) [OF drv] le]
  have s': "same_adapter s s'" "rec (nvs_dev s') = rec (nvs_dev s)"
    using eq init m le l by (auto simp: probe_blob_def same_adapter_def split: if_splits)
  then have "record_of rec s' = record_of rec s" by (intro record_of_same) (simp_all add: same_adapter_def)
  with s' l e eq init m le show ?thesis
    by (cases err) (auto simp: probe_blob_def record_of_def split: if_splits)
qed (use eq in \<open>auto simp: probe_blob_def same_adapter_def split: if_splits\<close>)

lemma nvs_load_ok:
  assumes drv: "nvs_driver_ok api rec" and eq: "nvs_load api key s = ((ok, v), s')"
  shows "same_adapter s s' \<and> record_of rec s' = record_of rec s \<and> (ok \<longrightarrow> record_of rec s key = Some v)"
proof (cases "nvs_initialized s \<and> map_key s key Blob False \<noteq> None")
  case True
  then obtain e where init: "nvs_initialized s" and m: "map_key s key Blob False = Some (en_stored_key e)"
    and e: "nvs_find (ns_kind s) key = Some e" using map_key_Some by blast
  obtain err n d1 where le: "nvs_blob_len api (en_stored_key e) (nvs_dev s) = ((err, n), d1)" by (metis surj_pair)
  obtain err2 w d2 where re: "nvs_blob_read api (en_stored_key e) n d1 = ((err2, w), d2)" by (metis surj_pair)
  note l = len_okD [OF driver_parts(1) [OF drv] le] and r = read_okD [OF driver_parts(2) [OF drv] re]
  have s': "same_adapter s s'" "rec (nvs_dev s') = rec (nvs_dev s)" "ok \<Longrightarrow> err2 = NvsOk \<and> v = w"
    using eq init m le re l r by (auto simp: nvs_load_def same_adapter_def split: if_splits)
  then have "record_of rec s' = record_of rec s" by (intro record_of_same) (simp_all add: same_adapter_def)
  with s' l r e show ?thesis by (auto simp: record_of_def)
qed (use eq in \<open>auto simp: nvs_load_def same_adapter_def split: if_splits\<close>)

lemma blob_exists_reads:
  assumes drv: "nvs_driver_ok api rec" and eq: "blob_exists api kPrivateKey s = (found, s')"
  shows "same_adapter s s' \<and> record_of rec s' = record_of rec s"
proof (cases "nvs_initialized s \<and> map_key s kPrivateKey Blob False \<noteq> None")
  case True
  then obtain k where init: "nvs_initialized s" and m: "map_key s kPrivateKey Blob False = Some k"
    by blast
  have ne: "kPrivateKey \<noteq> kSessionVcsec" by (simp add: nvs_names)
  obtain err n d1 where le: "nvs_blob_len api k (nvs_dev s) = ((err, n), d1)" by (metis surj_pair)
  have s': "same_adapter s s'" "rec (nvs_dev s') = rec (nvs_dev s)"
    using eq init m le ne len_okD(1) [OF driver_parts(1) [OF drv] le]
    by (auto simp: blob_exists_def same_adapter_def Let_def split: if_splits)
  then have "record_of rec s' = record_of rec s" by (intro record_of_same) (simp_all add: same_adapter_def)
  with s' show ?thesis by simp
next
  case False
  have ne: "kPrivateKey \<noteq> kSessionVcsec" by (simp add: nvs_names)
  from False show ?thesis using eq ne by (auto simp: blob_exists_def same_adapter_def split: if_splits)
qed

lemma cfg_save_atomic:
  assumes drv: "nvs_driver_ok api rec" and at: "nvs_write_atomic api rec"
    and save: "cfg_save api c st s = (ok, st', s')" and st: "statics_ok st"
  shows "k \<notin> {kConfigBlob, kLegacyWifiSsid, kLegacyWifiPass, kLegacyVin, kLegacyMqttUri, kLegacySyslogUri} \<Longrightarrow>
      record_of rec s' k = record_of rec s k"
    and "record_of rec s' kConfigBlob = record_of rec s kConfigBlob \<and> (\<not> ok \<longrightarrow> record_of rec s' = record_of rec s) \<or>
      config_fits c \<and> record_of rec s' kConfigBlob = Some (config_image (config_flags c) c)"
proof -
  have "(k \<notin> {kConfigBlob, kLegacyWifiSsid, kLegacyWifiPass, kLegacyVin, kLegacyMqttUri, kLegacySyslogUri} \<longrightarrow>
      record_of rec s' k = record_of rec s k) \<and>
    (record_of rec s' kConfigBlob = record_of rec s kConfigBlob \<and> (\<not> ok \<longrightarrow> record_of rec s' = record_of rec s) \<or>
      config_fits c \<and> record_of rec s' kConfigBlob = Some (config_image (config_flags c) c))"
  proof (cases "encode_active st \<or> \<not> config_fits c")
    case True
    with cfg_save_ok [OF drv st save] show ?thesis by blast
  next
    case False
    then have free: "\<not> encode_active st" "config_fits c" by auto
    obtain n out where enc: "config_blob_encode c (Some (encode_buffer st)) kConfigBlobCapBytes = (n, out)" by fastforce
    obtain bs where bs: "out = Some bs" "length bs = kConfigBlobCapBytes" "0 < n"
      "take n bs = config_image (config_flags c) c"
      using encode_into [OF _ enc] st free by (auto simp: statics_ok_def)
    obtain b s1 where sb: "nvs_save_blob api (Some kConfigBlob) (Some (take n bs)) s = (b, s1)" by fastforce
    obtain m s2 where sm: "save_mirrors api [(kLegacyWifiSsid, wifi_ssid c), (kLegacyWifiPass, wifi_pass c),
        (kLegacyVin, cfg_vin c), (kLegacyMqttUri, mqtt_uri c), (kLegacySyslogUri, syslog_uri c)] s1 = (m, s2)" by fastforce
    note blob = nvs_save_blob_ok [OF drv sb] save_blob_atomic [OF drv at sb] and mirror = save_mirrors_ok [OF drv sm]
    have same2: "record_of rec s2 kConfigBlob = record_of rec s1 kConfigBlob"
      using mirror kConfigBlob_not_mirrored by simp
    have res: "ok = b" "s' = (if b then s2 else s1)"
      using save free enc bs sb sm
      by (cases b; simp add: cfg_save_def lease_acquire_def Let_def del: save_mirrors.simps)+
    show ?thesis
    proof (cases b)
      case True
      with res blob mirror same2 bs free show ?thesis by auto
    next
      case False
      then have "s' = s1" "\<not> ok" using res by auto
      moreover have "record_of rec s1 = record_of rec s" if "record_of rec s1 kConfigBlob = record_of rec s kConfigBlob"
        using blob that by (intro ext) metis
      ultimately show ?thesis using blob bs free by auto
    qed
  qed
  then show "k \<notin> {kConfigBlob, kLegacyWifiSsid, kLegacyWifiPass, kLegacyVin, kLegacyMqttUri, kLegacySyslogUri} \<Longrightarrow>
      record_of rec s' k = record_of rec s k"
    and "record_of rec s' kConfigBlob = record_of rec s kConfigBlob \<and> (\<not> ok \<longrightarrow> record_of rec s' = record_of rec s) \<or>
      config_fits c \<and> record_of rec s' kConfigBlob = Some (config_image (config_flags c) c)" by blast+
qed

end
