(* ===== verification/VinTransaction.thy ===== *)
theory VinTransaction
  imports PowerLoss
begin

text \<open>
  The identity change as one transaction over two flash namespaces: \<open>POST /set_vin\<close>
  (main/http_config.cpp), the controller's rotation of the key (main/vehicle_pairing.cpp), the boot's
  repair of an interrupted rotation (main/vehicle_ctrl.cpp) and of an interrupted change of the VIN
  (main/main.cpp). Decisions and record sequences are those of Identity, records go through the
  adapter of NvsStorage, the configuration through ConfigBlob. The flash driver, the tesla-ble client,
  the crypto library's fingerprint and the build's defaults are parameters. A store call that throws
  counts as failed, as in the code. The controller is initialized, so its client and storage exist; RAM
  caches, tasks, locks, the effect ledger of the reply and logging are left out.
\<close>

subsection \<open>Parameters and state\<close>

record ('n, 'c) vin_env =
  ve_api :: "'n nvs_api"
  ve_defaults :: config_defaults
  ve_client :: "'c key_client"
  ve_fingerprint :: "bytes \<Rightarrow> string"

record 'c vehicle_identity =
  vi_client :: 'c
  vi_runtime_safe :: bool
  vi_cleanup_pending :: bool
  vi_reload_required :: bool
  vi_vin_pending :: bool
  vi_date_untrusted :: bool
  vi_recovery_hint :: bool
  vi_auth_fails :: nat
  vi_fp_cache :: string

record 'n vin_world =
  vw_statics :: config_statics
  vw_cfg :: "'n nvs_store"
  vw_tesla :: "'n nvs_store"
  vw_marker_written :: bool

text \<open>The bytes of a \<open>std::string\<close> as text; its inverse is \<open>text_bytes\<close>.\<close>

definition chars_of :: "bytes \<Rightarrow> string" where
  "chars_of bs = map (\<lambda>b. char_of (unat b)) bs"

subsection \<open>The fingerprint of the stored key\<close>

definition pem_terminated :: "bytes \<Rightarrow> bytes" where
  "pem_terminated pem = (if last pem \<noteq> 0 then pem @ [0] else pem)"

definition compute_key_fingerprint :: "('n, 'c) vin_env \<Rightarrow> 'n nvs_store \<Rightarrow> string \<times> 'n nvs_store" where
  "compute_key_fingerprint env s =
     (case nvs_load (ve_api env) kPrivateKey s of ((ok, pem), s') \<Rightarrow>
        (if \<not> ok \<or> pem = [] then [] else ve_fingerprint env (pem_terminated pem), s'))"

definition key_fingerprint ::
    "('n, 'c) vin_env \<Rightarrow> 'c vehicle_identity \<Rightarrow> 'n nvs_store \<Rightarrow> string \<times> 'c vehicle_identity \<times> 'n nvs_store" where
  "key_fingerprint env v s =
     (if vi_fp_cache v \<noteq> [] then (vi_fp_cache v, v, s)
      else case blob_exists (ve_api env) kPrivateKey s of (found, s1) \<Rightarrow>
        if \<not> found then ([], v, s1)
        else case compute_key_fingerprint env s1 of (fp, s2) \<Rightarrow>
          (fp, if fp \<noteq> [] then v\<lparr>vi_fp_cache := fp\<rparr> else v, s2))"

subsection \<open>Key rotation in the controller\<close>

text \<open>\<open>reset_ok\<close>: the in-memory sessions could be reset (the vehicle lock was taken, nothing threw).\<close>

definition clear_session_and_cache :: "('n, 'c) vin_env \<Rightarrow> bool \<Rightarrow> 'n nvs_store \<Rightarrow> bool \<times> 'n nvs_store" where
  "clear_session_and_cache env reset_ok s =
     (let (v, s1) = nvs_remove (ve_api env) kSessionVcsec s;
          (i, s2) = nvs_remove (ve_api env) kSessionInfotainment s1;
          (p, s3) = nvs_remove (ve_api env) kPairedAt s2
      in (reset_ok \<and> v \<and> i \<and> p, s3))"

definition finish_key_rotation_cleanup ::
    "('n, 'c) vin_env \<Rightarrow> bool \<Rightarrow> 'c vehicle_identity \<Rightarrow> 'n nvs_store \<Rightarrow> bool \<times> 'c vehicle_identity \<times> 'n nvs_store" where
  "finish_key_rotation_cleanup env reset_ok v s =
     (case clear_session_and_cache env reset_ok s of (cleared, s1) \<Rightarrow>
        if \<not> cleared then (False, v, s1)
        else case retire_key_rotation_journal (nvs_remove (ve_api env)) (vi_date_untrusted v) s1 of
          (retired, untrusted, s2) \<Rightarrow>
            let v1 = v\<lparr>vi_date_untrusted := untrusted\<rparr> in
            if retired \<noteq> JournalRetired then (False, v1, s2)
            else (True, v1\<lparr>vi_cleanup_pending := False, vi_reload_required := False, vi_runtime_safe := True,
                    vi_recovery_hint := False, vi_auth_fails := 0\<rparr>, s2))"

definition regenerate_key_native ::
    "('n, 'c) vin_env \<Rightarrow> 'c vehicle_identity \<Rightarrow> 'n nvs_store \<Rightarrow> bool \<times> 'c vehicle_identity \<times> 'n nvs_store" where
  "regenerate_key_native env v s =
     (case regenerate_private_key (ve_client env) (nvs_save (ve_api env) kPrivateKey) kPrivateKeyPemCapacity
             (vi_client v) s of
        (result, c, s') \<Rightarrow> (result = Committed, v\<lparr>vi_client := c\<rparr>, s'))"

text \<open>\<open>date\<close>: the decimal time to stamp, when the clock is authoritative and its time is plausible.\<close>

definition stamp_key_date ::
    "('n, 'c) vin_env \<Rightarrow> bytes option \<Rightarrow> 'c vehicle_identity \<Rightarrow> 'n nvs_store \<Rightarrow> 'c vehicle_identity \<times> 'n nvs_store" where
  "stamp_key_date env date v s =
     (case stamp_or_retire_key_date (date \<noteq> None)
             (\<lambda>t. case nvs_save_str (ve_api env) (Some kKeyCreated) (the date) t of (ok, t') \<Rightarrow> (Some ok, t'))
             (\<lambda>t. case nvs_remove (ve_api env) kKeyCreated t of (ok, t') \<Rightarrow> (Some ok, t')) s of
        (result, s') \<Rightarrow> (case result of
            Stamped \<Rightarrow> v\<lparr>vi_date_untrusted := False\<rparr>
          | Untrusted \<Rightarrow> v\<lparr>vi_date_untrusted := True\<rparr>
          | Retired \<Rightarrow> v, s'))"

definition generate_key_locked ::
    "('n, 'c) vin_env \<Rightarrow> bytes option \<Rightarrow> bool \<Rightarrow> 'c vehicle_identity \<Rightarrow> 'n nvs_store \<Rightarrow>
     key_rotation_result \<times> 'c vehicle_identity \<times> 'n nvs_store" where
  "generate_key_locked env date reset_ok v s =
     (if vi_reload_required v then (CommitUnknown, v, s)
      else if vi_cleanup_pending v then (CleanupPending, v, s)
      else let was_safe = vi_runtime_safe v; v1 = v\<lparr>vi_runtime_safe := False\<rparr> in
      case nvs_save (ve_api env) kKeyRotation [1] s of (marker_saved, s1) \<Rightarrow>
        if \<not> marker_saved
        then (case probe_blob (ve_api env) kKeyRotation s1 of ((probe_ok, marker_exists), s2) \<Rightarrow>
                (NotCommitted, if probe_ok \<and> \<not> marker_exists then v1\<lparr>vi_runtime_safe := was_safe\<rparr> else v1, s2))
        else case regenerate_key_native env v1 s1 of (generated, v2, s2) \<Rightarrow>
          if \<not> generated then (CommitUnknown, v2\<lparr>vi_reload_required := True, vi_fp_cache := []\<rparr>, s2)
          else case compute_key_fingerprint env s2 of (new_fp, s3) \<Rightarrow>
               case stamp_key_date env date (v2\<lparr>vi_cleanup_pending := True, vi_fp_cache := new_fp\<rparr>) s3 of (v3, s4) \<Rightarrow>
               case finish_key_rotation_cleanup env reset_ok v3 s4 of (complete, v4, s5) \<Rightarrow>
                 (if complete then RotationComplete else CleanupPending, v4, s5))"

subsection \<open>Starting over with a new vehicle\<close>

text \<open>The staging callback works on the world; whether it threw is part of its verdict.\<close>

definition reset_for_new_vehicle ::
    "('n, 'c) vin_env \<Rightarrow> bytes option \<Rightarrow> bool \<Rightarrow> (string \<Rightarrow> 'n vin_world \<Rightarrow> bool \<times> 'n vin_world) \<Rightarrow>
     'c vehicle_identity \<Rightarrow> 'n vin_world \<Rightarrow> vin_transition_apply \<times> 'c vehicle_identity \<times> 'n vin_world" where
  "reset_for_new_vehicle env date reset_ok stage v w =
     (if vin_transition_recovery_blocks_staging (vi_reload_required v) (vi_cleanup_pending v)
      then (IdentityRecoveryPending, v, w)
      else case probe_blob (ve_api env) kPrivateKey (vw_tesla w) of ((probe_ok, key_present), t1) \<Rightarrow>
      case (if probe_ok \<and> key_present then key_fingerprint env v t1 else ([], v, t1)) of (previous_id, v1, t2) \<Rightarrow>
        let w1 = w\<lparr>vw_tesla := t2\<rparr> in
        if \<not> private_key_identity_verified probe_ok key_present (previous_id \<noteq> [])
        then (decide_vin_transition_apply False False NotCommitted, v1, w1)
        else let v2 = v1\<lparr>vi_vin_pending := True\<rparr> in
        case stage previous_id w1 of (staged, w2) \<Rightarrow>
          if \<not> staged then (decide_vin_transition_apply True False NotCommitted, v2, w2)
          else case generate_key_locked env date reset_ok v2 (vw_tesla w2) of (rotation, v3, t3) \<Rightarrow>
            let state = decide_vin_transition_apply True True rotation; w3 = w2\<lparr>vw_tesla := t3\<rparr> in
            if key_rotation_committed rotation
            then (case nvs_remove (ve_api env) kBleMac (vw_cfg w3) of (mac_removed, c1) \<Rightarrow>
                    (if mac_removed then state else RecoverCommittedIdentity, v3, w3\<lparr>vw_cfg := c1\<rparr>))
            else (state, v3, w3))"

subsection \<open>The request handler\<close>

definition is_http_space :: "u8 \<Rightarrow> bool" where
  "is_http_space b \<longleftrightarrow> b \<in> {0x20, 0x09, 0x0D, 0x0A}"

definition upper_byte :: "u8 \<Rightarrow> u8" where
  "upper_byte b = (if 0x61 \<le> b \<and> b \<le> 0x7A then b - 0x20 else b)"

definition normalize_vin :: "bytes \<Rightarrow> bytes" where
  "normalize_vin vin = map upper_byte (rev (dropWhile is_http_space (rev (dropWhile is_http_space vin))))"

definition set_vin_stage :: "('n, 'c) vin_env \<Rightarrow> config_blob \<Rightarrow> bytes \<Rightarrow> string \<Rightarrow> 'n vin_world \<Rightarrow> bool \<times> 'n vin_world" where
  "set_vin_stage env current vin previous_id w =
     (let marker = make_vin_transition_marker (chars_of (cfg_vin current)) previous_id in
      if marker = [] then (False, w)
      else case nvs_save_str (ve_api env) (Some kVinTransition) (text_bytes marker) (vw_cfg w) of (saved, c1) \<Rightarrow>
        if \<not> saved then (False, w\<lparr>vw_cfg := c1\<rparr>)
        else case cfg_save (ve_api env) (current\<lparr>cfg_vin := vin\<rparr>) (vw_statics w) c1 of (ok, st, c2) \<Rightarrow>
          (ok, w\<lparr>vw_cfg := c2, vw_statics := st, vw_marker_written := True\<rparr>))"

text \<open>What the handler does with the transaction's verdict: whether the previous identity was restored,
  whether a boot has to recover, and the world.\<close>

definition set_vin_settle :: "('n, 'c) vin_env \<Rightarrow> config_blob \<Rightarrow> vin_transition_apply \<Rightarrow> 'n vin_world \<Rightarrow>
    (bool \<times> bool) \<times> 'n vin_world" where
  "set_vin_settle env current state w =
     (if state = StageFailed \<or> state = RollBackPreviousIdentity
      then if \<not> vw_marker_written w then ((True, False), w)
           else (case cfg_save (ve_api env) current (vw_statics w) (vw_cfg w) of (rolled_back, st, c1) \<Rightarrow>
             let w1 = w\<lparr>vw_cfg := c1, vw_statics := st\<rparr> in
             if \<not> rolled_back then ((False, True), w1)
             else case nvs_remove (ve_api env) kVinTransition c1 of (gone, c2) \<Rightarrow>
               ((gone, \<not> gone), w1\<lparr>vw_cfg := c2\<rparr>))
      else if state = RecoverAmbiguousIdentity \<or> state = RecoverCommittedIdentity then ((False, True), w)
      else if state = ApplyComplete
      then (case nvs_remove (ve_api env) kVinTransition (vw_cfg w) of (gone, c1) \<Rightarrow>
              ((False, False), w\<lparr>vw_cfg := c1\<rparr>))
      else ((False, False), w))"

datatype set_vin_reason = VinFieldRequired | ConfigUnreadable | VinUnchanged | VinImplausible | VinChangeBlocked
  | VinSaved | VinIdentityUnverified | VinRecoveryPending | VinKeyAmbiguous | VinCleanupIncomplete
  | VinRestored | VinIncomplete | VinStagingFailed

record set_vin_reply =
  sv_code :: nat
  sv_ok :: bool
  sv_reboot :: bool
  sv_reason :: set_vin_reason

definition set_vin_reason_of :: "vin_transition_apply \<Rightarrow> bool \<Rightarrow> bool \<Rightarrow> set_vin_reason" where
  "set_vin_reason_of state restored recovery_pending =
     (if state = ApplyComplete then VinSaved
      else if state = IdentityUnverified then VinIdentityUnverified
      else if state = IdentityRecoveryPending then VinRecoveryPending
      else if state = RecoverAmbiguousIdentity then VinKeyAmbiguous
      else if state = RecoverCommittedIdentity then VinCleanupIncomplete
      else if restored then VinRestored
      else if recovery_pending then VinIncomplete else VinStagingFailed)"

definition early_reply :: "nat \<Rightarrow> bool \<Rightarrow> set_vin_reason \<Rightarrow> set_vin_reply" where
  "early_reply code ok reason = \<lparr>sv_code = code, sv_ok = ok, sv_reboot = False, sv_reason = reason\<rparr>"

text \<open>\<open>submitted\<close>: the body's \<open>vin\<close> string, if there is one; \<open>identity_guard\<close>: the update gate admits a
  change of identity.\<close>

definition handle_set_vin ::
    "('n, 'c) vin_env \<Rightarrow> bytes option \<Rightarrow> bool \<Rightarrow> bool \<Rightarrow> bytes option \<Rightarrow> 'c vehicle_identity \<Rightarrow> 'n vin_world \<Rightarrow>
     set_vin_reply \<times> 'c vehicle_identity \<times> 'n vin_world" where
  "handle_set_vin env date reset_ok identity_guard submitted v w0 =
     (case submitted of None \<Rightarrow> (early_reply 400 False VinFieldRequired, v, w0)
      | Some text \<Rightarrow>
        let vin = normalize_vin text in
        case cfg_load_for_update (ve_api env) (ve_defaults env) new_config_blob (vw_cfg w0) of ((loaded, current), c1) \<Rightarrow>
          let w = w0\<lparr>vw_cfg := c1\<rparr> in
          if \<not> loaded then (early_reply 503 False ConfigUnreadable, v, w)
          else if vin = cfg_vin current then (early_reply 200 True VinUnchanged, v, w)
          else if \<not> vin_is_plausible (chars_of vin) then (early_reply 400 False VinImplausible, v, w)
          else if \<not> identity_guard then (early_reply 503 False VinChangeBlocked, v, w)
          else case reset_for_new_vehicle env date reset_ok (set_vin_stage env current vin) v
                      (w\<lparr>vw_marker_written := False\<rparr>) of (state, v1, w1) \<Rightarrow>
            case set_vin_settle env current state w1 of ((restored, recovery_pending), w2) \<Rightarrow>
              let ok = (state = ApplyComplete); blocked = (state = IdentityRecoveryPending) in
              (\<lparr>sv_code = (if ok then 200 else if blocked then 409 else if state = IdentityUnverified then 503 else 500),
                sv_ok = ok, sv_reboot = (state \<noteq> IdentityUnverified \<and> \<not> blocked),
                sv_reason = set_vin_reason_of state restored recovery_pending\<rparr>, v1, w2))"

subsection \<open>The boot\<close>

definition recover_pending_key_rotation_at_boot ::
    "('n, 'c) vin_env \<Rightarrow> 'c vehicle_identity \<Rightarrow> 'n nvs_store \<Rightarrow> (bool \<times> bool) \<times> 'c vehicle_identity \<times> 'n nvs_store" where
  "recover_pending_key_rotation_at_boot env v s =
     (case probe_blob (ve_api env) kKeyRotation s of ((probe_ok, marker_present), s1) \<Rightarrow>
      case classify_key_rotation_marker_probe probe_ok marker_present of
        MarkerError \<Rightarrow> ((False, False), v, s1)
      | probe \<Rightarrow>
        if decide_key_rotation_boot (probe = MarkerPresent) False False False = BootReady then ((True, False), v, s1)
        else let v1 = v\<lparr>vi_runtime_safe := False, vi_cleanup_pending := True\<rparr> in
        case run_key_rotation_boot_cleanup (nvs_remove (ve_api env)) s1 of (cleanup, s2) \<Rightarrow>
          if cleanup_state cleanup \<noteq> BootReady then ((False, False), v1, s2)
          else ((True, True), v1\<lparr>vi_cleanup_pending := False\<rparr>, s2))"

definition new_vehicle_identity :: "'c \<Rightarrow> 'c vehicle_identity" where
  "new_vehicle_identity c = \<lparr>vi_client = c, vi_runtime_safe = False, vi_cleanup_pending = False,
     vi_reload_required = False, vi_vin_pending = False, vi_date_untrusted = False, vi_recovery_hint = False,
     vi_auth_fails = 0, vi_fp_cache = []\<rparr>"

text \<open>The identity part of the controller's initialization, with the fresh client \<open>c0\<close>; None refuses it.\<close>

definition vehicle_init :: "('n, 'c) vin_env \<Rightarrow> 'c \<Rightarrow> 'n nvs_store \<Rightarrow> 'c vehicle_identity option \<times> 'n nvs_store" where
  "vehicle_init env c0 s =
     (case recover_pending_key_rotation_at_boot env (new_vehicle_identity c0) s of ((ready, recovered), v, s1) \<Rightarrow>
      if \<not> ready then (None, s1)
      else case probe_blob (ve_api env) kPrivateKey s1 of ((probe_ok, stored), s2) \<Rightarrow>
        if \<not> probe_ok then (None, s2)
        else if \<not> stored then (Some (v\<lparr>vi_runtime_safe := False\<rparr>), s2)
        else case nvs_load (ve_api env) kPrivateKey s2 of ((loaded, key_bytes), s3) \<Rightarrow>
          let c1 = (if loaded \<and> key_bytes \<noteq> [] then snd (load_private_key (ve_client env) key_bytes c0) else c0) in
          case compute_key_fingerprint env s3 of (fp, s4) \<Rightarrow>
            (Some (v\<lparr>vi_client := c1, vi_runtime_safe := has_private_key (ve_client env) c1, vi_fp_cache := fp\<rparr>), s4))"

fun load_config_blob_verified :: "('n, 'c) vin_env \<Rightarrow> nat \<Rightarrow> config_blob \<Rightarrow> 'n nvs_store \<Rightarrow> (bool \<times> config_blob) \<times> 'n nvs_store" where
  "load_config_blob_verified env 0 out s = ((False, out), s)"
| "load_config_blob_verified env (Suc retries) out s =
     (case cfg_load_state (ve_api env) (ve_defaults env) out s of ((state, c), s') \<Rightarrow>
        if state \<noteq> CfgError then ((True, c), s') else load_config_blob_verified env retries c s')"

datatype boot_failure = ConfigNvs | JournalUnverified | TransitionConfig | ConfigUnverified | TeslaNvs
  | ControllerInit | KeyUnverified | InconsistentEvidence | RecoveryOwnership | RollbackFailed
  | MarkerCleanup | CompletionFailed

datatype boot_outcome = BootFatal boot_failure | BootRestart | BootContinues config_blob

text \<open>The journal and the configuration, before anything else is started: the action, the journal's
  content and the configuration.\<close>

definition boot_load_config :: "('n, 'c) vin_env \<Rightarrow> 'n nvs_store \<Rightarrow>
    (boot_failure + vin_journal_action \<times> vin_transition_marker \<times> config_blob) \<times> 'n nvs_store" where
  "boot_load_config env s =
     (case nvs_load_str_state (ve_api env) (Some kVinTransition) False s of ((journal, txn), s1) \<Rightarrow>
      let (parsed, marker) = (if journal = LoadPresent
            then parse_vin_transition_marker (chars_of txn) \<lparr>previous_vin = [], previous_key_id = []\<rparr>
            else (False, \<lparr>previous_vin = [], previous_key_id = []\<rparr>));
          action = decide_vin_transition_journal journal parsed in
      if action = JournalHalt then (Inl JournalUnverified, s1)
      else if action = JournalRecover
      then (case cfg_load_state (ve_api env) (ve_defaults env) new_config_blob s1 of ((state, c), s2) \<Rightarrow>
              if state = CfgError then (Inl TransitionConfig, s2)
              else (Inr (action, marker,
                      if state = CfgLegacy then c\<lparr>cfg_vin := text_bytes (previous_vin marker)\<rparr> else c), s2))
      else (case load_config_blob_verified env 3 new_config_blob s1 of ((ok, c), s2) \<Rightarrow>
              if \<not> ok then (Inl ConfigUnverified, s2) else (Inr (action, marker, c), s2)))"

text \<open>The repair under the restart lease. \<open>owner\<close>: the lease was granted.\<close>

definition boot_recover_vin :: "('n, 'c) vin_env \<Rightarrow> bool \<Rightarrow> vin_transition_recovery \<Rightarrow> vin_transition_marker \<Rightarrow>
    config_blob \<Rightarrow> 'n vin_world \<Rightarrow> boot_outcome \<times> 'n vin_world" where
  "boot_recover_vin env owner recovery marker c w =
     (let retire = (\<lambda>w. case nvs_remove (ve_api env) kVinTransition (vw_cfg w) of (gone, c1) \<Rightarrow> (gone, w\<lparr>vw_cfg := c1\<rparr>)) in
      if \<not> owner then (BootFatal RecoveryOwnership, w)
      else case recovery of
        RollBackPreviousVin \<Rightarrow>
          (case cfg_save (ve_api env) (c\<lparr>cfg_vin := text_bytes (previous_vin marker)\<rparr>) (vw_statics w) (vw_cfg w) of
             (saved, st, c1) \<Rightarrow>
               let w1 = w\<lparr>vw_cfg := c1, vw_statics := st\<rparr> in
               if \<not> saved then (BootFatal RollbackFailed, w1)
               else case retire w1 of (gone, w2) \<Rightarrow> (if gone then BootRestart else BootFatal MarkerCleanup, w2))
      | ClearMarker \<Rightarrow>
          (case retire w of (gone, w1) \<Rightarrow> (if gone then BootContinues c else BootFatal MarkerCleanup, w1))
      | CompleteNewIdentity \<Rightarrow>
          (case nvs_remove (ve_api env) kSessionVcsec (vw_tesla w) of (vcsec, t1) \<Rightarrow>
           case nvs_remove (ve_api env) kSessionInfotainment t1 of (info, t2) \<Rightarrow>
           case nvs_remove (ve_api env) kPairedAt t2 of (paired, t3) \<Rightarrow>
           case nvs_remove (ve_api env) kBleMac (vw_cfg w) of (mac, c1) \<Rightarrow>
             let w1 = w\<lparr>vw_tesla := t3, vw_cfg := c1\<rparr> in
             if \<not> vin_transition_cleanup_ready_for_marker_removal vcsec info paired mac
             then (BootFatal CompletionFailed, w1)
             else case retire w1 of (gone, w2) \<Rightarrow> (if gone then BootRestart else BootFatal MarkerCleanup, w2))
      | HaltInconsistent \<Rightarrow> (BootFatal InconsistentEvidence, w))"

definition vin_boot :: "('n, 'c) vin_env \<Rightarrow> bool \<Rightarrow> 'c \<Rightarrow> 'n \<times> 'n \<Rightarrow> boot_outcome \<times> ('n \<times> 'n)" where
  "vin_boot env owner c0 devs =
     (let finish = (\<lambda>out cs ts. (out, (nvs_dev cs, nvs_dev ts)));
          ts0 = new_nvs_store kTeslaBleNamespace (snd devs) in
      case nvs_initialize (ve_api env) kConfigNamespace (new_nvs_store kConfigNamespace (fst devs)) of (opened, cs0) \<Rightarrow>
      if \<not> opened then finish (BootFatal ConfigNvs) cs0 ts0
      else case boot_load_config env cs0 of
        (Inl failure, cs1) \<Rightarrow> finish (BootFatal failure) cs1 ts0
      | (Inr (action, marker, c), cs1) \<Rightarrow>
          case nvs_initialize (ve_api env) kTeslaBleNamespace ts0 of (opened_t, ts1) \<Rightarrow>
          if \<not> opened_t then finish (BootFatal TeslaNvs) cs1 ts1
          else case vehicle_init env c0 ts1 of
            (None, ts2) \<Rightarrow> finish (BootFatal ControllerInit) cs1 ts2
          | (Some v, ts2) \<Rightarrow>
              if action \<noteq> JournalRecover then finish (BootContinues c) cs1 ts2
              else case probe_blob (ve_api env) kPrivateKey ts2 of ((probe_ok, present), ts3) \<Rightarrow>
              case key_fingerprint env v ts3 of (current_key, v1, ts4) \<Rightarrow>
                if \<not> vin_transition_key_evidence_verified (previous_key_id marker) current_key probe_ok present
                then finish (BootFatal KeyUnverified) cs1 ts4
                else let recovery = decide_vin_transition_recovery marker (chars_of (cfg_vin c)) current_key in
                  if recovery = HaltInconsistent then finish (BootFatal InconsistentEvidence) cs1 ts4
                  else case boot_recover_vin env owner recovery marker c
                        \<lparr>vw_statics = cfg_init_wifi_rollback_status (wifi_rolled_back c) new_statics, vw_cfg = cs1, vw_tesla = ts4, vw_marker_written = False\<rparr> of
                    (out, w) \<Rightarrow> finish out (vw_cfg w) (vw_tesla w))"

subsection \<open>Text and bytes\<close>

lemma chars_of_inverse [simp]: "text_bytes (chars_of b) = b" "chars_of (text_bytes t) = t"
proof -
  have "map (\<lambda>x. of_nat (code_of (char_of (unat x)))) b = b" for b :: bytes
    using unat_byte_less by (induction b) simp_all
  then show "text_bytes (chars_of b) = b" by (simp add: text_bytes_def chars_of_def comp_def)
  have "char_of (unat (of_nat (code_of c) :: u8)) = c" for c
    by (simp add: unat_of_nat)
  then show "chars_of (text_bytes t) = t" by (simp add: text_bytes_def chars_of_def comp_def)
qed

end
