(* ===== verification/VinSafety.thy ===== *)
theory VinSafety
  imports VinTransaction
begin

text \<open>
  The identity change of VinTransaction is atomic: an invariant over the records of both namespaces that
  the request handler, whatever the flash does, leaves behind, that every boot keeps, and that lets a
  boot which comes through run one of the two consistent identities only. Each function of the
  transaction has one lemma that says what it does to the records.
\<close>

subsection \<open>The invariant of a change of the VIN\<close>

definition stored_key_id :: "('n, 'c) vin_env \<Rightarrow> bytes option \<Rightarrow> string" where
  "stored_key_id env r = (case r of None \<Rightarrow> []
     | Some pem \<Rightarrow> if pem = [] then [] else ve_fingerprint env (pem_terminated pem))"

text \<open>Another key than \<open>old_key\<close>, told apart by its fingerprint.\<close>

definition other_key :: "('n, 'c) vin_env \<Rightarrow> bytes option \<Rightarrow> bytes option \<Rightarrow> bool" where
  "other_key env old_key r \<longleftrightarrow> stored_key_id env r \<noteq> [] \<and> stored_key_id env r \<noteq> stored_key_id env old_key"

lemma other_key_ne: "other_key env old_key r \<Longrightarrow> r \<noteq> old_key"
  by (auto simp: other_key_def)

text \<open>The VIN a set of configuration records names: that of the blob, or of the legacy key without one.\<close>

definition vin_named :: "config_defaults \<Rightarrow> (string \<Rightarrow> bytes option) \<Rightarrow> bytes \<Rightarrow> bool" where
  "vin_named defs rc vin \<longleftrightarrow> (case rc kConfigBlob of
       None \<Rightarrow> legacy_value (rc kLegacyVin) (default_vin defs) vin
     | Some img \<Rightarrow> \<exists>c. config_blob_decode (Some img) new_config_blob = (True, c) \<and> cfg_vin c = vin)"

definition blob_vin :: "(string \<Rightarrow> bytes option) \<Rightarrow> bytes \<Rightarrow> bool" where
  "blob_vin rc vin \<longleftrightarrow> (\<exists>img c. rc kConfigBlob = Some img \<and> config_blob_decode (Some img) new_config_blob = (True, c) \<and>
     cfg_vin c = vin)"

definition sessions_clear :: "(string \<Rightarrow> bytes option) \<Rightarrow> bool" where
  "sessions_clear rt \<longleftrightarrow> rt kSessionVcsec = None \<and> rt kSessionInfotainment = None \<and> rt kPairedAt = None"

definition transition_record :: "('n, 'c) vin_env \<Rightarrow> bytes option \<Rightarrow> bytes \<Rightarrow> bytes" where
  "transition_record env old_key old_vin =
     c_str (text_bytes (make_vin_transition_marker (chars_of old_vin) (stored_key_id env old_key)))"

text \<open>What holds of the records of both namespaces at every moment from the request on: the key has
  changed only where the new VIN is named and the old key's sessions are gone or their erasure is
  journalled; without the VIN journal the pair is the old one or the new one, the new one without
  the old car's address.\<close>

definition txn_inv :: "('n, 'c) vin_env \<Rightarrow> bytes option \<Rightarrow> bytes \<Rightarrow> bytes \<Rightarrow>
    (string \<Rightarrow> bytes option) \<Rightarrow> (string \<Rightarrow> bytes option) \<Rightarrow> bool" where
  "txn_inv env old_key old_vin new_vin rc rt \<longleftrightarrow>
     rc kVinTransition \<in> {None, Some (transition_record env old_key old_vin)} \<and>
     (vin_named (ve_defaults env) rc old_vin \<or> blob_vin rc new_vin) \<and>
     (rt kPrivateKey \<noteq> old_key \<longrightarrow> other_key env old_key (rt kPrivateKey) \<and>
        blob_vin rc new_vin \<and> (sessions_clear rt \<or> rt kKeyRotation \<noteq> None)) \<and>
     (rc kVinTransition = None \<longrightarrow>
        (if rt kPrivateKey = old_key then vin_named (ve_defaults env) rc old_vin else rc kBleMac = None))"

definition flash_ok :: "('n, 'c) vin_env \<Rightarrow> ('n \<Rightarrow> string \<Rightarrow> bytes option) \<Rightarrow> bool" where
  "flash_ok env rec \<longleftrightarrow> nvs_driver_ok (ve_api env) rec \<and> nvs_write_atomic (ve_api env) rec \<and>
     (\<forall>k d err d'. nvs_open (ve_api env) k d = (err, d') \<longrightarrow> rec d' = rec d)"

text \<open>Documented of the key generator: a generated key has a fingerprint, and another one than the key
  it replaces.\<close>

definition fresh_keys :: "('n, 'c) vin_env \<Rightarrow> bytes option \<Rightarrow> bool" where
  "fresh_keys env old_key \<longleftrightarrow> (\<forall>c cap pem.
     export_key (ve_client env) cap (snd (create_private_key (ve_client env) c)) = Some pem \<longrightarrow>
     other_key env old_key (Some pem))"

lemma flash_okD: "flash_ok env rec \<Longrightarrow> nvs_driver_ok (ve_api env) rec" "flash_ok env rec \<Longrightarrow> nvs_write_atomic (ve_api env) rec"
  by (simp_all add: flash_ok_def)

lemma txn_keys: "distinct [kConfigBlob, kLegacyWifiSsid, kLegacyWifiPass, kLegacyVin, kLegacyMqttUri, kLegacySyslogUri,
    kVinTransition, kBleMac]"
  "distinct [kPrivateKey, kSessionVcsec, kSessionInfotainment, kPairedAt, kKeyCreated, kKeyRotation]"
  by (simp_all add: nvs_names)

lemma vin_named_cong:
  "rc' kConfigBlob = rc kConfigBlob \<Longrightarrow> rc' kLegacyVin = rc kLegacyVin \<Longrightarrow> vin_named defs rc' vin = vin_named defs rc vin"
  unfolding vin_named_def by (cases "rc kConfigBlob") simp_all

lemma blob_vin_cong: "rc' kConfigBlob = rc kConfigBlob \<Longrightarrow> blob_vin rc' vin = blob_vin rc vin"
  by (simp add: blob_vin_def)

lemma blob_vin_named: "blob_vin rc vin \<Longrightarrow> vin_named defs rc vin"
  by (auto simp: blob_vin_def vin_named_def)

lemma c_str_inj: "c_str a = c_str b \<Longrightarrow> 0 \<notin> set a \<Longrightarrow> 0 \<notin> set b \<Longrightarrow> a = b"
proof -
  assume eq: "c_str a = c_str b" "0 \<notin> set a" "0 \<notin> set b"
  have "takeWhile (\<lambda>c. c \<noteq> 0) x = x" if "0 \<notin> set x" for x :: bytes
    using that by (auto simp: takeWhile_eq_all_conv)
  with eq show ?thesis by (simp add: c_str_def)
qed

lemma vin_named_unique: "vin_named defs rc a \<Longrightarrow> vin_named defs rc b \<Longrightarrow> a = b"
  using c_str_inj [of a b] by (auto simp: vin_named_def legacy_value_def split: option.splits)

lemma blob_vin_image:
  "config_fits c \<Longrightarrow> rc kConfigBlob = Some (config_image (config_flags c) c) \<Longrightarrow> blob_vin rc (cfg_vin c)"
  by (simp add: blob_vin_def decode_own_image)

subsection \<open>The rotation\<close>

lemma compute_key_fingerprint_ok:
  assumes ok: "flash_ok env rec" and eq: "compute_key_fingerprint env s = (fp, s')"
  shows "same_adapter s s' \<and> record_of rec s' = record_of rec s \<and>
    (fp \<noteq> [] \<longrightarrow> fp = stored_key_id env (record_of rec s kPrivateKey))"
proof -
  obtain b pem s1 where l: "nvs_load (ve_api env) kPrivateKey s = ((b, pem), s1)" by (metis surj_pair)
  from nvs_load_ok [OF flash_okD(1) [OF ok] l] eq l show ?thesis
    by (auto simp: compute_key_fingerprint_def stored_key_id_def split: if_splits)
qed

lemma clear_session_ok:
  assumes ok: "flash_ok env rec" and eq: "clear_session_and_cache env reset_ok s = (b, s')"
  shows "same_adapter s s' \<and> (\<forall>k. k \<notin> {kSessionVcsec, kSessionInfotainment, kPairedAt} \<longrightarrow> record_of rec s' k = record_of rec s k) \<and>
    (b \<longrightarrow> sessions_clear (record_of rec s')) \<and> (sessions_clear (record_of rec s) \<longrightarrow> sessions_clear (record_of rec s'))"
proof -
  obtain v s1 where r1: "nvs_remove (ve_api env) kSessionVcsec s = (v, s1)" by fastforce
  obtain i s2 where r2: "nvs_remove (ve_api env) kSessionInfotainment s1 = (i, s2)" by fastforce
  obtain p s3 where r3: "nvs_remove (ve_api env) kPairedAt s2 = (p, s3)" by fastforce
  have res: "b = (reset_ok \<and> v \<and> i \<and> p)" "s' = s3"
    using eq r1 r2 r3 by (simp_all add: clear_session_and_cache_def)
  note drv = flash_okD(1) [OF ok] and at = flash_okD(2) [OF ok]
  note o1 = nvs_remove_ok [OF drv r1] remove_atomic [OF drv at r1]
    and o2 = nvs_remove_ok [OF drv r2] remove_atomic [OF drv at r2]
    and o3 = nvs_remove_ok [OF drv r3] remove_atomic [OF drv at r3]
  have ne: "kSessionVcsec \<noteq> kSessionInfotainment" "kSessionVcsec \<noteq> kPairedAt" "kSessionInfotainment \<noteq> kPairedAt"
    using txn_keys(2) by simp_all
  have frame: "record_of rec s3 k = record_of rec s k" if "k \<notin> {kSessionVcsec, kSessionInfotainment, kPairedAt}" for k
    using o1(1) o2(1) o3(1) that by simp
  have vals: "record_of rec s3 kSessionVcsec = record_of rec s1 kSessionVcsec"
    "record_of rec s3 kSessionInfotainment = record_of rec s2 kSessionInfotainment"
    "record_of rec s2 kSessionInfotainment = None \<or> record_of rec s2 kSessionInfotainment = record_of rec s kSessionInfotainment"
    "record_of rec s3 kPairedAt = None \<or> record_of rec s3 kPairedAt = record_of rec s kPairedAt"
    using o1(1) o2 o3 ne by auto
  have "same_adapter s s3" using o1(1) o2(1) o3(1) by (simp add: same_adapter_def)
  moreover have "v \<and> i \<and> p \<Longrightarrow> sessions_clear (record_of rec s3)"
    using vals(1,2) o1(1) o2(1) o3(1) by (simp add: sessions_clear_def)
  moreover have "sessions_clear (record_of rec s3)" if "sessions_clear (record_of rec s)"
    using vals o1(2) that unfolding sessions_clear_def by metis
  ultimately show ?thesis using frame unfolding res by blast
qed

lemma retire_journal_frame:
  assumes ok: "flash_ok env rec"
    and eq: "retire_key_rotation_journal (nvs_remove (ve_api env)) untrusted s = (r, untrusted', s')"
  shows "same_adapter s s' \<and> (\<forall>k. k \<notin> {kKeyCreated, kKeyRotation} \<longrightarrow> record_of rec s' k = record_of rec s k)"
proof -
  note drv = flash_okD(1) [OF ok]
  obtain b1 s1 where r1: "nvs_remove (ve_api env) kKeyCreated s = (b1, s1)" by fastforce
  obtain b2 s2 where r2: "nvs_remove (ve_api env) kKeyRotation s1 = (b2, s2)" by fastforce
  obtain b3 s3 where r3: "nvs_remove (ve_api env) kKeyRotation s = (b3, s3)" by fastforce
  from nvs_remove_ok [OF drv r1] nvs_remove_ok [OF drv r2] nvs_remove_ok [OF drv r3] eq r1 r2 r3 show ?thesis
    by (cases untrusted; cases b1) (auto simp: retire_key_rotation_journal_def same_adapter_def)
qed

lemma finish_cleanup_ok:
  assumes ok: "flash_ok env rec" and eq: "finish_key_rotation_cleanup env reset_ok v s = (b, v', s')"
  shows "same_adapter s s' \<and> record_of rec s' kPrivateKey = record_of rec s kPrivateKey \<and>
    (record_of rec s' kKeyRotation = record_of rec s kKeyRotation \<or> sessions_clear (record_of rec s'))"
proof -
  obtain cleared s1 where c: "clear_session_and_cache env reset_ok s = (cleared, s1)" by fastforce
  obtain r u s2 where r: "retire_key_rotation_journal (nvs_remove (ve_api env)) (vi_date_untrusted v) s1 = (r, u, s2)"
    by (metis surj_pair)
  have s': "s' = (if cleared then s2 else s1)"
    using eq c r by (auto simp: finish_key_rotation_cleanup_def Let_def split: if_splits)
  note o1 = clear_session_ok [OF ok c] and o2 = retire_journal_frame [OF ok r]
  show ?thesis
  proof (cases cleared)
    case True
    moreover have "sessions_clear (record_of rec s2)"
      using True o1 o2 txn_keys(2) by (auto simp: sessions_clear_def)
    ultimately show ?thesis using o1 o2 txn_keys(2) s' by (auto simp: same_adapter_def)
  qed (use o1 s' txn_keys(2) in auto)
qed

lemma regenerate_native_ok:
  assumes ok: "flash_ok env rec" and fresh: "fresh_keys env old_key"
    and eq: "regenerate_key_native env v s = (generated, v', s')"
  shows "same_adapter s s' \<and> (\<forall>k. k \<noteq> kPrivateKey \<longrightarrow> record_of rec s' k = record_of rec s k) \<and>
    (record_of rec s' kPrivateKey = record_of rec s kPrivateKey \<or> other_key env old_key (record_of rec s' kPrivateKey)) \<and>
    (generated \<longrightarrow> other_key env old_key (record_of rec s' kPrivateKey))"
proof -
  obtain rc c1 where cr: "create_private_key (ve_client env) (vi_client v) = (rc, c1)" by fastforce
  note drv = flash_okD(1) [OF ok] and at = flash_okD(2) [OF ok]
  consider "\<not> generated" "s' = s"
    | pem b where "export_key (ve_client env) kPrivateKeyPemCapacity c1 = Some pem"
        "nvs_save (ve_api env) kPrivateKey pem s = (b, s')" "generated = b"
    using eq cr by (auto simp: regenerate_key_native_def regenerate_private_key_def Let_def
        split: if_splits prod.splits option.splits)
  then show ?thesis
  proof cases
    case 1
    then show ?thesis by (simp add: same_adapter_def)
  next
    case 2
    have "other_key env old_key (Some pem)" using fresh 2(1) cr unfolding fresh_keys_def by (metis snd_conv)
    with nvs_save_ok [OF drv 2(2)] save_atomic [OF drv at 2(2)] 2(3) show ?thesis by auto
  qed
qed

lemma stamp_key_date_ok:
  assumes ok: "flash_ok env rec" and eq: "stamp_key_date env date v s = (v', s')"
  shows "same_adapter s s' \<and> (\<forall>k. k \<noteq> kKeyCreated \<longrightarrow> record_of rec s' k = record_of rec s k)"
proof -
  note drv = flash_okD(1) [OF ok]
  obtain b1 s1 where w1: "nvs_save_str (ve_api env) (Some kKeyCreated) (the date) s = (b1, s1)" by fastforce
  obtain b2 s2 where w2: "nvs_remove (ve_api env) kKeyCreated s1 = (b2, s2)" by fastforce
  obtain b3 s3 where w3: "nvs_remove (ve_api env) kKeyCreated s = (b3, s3)" by fastforce
  from nvs_save_str_ok [OF drv w1] nvs_remove_ok [OF drv w2] nvs_remove_ok [OF drv w3] eq w1 w2 w3 show ?thesis
    by (cases date; cases b1; cases b2; cases b3)
      (auto simp: stamp_key_date_def stamp_or_retire_key_date_def same_adapter_def)
qed


lemma generate_key_locked_ok:
  assumes ok: "flash_ok env rec" and fresh: "fresh_keys env old_key"
    and free: "\<not> vi_reload_required v" "\<not> vi_cleanup_pending v"
    and eq: "generate_key_locked env date reset_ok v s = (r, v', s')"
  shows "same_adapter s s'"
    and "record_of rec s' kPrivateKey = record_of rec s kPrivateKey \<or> other_key env old_key (record_of rec s' kPrivateKey)"
    and "r = NotCommitted \<Longrightarrow> record_of rec s' kPrivateKey = record_of rec s kPrivateKey"
    and "key_rotation_committed r \<Longrightarrow> other_key env old_key (record_of rec s' kPrivateKey)"
    and "record_of rec s' kPrivateKey \<noteq> record_of rec s kPrivateKey \<or> key_rotation_committed r \<Longrightarrow>
      sessions_clear (record_of rec s') \<or> record_of rec s' kKeyRotation \<noteq> None"
proof -
  note drv = flash_okD(1) [OF ok]
  have ne: "kPrivateKey \<noteq> kKeyRotation" "kPrivateKey \<noteq> kKeyCreated" "kKeyRotation \<noteq> kKeyCreated"
    by (simp_all add: nvs_names)
  obtain saved s1 where w: "nvs_save (ve_api env) kKeyRotation [1] s = (saved, s1)" by fastforce
  note o1 = nvs_save_ok [OF drv w]
  have k1: "record_of rec s1 kPrivateKey = record_of rec s kPrivateKey" using o1 ne by simp
  have "same_adapter s s' \<and>
    (record_of rec s' kPrivateKey = record_of rec s kPrivateKey \<or> other_key env old_key (record_of rec s' kPrivateKey)) \<and>
    (r = NotCommitted \<longrightarrow> record_of rec s' kPrivateKey = record_of rec s kPrivateKey) \<and>
    (key_rotation_committed r \<longrightarrow> other_key env old_key (record_of rec s' kPrivateKey)) \<and>
    (record_of rec s' kPrivateKey \<noteq> record_of rec s kPrivateKey \<or> key_rotation_committed r \<longrightarrow>
      sessions_clear (record_of rec s') \<or> record_of rec s' kKeyRotation \<noteq> None)"
  proof (cases saved)
    case False
    obtain probe_ok found s2 where p: "probe_blob (ve_api env) kKeyRotation s1 = ((probe_ok, found), s2)" by (metis surj_pair)
    have res: "r = NotCommitted" "s' = s2"
      using eq free w False p by (auto simp: generate_key_locked_def Let_def split: if_splits)
    from probe_blob_ok [OF drv p] o1 k1 show ?thesis
      by (simp add: res key_rotation_committed_def same_adapter_def)
  next
    case True
    obtain generated v2 s2 where g: "regenerate_key_native env (v\<lparr>vi_runtime_safe := False\<rparr>) s1 = (generated, v2, s2)"
      by (metis surj_pair)
    note o2 = regenerate_native_ok [OF ok fresh g]
    have rot2: "record_of rec s2 kKeyRotation \<noteq> None" using o1 o2 True ne by simp
    show ?thesis
    proof (cases generated)
      case False
      have res: "r = CommitUnknown" "s' = s2"
        using eq free w True g False by (auto simp: generate_key_locked_def Let_def split: if_splits)
      from o1 o2 k1 rot2 show ?thesis
        by (simp add: res key_rotation_committed_def same_adapter_def)
    next
      case gen: True
      obtain fp s3 where f: "compute_key_fingerprint env s2 = (fp, s3)" by fastforce
      obtain v3 s4 where d: "stamp_key_date env date (v2\<lparr>vi_cleanup_pending := True, vi_fp_cache := fp\<rparr>) s3 = (v3, s4)"
        by fastforce
      obtain complete v4 s5 where c: "finish_key_rotation_cleanup env reset_ok v3 s4 = (complete, v4, s5)"
        by (metis surj_pair)
      have res: "r = (if complete then RotationComplete else CleanupPending)" "s' = s5"
        using eq free w True g gen f d c by (auto simp: generate_key_locked_def Let_def)
      note o3 = compute_key_fingerprint_ok [OF ok f] and o4 = stamp_key_date_ok [OF ok d]
        and o5 = finish_cleanup_ok [OF ok c]
      have "record_of rec s5 kPrivateKey = record_of rec s2 kPrivateKey" using o3 o4 o5 ne by simp
      moreover have "sessions_clear (record_of rec s5) \<or> record_of rec s5 kKeyRotation \<noteq> None"
        using o3 o4 o5 rot2 ne by auto
      moreover have "same_adapter s s5" using o1 o2 o3 o4 o5 by (simp add: same_adapter_def)
      ultimately show ?thesis using o2 gen by (simp add: res)
    qed
  qed
  then show "same_adapter s s'"
    and "record_of rec s' kPrivateKey = record_of rec s kPrivateKey \<or> other_key env old_key (record_of rec s' kPrivateKey)"
    and "r = NotCommitted \<Longrightarrow> record_of rec s' kPrivateKey = record_of rec s kPrivateKey"
    and "key_rotation_committed r \<Longrightarrow> other_key env old_key (record_of rec s' kPrivateKey)"
    and "record_of rec s' kPrivateKey \<noteq> record_of rec s kPrivateKey \<or> key_rotation_committed r \<Longrightarrow>
      sessions_clear (record_of rec s') \<or> record_of rec s' kKeyRotation \<noteq> None" by blast+
qed

lemma key_fingerprint_ok:
  assumes ok: "flash_ok env rec" and eq: "key_fingerprint env v s = (fp, v', s')"
    and cache: "vi_fp_cache v \<noteq> [] \<longrightarrow> vi_fp_cache v = stored_key_id env (record_of rec s kPrivateKey)"
  shows "same_adapter s s' \<and> record_of rec s' = record_of rec s \<and>
    (fp \<noteq> [] \<longrightarrow> fp = stored_key_id env (record_of rec s kPrivateKey)) \<and>
    vi_reload_required v' = vi_reload_required v \<and> vi_cleanup_pending v' = vi_cleanup_pending v"
proof (cases "vi_fp_cache v = []")
  case True
  obtain found s1 where b: "blob_exists (ve_api env) kPrivateKey s = (found, s1)" by fastforce
  obtain fp2 s2 where c: "compute_key_fingerprint env s1 = (fp2, s2)" by fastforce
  from blob_exists_reads [OF flash_okD(1) [OF ok] b] compute_key_fingerprint_ok [OF ok c] eq True b c show ?thesis
    by (auto simp: key_fingerprint_def same_adapter_def split: if_splits)
qed (use eq cache in \<open>auto simp: key_fingerprint_def same_adapter_def\<close>)

subsection \<open>Staging and settling\<close>

text \<open>The configuration records of a world under a transaction from \<open>old_vin\<close> to \<open>new_vin\<close>.\<close>

definition cfg_side :: "('n, 'c) vin_env \<Rightarrow> ('n \<Rightarrow> string \<Rightarrow> bytes option) \<Rightarrow> bytes option \<Rightarrow> bytes \<Rightarrow> bytes \<Rightarrow> 'n vin_world \<Rightarrow> bool" where
  "cfg_side env rec old_key old_vin new_vin w \<longleftrightarrow> statics_ok (vw_statics w) \<and>
     record_of rec (vw_cfg w) kVinTransition \<in> {None, Some (transition_record env old_key old_vin)} \<and>
     (vin_named (ve_defaults env) (record_of rec (vw_cfg w)) old_vin \<or>
      blob_vin (record_of rec (vw_cfg w)) new_vin) \<and>
     (vw_marker_written w \<longrightarrow> record_of rec (vw_cfg w) kVinTransition = Some (transition_record env old_key old_vin)) \<and>
     (\<not> vw_marker_written w \<longrightarrow> vin_named (ve_defaults env) (record_of rec (vw_cfg w)) old_vin)"

lemma save_named:
  assumes ok: "flash_ok env rec" and st: "statics_ok st"
    and save: "cfg_save (ve_api env) c st s = (b, st', s')"
  shows "statics_ok st' \<and> same_adapter s s'"
    and "k \<in> {kVinTransition, kBleMac} \<Longrightarrow> record_of rec s' k = record_of rec s k"
    and "b \<Longrightarrow> blob_vin (record_of rec s') (cfg_vin c)"
    and "(\<forall>k \<in> {kConfigBlob, kLegacyVin}. record_of rec s' k = record_of rec s k) \<or> blob_vin (record_of rec s') (cfg_vin c)"
proof -
  note drv = flash_okD(1) [OF ok] and at = flash_okD(2) [OF ok]
  note s = cfg_save_ok [OF drv st save] and a = cfg_save_atomic [OF drv at save st]
  show "statics_ok st' \<and> same_adapter s s'" using s by blast
  show "k \<in> {kVinTransition, kBleMac} \<Longrightarrow> record_of rec s' k = record_of rec s k"
    using a(1) [of k] txn_keys(1) by auto
  show named: "blob_vin (record_of rec s') (cfg_vin c)" if b
    using s blob_vin_image [of c "record_of rec s'"] that by blast
  show "(\<forall>k \<in> {kConfigBlob, kLegacyVin}. record_of rec s' k = record_of rec s k) \<or> blob_vin (record_of rec s') (cfg_vin c)"
  proof (cases b)
    case False
    with a(2) blob_vin_image [of c "record_of rec s'"] show ?thesis by auto
  qed (use named in blast)
qed

lemma set_vin_stage_ok:
  assumes ok: "flash_ok env rec" and st: "statics_ok (vw_statics w)" "\<not> vw_marker_written w"
    and txn: "record_of rec (vw_cfg w) kVinTransition = None"
    and old: "vin_named (ve_defaults env) (record_of rec (vw_cfg w)) (cfg_vin current)"
    and id: "previous_id = stored_key_id env old_key"
    and eq: "set_vin_stage env current vin previous_id w = (staged, w')"
  shows "vw_tesla w' = vw_tesla w \<and> cfg_side env rec old_key (cfg_vin current) vin w' \<and>
    (staged \<longrightarrow> vw_marker_written w' \<and> blob_vin (record_of rec (vw_cfg w')) vin) \<and>
    record_of rec (vw_cfg w') kBleMac = record_of rec (vw_cfg w) kBleMac"
proof -
  let ?marker = "make_vin_transition_marker (chars_of (cfg_vin current)) previous_id"
  note drv = flash_okD(1) [OF ok] and at = flash_okD(2) [OF ok]
  obtain saved c1 where w1: "nvs_save_str (ve_api env) (Some kVinTransition) (text_bytes ?marker) (vw_cfg w) = (saved, c1)"
    by fastforce
  obtain b st2 c2 where w2: "cfg_save (ve_api env) (current\<lparr>cfg_vin := vin\<rparr>) (vw_statics w) c1 = (b, st2, c2)"
    by (metis surj_pair)
  have rec_eq: "c_str (text_bytes ?marker) = transition_record env old_key (cfg_vin current)"
    by (simp add: transition_record_def id)
  note o1 = nvs_save_str_ok [OF drv w1] save_str_atomic [OF drv atomic_parts(4) [OF at] w1]
  note o2 = save_named [OF ok st(1) w2]
  have named1: "vin_named (ve_defaults env) (record_of rec c1) (cfg_vin current)"
    using old vin_named_cong [of "record_of rec c1" "record_of rec (vw_cfg w)"] o1(1) txn_keys(1) by simp
  have mac1: "record_of rec c1 kBleMac = record_of rec (vw_cfg w) kBleMac" using o1(1) by (simp add: nvs_names)
  consider "w' = w" "\<not> staged" | "w' = w\<lparr>vw_cfg := c1\<rparr>" "\<not> staged"
    | "saved" "w' = w\<lparr>vw_cfg := c2, vw_statics := st2, vw_marker_written := True\<rparr>" "staged = b"
    using eq w1 w2 by (auto simp: set_vin_stage_def Let_def split: if_splits)
  then show ?thesis
  proof cases
    case 1
    then show ?thesis using st txn old by (simp add: cfg_side_def)
  next
    case 2
    then show ?thesis using st txn o1 named1 mac1 by (auto simp: cfg_side_def rec_eq)
  next
    case 3
    then have m: "record_of rec c2 kVinTransition = Some (transition_record env old_key (cfg_vin current))"
      using o1(1) o2(2) by (simp add: rec_eq)
    have "vin_named (ve_defaults env) (record_of rec c2) (cfg_vin current) \<or> blob_vin (record_of rec c2) vin"
      using o2(4) named1 vin_named_cong [of "record_of rec c2" "record_of rec c1"] by auto
    with 3 m o2(1) o2(2) [of kBleMac] o2(3) mac1 show ?thesis by (auto simp: cfg_side_def)
  qed
qed


text \<open>The verdicts of the transaction, and what each of them promises of the records.\<close>

definition verdict_ok :: "('n, 'c) vin_env \<Rightarrow> ('n \<Rightarrow> string \<Rightarrow> bytes option) \<Rightarrow> bytes option \<Rightarrow> bytes \<Rightarrow> bytes \<Rightarrow>
    vin_transition_apply \<Rightarrow> 'n vin_world \<Rightarrow> bool" where
  "verdict_ok env rec old_key old_vin new_vin state w \<longleftrightarrow>
     cfg_side env rec old_key old_vin new_vin w \<and>
     (let rc = record_of rec (vw_cfg w); rt = record_of rec (vw_tesla w) in
       (rt kPrivateKey = old_key \<or> other_key env old_key (rt kPrivateKey)) \<and>
       (rt kPrivateKey \<noteq> old_key \<longrightarrow> sessions_clear rt \<or> rt kKeyRotation \<noteq> None) \<and>
       (state \<in> {IdentityUnverified, IdentityRecoveryPending} \<longrightarrow> rt kPrivateKey = old_key \<and>
          \<not> vw_marker_written w) \<and>
       (state \<in> {StageFailed, RollBackPreviousIdentity} \<longrightarrow> rt kPrivateKey = old_key) \<and>
       (state \<in> {RecoverAmbiguousIdentity, RecoverCommittedIdentity, ApplyComplete} \<longrightarrow>
          vw_marker_written w \<and> blob_vin rc new_vin) \<and>
       (state \<in> {RecoverCommittedIdentity, ApplyComplete} \<longrightarrow> other_key env old_key (rt kPrivateKey)) \<and>
       (state = ApplyComplete \<longrightarrow> rc kBleMac = None))"

lemma cfg_side_start:
  "statics_ok (vw_statics w) \<Longrightarrow> \<not> vw_marker_written w \<Longrightarrow> record_of rec (vw_cfg w) kVinTransition = None \<Longrightarrow>
   vin_named (ve_defaults env) (record_of rec (vw_cfg w)) old_vin \<Longrightarrow> cfg_side env rec old_key old_vin new_vin w"
  by (simp add: cfg_side_def)

lemma cfg_side_cong:
  assumes "record_of rec (vw_cfg w') kVinTransition = record_of rec (vw_cfg w) kVinTransition"
    "record_of rec (vw_cfg w') kConfigBlob = record_of rec (vw_cfg w) kConfigBlob"
    "record_of rec (vw_cfg w') kLegacyVin = record_of rec (vw_cfg w) kLegacyVin"
    "vw_statics w' = vw_statics w" "vw_marker_written w' = vw_marker_written w"
  shows "cfg_side env rec old_key old_vin new_vin w' \<longleftrightarrow> cfg_side env rec old_key old_vin new_vin w"
  using assms vin_named_cong [OF assms(2,3)] blob_vin_cong [of "record_of rec (vw_cfg w')" "record_of rec (vw_cfg w)", OF assms(2)] by (simp add: cfg_side_def)

lemma reset_for_new_vehicle_ok:
  assumes ok: "flash_ok env rec" and fresh: "fresh_keys env old_key"
    and w: "statics_ok (vw_statics w)" "\<not> vw_marker_written w" "record_of rec (vw_cfg w) kVinTransition = None"
      "vin_named (ve_defaults env) (record_of rec (vw_cfg w)) (cfg_vin current)"
    and key: "record_of rec (vw_tesla w) kPrivateKey = old_key"
    and cache: "vi_fp_cache v \<noteq> [] \<longrightarrow> vi_fp_cache v = stored_key_id env old_key"
    and eq: "reset_for_new_vehicle env date reset_ok (set_vin_stage env current vin) v w = (state, v', w')"
  shows "verdict_ok env rec old_key (cfg_vin current) vin state w'"
proof (cases "vi_reload_required v \<or> vi_cleanup_pending v")
  case True
  then have "state = IdentityRecoveryPending" "w' = w"
    using eq by (auto simp: reset_for_new_vehicle_def vin_transition_recovery_blocks_staging_def)
  then show ?thesis using cfg_side_start [OF w] w(2) key by (simp add: verdict_ok_def)
next
  case free: False
  note drv = flash_okD(1) [OF ok]
  obtain probe_ok present t1 where p: "probe_blob (ve_api env) kPrivateKey (vw_tesla w) = ((probe_ok, present), t1)"
    by (metis surj_pair)
  obtain fp v1 t2 where f: "(if probe_ok \<and> present then key_fingerprint env v t1 else ([], v, t1)) = (fp, v1, t2)"
    by (metis surj_pair)
  note o1 = probe_blob_ok [OF drv p]
  have o2: "record_of rec t2 = record_of rec (vw_tesla w)" "fp \<noteq> [] \<Longrightarrow> fp = stored_key_id env old_key"
    "\<not> vi_reload_required v1" "\<not> vi_cleanup_pending v1"
    using f o1 key_fingerprint_ok [OF ok, of v t1 fp v1 t2] free cache key by (auto split: if_splits)
  show ?thesis
  proof (cases "private_key_identity_verified probe_ok present (fp \<noteq> [])")
    case False
    then have "state = IdentityUnverified" "w' = w\<lparr>vw_tesla := t2\<rparr>"
      using eq free p f by (auto simp: reset_for_new_vehicle_def vin_transition_recovery_blocks_staging_def
          decide_vin_transition_apply_def Let_def)
    moreover have "cfg_side env rec old_key (cfg_vin current) vin (w\<lparr>vw_tesla := t2\<rparr>)"
      by (rule cfg_side_start) (use w in simp_all)
    ultimately show ?thesis using o2 key w(2) by (simp add: verdict_ok_def)
  next
    case verified: True
    have id: "fp = stored_key_id env old_key"
    proof (cases "fp = []")
      case True
      then have "\<not> present" "probe_ok" using verified by (auto simp: private_key_identity_verified_def)
      then have "old_key = None" using o1 key by simp
      with True show ?thesis by (simp add: stored_key_id_def)
    qed (use o2 in simp)
    let ?w1 = "w\<lparr>vw_tesla := t2\<rparr>"
    obtain staged w2 where s: "set_vin_stage env current vin fp ?w1 = (staged, w2)" by fastforce
    have o3: "vw_tesla w2 = t2 \<and> cfg_side env rec old_key (cfg_vin current) vin w2 \<and>
      (staged \<longrightarrow> vw_marker_written w2 \<and> blob_vin (record_of rec (vw_cfg w2)) vin)"
      using set_vin_stage_ok [OF ok, of ?w1 current fp old_key vin staged w2] w id s by simp
    have key2: "record_of rec (vw_tesla w2) kPrivateKey = old_key" using o3 o2 key by simp
    show ?thesis
    proof (cases staged)
      case False
      then have "state = StageFailed" "w' = w2"
        using eq free p f verified s by (auto simp: reset_for_new_vehicle_def vin_transition_recovery_blocks_staging_def
            decide_vin_transition_apply_def Let_def)
      then show ?thesis using o3 key2 by (simp add: verdict_ok_def)
    next
      case staged: True
      obtain rotation v3 t3 where g: "generate_key_locked env date reset_ok (v1\<lparr>vi_vin_pending := True\<rparr>) (vw_tesla w2) =
          (rotation, v3, t3)" by (metis surj_pair)
      obtain mac c1 where m: "nvs_remove (ve_api env) kBleMac (vw_cfg w2) = (mac, c1)" by fastforce
      have o4: "(record_of rec t3 kPrivateKey = old_key \<or> other_key env old_key (record_of rec t3 kPrivateKey)) \<and>
          (rotation = NotCommitted \<longrightarrow> record_of rec t3 kPrivateKey = old_key) \<and>
          (key_rotation_committed rotation \<longrightarrow> other_key env old_key (record_of rec t3 kPrivateKey)) \<and>
          (record_of rec t3 kPrivateKey \<noteq> old_key \<longrightarrow>
             sessions_clear (record_of rec t3) \<or> record_of rec t3 kKeyRotation \<noteq> None)"
        using generate_key_locked_ok [OF ok fresh _ _ g] o2 key2 by auto
      note o5 = nvs_remove_ok [OF drv m]
      let ?w3 = "w2\<lparr>vw_tesla := t3\<rparr>"
      have res: "(state, w') = (if key_rotation_committed rotation
          then (if mac then decide_vin_transition_apply True True rotation else RecoverCommittedIdentity, ?w3\<lparr>vw_cfg := c1\<rparr>)
          else (decide_vin_transition_apply True True rotation, ?w3))"
        using eq free p f verified s staged g m
        by (simp add: reset_for_new_vehicle_def vin_transition_recovery_blocks_staging_def Let_def split: if_splits)
      have side: "cfg_side env rec old_key (cfg_vin current) vin ?w3"
        "cfg_side env rec old_key (cfg_vin current) vin (?w3\<lparr>vw_cfg := c1\<rparr>)"
        "blob_vin (record_of rec c1) vin"
        using o3 o5 cfg_side_cong [of rec ?w3 w2 env] cfg_side_cong [of rec "?w3\<lparr>vw_cfg := c1\<rparr>" w2 env] staged
          blob_vin_cong [of "record_of rec c1" "record_of rec (vw_cfg w2)"] by (simp_all add: nvs_names)
      show ?thesis
        using res side o3 o4 o5 staged
        by (cases rotation; cases mac)
          (simp_all add: verdict_ok_def decide_vin_transition_apply_def key_rotation_committed_def)
    qed
  qed
qed

lemma set_vin_settle_ok:
  assumes ok: "flash_ok env rec" and v: "verdict_ok env rec old_key (cfg_vin current) vin state w"
    and ne: "cfg_vin current \<noteq> vin" and eq: "set_vin_settle env current state w = (r, w')"
  shows "txn_inv env old_key (cfg_vin current) vin (record_of rec (vw_cfg w')) (record_of rec (vw_tesla w'))"
proof -
  note drv = flash_okD(1) [OF ok] and at = flash_okD(2) [OF ok]
  let ?M = "Some (transition_record env old_key (cfg_vin current))"
  have side: "statics_ok (vw_statics w)" "record_of rec (vw_cfg w) kVinTransition \<in> {None, ?M}"
    "vin_named (ve_defaults env) (record_of rec (vw_cfg w)) (cfg_vin current) \<or> blob_vin (record_of rec (vw_cfg w)) vin"
    "vw_marker_written w \<Longrightarrow> record_of rec (vw_cfg w) kVinTransition = ?M"
    "\<not> vw_marker_written w \<Longrightarrow> vin_named (ve_defaults env) (record_of rec (vw_cfg w)) (cfg_vin current)"
    using v by (auto simp: verdict_ok_def cfg_side_def)
  let ?key = "record_of rec (vw_tesla w) kPrivateKey"
  have keys: "?key = old_key \<or> other_key env old_key ?key"
    "?key \<noteq> old_key \<Longrightarrow> sessions_clear (record_of rec (vw_tesla w)) \<or> record_of rec (vw_tesla w) kKeyRotation \<noteq> None"
    using v unfolding verdict_ok_def Let_def by blast+
  consider (restored) "state \<in> {StageFailed, RollBackPreviousIdentity}" "?key = old_key"
    | (armed) "state \<in> {RecoverAmbiguousIdentity, RecoverCommittedIdentity}" "vw_marker_written w"
        "blob_vin (record_of rec (vw_cfg w)) vin"
    | (finished) "state = ApplyComplete" "vw_marker_written w" "blob_vin (record_of rec (vw_cfg w)) vin"
        "record_of rec (vw_cfg w) kBleMac = None" "other_key env old_key ?key"
    | (refused) "state \<in> {IdentityUnverified, IdentityRecoveryPending}" "?key = old_key" "\<not> vw_marker_written w"
    using v unfolding verdict_ok_def Let_def by (cases state) simp_all
  then show ?thesis
  proof cases
    case restored
    show ?thesis
    proof (cases "vw_marker_written w")
      case False
      then have "w' = w" using eq restored(1) by (auto simp: set_vin_settle_def)
      with side(2,5) False restored(2) show ?thesis by (simp add: txn_inv_def)
    next
      case True
      obtain b st c1 where s: "cfg_save (ve_api env) current (vw_statics w) (vw_cfg w) = (b, st, c1)" by (metis surj_pair)
      obtain gone c2 where m: "nvs_remove (ve_api env) kVinTransition c1 = (gone, c2)" by fastforce
      have res: "w' = (if b then w\<lparr>vw_cfg := c2, vw_statics := st\<rparr> else w\<lparr>vw_cfg := c1, vw_statics := st\<rparr>)"
        using eq restored(1) True s m by (auto simp: set_vin_settle_def Let_def split: if_splits)
      note o1 = save_named [OF ok side(1) s] and o2 = nvs_remove_ok [OF drv m] remove_atomic [OF drv at m]
      have m1: "record_of rec c1 kVinTransition = ?M" using o1(2) side(4) True by simp
      have n1: "vin_named (ve_defaults env) (record_of rec c1) (cfg_vin current) \<or> blob_vin (record_of rec c1) vin"
        using o1(4) side(3) blob_vin_named [of "record_of rec c1" "cfg_vin current"]
          vin_named_cong [of "record_of rec c1" "record_of rec (vw_cfg w)"]
          blob_vin_cong [of "record_of rec c1" "record_of rec (vw_cfg w)"] by auto
      have n2: "b \<Longrightarrow> vin_named (ve_defaults env) (record_of rec c2) (cfg_vin current)"
        using o1(3) o2(1) blob_vin_named [of "record_of rec c1" "cfg_vin current"]
          vin_named_cong [of "record_of rec c2" "record_of rec c1"] by (simp add: nvs_names)
      show ?thesis using res m1 n1 n2 o2(2) restored(2) by (cases b) (auto simp: txn_inv_def)
    qed
  next
    case armed
    have "w' = w" using eq armed(1) by (auto simp: set_vin_settle_def)
    with armed(2,3) side(4) keys show ?thesis by (auto simp: txn_inv_def)
  next
    case finished
    obtain gone c1 where m: "nvs_remove (ve_api env) kVinTransition (vw_cfg w) = (gone, c1)" by fastforce
    have res: "w' = w\<lparr>vw_cfg := c1\<rparr>" using eq finished(1) m by (simp add: set_vin_settle_def)
    note o1 = nvs_remove_ok [OF drv m] remove_atomic [OF drv at m]
    have kept: "blob_vin (record_of rec c1) vin" "record_of rec c1 kBleMac = None"
      "record_of rec c1 kVinTransition \<in> {None, ?M}"
      using o1 finished side(4) blob_vin_cong [of "record_of rec c1" "record_of rec (vw_cfg w)"] by (auto simp: nvs_names)
    have "?key \<noteq> old_key" using finished(5) other_key_ne by blast
    with kept finished(5) keys(2) show ?thesis unfolding res by (simp add: txn_inv_def)
  next
    case refused
    have "w' = w" using eq refused(1) by (auto simp: set_vin_settle_def)
    with side(2,5) refused show ?thesis by (simp add: txn_inv_def)
  qed
qed

lemma load_names_vin:
  assumes ok: "flash_ok env rec" and l: "cfg_load_state (ve_api env) (ve_defaults env) new_config_blob s = ((state, c), s')"
    and st: "state \<noteq> CfgError"
  shows "same_adapter s s' \<and> record_of rec s' = record_of rec s \<and>
    vin_named (ve_defaults env) (record_of rec s) (cfg_vin c)"
  using cfg_load_state_ok [OF flash_okD(1) [OF ok] l] st
  by (cases state) (auto simp: vin_named_def)

lemma handle_set_vin_ok:
  assumes ok: "flash_ok env rec" and fresh: "fresh_keys env old_key"
    and w: "statics_ok (vw_statics w)" "record_of rec (vw_cfg w) kVinTransition = None"
      "vin_named (ve_defaults env) (record_of rec (vw_cfg w)) old_vin"
    and key: "record_of rec (vw_tesla w) kPrivateKey = old_key"
    and cache: "vi_fp_cache v \<noteq> [] \<longrightarrow> vi_fp_cache v = stored_key_id env old_key"
    and eq: "handle_set_vin env date reset_ok guard (Some text) v w = (reply, v', w')"
  shows "txn_inv env old_key old_vin (normalize_vin text) (record_of rec (vw_cfg w')) (record_of rec (vw_tesla w'))"
proof -
  obtain state c s1 where l: "cfg_load_state (ve_api env) (ve_defaults env) new_config_blob (vw_cfg w) = ((state, c), s1)"
    by (metis surj_pair)
  have same: "record_of rec s1 = record_of rec (vw_cfg w)"
    using cfg_load_state_ok [OF flash_okD(1) [OF ok] l] by blast
  have start: "txn_inv env old_key old_vin (normalize_vin text) (record_of rec s1) (record_of rec (vw_tesla w))"
    using w key same by (simp add: txn_inv_def)
  show ?thesis
  proof (cases "state = CfgError \<or> normalize_vin text = cfg_vin c \<or>
      \<not> vin_is_plausible (chars_of (normalize_vin text)) \<or> \<not> guard")
    case True
    then have "w' = w\<lparr>vw_cfg := s1\<rparr>"
      using eq l by (auto simp: handle_set_vin_def cfg_load_for_update_def Let_def split: if_splits)
    with start show ?thesis by simp
  next
    case False
    then have go: "state \<noteq> CfgError" "normalize_vin text \<noteq> cfg_vin c"
      "vin_is_plausible (chars_of (normalize_vin text))" "guard" by auto
    have "cfg_vin c = old_vin"
      using vin_named_unique [of "ve_defaults env" "record_of rec (vw_cfg w)"] load_names_vin [OF ok l go(1)] w(3) by blast
    note old = this
    let ?w0 = "w\<lparr>vw_cfg := s1, vw_marker_written := False\<rparr>"
    obtain st v1 w1 where r: "reset_for_new_vehicle env date reset_ok (set_vin_stage env c (normalize_vin text)) v ?w0 = (st, v1, w1)"
      by (metis surj_pair)
    obtain q w2 where t: "set_vin_settle env c st w1 = (q, w2)" by fastforce
    have "w' = w2"
      using eq l go r t by (auto simp: handle_set_vin_def cfg_load_for_update_def Let_def split: prod.splits)
    moreover have "verdict_ok env rec old_key (cfg_vin c) (normalize_vin text) st w1"
      by (rule reset_for_new_vehicle_ok [OF ok fresh _ _ _ _ _ cache r]) (use w same key old in simp_all)
    ultimately show ?thesis using set_vin_settle_ok [OF ok _ _ t] go old by auto
  qed
qed

subsection \<open>The boot keeps the invariant\<close>

lemma boot_cleanup_ok:
  assumes ok: "flash_ok env rec" and eq: "run_key_rotation_boot_cleanup (nvs_remove (ve_api env)) s = (c, s')"
  shows "same_adapter s s' \<and> (\<forall>k. k \<notin> set (kKeyRotation # peer_records) \<longrightarrow> record_of rec s' k = record_of rec s k) \<and>
    (record_of rec s' kKeyRotation = record_of rec s kKeyRotation \<or> sessions_clear (record_of rec s')) \<and>
    (sessions_clear (record_of rec s) \<longrightarrow> sessions_clear (record_of rec s')) \<and>
    (cleanup_state c = BootReady \<longrightarrow> sessions_clear (record_of rec s'))"
proof -
  note drv = flash_okD(1) [OF ok] and at = flash_okD(2) [OF ok]
  note steps = record_storage.boot_cleanup_steps [OF nvs_record_storage [OF drv] eq]
  have clear: "\<forall>k \<in> set peer_records. record_of rec s' k = None \<Longrightarrow> sessions_clear (record_of rec s')"
    by (simp add: peer_records_def sessions_clear_def)
  have last: "s' \<in> set (cleanup_trace (nvs_remove (ve_api env)) s)"
    using steps(1) last_in_set [of "cleanup_trace (nvs_remove (ve_api env)) s"]
    by (cases "cleanup_trace (nvs_remove (ve_api env)) s = []") (auto simp: cleanup_trace_def Let_def split: prod.splits)
  obtain b1 s1 where r1: "nvs_remove (ve_api env) kSessionVcsec s = (b1, s1)" by fastforce
  obtain b2 s2 where r2: "nvs_remove (ve_api env) kSessionInfotainment s1 = (b2, s2)" by fastforce
  obtain b3 s3 where r3: "nvs_remove (ve_api env) kPairedAt s2 = (b3, s3)" by fastforce
  obtain b4 s4 where r4: "nvs_remove (ve_api env) kKeyCreated s3 = (b4, s4)" by fastforce
  obtain b5 s5 where r5: "nvs_remove (ve_api env) kKeyRotation s4 = (b5, s5)" by fastforce
  have s': "s' = (if b1 \<and> b2 \<and> b3 \<and> b4 then s5 else s4)"
    using eq r1 r2 r3 r4 r5 by (auto simp: run_key_rotation_boot_cleanup_def peers_erased_def Let_def split: if_splits)
  have adapter: "same_adapter s s'"
    using nvs_remove_ok [OF drv r1] nvs_remove_ok [OF drv r2] nvs_remove_ok [OF drv r3] nvs_remove_ok [OF drv r4]
      nvs_remove_ok [OF drv r5] by (simp add: s' same_adapter_def)
  have keep: "record_of rec t k = None" if "record_of rec u k = None" "nvs_remove (ve_api env) k' u = (b, t)" for u t k k' b
    using that nvs_remove_ok [OF drv that(2)] remove_atomic [OF drv at that(2)] by (cases "k = k'") auto
  have "sessions_clear (record_of rec s')" if c: "sessions_clear (record_of rec s)"
  proof -
    have "record_of rec s' k = None" if "record_of rec s k = None" for k
      using keep [OF that r1] keep [OF _ r2] keep [OF _ r3] keep [OF _ r4] keep [OF _ r5] by (simp add: s')
    with c show ?thesis by (simp add: sessions_clear_def)
  qed
  moreover have "record_of rec s' kKeyRotation = record_of rec s kKeyRotation \<or> sessions_clear (record_of rec s')"
    using steps(3) [OF last] clear by blast
  moreover have "cleanup_state c = BootReady \<longrightarrow> sessions_clear (record_of rec s')"
    using steps(4,5) clear by blast
  ultimately show ?thesis using adapter steps(2) [OF last] by blast
qed

text \<open>The controller's part of a boot: the records of an invariant pair stay one, and once the controller
  is ready the sessions of a replaced key are gone.\<close>

lemma vehicle_init_ok:
  assumes ok: "flash_ok env rec" and eq: "vehicle_init env c0 s = (r, s')"
    and inv: "txn_inv env old_key old_vin new_vin rc (record_of rec s)"
  shows "same_adapter s s' \<and> txn_inv env old_key old_vin new_vin rc (record_of rec s') \<and>
    record_of rec s' kPrivateKey = record_of rec s kPrivateKey \<and>
    (\<forall>v. r = Some v \<longrightarrow> (record_of rec s kPrivateKey \<noteq> old_key \<longrightarrow> sessions_clear (record_of rec s')) \<and>
       (vi_fp_cache v \<noteq> [] \<longrightarrow> vi_fp_cache v = stored_key_id env (record_of rec s' kPrivateKey)))"
proof -
  note drv = flash_okD(1) [OF ok]
  let ?v0 = "new_vehicle_identity c0"
  obtain ready recovered v s1 where rp: "recover_pending_key_rotation_at_boot env ?v0 s = ((ready, recovered), v, s1)"
    by (metis surj_pair)
  obtain p_ok p_found sp where pr: "probe_blob (ve_api env) kKeyRotation s = ((p_ok, p_found), sp)" by (metis surj_pair)
  obtain cl sc where bc: "run_key_rotation_boot_cleanup (nvs_remove (ve_api env)) sp = (cl, sc)" by fastforce
  note o1 = probe_blob_ok [OF drv pr] and o2 = boot_cleanup_ok [OF ok bc]
  have rec1: "s1 = (if p_ok \<and> p_found then sc else sp)"
    "ready = (p_ok \<and> (p_found \<longrightarrow> cleanup_state cl = BootReady))" "vi_fp_cache v = []"
    using rp pr bc by (auto simp: recover_pending_key_rotation_at_boot_def classify_key_rotation_marker_probe_def
        decide_key_rotation_boot_def new_vehicle_identity_def Let_def split: if_splits)
  have key: "kPrivateKey \<notin> set (kKeyRotation # peer_records)" by (simp add: peer_records_def nvs_names)
  have frame1: "same_adapter s s1" "record_of rec s1 kPrivateKey = record_of rec s kPrivateKey"
    using o1 o2 key by (auto simp: rec1 same_adapter_def)
  have keep1: "sessions_clear (record_of rec s) \<or> record_of rec s kKeyRotation \<noteq> None \<Longrightarrow>
      sessions_clear (record_of rec s1) \<or> record_of rec s1 kKeyRotation \<noteq> None"
    using o1 o2 by (auto simp: rec1)
  have clear1: "ready \<Longrightarrow> sessions_clear (record_of rec s) \<or> record_of rec s kKeyRotation \<noteq> None \<Longrightarrow>
      sessions_clear (record_of rec s1)"
    using o1 o2 by (auto simp: rec1)
  have inv1: "txn_inv env old_key old_vin new_vin rc (record_of rec s1)"
    using inv frame1(2) keep1 by (simp add: txn_inv_def)
  have sess: "ready \<Longrightarrow> record_of rec s kPrivateKey \<noteq> old_key \<Longrightarrow> sessions_clear (record_of rec s1)"
    using clear1 inv by (simp add: txn_inv_def)
  obtain k_ok stored s2 where pk: "probe_blob (ve_api env) kPrivateKey s1 = ((k_ok, stored), s2)" by (metis surj_pair)
  obtain lo kb s3 where ld: "nvs_load (ve_api env) kPrivateKey s2 = ((lo, kb), s3)" by (metis surj_pair)
  obtain fp s4 where cf: "compute_key_fingerprint env s3 = (fp, s4)" by fastforce
  note o3 = probe_blob_ok [OF drv pk] and o4 = nvs_load_ok [OF drv ld] and o5 = compute_key_fingerprint_ok [OF ok cf]
  have same: "record_of rec s' = record_of rec s1" "same_adapter s1 s'"
    using eq rp pk ld cf o3 o4 o5 by (auto simp: vehicle_init_def same_adapter_def Let_def split: if_splits)
  have "ready \<and> (vi_fp_cache u \<noteq> [] \<longrightarrow> vi_fp_cache u = stored_key_id env (record_of rec s1 kPrivateKey))" if "r = Some u" for u
    using eq rp pk ld cf o3 o4 o5 rec1(3) that by (auto simp: vehicle_init_def Let_def split: if_splits)
  with same frame1 inv1 sess show ?thesis by (auto simp: same_adapter_def)
qed


subsection \<open>The boot's repair keeps it too\<close>

text \<open>The records of a namespace on a device.\<close>

definition cfg_records :: "('n \<Rightarrow> string \<Rightarrow> bytes option) \<Rightarrow> 'n \<Rightarrow> string \<Rightarrow> bytes option" where
  "cfg_records rec d = record_of rec (new_nvs_store kConfigNamespace d)"

definition tesla_records :: "('n \<Rightarrow> string \<Rightarrow> bytes option) \<Rightarrow> 'n \<Rightarrow> string \<Rightarrow> bytes option" where
  "tesla_records rec d = record_of rec (new_nvs_store kTeslaBleNamespace d)"

lemma new_store_kinds: "ns_kind (new_nvs_store kConfigNamespace d) = Config"
  "ns_kind (new_nvs_store kTeslaBleNamespace d) = TeslaBle"
  by (simp_all add: new_nvs_store_def classify_namespace_def nvs_names)

lemma records_of_store:
  "ns_kind s = Config \<Longrightarrow> cfg_records rec (nvs_dev s) = record_of rec s"
  "ns_kind s = TeslaBle \<Longrightarrow> tesla_records rec (nvs_dev s) = record_of rec s"
proof -
  have "rec (nvs_dev (new_nvs_store ns (nvs_dev s))) = rec (nvs_dev s)" for ns by (simp add: new_nvs_store_def)
  then show "ns_kind s = Config \<Longrightarrow> cfg_records rec (nvs_dev s) = record_of rec s"
    "ns_kind s = TeslaBle \<Longrightarrow> tesla_records rec (nvs_dev s) = record_of rec s"
    unfolding cfg_records_def tesla_records_def by (metis record_of_same new_store_kinds)+
qed

lemma initialize_ok:
  assumes ok: "flash_ok env rec" and eq: "nvs_initialize (ve_api env) ns s = (b, s')"
  shows "ns_kind s' = ns_kind s \<and> record_of rec s' = record_of rec s"
proof (cases "ns_kind s = UnknownNs")
  case False
  obtain err d where o1: "nvs_open (ve_api env) ns (nvs_dev s) = (err, d)" by fastforce
  then have "rec d = rec (nvs_dev s)" using ok unfolding flash_ok_def by blast
  with eq o1 False have "ns_kind s' = ns_kind s" "rec (nvs_dev s') = rec (nvs_dev s)"
    by (auto simp: nvs_initialize_def split: if_splits)
  with record_of_same [OF this] show ?thesis by blast
qed (use eq in \<open>simp add: nvs_initialize_def\<close>)

text \<open>The journal has no zero byte, so it is read back as it was written.\<close>

lemma nonzero_text: "0 \<notin> set (text_bytes t) \<longleftrightarrow> (\<forall>c \<in> set t. code_of c \<noteq> 0)"
proof -
  have "(of_nat (code_of c) :: u8) = 0 \<longleftrightarrow> code_of c = 0" for c
  proof -
    have "(of_nat (code_of c) :: u8) = 0 \<longleftrightarrow> 256 dvd code_of c" by (simp add: word_of_nat_eq_0_iff)
    moreover have "code_of c < 256" by (rule nat_of_char_less_256)
    ultimately show ?thesis by (metis dvd_imp_le not_le dvd_0_right not_gr_zero)
  qed
  then show ?thesis by (force simp: text_bytes_def)
qed

lemma id_chars:
  assumes valid: "vin_transition_key_id_valid key_id" and c: "c \<in> set key_id"
  shows "code_of c \<noteq> 0"
proof (cases "key_id = []")
  case False
    obtain i where i: "i < length key_id" "c = key_id ! i" using c by (metis in_set_conv_nth)
    have v: "key_id ! 2 = CHR '':''" "key_id ! 5 = CHR '':''" "key_id ! 8 = CHR '':''"
      "list_all (\<lambda>i. i = 2 \<or> i = 5 \<or> i = 8 \<or>
             (is_digit_char (key_id ! i) \<or> (65 \<le> code_of (key_id ! i) \<and> code_of (key_id ! i) \<le> 70))) [0..<length key_id]"
      using valid False unfolding vin_transition_key_id_valid_def by (metis (full_types))+
    have "i = 2 \<or> i = 5 \<or> i = 8 \<or> is_digit_char (key_id ! i) \<or> 65 \<le> code_of (key_id ! i)"
      using v(4) i(1) unfolding list_all_iff by fastforce
    then show ?thesis using v(1,2,3) i(2) by (elim disjE) (simp_all add: is_digit_char_def)
qed (use c in simp)

lemma journal_readable:
  assumes valid: "vin_transition_key_id_valid key_id" and old: "0 \<notin> set old"
  shows "0 \<notin> set (text_bytes (make_vin_transition_marker (chars_of old) key_id))"
proof -
  have digits: "c \<in> set (to_decimal n) \<Longrightarrow> code_of c \<noteq> 0" for c n
    using to_decimal_digits [of n] by (auto simp: list_all_iff is_digit_char_def)
  have vin: "c \<in> set (chars_of old) \<Longrightarrow> code_of c \<noteq> 0" for c
    using old nonzero_text [of "chars_of old"] by simp
  have "c \<in> set (make_vin_transition_marker (chars_of old) key_id) \<Longrightarrow>
      c \<in> set kVinTransitionMarkerPrefix \<or> (\<exists>n. c \<in> set (to_decimal n)) \<or> c = CHR '':'' \<or> c \<in> set (chars_of old) \<or> c \<in> set key_id" for c
    unfolding make_vin_transition_marker_def using valid by auto
  moreover have "c \<in> set kVinTransitionMarkerPrefix \<Longrightarrow> code_of c \<noteq> 0" for c
    by (auto simp: kVinTransitionMarkerPrefix_def)
  moreover have "code_of (CHR '':'') \<noteq> (0 :: nat)" by simp
  ultimately show ?thesis unfolding nonzero_text using digits vin id_chars [OF valid] by blast
qed

lemma boot_load_config_ok:
  assumes ok: "flash_ok env rec" and old: "0 \<notin> set old_vin" "length old_vin \<le> kSizeMax"
    and txn: "record_of rec s kVinTransition \<in> {None, Some (transition_record env old_key old_vin)}"
    and eq: "boot_load_config env s = (r, s')"
  shows "same_adapter s s' \<and> record_of rec s' = record_of rec s \<and>
    (\<forall>action marker c. r = Inr (action, marker, c) \<longrightarrow>
       (action \<noteq> JournalRecover \<longrightarrow> record_of rec s kVinTransition = None \<and> vin_named (ve_defaults env) (record_of rec s) (cfg_vin c)) \<and>
       (action = JournalRecover \<longrightarrow> marker = \<lparr>previous_vin = chars_of old_vin, previous_key_id = stored_key_id env old_key\<rparr> \<and>
          (if record_of rec s kConfigBlob = None then cfg_vin c = old_vin else blob_vin (record_of rec s) (cfg_vin c))))"
proof -
  note drv = flash_okD(1) [OF ok]
  let ?none = "\<lparr>previous_vin = [], previous_key_id = []\<rparr>"
  obtain journal raw s1 where j: "nvs_load_str_state (ve_api env) (Some kVinTransition) False s = ((journal, raw), s1)"
    by (metis surj_pair)
  note o1 = nvs_load_str_state_ok [OF drv j]
  obtain parsed mk0 where m: "(if journal = LoadPresent then parse_vin_transition_marker (chars_of raw) ?none
      else (False, ?none)) = (parsed, mk0)" by fastforce
  have marker: "mk0 = \<lparr>previous_vin = chars_of old_vin, previous_key_id = stored_key_id env old_key\<rparr>"
    if present: "journal = LoadPresent"
  proof -
    let ?t = "make_vin_transition_marker (chars_of old_vin) (stored_key_id env old_key)"
    have cs: "c_str raw = c_str (text_bytes ?t)" "0 \<notin> set raw" "raw \<noteq> []"
      using o1 present txn by (auto simp: transition_record_def)
    have valid: "vin_transition_key_id_valid (stored_key_id env old_key)"
    proof (rule ccontr)
      assume "\<not> ?thesis"
      then have "?t = []" by (simp add: make_vin_transition_marker_def)
      with cs c_str_inj [of raw "[]"] show False by (simp add: text_bytes_def)
    qed
    have "raw = text_bytes ?t" using c_str_inj [OF cs(1,2)] journal_readable [OF valid old(1)] by simp
    moreover have "length (chars_of old_vin) \<le> kSizeMax" using old(2) by (simp add: chars_of_def)
    ultimately show ?thesis using m present parse_make_marker [OF valid, of "chars_of old_vin" ?none] by simp
  qed
  have retry: "same_adapter u u' \<and> record_of rec u' = record_of rec u \<and>
      (b \<longrightarrow> vin_named (ve_defaults env) (record_of rec u) (cfg_vin c'))"
    if "load_config_blob_verified env n new_config_blob u = ((b, c'), u')" for n u u' b c'
    using that
  proof (induction n arbitrary: u)
    case (Suc n)
    obtain st c2 u2 where l: "cfg_load_state (ve_api env) (ve_defaults env) new_config_blob u = ((st, c2), u2)"
      by (metis surj_pair)
    note o2 = cfg_load_state_ok [OF drv l] and o3 = load_names_vin [OF ok l]
    show ?case
    proof (cases "st = CfgError")
      case True
      then have "load_config_blob_verified env n new_config_blob u2 = ((b, c'), u')" using Suc.prems l o2 by simp
      from Suc.IH [OF this] o2 show ?thesis by (simp add: same_adapter_def)
    qed (use Suc.prems l o3 in simp)
  qed (simp add: same_adapter_def)
  obtain st c s2 where l: "cfg_load_state (ve_api env) (ve_defaults env) new_config_blob s1 = ((st, c), s2)" by (metis surj_pair)
  obtain b c3 s3 where v: "load_config_blob_verified env 3 new_config_blob s1 = ((b, c3), s3)" by (metis surj_pair)
  note o2 = cfg_load_state_ok [OF drv l] and o3 = retry [OF v]
  have frame: "same_adapter s s' \<and> record_of rec s' = record_of rec s"
    using eq j m l v o1 o2 o3 by (auto simp: boot_load_config_def Let_def same_adapter_def split: if_splits)
  have res: "(action \<noteq> JournalRecover \<longrightarrow> journal = LoadMissing \<and> c' = c3 \<and> b) \<and>
      (action = JournalRecover \<longrightarrow> journal = LoadPresent \<and> mk = mk0 \<and> st \<noteq> CfgError \<and>
         c' = (if st = CfgLegacy then c\<lparr>cfg_vin := text_bytes (previous_vin mk0)\<rparr> else c))"
    if "r = Inr (action, mk, c')" for action mk c'
    using eq j m l v that
    by (auto simp: boot_load_config_def decide_vin_transition_journal_def Let_def split: if_splits)
  have "(action \<noteq> JournalRecover \<longrightarrow> record_of rec s kVinTransition = None \<and> vin_named (ve_defaults env) (record_of rec s) (cfg_vin c')) \<and>
       (action = JournalRecover \<longrightarrow> mk = \<lparr>previous_vin = chars_of old_vin, previous_key_id = stored_key_id env old_key\<rparr> \<and>
          (if record_of rec s kConfigBlob = None then cfg_vin c' = old_vin else blob_vin (record_of rec s) (cfg_vin c')))"
    if r: "r = Inr (action, mk, c')" for action mk c'
  proof (cases "action = JournalRecover")
    case True
    with res [OF r] marker have rr: "mk = \<lparr>previous_vin = chars_of old_vin, previous_key_id = stored_key_id env old_key\<rparr>"
      "st \<noteq> CfgError" "c' = (if st = CfgLegacy then c\<lparr>cfg_vin := old_vin\<rparr> else c)" by auto
    with o1 o2 True show ?thesis by (cases st) (auto simp: blob_vin_def)
  next
    case False
    with res [OF r] o1 o3 show ?thesis by auto
  qed
  with frame show ?thesis by blast
qed


text \<open>The recovery block, given the evidence: it repairs what the invariant allows.\<close>

lemma txn_inv_retire:
  assumes inv: "txn_inv env old_key old_vin new_vin rc rt"
    and settled: "if rt kPrivateKey = old_key then vin_named (ve_defaults env) rc old_vin else rc kBleMac = None"
    and frame: "\<And>k. k \<noteq> kVinTransition \<Longrightarrow> rc' k = rc k"
    and at: "rc' kVinTransition = rc kVinTransition \<or> rc' kVinTransition = None"
  shows "txn_inv env old_key old_vin new_vin rc' rt"
proof -
  have k: "rc' kConfigBlob = rc kConfigBlob" "rc' kLegacyVin = rc kLegacyVin" "rc' kBleMac = rc kBleMac"
    by (intro frame; simp add: nvs_names)+
  have v: "vin_named d rc' x = vin_named d rc x" "blob_vin rc' x = blob_vin rc x" for d x
    using vin_named_cong [of rc' rc] blob_vin_cong [of rc' rc] k by simp_all
  from inv settled at show ?thesis unfolding txn_inv_def v k by auto
qed

lemma boot_recover_vin_ok:
  assumes ok: "flash_ok env rec" and st: "statics_ok (vw_statics w)"
    and inv: "txn_inv env old_key old_vin new_vin (record_of rec (vw_cfg w)) (record_of rec (vw_tesla w))"
    and ne: "old_vin \<noteq> new_vin"
    and named: "vin_named (ve_defaults env) (record_of rec (vw_cfg w)) (cfg_vin c)"
    and txn: "record_of rec (vw_cfg w) kVinTransition \<noteq> None"
    and recovery: "recovery = decide_vin_transition_recovery
        \<lparr>previous_vin = chars_of old_vin, previous_key_id = stored_key_id env old_key\<rparr> (chars_of (cfg_vin c))
        (stored_key_id env (record_of rec (vw_tesla w) kPrivateKey))"
    and eq: "boot_recover_vin env owner recovery
        \<lparr>previous_vin = chars_of old_vin, previous_key_id = stored_key_id env old_key\<rparr> c w = (out, w')"
  shows "recovery \<noteq> HaltInconsistent \<and> out \<noteq> BootFatal InconsistentEvidence \<and>
    same_adapter (vw_cfg w) (vw_cfg w') \<and> same_adapter (vw_tesla w) (vw_tesla w') \<and>
    txn_inv env old_key old_vin new_vin (record_of rec (vw_cfg w')) (record_of rec (vw_tesla w')) \<and>
    record_of rec (vw_tesla w') kPrivateKey = record_of rec (vw_tesla w) kPrivateKey \<and>
    (sessions_clear (record_of rec (vw_tesla w)) \<longrightarrow> sessions_clear (record_of rec (vw_tesla w'))) \<and>
    (\<forall>c'. out = BootContinues c' \<longrightarrow> c' = c \<and> record_of rec (vw_cfg w') kVinTransition = None \<and>
       vin_named (ve_defaults env) (record_of rec (vw_cfg w')) (cfg_vin c))"
proof -
  note drv = flash_okD(1) [OF ok] and at = flash_okD(2) [OF ok]
  let ?rc = "record_of rec (vw_cfg w)" and ?rt = "record_of rec (vw_tesla w)"
  let ?key = "?rt kPrivateKey"
  have chars: "chars_of a = chars_of b \<longleftrightarrow> a = b" for a b by (metis chars_of_inverse(1))
  have key: "?key = old_key \<or> other_key env old_key ?key" using inv by (auto simp: txn_inv_def)
  have changed: "stored_key_id env ?key = stored_key_id env old_key \<longleftrightarrow> ?key = old_key"
    using key by (auto simp: other_key_def)
  have vin: "?key \<noteq> old_key \<Longrightarrow> cfg_vin c = new_vin" "cfg_vin c = old_vin \<or> cfg_vin c = new_vin"
    using inv vin_named_unique [OF named] blob_vin_named [of ?rc new_vin "ve_defaults env"] by (auto simp: txn_inv_def)
  have rcases: "recovery = (if ?key = old_key then if cfg_vin c = old_vin then ClearMarker else RollBackPreviousVin
      else CompleteNewIdentity)"
    using changed vin ne unfolding recovery decide_vin_transition_recovery_def Let_def by (auto simp: chars)
  note goal = inv named txn
  show ?thesis
  proof (cases "owner")
    case False
    then have "out = BootFatal RecoveryOwnership" "w' = w" using eq by (simp_all add: boot_recover_vin_def)
    with inv rcases show ?thesis by (simp add: same_adapter_def)
  next
    case owner: True
    consider (clear) "?key = old_key" "cfg_vin c = old_vin" "recovery = ClearMarker"
      | (roll) "?key = old_key" "cfg_vin c \<noteq> old_vin" "recovery = RollBackPreviousVin"
      | (new) "?key \<noteq> old_key" "recovery = CompleteNewIdentity" using rcases by auto
    then show ?thesis
    proof cases
      case clear
      obtain gone c1 where m: "nvs_remove (ve_api env) kVinTransition (vw_cfg w) = (gone, c1)" by fastforce
      note o1 = nvs_remove_ok [OF drv m] remove_atomic [OF drv at m]
      have res: "w' = w\<lparr>vw_cfg := c1\<rparr>" "out = (if gone then BootContinues c else BootFatal MarkerCleanup)"
        using eq owner clear(3) m by (auto simp: boot_recover_vin_def Let_def)
      have "txn_inv env old_key old_vin new_vin (record_of rec c1) ?rt"
        by (rule txn_inv_retire [OF inv]) (use clear named o1 in auto)
      moreover have "vin_named (ve_defaults env) (record_of rec c1) (cfg_vin c)"
        using named o1(1) vin_named_cong [of "record_of rec c1" ?rc] by (simp add: nvs_names)
      ultimately show ?thesis using clear o1 res by (auto simp: same_adapter_def)
    next
      case roll
      obtain b s1 c1 where s: "cfg_save (ve_api env) (c\<lparr>cfg_vin := old_vin\<rparr>) (vw_statics w) (vw_cfg w) = (b, s1, c1)"
        by (metis surj_pair)
      obtain gone c2 where m: "nvs_remove (ve_api env) kVinTransition c1 = (gone, c2)" by fastforce
      note o1 = save_named [OF ok st s] and o2 = nvs_remove_ok [OF drv m] remove_atomic [OF drv at m]
      have res: "vw_tesla w' = vw_tesla w" "vw_cfg w' = (if b then c2 else c1)"
        "out = (if b then if gone then BootRestart else BootFatal MarkerCleanup else BootFatal RollbackFailed)"
        using eq owner roll(3) s m by (auto simp: boot_recover_vin_def Let_def split: if_splits)
      have named1: "vin_named (ve_defaults env) (record_of rec c1) old_vin \<or> blob_vin (record_of rec c1) new_vin"
        using o1(4) inv vin_named_cong [of "record_of rec c1" ?rc] blob_vin_cong [of "record_of rec c1" ?rc]
          blob_vin_named [of "record_of rec c1" old_vin "ve_defaults env"] by (auto simp: txn_inv_def)
      have marker: "record_of rec c1 kVinTransition = ?rc kVinTransition" using o1(2) by simp
      have inv1: "txn_inv env old_key old_vin new_vin (record_of rec c1) ?rt"
        using inv txn named1 marker roll(1) by (auto simp: txn_inv_def)
      have inv2: "txn_inv env old_key old_vin new_vin (record_of rec c2) ?rt" if b
        by (rule txn_inv_retire [OF inv1])
          (use that roll(1) o1(3) o2 blob_vin_named [of "record_of rec c1" old_vin "ve_defaults env"] in auto)
      show ?thesis using res inv1 inv2 o1(1) o2(1) roll(3)
        by (cases b) (auto simp: same_adapter_def)
    next
      case new
      obtain b1 t1 where r1: "nvs_remove (ve_api env) kSessionVcsec (vw_tesla w) = (b1, t1)" by fastforce
      obtain b2 t2 where r2: "nvs_remove (ve_api env) kSessionInfotainment t1 = (b2, t2)" by fastforce
      obtain b3 t3 where r3: "nvs_remove (ve_api env) kPairedAt t2 = (b3, t3)" by fastforce
      obtain b4 c1 where r4: "nvs_remove (ve_api env) kBleMac (vw_cfg w) = (b4, c1)" by fastforce
      obtain gone c2 where r5: "nvs_remove (ve_api env) kVinTransition c1 = (gone, c2)" by fastforce
      let ?all = "b1 \<and> b2 \<and> b3 \<and> b4"
      have res: "vw_tesla w' = t3" "vw_cfg w' = (if ?all then c2 else c1)"
        "out = (if ?all then if gone then BootRestart else BootFatal MarkerCleanup else BootFatal CompletionFailed)"
        using eq owner new(2) r1 r2 r3 r4 r5
        by (auto simp: boot_recover_vin_def vin_transition_cleanup_ready_for_marker_removal_def Let_def split: if_splits)
      have "clear_session_and_cache env True (vw_tesla w) = (b1 \<and> b2 \<and> b3, t3)"
        by (simp add: clear_session_and_cache_def r1 r2 r3)
      note o1 = clear_session_ok [OF ok this] and o4 = nvs_remove_ok [OF drv r4] remove_atomic [OF drv at r4]
        and o5 = nvs_remove_ok [OF drv r5] remove_atomic [OF drv at r5]
      have kept: "record_of rec t3 kPrivateKey = ?key" "record_of rec t3 kKeyRotation = ?rt kKeyRotation"
        using o1 by (simp_all add: nvs_names)
      have c1: "record_of rec c1 kConfigBlob = ?rc kConfigBlob" "record_of rec c1 kLegacyVin = ?rc kLegacyVin"
        "record_of rec c1 kVinTransition = ?rc kVinTransition"
        using o4 by (simp_all add: nvs_names)
      have "sessions_clear ?rt \<or> ?rt kKeyRotation \<noteq> None \<Longrightarrow> sessions_clear (record_of rec t3) \<or> record_of rec t3 kKeyRotation \<noteq> None"
        using o1 kept by auto
      then have inv1: "txn_inv env old_key old_vin new_vin (record_of rec c1) (record_of rec t3)"
        using inv new(1) txn kept c1 vin_named_cong [of "record_of rec c1" ?rc] blob_vin_cong [of "record_of rec c1" ?rc] by (simp add: txn_inv_def)
      have inv2: "txn_inv env old_key old_vin new_vin (record_of rec c2) (record_of rec t3)" if ?all
        by (rule txn_inv_retire [OF inv1]) (use that kept new(1) o4 o5 in auto)
      show ?thesis using res inv1 inv2 o1 o4 o5 new kept by (auto simp: same_adapter_def)
    qed
  qed
qed


lemma vin_boot_ok:
  assumes ok: "flash_ok env rec" and old: "0 \<notin> set old_vin" "length old_vin \<le> kSizeMax" and ne: "old_vin \<noteq> new_vin"
    and inv: "txn_inv env old_key old_vin new_vin (cfg_records rec (fst devs)) (tesla_records rec (snd devs))"
    and eq: "vin_boot env owner c0 devs = (out, devs')"
  shows "txn_inv env old_key old_vin new_vin (cfg_records rec (fst devs')) (tesla_records rec (snd devs')) \<and>
    out \<noteq> BootFatal InconsistentEvidence \<and>
    (\<forall>c. out = BootContinues c \<longrightarrow> cfg_records rec (fst devs') kVinTransition = None \<and>
       vin_named (ve_defaults env) (cfg_records rec (fst devs')) (cfg_vin c) \<and>
       (tesla_records rec (snd devs') kPrivateKey \<noteq> old_key \<longrightarrow> sessions_clear (tesla_records rec (snd devs'))))"
proof -
  note drv = flash_okD(1) [OF ok]
  let ?inv = "txn_inv env old_key old_vin new_vin"
  let ?ts = "new_nvs_store kTeslaBleNamespace (snd devs)"
  obtain opened cs0 where i0: "nvs_initialize (ve_api env) kConfigNamespace (new_nvs_store kConfigNamespace (fst devs)) = (opened, cs0)"
    by fastforce
  obtain r cs1 where l: "boot_load_config env cs0 = (r, cs1)" by fastforce
  obtain opened_t ts1 where i1: "nvs_initialize (ve_api env) kTeslaBleNamespace ?ts = (opened_t, ts1)" by fastforce
  obtain v ts2 where vi: "vehicle_init env c0 ts1 = (v, ts2)" by fastforce
  obtain probe_ok present ts3 where p: "probe_blob (ve_api env) kPrivateKey ts2 = ((probe_ok, present), ts3)" by (metis surj_pair)
  obtain fp v1 ts4 where f: "key_fingerprint env (the v) ts3 = (fp, v1, ts4)" by (metis surj_pair)
  note o0 = initialize_ok [OF ok i0] and o1 = initialize_ok [OF ok i1]
  have cs0: "ns_kind cs0 = Config" "record_of rec cs0 = cfg_records rec (fst devs)"
    using o0 new_store_kinds by (simp_all add: cfg_records_def)
  have ts1: "ns_kind ts1 = TeslaBle" "record_of rec ts1 = tesla_records rec (snd devs)"
    using o1 new_store_kinds by (simp_all add: tesla_records_def)
  have txn: "record_of rec cs0 kVinTransition \<in> {None, Some (transition_record env old_key old_vin)}"
    using inv cs0 by (simp add: txn_inv_def)
  note o2 = boot_load_config_ok [OF ok old txn l]
  have cs1: "ns_kind cs1 = Config" "record_of rec cs1 = cfg_records rec (fst devs)"
    using o2 cs0 by (simp_all add: same_adapter_def)
  have inv1: "?inv (cfg_records rec (fst devs)) (record_of rec ts1)" using inv ts1 by simp
  note o3 = vehicle_init_ok [OF ok vi inv1]
  have ts2: "ns_kind ts2 = TeslaBle" using o3 ts1 by (simp add: same_adapter_def)
  note o4 = probe_blob_ok [OF drv p]
  have ts3: "ns_kind ts3 = TeslaBle" "record_of rec ts3 = record_of rec ts2" using o4 ts2 by (simp_all add: same_adapter_def)
  have recs: "cfg_records rec (nvs_dev cs) = record_of rec cs" "tesla_records rec (nvs_dev ts) = record_of rec ts"
    if "ns_kind cs = Config" "ns_kind ts = TeslaBle" for cs ts using records_of_store that by blast+
  consider (closed) "\<not> opened" "out = BootFatal ConfigNvs" "devs' = (nvs_dev cs0, nvs_dev ?ts)"
    | (unread) failure where "r = Inl failure" "out = BootFatal failure" "devs' = (nvs_dev cs1, nvs_dev ?ts)"
    | (read) action marker c where "r = Inr (action, marker, c)" "opened" by (cases r) (use eq i0 l in \<open>auto simp: vin_boot_def Let_def split: if_splits\<close>)
  then show ?thesis
  proof cases
    case closed
    with inv cs0 recs [OF cs0(1) new_store_kinds(2)] show ?thesis by (simp add: tesla_records_def)
  next
    case unread
    have "failure \<noteq> InconsistentEvidence"
      using l unread(1) by (auto simp: boot_load_config_def Let_def split: if_splits prod.splits)
    with unread inv cs1 recs [OF cs1(1) new_store_kinds(2)] show ?thesis by (simp add: tesla_records_def)
  next
    case read
    have journal: "(action \<noteq> JournalRecover \<longrightarrow> cfg_records rec (fst devs) kVinTransition = None \<and>
         vin_named (ve_defaults env) (cfg_records rec (fst devs)) (cfg_vin c)) \<and>
       (action = JournalRecover \<longrightarrow> marker = \<lparr>previous_vin = chars_of old_vin, previous_key_id = stored_key_id env old_key\<rparr> \<and>
          (if cfg_records rec (fst devs) kConfigBlob = None then cfg_vin c = old_vin
           else blob_vin (cfg_records rec (fst devs)) (cfg_vin c)))"
      using o2 read cs0 by auto
    consider (tesla) "\<not> opened_t" "out = BootFatal TeslaNvs" "devs' = (nvs_dev cs1, nvs_dev ts1)"
      | (refused) "v = None" "out = BootFatal ControllerInit" "devs' = (nvs_dev cs1, nvs_dev ts2)"
      | (plain) u where "v = Some u" "action \<noteq> JournalRecover" "out = BootContinues c" "devs' = (nvs_dev cs1, nvs_dev ts2)"
      | (recover) u where "v = Some u" "action = JournalRecover" "opened_t"
      using eq i0 l read i1 vi by (cases v) (auto simp: vin_boot_def Let_def split: if_splits)
    then show ?thesis
    proof cases
      case tesla
      with inv1 cs1 recs [OF cs1(1) ts1(1)] show ?thesis by simp
    next
      case refused
      with o3 cs1 recs [OF cs1(1) ts2] show ?thesis by simp
    next
      case plain
      with o3 cs1 recs [OF cs1(1) ts2] journal show ?thesis by simp
    next
      case recover
      have cache: "vi_fp_cache u \<noteq> [] \<longrightarrow> vi_fp_cache u = stored_key_id env (record_of rec ts3 kPrivateKey)"
        using o3 recover(1) unfolding ts3(2) by blast
      have f': "key_fingerprint env u ts3 = (fp, v1, ts4)" using f recover(1) by simp
      note o5 = key_fingerprint_ok [OF ok f' cache]
      have ts4: "ns_kind ts4 = TeslaBle" "record_of rec ts4 = record_of rec ts2" using o5 ts3 by (simp_all add: same_adapter_def)
      have inv4: "?inv (record_of rec cs1) (record_of rec ts4)" using o3 cs1 ts4 by simp
      let ?m = "\<lparr>previous_vin = chars_of old_vin, previous_key_id = stored_key_id env old_key\<rparr>"
      have marker: "marker = ?m" using journal recover(2) by simp
      show ?thesis
      proof (cases "vin_transition_key_evidence_verified (previous_key_id marker) fp probe_ok present")
        case False
        then have "out = BootFatal KeyUnverified" "devs' = (nvs_dev cs1, nvs_dev ts4)"
          using eq i0 l read i1 vi recover p f' by (simp_all add: vin_boot_def Let_def)
        with inv4 recs [OF cs1(1) ts4(1)] show ?thesis by simp
      next
        case True
        then have ev: "probe_ok" "present \<longleftrightarrow> fp \<noteq> []"
          unfolding vin_transition_key_evidence_verified_def Let_def by (auto split: if_splits)
        have id: "fp = stored_key_id env (record_of rec ts4 kPrivateKey)"
        proof (cases "fp = []")
          case True
          then have "record_of rec ts2 kPrivateKey = None" using ev o4 by simp
          with True ts4 show ?thesis by (simp add: stored_key_id_def)
        qed (use o5 in simp)
        define w where "w = \<lparr>vw_statics = cfg_init_wifi_rollback_status (wifi_rolled_back c) new_statics,
          vw_cfg = cs1, vw_tesla = ts4, vw_marker_written = False\<rparr>"
        have w: "vw_cfg w = cs1" "vw_tesla w = ts4" by (simp_all add: w_def)
        let ?recovery = "decide_vin_transition_recovery marker (chars_of (cfg_vin c)) fp"
        obtain o' w' where b: "boot_recover_vin env owner ?recovery marker c w = (o', w')" by fastforce
        have st: "statics_ok (vw_statics w)"
          using statics_ok_new by (simp add: w_def cfg_init_wifi_rollback_status_def statics_ok_def)
        show ?thesis
        proof (cases "cfg_records rec (fst devs) kVinTransition = None")
          case True
          have "action \<noteq> JournalRecover"
          proof
            assume "action = JournalRecover"
            then obtain raw s1 where "nvs_load_str_state (ve_api env) (Some kVinTransition) False cs0 = ((LoadPresent, raw), s1)"
              using l read(1) by (auto simp: boot_load_config_def decide_vin_transition_journal_def Let_def
                  split: if_splits prod.splits)
            from nvs_load_str_state_ok [OF drv this] True cs0 show False by simp
          qed
          with recover show ?thesis by simp
        next
          case armed: False
          have named: "vin_named (ve_defaults env) (record_of rec (vw_cfg w)) (cfg_vin c)"
          proof (cases "cfg_records rec (fst devs) kConfigBlob = None")
            case True
            with journal recover(2) have "cfg_vin c = old_vin" by simp
            moreover have "\<not> blob_vin (cfg_records rec (fst devs)) new_vin" using True by (simp add: blob_vin_def)
            ultimately show ?thesis using inv cs1 w by (simp add: txn_inv_def)
          next
            case False
            with journal recover(2) cs1 w blob_vin_named [of "cfg_records rec (fst devs)" "cfg_vin c" "ve_defaults env"]
            show ?thesis by simp
          qed
          have rid: "?recovery = decide_vin_transition_recovery ?m (chars_of (cfg_vin c))
              (stored_key_id env (record_of rec (vw_tesla w) kPrivateKey))"
            using marker id w by simp
          have invw: "?inv (record_of rec (vw_cfg w)) (record_of rec (vw_tesla w))" using inv4 w by simp
          have txnw: "record_of rec (vw_cfg w) kVinTransition \<noteq> None" using armed w cs1 by simp
          have b': "boot_recover_vin env owner ?recovery ?m c w = (o', w')" using b marker by simp
          note o6 = boot_recover_vin_ok [OF ok st invw ne named txnw rid b', unfolded w]
          have kinds: "ns_kind (vw_cfg w') = Config" "ns_kind (vw_tesla w') = TeslaBle"
            using o6 cs1 ts4 by (simp_all add: same_adapter_def)
          have "?recovery \<noteq> HaltInconsistent" using o6 marker by simp
          then have res: "out = o'" "devs' = (nvs_dev (vw_cfg w'), nvs_dev (vw_tesla w'))"
            using eq i0 l read i1 vi recover p f' True b [unfolded w_def] by (simp_all add: vin_boot_def Let_def)
          have "record_of rec ts2 kPrivateKey \<noteq> old_key \<Longrightarrow> sessions_clear (record_of rec ts2)" using o3 recover(1) by simp
          then show ?thesis using o6 recs [OF kinds] ts4 unfolding res by auto
        qed
      qed
    qed
  qed
qed

subsection \<open>Refused requests change nothing\<close>

lemma reset_refused:
  assumes ok: "flash_ok env rec"
    and eq: "reset_for_new_vehicle env date reset_ok stage v w = (state, v', w')"
    and refused: "state \<in> {IdentityUnverified, IdentityRecoveryPending}"
  shows "vw_cfg w' = vw_cfg w \<and> record_of rec (vw_tesla w') = record_of rec (vw_tesla w) \<and>
    vw_marker_written w' = vw_marker_written w"
proof (cases "vi_reload_required v \<or> vi_cleanup_pending v")
  case True
  then show ?thesis using eq by (auto simp: reset_for_new_vehicle_def vin_transition_recovery_blocks_staging_def)
next
  case free: False
  obtain probe_ok present t1 where p: "probe_blob (ve_api env) kPrivateKey (vw_tesla w) = ((probe_ok, present), t1)"
    by (metis surj_pair)
  obtain fp v1 t2 where f: "(if probe_ok \<and> present then key_fingerprint env v t1 else ([], v, t1)) = (fp, v1, t2)"
    by (metis surj_pair)
  have t2: "record_of rec t2 = record_of rec t1"
  proof (cases "probe_ok \<and> present \<and> vi_fp_cache v = []")
    case True
    then have f': "key_fingerprint env v t1 = (fp, v1, t2)" using f by simp
    from key_fingerprint_ok [OF ok f'] True show ?thesis by simp
  qed (use f in \<open>auto simp: key_fingerprint_def split: if_splits\<close>)
  have "\<not> private_key_identity_verified probe_ok present (fp \<noteq> [])"
  proof
    assume verified: "private_key_identity_verified probe_ok present (fp \<noteq> [])"
    obtain staged w2 where s: "stage fp (w\<lparr>vw_tesla := t2\<rparr>) = (staged, w2)" by fastforce
    obtain rotation v3 t3 where g: "generate_key_locked env date reset_ok (v1\<lparr>vi_vin_pending := True\<rparr>) (vw_tesla w2) =
        (rotation, v3, t3)" by (metis surj_pair)
    obtain mac c1 where m: "nvs_remove (ve_api env) kBleMac (vw_cfg w2) = (mac, c1)" by fastforce
    show False using eq free p f verified s g m refused
      by (cases rotation; cases mac; cases staged)
        (simp_all add: reset_for_new_vehicle_def vin_transition_recovery_blocks_staging_def
          decide_vin_transition_apply_def key_rotation_committed_def Let_def)
  qed
  with eq free p f have "w' = w\<lparr>vw_tesla := t2\<rparr>"
    by (auto simp: reset_for_new_vehicle_def vin_transition_recovery_blocks_staging_def Let_def)
  with t2 probe_blob_ok [OF flash_okD(1) [OF ok] p] show ?thesis by simp
qed

lemma settle_truth:
  assumes ok: "flash_ok env rec" and v: "verdict_ok env rec old_key (cfg_vin current) vin state w"
    and eq: "set_vin_settle env current state w = ((restored, pending), w')"
  shows "(state = ApplyComplete \<longrightarrow> blob_vin (record_of rec (vw_cfg w')) vin \<and>
       other_key env old_key (record_of rec (vw_tesla w') kPrivateKey) \<and> record_of rec (vw_cfg w') kBleMac = None) \<and>
    (state \<in> {StageFailed, RollBackPreviousIdentity} \<and> restored \<longrightarrow>
       vin_named (ve_defaults env) (record_of rec (vw_cfg w')) (cfg_vin current) \<and>
       record_of rec (vw_tesla w') kPrivateKey = old_key) \<and>
    (state \<in> {IdentityUnverified, IdentityRecoveryPending} \<longrightarrow> w' = w) \<and>
    (state \<notin> {StageFailed, RollBackPreviousIdentity} \<longrightarrow> \<not> restored)"
proof (cases "state \<in> {StageFailed, RollBackPreviousIdentity}")
  case undo: True
  then have key: "record_of rec (vw_tesla w) kPrivateKey = old_key" using v unfolding verdict_ok_def Let_def by blast
  have side: "cfg_side env rec old_key (cfg_vin current) vin w" using v by (simp add: verdict_ok_def)
  show ?thesis
  proof (cases "vw_marker_written w")
    case False
    then have "w' = w" using eq undo by (auto simp: set_vin_settle_def)
    with side False key undo show ?thesis by (auto simp: cfg_side_def)
  next
    case True
    obtain b st c1 where s: "cfg_save (ve_api env) current (vw_statics w) (vw_cfg w) = (b, st, c1)" by (metis surj_pair)
    obtain gone c2 where m: "nvs_remove (ve_api env) kVinTransition c1 = (gone, c2)" by fastforce
    have res: "vw_tesla w' = vw_tesla w" "restored \<Longrightarrow> b \<and> vw_cfg w' = c2"
      using eq undo True s m by (auto simp: set_vin_settle_def Let_def split: if_splits)
    have "statics_ok (vw_statics w)" using side by (simp add: cfg_side_def)
    note o1 = save_named [OF ok this s] and o2 = nvs_remove_ok [OF flash_okD(1) [OF ok] m]
    have "b \<Longrightarrow> vin_named (ve_defaults env) (record_of rec c2) (cfg_vin current)"
      using o1(3) o2 blob_vin_named [of "record_of rec c1" "cfg_vin current"]
        vin_named_cong [of "record_of rec c2" "record_of rec c1"] by (simp add: nvs_names)
    with res key undo show ?thesis by auto
  qed
next
  case False
  show ?thesis
  proof (cases "state = ApplyComplete")
    case True
    obtain gone c1 where m: "nvs_remove (ve_api env) kVinTransition (vw_cfg w) = (gone, c1)" by fastforce
    have res: "w' = w\<lparr>vw_cfg := c1\<rparr>" "\<not> restored" using eq True m by (simp_all add: set_vin_settle_def)
    note o1 = nvs_remove_ok [OF flash_okD(1) [OF ok] m]
    have "blob_vin (record_of rec (vw_cfg w)) vin" "record_of rec (vw_cfg w) kBleMac = None"
      "other_key env old_key (record_of rec (vw_tesla w) kPrivateKey)"
      using v True unfolding verdict_ok_def Let_def by simp_all
    with o1 res True blob_vin_cong [of "record_of rec c1" "record_of rec (vw_cfg w)"] show ?thesis by (simp add: nvs_names)
  qed (use eq False in \<open>auto simp: set_vin_settle_def split: if_splits\<close>)
qed

lemma handle_set_vin_truth:
  assumes ok: "flash_ok env rec" and fresh: "fresh_keys env old_key" and w: "statics_ok (vw_statics w)"
    and txn: "record_of rec (vw_cfg w) kVinTransition = None"
    and old: "vin_named (ve_defaults env) (record_of rec (vw_cfg w)) old_vin"
    and key: "record_of rec (vw_tesla w) kPrivateKey = old_key"
    and cache: "vi_fp_cache v \<noteq> [] \<longrightarrow> vi_fp_cache v = stored_key_id env old_key"
    and eq: "handle_set_vin env date reset_ok guard (Some text) v w = (reply, v', w')"
  shows "(sv_reason reply = VinSaved \<longrightarrow> blob_vin (record_of rec (vw_cfg w')) (normalize_vin text) \<and>
       other_key env old_key (record_of rec (vw_tesla w') kPrivateKey) \<and> record_of rec (vw_cfg w') kBleMac = None) \<and>
    (sv_reason reply = VinRestored \<longrightarrow> vin_named (ve_defaults env) (record_of rec (vw_cfg w')) old_vin \<and>
       record_of rec (vw_tesla w') kPrivateKey = old_key) \<and>
    (\<not> sv_reboot reply \<longrightarrow> record_of rec (vw_cfg w') = record_of rec (vw_cfg w) \<and>
       record_of rec (vw_tesla w') = record_of rec (vw_tesla w))"
proof -
  obtain state c s1 where l: "cfg_load_state (ve_api env) (ve_defaults env) new_config_blob (vw_cfg w) = ((state, c), s1)"
    by (metis surj_pair)
  have same: "record_of rec s1 = record_of rec (vw_cfg w)"
    using cfg_load_state_ok [OF flash_okD(1) [OF ok] l] by blast
  show ?thesis
  proof (cases "state = CfgError \<or> normalize_vin text = cfg_vin c \<or>
      \<not> vin_is_plausible (chars_of (normalize_vin text)) \<or> \<not> guard")
    case True
    then have "w' = w\<lparr>vw_cfg := s1\<rparr>" "sv_reason reply \<notin> {VinSaved, VinRestored}"
      using eq l by (auto simp: handle_set_vin_def cfg_load_for_update_def early_reply_def Let_def split: if_splits)
    with same show ?thesis by simp
  next
    case False
    then have go: "state \<noteq> CfgError" "normalize_vin text \<noteq> cfg_vin c"
      "vin_is_plausible (chars_of (normalize_vin text))" "guard" by auto
    have cvin: "cfg_vin c = old_vin"
      using vin_named_unique [of "ve_defaults env" "record_of rec (vw_cfg w)"] load_names_vin [OF ok l go(1)] old by blast
    let ?w0 = "w\<lparr>vw_cfg := s1, vw_marker_written := False\<rparr>"
    obtain st v1 w1 where r: "reset_for_new_vehicle env date reset_ok (set_vin_stage env c (normalize_vin text)) v ?w0 = (st, v1, w1)"
      by (metis surj_pair)
    obtain restored pending w2 where t: "set_vin_settle env c st w1 = ((restored, pending), w2)" by (metis surj_pair)
    have res: "w' = w2" "sv_reason reply = set_vin_reason_of st restored pending"
      "sv_reboot reply \<longleftrightarrow> st \<notin> {IdentityUnverified, IdentityRecoveryPending}"
      using eq l go r t by (auto simp: handle_set_vin_def cfg_load_for_update_def Let_def)
    have verdict: "verdict_ok env rec old_key (cfg_vin c) (normalize_vin text) st w1"
      by (rule reset_for_new_vehicle_ok [OF ok fresh _ _ _ _ _ cache r]) (use w txn old same key cvin in simp_all)
    note o1 = settle_truth [OF ok verdict t] and o2 = reset_refused [OF ok r]
    have saved: "sv_reason reply = VinSaved \<longleftrightarrow> st = ApplyComplete"
      by (auto simp: res(2) set_vin_reason_of_def split: if_splits)
    have undo: "sv_reason reply = VinRestored \<Longrightarrow> st \<in> {StageFailed, RollBackPreviousIdentity} \<and> restored"
      by (cases st) (auto simp: res(2) set_vin_reason_of_def split: if_splits)
    show ?thesis
      using saved undo o1 o2 cvin same unfolding res(1,3) by (intro conjI impI) auto
  qed
qed

subsection \<open>After the request\<close>

text \<open>The devices hold given records.\<close>

definition devices_hold :: "('n \<Rightarrow> string \<Rightarrow> bytes option) \<Rightarrow> (string \<Rightarrow> bytes option) \<Rightarrow> (string \<Rightarrow> bytes option) \<Rightarrow> 'n \<times> 'n \<Rightarrow> bool" where
  "devices_hold rec rc rt devs \<longleftrightarrow> cfg_records rec (fst devs) = rc \<and> tesla_records rec (snd devs) = rt"

definition same_build :: "('n, 'c) vin_env \<Rightarrow> ('n, 'c) vin_env \<Rightarrow> bool" where
  "same_build env env' \<longleftrightarrow> ve_defaults env' = ve_defaults env \<and> ve_fingerprint env' = ve_fingerprint env"

text \<open>Any number of boots, each with a flash of its own behaviour (one that dies at any call among them),
  until a boot comes through: the last outcome and the devices. Between two boots only the records
  are the same.\<close>

inductive later_boots :: "('n, 'c) vin_env \<Rightarrow> ('n \<Rightarrow> string \<Rightarrow> bytes option) \<Rightarrow> (string \<Rightarrow> bytes option) \<Rightarrow>
    (string \<Rightarrow> bytes option) \<Rightarrow> boot_outcome option \<Rightarrow> 'n \<times> 'n \<Rightarrow> bool" for env rec rc rt where
  switched_off: "devices_hold rec rc rt devs \<Longrightarrow> later_boots env rec rc rt None devs"
| boot: "later_boots env rec rc rt out devs \<Longrightarrow> (\<And>c. out \<noteq> Some (BootContinues c)) \<Longrightarrow>
    devices_hold rec (cfg_records rec (fst devs)) (tesla_records rec (snd devs)) devs1 \<Longrightarrow>
    flash_ok env' rec \<Longrightarrow> same_build env env' \<Longrightarrow> vin_boot env' owner c0 devs1 = (out', devs') \<Longrightarrow>
    later_boots env rec rc rt (Some out') devs'"

lemma txn_inv_same_build: "same_build env env' \<Longrightarrow> txn_inv env' = txn_inv env"
proof -
  assume b: "same_build env env'"
  have id: "stored_key_id env' = stored_key_id env"
    using b by (intro ext) (simp add: stored_key_id_def same_build_def split: option.splits)
  show ?thesis using b by (intro ext) (simp add: txn_inv_def other_key_def transition_record_def id same_build_def)
qed

lemma later_boots_ok:
  assumes "later_boots env rec rc rt out devs" and old: "0 \<notin> set old_vin" "length old_vin \<le> kSizeMax" "old_vin \<noteq> new_vin"
    and inv: "txn_inv env old_key old_vin new_vin rc rt"
  shows "txn_inv env old_key old_vin new_vin (cfg_records rec (fst devs)) (tesla_records rec (snd devs)) \<and>
    out \<noteq> Some (BootFatal InconsistentEvidence) \<and>
    (\<forall>c. out = Some (BootContinues c) \<longrightarrow> cfg_records rec (fst devs) kVinTransition = None \<and>
       vin_named (ve_defaults env) (cfg_records rec (fst devs)) (cfg_vin c) \<and>
       (tesla_records rec (snd devs) kPrivateKey \<noteq> old_key \<longrightarrow> sessions_clear (tesla_records rec (snd devs))))"
  using assms(1)
proof (induction rule: later_boots.induct)
  case (switched_off devs)
  with inv show ?case by (simp add: devices_hold_def)
next
  case (boot out devs devs1 env' owner c0 out' devs')
  have "txn_inv env' old_key old_vin new_vin (cfg_records rec (fst devs1)) (tesla_records rec (snd devs1))"
    using boot by (simp add: devices_hold_def txn_inv_same_build)
  from vin_boot_ok [OF boot(4) old this boot(6)] boot(5) show ?case
    by (simp add: txn_inv_same_build) (simp add: same_build_def)
qed

lemma settled_identity:
  assumes inv: "txn_inv env old_key old_vin new_vin rc rt" and ne: "old_vin \<noteq> new_vin"
    and txn: "rc kVinTransition = None" and named: "vin_named (ve_defaults env) rc vin"
  shows "rt kPrivateKey = old_key \<and> vin = old_vin \<or>
    other_key env old_key (rt kPrivateKey) \<and> vin = new_vin \<and> rc kBleMac = None"
  using inv txn vin_named_unique [OF named] blob_vin_named [of rc new_vin "ve_defaults env"]
  by (cases "rt kPrivateKey = old_key") (auto simp: txn_inv_def)

lemma mortal_flash_ok:
  assumes "nvs_driver_ok api rec" "nvs_write_atomic api rec"
    "\<forall>k d err d'. nvs_open api k d = (err, d') \<longrightarrow> rec d' = rec d"
  shows "flash_ok \<lparr>ve_api = mortal_api api, ve_defaults = defs, ve_client = client, ve_fingerprint = fp\<rparr> (\<lambda>d. rec (fst d))"
proof -
  have "rec (fst d') = rec (fst d)" if "mortal_call NvsFail (nvs_open api k) d = (err, d')" for k d err d'
    using mortal_call_cases [OF that] assms(3) by auto
  then show ?thesis
    using mortal_driver_ok [OF assms(1)] mortal_atomic [OF assms(2)]
    by (simp add: flash_ok_def mortal_api_def)
qed


subsection \<open>Properties\<close>

text \<open>C1: A change of the vehicle is atomic across power losses and failing flash writes. Whatever the flash does
  during the request and during any number of boots after it (every write may fail, with or without
  effect, and the device may die at any call), the boot never finds contradictory evidence, and the
  first boot that comes through runs either the old VIN with the old key, or the new VIN with the new
  key and neither a session of the old key nor the old car's address.\<close>

theorem vin_change_crash_safe:
  assumes "flash_ok env rec" "fresh_keys env old_key" "statics_ok (vw_statics w)"
    and "record_of rec (vw_cfg w) kVinTransition = None" "vin_named (ve_defaults env) (record_of rec (vw_cfg w)) old_vin"
    and "0 \<notin> set old_vin" "length old_vin \<le> kSizeMax" "normalize_vin text \<noteq> old_vin"
    and "record_of rec (vw_tesla w) kPrivateKey = old_key"
    and "vi_fp_cache v \<noteq> [] \<longrightarrow> vi_fp_cache v = stored_key_id env old_key"
    and "handle_set_vin env date reset_ok guard (Some text) v w = (reply, v', w')"
    and "later_boots env rec (record_of rec (vw_cfg w')) (record_of rec (vw_tesla w')) out devs"
  shows "out \<noteq> Some (BootFatal InconsistentEvidence) \<and>
    (\<forall>c. out = Some (BootContinues c) \<longrightarrow>
       (let key = tesla_records rec (snd devs) kPrivateKey in
         key = old_key \<and> cfg_vin c = old_vin \<or>
         other_key env old_key key \<and> cfg_vin c = normalize_vin text \<and>
         sessions_clear (tesla_records rec (snd devs)) \<and> cfg_records rec (fst devs) kBleMac = None))"
proof -
  have inv: "txn_inv env old_key old_vin (normalize_vin text) (record_of rec (vw_cfg w')) (record_of rec (vw_tesla w'))"
    using handle_set_vin_ok assms(1-5,9-11) by blast
  note b = later_boots_ok [OF assms(12,6,7) assms(8) [symmetric] inv]
  show ?thesis
    using b settled_identity [of env old_key old_vin "normalize_vin text" "cfg_records rec (fst devs)" "tesla_records rec (snd devs)"]
      assms(8) other_key_ne [of env old_key "tesla_records rec (snd devs) kPrivateKey"] unfolding Let_def by metis
qed

text \<open>A device whose flash dies when the journal is to be written, and a boot with a working one.\<close>

definition sample_env :: "(map_flash \<times> nat, bytes option \<times> nat) vin_env" where
  "sample_env = \<lparr>ve_api = mortal_api map_flash_api, ve_defaults = no_defaults, ve_client = counting_client,
     ve_fingerprint = (\<lambda>pem. if take 1 (drop 1 pem) = [1] then ''AA:AA:AA:01'' else ''05:00:00:00'')\<rparr>"

definition sample_store :: "nvs_namespace \<Rightarrow> (string \<times> bytes) list \<Rightarrow> nat \<Rightarrow> (map_flash \<times> nat) nvs_store" where
  "sample_store ns records calls = \<lparr>ns_kind = ns, nvs_initialized = True, session_vcsec_present = -1,
     nvs_dev = (\<lparr>mf_records = map_of records, mf_commit_fails = []\<rparr>, calls)\<rparr>"

definition sample_world :: "(map_flash \<times> nat) vin_world" where
  "sample_world = \<lparr>vw_statics = new_statics, vw_cfg = sample_store Config [] 6,
     vw_tesla = sample_store TeslaBle [(kPrivateKey, [5])] 9, vw_marker_written = False\<rparr>"

definition sample_identity :: "(bytes option \<times> nat) vehicle_identity" where
  "sample_identity = (new_vehicle_identity (Some [5], 3))\<lparr>vi_runtime_safe := True, vi_fp_cache := ''05:00:00:00''\<rparr>"

definition sample_vin :: bytes where "sample_vin = text_bytes '' 5yj3e1ea7kf317000''"

definition sample_after :: "(map_flash \<times> nat) vin_world" where
  "sample_after = snd (snd (handle_set_vin sample_env None True True (Some sample_vin) sample_identity sample_world))"

definition recharge :: "nat \<Rightarrow> (map_flash \<times> nat) nvs_store \<Rightarrow> map_flash \<times> nat" where
  "recharge calls s = (fst (nvs_dev s), calls)"

lemma sample_flash_ok: "flash_ok sample_env (\<lambda>d. mf_records (fst d))"
  unfolding sample_env_def
  by (rule mortal_flash_ok [OF map_flash_ok]) (auto simp: nvs_write_atomic_def map_flash_api_def)

lemma sample_fresh: "fresh_keys sample_env (Some [5])"
  by (auto simp: fresh_keys_def sample_env_def counting_client_def export_key_def other_key_def stored_key_id_def
      pem_terminated_def split: if_splits)

lemma sample_run:
  "sv_reason (fst (handle_set_vin sample_env None True True (Some sample_vin) sample_identity sample_world)) = VinRestored"
  "case fst (vin_boot sample_env True (None, 0) (recharge 100 (vw_cfg sample_after), recharge 100 (vw_tesla sample_after))) of
     BootContinues c \<Rightarrow> True | _ \<Rightarrow> False"
  by code_simp+

lemma sample_start:
  "record_of (\<lambda>d. mf_records (fst d)) (vw_cfg sample_world) kVinTransition = None"
  "record_of (\<lambda>d. mf_records (fst d)) (vw_cfg sample_world) kConfigBlob = None"
  "record_of (\<lambda>d. mf_records (fst d)) (vw_cfg sample_world) kLegacyVin = None"
  "record_of (\<lambda>d. mf_records (fst d)) (vw_tesla sample_world) kPrivateKey = Some [5]"
  "normalize_vin sample_vin \<noteq> []" "vi_fp_cache sample_identity = stored_key_id sample_env (Some [5])"
  "ns_kind (vw_cfg sample_after) = Config" "ns_kind (vw_tesla sample_after) = TeslaBle"
  by code_simp+

lemma sample_named: "vin_named (ve_defaults sample_env) (record_of (\<lambda>d. mf_records (fst d)) (vw_cfg sample_world)) []"
  using sample_start(2,3) by (simp add: vin_named_def legacy_value_def sample_env_def no_defaults_def)

lemma sample_statics: "statics_ok (vw_statics sample_world)"
  using statics_ok_new by (simp add: sample_world_def)

lemma recharge_holds:
  "ns_kind c = Config \<Longrightarrow> ns_kind t = TeslaBle \<Longrightarrow>
   devices_hold (\<lambda>d. mf_records (fst d)) (record_of (\<lambda>d. mf_records (fst d)) c) (record_of (\<lambda>d. mf_records (fst d)) t)
     (recharge n c, recharge n t)"
proof -
  let ?rec = "\<lambda>d :: map_flash \<times> nat. mf_records (fst d)"
  assume k: "ns_kind c = Config" "ns_kind t = TeslaBle"
  have "record_of ?rec (new_nvs_store kConfigNamespace (recharge n c)) = record_of ?rec c"
    by (rule record_of_same) (simp_all add: k new_store_kinds, simp add: new_nvs_store_def recharge_def)
  moreover have "record_of ?rec (new_nvs_store kTeslaBleNamespace (recharge n t)) = record_of ?rec t"
    by (rule record_of_same) (simp_all add: k new_store_kinds, simp add: new_nvs_store_def recharge_def)
  ultimately show ?thesis by (simp add: devices_hold_def cfg_records_def tesla_records_def)
qed

theorem vin_change_crash_safe_witness:
  "\<exists>c devs. vin_boot sample_env True (None, 0) (recharge 100 (vw_cfg sample_after), recharge 100 (vw_tesla sample_after)) =
       (BootContinues c, devs) \<and>
     (tesla_records (\<lambda>d. mf_records (fst d)) (snd devs) kPrivateKey = Some [5] \<and> cfg_vin c = [] \<or>
      cfg_vin c = normalize_vin sample_vin)"
proof -
  let ?rec = "\<lambda>d :: map_flash \<times> nat. mf_records (fst d)"
  obtain reply v' w' where h: "handle_set_vin sample_env None True True (Some sample_vin) sample_identity sample_world =
      (reply, v', w')" by (metis surj_pair)
  then have w': "w' = sample_after" by (simp add: sample_after_def)
  let ?devs = "(recharge 100 (vw_cfg sample_after), recharge 100 (vw_tesla sample_after))"
  obtain out devs where b: "vin_boot sample_env True (None, 0) ?devs = (out, devs)" by (metis surj_pair)
  then obtain c where c: "out = BootContinues c" using sample_run(2) by (cases out) simp_all
  have hold: "devices_hold ?rec (record_of ?rec (vw_cfg w')) (record_of ?rec (vw_tesla w')) ?devs"
    using recharge_holds [OF sample_start(7,8)] by (simp add: w')
  have "later_boots sample_env ?rec (record_of ?rec (vw_cfg w')) (record_of ?rec (vw_tesla w')) (Some out) devs"
    by (rule later_boots.boot [OF later_boots.switched_off [OF hold] _ _ sample_flash_ok _ b])
      (use hold in \<open>simp_all add: devices_hold_def same_build_def\<close>)
  from vin_change_crash_safe [OF sample_flash_ok sample_fresh sample_statics sample_start(1) sample_named _ _ sample_start(5,4) _ h this]
  show ?thesis using b c sample_start(6) by (auto simp: Let_def)
qed

text \<open>C19: The reply to a change of the VIN tells the truth about the flash, whichever calls failed: success means
  that the new VIN, a new key and the removal of the old car's address are stored; a restored identity
  means that the old VIN and the old key are what is stored; and a reply that does not restart the
  device has changed no record.\<close>

theorem set_vin_reply_truthful:
  assumes ok: "flash_ok env rec" and fresh: "fresh_keys env old_key" and w: "statics_ok (vw_statics w)"
    and txn: "record_of rec (vw_cfg w) kVinTransition = None"
    and old: "vin_named (ve_defaults env) (record_of rec (vw_cfg w)) old_vin"
    and key: "record_of rec (vw_tesla w) kPrivateKey = old_key"
    and cache: "vi_fp_cache v \<noteq> [] \<longrightarrow> vi_fp_cache v = stored_key_id env old_key"
    and eq: "handle_set_vin env date reset_ok guard (Some text) v w = (reply, v', w')"
  shows "(sv_reason reply = VinSaved \<longrightarrow> blob_vin (record_of rec (vw_cfg w')) (normalize_vin text) \<and>
       other_key env old_key (record_of rec (vw_tesla w') kPrivateKey) \<and> record_of rec (vw_cfg w') kBleMac = None) \<and>
    (sv_reason reply = VinRestored \<longrightarrow> vin_named (ve_defaults env) (record_of rec (vw_cfg w')) old_vin \<and>
       record_of rec (vw_tesla w') kPrivateKey = old_key) \<and>
    (\<not> sv_reboot reply \<longrightarrow> record_of rec (vw_cfg w') = record_of rec (vw_cfg w) \<and>
       record_of rec (vw_tesla w') = record_of rec (vw_tesla w))"
  using handle_set_vin_truth [OF assms] by blast

theorem set_vin_reply_truthful_witness:
  "vin_named (ve_defaults sample_env) (record_of (\<lambda>d. mf_records (fst d)) (vw_cfg sample_after)) []"
proof -
  obtain reply v' w' where h: "handle_set_vin sample_env None True True (Some sample_vin) sample_identity sample_world =
      (reply, v', w')" by (metis surj_pair)
  with set_vin_reply_truthful [OF sample_flash_ok sample_fresh sample_statics sample_start(1) sample_named sample_start(4) _ h]
    sample_run(1) sample_start(6) show ?thesis by (simp add: sample_after_def)
qed

end
