(* ===== verification/LinkPolicy.thy ===== *)
theory LinkPolicy
  imports Prelude
begin

text \<open>
  main/logic/link_state.hpp, active_window.hpp, wake_poll.hpp, telemetry_poll.hpp, connect_outcome.hpp,
  ble_phase.hpp and ble_readiness.hpp: when the device believes the car awake, when it polls it, how
  it reports failing connections, what the Bluetooth row counts down, and when a link may be used.
  \<open>uint32_t\<close> and \<open>uint64_t\<close> are words and wrap; \<open>int64_t\<close> timestamps are integers, as they
  are only compared.
\<close>

subsection \<open>Link state\<close>

datatype link_state = LinkUnknown | LinkAwake | LinkAsleep | LinkUnreachable | LinkIdle

definition kAwakeMaxAgeS :: u32 where "kAwakeMaxAgeS = 60"
definition kReachableMaxAgeS :: u32 where "kReachableMaxAgeS = 150"
definition kAsleepDebounceS :: u32 where "kAsleepDebounceS = 120"

record link_inputs =
  li_have_contact :: bool
  li_contact_age_s :: u32
  li_have_reachable :: bool
  li_reachable_age_s :: u32
  li_vcsec_stably_asleep :: bool

definition compute_link_state :: "link_inputs \<Rightarrow> link_state" where
  "compute_link_state i =
     (if li_have_contact i \<and> li_contact_age_s i < kAwakeMaxAgeS then LinkAwake
      else if li_have_reachable i \<and> li_reachable_age_s i < kReachableMaxAgeS
      then if li_vcsec_stably_asleep i then LinkAsleep else LinkIdle
      else if li_have_reachable i \<or> li_have_contact i then LinkUnreachable
      else LinkUnknown)"

definition link_state_web_str :: "link_state \<Rightarrow> string" where
  "link_state_web_str s = (case s of LinkAwake \<Rightarrow> ''awake'' | LinkAsleep \<Rightarrow> ''asleep'' | LinkIdle \<Rightarrow> ''idle''
     | LinkUnreachable \<Rightarrow> ''unreachable'' | LinkUnknown \<Rightarrow> ''unknown'')"

definition link_state_mqtt_str :: "link_state \<Rightarrow> string option" where
  "link_state_mqtt_str s = (case s of LinkAwake \<Rightarrow> Some ''AWAKE'' | LinkAsleep \<Rightarrow> Some ''ASLEEP''
     | LinkIdle \<Rightarrow> Some ''IDLE'' | LinkUnreachable \<Rightarrow> Some ''UNREACHABLE'' | LinkUnknown \<Rightarrow> None)"

subsection \<open>The polling window\<close>

definition command_is_recent :: "u32 \<Rightarrow> u32 \<Rightarrow> u32 \<Rightarrow> bool" where
  "command_is_recent last_cmd now window \<longleftrightarrow> last_cmd \<noteq> 0 \<and> now - last_cmd < window"

record window_inputs =
  wi_recent_cmd :: bool
  wi_charging_state :: bool
  wi_have_contact :: bool
  wi_contact_age_s :: u32

definition active_window_open :: "window_inputs \<Rightarrow> bool" where
  "active_window_open i =
     (let fresh_charging = (wi_charging_state i \<and> wi_have_contact i \<and> wi_contact_age_s i < kAwakeMaxAgeS)
      in wi_recent_cmd i \<or> fresh_charging)"

subsection \<open>The one-shot charge poll\<close>

definition kChargeCacheFreshS :: u32 where "kChargeCacheFreshS = kAwakeMaxAgeS"
definition kBootstrapInitialBackoffS :: u32 where "kBootstrapInitialBackoffS = 30"
definition kBootstrapMaxBackoffS :: u32 where "kBootstrapMaxBackoffS = 300"

datatype wake_sample = SampleUnknown | SampleAsleep | SampleAwake

record wake_poll_state =
  wp_armed :: bool
  wp_pending :: bool
  wp_bootstrap_dispatched :: bool
  wp_episode_fresh :: bool
  wp_backoff_s :: u32
  wp_next_retry_s :: u32

definition new_wake_poll :: wake_poll_state where
  "new_wake_poll = \<lparr>wp_armed = False, wp_pending = False, wp_bootstrap_dispatched = False,
     wp_episode_fresh = False, wp_backoff_s = 0, wp_next_retry_s = 0\<rparr>"

definition note_asleep :: "bool \<Rightarrow> wake_poll_state \<Rightarrow> wake_poll_state" where
  "note_asleep stably_asleep st =
     (if stably_asleep
      then st\<lparr>wp_armed := True, wp_pending := False, wp_episode_fresh := False, wp_bootstrap_dispatched := False,
              wp_backoff_s := 0, wp_next_retry_s := 0\<rparr>
      else st)"

definition note_awake :: "wake_poll_state \<Rightarrow> wake_poll_state" where
  "note_awake st = (if wp_armed st then st\<lparr>wp_armed := False, wp_pending := True\<rparr> else st)"

definition note_bootstrap :: "bool \<Rightarrow> bool \<Rightarrow> u32 \<Rightarrow> wake_poll_state \<Rightarrow> wake_poll_state" where
  "note_bootstrap ble_connected cache_fresh now_s st =
     (if \<not> ble_connected then st
      else if cache_fresh then st\<lparr>wp_episode_fresh := True, wp_backoff_s := 0, wp_next_retry_s := 0\<rparr>
      else if wp_episode_fresh st then st
      else if \<not> wp_bootstrap_dispatched st
      then st\<lparr>wp_bootstrap_dispatched := True, wp_armed := True, wp_backoff_s := kBootstrapInitialBackoffS,
              wp_next_retry_s := now_s + kBootstrapInitialBackoffS\<rparr>
      else if wp_armed st \<or> wp_pending st then st
      else if now_s - wp_next_retry_s st < 2 ^ 31
      then let backoff = (if wp_backoff_s st = 0 then kBootstrapInitialBackoffS
                          else min (wp_backoff_s st * 2) kBootstrapMaxBackoffS)
           in st\<lparr>wp_armed := True, wp_backoff_s := backoff, wp_next_retry_s := now_s + backoff\<rparr>
      else st)"

definition note_disconnected :: "wake_poll_state \<Rightarrow> wake_poll_state" where
  "note_disconnected st = st\<lparr>wp_pending := False, wp_armed := False, wp_bootstrap_dispatched := False,
     wp_backoff_s := 0, wp_next_retry_s := 0, wp_episode_fresh := False\<rparr>"

definition take_pending :: "u32 \<Rightarrow> wake_poll_state \<Rightarrow> bool \<times> wake_poll_state" where
  "take_pending now_s st =
     (let p = wp_pending st; st1 = st\<lparr>wp_pending := False\<rparr> in
      if p then let backoff = (if wp_backoff_s st1 = 0 then kBootstrapInitialBackoffS else wp_backoff_s st1)
                in (True, st1\<lparr>wp_backoff_s := backoff, wp_next_retry_s := now_s + backoff\<rparr>)
      else (False, st1))"

record wake_poll_inputs =
  wpi_sample :: wake_sample
  wpi_vcsec_stably_asleep :: bool
  wpi_ble_connected :: bool
  wpi_have_charge_cache :: bool
  wpi_charge_cache_age_s :: u32
  wpi_now_s :: u32

definition charge_cache_fresh :: "wake_poll_inputs \<Rightarrow> bool" where
  "charge_cache_fresh i \<longleftrightarrow> wpi_have_charge_cache i \<and> wpi_charge_cache_age_s i < kChargeCacheFreshS"

definition wake_poll_update :: "wake_poll_inputs \<Rightarrow> wake_poll_state \<Rightarrow> wake_poll_state" where
  "wake_poll_update i st =
     (if \<not> wpi_ble_connected i then note_disconnected st
      else let st1 = note_bootstrap (wpi_ble_connected i) (charge_cache_fresh i) (wpi_now_s i) st in
        case wpi_sample i of
          SampleAsleep \<Rightarrow> note_asleep (wpi_vcsec_stably_asleep i) st1
        | SampleAwake \<Rightarrow> note_awake st1
        | SampleUnknown \<Rightarrow> st1)"

record charge_poll_gate =
  cg_paired :: bool
  cg_poll_cadence :: bool
  cg_ble_connected :: bool
  cg_cmd_in_flight :: bool
  cg_now_s :: u32

definition charge_poll_should_fire :: "charge_poll_gate \<Rightarrow> wake_poll_state \<Rightarrow> bool \<times> wake_poll_state" where
  "charge_poll_should_fire g st =
     (if cg_paired g \<and> (cg_poll_cadence g \<or> wp_pending st) \<and> cg_ble_connected g \<and> \<not> cg_cmd_in_flight g
      then (True, snd (take_pending (cg_now_s g) st)) else (False, st))"

definition wake_poll_refreshes_drive :: "bool \<Rightarrow> bool" where
  "wake_poll_refreshes_drive poll_cadence \<longleftrightarrow> \<not> poll_cadence"

definition wake_edge_should_poll :: "wake_poll_inputs \<Rightarrow> wake_poll_state \<Rightarrow> bool \<times> wake_poll_state" where
  "wake_edge_should_poll i st = charge_poll_should_fire \<lparr>cg_paired = True, cg_poll_cadence = False,
     cg_ble_connected = wpi_ble_connected i, cg_cmd_in_flight = False, cg_now_s = wpi_now_s i\<rparr> (wake_poll_update i st)"

subsection \<open>The telemetry rotation\<close>

datatype telemetry_domain = Climate | Drive | Tires | Closures

record telemetry_poll_inputs =
  tp_paired :: bool
  tp_window :: bool
  tp_connected :: bool
  tp_command_in_flight :: bool
  tp_now_ticks :: u32
  tp_interval_ticks :: u32

record telemetry_poll_state =
  ts_last_attempt_ticks :: u32
  ts_rotation :: telemetry_domain
  ts_climate_attempts :: u8

definition new_telemetry_poll :: telemetry_poll_state where
  "new_telemetry_poll = \<lparr>ts_last_attempt_ticks = 0, ts_rotation = Climate, ts_climate_attempts = 0\<rparr>"

definition telemetry_due :: "telemetry_poll_inputs \<Rightarrow> telemetry_poll_state \<Rightarrow> bool" where
  "telemetry_due i st \<longleftrightarrow> tp_paired i \<and> tp_window i \<and> tp_connected i \<and> \<not> tp_command_in_flight i \<and>
     tp_interval_ticks i < tp_now_ticks i - ts_last_attempt_ticks st"

definition telemetry_next :: "bool \<Rightarrow> telemetry_poll_state \<Rightarrow> telemetry_domain" where
  "telemetry_next climate_usable st =
     (if \<not> climate_usable \<and> ts_climate_attempts st < 2 then Climate else ts_rotation st)"

definition telemetry_begin_attempt :: "u32 \<Rightarrow> telemetry_poll_state \<Rightarrow> telemetry_poll_state" where
  "telemetry_begin_attempt now_ticks st = st\<lparr>ts_last_attempt_ticks := now_ticks\<rparr>"

definition domain_after :: "telemetry_domain \<Rightarrow> telemetry_domain" where
  "domain_after d = (case d of Climate \<Rightarrow> Drive | Drive \<Rightarrow> Tires | Tires \<Rightarrow> Closures | Closures \<Rightarrow> Climate)"

definition telemetry_note_admission :: "bool \<Rightarrow> bool \<Rightarrow> telemetry_poll_state \<Rightarrow> telemetry_poll_state" where
  "telemetry_note_admission climate_usable enqueued st =
     (if \<not> enqueued then st
      else let domain = telemetry_next climate_usable st;
               st1 = (if climate_usable \<or> domain \<noteq> Climate then st\<lparr>ts_climate_attempts := 0\<rparr>
                      else if ts_climate_attempts st < 2 then st\<lparr>ts_climate_attempts := ts_climate_attempts st + 1\<rparr>
                      else st)
           in if domain = ts_rotation st1 then st1\<lparr>ts_rotation := domain_after (ts_rotation st1)\<rparr> else st1)"

subsection \<open>Reporting failed connections\<close>

datatype connect_fail = OutOfRange | AtBleLimit | ConnectFailed

definition connect_fail_from_connectable :: "int \<Rightarrow> connect_fail" where
  "connect_fail_from_connectable connectable =
     (if connectable < 0 then OutOfRange else if connectable = 0 then AtBleLimit else ConnectFailed)"

definition advert_seen_in_attempt :: "int \<Rightarrow> int \<Rightarrow> bool" where
  "advert_seen_in_attempt advert_us attempt_start_us \<longleftrightarrow> attempt_start_us \<le> advert_us"

definition connectable_verdict_in_attempt :: "bool \<Rightarrow> bool \<Rightarrow> int \<Rightarrow> int \<Rightarrow> int \<Rightarrow> int" where
  "connectable_verdict_in_attempt target_name_matches connectable name_seen_us connectable_seen_us attempt_start_us =
     (if \<not> target_name_matches \<or> \<not> advert_seen_in_attempt name_seen_us attempt_start_us \<or>
         \<not> advert_seen_in_attempt connectable_seen_us attempt_start_us then -1
      else if connectable then 1 else 0)"

definition connect_fail_text :: "connect_fail \<Rightarrow> string" where
  "connect_fail_text kind = (case kind of
     OutOfRange \<Rightarrow> ''car not in BLE range (no advert seen)''
   | AtBleLimit \<Rightarrow> ''car advertising non-connectable (at its BLE connection limit '' @ [char_of (226::nat), char_of (128::nat), char_of (148::nat)] @
       '' another phone/fob holds a slot)''
   | ConnectFailed \<Rightarrow> ''car advertised but the connect did not complete'')"

datatype connect_log = LogSuppress | LogWarn | LogError
datatype connect_origin = Background | Foreground

definition kConnectFailRepeatMs :: u64 where "kConnectFailRepeatMs = 60 * 60 * 1000"

record connect_fail_state =
  cf_kind :: connect_fail
  cf_streak :: u32
  cf_last_emit_ms :: u64

definition new_connect_fail :: connect_fail_state where
  "new_connect_fail = \<lparr>cf_kind = OutOfRange, cf_streak = 0, cf_last_emit_ms = 0\<rparr>"

definition connect_fail_note :: "connect_fail \<Rightarrow> connect_origin \<Rightarrow> u64 \<Rightarrow> connect_fail_state \<Rightarrow> connect_log \<times> connect_fail_state" where
  "connect_fail_note kind origin now_ms st =
     (let first = (cf_streak st = 0 \<or> cf_kind st \<noteq> kind);
          st1 = (if first then st\<lparr>cf_kind := kind, cf_streak := 1\<rparr>
                 else if cf_streak st \<noteq> -1 then st\<lparr>cf_streak := cf_streak st + 1\<rparr> else st) in
      if origin = Foreground then (LogError, st1\<lparr>cf_last_emit_ms := now_ms\<rparr>)
      else let heartbeat = (\<not> first \<and> kConnectFailRepeatMs \<le> now_ms - cf_last_emit_ms st1) in
        if \<not> first \<and> \<not> heartbeat then (LogSuppress, st1)
        else (if kind = OutOfRange then LogWarn else LogError, st1\<lparr>cf_last_emit_ms := now_ms\<rparr>))"

definition connect_ok_note :: "connect_fail_state \<Rightarrow> connect_fail_state" where
  "connect_ok_note st = st\<lparr>cf_streak := 0, cf_last_emit_ms := 0\<rparr>"

datatype completion_timeout_policy = ForegroundWarn | BackgroundHealth | ExpectedSilent

definition kCompletionTimeoutRepeatMs :: u64 where "kCompletionTimeoutRepeatMs = 60 * 60 * 1000"

record completion_timeout_state =
  ct_streak :: u32
  ct_last_emit_ms :: u64

definition completion_timeout_note ::
    "completion_timeout_policy \<Rightarrow> u64 \<Rightarrow> completion_timeout_state \<Rightarrow> bool \<times> completion_timeout_state" where
  "completion_timeout_note policy now_ms st =
     (if policy = ForegroundWarn then (True, st)
      else if policy = ExpectedSilent then (False, st)
      else let st1 = (if ct_streak st \<noteq> -1 then st\<lparr>ct_streak := ct_streak st + 1\<rparr> else st);
               first = (ct_streak st1 = 1);
               heartbeat = (\<not> first \<and> kCompletionTimeoutRepeatMs \<le> now_ms - ct_last_emit_ms st1) in
           if \<not> first \<and> \<not> heartbeat then (False, st1)
           else (True, st1\<lparr>ct_last_emit_ms := now_ms\<rparr>))"

definition completion_ok_note :: "completion_timeout_state \<Rightarrow> completion_timeout_state" where
  "completion_ok_note st = st\<lparr>ct_streak := 0, ct_last_emit_ms := 0\<rparr>"

definition kAutoPairNoticeRepeatMs :: u64 where "kAutoPairNoticeRepeatMs = 60 * 60 * 1000"

record periodic_log_state =
  pl_active :: bool
  pl_last_emit_ms :: u64

definition periodic_log_due :: "u64 \<Rightarrow> u64 \<Rightarrow> periodic_log_state \<Rightarrow> bool \<times> periodic_log_state" where
  "periodic_log_due now_ms repeat_ms st =
     (if pl_active st \<and> now_ms - pl_last_emit_ms st < repeat_ms then (False, st)
      else (True, st\<lparr>pl_active := True, pl_last_emit_ms := now_ms\<rparr>))"

definition periodic_log_reset :: "periodic_log_state \<Rightarrow> periodic_log_state" where
  "periodic_log_reset st = st\<lparr>pl_active := False, pl_last_emit_ms := 0\<rparr>"

subsection \<open>The Bluetooth row\<close>

datatype ble_phase_kind = PhaseNone | PhaseConnecting | PhaseWaiting

record phase_view =
  pv_kind :: ble_phase_kind
  pv_secs :: u32

definition secs_left :: "u32 \<Rightarrow> u32 \<Rightarrow> u32 \<Rightarrow> u32" where
  "secs_left deadline now tick_hz =
     (let left = deadline - now in
      if sint left \<le> 0 then 0 else (left + tick_hz - 1) div tick_hz)"

definition ble_phase :: "u32 \<Rightarrow> u32 \<Rightarrow> u32 \<Rightarrow> u32 \<Rightarrow> phase_view" where
  "ble_phase connect_deadline retry_deadline now tick_hz =
     (if connect_deadline \<noteq> 0 then \<lparr>pv_kind = PhaseConnecting, pv_secs = secs_left connect_deadline now tick_hz\<rparr>
      else if retry_deadline \<noteq> 0 then \<lparr>pv_kind = PhaseWaiting, pv_secs = secs_left retry_deadline now tick_hz\<rparr>
      else \<lparr>pv_kind = PhaseNone, pv_secs = 0\<rparr>)"

definition phase_name :: "ble_phase_kind \<Rightarrow> string" where
  "phase_name p = (if p = PhaseConnecting then ''connecting'' else if p = PhaseWaiting then ''waiting'' else '''')"

subsection \<open>Readiness of a link\<close>

definition kNoReadyGeneration :: u32 where "kNoReadyGeneration = -1"

record connect_lifecycle =
  cl_want_connect :: bool
  cl_connecting :: bool

datatype scan_start_result = ScanStarted | ScanAlreadyRunning | ScanStartFailed
datatype scan_cancel_result = ScanCanceled | ScanAlreadyStopped | ScanCancelFailed

definition scan_running_after_start :: "bool \<Rightarrow> scan_start_result \<Rightarrow> bool" where
  "scan_running_after_start was_running r \<longleftrightarrow> was_running \<or> r = ScanStarted \<or> r = ScanAlreadyRunning"

definition scan_running_after_cancel :: "bool \<Rightarrow> scan_cancel_result \<Rightarrow> bool" where
  "scan_running_after_cancel was_running r = (if r = ScanCancelFailed then was_running else False)"

definition connect_lifecycle_after_host_reset :: "bool \<Rightarrow> connect_lifecycle" where
  "connect_lifecycle_after_host_reset want = \<lparr>cl_want_connect = want, cl_connecting = False\<rparr>"

definition connect_lifecycle_after_start_failure :: "bool \<Rightarrow> connect_lifecycle" where
  "connect_lifecycle_after_start_failure want = \<lparr>cl_want_connect = want, cl_connecting = False\<rparr>"

definition connect_lifecycle_during_gap_start :: "bool \<Rightarrow> connect_lifecycle" where
  "connect_lifecycle_during_gap_start want = \<lparr>cl_want_connect = want, cl_connecting = want\<rparr>"

definition connect_lifecycle_after_gap_connected :: "bool \<Rightarrow> connect_lifecycle" where
  "connect_lifecycle_after_gap_connected want = \<lparr>cl_want_connect = want, cl_connecting = False\<rparr>"

definition connect_lifecycle_after_command_ready :: connect_lifecycle where
  "connect_lifecycle_after_command_ready = \<lparr>cl_want_connect = False, cl_connecting = False\<rparr>"

definition connect_scan_should_start :: "bool \<Rightarrow> bool \<Rightarrow> bool \<Rightarrow> bool \<Rightarrow> bool \<Rightarrow> bool" where
  "connect_scan_should_start want disconnecting has_gap_link connecting scanning \<longleftrightarrow>
     want \<and> \<not> disconnecting \<and> \<not> has_gap_link \<and> \<not> connecting \<and> \<not> scanning"

definition manual_discovery_may_start :: "bool \<Rightarrow> bool \<Rightarrow> bool \<Rightarrow> bool \<Rightarrow> bool" where
  "manual_discovery_may_start disconnecting want has_gap_link connecting \<longleftrightarrow>
     \<not> disconnecting \<and> \<not> want \<and> \<not> has_gap_link \<and> \<not> connecting"

definition manual_discovery_timeout_may_cancel :: "bool \<Rightarrow> bool \<Rightarrow> bool \<Rightarrow> bool \<Rightarrow> bool" where
  "manual_discovery_timeout_may_cancel scanning want connecting has_gap_link \<longleftrightarrow>
     scanning \<and> \<not> want \<and> \<not> connecting \<and> \<not> has_gap_link"

definition connect_attempt_may_advance :: "bool \<Rightarrow> bool \<Rightarrow> bool" where
  "connect_attempt_may_advance want snapshot_matches \<longleftrightarrow> want \<and> snapshot_matches"

definition gap_link_available :: "bool \<Rightarrow> u32 \<Rightarrow> u32 \<Rightarrow> bool \<Rightarrow> bool" where
  "gap_link_available disconnecting generation_before generation_after has_conn_handle \<longleftrightarrow>
     \<not> disconnecting \<and> \<not> bit generation_before 0 \<and> generation_before = generation_after \<and> has_conn_handle"

definition command_ready :: "bool \<Rightarrow> u32 \<Rightarrow> u32 \<Rightarrow> bool \<Rightarrow> bool \<Rightarrow> u32 \<Rightarrow> bool" where
  "command_ready disconnecting generation_before generation_after has_conn_handle has_write_handle ready_generation \<longleftrightarrow>
     gap_link_available disconnecting generation_before generation_after has_conn_handle \<and>
     has_write_handle \<and> ready_generation = generation_before"

subsection \<open>The rotation is fair\<close>

text \<open>A run of admissions, each with whether the climate sample is usable and whether the queue took the poll:
  the domains polled and the state after it.\<close>

fun telemetry_run :: "(bool \<times> bool) list \<Rightarrow> telemetry_poll_state \<Rightarrow> telemetry_domain list \<times> telemetry_poll_state" where
  "telemetry_run [] st = ([], st)"
| "telemetry_run ((usable, enqueued) # xs) st =
     (case telemetry_run xs (telemetry_note_admission usable enqueued st) of (ds, st') \<Rightarrow>
        (if enqueued then telemetry_next usable st # ds else ds, st'))"

lemma telemetry_run_append:
  "telemetry_run (xs @ ys) st =
     (fst (telemetry_run xs st) @ fst (telemetry_run ys (snd (telemetry_run xs st))), snd (telemetry_run ys (snd (telemetry_run xs st))))"
  by (induction xs arbitrary: st) (auto simp: case_prod_beta)

lemma telemetry_refused: "telemetry_run xs st = telemetry_run (filter snd xs) st"
  by (induction xs arbitrary: st) (auto simp: telemetry_note_admission_def case_prod_beta)

text \<open>How many admissions can pass before the rotation moves on.\<close>

definition climate_slack :: "telemetry_poll_state \<Rightarrow> nat" where
  "climate_slack st = (if ts_rotation st = Climate then 0 else 2 - unat (ts_climate_attempts st))"

lemma admission_step:
  assumes "unat (ts_climate_attempts st) \<le> 2"
  shows "unat (ts_climate_attempts (telemetry_note_admission u True st)) \<le> 2 \<and>
    (telemetry_next u st = ts_rotation st \<and>
       ts_rotation (telemetry_note_admission u True st) = domain_after (ts_rotation st) \<or>
     ts_rotation (telemetry_note_admission u True st) = ts_rotation st \<and>
       climate_slack (telemetry_note_admission u True st) < climate_slack st)"
proof -
  let ?a = "ts_climate_attempts st"
  have less: "?a < 2 \<longleftrightarrow> unat ?a < 2" by (simp add: word_less_nat_alt)
  have inc: "unat ?a < 2 \<Longrightarrow> unat (?a + 1) = unat ?a + 1" by (simp add: unat_word_ariths)
  show ?thesis
    using assms inc by (cases u; cases "ts_rotation st"; cases "unat ?a < 2")
      (auto simp: telemetry_note_admission_def telemetry_next_def climate_slack_def domain_after_def less Let_def)
qed

lemma rotation_advances:
  assumes "unat (ts_climate_attempts st) \<le> 2" "climate_slack st < length us" "list_all snd us"
  shows "\<exists>k \<le> Suc (climate_slack st). ts_rotation st \<in> set (fst (telemetry_run (take k us) st)) \<and>
    ts_rotation (snd (telemetry_run (take k us) st)) = domain_after (ts_rotation st) \<and>
    unat (ts_climate_attempts (snd (telemetry_run (take k us) st))) \<le> 2"
  using assms
proof (induction us arbitrary: st)
  case (Cons x us)
  obtain u where x: "x = (u, True)" using Cons.prems(3) by (cases x) auto
  let ?st = "telemetry_note_admission u True st"
  note step = admission_step [OF Cons.prems(1), of u]
  show ?case
  proof (cases "telemetry_next u st = ts_rotation st \<and> ts_rotation ?st = domain_after (ts_rotation st)")
    case True
    then show ?thesis using step x by (intro exI [of _ 1]) simp
  next
    case False
    then have s: "ts_rotation ?st = ts_rotation st" "climate_slack ?st < climate_slack st" using step by auto
    then have "climate_slack ?st < length us" using Cons.prems(2) by simp
    from Cons.IH [OF _ this] step Cons.prems(3) obtain k where k: "k \<le> Suc (climate_slack ?st)"
      "ts_rotation ?st \<in> set (fst (telemetry_run (take k us) ?st))"
      "ts_rotation (snd (telemetry_run (take k us) ?st)) = domain_after (ts_rotation ?st)"
      "unat (ts_climate_attempts (snd (telemetry_run (take k us) ?st))) \<le> 2" by auto
    then show ?thesis using s x by (intro exI [of _ "Suc k"]) (auto simp: case_prod_beta)
  qed
qed simp

lemma climate_slack_le: "climate_slack st \<le> 2"
  by (simp add: climate_slack_def)

lemma rotation_visits:
  "unat (ts_climate_attempts st) \<le> 2 \<Longrightarrow> list_all snd us \<Longrightarrow> 3 * Suc n \<le> length us \<Longrightarrow>
   (domain_after ^^ n) (ts_rotation st) \<in> set (fst (telemetry_run us st))"
proof (induction n arbitrary: st us)
  case 0
  then obtain k where "ts_rotation st \<in> set (fst (telemetry_run (take k us) st))"
    using rotation_advances [of st us] climate_slack_le [of st] by fastforce
  then show ?case using telemetry_run_append [of "take k us" "drop k us" st] by simp
next
  case (Suc n)
  have long: "climate_slack st < length us" using Suc.prems(3) climate_slack_le [of st] by simp
  obtain k where k: "k \<le> Suc (climate_slack st)"
    "ts_rotation (snd (telemetry_run (take k us) st)) = domain_after (ts_rotation st)"
    "unat (ts_climate_attempts (snd (telemetry_run (take k us) st))) \<le> 2"
    using rotation_advances [OF Suc.prems(1) long Suc.prems(2)] by blast
  have "k \<le> 3" using k(1) climate_slack_le [of st] by linarith
  then have "3 * Suc n \<le> length (drop k us)" using Suc.prems(3) by simp
  moreover have "list_all snd (drop k us)" using Suc.prems(2) by (auto simp: list_all_iff dest: in_set_dropD)
  ultimately have "(domain_after ^^ n) (domain_after (ts_rotation st)) \<in>
      set (fst (telemetry_run (drop k us) (snd (telemetry_run (take k us) st))))"
    using Suc.IH [OF k(3)] k(2) by metis
  then show ?case using telemetry_run_append [of "take k us" "drop k us" st] by (simp add: funpow_swap1)
qed

lemma telemetry_attempts_le: "unat (ts_climate_attempts st) \<le> 2 \<Longrightarrow> unat (ts_climate_attempts (snd (telemetry_run xs st))) \<le> 2"
proof (induction xs arbitrary: st)
  case (Cons x xs)
  obtain u e where x: "x = (u, e)" by fastforce
  have "unat (ts_climate_attempts (telemetry_note_admission u e st)) \<le> 2"
    using admission_step [OF Cons.prems, of u] Cons.prems by (cases e) (auto simp: telemetry_note_admission_def)
  from Cons.IH [OF this] show ?case by (simp add: x case_prod_beta)
qed simp

lemma domain_reached: "\<exists>n \<le> 3. (domain_after ^^ n) d = e"
proof -
  have "e \<in> {d, domain_after d, domain_after (domain_after d), domain_after (domain_after (domain_after d))}"
    by (cases d; cases e) (simp_all add: domain_after_def)
  then show ?thesis
    by (elim insertE) (intro exI [of _ 0] exI [of _ 1] exI [of _ 2] exI [of _ 3]; simp add: numeral_eq_Suc)+
qed


subsection \<open>The one-shot poll is paced\<close>

text \<open>One pass of the loop at second \<open>t\<close>, and the seconds at which a run of passes polls.\<close>

definition wake_pass :: "nat \<Rightarrow> wake_poll_inputs \<Rightarrow> wake_poll_state \<Rightarrow> bool \<times> wake_poll_state" where
  "wake_pass t i st = wake_edge_should_poll (i\<lparr>wpi_now_s := of_nat t\<rparr>) st"

fun wake_run :: "(nat \<times> wake_poll_inputs) list \<Rightarrow> wake_poll_state \<Rightarrow> nat list \<times> wake_poll_state" where
  "wake_run [] st = ([], st)"
| "wake_run ((t, i) # xs) st = (case wake_pass t i st of (fired, st1) \<Rightarrow>
     case wake_run xs st1 of (ts, st2) \<Rightarrow> (if fired then t # ts else ts, st2))"

definition wake_ok :: "wake_poll_state \<Rightarrow> bool" where
  "wake_ok st \<longleftrightarrow> \<not> (wp_armed st \<and> wp_pending st) \<and>
     (wp_pending st \<longrightarrow> wp_episode_fresh st \<or> wp_bootstrap_dispatched st) \<and>
     (wp_backoff_s st = 0 \<or> 30 \<le> unat (wp_backoff_s st) \<and> unat (wp_backoff_s st) \<le> 300)"

definition retry_after :: "u32 \<Rightarrow> u32" where
  "retry_after b = (if b = 0 then kBootstrapInitialBackoffS else min (b * 2) kBootstrapMaxBackoffS)"

lemma retry_after_range: "b = 0 \<or> 30 \<le> unat b \<and> unat b \<le> 300 \<Longrightarrow> 30 \<le> unat (retry_after b) \<and> unat (retry_after b) \<le> 300"
proof -
  assume "b = 0 \<or> 30 \<le> unat b \<and> unat b \<le> 300"
  moreover have "unat (b * 2) = unat b * 2" if "unat b \<le> 300"
    using that by (simp add: unat_word_ariths)
  ultimately show ?thesis
    by (auto simp: retry_after_def kBootstrapInitialBackoffS_def kBootstrapMaxBackoffS_def min_def word_le_nat_alt)
qed

text \<open>After a poll at second \<open>t1\<close> nothing is armed, and either the episode has its fresh sample or the next
  attempt is at least 30 seconds away.\<close>

definition quiet_since :: "nat \<Rightarrow> wake_poll_state \<Rightarrow> bool" where
  "quiet_since t1 st \<longleftrightarrow> \<not> wp_armed st \<and> \<not> wp_pending st \<and>
     (wp_episode_fresh st \<or> wp_bootstrap_dispatched st \<and>
        (\<exists>b. 30 \<le> b \<and> b \<le> 300 \<and> wp_next_retry_s st = of_nat (t1 + b)))"

lemma clock_reached:
  assumes "t1 \<le> t" "b \<le> 300" "(of_nat t :: u32) - of_nat (t1 + b) < 2 ^ 31"
  shows "t1 + b \<le> t"
proof (rule ccontr)
  assume late: "\<not> t1 + b \<le> t"
  define d where "d = t1 + b - t"
  have d: "t1 + b = t + d" "0 < d" "d \<le> 300" using late assms(1,2) by (auto simp: d_def)
  have e: "(of_nat t :: u32) - of_nat (t1 + b) = - of_nat d" by (simp add: d(1))
  have "of_nat d + (of_nat (2 ^ 32 - d) :: u32) = of_nat (d + (2 ^ 32 - d))" by (rule of_nat_add [symmetric])
  also have "\<dots> = (of_nat (2 ^ 32) :: u32)" using d(3) by simp
  also have "\<dots> = 0" by simp
  finally have "- (of_nat d :: u32) = of_nat (2 ^ 32 - d)" by (rule minus_unique)
  then have "unat (- (of_nat d :: u32)) = 2 ^ 32 - d" using d(2) by (simp add: unat_of_nat)
  moreover have "unat (- (of_nat d :: u32)) < unat (2 ^ 31 :: u32)"
    using assms(3) unfolding e word_less_nat_alt .
  ultimately show False using d(3) by simp
qed

lemma quiet_update:
  assumes quiet: "quiet_since t1 st" and t: "t1 \<le> t"
    and i: "wpi_ble_connected i" "\<not> (wpi_sample i = SampleAsleep \<and> wpi_vcsec_stably_asleep i)"
    and upd: "st' = wake_poll_update (i\<lparr>wpi_now_s := of_nat t\<rparr>) st"
  shows "t1 + 30 \<le> t \<or> quiet_since t1 st'"
proof (cases "charge_cache_fresh i \<or> wp_episode_fresh st")
  case True
  then show ?thesis using quiet i upd
    by (auto simp: quiet_since_def wake_poll_update_def note_bootstrap_def note_asleep_def note_awake_def
        charge_cache_fresh_def split: wake_sample.splits)
next
  case False
  then obtain b where b: "30 \<le> b" "b \<le> 300" "wp_next_retry_s st = of_nat (t1 + b)" "wp_bootstrap_dispatched st"
    using quiet by (auto simp: quiet_since_def)
  show ?thesis
  proof (cases "(of_nat t :: u32) - of_nat (t1 + b) < 2 ^ 31")
    case True
    from clock_reached [OF t b(2) True] b(1) show ?thesis by simp
  next
    case late: False
    have "note_bootstrap True False (of_nat t) st = st"
      using False b late quiet by (simp add: note_bootstrap_def quiet_since_def)
    then show ?thesis using quiet i upd False
      by (auto simp: quiet_since_def wake_poll_update_def note_asleep_def note_awake_def
          charge_cache_fresh_def split: wake_sample.splits)
  qed
qed

lemma wake_ok_update:
  "wake_ok st \<Longrightarrow> wpi_ble_connected i \<Longrightarrow> \<not> (wpi_sample i = SampleAsleep \<and> wpi_vcsec_stably_asleep i) \<Longrightarrow>
   wake_ok (wake_poll_update i st) \<and> (wp_episode_fresh (wake_poll_update i st) \<or> wp_bootstrap_dispatched (wake_poll_update i st))"
  using retry_after_range [of "wp_backoff_s st"]
  by (auto simp: wake_ok_def wake_poll_update_def note_bootstrap_def note_asleep_def note_awake_def Let_def
      retry_after_def kBootstrapInitialBackoffS_def split: wake_sample.splits if_splits)

lemma wake_pass_unfired:
  "wake_pass t i st = (False, st') \<Longrightarrow> st' = wake_poll_update (i\<lparr>wpi_now_s := of_nat t\<rparr>) st"
  by (auto simp: wake_pass_def wake_edge_should_poll_def charge_poll_should_fire_def split: if_splits)

lemma wake_pass_fired:
  assumes ok: "wake_ok st" and i: "wpi_ble_connected i" "\<not> (wpi_sample i = SampleAsleep \<and> wpi_vcsec_stably_asleep i)"
    and fired: "wake_pass t i st = (True, st')"
  shows "wake_ok st' \<and> quiet_since t st' \<and> wp_pending (wake_poll_update (i\<lparr>wpi_now_s := of_nat t\<rparr>) st)"
proof -
  let ?u = "wake_poll_update (i\<lparr>wpi_now_s := of_nat t\<rparr>) st"
  have u: "wake_ok ?u" "wp_episode_fresh ?u \<or> wp_bootstrap_dispatched ?u"
    using wake_ok_update [OF ok, of "i\<lparr>wpi_now_s := of_nat t\<rparr>"] i by simp_all
  have p: "wp_pending ?u" "st' = snd (take_pending (of_nat t) ?u)"
    using fired by (auto simp: wake_pass_def wake_edge_should_poll_def charge_poll_should_fire_def split: if_splits)
  define b where "b = (if wp_backoff_s ?u = 0 then kBootstrapInitialBackoffS else wp_backoff_s ?u)"
  have b: "30 \<le> unat b" "unat b \<le> 300" using u(1) by (auto simp: b_def wake_ok_def kBootstrapInitialBackoffS_def)
  have st': "st' = ?u\<lparr>wp_pending := False, wp_backoff_s := b, wp_next_retry_s := of_nat t + b\<rparr>"
    using p by (simp add: take_pending_def b_def Let_def)
  have "of_nat t + b = of_nat (t + unat b)" by simp
  then show ?thesis using p(1) u b unfolding st' wake_ok_def quiet_since_def by auto
qed

lemma wake_run_paced:
  assumes "wake_ok st" "sorted (map fst xs)" "\<forall>(t, i) \<in> set xs. wpi_ble_connected i \<and>
      \<not> (wpi_sample i = SampleAsleep \<and> wpi_vcsec_stably_asleep i)"
    and "\<forall>t \<in> fst ` set xs. t1 \<le> t" "quiet_since t1 st \<or> (\<forall>t \<in> fst ` set xs. t1 + 30 \<le> t)"
  shows "(\<forall>t \<in> set (fst (wake_run xs st)). t1 + 30 \<le> t) \<and> sorted_wrt (\<lambda>a b. a + 30 \<le> b) (fst (wake_run xs st))"
  using assms
proof (induction xs arbitrary: st t1)
  case (Cons x xs)
  obtain t i where x: "x = (t, i)" by fastforce
  obtain fired st1 where p: "wake_pass t i st = (fired, st1)" by fastforce
  have i: "wpi_ble_connected i" "\<not> (wpi_sample i = SampleAsleep \<and> wpi_vcsec_stably_asleep i)"
    using Cons.prems(3) x by auto
  have t: "t1 \<le> t" "\<forall>t' \<in> fst ` set xs. t \<le> t'" using Cons.prems(2,4) x by auto
  have rest: "sorted (map fst xs)" "\<forall>(t, i) \<in> set xs. wpi_ble_connected i \<and>
      \<not> (wpi_sample i = SampleAsleep \<and> wpi_vcsec_stably_asleep i)" using Cons.prems(2,3) x by auto
  have later: "t1 + 30 \<le> t \<or> quiet_since t1 (wake_poll_update (i\<lparr>wpi_now_s := of_nat t\<rparr>) st)"
    using Cons.prems(5) quiet_update [OF _ t(1) i refl, of st] x by auto
  show ?case
  proof (cases fired)
    case True
    then have f: "wake_ok st1" "quiet_since t st1" "wp_pending (wake_poll_update (i\<lparr>wpi_now_s := of_nat t\<rparr>) st)"
      using wake_pass_fired [OF Cons.prems(1) i] p by auto
    have "t1 + 30 \<le> t" using later f(3) by (auto simp: quiet_since_def)
    moreover have "(\<forall>t' \<in> set (fst (wake_run xs st1)). t + 30 \<le> t') \<and>
        sorted_wrt (\<lambda>a b. a + 30 \<le> b) (fst (wake_run xs st1))"
      by (rule Cons.IH) (use f t rest in auto)
    ultimately show ?thesis using p True x by (auto simp: case_prod_beta)
  next
    case False
    then have st1: "st1 = wake_poll_update (i\<lparr>wpi_now_s := of_nat t\<rparr>) st" using wake_pass_unfired p by auto
    have ok: "wake_ok st1" using wake_ok_update [OF Cons.prems(1), of "i\<lparr>wpi_now_s := of_nat t\<rparr>"] i by (simp add: st1)
    have "quiet_since t1 st1 \<or> (\<forall>t' \<in> fst ` set xs. t1 + 30 \<le> t')" using later t st1 by auto
    then have "(\<forall>t' \<in> set (fst (wake_run xs st1)). t1 + 30 \<le> t') \<and>
        sorted_wrt (\<lambda>a b. a + 30 \<le> b) (fst (wake_run xs st1))"
      by (intro Cons.IH) (use ok t rest in auto)
    then show ?thesis using p False x by (simp add: case_prod_beta)
  qed
qed simp

lemma wake_run_spaced:
  assumes "wake_ok st" "sorted (map fst xs)" "\<forall>(t, i) \<in> set xs. wpi_ble_connected i \<and>
      \<not> (wpi_sample i = SampleAsleep \<and> wpi_vcsec_stably_asleep i)"
  shows "sorted_wrt (\<lambda>a b. a + 30 \<le> b) (fst (wake_run xs st))"
  using assms
proof (induction xs arbitrary: st)
  case (Cons x xs)
  obtain t i where x: "x = (t, i)" by fastforce
  obtain fired st1 where p: "wake_pass t i st = (fired, st1)" by fastforce
  have i: "wpi_ble_connected i" "\<not> (wpi_sample i = SampleAsleep \<and> wpi_vcsec_stably_asleep i)"
    using Cons.prems(3) x by auto
  have rest: "sorted (map fst xs)" "\<forall>t' \<in> fst ` set xs. t \<le> t'" "\<forall>(t, i) \<in> set xs. wpi_ble_connected i \<and>
      \<not> (wpi_sample i = SampleAsleep \<and> wpi_vcsec_stably_asleep i)" using Cons.prems(2,3) x by auto
  show ?case
  proof (cases fired)
    case True
    then have f: "wake_ok st1" "quiet_since t st1" using wake_pass_fired [OF Cons.prems(1) i] p by auto
    have "(\<forall>t' \<in> set (fst (wake_run xs st1)). t + 30 \<le> t') \<and> sorted_wrt (\<lambda>a b. a + 30 \<le> b) (fst (wake_run xs st1))"
      by (rule wake_run_paced) (use f rest in auto)
    then show ?thesis using p True x by (simp add: case_prod_beta)
  next
    case False
    have "wake_ok st1"
      using wake_ok_update [OF Cons.prems(1), of "i\<lparr>wpi_now_s := of_nat t\<rparr>"] i wake_pass_unfired p False by auto
    from Cons.IH [OF this rest(1,3)] show ?thesis using p False x by (simp add: case_prod_beta)
  qed
qed simp

text \<open>Every reachable state is fit for that: the arm and the latch exclude each other and the backoff stays in
  range, whatever passes came before.\<close>

lemma wake_ok_pass: "wake_ok st \<Longrightarrow> wake_ok (snd (wake_pass t i st))"
proof -
  assume ok: "wake_ok st"
  let ?i = "i\<lparr>wpi_now_s := of_nat t\<rparr>"
  have "wake_ok (wake_poll_update ?i st)"
  proof (cases "wpi_ble_connected ?i \<and> \<not> (wpi_sample ?i = SampleAsleep \<and> wpi_vcsec_stably_asleep ?i)")
    case True
    then show ?thesis using wake_ok_update [OF ok] by blast
  next
    case False
    then show ?thesis
      by (auto simp: wake_poll_update_def note_disconnected_def note_asleep_def wake_ok_def)
  qed
  then show ?thesis
    by (auto simp: wake_pass_def wake_edge_should_poll_def charge_poll_should_fire_def take_pending_def wake_ok_def
        kBootstrapInitialBackoffS_def Let_def)
qed

lemma wake_ok_run: "wake_ok st \<Longrightarrow> wake_ok (snd (wake_run xs st))"
proof (induction xs arbitrary: st)
  case (Cons x xs)
  obtain t i where x: "x = (t, i)" by fastforce
  have "wake_ok (snd (wake_pass t i st))" by (rule wake_ok_pass [OF Cons.prems])
  from Cons.IH [OF this] show ?case by (simp add: x case_prod_beta)
qed simp

subsection \<open>Repeated failures are reported at a bounded rate, and never fall silent\<close>

text \<open>Unattended failures of one kind at the given milliseconds: those at which a line is written.\<close>

fun connect_fail_run :: "connect_fail \<Rightarrow> nat list \<Rightarrow> connect_fail_state \<Rightarrow> nat list" where
  "connect_fail_run kind [] st = []"
| "connect_fail_run kind (t # ts) st = (case connect_fail_note kind Background (of_nat t) st of (l, st') \<Rightarrow>
     if l = LogSuppress then connect_fail_run kind ts st' else t # connect_fail_run kind ts st')"

text \<open>The reference: a line is due an hour after the last one.\<close>

fun hourly :: "nat \<Rightarrow> nat list \<Rightarrow> nat list" where
  "hourly e [] = []"
| "hourly e (t # ts) = (if e + 3600000 \<le> t then t # hourly t ts else hourly e ts)"

lemma hour_passed: "(e :: nat) \<le> t \<Longrightarrow> t < 2 ^ 64 \<Longrightarrow> kConnectFailRepeatMs \<le> (of_nat t :: u64) - of_nat e \<longleftrightarrow> e + 3600000 \<le> t"
proof -
  assume "e \<le> t" "t < 2 ^ 64"
  then have "(of_nat t :: u64) - of_nat e = of_nat (t - e)" by simp
  moreover have "unat (of_nat (t - e) :: u64) = t - e" using \<open>t < 2 ^ 64\<close> by (simp add: unat_of_nat)
  ultimately have "unat ((of_nat t :: u64) - of_nat e) = t - e" by (simp only:)
  then show ?thesis using \<open>e \<le> t\<close> unfolding word_le_nat_alt kConnectFailRepeatMs_def by simp linarith
qed

lemma connect_fail_run_hourly:
  assumes "cf_streak st \<noteq> 0" "cf_kind st = kind" "cf_last_emit_ms st = of_nat e" "sorted (e # ts)" "\<forall>t \<in> set ts. t < 2 ^ 64"
  shows "connect_fail_run kind ts st = hourly e ts"
  using assms
proof (induction ts arbitrary: st e)
  case (Cons t ts)
  have due: "kConnectFailRepeatMs \<le> of_nat t - cf_last_emit_ms st \<longleftrightarrow> e + 3600000 \<le> t"
    using hour_passed [of e t] Cons.prems(3-5) by simp
  define s1 where "s1 = (if cf_streak st \<noteq> -1 then st\<lparr>cf_streak := cf_streak st + 1\<rparr> else st)"
  have s1: "cf_streak s1 \<noteq> 0" "cf_kind s1 = kind" "cf_last_emit_ms s1 = of_nat e"
    using Cons.prems(1-3) by (auto simp: s1_def) (metis add_diff_cancel_right' diff_0)
  show ?case
  proof (cases "e + 3600000 \<le> t")
    case True
    then have n: "connect_fail_note kind Background (of_nat t) st =
        (if kind = OutOfRange then LogWarn else LogError, s1\<lparr>cf_last_emit_ms := of_nat t\<rparr>)"
      using Cons.prems(1,2) due s1(3) by (auto simp: connect_fail_note_def s1_def Let_def)
    have "connect_fail_run kind ts (s1\<lparr>cf_last_emit_ms := of_nat t\<rparr>) = hourly t ts"
      by (rule Cons.IH) (use s1 Cons.prems(4,5) in auto)
    with n True show ?thesis by simp
  next
    case False
    then have n: "connect_fail_note kind Background (of_nat t) st = (LogSuppress, s1)"
      using Cons.prems(1,2) due s1(3) by (auto simp: connect_fail_note_def s1_def Let_def)
    have "connect_fail_run kind ts s1 = hourly e ts"
      by (rule Cons.IH) (use s1 Cons.prems(4,5) in auto)
    with n False show ?thesis by simp
  qed
qed simp

lemma hourly_spaced: "sorted (e # ts) \<Longrightarrow> sorted_wrt (\<lambda>a b. a + 3600000 \<le> b) (e # hourly e ts)"
proof (induction ts arbitrary: e)
  case (Cons t ts)
  show ?case
  proof (cases "e + 3600000 \<le> t")
    case True
    then have "sorted_wrt (\<lambda>a b. a + 3600000 \<le> b) (t # hourly t ts)" using Cons by simp
    with True show ?thesis by (auto intro: le_trans [OF True])
  next
    case False
    then show ?thesis using Cons.IH [of e] Cons.prems by simp
  qed
qed simp

lemma hourly_recent: "sorted (e # ts) \<Longrightarrow> t \<in> set ts \<Longrightarrow> \<exists>l \<in> set (e # hourly e ts). l \<le> t \<and> t < l + 3600000"
proof (induction ts arbitrary: e)
  case (Cons u ts)
  show ?case
  proof (cases "t = u")
    case True
    then show ?thesis using Cons.prems(1) by (auto simp: not_le)
  next
    case False
    then have "t \<in> set ts" using Cons.prems by simp
    then have "\<exists>l \<in> set (u # hourly u ts). l \<le> t \<and> t < l + 3600000" "\<exists>l \<in> set (e # hourly e ts). l \<le> t \<and> t < l + 3600000"
      using Cons.IH [of u] Cons.IH [of e] Cons.prems(1) by simp_all
    then show ?thesis by auto
  qed
qed simp

subsection \<open>Properties\<close>

text \<open>The telemetry rotation starves no domain: from any state reached by any admissions and queue refusals,
  whatever the climate samples are worth, any run with twelve accepted polls polls climate, drive,
  tires and closures, although an unusable climate sample jumps the queue.\<close>

theorem telemetry_rotation_fair:
  assumes "12 \<le> length (filter snd xs)"
  shows "d \<in> set (fst (telemetry_run xs (snd (telemetry_run past new_telemetry_poll))))"
proof -
  let ?st = "snd (telemetry_run past new_telemetry_poll)"
  have a: "unat (ts_climate_attempts ?st) \<le> 2" by (rule telemetry_attempts_le) (simp add: new_telemetry_poll_def)
  obtain n where n: "n \<le> 3" "(domain_after ^^ n) (ts_rotation ?st) = d" using domain_reached by blast
  have "(domain_after ^^ n) (ts_rotation ?st) \<in> set (fst (telemetry_run (filter snd xs) ?st))"
    by (rule rotation_visits [OF a]) (use n assms in \<open>auto simp: list_all_iff\<close>)
  with n telemetry_refused [of xs ?st] show ?thesis by metis
qed

theorem telemetry_rotation_fair_witness:
  "Closures \<in> set (fst (telemetry_run (replicate 12 (False, True)) (snd (telemetry_run [(True, False)] new_telemetry_poll))))"
  by (rule telemetry_rotation_fair) (simp add: numeral_eq_Suc)

text \<open>The one-shot charge poll never hammers the car: in any state the loop can have reached, as long as the
  link stays up and no sleep has been confirmed in between, two polls of the wake edge and the stale
  cache are at least 30 seconds apart, across the wrap of the 32-bit second counter.\<close>

theorem one_shot_polls_paced:
  assumes "sorted (map fst xs)" "\<forall>(t, i) \<in> set xs. wpi_ble_connected i \<and>
      \<not> (wpi_sample i = SampleAsleep \<and> wpi_vcsec_stably_asleep i)"
  shows "sorted_wrt (\<lambda>a b. a + 30 \<le> b) (fst (wake_run xs (snd (wake_run past new_wake_poll))))"
  by (rule wake_run_spaced [OF wake_ok_run assms]) (simp add: wake_ok_def new_wake_poll_def)

definition sample_pass :: "nat \<Rightarrow> nat \<times> wake_poll_inputs" where
  "sample_pass t = (t, \<lparr>wpi_sample = SampleAwake, wpi_vcsec_stably_asleep = False, wpi_ble_connected = True,
     wpi_have_charge_cache = False, wpi_charge_cache_age_s = 0, wpi_now_s = 0\<rparr>)"

theorem one_shot_polls_paced_witness:
  "fst (wake_run (map sample_pass [10, 20, 40, 50, 110]) new_wake_poll) =
     [10, 40, 110] \<and>
   sorted_wrt (\<lambda>a b. a + 30 \<le> b)
     (fst (wake_run (map sample_pass [10, 20, 40, 50, 110])
       (snd (wake_run [] new_wake_poll))))"
  using one_shot_polls_paced [of "map sample_pass [10, 20, 40, 50, 110]" "[]"]
  by (simp add: sample_pass_def) code_simp

text \<open>An unattended connection failure that keeps its kind is logged at once, then at most once an hour, and
  never falls silent: the lines are at least an hour apart, and every failure has a line less than an
  hour before it.\<close>

theorem connect_failures_reported_hourly:
  assumes "sorted ts" "\<forall>t \<in> set ts. t < 2 ^ 64"
  shows "let lines = connect_fail_run kind ts (connect_ok_note st) in
    sorted_wrt (\<lambda>a b. a + 3600000 \<le> b) lines \<and> (\<forall>t \<in> set ts. \<exists>l \<in> set lines. l \<le> t \<and> t < l + 3600000)"
proof (cases ts)
  case (Cons t us)
  let ?s = "st\<lparr>cf_kind := kind, cf_streak := 1, cf_last_emit_ms := of_nat t\<rparr>"
  have "connect_fail_note kind Background (of_nat t) (connect_ok_note st) =
      (if kind = OutOfRange then LogWarn else LogError, ?s)"
    by (simp add: connect_fail_note_def connect_ok_note_def Let_def)
  then have "connect_fail_run kind ts (connect_ok_note st) = t # connect_fail_run kind us ?s" by (simp add: Cons)
  moreover have "connect_fail_run kind us ?s = hourly t us"
    by (rule connect_fail_run_hourly) (use assms Cons in auto)
  ultimately show ?thesis using hourly_spaced [of t us] hourly_recent [of t us] assms(1) Cons by auto
qed simp

theorem connect_failures_reported_hourly_witness:
  "sorted_wrt (\<lambda>a b. a + 3600000 \<le> b)
     (connect_fail_run OutOfRange [0, 40000, 3600000, 7300000] (connect_ok_note new_connect_fail))"
  using connect_failures_reported_hourly [of "[0, 40000, 3600000, 7300000]" OutOfRange new_connect_fail] by (simp add: Let_def)

text \<open>The countdown of the Bluetooth row is exact: for a deadline less than half the tick range ahead it is the
  remaining time in seconds, rounded up, also when the tick counter wraps in between; it is zero exactly
  when the deadline has come.\<close>

theorem countdown_exact:
  assumes "d < 2 ^ 31" "0 < hz" "hz \<le> 2 ^ 31"
  shows "unat (secs_left (of_nat (n + d)) (of_nat n) (of_nat hz)) = (d + hz - 1) div hz"
proof (cases "d = 0")
  case False
  have left: "(of_nat (n + d) :: u32) - of_nat n = of_nat d" by simp
  have u: "unat (of_nat d :: u32) = d" using assms(1) by (simp add: unat_of_nat)
  have h: "unat (of_nat hz :: u32) = hz" using assms(3) by (simp add: unat_of_nat)
  have "sint (of_nat d :: u32) = int d"
    using assms(1) by (simp add: signed_of_nat signed_take_bit_int_eq_self)
  then have pos: "\<not> sint (of_nat d :: u32) \<le> 0" using False by simp
  have "(of_nat d + of_nat hz - 1 :: u32) = of_nat (d + hz - 1)" using assms(2) by (simp add: of_nat_diff)
  moreover have "unat (of_nat (d + hz - 1) :: u32) = d + hz - 1" unfolding unat_of_nat using assms by (intro mod_less) simp
  ultimately have "unat (of_nat d + of_nat hz - 1 :: u32) = d + hz - 1" by (simp only:)
  then show ?thesis using pos h unfolding secs_left_def Let_def left by (simp add: unat_div)
qed (use assms in \<open>simp add: secs_left_def\<close>)

theorem countdown_exact_witness: "unat (secs_left (of_nat (4294967200 + 2500)) (of_nat 4294967200) (of_nat 1000)) = 3"
  using countdown_exact [of 2500 1000 4294967200] by simp


end
