(* ===== verification/JsonSyntax.thy ===== *)
theory JsonSyntax
  imports Texts
begin

text \<open>
  main/logic/json_syntax.hpp: the allocation-free syntax gate in front of the JSON library. The cursor
  is the part of the document still to read together with the flags of the class; the pointers
  \<open>cur_\<close> and \<open>end_\<close> are the list and its end. The three mutually recursive readers (value, array,
  object) take fuel, and \<open>None\<close> is the result of running out of it; the theory \<open>JsonGrammar\<close> shows that the
  fuel \<open>json_document\<close> gives always suffices. \<open>json_safe_integer\<close>, which reads a double, is not modelled.
\<close>

subsection \<open>Canonical integers\<close>

definition kJsonMaxNesting :: nat where "kJsonMaxNesting = 16"
definition kJsonMaxRequestValues :: nat where "kJsonMaxRequestValues = 64"
definition kJsonSafeIntegerMax :: u64 where "kJsonSafeIntegerMax = 9007199254740991"

datatype json_raw_number_status = RawMissing | RawNonNumber | RawValidInteger | RawInvalidNumber

record json_raw_number_id =
  raw_value :: int
  raw_status :: json_raw_number_status

definition new_raw_number_id :: json_raw_number_id where
  "new_raw_number_id = \<lparr>raw_value = 0, raw_status = RawMissing\<rparr>"

text \<open>The magnitude loop, on 64-bit words: the guard keeps the multiplication from wrapping.\<close>

fun json_magnitude :: "string \<Rightarrow> u64 \<Rightarrow> u64 option" where
  "json_magnitude [] magnitude = Some magnitude"
| "json_magnitude (p # ps) magnitude =
     (if code_of p < 48 \<or> 57 < code_of p then None
      else let digit = of_nat (code_of p - 48) in
           if (kJsonSafeIntegerMax - digit) div 10 < magnitude then None
           else json_magnitude ps (magnitude * 10 + digit))"

definition json_canonical_safe_integer :: "string \<Rightarrow> int option" where
  "json_canonical_safe_integer text =
     (if text = [] then None
      else let negative = (hd text = CHR ''-'');
               digits = (if negative then tl text else text) in
        if digits = [] then None
        else if hd digits = CHR ''0'' \<and> tl digits \<noteq> [] then None
        else case json_magnitude digits 0 of
            None \<Rightarrow> None
          | Some magnitude \<Rightarrow>
              if negative \<and> magnitude = 0 then None
              else Some (if negative then - uint magnitude else uint magnitude))"

subsection \<open>The cursor\<close>

datatype json_verdict = JsonValid | JsonMalformed | JsonTooDeep | JsonUnsupportedNul | JsonTooManyValues

record syntax_cursor =
  cur :: string
  too_deep :: bool
  unsupported_nul :: bool
  raw_id :: "json_raw_number_id option"
  max_values :: nat
  n_values :: nat
  too_many_values :: bool

definition new_syntax_cursor :: "string \<Rightarrow> json_raw_number_id option \<Rightarrow> nat \<Rightarrow> syntax_cursor" where
  "new_syntax_cursor data raw limit =
     \<lparr>cur = data, too_deep = False, unsupported_nul = False, raw_id = raw, max_values = limit,
      n_values = 0, too_many_values = False\<rparr>"

definition is_ws :: "char \<Rightarrow> bool" where
  "is_ws c \<longleftrightarrow> c = CHR '' '' \<or> c = CHR 0x09 \<or> c = CHR 0x0D \<or> c = CHR 0x0A"

definition js_whitespace :: "syntax_cursor \<Rightarrow> syntax_cursor" where
  "js_whitespace c = c\<lparr>cur := dropWhile is_ws (cur c)\<rparr>"

definition js_take :: "char \<Rightarrow> syntax_cursor \<Rightarrow> bool \<times> syntax_cursor" where
  "js_take want c =
     (if cur c = [] \<or> hd (cur c) \<noteq> want then (False, c) else (True, c\<lparr>cur := tl (cur c)\<rparr>))"

text \<open>The comparison consumes the character it fails on, as \<open>*cur_++\<close> does.\<close>

fun literal_loop :: "string \<Rightarrow> string \<Rightarrow> bool \<times> string" where
  "literal_loop [] s = (True, s)"
| "literal_loop (t # ts) [] = (False, [])"
| "literal_loop (t # ts) (x # xs) = (if x \<noteq> t then (False, xs) else literal_loop ts xs)"

definition js_literal :: "string \<Rightarrow> syntax_cursor \<Rightarrow> bool \<times> syntax_cursor" where
  "js_literal text c = (let (ok, s) = literal_loop text (cur c) in (ok, c\<lparr>cur := s\<rparr>))"

subsection \<open>Strings\<close>

definition js_hex :: "char \<Rightarrow> bool" where
  "js_hex c \<longleftrightarrow> (48 \<le> code_of c \<and> code_of c \<le> 57) \<or> (97 \<le> code_of c \<and> code_of c \<le> 102) \<or>
     (65 \<le> code_of c \<and> code_of c \<le> 70)"

definition js_hex_value :: "char \<Rightarrow> u8" where
  "js_hex_value c =
     (if 48 \<le> code_of c \<and> code_of c \<le> 57 then of_nat (code_of c - 48)
      else if 97 \<le> code_of c \<and> code_of c \<le> 102 then of_nat (code_of c - 97 + 10)
      else of_nat (code_of c - 65 + 10))"

text \<open>Four hexadecimal digits: the value and the rest, or None with what was consumed.\<close>

fun hex4_loop :: "nat \<Rightarrow> string \<Rightarrow> u16 \<Rightarrow> u16 option \<times> string" where
  "hex4_loop 0 s v = (Some v, s)"
| "hex4_loop (Suc n) [] v = (None, [])"
| "hex4_loop (Suc n) (c # cs) v =
     (if \<not> js_hex c then (None, c # cs)
      else hex4_loop n cs (push_bit 4 v OR ucast (js_hex_value c)))"

definition js_hex4 :: "string \<Rightarrow> u16 option \<times> string" where
  "js_hex4 s = (if length s < 4 then (None, s) else hex4_loop 4 s 0)"

definition utf8_continuation :: "nat \<Rightarrow> nat \<Rightarrow> string \<Rightarrow> bool \<times> string" where
  "utf8_continuation minimum maximum s =
     (if s = [] then (False, s)
      else if code_of (hd s) < minimum \<or> maximum < code_of (hd s) then (False, s)
      else (True, tl s))"

fun utf8_continuations :: "nat \<Rightarrow> string \<Rightarrow> bool \<times> string" where
  "utf8_continuations 0 s = (True, s)"
| "utf8_continuations (Suc n) s =
     (let (ok, s') = utf8_continuation 0x80 0xbf s in if \<not> ok then (False, s') else utf8_continuations n s')"

text \<open>The class of a lead byte: how many bytes follow, and the range of the first of them.\<close>

definition utf8_class :: "nat \<Rightarrow> (nat \<times> nat \<times> nat) option" where
  "utf8_class lead =
     (if 0xc2 \<le> lead \<and> lead \<le> 0xdf then Some (1, 0x80, 0xbf)
      else if 0xe0 \<le> lead \<and> lead \<le> 0xef then
        Some (2, if lead = 0xe0 then 0xa0 else 0x80, if lead = 0xed then 0x9f else 0xbf)
      else if 0xf0 \<le> lead \<and> lead \<le> 0xf4 then
        Some (3, if lead = 0xf0 then 0x90 else 0x80, if lead = 0xf4 then 0x8f else 0xbf)
      else None)"

definition utf8_scalar :: "char \<Rightarrow> string \<Rightarrow> bool \<times> string" where
  "utf8_scalar lead s = (case utf8_class (code_of lead) of
       None \<Rightarrow> (False, s)
     | Some (remaining, minimum, maximum) \<Rightarrow>
         let (ok, s') = utf8_continuation minimum maximum s in
         if \<not> ok then (False, s') else utf8_continuations (remaining - 1) s')"

text \<open>The running comparison of the decoded name with \<open>id\<close>: \<open>decoded_length\<close> and \<open>decoded_id\<close>.\<close>

type_synonym id_match = "nat \<times> bool"

definition observe_scalar :: "nat \<Rightarrow> id_match \<Rightarrow> id_match" where
  "observe_scalar scalar m = (case m of (decoded_length, decoded_id) \<Rightarrow>
     (Suc decoded_length,
      if decoded_length = 0 then decoded_id \<and> scalar = code_of (CHR ''i'')
      else if decoded_length = 1 then decoded_id \<and> scalar = code_of (CHR ''d'')
      else False))"

definition simple_escape :: "char \<Rightarrow> nat option" where
  "simple_escape escaped =
     (if escaped = CHR 0x22 \<or> escaped = CHR 0x5C \<or> escaped = CHR ''/'' then Some (code_of escaped)
      else if escaped = CHR ''b'' then Some 8
      else if escaped = CHR ''f'' then Some 12
      else if escaped = CHR ''n'' then Some 10
      else if escaped = CHR ''r'' then Some 13
      else if escaped = CHR ''t'' then Some 9
      else None)"

text \<open>
  One character of a string that is not its closing quote: the scalar it decodes to (any value above
  ASCII stands for "not a letter of id") and the rest, or the failure, with the flag it sets when it is
  an escaped U+0000.
\<close>

definition string_char :: "char \<Rightarrow> string \<Rightarrow> (bool \<times> string) + (nat \<times> string)" where
  "string_char c cs =
     (if code_of c < 0x20 then Inl (False, cs)
      else if 0x80 \<le> code_of c then
        (let (ok, s) = utf8_scalar c cs in if \<not> ok then Inl (False, s) else Inr (0x110000, s))
      else if c \<noteq> CHR 0x5C then Inr (code_of c, cs)
      else if cs = [] then Inl (False, cs)
      else let escaped = hd cs; es = tl cs in
        (case simple_escape escaped of
           Some scalar \<Rightarrow> Inr (scalar, es)
         | None \<Rightarrow>
            if escaped \<noteq> CHR ''u'' then Inl (False, es)
            else (case js_hex4 es of
                (None, s) \<Rightarrow> Inl (False, s)
              | (Some first, s) \<Rightarrow>
                  if first = 0 then Inl (True, s)
                  else if 0xd800 \<le> first \<and> first \<le> 0xdbff then
                    (if length s < 6 \<or> s ! 0 \<noteq> CHR 0x5C \<or> s ! 1 \<noteq> CHR ''u'' then Inl (False, s)
                     else (case js_hex4 (drop 2 s) of
                         (None, s') \<Rightarrow> Inl (False, s')
                       | (Some second, s') \<Rightarrow>
                           if second < 0xdc00 \<or> 0xdfff < second then Inl (False, s')
                           else Inr (0x110000, s')))
                  else if 0xdc00 \<le> first \<and> first \<le> 0xdfff then Inl (False, s)
                  else Inr (unat first, s))))"

lemma utf8_continuation_length: "utf8_continuation lo hi s = (b, s') \<Longrightarrow> length s' \<le> length s"
  by (auto simp: utf8_continuation_def split: if_splits)

lemma utf8_continuations_length: "utf8_continuations n s = (b, s') \<Longrightarrow> length s' \<le> length s"
proof (induction n arbitrary: s)
  case (Suc n)
  obtain ok t where t: "utf8_continuation 0x80 0xbf s = (ok, t)" by (metis surj_pair)
  with Suc.prems Suc.IH [of t] utf8_continuation_length [OF t] show ?case by (auto split: if_splits)
qed simp

lemma utf8_scalar_length: "utf8_scalar c s = (b, s') \<Longrightarrow> length s' \<le> length s"
  by (auto simp: utf8_scalar_def split: option.splits prod.splits if_splits
      dest!: utf8_continuation_length utf8_continuations_length)

lemma hex4_loop_length: "hex4_loop n s v = (r, s') \<Longrightarrow> length s' \<le> length s"
  by (induction n s v rule: hex4_loop.induct) (auto split: if_splits)

lemma js_hex4_length: "js_hex4 s = (r, s') \<Longrightarrow> length s' \<le> length s"
  by (auto simp: js_hex4_def split: if_splits dest: hex4_loop_length)

lemma string_char_length: "string_char c cs = Inr (scalar, s) \<Longrightarrow> length s \<le> length cs"
  by (auto simp: string_char_def Let_def split: if_splits option.splits prod.splits
      dest!: utf8_scalar_length js_hex4_length)

text \<open>The loop: whether the string is closed, whether its decoded text is exactly \<open>id\<close>, whether an escaped
  U+0000 stopped it, and the rest.\<close>

function string_loop :: "string \<Rightarrow> id_match \<Rightarrow> bool \<times> bool \<times> bool \<times> string" where
  "string_loop [] m = (False, False, False, [])"
| "string_loop (c # cs) m =
     (if c = CHR 0x22 then (True, snd m \<and> fst m = 2, False, cs)
      else case string_char c cs of
        Inl (nul, s) \<Rightarrow> (False, False, nul, s)
      | Inr (scalar, s) \<Rightarrow> string_loop s (observe_scalar scalar m))"
  by pat_completeness auto
termination
  by (relation "measure (\<lambda>(s, m). length s)") (auto dest: string_char_length)

text \<open>\<open>string(exact_decoded_id)\<close>; the flag is only looked at by a caller that asked for it.\<close>

definition js_string :: "bool \<Rightarrow> syntax_cursor \<Rightarrow> bool \<times> bool \<times> syntax_cursor" where
  "js_string wants_exact c = (case js_take (CHR 0x22) c of
       (False, c1) \<Rightarrow> (False, False, c1)
     | (True, c1) \<Rightarrow>
         let (ok, exact, nul, s) = string_loop (cur c1) (0, True) in
         (ok, wants_exact \<and> exact, c1\<lparr>cur := s, unsupported_nul := unsupported_nul c1 \<or> nul\<rparr>))"

subsection \<open>Numbers\<close>

definition at_char :: "(char \<Rightarrow> bool) \<Rightarrow> string \<Rightarrow> bool" where
  "at_char P s \<longleftrightarrow> s \<noteq> [] \<and> P (hd s)"

definition skip_digits :: "string \<Rightarrow> string" where "skip_digits = dropWhile is_digit_char"

definition number_integer :: "string \<Rightarrow> bool \<times> string" where
  "number_integer s =
     (if s = [] then (False, s)
      else if hd s = CHR ''0'' then (if at_char is_digit_char (tl s) then (False, tl s) else (True, tl s))
      else if code_of (hd s) < 49 \<or> 57 < code_of (hd s) then (False, s)
      else (True, skip_digits s))"

definition number_fraction :: "string \<Rightarrow> bool \<times> string" where
  "number_fraction s =
     (if at_char (\<lambda>c. c = CHR ''.'') s then
        (if \<not> at_char is_digit_char (tl s) then (False, tl s) else (True, skip_digits (tl s)))
      else (True, s))"

definition number_exponent :: "string \<Rightarrow> bool \<times> string" where
  "number_exponent s =
     (if at_char (\<lambda>c. c = CHR ''e'' \<or> c = CHR ''E'') s then
        (let s1 = (if at_char (\<lambda>c. c = CHR ''+'' \<or> c = CHR ''-'') (tl s) then tl (tl s) else tl s) in
         if \<not> at_char is_digit_char s1 then (False, s1) else (True, skip_digits s1))
      else (True, s))"

definition js_number :: "syntax_cursor \<Rightarrow> bool \<times> syntax_cursor" where
  "js_number c =
     (let start = cur c; s1 = (if at_char (\<lambda>c. c = CHR ''-'') start then tl start else start) in
      case number_integer s1 of
        (False, s2) \<Rightarrow> (False, c\<lparr>cur := s2\<rparr>)
      | (True, s2) \<Rightarrow> (case number_fraction s2 of
          (False, s3) \<Rightarrow> (False, c\<lparr>cur := s3\<rparr>)
        | (True, s3) \<Rightarrow> (case number_exponent s3 of
            (False, s4) \<Rightarrow> (False, c\<lparr>cur := s4\<rparr>)
          | (True, s4) \<Rightarrow> (length s4 \<noteq> length start, c\<lparr>cur := s4\<rparr>))))"

subsection \<open>Values\<close>

text \<open>Counting a value saturates and keeps reading.\<close>

definition count_value :: "syntax_cursor \<Rightarrow> syntax_cursor" where
  "count_value c =
     (if max_values c \<noteq> 0 then
        (if n_values c < max_values c then c\<lparr>n_values := n_values c + 1\<rparr> else c\<lparr>too_many_values := True\<rparr>)
      else c)"

text \<open>What \<open>array\<close> and \<open>object\<close> do before their loop; None is to enter it.\<close>

definition js_open :: "char \<Rightarrow> char \<Rightarrow> syntax_cursor \<Rightarrow> bool option \<times> syntax_cursor" where
  "js_open opener closer c = (case js_take opener c of
       (False, c1) \<Rightarrow> (Some False, c1)
     | (True, c1) \<Rightarrow> (case js_take closer (js_whitespace c1) of
         (True, c2) \<Rightarrow> (Some True, c2)
       | (False, c2) \<Rightarrow> (None, c2)))"

text \<open>What both loops do after an element: Some is to return, None to go on with the next.\<close>

definition js_next :: "char \<Rightarrow> syntax_cursor \<Rightarrow> bool option \<times> syntax_cursor" where
  "js_next closer c = (case js_take closer (js_whitespace c) of
       (True, c1) \<Rightarrow> (Some True, c1)
     | (False, c1) \<Rightarrow> (case js_take (CHR '','') c1 of
         (False, c2) \<Rightarrow> (Some False, c2)
       | (True, c2) \<Rightarrow> (None, js_whitespace c2)))"

text \<open>A member's name and colon: whether they were there, whether the name is \<open>id\<close>.\<close>

definition js_name :: "nat \<Rightarrow> syntax_cursor \<Rightarrow> bool \<times> bool \<times> syntax_cursor" where
  "js_name depth c = (case js_string (depth = 1 \<and> raw_id c \<noteq> None) c of
       (False, _, c1) \<Rightarrow> (False, False, c1)
     | (True, exact, c1) \<Rightarrow> (case js_take (CHR '':'') (js_whitespace c1) of
         (False, c2) \<Rightarrow> (False, False, c2)
       | (True, c2) \<Rightarrow> (True, exact, js_whitespace c2)))"

definition raw_id_of_token :: "string \<Rightarrow> json_raw_number_id \<Rightarrow> json_raw_number_id" where
  "raw_id_of_token token r =
     (if at_char (\<lambda>c. c = CHR ''-'' \<or> is_digit_char c) token then
        (case json_canonical_safe_integer token of
           Some exact \<Rightarrow> \<lparr>raw_value = exact, raw_status = RawValidInteger\<rparr>
         | None \<Rightarrow> \<lparr>raw_value = 0, raw_status = RawInvalidNumber\<rparr>)
      else r\<lparr>raw_status := RawNonNumber\<rparr>)"

text \<open>\<open>value_start\<close> is what was left when the value began; its token ends where the cursor is now.\<close>

definition js_note_id :: "bool \<Rightarrow> string \<Rightarrow> syntax_cursor \<Rightarrow> syntax_cursor" where
  "js_note_id exact value_start c =
     (if exact then
        c\<lparr>raw_id := map_option (raw_id_of_token (take (length value_start - length (cur c)) value_start)) (raw_id c)\<rparr>
      else c)"

fun js_value :: "nat \<Rightarrow> nat \<Rightarrow> syntax_cursor \<Rightarrow> (bool \<times> syntax_cursor) option"
and js_array_loop :: "nat \<Rightarrow> nat \<Rightarrow> syntax_cursor \<Rightarrow> (bool \<times> syntax_cursor) option"
and js_object_loop :: "nat \<Rightarrow> nat \<Rightarrow> syntax_cursor \<Rightarrow> (bool \<times> syntax_cursor) option" where
  "js_value 0 depth c = None"
| "js_value (Suc fuel) depth c =
     (if kJsonMaxNesting < depth then Some (False, c\<lparr>too_deep := True\<rparr>)
      else if cur c = [] then Some (False, c)
      else let c = count_value c; first = hd (cur c) in
        if first = CHR ''{'' then
          (if kJsonMaxNesting \<le> depth then Some (False, c\<lparr>too_deep := True\<rparr>)
           else case js_open (CHR ''{'') (CHR ''}'') c of
               (Some r, c1) \<Rightarrow> Some (r, c1)
             | (None, c1) \<Rightarrow> js_object_loop fuel (depth + 1) c1)
        else if first = CHR ''['' then
          (if kJsonMaxNesting \<le> depth then Some (False, c\<lparr>too_deep := True\<rparr>)
           else case js_open (CHR ''['') (CHR '']'') c of
               (Some r, c1) \<Rightarrow> Some (r, c1)
             | (None, c1) \<Rightarrow> js_array_loop fuel (depth + 1) c1)
        else if first = CHR 0x22 then (case js_string False c of (ok, _, c1) \<Rightarrow> Some (ok, c1))
        else if first = CHR ''t'' then Some (js_literal ''true'' c)
        else if first = CHR ''f'' then Some (js_literal ''false'' c)
        else if first = CHR ''n'' then Some (js_literal ''null'' c)
        else Some (js_number c))"
| "js_array_loop 0 depth c = None"
| "js_array_loop (Suc fuel) depth c = (case js_value fuel depth c of
       None \<Rightarrow> None
     | Some (False, c1) \<Rightarrow> Some (False, c1)
     | Some (True, c1) \<Rightarrow> (case js_next (CHR '']'') c1 of
         (Some r, c2) \<Rightarrow> Some (r, c2)
       | (None, c2) \<Rightarrow> js_array_loop fuel depth c2))"
| "js_object_loop 0 depth c = None"
| "js_object_loop (Suc fuel) depth c = (case js_name depth c of
       (False, _, c1) \<Rightarrow> Some (False, c1)
     | (True, exact, c1) \<Rightarrow> (case js_value fuel depth c1 of
         None \<Rightarrow> None
       | Some (False, c2) \<Rightarrow> Some (False, c2)
       | Some (True, c2) \<Rightarrow> (case js_next (CHR ''}'') (js_note_id exact (cur c1) c2) of
           (Some r, c3) \<Rightarrow> Some (r, c3)
         | (None, c3) \<Rightarrow> js_object_loop fuel depth c3)))"

text \<open>\<open>document\<close>: the status and the cursor it leaves (the raw id is read from it).\<close>

definition json_document_fuel :: "nat \<Rightarrow> syntax_cursor \<Rightarrow> (json_verdict \<times> syntax_cursor) option" where
  "json_document_fuel fuel c = map_option (\<lambda>(ok, c1).
      if \<not> ok then
        (if too_deep c1 then JsonTooDeep else if unsupported_nul c1 then JsonUnsupportedNul else JsonMalformed, c1)
      else let c2 = js_whitespace c1 in
        (if cur c2 \<noteq> [] then JsonMalformed else if too_many_values c2 then JsonTooManyValues else JsonValid, c2))
    (js_value fuel 0 (js_whitespace c))"

definition document_fuel :: "string \<Rightarrow> nat" where "document_fuel data = 2 * length data + 1"

definition json_document :: "string \<Rightarrow> json_raw_number_id option \<Rightarrow> nat \<Rightarrow> json_verdict \<times> syntax_cursor" where
  "json_document data raw limit =
     the (json_document_fuel (document_fuel data) (new_syntax_cursor data raw limit))"

definition json_syntax_status :: "string \<Rightarrow> nat \<Rightarrow> json_verdict" where
  "json_syntax_status data limit = fst (json_document data None limit)"

definition json_syntax_valid :: "string \<Rightarrow> bool" where
  "json_syntax_valid data \<longleftrightarrow> json_syntax_status data 0 = JsonValid"

definition json_top_level_numeric_id :: "string \<Rightarrow> json_raw_number_id" where
  "json_top_level_numeric_id data =
     (let (status, c) = json_document data (Some new_raw_number_id) 0 in
      if status \<noteq> JsonValid then new_raw_number_id else the (raw_id c))"

datatype json_materialize_status = MatOk | MatMalformed | MatTooDeep | MatUnsupportedNul | MatNoMemory
  | MatTooManyValues

definition json_materialize :: "(string \<Rightarrow> 'node option) \<Rightarrow> string \<Rightarrow> nat \<Rightarrow> 'node option \<times> json_materialize_status" where
  "json_materialize parse data limit = (case json_syntax_status data limit of
       JsonMalformed \<Rightarrow> (None, MatMalformed)
     | JsonTooDeep \<Rightarrow> (None, MatTooDeep)
     | JsonUnsupportedNul \<Rightarrow> (None, MatUnsupportedNul)
     | JsonTooManyValues \<Rightarrow> (None, MatTooManyValues)
     | JsonValid \<Rightarrow> (case parse data of None \<Rightarrow> (None, MatNoMemory) | Some root \<Rightarrow> (Some root, MatOk)))"

end
