(* ===== verification/JsonChars.thy ===== *)
theory JsonChars
  imports JsonSyntax
begin

text \<open>
  Characters of JSON strings: the grammar of one character (plain, shortest-form UTF-8, short escape,
  \<open>u\<close> escape, surrogate pair) with the scalar it stands for, and the lemmas that relate the UTF-8 and
  hexadecimal readers of \<open>JsonSyntax\<close> to it in both directions.
\<close>

subsection \<open>Characters\<close>

text \<open>UTF-8 from the other side: the bytes of a Unicode scalar value.\<close>

definition unicode_scalar :: "nat \<Rightarrow> bool" where
  "unicode_scalar n \<longleftrightarrow> n < 0xd800 \<or> (0xe000 \<le> n \<and> n \<le> 0x10ffff)"

definition utf8_encode :: "nat \<Rightarrow> nat list" where
  "utf8_encode n =
     (if n < 0x80 then [n]
      else if n < 0x800 then [0xc0 + n div 64, 0x80 + n mod 64]
      else if n < 0x10000 then [0xe0 + n div 4096, 0x80 + n div 64 mod 64, 0x80 + n mod 64]
      else [0xf0 + n div 262144, 0x80 + n div 4096 mod 64, 0x80 + n div 64 mod 64, 0x80 + n mod 64])"

definition hex_digit_number :: "char \<Rightarrow> nat" where
  "hex_digit_number c =
     (if is_digit_char c then code_of c - 48 else if 97 \<le> code_of c then code_of c - 87 else code_of c - 55)"

definition hex_number :: "string \<Rightarrow> nat" where
  "hex_number s = foldl (\<lambda>v c. v * 16 + hex_digit_number c) 0 s"

definition hex_quad :: "string \<Rightarrow> bool" where
  "hex_quad s \<longleftrightarrow> length s = 4 \<and> list_all js_hex s"

inductive json_char :: "string \<Rightarrow> nat \<Rightarrow> bool" where
  plain_char: "0x20 \<le> code_of c \<Longrightarrow> code_of c < 0x80 \<Longrightarrow> c \<noteq> CHR 0x22 \<Longrightarrow> c \<noteq> CHR 0x5C \<Longrightarrow>
     json_char [c] (code_of c)"
| utf8_char: "unicode_scalar n \<Longrightarrow> 0x80 \<le> n \<Longrightarrow> map of_char w = utf8_encode n \<Longrightarrow> json_char w n"
| short_escape: "(c, n) \<in> {(CHR 0x22, 0x22), (CHR 0x5C, 0x5C), (CHR ''/'', 0x2F), (CHR ''b'', 8),
     (CHR ''f'', 12), (CHR ''n'', 10), (CHR ''r'', 13), (CHR ''t'', 9)} \<Longrightarrow> json_char [CHR 0x5C, c] n"
| unicode_escape: "hex_quad w \<Longrightarrow> hex_number w \<noteq> 0 \<Longrightarrow> unicode_scalar (hex_number w) \<Longrightarrow>
     json_char (CHR 0x5C # CHR ''u'' # w) (hex_number w)"
| surrogate_pair: "hex_quad w1 \<Longrightarrow> hex_quad w2 \<Longrightarrow>
     0xd800 \<le> hex_number w1 \<Longrightarrow> hex_number w1 \<le> 0xdbff \<Longrightarrow>
     0xdc00 \<le> hex_number w2 \<Longrightarrow> hex_number w2 \<le> 0xdfff \<Longrightarrow>
     json_char (CHR 0x5C # CHR ''u'' # w1 @ CHR 0x5C # CHR ''u'' # w2)
       (0x10000 + (hex_number w1 - 0xd800) * 1024 + (hex_number w2 - 0xdc00))"

text \<open>The four-byte window of the gate and the encoder agree.\<close>

lemma radix64:
  fixes n :: nat
  obtains q r where "n = q * 64 + r" "r < 64" "n div 64 = q" "n mod 64 = r"
  by (metis div_mult_mod_eq mod_less_divisor zero_less_numeral)

lemma radix64_digits [simp]: "r < 64 \<Longrightarrow> (q * 64 + r) div 64 = q" "r < 64 \<Longrightarrow> (q * 64 + r) mod (64 :: nat) = r"
  by simp_all

lemma div_4096: "(n :: nat) div 4096 = n div 64 div 64" and div_262144: "n div 262144 = n div 64 div 64 div 64"
  by (simp_all add: div_mult2_eq [symmetric])

lemma utf8_two:
  "(\<exists>n. unicode_scalar n \<and> 0x80 \<le> n \<and> [a, b] = utf8_encode n) \<longleftrightarrow>
   0xc2 \<le> a \<and> a \<le> 0xdf \<and> 0x80 \<le> b \<and> b \<le> 0xbf"
proof
  assume "\<exists>n. unicode_scalar n \<and> 0x80 \<le> n \<and> [a, b] = utf8_encode n"
  then obtain n where n: "0x80 \<le> n" "n < 0x800" "a = 0xc0 + n div 64" "b = 0x80 + n mod 64"
    by (auto simp: utf8_encode_def split: if_splits)
  obtain q r where "n = q * 64 + r" "r < 64" "n div 64 = q" "n mod 64 = r" by (rule radix64)
  with n show "0xc2 \<le> a \<and> a \<le> 0xdf \<and> 0x80 \<le> b \<and> b \<le> 0xbf" by linarith
next
  assume ab: "0xc2 \<le> a \<and> a \<le> 0xdf \<and> 0x80 \<le> b \<and> b \<le> 0xbf"
  define q r where "q = a - 0xc0" and "r = b - 0x80"
  have q: "a = 0xc0 + q" "b = 0x80 + r" "2 \<le> q" "q \<le> 31" "r < 64" using ab by (auto simp: q_def r_def)
  then have "utf8_encode (q * 64 + r) = [a, b]" "unicode_scalar (q * 64 + r)" "0x80 \<le> q * 64 + r"
    by (simp_all add: utf8_encode_def unicode_scalar_def)
  then show "\<exists>n. unicode_scalar n \<and> 0x80 \<le> n \<and> [a, b] = utf8_encode n" by metis
qed

lemma encode_3:
  assumes "0x800 \<le> n" "n < 0x10000" "n < 0xd800 \<or> 0xe000 \<le> n" "n div 64 = m" "n mod 64 = r" "m div 64 = p" "m mod 64 = q"
  shows "unicode_scalar n \<and> 0x80 \<le> n \<and> utf8_encode n = [0xe0 + p, 0x80 + q, 0x80 + r]"
  using assms by (auto simp: unicode_scalar_def utf8_encode_def div_4096)

lemma encode_4:
  assumes "0x10000 \<le> n" "n \<le> 0x10ffff" "n div 64 = m" "n mod 64 = s" "m div 64 = k" "m mod 64 = r"
    "k div 64 = p" "k mod 64 = q"
  shows "unicode_scalar n \<and> 0x80 \<le> n \<and> utf8_encode n = [0xf0 + p, 0x80 + q, 0x80 + r, 0x80 + s]"
  using assms by (auto simp: unicode_scalar_def utf8_encode_def div_4096 div_262144)

lemma utf8_three:
  "(\<exists>n. unicode_scalar n \<and> 0x80 \<le> n \<and> [a, b, c] = utf8_encode n) \<longleftrightarrow>
   0xe0 \<le> a \<and> a \<le> 0xef \<and> (if a = 0xe0 then 0xa0 else 0x80) \<le> b \<and> b \<le> (if a = 0xed then 0x9f else 0xbf) \<and>
   0x80 \<le> c \<and> c \<le> 0xbf"
proof
  assume "\<exists>n. unicode_scalar n \<and> 0x80 \<le> n \<and> [a, b, c] = utf8_encode n"
  then obtain n where "unicode_scalar n" "0x80 \<le> n" "[a, b, c] = utf8_encode n" by blast
  then have n: "0x800 \<le> n" "n < 0x10000" "unicode_scalar n" "a = 0xe0 + n div 64 div 64"
      "b = 0x80 + n div 64 mod 64" "c = 0x80 + n mod 64"
    by (simp_all add: utf8_encode_def div_4096 split: if_splits)
  obtain q r where q: "n = q * 64 + r" "r < 64" "n div 64 = q" "n mod 64 = r" by (rule radix64)
  obtain q' r' where q': "q = q' * 64 + r'" "r' < 64" "q div 64 = q'" "q mod 64 = r'" by (rule radix64)
  from n(3) have "n < 0xd800 \<or> 0xe000 \<le> n" by (auto simp: unicode_scalar_def)
  then have "q' = 13 \<Longrightarrow> r' \<le> 0x1f" using q q' by linarith
  moreover have "q' = 0 \<Longrightarrow> 0x20 \<le> r'" "q' \<le> 15" using q q' n(1,2) by linarith+
  moreover have "a = 0xe0 + q'" "b = 0x80 + r'" "c = 0x80 + r" using n q q' by simp_all
  ultimately show "0xe0 \<le> a \<and> a \<le> 0xef \<and> (if a = 0xe0 then 0xa0 else 0x80) \<le> b \<and>
      b \<le> (if a = 0xed then 0x9f else 0xbf) \<and> 0x80 \<le> c \<and> c \<le> 0xbf"
    using q(2) q'(2) by auto
next
  assume ab: "0xe0 \<le> a \<and> a \<le> 0xef \<and> (if a = 0xe0 then 0xa0 else 0x80) \<le> b \<and>
      b \<le> (if a = 0xed then 0x9f else 0xbf) \<and> 0x80 \<le> c \<and> c \<le> 0xbf"
  then have b: "0x80 \<le> b" "b \<le> 0xbf" by (auto split: if_splits)
  define p q r where "p = a - 0xe0" and "q = b - 0x80" and "r = c - 0x80"
  have eq: "a = 0xe0 + p" "b = 0x80 + q" "c = 0x80 + r" and lim: "q < 64" "r < 64" "p \<le> 15"
    using ab b by (auto simp: p_def q_def r_def)
  have edge: "p = 0 \<Longrightarrow> 0x20 \<le> q" "p = 13 \<Longrightarrow> q \<le> 0x1f"
    using ab eq by (cases "a = 0xed"; simp)+
  let ?n = "(p * 64 + q) * 64 + r"
  have "0x800 \<le> ?n" using edge(1) by (cases "p = 0") auto
  moreover have "?n < 0x10000" using lim by (simp add: add_mult_distrib)
  moreover have "?n < 0xd800 \<or> 0xe000 \<le> ?n"
  proof (cases "p = 13")
    case True
    with edge(2) [OF True] lim show ?thesis by (simp add: add_mult_distrib)
  next
    case False
    then have "p \<le> 12 \<or> 14 \<le> p" by linarith
    with lim show ?thesis by (auto simp: add_mult_distrib)
  qed
  moreover have "?n div 64 = p * 64 + q" "?n mod 64 = r" "(p * 64 + q) div 64 = p" "(p * 64 + q) mod 64 = q"
    by (rule radix64_digits [OF lim(2)] radix64_digits [OF lim(1)])+
  ultimately have "unicode_scalar ?n \<and> 0x80 \<le> ?n \<and> utf8_encode ?n = [a, b, c]"
    unfolding eq by (rule encode_3)
  then show "\<exists>n. unicode_scalar n \<and> 0x80 \<le> n \<and> [a, b, c] = utf8_encode n" by metis
qed

lemma utf8_four:
  "(\<exists>n. unicode_scalar n \<and> 0x80 \<le> n \<and> [a, b, c, d] = utf8_encode n) \<longleftrightarrow>
   0xf0 \<le> a \<and> a \<le> 0xf4 \<and> (if a = 0xf0 then 0x90 else 0x80) \<le> b \<and> b \<le> (if a = 0xf4 then 0x8f else 0xbf) \<and>
   0x80 \<le> c \<and> c \<le> 0xbf \<and> 0x80 \<le> d \<and> d \<le> 0xbf"
proof
  assume "\<exists>n. unicode_scalar n \<and> 0x80 \<le> n \<and> [a, b, c, d] = utf8_encode n"
  then obtain n where "unicode_scalar n" "0x80 \<le> n" "[a, b, c, d] = utf8_encode n" by blast
  then have n: "0x10000 \<le> n" "n \<le> 0x10ffff" "a = 0xf0 + n div 64 div 64 div 64"
      "b = 0x80 + n div 64 div 64 mod 64" "c = 0x80 + n div 64 mod 64" "d = 0x80 + n mod 64"
    by (auto simp: utf8_encode_def unicode_scalar_def div_4096 div_262144 split: if_splits)
  obtain q r where q: "n = q * 64 + r" "r < 64" "n div 64 = q" "n mod 64 = r" by (rule radix64)
  obtain q' r' where q': "q = q' * 64 + r'" "r' < 64" "q div 64 = q'" "q mod 64 = r'" by (rule radix64)
  obtain p s where p: "q' = p * 64 + s" "s < 64" "q' div 64 = p" "q' mod 64 = s" by (rule radix64)
  have "p = 0 \<Longrightarrow> 0x10 \<le> s" "p = 4 \<Longrightarrow> s \<le> 0x0f" "p \<le> 4" using q q' p n(1,2) by linarith+
  moreover have "a = 0xf0 + p" "b = 0x80 + s" "c = 0x80 + r'" "d = 0x80 + r" using n q q' p by simp_all
  ultimately show "0xf0 \<le> a \<and> a \<le> 0xf4 \<and> (if a = 0xf0 then 0x90 else 0x80) \<le> b \<and>
      b \<le> (if a = 0xf4 then 0x8f else 0xbf) \<and> 0x80 \<le> c \<and> c \<le> 0xbf \<and> 0x80 \<le> d \<and> d \<le> 0xbf"
    using q(2) q'(2) p(2) by auto
next
  assume ab: "0xf0 \<le> a \<and> a \<le> 0xf4 \<and> (if a = 0xf0 then 0x90 else 0x80) \<le> b \<and>
      b \<le> (if a = 0xf4 then 0x8f else 0xbf) \<and> 0x80 \<le> c \<and> c \<le> 0xbf \<and> 0x80 \<le> d \<and> d \<le> 0xbf"
  then have b: "0x80 \<le> b" "b \<le> 0xbf" by (auto split: if_splits)
  define p q r s where "p = a - 0xf0" and "q = b - 0x80" and "r = c - 0x80" and "s = d - 0x80"
  have eq: "a = 0xf0 + p" "b = 0x80 + q" "c = 0x80 + r" "d = 0x80 + s"
    and lim: "q < 64" "r < 64" "s < 64" "p \<le> 4"
    using ab b by (auto simp: p_def q_def r_def s_def)
  have edge: "p = 0 \<Longrightarrow> 0x10 \<le> q" "p = 4 \<Longrightarrow> q \<le> 0x0f"
    using ab eq by (cases "a = 0xf4"; simp)+
  let ?n = "((p * 64 + q) * 64 + r) * 64 + s"
  have "0x10000 \<le> ?n" using edge(1) by (cases "p = 0") auto
  moreover have "?n \<le> 0x10ffff"
  proof (cases "p = 4")
    case True
    with edge(2) [OF True] lim show ?thesis by (simp add: add_mult_distrib)
  next
    case False
    with lim show ?thesis by (simp add: add_mult_distrib)
  qed
  moreover have "?n div 64 = (p * 64 + q) * 64 + r" "?n mod 64 = s" "((p * 64 + q) * 64 + r) div 64 = p * 64 + q"
      "((p * 64 + q) * 64 + r) mod 64 = r" "(p * 64 + q) div 64 = p" "(p * 64 + q) mod 64 = q"
    by (rule radix64_digits [OF lim(3)] radix64_digits [OF lim(2)] radix64_digits [OF lim(1)])+
  ultimately have "unicode_scalar ?n \<and> 0x80 \<le> ?n \<and> utf8_encode ?n = [a, b, c, d]"
    unfolding eq by (rule encode_4)
  then show "\<exists>n. unicode_scalar n \<and> 0x80 \<le> n \<and> [a, b, c, d] = utf8_encode n" by metis
qed

text \<open>The scanner of one encoded scalar and the grammar.\<close>

lemma utf8_continuation_ok:
  "utf8_continuation lo hi s = (True, t) \<longleftrightarrow> (\<exists>c. s = c # t \<and> lo \<le> code_of c \<and> code_of c \<le> hi)"
  by (cases s) (auto simp: utf8_continuation_def not_less)

lemma utf8_continuations_ok:
  "utf8_continuations (Suc n) s = (True, t) \<longleftrightarrow>
     (\<exists>c s'. s = c # s' \<and> 0x80 \<le> code_of c \<and> code_of c \<le> 0xbf \<and> utf8_continuations n s' = (True, t))"
proof (cases s)
  case (Cons c cs)
  then show ?thesis by (auto simp: utf8_continuation_def)
qed (simp add: utf8_continuation_def)

lemmas utf8_tail_ok = utf8_continuation_ok utf8_continuations_ok

definition utf8_sequence :: "string \<Rightarrow> bool" where
  "utf8_sequence w \<longleftrightarrow> (\<exists>n. unicode_scalar n \<and> 0x80 \<le> n \<and> map of_char w = utf8_encode n)"

lemma utf8_sequence_length: "utf8_sequence w \<Longrightarrow> length w = 2 \<or> length w = 3 \<or> length w = 4"
proof -
  assume "utf8_sequence w"
  then obtain n where "0x80 \<le> n" "map of_char w = utf8_encode n" by (auto simp: utf8_sequence_def)
  then have "length (utf8_encode n) = length w" by (metis length_map)
  with \<open>0x80 \<le> n\<close> show ?thesis by (auto simp: utf8_encode_def split: if_splits)
qed

lemma utf8_sequence_2: "utf8_sequence [a, b] \<longleftrightarrow>
    0xc2 \<le> code_of a \<and> code_of a \<le> 0xdf \<and> 0x80 \<le> code_of b \<and> code_of b \<le> 0xbf"
  using utf8_two [of "code_of a" "code_of b"] by (simp add: utf8_sequence_def)

lemma utf8_sequence_3: "utf8_sequence [a, b, c] \<longleftrightarrow>
    0xe0 \<le> code_of a \<and> code_of a \<le> 0xef \<and>
    (if code_of a = 0xe0 then 0xa0 else 0x80) \<le> code_of b \<and>
    code_of b \<le> (if code_of a = 0xed then 0x9f else 0xbf) \<and> 0x80 \<le> code_of c \<and> code_of c \<le> 0xbf"
  using utf8_three [of "code_of a" "code_of b" "code_of c"] by (simp add: utf8_sequence_def)

lemma utf8_sequence_4: "utf8_sequence [a, b, c, d] \<longleftrightarrow>
    0xf0 \<le> code_of a \<and> code_of a \<le> 0xf4 \<and>
    (if code_of a = 0xf0 then 0x90 else 0x80) \<le> code_of b \<and>
    code_of b \<le> (if code_of a = 0xf4 then 0x8f else 0xbf) \<and>
    0x80 \<le> code_of c \<and> code_of c \<le> 0xbf \<and> 0x80 \<le> code_of d \<and> code_of d \<le> 0xbf"
  using utf8_four [of "code_of a" "code_of b" "code_of c" "code_of d"] by (simp add: utf8_sequence_def)

lemma utf8_scalar_sound:
  assumes "utf8_scalar lead s = (True, t)"
  shows "\<exists>w. lead # s = w @ t \<and> utf8_sequence w"
proof -
  obtain n lo hi where cl: "utf8_class (code_of lead) = Some (n, lo, hi)"
    using assms by (auto simp: utf8_scalar_def split: option.splits)
  with assms obtain s1 where s1: "utf8_continuation lo hi s = (True, s1)" "utf8_continuations (n - 1) s1 = (True, t)"
    by (auto simp: utf8_scalar_def split: prod.splits if_splits)
  from s1(1) obtain b where b: "s = b # s1" "lo \<le> code_of b" "code_of b \<le> hi"
    by (auto simp: utf8_continuation_ok)
  consider (two) "n = 1" "0xc2 \<le> code_of lead" "code_of lead \<le> 0xdf" "lo = 0x80" "hi = 0xbf"
    | (three) "n = 2" "0xe0 \<le> code_of lead" "code_of lead \<le> 0xef" "lo = (if code_of lead = 0xe0 then 0xa0 else 0x80)"
        "hi = (if code_of lead = 0xed then 0x9f else 0xbf)"
    | (four) "n = 3" "0xf0 \<le> code_of lead" "code_of lead \<le> 0xf4" "lo = (if code_of lead = 0xf0 then 0x90 else 0x80)"
        "hi = (if code_of lead = 0xf4 then 0x8f else 0xbf)"
    using cl by (auto simp: utf8_class_def split: if_splits)
  then show ?thesis
  proof cases
    case two
    with s1 b have "lead # s = [lead, b] @ t" "utf8_sequence [lead, b]" by (auto simp: utf8_sequence_2)
    then show ?thesis by blast
  next
    case three
    with s1(2) have "utf8_continuations (Suc 0) s1 = (True, t)" by (simp add: numeral_2_eq_2)
    then obtain c where "s1 = c # t" "0x80 \<le> code_of c" "code_of c \<le> 0xbf"
      unfolding utf8_continuations_ok by auto
    with three b have "lead # s = [lead, b, c] @ t" "utf8_sequence [lead, b, c]" by (auto simp: utf8_sequence_3)
    then show ?thesis by blast
  next
    case four
    with s1(2) have "utf8_continuations (Suc (Suc 0)) s1 = (True, t)" by (simp add: numeral_2_eq_2)
    then obtain c d where "s1 = c # d # t" "0x80 \<le> code_of c" "code_of c \<le> 0xbf" "0x80 \<le> code_of d" "code_of d \<le> 0xbf"
      unfolding utf8_continuations_ok by auto
    with four b have "lead # s = [lead, b, c, d] @ t" "utf8_sequence [lead, b, c, d]" by (auto simp: utf8_sequence_4)
    then show ?thesis by blast
  qed
qed

lemma utf8_scalar_complete:
  assumes "utf8_sequence (lead # w)"
  shows "utf8_scalar lead (w @ t) = (True, t) \<and> 0xc2 \<le> code_of lead"
proof -
  consider b where "w = [b]" | b c where "w = [b, c]" | b c d where "w = [b, c, d]"
    using utf8_sequence_length [OF assms] by (auto simp: length_Suc_conv numeral_eq_Suc)
  then show ?thesis
  proof cases
    case 1
    with assms show ?thesis
      by (simp add: utf8_sequence_2 utf8_scalar_def utf8_class_def utf8_continuation_def not_less)
  next
    case 2
    with assms have c: "0xe0 \<le> code_of lead \<and> code_of lead \<le> 0xef \<and>
        (if code_of lead = 0xe0 then 0xa0 else 0x80) \<le> code_of b \<and>
        code_of b \<le> (if code_of lead = 0xed then 0x9f else 0xbf) \<and> 0x80 \<le> code_of c \<and> code_of c \<le> 0xbf"
      by (simp only: utf8_sequence_3)
    then have "utf8_class (code_of lead) = Some (2, if code_of lead = 0xe0 then 0xa0 else 0x80,
        if code_of lead = 0xed then 0x9f else 0xbf)" by (simp add: utf8_class_def)
    moreover have "utf8_continuations (2 - 1) (c # t) = (True, t)" using c by (simp add: utf8_continuation_def numeral_2_eq_2)
    ultimately show ?thesis using 2 c by (simp add: utf8_scalar_def utf8_continuation_def)
  next
    case 3
    with assms have c: "0xf0 \<le> code_of lead \<and> code_of lead \<le> 0xf4 \<and>
        (if code_of lead = 0xf0 then 0x90 else 0x80) \<le> code_of b \<and>
        code_of b \<le> (if code_of lead = 0xf4 then 0x8f else 0xbf) \<and> 0x80 \<le> code_of c \<and> code_of c \<le> 0xbf \<and>
        0x80 \<le> code_of d \<and> code_of d \<le> 0xbf"
      by (simp only: utf8_sequence_4)
    then have "utf8_class (code_of lead) = Some (3, if code_of lead = 0xf0 then 0x90 else 0x80,
        if code_of lead = 0xf4 then 0x8f else 0xbf)" by (simp add: utf8_class_def)
    moreover have "utf8_continuations (3 - 1) (c # d # t) = (True, t)"
      using c by (simp add: utf8_continuation_def numeral_2_eq_2)
    ultimately show ?thesis using 3 c by (simp add: utf8_scalar_def utf8_continuation_def)
  qed
qed

text \<open>Four hexadecimal digits as a word and as a number.\<close>

lemma unat_small_byte: "k < 256 \<Longrightarrow> unat (of_nat k :: u8) = k"
  by (simp add: unat_of_nat)

lemma hex_value_number: "js_hex c \<Longrightarrow> unat (js_hex_value c) = hex_digit_number c \<and> hex_digit_number c < 16"
proof -
  assume "js_hex c"
  then consider "48 \<le> code_of c" "code_of c \<le> 57" | "97 \<le> code_of c" "code_of c \<le> 102"
    | "65 \<le> code_of c" "code_of c \<le> 70" by (auto simp: js_hex_def)
  then show ?thesis
  proof cases
    case 1
    then show ?thesis using unat_small_byte [of "code_of c - 48"]
      by (simp add: js_hex_value_def hex_digit_number_def is_digit_char_def del: of_nat_diff)
  next
    case 2
    then show ?thesis using unat_small_byte [of "code_of c - 97 + 10"]
      by (simp add: js_hex_value_def hex_digit_number_def is_digit_char_def del: of_nat_diff of_nat_add)
  next
    case 3
    then show ?thesis using unat_small_byte [of "code_of c - 65 + 10"]
      by (simp add: js_hex_value_def hex_digit_number_def is_digit_char_def del: of_nat_diff of_nat_add)
  qed
qed

lemma shift_in_digit:
  assumes "unat (v :: u16) < 4096" "unat (d :: u8) < 16"
  shows "unat (push_bit 4 v OR ucast d) = unat v * 16 + unat d"
proof -
  have low: "bit d n \<Longrightarrow> n < 4" for n
  proof (rule ccontr)
    assume d: "bit d n" and "\<not> n < 4"
    then have "(2 :: nat) ^ 4 \<le> 2 ^ n" by (intro power_increasing) auto
    with assms(2) have "unat d div 2 ^ n = 0" by simp
    moreover have "bit (unat d) n" using d by (simp add: bit_unsigned_iff)
    ultimately show False by (simp add: bit_iff_odd)
  qed
  have "push_bit 4 v OR ucast d = push_bit 4 v + ucast d"
    by (intro disjunctive_add [symmetric]) (auto simp: bit_push_bit_iff bit_ucast_iff dest: low)
  moreover have "unat (push_bit 4 v) = unat v * 16"
    using assms(1) by (simp add: push_bit_eq_mult unat_word_ariths)
  ultimately show ?thesis using assms by (simp add: unat_word_ariths)
qed

lemma hex4_loop_value:
  assumes "list_all js_hex w" "length w \<le> 4" "unat v < 16 ^ (4 - length w)"
  shows "\<exists>x. hex4_loop (length w) (w @ rest) v = (Some x, rest) \<and>
     unat x = foldl (\<lambda>v c. v * 16 + hex_digit_number c) (unat v) w"
  using assms
proof (induction w arbitrary: v)
  case (Cons c w)
  let ?v = "push_bit 4 v OR ucast (js_hex_value c)"
  have c: "js_hex c" "unat (js_hex_value c) = hex_digit_number c" "hex_digit_number c < 16"
    using Cons.prems hex_value_number [of c] by auto
  have n: "4 - length w = Suc (4 - Suc (length w))" "4 - Suc (length w) \<le> 3" using Cons.prems(2) by auto
  then have "(16 :: nat) ^ (4 - Suc (length w)) \<le> 16 ^ 3" by (intro power_increasing) auto
  with Cons.prems(3) have "unat v < 4096" by simp
  then have v: "unat ?v = unat v * 16 + hex_digit_number c" using shift_in_digit [of v "js_hex_value c"] c by simp
  have "unat ?v < 16 ^ (4 - length w)" using Cons.prems(3) c(3) unfolding v n(1) by simp
  with Cons.IH [of ?v] Cons.prems(1,2) c(1) show ?case by (simp add: v)
qed simp

lemma js_hex4_complete:
  assumes "hex_quad w"
  shows "\<exists>x. js_hex4 (w @ rest) = (Some x, rest) \<and> unat x = hex_number w"
  using assms hex4_loop_value [of w 0 rest] by (simp add: hex_quad_def js_hex4_def hex_number_def)

lemma hex4_loop_sound: "hex4_loop n s v = (Some x, rest) \<Longrightarrow> \<exists>w. s = w @ rest \<and> length w = n \<and> list_all js_hex w"
proof (induction n s v rule: hex4_loop.induct)
  case (3 n c cs v)
  then obtain w where "cs = w @ rest" "length w = n" "list_all js_hex w" "js_hex c" by (auto split: if_splits)
  then have "c # cs = (c # w) @ rest" "length (c # w) = Suc n" "list_all js_hex (c # w)" by auto
  then show ?case by blast
qed auto

lemma js_hex4_sound:
  assumes "js_hex4 s = (Some x, rest)"
  shows "\<exists>w. s = w @ rest \<and> hex_quad w \<and> unat x = hex_number w"
proof -
  have "hex4_loop 4 s 0 = (Some x, rest)" using assms by (simp add: js_hex4_def split: if_splits)
  from hex4_loop_sound [OF this] obtain w where w: "s = w @ rest" "hex_quad w" by (auto simp: hex_quad_def)
  with js_hex4_complete [OF w(2), of rest] assms show ?thesis by auto
qed

end
