(* ===== verification/JsonGrammar.thy ===== *)
theory JsonGrammar
  imports JsonChars
begin

text \<open>
  The language the syntax gate of \<open>JsonSyntax\<close> is meant to accept, written as a grammar (RFC 8259 over
  shortest-form UTF-8, without U+0000), with the value a text denotes, its nesting and the number of
  values in it; and the lemmas that relate each reader of the gate to the grammar in both directions.
\<close>

subsection \<open>Characters\<close>

text \<open>The scalar the gate observes is the decoded one, or both are beyond ASCII.\<close>

definition same_letter :: "nat \<Rightarrow> nat \<Rightarrow> bool" where
  "same_letter a b \<longleftrightarrow> a = b \<or> (128 \<le> a \<and> 128 \<le> b)"

lemma same_letter_refl [simp]: "same_letter n n"
  by (simp add: same_letter_def)

lemma observe_same_letter: "same_letter a b \<Longrightarrow> observe_scalar a m = observe_scalar b m"
  by (auto simp: same_letter_def observe_scalar_def split: prod.splits)

lemma simple_escape_grammar: "simple_escape c = Some n \<Longrightarrow> json_char [CHR 0x5C, c] n"
  unfolding simple_escape_def by (rule short_escape, simp split: if_split_asm) (elim disjE; auto)

lemma word16_range: "(0xd800 :: u16) \<le> x \<longleftrightarrow> 0xd800 \<le> unat x" "x \<le> (0xdbff :: u16) \<longleftrightarrow> unat x \<le> 0xdbff"
    "(0xdc00 :: u16) \<le> x \<longleftrightarrow> 0xdc00 \<le> unat x" "x \<le> (0xdfff :: u16) \<longleftrightarrow> unat x \<le> 0xdfff"
    "x < (0xdc00 :: u16) \<longleftrightarrow> unat x < 0xdc00" "(0xdfff :: u16) < x \<longleftrightarrow> 0xdfff < unat x"
  by (simp_all add: word_le_nat_alt word_less_nat_alt)

lemma escape_u: "simple_escape (CHR ''u'') = None"
  by (simp add: simple_escape_def)

lemma string_char_escape_rest: "string_char c cs = Inr r \<Longrightarrow> c = CHR 0x5C \<Longrightarrow> cs \<noteq> []"
  by (auto simp: string_char_def)

lemma string_char_sound:
  assumes "string_char c cs = Inr (scalar, t)" "c \<noteq> CHR 0x22"
  shows "\<exists>w n. c # cs = w @ t \<and> json_char w n \<and> same_letter scalar n"
proof -
  have low: "0x20 \<le> code_of c" using assms(1) by (auto simp: string_char_def split: if_splits)
  consider (utf8) "0x80 \<le> code_of c" | (plain) "code_of c < 0x80" "c \<noteq> CHR 0x5C"
    | (short) e es n where "c = CHR 0x5C" "cs = e # es" "simple_escape e = Some n"
    | (hex) e es where "c = CHR 0x5C" "cs = e # es" "simple_escape e = None"
    using string_char_escape_rest [OF assms(1)] by (metis linorder_not_le neq_Nil_conv option.exhaust)
  then show ?thesis
  proof cases
    case utf8
    with assms low have "utf8_scalar c cs = (True, t)" "scalar = 0x110000"
      by (auto simp: string_char_def split: prod.splits if_splits)
    from utf8_scalar_sound [OF this(1)] obtain w where w: "c # cs = w @ t" "utf8_sequence w" by blast
    then obtain n where "json_char w n" "0x80 \<le> n" by (auto simp: utf8_sequence_def intro: utf8_char)
    with w \<open>scalar = _\<close> show ?thesis by (auto simp: same_letter_def)
  next
    case plain
    with assms low have "scalar = code_of c" "t = cs" by (auto simp: string_char_def)
    moreover have "json_char [c] (code_of c)" using plain low assms(2) by (intro plain_char)
    ultimately show ?thesis by (metis append_Cons append_Nil same_letter_refl)
  next
    case short
    with assms have "scalar = n" "t = es" by (auto simp: string_char_def)
    with short simple_escape_grammar [OF short(3)] show ?thesis by (metis append_Cons append_Nil same_letter_refl)
  next
    case hex
    then have u: "e = CHR ''u''" using assms by (auto simp: string_char_def split: if_splits)
    obtain first s where f: "js_hex4 es = (Some first, s)"
      using assms hex by (cases "js_hex4 es"; cases "fst (js_hex4 es)") (auto simp: string_char_def split: if_splits)
    from js_hex4_sound [OF f] obtain w where w: "es = w @ s" "hex_quad w" "unat first = hex_number w" by blast
    have nz: "first \<noteq> 0" using assms(1) hex f by (auto simp: string_char_def split: if_splits)
    then have "hex_number w \<noteq> 0" using w(3) by (metis unsigned_0 unsigned_word_eqI word_unat_eq_iff)
    show ?thesis
    proof (cases "0xd800 \<le> first \<and> first \<le> 0xdbff")
      case True
      then have s: "6 \<le> length s" "s ! 0 = CHR 0x5C" "s ! 1 = CHR ''u''"
        using assms(1) hex f nz by (auto simp: string_char_def split: if_splits)
      then have sd: "s = CHR 0x5C # CHR ''u'' # drop 2 s"
        by (cases s; cases "tl s") auto
      obtain second s' where g: "js_hex4 (drop 2 s) = (Some second, s')" "0xdc00 \<le> second" "second \<le> 0xdfff" "scalar = 0x110000" "t = s'"
        using assms(1) hex f nz True s
        by (cases "js_hex4 (drop 2 s)"; cases "fst (js_hex4 (drop 2 s))") (auto simp: string_char_def not_less split: if_splits)
      from js_hex4_sound [OF g(1)] obtain w2 where w2: "drop 2 s = w2 @ s'" "hex_quad w2" "unat second = hex_number w2" by blast
      have "json_char (CHR 0x5C # CHR ''u'' # w @ CHR 0x5C # CHR ''u'' # w2)
          (0x10000 + (hex_number w - 0xd800) * 1024 + (hex_number w2 - 0xdc00))"
        using True g(2,3) w w2 by (intro surrogate_pair) (simp_all add: word16_range)
      moreover have "c # cs = (CHR 0x5C # CHR ''u'' # w @ CHR 0x5C # CHR ''u'' # w2) @ t"
        using hex u w(1) sd w2(1) g(5) by (metis append_Cons append_assoc)
      ultimately show ?thesis using g(4) by (fastforce simp: same_letter_def)
    next
      case False
      then have r: "scalar = unat first" "t = s" and nolow: "\<not> (0xdc00 \<le> first \<and> first \<le> 0xdfff)"
        using assms(1) hex f nz by (auto simp: string_char_def split: if_splits)
      have "unat first < 65536" using unsigned_less [of first, where 'a = nat] by simp
      with False nolow w(3) have "unicode_scalar (hex_number w)"
        by (auto simp: unicode_scalar_def word16_range)
      with w(2) \<open>hex_number w \<noteq> 0\<close> have "json_char (CHR 0x5C # CHR ''u'' # w) (hex_number w)" by (intro unicode_escape)
      moreover have "c # cs = (CHR 0x5C # CHR ''u'' # w) @ t" using hex u w(1) r(2) by simp
      ultimately show ?thesis using r(1) w(3) by (metis same_letter_refl)
    qed
  qed
qed

lemma string_char_u:
  "string_char (CHR 0x5C) (CHR ''u'' # es) = (case js_hex4 es of
     (None, s) \<Rightarrow> Inl (False, s)
   | (Some first, s) \<Rightarrow>
       if first = 0 then Inl (True, s)
       else if 0xd800 \<le> first \<and> first \<le> 0xdbff then
         (if length s < 6 \<or> s ! 0 \<noteq> CHR 0x5C \<or> s ! 1 \<noteq> CHR ''u'' then Inl (False, s)
          else (case js_hex4 (drop 2 s) of
              (None, s') \<Rightarrow> Inl (False, s')
            | (Some second, s') \<Rightarrow>
                if second < 0xdc00 \<or> 0xdfff < second then Inl (False, s') else Inr (0x110000, s')))
       else if 0xdc00 \<le> first \<and> first \<le> 0xdfff then Inl (False, s)
       else Inr (unat first, s))"
  unfolding string_char_def by (simp add: escape_u)

lemma json_char_unicode_escape:
  assumes "hex_quad w" "hex_number w \<noteq> 0" "unicode_scalar (hex_number w)"
  shows "string_char (CHR 0x5C) (CHR ''u'' # w @ t) = Inr (hex_number w, t)"
proof -
  from js_hex4_complete [OF assms(1), of t] obtain x where
    x: "js_hex4 (w @ t) = (Some x, t)" "unat x = hex_number w" by blast
  then have "x \<noteq> 0" using assms(2) by auto
  moreover have "\<not> (0xd800 \<le> x \<and> x \<le> 0xdbff)" "\<not> (0xdc00 \<le> x \<and> x \<le> 0xdfff)"
    using assms(3) x(2) unfolding unicode_scalar_def word16_range by linarith+
  ultimately show ?thesis using x by (auto simp: string_char_u)
qed

lemma json_char_surrogate_pair:
  assumes "hex_quad w1" "hex_quad w2" "0xd800 \<le> hex_number w1" "hex_number w1 \<le> 0xdbff"
    "0xdc00 \<le> hex_number w2" "hex_number w2 \<le> 0xdfff"
  shows "string_char (CHR 0x5C) (CHR ''u'' # w1 @ CHR 0x5C # CHR ''u'' # w2 @ t) = Inr (0x110000, t)"
proof -
  let ?r = "CHR 0x5C # CHR ''u'' # w2 @ t"
  from js_hex4_complete [OF assms(1), of ?r] obtain x where
    x: "js_hex4 (w1 @ ?r) = (Some x, ?r)" "unat x = hex_number w1" by blast
  from js_hex4_complete [OF assms(2), of t] obtain y where
    y: "js_hex4 (w2 @ t) = (Some y, t)" "unat y = hex_number w2" by blast
  have "x \<noteq> 0" using assms(3) x(2) by auto
  moreover have "0xd800 \<le> x" "x \<le> 0xdbff" "\<not> y < 0xdc00" "\<not> 0xdfff < y"
    using assms x(2) y(2) by (simp_all add: word16_range)
  moreover have "\<not> length ?r < 6" using assms(2) by (simp add: hex_quad_def)
  ultimately show ?thesis using x(1) y(1) by (simp add: string_char_u)
qed

lemma string_char_complete:
  assumes "json_char w n"
  shows "\<exists>c cs scalar. w = c # cs \<and> c \<noteq> CHR 0x22 \<and> string_char c (cs @ t) = Inr (scalar, t) \<and> same_letter scalar n"
  using assms
proof cases
  case (plain_char c)
  then have "string_char c ([] @ t) = Inr (code_of c, t)" by (simp add: string_char_def)
  with plain_char show ?thesis by (metis same_letter_refl)
next
  case utf8_char
  then have seq: "utf8_sequence w" by (auto simp: utf8_sequence_def)
  then obtain c cs where w: "w = c # cs" using utf8_sequence_length by (cases w) force+
  from utf8_scalar_complete [of c cs t] seq w have c: "utf8_scalar c (cs @ t) = (True, t)" "0xc2 \<le> code_of c" by auto
  then have "string_char c (cs @ t) = Inr (0x110000, t)" "c \<noteq> CHR 0x22" by (auto simp: string_char_def)
  moreover have "same_letter 0x110000 n" using utf8_char(2) by (simp add: same_letter_def)
  ultimately show ?thesis using w by blast
next
  case (short_escape c)
  then have "simple_escape c = Some n" by (auto simp: simple_escape_def)
  then have "string_char (CHR 0x5C) ([c] @ t) = Inr (n, t)" by (simp add: string_char_def)
  with short_escape(1) show ?thesis by (intro exI conjI) (auto intro: same_letter_refl)
next
  case (unicode_escape w')
  with json_char_unicode_escape [of w' t] show ?thesis by (intro exI conjI) auto
next
  case (surrogate_pair w1 w2)
  with json_char_surrogate_pair [of w1 w2 t]
  have "string_char (CHR 0x5C) ((CHR ''u'' # w1 @ CHR 0x5C # CHR ''u'' # w2) @ t) = Inr (0x110000, t)" by simp
  moreover have "same_letter 0x110000 n" using surrogate_pair(2) by (simp add: same_letter_def)
  ultimately show ?thesis using surrogate_pair(1) by (intro exI conjI) auto
qed

subsection \<open>Strings\<close>

inductive json_chars :: "string \<Rightarrow> nat list \<Rightarrow> bool" where
  no_chars: "json_chars [] []"
| more_chars: "json_char w n \<Longrightarrow> json_chars b ns \<Longrightarrow> json_chars (w @ b) (n # ns)"

definition json_string :: "string \<Rightarrow> nat list \<Rightarrow> bool" where
  "json_string w ns \<longleftrightarrow> (\<exists>b. w = CHR 0x22 # b @ [CHR 0x22] \<and> json_chars b ns)"

definition id_matched :: "id_match \<Rightarrow> bool" where "id_matched m \<longleftrightarrow> snd m \<and> fst m = 2"

lemma string_loop_sound:
  "string_loop s m = (True, exact, nul, t) \<Longrightarrow>
   \<exists>b ns. s = b @ CHR 0x22 # t \<and> json_chars b ns \<and> \<not> nul \<and> exact = id_matched (fold observe_scalar ns m)"
proof (induction s m rule: string_loop.induct)
  case (2 c cs m)
  show ?case
  proof (cases "c = CHR 0x22")
    case True
    with 2(2) have "c # cs = [] @ CHR 0x22 # t" "\<not> nul" "exact = id_matched (fold observe_scalar [] m)"
      by (auto simp: id_matched_def)
    then show ?thesis using no_chars by blast
  next
    case False
    then obtain scalar s where sc: "string_char c cs = Inr (scalar, s)"
        and l: "string_loop s (observe_scalar scalar m) = (True, exact, nul, t)"
      using 2(2) by (auto split: sum.splits prod.splits)
    from string_char_sound [OF sc False] obtain w n where
      w: "c # cs = w @ s" "json_char w n" "same_letter scalar n" by blast
    from 2(1) [OF False sc refl l] obtain b ns where
      b: "s = b @ CHR 0x22 # t" "json_chars b ns" "\<not> nul"
        "exact = id_matched (fold observe_scalar ns (observe_scalar scalar m))" by blast
    then have "c # cs = (w @ b) @ CHR 0x22 # t" "json_chars (w @ b) (n # ns)"
        "exact = id_matched (fold observe_scalar (n # ns) m)"
      using w by (auto intro: more_chars simp: observe_same_letter [OF w(3)])
    with b(3) show ?thesis by blast
  qed
qed simp

lemma string_loop_complete:
  "json_chars b ns \<Longrightarrow>
   string_loop (b @ CHR 0x22 # t) m = (True, id_matched (fold observe_scalar ns m), False, t)"
proof (induction b ns arbitrary: m rule: json_chars.induct)
  case no_chars
  then show ?case by (simp add: id_matched_def)
next
  case (more_chars w n b ns)
  from string_char_complete [OF more_chars(1), of "b @ CHR 0x22 # t"] obtain c cs scalar where
    c: "w = c # cs" "c \<noteq> CHR 0x22" "string_char c (cs @ b @ CHR 0x22 # t) = Inr (scalar, b @ CHR 0x22 # t)"
      "same_letter scalar n" by blast
  then show ?case using more_chars(3) by (simp add: observe_same_letter [OF c(4)])
qed

lemma observe_false: "fold observe_scalar ns (k, False) = (k + length ns, False)"
  by (induction ns arbitrary: k) (auto simp: observe_scalar_def)

lemma observe_late: "2 \<le> k \<Longrightarrow> id_matched (fold observe_scalar ns (k, b)) \<longleftrightarrow> ns = [] \<and> k = 2 \<and> b"
  by (cases ns) (auto simp: observe_scalar_def observe_false id_matched_def)

lemma observe_id: "id_matched (fold observe_scalar ns (0, True)) \<longleftrightarrow> ns = [105, 100]"
proof (cases ns)
  case (Cons a as)
  show ?thesis
  proof (cases as)
    case (Cons b bs)
    with \<open>ns = a # as\<close> show ?thesis
      by (auto simp: observe_scalar_def observe_late numeral_2_eq_2 observe_false)
  qed (use \<open>ns = a # as\<close> in \<open>auto simp: observe_scalar_def id_matched_def\<close>)
qed (simp add: id_matched_def)

lemma js_string_sound:
  assumes "js_string x c = (True, exact, c')"
  shows "\<exists>w ns. cur c = w @ cur c' \<and> json_string w ns \<and> exact = (x \<and> ns = [105, 100]) \<and> c' = c\<lparr>cur := cur c'\<rparr>"
proof -
  obtain s where s: "cur c = CHR 0x22 # s" and
    l: "\<exists>e n. string_loop s (0, True) = (True, e, n, cur c') \<and> exact = (x \<and> e) \<and>
         c' = c\<lparr>cur := cur c', unsupported_nul := unsupported_nul c \<or> n\<rparr>"
    using assms by (cases "cur c") (auto simp: js_string_def js_take_def split: prod.splits if_splits)
  then obtain e n where en: "string_loop s (0, True) = (True, e, n, cur c')" "exact = (x \<and> e)"
      "c' = c\<lparr>cur := cur c', unsupported_nul := unsupported_nul c \<or> n\<rparr>" by blast
  from string_loop_sound [OF en(1)] obtain b ns where
    b: "s = b @ CHR 0x22 # cur c'" "json_chars b ns" "\<not> n" "e = id_matched (fold observe_scalar ns (0, True))"
    by blast
  have "c' = c\<lparr>cur := cur c'\<rparr>" using en(3) b(3) by (cases c) simp
  moreover have "cur c = (CHR 0x22 # b @ [CHR 0x22]) @ cur c'" using s b(1) by simp
  ultimately show ?thesis using b(2,4) en(2) by (metis json_string_def observe_id)
qed

lemma js_string_complete:
  assumes "json_string w ns" "cur c = w @ t"
  shows "js_string x c = (True, x \<and> ns = [105, 100], c\<lparr>cur := t\<rparr>)"
proof -
  from assms(1) obtain b where b: "w = CHR 0x22 # b @ [CHR 0x22]" "json_chars b ns" by (auto simp: json_string_def)
  from string_loop_complete [OF b(2), of t "(0, True)"] show ?thesis
    using assms(2) b(1) by (simp add: js_string_def js_take_def observe_id)
qed

subsection \<open>Numbers\<close>

definition digit_row :: "string \<Rightarrow> bool" where "digit_row w \<longleftrightarrow> w \<noteq> [] \<and> list_all is_digit_char w"

definition json_integer :: "string \<Rightarrow> bool" where
  "json_integer w \<longleftrightarrow> digit_row w \<and> (hd w = CHR ''0'' \<longrightarrow> tl w = [])"

definition json_fraction :: "string \<Rightarrow> bool" where
  "json_fraction w \<longleftrightarrow> w = [] \<or> (\<exists>ds. w = CHR ''.'' # ds \<and> digit_row ds)"

definition json_exponent :: "string \<Rightarrow> bool" where
  "json_exponent w \<longleftrightarrow> w = [] \<or> (\<exists>e s ds. w = e # s @ ds \<and> (e = CHR ''e'' \<or> e = CHR ''E'') \<and>
     (s = [] \<or> s = ''+'' \<or> s = ''-'') \<and> digit_row ds)"

definition json_number :: "string \<Rightarrow> bool" where
  "json_number w \<longleftrightarrow> (\<exists>sg i f e. w = sg @ i @ f @ e \<and> (sg = [] \<or> sg = ''-'') \<and>
     json_integer i \<and> json_fraction f \<and> json_exponent e)"

text \<open>A text that does not continue a number.\<close>

definition number_ends :: "string \<Rightarrow> bool" where
  "number_ends t \<longleftrightarrow> \<not> at_char (\<lambda>c. is_digit_char c \<or> c = CHR ''.'' \<or> c = CHR ''e'' \<or> c = CHR ''E'') t"

lemma skip_digits_split: "\<exists>ds. s = ds @ skip_digits s \<and> list_all is_digit_char ds"
  unfolding skip_digits_def by (metis list_all_iff set_takeWhileD takeWhile_dropWhile_id)

lemma skip_digits_append: "list_all is_digit_char ds \<Longrightarrow> \<not> at_char is_digit_char t \<Longrightarrow> skip_digits (ds @ t) = t"
  by (induction ds) (auto simp: skip_digits_def at_char_def intro: dropWhile_eq_self_iff [THEN iffD2])

lemma skip_digits_row: "at_char is_digit_char s \<Longrightarrow> \<exists>ds. s = ds @ skip_digits s \<and> digit_row ds"
proof -
  assume "at_char is_digit_char s"
  then obtain c cs where s: "s = c # cs" "is_digit_char c" by (cases s) (auto simp: at_char_def)
  moreover obtain ds where "cs = ds @ skip_digits cs" "list_all is_digit_char ds" using skip_digits_split by blast
  ultimately have "s = (c # ds) @ skip_digits s" "digit_row (c # ds)" by (auto simp: skip_digits_def digit_row_def)
  then show ?thesis by blast
qed

lemma digit_row_at: "digit_row ds \<Longrightarrow> at_char is_digit_char (ds @ t)"
  by (cases ds) (auto simp: digit_row_def at_char_def)

lemma digit_not_special:
  "is_digit_char c \<Longrightarrow> c \<noteq> CHR ''.'' \<and> c \<noteq> CHR ''e'' \<and> c \<noteq> CHR ''E'' \<and> c \<noteq> CHR ''-'' \<and> c \<noteq> CHR ''+''"
  by (auto simp: is_digit_char_def)

lemma number_integer_sound:
  assumes "number_integer s = (True, t)"
  shows "\<exists>i. s = i @ t \<and> json_integer i"
proof (cases "hd s = CHR ''0''")
  case True
  with assms have "s = ''0'' @ t" by (cases s) (auto simp: number_integer_def split: if_splits)
  then show ?thesis by (auto simp: json_integer_def digit_row_def is_digit_char_def intro!: exI [of _ "''0''"])
next
  case False
  with assms have s: "s \<noteq> []" "is_digit_char (hd s)" "t = skip_digits s"
    by (auto simp: number_integer_def is_digit_char_def split: if_splits)
  then obtain ds where ds: "s = ds @ t" "digit_row ds"
    using skip_digits_row [of s] by (auto simp: at_char_def)
  then have "hd ds = hd s" by (cases ds) (auto simp: digit_row_def)
  with ds False show ?thesis by (auto simp: json_integer_def)
qed

lemma number_integer_complete:
  assumes "json_integer i" "\<not> at_char is_digit_char t"
  shows "number_integer (i @ t) = (True, t)"
proof -
  obtain c ds where i: "i = c # ds" "is_digit_char c" "list_all is_digit_char ds" "c = CHR ''0'' \<Longrightarrow> ds = []"
    using assms(1) by (cases i) (auto simp: json_integer_def digit_row_def)
  show ?thesis
  proof (cases "c = CHR ''0''")
    case True
    with i assms(2) show ?thesis by (simp add: number_integer_def)
  next
    case False
    then have "code_of c \<noteq> 48" using i(2) digit_zero [of c] by auto
    with i(2) have "\<not> (code_of c < 49 \<or> 57 < code_of c)" by (auto simp: is_digit_char_def)
    with False i skip_digits_append [of "c # ds" t] assms(2) show ?thesis by (simp add: number_integer_def)
  qed
qed

lemma number_fraction_sound: "number_fraction s = (True, t) \<Longrightarrow> \<exists>f. s = f @ t \<and> json_fraction f"
proof (cases "at_char (\<lambda>c. c = CHR ''.'') s")
  case True
  then obtain cs where s: "s = CHR ''.'' # cs" by (cases s) (auto simp: at_char_def)
  assume "number_fraction s = (True, t)"
  with True s have "at_char is_digit_char cs" "t = skip_digits cs" by (auto simp: number_fraction_def split: if_splits)
  with skip_digits_row [of cs] obtain ds where "s = (CHR ''.'' # ds) @ t" "digit_row ds" using s by auto
  then show ?thesis unfolding json_fraction_def by blast
qed (auto simp: number_fraction_def json_fraction_def)

lemma number_fraction_complete:
  assumes "json_fraction f" "\<not> at_char (\<lambda>c. is_digit_char c \<or> c = CHR ''.'') t"
  shows "number_fraction (f @ t) = (True, t)"
proof -
  have t: "\<not> at_char is_digit_char t" "\<not> at_char (\<lambda>c. c = CHR ''.'') t" using assms(2) by (auto simp: at_char_def)
  from assms(1) consider "f = []" | ds where "f = CHR ''.'' # ds" "digit_row ds" by (auto simp: json_fraction_def)
  then show ?thesis
  proof cases
    case 2
    with digit_row_at [of ds t] skip_digits_append [of ds t] t(1) show ?thesis
      by (auto simp: number_fraction_def digit_row_def at_char_def)
  qed (use t in \<open>simp add: number_fraction_def\<close>)
qed

lemma number_exponent_sound: "number_exponent s = (True, t) \<Longrightarrow> \<exists>e. s = e @ t \<and> json_exponent e"
proof (cases "at_char (\<lambda>c. c = CHR ''e'' \<or> c = CHR ''E'') s")
  case True
  then obtain c cs where s: "s = c # cs" "c = CHR ''e'' \<or> c = CHR ''E''" by (cases s) (auto simp: at_char_def)
  define u where "u = (if at_char (\<lambda>c. c = CHR ''+'' \<or> c = CHR ''-'') cs then tl cs else cs)"
  have "\<exists>sg. cs = sg @ u \<and> (sg = [] \<or> sg = ''+'' \<or> sg = ''-'')"
    by (cases cs) (auto simp: u_def at_char_def)
  then obtain sg where sg: "cs = sg @ u" "sg = [] \<or> sg = ''+'' \<or> sg = ''-''" by blast
  assume "number_exponent s = (True, t)"
  with True s have "at_char is_digit_char u" "t = skip_digits u"
    by (auto simp: number_exponent_def u_def Let_def split: if_splits)
  with skip_digits_row [of u] obtain ds where ds: "u = ds @ t" "digit_row ds" by blast
  have "s = (c # sg @ ds) @ t" "json_exponent (c # sg @ ds)"
    using s sg ds by (auto simp: json_exponent_def)
  then show ?thesis by blast
qed (auto simp: number_exponent_def json_exponent_def)

lemma number_exponent_complete:
  assumes "json_exponent e" "number_ends t"
  shows "number_exponent (e @ t) = (True, t)"
proof -
  have t: "\<not> at_char is_digit_char t" "\<not> at_char (\<lambda>c. c = CHR ''e'' \<or> c = CHR ''E'') t"
    using assms(2) by (auto simp: number_ends_def at_char_def)
  from assms(1) consider "e = []" | c sg ds where "e = c # sg @ ds" "c = CHR ''e'' \<or> c = CHR ''E''"
      "sg = [] \<or> sg = ''+'' \<or> sg = ''-''" "digit_row ds"
    by (auto simp: json_exponent_def)
  then show ?thesis
  proof cases
    case 2
    have d: "at_char is_digit_char (ds @ t)" "skip_digits (ds @ t) = t"
      using 2(4) digit_row_at skip_digits_append [of ds t] t(1) by (auto simp: digit_row_def)
    then have "\<not> at_char (\<lambda>c. c = CHR ''+'' \<or> c = CHR ''-'') (ds @ t)"
      using digit_not_special by (auto simp: at_char_def)
    with 2 d show ?thesis by (auto simp: number_exponent_def at_char_def Let_def)
  qed (use t in \<open>simp add: number_exponent_def\<close>)
qed

lemma json_number_nonempty: "json_number w \<Longrightarrow> w \<noteq> []"
  by (auto simp: json_number_def json_integer_def digit_row_def)

lemma js_number_sound:
  assumes "js_number c = (True, c')"
  shows "\<exists>w. cur c = w @ cur c' \<and> json_number w \<and> c' = c\<lparr>cur := cur c'\<rparr>"
proof -
  define s1 where "s1 = (if at_char (\<lambda>c. c = CHR ''-'') (cur c) then tl (cur c) else cur c)"
  have "\<exists>sg. cur c = sg @ s1 \<and> (sg = [] \<or> sg = ''-'')"
    by (cases "cur c") (auto simp: s1_def at_char_def)
  then obtain sg where sg: "cur c = sg @ s1" "sg = [] \<or> sg = ''-''" by blast
  obtain s2 s3 where n: "number_integer s1 = (True, s2)" "number_fraction s2 = (True, s3)"
      "number_exponent s3 = (True, cur c')" "c' = c\<lparr>cur := cur c'\<rparr>"
    using assms by (auto simp: js_number_def s1_def Let_def split: prod.splits bool.splits)
  from number_integer_sound [OF n(1)] number_fraction_sound [OF n(2)] number_exponent_sound [OF n(3)]
  obtain i f e where p: "s1 = i @ s2" "json_integer i" "s2 = f @ s3" "json_fraction f" "s3 = e @ cur c'" "json_exponent e"
    by blast
  have "json_number (sg @ i @ f @ e)" using sg(2) p unfolding json_number_def by blast
  with sg(1) p n(4) show ?thesis by (metis append_assoc)
qed

lemma fraction_exponent_start:
  "json_fraction f \<Longrightarrow> json_exponent e \<Longrightarrow> number_ends t \<Longrightarrow>
   \<not> at_char is_digit_char (f @ e @ t) \<and> \<not> at_char (\<lambda>c. is_digit_char c \<or> c = CHR ''.'') (e @ t)"
  by (auto simp: json_fraction_def json_exponent_def number_ends_def at_char_def is_digit_char_def)

lemma js_number_complete:
  assumes "json_number w" "number_ends t" "cur c = w @ t"
  shows "js_number c = (True, c\<lparr>cur := t\<rparr>)"
proof -
  from assms(1) obtain sg i f e where w: "w = sg @ i @ f @ e" "sg = [] \<or> sg = ''-''" "json_integer i"
      "json_fraction f" "json_exponent e" by (auto simp: json_number_def)
  have i: "i \<noteq> []" "is_digit_char (hd i)" using w(3) by (cases i; auto simp: json_integer_def digit_row_def)+
  have s: "(if at_char (\<lambda>c. c = CHR ''-'') (cur c) then tl (cur c) else cur c) = i @ f @ e @ t"
    using w(1,2) i digit_not_special [OF i(2)] assms(3) by (cases i) (auto simp: at_char_def)
  note fe = fraction_exponent_start [OF w(4,5) assms(2)]
  have "number_integer (i @ f @ e @ t) = (True, f @ e @ t)" using number_integer_complete [OF w(3)] fe by blast
  moreover have "number_fraction (f @ e @ t) = (True, e @ t)" using number_fraction_complete [OF w(4)] fe by blast
  moreover have "number_exponent (e @ t) = (True, t)" by (rule number_exponent_complete [OF w(5) assms(2)])
  moreover have "length t \<noteq> length (cur c)" using assms(3) w(1) i(1) by auto
  ultimately show ?thesis unfolding js_number_def Let_def s by simp
qed

subsection \<open>Values\<close>

datatype json = JNull | JTrue | JFalse | JNumber string | JString "nat list" | JArray "json list"
  | JObject "(nat list \<times> json) list"

abbreviation json_ws :: "string \<Rightarrow> bool" where "json_ws w \<equiv> list_all is_ws w"

inductive json_text :: "string \<Rightarrow> json \<Rightarrow> bool"
  and json_elements :: "string \<Rightarrow> json list \<Rightarrow> bool"
  and json_members :: "string \<Rightarrow> (nat list \<times> json) list \<Rightarrow> bool" where
  text_null: "json_text ''null'' JNull"
| text_true: "json_text ''true'' JTrue"
| text_false: "json_text ''false'' JFalse"
| text_number: "json_number w \<Longrightarrow> json_text w (JNumber w)"
| text_string: "json_string w ns \<Longrightarrow> json_text w (JString ns)"
| text_empty_array: "json_ws a \<Longrightarrow> json_text (CHR ''['' # a @ '']'') (JArray [])"
| text_array: "json_ws a \<Longrightarrow> json_elements w vs \<Longrightarrow> json_text (CHR ''['' # a @ w @ '']'') (JArray vs)"
| text_empty_object: "json_ws a \<Longrightarrow> json_text (CHR ''{'' # a @ ''}'') (JObject [])"
| text_object: "json_ws a \<Longrightarrow> json_members w ms \<Longrightarrow> json_text (CHR ''{'' # a @ w @ ''}'') (JObject ms)"
| last_element: "json_text w v \<Longrightarrow> json_ws b \<Longrightarrow> json_elements (w @ b) [v]"
| more_elements: "json_text w v \<Longrightarrow> json_ws b \<Longrightarrow> json_ws a \<Longrightarrow> json_elements t vs \<Longrightarrow>
     json_elements (w @ b @ CHR '','' # a @ t) (v # vs)"
| last_member: "json_string k ns \<Longrightarrow> json_ws a \<Longrightarrow> json_ws b \<Longrightarrow> json_text w v \<Longrightarrow> json_ws d \<Longrightarrow>
     json_members (k @ a @ CHR '':'' # b @ w @ d) [(ns, v)]"
| more_members: "json_string k ns \<Longrightarrow> json_ws a \<Longrightarrow> json_ws b \<Longrightarrow> json_text w v \<Longrightarrow> json_ws d \<Longrightarrow>
     json_ws e \<Longrightarrow> json_members t ms \<Longrightarrow>
     json_members (k @ a @ CHR '':'' # b @ w @ d @ CHR '','' # e @ t) ((ns, v) # ms)"

definition json_doc :: "string \<Rightarrow> json \<Rightarrow> bool" where
  "json_doc data v \<longleftrightarrow> (\<exists>a w b. data = a @ w @ b \<and> json_ws a \<and> json_ws b \<and> json_text w v)"

fun nesting :: "json \<Rightarrow> nat" where
  "nesting (JArray vs) = Suc (foldr max (map nesting vs) 0)"
| "nesting (JObject ms) = Suc (foldr max (map (\<lambda>m. nesting (snd m)) ms) 0)"
| "nesting _ = 0"

fun value_count :: "json \<Rightarrow> nat" where
  "value_count (JArray vs) = Suc (sum_list (map value_count vs))"
| "value_count (JObject ms) = Suc (sum_list (map (\<lambda>m. value_count (snd m)) ms))"
| "value_count _ = 1"

end
