(* ===== verification/JsonProps.thy ===== *)
theory JsonProps
  imports JsonGrammar
begin

text \<open>
  The syntax gate as a whole against the grammar: the reader of values never runs out of the fuel it is
  given, it accepts exactly the texts of the grammar, it counts their values, and the numeric id it
  reports is that of the document.
\<close>

subsection \<open>What reading a value does to the cursor\<close>

definition count_more :: "nat \<Rightarrow> syntax_cursor \<Rightarrow> syntax_cursor" where
  "count_more k c = c\<lparr>n_values := min (max_values c) (n_values c + k),
     too_many_values := too_many_values c \<or> (max_values c \<noteq> 0 \<and> max_values c < n_values c + k)\<rparr>"

definition counter_ok :: "syntax_cursor \<Rightarrow> bool" where "counter_ok c \<longleftrightarrow> n_values c \<le> max_values c"

lemma count_value_more: "counter_ok c \<Longrightarrow> count_value c = count_more 1 c"
  by (cases c) (auto simp: count_value_def count_more_def counter_ok_def)

lemma count_more_ok [simp]: "counter_ok (count_more k c)"
  by (simp add: count_more_def counter_ok_def)

lemma counter_ok_update [simp]:
  "counter_ok (cur_update f c) = counter_ok c" "counter_ok (raw_id_update g c) = counter_ok c"
  by (simp_all add: counter_ok_def)

text \<open>A successful read: the rest, the values counted, the id noted.\<close>

definition advanced :: "nat \<Rightarrow> (json_raw_number_id option \<Rightarrow> json_raw_number_id option) \<Rightarrow> string \<Rightarrow>
    syntax_cursor \<Rightarrow> syntax_cursor" where
  "advanced k f rest c = (count_more k c)\<lparr>cur := rest, raw_id := f (raw_id c)\<rparr>"

lemma advanced_simps [simp]:
  "cur (advanced k f rest c) = rest" "raw_id (advanced k f rest c) = f (raw_id c)"
  "too_deep (advanced k f rest c) = too_deep c" "unsupported_nul (advanced k f rest c) = unsupported_nul c"
  "counter_ok (advanced k f rest c)" "max_values (advanced k f rest c) = max_values c"
  by (simp_all add: advanced_def count_more_def counter_ok_def)

lemma advanced_cur_update [simp]: "(advanced k f rest c)\<lparr>cur := s\<rparr> = advanced k f s c"
  by (simp add: advanced_def)

lemma advanced_advanced:
  "counter_ok c \<Longrightarrow> advanced k' g s (advanced k f t c) = advanced (k + k') (g \<circ> f) s c"
  by (cases c) (auto simp: advanced_def count_more_def counter_ok_def)

lemma advanced_cur [simp]: "advanced k f s (c\<lparr>cur := t\<rparr>) = advanced k f s c"
  by (cases c) (simp add: advanced_def count_more_def)

lemma advanced_none: "counter_ok c \<Longrightarrow> advanced 0 (\<lambda>r. r) s c = c\<lparr>cur := s\<rparr>"
  by (cases c) (auto simp: advanced_def count_more_def counter_ok_def)

lemma count_value_advanced: "counter_ok c \<Longrightarrow> (count_value c)\<lparr>cur := s\<rparr> = advanced 1 (\<lambda>r. r) s c"
  by (cases c) (auto simp: advanced_def count_value_more count_more_def)

lemma count_value_fields [simp]:
  "cur (count_value c) = cur c" "raw_id (count_value c) = raw_id c" "too_deep (count_value c) = too_deep c"
  by (auto simp: count_value_def)

text \<open>The id of the top-level object: the last member named \<open>id\<close> decides.\<close>

definition note_member :: "nat list \<times> json \<Rightarrow> json_raw_number_id \<Rightarrow> json_raw_number_id" where
  "note_member m r = (if fst m \<noteq> [105, 100] then r
     else case snd m of JNumber token \<Rightarrow> raw_id_of_token token r | _ \<Rightarrow> r\<lparr>raw_status := RawNonNumber\<rparr>)"

definition note_value :: "json \<Rightarrow> json_raw_number_id option \<Rightarrow> json_raw_number_id option" where
  "note_value v = (case v of JObject ms \<Rightarrow> map_option (fold note_member ms) | _ \<Rightarrow> (\<lambda>r. r))"

subsection \<open>The first characters of a value\<close>

lemma json_number_start: "json_number w \<Longrightarrow> at_char (\<lambda>c. c = CHR ''-'' \<or> is_digit_char c) w"
  unfolding json_number_def json_integer_def digit_row_def
  by (elim exE conjE disjE) (auto simp: neq_Nil_conv at_char_def)

lemma json_text_start:
  assumes "json_text w v"
  shows "w \<noteq> [] \<and> \<not> is_ws (hd w) \<and> hd w \<notin> {CHR '']'', CHR ''}'', CHR '','', CHR '':''} \<and>
    (at_char (\<lambda>c. c = CHR ''-'' \<or> is_digit_char c) w \<longleftrightarrow> v = JNumber w) \<and> (\<forall>t. v = JNumber t \<longrightarrow> t = w)"
  using assms
proof cases
  case text_number
  with json_number_start [of w] show ?thesis by (auto simp: at_char_def is_ws_def is_digit_char_def)
next
  case (text_string ns)
  then show ?thesis by (auto simp: json_string_def at_char_def is_ws_def is_digit_char_def)
qed (auto simp: at_char_def is_ws_def is_digit_char_def)

lemmas json_text_nonempty = json_text_start [THEN conjunct1]

lemma dropWhile_ws: "json_ws a \<Longrightarrow> \<not> at_char is_ws t \<Longrightarrow> dropWhile is_ws (a @ t) = t"
  by (induction a) (auto simp: at_char_def intro: dropWhile_eq_self_iff [THEN iffD2])

lemma ws_split: "\<exists>a. s = a @ dropWhile is_ws s \<and> json_ws a \<and> \<not> at_char is_ws (dropWhile is_ws s)"
proof -
  have "s = takeWhile is_ws s @ dropWhile is_ws s" by simp
  moreover have "json_ws (takeWhile is_ws s)" by (auto simp: list_all_iff dest: set_takeWhileD)
  moreover have "\<not> at_char is_ws (dropWhile is_ws s)" using hd_dropWhile [of is_ws s] by (auto simp: at_char_def)
  ultimately show ?thesis by blast
qed

lemma number_ends_ws: "json_ws b \<Longrightarrow> number_ends (b @ x # t) \<longleftrightarrow> b \<noteq> [] \<or> number_ends (x # t)"
  by (cases b) (auto simp: number_ends_def at_char_def is_ws_def is_digit_char_def)

lemma number_ends_closers [simp]:
  "number_ends []" "number_ends (CHR '']'' # t)" "number_ends (CHR ''}'' # t)" "number_ends (CHR '','' # t)"
  by (simp_all add: number_ends_def at_char_def is_digit_char_def)

lemma number_ends_ws_only: "json_ws b \<Longrightarrow> number_ends b"
  by (cases b) (auto simp: number_ends_def at_char_def is_ws_def is_digit_char_def)

lemma not_ws [simp]: "\<not> is_ws (CHR '']'')" "\<not> is_ws (CHR ''}'')" "\<not> is_ws (CHR '','')" "\<not> is_ws (CHR '':'')"
    "\<not> is_ws (CHR 0x22)"
  by (simp_all add: is_ws_def)

subsection \<open>Brackets and separators\<close>

lemma js_next_closes:
  assumes "cur c = b @ closer # t" "json_ws b" "\<not> is_ws closer"
  shows "js_next closer c = (Some True, c\<lparr>cur := t\<rparr>)"
  using assms dropWhile_ws [of b "closer # t"]
  by (simp add: js_next_def js_whitespace_def js_take_def at_char_def)

lemma js_next_goes_on:
  assumes "cur c = b @ CHR '','' # a @ s" "json_ws b" "json_ws a" "\<not> at_char is_ws s" "closer \<noteq> CHR '',''"
  shows "js_next closer c = (None, c\<lparr>cur := s\<rparr>)"
  using assms dropWhile_ws [of b "CHR '','' # a @ s"] dropWhile_ws [of a s]
  by (simp add: js_next_def js_whitespace_def js_take_def at_char_def)

lemma js_take_ok: "js_take x c = (True, c') \<longleftrightarrow> cur c = x # cur c' \<and> c' = c\<lparr>cur := cur c'\<rparr>"
  by (cases "cur c"; cases c; cases c') (auto simp: js_take_def)

lemma js_take_fails: "js_take x c = (False, c') \<longleftrightarrow> \<not> at_char (\<lambda>y. y = x) (cur c) \<and> c' = c"
  by (cases "cur c") (auto simp: js_take_def at_char_def)

lemma js_whitespace_split:
  "\<exists>a. cur c = a @ cur (js_whitespace c) \<and> json_ws a \<and> \<not> at_char is_ws (cur (js_whitespace c)) \<and>
     js_whitespace c = c\<lparr>cur := cur (js_whitespace c)\<rparr>"
  using ws_split [of "cur c"] by (simp add: js_whitespace_def)

lemma js_next_closed:
  assumes "js_next closer c = (Some True, c')"
  shows "\<exists>b. cur c = b @ closer # cur c' \<and> json_ws b \<and> c' = c\<lparr>cur := cur c'\<rparr>"
proof -
  have "js_take closer (js_whitespace c) = (True, c')"
    using assms by (auto simp: js_next_def split: prod.splits bool.splits)
  then have t: "cur (js_whitespace c) = closer # cur c'" "c' = (js_whitespace c)\<lparr>cur := cur c'\<rparr>"
    by (auto simp: js_take_ok)
  from t(2) have "c' = c\<lparr>cur := cur c'\<rparr>" by (simp add: js_whitespace_def)
  with js_whitespace_split [of c] t(1) show ?thesis by metis
qed

lemma js_next_went_on:
  assumes "js_next closer c = (None, c')"
  shows "\<exists>b a. cur c = b @ CHR '','' # a @ cur c' \<and> json_ws b \<and> json_ws a \<and> c' = c\<lparr>cur := cur c'\<rparr>"
proof -
  obtain c1 where c1: "js_take (CHR '','') (js_whitespace c) = (True, c1)" "c' = js_whitespace c1"
    using assms by (auto simp: js_next_def js_take_fails split: prod.splits bool.splits)
  then have t: "cur (js_whitespace c) = CHR '','' # cur c1" "c1 = (js_whitespace c)\<lparr>cur := cur c1\<rparr>"
    by (auto simp: js_take_ok)
  from t(2) c1(2) have "c' = c\<lparr>cur := cur c'\<rparr>"
    by (metis js_whitespace_split syntax_cursor.surjective syntax_cursor.update_convs(1))
  with js_whitespace_split [of c] js_whitespace_split [of c1] t(1) c1(2) show ?thesis by metis
qed

subsection \<open>Completeness\<close>

text \<open>The raw id is touched by the members of the outermost object only.\<close>

definition raw_of_value :: "nat \<Rightarrow> json \<Rightarrow> json_raw_number_id option \<Rightarrow> json_raw_number_id option" where
  "raw_of_value depth v = (if depth = 0 then note_value v else (\<lambda>r. r))"

definition raw_of_members :: "nat \<Rightarrow> (nat list \<times> json) list \<Rightarrow> json_raw_number_id option \<Rightarrow> json_raw_number_id option" where
  "raw_of_members depth ms = (if depth = 1 then map_option (fold note_member ms) else (\<lambda>r. r))"

lemma raw_of_value_deep [simp]: "0 < depth \<Longrightarrow> raw_of_value depth v = (\<lambda>r. r)"
  by (simp add: raw_of_value_def)

lemma raw_of_value_simple [simp]:
  "raw_of_value depth JNull = (\<lambda>r. r)" "raw_of_value depth JTrue = (\<lambda>r. r)" "raw_of_value depth JFalse = (\<lambda>r. r)"
  "raw_of_value depth (JNumber t) = (\<lambda>r. r)" "raw_of_value depth (JString ns) = (\<lambda>r. r)"
  "raw_of_value depth (JArray vs) = (\<lambda>r. r)"
  "raw_of_value depth (JObject ms) = raw_of_members (Suc depth) ms"
  by (auto simp: raw_of_value_def raw_of_members_def note_value_def)

lemma raw_of_members_simps:
  "raw_of_members depth [] = (\<lambda>r. r)"
  "raw_of_members depth (m # ms) r = raw_of_members depth ms (raw_of_members depth [m] r)"
proof -
  show "raw_of_members depth [] = (\<lambda>r. r)"
    by (rule ext, rename_tac x, case_tac x) (auto simp: raw_of_members_def)
  show "raw_of_members depth (m # ms) r = raw_of_members depth ms (raw_of_members depth [m] r)"
    by (cases r) (auto simp: raw_of_members_def)
qed

definition value_ok :: "nat \<Rightarrow> nat \<Rightarrow> syntax_cursor \<Rightarrow> json \<Rightarrow> string \<Rightarrow> bool" where
  "value_ok fuel depth c v t \<longleftrightarrow>
     js_value fuel depth c = Some (True, advanced (value_count v) (raw_of_value depth v) t c)"

lemma literal_loop_ok: "literal_loop w (w @ t) = (True, t)"
  by (induction w) auto

lemma js_literal_ok: "cur c = w @ t \<Longrightarrow> js_literal w c = (True, c\<lparr>cur := t\<rparr>)"
  by (simp add: js_literal_def literal_loop_ok)

lemma js_open_empty:
  "cur c = x # a @ y # t \<Longrightarrow> json_ws a \<Longrightarrow> \<not> is_ws y \<Longrightarrow> js_open x y c = (Some True, c\<lparr>cur := t\<rparr>)"
  using dropWhile_ws [of a "y # t"] by (simp add: js_open_def js_take_def js_whitespace_def at_char_def)

lemma js_open_more:
  "cur c = x # a @ s \<Longrightarrow> json_ws a \<Longrightarrow> \<not> at_char is_ws s \<Longrightarrow> \<not> at_char (\<lambda>z. z = y) s \<Longrightarrow>
   js_open x y c = (None, c\<lparr>cur := s\<rparr>)"
  using dropWhile_ws [of a s] unfolding js_open_def js_take_def js_whitespace_def at_char_def
  by (cases s) (auto simp del: dropWhile_eq_Nil_conv)

lemma elements_start: "json_elements w vs \<Longrightarrow> w \<noteq> [] \<and> \<not> is_ws (hd w) \<and> hd w \<noteq> CHR '']''"
  by (erule json_elements.cases) (use json_text_start in \<open>fastforce+\<close>)

lemma json_string_start: "json_string k ns \<Longrightarrow> k \<noteq> [] \<and> hd k = CHR 0x22"
  by (auto simp: json_string_def)

lemma members_start: "json_members w ms \<Longrightarrow> w \<noteq> [] \<and> hd w = CHR 0x22"
  by (erule json_members.cases) (use json_string_start in \<open>fastforce+\<close>)

lemma js_name_complete:
  assumes "json_string k ns" "cur c = k @ a @ CHR '':'' # b @ s" "json_ws a" "json_ws b" "\<not> at_char is_ws s"
  shows "js_name depth c = (True, depth = 1 \<and> raw_id c \<noteq> None \<and> ns = [105, 100], c\<lparr>cur := s\<rparr>)"
proof -
  have "js_string (depth = 1 \<and> raw_id c \<noteq> None) c =
      (True, (depth = 1 \<and> raw_id c \<noteq> None) \<and> ns = [105, 100], c\<lparr>cur := a @ CHR '':'' # b @ s\<rparr>)"
    by (rule js_string_complete [OF assms(1,2)])
  moreover have "dropWhile is_ws (a @ CHR '':'' # b @ s) = CHR '':'' # b @ s" "dropWhile is_ws (b @ s) = s"
    using assms by (auto intro!: dropWhile_ws simp: at_char_def)
  ultimately show ?thesis by (auto simp: js_name_def js_whitespace_def js_take_def)
qed

lemma js_note_id_member:
  assumes "json_text w v"
  shows "js_note_id (depth = 1 \<and> raw_id c \<noteq> None \<and> ns = [105, 100]) (w @ t) (advanced k (\<lambda>r. r) t c) =
    advanced k (raw_of_members depth [(ns, v)]) t c"
proof -
  have "raw_id_of_token w r = (case v of JNumber token \<Rightarrow> raw_id_of_token token r | _ \<Rightarrow> r\<lparr>raw_status := RawNonNumber\<rparr>)" for r
  proof (cases "v = JNumber w")
    case True
    with json_text_start [OF assms] show ?thesis by simp
  next
    case False
    with json_text_start [OF assms] have "\<not> at_char (\<lambda>c. c = CHR ''-'' \<or> is_digit_char c) w" "\<forall>t. v \<noteq> JNumber t"
      by blast+
    then show ?thesis by (cases v) (simp_all add: raw_id_of_token_def)
  qed
  then have "note_member (ns, v) r = (if ns = [105, 100] then raw_id_of_token w r else r)" for r
    by (simp add: note_member_def)
  then show ?thesis
    by (cases "raw_id c") (simp_all add: js_note_id_def raw_of_members_def advanced_def)
qed

lemma value_dispatch:
  assumes "depth \<le> 16" "cur c \<noteq> []" "hd (cur c) \<notin> {CHR ''{'', CHR ''['', CHR 0x22, CHR ''t'', CHR ''f'', CHR ''n''}"
  shows "js_value (Suc fuel) depth c = Some (js_number (count_value c))"
  using assms by (auto simp: kJsonMaxNesting_def Let_def)

lemma number_dispatch: "json_number w \<Longrightarrow> hd w \<notin> {CHR ''{'', CHR ''['', CHR 0x22, CHR ''t'', CHR ''f'', CHR ''n''}"
  using json_number_start [of w] by (auto simp: at_char_def is_digit_char_def)

lemma js_value_array:
  assumes "depth < 16" "cur c = CHR ''['' # s"
  shows "js_value (Suc fuel) depth c = (case js_open (CHR ''['') (CHR '']'') (count_value c) of
      (Some r, c1) \<Rightarrow> Some (r, c1) | (None, c1) \<Rightarrow> js_array_loop fuel (depth + 1) c1)"
  using assms by (simp add: kJsonMaxNesting_def Let_def)

lemma js_value_object:
  assumes "depth < 16" "cur c = CHR ''{'' # s"
  shows "js_value (Suc fuel) depth c = (case js_open (CHR ''{'') (CHR ''}'') (count_value c) of
      (Some r, c1) \<Rightarrow> Some (r, c1) | (None, c1) \<Rightarrow> js_object_loop fuel (depth + 1) c1)"
  using assms by (simp add: kJsonMaxNesting_def Let_def)

lemma js_value_literal:
  assumes "depth \<le> 16" "cur c = w @ t" "w = ''null'' \<or> w = ''true'' \<or> w = ''false''" "counter_ok c"
  shows "js_value (Suc fuel) depth c = Some (True, advanced 1 (\<lambda>r. r) t c)"
proof -
  have "js_literal w (count_value c) = (True, (count_value c)\<lparr>cur := t\<rparr>)"
    using assms(2) by (intro js_literal_ok) simp
  then have "js_literal w (count_value c) = (True, advanced 1 (\<lambda>r. r) t c)"
    using count_value_advanced [OF assms(4)] by simp
  then show ?thesis using assms(1-3) by (auto simp: kJsonMaxNesting_def Let_def)
qed

text \<open>One lemma per production of the grammar.\<close>

lemma complete_literal:
  assumes "cur c = w @ t" "w = ''null'' \<and> v = JNull \<or> w = ''true'' \<and> v = JTrue \<or> w = ''false'' \<and> v = JFalse"
    "depth \<le> 16" "counter_ok c"
  shows "value_ok (Suc fuel) depth c v t"
  using js_value_literal [OF assms(3,1) _ assms(4), of fuel] assms(2) unfolding value_ok_def
  by (elim disjE conjE) (simp_all del: js_value.simps(2))

lemma complete_number:
  assumes "json_number w" "cur c = w @ t" "number_ends t" "depth \<le> 16" "counter_ok c"
  shows "value_ok (Suc fuel) depth c (JNumber w) t"
proof -
  have "js_number (count_value c) = (True, (count_value c)\<lparr>cur := t\<rparr>)"
    using js_number_complete [OF assms(1,3)] assms(2) by simp
  moreover have "cur c \<noteq> []" "hd (cur c) = hd w" using assms(2) json_number_nonempty [OF assms(1)] by auto
  ultimately show ?thesis
    using value_dispatch [of depth c fuel] assms(4,5) number_dispatch [OF assms(1)]
    by (simp add: value_ok_def count_value_advanced del: js_value.simps(2))
qed

lemma complete_string:
  assumes "json_string w ns" "cur c = w @ t" "depth \<le> 16" "counter_ok c"
  shows "value_ok (Suc fuel) depth c (JString ns) t"
proof -
  have "js_string False (count_value c) = (True, False, (count_value c)\<lparr>cur := t\<rparr>)"
    using js_string_complete [OF assms(1), of "count_value c" t False] assms(2) by simp
  moreover have "cur c \<noteq> []" "hd (cur c) = CHR 0x22" using assms(2) json_string_start [OF assms(1)] by auto
  ultimately show ?thesis using assms(3,4) by (simp add: value_ok_def count_value_advanced kJsonMaxNesting_def Let_def)
qed

lemma complete_empty:
  assumes "json_ws a" "depth < 16" "counter_ok c"
  shows "cur c = CHR ''['' # a @ CHR '']'' # t \<Longrightarrow> value_ok (Suc fuel) depth c (JArray []) t"
    and "cur c = CHR ''{'' # a @ CHR ''}'' # t \<Longrightarrow> value_ok (Suc fuel) depth c (JObject []) t"
proof -
  assume c: "cur c = CHR ''['' # a @ CHR '']'' # t"
  have "js_open (CHR ''['') (CHR '']'') (count_value c) = (Some True, (count_value c)\<lparr>cur := t\<rparr>)"
    using c assms(1) by (intro js_open_empty) auto
  then show "value_ok (Suc fuel) depth c (JArray []) t" using js_value_array [OF assms(2) c] assms(3)
    by (simp add: value_ok_def count_value_advanced del: js_value.simps(2))
next
  assume c: "cur c = CHR ''{'' # a @ CHR ''}'' # t"
  have "js_open (CHR ''{'') (CHR ''}'') (count_value c) = (Some True, (count_value c)\<lparr>cur := t\<rparr>)"
    using c assms(1) by (intro js_open_empty) auto
  then show "value_ok (Suc fuel) depth c (JObject []) t" using js_value_object [OF assms(2) c] assms(3)
    by (simp add: value_ok_def count_value_advanced raw_of_members_simps(1) del: js_value.simps(2))
qed

lemma complete_array:
  assumes "json_ws a" "depth < 16" "counter_ok c" "cur c = CHR ''['' # a @ w @ CHR '']'' # t" "json_elements w vs"
    and loop: "\<And>c. cur c = w @ CHR '']'' # t \<Longrightarrow> counter_ok c \<Longrightarrow> js_array_loop fuel (Suc depth) c =
      Some (True, advanced (sum_list (map value_count vs)) (\<lambda>r. r) t c)"
  shows "value_ok (Suc fuel) depth c (JArray vs) t"
proof -
  have "js_open (CHR ''['') (CHR '']'') (count_value c) = (None, (count_value c)\<lparr>cur := w @ CHR '']'' # t\<rparr>)"
    using assms(1,4) elements_start [OF assms(5)] by (intro js_open_more [of _ _ a]) (auto simp: at_char_def)
  then show ?thesis using js_value_array [OF assms(2,4)] assms(3)
    by (simp add: value_ok_def count_value_advanced loop advanced_advanced comp_def del: js_value.simps(2))
qed

lemma complete_object:
  assumes "json_ws a" "depth < 16" "counter_ok c" "cur c = CHR ''{'' # a @ w @ CHR ''}'' # t" "json_members w ms"
    and loop: "\<And>c. cur c = w @ CHR ''}'' # t \<Longrightarrow> counter_ok c \<Longrightarrow> js_object_loop fuel (Suc depth) c =
      Some (True, advanced (sum_list (map (\<lambda>m. value_count (snd m)) ms)) (raw_of_members (Suc depth) ms) t c)"
  shows "value_ok (Suc fuel) depth c (JObject ms) t"
proof -
  have "js_open (CHR ''{'') (CHR ''}'') (count_value c) = (None, (count_value c)\<lparr>cur := w @ CHR ''}'' # t\<rparr>)"
    using assms(1,4) members_start [OF assms(5)] by (intro js_open_more [of _ _ a]) (auto simp: at_char_def is_ws_def)
  then show ?thesis using js_value_object [OF assms(2,4)] assms(3)
    by (simp add: value_ok_def count_value_advanced loop advanced_advanced comp_def del: js_value.simps(2))
qed

lemma complete_last_element:
  assumes "value_ok fuel depth c v (b @ CHR '']'' # t)" "json_ws b" "0 < depth"
  shows "js_array_loop (Suc fuel) depth c = Some (True, advanced (value_count v) (\<lambda>r. r) t c)"
  using assms js_next_closes [of "advanced (value_count v) (\<lambda>r. r) (b @ CHR '']'' # t) c" b "CHR '']''" t]
  by (simp add: value_ok_def)

lemma complete_more_elements:
  assumes "value_ok fuel depth c v (b @ CHR '','' # a @ s)" "json_ws b" "json_ws a" "0 < depth" "\<not> at_char is_ws s"
    and "counter_ok c"
    and "js_array_loop fuel depth (advanced (value_count v) (\<lambda>r. r) s c) =
      Some (True, advanced k (\<lambda>r. r) t (advanced (value_count v) (\<lambda>r. r) s c))"
  shows "js_array_loop (Suc fuel) depth c = Some (True, advanced (value_count v + k) (\<lambda>r. r) t c)"
  using assms js_next_goes_on [of "advanced (value_count v) (\<lambda>r. r) (b @ CHR '','' # a @ s) c" b a s "CHR '']''"]
  by (simp add: value_ok_def advanced_advanced comp_def)

text \<open>A member up to the end of its value.\<close>

lemma complete_member:
  assumes "json_string k ns" "cur c = k @ a @ CHR '':'' # b @ w @ u" "json_ws a" "json_ws b" "json_text w v"
    and "0 < depth" "counter_ok c" "value_ok fuel depth (c\<lparr>cur := w @ u\<rparr>) v u"
  shows "js_object_loop (Suc fuel) depth c =
     (case js_next (CHR ''}'') (advanced (value_count v) (raw_of_members depth [(ns, v)]) u c) of
           (Some r, c3) \<Rightarrow> Some (r, c3)
         | (None, c3) \<Rightarrow> js_object_loop fuel depth c3)"
proof -
  have "\<not> at_char is_ws (w @ u)" using json_text_start [OF assms(5)] by (cases w) (auto simp: at_char_def)
  then have "js_name depth c = (True, depth = 1 \<and> raw_id c \<noteq> None \<and> ns = [105, 100], c\<lparr>cur := w @ u\<rparr>)"
    by (rule js_name_complete [OF assms(1,2,3,4)])
  moreover have "js_value fuel depth (c\<lparr>cur := w @ u\<rparr>) = Some (True, advanced (value_count v) (\<lambda>r. r) u c)"
    using assms(6,8) by (simp add: value_ok_def)
  ultimately show ?thesis using js_note_id_member [OF assms(5)] by simp
qed

lemma complete_last_member:
  assumes "json_string k ns" "cur c = k @ a @ CHR '':'' # b @ w @ d @ CHR ''}'' # t" "json_ws a" "json_ws b" "json_ws d"
    and "json_text w v" "0 < depth" "counter_ok c"
    and "value_ok fuel depth (c\<lparr>cur := w @ d @ CHR ''}'' # t\<rparr>) v (d @ CHR ''}'' # t)"
  shows "js_object_loop (Suc fuel) depth c = Some (True, advanced (value_count v) (raw_of_members depth [(ns, v)]) t c)"
  using complete_member [OF assms(1,2,3,4,6,7,8,9)] assms(5)
    js_next_closes [of "advanced (value_count v) (raw_of_members depth [(ns, v)]) (d @ CHR ''}'' # t) c" d "CHR ''}''" t]
  by simp

lemma complete_more_members:
  assumes "json_string k ns" "cur c = k @ a @ CHR '':'' # b @ w @ d @ CHR '','' # e @ s" "json_ws a" "json_ws b"
    "json_ws d" "json_ws e" and "json_text w v" "0 < depth" "counter_ok c" "\<not> at_char is_ws s"
    and "value_ok fuel depth (c\<lparr>cur := w @ d @ CHR '','' # e @ s\<rparr>) v (d @ CHR '','' # e @ s)"
    and "js_object_loop fuel depth (advanced (value_count v) (raw_of_members depth [(ns, v)]) s c) =
      Some (True, advanced n (raw_of_members depth ms) t (advanced (value_count v) (raw_of_members depth [(ns, v)]) s c))"
  shows "js_object_loop (Suc fuel) depth c =
    Some (True, advanced (value_count v + n) (raw_of_members depth ((ns, v) # ms)) t c)"
proof -
  have "raw_of_members depth ms \<circ> raw_of_members depth [(ns, v)] = raw_of_members depth ((ns, v) # ms)"
    by (rule ext) (simp add: raw_of_members_simps(2) [of depth "(ns, v)" ms])
  then show ?thesis
    using complete_member [OF assms(1,2,3,4,7,8,9,11)] assms(5,6,9,10,12) js_next_goes_on
      [of "advanced (value_count v) (raw_of_members depth [(ns, v)]) (d @ CHR '','' # e @ s) c" d e s "CHR ''}''"]
    by (simp add: advanced_advanced)
qed

text \<open>The statement for each syntactic class.\<close>

definition reads_value :: "string \<Rightarrow> json \<Rightarrow> bool" where
  "reads_value w v \<longleftrightarrow> (\<forall>fuel depth c t. cur c = w @ t \<longrightarrow> number_ends t \<longrightarrow> depth + nesting v \<le> 16 \<longrightarrow>
     counter_ok c \<longrightarrow> 2 * length w + 1 \<le> fuel \<longrightarrow> value_ok fuel depth c v t)"

definition reads_elements :: "string \<Rightarrow> json list \<Rightarrow> bool" where
  "reads_elements w vs \<longleftrightarrow> (\<forall>fuel depth c t. cur c = w @ CHR '']'' # t \<longrightarrow> 0 < depth \<longrightarrow>
     depth + foldr max (map nesting vs) 0 \<le> 16 \<longrightarrow> counter_ok c \<longrightarrow> 2 * length w + 2 \<le> fuel \<longrightarrow>
     js_array_loop fuel depth c = Some (True, advanced (sum_list (map value_count vs)) (\<lambda>r. r) t c))"

definition reads_members :: "string \<Rightarrow> (nat list \<times> json) list \<Rightarrow> bool" where
  "reads_members w ms \<longleftrightarrow> (\<forall>fuel depth c t. cur c = w @ CHR ''}'' # t \<longrightarrow> 0 < depth \<longrightarrow>
     depth + foldr max (map (\<lambda>m. nesting (snd m)) ms) 0 \<le> 16 \<longrightarrow> counter_ok c \<longrightarrow> 2 * length w + 2 \<le> fuel \<longrightarrow>
     js_object_loop fuel depth c =
       Some (True, advanced (sum_list (map (\<lambda>m. value_count (snd m)) ms)) (raw_of_members depth ms) t c))"

lemma reads_valueI:
  assumes "\<And>fuel depth c t. cur c = w @ t \<Longrightarrow> number_ends t \<Longrightarrow> depth + nesting v \<le> 16 \<Longrightarrow> counter_ok c \<Longrightarrow>
     2 * length w \<le> fuel \<Longrightarrow> value_ok (Suc fuel) depth c v t"
  shows "reads_value w v"
  unfolding reads_value_def
proof (intro allI impI)
  fix fuel depth c t
  assume c: "cur c = w @ t" "number_ends t" "depth + nesting v \<le> 16" "counter_ok c" "2 * length w + 1 \<le> fuel"
  then show "value_ok fuel depth c v t" using assms [of c t depth "fuel - 1"] by (cases fuel) auto
qed

lemma reads_valueD:
  "reads_value w v \<Longrightarrow> cur c = w @ t \<Longrightarrow> number_ends t \<Longrightarrow> depth + nesting v \<le> 16 \<Longrightarrow> counter_ok c \<Longrightarrow>
   2 * length w + 1 \<le> fuel \<Longrightarrow> value_ok fuel depth c v t"
  by (simp add: reads_value_def)

lemma reads_elementsI:
  assumes "\<And>fuel depth c t. cur c = w @ CHR '']'' # t \<Longrightarrow> 0 < depth \<Longrightarrow> depth + foldr max (map nesting vs) 0 \<le> 16 \<Longrightarrow>
     counter_ok c \<Longrightarrow> 2 * length w + 1 \<le> fuel \<Longrightarrow>
     js_array_loop (Suc fuel) depth c = Some (True, advanced (sum_list (map value_count vs)) (\<lambda>r. r) t c)"
  shows "reads_elements w vs"
  unfolding reads_elements_def
proof (intro allI impI)
  fix fuel depth c t
  assume c: "cur c = w @ CHR '']'' # t" "0 < depth" "depth + foldr max (map nesting vs) 0 \<le> 16" "counter_ok c"
    "2 * length w + 2 \<le> fuel"
  then show "js_array_loop fuel depth c = Some (True, advanced (sum_list (map value_count vs)) (\<lambda>r. r) t c)"
    using assms [of c t depth "fuel - 1"] by (cases fuel) auto
qed

lemma reads_membersI:
  assumes "\<And>fuel depth c t. cur c = w @ CHR ''}'' # t \<Longrightarrow> 0 < depth \<Longrightarrow>
     depth + foldr max (map (\<lambda>m. nesting (snd m)) ms) 0 \<le> 16 \<Longrightarrow> counter_ok c \<Longrightarrow> 2 * length w + 1 \<le> fuel \<Longrightarrow>
     js_object_loop (Suc fuel) depth c =
       Some (True, advanced (sum_list (map (\<lambda>m. value_count (snd m)) ms)) (raw_of_members depth ms) t c)"
  shows "reads_members w ms"
  unfolding reads_members_def
proof (intro allI impI)
  fix fuel depth c t
  assume c: "cur c = w @ CHR ''}'' # t" "0 < depth" "depth + foldr max (map (\<lambda>m. nesting (snd m)) ms) 0 \<le> 16"
    "counter_ok c" "2 * length w + 2 \<le> fuel"
  then show "js_object_loop fuel depth c =
       Some (True, advanced (sum_list (map (\<lambda>m. value_count (snd m)) ms)) (raw_of_members depth ms) t c)"
    using assms [of c t depth "fuel - 1"] by (cases fuel) auto
qed

lemma number_ends_after: "json_ws b \<Longrightarrow> x \<in> {CHR '']'', CHR ''}'', CHR '',''} \<Longrightarrow> number_ends (b @ x # t)"
  by (cases b) (auto simp: number_ends_def at_char_def is_ws_def is_digit_char_def)

lemma at_char_ws_append: "w \<noteq> [] \<Longrightarrow> \<not> is_ws (hd w) \<Longrightarrow> \<not> at_char is_ws (w @ t)"
  by (cases w) (auto simp: at_char_def)

lemma json_complete:
  "json_text w v \<Longrightarrow> reads_value w v"
  "json_elements w vs \<Longrightarrow> reads_elements w vs"
  "json_members w ms \<Longrightarrow> reads_members w ms"
proof (induction w v and w vs and w ms rule: json_text_json_elements_json_members.inducts)
  case text_null
  show ?case by (rule reads_valueI, rule complete_literal [where w = "''null''"]) auto
next
  case text_true
  show ?case by (rule reads_valueI, rule complete_literal [where w = "''true''"]) auto
next
  case text_false
  show ?case by (rule reads_valueI, rule complete_literal [where w = "''false''"]) auto
next
  case (text_number w)
  then show ?case by (intro reads_valueI complete_number) auto
next
  case (text_string w ns)
  then show ?case by (intro reads_valueI complete_string) auto
next
  case (text_empty_array a)
  then show ?case by (intro reads_valueI complete_empty(1)) auto
next
  case (text_array a w vs)
  show ?case
    by (rule reads_valueI, rule complete_array [OF text_array(1) _ _ _ text_array(2)])
      (use text_array(3) in \<open>auto simp: reads_elements_def\<close>)
next
  case (text_empty_object a)
  then show ?case by (intro reads_valueI complete_empty(2)) auto
next
  case (text_object a w ms)
  show ?case
    by (rule reads_valueI, rule complete_object [OF text_object(1) _ _ _ text_object(2)])
      (use text_object(3) in \<open>auto simp: reads_members_def\<close>)
next
  case (last_element w v b)
  show ?case
  proof (rule reads_elementsI)
    fix fuel depth c t
    assume c: "cur c = (w @ b) @ CHR '']'' # t" "0 < depth" "depth + foldr max (map nesting [v]) 0 \<le> 16"
      "counter_ok c" "2 * length (w @ b) + 1 \<le> fuel"
    then have "value_ok fuel depth c v (b @ CHR '']'' # t)"
      using last_element number_ends_after [of b "CHR '']''" t] by (intro reads_valueD [of w]) auto
    with complete_last_element [OF this last_element(2) c(2)] show "js_array_loop (Suc fuel) depth c =
        Some (True, advanced (sum_list (map value_count [v])) (\<lambda>r. r) t c)" by simp
  qed
next
  case (more_elements w v b a s vs)
  show ?case
  proof (rule reads_elementsI)
    fix fuel depth c t
    assume c: "cur c = (w @ b @ CHR '','' # a @ s) @ CHR '']'' # t" "0 < depth"
      "depth + foldr max (map nesting (v # vs)) 0 \<le> 16" "counter_ok c"
      "2 * length (w @ b @ CHR '','' # a @ s) + 1 \<le> fuel"
    let ?s = "s @ CHR '']'' # t"
    have "value_ok fuel depth c v (b @ CHR '','' # a @ ?s)"
      using c more_elements number_ends_after [of b "CHR '',''" "a @ ?s"] by (intro reads_valueD [of w]) auto
    moreover have "js_array_loop fuel depth (advanced (value_count v) (\<lambda>r. r) ?s c) =
        Some (True, advanced (sum_list (map value_count vs)) (\<lambda>r. r) t (advanced (value_count v) (\<lambda>r. r) ?s c))"
      using more_elements(6) c unfolding reads_elements_def by auto
    moreover have "\<not> at_char is_ws ?s" using elements_start [OF more_elements(4)] by (intro at_char_ws_append) auto
    ultimately show "js_array_loop (Suc fuel) depth c =
        Some (True, advanced (sum_list (map value_count (v # vs))) (\<lambda>r. r) t c)"
      using complete_more_elements [OF _ more_elements(2,3) c(2) _ c(4)] by simp
  qed
next
  case (last_member k ns a b w v d)
  show ?case
  proof (rule reads_membersI)
    fix fuel depth c t
    assume c: "cur c = (k @ a @ CHR '':'' # b @ w @ d) @ CHR ''}'' # t" "0 < depth"
      "depth + foldr max (map (\<lambda>m. nesting (snd m)) [(ns, v)]) 0 \<le> 16" "counter_ok c"
      "2 * length (k @ a @ CHR '':'' # b @ w @ d) + 1 \<le> fuel"
    let ?u = "d @ CHR ''}'' # t"
    have "value_ok fuel depth (c\<lparr>cur := w @ ?u\<rparr>) v ?u"
      using c last_member number_ends_after [of d "CHR ''}''" t] by (intro reads_valueD [of w]) auto
    from complete_last_member [OF last_member(1) _ last_member(2,3,5,4) c(2,4) this] c(1)
    show "js_object_loop (Suc fuel) depth c = Some (True, advanced (sum_list (map (\<lambda>m. value_count (snd m)) [(ns, v)]))
        (raw_of_members depth [(ns, v)]) t c)" by simp
  qed
next
  case (more_members k ns a b w v d e s ms)
  show ?case
  proof (rule reads_membersI)
    fix fuel depth c t
    assume c: "cur c = (k @ a @ CHR '':'' # b @ w @ d @ CHR '','' # e @ s) @ CHR ''}'' # t" "0 < depth"
      "depth + foldr max (map (\<lambda>m. nesting (snd m)) ((ns, v) # ms)) 0 \<le> 16" "counter_ok c"
      "2 * length (k @ a @ CHR '':'' # b @ w @ d @ CHR '','' # e @ s) + 1 \<le> fuel"
    let ?s = "s @ CHR ''}'' # t" and ?raw = "raw_of_members depth [(ns, v)]"
    have "value_ok fuel depth (c\<lparr>cur := w @ d @ CHR '','' # e @ ?s\<rparr>) v (d @ CHR '','' # e @ ?s)"
      using c more_members number_ends_after [of d "CHR '',''" "e @ ?s"] by (intro reads_valueD [of w]) auto
    moreover have "js_object_loop fuel depth (advanced (value_count v) ?raw ?s c) =
        Some (True, advanced (sum_list (map (\<lambda>m. value_count (snd m)) ms)) (raw_of_members depth ms) t
          (advanced (value_count v) ?raw ?s c))"
      using more_members(9) c unfolding reads_members_def by auto
    moreover have "\<not> at_char is_ws ?s" using members_start [OF more_members(7)]
      by (intro at_char_ws_append) (auto simp: is_ws_def)
    ultimately show "js_object_loop (Suc fuel) depth c = Some (True, advanced
        (sum_list (map (\<lambda>m. value_count (snd m)) ((ns, v) # ms))) (raw_of_members depth ((ns, v) # ms)) t c)"
      using complete_more_members [OF more_members(1) _ more_members(2,3,5,6,4) c(2,4)] c(1) by simp
  qed
qed

subsection \<open>Soundness\<close>

lemma literal_loop_sound: "literal_loop w s = (True, t) \<Longrightarrow> s = w @ t"
  by (induction w s rule: literal_loop.induct) (auto split: if_splits)

lemma js_literal_sound: "js_literal w c = (True, c') \<Longrightarrow> cur c = w @ cur c'"
  by (auto simp: js_literal_def literal_loop_sound split: prod.splits)

lemma js_open_closed:
  assumes "js_open x y c = (Some True, c')"
  shows "\<exists>a. cur c = x # a @ y # cur c' \<and> json_ws a"
proof -
  obtain c1 where c1: "js_take x c = (True, c1)" "js_take y (js_whitespace c1) = (True, c')"
    using assms by (auto simp: js_open_def split: prod.splits bool.splits)
  then have "cur c = x # cur c1" "cur (js_whitespace c1) = y # cur c'" by (auto simp: js_take_ok)
  with js_whitespace_split [of c1] show ?thesis by metis
qed

lemma js_open_entered:
  assumes "js_open x y c = (None, c')"
  shows "\<exists>a. cur c = x # a @ cur c' \<and> json_ws a"
proof -
  obtain c1 where c1: "js_take x c = (True, c1)" "js_take y (js_whitespace c1) = (False, c')"
    using assms by (auto simp: js_open_def split: prod.splits bool.splits)
  then have "cur c = x # cur c1" "c' = js_whitespace c1" by (auto simp: js_take_ok js_take_fails)
  with js_whitespace_split [of c1] show ?thesis by metis
qed

lemma js_name_sound:
  assumes "js_name depth c = (True, exact, c')"
  shows "\<exists>k ns a b. cur c = k @ a @ CHR '':'' # b @ cur c' \<and> json_string k ns \<and> json_ws a \<and> json_ws b"
proof -
  obtain x c1 c2 where c: "js_string (depth = 1 \<and> raw_id c \<noteq> None) c = (True, x, c1)"
      "js_take (CHR '':'') (js_whitespace c1) = (True, c2)" "c' = js_whitespace c2"
    using assms by (auto simp: js_name_def split: prod.splits bool.splits)
  from js_string_sound [OF c(1)] obtain k ns where "cur c = k @ cur c1" "json_string k ns" by blast
  moreover have "cur (js_whitespace c1) = CHR '':'' # cur c2" using c(2) by (auto simp: js_take_ok)
  ultimately show ?thesis using js_whitespace_split [of c1] js_whitespace_split [of c2] c(3) by metis
qed

definition value_read :: "nat \<Rightarrow> syntax_cursor \<Rightarrow> syntax_cursor \<Rightarrow> bool" where
  "value_read depth c c' \<longleftrightarrow> (\<exists>w v. cur c = w @ cur c' \<and> json_text w v \<and> depth + nesting v \<le> 16)"

definition elements_read :: "nat \<Rightarrow> syntax_cursor \<Rightarrow> syntax_cursor \<Rightarrow> bool" where
  "elements_read depth c c' \<longleftrightarrow> (\<exists>w vs. cur c = w @ CHR '']'' # cur c' \<and> json_elements w vs \<and>
     depth + foldr max (map nesting vs) 0 \<le> 16)"

definition members_read :: "nat \<Rightarrow> syntax_cursor \<Rightarrow> syntax_cursor \<Rightarrow> bool" where
  "members_read depth c c' \<longleftrightarrow> (\<exists>w ms. cur c = w @ CHR ''}'' # cur c' \<and> json_members w ms \<and>
     depth + foldr max (map (\<lambda>m. nesting (snd m)) ms) 0 \<le> 16)"

lemma value_readI: "cur c = w @ cur c' \<Longrightarrow> json_text w v \<Longrightarrow> depth + nesting v \<le> 16 \<Longrightarrow> value_read depth c c'"
  by (auto simp: value_read_def)

lemma array_read:
  assumes "js_open (CHR ''['') (CHR '']'') c = (None, c1)" "elements_read (Suc depth) c1 c'"
  shows "value_read depth c c'"
proof -
  from js_open_entered [OF assms(1)] obtain a where a: "cur c = CHR ''['' # a @ cur c1" "json_ws a" by blast
  from assms(2) obtain w vs where w: "cur c1 = w @ CHR '']'' # cur c'" "json_elements w vs"
      "Suc depth + foldr max (map nesting vs) 0 \<le> 16" by (auto simp: elements_read_def)
  from text_array [OF a(2) w(2)] a(1) w show ?thesis by (intro value_readI) auto
qed

lemma object_read:
  assumes "js_open (CHR ''{'') (CHR ''}'') c = (None, c1)" "members_read (Suc depth) c1 c'"
  shows "value_read depth c c'"
proof -
  from js_open_entered [OF assms(1)] obtain a where a: "cur c = CHR ''{'' # a @ cur c1" "json_ws a" by blast
  from assms(2) obtain w ms where w: "cur c1 = w @ CHR ''}'' # cur c'" "json_members w ms"
      "Suc depth + foldr max (map (\<lambda>m. nesting (snd m)) ms) 0 \<le> 16" by (auto simp: members_read_def)
  from text_object [OF a(2) w(2)] a(1) w show ?thesis by (intro value_readI) auto
qed

lemma empty_read:
  assumes "depth < 16"
  shows "js_open (CHR ''['') (CHR '']'') c = (Some True, c') \<Longrightarrow> value_read depth c c'"
    and "js_open (CHR ''{'') (CHR ''}'') c = (Some True, c') \<Longrightarrow> value_read depth c c'"
proof -
  assume "js_open (CHR ''['') (CHR '']'') c = (Some True, c')"
  then obtain a where "cur c = CHR ''['' # a @ CHR '']'' # cur c'" "json_ws a" using js_open_closed by blast
  with text_empty_array [of a] assms show "value_read depth c c'" by (intro value_readI) auto
next
  assume "js_open (CHR ''{'') (CHR ''}'') c = (Some True, c')"
  then obtain a where "cur c = CHR ''{'' # a @ CHR ''}'' # cur c'" "json_ws a" using js_open_closed by blast
  with text_empty_object [of a] assms show "value_read depth c c'" by (intro value_readI) auto
qed

lemma scalar_read:
  assumes "depth \<le> 16"
  shows "js_literal ''true'' c = (True, c') \<Longrightarrow> value_read depth c c'"
    and "js_literal ''false'' c = (True, c') \<Longrightarrow> value_read depth c c'"
    and "js_literal ''null'' c = (True, c') \<Longrightarrow> value_read depth c c'"
    and "js_number c = (True, c') \<Longrightarrow> value_read depth c c'"
    and "js_string x c = (True, y, c') \<Longrightarrow> value_read depth c c'"
proof -
  show "js_literal ''true'' c = (True, c') \<Longrightarrow> value_read depth c c'"
    using js_literal_sound text_true assms by (intro value_readI) auto
  show "js_literal ''false'' c = (True, c') \<Longrightarrow> value_read depth c c'"
    using js_literal_sound text_false assms by (intro value_readI) auto
  show "js_literal ''null'' c = (True, c') \<Longrightarrow> value_read depth c c'"
    using js_literal_sound text_null assms by (intro value_readI) auto
  show "js_number c = (True, c') \<Longrightarrow> value_read depth c c'"
    using js_number_sound text_number assms by (metis add_0_right nesting.simps(6) value_readI)
  show "js_string x c = (True, y, c') \<Longrightarrow> value_read depth c c'"
    using js_string_sound text_string assms by (metis add_0_right nesting.simps(7) value_readI)
qed

lemma last_element_read:
  assumes "value_read depth c c1" "js_next (CHR '']'') c1 = (Some True, c')"
  shows "elements_read depth c c'"
proof -
  from assms(1) obtain w v where w: "cur c = w @ cur c1" "json_text w v" "depth + nesting v \<le> 16"
    by (auto simp: value_read_def)
  from js_next_closed [OF assms(2)] obtain b where b: "cur c1 = b @ CHR '']'' # cur c'" "json_ws b" by blast
  from last_element [OF w(2) b(2)] w b(1) show ?thesis
    unfolding elements_read_def by (intro exI [of _ "w @ b"] exI [of _ "[v]"]) auto
qed

lemma more_elements_read:
  assumes "value_read depth c c1" "js_next (CHR '']'') c1 = (None, c2)" "elements_read depth c2 c'"
  shows "elements_read depth c c'"
proof -
  from assms(1) obtain w v where w: "cur c = w @ cur c1" "json_text w v" "depth + nesting v \<le> 16"
    by (auto simp: value_read_def)
  from js_next_went_on [OF assms(2)] obtain b a where
    b: "cur c1 = b @ CHR '','' # a @ cur c2" "json_ws b" "json_ws a" by blast
  from assms(3) obtain t vs where t: "cur c2 = t @ CHR '']'' # cur c'" "json_elements t vs"
      "depth + foldr max (map nesting vs) 0 \<le> 16" by (auto simp: elements_read_def)
  from more_elements [OF w(2) b(2,3) t(2)] w b(1) t(1,3) show ?thesis
    unfolding elements_read_def by (intro exI [of _ "w @ b @ CHR '','' # a @ t"] exI [of _ "v # vs"]) auto
qed

lemma cur_note_id [simp]: "cur (js_note_id x s c) = cur c"
  by (simp add: js_note_id_def)

lemma last_member_read:
  assumes "js_name depth c = (True, x, c1)" "value_read depth c1 c2" "js_next (CHR ''}'') (js_note_id x s c2) = (Some True, c')"
  shows "members_read depth c c'"
proof -
  from js_name_sound [OF assms(1)] obtain k ns a b where
    k: "cur c = k @ a @ CHR '':'' # b @ cur c1" "json_string k ns" "json_ws a" "json_ws b" by blast
  from assms(2) obtain w v where w: "cur c1 = w @ cur c2" "json_text w v" "depth + nesting v \<le> 16"
    by (auto simp: value_read_def)
  from js_next_closed [OF assms(3)] obtain d where d: "cur c2 = d @ CHR ''}'' # cur c'" "json_ws d" by auto
  from last_member [OF k(2-4) w(2) d(2)] k(1) w d(1) show ?thesis
    unfolding members_read_def by (intro exI [of _ "k @ a @ CHR '':'' # b @ w @ d"] exI [of _ "[(ns, v)]"]) auto
qed

lemma more_members_read:
  assumes "js_name depth c = (True, x, c1)" "value_read depth c1 c2" "js_next (CHR ''}'') (js_note_id x s c2) = (None, c3)"
    and "members_read depth c3 c'"
  shows "members_read depth c c'"
proof -
  from js_name_sound [OF assms(1)] obtain k ns a b where
    k: "cur c = k @ a @ CHR '':'' # b @ cur c1" "json_string k ns" "json_ws a" "json_ws b" by blast
  from assms(2) obtain w v where w: "cur c1 = w @ cur c2" "json_text w v" "depth + nesting v \<le> 16"
    by (auto simp: value_read_def)
  from js_next_went_on [OF assms(3)] obtain d e where
    d: "cur c2 = d @ CHR '','' # e @ cur c3" "json_ws d" "json_ws e" by auto
  from assms(4) obtain t ms where t: "cur c3 = t @ CHR ''}'' # cur c'" "json_members t ms"
      "depth + foldr max (map (\<lambda>m. nesting (snd m)) ms) 0 \<le> 16" by (auto simp: members_read_def)
  from more_members [OF k(2-4) w(2) d(2,3) t(2)] k(1) w d(1) t(1,3) show ?thesis
    unfolding members_read_def
    by (intro exI [of _ "k @ a @ CHR '':'' # b @ w @ d @ CHR '','' # e @ t"] exI [of _ "(ns, v) # ms"]) auto
qed

lemma value_read_count [simp]: "value_read depth (count_value c) c' = value_read depth c c'"
  by (simp add: value_read_def)

lemma js_sound:
  "js_value fuel depth c = Some (True, c') \<Longrightarrow> value_read depth c c'"
  "js_array_loop fuel depth c = Some (True, c') \<Longrightarrow> elements_read depth c c'"
  "js_object_loop fuel depth c = Some (True, c') \<Longrightarrow> members_read depth c c'"
proof (induction fuel depth c and fuel depth c and fuel depth c arbitrary: c' and c' and c'
    rule: js_value_js_array_loop_js_object_loop.induct)
  case (2 fuel depth c)
  then have d: "depth \<le> 16" "cur c \<noteq> []" by (auto simp: kJsonMaxNesting_def split: if_splits)
  consider (obj) "hd (cur c) = CHR ''{''" | (arr) "hd (cur c) = CHR ''[''" | (str) "hd (cur c) = CHR 0x22"
    | (lit) w where "js_literal w (count_value c) = (True, c')" "w = ''true'' \<or> w = ''false'' \<or> w = ''null''"
    | (num) "js_number (count_value c) = (True, c')"
    using 2(3) d by (auto simp: kJsonMaxNesting_def Let_def split: if_splits)
  then have "value_read depth (count_value c) c'"
  proof cases
    case obj
    then have "depth < 16" using 2(3) d by (auto simp: kJsonMaxNesting_def Let_def split: if_splits)
    obtain r c1 where o: "js_open (CHR ''{'') (CHR ''}'') (count_value c) = (r, c1)" by (metis surj_pair)
    with obj \<open>depth < 16\<close> 2 d empty_read(2) [of depth "count_value c" c'] object_read [of "count_value c" c1 depth c']
    show ?thesis by (cases r) (auto simp: kJsonMaxNesting_def Let_def)
  next
    case arr
    then have "depth < 16" using 2(3) d by (auto simp: kJsonMaxNesting_def Let_def split: if_splits)
    obtain r c1 where o: "js_open (CHR ''['') (CHR '']'') (count_value c) = (r, c1)" by (metis surj_pair)
    with arr \<open>depth < 16\<close> 2 d empty_read(1) [of depth "count_value c" c'] array_read [of "count_value c" c1 depth c']
    show ?thesis by (cases r) (auto simp: kJsonMaxNesting_def Let_def)
  next
    case str
    then obtain y where "js_string False (count_value c) = (True, y, c')"
      using 2(3) d by (auto simp: kJsonMaxNesting_def Let_def split: prod.splits)
    then show ?thesis using scalar_read(5) d(1) by blast
  qed (use scalar_read d(1) in \<open>blast+\<close>)
  then show ?case by simp
next
  case (4 fuel depth c)
  obtain c1 where c1: "js_value fuel depth c = Some (True, c1)" using 4(3) by (auto split: option.splits prod.splits bool.splits)
  obtain r c2 where n: "js_next (CHR '']'') c1 = (r, c2)" by (metis surj_pair)
  from 4(1) [OF c1] have v: "value_read depth c c1" .
  show ?case
  proof (cases r)
    case None
    with 4(3) c1 n have "js_array_loop fuel depth c2 = Some (True, c')" by simp
    with 4(2) c1 n None more_elements_read [OF v] show ?thesis by simp
  next
    case (Some b)
    with 4(3) c1 n last_element_read [OF v] show ?thesis by simp
  qed
next
  case (6 fuel depth c)
  obtain x c1 where nm: "js_name depth c = (True, x, c1)" using 6(3) by (auto split: option.splits prod.splits bool.splits)
  with 6(3) obtain c2 where c2: "js_value fuel depth c1 = Some (True, c2)" by (auto split: option.splits prod.splits bool.splits)
  obtain r c3 where n: "js_next (CHR ''}'') (js_note_id x (cur c1) c2) = (r, c3)" by (metis surj_pair)
  have v: "value_read depth c1 c2" using 6(1) nm c2 by simp
  show ?case
  proof (cases r)
    case None
    with 6(3) nm c2 n have "js_object_loop fuel depth c3 = Some (True, c')" by simp
    with 6(2) nm c2 n None more_members_read [OF nm v] show ?thesis by simp
  next
    case (Some b)
    with 6(3) nm c2 n last_member_read [OF nm v] show ?thesis by simp
  qed
qed auto

subsection \<open>Fuel\<close>

lemma value_consumes: "js_value fuel depth c = Some (True, c') \<Longrightarrow> length (cur c') < length (cur c)"
  using js_sound(1) [of fuel depth c c'] json_text_nonempty by (fastforce simp: value_read_def)

lemma next_consumes: "js_next closer c = (None, c') \<Longrightarrow> length (cur c') < length (cur c)"
  using js_next_went_on [of closer c c'] by fastforce

lemma open_consumes: "js_open x y c = (None, c') \<Longrightarrow> length (cur c') < length (cur c)"
  using js_open_entered [of x y c c'] by fastforce

lemma name_consumes: "js_name depth c = (True, x, c') \<Longrightarrow> length (cur c') < length (cur c)"
  using js_name_sound [of depth c x c'] by fastforce

lemma js_fuel_suffices:
  "2 * length (cur c) + 1 \<le> fuel \<Longrightarrow> js_value fuel depth c \<noteq> None"
  "2 * length (cur c) + 2 \<le> fuel \<Longrightarrow> js_array_loop fuel depth c \<noteq> None"
  "2 * length (cur c) + 2 \<le> fuel \<Longrightarrow> js_object_loop fuel depth c \<noteq> None"
proof (induction fuel depth c and fuel depth c and fuel depth c rule: js_value_js_array_loop_js_object_loop.induct)
  case (2 fuel depth c)
  obtain r c1 where o: "js_open (CHR ''{'') (CHR ''}'') (count_value c) = (r, c1)" by (metis surj_pair)
  obtain q c2 where a: "js_open (CHR ''['') (CHR '']'') (count_value c) = (q, c2)" by (metis surj_pair)
  from 2 o a open_consumes [of "CHR ''{''" "CHR ''}''" "count_value c" c1]
    open_consumes [of "CHR ''[''" "CHR '']''" "count_value c" c2]
  show ?case by (auto simp: Let_def split: option.splits prod.splits)
next
  case (4 fuel depth c)
  then have v: "js_value fuel depth c \<noteq> None" by simp
  show ?case
  proof (cases "\<exists>c1. js_value fuel depth c = Some (True, c1)")
    case True
    then obtain c1 where c1: "js_value fuel depth c = Some (True, c1)" by blast
    obtain r c2 where n: "js_next (CHR '']'') c1 = (r, c2)" by (metis surj_pair)
    with 4 c1 value_consumes [OF c1] next_consumes [of "CHR '']''" c1 c2] show ?thesis by (cases r) auto
  next
    case False
    with v obtain c1 where "js_value fuel depth c = Some (False, c1)" by auto
    then show ?thesis by simp
  qed
next
  case (6 fuel depth c)
  obtain ok x c1 where nm: "js_name depth c = (ok, x, c1)" by (metis surj_pair)
  show ?case
  proof (cases ok)
    case True
    with nm have "js_name depth c = (True, x, c1)" by simp
    note l = name_consumes [OF this]
    with 6 nm True have v: "js_value fuel depth c1 \<noteq> None" by simp
    show ?thesis
    proof (cases "\<exists>c2. js_value fuel depth c1 = Some (True, c2)")
      case True
      then obtain c2 where c2: "js_value fuel depth c1 = Some (True, c2)" by blast
      obtain r c3 where n: "js_next (CHR ''}'') (js_note_id x (cur c1) c2) = (r, c3)" by (metis surj_pair)
      with 6 nm \<open>ok\<close> c2 l value_consumes [OF c2] next_consumes [of "CHR ''}''" "js_note_id x (cur c1) c2" c3]
      show ?thesis by (cases r) auto
    next
      case False
      with v obtain c2 where "js_value fuel depth c1 = Some (False, c2)" by auto
      with nm \<open>ok\<close> show ?thesis by simp
    qed
  qed (use nm in simp)
qed auto

lemma js_fuel_mono:
  "js_value fuel depth c = Some r \<Longrightarrow> js_value (Suc fuel) depth c = Some r"
  "js_array_loop fuel depth c = Some r \<Longrightarrow> js_array_loop (Suc fuel) depth c = Some r"
  "js_object_loop fuel depth c = Some r \<Longrightarrow> js_object_loop (Suc fuel) depth c = Some r"
proof (induction fuel depth c and fuel depth c and fuel depth c arbitrary: r and r and r
    rule: js_value_js_array_loop_js_object_loop.induct)
  case (2 fuel depth c)
  obtain q c1 where o: "js_open (CHR ''{'') (CHR ''}'') (count_value c) = (q, c1)" by (metis surj_pair)
  obtain q' c2 where a: "js_open (CHR ''['') (CHR '']'') (count_value c) = (q', c2)" by (metis surj_pair)
  from 2 o a show ?case
    by (simp add: Let_def del: js_array_loop.simps(2) js_object_loop.simps(2) split: if_split_asm option.split_asm)
next
  case (4 fuel depth c)
  obtain ok c1 where c1: "js_value fuel depth c = Some (ok, c1)" using 4(3) by (auto split: option.splits)
  obtain q c2 where n: "js_next (CHR '']'') c1 = (q, c2)" by (metis surj_pair)
  have v: "js_value (Suc fuel) depth c = Some (ok, c1)" by (rule 4(1) [OF c1])
  show ?case
  proof (cases ok)
    case True
    with 4(2,3) c1 n v show ?thesis by (cases q) (simp_all del: js_value.simps(2))
  next
    case False
    with 4(3) c1 have "r = (False, c1)" by auto
    with v False show ?thesis by (simp del: js_value.simps(2))
  qed
next
  case (6 fuel depth c)
  obtain ok x c1 where nm: "js_name depth c = (ok, x, c1)" by (metis surj_pair)
  show ?case
  proof (cases ok)
    case True
    obtain ok2 c2 where c2: "js_value fuel depth c1 = Some (ok2, c2)"
      using 6(3) nm True by (auto split: option.splits)
    have v: "js_value (Suc fuel) depth c1 = Some (ok2, c2)" using 6(1) nm True c2 by simp
    obtain q c3 where n: "js_next (CHR ''}'') (js_note_id x (cur c1) c2) = (q, c3)" by (metis surj_pair)
    show ?thesis
    proof (cases ok2)
      case True
      with 6(2,3) nm \<open>ok\<close> c2 v n show ?thesis by (cases q) (simp_all del: js_value.simps(2))
    next
      case False
      with 6(3) nm \<open>ok\<close> c2 have "r = (False, c2)" by auto
      with v False nm \<open>ok\<close> show ?thesis by (simp del: js_value.simps(2))
    qed
  qed (use 6(3) nm in simp)
qed auto

lemma js_value_more_fuel: "js_value fuel depth c = Some r \<Longrightarrow> js_value (fuel + k) depth c = Some r"
  by (induction k) (simp_all only: add_0_right add_Suc_right js_fuel_mono(1))

subsection \<open>Too deep\<close>

definition fails_deep :: "(bool \<times> syntax_cursor) option \<Rightarrow> bool" where
  "fails_deep r \<longleftrightarrow> (\<exists>c. r = Some (False, c) \<and> too_deep c)"

definition deep_value :: "string \<Rightarrow> json \<Rightarrow> bool" where
  "deep_value w v \<longleftrightarrow> (\<forall>fuel depth c t. cur c = w @ t \<longrightarrow> number_ends t \<longrightarrow> depth \<le> 16 \<longrightarrow> 16 < depth + nesting v \<longrightarrow>
     counter_ok c \<longrightarrow> 2 * length w \<le> fuel \<longrightarrow> fails_deep (js_value (Suc fuel) depth c))"

definition deep_elements :: "string \<Rightarrow> json list \<Rightarrow> bool" where
  "deep_elements w vs \<longleftrightarrow> (\<forall>fuel depth c t. cur c = w @ CHR '']'' # t \<longrightarrow> 0 < depth \<longrightarrow> depth \<le> 16 \<longrightarrow>
     16 < depth + foldr max (map nesting vs) 0 \<longrightarrow> counter_ok c \<longrightarrow> 2 * length w + 1 \<le> fuel \<longrightarrow>
     fails_deep (js_array_loop (Suc fuel) depth c))"

definition deep_members :: "string \<Rightarrow> (nat list \<times> json) list \<Rightarrow> bool" where
  "deep_members w ms \<longleftrightarrow> (\<forall>fuel depth c t. cur c = w @ CHR ''}'' # t \<longrightarrow> 0 < depth \<longrightarrow> depth \<le> 16 \<longrightarrow>
     16 < depth + foldr max (map (\<lambda>m. nesting (snd m)) ms) 0 \<longrightarrow> counter_ok c \<longrightarrow> 2 * length w + 1 \<le> fuel \<longrightarrow>
     fails_deep (js_object_loop (Suc fuel) depth c))"

lemma deep_valueD:
  assumes "deep_value w v" "cur c = w @ t" "number_ends t" "depth \<le> 16" "16 < depth + nesting v" "counter_ok c"
    "2 * length w + 1 \<le> fuel"
  shows "fails_deep (js_value fuel depth c)"
  using assms by (cases fuel) (auto simp: deep_value_def simp del: js_value.simps(2))

lemma array_fails: "fails_deep (js_value fuel depth c) \<Longrightarrow> fails_deep (js_array_loop (Suc fuel) depth c)"
  by (auto simp: fails_deep_def)

lemma object_fails:
  "js_name depth c = (True, x, c1) \<Longrightarrow> fails_deep (js_value fuel depth c1) \<Longrightarrow> fails_deep (js_object_loop (Suc fuel) depth c)"
  by (auto simp: fails_deep_def)

lemma deep_container:
  assumes "json_ws a" "counter_ok c" "depth \<le> 16"
  shows "cur c = CHR ''['' # a @ s \<Longrightarrow> s \<noteq> [] \<and> \<not> is_ws (hd s) \<and> hd s \<noteq> CHR '']'' \<Longrightarrow>
      (\<And>c. cur c = s \<Longrightarrow> counter_ok c \<Longrightarrow> depth < 16 \<Longrightarrow> fails_deep (js_array_loop fuel (Suc depth) c)) \<Longrightarrow>
      fails_deep (js_value (Suc fuel) depth c)"
    and "cur c = CHR ''{'' # a @ s \<Longrightarrow> s \<noteq> [] \<and> \<not> is_ws (hd s) \<and> hd s \<noteq> CHR ''}'' \<Longrightarrow>
      (\<And>c. cur c = s \<Longrightarrow> counter_ok c \<Longrightarrow> depth < 16 \<Longrightarrow> fails_deep (js_object_loop fuel (Suc depth) c)) \<Longrightarrow>
      fails_deep (js_value (Suc fuel) depth c)"
proof -
  assume c: "cur c = CHR ''['' # a @ s" "s \<noteq> [] \<and> \<not> is_ws (hd s) \<and> hd s \<noteq> CHR '']''"
    and l: "\<And>c. cur c = s \<Longrightarrow> counter_ok c \<Longrightarrow> depth < 16 \<Longrightarrow> fails_deep (js_array_loop fuel (Suc depth) c)"
  show "fails_deep (js_value (Suc fuel) depth c)"
  proof (cases "depth < 16")
    case True
    have "js_open (CHR ''['') (CHR '']'') (count_value c) = (None, (count_value c)\<lparr>cur := s\<rparr>)"
      using c assms(1) by (intro js_open_more [of _ _ a]) (auto simp: at_char_def)
    with js_value_array [OF True c(1)] l [of "(count_value c)\<lparr>cur := s\<rparr>"] True assms(2) show ?thesis
      by (simp add: count_value_more del: js_value.simps(2))
  qed (use c(1) assms(3) in \<open>simp add: kJsonMaxNesting_def fails_deep_def Let_def\<close>)
next
  assume c: "cur c = CHR ''{'' # a @ s" "s \<noteq> [] \<and> \<not> is_ws (hd s) \<and> hd s \<noteq> CHR ''}''"
    and l: "\<And>c. cur c = s \<Longrightarrow> counter_ok c \<Longrightarrow> depth < 16 \<Longrightarrow> fails_deep (js_object_loop fuel (Suc depth) c)"
  show "fails_deep (js_value (Suc fuel) depth c)"
  proof (cases "depth < 16")
    case True
    have "js_open (CHR ''{'') (CHR ''}'') (count_value c) = (None, (count_value c)\<lparr>cur := s\<rparr>)"
      using c assms(1) by (intro js_open_more [of _ _ a]) (auto simp: at_char_def)
    with js_value_object [OF True c(1)] l [of "(count_value c)\<lparr>cur := s\<rparr>"] True assms(2) show ?thesis
      by (simp add: count_value_more del: js_value.simps(2))
  qed (use c(1) assms(3) in \<open>simp add: kJsonMaxNesting_def fails_deep_def Let_def\<close>)
qed

lemma json_deep:
  "json_text w v \<Longrightarrow> deep_value w v"
  "json_elements w vs \<Longrightarrow> deep_elements w vs"
  "json_members w ms \<Longrightarrow> deep_members w ms"
proof (induction w v and w vs and w ms rule: json_text_json_elements_json_members.inducts)
  case (text_empty_array a)
  show ?case unfolding deep_value_def
    by (auto simp: kJsonMaxNesting_def fails_deep_def Let_def)
next
  case (text_empty_object a)
  show ?case unfolding deep_value_def
    by (auto simp: kJsonMaxNesting_def fails_deep_def Let_def)
next
  case (text_array a w vs)
  show ?case unfolding deep_value_def
  proof (intro allI impI)
    fix fuel depth c t
    assume c: "cur c = (CHR ''['' # a @ w @ '']'') @ t" "number_ends t" "depth \<le> 16" "16 < depth + nesting (JArray vs)"
      "counter_ok c" "2 * length (CHR ''['' # a @ w @ '']'') \<le> fuel"
    obtain f where "fuel = Suc f" "2 * length w + 1 \<le> f" using c(6) by (cases fuel) auto
    then show "fails_deep (js_value (Suc fuel) depth c)"
      using c text_array elements_start [of w vs]
      by (intro deep_container(1) [of a _ _ "w @ CHR '']'' # t"]) (auto simp: deep_elements_def)
  qed
next
  case (text_object a w ms)
  show ?case unfolding deep_value_def
  proof (intro allI impI)
    fix fuel depth c t
    assume c: "cur c = (CHR ''{'' # a @ w @ ''}'') @ t" "number_ends t" "depth \<le> 16" "16 < depth + nesting (JObject ms)"
      "counter_ok c" "2 * length (CHR ''{'' # a @ w @ ''}'') \<le> fuel"
    obtain f where "fuel = Suc f" "2 * length w + 1 \<le> f" using c(6) by (cases fuel) auto
    then show "fails_deep (js_value (Suc fuel) depth c)"
      using c text_object members_start [of w ms]
      by (intro deep_container(2) [of a _ _ "w @ CHR ''}'' # t"]) (auto simp: deep_members_def is_ws_def)
  qed
next
  case (last_element w v b)
  show ?case unfolding deep_elements_def
  proof (intro allI impI)
    fix fuel depth c t
    assume "cur c = (w @ b) @ CHR '']'' # t" "0 < depth" "depth \<le> 16" "16 < depth + foldr max (map nesting [v]) 0"
      "counter_ok c" "2 * length (w @ b) + 1 \<le> fuel"
    then show "fails_deep (js_array_loop (Suc fuel) depth c)"
      using last_element number_ends_after [of b "CHR '']''" t] by (intro array_fails deep_valueD [of w]) auto
  qed
next
  case (more_elements w v b a s vs)
  show ?case unfolding deep_elements_def
  proof (intro allI impI)
    fix fuel depth c t
    assume c: "cur c = (w @ b @ CHR '','' # a @ s) @ CHR '']'' # t" "0 < depth" "depth \<le> 16"
      "16 < depth + foldr max (map nesting (v # vs)) 0" "counter_ok c"
      "2 * length (w @ b @ CHR '','' # a @ s) + 1 \<le> fuel"
    let ?s = "s @ CHR '']'' # t"
    have e: "number_ends (b @ CHR '','' # a @ ?s)" using more_elements by (intro number_ends_after) auto
    show "fails_deep (js_array_loop (Suc fuel) depth c)"
    proof (cases "16 < depth + nesting v")
      case True
      with c more_elements e show ?thesis by (intro array_fails deep_valueD [of w]) auto
    next
      case False
      have "value_ok fuel depth c v (b @ CHR '','' # a @ ?s)"
        using c e False more_elements(1) json_complete(1) by (intro reads_valueD [of w]) auto
      moreover have "\<not> at_char is_ws ?s" using elements_start [OF more_elements(4)] by (intro at_char_ws_append) auto
      ultimately have "js_array_loop (Suc fuel) depth c =
          js_array_loop fuel depth (advanced (value_count v) (\<lambda>r. r) ?s c)"
        using c(2,5) more_elements(2,3) js_next_goes_on
          [of "advanced (value_count v) (\<lambda>r. r) (b @ CHR '','' # a @ ?s) c" b a ?s "CHR '']''"]
        by (simp add: value_ok_def)
      moreover obtain f where "fuel = Suc f" "2 * length s + 1 \<le> f" using c(6) by (cases fuel) auto
      ultimately show ?thesis using more_elements(6) False c(2,3,4) by (auto simp: deep_elements_def)
    qed
  qed
next
  case (last_member k ns a b w v d)
  show ?case unfolding deep_members_def
  proof (intro allI impI)
    fix fuel depth c t
    assume c: "cur c = (k @ a @ CHR '':'' # b @ w @ d) @ CHR ''}'' # t" "0 < depth" "depth \<le> 16"
      "16 < depth + foldr max (map (\<lambda>m. nesting (snd m)) [(ns, v)]) 0" "counter_ok c"
      "2 * length (k @ a @ CHR '':'' # b @ w @ d) + 1 \<le> fuel"
    let ?u = "d @ CHR ''}'' # t"
    have "\<not> at_char is_ws (w @ ?u)" using json_text_start [OF last_member(4)] by (intro at_char_ws_append) auto
    with js_name_complete [OF last_member(1) _ last_member(2,3)] c(1)
    have "js_name depth c = (True, depth = 1 \<and> raw_id c \<noteq> None \<and> ns = [105, 100], c\<lparr>cur := w @ ?u\<rparr>)" by simp
    moreover have "fails_deep (js_value fuel depth (c\<lparr>cur := w @ ?u\<rparr>))"
      using c last_member number_ends_after [of d "CHR ''}''" t] by (intro deep_valueD [of w]) auto
    ultimately show "fails_deep (js_object_loop (Suc fuel) depth c)" by (rule object_fails)
  qed
next
  case (more_members k ns a b w v d e s ms)
  show ?case unfolding deep_members_def
  proof (intro allI impI)
    fix fuel depth c t
    assume c: "cur c = (k @ a @ CHR '':'' # b @ w @ d @ CHR '','' # e @ s) @ CHR ''}'' # t" "0 < depth" "depth \<le> 16"
      "16 < depth + foldr max (map (\<lambda>m. nesting (snd m)) ((ns, v) # ms)) 0" "counter_ok c"
      "2 * length (k @ a @ CHR '':'' # b @ w @ d @ CHR '','' # e @ s) + 1 \<le> fuel"
    let ?s = "s @ CHR ''}'' # t" and ?raw = "raw_of_members depth [(ns, v)]"
    let ?u = "d @ CHR '','' # e @ ?s"
    have e: "number_ends ?u" using more_members by (intro number_ends_after) auto
    show "fails_deep (js_object_loop (Suc fuel) depth c)"
    proof (cases "16 < depth + nesting v")
      case True
      have "\<not> at_char is_ws (w @ ?u)" using json_text_start [OF more_members(4)] by (intro at_char_ws_append) auto
      with js_name_complete [OF more_members(1) _ more_members(2,3)] c(1)
      have "js_name depth c = (True, depth = 1 \<and> raw_id c \<noteq> None \<and> ns = [105, 100], c\<lparr>cur := w @ ?u\<rparr>)" by simp
      moreover have "fails_deep (js_value fuel depth (c\<lparr>cur := w @ ?u\<rparr>))"
        using c e True more_members by (intro deep_valueD [of w]) auto
      ultimately show ?thesis by (rule object_fails)
    next
      case False
      have "value_ok fuel depth (c\<lparr>cur := w @ ?u\<rparr>) v ?u"
        using c e False more_members(4) json_complete(1) by (intro reads_valueD [of w]) auto
      moreover have "\<not> at_char is_ws ?s" using members_start [OF more_members(7)]
        by (intro at_char_ws_append) (auto simp: is_ws_def)
      ultimately have "js_object_loop (Suc fuel) depth c = js_object_loop fuel depth (advanced (value_count v) ?raw ?s c)"
        using complete_member [OF more_members(1) _ more_members(2,3,4) c(2,5), of ?u fuel] c(1) more_members(5,6)
          js_next_goes_on [of "advanced (value_count v) ?raw ?u c" d e ?s "CHR ''}''"] by simp
      moreover obtain f where "fuel = Suc f" "2 * length s + 1 \<le> f" using c(6) by (cases fuel) auto
      ultimately show ?thesis using more_members(9) False c(2,3,4) by (auto simp: deep_members_def)
    qed
  qed
qed (auto simp: deep_value_def)

subsection \<open>Documents\<close>

lemma whitespace_fields [simp]:
  "cur (js_whitespace c) = dropWhile is_ws (cur c)" "raw_id (js_whitespace c) = raw_id c"
  "too_many_values (js_whitespace c) = too_many_values c"
  by (simp_all add: js_whitespace_def)

lemma document_fuel_ok:
  "\<exists>r. js_value (document_fuel data + extra) 0 (js_whitespace (new_syntax_cursor data raw limit)) = Some r \<and>
     js_value (document_fuel data) 0 (js_whitespace (new_syntax_cursor data raw limit)) = Some r"
proof -
  let ?c = "js_whitespace (new_syntax_cursor data raw limit)"
  have "length (cur ?c) \<le> length data" by (simp add: js_whitespace_def new_syntax_cursor_def length_dropWhile_le)
  then have "js_value (document_fuel data) 0 ?c \<noteq> None"
    by (intro js_fuel_suffices(1)) (simp add: document_fuel_def)
  then show ?thesis using js_value_more_fuel by fastforce
qed

lemma new_cursor_ws:
  "json_ws a \<Longrightarrow> \<not> at_char is_ws s \<Longrightarrow>
   js_whitespace (new_syntax_cursor (a @ s) raw limit) = new_syntax_cursor s raw limit"
  by (simp add: js_whitespace_def new_syntax_cursor_def dropWhile_ws)

lemma document_of_text:
  assumes "json_doc data v" "nesting v \<le> 16"
  shows "fst (json_document data raw limit) = (if limit \<noteq> 0 \<and> limit < value_count v then JsonTooManyValues else JsonValid) \<and>
    raw_id (snd (json_document data raw limit)) = note_value v raw"
proof -
  from assms(1) obtain a w b where d: "data = a @ w @ b" "json_ws a" "json_ws b" "json_text w v" by (auto simp: json_doc_def)
  let ?c = "new_syntax_cursor (w @ b) raw limit"
  have ws: "js_whitespace (new_syntax_cursor data raw limit) = ?c"
    using new_cursor_ws [OF d(2), of "w @ b"] at_char_ws_append [of w b] json_text_start [OF d(4)] d(1) by simp
  have "value_ok (document_fuel data) 0 ?c v b"
    using json_complete(1) [OF d(4)] d(1,3) assms(2) number_ends_ws_only
    by (intro reads_valueD [of w]) (auto simp: new_syntax_cursor_def counter_ok_def document_fuel_def)
  then have "js_value (document_fuel data) 0 ?c = Some (True, advanced (value_count v) (note_value v) b ?c)"
    by (simp add: value_ok_def raw_of_value_def)
  moreover have "dropWhile is_ws b = []" using d(3) by (simp add: list_all_iff)
  moreover have "too_many_values (advanced (value_count v) (note_value v) b ?c) \<longleftrightarrow> limit \<noteq> 0 \<and> limit < value_count v"
    by (simp add: advanced_def count_more_def new_syntax_cursor_def)
  moreover have "raw_id ?c = raw" by (simp add: new_syntax_cursor_def)
  ultimately show ?thesis
    by (simp add: json_document_def json_document_fuel_def ws Let_def)
qed

lemma document_too_deep:
  assumes "json_doc data v" "16 < nesting v"
  shows "fst (json_document data raw limit) = JsonTooDeep"
proof -
  from assms(1) obtain a w b where d: "data = a @ w @ b" "json_ws a" "json_ws b" "json_text w v" by (auto simp: json_doc_def)
  let ?c = "new_syntax_cursor (w @ b) raw limit"
  have ws: "js_whitespace (new_syntax_cursor data raw limit) = ?c"
    using new_cursor_ws [OF d(2), of "w @ b"] at_char_ws_append [of w b] json_text_start [OF d(4)] d(1) by simp
  have "fails_deep (js_value (document_fuel data) 0 ?c)"
    using json_deep(1) [OF d(4)] d(1,3) assms(2) number_ends_ws_only
    by (intro deep_valueD [of w v ?c b]) (auto simp: new_syntax_cursor_def counter_ok_def document_fuel_def)
  then show ?thesis by (auto simp: fails_deep_def json_document_def json_document_fuel_def ws)
qed

lemma document_accepted:
  assumes "fst (json_document data raw limit) = JsonValid \<or> fst (json_document data raw limit) = JsonTooManyValues"
  shows "\<exists>v. json_doc data v \<and> nesting v \<le> 16"
proof -
  let ?c = "js_whitespace (new_syntax_cursor data raw limit)"
  obtain ok c1 where c1: "js_value (document_fuel data) 0 ?c = Some (ok, c1)"
    using document_fuel_ok [of data 0 raw limit] by (metis surj_pair)
  with assms have ok: "ok" "cur (js_whitespace c1) = []"
    by (auto simp: json_document_def json_document_fuel_def Let_def split: if_splits)
  with js_sound(1) c1 have "value_read 0 ?c c1" by simp
  then obtain w v where w: "cur ?c = w @ cur c1" "json_text w v" "nesting v \<le> 16" by (auto simp: value_read_def)
  obtain a where a: "data = a @ cur ?c" "json_ws a"
    using js_whitespace_split [of "new_syntax_cursor data raw limit"] by (auto simp: new_syntax_cursor_def)
  have "json_ws (cur c1)" using ok(2) by (simp add: list_all_iff)
  with a w have "json_doc data v" unfolding json_doc_def by auto
  with w(3) show ?thesis by blast
qed

lemma status_doc: "json_syntax_status data limit = fst (json_document data None limit)"
  by (simp add: json_syntax_status_def)

subsection \<open>The properties\<close>

text \<open>C23: Reading a document always comes to an end: with the fuel the gate is given, or any more than it,
  the recursive reader returns, and with the same result.\<close>

theorem json_reader_terminates:
  "json_document_fuel (document_fuel data + extra) (new_syntax_cursor data raw limit) =
   Some (json_document data raw limit)"
proof -
  obtain r where "js_value (document_fuel data + extra) 0 (js_whitespace (new_syntax_cursor data raw limit)) = Some r"
      "js_value (document_fuel data) 0 (js_whitespace (new_syntax_cursor data raw limit)) = Some r"
    using document_fuel_ok by blast
  then show ?thesis by (simp add: json_document_def json_document_fuel_def)
qed

text \<open>C15: The syntax gate accepts a document if and only if it is a JSON text (RFC 8259, shortest-form UTF-8,
  paired surrogates, no U+0000) of nesting at most 16 with no more values than the limit, and answers "too
  many values" if and only if only the limit is exceeded.\<close>

theorem json_gate_exact:
  "(json_syntax_status data limit = JsonValid \<longleftrightarrow>
      (\<exists>v. json_doc data v \<and> nesting v \<le> 16 \<and> (limit = 0 \<or> value_count v \<le> limit))) \<and>
   (json_syntax_status data limit = JsonTooManyValues \<longleftrightarrow>
      (\<exists>v. json_doc data v \<and> nesting v \<le> 16 \<and> 0 < limit \<and> limit < value_count v))"
proof -
  have "\<exists>v. json_doc data v \<and> nesting v \<le> 16"
    if "json_syntax_status data limit = JsonValid \<or> json_syntax_status data limit = JsonTooManyValues"
    using document_accepted [of data None limit] that by (simp add: status_doc)
  moreover have "json_syntax_status data limit = (if limit \<noteq> 0 \<and> limit < value_count v then JsonTooManyValues else JsonValid)"
    if "json_doc data v" "nesting v \<le> 16" for v
    using document_of_text [OF that, of None limit] by (simp add: status_doc)
  ultimately have iff: "json_syntax_status data limit = JsonValid \<or> json_syntax_status data limit = JsonTooManyValues \<longleftrightarrow>
      (\<exists>v. json_doc data v \<and> nesting v \<le> 16)"
    and status: "\<And>v. json_doc data v \<Longrightarrow> nesting v \<le> 16 \<Longrightarrow>
      json_syntax_status data limit = (if limit \<noteq> 0 \<and> limit < value_count v then JsonTooManyValues else JsonValid)"
    by metis+
  then show ?thesis
  proof (intro conjI iffI)
    assume "json_syntax_status data limit = JsonValid"
    with iff obtain v where "json_doc data v" "nesting v \<le> 16" by auto
    with status [of v] \<open>json_syntax_status data limit = JsonValid\<close>
    show "\<exists>v. json_doc data v \<and> nesting v \<le> 16 \<and> (limit = 0 \<or> value_count v \<le> limit)"
      by (auto split: if_splits)
  next
    assume "json_syntax_status data limit = JsonTooManyValues"
    with iff obtain v where "json_doc data v" "nesting v \<le> 16" by auto
    with status [of v] \<open>json_syntax_status data limit = JsonTooManyValues\<close>
    show "\<exists>v. json_doc data v \<and> nesting v \<le> 16 \<and> 0 < limit \<and> limit < value_count v"
      by (auto split: if_splits)
  next
    assume "\<exists>v. json_doc data v \<and> nesting v \<le> 16 \<and> (limit = 0 \<or> value_count v \<le> limit)"
    then obtain v where "json_doc data v" "nesting v \<le> 16" "\<not> (limit \<noteq> 0 \<and> limit < value_count v)" by auto
    with status [of v] show "json_syntax_status data limit = JsonValid" by simp
  next
    assume "\<exists>v. json_doc data v \<and> nesting v \<le> 16 \<and> 0 < limit \<and> limit < value_count v"
    then obtain v where "json_doc data v" "nesting v \<le> 16" "limit \<noteq> 0 \<and> limit < value_count v" by auto
    with status [of v] show "json_syntax_status data limit = JsonTooManyValues" by simp
  qed
qed

text \<open>A JSON text that nests deeper than 16 is answered "too deep", whatever else is in it and whatever
  the limit on values.\<close>

theorem json_too_deep:
  assumes "json_doc data v" "16 < nesting v"
  shows "json_syntax_status data limit = JsonTooDeep"
  using document_too_deep [OF assms] by (simp add: status_doc)

text \<open>The numeric id that is reported for a document the gate accepts is the one of its top-level object:
  the last member whose decoded name is \<open>id\<close>, however the name is escaped and however deeply other members
  of that name are nested.\<close>

theorem json_numeric_id_exact:
  assumes "json_doc data v" "nesting v \<le> 16"
  shows "json_top_level_numeric_id data =
    (case v of JObject ms \<Rightarrow> fold note_member ms new_raw_number_id | _ \<Rightarrow> new_raw_number_id)"
proof -
  obtain st c where d: "json_document data (Some new_raw_number_id) 0 = (st, c)" by (metis surj_pair)
  with document_of_text [OF assms, of "Some new_raw_number_id" 0]
  show ?thesis by (auto simp: json_top_level_numeric_id_def note_value_def split: json.splits)
qed

subsection \<open>Witnesses\<close>

text \<open>Seventeen nested arrays.\<close>

fun nested_arrays :: "nat \<Rightarrow> json" where
  "nested_arrays 0 = JArray []"
| "nested_arrays (Suc n) = JArray [nested_arrays n]"

lemma nested_text: "json_text (replicate (Suc n) (CHR ''['') @ replicate (Suc n) (CHR '']'')) (nested_arrays n)"
proof (induction n)
  case 0
  show ?case using text_empty_array [of "[]"] by simp
next
  case (Suc n)
  from text_array [OF _ last_element [OF Suc, of "[]"], of "[]"]
  have "json_text (CHR ''['' # (replicate (Suc n) (CHR ''['') @ replicate (Suc n) (CHR '']'')) @ '']'') (nested_arrays (Suc n))"
    by simp
  moreover have "replicate (Suc n) (CHR '']'') @ '']'' = replicate (Suc (Suc n)) (CHR '']'')"
    by (metis replicate_Suc replicate_append_same)
  ultimately show ?case by simp
qed

lemma nested_nesting: "nesting (nested_arrays n) = Suc n"
  by (induction n) auto

theorem json_too_deep_witness:
  "json_syntax_status (replicate 17 (CHR ''['') @ replicate 17 (CHR '']'')) 64 = JsonTooDeep"
proof (rule json_too_deep)
  show "json_doc (replicate 17 (CHR ''['') @ replicate 17 (CHR '']'')) (nested_arrays 16)"
    using nested_text [of 16] unfolding json_doc_def by (fastforce intro: exI [of _ "[]"])
qed (simp add: nested_nesting)

text \<open>\<open>{"id":7}\<close> as a request body.\<close>

definition id_request :: string where
  "id_request = [CHR ''{'', CHR 0x22, CHR ''i'', CHR ''d'', CHR 0x22, CHR '':'', CHR ''7'', CHR ''}'']"

lemma id_request_doc: "json_doc id_request (JObject [([105, 100], JNumber ''7'')])"
proof -
  have n: "json_number ''7''" unfolding json_number_def
    by (intro exI [of _ "[]"] exI [of _ "''7''"])
      (auto simp: json_integer_def digit_row_def is_digit_char_def json_fraction_def json_exponent_def)
  have c: "json_char [c] (code_of c)" if "c = CHR ''i'' \<or> c = CHR ''d''" for c
    using that by (intro plain_char) auto
  have k: "json_string [CHR 0x22, CHR ''i'', CHR ''d'', CHR 0x22] [105, 100]"
    unfolding json_string_def
    using more_chars [OF c [of "CHR ''i''"] more_chars [OF c [of "CHR ''d''"] no_chars]] by force
  from text_object [OF _ last_member [OF k _ _ text_number [OF n]], of "[]" "[]" "[]" "[]"]
  have "json_text id_request (JObject [([105, 100], JNumber ''7'')])" by (simp add: id_request_def)
  then show ?thesis unfolding json_doc_def by (fastforce intro: exI [of _ "[]"])
qed

lemma id_request_canonical: "json_canonical_safe_integer ''7'' = Some 7"
  by code_simp

theorem json_numeric_id_exact_witness:
  "json_top_level_numeric_id id_request = \<lparr>raw_value = 7, raw_status = RawValidInteger\<rparr>"
  using json_numeric_id_exact [OF id_request_doc] id_request_canonical
  by (simp add: note_member_def raw_id_of_token_def at_char_def is_digit_char_def)

subsection \<open>Numeric ids are echoed exactly\<close>

text \<open>An integer as it is printed back.\<close>

definition int_text :: "int \<Rightarrow> string" where
  "int_text n = (if n < 0 then CHR ''-'' # to_decimal (nat (- n)) else to_decimal (nat n))"

lemma safe_max: "unat kJsonSafeIntegerMax = 9007199254740991"
  by (simp add: kJsonSafeIntegerMax_def)

lemma magnitude_step:
  assumes "is_digit_char p"
  shows "(kJsonSafeIntegerMax - of_nat (code_of p - 48)) div 10 < m \<longleftrightarrow>
      9007199254740991 < unat m * 10 + (code_of p - 48)"
    and "unat m * 10 + (code_of p - 48) \<le> 9007199254740991 \<Longrightarrow>
      unat (m * 10 + of_nat (code_of p - 48)) = unat m * 10 + (code_of p - 48)"
proof -
  let ?d = "code_of p - 48"
  have d: "?d < 10" using digit_less [OF assms] .
  then have ud: "unat (of_nat ?d :: u64) = ?d" by (subst unat_of_nat) simp
  have "of_nat ?d \<le> kJsonSafeIntegerMax" unfolding word_le_nat_alt ud safe_max using d by simp
  then have "unat (kJsonSafeIntegerMax - of_nat ?d) = 9007199254740991 - ?d" by (simp only: unat_sub ud safe_max)
  then have "(kJsonSafeIntegerMax - of_nat ?d) div 10 < m \<longleftrightarrow> (9007199254740991 - ?d) div 10 < unat m"
    by (simp only: word_less_nat_alt unat_div) simp
  also have "\<dots> \<longleftrightarrow> 9007199254740991 - ?d < unat m * 10" by (simp only: div_less_iff_less_mult zero_less_numeral)
  also have "\<dots> \<longleftrightarrow> 9007199254740991 < unat m * 10 + ?d" using d by linarith
  finally show "(kJsonSafeIntegerMax - of_nat ?d) div 10 < m \<longleftrightarrow> 9007199254740991 < unat m * 10 + ?d" .
  assume le: "unat m * 10 + ?d \<le> 9007199254740991"
  have "unat m * unat (10 :: u64) < 2 ^ LENGTH(64)" using le by simp
  then have "unat (m * 10) = unat m * 10" by (simp only: unat_mult_lem [THEN iffD1]) simp
  moreover from this le have "unat (m * 10) + unat (of_nat ?d :: u64) < 2 ^ LENGTH(64)" unfolding ud by simp
  ultimately show "unat (m * 10 + of_nat ?d) = unat m * 10 + ?d" by (metis unat_add_lem ud)
qed

lemma digits_grow: "v \<le> foldl (\<lambda>v c. v * 10 + (code_of c - 48)) v ps"
proof (induction ps arbitrary: v)
  case (Cons p ps)
  from Cons [of "v * 10 + (code_of p - 48)"] show ?case by simp
qed simp

lemma json_magnitude_exact:
  "unat m \<le> 9007199254740991 \<Longrightarrow>
   map_option unat (json_magnitude ps m) =
     (let v = foldl (\<lambda>v c. v * 10 + (code_of c - 48)) (unat m) ps in
      if list_all is_digit_char ps \<and> v \<le> 9007199254740991 then Some v else None)"
proof (induction ps m rule: json_magnitude.induct)
  case (1 m)
  then show ?case by simp
next
  case (2 p ps m)
  show ?case
  proof (cases "is_digit_char p")
    case True
    then have p: "\<not> (code_of p < 48 \<or> 57 < code_of p)" by (auto simp: is_digit_char_def)
    show ?thesis
    proof (cases "9007199254740991 < unat m * 10 + (code_of p - 48)")
      case big: True
      with digits_grow [of "unat m * 10 + (code_of p - 48)" ps] p magnitude_step(1) [OF True, of m]
      show ?thesis by (simp add: Let_def del: of_nat_diff)
    next
      case False
      with 2(1) [OF p refl] p True magnitude_step [OF True, of m] show ?thesis by (simp add: Let_def del: of_nat_diff)
    qed
  qed (auto simp: is_digit_char_def)
qed

lemma magnitude_digits:
  "map_option unat (json_magnitude ds 0) =
     (if list_all is_digit_char ds \<and> dec_value ds \<le> 9007199254740991 then Some (dec_value ds) else None)"
  using json_magnitude_exact [of 0 ds] by (simp add: dec_value_def Let_def)

lemma minus_not_digit: "\<not> is_digit_char (CHR ''-'')"
  by (simp add: is_digit_char_def)

lemma canonical_hd: "canonical_digits ds \<Longrightarrow> ds \<noteq> [] \<and> is_digit_char (hd ds) \<and> hd ds \<noteq> CHR ''-''"
  using minus_not_digit by (cases ds) (auto simp: canonical_digits_def)

text \<open>What the parser does after the sign.\<close>

definition magnitude_of :: "string \<Rightarrow> nat option" where
  "magnitude_of ds = (if canonical_digits ds \<and> dec_value ds \<le> 9007199254740991 then Some (dec_value ds) else None)"

lemma magnitude_of_eq:
  "(if ds = [] then None else if hd ds = CHR ''0'' \<and> tl ds \<noteq> [] then None else map_option unat (json_magnitude ds 0)) =
   magnitude_of ds"
  unfolding magnitude_digits magnitude_of_def canonical_digits_def
  by (cases ds) (auto simp: Suc_le_eq)

lemma canonical_integer_eq:
  "json_canonical_safe_integer t =
     (if t \<noteq> [] \<and> hd t = CHR ''-'' then
        (case magnitude_of (tl t) of Some m \<Rightarrow> if m = 0 then None else Some (- int m) | None \<Rightarrow> None)
      else map_option int (magnitude_of t))"
proof -
  have u: "uint (x :: u64) = int (unat x)" for x by simp
  have z: "(x :: u64) = 0 \<longleftrightarrow> unat x = 0" for x by (simp add: unat_eq_0)
  show ?thesis
    unfolding json_canonical_safe_integer_def Let_def u z
    by (subst (1 2) magnitude_of_eq [symmetric]) (auto split: option.splits)
qed

text \<open>A numeric id is accepted exactly when it is the canonical decimal text of an integer that a double
  holds exactly, and its value is that integer, so that printing it gives the text of the request back: no
  leading zero, no plus sign, no negative zero, no exponent.\<close>

theorem json_canonical_integer_exact:
  "json_canonical_safe_integer t = Some n \<longleftrightarrow> \<bar>n\<bar> \<le> 9007199254740991 \<and> t = int_text n"
proof
  assume r: "json_canonical_safe_integer t = Some n"
  show "\<bar>n\<bar> \<le> 9007199254740991 \<and> t = int_text n"
  proof (cases "t \<noteq> [] \<and> hd t = CHR ''-''")
    case True
    with r obtain m where m: "magnitude_of (tl t) = Some m" "m \<noteq> 0" "n = - int m"
      by (auto simp: canonical_integer_eq split: option.splits if_splits)
    then have "tl t = to_decimal m" "m \<le> 9007199254740991"
      using to_decimal_dec_value [of "tl t"] by (auto simp: magnitude_of_def split: if_splits)
    moreover have "t = CHR ''-'' # tl t" using True by (metis list.collapse)
    ultimately show ?thesis using m by (auto simp: int_text_def)
  next
    case False
    with r obtain m where m: "magnitude_of t = Some m" "n = int m" by (auto simp: canonical_integer_eq)
    then show ?thesis using to_decimal_dec_value [of t] by (auto simp: magnitude_of_def int_text_def split: if_splits)
  qed
next
  assume n: "\<bar>n\<bar> \<le> 9007199254740991 \<and> t = int_text n"
  have m: "magnitude_of (to_decimal k) = Some k" if "k \<le> 9007199254740991" for k
    using that canonical_to_decimal by (simp add: magnitude_of_def)
  show "json_canonical_safe_integer t = Some n"
  proof (cases "n < 0")
    case True
    with n m [of "nat (- n)"] show ?thesis by (auto simp: canonical_integer_eq int_text_def)
  next
    case False
    with n m [of "nat n"] canonical_hd [OF canonical_to_decimal, of "nat n"] show ?thesis
      by (auto simp: canonical_integer_eq int_text_def)
  qed
qed

end
