(* ===== verification/OtaContract.thy ===== *)
theory OtaContract
  imports Texts
begin

text \<open>
  The contract of the over-the-air update (\<open>logic/ota_contract.hpp\<close>): the grammar of version names and
  their order, which versions a device may install from a feed or by upload, the addresses of the feeds,
  the update channel with its revision, the identity of an offer, and the gate of the bounded manifest
  read. A buffer with its size is a text and a number; a function that fills a buffer returns the text
  without its NUL, or None where the code returns false.
\<close>

definition kOtaVersionMaxBytes :: nat where "kOtaVersionMaxBytes = 31"
definition kOtaManifestMaxBytes :: nat where "kOtaManifestMaxBytes = 8192"

definition ota_https_url :: "string \<Rightarrow> bool" where
  "ota_https_url url \<longleftrightarrow> 8 < length url \<and> take 8 url = ''https://''"

datatype ota_start_result = OtaStarted | OtaBusy | OtaPendingVerification | OtaUnavailable | OtaInternalError
  | OtaNoMemory | OtaOfferChanged

definition ota_start_http_status :: "ota_start_result \<Rightarrow> int" where
  "ota_start_http_status r = (case r of OtaStarted \<Rightarrow> 200 | OtaBusy \<Rightarrow> 409 | OtaPendingVerification \<Rightarrow> 409
     | OtaOfferChanged \<Rightarrow> 409 | OtaInternalError \<Rightarrow> 500 | OtaNoMemory \<Rightarrow> 503 | OtaUnavailable \<Rightarrow> 503)"

subsection \<open>Version names\<close>

record ota_version_parts =
  ov_core :: "string list"
  ov_suffix :: string

definition ota_ascii_digit :: "char \<Rightarrow> bool" where
  "ota_ascii_digit c \<longleftrightarrow> is_digit_char c"

definition ota_suffix_char :: "char \<Rightarrow> bool" where
  "ota_suffix_char c \<longleftrightarrow> ota_ascii_digit c \<or> (65 \<le> code_of c \<and> code_of c \<le> 90) \<or>
     (97 \<le> code_of c \<and> code_of c \<le> 122) \<or> c = CHR ''.'' \<or> c = CHR ''-''"

text \<open>One number of the core: a zero that no digit follows, or digits up to the first other character.\<close>

definition ota_component :: "string \<Rightarrow> (string \<times> string) option" where
  "ota_component s = (case s of
       [] \<Rightarrow> None
     | c # cs \<Rightarrow>
         if \<not> ota_ascii_digit c then None
         else if c = CHR ''0'' then
           (if cs \<noteq> [] \<and> ota_ascii_digit (hd cs) then None else Some ([c], cs))
         else Some (takeWhile ota_ascii_digit s, dropWhile ota_ascii_digit s))"

text \<open>The loop over the \<open>n\<close> numbers left, a dot between two of them.\<close>

fun ota_core :: "nat \<Rightarrow> string \<Rightarrow> (string list \<times> string) option" where
  "ota_core 0 s = Some ([], s)"
| "ota_core (Suc n) s = (case ota_component s of
       None \<Rightarrow> None
     | Some (digits, rest) \<Rightarrow>
         if n = 0 then Some ([digits], rest)
         else if rest = [] \<or> hd rest \<noteq> CHR ''.'' then None
         else (case ota_core n (tl rest) of
             None \<Rightarrow> None
           | Some (others, rest') \<Rightarrow> Some (digits # others, rest')))"

definition parse_ota_version :: "string \<Rightarrow> ota_version_parts option" where
  "parse_ota_version input =
     (if input = [] \<or> kOtaVersionMaxBytes < length input then None
      else case ota_core 3 input of
          None \<Rightarrow> None
        | Some (core, rest) \<Rightarrow>
            if rest = [] then Some \<lparr>ov_core = core, ov_suffix = []\<rparr>
            else if hd rest \<noteq> CHR ''-'' \<or> tl rest = [] then None
            else if list_all ota_suffix_char (tl rest) then Some \<lparr>ov_core = core, ov_suffix = tl rest\<rparr>
            else None)"

definition canonical_ota_version :: "string \<Rightarrow> bool" where
  "canonical_ota_version input \<longleftrightarrow> parse_ota_version input \<noteq> None"

text \<open>The digit loops of the numbers in names and queries; a value that is no number is 0.\<close>

fun digits_value :: "u32 \<Rightarrow> string \<Rightarrow> u32 option" where
  "digits_value v [] = Some v"
| "digits_value v (c # cs) =
     (if \<not> ota_ascii_digit c then None else digits_value (v * 10 + of_nat (code_of c - 48)) cs)"

definition parse_pr_query :: "string \<Rightarrow> u32" where
  "parse_pr_query q =
     (if q = [] \<or> 7 < length q then 0 else if hd q = CHR ''0'' then 0
      else case digits_value 0 q of None \<Rightarrow> 0 | Some v \<Rightarrow> v)"

definition parse_pr_suffix :: "string \<Rightarrow> u32" where
  "parse_pr_suffix suffix =
     (if length suffix < 4 \<or> take 3 suffix \<noteq> ''PR-'' then 0
      else let digits = drop 3 suffix in
        if digits = [] \<or> 7 < length digits then 0 else if hd digits = CHR ''0'' then 0
        else case digits_value 0 digits of None \<Rightarrow> 0 | Some v \<Rightarrow> v)"

definition parse_version_pr :: "string \<Rightarrow> u32" where
  "parse_version_pr version = (case parse_ota_version version of
       None \<Rightarrow> 0 | Some parts \<Rightarrow> parse_pr_suffix (ov_suffix parts))"

text \<open>\<open>int\<close> is 32 bits; nine digits never overflow it. None is the \<open>-1\<close> of the code.\<close>

definition parse_dev_suffix :: "string \<Rightarrow> u32 option" where
  "parse_dev_suffix suffix =
     (if suffix = ''dev'' then Some 0
      else if length suffix < 5 \<or> take 4 suffix \<noteq> ''dev.'' then None
      else let digits = drop 4 suffix in
        if digits = [] \<or> 9 < length digits then None else digits_value 0 digits)"

definition ota_version_is_dev :: "string \<Rightarrow> bool" where
  "ota_version_is_dev v = (case parse_ota_version v of
       None \<Rightarrow> False | Some parts \<Rightarrow> parse_dev_suffix (ov_suffix parts) \<noteq> None)"

subsection \<open>Query parameters\<close>

record ota_query_param =
  qp_present :: bool
  qp_valid :: bool
  qp_value :: string

definition no_query_param :: ota_query_param where
  "no_query_param = \<lparr>qp_present = False, qp_valid = True, qp_value = []\<rparr>"

definition query_upper_to_lower :: "char \<Rightarrow> char" where
  "query_upper_to_lower c = (if 65 \<le> code_of c \<and> code_of c \<le> 90 then char_of (code_of c + 32) else c)"

definition query_item_match :: "string \<Rightarrow> string \<Rightarrow> ota_query_param option" where
  "query_item_match key item =
     (let equals = find_char (CHR ''='') item;
          name = (case equals of None \<Rightarrow> item | Some e \<Rightarrow> take e item) in
      if map query_upper_to_lower name = key then
        Some \<lparr>qp_present = True, qp_valid = (equals \<noteq> None),
              qp_value = (case equals of None \<Rightarrow> [] | Some e \<Rightarrow> drop (e + 1) item)\<rparr>
      else None)"

function ota_query_parameter :: "string \<Rightarrow> string \<Rightarrow> ota_query_param" where
  "ota_query_parameter query key =
     (if query = [] then no_query_param
      else let amp = find_char (CHR ''&'') query;
               item = (case amp of None \<Rightarrow> query | Some a \<Rightarrow> take a query) in
        case query_item_match key item of
          Some p \<Rightarrow> p
        | None \<Rightarrow> (case amp of None \<Rightarrow> no_query_param
            | Some a \<Rightarrow> ota_query_parameter (drop (a + 1) query) key))"
  by pat_completeness auto
termination
  by (relation "measure (\<lambda>(q, k). length q)") auto

declare ota_query_parameter.simps [simp del]

text \<open>The offer must be named once: the second one ends the scan as invalid.\<close>

function offer_query_loop :: "string \<Rightarrow> ota_query_param \<Rightarrow> ota_query_param" where
  "offer_query_loop query found =
     (if query = [] then found
      else let amp = find_char (CHR ''&'') query;
               item = ota_query_parameter (case amp of None \<Rightarrow> query | Some a \<Rightarrow> take a query) ''offer'' in
        if qp_present item \<and> qp_present found then found\<lparr>qp_valid := False\<rparr>
        else let found = (if qp_present item then item else found) in
          case amp of None \<Rightarrow> found | Some a \<Rightarrow> offer_query_loop (drop (a + 1) query) found)"
  by pat_completeness auto
termination
  by (relation "measure (\<lambda>(q, f). length q)") auto

declare offer_query_loop.simps [simp del]

definition ota_offer_query_parameter :: "string \<Rightarrow> ota_query_param" where
  "ota_offer_query_parameter query = offer_query_loop query no_query_param"

subsection \<open>The addresses of the feeds\<close>

text \<open>The digits of a number, the last one first, as the loop stores them before it turns them round.\<close>

fun reversed_digits :: "nat \<Rightarrow> string" where
  "reversed_digits n = (if n = 0 then [] else char_of (48 + n mod 10) # reversed_digits (n div 10))"

declare reversed_digits.simps [simp del]

definition feed_prefix :: string where "feed_prefix = ''https://0bu.github.io/tesla-key-esp32/''"

definition format_pr_manifest_url :: "u32 \<Rightarrow> nat \<Rightarrow> string option" where
  "format_pr_manifest_url pr_number buf_len =
     (if pr_number = 0 \<or> 9999999 < pr_number then None
      else let num = rev (reversed_digits (unat pr_number));
               url = feed_prefix @ ''PR/'' @ num @ ''/manifest.json'' in
        if buf_len < length url + 1 then None else Some url)"

definition chip_suffix_ok :: "string \<Rightarrow> bool" where
  "chip_suffix_ok s \<longleftrightarrow> s = [] \<or> s = ''-s3'' \<or> s = ''-c3'' \<or> s = ''-c6''"

definition format_pr_firmware_url :: "u32 \<Rightarrow> string \<Rightarrow> nat \<Rightarrow> string option" where
  "format_pr_firmware_url pr_number chip_suffix buf_len =
     (if pr_number = 0 \<or> 9999999 < pr_number then None
      else if \<not> chip_suffix_ok chip_suffix then None
      else let num = rev (reversed_digits (unat pr_number));
               url = feed_prefix @ ''PR/'' @ num @ ''/tesla-key-esp32'' @ chip_suffix @ ''.bin'' in
        if buf_len < length url + 1 then None else Some url)"

definition format_dev_manifest_url :: "nat \<Rightarrow> string option" where
  "format_dev_manifest_url buf_len =
     (let url = feed_prefix @ ''dev/manifest.json'' in if buf_len < length url + 1 then None else Some url)"

definition format_dev_firmware_url :: "string \<Rightarrow> nat \<Rightarrow> string option" where
  "format_dev_firmware_url chip_suffix buf_len =
     (if \<not> chip_suffix_ok chip_suffix then None
      else let url = feed_prefix @ ''dev/tesla-key-esp32'' @ chip_suffix @ ''.bin'' in
        if buf_len < length url + 1 then None else Some url)"

datatype ota_channel = Release | Dev

definition resolve_manifest_url_into :: "u32 \<Rightarrow> ota_channel \<Rightarrow> string \<Rightarrow> string" where
  "resolve_manifest_url_into pr_number channel default_manifest_url =
     (case (if 0 < pr_number then format_pr_manifest_url pr_number 80 else None) of
        Some url \<Rightarrow> url
      | None \<Rightarrow> (case (if channel = Dev then format_dev_manifest_url 80 else None) of
          Some url \<Rightarrow> url | None \<Rightarrow> default_manifest_url))"

subsection \<open>Channel and offer\<close>

definition kOtaChannelExhausted :: u32 where "kOtaChannelExhausted = 0x80000000"
definition kOtaChannelRevisionMask :: u32 where "kOtaChannelRevisionMask = 0x7ffffffe"

definition ota_channel_in_state :: "u32 \<Rightarrow> ota_channel" where
  "ota_channel_in_state state = (if state AND 1 \<noteq> 0 then Dev else Release)"

definition ota_changed_channel_state :: "u32 \<Rightarrow> ota_channel \<Rightarrow> u32" where
  "ota_changed_channel_state state channel =
     (if ota_channel_in_state state = channel then state
      else let revision = state AND kOtaChannelRevisionMask;
               nxt = (if state AND kOtaChannelExhausted \<noteq> 0 \<or> revision = kOtaChannelRevisionMask
                       then revision OR kOtaChannelExhausted else revision + 2) in
        nxt OR (if channel = Dev then 1 else 0))"

definition ota_offer_current :: "u32 \<Rightarrow> u32 \<Rightarrow> u32 \<Rightarrow> bool \<Rightarrow> bool" where
  "ota_offer_current captured current generation available \<longleftrightarrow>
     available \<and> generation \<noteq> 0 \<and> generation \<noteq> - 1 \<and> \<not> (current AND kOtaChannelExhausted \<noteq> 0) \<and>
     captured = current"

definition ota_next_offer_generation :: "u32 \<Rightarrow> u32" where
  "ota_next_offer_generation previous = (if - 1 - 1 \<le> previous then - 1 else previous + 1)"

definition ota_hex_digit :: "char \<Rightarrow> nat option" where
  "ota_hex_digit c = (if is_digit_char c then Some (code_of c - 48)
     else if 97 \<le> code_of c \<and> code_of c \<le> 102 then Some (code_of c - 97 + 10) else None)"

text \<open>The generation is read from the last eight digits.\<close>

fun offer_id_loop :: "nat \<Rightarrow> u32 \<Rightarrow> string \<Rightarrow> u32 option" where
  "offer_id_loop i generation [] = Some generation"
| "offer_id_loop i generation (c # cs) = (case ota_hex_digit c of
       None \<Rightarrow> None
     | Some d \<Rightarrow> offer_id_loop (i + 1)
         (if 16 \<le> i then push_bit 4 generation OR of_nat d else generation) cs)"

definition ota_offer_id_valid :: "string \<Rightarrow> bool" where
  "ota_offer_id_valid offer =
     (if length offer \<noteq> 24 then False
      else case offer_id_loop 0 0 offer of None \<Rightarrow> False | Some g \<Rightarrow> g \<noteq> 0 \<and> g \<noteq> - 1)"

definition lower_hex_digit :: "nat \<Rightarrow> char" where
  "lower_hex_digit d = ''0123456789abcdef'' ! d"

definition format_ota_offer_id :: "u64 \<Rightarrow> u32 \<Rightarrow> string option" where
  "format_ota_offer_id boot generation =
     (if boot = 0 \<or> generation = 0 \<or> generation = - 1 then None
      else Some (map (\<lambda>i. lower_hex_digit (unat (drop_bit ((15 - i) * 4) boot AND 15))) [0..<16] @
                 map (\<lambda>i. lower_hex_digit (unat (drop_bit ((7 - i) * 4) generation AND 15))) [0..<8]))"

fun sha256_loop :: "string \<Rightarrow> bytes option" where
  "sha256_loop (h # l # cs) = (case (ota_hex_digit h, ota_hex_digit l) of
       (Some high, Some low) \<Rightarrow> map_option (\<lambda>bs. of_nat (high * 16 + low) # bs) (sha256_loop cs)
     | _ \<Rightarrow> None)"
| "sha256_loop cs = Some []"

definition parse_ota_sha256 :: "string \<Rightarrow> bytes option" where
  "parse_ota_sha256 text = (if length text \<noteq> 64 then None else sha256_loop text)"

definition ota_channel_name :: "ota_channel \<Rightarrow> string" where
  "ota_channel_name c = (if c = Dev then ''dev'' else ''release'')"

definition kOtaUploadMaxBytes :: nat where "kOtaUploadMaxBytes = 0x1f0000"

definition ota_upload_admissible :: "ota_channel \<Rightarrow> nat \<Rightarrow> string \<Rightarrow> bool" where
  "ota_upload_admissible channel bytes content_type \<longleftrightarrow>
     channel = Dev \<and> 512 \<le> bytes \<and> bytes \<le> kOtaUploadMaxBytes \<and> content_type = ''application/octet-stream''"

definition ota_channel_valid :: "string \<Rightarrow> bool" where
  "ota_channel_valid s \<longleftrightarrow> s = ''release'' \<or> s = ''dev''"

definition ota_channel_parse :: "string \<Rightarrow> ota_channel \<Rightarrow> ota_channel" where
  "ota_channel_parse s def = (if s = ''dev'' then Dev else if s = ''release'' then Release else def)"

definition ota_channel_to_int :: "ota_channel \<Rightarrow> int" where
  "ota_channel_to_int c = (if c = Dev then 1 else 0)"

definition ota_channel_from_int :: "int \<Rightarrow> ota_channel" where
  "ota_channel_from_int v = (if v = 1 then Dev else Release)"

definition default_ota_channel_for_version :: "string \<Rightarrow> ota_channel" where
  "default_ota_channel_for_version v = (if ota_version_is_dev v then Dev else Release)"

subsection \<open>The order of versions and what may be installed\<close>

datatype ota_version_order = OvInvalid | OvOlder | OvEqual | OvNewer

text \<open>\<open>string_view::compare\<close>, by its sign.\<close>

fun text_compare :: "string \<Rightarrow> string \<Rightarrow> int" where
  "text_compare [] [] = 0"
| "text_compare [] (b # bs) = -1"
| "text_compare (a # as) [] = 1"
| "text_compare (a # as) (b # bs) =
     (if code_of a < code_of b then -1 else if code_of b < code_of a then 1 else text_compare as bs)"

fun compare_cores :: "string list \<Rightarrow> string list \<Rightarrow> ota_version_order" where
  "compare_cores (lhs # ls) (rhs # rs) =
     (if length lhs \<noteq> length rhs then (if length rhs < length lhs then OvNewer else OvOlder)
      else if text_compare lhs rhs \<noteq> 0 then (if 0 < text_compare lhs rhs then OvNewer else OvOlder)
      else compare_cores ls rs)"
| "compare_cores ls rs = OvEqual"

definition compare_ota_versions :: "string \<Rightarrow> string \<Rightarrow> ota_version_order" where
  "compare_ota_versions candidate current = (case (parse_ota_version candidate, parse_ota_version current) of
       (Some c, Some r) \<Rightarrow> compare_cores (ov_core c) (ov_core r)
     | _ \<Rightarrow> OvInvalid)"

definition ota_upload_version_allowed :: "string \<Rightarrow> string \<Rightarrow> ota_channel \<Rightarrow> bool" where
  "ota_upload_version_allowed candidate current channel \<longleftrightarrow>
     channel = Dev \<and> (compare_ota_versions candidate current = OvEqual \<or>
                      compare_ota_versions candidate current = OvNewer)"

definition is_ota_update_available :: "string \<Rightarrow> string \<Rightarrow> u32 \<Rightarrow> ota_channel \<Rightarrow> bool" where
  "is_ota_update_available candidate current target_pr channel =
     (case (parse_ota_version candidate, parse_ota_version current) of
        (Some cand, Some cur) \<Rightarrow>
          let order = compare_ota_versions candidate current in
          if 0 < target_pr then
            (if parse_pr_suffix (ov_suffix cand) \<noteq> target_pr then False
             else if order = OvInvalid \<or> order = OvOlder then False
             else True)
          else if order = OvInvalid then False
          else if channel = Release then
            (if ov_suffix cand \<noteq> [] then False
             else if parse_dev_suffix (ov_suffix cur) \<noteq> None then True
             else if order = OvNewer then True
             else if order = OvEqual then ov_suffix cur \<noteq> []
             else False)
          else (case parse_dev_suffix (ov_suffix cand) of
              None \<Rightarrow> False
            | Some cand_dev \<Rightarrow>
                if order = OvNewer then True
                else if order = OvEqual then
                  (case parse_dev_suffix (ov_suffix cur) of None \<Rightarrow> True | Some curr_dev \<Rightarrow> curr_dev < cand_dev)
                else False)
      | _ \<Rightarrow> False)"

definition bounded_c_string_view :: "string \<Rightarrow> string" where
  "bounded_c_string_view value = takeWhile (\<lambda>c. c \<noteq> CHR 0x00) value"

subsection \<open>The gate of a bounded body\<close>

datatype body_read_result = BodyContinue | BodyComplete | BodyReject

record body_gate =
  bg_content_length :: int
  bg_chunked :: bool
  bg_limit :: nat
  bg_received :: nat
  bg_valid :: bool
  bg_finished :: bool

definition new_body_gate :: "int \<Rightarrow> bool \<Rightarrow> nat \<Rightarrow> body_gate" where
  "new_body_gate content_length chunked limit =
     \<lparr>bg_content_length = content_length, bg_chunked = chunked, bg_limit = limit, bg_received = 0,
      bg_valid = (limit \<noteq> 0 \<and> 0 \<le> content_length \<and>
        (chunked \<or> (0 < content_length \<and> content_length \<le> int limit))),
      bg_finished = False\<rparr>"

definition next_read_size :: "nat \<Rightarrow> body_gate \<Rightarrow> nat" where
  "next_read_size buffer_size g =
     (if \<not> bg_valid g \<or> bg_finished g \<or> buffer_size = 0 \<or> bg_limit g < bg_received g then 0
      else let remaining_with_probe = (bg_limit g - bg_received g) + 1 in
        if buffer_size < remaining_with_probe then buffer_size else remaining_with_probe)"

definition exact_fixed_length :: "body_gate \<Rightarrow> bool" where
  "exact_fixed_length g \<longleftrightarrow> bg_chunked g \<or> int (bg_received g) = bg_content_length g"

definition bg_reject :: "body_gate \<Rightarrow> body_read_result \<times> body_gate" where
  "bg_reject g = (BodyReject, g\<lparr>bg_valid := False, bg_finished := True\<rparr>)"

definition accept_read :: "int \<Rightarrow> bool \<Rightarrow> body_gate \<Rightarrow> body_read_result \<times> body_gate" where
  "accept_read read_result complete g =
     (if \<not> bg_valid g \<or> bg_finished g \<or> read_result < 0 then bg_reject g
      else if read_result = 0 then
        (if \<not> complete \<or> bg_received g = 0 \<or> \<not> exact_fixed_length g then bg_reject g
         else (BodyComplete, g\<lparr>bg_finished := True\<rparr>))
      else let count = nat read_result in
        if bg_limit g - bg_received g < count then bg_reject g
        else let g = g\<lparr>bg_received := bg_received g + count\<rparr> in
          if \<not> bg_chunked g \<and> bg_content_length g < int (bg_received g) then bg_reject g
          else if complete then
            (if \<not> exact_fixed_length g then bg_reject g else (BodyComplete, g\<lparr>bg_finished := True\<rparr>))
          else (BodyContinue, g))"

end
