(* ===== verification/OtaProps.thy ===== *)
theory OtaProps
  imports OtaContract
begin

text \<open>
  What the update contract guarantees: version names are exactly the three canonical numbers with an
  optional suffix and are ordered by those numbers, whatever their size; what a feed or an upload may
  install is characterized over the numbers; an offer never becomes current again after a change of the
  channel; a body is complete only with all of its bytes.
\<close>

subsection \<open>Numbers of a version\<close>

lemma dec_value_Cons: "dec_value (c # cs) = (code_of c - 48) * 10 ^ length cs + dec_value cs"
proof (induction cs rule: rev_induct)
  case (snoc x xs)
  have "dec_value (c # xs @ [x]) = dec_value (c # xs) * 10 + (code_of x - 48)"
    using dec_value_simps(2) [of "c # xs" x] by simp
  with snoc show ?case by (simp add: algebra_simps)
qed (simp add: dec_value_def)

lemma dec_value_bound: "list_all is_digit_char s \<Longrightarrow> dec_value s < 10 ^ length s"
proof (induction s)
  case (Cons c cs)
  from Cons.prems digit_less [of c] have "code_of c - 48 \<le> 9" by simp
  then have m: "(code_of c - 48) * 10 ^ length cs \<le> 9 * 10 ^ length cs" by (rule mult_le_mono1)
  from Cons have "dec_value cs < 10 ^ length cs" by simp
  with m have "dec_value (c # cs) < 10 * 10 ^ length cs" unfolding dec_value_Cons by linarith
  then show ?case by simp
qed simp

lemma dec_value_lower:
  assumes "canonical_digits s" "s \<noteq> ''0''"
  shows "10 ^ (length s - 1) \<le> dec_value s"
proof -
  from assms obtain c cs where s: "s = c # cs" "is_digit_char c" "c \<noteq> CHR ''0''"
    by (cases s) (auto simp: canonical_digits_def)
  then have "1 \<le> code_of c - 48" using digit_zero [of c] by simp
  then have "1 * 10 ^ length cs \<le> (code_of c - 48) * 10 ^ length cs" by (rule mult_le_mono1)
  then have "10 ^ length cs \<le> dec_value (c # cs)" unfolding dec_value_Cons by linarith
  with s show ?thesis by simp
qed

lemma longer_is_greater:
  assumes "canonical_digits a" "canonical_digits b" "length a < length b"
  shows "dec_value a < dec_value b"
proof -
  have "b \<noteq> ''0''" using assms by (auto simp: canonical_digits_def)
  then have "10 ^ (length b - 1) \<le> dec_value b" using assms(2) by (rule dec_value_lower [rotated])
  moreover have "dec_value a < 10 ^ length a" using assms(1) by (simp add: dec_value_bound canonical_digits_def)
  moreover have "(10 :: nat) ^ length a \<le> 10 ^ (length b - 1)" using assms(3) by (intro power_increasing) auto
  ultimately show ?thesis by linarith
qed

lemma text_compare_digits:
  "length a = length b \<Longrightarrow> list_all is_digit_char a \<Longrightarrow> list_all is_digit_char b \<Longrightarrow>
   text_compare a b = (if dec_value a < dec_value b then -1 else if dec_value b < dec_value a then 1 else 0)"
proof (induction a b rule: text_compare.induct)
  case (4 a as b bs)
  let ?p = "10 ^ length as :: nat"
  have l: "length bs = length as" using 4 by simp
  have lt: "dec_value as < ?p" "dec_value bs < ?p"
    using 4 dec_value_bound [of as] dec_value_bound [of bs] by auto
  have dig: "code_of x < code_of y \<longleftrightarrow> code_of x - 48 < code_of y - 48"
    if "is_digit_char x" "is_digit_char y" for x y
    using that by (auto simp: is_digit_char_def)
  have step: "dec_value (x # xs) < dec_value (y # ys)"
    if "is_digit_char x" "is_digit_char y" "code_of x < code_of y" "length xs = length as" "length ys = length as"
      "dec_value xs < ?p" for x y xs ys
  proof -
    from that dig [of x y] have "Suc (code_of x - 48) \<le> code_of y - 48" by simp
    then have "Suc (code_of x - 48) * ?p \<le> (code_of y - 48) * ?p" by (rule mult_le_mono1)
    with that show ?thesis by (simp add: dec_value_Cons)
  qed
  consider "code_of a < code_of b" | "code_of b < code_of a" | "a = b"
    by (metis linorder_neqE_nat of_char_eq_iff)
  then show ?case
  proof cases
    case 1
    with 4 l lt step [of a b as bs] show ?thesis by simp
  next
    case 2
    with 4 l lt step [of b a bs as] show ?thesis by simp
  next
    case 3
    with 4 l show ?thesis by (simp add: dec_value_Cons)
  qed
qed auto

definition nat_order :: "nat \<Rightarrow> nat \<Rightarrow> ota_version_order" where
  "nat_order a b = (if a < b then OvOlder else if b < a then OvNewer else OvEqual)"

lemma compare_component:
  assumes "canonical_digits a" "canonical_digits b"
  shows "compare_cores (a # as) (b # bs) =
    (if nat_order (dec_value a) (dec_value b) = OvEqual then compare_cores as bs
     else nat_order (dec_value a) (dec_value b))"
proof (cases "length a" "length b" rule: linorder_cases)
  case equal
  with text_compare_digits [of a b] assms show ?thesis by (simp add: nat_order_def canonical_digits_def)
next
  case less
  with longer_is_greater [of a b] assms show ?thesis by (simp add: nat_order_def)
next
  case greater
  with longer_is_greater [of b a] assms show ?thesis by (simp add: nat_order_def)
qed

subsection \<open>The grammar of version names\<close>

type_synonym version = "nat \<times> nat \<times> nat"

fun version_less :: "version \<Rightarrow> version \<Rightarrow> bool" where
  "version_less (a, b, c) (a', b', c') \<longleftrightarrow> a < a' \<or> a = a' \<and> (b < b' \<or> b = b' \<and> c < c')"

fun version_name :: "version \<Rightarrow> string \<Rightarrow> string" where
  "version_name (a, b, c) suffix =
     to_decimal a @ ''.'' @ to_decimal b @ ''.'' @ to_decimal c @ (if suffix = [] then [] else ''-'' @ suffix)"

definition names_version :: "string \<Rightarrow> version \<Rightarrow> string \<Rightarrow> bool" where
  "names_version s v suffix \<longleftrightarrow> s = version_name v suffix \<and> list_all ota_suffix_char suffix \<and> length s \<le> 31"

definition version_core :: "version \<Rightarrow> string list" where
  "version_core v = (case v of (a, b, c) \<Rightarrow> [to_decimal a, to_decimal b, to_decimal c])"

lemma ota_digit_eq: "ota_ascii_digit = is_digit_char"
  by (simp add: fun_eq_iff ota_ascii_digit_def)

lemma takeWhile_digits_append:
  "list_all P d \<Longrightarrow> r = [] \<or> \<not> P (hd r) \<Longrightarrow> takeWhile P (d @ r) = d \<and> dropWhile P (d @ r) = r"
  by (induction d) (cases r; auto)+

lemma ota_component_exact:
  "ota_component s = Some (d, r) \<longleftrightarrow> s = d @ r \<and> canonical_digits d \<and> (r = [] \<or> \<not> is_digit_char (hd r))"
proof
  assume "ota_component s = Some (d, r)"
  then obtain c cs where s: "s = c # cs" "is_digit_char c"
    and cases: "c = CHR ''0'' \<and> (cs = [] \<or> \<not> is_digit_char (hd cs)) \<and> d = [c] \<and> r = cs \<or>
      c \<noteq> CHR ''0'' \<and> d = takeWhile is_digit_char s \<and> r = dropWhile is_digit_char s"
    by (cases s) (auto simp: ota_component_def ota_digit_eq split: if_splits)
  from cases show "s = d @ r \<and> canonical_digits d \<and> (r = [] \<or> \<not> is_digit_char (hd r))"
  proof
    assume "c = CHR ''0'' \<and> (cs = [] \<or> \<not> is_digit_char (hd cs)) \<and> d = [c] \<and> r = cs"
    with s show ?thesis by (auto simp: canonical_digits_def)
  next
    assume a: "c \<noteq> CHR ''0'' \<and> d = takeWhile is_digit_char s \<and> r = dropWhile is_digit_char s"
    then have "list_all is_digit_char d" by (auto simp: list_all_iff dest: set_takeWhileD)
    with a s hd_dropWhile [of is_digit_char s] show ?thesis by (auto simp: canonical_digits_def)
  qed
next
  assume a: "s = d @ r \<and> canonical_digits d \<and> (r = [] \<or> \<not> is_digit_char (hd r))"
  then obtain c cs where d: "d = c # cs" by (cases d) (auto simp: canonical_digits_def)
  show "ota_component s = Some (d, r)"
  proof (cases "c = CHR ''0''")
    case True
    with a d have "cs = []" by (auto simp: canonical_digits_def)
    with a d True show ?thesis by (auto simp: ota_component_def ota_digit_eq canonical_digits_def)
  next
    case False
    with a d takeWhile_digits_append [of is_digit_char d r] show ?thesis
      by (auto simp: ota_component_def ota_digit_eq canonical_digits_def)
  qed
qed

lemma ota_component_decimal:
  "ota_component s = Some (d, r) \<longleftrightarrow> (\<exists>n. d = to_decimal n \<and> s = to_decimal n @ r) \<and> (r = [] \<or> \<not> is_digit_char (hd r))"
  unfolding ota_component_exact using to_decimal_dec_value [of d] canonical_to_decimal by metis

lemma dot_no_digit: "\<not> is_digit_char (CHR ''.'')" "\<not> is_digit_char (CHR ''-'')"
  by (simp_all add: is_digit_char_def)

lemma ota_core_step:
  "ota_core (Suc (Suc n)) s = Some (cs, r) \<longleftrightarrow>
     (\<exists>m rest ds. s = to_decimal m @ ''.'' @ rest \<and> ota_core (Suc n) rest = Some (ds, r) \<and> cs = to_decimal m # ds)"
proof -
  have "ota_core (Suc (Suc n)) s = Some (cs, r) \<longleftrightarrow>
      (\<exists>d rest ds. ota_component s = Some (d, CHR ''.'' # rest) \<and> ota_core (Suc n) rest = Some (ds, r) \<and> cs = d # ds)"
    (is "?l \<longleftrightarrow> ?r")
  proof
    assume ?l
    then obtain d rs where d: "ota_component s = Some (d, rs)" "rs \<noteq> []" "hd rs = CHR ''.''"
      by (auto split: option.splits if_splits)
    moreover from this(1) \<open>?l\<close> d(2,3) obtain ds where "ota_core (Suc n) (tl rs) = Some (ds, r)" "cs = d # ds"
      by (auto simp del: ota_core.simps simp: ota_core.simps(2) [of "Suc n"] split: option.splits)
    ultimately show ?r by (metis list.collapse)
  next
    assume ?r
    then obtain d rest ds where "ota_component s = Some (d, CHR ''.'' # rest)"
      "ota_core (Suc n) rest = Some (ds, r)" "cs = d # ds" by blast
    then show ?l by (simp del: ota_core.simps add: ota_core.simps(2) [of "Suc n"])
  qed
  also have "\<dots> \<longleftrightarrow> (\<exists>m rest ds. s = to_decimal m @ ''.'' @ rest \<and> ota_core (Suc n) rest = Some (ds, r) \<and>
      cs = to_decimal m # ds)"
    unfolding ota_component_decimal using dot_no_digit by auto
  finally show ?thesis .
qed

lemma ota_core_exact:
  "ota_core 3 s = Some (cs, r) \<longleftrightarrow>
     (\<exists>v. cs = version_core v \<and> s = version_name v [] @ r) \<and> (r = [] \<or> \<not> is_digit_char (hd r))"
proof -
  have one: "ota_core (Suc 0) s = Some (cs, r) \<longleftrightarrow>
      (\<exists>n. cs = [to_decimal n] \<and> s = to_decimal n @ r) \<and> (r = [] \<or> \<not> is_digit_char (hd r))" for s cs
  proof -
    have "ota_core (Suc 0) s = Some (cs, r) \<longleftrightarrow> (\<exists>d. cs = [d] \<and> ota_component s = Some (d, r))"
      by (auto split: option.splits)
    then show ?thesis unfolding ota_component_decimal by blast
  qed
  have "ota_core 3 s = Some (cs, r) \<longleftrightarrow> (\<exists>a b c. s = to_decimal a @ ''.'' @ to_decimal b @ ''.'' @ to_decimal c @ r \<and>
      cs = [to_decimal a, to_decimal b, to_decimal c]) \<and> (r = [] \<or> \<not> is_digit_char (hd r))"
    unfolding numeral_3_eq_3 ota_core_step one by blast
  also have "\<dots> \<longleftrightarrow> (\<exists>v. cs = version_core v \<and> s = version_name v [] @ r) \<and> (r = [] \<or> \<not> is_digit_char (hd r))"
    by (force simp: version_core_def)
  finally show ?thesis .
qed

lemma parse_exact:
  "parse_ota_version s = Some p \<longleftrightarrow>
     (\<exists>v suffix. names_version s v suffix \<and> p = \<lparr>ov_core = version_core v, ov_suffix = suffix\<rparr>)"
proof -
  have name: "version_name v suffix = version_name v [] @ (if suffix = [] then [] else ''-'' @ suffix)" for v suffix
    by (cases v) auto
  have ne: "version_name v x \<noteq> []" for v x using to_decimal_first canonical_to_decimal
    by (cases v) (auto simp: canonical_digits_def)
  have core: "(case ota_core 3 s of None \<Rightarrow> None | Some (core, rest) \<Rightarrow> f core rest) = Some p \<longleftrightarrow>
      (\<exists>v r. s = version_name v [] @ r \<and> (r = [] \<or> \<not> is_digit_char (hd r)) \<and> f (version_core v) r = Some p)" for f
  proof -
    have "(case ota_core 3 s of None \<Rightarrow> None | Some (core, rest) \<Rightarrow> f core rest) = Some p \<longleftrightarrow>
        (\<exists>cs r. ota_core 3 s = Some (cs, r) \<and> f cs r = Some p)"
      by (auto split: option.splits)
    also have "\<dots> \<longleftrightarrow> (\<exists>v r. s = version_name v [] @ r \<and> (r = [] \<or> \<not> is_digit_char (hd r)) \<and> f (version_core v) r = Some p)"
      unfolding ota_core_exact by blast
    finally show ?thesis .
  qed
  show ?thesis
  proof
    assume "parse_ota_version s = Some p"
    then have len: "length s \<le> 31" and
      "(case ota_core 3 s of None \<Rightarrow> None | Some (core, rest) \<Rightarrow>
          if rest = [] then Some \<lparr>ov_core = core, ov_suffix = []\<rparr>
          else if hd rest \<noteq> CHR ''-'' \<or> tl rest = [] then None
          else if list_all ota_suffix_char (tl rest) then Some \<lparr>ov_core = core, ov_suffix = tl rest\<rparr>
          else None) = Some p"
      by (auto simp: parse_ota_version_def kOtaVersionMaxBytes_def split: if_splits)
    then obtain v r where s: "s = version_name v [] @ r" and
      r: "(if r = [] then Some \<lparr>ov_core = version_core v, ov_suffix = []\<rparr>
          else if hd r \<noteq> CHR ''-'' \<or> tl r = [] then None
          else if list_all ota_suffix_char (tl r) then Some \<lparr>ov_core = version_core v, ov_suffix = tl r\<rparr>
          else None) = Some p" unfolding core by blast
    show "\<exists>v suffix. names_version s v suffix \<and> p = \<lparr>ov_core = version_core v, ov_suffix = suffix\<rparr>"
    proof (intro exI conjI)
      show "names_version s v (tl r)"
        using r s len name [of v "tl r"] by (cases r) (auto simp: names_version_def split: if_splits)
      show "p = \<lparr>ov_core = version_core v, ov_suffix = tl r\<rparr>"
        using r by (cases r) (auto split: if_splits)
    qed
  next
    assume "\<exists>v suffix. names_version s v suffix \<and> p = \<lparr>ov_core = version_core v, ov_suffix = suffix\<rparr>"
    then obtain v suffix where s: "s = version_name v [] @ (if suffix = [] then [] else ''-'' @ suffix)"
      and ok: "list_all ota_suffix_char suffix" "length s \<le> 31"
      and p: "p = \<lparr>ov_core = version_core v, ov_suffix = suffix\<rparr>"
      unfolding names_version_def using name by metis
    from s ne [of v "[]"] have "s \<noteq> []" by simp
    have "ota_core 3 s = Some (version_core v, if suffix = [] then [] else ''-'' @ suffix)"
      unfolding ota_core_exact using s dot_no_digit by (cases v) auto
    with \<open>s \<noteq> []\<close> ok p show "parse_ota_version s = Some p"
      by (simp add: parse_ota_version_def kOtaVersionMaxBytes_def)
  qed
qed

text \<open>C21: A text is a version name exactly when it is three decimal numbers without leading zeros, separated
  by dots, with an optional non-empty suffix of letters, digits, dots and dashes after a dash, of at most 31
  bytes; the parser returns these numbers as written and the suffix.\<close>

theorem version_grammar_exact:
  "parse_ota_version s = Some p \<longleftrightarrow>
     (\<exists>v suffix. names_version s v suffix \<and> p = \<lparr>ov_core = version_core v, ov_suffix = suffix\<rparr>)"
  by (rule parse_exact)

subsection \<open>What may be installed\<close>

lemma parse_named: "names_version s v x \<Longrightarrow> parse_ota_version s = Some \<lparr>ov_core = version_core v, ov_suffix = x\<rparr>"
  using parse_exact by blast

lemma version_core_inj: "version_core v = version_core w \<Longrightarrow> v = w"
  by (cases v; cases w) (auto simp: version_core_def dest: arg_cong [where f = dec_value])

lemma names_unique: "names_version s v x \<Longrightarrow> names_version s w y \<Longrightarrow> v = w \<and> x = y"
  using parse_named [of s v x] parse_named [of s w y] by (auto dest: version_core_inj)

lemma nat_order_eq: "nat_order a b = OvEqual \<longleftrightarrow> a = b" "nat_order a b = OvOlder \<longleftrightarrow> a < b"
    "nat_order a b = OvNewer \<longleftrightarrow> b < a"
  by (auto simp: nat_order_def)

lemma compare_named:
  assumes "names_version s v x" "names_version t w y"
  shows "compare_ota_versions s t =
    (if version_less v w then OvOlder else if version_less w v then OvNewer else OvEqual)"
proof -
  obtain a b c a' b' c' where v: "v = (a, b, c)" "w = (a', b', c')" by (metis prod_cases3)
  have "compare_ota_versions s t = compare_cores (version_core v) (version_core w)"
    using assms by (simp add: compare_ota_versions_def parse_named)
  also have "\<dots> = (if nat_order a a' = OvEqual then if nat_order b b' = OvEqual then
      if nat_order c c' = OvEqual then OvEqual else nat_order c c' else nat_order b b' else nat_order a a')"
    by (simp add: v version_core_def compare_component canonical_to_decimal del: compare_cores.simps(1))
  also have "\<dots> = (if version_less v w then OvOlder else if version_less w v then OvNewer else OvEqual)"
    by (auto simp: v nat_order_def)
  finally show ?thesis .
qed

lemma version_total: "\<not> version_less v w \<Longrightarrow> \<not> version_less w v \<Longrightarrow> v = w"
  by (cases v; cases w) auto

lemma version_irrefl: "version_less v w \<Longrightarrow> v \<noteq> w \<and> \<not> version_less w v"
  by (cases v; cases w) auto

lemma digits_value_exact:
  "digits_value (of_nat v) s =
     (if list_all is_digit_char s then Some (of_nat (v * 10 ^ length s + dec_value s)) else None)"
proof (induction s arbitrary: v)
  case (Cons c cs)
  define d where "d = code_of c - 48"
  have w: "of_nat v * 10 + of_nat d = (of_nat (v * 10 + d) :: u32)" by simp
  have n: "(v * 10 + d) * 10 ^ length cs + dec_value cs = v * 10 ^ length (c # cs) + dec_value (c # cs)"
    by (simp add: dec_value_Cons d_def [symmetric] algebra_simps)
  have "digits_value (of_nat v) (c # cs) = (if is_digit_char c then digits_value (of_nat (v * 10 + d)) cs else None)"
    unfolding digits_value.simps ota_digit_eq d_def [symmetric] w by simp
  then show ?case unfolding Cons.IH n by simp
qed simp

lemma digits_value_zero:
  "digits_value 0 s = (if list_all is_digit_char s then Some (of_nat (dec_value s)) else None)"
  using digits_value_exact [of 0 s] by simp

text \<open>The numbers of the suffixes \<open>PR-n\<close> and \<open>dev\<close>, \<open>dev.n\<close>.\<close>

definition dev_number :: "string \<Rightarrow> nat option" where
  "dev_number x = (if x = ''dev'' then Some 0
     else if starts_with ''dev.'' x \<and> list_all is_digit_char (drop 4 x) \<and> drop 4 x \<noteq> [] \<and> length (drop 4 x) \<le> 9
     then Some (dec_value (drop 4 x)) else None)"

lemma unat_small: "n < 2 ^ 32 \<Longrightarrow> unat (of_nat n :: u32) = n"
  by (simp add: unat_of_nat take_bit_nat_eq_self)

lemma starts_with_dev: "starts_with ''dev.'' x \<longleftrightarrow> take 4 x = ''dev.''"
  by (simp add: starts_with_def numeral_eq_Suc)

lemma parse_dev_suffix_number: "parse_dev_suffix x = map_option of_nat (dev_number x)"
  "dev_number x = Some n \<Longrightarrow> n < 10 ^ 9"
proof -
  show "parse_dev_suffix x = map_option of_nat (dev_number x)"
    by (auto simp: parse_dev_suffix_def dev_number_def digits_value_zero starts_with_dev Let_def simp flip: length_0_conv)
  show "dev_number x = Some n \<Longrightarrow> n < 10 ^ 9"
  proof -
    assume d: "dev_number x = Some n"
    show "n < 10 ^ 9"
    proof (cases "x = ''dev''")
      case False
      with d have n: "list_all is_digit_char (drop 4 x)" "length (drop 4 x) \<le> 9" "n = dec_value (drop 4 x)"
        by (auto simp: dev_number_def split: if_splits)
      from dec_value_bound [OF n(1)] have "n < 10 ^ length (drop 4 x)" using n(3) by simp
      also have "(10 :: nat) ^ length (drop 4 x) \<le> 10 ^ 9" using n(2) by (intro power_increasing) auto
      finally show ?thesis .
    qed (use d in \<open>simp add: dev_number_def\<close>)
  qed
qed

lemma dev_suffix_less:
  "dev_number x = Some n \<Longrightarrow> dev_number y = Some m \<Longrightarrow> (of_nat m :: u32) < of_nat n \<longleftrightarrow> m < n"
  using parse_dev_suffix_number(2) [of x n] parse_dev_suffix_number(2) [of y m]
  by (simp add: word_less_nat_alt unat_small)

lemma pr_suffix_number:
  assumes "pr \<noteq> 0"
  shows "parse_pr_suffix x = pr \<longleftrightarrow> x = ''PR-'' @ to_decimal (unat pr) \<and> unat pr < 10 ^ 7"
proof
  assume p: "parse_pr_suffix x = pr"
  have "\<not> (length x < 4 \<or> take 3 x \<noteq> ''PR-'')" "\<not> (drop 3 x = [] \<or> 7 < length (drop 3 x))"
    "hd (drop 3 x) \<noteq> CHR ''0''" "(case digits_value 0 (drop 3 x) of None \<Rightarrow> 0 | Some v \<Rightarrow> v) = pr"
    using p assms by (auto simp: parse_pr_suffix_def Let_def split: if_splits)
  then have x: "x = ''PR-'' @ drop 3 x" and d: "drop 3 x \<noteq> []" "length (drop 3 x) \<le> 7" "hd (drop 3 x) \<noteq> CHR ''0''"
    and v: "list_all is_digit_char (drop 3 x)" "of_nat (dec_value (drop 3 x)) = pr"
    using assms append_take_drop_id [of 3 x] by (auto simp: digits_value_zero split: if_splits)
  have "dec_value (drop 3 x) < 10 ^ length (drop 3 x)" using v(1) by (rule dec_value_bound)
  also have "(10 :: nat) ^ length (drop 3 x) \<le> 10 ^ 7" using d(2) by (intro power_increasing) auto
  finally have b: "dec_value (drop 3 x) < 10 ^ 7" .
  then have u: "unat pr = dec_value (drop 3 x)" using unat_small [of "dec_value (drop 3 x)"] v(2) by simp
  have "canonical_digits (drop 3 x)" using d v(1) by (simp add: canonical_digits_def)
  then have "to_decimal (unat pr) = drop 3 x" unfolding u by (rule to_decimal_dec_value)
  with x u b show "x = ''PR-'' @ to_decimal (unat pr) \<and> unat pr < 10 ^ 7" by simp
next
  assume x: "x = ''PR-'' @ to_decimal (unat pr) \<and> unat pr < 10 ^ 7"
  from assms have pos: "0 < unat pr" by (simp add: unat_gt_0)
  obtain c cs where d: "to_decimal (unat pr) = c # cs" "c \<noteq> CHR ''0''"
    using to_decimal_first [OF pos] by blast
  have "dec_value (c # cs) = unat pr" using d(1) dec_value_to_decimal by metis
  then have "(10 :: nat) ^ (length (to_decimal (unat pr)) - 1) < 10 ^ 7"
    using dec_value_lower [OF canonical_to_decimal, of "unat pr"] x d by (simp del: power_Suc)
  then have "length (to_decimal (unat pr)) - 1 < 7" by (rule power_less_imp_less_exp [rotated]) simp
  then show "parse_pr_suffix x = pr"
    using x d to_decimal_digits [of "unat pr"] dec_value_to_decimal [of "unat pr"]
    by (auto simp: parse_pr_suffix_def digits_value_zero simp del: digits_value.simps)
qed

definition newer_dev :: "string \<Rightarrow> string \<Rightarrow> bool" where
  "newer_dev x y = (case dev_number x of
       None \<Rightarrow> False
     | Some n \<Rightarrow> (case dev_number y of None \<Rightarrow> True | Some m \<Rightarrow> m < n))"

text \<open>What is installable, over the numbers: candidate \<open>(v, x)\<close>, running build \<open>(w, y)\<close>.\<close>

definition installable :: "version \<Rightarrow> string \<Rightarrow> version \<Rightarrow> string \<Rightarrow> u32 \<Rightarrow> ota_channel \<Rightarrow> bool" where
  "installable v x w y pr channel =
     (if pr \<noteq> 0 then x = ''PR-'' @ to_decimal (unat pr) \<and> unat pr < 10 ^ 7 \<and> \<not> version_less v w
      else case channel of
          Release \<Rightarrow> x = [] \<and> (dev_number y \<noteq> None \<or> version_less w v \<or> v = w \<and> y \<noteq> [])
        | Dev \<Rightarrow> dev_number x \<noteq> None \<and> (version_less w v \<or> v = w \<and> newer_dev x y))"

lemma available_named:
  assumes "names_version cand v x" "names_version cur w y"
  shows "is_ota_update_available cand cur pr channel = installable v x w y pr channel"
proof -
  have cmp: "compare_ota_versions cand cur =
      (if version_less v w then OvOlder else if version_less w v then OvNewer else OvEqual)"
    using assms by (rule compare_named)
  have ord: "v = w \<longleftrightarrow> \<not> version_less v w \<and> \<not> version_less w v"
    using version_total version_irrefl by blast
  have excl: "version_less w v \<Longrightarrow> \<not> version_less v w" using version_irrefl by blast
  show ?thesis
  proof (cases "pr = 0")
    case False
    then show ?thesis
      by (simp add: is_ota_update_available_def parse_named [OF assms(1)] parse_named [OF assms(2)] Let_def cmp
          installable_def pr_suffix_number word_gt_0) blast
  next
    case True
    show ?thesis
    proof (cases channel)
      case Release
      with True excl show ?thesis
        by (auto simp: is_ota_update_available_def parse_named [OF assms(1)] parse_named [OF assms(2)] Let_def cmp
            installable_def parse_dev_suffix_number(1) ord)
    next
      case Dev
      with True excl show ?thesis
        by (auto simp: is_ota_update_available_def parse_named [OF assms(1)] parse_named [OF assms(2)] Let_def cmp
            installable_def parse_dev_suffix_number(1) ord newer_dev_def dev_suffix_less split: option.splits)
    qed
  qed
qed

text \<open>C6: A build is offered exactly when both names are version names and, by their numbers: for a requested pull
  request, it is the build of that request and its core is not older; from the release feed, it has no suffix
  and is newer, or the running build is a development build or a suffixed build of the same core; from the
  development feed, it is a development build that is newer by core or, on the same core, by its counter. An
  upload is accepted only on the development channel and never with an older core.\<close>

theorem update_policy_exact:
  "(is_ota_update_available candidate current pr channel \<longleftrightarrow>
      (\<exists>v x w y. names_version candidate v x \<and> names_version current w y \<and> installable v x w y pr channel)) \<and>
   (ota_upload_version_allowed candidate current channel \<longleftrightarrow>
      (\<exists>v x w y. names_version candidate v x \<and> names_version current w y \<and> channel = Dev \<and> \<not> version_less v w))"
proof (cases "parse_ota_version candidate = None \<or> parse_ota_version current = None")
  case True
  then have "(\<nexists>v x. names_version candidate v x) \<or> (\<nexists>v x. names_version current v x)" by (auto dest: parse_named)
  with True show ?thesis
    by (auto simp: is_ota_update_available_def ota_upload_version_allowed_def compare_ota_versions_def split: option.splits)
next
  case False
  then obtain v x w y where n: "names_version candidate v x" "names_version current w y"
    by (meson not_None_eq parse_exact)
  have u: "names_version candidate v' x' \<and> names_version current w' y' \<longleftrightarrow> v' = v \<and> x' = x \<and> w' = w \<and> y' = y" for v' x' w' y'
    using n names_unique by blast
  have e: "(\<exists>v' x' w' y'. names_version candidate v' x' \<and> names_version current w' y' \<and> P v' x' w' y') \<longleftrightarrow> P v x w y" for P
    using u by metis
  have "ota_upload_version_allowed candidate current channel \<longleftrightarrow> channel = Dev \<and> \<not> version_less v w"
    using version_irrefl [of w v] by (auto simp: ota_upload_version_allowed_def compare_named [OF n])
  then show ?thesis unfolding e available_named [OF n] by blast
qed

subsection \<open>Offers and channel changes\<close>

definition channel_exhausted :: "u32 \<Rightarrow> bool" where
  "channel_exhausted s \<longleftrightarrow> s AND kOtaChannelExhausted \<noteq> 0"

text \<open>The revision as a number.\<close>

definition channel_revision :: "u32 \<Rightarrow> nat" where
  "channel_revision s = unat (take_bit 30 (drop_bit 1 s))"

lemma exhausted_mask: "s AND kOtaChannelExhausted = 0 \<longleftrightarrow> \<not> bit s 31" "bit kOtaChannelExhausted 31"
proof -
  have k: "kOtaChannelExhausted = 2 ^ 31" by (simp add: kOtaChannelExhausted_def)
  show "s AND kOtaChannelExhausted = 0 \<longleftrightarrow> \<not> bit s 31" unfolding k by (rule and_exp_eq_0_iff_not_bit)
  show "bit kOtaChannelExhausted 31" unfolding k by (simp only: bit_exp_iff) simp
qed

lemma exhausted_bit: "channel_exhausted s \<longleftrightarrow> bit s 31"
  by (simp add: channel_exhausted_def exhausted_mask)

lemma revision_mask: "s AND kOtaChannelRevisionMask = push_bit 1 (take_bit 30 (drop_bit 1 s))"
proof (rule bit_word_eqI)
  fix n
  have k: "kOtaChannelRevisionMask = push_bit 1 (mask 30)"
    by (simp add: kOtaChannelRevisionMask_def mask_eq_exp_minus_1)
  assume "n < LENGTH(32)"
  then show "bit (s AND kOtaChannelRevisionMask) n = bit (push_bit 1 (take_bit 30 (drop_bit 1 s))) n"
    unfolding k bit_and_iff bit_push_bit_iff bit_take_bit_iff bit_drop_bit_eq bit_mask_iff by (cases n) auto
qed

lemma revision_or: "channel_revision (s OR (if c then 1 else 0)) = channel_revision s"
proof -
  have "drop_bit 1 (1 :: u32) = 0" by simp
  then show ?thesis by (simp add: channel_revision_def drop_bit_or)
qed

lemma revision_bound: "channel_revision s < 2 ^ 30"
  unfolding channel_revision_def unsigned_take_bit_eq by (rule take_bit_nat_less_exp)

lemma revision_nat: "channel_revision x = unat x div 2 mod 2 ^ 30"
proof -
  have "unat (drop_bit 1 x) = unat x div 2" by (simp add: drop_bit_eq_div unat_div_distrib)
  then show ?thesis unfolding channel_revision_def unsigned_take_bit_eq by (simp add: take_bit_eq_mod)
qed

lemma doubled_word: "unat (push_bit 1 (k :: u32)) = unat k * 2 mod 2 ^ 32"
  by (simp add: unat_word_ariths)

lemma revision_next:
  assumes "s AND kOtaChannelRevisionMask \<noteq> kOtaChannelRevisionMask"
  shows "channel_revision ((s AND kOtaChannelRevisionMask) + 2) = channel_revision s + 1"
proof -
  let ?k = "take_bit 30 (drop_bit 1 s)"
  have r: "unat (s AND kOtaChannelRevisionMask) = 2 * unat ?k"
  proof -
    have "unat (push_bit 1 ?k) = unat ?k * 2 mod 2 ^ 32"
      by (rule doubled_word)
    moreover have "unat ?k < 2 ^ 30" using revision_bound [of s] by (simp add: channel_revision_def)
    ultimately show ?thesis unfolding revision_mask by simp
  qed
  have m: "unat kOtaChannelRevisionMask = 2 * (2 ^ 30 - 1)" by (simp add: kOtaChannelRevisionMask_def)
  have ne: "unat (s AND kOtaChannelRevisionMask) \<noteq> unat kOtaChannelRevisionMask"
    using assms by (simp add: word_unat_eq_iff)
  then have lt: "unat ?k + 1 < 2 ^ 30"
    using revision_bound [of s] r m unfolding channel_revision_def by linarith
  then have "unat ((s AND kOtaChannelRevisionMask) + 2) = 2 * (unat ?k + 1)"
    using r by (subst unat_add_lem [THEN iffD1]) simp_all
  then show ?thesis
    using lt unfolding revision_nat [of "(s AND kOtaChannelRevisionMask) + 2"] channel_revision_def [of s] by simp
qed

lemma channel_change:
  "channel \<noteq> ota_channel_in_state s \<Longrightarrow>
   channel_exhausted (ota_changed_channel_state s channel) \<or>
   channel_revision (ota_changed_channel_state s channel) = channel_revision s + 1"
  using revision_next [of s]
  by (auto simp: ota_changed_channel_state_def Let_def revision_or exhausted_bit bit_simps exhausted_mask)

lemma channel_same: "ota_changed_channel_state s (ota_channel_in_state s) = s"
  by (simp add: ota_changed_channel_state_def)

lemma channel_exhausted_step: "channel_exhausted s \<Longrightarrow> channel_exhausted (ota_changed_channel_state s channel)"
  by (auto simp: ota_changed_channel_state_def Let_def exhausted_bit bit_simps exhausted_mask)

lemma channel_run:
  "channel_exhausted s \<or> n \<le> channel_revision s \<Longrightarrow>
   channel_exhausted (foldl ota_changed_channel_state s chs) \<or> n \<le> channel_revision (foldl ota_changed_channel_state s chs)"
proof (induction chs arbitrary: s)
  case (Cons c chs)
  have "channel_exhausted (ota_changed_channel_state s c) \<or> n \<le> channel_revision (ota_changed_channel_state s c)"
    using Cons.prems channel_exhausted_step channel_change [of c s] channel_same [of s] by fastforce
  then show ?case using Cons.IH by simp
qed simp

lemma channel_run_changed:
  "\<not> list_all (\<lambda>c. c = ota_channel_in_state s) chs \<Longrightarrow>
   channel_exhausted (foldl ota_changed_channel_state s chs) \<or>
   channel_revision s < channel_revision (foldl ota_changed_channel_state s chs)"
proof (induction chs)
  case (Cons c chs)
  show ?case
  proof (cases "c = ota_channel_in_state s")
    case True
    with Cons show ?thesis by (simp add: channel_same)
  next
    case False
    with channel_change [of c s] channel_run [of "ota_changed_channel_state s c" "Suc (channel_revision s)" chs]
    show ?thesis by (auto simp: Suc_le_eq)
  qed
qed simp

text \<open>C14: An offer that was captured under one state of the channel is current later exactly when it is a real
  offer and no request in between selected another channel: switching away and back does not revive it,
  however often, and neither does the exhaustion of the revision counter.\<close>

theorem offer_never_revived:
  "ota_offer_current s (foldl ota_changed_channel_state s chs) generation available \<longleftrightarrow>
     available \<and> generation \<noteq> 0 \<and> generation \<noteq> - 1 \<and> s AND kOtaChannelExhausted = 0 \<and>
     list_all (\<lambda>c. c = ota_channel_in_state s) chs"
proof (cases "list_all (\<lambda>c. c = ota_channel_in_state s) chs")
  case True
  then have "foldl ota_changed_channel_state s chs = s" by (induction chs) (simp_all add: channel_same)
  with True show ?thesis by (auto simp: ota_offer_current_def)
next
  case False
  from channel_run_changed [OF this] have
    "\<not> ota_offer_current s (foldl ota_changed_channel_state s chs) generation available"
    by (auto simp: ota_offer_current_def channel_exhausted_def)
  with False show ?thesis by blast
qed

end
