(* ===== verification/OtaChangelog.thy ===== *)
theory OtaChangelog
  imports OtaProps
begin

text \<open>
  The changelog of an offer (\<open>logic/ota_changelog_range.hpp\<close>): the order of complete version names, the
  address of a sibling document, the parser of the changelog document and the selection of the lines the
  running build does not contain yet. A C string is its text without the NUL. The code may decode the
  document in place; the decoded text is never longer than what was read, so the model keeps them apart.
\<close>

datatype changelog_range = RangeLegacy | RangeSelected | RangeInvalid

text \<open>The result is a sign; \<open>-2\<close> stands for a text that is no version.\<close>

definition compare_ota_full_versions :: "string \<Rightarrow> string \<Rightarrow> int" where
  "compare_ota_full_versions a b = (case (parse_ota_version a, parse_ota_version b) of
       (Some ap, Some bp) \<Rightarrow>
         (case compare_ota_versions a b of
            OvNewer \<Rightarrow> 1
          | OvOlder \<Rightarrow> -1
          | OvInvalid \<Rightarrow> -2
          | OvEqual \<Rightarrow>
              if ov_suffix ap = [] \<and> ov_suffix bp = [] then 0
              else if ov_suffix ap = [] \<and> ov_suffix bp \<noteq> [] then 1
              else if ov_suffix ap \<noteq> [] \<and> ov_suffix bp = [] then -1
              else (case (parse_dev_suffix (ov_suffix ap), parse_dev_suffix (ov_suffix bp)) of
                  (Some da, Some db) \<Rightarrow> if db < da then 1 else if da < db then -1 else 0
                | _ \<Rightarrow> text_compare (ov_suffix ap) (ov_suffix bp)))
     | _ \<Rightarrow> -2)"

definition ota_manifest_sibling_url :: "string \<Rightarrow> string \<Rightarrow> nat \<Rightarrow> string option" where
  "ota_manifest_sibling_url manifest_url sibling outlen =
     (if outlen = 0 then None
      else if manifest_url = [] \<or> sibling = [] then None
      else case rfind_char (CHR ''/'') manifest_url of
          None \<Rightarrow> None
        | Some slash \<Rightarrow>
            if outlen \<le> (slash + 1) + length sibling then None
            else Some (take (slash + 1) manifest_url @ sibling))"

subsection \<open>The changelog document\<close>

definition is_json_ws :: "char \<Rightarrow> bool" where
  "is_json_ws c \<longleftrightarrow> c = CHR '' '' \<or> c = CHR 0x09 \<or> c = CHR 0x0d \<or> c = CHR 0x0a"

definition skip_ws :: "string \<Rightarrow> string" where "skip_ws = dropWhile is_json_ws"

text \<open>\<open>scan_string\<close>: the raw text up to the closing quote and what follows it.\<close>

fun scan_string_loop :: "string \<Rightarrow> (string \<times> string) option" where
  "scan_string_loop [] = None"
| "scan_string_loop (c # cs) =
     (if c = CHR 0x5c then
        (case cs of [] \<Rightarrow> None | d # ds \<Rightarrow> map_option (\<lambda>(s, r). (c # d # s, r)) (scan_string_loop ds))
      else if c = CHR 0x22 then Some ([], cs)
      else map_option (\<lambda>(s, r). (c # s, r)) (scan_string_loop cs))"

definition scan_string :: "string \<Rightarrow> (string \<times> string) option" where
  "scan_string s = (if s = [] \<or> hd s \<noteq> CHR 0x22 then None else scan_string_loop (tl s))"

definition text_escape :: "char \<Rightarrow> char option" where
  "text_escape e = (if e = CHR 0x22 then Some (CHR 0x22) else if e = CHR 0x5c then Some (CHR 0x5c)
     else if e = CHR ''/'' then Some (CHR ''/'') else if e = CHR ''n'' then Some (CHR 0x0a)
     else if e = CHR ''t'' then Some (CHR 0x09) else None)"

fun decode_text_loop :: "nat \<Rightarrow> string \<Rightarrow> string \<Rightarrow> (string \<times> string) option" where
  "decode_text_loop outlen written [] = None"
| "decode_text_loop outlen written (c # cs) =
     (if c = CHR 0x22 then (if written = [] then None else Some (written, cs))
      else if code_of c < 0x20 then None
      else if c = CHR 0x5c then
        (case cs of
           [] \<Rightarrow> None
         | e # es \<Rightarrow> (case text_escape e of
             None \<Rightarrow> None
           | Some d \<Rightarrow> if outlen \<le> length written + 1 then None else decode_text_loop outlen (written @ [d]) es))
      else if outlen \<le> length written + 1 then None else decode_text_loop outlen (written @ [c]) cs)"

definition decode_text_string :: "nat \<Rightarrow> string \<Rightarrow> (string \<times> string) option" where
  "decode_text_string outlen s =
     (if outlen = 0 \<or> s = [] \<or> hd s \<noteq> CHR 0x22 then None else decode_text_loop outlen [] (tl s))"

text \<open>\<open>copy_plain_string\<close>: no escapes, no control characters, shorter than the target.\<close>

definition copy_plain_string :: "nat \<Rightarrow> string \<Rightarrow> (string \<times> string) option" where
  "copy_plain_string capacity s = (case scan_string (skip_ws s) of
       None \<Rightarrow> None
     | Some (v, rest) \<Rightarrow>
         if v = [] \<or> capacity \<le> length v then None
         else if \<not> list_all (\<lambda>c. c \<noteq> CHR 0x5c \<and> 0x20 \<le> code_of c) v then None
         else Some (v, rest))"

lemma scan_string_shorter: "scan_string_loop s = Some (v, r) \<Longrightarrow> length r < length s"
  by (induction s arbitrary: v rule: scan_string_loop.induct)
    (auto split: if_splits list.splits, (metis less_Suc_eq less_trans)+)

lemma decode_text_shorter: "decode_text_loop n w s = Some (v, r) \<Longrightarrow> length r < length s"
  by (induction n w s rule: decode_text_loop.induct)
    (auto split: if_splits list.splits option.splits, meson less_SucI)

lemma skip_ws_shorter: "length (skip_ws s) \<le> length s"
  by (simp add: skip_ws_def length_dropWhile_le)

text \<open>The members: the value of a known key, once each. The state is the version and the text read so far.\<close>

definition changelog_member ::
    "nat \<Rightarrow> string option \<times> string option \<Rightarrow> string \<Rightarrow> ((string option \<times> string option) \<times> string) option" where
  "changelog_member outlen found s =
     (if s = [] \<or> hd s \<noteq> CHR 0x22 then None
      else case scan_string s of
          None \<Rightarrow> None
        | Some (key, r) \<Rightarrow>
            let r = skip_ws r in
            if r = [] \<or> hd r \<noteq> CHR '':'' then None
            else if key = ''version'' then
              (if fst found \<noteq> None then None
               else case copy_plain_string 32 (tl r) of
                   None \<Rightarrow> None | Some (v, r') \<Rightarrow> Some ((Some v, snd found), r'))
            else if key = ''changelog'' then
              (if snd found \<noteq> None then None
               else case decode_text_string outlen (skip_ws (tl r)) of
                   None \<Rightarrow> None | Some (t, r') \<Rightarrow> Some ((fst found, Some t), r'))
            else None)"

lemma changelog_member_shorter:
  assumes "changelog_member outlen found s = Some (f, r)"
  shows "length r < length s"
proof -
  have scan: "length r' < length s'" if "scan_string s' = Some (v, r')" for s' v r'
    using that scan_string_shorter [of "tl s'"] by (cases s') (auto simp: scan_string_def split: if_splits)
  have dec: "length r' < length s'" if "decode_text_string n s' = Some (v, r')" for n s' v r'
    using that decode_text_shorter [of n "[]" "tl s'"] by (cases s') (auto simp: decode_text_string_def split: if_splits)
  from assms obtain key r1 where r1: "scan_string s = Some (key, r1)" and c: "skip_ws r1 \<noteq> []"
    and v: "(\<exists>v. copy_plain_string 32 (tl (skip_ws r1)) = Some (v, r)) \<or>
      (\<exists>t. decode_text_string outlen (skip_ws (tl (skip_ws r1))) = Some (t, r))"
    by (auto simp: changelog_member_def Let_def split: if_splits option.splits)
  have "length (skip_ws (tl (skip_ws r1))) < length r1"
    using c skip_ws_shorter [of r1] skip_ws_shorter [of "tl (skip_ws r1)"] by (cases "skip_ws r1") auto
  with v scan dec have "length r \<le> length r1"
    by (fastforce simp: copy_plain_string_def split: option.splits if_splits)
  with scan [OF r1] show ?thesis by simp
qed

function changelog_members :: "nat \<Rightarrow> string option \<times> string option \<Rightarrow> string \<Rightarrow>
    ((string option \<times> string option) \<times> string) option" where
  "changelog_members outlen found s = (case changelog_member outlen found (skip_ws s) of
       None \<Rightarrow> None
     | Some (found', r) \<Rightarrow>
         let r = skip_ws r in
         if r \<noteq> [] \<and> hd r = CHR '','' then changelog_members outlen found' (tl r)
         else if r \<noteq> [] \<and> hd r = CHR ''}'' then Some (found', tl r)
         else None)"
  by pat_completeness auto
termination
proof (relation "measure (\<lambda>(n, f, s). length s)")
  fix outlen found s x found' r r'
  assume m: "changelog_member outlen found (skip_ws s) = Some x" "(found', r) = x" and
    r: "r' = skip_ws r" "r' \<noteq> [] \<and> hd r' = CHR '',''"
  from m have "length r < length (skip_ws s)" by (auto intro: changelog_member_shorter)
  then have "length (tl r') < length s" using skip_ws_shorter [of s] skip_ws_shorter [of r] r by simp
  then show "((outlen, found', tl r'), (outlen, found, s)) \<in> measure (\<lambda>(n, f, s). length s)" by simp
qed simp

declare changelog_members.simps [simp del]

definition manifest_changelog :: "string \<Rightarrow> string \<Rightarrow> nat \<Rightarrow> string option" where
  "manifest_changelog json expected_version outlen =
     (if outlen = 0 then None
      else let s = skip_ws json in
        if s = [] \<or> hd s \<noteq> CHR ''{'' then None
        else case changelog_members outlen (None, None) (tl s) of
            None \<Rightarrow> None
          | Some ((version, text), r) \<Rightarrow>
              if skip_ws r = [] \<and> version = Some expected_version then text else None)"

subsection \<open>The lines of an update\<close>

definition line_separator :: string where
  "line_separator = [CHR '' '', CHR 0xe2, CHR 0x80, CHR 0x94, CHR '' '']"

text \<open>One line: the version after its \<open>v\<close> when the line has the versioned form, and what follows the
  separator.\<close>

definition versioned_line :: "string \<Rightarrow> (string \<times> string) option" where
  "versioned_line line = (case find_text line_separator (tl line) of
       None \<Rightarrow> None
     | Some split \<Rightarrow>
         if hd line = CHR ''v'' \<and> 1 < length line \<and> is_digit_char (line ! 1) \<and>
            list_all (\<lambda>c. 0x20 < code_of c) (take split (tl line))
         then Some (take split (tl line), drop (split + length line_separator) (tl line))
         else None)"

record range_state =
  rs_selected :: "string option"
  rs_versioned :: bool
  rs_last :: string

text \<open>The pass over the lines that are left; \<open>first\<close> holds at the start of the text. The copy \<open>previous\<close> of the
  code is the version of the line before, \<open>rs_last\<close> here. Left: the scan ends with this result.\<close>

function range_loop :: "string \<Rightarrow> string \<Rightarrow> bool \<Rightarrow> string \<Rightarrow> range_state \<Rightarrow> changelog_range + range_state" where
  "range_loop running target first rest st =
     (if rest = [] then Inr st
      else let line = takeWhile (\<lambda>c. c \<noteq> CHR 0x0a) rest; nxt = drop (length line + 1) rest in
        if line = [] then Inl RangeInvalid
        else case versioned_line line of
            None \<Rightarrow> Inl (if \<not> rs_versioned st \<and> first then RangeLegacy else RangeInvalid)
          | Some (v, note) \<Rightarrow>
              if first \<and> 0 \<le> compare_ota_full_versions running target then Inl RangeInvalid
              else if v = [] \<or> 32 \<le> length v \<or> note = [] then Inl RangeInvalid
              else if \<not> canonical_ota_version v \<or>
                  (rs_last st \<noteq> [] \<and> 0 < compare_ota_full_versions (rs_last st) v) then Inl RangeInvalid
              else range_loop running target False nxt
                \<lparr>rs_selected = (if v = running then Some nxt else rs_selected st), rs_versioned = True, rs_last = v\<rparr>)"
  by pat_completeness auto
termination
  by (relation "measure (\<lambda>(run, t, f, r, s). length r)") auto

declare range_loop.simps [simp del]

definition ota_changelog_select_range :: "string \<Rightarrow> string \<Rightarrow> string \<Rightarrow> changelog_range \<times> string" where
  "ota_changelog_select_range text running target =
     (if \<not> canonical_ota_version running \<or> \<not> canonical_ota_version target then (RangeInvalid, [])
      else if text = [] then (RangeLegacy, text)
      else case range_loop running target True text \<lparr>rs_selected = None, rs_versioned = False, rs_last = []\<rparr> of
          Inl RangeLegacy \<Rightarrow> (RangeLegacy, text)
        | Inl _ \<Rightarrow> (RangeInvalid, [])
        | Inr st \<Rightarrow>
            if \<not> rs_versioned st \<or> rs_last st \<noteq> target then (RangeInvalid, [])
            else (RangeSelected, case rs_selected st of None \<Rightarrow> text | Some s \<Rightarrow> s))"

subsection \<open>What the selection shows\<close>

function text_lines :: "string \<Rightarrow> string list" where
  "text_lines s = (if s = [] then []
     else takeWhile (\<lambda>c. c \<noteq> CHR 0x0a) s # text_lines (drop (length (takeWhile (\<lambda>c. c \<noteq> CHR 0x0a) s) + 1) s))"
  by pat_completeness auto
termination
  by (relation "measure length") auto

declare text_lines.simps [simp del]

text \<open>A text whose lines are all entries, and its entries.\<close>

definition has_entries :: "string \<Rightarrow> (string \<times> string) list \<Rightarrow> bool" where
  "has_entries s es \<longleftrightarrow> map versioned_line (text_lines s) = map Some es"

text \<open>The part of a text that is new to a build: its entries after the last one of the build.\<close>

definition new_part :: "string \<Rightarrow> string \<Rightarrow> string \<Rightarrow> (string \<times> string) list \<Rightarrow> bool" where
  "new_part running s part es \<longleftrightarrow>
     (\<exists>old fresh p. es = old @ fresh \<and> s = p @ part \<and> has_entries part fresh \<and> old \<noteq> [] \<and>
        fst (last old) = running \<and> running \<notin> fst ` set fresh)"

lemma has_entries_Nil: "has_entries [] []"
  by (simp add: has_entries_def text_lines.simps)

lemma has_entries_Cons:
  "s \<noteq> [] \<Longrightarrow> versioned_line (takeWhile (\<lambda>c. c \<noteq> CHR 0x0a) s) = Some e \<Longrightarrow>
   has_entries (drop (length (takeWhile (\<lambda>c. c \<noteq> CHR 0x0a) s) + 1) s) es \<Longrightarrow> has_entries s (e # es)"
  by (simp add: has_entries_def text_lines.simps [of s])

lemma new_partI:
  "es = old @ fresh \<Longrightarrow> s = p @ part \<Longrightarrow> has_entries part fresh \<Longrightarrow> old \<noteq> [] \<Longrightarrow> fst (last old) = running \<Longrightarrow>
   running \<notin> fst ` set fresh \<Longrightarrow> new_part running s part es"
  unfolding new_part_def by blast

lemma new_part_Cons:
  assumes "new_part running (drop n s) part es"
  shows "new_part running s part (e # es)"
proof -
  from assms obtain old fresh p where p: "es = old @ fresh" "drop n s = p @ part" "has_entries part fresh" "old \<noteq> []"
      "fst (last old) = running" "running \<notin> fst ` set fresh"
    unfolding new_part_def by blast
  have "s = (take n s @ p) @ part" using p(2) by (metis append.assoc append_take_drop_id)
  with p show ?thesis by (intro new_partI [where old = "e # old" and fresh = fresh and p = "take n s @ p"]) auto
qed

lemma range_loop_step:
  assumes "range_loop running target first rest st = Inr st'" "rest \<noteq> []"
  shows "\<exists>v n. versioned_line (takeWhile (\<lambda>c. c \<noteq> CHR 0x0a) rest) = Some (v, n) \<and>
    range_loop running target False (drop (length (takeWhile (\<lambda>c. c \<noteq> CHR 0x0a) rest) + 1) rest)
      \<lparr>rs_selected = (if v = running then Some (drop (length (takeWhile (\<lambda>c. c \<noteq> CHR 0x0a) rest) + 1) rest)
         else rs_selected st), rs_versioned = True, rs_last = v\<rparr> = Inr st'"
proof (cases "versioned_line (takeWhile (\<lambda>c. c \<noteq> CHR 0x0a) rest)")
  case None
  with assms show ?thesis
    unfolding range_loop.simps [of running target first rest st] Let_def by (simp split: if_splits)
next
  case (Some vn)
  then obtain v n where "versioned_line (takeWhile (\<lambda>c. c \<noteq> CHR 0x0a) rest) = Some (v, n)" by (cases vn) auto
  with assms show ?thesis
    unfolding range_loop.simps [of running target first rest st] Let_def by (simp split: if_splits)
qed

lemma range_loop_selects:
  "range_loop running target first rest st = Inr st' \<Longrightarrow>
   \<exists>es. has_entries rest es \<and>
     rs_last st' = (if es = [] then rs_last st else fst (last es)) \<and>
     (if running \<in> fst ` set es then \<exists>part. rs_selected st' = Some part \<and> new_part running rest part es
      else rs_selected st' = rs_selected st)"
proof (induction "length rest" arbitrary: first rest st rule: less_induct)
  case less
  show ?case
  proof (cases "rest = []")
    case True
    with less.prems has_entries_Nil show ?thesis
      unfolding range_loop.simps [of running target first rest st] by (intro exI [of _ "[]"]) simp
  next
    case False
    let ?line = "takeWhile (\<lambda>c. c \<noteq> CHR 0x0a) rest"
    let ?n = "length ?line + 1"
    from range_loop_step [OF less.prems False] obtain v n where line: "versioned_line ?line = Some (v, n)"
      and go: "range_loop running target False (drop ?n rest)
        \<lparr>rs_selected = (if v = running then Some (drop ?n rest) else rs_selected st), rs_versioned = True, rs_last = v\<rparr>
        = Inr st'" by blast
    have "length (drop ?n rest) < length rest" using False by simp
    from less.hyps [OF this go, unfolded range_state.select_convs] obtain es where
      es: "has_entries (drop ?n rest) es" "rs_last st' = (if es = [] then v else fst (last es))"
      and sel: "if running \<in> fst ` set es then \<exists>part. rs_selected st' = Some part \<and> new_part running (drop ?n rest) part es
        else rs_selected st' = (if v = running then Some (drop ?n rest) else rs_selected st)" by blast
    have e: "has_entries rest ((v, n) # es)" using False line es(1) by (rule has_entries_Cons)
    have "if running \<in> fst ` set ((v, n) # es)
        then \<exists>part. rs_selected st' = Some part \<and> new_part running rest part ((v, n) # es)
        else rs_selected st' = rs_selected st"
    proof (cases "running \<in> fst ` set es")
      case True
      with sel show ?thesis by (auto dest: new_part_Cons)
    next
      case notin: False
      show ?thesis
      proof (cases "v = running")
        case True
        have "new_part running rest (drop ?n rest) ((v, n) # es)"
          using True notin es(1) append_take_drop_id [of ?n rest, symmetric]
          by (intro new_partI [where old = "[(v, n)]" and fresh = es and p = "take ?n rest"]) auto
        with sel notin True show ?thesis by auto
      next
        case False
        with sel notin show ?thesis by auto
      qed
    qed
    with e es(2) show ?thesis by (intro exI [of _ "(v, n) # es"]) auto
  qed
qed

text \<open>C22: A changelog that is selected consists of entries only and its last entry is the offered version; what
  is shown is the part after the last entry of the running build, or everything when that build has no entry,
  and in either case ends with the offered version.\<close>

theorem changelog_selection:
  assumes "ota_changelog_select_range text running target = (RangeSelected, shown)"
  shows "\<exists>es. has_entries text es \<and> es \<noteq> [] \<and> fst (last es) = target \<and>
    (if running \<in> fst ` set es then new_part running text shown es else shown = text)"
proof -
  let ?st = "\<lparr>rs_selected = None, rs_versioned = False, rs_last = []\<rparr>"
  from assms obtain st where ne: "text \<noteq> []" and st: "range_loop running target True text ?st = Inr st"
    and target: "rs_last st = target" and shown: "shown = (case rs_selected st of None \<Rightarrow> text | Some s \<Rightarrow> s)"
    by (auto simp: ota_changelog_select_range_def split: if_splits sum.splits changelog_range.splits)
  from range_loop_selects [OF st] obtain es where
    es: "has_entries text es" "rs_last st = (if es = [] then [] else fst (last es))"
    "if running \<in> fst ` set es then \<exists>part. rs_selected st = Some part \<and> new_part running text part es
      else rs_selected st = None" by auto
  have "es \<noteq> []" using es(1) ne by (auto simp: has_entries_def text_lines.simps [of "text"])
  with es target shown show ?thesis by (intro exI [of _ es]) (auto split: if_splits)
qed

definition sample_changelog :: string where
  "sample_changelog = ''v1.0.3-dev.19'' @ line_separator @ ''Old'' @ [CHR 0x0a] @
     ''v1.0.3-dev.20'' @ line_separator @ ''New''"

theorem changelog_selection_witness:
  "\<exists>es. has_entries sample_changelog es \<and> es \<noteq> [] \<and> fst (last es) = ''1.0.3-dev.20'' \<and>
    (if ''1.0.3-dev.19'' \<in> fst ` set es
     then new_part ''1.0.3-dev.19'' sample_changelog (''v1.0.3-dev.20'' @ line_separator @ ''New'') es
     else ''v1.0.3-dev.20'' @ line_separator @ ''New'' = sample_changelog)"
  by (rule changelog_selection) code_simp

end
