(* ===== verification/CommandTable.thy ===== *)
theory CommandTable
  imports CommandTypes JsonSyntax Complex_Main
begin

text \<open>
  The one command table of both HTTP command surfaces (\<open>logic/command_registry.hpp\<close>), the checks of
  argument values (\<open>logic/mcp.hpp\<close>, \<open>json_input_validation.hpp\<close>, the argument readers of \<open>http_api.cpp\<close>
  and \<open>mcp_server.cpp\<close>) and the dispatch to the vehicle (\<open>command_exec.cpp\<close>). A parsed document is a
  tree as cJSON makes it; a double is a real number or one that is not finite. A null pointer is None.
\<close>

subsection \<open>Parsed documents\<close>

datatype json_number = Finite real | NotFinite

datatype cjson = CNull | CBool bool | CNumber json_number | CString string | CArray "cjson list"
  | CObject "(string \<times> cjson) list"

text \<open>\<open>cJSON_GetObjectItemCaseSensitive\<close>: the first member of that name; nothing in a missing tree or in one
  that is no object.\<close>

definition cjson_get :: "cjson option \<Rightarrow> string \<Rightarrow> cjson option" where
  "cjson_get tree key = (case tree of Some (CObject ms) \<Rightarrow> map_of ms key | _ \<Rightarrow> None)"

definition cjson_string :: "cjson option \<Rightarrow> string option" where
  "cjson_string tree = (case tree of Some (CString s) \<Rightarrow> Some s | _ \<Rightarrow> None)"

fun duplicate_name :: "string list \<Rightarrow> bool" where
  "duplicate_name [] = False"
| "duplicate_name (n # ns) = (n \<in> set ns \<or> duplicate_name ns)"

fun has_duplicate_json_keys :: "cjson \<Rightarrow> bool" where
  "has_duplicate_json_keys (CObject ms) =
     (duplicate_name (map fst ms) \<or> (\<exists>m \<in> set ms. has_duplicate_json_keys (snd m)))"
| "has_duplicate_json_keys (CArray xs) = (\<exists>x \<in> set xs. has_duplicate_json_keys x)"
| "has_duplicate_json_keys t = False"

text \<open>\<open>trunc(d) == d\<close> of a finite number.\<close>

definition integral :: "real \<Rightarrow> bool" where "integral d \<longleftrightarrow> of_int \<lfloor>d\<rfloor> = d"

definition json_safe_integer :: "json_number \<Rightarrow> int option" where
  "json_safe_integer value = (case value of
       NotFinite \<Rightarrow> None
     | Finite d \<Rightarrow>
         if \<not> integral d \<or> d < - of_int (uint kJsonSafeIntegerMax) \<or> of_int (uint kJsonSafeIntegerMax) < d then None
         else Some \<lfloor>d\<rfloor>)"

definition json_command_number :: "cjson \<Rightarrow> json_number option" where
  "json_command_number value = (case value of
       CNumber n \<Rightarrow> Some n
     | CString s \<Rightarrow> map_option (\<lambda>n. Finite (of_int n)) (json_canonical_safe_integer s)
     | _ \<Rightarrow> None)"

subsection \<open>The table\<close>

datatype cmd_kind = CmdGetVehicleState | CmdWakeUp | CmdChargeStart | CmdChargeStop | CmdChargePortOpen
  | CmdChargePortClose | CmdSetChargingAmps | CmdSetChargeLimit | CmdSetScheduledCharging | CmdDoorLock
  | CmdDoorUnlock | CmdFlashLights | CmdHonkHorn | CmdSetSentryMode | CmdClimateStart | CmdClimateStop | CmdUnknown

datatype rest_body_shape = ShapeEmpty | ShapeObject | ShapeBoolFalse | ShapeBoolTrue | ShapeOther

definition rest_body_allowed :: "cmd_kind \<Rightarrow> rest_body_shape \<Rightarrow> bool" where
  "rest_body_allowed kind shape =
     (if shape = ShapeEmpty \<or> shape = ShapeObject then True
      else (kind = CmdChargeStart \<and> shape = ShapeBoolTrue) \<or> (kind = CmdChargeStop \<and> shape = ShapeBoolFalse) \<or>
           (kind = CmdWakeUp \<and> shape = ShapeBoolTrue))"

datatype cmd_arg_type = ArgNone | ArgInt | ArgBool

record cmd_arg =
  api_key :: "string option"
  mcp_key :: "string option"
  arg_type :: cmd_arg_type
  api_required :: bool
  mcp_required :: bool
  api_default :: int
  arg_lo :: int
  arg_hi :: int

definition kNoCmdArg :: cmd_arg where
  "kNoCmdArg = \<lparr>api_key = None, mcp_key = None, arg_type = ArgNone, api_required = False, mcp_required = False,
     api_default = 0, arg_lo = 0, arg_hi = 0\<rparr>"

definition kCmdMaxArgs :: nat where "kCmdMaxArgs = 2"

record cmd_info =
  ci_kind :: cmd_kind
  api_name :: "string option"
  mcp_name :: "string option"
  mcp_desc :: "string option"
  ci_args :: "cmd_arg list"

definition int_arg :: "string \<Rightarrow> string \<Rightarrow> bool \<Rightarrow> bool \<Rightarrow> int \<Rightarrow> int \<Rightarrow> int \<Rightarrow> cmd_arg" where
  "int_arg api mcp api_req mcp_req dflt lo hi =
     \<lparr>api_key = Some api, mcp_key = Some mcp, arg_type = ArgInt, api_required = api_req, mcp_required = mcp_req,
      api_default = dflt, arg_lo = lo, arg_hi = hi\<rparr>"

definition bool_arg :: "string \<Rightarrow> string option \<Rightarrow> bool \<Rightarrow> bool \<Rightarrow> cmd_arg" where
  "bool_arg api mcp api_req mcp_req =
     \<lparr>api_key = Some api, mcp_key = mcp, arg_type = ArgBool, api_required = api_req, mcp_required = mcp_req,
      api_default = 0, arg_lo = 0, arg_hi = 0\<rparr>"

definition row :: "cmd_kind \<Rightarrow> string option \<Rightarrow> string option \<Rightarrow> string option \<Rightarrow> cmd_arg list \<Rightarrow> cmd_info" where
  "row kind api mcp desc args = \<lparr>ci_kind = kind, api_name = api, mcp_name = mcp, mcp_desc = desc, ci_args = args\<rparr>"

definition kCommands :: "cmd_info list" where
  "kCommands = [
     row CmdGetVehicleState None (Some ''get_vehicle_state'')
       (Some ''Read cached vehicle state (VIN, link state, SOC, charging). Never wakes the car.'') [kNoCmdArg, kNoCmdArg],
     row CmdWakeUp (Some ''wake_up'') (Some ''wake_up'') (Some ''Wake the vehicle over BLE.'') [kNoCmdArg, kNoCmdArg],
     row CmdChargeStart (Some ''charge_start'') (Some ''charge_start'') (Some ''Start charging.'') [kNoCmdArg, kNoCmdArg],
     row CmdChargeStop (Some ''charge_stop'') (Some ''charge_stop'') (Some ''Stop charging.'') [kNoCmdArg, kNoCmdArg],
     row CmdChargePortOpen (Some ''charge_port_door_open'') (Some ''charge_port_open'') (Some ''Open the charge port door.'')
       [kNoCmdArg, kNoCmdArg],
     row CmdChargePortClose (Some ''charge_port_door_close'') (Some ''charge_port_close'')
       (Some ''Close the charge port door.'') [kNoCmdArg, kNoCmdArg],
     row CmdSetChargingAmps (Some ''set_charging_amps'') (Some ''set_charging_amps'')
       (Some ''Set the charging current in amps.'') [int_arg ''charging_amps'' ''amps'' True True 0 0 48, kNoCmdArg],
     row CmdSetChargeLimit (Some ''set_charge_limit'') (Some ''set_charge_limit'')
       (Some ''Set the charge limit in percent.'') [int_arg ''percent'' ''percent'' False True 80 50 100, kNoCmdArg],
     row CmdSetScheduledCharging (Some ''set_scheduled_charging'') (Some ''set_scheduled_charging'')
       (Some ''Enable/disable daily scheduled charging; start_minutes = minutes after local midnight.'')
       [bool_arg ''enable'' (Some ''enable'') True True, int_arg ''start_minutes'' ''start_minutes'' False False 0 0 1439],
     row CmdDoorLock (Some ''door_lock'') None None [kNoCmdArg, kNoCmdArg],
     row CmdDoorUnlock (Some ''door_unlock'') None None [kNoCmdArg, kNoCmdArg],
     row CmdFlashLights (Some ''flash_lights'') None None [kNoCmdArg, kNoCmdArg],
     row CmdHonkHorn (Some ''honk_horn'') None None [kNoCmdArg, kNoCmdArg],
     row CmdSetSentryMode (Some ''set_sentry_mode'') None None [bool_arg ''on'' None False False, kNoCmdArg],
     row CmdClimateStart (Some ''auto_conditioning_start'') None None [kNoCmdArg, kNoCmdArg],
     row CmdClimateStop (Some ''auto_conditioning_stop'') None None [kNoCmdArg, kNoCmdArg]]"

definition cmd_from_api_name :: "string \<Rightarrow> cmd_info option" where
  "cmd_from_api_name name = find (\<lambda>c. api_name c = Some name) kCommands"

definition cmd_from_mcp_name :: "string option \<Rightarrow> cmd_info option" where
  "cmd_from_mcp_name name = (case name of None \<Rightarrow> None | Some n \<Rightarrow> find (\<lambda>c. mcp_name c = Some n) kCommands)"

definition cmd_row_of_kind :: "cmd_kind \<Rightarrow> cmd_info option" where
  "cmd_row_of_kind k = find (\<lambda>c. ci_kind c = k) kCommands"

subsection \<open>Argument values\<close>

definition strict_rest_int :: "json_number \<Rightarrow> cmd_arg \<Rightarrow> int option" where
  "strict_rest_int value arg = (case value of
       NotFinite \<Rightarrow> None
     | Finite d \<Rightarrow> if \<not> integral d \<or> d < of_int (arg_lo arg) \<or> of_int (arg_hi arg) < d then None else Some \<lfloor>d\<rfloor>)"

definition mcp_integer_syntax :: "json_number \<Rightarrow> bool" where
  "mcp_integer_syntax value = (case value of NotFinite \<Rightarrow> False | Finite d \<Rightarrow> integral d)"

definition mcp_integer_value :: "json_number \<Rightarrow> int \<Rightarrow> int \<Rightarrow> int option" where
  "mcp_integer_value value lo hi = (case value of
       NotFinite \<Rightarrow> None
     | Finite d \<Rightarrow> if \<not> integral d \<or> d < of_int lo \<or> of_int hi < d then None else Some \<lfloor>d\<rfloor>)"

definition mcp_bool_value :: "json_number \<Rightarrow> bool option" where
  "mcp_bool_value value = (case value of
       NotFinite \<Rightarrow> None | Finite d \<Rightarrow> if d \<noteq> 0 \<and> d \<noteq> 1 then None else Some (d = 1))"

text \<open>The argument readers of the REST surface: Left is the problem.\<close>

definition json_int_arg :: "cjson option \<Rightarrow> cmd_arg \<Rightarrow> string + int" where
  "json_int_arg obj arg = (case cjson_get obj (the (api_key arg)) of
       None \<Rightarrow> if api_required arg then Inl ''missing required argument'' else Inr (api_default arg)
     | Some j \<Rightarrow> (case json_command_number j of
           None \<Rightarrow> Inl ''invalid argument''
         | Some d \<Rightarrow>
             if \<not> mcp_integer_syntax d then Inl ''integer required''
             else (case strict_rest_int d arg of None \<Rightarrow> Inl ''argument out of range'' | Some n \<Rightarrow> Inr n)))"

definition json_bool_arg :: "cjson option \<Rightarrow> cmd_arg \<Rightarrow> string + bool" where
  "json_bool_arg obj arg = (case cjson_get obj (the (api_key arg)) of
       None \<Rightarrow> if api_required arg then Inl ''missing required argument'' else Inr False
     | Some (CBool b) \<Rightarrow> Inr b
     | Some j \<Rightarrow> Inl ''invalid argument'')"

text \<open>The positional values: \<open>ival\<close> and \<open>bval\<close>.\<close>

type_synonym arg_values = "int list \<times> bool list"

definition no_values :: arg_values where
  "no_values = (replicate kCmdMaxArgs 0, replicate kCmdMaxArgs False)"

fun rest_args :: "cjson option \<Rightarrow> nat \<Rightarrow> cmd_arg list \<Rightarrow> arg_values \<Rightarrow> (string \<times> string) + arg_values" where
  "rest_args obj i [] v = Inr v"
| "rest_args obj i (a # as) v =
     (if arg_type a = ArgNone \<or> api_key a = None then rest_args obj (i + 1) as v
      else if arg_type a = ArgInt then
        (case json_int_arg obj a of
           Inl problem \<Rightarrow> Inl (problem, the (api_key a))
         | Inr n \<Rightarrow> rest_args obj (i + 1) as ((fst v)[i := n], snd v))
      else
        (case json_bool_arg obj a of
           Inl problem \<Rightarrow> Inl (problem, the (api_key a))
         | Inr b \<Rightarrow> rest_args obj (i + 1) as (fst v, (snd v)[i := b])))"

text \<open>The argument readers of the MCP surface; an absent optional value keeps the zero.\<close>

definition mcp_int_arg :: "cjson option \<Rightarrow> cmd_arg \<Rightarrow> string + int" where
  "mcp_int_arg args a = (case cjson_get args (the (mcp_key a)) of
       None \<Rightarrow> if mcp_required a then Inl ''missing required argument'' else Inr 0
     | Some j \<Rightarrow>
         let number = json_command_number j in
         if number = None \<or> \<not> mcp_integer_syntax (the number) then
           Inl (case j of CNumber n \<Rightarrow> ''integer required'' | CString s \<Rightarrow> ''integer required'' | _ \<Rightarrow> ''invalid argument'')
         else (case mcp_integer_value (the number) (arg_lo a) (arg_hi a) of
             None \<Rightarrow> Inl ''argument out of range'' | Some n \<Rightarrow> Inr n))"

definition mcp_bool_arg :: "cjson option \<Rightarrow> cmd_arg \<Rightarrow> string + bool" where
  "mcp_bool_arg args a = (case cjson_get args (the (mcp_key a)) of
       None \<Rightarrow> if mcp_required a then Inl ''missing required argument'' else Inr False
     | Some (CBool b) \<Rightarrow> Inr b
     | Some (CNumber n) \<Rightarrow> (case mcp_bool_value n of None \<Rightarrow> Inl ''boolean required'' | Some b \<Rightarrow> Inr b)
     | Some j \<Rightarrow> Inl ''invalid argument'')"

fun mcp_args :: "cjson option \<Rightarrow> nat \<Rightarrow> cmd_arg list \<Rightarrow> arg_values \<Rightarrow> (string \<times> string) + arg_values" where
  "mcp_args args i [] v = Inr v"
| "mcp_args args i (a # as) v =
     (if arg_type a = ArgNone \<or> mcp_key a = None then mcp_args args (i + 1) as v
      else if arg_type a = ArgInt then
        (case mcp_int_arg args a of
           Inl problem \<Rightarrow> Inl (problem, the (mcp_key a))
         | Inr n \<Rightarrow> mcp_args args (i + 1) as ((fst v)[i := n], snd v))
      else
        (case mcp_bool_arg args a of
           Inl problem \<Rightarrow> Inl (problem, the (mcp_key a))
         | Inr b \<Rightarrow> mcp_args args (i + 1) as (fst v, (snd v)[i := b])))"

subsection \<open>Dispatch\<close>

datatype vehicle_call = CallWakeUp | CallChargeStart nat | CallChargeStop nat | CallChargePortOpen | CallChargePortClose
  | CallSetChargingAmps int | CallSetChargeLimit int | CallSetScheduledCharging bool int | CallDoorLock | CallDoorUnlock
  | CallFlashLights | CallHonkHorn | CallSetSentryMode bool | CallClimateStart | CallClimateStop

text \<open>The switch: None where it falls through to \<open>false\<close>.\<close>

definition call_of :: "cmd_kind \<Rightarrow> arg_values \<Rightarrow> vehicle_call option" where
  "call_of kind v = (case kind of
       CmdWakeUp \<Rightarrow> Some CallWakeUp
     | CmdChargeStart \<Rightarrow> Some (CallChargeStart 20000)
     | CmdChargeStop \<Rightarrow> Some (CallChargeStop 20000)
     | CmdChargePortOpen \<Rightarrow> Some CallChargePortOpen
     | CmdChargePortClose \<Rightarrow> Some CallChargePortClose
     | CmdSetChargingAmps \<Rightarrow> Some (CallSetChargingAmps (fst v ! 0))
     | CmdSetChargeLimit \<Rightarrow> Some (CallSetChargeLimit (fst v ! 0))
     | CmdSetScheduledCharging \<Rightarrow> Some (CallSetScheduledCharging (snd v ! 0) (fst v ! 1))
     | CmdDoorLock \<Rightarrow> Some CallDoorLock
     | CmdDoorUnlock \<Rightarrow> Some CallDoorUnlock
     | CmdFlashLights \<Rightarrow> Some CallFlashLights
     | CmdHonkHorn \<Rightarrow> Some CallHonkHorn
     | CmdSetSentryMode \<Rightarrow> Some (CallSetSentryMode (snd v ! 0))
     | CmdClimateStart \<Rightarrow> Some CallClimateStart
     | CmdClimateStop \<Rightarrow> Some CallClimateStop
     | CmdGetVehicleState \<Rightarrow> None
     | CmdUnknown \<Rightarrow> None)"

text \<open>The vehicle controller, over a state of its own: a command with its result and the no-op it noted, the
  text of the last error.\<close>

record 's vehicle_ops =
  vo_call :: "vehicle_call \<Rightarrow> 's \<Rightarrow> (bool \<times> command_noop) \<times> 's"
  vo_error :: "'s \<Rightarrow> string"
  vo_set_error :: "string \<Rightarrow> 's \<Rightarrow> 's"

text \<open>Only the two charge commands are given the \<open>no_op\<close> to fill.\<close>

definition execute_vehicle_command ::
    "'s vehicle_ops \<Rightarrow> bool \<Rightarrow> cmd_kind \<Rightarrow> arg_values \<Rightarrow> 's \<Rightarrow> (bool \<times> command_noop) \<times> 's" where
  "execute_vehicle_command ops ready kind v s =
     (if \<not> ready then ((False, NoOpNone), vo_set_error ops ''vehicle service not ready'' s)
      else case call_of kind v of
          None \<Rightarrow> ((False, NoOpNone), s)
        | Some call \<Rightarrow>
            let ((ok, no_op), s') = vo_call ops call s in
            ((ok, if kind = CmdChargeStart \<or> kind = CmdChargeStop then no_op else NoOpNone), s'))"

end
