(* ===== verification/HttpGuard.thy ===== *)
theory HttpGuard
  imports Texts
begin

text \<open>
  The front door of the HTTP server. main/logic/http_route.hpp: the route table; main/logic/http_origin.hpp:
  which browser requests may change state; main/logic/http_body.hpp: the bounded reader of a request body;
  main/http_server.cpp: the dispatcher that puts them in front of every handler. The server library
  (headers, socket, clock) is a parameter: a request is a record of the calls the code makes on it.
\<close>

subsection \<open>Routes\<close>

datatype http_verb = VerbGet | VerbPost | VerbOther

datatype http_route = RouteNotFound | RouteCommand | RouteVehicleData | RouteBodyController | RouteOtaCheck
  | RouteOtaUpdate | RouteOtaUpload | RouteOtaStatus | RouteOtaChangelog | RouteGenKeys | RouteSetTime
  | RouteSetVin | RouteSetMqtt | RouteSetSyslog | RouteSetWifi | RouteSetOta | RouteScan | RouteCoredump
  | RouteCrashDismiss | RouteHeap | RouteMcpPost | RouteMcpGet | RouteVersion | RouteStatus | RouteDiag
  | RouteIndex

definition kFixedHttpRoutes :: "(http_verb \<times> string \<times> http_route) list" where
  "kFixedHttpRoutes =
    [(VerbGet, ''/ota/check'', RouteOtaCheck), (VerbPost, ''/ota/check'', RouteOtaCheck),
     (VerbPost, ''/ota/update'', RouteOtaUpdate), (VerbPost, ''/ota/upload'', RouteOtaUpload),
     (VerbGet, ''/ota/status'', RouteOtaStatus), (VerbGet, ''/ota/changelog'', RouteOtaChangelog),
     (VerbPost, ''/gen_keys'', RouteGenKeys), (VerbPost, ''/set_time'', RouteSetTime),
     (VerbPost, ''/set_vin'', RouteSetVin), (VerbPost, ''/set_mqtt'', RouteSetMqtt),
     (VerbPost, ''/set_syslog'', RouteSetSyslog), (VerbPost, ''/set_wifi'', RouteSetWifi),
     (VerbPost, ''/set_ota'', RouteSetOta), (VerbPost, ''/scan'', RouteScan),
     (VerbGet, ''/coredump'', RouteCoredump), (VerbPost, ''/coredump'', RouteCoredump),
     (VerbPost, ''/crash/dismiss'', RouteCrashDismiss), (VerbGet, ''/heap'', RouteHeap),
     (VerbPost, ''/mcp'', RouteMcpPost), (VerbGet, ''/mcp'', RouteMcpGet),
     (VerbGet, ''/api/proxy/1/version'', RouteVersion), (VerbGet, ''/status'', RouteStatus),
     (VerbGet, ''/diag'', RouteDiag), (VerbPost, ''/diag'', RouteDiag),
     (VerbGet, ''/'', RouteIndex), (VerbGet, ''/index.html'', RouteIndex)]"

definition kVehicleRoutePrefix :: string where "kVehicleRoutePrefix = ''/api/1/vehicles/''"

definition http_path_only :: "string \<Rightarrow> string" where
  "http_path_only uri = (case find_char (CHR ''?'') uri of None \<Rightarrow> uri | Some q \<Rightarrow> take q uri)"

definition http_single_segment :: "string \<Rightarrow> bool" where
  "http_single_segment v \<longleftrightarrow> v \<noteq> [] \<and> find_char (CHR ''/'') v = None"

definition classify_vehicle_route :: "http_verb \<Rightarrow> string \<Rightarrow> http_route" where
  "classify_vehicle_route verb path =
     (if length path \<le> length kVehicleRoutePrefix \<or>
         take (length kVehicleRoutePrefix) path \<noteq> kVehicleRoutePrefix then RouteNotFound
      else let rest = drop (length kVehicleRoutePrefix) path in
        (case find_char (CHR ''/'') rest of
          None \<Rightarrow> RouteNotFound
        | Some slash \<Rightarrow>
            if \<not> http_single_segment (take slash rest) then RouteNotFound
            else let suffix = drop slash rest; command = ''/command/'' in
              if verb = VerbGet \<and> suffix = ''/vehicle_data'' then RouteVehicleData
              else if verb = VerbGet \<and> suffix = ''/body_controller_state'' then RouteBodyController
              else if verb = VerbPost \<and> length command < length suffix \<and> take (length command) suffix = command \<and>
                      http_single_segment (drop (length command) suffix) then RouteCommand
              else RouteNotFound))"

fun fixed_route :: "http_verb \<Rightarrow> string \<Rightarrow> (http_verb \<times> string \<times> http_route) list \<Rightarrow> http_route" where
  "fixed_route verb path [] = RouteNotFound"
| "fixed_route verb path ((v, p, r) # rs) = (if v = verb \<and> p = path then r else fixed_route verb path rs)"

definition classify_http_route :: "http_verb \<Rightarrow> string \<Rightarrow> http_route" where
  "classify_http_route verb path =
     (let vehicle = classify_vehicle_route verb path in
      if vehicle \<noteq> RouteNotFound then vehicle else fixed_route verb path kFixedHttpRoutes)"

definition http_route_requires_owned_host :: "http_verb \<Rightarrow> http_route \<Rightarrow> bool" where
  "http_route_requires_owned_host verb route =
     (if verb \<noteq> VerbGet then False
      else route \<in> {RouteStatus, RouteDiag, RouteHeap, RouteCoredump, RouteOtaStatus, RouteOtaChangelog,
                    RouteBodyController})"

definition http_route_requires_vehicle_runtime :: "http_route \<Rightarrow> bool" where
  "http_route_requires_vehicle_runtime route \<longleftrightarrow>
     route \<in> {RouteCommand, RouteVehicleData, RouteBodyController, RouteGenKeys, RouteSetVin, RouteScan, RouteMcpPost}"

datatype http_ota_conflict = ConflictNone | Reject409 | Reject503

definition http_route_ota_conflict :: "http_route \<Rightarrow> http_ota_conflict" where
  "http_route_ota_conflict route =
     (if route \<in> {RouteSetTime, RouteSetMqtt, RouteSetSyslog, RouteSetWifi, RouteSetOta} then Reject409
      else if route \<in> {RouteGenKeys, RouteSetVin} then Reject503
      else ConflictNone)"

definition http_route_blocks_during_ota_update_409 :: "http_route \<Rightarrow> bool" where
  "http_route_blocks_during_ota_update_409 route \<longleftrightarrow> http_route_ota_conflict route = Reject409"

subsection \<open>Origins\<close>

definition ascii_lower :: "char \<Rightarrow> char" where
  "ascii_lower c = (if 65 \<le> code_of c \<and> code_of c \<le> 90 then char_of (code_of c + (97 - 65)) else c)"

definition ascii_iequal :: "string \<Rightarrow> string \<Rightarrow> bool" where
  "ascii_iequal a b \<longleftrightarrow> length a = length b \<and> list_all2 (\<lambda>x y. ascii_lower x = ascii_lower y) a b"

definition ascii_iends_with :: "string \<Rightarrow> string \<Rightarrow> bool" where
  "ascii_iends_with v suffix \<longleftrightarrow>
     length suffix \<le> length v \<and> ascii_iequal (drop (length v - length suffix) v) suffix"

definition without_default_port :: "string \<Rightarrow> string \<Rightarrow> string" where
  "without_default_port default_port v =
     (if ascii_iends_with v default_port then take (length v - length default_port) v else v)"

definition authority_matches_host :: "string \<Rightarrow> string \<Rightarrow> string \<Rightarrow> bool" where
  "authority_matches_host authority host default_port =
     (if ascii_iequal authority host then True
      else ascii_iequal (without_default_port default_port authority) (without_default_port default_port host))"

definition is_blank :: "char \<Rightarrow> bool" where
  "is_blank c \<longleftrightarrow> c = CHR '' '' \<or> c = CHR 0x09 \<or> c = CHR 0x0D \<or> c = CHR 0x0A"

text \<open>\<open>find_first_of("/?#@ \t\r\n")\<close> finds something.\<close>

definition not_authority :: "char \<Rightarrow> bool" where
  "not_authority c \<longleftrightarrow> c = CHR ''/'' \<or> c = CHR ''?'' \<or> c = CHR ''#'' \<or> c = CHR ''@'' \<or> is_blank c"

definition host_without_port :: "string \<Rightarrow> string" where
  "host_without_port host =
     (if host = [] \<or> find_if not_authority host \<noteq> None then []
      else case rfind_char (CHR '':'') host of
          None \<Rightarrow> host
        | Some colon \<Rightarrow>
            if find_char (CHR '':'') host \<noteq> Some colon \<or> colon = 0 \<or> colon + 1 = length host then []
            else if \<not> list_all is_digit_char (drop (colon + 1) host) then []
            else take colon host)"

definition kDeviceHostname :: string where "kDeviceHostname = ''tesla-key-esp32''"

definition device_host_allowed :: "string \<Rightarrow> string list \<Rightarrow> string \<Rightarrow> bool" where
  "device_host_allowed host device_ipv4s mdns_hostname =
     (let name = host_without_port host in
      if name = [] then False
      else if ascii_iequal name kDeviceHostname \<or>
              (mdns_hostname \<noteq> [] \<and> (ascii_iequal name mdns_hostname \<or>
                (length name = length mdns_hostname + 6 \<and>
                 ascii_iequal (take (length mdns_hostname) name) mdns_hostname \<and>
                 ascii_iequal (drop (length mdns_hostname) name) ''.local''))) then True
      else list_ex (\<lambda>ip. ip \<noteq> [] \<and> ascii_iequal name ip) device_ipv4s)"

text \<open>The authority and the default port of an \<open>Origin\<close> and of a \<open>Referer\<close>.\<close>

definition strip_scheme :: "string \<Rightarrow> (string \<times> string) option" where
  "strip_scheme url =
     (if 7 \<le> length url \<and> ascii_iequal (take 7 url) ''http://'' then Some (drop 7 url, '':80'')
      else if 8 \<le> length url \<and> ascii_iequal (take 8 url) ''https://'' then Some (drop 8 url, '':443'')
      else None)"

definition extract_origin_authority :: "string \<Rightarrow> (string \<times> string) option" where
  "extract_origin_authority origin = (case strip_scheme origin of
       None \<Rightarrow> None
     | Some (authority, default_port) \<Rightarrow>
         if authority = [] \<or> find_if not_authority authority \<noteq> None then None
         else Some (authority, default_port))"

definition extract_referer_authority :: "string \<Rightarrow> (string \<times> string) option" where
  "extract_referer_authority referer = (case strip_scheme referer of
       None \<Rightarrow> None
     | Some (rest, default_port) \<Rightarrow>
         let authority = (case find_if (\<lambda>c. c = CHR ''/'' \<or> c = CHR ''?'' \<or> c = CHR ''#'') rest of
                            None \<Rightarrow> rest | Some e \<Rightarrow> take e rest) in
         if authority = [] \<or> find_if (\<lambda>c. c = CHR ''@'' \<or> is_blank c) authority \<noteq> None then None
         else Some (authority, default_port))"

text \<open>One of the two source headers: absent, or present and tied to the request's own host.\<close>

definition source_acceptable :: "bool \<Rightarrow> string \<Rightarrow> string \<Rightarrow> (string \<times> string) option \<Rightarrow> bool" where
  "source_acceptable host_owned host header parsed =
     (if header = [] then True
      else case parsed of
          None \<Rightarrow> False
        | Some (auth, port) \<Rightarrow> if \<not> host_owned then False else authority_matches_host auth host port)"

definition mutation_request_allowed_for_owned_host ::
    "bool \<Rightarrow> bool \<Rightarrow> string \<Rightarrow> string \<Rightarrow> string \<Rightarrow> string \<Rightarrow> bool \<Rightarrow> bool" where
  "mutation_request_allowed_for_owned_host is_post host_owned host origin fetch_site referer has_custom_header =
     (if ascii_iequal fetch_site ''cross-site'' then False
      else if ascii_iequal origin ''null'' then False
      else if \<not> source_acceptable host_owned host origin (extract_origin_authority origin) then False
      else if \<not> source_acceptable host_owned host referer (extract_referer_authority referer) then False
      else if origin \<noteq> [] then True
      else if referer \<noteq> [] then True
      else if is_post then
        (if fetch_site = [] then True
         else if ascii_iequal fetch_site ''same-origin'' \<or> ascii_iequal fetch_site ''none'' then host_owned
         else False)
      else if has_custom_header then host_owned
      else if ascii_iequal fetch_site ''same-origin'' \<or> ascii_iequal fetch_site ''none'' then host_owned
      else False)"

definition mutation_request_allowed ::
    "bool \<Rightarrow> string \<Rightarrow> string \<Rightarrow> string \<Rightarrow> string \<Rightarrow> bool \<Rightarrow> string list \<Rightarrow> string \<Rightarrow> bool" where
  "mutation_request_allowed is_post host origin fetch_site referer has_custom_header ips mdns =
     mutation_request_allowed_for_owned_host is_post (device_host_allowed host ips mdns) host origin fetch_site
       referer has_custom_header"

text \<open>The query parameter scan; the loop consumes an item and its separator each time.\<close>

definition query_item_is :: "string \<Rightarrow> string \<Rightarrow> string \<Rightarrow> bool" where
  "query_item_is key v item = (case find_char (CHR ''='') item of
       None \<Rightarrow> False
     | Some equals \<Rightarrow> ascii_iequal (take equals item) key \<and> drop (equals + 1) item = v)"

function query_scan :: "string \<Rightarrow> string \<Rightarrow> string \<Rightarrow> bool" where
  "query_scan key v rest =
     (if rest = [] then False
      else let amp = find_char (CHR ''&'') rest;
               item = (case amp of None \<Rightarrow> rest | Some a \<Rightarrow> take a rest) in
        if query_item_is key v item then True
        else case amp of None \<Rightarrow> False | Some a \<Rightarrow> query_scan key v (drop (a + 1) rest))"
  by pat_completeness auto
termination
  by (relation "measure (\<lambda>(k, v, r). length r)") auto

declare query_scan.simps [simp del]

definition query_has_exact :: "string \<Rightarrow> string \<Rightarrow> string \<Rightarrow> bool" where
  "query_has_exact uri key v = (case find_char (CHR ''?'') uri of
       None \<Rightarrow> False
     | Some q \<Rightarrow> let rest = drop (q + 1) uri in
         query_scan key v (case find_char (CHR ''#'') rest of None \<Rightarrow> rest | Some h \<Rightarrow> take h rest))"

definition mutation_origin_required :: "bool \<Rightarrow> string \<Rightarrow> bool" where
  "mutation_origin_required is_post uri =
     (if is_post then True
      else let path = http_path_only uri in
        if path = ''/ota/check'' then True
        else if path = ''/diag'' then
          query_has_exact uri ''clear'' ''1'' \<or> query_has_exact uri ''verbose'' ''0'' \<or>
          query_has_exact uri ''verbose'' ''1''
        else path = ''/coredump'' \<and> query_has_exact uri ''clear'' ''1'')"

subsection \<open>The dispatcher\<close>

text \<open>What the code asks the server library about a request: the length of a header and its value in a
  buffer (None for an error).\<close>

record http_request =
  req_verb :: http_verb
  req_uri :: string
  hdr_len :: "string \<Rightarrow> nat"
  hdr_str :: "string \<Rightarrow> nat \<Rightarrow> string option"

text \<open>The device around it: the address of the active interface, of the socket the request came in on, the
  name mDNS answers to (each empty when unknown), and whether the vehicle runtime was admitted.\<close>

record http_device =
  active_netif_ip :: string
  socket_ip :: string
  mdns_name :: string
  vehicle_runtime_ready :: bool

definition uri_path :: "string \<Rightarrow> nat \<Rightarrow> string" where
  "uri_path uri n =
     (let path = http_path_only uri; copy = (if length path < n - 1 then length path else n - 1) in take copy path)"

definition read_header_bounded :: "http_request \<Rightarrow> string \<Rightarrow> nat \<Rightarrow> string option" where
  "read_header_bounded req name capacity =
     (let len = hdr_len req name in
      if len = 0 then Some []
      else if capacity \<le> len then None
      else hdr_str req name capacity)"

definition owned_host_allowed :: "http_device \<Rightarrow> string \<Rightarrow> bool" where
  "owned_host_allowed dev host = device_host_allowed host [active_netif_ip dev, socket_ip dev] (mdns_name dev)"

definition origin_allowed_for_owned_addresses ::
    "http_device \<Rightarrow> http_request \<Rightarrow> bool \<Rightarrow> string \<Rightarrow> string \<Rightarrow> string \<Rightarrow> bool \<Rightarrow> bool" where
  "origin_allowed_for_owned_addresses dev req is_post host origin fetch_site has_custom_header =
     (case read_header_bounded req ''Referer'' 192 of
       None \<Rightarrow> False
     | Some referer \<Rightarrow>
         mutation_request_allowed_for_owned_host is_post (owned_host_allowed dev host) host origin fetch_site
           referer has_custom_header)"

definition diagnostic_host_allowed :: "http_device \<Rightarrow> http_request \<Rightarrow> bool" where
  "diagnostic_host_allowed dev req = (case read_header_bounded req ''Host'' 128 of
       None \<Rightarrow> False | Some host \<Rightarrow> owned_host_allowed dev host)"

definition browser_mutation_allowed :: "http_device \<Rightarrow> http_request \<Rightarrow> bool" where
  "browser_mutation_allowed dev req =
     (case read_header_bounded req ''Origin'' 192 of
       None \<Rightarrow> False
     | Some origin \<Rightarrow> (case read_header_bounded req ''Sec-Fetch-Site'' 32 of
         None \<Rightarrow> False
       | Some fetch_site \<Rightarrow>
           let has_custom_header = 0 < hdr_len req ''X-Requested-With'' in
           (case read_header_bounded req ''Host'' 128 of
             None \<Rightarrow> False
           | Some host \<Rightarrow> origin_allowed_for_owned_addresses dev req (req_verb req = VerbPost) host origin
                            fetch_site has_custom_header)))"

datatype dispatch_result = CrossOrigin403 | HostRequired403 | Runtime503 | Handled http_route | NotFound404

definition handle_all_dispatch :: "http_device \<Rightarrow> http_request \<Rightarrow> dispatch_result" where
  "handle_all_dispatch dev req =
     (let path = uri_path (req_uri req) 128 in
      if mutation_origin_required (req_verb req = VerbPost) (req_uri req) \<and> \<not> browser_mutation_allowed dev req
      then CrossOrigin403
      else let verb = req_verb req; route = classify_http_route verb path in
        if http_route_requires_owned_host verb route \<and> \<not> diagnostic_host_allowed dev req then HostRequired403
        else if http_route_requires_vehicle_runtime route \<and> \<not> vehicle_runtime_ready dev then Runtime503
        else if route = RouteNotFound then NotFound404
        else Handled route)"

subsection \<open>Bodies\<close>

text \<open>One call of the receiver: the bytes it wrote, nothing within the socket timeout, or an error.\<close>

datatype body_chunk = ChunkData string | ChunkTimeout | ChunkError

datatype body_read_status = BodyOk | BodyEmpty | BodyTooLarge | BodyNoMemory | BodyReceiveFailed

definition BODY_MAX_IDLE :: nat where "BODY_MAX_IDLE = 2"
definition BODY_MAX_DURATION_MS :: u64 where "BODY_MAX_DURATION_MS = 15000"
definition MAX_BODY_LEN :: nat where "MAX_BODY_LEN = 2048"

definition http_body_fits_buffer :: "nat \<Rightarrow> nat \<Rightarrow> bool" where
  "http_body_fits_buffer want capacity \<longleftrightarrow> 0 < want \<and> want < capacity"

definition http_body_has_embedded_nul :: "string \<Rightarrow> bool" where
  "http_body_has_embedded_nul data \<longleftrightarrow> list_ex (\<lambda>c. c = CHR 0x00) data"

text \<open>The receiver and the clock are calls on the state of the connection.\<close>

record 's body_source =
  body_recv :: "nat \<Rightarrow> 's \<Rightarrow> body_chunk \<times> 's"
  body_now :: "'s \<Rightarrow> u64 \<times> 's"

function http_body_loop ::
    "'s body_source \<Rightarrow> u64 \<Rightarrow> nat \<Rightarrow> string \<Rightarrow> nat \<Rightarrow> 's \<Rightarrow> string option \<times> 's" where
  "http_body_loop src started want got idle s =
     (if want \<le> length got then (Some got, s)
      else let (t1, s1) = body_now src s in
        if BODY_MAX_DURATION_MS \<le> t1 - started then (None, s1)
        else let (c, s2) = body_recv src (want - length got) s1; (t2, s3) = body_now src s2 in
          if BODY_MAX_DURATION_MS \<le> t2 - started then (None, s3)
          else (case c of
              ChunkTimeout \<Rightarrow>
                if BODY_MAX_IDLE < idle + 1 then (None, s3)
                else http_body_loop src started want got (idle + 1) s3
            | ChunkError \<Rightarrow> (None, s3)
            | ChunkData d \<Rightarrow>
                if d = [] \<or> want - length got < length d then (None, s3)
                else http_body_loop src started want (got @ d) 0 s3))"
  by pat_completeness auto
termination
  by (relation "measure (\<lambda>(src, started, want, got, idle, s). 3 * (want - length got) + (2 - idle))")
    (auto simp: BODY_MAX_IDLE_def Suc_le_eq not_less simp flip: length_greater_0_conv)

declare http_body_loop.simps [simp del]

definition http_body_read :: "'s body_source \<Rightarrow> nat \<Rightarrow> nat \<Rightarrow> 's \<Rightarrow> string option \<times> 's" where
  "http_body_read src cap want s =
     (if \<not> http_body_fits_buffer want cap then (None, s)
      else let (started, s1) = body_now src s in http_body_loop src started want [] 0 s1)"

text \<open>\<open>allocate\<close> is whether the allocation of the buffer succeeds; the buffer is released on failure.\<close>

definition http_body_receive ::
    "'s body_source \<Rightarrow> nat \<Rightarrow> nat \<Rightarrow> bool \<Rightarrow> 's \<Rightarrow> (string option \<times> body_read_status) \<times> 's" where
  "http_body_receive src want max_body_len allocated s =
     (if want = 0 then ((None, BodyEmpty), s)
      else if max_body_len < want then ((None, BodyTooLarge), s)
      else if \<not> allocated then ((None, BodyNoMemory), s)
      else case http_body_read src (want + 1) want s of
          (None, s1) \<Rightarrow> ((None, BodyReceiveFailed), s1)
        | (Some body, s1) \<Rightarrow> ((Some body, BodyOk), s1))"

definition body_read_http_status :: "body_read_status \<Rightarrow> nat" where
  "body_read_http_status status = (case status of
       BodyTooLarge \<Rightarrow> 413 | BodyNoMemory \<Rightarrow> 503 | BodyOk \<Rightarrow> 200 | _ \<Rightarrow> 400)"

definition body_read_reason :: "body_read_status \<Rightarrow> string" where
  "body_read_reason status = (case status of
       BodyEmpty \<Rightarrow> ''missing body''
     | BodyTooLarge \<Rightarrow> ''request body too large''
     | BodyNoMemory \<Rightarrow> ''out of memory''
     | BodyReceiveFailed \<Rightarrow> ''request body read failed''
     | BodyOk \<Rightarrow> [])"

subsection \<open>Routes: lemmas\<close>

lemma http_single_segment_iff: "http_single_segment v \<longleftrightarrow> v \<noteq> [] \<and> CHR ''/'' \<notin> set v"
  by (simp add: http_single_segment_def find_char_None)

lemma vehicle_route_split:
  "classify_vehicle_route verb path \<noteq> RouteNotFound \<Longrightarrow>
   \<exists>vid suffix. path = kVehicleRoutePrefix @ vid @ CHR ''/'' # suffix \<and> http_single_segment vid"
proof -
  let ?rest = "drop (length kVehicleRoutePrefix) path"
  assume r: "classify_vehicle_route verb path \<noteq> RouteNotFound"
  then obtain slash where p: "take (length kVehicleRoutePrefix) path = kVehicleRoutePrefix"
      "find_char (CHR ''/'') ?rest = Some slash" "http_single_segment (take slash ?rest)"
    by (auto simp: classify_vehicle_route_def Let_def split: if_splits option.splits)
  from p(2) obtain a b where ab: "?rest = a @ CHR ''/'' # b" "slash = length a" by (auto simp: find_char_split)
  have "path = kVehicleRoutePrefix @ ?rest" using p(1) by (metis append_take_drop_id)
  with ab p(3) show ?thesis by auto
qed

lemma vehicle_route_eval:
  assumes "http_single_segment vid"
  shows "classify_vehicle_route verb (kVehicleRoutePrefix @ vid @ CHR ''/'' # suffix) =
    (if verb = VerbGet \<and> suffix = ''vehicle_data'' then RouteVehicleData
     else if verb = VerbGet \<and> suffix = ''body_controller_state'' then RouteBodyController
     else if verb = VerbPost \<and> (\<exists>cmd. suffix = ''command/'' @ cmd \<and> http_single_segment cmd) then RouteCommand
     else RouteNotFound)"
proof -
  have "find_char (CHR ''/'') (vid @ CHR ''/'' # suffix) = Some (length vid)"
    using assms by (auto simp: http_single_segment_iff find_char_append)
  moreover have "(\<exists>cmd. suffix = ''command/'' @ cmd \<and> http_single_segment cmd) \<longleftrightarrow>
      length ''/command/'' < length (CHR ''/'' # suffix) \<and> take (length ''/command/'') (CHR ''/'' # suffix) = ''/command/'' \<and>
      http_single_segment (drop (length ''/command/'') (CHR ''/'' # suffix))" (is "?l \<longleftrightarrow> ?r")
  proof
    assume ?l
    then show ?r by (auto simp: http_single_segment_iff)
  next
    assume r: ?r
    then have "CHR ''/'' # suffix = ''/command/'' @ drop (length ''/command/'') (CHR ''/'' # suffix)"
      by (metis append_take_drop_id)
    then have "suffix = ''command/'' @ drop (length ''/command/'') (CHR ''/'' # suffix)" by simp
    with r show ?l by blast
  qed
  ultimately show ?thesis using assms
    by (simp add: classify_vehicle_route_def Let_def)
qed

lemma fixed_not_command: "fixed_route verb path kFixedHttpRoutes \<noteq> RouteCommand"
  by (auto simp: kFixedHttpRoutes_def)

text \<open>A path reaches the command handler if and only if it is posted and reads
  \<open>/api/1/vehicles/<vehicle>/command/<name>\<close> with one non-empty segment each for the vehicle and the name:
  no other path, verb or nesting does.\<close>

theorem command_route_exact:
  "classify_http_route verb path = RouteCommand \<longleftrightarrow>
   verb = VerbPost \<and> (\<exists>vid cmd. path = ''/api/1/vehicles/'' @ vid @ ''/command/'' @ cmd \<and>
     http_single_segment vid \<and> http_single_segment cmd)"
proof
  assume r: "classify_http_route verb path = RouteCommand"
  then have v: "classify_vehicle_route verb path = RouteCommand"
    using fixed_not_command [of verb path] by (auto simp: classify_http_route_def Let_def split: if_splits)
  with vehicle_route_split [of verb path] obtain vid suffix where
    p: "path = kVehicleRoutePrefix @ vid @ CHR ''/'' # suffix" "http_single_segment vid" by auto
  from v show "verb = VerbPost \<and> (\<exists>vid cmd. path = ''/api/1/vehicles/'' @ vid @ ''/command/'' @ cmd \<and>
      http_single_segment vid \<and> http_single_segment cmd)"
    unfolding p(1) vehicle_route_eval [OF p(2)] using p(2) by (auto simp: kVehicleRoutePrefix_def split: if_splits)
next
  assume "verb = VerbPost \<and> (\<exists>vid cmd. path = ''/api/1/vehicles/'' @ vid @ ''/command/'' @ cmd \<and>
      http_single_segment vid \<and> http_single_segment cmd)"
  then obtain vid cmd where p: "verb = VerbPost" "path = kVehicleRoutePrefix @ vid @ CHR ''/'' # ''command/'' @ cmd"
      "http_single_segment vid" "http_single_segment cmd" by (auto simp: kVehicleRoutePrefix_def)
  then show "classify_http_route verb path = RouteCommand"
    using vehicle_route_eval [OF p(3), of verb "''command/'' @ cmd"] by (simp add: classify_http_route_def)
qed

text \<open>
  The dispatcher classifies the first 127 characters of the path. The comment on \<open>uri_path\<close> says that
  truncation only turns a route into a 404; it can also turn a 404 into a route, when the part that is cut
  off is what made the path invalid.
\<close>

definition overlong_path :: string where
  "overlong_path = ''/api/1/vehicles/'' @ replicate 93 (CHR ''v'') @ ''/command/honk_horn/x''"

lemma truncation_creates_route:
  "classify_http_route VerbPost (http_path_only overlong_path) = RouteNotFound \<and>
   classify_http_route VerbPost (uri_path overlong_path 128) = RouteCommand"
  by code_simp

subsection \<open>Host names\<close>

lemma ascii_iequal_map: "ascii_iequal a b \<longleftrightarrow> map ascii_lower a = map ascii_lower b"
  by (auto simp: ascii_iequal_def list_all2_conv_all_nth list_eq_iff_nth_eq)

lemma ascii_lower_code: "code_of (ascii_lower c) = (if 65 \<le> code_of c \<and> code_of c \<le> 90 then code_of c + 32 else code_of c)"
  by (auto simp: ascii_lower_def)

text \<open>Characters that lower-casing neither produces nor changes.\<close>

lemma ascii_lower_fixed:
  assumes "code_of x < 65"
  shows "ascii_lower c = x \<longleftrightarrow> c = x" "ascii_lower x = x"
proof -
  show x: "ascii_lower x = x" using assms by (simp add: ascii_lower_def)
  show "ascii_lower c = x \<longleftrightarrow> c = x"
  proof
    assume "ascii_lower c = x"
    moreover from this have "\<not> (65 \<le> code_of c \<and> code_of c \<le> 90)" using ascii_lower_code [of c] assms by auto
    ultimately show "c = x" by (simp add: ascii_lower_def)
  qed (use x in simp)
qed

text \<open>The name in an authority: what comes before the first colon.\<close>

definition host_name :: "string \<Rightarrow> string" where "host_name = takeWhile (\<lambda>c. c \<noteq> CHR '':'')"

lemma host_name_lower: "host_name (map ascii_lower s) = map ascii_lower (host_name s)"
  by (induction s) (auto simp: host_name_def ascii_lower_fixed)

lemma host_name_iequal: "ascii_iequal a b \<Longrightarrow> ascii_iequal (host_name a) (host_name b)"
  by (metis ascii_iequal_map host_name_lower)

lemma host_name_default_port: "host_name (without_default_port (CHR '':'' # port) v) = host_name v"
proof (cases "ascii_iends_with v (CHR '':'' # port)")
  case True
  let ?k = "length v - length (CHR '':'' # port)"
  from True have "map ascii_lower (drop ?k v) = map ascii_lower (CHR '':'' # port)"
    by (auto simp: ascii_iends_with_def ascii_iequal_map)
  then obtain c cs where "drop ?k v = c # cs" "ascii_lower c = CHR '':''"
    by (auto simp: ascii_lower_fixed)
  then have "drop ?k v = CHR '':'' # cs" by (simp add: ascii_lower_fixed)
  then have "v = take ?k v @ CHR '':'' # cs" by (metis append_take_drop_id)
  then have "host_name v = host_name (take ?k v)" by (metis (mono_tags, lifting) host_name_def takeWhile_tail)
  with True show ?thesis by (simp add: without_default_port_def)
qed (simp add: without_default_port_def)

lemma strip_scheme_port: "strip_scheme url = Some (rest, port) \<Longrightarrow> port = '':80'' \<or> port = '':443''"
  by (auto simp: strip_scheme_def split: if_splits)

lemma matching_host_name:
  assumes "authority_matches_host auth host port" "port = '':80'' \<or> port = '':443''"
  shows "ascii_iequal (host_name auth) (host_name host)"
  using assms host_name_iequal [of auth host]
    host_name_iequal [of "without_default_port port auth" "without_default_port port host"]
  by (auto simp: authority_matches_host_def host_name_default_port split: if_splits)

text \<open>What it is for a name to be the device's own.\<close>

definition names_device :: "http_device \<Rightarrow> string \<Rightarrow> bool" where
  "names_device dev name \<longleftrightarrow> name \<noteq> [] \<and> (ascii_iequal name ''tesla-key-esp32'' \<or>
     (mdns_name dev \<noteq> [] \<and> (ascii_iequal name (mdns_name dev) \<or> ascii_iequal name (mdns_name dev @ ''.local''))) \<or>
     (\<exists>ip \<in> {active_netif_ip dev, socket_ip dev}. ip \<noteq> [] \<and> ascii_iequal name ip))"

lemma host_without_port_name: "host_without_port host \<noteq> [] \<Longrightarrow> host_without_port host = host_name host"
proof -
  assume h: "host_without_port host \<noteq> []"
  show ?thesis
  proof (cases "rfind_char (CHR '':'') host")
    case None
    then have "host_name host = host" by (auto simp: rfind_char_None host_name_def takeWhile_eq_all_conv)
    with None h show ?thesis by (auto simp: host_without_port_def split: if_splits)
  next
    case (Some colon)
    with h have "find_char (CHR '':'') host = Some colon" "host_without_port host = take colon host"
      by (auto simp: host_without_port_def split: if_splits)
    then show ?thesis
      by (auto simp: find_char_split host_name_def takeWhile_tail intro!: takeWhile_eq_all_conv [THEN iffD2, symmetric])
  qed
qed

lemma owned_host_name: "owned_host_allowed dev host \<Longrightarrow> names_device dev (host_name host)"
proof -
  assume o: "owned_host_allowed dev host"
  then have n: "host_without_port host \<noteq> []" by (auto simp: owned_host_allowed_def device_host_allowed_def Let_def)
  have "ascii_iequal n (m @ ''.local'')" if "length n = length m + 6" "ascii_iequal (take (length m) n) m"
      "ascii_iequal (drop (length m) n) ''.local''" for n m
    using that by (simp only: ascii_iequal_map map_append) (metis append_take_drop_id map_append)
  with o show ?thesis unfolding host_without_port_name [OF n, symmetric]
    by (auto simp: owned_host_allowed_def device_host_allowed_def names_device_def kDeviceHostname_def Let_def
        split: if_splits)
qed

lemma names_device_iequal: "ascii_iequal a b \<Longrightarrow> names_device dev b \<Longrightarrow> names_device dev a"
  by (auto simp: names_device_def ascii_iequal_map)

subsection \<open>No request of a foreign page changes anything\<close>

text \<open>The headers a request really has, and that the server library reports them: the length of a value, and
  the value itself when the buffer holds it.\<close>

definition headers_are :: "http_request \<Rightarrow> (string \<Rightarrow> string) \<Rightarrow> bool" where
  "headers_are req h \<longleftrightarrow> (\<forall>name. hdr_len req name = length (h name) \<and>
     (\<forall>capacity. length (h name) < capacity \<longrightarrow> hdr_str req name capacity = Some (h name)))"

lemma read_header_value:
  "headers_are req h \<Longrightarrow> read_header_bounded req name capacity = Some v \<Longrightarrow> v = h name"
  by (auto simp: headers_are_def read_header_bounded_def Let_def not_le split: if_splits)

text \<open>A request a browser sends from a page that is not the device's: it says so itself, or it carries an
  \<open>Origin\<close> or a \<open>Referer\<close> that is not a plain authority with one of the device's own names.\<close>

definition foreign_source :: "http_device \<Rightarrow> string \<Rightarrow> (string \<times> string) option \<Rightarrow> bool" where
  "foreign_source dev header parsed \<longleftrightarrow> header \<noteq> [] \<and>
     (case parsed of None \<Rightarrow> True | Some (auth, port) \<Rightarrow> \<not> names_device dev (host_name auth))"

definition foreign_page :: "http_device \<Rightarrow> (string \<Rightarrow> string) \<Rightarrow> bool" where
  "foreign_page dev h \<longleftrightarrow> ascii_iequal (h ''Sec-Fetch-Site'') ''cross-site'' \<or>
     foreign_source dev (h ''Origin'') (extract_origin_authority (h ''Origin'')) \<or>
     foreign_source dev (h ''Referer'') (extract_referer_authority (h ''Referer''))"

lemma acceptable_source_own:
  assumes "source_acceptable (owned_host_allowed dev host) host header parsed"
    "parsed = extract_origin_authority header \<or> parsed = extract_referer_authority header"
  shows "\<not> foreign_source dev header parsed"
proof (cases "header = []")
  case False
  with assms(1) obtain auth port where p: "parsed = Some (auth, port)" "owned_host_allowed dev host"
      "authority_matches_host auth host port"
    by (auto simp: source_acceptable_def split: option.splits if_splits)
  have "port = '':80'' \<or> port = '':443''"
    using assms(2) p(1) strip_scheme_port [of header]
    by (auto simp: extract_origin_authority_def extract_referer_authority_def Let_def split: option.splits if_splits)
  from names_device_iequal [OF matching_host_name [OF p(3) this] owned_host_name [OF p(2)]] p(1)
  show ?thesis by (simp add: foreign_source_def)
qed (simp add: foreign_source_def)

lemma browser_guard:
  assumes "headers_are req h" "browser_mutation_allowed dev req"
  shows "\<not> foreign_page dev h"
proof -
  obtain origin fetch host referer where r:
      "read_header_bounded req ''Origin'' 192 = Some origin" "read_header_bounded req ''Sec-Fetch-Site'' 32 = Some fetch"
      "read_header_bounded req ''Host'' 128 = Some host" "read_header_bounded req ''Referer'' 192 = Some referer"
      "mutation_request_allowed_for_owned_host (req_verb req = VerbPost) (owned_host_allowed dev host) host origin
         fetch referer (0 < hdr_len req ''X-Requested-With'')"
    using assms(2) by (auto simp: browser_mutation_allowed_def origin_allowed_for_owned_addresses_def Let_def
        split: option.splits)
  note v = read_header_value [OF assms(1)]
  have "\<not> ascii_iequal fetch ''cross-site''"
      "source_acceptable (owned_host_allowed dev host) host origin (extract_origin_authority origin)"
      "source_acceptable (owned_host_allowed dev host) host referer (extract_referer_authority referer)"
    using r(5) by (auto simp: mutation_request_allowed_for_owned_host_def split: if_splits)
  then show ?thesis
    using acceptable_source_own v [OF r(1)] v [OF r(2)] v [OF r(4)] unfolding foreign_page_def by blast
qed

lemma diagnostic_guard:
  "headers_are req h \<Longrightarrow> diagnostic_host_allowed dev req \<Longrightarrow> names_device dev (host_name (h ''Host''))"
  using read_header_value [of req h "''Host''" 128] owned_host_name
  by (auto simp: diagnostic_host_allowed_def split: option.splits)

text \<open>C12: A request that reaches a handler did not come from a foreign page when it may change state (every
  POST, the update check, a diagnostic or core-dump read that clears), names the device itself as its host
  when it reads diagnostics, and finds the vehicle runtime admitted when it acts on the car. In particular a
  page that rebinds its own name to the device's address is refused.\<close>

theorem http_dispatch_guarded:
  assumes "headers_are req h" "handle_all_dispatch dev req = Handled route"
  shows "\<not> (mutation_origin_required (req_verb req = VerbPost) (req_uri req) \<and> foreign_page dev h) \<and>
    (http_route_requires_owned_host (req_verb req) route \<longrightarrow> names_device dev (host_name (h ''Host''))) \<and>
    (http_route_requires_vehicle_runtime route \<longrightarrow> vehicle_runtime_ready dev)"
  using assms browser_guard [OF assms(1), of dev] diagnostic_guard [OF assms(1), of dev]
  by (auto simp: handle_all_dispatch_def Let_def split: if_splits)

definition sample_headers :: "string \<Rightarrow> string" where
  "sample_headers name =
     (if name = ''Host'' then ''192.168.4.20:80'' else if name = ''Origin'' then ''http://192.168.4.20'' else [])"

definition sample_request :: http_request where
  "sample_request = \<lparr>req_verb = VerbPost, req_uri = ''/set_mqtt'', hdr_len = \<lambda>n. length (sample_headers n),
     hdr_str = \<lambda>n c. if length (sample_headers n) < c then Some (sample_headers n) else None\<rparr>"

definition sample_device :: http_device where
  "sample_device = \<lparr>active_netif_ip = ''192.168.4.20'', socket_ip = [], mdns_name = ''tesla-key-esp32-2'',
     vehicle_runtime_ready = True\<rparr>"

lemma sample_dispatch: "handle_all_dispatch sample_device sample_request = Handled RouteSetMqtt"
  by code_simp

theorem http_dispatch_guarded_witness:
  "\<not> foreign_page sample_device sample_headers"
proof -
  have "headers_are sample_request sample_headers" by (simp add: headers_are_def sample_request_def)
  from http_dispatch_guarded [OF this sample_dispatch] show ?thesis
    by (simp add: sample_request_def mutation_origin_required_def)
qed

subsection \<open>Bodies: the reader\<close>

definition chunk_data :: "body_chunk \<Rightarrow> string" where
  "chunk_data c = (case c of ChunkData d \<Rightarrow> d | _ \<Rightarrow> [])"

text \<open>A connection as the list of what its next receives give, with the clock after each.\<close>

type_synonym body_script = "(u64 \<times> body_chunk) list \<times> u64"

definition script_source :: "body_script body_source" where
  "script_source = \<lparr>
     body_recv = (\<lambda>want (events, clock). case events of [] \<Rightarrow> (ChunkError, ([], clock))
                    | (t, c) # rest \<Rightarrow> (c, (rest, t))),
     body_now = (\<lambda>(events, clock). (clock, (events, clock)))\<rparr>"

lemma script_now: "body_now script_source (es, t) = (t, (es, t))"
  and script_recv: "body_recv script_source n ((t', c) # es, t) = (c, (es, t'))"
    "body_recv script_source n ([], t) = (ChunkError, ([], t))"
  by (simp_all add: script_source_def)

definition received :: "(u64 \<times> body_chunk) list \<Rightarrow> string" where
  "received events = concat (map (\<lambda>(u, c). chunk_data c) events)"

lemma received_simps [simp]: "received [] = []" "received ((u, c) # es) = chunk_data c @ received es"
  by (simp_all add: received_def)

lemma body_loop_script:
  assumes "http_body_loop script_source started want got idle (es, t) = (Some body, (es', t'))"
    "length got \<le> want" "idle \<le> 2"
  shows "\<exists>used. es = used @ es' \<and> body = got @ received used \<and> length body = want \<and>
    list_all (\<lambda>(u, c). u - started < BODY_MAX_DURATION_MS) used \<and>
    length used + idle \<le> 3 * (want - length got) + 2"
  using assms
proof (induction es arbitrary: got idle t)
  case Nil
  then show ?case
    by (subst (asm) http_body_loop.simps) (auto simp: script_now script_recv split: if_splits)
next
  case (Cons e es)
  obtain u c where e: "e = (u, c)" by (cases e)
  show ?case
  proof (cases "want \<le> length got")
    case True
    with Cons.prems show ?thesis by (subst (asm) http_body_loop.simps) auto
  next
    case False
    with Cons.prems(1) have u: "u - started < BODY_MAX_DURATION_MS" and
      rest: "(case c of
              ChunkTimeout \<Rightarrow> if BODY_MAX_IDLE < idle + 1 then (None, (es, u))
                else http_body_loop script_source started want got (idle + 1) (es, u)
            | ChunkError \<Rightarrow> (None, (es, u))
            | ChunkData d \<Rightarrow> if d = [] \<or> want - length got < length d then (None, (es, u))
                else http_body_loop script_source started want (got @ d) 0 (es, u)) = (Some body, (es', t'))"
      by (subst (asm) http_body_loop.simps; simp add: e script_now script_recv split: if_splits)+
    show ?thesis
    proof (cases c)
      case (ChunkData d)
      with rest have d: "d \<noteq> []" "length d \<le> want - length got"
          "http_body_loop script_source started want (got @ d) 0 (es, u) = (Some body, (es', t'))"
        by (auto split: if_splits)
      have "length (got @ d) \<le> want" using d(2) False by simp
      with Cons.IH [OF d(3)] obtain used where i: "es = used @ es'"
          "body = (got @ d) @ received used" "length body = want"
          "list_all (\<lambda>(u, c). u - started < BODY_MAX_DURATION_MS) used"
          "length used + 0 \<le> 3 * (want - length (got @ d)) + 2" by blast
      have "0 < length d" using d(1) by simp
      with i(5) d(2) Cons.prems(3) have "length used + 1 + idle \<le> 3 * (want - length got) + 2"
        unfolding length_append by linarith
      with i(1-4) show ?thesis using e u ChunkData
        by (intro exI [of _ "(u, c) # used"]) (auto simp: chunk_data_def)
    next
      case ChunkTimeout
      with rest have d: "idle + 1 \<le> 2"
          "http_body_loop script_source started want got (idle + 1) (es, u) = (Some body, (es', t'))"
        by (auto simp: BODY_MAX_IDLE_def split: if_splits)
      with Cons.IH [OF d(2)] Cons.prems(2) obtain used where i: "es = used @ es'"
          "body = got @ received used" "length body = want"
          "list_all (\<lambda>(u, c). u - started < BODY_MAX_DURATION_MS) used"
          "length used + (idle + 1) \<le> 3 * (want - length got) + 2" by auto
      then show ?thesis using e u ChunkTimeout by (intro exI [of _ "(u, c) # used"]) (auto simp: chunk_data_def)
    qed (use rest in simp)
  qed
qed

text \<open>C36: A request body that is returned is exactly the bytes received, in order, as many as announced, all of
  them within fifteen seconds by the clock; and however slowly a client feeds it, the reader takes at most
  three receives for each announced byte and two more.\<close>

theorem body_read_exact:
  assumes "http_body_receive script_source want limit allocated (es, t) = ((Some body, st), (es', t'))"
  shows "st = BodyOk \<and> 0 < want \<and> want \<le> limit \<and> length body = want \<and>
    (\<exists>used. es = used @ es' \<and> body = received used \<and>
      list_all (\<lambda>(u, c). u - t < 15000) used \<and> length used \<le> 3 * want + 2)"
proof -
  from assms have g: "0 < want" "want \<le> limit" "st = BodyOk"
      "http_body_loop script_source t want [] 0 (es, t) = (Some body, (es', t'))"
    by (auto simp: http_body_receive_def http_body_read_def http_body_fits_buffer_def script_now
        split: if_splits option.splits prod.splits)
  from body_loop_script [OF g(4)] g(1-3) show ?thesis
    by (auto simp: BODY_MAX_DURATION_MS_def)
qed

theorem body_read_exact_witness:
  "\<exists>used. [(5, ChunkData ''{}''), (9, ChunkTimeout), (12, ChunkData ''!'')] = used \<and>
     received used = ''{}!''"
proof -
  have "http_body_receive script_source 3 2048 True ([(5, ChunkData ''{}''), (9, ChunkTimeout), (12, ChunkData ''!'')], 0) =
      ((Some ''{}!'', BodyOk), ([], 12))" by code_simp
  from body_read_exact [OF this] show ?thesis by auto
qed

end
