(* ===== verification/Admission.thy ===== *)
theory Admission
  imports Texts OtaPolicy
begin

text \<open>
  The small state machines that decide whether a part of the program may start or act.
  main/logic/runtime_admission.hpp (and its process-wide instance in main/runtime_admission.cpp): one atomic
  byte that admits vehicle contact; task_start_gate.hpp, nimble_start_gate.hpp, syslog_start_gate.hpp: the
  acknowledgement gates of tasks; identity_recovery.hpp: the one reload after an identity commit;
  effect_reply.hpp: what a request may have done when its reply fails; auto_enrollment.hpp: the pairing
  cadence; session_availability.hpp, command_deadline.hpp, iteration_fault.hpp: small policies. Every atomic
  operation is one step; an operation that loops over a compare-and-exchange is modelled with the values the
  loop sees.
\<close>

subsection \<open>Gates with terminal states\<close>

text \<open>What the gates share: an operation on a terminal state leaves it alone, so no later operation, however
  late, reopens it.\<close>

locale terminal_gate =
  fixes step :: "'s \<Rightarrow> 'e \<Rightarrow> 's"
    and terminal :: "'s \<Rightarrow> bool"
  assumes terminal_step: "terminal s \<Longrightarrow> step s e = s"
begin

lemma terminal_run: "terminal s \<Longrightarrow> foldl step s es = s"
  by (induction es) (auto simp: terminal_step)

lemma settled: "terminal (foldl step s (take n es)) \<Longrightarrow> foldl step s es = foldl step s (take n es)"
  by (metis append_take_drop_id foldl_append terminal_run)

end

subsection \<open>Runtime admission\<close>

datatype runtime_state = RtBooting | RtReady | RtSafeMode | RtFatal

datatype fatal_component = FcUnknown | FcClock | FcNvs | FcConfiguration | FcIdentity | FcBluetooth | FcHttp
  | FcNetwork | FcVehicle | FcOta | FcHeapSupervisor | FcApplication

definition runtime_states :: "runtime_state list" where
  "runtime_states = [RtBooting, RtReady, RtSafeMode, RtFatal]"

definition fatal_components :: "fatal_component list" where
  "fatal_components = [FcUnknown, FcClock, FcNvs, FcConfiguration, FcIdentity, FcBluetooth, FcHttp, FcNetwork,
     FcVehicle, FcOta, FcHeapSupervisor, FcApplication]"

definition runtime_admission_state_name :: "runtime_state \<Rightarrow> string" where
  "runtime_admission_state_name s = (case s of RtBooting \<Rightarrow> ''booting'' | RtReady \<Rightarrow> ''ready''
     | RtSafeMode \<Rightarrow> ''safe_mode'' | RtFatal \<Rightarrow> ''fatal'')"

definition runtime_fatal_component_name :: "fatal_component \<Rightarrow> string" where
  "runtime_fatal_component_name c = (case c of FcClock \<Rightarrow> ''clock'' | FcNvs \<Rightarrow> ''nvs''
     | FcConfiguration \<Rightarrow> ''configuration'' | FcIdentity \<Rightarrow> ''identity'' | FcBluetooth \<Rightarrow> ''bluetooth''
     | FcHttp \<Rightarrow> ''http'' | FcNetwork \<Rightarrow> ''network'' | FcVehicle \<Rightarrow> ''vehicle'' | FcOta \<Rightarrow> ''ota''
     | FcHeapSupervisor \<Rightarrow> ''heap_supervisor'' | FcApplication \<Rightarrow> ''application'' | FcUnknown \<Rightarrow> ''unknown'')"

definition kFatalPrefixes :: "(string \<times> fatal_component) list" where
  "kFatalPrefixes = [(''clock'', FcClock), (''NVS'', FcNvs), (''Tesla NVS'', FcNvs),
     (''configuration'', FcConfiguration), (''VIN '', FcIdentity), (''initial key'', FcIdentity),
     (''NimBLE'', FcBluetooth), (''HTTP'', FcHttp), (''setup HTTP'', FcHttp), (''WiFi'', FcNetwork),
     (''Ethernet'', FcNetwork), (''W5500'', FcNetwork), (''LAN'', FcNetwork), (''setup AP'', FcNetwork),
     (''setup WiFi'', FcNetwork), (''Vehicle'', FcVehicle), (''vehicle runtime'', FcVehicle), (''OTA'', FcOta),
     (''heap supervisor'', FcHeapSupervisor), (''app_main'', FcApplication),
     (''safe-mode runtime'', FcApplication)]"

text \<open>\<open>component_prefix\<close>: None is a null pointer.\<close>

fun component_prefix :: "string option \<Rightarrow> string \<Rightarrow> bool" where
  "component_prefix None prefix = False"
| "component_prefix (Some text) [] = True"
| "component_prefix (Some []) (p # ps) = False"
| "component_prefix (Some (t # ts)) (p # ps) = (if t \<noteq> p then False else component_prefix (Some ts) ps)"

fun first_prefix :: "string option \<Rightarrow> (string \<times> fatal_component) list \<Rightarrow> fatal_component" where
  "first_prefix component [] = FcUnknown"
| "first_prefix component ((text, c) # rest) =
     (if component_prefix component text then c else first_prefix component rest)"

definition runtime_fatal_component :: "string option \<Rightarrow> fatal_component" where
  "runtime_fatal_component component = first_prefix component kFatalPrefixes"

definition state_code :: "runtime_state \<Rightarrow> u8" where
  "state_code s = (case s of RtBooting \<Rightarrow> 0 | RtReady \<Rightarrow> 1 | RtSafeMode \<Rightarrow> 2 | RtFatal \<Rightarrow> 3)"

definition component_code :: "fatal_component \<Rightarrow> u8" where
  "component_code c = (case c of FcUnknown \<Rightarrow> 0 | FcClock \<Rightarrow> 1 | FcNvs \<Rightarrow> 2 | FcConfiguration \<Rightarrow> 3
     | FcIdentity \<Rightarrow> 4 | FcBluetooth \<Rightarrow> 5 | FcHttp \<Rightarrow> 6 | FcNetwork \<Rightarrow> 7 | FcVehicle \<Rightarrow> 8 | FcOta \<Rightarrow> 9
     | FcHeapSupervisor \<Rightarrow> 10 | FcApplication \<Rightarrow> 11)"

definition runtime_admission_pack :: "runtime_state \<Rightarrow> fatal_component \<Rightarrow> u8" where
  "runtime_admission_pack state component =
     state_code state OR
     push_bit 2 (if state = RtFatal \<and> component_code component \<le> 11 then component_code component else 0)"

definition kRuntimeIdentityReloadClaim :: u8 where "kRuntimeIdentityReloadClaim = 0x40"

definition state_of_code :: "u8 \<Rightarrow> runtime_state" where
  "state_of_code v = (if v = 0 then RtBooting else if v = 1 then RtReady else if v = 2 then RtSafeMode else RtFatal)"

definition runtime_admission_unpack :: "u8 \<Rightarrow> runtime_state \<times> fatal_component" where
  "runtime_admission_unpack v =
     (let state = state_of_code (v AND 3);
          component = drop_bit 2 (v AND NOT kRuntimeIdentityReloadClaim) in
      (state, if state = RtFatal \<and> component \<le> 11 then fatal_components ! unat component else FcUnknown))"

text \<open>\<open>compare_exchange_strong\<close>: the result and the new value.\<close>

definition cas :: "'v \<Rightarrow> 'v \<Rightarrow> 'v \<Rightarrow> bool \<times> 'v" where
  "cas expected desired actual = (if actual = expected then (True, desired) else (False, actual))"

definition mark_ready :: "u8 \<Rightarrow> bool \<times> u8" where
  "mark_ready = cas (runtime_admission_pack RtBooting FcUnknown) (runtime_admission_pack RtReady FcUnknown)"

definition mark_safe_mode :: "u8 \<Rightarrow> bool \<times> u8" where
  "mark_safe_mode = cas (runtime_admission_pack RtBooting FcUnknown) (runtime_admission_pack RtSafeMode FcUnknown)"

text \<open>
  One turn of the loop of \<open>mark_fatal\<close>: Some is to return with the value the byte then has, None to go
  round again with the value just seen. \<open>spurious\<close> is the failure a weak compare-and-exchange may have.
\<close>

definition fatal_value :: "fatal_component \<Rightarrow> u8 \<Rightarrow> u8" where
  "fatal_value component current =
     runtime_admission_pack RtFatal component OR (current AND kRuntimeIdentityReloadClaim)"

definition mark_fatal_turn :: "fatal_component \<Rightarrow> u8 \<Rightarrow> u8 \<Rightarrow> bool \<Rightarrow> u8 option" where
  "mark_fatal_turn component current actual spurious =
     (if fst (runtime_admission_unpack current) = RtFatal then Some actual
      else if actual = current \<and> \<not> spurious then Some (fatal_value component current)
      else None)"

text \<open>The loop against what other tasks do in between: for each turn the value found in the byte and whether
  the exchange fails spuriously. None: the turns given were not enough.\<close>

fun mark_fatal_loop :: "fatal_component \<Rightarrow> u8 \<Rightarrow> (u8 \<times> bool) list \<Rightarrow> (u8 \<times> u8) option" where
  "mark_fatal_loop component current [] = None"
| "mark_fatal_loop component current ((actual, spurious) # turns) =
     (case mark_fatal_turn component current actual spurious of
        Some v \<Rightarrow> Some (actual, v)
      | None \<Rightarrow> mark_fatal_loop component actual turns)"

text \<open>Undisturbed, the loop is one step.\<close>

definition mark_fatal :: "fatal_component \<Rightarrow> u8 \<Rightarrow> u8" where
  "mark_fatal component v = (if fst (runtime_admission_unpack v) = RtFatal then v else fatal_value component v)"

definition try_claim_identity_reload :: "u8 \<Rightarrow> bool \<times> u8" where
  "try_claim_identity_reload =
     cas (runtime_admission_pack RtReady FcUnknown)
       (runtime_admission_pack RtReady FcUnknown OR kRuntimeIdentityReloadClaim)"

datatype runtime_action = ActWait | ActRun | ActStop

definition admission_state :: "u8 \<Rightarrow> runtime_state" where
  "admission_state v = fst (runtime_admission_unpack v)"

definition vehicle_ready :: "u8 \<Rightarrow> bool" where
  "vehicle_ready v \<longleftrightarrow> admission_state v = RtReady"

definition admission_action :: "u8 \<Rightarrow> runtime_action" where
  "admission_action v = (case admission_state v of RtBooting \<Rightarrow> ActWait | RtReady \<Rightarrow> ActRun
     | RtSafeMode \<Rightarrow> ActStop | RtFatal \<Rightarrow> ActStop)"

datatype admission_op = OpReady | OpSafeMode | OpFatal fatal_component | OpClaim

fun admission_step :: "u8 \<Rightarrow> admission_op \<Rightarrow> u8" where
  "admission_step v OpReady = snd (mark_ready v)"
| "admission_step v OpSafeMode = snd (mark_safe_mode v)"
| "admission_step v (OpFatal c) = mark_fatal c v"
| "admission_step v OpClaim = snd (try_claim_identity_reload v)"

definition admission_boot :: u8 where "admission_boot = runtime_admission_pack RtBooting FcUnknown"

subsection \<open>Start gates\<close>

datatype task_start_state = TaskIdle | TaskCreating | TaskRunning | TaskCancelled
datatype entry_action = EntryWait | EntryRun | EntryCancel

record dual_task_gate =
  task_state :: task_start_state
  cancelled_acks :: u8

definition new_dual_task_gate :: dual_task_gate where
  "new_dual_task_gate = \<lparr>task_state = TaskIdle, cancelled_acks = 0\<rparr>"

definition task_begin :: "dual_task_gate \<Rightarrow> bool \<times> dual_task_gate" where
  "task_begin g = (case cas TaskIdle TaskCreating (task_state g) of
       (False, s) \<Rightarrow> (False, g\<lparr>task_state := s\<rparr>)
     | (True, s) \<Rightarrow> (True, g\<lparr>task_state := s, cancelled_acks := 0\<rparr>))"

definition task_release :: "dual_task_gate \<Rightarrow> bool \<times> dual_task_gate" where
  "task_release g = (let (ok, s) = cas TaskCreating TaskRunning (task_state g) in (ok, g\<lparr>task_state := s\<rparr>))"

definition task_cancel :: "dual_task_gate \<Rightarrow> bool \<times> dual_task_gate" where
  "task_cancel g = (let (ok, s) = cas TaskCreating TaskCancelled (task_state g) in (ok, g\<lparr>task_state := s\<rparr>))"

definition task_entry_action :: "dual_task_gate \<Rightarrow> entry_action" where
  "task_entry_action g = (case task_state g of TaskCreating \<Rightarrow> EntryWait | TaskRunning \<Rightarrow> EntryRun
     | TaskCancelled \<Rightarrow> EntryCancel | TaskIdle \<Rightarrow> EntryCancel)"

definition task_acknowledge_cancel :: "dual_task_gate \<Rightarrow> dual_task_gate" where
  "task_acknowledge_cancel g = g\<lparr>cancelled_acks := cancelled_acks g + 1\<rparr>"

definition cancelled_tasks_acknowledged :: "u8 \<Rightarrow> dual_task_gate \<Rightarrow> bool" where
  "cancelled_tasks_acknowledged expected g \<longleftrightarrow> task_state g = TaskCancelled \<and> cancelled_acks g = expected"

definition task_reset_cancelled :: "u8 \<Rightarrow> dual_task_gate \<Rightarrow> bool \<times> dual_task_gate" where
  "task_reset_cancelled expected g =
     (if \<not> cancelled_tasks_acknowledged expected g then (False, g)
      else let (ok, s) = cas TaskCancelled TaskIdle (task_state g) in (ok, g\<lparr>task_state := s\<rparr>))"

datatype nimble_start_state = NimbleIdle | NimbleAwaitingSync | NimbleSynced | NimbleTimedOut
datatype nimble_start_action = NimbleWait | NimbleReady | NimbleFail

definition nimble_begin :: "nimble_start_state \<Rightarrow> bool \<times> nimble_start_state" where
  "nimble_begin = cas NimbleIdle NimbleAwaitingSync"

definition nimble_acknowledge_sync :: "nimble_start_state \<Rightarrow> bool \<times> nimble_start_state" where
  "nimble_acknowledge_sync = cas NimbleAwaitingSync NimbleSynced"

definition nimble_mark_timed_out :: "nimble_start_state \<Rightarrow> bool \<times> nimble_start_state" where
  "nimble_mark_timed_out = cas NimbleAwaitingSync NimbleTimedOut"

definition nimble_action :: "nimble_start_state \<Rightarrow> nimble_start_action" where
  "nimble_action s = (case s of NimbleIdle \<Rightarrow> NimbleWait | NimbleAwaitingSync \<Rightarrow> NimbleWait
     | NimbleSynced \<Rightarrow> NimbleReady | NimbleTimedOut \<Rightarrow> NimbleFail)"

datatype syslog_start_state = SyslogIdle | SyslogWaiting | SyslogRunning | SyslogCancelled
datatype syslog_start_action = SyslogWait | SyslogRun | SyslogCancel

definition syslog_begin :: "syslog_start_state \<Rightarrow> bool \<times> syslog_start_state" where
  "syslog_begin = cas SyslogIdle SyslogWaiting"

definition syslog_commit :: "syslog_start_state \<Rightarrow> bool \<times> syslog_start_state" where
  "syslog_commit = cas SyslogWaiting SyslogRunning"

definition syslog_cancel :: "syslog_start_state \<Rightarrow> bool \<times> syslog_start_state" where
  "syslog_cancel = cas SyslogWaiting SyslogCancelled"

definition syslog_action :: "syslog_start_state \<Rightarrow> syslog_start_action" where
  "syslog_action s = (case s of SyslogIdle \<Rightarrow> SyslogWait | SyslogWaiting \<Rightarrow> SyslogWait
     | SyslogRunning \<Rightarrow> SyslogRun | SyslogCancelled \<Rightarrow> SyslogCancel)"

subsection \<open>Identity recovery\<close>

datatype recovery_state = IrUnknown | IrOk | IrRebootRequired | IrCleanupPending | IrVinTransition
  | IrStorageUnavailable

definition identity_recovery_state :: "string option \<Rightarrow> runtime_state \<Rightarrow> recovery_state" where
  "identity_recovery_state reason runtime = (case reason of
       None \<Rightarrow> if runtime = RtReady then IrOk else IrUnknown
     | Some r \<Rightarrow>
         if r = ''key_reload_required'' \<or> r = ''key_runtime_mismatch'' then IrRebootRequired
         else if r = ''key_cleanup_pending'' then IrCleanupPending
         else if r = ''vin_transition_pending'' then IrVinTransition
         else if r = ''key_storage_unavailable'' then IrStorageUnavailable
         else IrUnknown)"

definition identity_recovery_state_name :: "recovery_state \<Rightarrow> string" where
  "identity_recovery_state_name s = (case s of IrOk \<Rightarrow> ''ok'' | IrRebootRequired \<Rightarrow> ''reboot_required''
     | IrCleanupPending \<Rightarrow> ''cleanup_pending'' | IrVinTransition \<Rightarrow> ''vin_transition''
     | IrStorageUnavailable \<Rightarrow> ''storage_unavailable'' | IrUnknown \<Rightarrow> ''unknown'')"

record identity_reload_admission =
  ira_ready :: bool
  ira_automatic_commit :: bool
  ira_reload_required :: bool
  ira_vin_pending :: bool
  ira_cleanup_pending :: bool
  ira_recovered_boot :: bool
  ira_stable :: bool
  ira_journal_readable :: bool
  ira_journal_present :: bool

definition identity_reload_allowed :: "identity_reload_admission \<Rightarrow> bool" where
  "identity_reload_allowed i \<longleftrightarrow> ira_ready i \<and> ira_automatic_commit i \<and> ira_reload_required i \<and>
     \<not> ira_vin_pending i \<and> \<not> ira_cleanup_pending i \<and> \<not> ira_recovered_boot i \<and> ira_stable i \<and>
     ira_journal_readable i \<and> ira_journal_present i"

text \<open>\<open>IdentityReloadOnce::reserve\<close>: the answer and the flag after it.\<close>

definition reload_reserve :: "bool \<Rightarrow> identity_reload_admission \<Rightarrow> bool \<times> bool" where
  "reload_reserve reserved i =
     (if reserved \<or> \<not> identity_reload_allowed i then (False, reserved) else (True, True))"

subsection \<open>Replies of requests with effects\<close>

datatype request_outcome = OutNotAttempted | OutUncertain | OutSucceeded | OutIdentityRecovery

datatype request_effect = EffCommand | EffConfiguration | EffClock | EffIdentity | EffOtaStart | EffCoredumpErase

definition effect_code :: "request_effect \<Rightarrow> u8" where
  "effect_code e = (case e of EffCommand \<Rightarrow> 1 | EffConfiguration \<Rightarrow> 2 | EffClock \<Rightarrow> 4 | EffIdentity \<Rightarrow> 8
     | EffOtaStart \<Rightarrow> 16 | EffCoredumpErase \<Rightarrow> 32)"

datatype reply_shape = ShapeWrappedRest | ShapeFlatResult | ShapeOtaCheck | ShapeRpc

datatype reply_continuation = ContNone | ContIdentityRestart | ContSuccessfulConfigRestart

record effect_reply_state =
  er_outcome :: request_outcome
  er_shape :: reply_shape
  er_continuation :: reply_continuation
  er_possible_effects :: u8
  er_recovery_pending :: bool
  er_terminal :: bool
  er_continuation_consumed :: bool
  er_image :: config_image_result

definition new_effect_reply :: effect_reply_state where
  "new_effect_reply = \<lparr>er_outcome = OutNotAttempted, er_shape = ShapeWrappedRest, er_continuation = ContNone, er_possible_effects = 0,
     er_recovery_pending = False, er_terminal = False, er_continuation_consumed = False, er_image = CiNone\<rparr>"

definition er_attempting :: "request_effect \<Rightarrow> effect_reply_state \<Rightarrow> effect_reply_state" where
  "er_attempting e r = r\<lparr>er_possible_effects := er_possible_effects r OR effect_code e, er_outcome := OutUncertain\<rparr>"

definition er_refused :: "request_effect \<Rightarrow> effect_reply_state \<Rightarrow> effect_reply_state" where
  "er_refused e r =
     (let r1 = r\<lparr>er_possible_effects := er_possible_effects r AND NOT (effect_code e)\<rparr> in
      if er_possible_effects r1 = 0 \<and> er_outcome r1 = OutUncertain then r1\<lparr>er_outcome := OutNotAttempted\<rparr> else r1)"

definition er_succeeded :: "effect_reply_state \<Rightarrow> effect_reply_state" where
  "er_succeeded r = r\<lparr>er_outcome := OutSucceeded\<rparr>"

definition er_identity_recovery :: "effect_reply_state \<Rightarrow> effect_reply_state" where
  "er_identity_recovery r = r\<lparr>er_outcome := OutIdentityRecovery, er_recovery_pending := True\<rparr>"

definition needs_effect_reply :: "effect_reply_state \<Rightarrow> bool" where
  "needs_effect_reply r \<longleftrightarrow> er_possible_effects r \<noteq> 0 \<or> er_outcome r \<noteq> OutNotAttempted"

definition er_success :: "effect_reply_state \<Rightarrow> bool" where "er_success r \<longleftrightarrow> er_outcome r = OutSucceeded"

definition outcome_text :: "effect_reply_state \<Rightarrow> string" where
  "outcome_text r = (if er_success r then ''succeeded''
     else if er_outcome r = OutIdentityRecovery then ''applied_recovery_pending'' else ''unknown'')"

definition er_reason :: "effect_reply_state \<Rightarrow> string" where
  "er_reason r = (if er_success r \<and> config_image_warning (er_image r) then config_commit_reason (er_image r)
     else if er_success r then ''request succeeded; reply degraded''
     else if er_outcome r = OutIdentityRecovery then ''identity saved; recovery pending; reply degraded''
     else ''operation outcome unknown; reply degraded'')"

definition take_continuation :: "effect_reply_state \<Rightarrow> reply_continuation \<times> effect_reply_state" where
  "take_continuation r =
     (if er_continuation_consumed r then (ContNone, r)
      else (er_continuation r, r\<lparr>er_continuation_consumed := True\<rparr>))"

subsection \<open>Pairing cadence\<close>

definition kEnrollmentRetryFirstMs :: u32 where "kEnrollmentRetryFirstMs = 60000"
definition kEnrollmentRetryMaxMs :: u32 where "kEnrollmentRetryMaxMs = 300000"

record auto_enrollment =
  next_attempt_ms :: u64
  retry_ms :: u32

definition new_auto_enrollment :: auto_enrollment where
  "new_auto_enrollment = \<lparr>next_attempt_ms = 0, retry_ms = kEnrollmentRetryFirstMs\<rparr>"

record enrollment_session =
  es_storage_readable :: bool
  es_stored :: bool
  es_runtime_readable :: bool
  es_runtime_ready :: bool

definition session_observed :: "enrollment_session \<Rightarrow> bool" where
  "session_observed s \<longleftrightarrow> es_storage_readable s \<and> es_runtime_readable s"

definition session_present :: "enrollment_session \<Rightarrow> bool" where
  "session_present s \<longleftrightarrow> es_stored s \<or> es_runtime_ready s"

definition auto_enrollment_needed :: "enrollment_session \<Rightarrow> bool \<Rightarrow> bool" where
  "auto_enrollment_needed s recovery_hint \<longleftrightarrow> session_observed s \<and> (\<not> session_present s \<or> recovery_hint)"

definition auto_enrollment_due :: "auto_enrollment \<Rightarrow> u64 \<Rightarrow> enrollment_session \<Rightarrow> bool \<Rightarrow> bool \<Rightarrow> bool \<Rightarrow> bool" where
  "auto_enrollment_due st now_ms session recovery_hint identity_ready operation_allowed \<longleftrightarrow>
     next_attempt_ms st \<noteq> - 1 \<and> auto_enrollment_needed session recovery_hint \<and> identity_ready \<and>
     operation_allowed \<and> next_attempt_ms st \<le> now_ms"

definition auto_enrollment_started :: "auto_enrollment \<Rightarrow> u64 \<Rightarrow> auto_enrollment" where
  "auto_enrollment_started st now_ms =
     (let maximum = - 1 in
      \<lparr>next_attempt_ms = (if maximum - ucast (retry_ms st) < now_ms then maximum else now_ms + ucast (retry_ms st)),
       retry_ms = (if kEnrollmentRetryMaxMs div 2 \<le> retry_ms st then kEnrollmentRetryMaxMs else retry_ms st * 2)\<rparr>)"

subsection \<open>Session availability\<close>

datatype session_save_state = SaveUnknown | SaveUnconfirmed | SaveConfirmed | SaveError

record session_runtime_state =
  srs_known :: bool
  srs_usable :: bool
  srs_save :: session_save_state

definition session_runtime_observation :: "bool \<Rightarrow> bool \<Rightarrow> bool \<Rightarrow> bool \<Rightarrow> bool \<Rightarrow> session_runtime_state" where
  "session_runtime_observation private_key_loaded valid shared_secret epoch_nonzero runner_authenticated =
     \<lparr>srs_known = private_key_loaded,
      srs_usable = private_key_loaded \<and> valid \<and> shared_secret \<and> epoch_nonzero \<and> runner_authenticated,
      srs_save = SaveUnknown\<rparr>"

definition save_code :: "session_save_state \<Rightarrow> u32" where
  "save_code s = (case s of SaveUnknown \<Rightarrow> 0 | SaveUnconfirmed \<Rightarrow> 1 | SaveConfirmed \<Rightarrow> 2 | SaveError \<Rightarrow> 3)"

definition encode_session_runtime :: "session_runtime_state \<Rightarrow> u32" where
  "encode_session_runtime s =
     (if srs_known s then 1 else 0) OR (if srs_known s \<and> srs_usable s then 2 else 0) OR
     push_bit 2 (save_code (srs_save s))"

definition decode_session_runtime :: "u32 \<Rightarrow> session_runtime_state" where
  "decode_session_runtime bits =
     \<lparr>srs_known = (bits AND 1 \<noteq> 0), srs_usable = (bits AND 3 = 3),
      srs_save = (let c = drop_bit 2 bits AND 3 in
         if c = 0 then SaveUnknown else if c = 1 then SaveUnconfirmed else if c = 2 then SaveConfirmed else SaveError)\<rparr>"

definition session_can_operate :: "bool \<Rightarrow> bool \<Rightarrow> bool \<Rightarrow> bool" where
  "session_can_operate identity_ready stored vcsec_available \<longleftrightarrow> identity_ready \<and> (stored \<or> vcsec_available)"

definition session_save_state_name :: "session_save_state \<Rightarrow> string" where
  "session_save_state_name s = (case s of SaveUnknown \<Rightarrow> ''unknown'' | SaveUnconfirmed \<Rightarrow> ''unconfirmed''
     | SaveConfirmed \<Rightarrow> ''confirmed'' | SaveError \<Rightarrow> ''error'')"

subsection \<open>Deadlines and fault reports\<close>

text \<open>The comparison is of signed distances from now, so it holds across a wrap of the tick counter.\<close>

definition capped_command_deadline :: "u32 \<Rightarrow> u32 \<Rightarrow> u32 \<Rightarrow> u32" where
  "capped_command_deadline deadline now max_ticks =
     (let candidate = now + max_ticks; cap = (if candidate \<noteq> 0 then candidate else 1) in
      if sint (deadline - now) \<le> sint (cap - now) then deadline else cap)"

record iteration_fault_log =
  last_emit_ms :: u64
  fault_suppressed :: u32
  fault_emitted :: bool

definition new_iteration_fault_log :: iteration_fault_log where
  "new_iteration_fault_log = \<lparr>last_emit_ms = 0, fault_suppressed = 0, fault_emitted = False\<rparr>"

definition iteration_fault_note :: "u64 \<Rightarrow> iteration_fault_log \<Rightarrow> (bool \<times> u32) \<times> iteration_fault_log" where
  "iteration_fault_note now_ms st =
     (if fault_emitted st \<and> now_ms - last_emit_ms st < 30000 then
        ((False, 0), if fault_suppressed st \<noteq> - 1 then st\<lparr>fault_suppressed := fault_suppressed st + 1\<rparr> else st)
      else ((True, fault_suppressed st), \<lparr>last_emit_ms = now_ms, fault_suppressed = 0, fault_emitted = True\<rparr>))"

subsection \<open>The byte of runtime admission\<close>

text \<open>What the byte holds: the state, the first fatal component, whether the reload was claimed.\<close>

datatype admission_view = AvBooting | AvSafeMode | AvReady bool | AvFatal fatal_component bool

fun admission_byte :: "admission_view \<Rightarrow> u8" where
  "admission_byte AvBooting = runtime_admission_pack RtBooting FcUnknown"
| "admission_byte AvSafeMode = runtime_admission_pack RtSafeMode FcUnknown"
| "admission_byte (AvReady claimed) =
     runtime_admission_pack RtReady FcUnknown OR (if claimed then kRuntimeIdentityReloadClaim else 0)"
| "admission_byte (AvFatal c claimed) =
     runtime_admission_pack RtFatal c OR (if claimed then kRuntimeIdentityReloadClaim else 0)"

text \<open>The state machine the byte implements.\<close>

fun admission_spec :: "admission_view \<Rightarrow> admission_op \<Rightarrow> bool \<times> admission_view" where
  "admission_spec AvBooting OpReady = (True, AvReady False)"
| "admission_spec AvBooting OpSafeMode = (True, AvSafeMode)"
| "admission_spec (AvReady False) OpClaim = (True, AvReady True)"
| "admission_spec (AvFatal c claimed) (OpFatal c') = (True, AvFatal c claimed)"
| "admission_spec AvBooting (OpFatal c) = (True, AvFatal c False)"
| "admission_spec AvSafeMode (OpFatal c) = (True, AvFatal c False)"
| "admission_spec (AvReady claimed) (OpFatal c) = (True, AvFatal c claimed)"
| "admission_spec v op = (False, v)"

fun admission_result :: "u8 \<Rightarrow> admission_op \<Rightarrow> bool" where
  "admission_result v OpReady = fst (mark_ready v)"
| "admission_result v OpSafeMode = fst (mark_safe_mode v)"
| "admission_result v (OpFatal c) = True"
| "admission_result v OpClaim = fst (try_claim_identity_reload v)"

lemmas admission_defs = admission_byte.simps runtime_admission_pack_def state_code_def
  kRuntimeIdentityReloadClaim_def mark_ready_def mark_safe_mode_def try_claim_identity_reload_def cas_def
  mark_fatal_def fatal_value_def runtime_admission_unpack_def state_of_code_def Let_def

lemma byte_state:
  "admission_state (admission_byte v) = (case v of AvBooting \<Rightarrow> RtBooting | AvSafeMode \<Rightarrow> RtSafeMode
     | AvReady _ \<Rightarrow> RtReady | AvFatal _ _ \<Rightarrow> RtFatal)"
proof (cases v)
  case (AvFatal c claimed)
  then show ?thesis by (cases c; cases claimed; simp add: admission_state_def admission_defs component_code_def)
qed (auto simp: admission_state_def admission_defs)

lemma byte_fatal_component: "snd (runtime_admission_unpack (admission_byte (AvFatal c claimed))) = c"
  by (cases c; cases claimed; simp add: admission_defs component_code_def fatal_components_def)

lemma byte_claim: "admission_byte (AvFatal c claimed) AND kRuntimeIdentityReloadClaim =
    (if claimed then kRuntimeIdentityReloadClaim else 0)"
  by (cases c; cases claimed; simp add: admission_defs component_code_def)

lemma admission_step_spec:
  "admission_step (admission_byte v) op = admission_byte (snd (admission_spec v op)) \<and>
   admission_result (admission_byte v) op = fst (admission_spec v op)"
proof (cases v)
  case (AvFatal c claimed)
  have r: "fst (runtime_admission_unpack (admission_byte (AvFatal c claimed))) = RtFatal"
    using byte_state [of "AvFatal c claimed"] by (simp add: admission_state_def)
  have ne: "admission_byte (AvFatal c claimed) \<noteq> runtime_admission_pack st FcUnknown" if "st \<noteq> RtFatal" for st
    using that by (cases st; cases c; cases claimed; simp add: admission_defs component_code_def)
  show ?thesis unfolding AvFatal
    using ne [of RtBooting] ne [of RtReady] r
    by (cases op; simp add: mark_ready_def mark_safe_mode_def try_claim_identity_reload_def cas_def mark_fatal_def
        del: admission_byte.simps)
next
  case (AvReady claimed)
  then show ?thesis by (cases op; cases claimed; simp add: admission_defs)
qed (cases op; simp add: admission_defs)+

interpretation runtime_fatal: terminal_gate admission_step "\<lambda>v. admission_state v = RtFatal"
proof
  fix v op
  assume f: "admission_state v = RtFatal"
  have "v \<noteq> runtime_admission_pack st FcUnknown" if "st \<noteq> RtFatal" for st
    using f that by (cases st) (auto simp: admission_state_def admission_defs)
  with f show "admission_step v op = v"
    by (cases op) (auto simp: mark_ready_def mark_safe_mode_def try_claim_identity_reload_def cas_def mark_fatal_def
        admission_state_def)
qed

text \<open>The loop of \<open>mark_fatal\<close> against other tasks that only use the operations of the gate: when it
  returns, the byte is what one undisturbed step would have made of the value it last saw there.\<close>

fun turns_from :: "u8 \<Rightarrow> (u8 \<times> bool) list \<Rightarrow> bool" where
  "turns_from current [] = True"
| "turns_from current ((actual, spurious) # turns) =
     ((\<exists>ops. actual = foldl admission_step current ops) \<and> turns_from actual turns)"

lemma mark_fatal_linearizes:
  "turns_from current turns \<Longrightarrow> mark_fatal_loop c current turns = Some (actual, v) \<Longrightarrow> v = mark_fatal c actual"
proof (induction current turns rule: turns_from.induct)
  case (2 current a spurious turns)
  then obtain ops where ops: "a = foldl admission_step current ops" by auto
  show ?case
  proof (cases "admission_state current = RtFatal")
    case True
    with ops runtime_fatal.terminal_run have "a = current" by simp
    with True 2(3) show ?thesis by (auto simp: mark_fatal_turn_def mark_fatal_def admission_state_def)
  next
    case False
    with 2 show ?thesis
      by (auto simp: mark_fatal_turn_def mark_fatal_def admission_state_def split: if_splits)
  qed
qed simp

definition admission_view_after :: "admission_op list \<Rightarrow> admission_view" where
  "admission_view_after ops = foldl (\<lambda>v op. snd (admission_spec v op)) AvBooting ops"

lemma admission_run:
  "foldl admission_step (admission_byte v) ops = admission_byte (foldl (\<lambda>v op. snd (admission_spec v op)) v ops)"
  by (induction ops arbitrary: v) (simp_all add: admission_step_spec)

text \<open>C25: The single byte of runtime admission behaves, for every sequence of operations of the boot and of the
  running tasks, as the state machine it packs: vehicle contact only from "ready", a fatal start-up keeps its
  first component, and the claim of the one identity reload survives a fatal state that follows it.\<close>

theorem admission_refines:
  "foldl admission_step admission_boot ops = admission_byte (admission_view_after ops) \<and>
   (vehicle_ready (foldl admission_step admission_boot ops) \<longleftrightarrow>
      (\<exists>claimed. admission_view_after ops = AvReady claimed)) \<and>
   (runtime_admission_unpack (foldl admission_step admission_boot ops) = (RtFatal, c) \<longleftrightarrow>
      (\<exists>claimed. admission_view_after ops = AvFatal c claimed))"
proof -
  let ?b = "foldl admission_step admission_boot ops" and ?v = "admission_view_after ops"
  have b: "?b = admission_byte ?v"
    using admission_run [of AvBooting ops] by (simp add: admission_boot_def admission_view_after_def)
  have "vehicle_ready ?b \<longleftrightarrow> (\<exists>claimed. ?v = AvReady claimed)"
    unfolding b vehicle_ready_def byte_state by (cases ?v) auto
  moreover have "runtime_admission_unpack ?b = (RtFatal, c) \<longleftrightarrow> (\<exists>claimed. ?v = AvFatal c claimed)"
    using byte_state [of ?v] byte_fatal_component unfolding b admission_state_def
    by (cases ?v) (auto simp: prod_eq_iff simp del: admission_byte.simps)
  ultimately show ?thesis using b by blast
qed

text \<open>The results of the operations along a run.\<close>

fun admission_results :: "u8 \<Rightarrow> admission_op list \<Rightarrow> (admission_op \<times> bool) list" where
  "admission_results v [] = []"
| "admission_results v (op # ops) = (op, admission_result v op) # admission_results (admission_step v op) ops"

definition claims :: "(admission_op \<times> bool) list \<Rightarrow> nat" where
  "claims rs = length (filter (\<lambda>r. r = (OpClaim, True)) rs)"

fun claim_spent :: "admission_view \<Rightarrow> bool" where
  "claim_spent (AvReady claimed) = claimed"
| "claim_spent (AvFatal c claimed) = True"
| "claim_spent v = False"

lemma claims_Cons: "claims (admission_results (admission_byte v) (op # ops)) =
    (if op = OpClaim \<and> fst (admission_spec v op) then 1 else 0) +
    claims (admission_results (admission_byte (snd (admission_spec v op))) ops)"
  by (auto simp: claims_def admission_step_spec
      simp del: admission_byte.simps admission_step.simps admission_result.simps)

lemma spent_step: "claim_spent v \<Longrightarrow> claim_spent (snd (admission_spec v op)) \<and> \<not> (op = OpClaim \<and> fst (admission_spec v op))"
  by (cases "(v, op)" rule: admission_spec.cases) auto

lemma no_more_claims: "claim_spent v \<Longrightarrow> claims (admission_results (admission_byte v) ops) = 0"
proof (induction ops arbitrary: v)
  case (Cons op ops)
  then show ?case using spent_step [of v op] by (simp add: claims_Cons del: admission_results.simps)
qed (simp add: claims_def)

lemma claim_spends: "fst (admission_spec v OpClaim) \<Longrightarrow> claim_spent (snd (admission_spec v OpClaim))"
  by (cases "(v, OpClaim)" rule: admission_spec.cases) auto

lemma claims_bounded: "claims (admission_results (admission_byte v) ops) \<le> 1"
proof (induction ops arbitrary: v)
  case (Cons op ops)
  then show ?case
    using claim_spends [of v] no_more_claims [of "snd (admission_spec v op)" ops]
    by (auto simp: claims_Cons simp del: admission_results.simps)
qed (simp add: claims_def)

text \<open>However the boot, the other tasks and repeated attempts interleave, the automatic identity reload is
  granted at most once in the life of a process.\<close>

theorem reload_claimed_once: "claims (admission_results admission_boot ops) \<le> 1"
  using claims_bounded [of AvBooting ops] by (simp add: admission_boot_def)

subsection \<open>The acknowledgement gates\<close>

datatype nimble_op = NimbleBegin | NimbleAcknowledge | NimbleTimeout

fun nimble_step :: "nimble_start_state \<Rightarrow> nimble_op \<Rightarrow> nimble_start_state" where
  "nimble_step s NimbleBegin = snd (nimble_begin s)"
| "nimble_step s NimbleAcknowledge = snd (nimble_acknowledge_sync s)"
| "nimble_step s NimbleTimeout = snd (nimble_mark_timed_out s)"

interpretation nimble_gate: terminal_gate nimble_step "\<lambda>s. nimble_action s \<noteq> NimbleWait"
proof
  fix s e
  assume "nimble_action s \<noteq> NimbleWait"
  then show "nimble_step s e = s"
    by (cases s; cases e)
      (simp_all add: nimble_action_def nimble_begin_def nimble_acknowledge_sync_def nimble_mark_timed_out_def cas_def)
qed

datatype syslog_op = SyslogOpBegin | SyslogOpCommit | SyslogOpCancel

fun syslog_step :: "syslog_start_state \<Rightarrow> syslog_op \<Rightarrow> syslog_start_state" where
  "syslog_step s SyslogOpBegin = snd (syslog_begin s)"
| "syslog_step s SyslogOpCommit = snd (syslog_commit s)"
| "syslog_step s SyslogOpCancel = snd (syslog_cancel s)"

interpretation syslog_gate: terminal_gate syslog_step "\<lambda>s. syslog_action s \<noteq> SyslogWait"
proof
  fix s e
  assume "syslog_action s \<noteq> SyslogWait"
  then show "syslog_step s e = s"
    by (cases s; cases e)
      (simp_all add: syslog_action_def syslog_begin_def syslog_commit_def syslog_cancel_def cas_def)
qed

text \<open>A Bluetooth host that answers after the boot has given up on it changes nothing, and neither does a
  log consumer that looks late: whatever the gates have decided at some point they still say at the end.\<close>

lemma start_gates_settle:
  "nimble_action (foldl nimble_step NimbleIdle (take n es)) \<noteq> NimbleWait \<Longrightarrow>
     nimble_action (foldl nimble_step NimbleIdle es) = nimble_action (foldl nimble_step NimbleIdle (take n es))"
  "syslog_action (foldl syslog_step SyslogIdle (take n fs)) \<noteq> SyslogWait \<Longrightarrow>
     syslog_action (foldl syslog_step SyslogIdle fs) = syslog_action (foldl syslog_step SyslogIdle (take n fs))"
  using nimble_gate.settled [of NimbleIdle n es] syslog_gate.settled [of SyslogIdle n fs] by auto

text \<open>The two vehicle tasks: a cancelled start is only forgotten after exactly the expected acknowledgements.\<close>

lemma task_reset_needs_acks:
  "task_reset_cancelled n g = (True, g') \<Longrightarrow>
   task_state g = TaskCancelled \<and> cancelled_acks g = n \<and> task_state g' = TaskIdle"
  by (auto simp: task_reset_cancelled_def cancelled_tasks_acknowledged_def cas_def split: if_splits)

lemma task_start_settles:
  "task_state g = TaskRunning \<Longrightarrow> task_entry_action (snd (task_cancel g)) = EntryRun"
  "task_state g = TaskCancelled \<Longrightarrow> task_entry_action (snd (task_release g)) = EntryCancel"
  by (simp_all add: task_cancel_def task_release_def cas_def task_entry_action_def)

text \<open>Once reserved, never again.\<close>

lemma reload_reserved_once: "reload_reserve True i = (False, True)"
  by (simp add: reload_reserve_def)

subsection \<open>What a failed reply must not hide\<close>

datatype er_op = ErAttempt request_effect | ErRefuse request_effect

fun er_step :: "effect_reply_state \<Rightarrow> er_op \<Rightarrow> effect_reply_state" where
  "er_step r (ErAttempt e) = er_attempting e r"
| "er_step r (ErRefuse e) = er_refused e r"

text \<open>The effects that were begun and not refused afterwards.\<close>

fun pending_step :: "request_effect set \<Rightarrow> er_op \<Rightarrow> request_effect set" where
  "pending_step S (ErAttempt e) = insert e S"
| "pending_step S (ErRefuse e) = S - {e}"

definition pending_effects :: "er_op list \<Rightarrow> request_effect set" where
  "pending_effects ops = foldl pending_step {} ops"

definition effect_mask :: "request_effect set \<Rightarrow> u8" where
  "effect_mask S = (if EffCommand \<in> S then effect_code EffCommand else 0) OR
     (if EffConfiguration \<in> S then effect_code EffConfiguration else 0) OR
     (if EffClock \<in> S then effect_code EffClock else 0) OR
     (if EffIdentity \<in> S then effect_code EffIdentity else 0) OR
     (if EffOtaStart \<in> S then effect_code EffOtaStart else 0) OR
     (if EffCoredumpErase \<in> S then effect_code EffCoredumpErase else 0)"

lemma effect_mask_insert: "effect_mask (insert e S) = effect_mask S OR effect_code e"
  by (cases e) (simp_all add: effect_mask_def effect_code_def)

lemma effect_mask_remove: "effect_mask (S - {e}) = effect_mask S AND NOT (effect_code e)"
  by (cases e) (simp_all add: effect_mask_def effect_code_def)

lemma effect_mask_zero: "effect_mask S = 0 \<longleftrightarrow> S = {}"
proof -
  have "S = {} \<longleftrightarrow> (\<forall>e. e \<notin> S)" by auto
  also have "\<dots> \<longleftrightarrow> effect_mask S = 0"
    by (auto simp: effect_mask_def effect_code_def) (metis (full_types) request_effect.exhaust)
  finally show ?thesis by simp
qed

definition reply_tracks :: "effect_reply_state \<Rightarrow> request_effect set \<Rightarrow> bool" where
  "reply_tracks r S \<longleftrightarrow> er_possible_effects r = effect_mask S \<and>
     er_outcome r = (if S = {} then OutNotAttempted else OutUncertain) \<and> er_recovery_pending r = False"

lemma reply_tracks_step: "reply_tracks r S \<Longrightarrow> reply_tracks (er_step r op) (pending_step S op)"
  by (cases op)
    (auto simp: reply_tracks_def er_attempting_def er_refused_def Let_def effect_mask_insert effect_mask_zero
      effect_mask_remove [symmetric])

lemma reply_tracks_run: "reply_tracks (foldl er_step new_effect_reply ops) (pending_effects ops)"
proof -
  have "reply_tracks r S \<Longrightarrow> reply_tracks (foldl er_step r ops) (foldl pending_step S ops)" for r S
    by (induction ops arbitrary: r S) (auto dest: reply_tracks_step)
  moreover have "reply_tracks new_effect_reply {}"
    by (simp add: reply_tracks_def new_effect_reply_def effect_mask_zero)
  ultimately show ?thesis by (simp add: pending_effects_def)
qed

text \<open>When a reply cannot be produced as meant, the request reports an unknown outcome exactly when some
  effect was begun and not refused; a request whose every effect was refused before it began is never
  reported as possibly applied. The continuation of a reply is handed out once.\<close>

theorem effect_reply_exact:
  "(needs_effect_reply (foldl er_step new_effect_reply ops) \<longleftrightarrow> pending_effects ops \<noteq> {}) \<and>
   (er_outcome (foldl er_step new_effect_reply ops) = OutUncertain \<longleftrightarrow> pending_effects ops \<noteq> {}) \<and>
   outcome_text (foldl er_step new_effect_reply ops) = ''unknown'' \<and>
   fst (take_continuation (snd (take_continuation r))) = ContNone"
  using reply_tracks_run [of ops]
  by (auto simp: reply_tracks_def needs_effect_reply_def effect_mask_zero outcome_text_def er_success_def
      take_continuation_def)

subsection \<open>Session bits and capped deadlines\<close>

text \<open>Every state that says it is usable only when it is known survives its encoding.\<close>

lemma session_runtime_roundtrip:
  "(srs_usable s \<longrightarrow> srs_known s) \<Longrightarrow> decode_session_runtime (encode_session_runtime s) = s"
  by (cases s; cases "srs_save s"; cases "srs_known s"; cases "srs_usable s")
    (simp_all add: decode_session_runtime_def encode_session_runtime_def save_code_def Let_def)

lemma session_observation_roundtrip:
  "decode_session_runtime (encode_session_runtime (session_runtime_observation k v sec e a)) =
     session_runtime_observation k v sec e a"
  by (rule session_runtime_roundtrip) (simp add: session_runtime_observation_def)

lemma enrollment_retry_bounded:
  "retry_ms st \<le> kEnrollmentRetryMaxMs \<Longrightarrow> retry_ms (auto_enrollment_started st now_ms) \<le> kEnrollmentRetryMaxMs"
  by (simp add: auto_enrollment_started_def Let_def kEnrollmentRetryMaxMs_def word_le_nat_alt
      word_less_nat_alt unat_word_ariths not_le)

end
