(* ===== verification/CommandApi.thy ===== *)
theory CommandApi
  imports CommandTable HttpGuard Admission
begin

text \<open>
  The two command surfaces: POST /api/1/vehicles/{VIN}/command/{CMD} (\<open>http_api.cpp\<close>) and the MCP endpoint
  (\<open>mcp_server.cpp\<close>, \<open>mcp_json_payloads.hpp\<close>). \<open>cJSON_Parse\<close> and \<open>cJSON_PrintUnformatted\<close> are parameters,
  and so is the vehicle controller; a reply is its status and its document. That the allocation of a reply
  may fail is left out, and so are the log lines.
\<close>

subsection \<open>Addresses\<close>

definition uri_path_end :: "string \<Rightarrow> nat" where
  "uri_path_end uri = length (takeWhile (\<lambda>c. c \<noteq> CHR ''?'') uri)"

definition parse_uri :: "string \<Rightarrow> nat \<Rightarrow> nat \<Rightarrow> (string \<times> string) option" where
  "parse_uri uri vin_sz cmd_sz =
     (if take (length kVehicleRoutePrefix) uri \<noteq> kVehicleRoutePrefix then None
      else let path_end = uri_path_end uri; vin_start = length kVehicleRoutePrefix; rest = drop vin_start uri in
        case find_char (CHR ''/'') rest of
          None \<Rightarrow> None
        | Some vin_len \<Rightarrow>
            let command = vin_start + vin_len in
            if path_end \<le> command \<or> take (length ''/command/'') (drop command uri) \<noteq> ''/command/'' then None
            else if vin_len = 0 \<or> vin_sz \<le> vin_len then None
            else let cmd_start = command + length ''/command/''; cmd = take (path_end - cmd_start) (drop cmd_start uri) in
              if cmd = [] \<or> cmd_sz \<le> length cmd then None
              else if CHR ''/'' \<in> set cmd then None
              else Some (take vin_len rest, cmd))"

definition parse_vin_route :: "string \<Rightarrow> string \<Rightarrow> nat \<Rightarrow> string option" where
  "parse_vin_route uri suffix vin_sz =
     (if take (length kVehicleRoutePrefix) uri \<noteq> kVehicleRoutePrefix then None
      else let path_end = uri_path_end uri; vin_start = length kVehicleRoutePrefix; rest = drop vin_start uri in
        case find_char (CHR ''/'') rest of
          None \<Rightarrow> None
        | Some vin_len \<Rightarrow>
            let slash = vin_start + vin_len in
            if path_end \<le> slash then None
            else if vin_len = 0 \<or> vin_sz \<le> vin_len then None
            else if path_end - slash \<noteq> length suffix \<or> take (length suffix) (drop slash uri) \<noteq> suffix then None
            else Some (take vin_len rest))"

definition is_command_route :: "string \<Rightarrow> bool" where
  "is_command_route uri \<longleftrightarrow> parse_uri uri 64 64 \<noteq> None"

text \<open>\<open>g_vehicle\<close> may be null: None.\<close>

definition request_vin_matches :: "string option \<Rightarrow> string \<Rightarrow> bool" where
  "request_vin_matches own vin \<longleftrightarrow> own = Some vin"

subsection \<open>The REST command\<close>

definition make_response :: "bool \<Rightarrow> string \<Rightarrow> string \<Rightarrow> string \<Rightarrow> string option \<Rightarrow> cjson" where
  "make_response result command vin reason no_op =
     CObject [(''response'', CObject (
       [(''result'', CBool result), (''command'', CString command), (''vin'', CString vin), (''reason'', CString reason)] @
       (case no_op of None \<Rightarrow> [] | Some n \<Rightarrow> if result then [(''noop'', CString n)] else [])))]"

type_synonym json_reply = "nat \<times> cjson"

definition send_command_result ::
    "bool \<Rightarrow> string \<Rightarrow> string \<Rightarrow> string \<Rightarrow> command_noop \<Rightarrow> json_reply" where
  "send_command_result ok cmd vin err no_op =
     (let effective_ok = (ok \<or> is_nominal_already_set err) in
      (if effective_ok then 200 else 502,
       make_response effective_ok cmd vin
         (if ok \<and> no_op \<noteq> NoOpNone then command_noop_text no_op else command_result_text effective_ok err)
         (if ok then command_noop_code no_op else None)))"

definition materialize_problem :: "json_materialize_status \<Rightarrow> (nat \<times> string) option" where
  "materialize_problem status = (case status of
       MatOk \<Rightarrow> None
     | MatMalformed \<Rightarrow> Some (400, ''invalid JSON'')
     | MatTooDeep \<Rightarrow> Some (400, ''JSON nesting too deep'')
     | MatUnsupportedNul \<Rightarrow> Some (400, ''JSON NUL escape not supported'')
     | MatTooManyValues \<Rightarrow> Some (400, ''too many JSON values'')
     | MatNoMemory \<Rightarrow> Some (503, ''out of memory''))"

text \<open>The body of a request as the bounded reader returns it, up to the tree: Left is the refusal.\<close>

definition rest_body :: "(string \<Rightarrow> cjson option) \<Rightarrow> string option \<times> body_read_status \<Rightarrow>
    (nat \<times> string) + cjson option" where
  "rest_body parse body = (case snd body of
       BodyTooLarge \<Rightarrow> Inl (body_read_http_status BodyTooLarge, ''request body too large'')
     | BodyNoMemory \<Rightarrow> Inl (body_read_http_status BodyNoMemory, ''out of memory'')
     | BodyReceiveFailed \<Rightarrow> Inl (body_read_http_status BodyReceiveFailed, ''request body read failed'')
     | BodyEmpty \<Rightarrow> Inr None
     | BodyOk \<Rightarrow>
         let (doc, status) = json_materialize parse (the (fst body)) kJsonMaxRequestValues in
         (case materialize_problem status of Some p \<Rightarrow> Inl p | None \<Rightarrow> Inr doc))"

definition body_shape :: "cjson option \<Rightarrow> rest_body_shape" where
  "body_shape tree = (case tree of
       None \<Rightarrow> ShapeEmpty
     | Some (CObject ms) \<Rightarrow> ShapeObject
     | Some (CBool b) \<Rightarrow> (if b then ShapeBoolTrue else ShapeBoolFalse)
     | Some t \<Rightarrow> ShapeOther)"

text \<open>What a request would make the vehicle do: the row and the values; Left is the refusal.\<close>

definition rest_request :: "(string \<Rightarrow> cjson option) \<Rightarrow> string option \<Rightarrow> string \<Rightarrow>
    string option \<times> body_read_status \<Rightarrow> json_reply + (string \<times> string \<times> cmd_info \<times> arg_values)" where
  "rest_request parse own uri body = (case parse_uri uri 64 64 of
       None \<Rightarrow> Inl (400, make_response False ''unknown'' ''?'' ''invalid URI'' None)
     | Some (vin, cmd) \<Rightarrow>
         let refuse = (\<lambda>status reason. Inl (status, make_response False cmd vin reason None)) in
         if \<not> request_vin_matches own vin then refuse 404 ''vehicle VIN mismatch''
         else case cmd_from_api_name cmd of
             None \<Rightarrow> refuse 404 ''unknown command''
           | Some info \<Rightarrow> (case rest_body parse body of
                 Inl (status, reason) \<Rightarrow> refuse status reason
               | Inr tree \<Rightarrow>
                   if (case tree of None \<Rightarrow> False | Some t \<Rightarrow> has_duplicate_json_keys t) then refuse 400 ''duplicate JSON key''
                   else if \<not> rest_body_allowed (ci_kind info) (body_shape tree) then refuse 400 ''invalid JSON object''
                   else (case rest_args tree 0 (ci_args info) no_values of
                       Inl (problem, key) \<Rightarrow> refuse 400 (take 95 (problem @ '': '' @ key))
                     | Inr values \<Rightarrow> Inr (vin, cmd, info, values))))"

definition handle_command :: "'s vehicle_ops \<Rightarrow> (string \<Rightarrow> cjson option) \<Rightarrow> u8 \<Rightarrow> string option \<Rightarrow> string \<Rightarrow>
    string option \<times> body_read_status \<Rightarrow> effect_reply_state \<Rightarrow> 's \<Rightarrow> json_reply \<times> effect_reply_state \<times> 's" where
  "handle_command ops parse admission own uri body er s =
     (case rest_request parse own uri body of
        Inl reply \<Rightarrow> (reply, er, s)
      | Inr (vin, cmd, info, values) \<Rightarrow>
          let er = er_attempting EffCommand er;
              ((ok, no_op), s) = execute_vehicle_command ops (vehicle_ready admission) (ci_kind info) values s;
              er = (if ok then er_succeeded er else er);
              err = vo_error ops s in
          (send_command_result ok cmd vin err no_op, er, s))"

subsection \<open>The envelope of an MCP request\<close>

definition kJsonRpcParseError :: int where "kJsonRpcParseError = -32700"
definition kJsonRpcInvalidRequest :: int where "kJsonRpcInvalidRequest = -32600"
definition kJsonRpcMethodNotFound :: int where "kJsonRpcMethodNotFound = -32601"
definition kJsonRpcInvalidParams :: int where "kJsonRpcInvalidParams = -32602"
definition kMcpSupportedVersions :: "string list" where "kMcpSupportedVersions = [''2025-06-18'', ''2025-03-26'']"

definition mcp_negotiate_version :: "string option \<Rightarrow> string" where
  "mcp_negotiate_version requested = (case requested of
       None \<Rightarrow> hd kMcpSupportedVersions
     | Some r \<Rightarrow> (case find (\<lambda>v. r = v) kMcpSupportedVersions of None \<Rightarrow> hd kMcpSupportedVersions | Some v \<Rightarrow> v))"

datatype mcp_method = McpInitialize | McpToolsList | McpToolsCall | McpPing | McpNotification | McpUnknown

definition mcp_method_from :: "string option \<Rightarrow> mcp_method" where
  "mcp_method_from m = (case m of
       None \<Rightarrow> McpUnknown
     | Some n \<Rightarrow>
         if n = ''initialize'' then McpInitialize
         else if n = ''tools/list'' then McpToolsList
         else if n = ''tools/call'' then McpToolsCall
         else if n = ''ping'' then McpPing
         else if starts_with ''notifications/'' n then McpNotification
         else McpUnknown)"

definition kMaxStringIdBytes :: nat where "kMaxStringIdBytes = 64"

datatype rpc_id = IdMissing | IdNumber int | IdString string
datatype rpc_id_status = IdStatusMissing | IdStatusValid | IdStatusInvalid

definition capture_id :: "cjson option \<Rightarrow> json_raw_number_id \<Rightarrow> rpc_id_status \<times> rpc_id" where
  "capture_id value raw_number = (case value of
       None \<Rightarrow> (IdStatusMissing, IdMissing)
     | Some (CNumber n) \<Rightarrow>
         if raw_status raw_number \<noteq> RawValidInteger \<or> json_safe_integer n \<noteq> Some (raw_value raw_number)
         then (IdStatusInvalid, IdMissing) else (IdStatusValid, IdNumber (raw_value raw_number))
     | Some (CString s) \<Rightarrow>
         if kMaxStringIdBytes < length s then (IdStatusInvalid, IdMissing) else (IdStatusValid, IdString s)
     | Some _ \<Rightarrow> (IdStatusInvalid, IdMissing))"

definition id_document :: "rpc_id \<Rightarrow> cjson" where
  "id_document i = (case i of IdNumber n \<Rightarrow> CNumber (Finite (of_int n)) | IdString s \<Rightarrow> CString s | IdMissing \<Rightarrow> CNull)"

definition object_key_count :: "cjson \<Rightarrow> string \<Rightarrow> nat" where
  "object_key_count object key = (case object of CObject ms \<Rightarrow> length (filter (\<lambda>m. fst m = key) ms) | _ \<Rightarrow> 0)"

datatype rpc_request_status = ReqValid | ReqInvalidObject | ReqDuplicateKey | ReqInvalidId | ReqInvalidVersion

record rpc_envelope =
  env_id :: rpc_id
  env_id_status :: rpc_id_status
  env_status :: rpc_request_status

definition inspect_request_envelope :: "cjson \<Rightarrow> json_raw_number_id \<Rightarrow> rpc_envelope" where
  "inspect_request_envelope object raw_number =
     (case object of
        CObject ms \<Rightarrow>
          let id_count = object_key_count object ''id'';
              (id_status, i) = (if id_count \<le> 1
                then capture_id (if id_count = 1 then cjson_get (Some object) ''id'' else None) raw_number
                else (IdStatusMissing, IdMissing)) in
          if has_duplicate_json_keys object then
            (if id_count \<noteq> 1 \<or> id_status \<noteq> IdStatusValid
             then \<lparr>env_id = IdMissing, env_id_status = (if id_count = 0 then IdStatusMissing else IdStatusInvalid),
                   env_status = ReqDuplicateKey\<rparr>
             else \<lparr>env_id = i, env_id_status = id_status, env_status = ReqDuplicateKey\<rparr>)
          else if id_status = IdStatusInvalid then
            \<lparr>env_id = IdMissing, env_id_status = id_status, env_status = ReqInvalidId\<rparr>
          else if cjson_string (cjson_get (Some object) ''jsonrpc'') \<noteq> Some ''2.0'' then
            \<lparr>env_id = i, env_id_status = id_status, env_status = ReqInvalidVersion\<rparr>
          else \<lparr>env_id = i, env_id_status = id_status, env_status = ReqValid\<rparr>
      | _ \<Rightarrow> \<lparr>env_id = IdMissing, env_id_status = IdStatusMissing, env_status = ReqInvalidObject\<rparr>)"

definition build_result_envelope :: "rpc_id \<Rightarrow> cjson \<Rightarrow> cjson" where
  "build_result_envelope i result = CObject [(''jsonrpc'', CString ''2.0''), (''id'', id_document i), (''result'', result)]"

definition build_error_envelope :: "rpc_id \<Rightarrow> int \<Rightarrow> string \<Rightarrow> cjson" where
  "build_error_envelope i code message =
     CObject [(''jsonrpc'', CString ''2.0''), (''id'', id_document i),
       (''error'', CObject [(''code'', CNumber (Finite (of_int code))), (''message'', CString message)])]"

definition build_tool_result :: "string \<Rightarrow> bool \<Rightarrow> string option \<Rightarrow> cjson" where
  "build_tool_result content is_error no_op =
     CObject ([(''content'', CArray [CObject [(''type'', CString ''text''), (''text'', CString content)]]),
               (''isError'', CBool is_error)] @
       (case no_op of None \<Rightarrow> []
          | Some n \<Rightarrow> if is_error then [] else [(''structuredContent'', CObject [(''noop'', CString n)])]))"

subsection \<open>The tools\<close>

record vehicle_state_payload =
  vsp_vin :: string
  vsp_paired :: bool
  vsp_session_available :: bool
  vsp_charge_available :: bool
  vsp_link :: string
  vsp_last_seen :: "json_number option"
  vsp_soc :: "json_number option"
  vsp_usable_soc :: "json_number option"
  vsp_charging_state :: string
  vsp_charge_limit :: "json_number option"
  vsp_charge_amps :: "json_number option"
  vsp_charger_power :: "json_number option"

definition number_member :: "string \<Rightarrow> json_number option \<Rightarrow> (string \<times> cjson) list" where
  "number_member name v = (case v of None \<Rightarrow> [] | Some n \<Rightarrow> [(name, CNumber n)])"

definition build_vehicle_state_object :: "vehicle_state_payload \<Rightarrow> cjson" where
  "build_vehicle_state_object p =
     CObject ([(''vin'', CString (vsp_vin p)), (''paired'', CBool (vsp_paired p)),
               (''session_available'', CBool (vsp_session_available p)),
               (''charge_available'', CBool (vsp_charge_available p)), (''link'', CString (vsp_link p))] @
       number_member ''last_seen_s'' (vsp_last_seen p) @
       (if vsp_charge_available p then
          number_member ''soc'' (vsp_soc p) @ number_member ''usable_soc'' (vsp_usable_soc p) @
          (if vsp_charging_state p \<noteq> [] then [(''charging_state'', CString (vsp_charging_state p))] else []) @
          number_member ''charge_limit'' (vsp_charge_limit p) @ number_member ''charge_amps'' (vsp_charge_amps p) @
          number_member ''charger_power_kw'' (vsp_charger_power p)
        else []))"

text \<open>The state is printed into the text of the result; None when the printer has no memory.\<close>

definition build_vehicle_state_result :: "(cjson \<Rightarrow> string option) \<Rightarrow> vehicle_state_payload \<Rightarrow> cjson option" where
  "build_vehicle_state_result print p =
     map_option (\<lambda>t. build_tool_result t False None) (print (build_vehicle_state_object p))"

definition tool_property :: "cmd_arg \<Rightarrow> cjson" where
  "tool_property a = (if arg_type a = ArgInt
     then CObject [(''type'', CString ''integer''), (''minimum'', CNumber (Finite (of_int (arg_lo a)))),
                   (''maximum'', CNumber (Finite (of_int (arg_hi a))))]
     else CObject [(''type'', CString ''boolean'')])"

definition build_tool_schema :: "cmd_info \<Rightarrow> cjson" where
  "build_tool_schema info =
     (let args = filter (\<lambda>a. \<not> (arg_type a = ArgNone \<or> mcp_key a = None)) (ci_args info);
          required = filter mcp_required args in
      CObject ([(''type'', CString ''object''),
                (''properties'', CObject (map (\<lambda>a. (the (mcp_key a), tool_property a)) args))] @
        (if required = [] then [] else [(''required'', CArray (map (\<lambda>a. CString (the (mcp_key a))) required))])))"

definition build_tools_list_result :: cjson where
  "build_tools_list_result =
     CObject [(''tools'', CArray (map (\<lambda>c. CObject [(''name'', CString (the (mcp_name c))),
         (''description'', CString (the (mcp_desc c))), (''inputSchema'', build_tool_schema c)])
       (filter (\<lambda>c. mcp_name c \<noteq> None) kCommands)))]"

subsection \<open>The MCP endpoint\<close>

datatype rpc_reply = RpcDocument cjson | RpcAccepted | RpcOutOfMemory503 | RpcTooLarge413

definition rpc_result :: "rpc_id \<Rightarrow> cjson \<Rightarrow> rpc_reply" where
  "rpc_result i result = RpcDocument (build_result_envelope i result)"

definition rpc_error :: "rpc_id \<Rightarrow> int \<Rightarrow> string \<Rightarrow> rpc_reply" where
  "rpc_error i code message = RpcDocument (build_error_envelope i code message)"

text \<open>The vehicle as the endpoint sees it: the cached state, the version and the printer.\<close>

record 's mcp_world =
  mw_ops :: "'s vehicle_ops"
  mw_parse :: "string \<Rightarrow> cjson option"
  mw_print :: "cjson \<Rightarrow> string option"
  mw_state :: "'s \<Rightarrow> vehicle_state_payload"
  mw_version :: string
  mw_admission :: u8

text \<open>A tool call down to the row and the values: Left is the message of the protocol error.\<close>

definition tool_request :: "cjson option \<Rightarrow> string + (cmd_info \<times> arg_values)" where
  "tool_request params = (case cmd_from_mcp_name (cjson_string (cjson_get params ''name'')) of
       None \<Rightarrow> Inl ''unknown tool''
     | Some info \<Rightarrow> (case mcp_args (cjson_get params ''arguments'') 0 (ci_args info) no_values of
           Inl (problem, key) \<Rightarrow> Inl (take 63 (problem @ '': '' @ key))
         | Inr values \<Rightarrow> Inr (info, values)))"

definition handle_tools_call ::
    "'s mcp_world \<Rightarrow> rpc_id \<Rightarrow> cjson \<Rightarrow> effect_reply_state \<Rightarrow> 's \<Rightarrow> rpc_reply \<times> effect_reply_state \<times> 's" where
  "handle_tools_call w i request er s =
     (case tool_request (cjson_get (Some request) ''params'') of
        Inl message \<Rightarrow> (rpc_error i kJsonRpcInvalidParams message, er, s)
      | Inr (info, values) \<Rightarrow>
          if ci_kind info = CmdGetVehicleState then
            (case build_vehicle_state_result (mw_print w) (mw_state w s) of
               None \<Rightarrow> (RpcOutOfMemory503, er, s)
             | Some result \<Rightarrow> (rpc_result i result, er, s))
          else
            let er = er_attempting EffCommand (er\<lparr>er_shape := ShapeRpc\<rparr>);
                ((ok, no_op), s) = execute_vehicle_command (mw_ops w) (vehicle_ready (mw_admission w)) (ci_kind info) values s;
                er = (if ok then er_succeeded er else er);
                err = vo_error (mw_ops w) s;
                effective_ok = (ok \<or> is_nominal_already_set err);
                content = (if ok \<and> no_op \<noteq> NoOpNone then command_noop_text no_op
                  else command_result_text effective_ok err) in
            (rpc_result i (build_tool_result content (\<not> effective_ok) (if ok then command_noop_code no_op else None)), er, s))"

definition mcp_instructions :: string where
  "mcp_instructions = ''Cached get_vehicle_state never wakes; BLE commands may take 20s. '' @
     ''HTTP OTA (board/OTA approval): POST /ota/upload, saved dev only, Content-Length, '' @
     ''application/octet-stream, signed app .bin. GET /ota/status: progress/boot/ELF. '' @
     ''No feed/merge; reboots. Signature/rollback/PR gates remain.''"

definition initialize_result :: "string \<Rightarrow> string \<Rightarrow> cjson" where
  "initialize_result version negotiated =
     CObject [(''protocolVersion'', CString negotiated),
       (''capabilities'', CObject [(''tools'', CObject [])]),
       (''serverInfo'', CObject [(''name'', CString ''tesla-key-esp32''), (''version'', CString version)]),
       (''instructions'', CString mcp_instructions)]"

definition envelope_problem :: "rpc_request_status \<Rightarrow> string" where
  "envelope_problem status = (case status of
       ReqDuplicateKey \<Rightarrow> ''duplicate JSON key''
     | ReqInvalidId \<Rightarrow> ''invalid or oversized id''
     | ReqInvalidVersion \<Rightarrow> ''jsonrpc must be '' @ [CHR 0x22] @ ''2.0'' @ [CHR 0x22]
     | _ \<Rightarrow> ''invalid request'')"

text \<open>A message with a valid envelope.\<close>

definition mcp_dispatch ::
    "'s mcp_world \<Rightarrow> rpc_envelope \<Rightarrow> cjson \<Rightarrow> effect_reply_state \<Rightarrow> 's \<Rightarrow> rpc_reply \<times> effect_reply_state \<times> 's" where
  "mcp_dispatch w env msg er s =
     (let i = env_id env; name = cjson_string (cjson_get (Some msg) ''method''); m = mcp_method_from name in
      if env_id_status env = IdStatusMissing then
        (if name \<noteq> None then RpcAccepted else rpc_error IdMissing kJsonRpcInvalidRequest ''missing method'', er, s)
      else case m of
          McpToolsCall \<Rightarrow> handle_tools_call w i msg er s
        | McpInitialize \<Rightarrow>
            (rpc_result i (initialize_result (mw_version w) (mcp_negotiate_version
               (cjson_string (cjson_get (cjson_get (Some msg) ''params'') ''protocolVersion'')))), er, s)
        | McpToolsList \<Rightarrow> (rpc_result i build_tools_list_result, er, s)
        | McpPing \<Rightarrow> (rpc_result i (CObject []), er, s)
        | McpNotification \<Rightarrow> (rpc_error i kJsonRpcInvalidRequest ''notification must not have an id'', er, s)
        | McpUnknown \<Rightarrow>
            (rpc_error i (if name \<noteq> None then kJsonRpcMethodNotFound else kJsonRpcInvalidRequest)
               (if name \<noteq> None then ''method not found'' else ''missing method''), er, s))"

definition mcp_handle_post ::
    "'s mcp_world \<Rightarrow> string option \<times> body_read_status \<Rightarrow> effect_reply_state \<Rightarrow> 's \<Rightarrow>
     rpc_reply \<times> effect_reply_state \<times> 's" where
  "mcp_handle_post w body er s =
     (let refuse = (\<lambda>code message. (rpc_error IdMissing code message, er, s)) in
      if snd body = BodyNoMemory then (RpcOutOfMemory503, er, s)
      else if snd body = BodyTooLarge then (RpcTooLarge413, er, s)
      else if snd body \<noteq> BodyOk then refuse kJsonRpcParseError ''parse error''
      else let data = the (fst body); raw = json_top_level_numeric_id data in
        case json_materialize (mw_parse w) data kJsonMaxRequestValues of
          (doc, MatMalformed) \<Rightarrow> refuse kJsonRpcParseError ''parse error''
        | (doc, MatTooDeep) \<Rightarrow> refuse kJsonRpcInvalidRequest ''JSON nesting too deep''
        | (doc, MatUnsupportedNul) \<Rightarrow> refuse kJsonRpcInvalidRequest ''JSON NUL escape not supported''
        | (doc, MatTooManyValues) \<Rightarrow> refuse kJsonRpcInvalidRequest ''too many JSON values''
        | (doc, MatNoMemory) \<Rightarrow> (RpcOutOfMemory503, er, s)
        | (doc, MatOk) \<Rightarrow>
            (case the doc of
               CObject ms \<Rightarrow>
                 let env = inspect_request_envelope (CObject ms) raw in
                 if env_status env \<noteq> ReqValid
                 then (rpc_error (env_id env) kJsonRpcInvalidRequest (envelope_problem (env_status env)), er, s)
                 else mcp_dispatch w env (CObject ms) er s
             | CArray xs \<Rightarrow> refuse kJsonRpcInvalidRequest ''batching not supported''
             | _ \<Rightarrow> refuse kJsonRpcInvalidRequest ''invalid request''))"

end
