(* ===== verification/CommandProps.thy ===== *)
theory CommandProps
  imports CommandApi
begin

text \<open>
  What the command surfaces guarantee: a request either changes nothing or makes the vehicle do the one call
  it names, with the values it gives, inside the bounds of the table.
\<close>

subsection \<open>What a request asks for\<close>

text \<open>The names of the calls on the two surfaces, and the values a document gives.\<close>

fun rest_name :: "vehicle_call \<Rightarrow> string" where
  "rest_name CallWakeUp = ''wake_up''"
| "rest_name (CallChargeStart t) = ''charge_start''"
| "rest_name (CallChargeStop t) = ''charge_stop''"
| "rest_name CallChargePortOpen = ''charge_port_door_open''"
| "rest_name CallChargePortClose = ''charge_port_door_close''"
| "rest_name (CallSetChargingAmps n) = ''set_charging_amps''"
| "rest_name (CallSetChargeLimit n) = ''set_charge_limit''"
| "rest_name (CallSetScheduledCharging b n) = ''set_scheduled_charging''"
| "rest_name CallDoorLock = ''door_lock''"
| "rest_name CallDoorUnlock = ''door_unlock''"
| "rest_name CallFlashLights = ''flash_lights''"
| "rest_name CallHonkHorn = ''honk_horn''"
| "rest_name (CallSetSentryMode b) = ''set_sentry_mode''"
| "rest_name CallClimateStart = ''auto_conditioning_start''"
| "rest_name CallClimateStop = ''auto_conditioning_stop''"

fun tool_name :: "vehicle_call \<Rightarrow> string option" where
  "tool_name CallWakeUp = Some ''wake_up''"
| "tool_name (CallChargeStart t) = Some ''charge_start''"
| "tool_name (CallChargeStop t) = Some ''charge_stop''"
| "tool_name CallChargePortOpen = Some ''charge_port_open''"
| "tool_name CallChargePortClose = Some ''charge_port_close''"
| "tool_name (CallSetChargingAmps n) = Some ''set_charging_amps''"
| "tool_name (CallSetChargeLimit n) = Some ''set_charge_limit''"
| "tool_name (CallSetScheduledCharging b n) = Some ''set_scheduled_charging''"
| "tool_name call = None"

definition given_int :: "cjson option \<Rightarrow> string \<Rightarrow> int \<Rightarrow> bool" where
  "given_int obj key n \<longleftrightarrow> cjson_get obj key = Some (CNumber (Finite (of_int n))) \<or>
     (\<exists>digits. cjson_get obj key = Some (CString digits) \<and> json_canonical_safe_integer digits = Some n)"

definition given_bool :: "cjson option \<Rightarrow> string \<Rightarrow> bool \<Rightarrow> bool" where
  "given_bool obj key b \<longleftrightarrow> cjson_get obj key = Some (CBool b)"

definition absent :: "cjson option \<Rightarrow> string \<Rightarrow> bool" where
  "absent obj key \<longleftrightarrow> cjson_get obj key = None"

fun rest_asks :: "cjson option \<Rightarrow> vehicle_call \<Rightarrow> bool" where
  "rest_asks obj (CallSetChargingAmps n) \<longleftrightarrow> 0 \<le> n \<and> n \<le> 48 \<and> given_int obj ''charging_amps'' n"
| "rest_asks obj (CallSetChargeLimit n) \<longleftrightarrow>
     50 \<le> n \<and> n \<le> 100 \<and> (given_int obj ''percent'' n \<or> absent obj ''percent'' \<and> n = 80)"
| "rest_asks obj (CallSetScheduledCharging b n) \<longleftrightarrow> given_bool obj ''enable'' b \<and>
     0 \<le> n \<and> n \<le> 1439 \<and> (given_int obj ''start_minutes'' n \<or> absent obj ''start_minutes'' \<and> n = 0)"
| "rest_asks obj (CallSetSentryMode b) \<longleftrightarrow> given_bool obj ''on'' b \<or> absent obj ''on'' \<and> \<not> b"
| "rest_asks obj call \<longleftrightarrow> True"

fun tool_asks :: "cjson option \<Rightarrow> vehicle_call \<Rightarrow> bool" where
  "tool_asks args (CallSetChargingAmps n) \<longleftrightarrow> 0 \<le> n \<and> n \<le> 48 \<and> given_int args ''amps'' n"
| "tool_asks args (CallSetChargeLimit n) \<longleftrightarrow> 50 \<le> n \<and> n \<le> 100 \<and> given_int args ''percent'' n"
| "tool_asks args (CallSetScheduledCharging b n) \<longleftrightarrow>
     (given_bool args ''enable'' b \<or> cjson_get args ''enable'' = Some (CNumber (Finite (if b then 1 else 0)))) \<and>
     0 \<le> n \<and> n \<le> 1439 \<and> (given_int args ''start_minutes'' n \<or> absent args ''start_minutes'' \<and> n = 0)"
| "tool_asks args call \<longleftrightarrow> True"

text \<open>The address of a command, with an optional query.\<close>

definition names_command :: "string \<Rightarrow> string \<Rightarrow> string \<Rightarrow> bool" where
  "names_command uri vin cmd \<longleftrightarrow> (\<exists>query. uri = kVehicleRoutePrefix @ vin @ ''/command/'' @ cmd @ query \<and>
     (query = [] \<or> hd query = CHR ''?'')) \<and> CHR ''/'' \<notin> set vin \<and> vin \<noteq> [] \<and> CHR ''/'' \<notin> set cmd \<and> CHR ''?'' \<notin> set cmd"

subsection \<open>Arguments\<close>

lemma integral_floor: "integral d \<Longrightarrow> d = of_int \<lfloor>d\<rfloor>"
  unfolding integral_def by (rule sym)

lemma json_int_arg_value:
  assumes "json_int_arg obj a = Inr n" "api_key a = Some key"
  shows "given_int obj key n \<and> arg_lo a \<le> n \<and> n \<le> arg_hi a \<or> absent obj key \<and> n = api_default a \<and> \<not> api_required a"
proof (cases "cjson_get obj key")
  case None
  with assms show ?thesis by (auto simp: json_int_arg_def absent_def split: if_splits)
next
  case (Some j)
  with assms obtain d where j: "json_command_number j = Some (Finite d)" and d: "integral d" "of_int (arg_lo a) \<le> d"
      "d \<le> of_int (arg_hi a)" and n: "n = \<lfloor>d\<rfloor>"
    by (auto simp: json_int_arg_def strict_rest_int_def mcp_integer_syntax_def
        split: option.splits if_splits json_number.splits)
  from n integral_floor [OF d(1)] have dn: "d = of_int n" by simp
  with j Some have "given_int obj key n"
    by (auto simp: given_int_def json_command_number_def split: cjson.splits)
  with d dn show ?thesis by simp
qed

lemma json_bool_arg_value:
  "json_bool_arg obj a = Inr b \<Longrightarrow> api_key a = Some key \<Longrightarrow>
   given_bool obj key b \<or> absent obj key \<and> \<not> b \<and> \<not> api_required a"
  by (auto simp: json_bool_arg_def given_bool_def absent_def split: option.splits cjson.splits if_splits)

lemma mcp_int_arg_value:
  assumes "mcp_int_arg obj a = Inr n" "mcp_key a = Some key"
  shows "given_int obj key n \<and> arg_lo a \<le> n \<and> n \<le> arg_hi a \<or> absent obj key \<and> n = 0 \<and> \<not> mcp_required a"
proof (cases "cjson_get obj key")
  case None
  with assms show ?thesis by (auto simp: mcp_int_arg_def absent_def split: if_splits)
next
  case (Some j)
  with assms obtain d where j: "json_command_number j = Some (Finite d)" and d: "integral d" "of_int (arg_lo a) \<le> d"
      "d \<le> of_int (arg_hi a)" and n: "n = \<lfloor>d\<rfloor>"
    by (auto simp: mcp_int_arg_def mcp_integer_value_def mcp_integer_syntax_def Let_def
        split: option.splits if_splits json_number.splits)
  from n integral_floor [OF d(1)] have dn: "d = of_int n" by simp
  with j Some have "given_int obj key n"
    by (auto simp: given_int_def json_command_number_def split: cjson.splits)
  with d dn show ?thesis by simp
qed

lemma mcp_bool_arg_value:
  "mcp_bool_arg obj a = Inr b \<Longrightarrow> mcp_key a = Some key \<Longrightarrow>
   given_bool obj key b \<or> cjson_get obj key = Some (CNumber (Finite (if b then 1 else 0))) \<or>
   absent obj key \<and> \<not> b \<and> \<not> mcp_required a"
  by (auto simp: mcp_bool_arg_def given_bool_def absent_def mcp_bool_value_def
      split: option.splits cjson.splits if_splits json_number.splits)

lemmas command_rows = kCommands_def row_def int_arg_def bool_arg_def kNoCmdArg_def no_values_def kCmdMaxArgs_def

lemma no_arg [simp]: "arg_type kNoCmdArg = ArgNone" "api_key kNoCmdArg = None" "mcp_key kNoCmdArg = None"
  by (simp_all add: kNoCmdArg_def)

definition rest_row_ok :: "cjson option \<Rightarrow> cmd_info \<Rightarrow> bool" where
  "rest_row_ok obj info \<longleftrightarrow> (\<forall>cmd v. api_name info = Some cmd \<longrightarrow> rest_args obj 0 (ci_args info) no_values = Inr v \<longrightarrow>
     (\<exists>call. call_of (ci_kind info) v = Some call \<and> rest_name call = cmd \<and> rest_asks obj call))"

definition tool_row_ok :: "cjson option \<Rightarrow> cmd_info \<Rightarrow> bool" where
  "tool_row_ok obj info \<longleftrightarrow> (\<forall>name v. mcp_name info = Some name \<longrightarrow> mcp_args obj 0 (ci_args info) no_values = Inr v \<longrightarrow>
     ci_kind info \<noteq> CmdGetVehicleState \<longrightarrow>
     (\<exists>call. call_of (ci_kind info) v = Some call \<and> tool_name call = Some name \<and> tool_asks obj call))"

lemma rest_row_plain:
  "call_of kind no_values = Some call \<Longrightarrow> rest_name call = name \<Longrightarrow> rest_asks obj call \<Longrightarrow>
   rest_row_ok obj (row kind (Some name) tool desc [kNoCmdArg, kNoCmdArg])"
  by (simp add: rest_row_ok_def row_def)

lemma tool_row_plain:
  "call_of kind no_values = Some call \<Longrightarrow> tool_name call = Some name \<Longrightarrow> tool_asks obj call \<Longrightarrow>
   tool_row_ok obj (row kind api (Some name) desc [kNoCmdArg, kNoCmdArg])"
  by (simp add: tool_row_ok_def row_def)

lemma hidden_row: "rest_row_ok obj (row kind None tool desc args)" "tool_row_ok obj (row kind api None desc args)"
  by (simp_all add: rest_row_ok_def tool_row_ok_def row_def)

lemma rest_row_amps: "rest_row_ok obj (row CmdSetChargingAmps (Some ''set_charging_amps'') tool desc
    [int_arg ''charging_amps'' ''amps'' True True 0 0 48, kNoCmdArg])"
  using json_int_arg_value [of obj "int_arg ''charging_amps'' ''amps'' True True 0 0 48" _ "''charging_amps''"]
  by (auto simp: rest_row_ok_def row_def int_arg_def no_values_def kCmdMaxArgs_def call_of_def numeral_2_eq_2 split: sum.splits)

lemma rest_row_limit: "rest_row_ok obj (row CmdSetChargeLimit (Some ''set_charge_limit'') tool desc
    [int_arg ''percent'' ''percent'' False True 80 50 100, kNoCmdArg])"
  using json_int_arg_value [of obj "int_arg ''percent'' ''percent'' False True 80 50 100" _ "''percent''"]
  by (auto simp: rest_row_ok_def row_def int_arg_def no_values_def kCmdMaxArgs_def call_of_def numeral_2_eq_2 split: sum.splits)

lemma rest_row_schedule: "rest_row_ok obj (row CmdSetScheduledCharging (Some ''set_scheduled_charging'') tool desc
    [bool_arg ''enable'' (Some ''enable'') True True, int_arg ''start_minutes'' ''start_minutes'' False False 0 0 1439])"
  using json_int_arg_value [of obj "int_arg ''start_minutes'' ''start_minutes'' False False 0 0 1439" _ "''start_minutes''"]
    json_bool_arg_value [of obj "bool_arg ''enable'' (Some ''enable'') True True" _ "''enable''"]
  by (auto simp: rest_row_ok_def row_def int_arg_def bool_arg_def no_values_def kCmdMaxArgs_def call_of_def numeral_2_eq_2
      split: sum.splits)

lemma rest_row_sentry: "rest_row_ok obj (row CmdSetSentryMode (Some ''set_sentry_mode'') tool desc
    [bool_arg ''on'' None False False, kNoCmdArg])"
  using json_bool_arg_value [of obj "bool_arg ''on'' None False False" _ "''on''"]
  by (auto simp: rest_row_ok_def row_def bool_arg_def no_values_def kCmdMaxArgs_def call_of_def numeral_2_eq_2
      split: sum.splits)

lemma tool_row_amps: "tool_row_ok obj (row CmdSetChargingAmps api (Some ''set_charging_amps'') desc
    [int_arg ''charging_amps'' ''amps'' True True 0 0 48, kNoCmdArg])"
  using mcp_int_arg_value [of obj "int_arg ''charging_amps'' ''amps'' True True 0 0 48" _ "''amps''"]
  by (auto simp: tool_row_ok_def row_def int_arg_def no_values_def kCmdMaxArgs_def call_of_def numeral_2_eq_2 split: sum.splits)

lemma tool_row_limit: "tool_row_ok obj (row CmdSetChargeLimit api (Some ''set_charge_limit'') desc
    [int_arg ''percent'' ''percent'' False True 80 50 100, kNoCmdArg])"
  using mcp_int_arg_value [of obj "int_arg ''percent'' ''percent'' False True 80 50 100" _ "''percent''"]
  by (auto simp: tool_row_ok_def row_def int_arg_def no_values_def kCmdMaxArgs_def call_of_def numeral_2_eq_2 split: sum.splits)

lemma tool_row_schedule: "tool_row_ok obj (row CmdSetScheduledCharging api (Some ''set_scheduled_charging'') desc
    [bool_arg ''enable'' (Some ''enable'') True True, int_arg ''start_minutes'' ''start_minutes'' False False 0 0 1439])"
  using mcp_int_arg_value [of obj "int_arg ''start_minutes'' ''start_minutes'' False False 0 0 1439" _ "''start_minutes''"]
    mcp_bool_arg_value [of obj "bool_arg ''enable'' (Some ''enable'') True True" _ "''enable''"]
  by (auto simp: tool_row_ok_def row_def int_arg_def bool_arg_def no_values_def kCmdMaxArgs_def call_of_def numeral_2_eq_2
      split: sum.splits)

lemma tool_row_state: "tool_row_ok obj (row CmdGetVehicleState api tool desc args)"
  by (simp add: tool_row_ok_def row_def)

lemmas row_cases = hidden_row rest_row_amps rest_row_limit rest_row_schedule rest_row_sentry
  tool_row_amps tool_row_limit tool_row_schedule tool_row_state

lemma rest_rows: "info \<in> set kCommands \<Longrightarrow> rest_row_ok obj info"
  unfolding kCommands_def set_simps insert_iff empty_iff
  by (elim disjE FalseE; hypsubst; (rule row_cases | (rule rest_row_plain, simp add: call_of_def, simp, simp)))

lemma tool_rows: "info \<in> set kCommands \<Longrightarrow> tool_row_ok obj info"
  unfolding kCommands_def set_simps insert_iff empty_iff
  by (elim disjE FalseE; hypsubst; (rule row_cases | (rule tool_row_plain, simp add: call_of_def, simp, simp)))

lemma rest_row_call:
  assumes "cmd_from_api_name cmd = Some info" "rest_args obj 0 (ci_args info) no_values = Inr v"
  shows "\<exists>call. call_of (ci_kind info) v = Some call \<and> rest_name call = cmd \<and> rest_asks obj call"
proof -
  from assms(1) have "info \<in> set kCommands" "api_name info = Some cmd"
    by (auto simp: cmd_from_api_name_def find_Some_iff in_set_conv_nth)
  with rest_rows [of info obj] assms(2) show ?thesis by (simp add: rest_row_ok_def)
qed

lemma tool_row_call:
  assumes "cmd_from_mcp_name (Some name) = Some info" "mcp_args obj 0 (ci_args info) no_values = Inr v"
    "ci_kind info \<noteq> CmdGetVehicleState"
  shows "\<exists>call. call_of (ci_kind info) v = Some call \<and> tool_name call = Some name \<and> tool_asks obj call"
proof -
  from assms(1) have "info \<in> set kCommands" "mcp_name info = Some name"
    by (auto simp: cmd_from_mcp_name_def find_Some_iff in_set_conv_nth)
  with tool_rows [of info obj] assms(2,3) show ?thesis by (simp add: tool_row_ok_def)
qed

subsection \<open>Addresses\<close>

lemma parse_uri_names:
  assumes "parse_uri uri n m = Some (vin, cmd)"
  shows "names_command uri vin cmd"
proof -
  let ?p = "kVehicleRoutePrefix" and ?c = "''/command/''"
  let ?rest = "drop (length ?p) uri"
  from assms obtain k where p: "take (length ?p) uri = ?p" and k: "find_char (CHR ''/'') ?rest = Some k" "k \<noteq> 0"
    and c: "take (length ?c) (drop (length ?p + k) uri) = ?c" and lt: "length ?p + k < uri_path_end uri"
    and vin: "vin = take k ?rest"
    and cmd: "cmd = take (uri_path_end uri - (length ?p + k + length ?c)) (drop (length ?p + k + length ?c) uri)"
    and slash: "CHR ''/'' \<notin> set cmd"
    by (auto simp: parse_uri_def Let_def not_le split: if_splits option.splits)
  from k(1) obtain a b where ab: "?rest = a @ CHR ''/'' # b" "CHR ''/'' \<notin> set a" "k = length a" by (auto simp: find_char_split)
  have u: "uri = ?p @ ?rest" using p by (metis append_take_drop_id)
  have vin': "vin = a" using vin ab by simp
  obtain r where r: "drop (length ?p + k) uri = ?c @ r" using c by (metis append_take_drop_id)
  have "drop k ?rest = ?c @ r" using r by (simp add: add.commute)
  then have uri: "uri = ?p @ vin @ ?c @ r" using u ab vin' by (metis append_take_drop_id append_eq_conv_conj)
  let ?w = "?p @ vin" and ?q = "\<lambda>c. c \<noteq> CHR ''?''"
  have uw: "uri = ?w @ ?c @ r" using uri by simp
  have len: "length ?p + k = length ?w" using ab vin' by simp
  have "\<forall>x \<in> set ?w. ?q x"
  proof (rule ccontr)
    assume "\<not> ?thesis"
    then obtain x where x: "x \<in> set ?w" "\<not> ?q x" by blast
    have "uri_path_end uri = length (takeWhile ?q ?w)"
      unfolding uri_path_end_def uw using takeWhile_append1 [where P = ?q, OF x] by (rule arg_cong)
    then show False using lt len length_takeWhile_le [of ?q ?w] by linarith
  qed
  then have "takeWhile ?q uri = ?w @ takeWhile ?q (?c @ r)"
    unfolding uw using takeWhile_append2 [where P = ?q and xs = ?w and ys = "?c @ r"] by blast
  moreover have "takeWhile ?q (?c @ r) = ?c @ takeWhile ?q r" by simp
  ultimately have pe: "uri_path_end uri = length ?w + length ?c + length (takeWhile ?q r)"
    unfolding uri_path_end_def by (simp only: length_append)
  have d: "drop (length ?p + k + length ?c) uri = r" unfolding len uw by simp
  have n: "uri_path_end uri - (length ?p + k + length ?c) = length (takeWhile ?q r)" unfolding pe len by simp
  have cmd': "cmd = takeWhile ?q r"
    unfolding cmd d n by (rule takeWhile_eq_take [symmetric])
  have "uri = ?p @ vin @ ?c @ cmd @ dropWhile ?q r" using uri cmd' by simp
  moreover have "dropWhile ?q r = [] \<or> hd (dropWhile ?q r) = CHR ''?''" using hd_dropWhile [of ?q r] by auto
  moreover have "CHR ''?'' \<notin> set cmd" unfolding cmd' by (auto dest: set_takeWhileD)
  ultimately show ?thesis
    unfolding names_command_def using ab(2,3) vin' k(2) slash by blast
qed

subsection \<open>The surfaces\<close>

text \<open>What became of a command: carried out when the device is ready, else only noted as refused.\<close>

definition carried_out :: "'s vehicle_ops \<Rightarrow> bool \<Rightarrow> vehicle_call \<Rightarrow> 's \<Rightarrow> 's" where
  "carried_out ops ready call s =
     (if ready then snd (vo_call ops call s) else vo_set_error ops ''vehicle service not ready'' s)"

lemma execute_carried_out:
  "call_of kind v = Some call \<Longrightarrow> snd (execute_vehicle_command ops ready kind v s) = carried_out ops ready call s"
  by (simp add: execute_vehicle_command_def carried_out_def Let_def split: prod.splits)

lemma rest_request_asks:
  assumes "rest_request parse own uri body = Inr (vin, cmd, info, v)"
  shows "\<exists>call obj. own = Some vin \<and> names_command uri vin cmd \<and> rest_body parse body = Inr obj \<and>
    call_of (ci_kind info) v = Some call \<and> rest_name call = cmd \<and> rest_asks obj call"
proof -
  from assms obtain obj where p: "parse_uri uri 64 64 = Some (vin, cmd)" and o: "own = Some vin"
    and i: "cmd_from_api_name cmd = Some info" and b: "rest_body parse body = Inr obj"
    and r: "rest_args obj 0 (ci_args info) no_values = Inr v"
    by (auto simp: rest_request_def request_vin_matches_def Let_def
        split: option.splits sum.splits if_splits prod.splits)
  from rest_row_call [OF i r] parse_uri_names [OF p] o b show ?thesis by blast
qed

text \<open>C5: A REST command request either changes nothing at all, or names this car and one command of the table,
  and the car is asked for exactly that command with the values of its document (or the documented default of
  an absent optional value), inside the bounds of the table; without a completed start-up the car is not asked.\<close>

theorem rest_command_faithful:
  "case handle_command ops parse admission own uri body er s of (reply, er', s') \<Rightarrow>
     s' = s \<and> er' = er \<or>
     (\<exists>vin cmd obj call. own = Some vin \<and> names_command uri vin cmd \<and> rest_body parse body = Inr obj \<and>
        rest_name call = cmd \<and> rest_asks obj call \<and> s' = carried_out ops (vehicle_ready admission) call s)"
proof (cases "rest_request parse own uri body")
  case (Inl reply)
  then show ?thesis by (simp add: handle_command_def)
next
  case (Inr q)
  obtain vin cmd info v where q: "q = (vin, cmd, info, v)" by (metis prod_cases4)
  from rest_request_asks [OF Inr [unfolded q]] obtain call obj where
    c: "own = Some vin" "names_command uri vin cmd" "rest_body parse body = Inr obj"
      "call_of (ci_kind info) v = Some call" "rest_name call = cmd" "rest_asks obj call" by blast
  obtain reply er' s' where h: "handle_command ops parse admission own uri body er s = (reply, er', s')"
    by (metis prod_cases3)
  have "snd (snd (handle_command ops parse admission own uri body er s)) =
      snd (execute_vehicle_command ops (vehicle_ready admission) (ci_kind info) v s)"
    by (simp add: handle_command_def Inr q Let_def split: prod.splits)
  then have "s' = carried_out ops (vehicle_ready admission) call s"
    unfolding h execute_carried_out [OF c(4)] by simp
  with c show ?thesis unfolding h by auto
qed

lemma tool_request_asks:
  assumes "tool_request params = Inr (info, v)" "ci_kind info \<noteq> CmdGetVehicleState"
  shows "\<exists>call. call_of (ci_kind info) v = Some call \<and>
    tool_name call = cjson_string (cjson_get params ''name'') \<and> tool_asks (cjson_get params ''arguments'') call"
proof -
  from assms(1) obtain name where n: "cjson_string (cjson_get params ''name'') = Some name"
    and i: "cmd_from_mcp_name (Some name) = Some info"
    and r: "mcp_args (cjson_get params ''arguments'') 0 (ci_args info) no_values = Inr v"
    by (auto simp: tool_request_def cmd_from_mcp_name_def split: option.splits sum.splits)
  from tool_row_call [OF i r assms(2)] n show ?thesis by auto
qed

text \<open>The id of a message: a short string, or an integer, which the text spells as that very integer.\<close>

definition message_id :: "string \<Rightarrow> cjson \<Rightarrow> cjson \<Rightarrow> bool" where
  "message_id data msg i \<longleftrightarrow> cjson_get (Some msg) ''id'' = Some i \<and>
     ((\<exists>s. i = CString s \<and> length s \<le> kMaxStringIdBytes) \<or>
      (let raw = json_top_level_numeric_id data in
       raw_status raw = RawValidInteger \<and> i = CNumber (Finite (of_int (raw_value raw)))))"

text \<open>The document of a message that calls a tool.\<close>

definition calls_tool :: "cjson \<Rightarrow> vehicle_call \<Rightarrow> bool" where
  "calls_tool msg call \<longleftrightarrow>
     cjson_string (cjson_get (Some msg) ''jsonrpc'') = Some ''2.0'' \<and> \<not> has_duplicate_json_keys msg \<and>
     cjson_string (cjson_get (Some msg) ''method'') = Some ''tools/call'' \<and>
     tool_name call = cjson_string (cjson_get (cjson_get (Some msg) ''params'') ''name'') \<and>
     tool_asks (cjson_get (cjson_get (Some msg) ''params'') ''arguments'') call"

lemma tools_call_effect:
  "case handle_tools_call w i msg er s of (reply, er', s') \<Rightarrow>
     s' = s \<and> er' = er \<or>
     (\<exists>call result. tool_name call = cjson_string (cjson_get (cjson_get (Some msg) ''params'') ''name'') \<and>
        tool_asks (cjson_get (cjson_get (Some msg) ''params'') ''arguments'') call \<and>
        s' = carried_out (mw_ops w) (vehicle_ready (mw_admission w)) call s \<and> reply = rpc_result i result)"
proof (cases "tool_request (cjson_get (Some msg) ''params'')")
  case (Inl m)
  then show ?thesis by (simp add: handle_tools_call_def)
next
  case (Inr q)
  obtain info v where q: "q = (info, v)" by (cases q)
  show ?thesis
  proof (cases "ci_kind info = CmdGetVehicleState")
    case True
    then show ?thesis by (simp add: handle_tools_call_def Inr q split: option.splits)
  next
    case False
    from tool_request_asks [OF Inr [unfolded q] False] obtain call where
      c: "call_of (ci_kind info) v = Some call" "tool_name call = cjson_string (cjson_get (cjson_get (Some msg) ''params'') ''name'')"
        "tool_asks (cjson_get (cjson_get (Some msg) ''params'') ''arguments'') call" by blast
    obtain reply er' s' where h: "handle_tools_call w i msg er s = (reply, er', s')" by (metis prod_cases3)
    then have "s' = snd (execute_vehicle_command (mw_ops w) (vehicle_ready (mw_admission w)) (ci_kind info) v s)"
      and "\<exists>result. reply = rpc_result i result"
      using False by (auto simp: handle_tools_call_def Inr q Let_def split: prod.splits)
    then have "s' = carried_out (mw_ops w) (vehicle_ready (mw_admission w)) call s" "\<exists>result. reply = rpc_result i result"
      unfolding execute_carried_out [OF c(1)] by blast+
    with c show ?thesis unfolding h by auto
  qed
qed

lemma safe_integer_value: "json_safe_integer n = Some k \<Longrightarrow> n = Finite (of_int k)"
  by (auto simp: json_safe_integer_def integral_def split: json_number.splits if_splits)

lemma captured_id:
  assumes "capture_id (cjson_get (Some msg) ''id'') (json_top_level_numeric_id data) = (IdStatusValid, i)"
  shows "message_id data msg (id_document i)"
  using assms safe_integer_value
  by (auto simp: capture_id_def message_id_def id_document_def Let_def
      split: option.splits cjson.splits if_splits)

lemma valid_envelope:
  assumes "env_status (inspect_request_envelope (CObject ms) (json_top_level_numeric_id data)) = ReqValid"
    "env_id_status (inspect_request_envelope (CObject ms) (json_top_level_numeric_id data)) \<noteq> IdStatusMissing"
  shows "\<not> has_duplicate_json_keys (CObject ms) \<and> cjson_string (cjson_get (Some (CObject ms)) ''jsonrpc'') = Some ''2.0'' \<and>
    message_id data (CObject ms) (id_document (env_id (inspect_request_envelope (CObject ms) (json_top_level_numeric_id data))))"
proof -
  let ?raw = "json_top_level_numeric_id data"
  have one: "object_key_count (CObject ms) ''id'' = 1"
    and env: "inspect_request_envelope (CObject ms) ?raw =
      \<lparr>env_id = snd (capture_id (cjson_get (Some (CObject ms)) ''id'') ?raw),
       env_id_status = fst (capture_id (cjson_get (Some (CObject ms)) ''id'') ?raw), env_status = ReqValid\<rparr>"
    and ok: "\<not> has_duplicate_json_keys (CObject ms)" "cjson_string (cjson_get (Some (CObject ms)) ''jsonrpc'') = Some ''2.0''"
    and st: "fst (capture_id (cjson_get (Some (CObject ms)) ''id'') ?raw) = IdStatusValid"
    using assms
    by (auto simp: inspect_request_envelope_def Let_def capture_id_def simp del: has_duplicate_json_keys.simps
        split: if_splits prod.splits option.splits cjson.splits)
  have "capture_id (cjson_get (Some (CObject ms)) ''id'') ?raw =
      (IdStatusValid, snd (capture_id (cjson_get (Some (CObject ms)) ''id'') ?raw))"
    using st by (metis prod.collapse)
  from captured_id [OF this] ok show ?thesis unfolding env by simp
qed

lemma mcp_dispatch_effect:
  "case mcp_dispatch w env msg er s of (reply, er', s') \<Rightarrow>
     s' = s \<and> er' = er \<or>
     (\<exists>call result. env_id_status env \<noteq> IdStatusMissing \<and>
        cjson_string (cjson_get (Some msg) ''method'') = Some ''tools/call'' \<and>
        tool_name call = cjson_string (cjson_get (cjson_get (Some msg) ''params'') ''name'') \<and>
        tool_asks (cjson_get (cjson_get (Some msg) ''params'') ''arguments'') call \<and>
        s' = carried_out (mw_ops w) (vehicle_ready (mw_admission w)) call s \<and> reply = rpc_result (env_id env) result)"
proof (cases "env_id_status env \<noteq> IdStatusMissing \<and>
    mcp_method_from (cjson_string (cjson_get (Some msg) ''method'')) = McpToolsCall")
  case True
  then have "cjson_string (cjson_get (Some msg) ''method'') = Some ''tools/call''"
    by (auto simp: mcp_method_from_def split: option.splits if_splits)
  with True tools_call_effect [where w = w and i = "env_id env" and msg = msg and er = er and s = s] show ?thesis
    by (simp add: mcp_dispatch_def Let_def split: prod.splits)
next
  case False
  then show ?thesis by (auto simp: mcp_dispatch_def Let_def split: mcp_method.splits)
qed

text \<open>C13: An MCP message either changes nothing at all, or is a valid request with an id that calls one tool of the
  table, and the car is asked for exactly that command with the values of the arguments, inside the bounds of
  the table; the reply is then a result whose id is the very id of the request: the same string, or the integer
  its text spells. Notifications never reach the car.\<close>

theorem mcp_tool_call_faithful:
  "case mcp_handle_post w body er s of (reply, er', s') \<Rightarrow>
     s' = s \<and> er' = er \<or>
     (\<exists>msg i call result. snd body = BodyOk \<and>
        json_materialize (mw_parse w) (the (fst body)) kJsonMaxRequestValues = (Some msg, MatOk) \<and>
        message_id (the (fst body)) msg i \<and> calls_tool msg call \<and>
        s' = carried_out (mw_ops w) (vehicle_ready (mw_admission w)) call s \<and>
        reply = RpcDocument (CObject [(''jsonrpc'', CString ''2.0''), (''id'', i), (''result'', result)]))"
proof -
  obtain reply er' s' where h: "mcp_handle_post w body er s = (reply, er', s')" by (metis prod_cases3)
  show ?thesis
  proof (cases "s' = s \<and> er' = er")
    case False
    let ?m = "json_materialize (mw_parse w) (the (fst body)) kJsonMaxRequestValues"
    have mat: "snd ?m = MatOk \<longrightarrow> fst ?m \<noteq> None"
      by (auto simp: json_materialize_def split: json_verdict.splits option.splits)
    from h False have b: "snd body = BodyOk" and m: "snd ?m = MatOk"
      by (auto simp: mcp_handle_post_def Let_def split: prod.splits json_materialize_status.splits if_splits)
    from mat m obtain msg where msg: "?m = (Some msg, MatOk)" by (cases ?m) auto
    obtain ms where ms: "msg = CObject ms"
      using h False b by (cases msg) (auto simp: mcp_handle_post_def msg)
    let ?env = "inspect_request_envelope (CObject ms) (json_top_level_numeric_id (the (fst body)))"
    have v: "env_status ?env = ReqValid"
      using h False b by (auto simp: mcp_handle_post_def msg ms Let_def split: if_splits)
    have "mcp_dispatch w ?env msg er s = (reply, er', s')"
      using h b v by (simp add: mcp_handle_post_def msg ms Let_def)
    with mcp_dispatch_effect [where w = w and env = ?env and msg = msg and er = er and s = s] False obtain call result where
      c: "env_id_status ?env \<noteq> IdStatusMissing" "cjson_string (cjson_get (Some msg) ''method'') = Some ''tools/call''"
        "tool_name call = cjson_string (cjson_get (cjson_get (Some msg) ''params'') ''name'')"
        "tool_asks (cjson_get (cjson_get (Some msg) ''params'') ''arguments'') call"
        "s' = carried_out (mw_ops w) (vehicle_ready (mw_admission w)) call s" "reply = rpc_result (env_id ?env) result"
      by auto
    from valid_envelope [OF v c(1)] c(2-4)
    have "calls_tool msg call" "message_id (the (fst body)) msg (id_document (env_id ?env))"
      unfolding calls_tool_def ms by blast+
    moreover have "reply = RpcDocument (CObject [(''jsonrpc'', CString ''2.0''), (''id'', id_document (env_id ?env)),
        (''result'', result)])"
      using c(6) by (simp add: rpc_result_def build_result_envelope_def)
    ultimately show ?thesis unfolding h using b c(5) msg by auto
  qed (simp add: h)
qed

text \<open>A car that keeps a log of its calls, and two requests that reach it.\<close>

definition logging_ops :: "vehicle_call list vehicle_ops" where
  "logging_ops = \<lparr>vo_call = (\<lambda>call s. ((True, NoOpNone), s @ [call])), vo_error = (\<lambda>s. []), vo_set_error = (\<lambda>e s. s)\<rparr>"

definition sample_amps_body :: string where
  "sample_amps_body = ''{'' @ [CHR 0x22] @ ''charging_amps'' @ [CHR 0x22] @ '':16}''"

lemma sample_row: "cmd_from_api_name ''set_charging_amps'' =
    Some (row CmdSetChargingAmps (Some ''set_charging_amps'') (Some ''set_charging_amps'')
       (Some ''Set the charging current in amps.'') [int_arg ''charging_amps'' ''amps'' True True 0 0 48, kNoCmdArg])"
  by (simp add: cmd_from_api_name_def kCommands_def row_def)

lemma sample_valid: "json_syntax_status sample_amps_body kJsonMaxRequestValues = JsonValid"
  by code_simp

lemma rest_command_reaches_car:
  "snd (snd (handle_command logging_ops (\<lambda>d. Some (CObject [(''charging_amps'', CNumber (Finite 16))])) 1
     (Some ''VIN1'') (kVehicleRoutePrefix @ ''VIN1/command/set_charging_amps?wait=true'')
     (Some sample_amps_body, BodyOk) new_effect_reply [])) = [CallSetChargingAmps 16]"
proof -
  have "parse_uri (kVehicleRoutePrefix @ ''VIN1/command/set_charging_amps?wait=true'') 64 64 =
      Some (''VIN1'', ''set_charging_amps'')" by code_simp
  moreover have "vehicle_ready 1" by code_simp
  moreover have "integral 16" by (simp add: integral_def)
  ultimately show ?thesis
    by (simp add: handle_command_def rest_request_def request_vin_matches_def sample_row rest_body_def
        json_materialize_def sample_valid materialize_problem_def body_shape_def rest_body_allowed_def row_def
        int_arg_def json_int_arg_def cjson_get_def json_command_number_def mcp_integer_syntax_def strict_rest_int_def
        no_values_def kCmdMaxArgs_def numeral_2_eq_2 execute_vehicle_command_def call_of_def logging_ops_def Let_def)
qed

end
