(* ===== verification/OtaTransport.thy ===== *)
theory OtaTransport
  imports Prelude "HOL-Library.Sublist"
begin

text \<open>
  The mailbox between the network task and the update coordinator (\<open>ota_transport.hpp\<close> and the worker
  loop of \<open>ota_transport.cpp\<close>): one control word, one block, one slot. Every atomic operation of either
  task is a step of its own; between them the other task may run. What the TLS library delivers is
  arbitrary. The atomics are taken as sequentially consistent. What a request of \<open>ota_update.cpp\<close> does
  with the slot around a transfer (taking the memory back, the start of the network task, the end of the
  coordinator's operation) are steps of the same machine.
\<close>

subsection \<open>The control word\<close>

definition kBlockBytes :: nat where "kBlockBytes = 1024"
definition kUrlBytes :: nat where "kUrlBytes = 1024"

datatype job_phase = PhIdle | PhRequested | PhReading | PhFull | PhBorrowed | PhClosed | PhAcked | PhCleanupFailed

definition phase_word :: "job_phase \<Rightarrow> u32" where
  "phase_word p = (case p of PhIdle \<Rightarrow> 0 | PhRequested \<Rightarrow> 1 | PhReading \<Rightarrow> 2 | PhFull \<Rightarrow> 3 | PhBorrowed \<Rightarrow> 4
     | PhClosed \<Rightarrow> 5 | PhAcked \<Rightarrow> 6 | PhCleanupFailed \<Rightarrow> 7)"

definition kPhaseMask :: u32 where "kPhaseMask = 255"
definition kRetired :: u32 where "kRetired = 256"
definition kClose :: u32 where "kClose = 512"

definition in_phase :: "job_phase \<Rightarrow> u32 \<Rightarrow> bool" where
  "in_phase p w \<longleftrightarrow> w AND kPhaseMask = phase_word p"

definition is_retired :: "u32 \<Rightarrow> bool" where "is_retired w \<longleftrightarrow> w AND kRetired \<noteq> 0"

definition is_closing :: "u32 \<Rightarrow> bool" where "is_closing w \<longleftrightarrow> w AND (kRetired OR kClose) \<noteq> 0"

definition with_phase :: "job_phase \<Rightarrow> u32 \<Rightarrow> u32" where
  "with_phase p w = (w AND NOT kPhaseMask) OR phase_word p"

datatype net_result = NetData | NetEof | NetNetworkError | NetNoMemory | NetDeadline | NetInvalidUrl

record job =
  job_generation :: u32
  job_started :: u64
  job_deadline :: u64
  job_control :: u32
  job_url :: string
  job_block :: bytes
  job_bytes :: nat
  job_result :: net_result

definition new_job :: "u32 \<Rightarrow> u64 \<Rightarrow> u64 \<Rightarrow> job" where
  "new_job gen origin finish =
     \<lparr>job_generation = gen, job_started = origin, job_deadline = finish, job_control = phase_word PhIdle,
      job_url = [], job_block = replicate kBlockBytes 0, job_bytes = 0, job_result = NetNetworkError\<rparr>"

definition job_retire :: "job \<Rightarrow> job" where
  "job_retire j = j\<lparr>job_control := job_control j OR kRetired\<rparr>"

definition job_close_connection :: "job \<Rightarrow> job" where
  "job_close_connection j = j\<lparr>job_control := job_control j OR kClose\<rparr>"

text \<open>\<open>request\<close>: the test on the word loaded first, then the copy and the store.\<close>

definition request_admitted :: "u32 \<Rightarrow> string option \<Rightarrow> bool" where
  "request_admitted old url \<longleftrightarrow>
     \<not> is_retired old \<and> (in_phase PhIdle old \<or> in_phase PhClosed old) \<and>
     (case url of None \<Rightarrow> False | Some t \<Rightarrow> t \<noteq> [] \<and> length t < kUrlBytes)"

definition request_store :: "string \<Rightarrow> job \<Rightarrow> job" where
  "request_store url j = j\<lparr>job_url := url, job_control := phase_word PhRequested\<rparr>"

definition job_request :: "string option \<Rightarrow> job \<Rightarrow> bool \<times> job" where
  "job_request url j =
     (if request_admitted (job_control j) url then (True, request_store (the url) j) else (False, j))"

definition job_borrow :: "job \<Rightarrow> bool \<times> job" where
  "job_borrow j =
     (if job_control j = phase_word PhFull then (True, j\<lparr>job_control := phase_word PhBorrowed\<rparr>) else (False, j))"

text \<open>\<open>release\<close> without interference: one turn of its loop.\<close>

definition job_release :: "job \<Rightarrow> bool \<times> job" where
  "job_release j =
     (if in_phase PhBorrowed (job_control j)
      then (True, j\<lparr>job_control := with_phase PhReading (job_control j)\<rparr>) else (False, j))"

definition worker_clean :: "job \<Rightarrow> bool" where "worker_clean j \<longleftrightarrow> in_phase PhAcked (job_control j)"

subsection \<open>The slot\<close>

definition slot_claim :: "u32 \<Rightarrow> u32 \<Rightarrow> bool \<times> u32" where
  "slot_claim generation owner =
     (if generation = 0 then (False, owner) else if owner = 0 then (True, generation) else (False, owner))"

definition slot_owns :: "u32 \<Rightarrow> job \<Rightarrow> bool" where
  "slot_owns owner j \<longleftrightarrow> job_generation j \<noteq> 0 \<and> owner = job_generation j"

definition release_after_ack :: "job \<Rightarrow> bool \<Rightarrow> u32 \<Rightarrow> bool \<times> u32" where
  "release_after_ack j writer_quiescent owner =
     (if \<not> worker_clean j \<or> \<not> writer_quiescent then (False, owner)
      else if owner = job_generation j then (True, 0) else (False, owner))"

subsection \<open>The two tasks\<close>

text \<open>
  Where the worker is: at the head of its loop, with the word it loaded, in a transfer, after one, before
  the exchange that offers a block (the last one of a transfer or not), waiting for its release, before and
  in the cleanup (with the result of the destruction and the word it observed), gone.
\<close>

datatype worker_at = WNotStarted | WRefused | WTop | WSeen u32 | WTransfer | WEnding net_result | WOffer bool
  | WWait bool | WCleanup | WClosing bool u32 | WDone

datatype coord_at = CIdle | CRequest string bool | CHolding | CReleasing u32 | CGone

record transport =
  tw_job :: job
  tw_slot :: u32
  tw_worker :: worker_at
  tw_coord :: coord_at
  tw_published :: "(net_result \<times> bytes) list"
  tw_taken :: "(net_result \<times> bytes) list"
  tw_done :: bool

abbreviation tw_control :: "transport \<Rightarrow> u32" where "tw_control s \<equiv> job_control (tw_job s)"

definition set_control :: "u32 \<Rightarrow> transport \<Rightarrow> transport" where
  "set_control w s = s\<lparr>tw_job := (tw_job s)\<lparr>job_control := w\<rparr>\<rparr>"

definition set_worker :: "worker_at \<Rightarrow> transport \<Rightarrow> transport" where
  "set_worker a s = s\<lparr>tw_worker := a\<rparr>"

definition set_coord :: "coord_at \<Rightarrow> transport \<Rightarrow> transport" where
  "set_coord a s = s\<lparr>tw_coord := a\<rparr>"

definition mailbox :: "transport \<Rightarrow> net_result \<times> bytes" where
  "mailbox s = (job_result (tw_job s), take (job_bytes (tw_job s)) (job_block (tw_job s)))"

text \<open>The word after the cleanup, and where the worker goes with it.\<close>

definition cleanup_phase :: "bool \<Rightarrow> u32 \<Rightarrow> job_phase" where
  "cleanup_phase ok observed =
     (if \<not> ok then PhCleanupFailed else if is_retired observed then PhAcked else PhClosed)"

definition cleanup_word :: "bool \<Rightarrow> u32 \<Rightarrow> u32" where
  "cleanup_word ok observed = with_phase (cleanup_phase ok observed) (observed OR kClose)"

text \<open>\<open>publish\<close> returned false: the data loop ends with a deadline, the last one goes to the cleanup.\<close>

definition publish_failed :: "bool \<Rightarrow> worker_at" where
  "publish_failed last_one = (if last_one then WCleanup else WEnding NetDeadline)"

definition publish_done :: "bool \<Rightarrow> worker_at" where
  "publish_done last_one = (if last_one then WCleanup else WTransfer)"

inductive worker_step :: "transport \<Rightarrow> transport \<Rightarrow> bool" where
  load_word: "tw_worker s = WTop \<Longrightarrow> worker_step s (set_worker (WSeen (tw_control s)) s)"
| retired_borrowed: "tw_worker s = WSeen w \<Longrightarrow> is_retired w \<Longrightarrow> in_phase PhBorrowed w \<Longrightarrow>
    worker_step s (set_worker WTop s)"
| acknowledge: "tw_worker s = WSeen w \<Longrightarrow> is_retired w \<Longrightarrow> \<not> in_phase PhBorrowed w \<Longrightarrow> tw_control s = w \<Longrightarrow>
    worker_step s (set_worker WDone (set_control (with_phase PhAcked w) s))"
| acknowledge_lost: "tw_worker s = WSeen w \<Longrightarrow> is_retired w \<Longrightarrow> \<not> in_phase PhBorrowed w \<Longrightarrow> tw_control s \<noteq> w \<Longrightarrow>
    worker_step s (set_worker WTop s)"
| nothing_requested: "tw_worker s = WSeen w \<Longrightarrow> \<not> is_retired w \<Longrightarrow> \<not> in_phase PhRequested w \<Longrightarrow>
    worker_step s (set_worker WTop s)"
| accept: "tw_worker s = WSeen w \<Longrightarrow> \<not> is_retired w \<Longrightarrow> in_phase PhRequested w \<Longrightarrow>
    tw_control s = phase_word PhRequested \<Longrightarrow>
    worker_step s (set_worker WTransfer (set_control (phase_word PhReading) s))"
| accept_lost: "tw_worker s = WSeen w \<Longrightarrow> \<not> is_retired w \<Longrightarrow> in_phase PhRequested w \<Longrightarrow>
    tw_control s \<noteq> phase_word PhRequested \<Longrightarrow> worker_step s (set_worker WTop s)"
| tls_read: "tw_worker s = WTransfer \<Longrightarrow> length data = kBlockBytes \<Longrightarrow>
    worker_step s (s\<lparr>tw_job := (tw_job s)\<lparr>job_block := data\<rparr>\<rparr>)"
| offer_data: "tw_worker s = WTransfer \<Longrightarrow> n \<le> kBlockBytes \<Longrightarrow>
    worker_step s (set_worker (WOffer False) (s\<lparr>tw_job := (tw_job s)\<lparr>job_result := NetData, job_bytes := n\<rparr>\<rparr>))"
| transfer_over: "tw_worker s = WTransfer \<Longrightarrow> worker_step s (set_worker (WEnding r) s)"
| ending_closed: "tw_worker s = WEnding r \<Longrightarrow> is_closing (tw_control s) \<Longrightarrow> worker_step s (set_worker WCleanup s)"
| offer_result: "tw_worker s = WEnding r \<Longrightarrow> \<not> is_closing (tw_control s) \<Longrightarrow>
    worker_step s (set_worker (WOffer True) (s\<lparr>tw_job := (tw_job s)\<lparr>job_result := r, job_bytes := 0\<rparr>\<rparr>))"
| publish: "tw_worker s = WOffer last_one \<Longrightarrow> tw_control s = phase_word PhReading \<Longrightarrow>
    worker_step s (set_worker (WWait last_one) (set_control (phase_word PhFull) s)\<lparr>
      tw_published := tw_published s @ [mailbox s]\<rparr>)"
| publish_lost: "tw_worker s = WOffer last_one \<Longrightarrow> tw_control s \<noteq> phase_word PhReading \<Longrightarrow>
    worker_step s (set_worker (publish_failed last_one) s)"
| released: "tw_worker s = WWait last_one \<Longrightarrow> in_phase PhReading (tw_control s) \<Longrightarrow>
    worker_step s (set_worker
      (if is_closing (tw_control s) then publish_failed last_one else publish_done last_one) s)"
| wait_closed: "tw_worker s = WWait last_one \<Longrightarrow> \<not> in_phase PhReading (tw_control s) \<Longrightarrow> is_closing (tw_control s) \<Longrightarrow>
    \<not> in_phase PhBorrowed (tw_control s) \<Longrightarrow> worker_step s (set_worker (publish_failed last_one) s)"
| destroyed: "tw_worker s = WCleanup \<Longrightarrow> worker_step s (set_worker (WClosing ok (tw_control s)) s)"
| still_borrowed: "tw_worker s = WClosing ok seen \<Longrightarrow> in_phase PhBorrowed seen \<Longrightarrow>
    worker_step s (set_worker (WClosing ok (tw_control s)) s)"
| close_word: "tw_worker s = WClosing ok seen \<Longrightarrow> \<not> in_phase PhBorrowed seen \<Longrightarrow> tw_control s = seen \<Longrightarrow>
    worker_step s (set_worker (if cleanup_phase ok seen = PhClosed then WTop else WDone)
      (set_control (cleanup_word ok seen) s))"
| close_lost: "tw_worker s = WClosing ok seen \<Longrightarrow> \<not> in_phase PhBorrowed seen \<Longrightarrow> tw_control s \<noteq> seen \<Longrightarrow>
    worker_step s (set_worker (WClosing ok (tw_control s)) s)"

text \<open>The calls of the coordinator on the job.\<close>

inductive coord_step :: "transport \<Rightarrow> transport \<Rightarrow> bool" where
  request_load: "tw_coord s = CIdle \<Longrightarrow>
    coord_step s (set_coord (CRequest url (request_admitted (tw_control s) (Some url))) s)"
| request_refused: "tw_coord s = CRequest url False \<Longrightarrow> coord_step s (set_coord CIdle s)"
| request_write: "tw_coord s = CRequest url True \<Longrightarrow>
    coord_step s (set_coord CIdle (s\<lparr>tw_job := request_store url (tw_job s), tw_published := [], tw_taken := []\<rparr>))"
| borrow: "tw_coord s = CIdle \<Longrightarrow> job_borrow (tw_job s) = (True, j) \<Longrightarrow>
    coord_step s (set_coord CHolding (s\<lparr>tw_job := j, tw_taken := tw_taken s @ [mailbox s]\<rparr>))"
| retire: "tw_coord s \<in> {CIdle, CHolding} \<Longrightarrow> coord_step s (s\<lparr>tw_job := job_retire (tw_job s)\<rparr>)"
| close_connection: "tw_coord s \<in> {CIdle, CHolding} \<Longrightarrow> coord_step s (s\<lparr>tw_job := job_close_connection (tw_job s)\<rparr>)"
| release_load: "tw_coord s = CHolding \<Longrightarrow> coord_step s (set_coord (CReleasing (tw_control s)) s)"
| release_done: "tw_coord s = CReleasing w \<Longrightarrow> in_phase PhBorrowed w \<Longrightarrow> tw_control s = w \<Longrightarrow>
    coord_step s (set_coord CIdle (set_control (with_phase PhReading w) s))"
| release_lost: "tw_coord s = CReleasing w \<Longrightarrow> in_phase PhBorrowed w \<Longrightarrow> tw_control s \<noteq> w \<Longrightarrow>
    coord_step s (set_coord (CReleasing (tw_control s)) s)"

text \<open>
  The operation around the transfer (\<open>ota_update.cpp\<close>): the coordinator's task starts the network task, or
  stores the acknowledged word when that task was never created; it announces its last access by
  \<open>coordinator_done\<close>; a later admission, on whatever task, reclaims the slot when the coordinator is done
  and the network task has acknowledged, and then deletes the job. (That the coordinator has also given up
  its writer is part of \<open>OtaCoordinator\<close>.)
\<close>

inductive operation_step :: "transport \<Rightarrow> transport \<Rightarrow> bool" where
  started: "tw_coord s = CIdle \<Longrightarrow> tw_worker s = WNotStarted \<Longrightarrow> operation_step s (set_worker WTop s)"
| never_created: "tw_coord s = CIdle \<Longrightarrow> tw_worker s = WNotStarted \<Longrightarrow>
    operation_step s (set_worker WRefused (set_control (kRetired OR phase_word PhAcked) s))"
| complete_operation: "tw_coord s = CIdle \<Longrightarrow> operation_step s (set_coord CGone (s\<lparr>tw_done := True\<rparr>))"
| reclaim: "tw_done s \<Longrightarrow> worker_clean (tw_job s) \<Longrightarrow>
    release_after_ack (tw_job s) True (tw_slot s) = (True, owner) \<Longrightarrow>
    operation_step s (s\<lparr>tw_slot := owner\<rparr>)"

definition transport_start :: "u32 \<Rightarrow> u64 \<Rightarrow> u64 \<Rightarrow> transport" where
  "transport_start gen origin finish =
     \<lparr>tw_job = new_job gen origin finish, tw_slot = gen, tw_worker = WNotStarted, tw_coord = CIdle,
      tw_published = [], tw_taken = [], tw_done = False\<rparr>"

inductive transport_reachable :: "u32 \<Rightarrow> transport \<Rightarrow> bool" for gen where
  initial: "transport_reachable gen (transport_start gen origin finish)"
| by_worker: "transport_reachable gen s \<Longrightarrow> worker_step s s' \<Longrightarrow> transport_reachable gen s'"
| by_coord: "transport_reachable gen s \<Longrightarrow> coord_step s s' \<Longrightarrow> transport_reachable gen s'"
| by_operation: "transport_reachable gen s \<Longrightarrow> operation_step s s' \<Longrightarrow> transport_reachable gen s'"

subsection \<open>The fields of the control word\<close>

definition word_phase :: "u32 \<Rightarrow> job_phase option" where
  "word_phase w = find (\<lambda>p. phase_word p = w AND kPhaseMask)
     [PhIdle, PhRequested, PhReading, PhFull, PhBorrowed, PhClosed, PhAcked, PhCleanupFailed]"

lemma phase_word_inj: "phase_word p = phase_word q \<longleftrightarrow> p = q"
  by (cases p; cases q) (simp_all add: phase_word_def)

lemma in_phase_iff: "in_phase p w \<longleftrightarrow> word_phase w = Some p"
  by (cases p) (auto simp: in_phase_def word_phase_def phase_word_def)

lemma kPhaseMask_mask: "kPhaseMask = mask 8"
  by (simp add: kPhaseMask_def mask_eq_exp_minus_1)

lemma kRetired_exp: "kRetired = 2 ^ 8"
  by (simp add: kRetired_def)

lemma kClose_exp: "kClose = 2 ^ 9"
  by (simp add: kClose_def)

lemma is_retired_bit: "is_retired w \<longleftrightarrow> bit w 8"
  by (simp only: is_retired_def kRetired_exp and_exp_eq_0_iff_not_bit not_not)

lemma is_closing_bits: "is_closing w \<longleftrightarrow> bit w 8 \<or> bit w 9"
proof -
  have "w AND (kRetired OR kClose) = (w AND 2 ^ 8) OR (w AND 2 ^ 9)"
    by (simp only: kRetired_exp kClose_exp bit.conj_disj_distrib)
  moreover have "a OR b = 0 \<longleftrightarrow> a = 0 \<and> b = 0" for a b :: u32
    by (simp add: or_eq_0_iff)
  ultimately show ?thesis
    by (simp only: is_closing_def and_exp_eq_0_iff_not_bit de_Morgan_conj not_not)
qed

lemma phase_word_small: "phase_word p AND kPhaseMask = phase_word p"
  by (cases p) (simp_all add: phase_word_def kPhaseMask_def)

lemma phase_word_no_flag: "8 \<le> n \<Longrightarrow> \<not> bit (phase_word p) n"
proof -
  assume n: "8 \<le> n"
  have "bit (phase_word p AND kPhaseMask) n \<longleftrightarrow> False"
    using n by (simp add: kPhaseMask_mask bit_simps)
  then show ?thesis by (simp add: phase_word_small)
qed

lemma phase_word_no_retired: "\<not> bit (phase_word p) 8" and phase_word_no_close: "\<not> bit (phase_word p) 9"
  by (simp_all add: phase_word_no_flag)

lemma with_phase_and_mask: "with_phase p w AND kPhaseMask = phase_word p"
  by (simp add: with_phase_def bit.conj_disj_distrib2 phase_word_small and.assoc)

lemma bit_with_phase: "8 \<le> n \<Longrightarrow> n < 32 \<Longrightarrow> bit (with_phase p w) n = bit w n"
  by (simp add: with_phase_def kPhaseMask_mask bit_simps phase_word_no_flag)

lemma word_phase_phase_word [simp]: "word_phase (phase_word p) = Some p"
  by (simp add: in_phase_iff [symmetric] in_phase_def phase_word_small)

lemma word_phase_with_phase [simp]: "word_phase (with_phase p w) = Some p"
  by (simp add: in_phase_iff [symmetric] in_phase_def with_phase_and_mask)

lemma or_flag_and_mask:
  "(w OR kRetired) AND kPhaseMask = w AND kPhaseMask" "(w OR kClose) AND kPhaseMask = w AND kPhaseMask"
  by (simp_all add: bit.conj_disj_distrib2) (simp_all add: kRetired_def kClose_def kPhaseMask_def)

lemma word_phase_or_flag [simp]:
  "word_phase (w OR kRetired) = word_phase w" "word_phase (w OR kClose) = word_phase w"
  by (simp_all add: word_phase_def or_flag_and_mask)

lemma flags_phase_word [simp]: "\<not> is_retired (phase_word p)" "\<not> is_closing (phase_word p)"
  by (simp_all add: is_retired_bit is_closing_bits phase_word_no_retired phase_word_no_close)

lemma flags_with_phase [simp]:
  "is_retired (with_phase p w) = is_retired w" "is_closing (with_phase p w) = is_closing w"
  by (simp_all add: is_retired_bit is_closing_bits bit_with_phase)

lemma flags_or_flag [simp]:
  "is_retired (w OR kRetired)" "is_retired (w OR kClose) = is_retired w"
  "is_closing (w OR kRetired)" "is_closing (w OR kClose)"
  by (simp_all add: is_retired_bit is_closing_bits bit_or_iff kRetired_exp kClose_exp bit_exp_iff)

lemma retired_is_closing: "is_retired w \<Longrightarrow> is_closing w"
  by (simp add: is_retired_bit is_closing_bits)

lemma refused_word [simp]: "word_phase (kRetired OR phase_word PhAcked) = Some PhAcked"
  by (simp add: or.commute [of kRetired])

subsection \<open>The invariant\<close>

definition at_phase :: "transport \<Rightarrow> job_phase set \<Rightarrow> bool" where
  "at_phase s ps \<longleftrightarrow> (\<exists>p \<in> ps. word_phase (tw_control s) = Some p)"

definition worker_where :: "transport \<Rightarrow> bool" where
  "worker_where s = (case tw_worker s of
       WNotStarted \<Rightarrow> at_phase s {PhIdle, PhRequested}
     | WRefused \<Rightarrow> at_phase s {PhAcked}
     | WTop \<Rightarrow> at_phase s {PhIdle, PhRequested, PhClosed}
     | WSeen w \<Rightarrow> at_phase s {PhIdle, PhRequested, PhClosed} \<and> (is_retired w \<longrightarrow> is_retired (tw_control s))
     | WTransfer \<Rightarrow> at_phase s {PhReading}
     | WOffer l \<Rightarrow> at_phase s {PhReading}
     | WEnding r \<Rightarrow> at_phase s {PhReading} \<or> at_phase s {PhFull} \<and> is_closing (tw_control s)
     | WWait l \<Rightarrow> at_phase s {PhFull, PhBorrowed, PhReading}
     | WCleanup \<Rightarrow> at_phase s {PhReading} \<or> at_phase s {PhFull} \<and> is_closing (tw_control s)
     | WClosing ok w \<Rightarrow> at_phase s {PhReading} \<or> at_phase s {PhFull} \<and> is_closing (tw_control s)
     | WDone \<Rightarrow> at_phase s {PhAcked, PhCleanupFailed})"

definition coord_where :: "transport \<Rightarrow> bool" where
  "coord_where s = (case tw_coord s of
       CIdle \<Rightarrow> \<not> at_phase s {PhBorrowed}
     | CRequest u ok \<Rightarrow> \<not> at_phase s {PhBorrowed} \<and>
         (ok \<longrightarrow> at_phase s {PhIdle, PhClosed} \<and> \<not> is_retired (tw_control s))
     | CHolding \<Rightarrow> at_phase s {PhBorrowed}
     | CReleasing w \<Rightarrow> at_phase s {PhBorrowed} \<and> word_phase w = Some PhBorrowed
     | CGone \<Rightarrow> \<not> at_phase s {PhBorrowed})"

definition handed_over :: "transport \<Rightarrow> bool" where
  "handed_over s \<longleftrightarrow>
     (at_phase s {PhFull} \<longrightarrow> tw_published s = tw_taken s @ [mailbox s]) \<and>
     (at_phase s {PhRequested, PhReading, PhBorrowed} \<longrightarrow> tw_published s = tw_taken s) \<and>
     (at_phase s {PhBorrowed} \<longrightarrow> tw_taken s \<noteq> [] \<and> last (tw_taken s) = mailbox s) \<and>
     (tw_published s = tw_taken s \<or> (\<exists>x. tw_published s = tw_taken s @ [x]))"

definition transport_inv :: "transport \<Rightarrow> bool" where
  "transport_inv s \<longleftrightarrow> worker_where s \<and> coord_where s \<and> handed_over s"

lemmas transport_inv_simps = transport_inv_def worker_where_def coord_where_def handed_over_def at_phase_def
  set_control_def set_worker_def set_coord_def mailbox_def in_phase_iff publish_failed_def publish_done_def

lemma transport_inv_start: "transport_inv (transport_start gen origin finish)"
  by (simp add: transport_inv_simps transport_start_def new_job_def)

lemma worker_where_keep:
  "worker_where s \<Longrightarrow> tw_worker s' = tw_worker s \<Longrightarrow> word_phase (tw_control s') = word_phase (tw_control s) \<Longrightarrow>
   (is_closing (tw_control s) \<longrightarrow> is_closing (tw_control s')) \<Longrightarrow>
   (is_retired (tw_control s) \<longrightarrow> is_retired (tw_control s')) \<Longrightarrow> worker_where s'"
  by (cases "tw_worker s") (auto simp: worker_where_def at_phase_def)

lemma handed_over_keep:
  assumes "handed_over s" "word_phase (tw_control s') = word_phase (tw_control s)"
    "tw_published s' = tw_published s" "tw_taken s' = tw_taken s" "mailbox s' = mailbox s"
  shows "handed_over s'"
  using assms(1) unfolding handed_over_def at_phase_def assms(2-5) .

lemma coord_where_keep:
  assumes "coord_where s" "word_phase (tw_control s') = word_phase (tw_control s)"
    "tw_coord s' = tw_coord s" "tw_coord s \<in> {CIdle, CHolding}"
  shows "coord_where s'"
  using assms(1,4) by (auto simp: coord_where_def at_phase_def assms(2,3))

text \<open>A step that only moves the worker, and one that also changes the mailbox while it is reading.\<close>

lemma coord_where_other:
  assumes "coord_where s" "tw_coord s' = tw_coord s"
    "word_phase (tw_control s') = word_phase (tw_control s)" "is_retired (tw_control s') = is_retired (tw_control s)"
  shows "coord_where s'"
  using assms(1) by (cases "tw_coord s") (auto simp: coord_where_def at_phase_def assms(2-4))

lemma worker_move_inv:
  assumes "transport_inv s" "worker_where (set_worker a s)"
  shows "transport_inv (set_worker a s)"
  using assms handed_over_keep [of s "set_worker a s"]
    coord_where_other [of s "set_worker a s"]
  by (simp add: transport_inv_def set_worker_def mailbox_def)

lemma worker_fill_inv:
  assumes "transport_inv s" "at_phase s {PhReading}"
    "tw_control s' = tw_control s" "tw_coord s' = tw_coord s" "tw_published s' = tw_published s"
    "tw_taken s' = tw_taken s" "worker_where s'"
  shows "transport_inv s'"
proof -
  have "coord_where s'"
    using assms by (intro coord_where_other [of s s']) (simp_all add: transport_inv_def)
  moreover have "handed_over s'"
    using assms(1,2) by (simp add: transport_inv_def handed_over_def at_phase_def assms(3-6))
  ultimately show ?thesis using assms(7) by (simp add: transport_inv_def)
qed

lemmas worker_at_simps = transport_inv_def worker_where_def at_phase_def set_worker_def set_control_def in_phase_iff
  publish_failed_def publish_done_def

text \<open>The four exchanges of the worker on the control word.\<close>

lemma acknowledge_inv:
  assumes "transport_inv s" "tw_worker s = WSeen w" "is_retired w" "tw_control s = w"
  shows "transport_inv (set_worker WDone (set_control (with_phase PhAcked w) s))" (is "transport_inv ?s'")
proof -
  have p: "at_phase s {PhIdle, PhRequested, PhClosed}" and c: "coord_where s" and h: "handed_over s"
    using assms by (simp_all add: transport_inv_def worker_where_def)
  have "coord_where ?s'"
    using p c assms by (cases "tw_coord s") (auto simp: coord_where_def at_phase_def set_worker_def set_control_def)
  moreover have "handed_over ?s'"
    using h by (simp add: handed_over_def at_phase_def set_worker_def set_control_def)
  ultimately show ?thesis by (simp add: worker_at_simps)
qed

lemma accept_inv:
  assumes "transport_inv s" "tw_worker s = WSeen w" "tw_control s = phase_word PhRequested"
  shows "transport_inv (set_worker WTransfer (set_control (phase_word PhReading) s))" (is "transport_inv ?s'")
proof -
  have c: "coord_where s" and h: "handed_over s" using assms by (simp_all add: transport_inv_def)
  have "coord_where ?s'"
    using c assms by (cases "tw_coord s") (auto simp: coord_where_def at_phase_def set_worker_def set_control_def)
  moreover have "handed_over ?s'"
    using h assms(3) by (simp add: handed_over_def at_phase_def set_worker_def set_control_def)
  ultimately show ?thesis by (simp add: worker_at_simps)
qed

lemma publish_inv:
  assumes "transport_inv s" "tw_worker s = WOffer l" "tw_control s = phase_word PhReading"
  shows "transport_inv (set_worker (WWait l) (set_control (phase_word PhFull) s)\<lparr>
    tw_published := tw_published s @ [mailbox s]\<rparr>)" (is "transport_inv ?s'")
proof -
  have c: "coord_where s" and h: "handed_over s" using assms by (simp_all add: transport_inv_def)
  have "coord_where ?s'"
    using c assms by (cases "tw_coord s") (auto simp: coord_where_def at_phase_def set_worker_def set_control_def)
  moreover have "handed_over ?s'"
    using h assms(3) by (simp add: handed_over_def at_phase_def set_worker_def set_control_def mailbox_def)
  ultimately show ?thesis by (simp add: worker_at_simps)
qed

lemma close_word_inv:
  assumes "transport_inv s" "tw_worker s = WClosing ok w" "tw_control s = w"
  shows "transport_inv (set_worker (if cleanup_phase ok w = PhClosed then WTop else WDone)
    (set_control (cleanup_word ok w) s))" (is "transport_inv ?s'")
proof -
  have p: "at_phase s {PhReading, PhFull}" and c: "coord_where s" and h: "handed_over s"
    using assms by (auto simp: transport_inv_def worker_where_def at_phase_def)
  have "coord_where ?s'"
    using p c by (cases "tw_coord s")
      (auto simp: coord_where_def at_phase_def set_worker_def set_control_def cleanup_word_def cleanup_phase_def)
  moreover have "handed_over ?s'"
    using h p by (auto simp: handed_over_def at_phase_def set_worker_def set_control_def cleanup_word_def cleanup_phase_def)
  moreover have "worker_where ?s'"
    by (simp add: worker_where_def at_phase_def set_worker_def set_control_def cleanup_word_def cleanup_phase_def)
  ultimately show ?thesis by (simp add: transport_inv_def)
qed

lemma worker_fill_reading:
  assumes "transport_inv s" "tw_worker s = WTransfer \<or> tw_worker s = WEnding r \<and> \<not> is_closing (tw_control s)"
    "tw_worker s' \<in> {WTransfer, WOffer False, WOffer True}"
    "tw_control s' = tw_control s" "tw_coord s' = tw_coord s" "tw_published s' = tw_published s" "tw_taken s' = tw_taken s"
  shows "transport_inv s'"
proof (rule worker_fill_inv [OF assms(1)])
  show p: "at_phase s {PhReading}" using assms(1,2) by (auto simp: transport_inv_def worker_where_def)
  then show "worker_where s'" using assms(3) by (auto simp: worker_where_def at_phase_def assms(4))
qed (use assms in auto)

lemma worker_move_cases:
  assumes "transport_inv s"
  shows "tw_worker s = WTop \<Longrightarrow> transport_inv (set_worker (WSeen (tw_control s)) s)"
    and "tw_worker s = WSeen w \<Longrightarrow> transport_inv (set_worker WTop s)"
    and "tw_worker s = WTransfer \<Longrightarrow> transport_inv (set_worker (WEnding r) s)"
    and "tw_worker s = WEnding r \<Longrightarrow> is_closing (tw_control s) \<Longrightarrow> transport_inv (set_worker WCleanup s)"
    and "tw_worker s = WOffer l \<Longrightarrow> transport_inv (set_worker (publish_failed l) s)"
    and "tw_worker s = WWait l \<Longrightarrow> in_phase PhReading (tw_control s) \<Longrightarrow>
      transport_inv (set_worker (if is_closing (tw_control s) then publish_failed l else publish_done l) s)"
    and "tw_worker s = WWait l \<Longrightarrow> \<not> in_phase PhReading (tw_control s) \<Longrightarrow> is_closing (tw_control s) \<Longrightarrow>
      \<not> in_phase PhBorrowed (tw_control s) \<Longrightarrow> transport_inv (set_worker (publish_failed l) s)"
    and "tw_worker s = WCleanup \<or> tw_worker s = WClosing ok seen \<Longrightarrow>
      transport_inv (set_worker (WClosing ok' (tw_control s)) s)"
proof -
  have w: "worker_where s" using assms by (simp add: transport_inv_def)
  note move = worker_move_inv [OF assms]
  note fields = worker_where_def at_phase_def set_worker_def publish_failed_def publish_done_def in_phase_iff
  show "tw_worker s = WTop \<Longrightarrow> transport_inv (set_worker (WSeen (tw_control s)) s)"
    "tw_worker s = WSeen w \<Longrightarrow> transport_inv (set_worker WTop s)"
    "tw_worker s = WTransfer \<Longrightarrow> transport_inv (set_worker (WEnding r) s)"
    "tw_worker s = WEnding r \<Longrightarrow> is_closing (tw_control s) \<Longrightarrow> transport_inv (set_worker WCleanup s)"
    "tw_worker s = WOffer l \<Longrightarrow> transport_inv (set_worker (publish_failed l) s)"
    "tw_worker s = WWait l \<Longrightarrow> in_phase PhReading (tw_control s) \<Longrightarrow>
      transport_inv (set_worker (if is_closing (tw_control s) then publish_failed l else publish_done l) s)"
    "tw_worker s = WWait l \<Longrightarrow> \<not> in_phase PhReading (tw_control s) \<Longrightarrow> is_closing (tw_control s) \<Longrightarrow>
      \<not> in_phase PhBorrowed (tw_control s) \<Longrightarrow> transport_inv (set_worker (publish_failed l) s)"
    "tw_worker s = WCleanup \<or> tw_worker s = WClosing ok seen \<Longrightarrow>
      transport_inv (set_worker (WClosing ok' (tw_control s)) s)"
    by (rule move; insert w; auto simp: fields)+
qed

lemma worker_step_inv: "worker_step s s' \<Longrightarrow> transport_inv s \<Longrightarrow> transport_inv s'"
proof (induction rule: worker_step.induct)
  case (tls_read s data)
  show ?case by (rule worker_fill_reading [OF tls_read(3)]) (simp_all add: tls_read)
next
  case (offer_data s n)
  show ?case by (rule worker_fill_reading [OF offer_data(3)]) (simp_all add: offer_data set_worker_def)
next
  case (offer_result s r)
  show ?case by (rule worker_fill_reading [OF offer_result(3), of r]) (simp_all add: offer_result set_worker_def)
qed (simp_all add: worker_move_cases acknowledge_inv accept_inv publish_inv close_word_inv)

lemma request_admitted_phase:
  "request_admitted w url \<Longrightarrow> \<not> is_retired w \<and> (word_phase w = Some PhIdle \<or> word_phase w = Some PhClosed)"
  by (simp add: request_admitted_def in_phase_iff)

lemma job_borrow_done: "job_borrow j = (True, j') \<Longrightarrow>
    job_control j = phase_word PhFull \<and> j' = j\<lparr>job_control := phase_word PhBorrowed\<rparr>"
  by (simp add: job_borrow_def split: if_splits)

lemma release_after_ack_done: "release_after_ack j q owner = (True, owner') \<Longrightarrow>
    word_phase (job_control j) = Some PhAcked \<and> q \<and> owner = job_generation j \<and> owner' = 0"
  by (simp add: release_after_ack_def worker_clean_def in_phase_iff split: if_splits)

lemma coord_retire_inv:
  assumes "tw_coord s \<in> {CIdle, CHolding}" "transport_inv s"
  shows "transport_inv (s\<lparr>tw_job := job_retire (tw_job s)\<rparr>)" (is "transport_inv ?s'")
proof -
  have "worker_where ?s'" "coord_where ?s'" "handed_over ?s'"
    using assms
    by (auto simp: transport_inv_def job_retire_def retired_is_closing mailbox_def
        intro: worker_where_keep [of s] coord_where_keep [of s] handed_over_keep [of s])
  then show ?thesis by (simp add: transport_inv_def)
qed

lemma coord_close_inv:
  assumes "tw_coord s \<in> {CIdle, CHolding}" "transport_inv s"
  shows "transport_inv (s\<lparr>tw_job := job_close_connection (tw_job s)\<rparr>)" (is "transport_inv ?s'")
proof -
  have "worker_where ?s'" "coord_where ?s'" "handed_over ?s'"
    using assms
    by (auto simp: transport_inv_def job_close_connection_def mailbox_def
        intro: worker_where_keep [of s] coord_where_keep [of s] handed_over_keep [of s])
  then show ?thesis by (simp add: transport_inv_def)
qed

text \<open>A step that only moves the coordinator.\<close>

lemma coord_move_inv:
  assumes "transport_inv s" "coord_where (set_coord a s)"
  shows "transport_inv (set_coord a s)"
  using assms handed_over_keep [of s "set_coord a s"] worker_where_keep [of s "set_coord a s"]
  by (simp add: transport_inv_def set_coord_def mailbox_def)

lemma coord_request_inv:
  assumes "tw_coord s = CRequest url True" "transport_inv s"
  shows "transport_inv (set_coord CIdle (s\<lparr>tw_job := request_store url (tw_job s), tw_published := [], tw_taken := []\<rparr>))"
    (is "transport_inv ?s'")
proof -
  have "at_phase s {PhIdle, PhClosed}" "\<not> is_retired (tw_control s)" "worker_where s"
    using assms by (simp_all add: transport_inv_def coord_where_def)
  then have "worker_where ?s'"
    by (cases "tw_worker s") (auto simp: worker_where_def at_phase_def set_coord_def request_store_def)
  moreover have "coord_where ?s'" "handed_over ?s'"
    by (simp_all add: coord_where_def handed_over_def at_phase_def set_coord_def request_store_def)
  ultimately show ?thesis by (simp add: transport_inv_def)
qed

lemma coord_borrow_inv:
  assumes "tw_coord s = CIdle" "job_borrow (tw_job s) = (True, j)" "transport_inv s"
  shows "transport_inv (set_coord CHolding (s\<lparr>tw_job := j, tw_taken := tw_taken s @ [mailbox s]\<rparr>))"
    (is "transport_inv ?s'")
proof -
  note b = job_borrow_done [OF assms(2)]
  have "worker_where s" "handed_over s" using assms(3) by (simp_all add: transport_inv_def)
  then have w: "worker_where ?s'" and h: "tw_published s = tw_taken s @ [mailbox s]"
    using b by (cases "tw_worker s", auto simp: worker_where_def handed_over_def at_phase_def set_coord_def)
  from h b have "coord_where ?s'" "handed_over ?s'"
    by (simp_all add: coord_where_def handed_over_def at_phase_def set_coord_def mailbox_def)
  with w show ?thesis by (simp add: transport_inv_def)
qed

lemma coord_release_inv:
  assumes "tw_coord s = CReleasing w" "tw_control s = w" "transport_inv s"
  shows "transport_inv (set_coord CIdle (set_control (with_phase PhReading w) s))" (is "transport_inv ?s'")
proof -
  have c: "at_phase s {PhBorrowed}" "worker_where s" and h: "tw_published s = tw_taken s"
    using assms by (simp_all add: transport_inv_def coord_where_def handed_over_def at_phase_def)
  from c have "worker_where ?s'"
    by (cases "tw_worker s") (auto simp: worker_where_def at_phase_def set_coord_def set_control_def)
  moreover from h have "coord_where ?s'" "handed_over ?s'"
    by (simp_all add: coord_where_def handed_over_def at_phase_def set_coord_def set_control_def)
  ultimately show ?thesis by (simp add: transport_inv_def)
qed

lemma coord_step_inv: "coord_step s s' \<Longrightarrow> transport_inv s \<Longrightarrow> transport_inv s'"
proof (induction rule: coord_step.induct)
  case (request_load s url)
  then have "\<not> at_phase s {PhBorrowed}" by (simp add: transport_inv_def coord_where_def)
  then have "coord_where (set_coord (CRequest url (request_admitted (tw_control s) (Some url))) s)"
    using request_admitted_phase [of "tw_control s" "Some url"]
    by (auto simp: coord_where_def at_phase_def set_coord_def)
  with request_load show ?case by (simp add: coord_move_inv)
next
  case (request_refused s url)
  then have "coord_where (set_coord CIdle s)"
    by (simp add: transport_inv_def coord_where_def at_phase_def set_coord_def)
  with request_refused show ?case by (simp add: coord_move_inv)
next
  case (release_load s)
  then have "coord_where (set_coord (CReleasing (tw_control s)) s)"
    by (simp add: transport_inv_def coord_where_def at_phase_def set_coord_def)
  with release_load show ?case by (simp add: coord_move_inv)
next
  case (release_lost s w)
  then have "coord_where (set_coord (CReleasing (tw_control s)) s)"
    by (simp add: transport_inv_def coord_where_def at_phase_def set_coord_def)
  with release_lost show ?case by (simp add: coord_move_inv)
qed (simp_all add: coord_retire_inv coord_close_inv coord_request_inv coord_borrow_inv coord_release_inv)

lemma operation_step_inv: "operation_step s s' \<Longrightarrow> transport_inv s \<Longrightarrow> transport_inv s'"
proof (induction rule: operation_step.induct)
  case (complete_operation s)
  let ?s' = "set_coord CGone (s\<lparr>tw_done := True\<rparr>)"
  have "worker_where ?s'" "handed_over ?s'"
    using complete_operation worker_where_keep [of s ?s'] handed_over_keep [of s ?s']
    by (simp_all add: transport_inv_def set_coord_def mailbox_def)
  with complete_operation show ?case by (simp add: transport_inv_def coord_where_def at_phase_def set_coord_def)
next
  case (reclaim s owner)
  let ?s' = "s\<lparr>tw_slot := owner\<rparr>"
  have "worker_where ?s'" "handed_over ?s'" "coord_where ?s'"
    using reclaim worker_where_keep [of s ?s'] handed_over_keep [of s ?s'] coord_where_other [of s ?s']
    by (simp_all add: transport_inv_def mailbox_def)
  then show ?case by (simp add: transport_inv_def)
qed (auto simp: transport_inv_simps)

lemma transport_reachable_inv: "transport_reachable gen s \<Longrightarrow> transport_inv s"
  by (induction rule: transport_reachable.induct)
    (auto intro: transport_inv_start worker_step_inv coord_step_inv operation_step_inv)

subsection \<open>What the two tasks may rely on\<close>

definition holding :: "transport \<Rightarrow> bool" where
  "holding s \<longleftrightarrow> (case tw_coord s of CHolding \<Rightarrow> True | CReleasing w \<Rightarrow> True | _ \<Rightarrow> False)"

lemma holding_phase: "transport_inv s \<Longrightarrow> holding s \<longleftrightarrow> word_phase (tw_control s) = Some PhBorrowed"
  by (cases "tw_coord s") (auto simp: transport_inv_def coord_where_def holding_def at_phase_def)

text \<open>While the block is borrowed the worker waits: for the release, or in its cleanup for the word to change.\<close>

lemma worker_step_holding:
  assumes "worker_step s s'" "transport_inv s" "word_phase (tw_control s) = Some PhBorrowed"
  shows "tw_job s' = tw_job s \<and> tw_taken s' = tw_taken s \<and> tw_published s' = tw_published s"
  using assms
  by (induction rule: worker_step.induct)
    (auto simp: transport_inv_def worker_where_def at_phase_def in_phase_iff set_worker_def)

lemma worker_gone_no_step: "worker_step s s' \<Longrightarrow> tw_worker s \<notin> {WDone, WRefused, WNotStarted}"
  by (induction rule: worker_step.induct) auto

lemma coord_gone_no_step: "coord_step s s' \<Longrightarrow> tw_coord s \<noteq> CGone"
  by (induction rule: coord_step.induct) auto

text \<open>The slot is given back only with the coordinator done and the end of the network task acknowledged,
  and after that nothing changes the word any more.\<close>

definition slot_inv :: "u32 \<Rightarrow> transport \<Rightarrow> bool" where
  "slot_inv gen s \<longleftrightarrow> job_generation (tw_job s) = gen \<and> (tw_done s \<longrightarrow> tw_coord s = CGone) \<and>
     (tw_slot s = gen \<or> tw_done s \<and> at_phase s {PhAcked})"

lemma acked_worker: "transport_inv s \<Longrightarrow> at_phase s {PhAcked} \<Longrightarrow> tw_worker s \<in> {WDone, WRefused}"
  by (cases "tw_worker s") (auto simp: transport_inv_def worker_where_def at_phase_def)

lemma worker_step_frame:
  "worker_step s s' \<Longrightarrow> tw_slot s' = tw_slot s \<and> tw_done s' = tw_done s \<and> tw_coord s' = tw_coord s \<and>
     job_generation (tw_job s') = job_generation (tw_job s)"
  by (induction rule: worker_step.induct) (auto simp: set_worker_def set_control_def)

lemma coord_step_frame:
  "coord_step s s' \<Longrightarrow> tw_slot s' = tw_slot s \<and> tw_done s' = tw_done s \<and>
     job_generation (tw_job s') = job_generation (tw_job s)"
  by (induction rule: coord_step.induct)
    (auto simp: set_control_def set_coord_def request_store_def job_retire_def job_close_connection_def
      dest!: job_borrow_done)

lemma slot_inv_worker: "worker_step s s' \<Longrightarrow> transport_inv s \<Longrightarrow> slot_inv gen s \<Longrightarrow> slot_inv gen s'"
  using worker_step_frame [of s s'] worker_gone_no_step [of s s'] acked_worker [of s]
  by (auto simp: slot_inv_def)

lemma slot_inv_coord: "coord_step s s' \<Longrightarrow> slot_inv gen s \<Longrightarrow> slot_inv gen s'"
  using coord_step_frame [of s s'] coord_gone_no_step [of s s'] by (auto simp: slot_inv_def)

lemma slot_inv_operation: "operation_step s s' \<Longrightarrow> slot_inv gen s \<Longrightarrow> slot_inv gen s'"
  by (induction rule: operation_step.induct)
    (auto simp: slot_inv_def set_worker_def set_control_def set_coord_def at_phase_def
      dest!: release_after_ack_done)

lemma slot_inv_reachable: "transport_reachable gen s \<Longrightarrow> slot_inv gen s"
proof (induction rule: transport_reachable.induct)
  case (initial origin finish)
  show ?case by (simp add: slot_inv_def transport_start_def new_job_def)
next
  case (by_worker s s')
  then show ?case using transport_reachable_inv [of gen s] by (blast intro: slot_inv_worker)
qed (blast intro: slot_inv_coord slot_inv_operation)+

text \<open>C37: Over every interleaving of the two tasks, the coordinator takes exactly the blocks the network task
  published in this transfer, in their order and each once; at most the last one is still in the mailbox or
  was dropped with the connection. While the coordinator holds a block, the network task has no step that
  changes the job, and while the network task fills the block the coordinator cannot borrow it.\<close>

theorem block_handed_over_once:
  assumes "transport_reachable gen s"
  shows "prefix (tw_taken s) (tw_published s) \<and> length (tw_published s) \<le> Suc (length (tw_taken s)) \<and>
    (holding s \<longrightarrow> tw_taken s \<noteq> [] \<and> last (tw_taken s) = mailbox s \<and>
       (\<forall>s'. worker_step s s' \<longrightarrow> tw_job s' = tw_job s \<and> tw_taken s' = tw_taken s)) \<and>
    (tw_worker s = WTransfer \<longrightarrow> \<not> holding s \<and> \<not> fst (job_borrow (tw_job s)))"
proof -
  have inv: "transport_inv s" by (rule transport_reachable_inv [OF assms])
  then have h: "handed_over s" by (simp add: transport_inv_def)
  then have "prefix (tw_taken s) (tw_published s) \<and> length (tw_published s) \<le> Suc (length (tw_taken s))"
    by (auto simp: handed_over_def)
  moreover have "tw_taken s \<noteq> [] \<and> last (tw_taken s) = mailbox s \<and>
      (\<forall>s'. worker_step s s' \<longrightarrow> tw_job s' = tw_job s \<and> tw_taken s' = tw_taken s)" if "holding s"
    using that h worker_step_holding [OF _ inv] holding_phase [OF inv] by (auto simp: handed_over_def at_phase_def)
  moreover have "\<not> holding s \<and> \<not> fst (job_borrow (tw_job s))" if "tw_worker s = WTransfer"
  proof -
    have "word_phase (tw_control s) = Some PhReading"
      using that inv by (simp add: transport_inv_def worker_where_def at_phase_def)
    then show ?thesis using holding_phase [OF inv] by (auto simp: job_borrow_def)
  qed
  ultimately show ?thesis by blast
qed

text \<open>A transfer of one block.\<close>

definition first_block :: bytes where "first_block = 7 # replicate 1023 0"

definition one_block_world :: "transport" where
  "one_block_world = \<lparr>tw_job = \<lparr>job_generation = 1, job_started = 0, job_deadline = 9, job_control = phase_word PhBorrowed,
     job_url = ''u'', job_block = first_block, job_bytes = 1, job_result = NetData\<rparr>, tw_slot = 1, tw_worker = WWait False,
     tw_coord = CHolding, tw_published = [(NetData, [7])], tw_taken = [(NetData, [7])], tw_done = False\<rparr>"

lemma one_block_reachable: "transport_reachable 1 one_block_world"
proof -
  note fields = set_worker_def set_control_def set_coord_def
  have r0: "transport_reachable 1 (transport_start 1 0 9)" by (rule initial)
  have "coord_step (transport_start 1 0 9) (set_coord (CRequest ''u'' True) (transport_start 1 0 9))"
    using request_load [of "transport_start 1 0 9" "''u''"]
    by (simp add: transport_start_def new_job_def request_admitted_def in_phase_iff kUrlBytes_def)
  note r1 = by_coord [OF r0 this]
  note r2 = by_coord [OF r1 request_write [of _ "''u''"], simplified fields transport_start_def new_job_def request_store_def, simplified]
  note r3 = by_operation [OF r2 started, simplified fields, simplified]
  note r4 = by_worker [OF r3 load_word, simplified fields, simplified]
  note r5 = by_worker [OF r4 accept, simplified fields in_phase_iff, simplified]
  note r6 = by_worker [OF r5 tls_read [where data = first_block], simplified kBlockBytes_def first_block_def, simplified]
  note r7 = by_worker [OF r6 offer_data [where n = 1], simplified fields kBlockBytes_def, simplified]
  note r8 = by_worker [OF r7 publish, simplified fields mailbox_def, simplified]
  note r9 = by_coord [OF r8 borrow, simplified job_borrow_def fields mailbox_def, simplified]
  show ?thesis unfolding one_block_world_def first_block_def One_nat_def
    by (rule r9 [simplified One_nat_def]) (simp_all, simp_all?)
qed

theorem block_handed_over_once_witness:
  "holding one_block_world \<and> prefix (tw_taken one_block_world) (tw_published one_block_world) \<and>
   last (tw_taken one_block_world) = mailbox one_block_world"
proof -
  have "holding one_block_world" by (simp add: holding_def one_block_world_def)
  with block_handed_over_once [OF one_block_reachable] show ?thesis by simp
qed

text \<open>C38: Over every interleaving of the network task, the coordinator and a later admission that reclaims: once
  the slot of a transfer has been given back, so that another operation may claim it and the job may be
  deleted, the network task has acknowledged its end in the control word (a failed cleanup does not count),
  or was never created and the word says acknowledged for it, the coordinator has announced its last access,
  and neither of the two tasks has a step left: the job is not touched after its memory is free.\<close>

theorem job_freed_after_last_use:
  assumes "transport_reachable gen s" "tw_slot s \<noteq> gen"
  shows "in_phase PhAcked (tw_control s) \<and> tw_worker s \<in> {WDone, WRefused} \<and> tw_done s \<and>
    (\<forall>s'. \<not> worker_step s s') \<and> (\<forall>s'. \<not> coord_step s s')"
proof -
  have i: "tw_coord s = CGone" "tw_done s" "at_phase s {PhAcked}"
    using slot_inv_reachable [OF assms(1)] assms(2) by (auto simp: slot_inv_def)
  note w = acked_worker [OF transport_reachable_inv [OF assms(1)] i(3)]
  have "in_phase PhAcked (tw_control s)" using i(3) by (simp add: at_phase_def in_phase_iff)
  with i w show ?thesis using worker_gone_no_step coord_gone_no_step by blast
qed

definition refused_world :: transport where
  "refused_world = (set_coord CGone ((set_worker WRefused (set_control (kRetired OR phase_word PhAcked)
     (transport_start 1 0 9)))\<lparr>tw_done := True\<rparr>))\<lparr>tw_slot := 0\<rparr>"

lemma refused_reachable: "transport_reachable 1 refused_world"
proof -
  let ?r = "set_worker WRefused (set_control (kRetired OR phase_word PhAcked) (transport_start 1 0 9))"
  note fields = set_worker_def set_control_def set_coord_def transport_start_def
  have r1: "transport_reachable 1 ?r"
    by (rule by_operation [OF initial never_created]) (simp_all add: transport_start_def)
  have r2: "transport_reachable 1 (set_coord CGone (?r\<lparr>tw_done := True\<rparr>))"
    by (rule by_operation [OF r1 complete_operation]) (simp add: fields)
  show ?thesis unfolding refused_world_def
    by (rule by_operation [OF r2 reclaim])
      (simp_all add: fields release_after_ack_def worker_clean_def in_phase_iff new_job_def)
qed

theorem job_freed_after_last_use_witness:
  "in_phase PhAcked (tw_control refused_world) \<and> (\<forall>s'. \<not> worker_step refused_world s') \<and>
   (\<forall>s'. \<not> coord_step refused_world s')"
  using job_freed_after_last_use [OF refused_reachable] by (simp add: refused_world_def)

end
