(* ===== verification/OtaRedirect.thy ===== *)
theory OtaRedirect
  imports OtaTransport Texts
begin

text \<open>
  The address checks of an update download and the resolution of a redirect (\<open>ota_http.cpp\<close>). The address
  parser of \<open>http_parser\<close> is a parameter: a function to the fields of an address. Dot segments are removed in
  place, by index, as in the code. The resolution is compared with the one of RFC 3986, which is written
  down here on its own, over the parts of an address and their segments.
\<close>

subsection \<open>Text helpers\<close>

definition lower_ascii :: "char \<Rightarrow> char" where
  "lower_ascii c = (let n = of_char c :: nat in if 65 \<le> n \<and> n \<le> 90 then char_of (n + 32) else c)"

definition equal_ci :: "string \<Rightarrow> string \<Rightarrow> bool" where
  "equal_ci value literal \<longleftrightarrow> length literal = length value \<and> map lower_ascii value = literal"

definition ows :: "char \<Rightarrow> bool" where "ows c \<longleftrightarrow> c = CHR '' '' \<or> c = CHR 0x09"

definition trim_ows :: "string \<Rightarrow> string" where
  "trim_ows t = rev (dropWhile ows (rev (dropWhile ows t)))"

definition append_bounded :: "string \<Rightarrow> string \<Rightarrow> string option" where
  "append_bounded out t =
     (if kUrlBytes \<le> length out \<or> kUrlBytes - length out \<le> length t then None else Some (out @ t))"

subsection \<open>Addresses\<close>

record url_fields =
  uf_schema :: "(nat \<times> nat) option"
  uf_userinfo :: "(nat \<times> nat) option"
  uf_host :: "(nat \<times> nat) option"
  uf_port_text :: "(nat \<times> nat) option"
  uf_path :: "(nat \<times> nat) option"
  uf_query :: "(nat \<times> nat) option"
  uf_fragment :: "(nat \<times> nat) option"
  uf_port :: nat

definition field_data :: "(nat \<times> nat) option \<Rightarrow> nat \<times> nat" where
  "field_data f = (case f of None \<Rightarrow> (0, 0) | Some r \<Rightarrow> r)"

definition url_field :: "nat \<times> nat \<Rightarrow> string \<Rightarrow> string" where
  "url_field r t = take (snd r) (drop (fst r) t)"

type_synonym url_parser = "string \<Rightarrow> url_fields option"

definition url_char_ok :: "char \<Rightarrow> bool" where
  "url_char_ok c \<longleftrightarrow> \<not> (of_char c \<le> (32::nat) \<or> of_char c = (127::nat) \<or> c = CHR 0x5C)"

definition valid_https_url :: "url_parser \<Rightarrow> string \<Rightarrow> url_fields option" where
  "valid_https_url parse t =
     (if t = [] \<or> kUrlBytes \<le> length t then None
      else if \<not> list_all url_char_ok t then None
      else case parse t of
          None \<Rightarrow> None
        | Some u \<Rightarrow>
            if uf_schema u = None \<or> uf_host u = None \<or> uf_userinfo u \<noteq> None \<or> uf_fragment u \<noteq> None then None
            else if \<not> equal_ci (url_field (field_data (uf_schema u)) t) ''https'' then None
            else if snd (field_data (uf_host u)) \<noteq> 0 \<and> snd (field_data (uf_host u)) \<le> 253 \<and>
                    (uf_port_text u = None \<or> uf_port u \<noteq> 0)
            then Some u else None)"

text \<open>\<open>starts\<close> and \<open>pop\<close> of the loop that removes dot segments in place.\<close>

definition starts_at :: "string \<Rightarrow> nat \<Rightarrow> nat \<Rightarrow> string \<Rightarrow> bool" where
  "starts_at out pos fin t \<longleftrightarrow> length t \<le> fin - pos \<and> take (length t) (drop pos out) = t"

fun pop_to_slash :: "nat \<Rightarrow> string \<Rightarrow> nat \<Rightarrow> nat" where
  "pop_to_slash off out 0 = 0"
| "pop_to_slash off out (Suc w) = (if off < Suc w \<and> out ! w \<noteq> CHR ''/'' then pop_to_slash off out w else Suc w)"

definition pop_segment :: "nat \<Rightarrow> string \<Rightarrow> nat \<Rightarrow> nat" where
  "pop_segment off out w = (let w = pop_to_slash off out w in if off < w then w - 1 else w)"

function copy_segment :: "nat \<Rightarrow> nat \<Rightarrow> nat \<Rightarrow> string \<Rightarrow> nat \<times> nat \<times> string" where
  "copy_segment fin r w out =
     (if r < fin \<and> out ! r \<noteq> CHR ''/'' then copy_segment fin (r + 1) (w + 1) (out[w := out ! r]) else (r, w, out))"
  by pat_completeness auto
termination
  by (relation "measure (\<lambda>(fin, r, w, out). fin - r)") auto

lemma copy_segment_moves: "copy_segment fin r w out = (r', w', out') \<Longrightarrow> r \<le> r'"
proof (induction fin r w out arbitrary: r' w' out' rule: copy_segment.induct)
  case (1 fin r w out)
  show ?case
  proof (cases "r < fin \<and> out ! r \<noteq> CHR ''/''")
    case True
    with 1 show ?thesis by (fastforce simp: copy_segment.simps [of fin r])
  next
    case False
    with 1(2) show ?thesis by (simp add: copy_segment.simps [of fin r])
  qed
qed

declare copy_segment.simps [simp del]

text \<open>One segment with its slash.\<close>

definition move_segment :: "nat \<Rightarrow> nat \<Rightarrow> nat \<Rightarrow> string \<Rightarrow> nat \<times> nat \<times> string" where
  "move_segment fin r w out =
     (if out ! r = CHR ''/'' then copy_segment fin (r + 1) (w + 1) (out[w := out ! r]) else copy_segment fin r w out)"

lemma move_segment_moves:
  assumes "r < fin" "move_segment fin r w out = (r', w', out')" shows "r < r'"
proof (cases "out ! r = CHR ''/''")
  case True
  with assms show ?thesis by (auto simp: move_segment_def dest: copy_segment_moves)
next
  case False
  with assms copy_segment_moves [of fin "r + 1" "w + 1" "out[w := out ! r]"] show ?thesis
    by (auto simp: move_segment_def copy_segment.simps [of fin r])
qed

lemma move_segment_less: "r < fin \<Longrightarrow> (case move_segment fin r w out of (r', w', out') \<Rightarrow> fin - r') < fin - r"
  by (cases "move_segment fin r w out") (use move_segment_moves [of r fin w out] in auto)

function dot_loop :: "nat \<Rightarrow> nat \<Rightarrow> nat \<Rightarrow> nat \<Rightarrow> string \<Rightarrow> nat \<times> string" where
  "dot_loop off fin r w out =
     (if \<not> r < fin then (w, out)
      else if starts_at out r fin ''../'' then dot_loop off fin (r + 3) w out
      else if starts_at out r fin ''./'' then dot_loop off fin (r + 2) w out
      else if starts_at out r fin ''/./'' then dot_loop off fin (r + 2) w out
      else if starts_at out r fin ''/../'' then dot_loop off fin (r + 3) (pop_segment off out w) out
      else if fin - r = 2 \<and> starts_at out r fin ''/.'' then (w + 1, out[w := CHR ''/''])
      else if fin - r = 3 \<and> starts_at out r fin ''/..'' then
        (let w = pop_segment off out w in (w + 1, out[w := CHR ''/'']))
      else if fin - r = 1 \<and> starts_at out r fin ''.'' \<or> fin - r = 2 \<and> starts_at out r fin ''..'' then (w, out)
      else case move_segment fin r w out of (r', w', out') \<Rightarrow> dot_loop off fin r' w' out')"
  by pat_completeness auto
termination
  by (relation "measure (\<lambda>(off, fin, r, w, out). fin - r)") (auto simp: move_segment_less)

text \<open>What the redirect names before the dot segments are removed.\<close>

definition joined_address :: "string \<Rightarrow> url_fields \<Rightarrow> string \<Rightarrow> string option" where
  "joined_address base previous target =
     (let n = length target; path = field_data (uf_path previous) in
      if 8 \<le> n \<and> equal_ci (take 8 target) ''https://'' then append_bounded [] target
      else if 2 \<le> n \<and> take 2 target = ''//'' then Option.bind (append_bounded [] ''https:'') (\<lambda>url. append_bounded url target)
      else if CHR '':'' \<in> set (takeWhile (\<lambda>c. c \<noteq> CHR ''/'' \<and> c \<noteq> CHR ''?'' \<and> c \<noteq> CHR ''#'') target) then None
      else let authority_end = (if snd path \<noteq> 0 then fst path
             else if uf_query previous \<noteq> None then fst (field_data (uf_query previous)) - 1 else length base) in
        Option.bind (append_bounded [] (take authority_end base)) (\<lambda>out.
          if hd target = CHR ''/'' then append_bounded out target
          else if hd target = CHR ''?'' then
            Option.bind (append_bounded out (if snd path \<noteq> 0 then url_field path base else ''/''))
              (\<lambda>url. append_bounded url target)
          else let directory = (case rfind_char (CHR ''/'') (url_field path base) of None \<Rightarrow> 0 | Some i \<Rightarrow> i + 1) in
            Option.bind (append_bounded out (if directory \<noteq> 0 then url_field (fst path, directory) base else ''/''))
              (\<lambda>url. append_bounded url target)))"

definition resolve_redirect :: "url_parser \<Rightarrow> string \<Rightarrow> string \<Rightarrow> string option" where
  "resolve_redirect parse base target =
     (case valid_https_url parse base of
        None \<Rightarrow> None
      | Some previous \<Rightarrow>
          if target = [] \<or> kUrlBytes \<le> length target then None
          else case joined_address base previous target of
              None \<Rightarrow> None
            | Some out \<Rightarrow> (case valid_https_url parse out of
                  None \<Rightarrow> None
                | Some next_fields \<Rightarrow>
                    let path = field_data (uf_path next_fields);
                        result = (if snd path \<noteq> 0 then
                            (let fin = fst path + snd path; (w, out') = dot_loop (fst path) fin (fst path) (fst path) out in
                             take w out' @ drop fin out') else out) in
                    (case valid_https_url parse result of None \<Rightarrow> None | Some u \<Rightarrow> Some result)))"

subsection \<open>Dot segments\<close>

text \<open>The reference: section 5.2.4 of RFC 3986, the output built so far and the input that is left.\<close>

definition first_segment :: "string \<Rightarrow> string" where
  "first_segment i = (if hd i = CHR ''/'' then CHR ''/'' # takeWhile (\<lambda>c. c \<noteq> CHR ''/'') (tl i)
     else takeWhile (\<lambda>c. c \<noteq> CHR ''/'') i)"

definition without_last :: "string \<Rightarrow> string" where
  "without_last u = rev (tl (dropWhile (\<lambda>c. c \<noteq> CHR ''/'') (rev u)))"

lemma first_segment_pos: "i \<noteq> [] \<Longrightarrow> 0 < length (first_segment i)"
  by (cases i) (auto simp: first_segment_def)

function rfc_remove_dots :: "string \<Rightarrow> string \<Rightarrow> string" where
  "rfc_remove_dots u i =
     (if i = [] then u
      else if starts_with ''../'' i then rfc_remove_dots u (drop 3 i)
      else if starts_with ''./'' i then rfc_remove_dots u (drop 2 i)
      else if starts_with ''/./'' i then rfc_remove_dots u (drop 2 i)
      else if i = ''/.'' then rfc_remove_dots u ''/''
      else if starts_with ''/../'' i then rfc_remove_dots (without_last u) (drop 3 i)
      else if i = ''/..'' then rfc_remove_dots (without_last u) ''/''
      else if i = ''.'' \<or> i = ''..'' then u
      else rfc_remove_dots (u @ first_segment i) (drop (length (first_segment i)) i))"
  by pat_completeness auto
termination
  by (relation "measure (\<lambda>(u, i). length i)") (use first_segment_pos in \<open>auto intro!: diff_less\<close>)

declare rfc_remove_dots.simps [simp del] dot_loop.simps [simp del]

lemma rfc_slash [simp]: "rfc_remove_dots u ''/'' = u @ ''/''"
  by (simp add: rfc_remove_dots.simps [of u "''/''"] rfc_remove_dots.simps [of _ "[]"] starts_with_def first_segment_def)



























subsection \<open>Reference resolution\<close>

text \<open>The reference: sections 3 and 5.2.2 of RFC 3986 for the https scheme. An address is scheme and
  authority, path, and the rest (query and fragment with their signs), told apart by the characters alone.\<close>

definition before_path :: "string \<Rightarrow> string" where
  "before_path t = take 8 t @ takeWhile (\<lambda>c. c \<noteq> CHR ''/'' \<and> c \<noteq> CHR ''?'' \<and> c \<noteq> CHR ''#'') (drop 8 t)"

definition address_path :: "string \<Rightarrow> string" where
  "address_path t = takeWhile (\<lambda>c. c \<noteq> CHR ''?'' \<and> c \<noteq> CHR ''#'') (drop (length (before_path t)) t)"

definition after_path :: "string \<Rightarrow> string" where
  "after_path t = drop (length (before_path t @ address_path t)) t"

text \<open>A path up to and with its last slash; the whole authority when the path is empty.\<close>

definition rfc_directory :: "string \<Rightarrow> string" where
  "rfc_directory p = (if p = [] then ''/'' else rev (dropWhile (\<lambda>c. c \<noteq> CHR ''/'') (rev p)))"

definition absolute_https :: "string \<Rightarrow> bool" where
  "absolute_https r \<longleftrightarrow> 8 \<le> length r \<and> map lower_ascii (take 8 r) = ''https://''"


definition rfc_join :: "string \<Rightarrow> string \<Rightarrow> string" where
  "rfc_join base r =
     (if absolute_https r then r
      else if starts_with ''//'' r then ''https:'' @ r
      else if starts_with ''/'' r then before_path base @ r
      else if starts_with ''?'' r then before_path base @ (if address_path base = [] then ''/'' else address_path base) @ r
      else before_path base @ rfc_directory (address_path base) @ r)"

definition rfc_resolve :: "string \<Rightarrow> string \<Rightarrow> string" where
  "rfc_resolve base r =
     (let t = rfc_join base r in before_path t @ rfc_remove_dots [] (address_path t) @ after_path t)"






subsection \<open>Redirects\<close>













text \<open>An address parser for plain https addresses, with or without a query.\<close>

definition plain_url :: url_parser where
  "plain_url t = (if starts_with ''https://'' t \<and> 8 < length (before_path t) \<and> CHR ''#'' \<notin> set t then
     (let n = length (before_path t); m = length (address_path t); q = length (after_path t) in
      Some \<lparr>uf_schema = Some (0, 5), uf_userinfo = None, uf_host = Some (8, n - 8), uf_port_text = None,
        uf_path = (if m \<noteq> 0 then Some (n, m) else None),
        uf_query = (if 1 < q then Some (n + m + 1, q - 1) else None), uf_fragment = None, uf_port = 0\<rparr>) else None)"




text \<open>The exception: against an address that ends in a bare question mark an absolute path lands in the query,
  because the authority is taken to end where a reported query starts, or else at the end of the text.\<close>

theorem bare_query_misresolved:
  "resolve_redirect plain_url ''https://h?'' ''/x'' = Some ''https://h?/x'' \<and>
   rfc_resolve ''https://h?'' ''/x'' = ''https://h/x''"
  by code_simp

end
