(* ===== verification/OtaHttp.thy ===== *)
theory OtaHttp
  imports OtaRedirect
begin

text \<open>
  The response framing of an update download (\<open>ota_http.cpp\<close>). \<open>http_parser\<close> is a parameter: a run of it is
  a tree of the callbacks it makes, each continued by the answer it gets. Byte counts are natural numbers; the tests that
  keep them below their limits are written out. The limits are shown against the bytes given to the parser, sorted by the
  state of the response they arrive in.
\<close>

subsection \<open>The parser\<close>

datatype hp_event = EvBegin | EvField string | EvValue string | EvHeaders nat bool | EvBody bytes | EvComplete
  | EvChunk nat | EvChunkDone

datatype hp_answer = AnsOk | AnsSkipBody | AnsError | AnsPaused

text \<open>A run ends with the bytes consumed, whether the parser is without error, and its state.\<close>

datatype 'p hp_run = HpEnd nat bool 'p | HpCall hp_event "hp_answer \<Rightarrow> 'p hp_run"

record http_limits =
  lim_body :: nat
  lim_headers :: nat
  lim_chunk_metadata :: nat
  lim_field :: nat
  lim_value :: nat
  lim_fields :: nat
  lim_chunk_line :: nat
  lim_interims :: nat
  lim_allow_eof :: bool

definition http_limits_for :: "nat \<Rightarrow> bool \<Rightarrow> http_limits" where
  "http_limits_for body allow_eof =
     \<lparr>lim_body = body, lim_headers = 8192, lim_chunk_metadata = 65536, lim_field = 64, lim_value = 1023,
      lim_fields = 64, lim_chunk_line = 256, lim_interims = 2, lim_allow_eof = allow_eof\<rparr>"

datatype parse_result = ParseMore | ParseComplete | ParseRedirect | ParseRejected | ParseSinkFailed
datatype framing_state = FsHeaders | FsChunkMetadata | FsBody | FsTrailers | FsDone
datatype framing_field = FfNone | FfUnknown | FfLength | FfTransfer | FfEncoding | FfLocation

record 'p framing =
  fr_parser :: 'p
  fr_limits :: http_limits
  fr_name :: string
  fr_small :: string
  fr_location :: string
  fr_body :: nat
  fr_length :: nat
  fr_remaining :: nat
  fr_header_bytes :: nat
  fr_chunk_bytes :: nat
  fr_field_size :: nat
  fr_value_size :: nat
  fr_field_count :: nat
  fr_line_bytes :: nat
  fr_status :: nat
  fr_current :: framing_field
  fr_state :: framing_state
  fr_result :: parse_result
  fr_interims :: nat
  fr_in_value :: bool
  fr_has_length :: bool
  fr_chunked :: bool
  fr_has_transfer :: bool
  fr_encoded :: bool
  fr_has_location :: bool
  fr_interim :: bool
  fr_eof_body :: bool

definition framing_reject :: "'p framing \<Rightarrow> 'p framing" where
  "framing_reject s = s\<lparr>fr_result := ParseRejected\<rparr>"

definition new_framing :: "'p \<Rightarrow> http_limits \<Rightarrow> 'p framing" where
  "new_framing parser limits =
     (let s = \<lparr>fr_parser = parser, fr_limits = limits, fr_name = [], fr_small = [], fr_location = [], fr_body = 0,
           fr_length = 0, fr_remaining = 0, fr_header_bytes = 0, fr_chunk_bytes = 0, fr_field_size = 0,
           fr_value_size = 0, fr_field_count = 0, fr_line_bytes = 0, fr_status = 0, fr_current = FfNone,
           fr_state = FsHeaders, fr_result = ParseMore, fr_interims = 0, fr_in_value = False, fr_has_length = False,
           fr_chunked = False, fr_has_transfer = False, fr_encoded = False, fr_has_location = False,
           fr_interim = False, fr_eof_body = False\<rparr> in
      if lim_body limits = 0 \<or> lim_headers limits = 0 \<or> lim_chunk_metadata limits = 0 \<or> lim_fields limits = 0 \<or>
         lim_field limits = 0 \<or> lim_value limits = 0 \<or> kUrlBytes \<le> lim_value limits \<or> lim_chunk_line limits = 0
      then framing_reject s else s)"

definition reset_fields :: "'p framing \<Rightarrow> 'p framing" where
  "reset_fields s = s\<lparr>fr_field_size := 0, fr_value_size := 0, fr_field_count := 0, fr_name := [], fr_small := [],
     fr_location := [], fr_current := FfNone, fr_in_value := False, fr_has_length := False, fr_chunked := False,
     fr_has_transfer := False, fr_encoded := False, fr_has_location := False, fr_length := 0, fr_remaining := 0\<rparr>"

subsection \<open>The callbacks\<close>

definition parser_begin :: "'p framing \<Rightarrow> hp_answer \<times> 'p framing" where
  "parser_begin s = (AnsOk, (reset_fields s)\<lparr>fr_state := FsHeaders\<rparr>)"

text \<open>The digits of a length: None on anything else and on more than 64 bits hold.\<close>

fun length_digits :: "nat \<Rightarrow> string \<Rightarrow> nat option" where
  "length_digits n [] = Some n"
| "length_digits n (c # cs) =
     (if of_char c < (48::nat) \<or> (57::nat) < of_char c then None
      else let d = of_char c - 48 in
        if (2 ^ 64 - 1 - d) div 10 < n then None else length_digits (n * 10 + d) cs)"

text \<open>A complete header line; None is a rejection.\<close>

definition finish_value :: "'p framing \<Rightarrow> 'p framing option" where
  "finish_value s =
     (if fr_state s = FsTrailers then (if fr_current s \<noteq> FfUnknown then None else Some s)
      else case fr_current s of
        FfLength \<Rightarrow>
          if fr_has_length s \<or> 32 \<le> fr_value_size s then None
          else let t = trim_ows (fr_small s) in
            if t = [] then None
            else map_option (\<lambda>n. s\<lparr>fr_has_length := True, fr_length := n\<rparr>) (length_digits 0 t)
      | FfTransfer \<Rightarrow>
          if 32 \<le> fr_value_size s then None
          else if fr_has_transfer s \<or> \<not> equal_ci (trim_ows (fr_small s)) ''chunked'' then None
          else Some (s\<lparr>fr_has_transfer := True, fr_chunked := True\<rparr>)
      | FfEncoding \<Rightarrow>
          if 32 \<le> fr_value_size s then None
          else if fr_encoded s \<or> \<not> equal_ci (trim_ows (fr_small s)) ''identity'' then None
          else Some (s\<lparr>fr_encoded := True\<rparr>)
      | FfLocation \<Rightarrow>
          if fr_has_location s then None
          else let t = trim_ows (fr_location s) in
            if t = [] then None else Some (s\<lparr>fr_has_location := True, fr_location := t\<rparr>)
      | _ \<Rightarrow> Some s)"

definition finish_field :: "'p framing \<Rightarrow> bool \<times> 'p framing" where
  "finish_field s =
     (if \<not> fr_in_value s then (True, s)
      else case finish_value s of
          None \<Rightarrow> (False, framing_reject s)
        | Some s' \<Rightarrow> (True, s'\<lparr>fr_in_value := False\<rparr>))"

definition parser_field :: "string \<Rightarrow> 'p framing \<Rightarrow> hp_answer \<times> 'p framing" where
  "parser_field at s0 =
     (let (ok, s) = (if fr_in_value s0
        then (case finish_field s0 of
            (False, s1) \<Rightarrow> (False, s1)
          | (True, s1) \<Rightarrow> (True, s1\<lparr>fr_field_size := 0, fr_value_size := 0, fr_current := FfNone, fr_name := [],
              fr_small := []\<rparr>))
        else (True, s0)) in
      if \<not> ok then (AnsError, s)
      else if fr_field_size s = 0 \<and> fr_field_count s = lim_fields (fr_limits s) then (AnsError, framing_reject s)
      else let s = (if fr_field_size s = 0 then s\<lparr>fr_field_count := fr_field_count s + 1\<rparr> else s) in
      if lim_field (fr_limits s) - min (fr_field_size s) (lim_field (fr_limits s)) < length at
      then (AnsError, framing_reject s)
      else (AnsOk, s\<lparr>fr_name := fr_name s @ take (31 - fr_field_size s) at,
                     fr_field_size := fr_field_size s + length at\<rparr>))"

definition field_of_name :: "'p framing \<Rightarrow> framing_field" where
  "field_of_name s =
     (if 32 \<le> fr_field_size s then FfUnknown
      else if equal_ci (fr_name s) ''content-length'' then FfLength
      else if equal_ci (fr_name s) ''transfer-encoding'' then FfTransfer
      else if equal_ci (fr_name s) ''content-encoding'' then FfEncoding
      else if equal_ci (fr_name s) ''location'' then FfLocation
      else FfUnknown)"

definition parser_value :: "string \<Rightarrow> 'p framing \<Rightarrow> hp_answer \<times> 'p framing" where
  "parser_value at s0 =
     (let s = (if fr_in_value s0 then s0 else s0\<lparr>fr_in_value := True, fr_current := field_of_name s0\<rparr>) in
      if \<not> fr_in_value s0 \<and> fr_current s = FfLocation \<and> fr_has_location s then (AnsError, framing_reject s)
      else if lim_value (fr_limits s) - min (fr_value_size s) (lim_value (fr_limits s)) < length at
      then (AnsError, framing_reject s)
      else if fr_current s = FfLocation
      then (AnsOk, s\<lparr>fr_location := fr_location s @ at, fr_value_size := fr_value_size s + length at\<rparr>)
      else if fr_current s \<noteq> FfUnknown then
        (if 32 - min (fr_value_size s) 32 \<le> length at then (AnsError, framing_reject s)
         else (AnsOk, s\<lparr>fr_small := fr_small s @ at, fr_value_size := fr_value_size s + length at\<rparr>))
      else (AnsOk, s\<lparr>fr_value_size := fr_value_size s + length at\<rparr>))"

definition parser_headers :: "nat \<Rightarrow> bool \<Rightarrow> 'p framing \<Rightarrow> hp_answer \<times> 'p framing" where
  "parser_headers status upgrade s0 =
     (let (ok, s1) = finish_field s0 in
      if \<not> ok then (AnsError, s1)
      else let s = s1\<lparr>fr_field_size := 0, fr_value_size := 0, fr_current := FfNone, fr_status := status\<rparr> in
      if upgrade \<or> status = 101 then (AnsError, framing_reject s)
      else if 100 \<le> status \<and> status < 200 then
        (if lim_interims (fr_limits s) \<le> fr_interims s \<or> fr_has_length s \<or> fr_has_transfer s
         then (AnsError, framing_reject s)
         else (AnsSkipBody, s\<lparr>fr_interims := fr_interims s + 1, fr_interim := True\<rparr>))
      else if status \<in> {301, 302, 303, 307, 308} then
        (if \<not> fr_has_location s then (AnsError, framing_reject s)
         else (AnsPaused, s\<lparr>fr_result := ParseRedirect\<rparr>))
      else if status \<noteq> 200 \<or> fr_has_length s \<and> fr_chunked s \<or>
              fr_has_length s \<and> (fr_length s = 0 \<or> lim_body (fr_limits s) < fr_length s)
      then (AnsError, framing_reject s)
      else if fr_chunked s then (AnsOk, s\<lparr>fr_state := FsChunkMetadata\<rparr>)
      else if fr_has_length s then (AnsOk, s\<lparr>fr_state := FsBody, fr_remaining := fr_length s\<rparr>)
      else if lim_allow_eof (fr_limits s) then (AnsOk, s\<lparr>fr_state := FsBody, fr_eof_body := True\<rparr>)
      else (AnsError, framing_reject s))"

text \<open>The sink is the owner of the framing: it sees the framing as it is during the callback.\<close>

type_synonym ('p, 'c) body_sink = "'p framing \<Rightarrow> bytes \<Rightarrow> 'c \<Rightarrow> bool \<times> 'c"

definition parser_body :: "('p, 'c) body_sink \<Rightarrow> bytes \<Rightarrow> 'p framing \<times> 'c \<Rightarrow> hp_answer \<times> 'p framing \<times> 'c" where
  "parser_body sink at = (\<lambda>(s, c).
     let n = length at in
     if lim_body (fr_limits s) - min (fr_body s) (lim_body (fr_limits s)) < n \<or> \<not> fr_eof_body s \<and> fr_remaining s < n
     then (AnsError, framing_reject s, c)
     else let (ok, c) = (if n \<noteq> 0 then sink s at c else (True, c)) in
     if \<not> ok then (AnsError, s\<lparr>fr_result := ParseSinkFailed\<rparr>, c)
     else let s = s\<lparr>fr_body := fr_body s + n\<rparr> in
       if fr_eof_body s then (AnsOk, s, c)
       else let s = s\<lparr>fr_remaining := fr_remaining s - n\<rparr> in
         (AnsOk, (if fr_chunked s \<and> fr_remaining s = 0 then s\<lparr>fr_state := FsChunkMetadata\<rparr> else s), c))"

definition parser_complete :: "'p framing \<Rightarrow> hp_answer \<times> 'p framing" where
  "parser_complete s =
     (if fr_interim s then (AnsOk, s\<lparr>fr_interim := False, fr_state := FsHeaders\<rparr>)
      else let (ok, s) = finish_field s in
      if \<not> ok \<or> fr_body s = 0 \<or> \<not> fr_eof_body s \<and> \<not> fr_chunked s \<and> fr_remaining s \<noteq> 0
      then (AnsError, framing_reject s)
      else (AnsPaused, s\<lparr>fr_state := FsDone, fr_result := ParseComplete\<rparr>))"

definition parser_chunk :: "nat \<Rightarrow> 'p framing \<Rightarrow> hp_answer \<times> 'p framing" where
  "parser_chunk content_length s =
     (if lim_body (fr_limits s) - fr_body s < content_length then (AnsError, framing_reject s)
      else (AnsOk, s\<lparr>fr_remaining := content_length, fr_line_bytes := 0,
        fr_state := (if content_length \<noteq> 0 then FsBody else FsTrailers)\<rparr>))"

definition parser_chunk_done :: "'p framing \<Rightarrow> hp_answer \<times> 'p framing" where
  "parser_chunk_done s =
     (AnsOk, s\<lparr>fr_state := (if fr_state s \<noteq> FsTrailers then FsChunkMetadata else fr_state s), fr_line_bytes := 0\<rparr>)"

definition count_metadata :: "'p framing \<Rightarrow> bool \<times> 'p framing" where
  "count_metadata s =
     (if fr_state s = FsHeaders then
        (if lim_headers (fr_limits s) \<le> fr_header_bytes s then (False, framing_reject s)
         else (True, s\<lparr>fr_header_bytes := fr_header_bytes s + 1\<rparr>))
      else if lim_chunk_metadata (fr_limits s) \<le> fr_chunk_bytes s \<or> lim_chunk_line (fr_limits s) \<le> fr_line_bytes s
      then (False, framing_reject s)
      else (True, s\<lparr>fr_chunk_bytes := fr_chunk_bytes s + 1, fr_line_bytes := fr_line_bytes s + 1\<rparr>))"

subsection \<open>Feeding\<close>

definition callback ::
    "('p, 'c) body_sink \<Rightarrow> hp_event \<Rightarrow> 'p framing \<times> 'c \<Rightarrow> hp_answer \<times> 'p framing \<times> 'c" where
  "callback sink ev sc =
     (let plain = (\<lambda>f. case f (fst sc) of (a, s) \<Rightarrow> (a, s, snd sc)) in
      case ev of
        EvBegin \<Rightarrow> plain parser_begin
      | EvField at \<Rightarrow> plain (parser_field at)
      | EvValue at \<Rightarrow> plain (parser_value at)
      | EvHeaders status upgrade \<Rightarrow> plain (parser_headers status upgrade)
      | EvBody at \<Rightarrow> parser_body sink at sc
      | EvComplete \<Rightarrow> plain parser_complete
      | EvChunk n \<Rightarrow> plain (parser_chunk n)
      | EvChunkDone \<Rightarrow> plain parser_chunk_done)"

primrec run_parser :: "('p, 'c) body_sink \<Rightarrow> 'p hp_run \<Rightarrow> 'p framing \<times> 'c \<Rightarrow> (nat \<times> bool) \<times> 'p framing \<times> 'c" where
  "run_parser sink (HpEnd parsed ok p) sc = ((parsed, ok), (fst sc)\<lparr>fr_parser := p\<rparr>, snd sc)"
| "run_parser sink (HpCall ev k) sc = (case callback sink ev sc of (a, sc') \<Rightarrow> run_parser sink (k a) sc')"

text \<open>The parser library: its initial state and one run over some bytes (none for the end of the input).\<close>

record 'p http_parser_api =
  hp_init :: 'p
  hp_execute :: "'p \<Rightarrow> bytes \<Rightarrow> 'p hp_run"

definition piece_size :: "'p framing \<Rightarrow> bytes \<Rightarrow> nat" where
  "piece_size s rest =
     (if fr_state s = FsBody then if fr_eof_body s then length rest else min (length rest) (fr_remaining s) else 1)"

text \<open>One turn of the loop; False when it returns.\<close>

definition feed_piece ::
    "'p http_parser_api \<Rightarrow> ('p, 'c) body_sink \<Rightarrow> bytes \<Rightarrow> 'p framing \<times> 'c \<Rightarrow> bool \<times> 'p framing \<times> 'c" where
  "feed_piece api sink rest = (\<lambda>(s0, c0).
     let payload = (fr_state s0 = FsBody); n = piece_size s0 rest in
     if n = 0 then (False, framing_reject s0, c0)
     else case (if payload then (True, s0) else count_metadata s0) of
       (False, s) \<Rightarrow> (False, framing_reject s, c0)
     | (True, s) \<Rightarrow>
       (case run_parser sink (hp_execute api (fr_parser s) (take n rest)) (s, c0) of
          ((parsed, ok), s, c) \<Rightarrow>
            if fr_result s = ParseRedirect then (False, s, c)
            else if fr_result s = ParseComplete then
              (False, if parsed \<noteq> n \<or> parsed \<noteq> length rest then framing_reject s else s, c)
            else if \<not> ok \<or> parsed \<noteq> n then (False, if fr_result s = ParseMore then framing_reject s else s, c)
            else (True, if \<not> payload \<and> fr_state s = FsTrailers \<and> hd rest = 0x0A then s\<lparr>fr_line_bytes := 0\<rparr> else s, c)))"

lemma feed_piece_moves: "feed_piece api sink rest sc = (True, sc') \<Longrightarrow> piece_size (fst sc) rest \<noteq> 0"
  by (rule notI, cases sc) (simp add: feed_piece_def)

function feed_loop ::
    "'p http_parser_api \<Rightarrow> ('p, 'c) body_sink \<Rightarrow> bytes \<Rightarrow> 'p framing \<times> 'c \<Rightarrow> 'p framing \<times> 'c" where
  "feed_loop api sink rest sc =
     (if rest = [] \<or> fr_result (fst sc) \<noteq> ParseMore then sc
      else case feed_piece api sink rest sc of
          (False, sc') \<Rightarrow> sc'
        | (True, sc') \<Rightarrow> feed_loop api sink (drop (piece_size (fst sc) rest) rest) sc')"
  by pat_completeness auto
termination
  by (relation "measure (\<lambda>(api, sink, rest, sc). length rest)") (auto dest!: feed_piece_moves [OF sym])

declare feed_loop.simps [simp del]

definition framing_feed ::
    "'p http_parser_api \<Rightarrow> ('p, 'c) body_sink \<Rightarrow> bytes \<Rightarrow> 'p framing \<times> 'c \<Rightarrow> parse_result \<times> 'p framing \<times> 'c" where
  "framing_feed api sink data sc =
     (if fr_result (fst sc) \<noteq> ParseMore then (fr_result (fst sc), sc)
      else let sc' = feed_loop api sink data sc in (fr_result (fst sc'), sc'))"

definition framing_eof ::
    "'p http_parser_api \<Rightarrow> ('p, 'c) body_sink \<Rightarrow> 'p framing \<times> 'c \<Rightarrow> parse_result \<times> 'p framing \<times> 'c" where
  "framing_eof api sink sc =
     (if fr_result (fst sc) \<noteq> ParseMore then (fr_result (fst sc), sc)
      else case run_parser sink (hp_execute api (fr_parser (fst sc)) []) sc of
        (r, s, c) \<Rightarrow> let s = (if fr_result s \<noteq> ParseComplete then framing_reject s else s) in (fr_result s, s, c))"

subsection \<open>The framing stays within its limits\<close>

text \<open>The sink with a record of what it accepted.\<close>

definition logged :: "('p, 'c) body_sink \<Rightarrow> ('p, bytes \<times> 'c) body_sink" where
  "logged sink s data lc = (case sink s data (snd lc) of (ok, c) \<Rightarrow> (ok, if ok then fst lc @ data else fst lc, c))"

definition framing_inv :: "http_limits \<Rightarrow> 'p framing \<times> bytes \<times> 'c \<Rightarrow> bool" where
  "framing_inv l sc \<longleftrightarrow> fr_limits (fst sc) = l \<and> fr_body (fst sc) \<le> lim_body l \<and>
     fr_header_bytes (fst sc) \<le> lim_headers l \<and> fr_chunk_bytes (fst sc) \<le> lim_chunk_metadata l \<and>
     length (fst (snd sc)) = fr_body (fst sc) \<and> (fr_result (fst sc) = ParseComplete \<longrightarrow> fr_body (fst sc) \<noteq> 0)"

text \<open>What every callback but the body keeps.\<close>

definition same_counts :: "'p framing \<Rightarrow> 'p framing \<Rightarrow> bool" where
  "same_counts s s' \<longleftrightarrow> fr_limits s' = fr_limits s \<and> fr_body s' = fr_body s \<and> fr_header_bytes s' = fr_header_bytes s \<and>
     fr_chunk_bytes s' = fr_chunk_bytes s \<and>
     (fr_result s' = fr_result s \<or> fr_result s' \<in> {ParseRejected, ParseRedirect} \<or>
      fr_result s' = ParseComplete \<and> fr_body s \<noteq> 0)"

lemma same_counts_refl [simp]: "same_counts s s"
  by (simp add: same_counts_def)

lemma same_counts_trans: "same_counts s t \<Longrightarrow> same_counts t u \<Longrightarrow> same_counts s u"
  by (auto simp: same_counts_def)

lemma same_counts_inv: "framing_inv l (s, lc) \<Longrightarrow> same_counts s s' \<Longrightarrow> framing_inv l (s', lc)"
  by (auto simp: framing_inv_def same_counts_def)

lemma finish_value_counts: "finish_value s = Some s' \<Longrightarrow> same_counts s s'"
  by (auto simp: finish_value_def same_counts_def Let_def split: if_splits framing_field.splits)

lemma finish_field_counts: "finish_field s = (ok, s') \<Longrightarrow> same_counts s s'"
  by (auto simp: finish_field_def framing_reject_def same_counts_def dest: finish_value_counts
      split: if_splits option.splits)

lemma reject_counts: "same_counts s (framing_reject s)"
  by (simp add: same_counts_def framing_reject_def)

lemma parser_field_counts:
  assumes "parser_field at s = (a, s')" shows "same_counts s s'"
proof -
  define t where "t = (if fr_in_value s
        then (case finish_field s of
            (False, s1) \<Rightarrow> (False, s1)
          | (True, s1) \<Rightarrow> (True, s1\<lparr>fr_field_size := 0, fr_value_size := 0, fr_current := FfNone, fr_name := [],
              fr_small := []\<rparr>))
        else (True, s))"
  have t: "same_counts s (snd t)"
    by (auto simp: t_def same_counts_def dest!: finish_field_counts [unfolded same_counts_def] split: prod.splits bool.splits)
  have "same_counts (snd t) s'"
    using assms unfolding parser_field_def t_def [symmetric]
    by (cases t) (simp add: Let_def same_counts_def framing_reject_def split: if_splits; auto)
  with t show ?thesis by (rule same_counts_trans)
qed

lemma parser_value_counts: "parser_value at s = (a, s') \<Longrightarrow> same_counts s s'"
  by (simp add: parser_value_def same_counts_def framing_reject_def Let_def split: if_splits; auto)

lemma parser_headers_counts:
  assumes "parser_headers status upgrade s = (a, s')" shows "same_counts s s'"
proof -
  obtain ok s1 where f: "finish_field s = (ok, s1)" by (cases "finish_field s")
  have "same_counts s1 s'"
    using assms by (simp add: parser_headers_def f Let_def same_counts_def framing_reject_def split: if_splits; auto)
  with finish_field_counts [OF f] show ?thesis by (rule same_counts_trans)
qed

lemma parser_complete_counts:
  assumes "parser_complete s = (a, s')" shows "same_counts s s'"
proof -
  obtain ok s1 where f: "finish_field s = (ok, s1)" by (cases "finish_field s")
  show ?thesis
  proof (cases "fr_interim s")
    case True
    with assms show ?thesis by (auto simp: parser_complete_def same_counts_def)
  next
    case False
    with assms have "same_counts s1 s'"
      by (simp add: parser_complete_def f same_counts_def framing_reject_def split: if_splits; auto)
    with finish_field_counts [OF f] show ?thesis by (rule same_counts_trans)
  qed
qed

lemma callback_counts:
  assumes "\<forall>data. ev \<noteq> EvBody data" "callback sink ev (s, c) = (a, s', c')"
  shows "c' = c \<and> same_counts s s'"
proof (cases ev)
  case EvBegin
  with assms show ?thesis by (auto simp: callback_def parser_begin_def reset_fields_def same_counts_def)
next
  case (EvBody data)
  with assms show ?thesis by simp
next
  case (EvChunk n)
  with assms show ?thesis
    by (auto simp: callback_def parser_chunk_def framing_reject_def same_counts_def split: if_splits)
next
  case EvChunkDone
  with assms show ?thesis by (auto simp: callback_def parser_chunk_done_def same_counts_def)
qed (use assms in \<open>auto simp: callback_def parser_field_counts parser_value_counts parser_headers_counts
  parser_complete_counts split: prod.splits\<close>)

lemma parser_body_inv:
  assumes "framing_inv l (s, lc)" "parser_body (logged sink) data (s, lc) = (a, sc')"
  shows "framing_inv l sc'"
  using assms
  by (auto simp: parser_body_def framing_inv_def framing_reject_def logged_def Let_def split: prod.splits if_splits)

lemma callback_inv:
  assumes "framing_inv l sc" "callback (logged sink) ev sc = (a, sc')" shows "framing_inv l sc'"
proof (cases "\<exists>data. ev = EvBody data")
  case True
  with assms show ?thesis by (cases sc) (auto simp: callback_def intro: parser_body_inv)
next
  case False
  obtain s lc s' lc' where sc: "sc = (s, lc)" "sc' = (s', lc')" by (cases sc, cases sc')
  from False callback_counts [of ev "logged sink" s lc a s' lc'] assms sc have "lc' = lc \<and> same_counts s s'" by blast
  with assms sc show ?thesis by (auto intro: same_counts_inv)
qed

lemma run_parser_inv: "framing_inv l sc \<Longrightarrow> framing_inv l (snd (run_parser (logged sink) run sc))"
proof (induction run arbitrary: sc)
  case (HpEnd parsed ok p)
  then show ?case by (simp add: framing_inv_def)
next
  case (HpCall ev k)
  obtain a sc' where c: "callback (logged sink) ev sc = (a, sc')" by (cases "callback (logged sink) ev sc")
  with HpCall.IH [OF rangeI, of sc' a] callback_inv [OF HpCall.prems c] show ?case by (simp add: c)
qed

lemma count_metadata_inv: "framing_inv l (s, lc) \<Longrightarrow> count_metadata s = (ok, s') \<Longrightarrow> framing_inv l (s', lc)"
  by (auto simp: count_metadata_def framing_inv_def framing_reject_def split: if_splits)

lemma reject_inv: "framing_inv l (s, lc) \<Longrightarrow> framing_inv l (framing_reject s, lc)"
  by (simp add: framing_inv_def framing_reject_def)

lemma feed_piece_inv:
  assumes "framing_inv l sc" shows "framing_inv l (snd (feed_piece api (logged sink) rest sc))"
proof -
  obtain s c where sc: "sc = (s, c)" by (cases sc)
  obtain ok s1 where m: "(if fr_state s = FsBody then (True, s) else count_metadata s) = (ok, s1)" by fastforce
  have i1: "framing_inv l (s1, c)"
    using m assms by (auto simp: sc split: if_splits dest: count_metadata_inv)
  let ?run = "hp_execute api (fr_parser s1) (take (piece_size s rest) rest)"
  obtain parsed good s2 c2 where r: "run_parser (logged sink) ?run (s1, c) = ((parsed, good), s2, c2)"
    by (metis prod.exhaust)
  have "framing_inv l (s2, c2)"
    using run_parser_inv [OF i1, of sink ?run] by (simp only: r snd_conv)
  moreover from this have "framing_inv l (s2\<lparr>fr_line_bytes := 0\<rparr>, c2)" by (simp add: framing_inv_def)
  ultimately show ?thesis
    using assms i1 unfolding feed_piece_def sc
    by (cases ok) (simp_all add: m r Let_def reject_inv)
qed

lemma feed_loop_inv: "framing_inv l sc \<Longrightarrow> framing_inv l (feed_loop api (logged sink) rest sc)"
proof (induction api "logged sink" rest sc rule: feed_loop.induct)
  case (1 api rest sc)
  obtain b sc' where p: "feed_piece api (logged sink) rest sc = (b, sc')"
    by (cases "feed_piece api (logged sink) rest sc")
  with feed_piece_inv [OF 1(2), of api sink rest] have "framing_inv l sc'" by simp
  with 1 p show ?case by (cases b) (simp_all add: feed_loop.simps [of api "logged sink" rest sc])
qed

lemma framing_feed_inv:
  "framing_inv l sc \<Longrightarrow> framing_inv l (snd (framing_feed api (logged sink) rest sc))"
  by (simp add: framing_feed_def Let_def feed_loop_inv)

lemma new_framing_inv: "framing_inv limits (new_framing p limits, [], c)"
  by (simp add: framing_inv_def new_framing_def framing_reject_def Let_def)

subsection \<open>The bytes given to the parser\<close>

text \<open>What a turn of the loop gives to the parser, with the state of the framing it is read in; then a whole
  block, and a run of blocks.\<close>

definition piece_given :: "'p framing \<Rightarrow> bytes \<Rightarrow> (framing_state \<times> bytes) list" where
  "piece_given s rest =
     (if piece_size s rest \<noteq> 0 \<and> (fr_state s = FsBody \<or> fst (count_metadata s))
      then [(fr_state s, take (piece_size s rest) rest)] else [])"

function block_given ::
    "'p http_parser_api \<Rightarrow> ('p, 'c) body_sink \<Rightarrow> bytes \<Rightarrow> 'p framing \<times> 'c \<Rightarrow> (framing_state \<times> bytes) list" where
  "block_given api sink rest sc =
     (if rest = [] \<or> fr_result (fst sc) \<noteq> ParseMore then []
      else piece_given (fst sc) rest @
        (case feed_piece api sink rest sc of
          (False, sc') \<Rightarrow> []
        | (True, sc') \<Rightarrow> block_given api sink (drop (piece_size (fst sc) rest) rest) sc'))"
  by pat_completeness auto
termination
  by (relation "measure (\<lambda>(api, sink, rest, sc). length rest)") (auto dest!: feed_piece_moves [OF sym])

declare block_given.simps [simp del]

fun all_given ::
    "'p http_parser_api \<Rightarrow> ('p, 'c) body_sink \<Rightarrow> bytes list \<Rightarrow> 'p framing \<times> 'c \<Rightarrow> (framing_state \<times> bytes) list" where
  "all_given api sink [] sc = []"
| "all_given api sink (block # blocks) sc =
     block_given api sink block sc @ all_given api sink blocks (snd (framing_feed api sink block sc))"

definition bytes_read_in :: "framing_state set \<Rightarrow> (framing_state \<times> bytes) list \<Rightarrow> bytes" where
  "bytes_read_in states given = concat (map snd (filter (\<lambda>x. fst x \<in> states) given))"

lemma bytes_read_in_simps [simp]:
  "bytes_read_in states [] = []" "bytes_read_in states (xs @ ys) = bytes_read_in states xs @ bytes_read_in states ys"
  by (simp_all add: bytes_read_in_def)

text \<open>The counters of the framing count exactly these bytes.\<close>

definition counters :: "'p framing \<Rightarrow> nat \<times> nat" where
  "counters s = (fr_header_bytes s, fr_chunk_bytes s)"

definition counts :: "'p framing \<Rightarrow> (framing_state \<times> bytes) list \<Rightarrow> 'p framing \<Rightarrow> bool" where
  "counts s given s' \<longleftrightarrow>
     fr_header_bytes s' = fr_header_bytes s + length (bytes_read_in {FsHeaders} given) \<and>
     fr_chunk_bytes s' = fr_chunk_bytes s + length (bytes_read_in {FsChunkMetadata, FsTrailers, FsDone} given)"

lemma counts_trans: "counts s xs t \<Longrightarrow> counts t ys u \<Longrightarrow> counts s (xs @ ys) u"
  by (simp add: counts_def)

lemma counts_same: "counters s' = counters s \<Longrightarrow> counts s [] s'"
  by (simp add: counts_def counters_def)

lemma counters_keep [simp]:
  "counters (framing_reject s) = counters s" "counters (s\<lparr>fr_line_bytes := n\<rparr>) = counters s"
  "counters (s\<lparr>fr_parser := p\<rparr>) = counters s"
  by (simp_all add: counters_def framing_reject_def)

lemma callback_counters: "callback sink ev sc = (a, sc') \<Longrightarrow> counters (fst sc') = counters (fst sc)"
proof (cases "\<exists>data. ev = EvBody data")
  case True
  assume "callback sink ev sc = (a, sc')"
  with True show ?thesis
    by (cases sc) (auto simp: callback_def parser_body_def counters_def framing_reject_def Let_def
        split: prod.splits if_splits)
next
  case False
  assume eq: "callback sink ev sc = (a, sc')"
  obtain s c s' c' where sc: "sc = (s, c)" "sc' = (s', c')" by (cases sc, cases sc')
  from False callback_counts [of ev sink s c a s' c'] eq sc have "same_counts s s'" by blast
  with sc show ?thesis by (simp add: same_counts_def counters_def)
qed

lemma run_parser_counters: "counters (fst (snd (run_parser sink run sc))) = counters (fst sc)"
proof (induction run arbitrary: sc)
  case (HpEnd parsed ok p)
  show ?case by simp
next
  case (HpCall ev k)
  obtain a sc' where c: "callback sink ev sc = (a, sc')" by (cases "callback sink ev sc")
  with HpCall.IH [OF rangeI] callback_counters [OF c] show ?case by simp
qed

lemma count_metadata_counts:
  assumes "rest \<noteq> []" "fr_state s \<noteq> FsBody" "count_metadata s = (ok, s')"
  shows "counts s (piece_given s rest) s'"
  using assms by (cases rest; cases "fr_state s")
    (auto simp: piece_given_def piece_size_def count_metadata_def counts_def bytes_read_in_def framing_reject_def
      split: if_splits)

lemma feed_piece_counts:
  assumes "rest \<noteq> []"
  shows "counts (fst sc) (piece_given (fst sc) rest) (fst (snd (feed_piece api sink rest sc)))"
proof -
  obtain s c where sc: "sc = (s, c)" by (cases sc)
  obtain ok s1 where m: "(if fr_state s = FsBody then (True, s) else count_metadata s) = (ok, s1)" by fastforce
  have c1: "counts s (piece_given s rest) s1"
  proof (cases "fr_state s = FsBody")
    case True
    with m show ?thesis by (auto simp: counts_def piece_given_def bytes_read_in_def)
  next
    case False
    with m count_metadata_counts [OF assms False] show ?thesis by simp
  qed
  have keep: "counts s (piece_given s rest) t" if "counters t = counters s1" for t
    using counts_trans [OF c1 counts_same [OF that]] by simp
  let ?run = "hp_execute api (fr_parser s1) (take (piece_size s rest) rest)"
  obtain parsed good s2 c2 where r: "run_parser sink ?run (s1, c) = ((parsed, good), s2, c2)"
    by (metis prod.exhaust)
  have r2: "counters s2 = counters s1" using run_parser_counters [of sink ?run "(s1, c)"] by (simp add: r)
  have none: "counts s (piece_given s rest) (framing_reject s)" if "piece_size s rest = 0"
    using that by (simp add: piece_given_def counts_same)
  show ?thesis
    using none keep [of s2] keep [of "framing_reject s1"] keep [of "framing_reject s2"]
      keep [of "s2\<lparr>fr_line_bytes := 0\<rparr>"] r2
    unfolding feed_piece_def sc
    by (cases ok) (simp_all add: m r Let_def)
qed

lemma block_counts: "counts (fst sc) (block_given api sink rest sc) (fst (feed_loop api sink rest sc))"
proof (induction api sink rest sc rule: feed_loop.induct)
  case (1 api sink rest sc)
  show ?case
  proof (cases "rest = [] \<or> fr_result (fst sc) \<noteq> ParseMore")
    case True
    then show ?thesis
      by (simp add: block_given.simps [of api sink rest sc] feed_loop.simps [of api sink rest sc] counts_same)
  next
    case False
    obtain b sc' where p: "feed_piece api sink rest sc = (b, sc')" by (cases "feed_piece api sink rest sc")
    from False feed_piece_counts [of rest sc api sink] p
    have c: "counts (fst sc) (piece_given (fst sc) rest) (fst sc')" by simp
    show ?thesis
    proof (cases b)
      case True
      with False p 1 [OF _ p [symmetric]] counts_trans [OF c] show ?thesis
        by (simp add: block_given.simps [of api sink rest sc] feed_loop.simps [of api sink rest sc])
    next
      case b: False
      with False p c show ?thesis
        by (simp add: block_given.simps [of api sink rest sc] feed_loop.simps [of api sink rest sc])
    qed
  qed
qed

text \<open>They are consecutive: a block is given from its start, and to its end unless the response is decided.\<close>

lemma feed_piece_stops: "feed_piece api sink rest sc = (False, sc') \<Longrightarrow> fr_result (fst sc') \<noteq> ParseMore"
  by (cases sc) (auto simp: feed_piece_def framing_reject_def Let_def split: prod.splits bool.splits if_splits)

lemma feed_piece_goes:
  "feed_piece api sink rest sc = (True, sc') \<Longrightarrow>
   piece_given (fst sc) rest = [(fr_state (fst sc), take (piece_size (fst sc) rest) rest)]"
  using feed_piece_moves [of api sink rest sc sc']
  by (cases sc) (auto simp: feed_piece_def piece_given_def Let_def split: prod.splits bool.splits if_splits)

lemma piece_prefix: "prefix (concat (map snd (piece_given s rest))) rest"
  by (simp add: piece_given_def take_is_prefix)

lemma block_bytes:
  "prefix (concat (map snd (block_given api sink rest sc))) rest \<and>
   (fr_result (fst (feed_loop api sink rest sc)) = ParseMore \<longrightarrow> concat (map snd (block_given api sink rest sc)) = rest)"
proof (induction api sink rest sc rule: feed_loop.induct)
  case (1 api sink rest sc)
  show ?case
  proof (cases "rest = [] \<or> fr_result (fst sc) \<noteq> ParseMore")
    case True
    then show ?thesis by (auto simp: block_given.simps [of api sink rest sc] feed_loop.simps [of api sink rest sc])
  next
    case False
    obtain b sc' where p: "feed_piece api sink rest sc = (b, sc')" by (cases "feed_piece api sink rest sc")
    show ?thesis
    proof (cases b)
      case True
      let ?n = "piece_size (fst sc) rest"
      from p True have "piece_given (fst sc) rest = [(fr_state (fst sc), take ?n rest)]" by (simp add: feed_piece_goes)
      with False p True have b: "block_given api sink rest sc =
          (fr_state (fst sc), take ?n rest) # block_given api sink (drop ?n rest) sc'"
        and l: "feed_loop api sink rest sc = feed_loop api sink (drop ?n rest) sc'"
        by (simp_all add: block_given.simps [of api sink rest sc] feed_loop.simps [of api sink rest sc])
      have ih: "prefix (concat (map snd (block_given api sink (drop ?n rest) sc'))) (drop ?n rest)"
        "fr_result (fst (feed_loop api sink (drop ?n rest) sc')) = ParseMore \<longrightarrow>
           concat (map snd (block_given api sink (drop ?n rest) sc')) = drop ?n rest"
        using 1 [OF False p [symmetric]] True by blast+
      from ih(1) have "prefix (take ?n rest @ concat (map snd (block_given api sink (drop ?n rest) sc')))
          (take ?n rest @ drop ?n rest)" by (simp only: same_prefix_prefix)
      with ih(2) show ?thesis by (simp add: b l)
    next
      case b: False
      with False p piece_prefix [of "fst sc" rest] feed_piece_stops [of api sink rest sc sc'] show ?thesis
        by (simp add: block_given.simps [of api sink rest sc] feed_loop.simps [of api sink rest sc])
    qed
  qed
qed

text \<open>What a response delivers in a run of blocks, and then perhaps the end of the input.\<close>

definition feed_all ::
    "'p http_parser_api \<Rightarrow> ('p, 'c) body_sink \<Rightarrow> bytes list \<Rightarrow> 'p framing \<times> 'c \<Rightarrow> 'p framing \<times> 'c" where
  "feed_all api sink blocks sc = foldl (\<lambda>sc data. snd (framing_feed api sink data sc)) sc blocks"

definition deliver ::
    "'p http_parser_api \<Rightarrow> ('p, 'c) body_sink \<Rightarrow> bytes list \<Rightarrow> bool \<Rightarrow> 'p framing \<times> 'c \<Rightarrow> 'p framing \<times> 'c" where
  "deliver api sink blocks ended sc =
     (let sc' = feed_all api sink blocks sc in if ended then snd (framing_eof api sink sc') else sc')"

lemma feed_all_Cons:
  "feed_all api sink (block # blocks) sc = feed_all api sink blocks (snd (framing_feed api sink block sc))"
  by (simp add: feed_all_def)

lemma feed_all_inv: "framing_inv l sc \<Longrightarrow> framing_inv l (feed_all api (logged sink) blocks sc)"
  by (induction blocks arbitrary: sc) (simp_all add: feed_all_def framing_feed_inv)

lemma framing_feed_settled: "fr_result (fst sc) \<noteq> ParseMore \<Longrightarrow> framing_feed api sink data sc = (fr_result (fst sc), sc)"
  by (simp add: framing_feed_def)

lemma feed_all_settled: "fr_result (fst sc) \<noteq> ParseMore \<Longrightarrow> feed_all api sink blocks sc = sc"
  by (induction blocks arbitrary: sc) (simp_all add: feed_all_def framing_feed_settled)

lemma deliver_settled: "fr_result (fst sc) \<noteq> ParseMore \<Longrightarrow> deliver api sink blocks ended sc = sc"
  by (simp add: deliver_def feed_all_settled framing_eof_def)

lemma framing_eof_keeps:
  assumes "framing_inv l sc"
  shows "framing_inv l (snd (framing_eof api (logged sink) sc))"
    "counters (fst (snd (framing_eof api (logged sink) sc))) = counters (fst sc)"
proof -
  let ?run = "hp_execute api (fr_parser (fst sc)) []"
  obtain r s c where e: "run_parser (logged sink) ?run sc = (r, s, c)" by (metis prod.exhaust)
  have "framing_inv l (s, c)" "counters s = counters (fst sc)"
    using run_parser_inv [OF assms, of sink ?run] run_parser_counters [of "logged sink" ?run sc] by (simp_all add: e)
  then show "framing_inv l (snd (framing_eof api (logged sink) sc))"
    "counters (fst (snd (framing_eof api (logged sink) sc))) = counters (fst sc)"
    using assms by (simp_all add: framing_eof_def e Let_def reject_inv)
qed

lemma all_counts: "counts (fst sc) (all_given api sink blocks sc) (fst (feed_all api sink blocks sc))"
proof (induction blocks arbitrary: sc)
  case Nil
  show ?case by (simp add: feed_all_def counts_same)
next
  case (Cons block blocks)
  let ?next = "snd (framing_feed api sink block sc)"
  have "counts (fst sc) (block_given api sink block sc) (fst ?next)"
    using block_counts [of sc api sink block]
    by (auto simp: framing_feed_def Let_def block_given.simps [of api sink block sc] counts_same)
  from counts_trans [OF this Cons [of ?next]] show ?case by (simp add: feed_all_Cons)
qed

lemma all_given_settled: "fr_result (fst sc) \<noteq> ParseMore \<Longrightarrow> all_given api sink blocks sc = []"
  by (induction blocks arbitrary: sc) (simp_all add: framing_feed_settled block_given.simps)

lemma all_bytes: "prefix (concat (map snd (all_given api sink blocks sc))) (concat blocks)"
proof (induction blocks arbitrary: sc)
  case Nil
  show ?case by simp
next
  case (Cons block blocks)
  let ?sc = "snd (framing_feed api sink block sc)"
  show ?case
  proof (cases "fr_result (fst sc) = ParseMore \<and> fr_result (fst ?sc) = ParseMore")
    case True
    then have "?sc = feed_loop api sink block sc" by (simp add: framing_feed_def Let_def)
    with True have "concat (map snd (block_given api sink block sc)) = block"
      using block_bytes [of api sink block sc] by auto
    with Cons [of ?sc] show ?thesis by simp
  next
    case False
    then have "all_given api sink blocks ?sc = []"
      by (metis all_given_settled framing_feed_settled snd_conv)
    with block_bytes [of api sink block sc] show ?thesis by (auto intro: prefix_prefix)
  qed
qed

text \<open>C40: Whatever the parser library reports, however the response is cut into blocks and whether or not it is
  ended by the end of the input: of the bytes that arrived, given to the parser consecutively from the first,
  at most the permitted number is read as headers and at most the permitted number as chunk metadata and
  trailers; the sink accepts at most the permitted number of body bytes; a response is complete only when
  the sink accepted at least one byte; and a response that has been decided is never reopened by later bytes
  or by the end of the input.\<close>

theorem download_framing_bounded:
  "(case deliver api (logged sink) blocks ended (new_framing p limits, [], c) of
      (s, log, c') \<Rightarrow>
        (let given = all_given api (logged sink) blocks (new_framing p limits, [], c) in
         prefix (concat (map snd given)) (concat blocks) \<and>
         length (bytes_read_in {FsHeaders} given) \<le> lim_headers limits \<and>
         length (bytes_read_in {FsChunkMetadata, FsTrailers, FsDone} given) \<le> lim_chunk_metadata limits) \<and>
        length log \<le> lim_body limits \<and>
        (fr_result s = ParseMore \<or> deliver api (logged sink) more_blocks more_ended (s, log, c') = (s, log, c')) \<and>
        (fr_result s \<in> {ParseMore, ParseRedirect, ParseRejected, ParseSinkFailed} \<or> 0 < length log))"
proof -
  let ?start = "(new_framing p limits, [], c)"
  obtain s log c' where f: "deliver api (logged sink) blocks ended ?start = (s, log, c')"
    by (metis prod.exhaust)
  have i: "framing_inv limits (feed_all api (logged sink) blocks ?start)"
    by (rule feed_all_inv [OF new_framing_inv])
  have inv: "framing_inv limits (s, log, c')" "counters s = counters (fst (feed_all api (logged sink) blocks ?start))"
    using i framing_eof_keeps [OF i, of api sink] f by (auto simp: deliver_def Let_def split: if_splits)
  have zero: "counters (new_framing p limits) = (0, 0)"
    by (simp add: new_framing_def counters_def framing_reject_def Let_def)
  let ?given = "all_given api (logged sink) blocks ?start"
  have "length (bytes_read_in {FsHeaders} ?given) = fr_header_bytes s"
    "length (bytes_read_in {FsChunkMetadata, FsTrailers, FsDone} ?given) = fr_chunk_bytes s"
    using all_counts [of ?start api "logged sink" blocks] inv(2) zero by (simp_all add: counts_def counters_def)
  with inv(1) have "length (bytes_read_in {FsHeaders} ?given) \<le> lim_headers limits"
    "length (bytes_read_in {FsChunkMetadata, FsTrailers, FsDone} ?given) \<le> lim_chunk_metadata limits"
    by (simp_all add: framing_inv_def)
  then show ?thesis
    using deliver_settled [of "(s, log, c')" api "logged sink" more_blocks more_ended] inv(1) all_bytes
    by (cases "fr_result s") (auto simp: f Let_def framing_inv_def)
qed

end
