(* ===== verification/OtaCoordinator.thy ===== *)
theory OtaCoordinator
  imports OtaHttp OtaPolicy
begin

text \<open>
  The coordinator of an update (\<open>ota_coordinator.cpp\<close>): it takes blocks from the network task, runs them through
  the framing, follows redirects and drives the image writer through its table of effects, up to the selection
  of the boot partition. The table, the clock, the parser library and the metadata sink are parameters; every
  entry of the table is present. Diagnostic checkpoints are left out.
\<close>

subsection \<open>The table of effects\<close>

datatype effect = EffectOk | EffectFailed | EffectNoMemory | EffectUncertain | EffectCommitted

record 'w effects =
  ef_prefix_bytes :: nat
  ef_check_prefix :: "bytes \<Rightarrow> 'w \<Rightarrow> effect \<times> 'w"
  ef_begin :: "'w \<Rightarrow> effect \<times> 'w"
  ef_write :: "bytes \<Rightarrow> 'w \<Rightarrow> effect \<times> 'w"
  ef_finish :: "'w \<Rightarrow> effect \<times> 'w"
  ef_select_boot :: "'w \<Rightarrow> effect \<times> 'w"
  ef_abort :: "'w \<Rightarrow> bool \<times> 'w"
  ef_quiescent :: "'w \<Rightarrow> bool"
  ef_release_lease :: "'w \<Rightarrow> bool \<times> 'w"

datatype outcome = OcIdle | OcWorking | OcMetadataReady | OcCommitted | OcDeadline | OcProtocolError
  | OcNetworkError | OcNoMemory | OcWriterError | OcWriterUncertain | OcInvalidState

record ('p, 'w) ota_env =
  env_http :: "'p http_parser_api"
  env_url :: url_parser
  env_clock :: "nat \<Rightarrow> u64"
  env_effects :: "'w effects"
  env_sink :: "bytes \<Rightarrow> bytes \<Rightarrow> bool \<times> bytes"
  env_overhead :: u64

record ('p, 'w) coordinator =
  co_owner :: u32
  co_job :: job
  co_budget :: op_budget
  co_ticks :: nat
  co_writer :: 'w
  co_framing :: "'p framing option"
  co_limits :: http_limits
  co_metadata :: bytes
  co_prefix :: bytes
  co_redirect :: string
  co_redirects :: nat
  co_outcome :: outcome
  co_image :: bool
  co_begun :: bool
  co_borrowed :: bool
  co_lease_released :: bool
  co_redirect_wait :: bool
  co_tightened :: bool
  co_optional_metadata :: bool
  co_metadata_failed :: bool
  co_upload_expected :: nat
  co_upload_received :: nat

definition new_coordinator :: "u32 \<Rightarrow> job \<Rightarrow> op_budget \<Rightarrow> 'w \<Rightarrow> ('p, 'w) coordinator" where
  "new_coordinator owner j budget w =
     \<lparr>co_owner = owner, co_job = j, co_budget = budget, co_ticks = 0, co_writer = w, co_framing = None,
      co_limits = http_limits_for 0 False, co_metadata = [], co_prefix = [], co_redirect = [], co_redirects = 0,
      co_outcome = OcIdle, co_image = False, co_begun = False, co_borrowed = False, co_lease_released = False,
      co_redirect_wait = False, co_tightened = False, co_optional_metadata = False, co_metadata_failed = False,
      co_upload_expected = 0, co_upload_received = 0\<rparr>"

text \<open>\<open>MetadataSink::append\<close> while its string can grow.\<close>

definition metadata_append :: "nat \<Rightarrow> bytes \<Rightarrow> bytes \<Rightarrow> bool \<times> bytes" where
  "metadata_append maximum data out = (if maximum - length out < length data then (False, out) else (True, out @ data))"

subsection \<open>Operations\<close>

type_synonym ('p, 'w) co_op = "('p, 'w) coordinator \<Rightarrow> ('p, 'w) coordinator"

definition co_alive :: "('p, 'w) ota_env \<Rightarrow> ('p, 'w) coordinator \<Rightarrow> bool \<times> ('p, 'w) coordinator" where
  "co_alive env c =
     (if is_retired (job_control (co_job c)) then (False, c)
      else let (ok, b) = budget_live (env_clock env (co_ticks c)) (co_budget c) in
        (ok, c\<lparr>co_budget := b, co_ticks := co_ticks c + 1\<rparr>))"

definition co_retire :: "('p, 'w) co_op" where
  "co_retire c = c\<lparr>co_job := job_retire (co_job c)\<rparr>"

definition co_close :: "('p, 'w) co_op" where
  "co_close c = c\<lparr>co_job := job_close_connection (co_job c)\<rparr>"

definition release_if_safe :: "('p, 'w) ota_env \<Rightarrow> ('p, 'w) co_op" where
  "release_if_safe env c =
     (if co_lease_released c \<or> co_outcome c = OcCommitted \<or> co_outcome c = OcWriterUncertain \<or> co_borrowed c \<or>
         \<not> ef_quiescent (env_effects env) (co_writer c) then c
      else let (released, w) = ef_release_lease (env_effects env) (co_writer c);
               c = c\<lparr>co_lease_released := released, co_writer := w\<rparr> in
        if released then c else c\<lparr>co_outcome := OcWriterUncertain\<rparr>)"

definition co_fail :: "('p, 'w) ota_env \<Rightarrow> outcome \<Rightarrow> ('p, 'w) co_op" where
  "co_fail env reason c0 =
     (if co_outcome c0 = OcCommitted \<or> co_outcome c0 = OcWriterUncertain then c0
      else let (optional, c) = (if co_optional_metadata c0 \<and> \<not> co_image c0 \<and>
               \<not> is_retired (job_control (co_job c0)) \<and> (reason = OcNetworkError \<or> reason = OcProtocolError)
             then (case budget_live (env_clock env (co_ticks c0)) (co_budget c0) of
                 (ok, b) \<Rightarrow> (ok, c0\<lparr>co_budget := b, co_ticks := co_ticks c0 + 1\<rparr>))
             else (False, c0)) in
      if optional then (co_close (c\<lparr>co_metadata_failed := True\<rparr>))\<lparr>co_outcome := OcMetadataReady\<rparr>
      else let c = (co_retire c)\<lparr>co_outcome := reason\<rparr>;
               c = (if ef_quiescent (env_effects env) (co_writer c) then c
                    else case ef_abort (env_effects env) (co_writer c) of
                        (True, w) \<Rightarrow> c\<lparr>co_writer := w\<rparr>
                      | (False, w) \<Rightarrow> c\<lparr>co_writer := w, co_outcome := OcWriterUncertain\<rparr>) in
        release_if_safe env c)"

definition co_cancel :: "('p, 'w) ota_env \<Rightarrow> outcome \<Rightarrow> ('p, 'w) co_op" where
  "co_cancel env reason c = co_fail env reason c"

text \<open>\<open>alive\<close> with the failure it leads to.\<close>

definition co_check :: "('p, 'w) ota_env \<Rightarrow> ('p, 'w) coordinator \<Rightarrow> bool \<times> ('p, 'w) coordinator" where
  "co_check env c = (case co_alive env c of (True, c) \<Rightarrow> (True, c) | (False, c) \<Rightarrow> (False, co_fail env OcDeadline c))"

definition writer_outcome :: "effect \<Rightarrow> outcome" where
  "writer_outcome e = (if e = EffectNoMemory then OcNoMemory else OcWriterError)"

text \<open>One write with the failure it leads to.\<close>

definition co_write :: "('p, 'w) ota_env \<Rightarrow> bytes \<Rightarrow> ('p, 'w) coordinator \<Rightarrow> bool \<times> ('p, 'w) coordinator" where
  "co_write env data c =
     (let (e, w) = ef_write (env_effects env) data (co_writer c); c = c\<lparr>co_writer := w\<rparr> in
      if e = EffectOk then (True, c) else (False, co_fail env (writer_outcome e) c))"

text \<open>Steps that stop at the first that fails.\<close>

definition and_then :: "bool \<times> 'c \<Rightarrow> ('c \<Rightarrow> bool \<times> 'c) \<Rightarrow> bool \<times> 'c" where
  "and_then r f = (if fst r then f (snd r) else (False, snd r))"

definition co_admit :: "('p, 'w) ota_env \<Rightarrow> ('p, 'w) coordinator \<Rightarrow> bool \<times> ('p, 'w) coordinator" where
  "co_admit env c =
     (let (admit, w) = ef_check_prefix (env_effects env) (co_prefix c) (co_writer c); c = c\<lparr>co_writer := w\<rparr> in
      if admit = EffectOk then (True, c) else (False, co_fail env OcProtocolError c))"

definition co_begin :: "('p, 'w) ota_env \<Rightarrow> ('p, 'w) coordinator \<Rightarrow> bool \<times> ('p, 'w) coordinator" where
  "co_begin env c =
     (let (e, w) = ef_begin (env_effects env) (co_writer c); c = c\<lparr>co_writer := w\<rparr> in
      if e = EffectOk then (True, c\<lparr>co_begun := True\<rparr>) else (False, co_fail env (writer_outcome e) c))"

text \<open>The complete prefix: admission, begin and the first write.\<close>

definition co_begin_image :: "('p, 'w) ota_env \<Rightarrow> ('p, 'w) coordinator \<Rightarrow> bool \<times> ('p, 'w) coordinator" where
  "co_begin_image env c =
     and_then (co_check env c) (\<lambda>c. and_then (co_admit env c) (\<lambda>c. and_then (co_check env c) (\<lambda>c.
     and_then (co_begin env c) (\<lambda>c. and_then (co_check env c) (\<lambda>c. and_then (co_write env (co_prefix c) c)
       (co_check env))))))"

text \<open>The first tightening of the budget, to the size the server declared.\<close>

definition co_tighten :: "('p, 'w) ota_env \<Rightarrow> nat \<Rightarrow> ('p, 'w) coordinator \<Rightarrow> bool \<times> ('p, 'w) coordinator" where
  "co_tighten env declared c =
     (let (ok, b) = budget_tighten (of_nat declared + env_overhead env) (co_budget c);
          c = c\<lparr>co_tightened := True, co_budget := b\<rparr> in
      if ok then (True, c) else (False, co_fail env OcProtocolError c))"

definition co_image_data :: "('p, 'w) ota_env \<Rightarrow> bytes \<Rightarrow> ('p, 'w) coordinator \<Rightarrow> bool \<times> ('p, 'w) coordinator" where
  "co_image_data env rest c =
     and_then (if co_begun c then (True, c) else co_begin_image env c) (\<lambda>c.
     and_then (if rest \<noteq> [] then co_write env rest c else (True, c)) (co_check env))"

definition co_body :: "('p, 'w) ota_env \<Rightarrow> 'p framing option \<Rightarrow> bytes \<Rightarrow> ('p, 'w) coordinator \<Rightarrow>
    bool \<times> ('p, 'w) coordinator" where
  "co_body env fr data c =
     and_then (case fr of
          Some f \<Rightarrow> if co_image c \<and> fr_has_length f \<and> \<not> co_tightened c then co_tighten env (fr_length f) c else (True, c)
        | None \<Rightarrow> (True, c)) (\<lambda>c.
     and_then (co_check env c) (\<lambda>c.
       if \<not> co_image c then (case env_sink env data (co_metadata c) of (ok, out) \<Rightarrow> (ok, c\<lparr>co_metadata := out\<rparr>))
       else if co_begun c then co_image_data env data c
       else let missing = ef_prefix_bytes (env_effects env) - length (co_prefix c);
                c = c\<lparr>co_prefix := co_prefix c @ take missing data\<rparr> in
         if length (co_prefix c) \<noteq> ef_prefix_bytes (env_effects env) then (True, c)
         else co_image_data env (drop missing data) c))"

definition co_finish_image :: "('p, 'w) ota_env \<Rightarrow> ('p, 'w) co_op" where
  "co_finish_image env c0 =
     (if \<not> co_begun c0 then co_fail env OcProtocolError c0
      else case co_alive env c0 of (False, c) \<Rightarrow> co_fail env OcDeadline c | (True, c) \<Rightarrow>
      let (finished, w) = ef_finish (env_effects env) (co_writer c); c = c\<lparr>co_writer := w\<rparr> in
      if finished \<noteq> EffectOk then co_fail env (writer_outcome finished) c
      else case co_alive env c of (False, c) \<Rightarrow> co_fail env OcDeadline c | (True, c) \<Rightarrow>
      let (selection, w) = ef_select_boot (env_effects env) (co_writer c); c = co_retire (c\<lparr>co_writer := w\<rparr>) in
      if selection = EffectCommitted then c\<lparr>co_outcome := OcCommitted\<rparr>
      else if selection = EffectUncertain then c\<lparr>co_outcome := OcWriterUncertain\<rparr>
      else co_fail env OcWriterError c)"

definition prefix_capacity :: nat where "prefix_capacity = 512"

definition co_start :: "('p, 'w) ota_env \<Rightarrow> string \<Rightarrow> http_limits \<Rightarrow> bool \<Rightarrow> bool \<Rightarrow>
    ('p, 'w) coordinator \<Rightarrow> bool \<times> ('p, 'w) coordinator" where
  "co_start env url limits is_image optional c0 =
     (if \<not> slot_owns (co_owner c0) (co_job c0) \<or> co_lease_released c0 \<or>
         bd_started (co_budget c0) \<noteq> job_started (co_job c0) \<or> job_deadline (co_job c0) < bd_deadline (co_budget c0) \<or>
         co_outcome c0 \<noteq> OcIdle \<and> co_outcome c0 \<noteq> OcMetadataReady then (False, c0)
      else case co_alive env c0 of (False, c) \<Rightarrow> (False, c) | (True, c) \<Rightarrow>
      if is_image \<and> (ef_prefix_bytes (env_effects env) = 0 \<or> prefix_capacity < ef_prefix_bytes (env_effects env)) \<or>
         valid_https_url (env_url env) url = None then (False, c)
      else let f = new_framing (hp_init (env_http env)) limits;
               c = c\<lparr>co_image := is_image, co_limits := limits, co_optional_metadata := optional \<and> \<not> is_image,
                     co_metadata_failed := False, co_prefix := [], co_redirects := 0, co_begun := False,
                     co_borrowed := False, co_redirect_wait := False, co_tightened := False, co_framing := Some f\<rparr> in
      if fr_result f \<noteq> ParseMore then (False, c)
      else case job_request (Some url) (co_job c) of
          (False, j) \<Rightarrow> (False, c\<lparr>co_job := j\<rparr>)
        | (True, j) \<Rightarrow> (True, c\<lparr>co_job := j, co_outcome := OcWorking\<rparr>))"

definition co_start_upload :: "('p, 'w) ota_env \<Rightarrow> nat \<Rightarrow> ('p, 'w) coordinator \<Rightarrow> bool \<times> ('p, 'w) coordinator" where
  "co_start_upload env total_bytes c0 =
     (if \<not> slot_owns (co_owner c0) (co_job c0) \<or> co_lease_released c0 \<or> co_outcome c0 \<noteq> OcIdle then (False, c0)
      else case co_alive env c0 of (False, c) \<Rightarrow> (False, c) | (True, c) \<Rightarrow>
      if bd_started (co_budget c) \<noteq> job_started (co_job c) \<or> job_deadline (co_job c) < bd_deadline (co_budget c) \<or>
         total_bytes < ef_prefix_bytes (env_effects env) \<or> 0x1f0000 < total_bytes \<or>
         ef_prefix_bytes (env_effects env) = 0 \<or> prefix_capacity < ef_prefix_bytes (env_effects env) then (False, c)
      else case budget_tighten (of_nat total_bytes) (co_budget c) of
          (False, b) \<Rightarrow> (False, c\<lparr>co_budget := b\<rparr>)
        | (True, b) \<Rightarrow> (True, c\<lparr>co_budget := b, co_image := True, co_upload_expected := total_bytes, co_outcome := OcWorking\<rparr>))"

definition co_upload :: "('p, 'w) ota_env \<Rightarrow> bytes \<Rightarrow> ('p, 'w) coordinator \<Rightarrow> bool \<times> ('p, 'w) coordinator" where
  "co_upload env data c =
     (if co_upload_expected c = 0 \<or> co_outcome c \<noteq> OcWorking then (False, c)
      else if data = [] \<or> kBlockBytes < length data \<or> co_upload_expected c - co_upload_received c < length data
      then (False, co_fail env OcProtocolError c)
      else case co_body env (co_framing c) data c of
          (False, c) \<Rightarrow> (False, c)
        | (True, c) \<Rightarrow> (True, c\<lparr>co_upload_received := co_upload_received c + length data\<rparr>))"

definition co_finish_upload :: "('p, 'w) ota_env \<Rightarrow> ('p, 'w) co_op" where
  "co_finish_upload env c =
     (if co_upload_expected c = 0 \<or> co_outcome c \<noteq> OcWorking then c
      else if co_upload_received c \<noteq> co_upload_expected c then co_fail env OcProtocolError c
      else co_finish_image env c)"

text \<open>A borrowed result of the network task: what the framing makes of it.\<close>

definition network_outcome :: "net_result \<Rightarrow> outcome" where
  "network_outcome r = (case r of NetNoMemory \<Rightarrow> OcNoMemory | NetDeadline \<Rightarrow> OcDeadline | _ \<Rightarrow> OcNetworkError)"

definition co_consume :: "('p, 'w) ota_env \<Rightarrow> 'p framing \<Rightarrow> ('p, 'w) coordinator \<Rightarrow> parse_result \<times> ('p, 'w) coordinator" where
  "co_consume env f c0 =
     (case co_alive env c0 of (False, c) \<Rightarrow> (ParseMore, co_fail env OcDeadline c) | (True, c) \<Rightarrow>
      let j = co_job c; sink = (\<lambda>f data c. co_body env (Some f) data c) in
      if job_result j = NetData \<and> job_bytes j \<noteq> 0 \<and> job_bytes j \<le> length (job_block j) then
        (case framing_feed (env_http env) sink (take (job_bytes j) (job_block j)) (f, c) of
           (r, f, c) \<Rightarrow> (r, c\<lparr>co_framing := Some f\<rparr>))
      else if job_result j = NetEof then
        (case framing_eof (env_http env) sink (f, c) of (r, f, c) \<Rightarrow> (r, c\<lparr>co_framing := Some f\<rparr>))
      else (ParseMore, co_fail env (network_outcome (job_result j)) c))"

definition co_follow :: "('p, 'w) ota_env \<Rightarrow> 'p framing \<Rightarrow> ('p, 'w) co_op" where
  "co_follow env f c =
     (case (if 10 \<le> co_redirects c then None else resolve_redirect (env_url env) (job_url (co_job c)) (takeWhile (\<lambda>x. x \<noteq> CHR 0x00) (fr_location f))) of
        None \<Rightarrow> co_fail env OcProtocolError c
      | Some url \<Rightarrow> co_close (c\<lparr>co_redirect := url, co_redirects := co_redirects c + 1, co_redirect_wait := True\<rparr>))"

text \<open>What the parse result leads to while the operation is working.\<close>

definition co_settle :: "('p, 'w) ota_env \<Rightarrow> parse_result \<Rightarrow> ('p, 'w) co_op" where
  "co_settle env parsed c0 =
     (let f = the (co_framing c0);
          c1 = (if co_image c0 \<and> fr_status f = 200 \<and> fr_has_length f \<and> \<not> co_tightened c0
                then snd (co_tighten env (fr_length f) c0) else c0);
          c = snd (co_check env c1) in
      if co_outcome c \<noteq> OcWorking then c
      else if parsed = ParseRedirect then co_follow env f c
      else if parsed = ParseComplete then
        (let c = co_close c in if co_image c then co_finish_image env c else c\<lparr>co_outcome := OcMetadataReady\<rparr>)
      else if parsed = ParseRejected \<or> parsed = ParseSinkFailed then co_fail env OcProtocolError c
      else c)"

definition co_return_block :: "('p, 'w) ota_env \<Rightarrow> ('p, 'w) co_op" where
  "co_return_block env c0 =
     (let (ok, j) = job_release (co_job c0); c = c0\<lparr>co_job := j\<rparr>;
          c = (if ok then c else co_retire (c\<lparr>co_outcome := OcWriterUncertain\<rparr>));
          c = c\<lparr>co_borrowed := False\<rparr> in
      if co_outcome c \<noteq> OcWorking \<and> co_outcome c \<noteq> OcMetadataReady then release_if_safe env c else c)"

definition co_resume :: "('p, 'w) ota_env \<Rightarrow> ('p, 'w) coordinator \<Rightarrow> bool \<times> ('p, 'w) coordinator" where
  "co_resume env c =
     (if \<not> co_redirect_wait c then (True, c)
      else if \<not> in_phase PhClosed (job_control (co_job c)) then (False, c)
      else case job_request (Some (co_redirect c)) (co_job c) of
          (False, j) \<Rightarrow> (False, co_fail env OcInvalidState (c\<lparr>co_job := j\<rparr>))
        | (True, j) \<Rightarrow> (True, c\<lparr>co_job := j, co_framing := Some (new_framing (hp_init (env_http env)) (co_limits c)),
            co_redirect_wait := False\<rparr>))"

definition co_poll :: "('p, 'w) ota_env \<Rightarrow> ('p, 'w) co_op" where
  "co_poll env c0 =
     (if co_outcome c0 = OcCommitted \<or> co_outcome c0 = OcWriterUncertain \<or> co_lease_released c0 then c0
      else case co_check env c0 of (False, c) \<Rightarrow> c | (True, c) \<Rightarrow>
      if in_phase PhCleanupFailed (job_control (co_job c)) then co_fail env OcNetworkError (c\<lparr>co_optional_metadata := False\<rparr>)
      else if co_outcome c \<noteq> OcWorking then c
      else case co_resume env c of (False, c) \<Rightarrow> c | (True, c) \<Rightarrow>
      case job_borrow (co_job c) of (False, j) \<Rightarrow> c\<lparr>co_job := j\<rparr> | (True, j) \<Rightarrow>
      let (parsed, c) = co_consume env (the (co_framing c)) (c\<lparr>co_job := j, co_borrowed := True\<rparr>) in
      co_return_block env (if co_outcome c = OcWorking then co_settle env parsed c else c))"

definition co_finish_metadata :: "('p, 'w) ota_env \<Rightarrow> ('p, 'w) co_op" where
  "co_finish_metadata env c0 =
     (if co_outcome c0 \<noteq> OcMetadataReady then co_fail env OcDeadline c0
      else case co_alive env c0 of (False, c) \<Rightarrow> co_fail env OcDeadline c
        | (True, c) \<Rightarrow> release_if_safe env (co_retire c))"

definition co_can_reclaim :: "('p, 'w) ota_env \<Rightarrow> ('p, 'w) coordinator \<Rightarrow> bool" where
  "co_can_reclaim env c \<longleftrightarrow> co_lease_released c \<and> \<not> co_borrowed c \<and> worker_clean (co_job c) \<and>
     ef_quiescent (env_effects env) (co_writer c)"

subsection \<open>Runs\<close>

text \<open>The calls of the owner, and a change of the job by the network task between two of them.\<close>

datatype co_call = CallStart string http_limits bool bool | CallPoll | CallStartUpload nat | CallUpload bytes
  | CallFinishUpload | CallCancel outcome | CallFinishMetadata | NetworkTask job

text \<open>\<open>cancel\<close> is called with a failure.\<close>

definition failure :: "outcome \<Rightarrow> bool" where
  "failure r \<longleftrightarrow> r \<notin> {OcIdle, OcWorking, OcMetadataReady, OcCommitted}"

definition co_call_ok :: "co_call \<Rightarrow> bool" where
  "co_call_ok call = (case call of CallCancel r \<Rightarrow> failure r | _ \<Rightarrow> True)"

definition co_step :: "('p, 'w) ota_env \<Rightarrow> ('p, 'w) coordinator \<Rightarrow> co_call \<Rightarrow> ('p, 'w) coordinator" where
  "co_step env c call = (case call of
       CallStart url limits is_image optional \<Rightarrow> snd (co_start env url limits is_image optional c)
     | CallPoll \<Rightarrow> co_poll env c
     | CallStartUpload n \<Rightarrow> snd (co_start_upload env n c)
     | CallUpload data \<Rightarrow> snd (co_upload env data c)
     | CallFinishUpload \<Rightarrow> co_finish_upload env c
     | CallCancel r \<Rightarrow> co_cancel env r c
     | CallFinishMetadata \<Rightarrow> co_finish_metadata env c
     | NetworkTask j \<Rightarrow> c\<lparr>co_job := j\<rparr>)"

definition co_run :: "('p, 'w) ota_env \<Rightarrow> co_call list \<Rightarrow> ('p, 'w) coordinator \<Rightarrow> ('p, 'w) coordinator" where
  "co_run env calls c = foldl (co_step env) c calls"

subsection \<open>What the framing does to its owner\<close>

lemma callback_context:
  assumes "\<And>fr d c. P c \<Longrightarrow> P (snd (sink fr d c))" "P (snd sc)"
  shows "P (snd (snd (callback sink ev sc)))"
proof (cases "\<exists>d. ev = EvBody d")
  case True
  then obtain d where d: "ev = EvBody d" by blast
  show ?thesis using assms(2) assms(1) [of "snd sc" "fst sc" d]
    by (cases sc) (auto simp: d callback_def parser_body_def Let_def split: prod.splits if_splits)
next
  case False
  obtain s c where sc: "sc = (s, c)" by (cases sc)
  obtain a s' c' where r: "callback sink ev (s, c) = (a, s', c')" by (metis prod.exhaust)
  with callback_counts [of ev sink s c a s' c'] False assms(2) show ?thesis by (simp add: sc)
qed

lemma run_parser_context:
  assumes "\<And>fr d c. P c \<Longrightarrow> P (snd (sink fr d c))"
  shows "P (snd sc) \<Longrightarrow> P (snd (snd (run_parser sink run sc)))"
proof (induction run arbitrary: sc)
  case (HpEnd parsed ok p)
  then show ?case by simp
next
  case (HpCall ev k)
  obtain a sc' where c: "callback sink ev sc = (a, sc')" by (cases "callback sink ev sc")
  with callback_context [of P sink sc ev, OF assms HpCall.prems] have "P (snd sc')" by simp
  with HpCall.IH [OF rangeI, of sc' a] show ?case by (simp add: c)
qed

lemma feed_piece_context:
  assumes "\<And>fr d c. P c \<Longrightarrow> P (snd (sink fr d c))" "P (snd sc)"
  shows "P (snd (snd (feed_piece api sink rest sc)))"
proof -
  obtain s c where sc: "sc = (s, c)" by (cases sc)
  obtain ok s1 where m: "(if fr_state s = FsBody then (True, s) else count_metadata s) = (ok, s1)" by fastforce
  let ?run = "hp_execute api (fr_parser s1) (take (piece_size s rest) rest)"
  obtain parsed good s2 c2 where r: "run_parser sink ?run (s1, c) = ((parsed, good), s2, c2)"
    by (metis prod.exhaust)
  have "P c2" using run_parser_context [of P sink "(s1, c)" ?run, OF assms(1)] assms(2) by (simp add: sc r)
  with assms(2) show ?thesis unfolding feed_piece_def sc by (cases ok) (simp_all add: m r Let_def)
qed

lemma feed_loop_context:
  assumes "\<And>fr d c. P c \<Longrightarrow> P (snd (sink fr d c))"
  shows "P (snd sc) \<Longrightarrow> P (snd (feed_loop api sink rest sc))"
  using assms
proof (induction api sink rest sc rule: feed_loop.induct)
  case (1 api sink rest sc)
  obtain b sc' where p: "feed_piece api sink rest sc = (b, sc')" by (cases "feed_piece api sink rest sc")
  with feed_piece_context [of P sink sc api rest, OF 1(3,2)] have "P (snd sc')" by simp
  with 1 p show ?case by (cases b) (simp_all add: feed_loop.simps [of api sink rest sc])
qed

lemma framing_feed_context:
  assumes "\<And>fr d c. P c \<Longrightarrow> P (snd (sink fr d c))" "P (snd sc)"
  shows "P (snd (snd (framing_feed api sink data sc)))"
  using feed_loop_context [of P sink sc api data, OF assms] assms(2) by (simp add: framing_feed_def Let_def)

lemma framing_eof_context:
  assumes "\<And>fr d c. P c \<Longrightarrow> P (snd (sink fr d c))" "P (snd sc)"
  shows "P (snd (snd (framing_eof api sink sc)))"
  using run_parser_context [of P sink sc "hp_execute api (fr_parser (fst sc)) []", OF assms] assms(2)
  by (auto simp: framing_eof_def Let_def split: prod.splits)

subsection \<open>What a writer promises and what the coordinator does with it\<close>

text \<open>
  The contract of an image writer. The predicates are what its state says of the image: nothing done yet; the
  prefix \<open>p\<close> admitted; an image begun for \<open>p\<close> that holds \<open>b\<close>; that image complete; that image selected.
\<close>

locale image_writer =
  fixes ef :: "'w effects"
    and fresh :: "'w \<Rightarrow> bool"
    and opened :: "bytes \<Rightarrow> 'w \<Rightarrow> bool"
    and filled :: "bytes \<Rightarrow> bytes \<Rightarrow> 'w \<Rightarrow> bool"
    and sealed :: "bytes \<Rightarrow> bytes \<Rightarrow> 'w \<Rightarrow> bool"
    and chosen :: "bytes \<Rightarrow> bytes \<Rightarrow> 'w \<Rightarrow> bool"
  assumes check_opens: "fresh w \<Longrightarrow> ef_check_prefix ef p w = (EffectOk, w') \<Longrightarrow> opened p w'"
    and begin_fills: "opened p w \<Longrightarrow> ef_begin ef w = (EffectOk, w') \<Longrightarrow> filled p [] w'"
    and write_fills: "filled p b w \<Longrightarrow> ef_write ef d w = (EffectOk, w') \<Longrightarrow> filled p (b @ d) w'"
    and finish_seals: "filled p b w \<Longrightarrow> ef_finish ef w = (EffectOk, w') \<Longrightarrow> sealed p b w'"
    and select_chooses: "sealed p b w \<Longrightarrow> ef_select_boot ef w = (EffectCommitted, w') \<Longrightarrow> chosen p b w'"
    and fresh_quiescent: "fresh w \<Longrightarrow> ef_quiescent ef w"
    and release_fresh: "fresh w \<Longrightarrow> fresh (snd (ef_release_lease ef w))"
begin

definition holds_image :: "('p, 'w) coordinator \<Rightarrow> bool" where
  "holds_image c \<longleftrightarrow> length (co_prefix c) = ef_prefix_bytes ef \<and>
     (\<exists>b. take (ef_prefix_bytes ef) b = co_prefix c \<and> filled (co_prefix c) b (co_writer c))"

definition image_chosen :: "('p, 'w) coordinator \<Rightarrow> bool" where
  "image_chosen c \<longleftrightarrow> length (co_prefix c) = ef_prefix_bytes ef \<and>
     (\<exists>b. take (ef_prefix_bytes ef) b = co_prefix c \<and> chosen (co_prefix c) b (co_writer c))"

definition image_inv :: "('p, 'w) coordinator \<Rightarrow> bool" where
  "image_inv c \<longleftrightarrow> (co_image c \<or> \<not> co_begun c \<and> fresh (co_writer c)) \<and>
     (co_outcome c \<in> {OcIdle, OcMetadataReady} \<longrightarrow> \<not> co_begun c) \<and>
     (co_outcome c \<in> {OcIdle, OcMetadataReady, OcWorking} \<and> \<not> co_begun c \<longrightarrow> fresh (co_writer c)) \<and>
     (co_outcome c = OcWorking \<and> co_begun c \<longrightarrow> holds_image c) \<and>
     (co_outcome c = OcCommitted \<longrightarrow> co_image c \<and> image_chosen c)"

text \<open>The states in which a body callback can find the coordinator.\<close>

definition body_ok :: "('p, 'w) coordinator \<Rightarrow> bool" where
  "body_ok c \<longleftrightarrow> image_inv c \<and> co_outcome c \<notin> {OcIdle, OcCommitted} \<and> (co_outcome c = OcMetadataReady \<longrightarrow> \<not> co_image c)"

definition core :: "('p, 'w) coordinator \<Rightarrow> outcome \<times> bool \<times> bool \<times> bytes \<times> 'w" where
  "core c = (co_outcome c, co_begun c, co_image c, co_prefix c, co_writer c)"

lemma core_inv: "core c' = core c \<Longrightarrow> image_inv c' \<longleftrightarrow> image_inv c"
  by (simp add: core_def image_inv_def holds_image_def image_chosen_def)

lemma core_body_ok: "core c' = core c \<Longrightarrow> body_ok c' \<longleftrightarrow> body_ok c"
  using core_inv [of c' c] by (simp add: core_def body_ok_def)

text \<open>With an image in work every failed state satisfies the invariant.\<close>

lemma failed_image_ok: "co_image c \<Longrightarrow> failure (co_outcome c) \<Longrightarrow> body_ok c"
  by (auto simp: body_ok_def image_inv_def failure_def)

lemma co_alive_core: "co_alive env c = (ok, c') \<Longrightarrow> core c' = core c"
  by (auto simp: co_alive_def core_def split: if_splits prod.splits)

lemma release_if_safe_image: "env_effects env = ef \<Longrightarrow> co_image c \<Longrightarrow> failure (co_outcome c) \<Longrightarrow>
    co_image (release_if_safe env c) \<and> failure (co_outcome (release_if_safe env c))"
  by (auto simp: release_if_safe_def failure_def Let_def split: prod.splits)

lemma release_if_safe_inv:
  assumes "env_effects env = ef" "image_inv c" "co_outcome c \<noteq> OcWorking"
  shows "image_inv (release_if_safe env c)"
  using assms release_fresh [of "co_writer c"]
  by (auto simp: release_if_safe_def image_inv_def Let_def split: prod.splits)

lemma release_if_safe_outcome:
  "co_outcome (release_if_safe env c) = co_outcome c \<or> co_outcome (release_if_safe env c) = OcWriterUncertain"
  by (auto simp: release_if_safe_def Let_def split: prod.splits)

lemma release_if_safe_image_kept: "co_image (release_if_safe env c) = co_image c"
  by (auto simp: release_if_safe_def Let_def split: prod.splits)

lemma co_fail_image:
  assumes "env_effects env = ef" "co_image c" "co_outcome c \<noteq> OcCommitted" "failure reason"
  shows "co_image (co_fail env reason c) \<and> failure (co_outcome (co_fail env reason c))"
proof (cases "co_outcome c = OcWriterUncertain")
  case True
  then show ?thesis using assms by (simp add: co_fail_def failure_def)
next
  case False
  define d where "d = (let d = (co_retire c)\<lparr>co_outcome := reason\<rparr> in
    if ef_quiescent ef (co_writer d) then d
    else case ef_abort ef (co_writer d) of (True, w) \<Rightarrow> d\<lparr>co_writer := w\<rparr>
      | (False, w) \<Rightarrow> d\<lparr>co_writer := w, co_outcome := OcWriterUncertain\<rparr>)"
  have "co_fail env reason c = release_if_safe env d"
    using False assms by (simp add: co_fail_def d_def Let_def)
  moreover have "co_image d" "failure (co_outcome d)"
    using assms by (auto simp: d_def co_retire_def failure_def Let_def split: prod.splits bool.splits)
  ultimately show ?thesis using release_if_safe_image [OF assms(1)] by simp
qed

lemma co_fail_plain:
  assumes "env_effects env = ef" "\<not> co_image c" "image_inv c" "failure reason"
  shows "\<not> co_image (co_fail env reason c) \<and> image_inv (co_fail env reason c) \<and>
    co_outcome (co_fail env reason c) \<notin> {OcIdle, OcWorking, OcCommitted}"
proof (cases "co_outcome c = OcCommitted \<or> co_outcome c = OcWriterUncertain")
  case True
  then show ?thesis using assms by (auto simp: co_fail_def image_inv_def)
next
  case False
  have f: "fresh (co_writer c)" "\<not> co_begun c" using assms by (auto simp: image_inv_def)
  then have q: "ef_quiescent ef (co_writer c)" by (rule_tac fresh_quiescent)
  let ?cond = "co_optional_metadata c \<and> \<not> co_image c \<and> \<not> is_retired (job_control (co_job c)) \<and>
    (reason = OcNetworkError \<or> reason = OcProtocolError)"
  obtain ok b where l: "budget_live (env_clock env (co_ticks c)) (co_budget c) = (ok, b)" by fastforce
  define d where "d = (if ?cond then c\<lparr>co_budget := b, co_ticks := co_ticks c + 1\<rparr> else c)"
  have d: "co_writer d = co_writer c" "co_begun d = co_begun c" "co_image d = co_image c"
    by (simp_all add: d_def)
  show ?thesis
  proof (cases "?cond \<and> ok")
    case True
    then have "co_fail env reason c = (co_close (d\<lparr>co_metadata_failed := True\<rparr>))\<lparr>co_outcome := OcMetadataReady\<rparr>"
      using False by (simp add: co_fail_def l d_def Let_def)
    then show ?thesis using f d assms(2) by (auto simp: co_close_def image_inv_def)
  next
    case no: False
    let ?e = "(co_retire d)\<lparr>co_outcome := reason\<rparr>"
    have "co_fail env reason c = release_if_safe env ?e"
      using False no q assms(1) d by (auto simp: co_fail_def l d_def Let_def co_retire_def)
    moreover have "image_inv ?e" "\<not> co_image ?e" "failure (co_outcome ?e)"
      using f d assms by (auto simp: co_retire_def image_inv_def failure_def)
    ultimately show ?thesis
      using release_if_safe_inv [OF assms(1), of ?e] release_if_safe_outcome [of env ?e]
        release_if_safe_image_kept [of env ?e] by (auto simp: failure_def)
  qed
qed

lemma co_fail_ok:
  assumes "env_effects env = ef" "failure reason" "body_ok c \<or> co_image c \<and> co_outcome c \<noteq> OcCommitted"
  shows "body_ok (co_fail env reason c) \<and> co_outcome (co_fail env reason c) \<noteq> OcWorking"
proof (cases "co_image c")
  case True
  with assms co_fail_image [OF assms(1) True _ assms(2)] failed_image_ok show ?thesis
    by (auto simp: body_ok_def failure_def)
next
  case False
  with assms co_fail_plain [OF assms(1) False _ assms(2)] show ?thesis by (auto simp: body_ok_def)
qed

lemma co_fail_inv:
  assumes "env_effects env = ef" "failure reason" "image_inv c"
  shows "image_inv (co_fail env reason c)"
proof (cases "co_outcome c = OcCommitted")
  case True
  with assms show ?thesis by (simp add: co_fail_def)
next
  case False
  show ?thesis
  proof (cases "co_image c")
    case True
    with co_fail_ok [OF assms(1,2)] False show ?thesis by (simp add: body_ok_def)
  next
    case no: False
    with co_fail_plain [OF assms(1) no assms(3,2)] show ?thesis by simp
  qed
qed

text \<open>An operation that either goes on with the same image or has failed it.\<close>

lemma failures [simp]: "failure OcDeadline" "failure OcProtocolError" "failure OcNetworkError" "failure OcNoMemory"
  "failure OcWriterError" "failure OcInvalidState" "failure (writer_outcome e)" "failure (network_outcome r)"
  by (auto simp: failure_def writer_outcome_def network_outcome_def split: net_result.splits)

lemma co_check_ok:
  assumes "env_effects env = ef" "co_check env c = (ok, c')" "body_ok c \<or> co_image c \<and> co_outcome c \<noteq> OcCommitted"
  shows "if ok then core c' = core c else body_ok c' \<and> co_outcome c' \<noteq> OcWorking"
proof -
  obtain a d where a: "co_alive env c = (a, d)" by (cases "co_alive env c")
  note e = co_alive_core [OF a]
  show ?thesis
  proof (cases a)
    case True
    with assms a e show ?thesis by (simp add: co_check_def)
  next
    case False
    have "body_ok d \<or> co_image d \<and> co_outcome d \<noteq> OcCommitted"
      using assms(3) core_body_ok [OF e] e by (auto simp: core_def)
    from co_fail_ok [OF assms(1) _ this, of OcDeadline] False assms(2) a show ?thesis by (auto simp: co_check_def)
  qed
qed

lemma body_ok_image: "body_ok c \<Longrightarrow> co_image c \<Longrightarrow> co_outcome c = OcWorking \<or> failure (co_outcome c)"
  by (auto simp: body_ok_def failure_def)

lemma body_ok_working:
  "co_image c \<Longrightarrow> co_outcome c = OcWorking \<Longrightarrow>
   body_ok c \<longleftrightarrow> (if co_begun c then holds_image c else fresh (co_writer c))"
  by (auto simp: body_ok_def image_inv_def)

lemma holds_more:
  assumes "holds_image c" "ef_write ef d (co_writer c) = (EffectOk, w)"
  shows "holds_image (c\<lparr>co_writer := w\<rparr>)"
proof -
  obtain b where b: "length (co_prefix c) = ef_prefix_bytes ef" "take (ef_prefix_bytes ef) b = co_prefix c"
    "filled (co_prefix c) b (co_writer c)" using assms(1) by (auto simp: holds_image_def)
  have "ef_prefix_bytes ef \<le> length b" using b(1) arg_cong [OF b(2), of length] by simp
  then have "take (ef_prefix_bytes ef) (b @ d) = co_prefix c" using b(2) by simp
  with b write_fills [OF b(3) assms(2)] show ?thesis
    by (auto simp: holds_image_def intro: exI [of _ "b @ d"])
qed

definition triple :: "(('p, 'w) coordinator \<Rightarrow> bool) \<Rightarrow>
    (('p, 'w) coordinator \<Rightarrow> bool \<times> ('p, 'w) coordinator) \<Rightarrow> (('p, 'w) coordinator \<Rightarrow> bool) \<Rightarrow> bool" where
  "triple P f Q \<longleftrightarrow> (\<forall>c. P c \<longrightarrow> (if fst (f c) then Q (snd (f c))
     else body_ok (snd (f c)) \<and> co_outcome (snd (f c)) \<noteq> OcWorking))"

lemma triple_seq: "triple P f Q \<Longrightarrow> triple Q g R \<Longrightarrow> triple P (\<lambda>c. and_then (f c) g) R"
  by (simp add: triple_def and_then_def)

lemma triple_weaken: "triple P f Q \<Longrightarrow> (\<And>c. P' c \<Longrightarrow> P c) \<Longrightarrow> (\<And>c. Q c \<Longrightarrow> Q' c) \<Longrightarrow> triple P' f Q'"
  by (simp add: triple_def)

text \<open>The stages of an image: prefix complete, admitted, begun, in work.\<close>

definition stage :: "nat \<Rightarrow> ('p, 'w) coordinator \<Rightarrow> bool" where
  "stage k c \<longleftrightarrow> co_image c \<and> length (co_prefix c) = ef_prefix_bytes ef \<and> (co_begun c \<longleftrightarrow> 2 \<le> k) \<and>
     (failure (co_outcome c) \<or> co_outcome c = OcWorking \<and>
       (if k = 0 then fresh (co_writer c) else if k = 1 then opened (co_prefix c) (co_writer c)
        else filled (co_prefix c) [] (co_writer c)))"

definition in_work :: "('p, 'w) coordinator \<Rightarrow> bool" where
  "in_work c \<longleftrightarrow> body_ok c \<and> co_image c \<and> co_begun c"

lemma core_stage: "core c' = core c \<Longrightarrow> stage k c' \<longleftrightarrow> stage k c"
  by (simp add: core_def stage_def)

lemma core_in_work: "core c' = core c \<Longrightarrow> in_work c' \<longleftrightarrow> in_work c"
  using core_body_ok [of c' c] by (simp add: core_def in_work_def)

lemma triple_check:
  assumes "env_effects env = ef" "\<And>c c'. core c' = core c \<Longrightarrow> P c \<Longrightarrow> P c'"
    "\<And>c. P c \<Longrightarrow> body_ok c \<or> co_image c \<and> co_outcome c \<noteq> OcCommitted"
  shows "triple P (co_check env) P"
  unfolding triple_def
proof (intro allI impI)
  fix c assume "P c"
  with co_check_ok [OF assms(1), of c "fst (co_check env c)" "snd (co_check env c)"] assms(2,3)
  show "if fst (co_check env c) then P (snd (co_check env c))
     else body_ok (snd (co_check env c)) \<and> co_outcome (snd (co_check env c)) \<noteq> OcWorking"
    by (auto split: if_splits)
qed

lemma stage_not_committed: "stage k c \<Longrightarrow> co_image c \<and> co_outcome c \<noteq> OcCommitted"
  by (auto simp: stage_def failure_def)

lemma check_stage: "env_effects env = ef \<Longrightarrow> triple (stage k) (co_check env) (stage k)"
  by (erule triple_check) (blast dest: core_stage stage_not_committed)+

lemma check_in_work: "env_effects env = ef \<Longrightarrow> triple in_work (co_check env) in_work"
  by (erule triple_check) (blast dest: core_in_work, simp add: in_work_def)

text \<open>A call on the writer: what an \<open>Ok\<close> leads to, and the failure of any other answer.\<close>

lemma writer_call:
  assumes "env_effects env = ef" "failure reason" "co_image c" "co_outcome c \<noteq> OcCommitted"
  shows "body_ok (co_fail env reason (c\<lparr>co_writer := w\<rparr>)) \<and> co_outcome (co_fail env reason (c\<lparr>co_writer := w\<rparr>)) \<noteq> OcWorking"
  using co_fail_ok [OF assms(1,2), of "c\<lparr>co_writer := w\<rparr>"] assms(3,4) by simp

lemma admit_stage:
  fixes env :: "('p, 'w) ota_env"
  assumes env: "env_effects env = ef"
  shows "triple (stage 0) (co_admit env) (stage 1)"
  unfolding triple_def
proof (intro allI impI)
  fix c :: "('p, 'w) coordinator" assume c: "stage 0 c"
  note nc = stage_not_committed [OF c]
  note fails = writer_call [OF env _ conjunct1 [OF nc] conjunct2 [OF nc]]
  obtain e w where w: "ef_check_prefix ef (co_prefix c) (co_writer c) = (e, w)" by fastforce
  show "if fst (co_admit env c) then stage 1 (snd (co_admit env c))
     else body_ok (snd (co_admit env c)) \<and> co_outcome (snd (co_admit env c)) \<noteq> OcWorking"
    using c w fails
      check_opens [of "co_writer c" "co_prefix c" w]
    by (auto simp: co_admit_def env stage_def Let_def)
qed

lemma begin_stage:
  fixes env :: "('p, 'w) ota_env"
  assumes env: "env_effects env = ef"
  shows "triple (stage 1) (co_begin env) (stage 2)"
  unfolding triple_def
proof (intro allI impI)
  fix c :: "('p, 'w) coordinator" assume c: "stage 1 c"
  note nc = stage_not_committed [OF c]
  note fails = writer_call [OF env _ conjunct1 [OF nc] conjunct2 [OF nc]]
  obtain e w where w: "ef_begin ef (co_writer c) = (e, w)" by fastforce
  show "if fst (co_begin env c) then stage 2 (snd (co_begin env c))
     else body_ok (snd (co_begin env c)) \<and> co_outcome (snd (co_begin env c)) \<noteq> OcWorking"
    using c w fails
      begin_fills [of "co_prefix c" "co_writer c" w]
    by (auto simp: co_begin_def env stage_def Let_def)
qed

lemma first_write:
  fixes env :: "('p, 'w) ota_env"
  assumes env: "env_effects env = ef"
  shows "triple (stage 2) (\<lambda>c. co_write env (co_prefix c) c) in_work"
  unfolding triple_def
proof (intro allI impI)
  fix c :: "('p, 'w) coordinator" assume c: "stage 2 c"
  note nc = stage_not_committed [OF c]
  note fails = writer_call [OF env _ conjunct1 [OF nc] conjunct2 [OF nc]]
  let ?f = "co_write env (co_prefix c) c"
  obtain e w where w: "ef_write ef (co_prefix c) (co_writer c) = (e, w)" by fastforce
  have "in_work (c\<lparr>co_writer := w\<rparr>)" if "e = EffectOk"
  proof (cases "co_outcome c = OcWorking")
    case True
    then have "filled (co_prefix c) (co_prefix c) w"
      using c w that write_fills [of "co_prefix c" "[]" "co_writer c" "co_prefix c" w] by (simp add: stage_def failure_def)
    with True c show ?thesis
      by (auto simp: in_work_def body_ok_working holds_image_def stage_def intro: exI [of _ "co_prefix c"])
  next
    case False
    with c show ?thesis by (auto simp: in_work_def stage_def intro: failed_image_ok)
  qed
  then show "if fst ?f then in_work (snd ?f) else body_ok (snd ?f) \<and> co_outcome (snd ?f) \<noteq> OcWorking"
    using w fails
    by (auto simp: co_write_def env Let_def)
qed

lemma begin_image_stages: "env_effects env = ef \<Longrightarrow> triple (stage 0) (co_begin_image env) in_work"
  unfolding co_begin_image_def
  by (intro triple_seq [where Q = "stage 0"] triple_seq [where Q = "stage 1"] triple_seq [where Q = "stage 2"]
      triple_seq [where Q = in_work] check_stage admit_stage begin_stage first_write check_in_work)

lemma write_in_work:
  fixes env :: "('p, 'w) ota_env"
  assumes env: "env_effects env = ef"
  shows "triple in_work (co_write env d) in_work"
  unfolding triple_def
proof (intro allI impI)
  fix c :: "('p, 'w) coordinator" assume c: "in_work c"
  obtain e w where w: "ef_write ef d (co_writer c) = (e, w)" by fastforce
  have image: "co_outcome c = OcWorking \<or> failure (co_outcome c)" "co_image c"
    using c body_ok_image by (auto simp: in_work_def)
  then have "co_outcome c \<noteq> OcCommitted" by (auto simp: failure_def)
  note fails = writer_call [OF env _ image(2) this]
  have "in_work (c\<lparr>co_writer := w\<rparr>)" if "e = EffectOk"
  proof (cases "co_outcome c = OcWorking")
    case True
    then have "holds_image c" using c body_ok_working [of c] by (simp add: in_work_def)
    from holds_more [OF this, of d w] c w that True show ?thesis by (simp add: in_work_def body_ok_working)
  next
    case False
    with c image show ?thesis by (auto simp: in_work_def intro: failed_image_ok)
  qed
  then show "if fst (co_write env d c) then in_work (snd (co_write env d c))
     else body_ok (snd (co_write env d c)) \<and> co_outcome (snd (co_write env d c)) \<noteq> OcWorking"
    using w fails by (auto simp: co_write_def env Let_def)
qed

lemma data_in_work:
  assumes "env_effects env = ef" "\<And>c. P c \<Longrightarrow> if co_begun c then in_work c else stage 0 c"
  shows "triple P (co_image_data env rest) in_work"
  unfolding co_image_data_def
proof (intro triple_seq [where Q = in_work] check_in_work assms)
  show "triple P (\<lambda>c. if co_begun c then (True, c) else co_begin_image env c) in_work"
    using begin_image_stages [OF assms(1)] assms(2) by (auto simp: triple_def)
  show "triple in_work (\<lambda>c. if rest \<noteq> [] then co_write env rest c else (True, c)) in_work"
    using write_in_work [OF assms(1), of rest] by (auto simp: triple_def)
qed

lemma co_tighten_ok:
  fixes env :: "('p, 'w) ota_env"
  assumes env: "env_effects env = ef"
  shows "triple body_ok (co_tighten env n) body_ok"
  unfolding triple_def
proof (intro allI impI)
  fix c :: "('p, 'w) coordinator" assume c: "body_ok c"
  obtain ok b where b: "budget_tighten (of_nat n + env_overhead env) (co_budget c) = (ok, b)" by fastforce
  let ?c = "c\<lparr>co_tightened := True, co_budget := b\<rparr>"
  have "core ?c = core c" by (simp add: core_def)
  then have "body_ok ?c" using core_body_ok c by blast
  with co_fail_ok [OF env, of OcProtocolError ?c]
  show "if fst (co_tighten env n c) then body_ok (snd (co_tighten env n c))
     else body_ok (snd (co_tighten env n c)) \<and> co_outcome (snd (co_tighten env n c)) \<noteq> OcWorking"
    by (simp add: co_tighten_def b Let_def)
qed

lemma check_body_ok: "env_effects env = ef \<Longrightarrow> triple body_ok (co_check env) body_ok"
  by (erule triple_check) (blast dest: core_body_ok)+

text \<open>A body callback keeps the states it can find.\<close>

lemma co_body_ok:
  fixes env :: "('p, 'w) ota_env"
  assumes env: "env_effects env = ef" and c: "body_ok c"
  shows "body_ok (snd (co_body env fr data c))"
proof -
  let ?tighten = "\<lambda>c. case fr of
        Some f \<Rightarrow> if co_image c \<and> fr_has_length f \<and> \<not> co_tightened c then co_tighten env (fr_length f) c else (True, c)
      | None \<Rightarrow> (True, c)"
  have t1: "triple body_ok ?tighten body_ok"
    using co_tighten_ok [OF env] by (cases fr) (auto simp: triple_def)
  define rest where "rest = (\<lambda>c. if \<not> co_image c then (case env_sink env data (co_metadata c) of (ok, out) \<Rightarrow> (ok, c\<lparr>co_metadata := out\<rparr>))
       else if co_begun c then co_image_data env data c
       else let missing = ef_prefix_bytes (env_effects env) - length (co_prefix c);
                c = c\<lparr>co_prefix := co_prefix c @ take missing data\<rparr> in
         if length (co_prefix c) \<noteq> ef_prefix_bytes (env_effects env) then (True, c)
         else co_image_data env (drop missing data) c)"
  have r: "body_ok (snd (rest d))" if d: "body_ok d" for d
  proof -
    have goes: "body_ok (snd (co_image_data env x e))" if "if co_begun e then in_work e else stage 0 e" for x e
      using data_in_work [OF env, of "\<lambda>c. c = e" x] that
      by (auto simp: triple_def in_work_def split: if_splits)
    consider (plain) "\<not> co_image d" | (begun) "co_image d" "co_begun d" | (prefix) "co_image d" "\<not> co_begun d" by blast
    then show ?thesis
    proof cases
      case plain
      obtain ok out where "env_sink env data (co_metadata d) = (ok, out)" by fastforce
      moreover have "body_ok (d\<lparr>co_metadata := out\<rparr>)"
        using core_body_ok [of "d\<lparr>co_metadata := out\<rparr>" d] d by (simp add: core_def)
      ultimately show ?thesis using plain by (simp add: rest_def)
    next
      case begun
      with d goes [of d data] show ?thesis by (simp add: rest_def in_work_def)
    next
      case prefix
      let ?m = "ef_prefix_bytes ef - length (co_prefix d)"
      let ?d = "d\<lparr>co_prefix := co_prefix d @ take ?m data\<rparr>"
      note image = body_ok_image [OF d prefix(1)]
      have "body_ok ?d"
        using image prefix d by (auto simp: body_ok_working intro: failed_image_ok)
      moreover have "stage 0 ?d" if "length (co_prefix ?d) = ef_prefix_bytes ef"
        using that image prefix d body_ok_working [of d] by (auto simp: stage_def)
      ultimately show ?thesis
        using goes [of ?d "drop ?m data"] prefix by (simp add: rest_def env Let_def)
    qed
  qed
  have "triple body_ok (\<lambda>c. and_then (?tighten c) (co_check env)) body_ok"
    by (rule triple_seq [OF t1 check_body_ok [OF env]])
  then have "body_ok (snd (and_then (?tighten c) (co_check env)))"
    using c by (auto simp: triple_def split: if_splits)
  then have "body_ok (snd (and_then (and_then (?tighten c) (co_check env)) rest))"
    using r by (simp add: and_then_def)
  moreover have "co_body env fr data c = and_then (and_then (?tighten c) (co_check env)) rest"
    by (simp add: co_body_def rest_def and_then_def)
  ultimately show ?thesis by (simp only:)
qed

lemma co_consume_ok:
  fixes env :: "('p, 'w) ota_env"
  assumes env: "env_effects env = ef" and c: "body_ok c"
  shows "body_ok (snd (co_consume env f c))"
proof -
  obtain a d where a: "co_alive env c = (a, d)" by (cases "co_alive env c")
  have d: "body_ok d" using core_body_ok [OF co_alive_core [OF a]] c by blast
  have fr: "body_ok (e\<lparr>co_framing := fr\<rparr>)" if "body_ok e" for e :: "('p, 'w) coordinator" and fr
    using that core_body_ok [of "e\<lparr>co_framing := fr\<rparr>" e] by (simp add: core_def)
  note sink = co_body_ok [OF env]
  note fails = co_fail_ok [OF env]
  show ?thesis
    using d fails [of OcDeadline d] fails [of "network_outcome (job_result (co_job d))" d]
      framing_feed_context [of body_ok "\<lambda>f data c. co_body env (Some f) data c" "(f, d)" "env_http env"
        "take (job_bytes (co_job d)) (job_block (co_job d))", OF sink]
      framing_eof_context [of body_ok "\<lambda>f data c. co_body env (Some f) data c" "(f, d)" "env_http env", OF sink]
    by (auto simp: co_consume_def a Let_def fr split: prod.splits bool.splits)
qed

lemma co_finish_image_inv:
  fixes env :: "('p, 'w) ota_env"
  assumes env: "env_effects env = ef" and c: "image_inv c" "co_image c" "co_outcome c = OcWorking"
  shows "image_inv (co_finish_image env c)"
proof (cases "co_begun c")
  case False
  with co_fail_inv [OF env _ c(1)] show ?thesis by (simp add: co_finish_image_def)
next
  case True
  note fails = co_fail_ok [OF env]
  have failed: "image_inv (co_fail env r e)" if "failure r" "co_image e" "co_outcome e = OcWorking"
    for r and e :: "('p, 'w) coordinator"
    using fails [OF that(1), of e] that by (simp add: body_ok_def)
  obtain a1 d1 where a1: "co_alive env c = (a1, d1)" by (cases "co_alive env c")
  have h1: "holds_image d1" "co_image d1" "co_outcome d1 = OcWorking"
    using co_alive_core [OF a1] c True by (auto simp: core_def image_inv_def holds_image_def)
  obtain e w where e: "ef_finish ef (co_writer d1) = (e, w)" by fastforce
  let ?d1 = "d1\<lparr>co_writer := w\<rparr>"
  obtain a2 d2 where a2: "co_alive env ?d1 = (a2, d2)" by (cases "co_alive env ?d1")
  have d2: "co_image d2" "co_outcome d2 = OcWorking" "co_writer d2 = w" "co_prefix d2 = co_prefix d1"
    using co_alive_core [OF a2] h1 by (auto simp: core_def)
  obtain e2 w2 where e2: "ef_select_boot ef w = (e2, w2)" by fastforce
  have "image_chosen (co_retire (d2\<lparr>co_writer := w2\<rparr>))" if "e = EffectOk" "e2 = EffectCommitted"
    using h1(1) e e2 d2 that finish_seals select_chooses
    by (fastforce simp: holds_image_def image_chosen_def co_retire_def)
  then show ?thesis
    using True h1 d2 failed
    by (auto simp: co_finish_image_def a1 env e a2 e2 Let_def image_inv_def image_chosen_def co_retire_def
        split: bool.splits)
qed

lemma co_settle_inv:
  fixes env :: "('p, 'w) ota_env"
  assumes env: "env_effects env = ef" and c: "body_ok c"
  shows "image_inv (co_settle env parsed c)"
proof -
  define c1 where "c1 = (if co_image c \<and> fr_status (the (co_framing c)) = 200 \<and> fr_has_length (the (co_framing c)) \<and>
      \<not> co_tightened c then snd (co_tighten env (fr_length (the (co_framing c))) c) else c)"
  have "body_ok c1"
    using co_tighten_ok [OF env, of "fr_length (the (co_framing c))"] c by (auto simp: c1_def triple_def split: if_splits)
  then have ok: "body_ok (snd (co_check env c1))"
    using check_body_ok [OF env] by (auto simp: triple_def split: if_splits)
  define d where "d = snd (co_check env c1)"
  have d: "image_inv d" "co_outcome d \<notin> {OcIdle, OcCommitted}" using ok by (simp_all add: d_def body_ok_def)
  have same: "image_inv e" if "core e = core d" for e using core_inv [OF that] d(1) by simp
  have follow: "image_inv (co_follow env f d)" if "co_outcome d = OcWorking" for f
  proof -
    have "image_inv (co_close (d\<lparr>co_redirect := url, co_redirects := n, co_redirect_wait := True\<rparr>))" for url n
      by (rule same) (simp add: co_close_def core_def)
    then show ?thesis using co_fail_inv [OF env, of OcProtocolError d] d(1)
      by (auto simp: co_follow_def split: option.splits)
  qed
  have close: "image_inv (co_close d)" "co_image (co_close d) = co_image d" "co_outcome (co_close d) = co_outcome d"
    using same [of "co_close d"] by (simp_all add: co_close_def core_def)
  have complete: "image_inv (if co_image (co_close d) then co_finish_image env (co_close d)
      else (co_close d)\<lparr>co_outcome := OcMetadataReady\<rparr>)" if w: "co_outcome d = OcWorking"
  proof (cases "co_image d")
    case True
    with co_finish_image_inv [OF env, of "co_close d"] close w show ?thesis by simp
  next
    case False
    with close(1) show ?thesis by (auto simp: image_inv_def co_close_def)
  qed
  have "co_settle env parsed c = (if co_outcome d \<noteq> OcWorking then d
      else if parsed = ParseRedirect then co_follow env (the (co_framing c)) d
      else if parsed = ParseComplete then (if co_image (co_close d) then co_finish_image env (co_close d)
        else (co_close d)\<lparr>co_outcome := OcMetadataReady\<rparr>)
      else if parsed = ParseRejected \<or> parsed = ParseSinkFailed then co_fail env OcProtocolError d else d)"
    by (simp add: co_settle_def c1_def d_def Let_def)
  then show ?thesis using d(1) follow complete co_fail_inv [OF env _ d(1), of OcProtocolError] by simp
qed

lemma co_return_block_inv:
  fixes env :: "('p, 'w) ota_env"
  assumes env: "env_effects env = ef" and c: "image_inv c"
  shows "image_inv (co_return_block env c)"
proof -
  obtain ok j where j: "job_release (co_job c) = (ok, j)" by fastforce
  define d where "d = (if ok then c\<lparr>co_job := j, co_borrowed := False\<rparr>
    else (co_retire (c\<lparr>co_job := j, co_outcome := OcWriterUncertain\<rparr>))\<lparr>co_borrowed := False\<rparr>)"
  have "image_inv d" using c
    by (auto simp: d_def image_inv_def co_retire_def holds_image_def image_chosen_def)
  moreover have "co_return_block env c =
      (if co_outcome d \<noteq> OcWorking \<and> co_outcome d \<noteq> OcMetadataReady then release_if_safe env d else d)"
    by (simp add: co_return_block_def j d_def)
  ultimately show ?thesis using release_if_safe_inv [OF env] by simp
qed

lemma co_check_inv:
  fixes env :: "('p, 'w) ota_env"
  assumes env: "env_effects env = ef" and c: "image_inv c" and r: "co_check env c = (ok, c')"
  shows "image_inv c' \<and> (ok \<longrightarrow> core c' = core c)"
proof -
  obtain a d where a: "co_alive env c = (a, d)" by (cases "co_alive env c")
  have "image_inv d" using core_inv [OF co_alive_core [OF a]] c by simp
  with co_alive_core [OF a] co_fail_inv [OF env, of OcDeadline d] a r show ?thesis
    by (auto simp: co_check_def split: bool.splits)
qed

lemma co_resume_inv:
  fixes env :: "('p, 'w) ota_env"
  assumes env: "env_effects env = ef" and c: "image_inv c" and r: "co_resume env c = (ok, c')"
  shows "image_inv c' \<and> (ok \<longrightarrow> core c' = core c)"
proof -
  obtain b j where j: "job_request (Some (co_redirect c)) (co_job c) = (b, j)" by fastforce
  have "image_inv (c\<lparr>co_job := j\<rparr>)" using core_inv [of "c\<lparr>co_job := j\<rparr>" c] c by (simp add: core_def)
  then have f: "image_inv (co_fail env OcInvalidState (c\<lparr>co_job := j\<rparr>))" by (rule_tac co_fail_inv [OF env]) simp_all
  have "image_inv (c\<lparr>co_job := j, co_framing := fr, co_redirect_wait := False\<rparr>)" for fr
    using core_inv [of "c\<lparr>co_job := j, co_framing := fr, co_redirect_wait := False\<rparr>" c] c by (simp add: core_def)
  with f c r show ?thesis by (auto simp: co_resume_def j core_def split: if_splits bool.splits)
qed

lemma co_poll_inv:
  fixes env :: "('p, 'w) ota_env"
  assumes env: "env_effects env = ef" and c: "image_inv c"
  shows "image_inv (co_poll env c)"
proof -
  obtain a c1 where a: "co_check env c = (a, c1)" by (cases "co_check env c")
  note i1 = co_check_inv [OF env c a]
  have "image_inv (c1\<lparr>co_optional_metadata := False\<rparr>)"
    using core_inv [of "c1\<lparr>co_optional_metadata := False\<rparr>" c1] i1 by (simp add: core_def)
  note cleanup = co_fail_inv [OF env, of OcNetworkError, OF _ this, simplified]
  obtain b c2 where b: "co_resume env c1 = (b, c2)" by (cases "co_resume env c1")
  note i2 = co_resume_inv [OF env conjunct1 [OF i1] b]
  obtain h j where j: "job_borrow (co_job c2) = (h, j)" by fastforce
  have i3: "image_inv (c2\<lparr>co_job := j\<rparr>)" using core_inv [of "c2\<lparr>co_job := j\<rparr>" c2] i2 by (simp add: core_def)
  let ?d = "c2\<lparr>co_job := j, co_borrowed := True\<rparr>"
  obtain parsed c3 where c3: "co_consume env (the (co_framing c2)) ?d = (parsed, c3)" by fastforce
  have last: "image_inv (co_return_block env (if co_outcome c3 = OcWorking then co_settle env parsed c3 else c3))"
    if "b" "co_outcome c1 = OcWorking"
  proof -
    have "image_inv ?d" using core_inv [of ?d c2] i2 by (simp add: core_def)
    moreover have "co_outcome ?d = OcWorking" using i2 that by (simp add: core_def)
    ultimately have "body_ok ?d" by (simp add: body_ok_def)
    with co_consume_ok [OF env this, of "the (co_framing c2)"] c3 have ok: "body_ok c3" by simp
    then have "image_inv (if co_outcome c3 = OcWorking then co_settle env parsed c3 else c3)"
      using co_settle_inv [OF env ok] by (simp add: body_ok_def)
    then show ?thesis by (rule co_return_block_inv [OF env])
  qed
  show ?thesis
    using c i1 i2 i3 cleanup last
    by (simp add: co_poll_def a b j c3 split: bool.splits)
qed

lemma fresh_inv: "fresh (co_writer c) \<Longrightarrow> \<not> co_begun c \<Longrightarrow> co_outcome c \<noteq> OcCommitted \<Longrightarrow> image_inv c"
  by (simp add: image_inv_def)

lemma idle_fresh: "image_inv c \<Longrightarrow> co_outcome c \<in> {OcIdle, OcMetadataReady} \<Longrightarrow> fresh (co_writer c) \<and> \<not> co_begun c"
  by (auto simp: image_inv_def)

lemma co_start_inv:
  fixes env :: "('p, 'w) ota_env"
  assumes c: "image_inv c"
  shows "image_inv (snd (co_start env url limits is_image optional c))"
proof (cases "co_outcome c \<in> {OcIdle, OcMetadataReady}")
  case False
  then show ?thesis using c by (auto simp: co_start_def)
next
  case True
  note f = idle_fresh [OF c True]
  obtain a d where a: "co_alive env c = (a, d)" by (cases "co_alive env c")
  have d: "fresh (co_writer d)" "co_outcome d = co_outcome c" "image_inv d"
    using co_alive_core [OF a] f c core_inv [OF co_alive_core [OF a]] by (auto simp: core_def)
  show ?thesis
    using True c d by (auto simp: co_start_def a Let_def split: prod.splits bool.splits intro!: fresh_inv)
qed

lemma co_start_upload_inv:
  fixes env :: "('p, 'w) ota_env"
  assumes c: "image_inv c"
  shows "image_inv (snd (co_start_upload env n c))"
proof (cases "co_outcome c = OcIdle")
  case False
  then show ?thesis using c by (simp add: co_start_upload_def)
next
  case True
  have f: "fresh (co_writer c) \<and> \<not> co_begun c" using idle_fresh [OF c] True by simp
  obtain a d where a: "co_alive env c = (a, d)" by (cases "co_alive env c")
  have d: "fresh (co_writer d)" "\<not> co_begun d" "co_outcome d = co_outcome c"
    using co_alive_core [OF a] f by (auto simp: core_def)
  show ?thesis
    using True c d by (auto simp: co_start_upload_def a Let_def split: prod.splits bool.splits intro!: fresh_inv)
qed

lemma co_upload_inv:
  fixes env :: "('p, 'w) ota_env"
  assumes env: "env_effects env = ef" and c: "image_inv c"
  shows "image_inv (snd (co_upload env data c))"
proof (cases "co_outcome c = OcWorking")
  case False
  then show ?thesis using c by (simp add: co_upload_def)
next
  case True
  then have "body_ok c" using c by (simp add: body_ok_def)
  obtain ok d where d: "co_body env (co_framing c) data c = (ok, d)" by fastforce
  from co_body_ok [OF env \<open>body_ok c\<close>, of "co_framing c" data] d have "image_inv d" by (simp add: body_ok_def)
  moreover from this have "image_inv (d\<lparr>co_upload_received := n\<rparr>)" for n
    using core_inv [of "d\<lparr>co_upload_received := n\<rparr>" d] by (simp add: core_def)
  ultimately show ?thesis using True c co_fail_inv [OF env _ c, of OcProtocolError]
    by (auto simp: co_upload_def d split: bool.splits)
qed

lemma co_finish_upload_inv:
  fixes env :: "('p, 'w) ota_env"
  assumes env: "env_effects env = ef" and c: "image_inv c"
  shows "image_inv (co_finish_upload env c)"
proof -
  have "image_inv (co_finish_image env c)" if "co_outcome c = OcWorking"
  proof (cases "co_image c")
    case True
    with co_finish_image_inv [OF env c True that] show ?thesis by simp
  next
    case False
    then have "\<not> co_begun c" using c by (auto simp: image_inv_def)
    with co_fail_inv [OF env _ c] show ?thesis by (simp add: co_finish_image_def)
  qed
  with co_fail_inv [OF env _ c] c show ?thesis by (auto simp: co_finish_upload_def)
qed

lemma co_finish_metadata_inv:
  fixes env :: "('p, 'w) ota_env"
  assumes env: "env_effects env = ef" and c: "image_inv c"
  shows "image_inv (co_finish_metadata env c)"
proof -
  obtain a d where a: "co_alive env c = (a, d)" by (cases "co_alive env c")
  have d: "image_inv d" "co_outcome d = co_outcome c"
    using co_alive_core [OF a] core_inv [OF co_alive_core [OF a]] c by (simp_all add: core_def)
  then have "image_inv (co_retire d)" using core_inv [of "co_retire d" d] by (simp add: core_def co_retire_def)
  from release_if_safe_inv [OF env this] d co_fail_inv [OF env _ d(1), of OcDeadline] co_fail_inv [OF env _ c, of OcDeadline]
  show ?thesis by (auto simp: co_finish_metadata_def a co_retire_def split: bool.splits)
qed

lemma co_step_inv:
  fixes env :: "('p, 'w) ota_env"
  assumes env: "env_effects env = ef" and call: "co_call_ok call" and c: "image_inv c"
  shows "image_inv (co_step env c call)"
proof (cases call)
  case (CallCancel r)
  then show ?thesis using co_fail_inv [OF env _ c] call by (simp add: co_step_def co_cancel_def co_call_ok_def)
next
  case (NetworkTask j)
  then show ?thesis using core_inv [of "c\<lparr>co_job := j\<rparr>" c] c by (simp add: co_step_def core_def)
qed (simp_all add: co_step_def co_start_inv [OF c] co_poll_inv [OF env c] co_start_upload_inv [OF c]
  co_upload_inv [OF env c] co_finish_upload_inv [OF env c] co_finish_metadata_inv [OF env c])

lemma co_run_inv:
  fixes env :: "('p, 'w) ota_env"
  assumes env: "env_effects env = ef" and calls: "list_all co_call_ok calls" and c: "image_inv c"
  shows "image_inv (co_run env calls c)"
  using c calls unfolding co_run_def
  by (induction calls arbitrary: c) (auto intro: co_step_inv [OF env])

end

end
