(* ===== verification/OtaWriter.thy ===== *)
theory OtaWriter
  imports OtaCoordinator OtaContract
begin

text \<open>
  The raw image writer (\<open>ota_writer.cpp\<close>), the only user of the effects table of the coordinator: it
  admits the head of an image, opens the inactive partition, writes and hashes the blocks, closes the
  image and selects it. The update functions of ESP-IDF and the hash of PSA are a record of calls over an
  unspecified device state; the layout of the image structures and their magic numbers belong to it.
\<close>

subsection \<open>The calls the writer makes\<close>

datatype esp_result = EspOk | EspNoMem | EspValidateFailed | EspNotFound | EspOther
datatype psa_result = PsaOk | PsaNoMem | PsaOther

record ota_partition =
  part_label :: nat
  part_is_app :: bool
  part_address :: u32
  part_size :: u32

record 's esp_sdk =
  sdk_header_bytes :: nat
  sdk_segment_bytes :: nat
  sdk_descriptor_bytes :: nat
  sdk_header_magic :: "bytes \<Rightarrow> u8"
  sdk_image_magic :: u8
  sdk_magic_at :: nat
  sdk_app_magic :: bytes
  sdk_version_at :: nat
  sdk_version_bytes :: nat
  sdk_project_at :: nat
  sdk_spi_check :: bool
  sdk_image_valid :: "bytes \<Rightarrow> bytes option \<Rightarrow> bool"
  sdk_next_partition :: "'s \<Rightarrow> ota_partition option"
  sdk_running_partition :: "'s \<Rightarrow> ota_partition option"
  sdk_crypto_init :: "'s \<Rightarrow> psa_result \<times> 's"
  sdk_hash_setup :: "'s \<Rightarrow> psa_result \<times> 's"
  sdk_hash_update :: "bytes \<Rightarrow> 's \<Rightarrow> psa_result \<times> 's"
  sdk_hash_finish :: "'s \<Rightarrow> psa_result \<times> bytes \<times> 's"
  sdk_hash_abort :: "'s \<Rightarrow> psa_result \<times> 's"
  sdk_ota_begin :: "ota_partition \<Rightarrow> 's \<Rightarrow> esp_result \<times> u32 \<times> 's"
  sdk_ota_write :: "u32 \<Rightarrow> bytes \<Rightarrow> 's \<Rightarrow> esp_result \<times> 's"
  sdk_ota_end :: "u32 \<Rightarrow> 's \<Rightarrow> esp_result \<times> 's"
  sdk_ota_abort :: "u32 \<Rightarrow> 's \<Rightarrow> esp_result \<times> 's"
  sdk_set_boot :: "ota_partition \<Rightarrow> 's \<Rightarrow> esp_result \<times> 's"
  sdk_release_lease :: "'s \<Rightarrow> bool \<times> 's"

subsection \<open>The writer\<close>

record image_policy =
  pol_expected :: string
  pol_current :: string
  pol_target_pr :: u32
  pol_channel :: ota_channel
  pol_direct_upload :: bool
  pol_expected_sha256 :: bytes
  pol_expected_bytes :: u32

record 's raw_writer =
  rw_policy :: image_policy
  rw_partition :: "ota_partition option"
  rw_handle :: u32
  rw_uncertain :: bool
  rw_validated :: bool
  rw_received :: u32
  rw_hash_live :: bool
  rw_device :: 's

definition new_raw_writer :: "image_policy \<Rightarrow> 's \<Rightarrow> 's raw_writer" where
  "new_raw_writer policy s = \<lparr>rw_policy = policy, rw_partition = None, rw_handle = 0, rw_uncertain = False,
     rw_validated = False, rw_received = 0, rw_hash_live = False, rw_device = s\<rparr>"

definition writer_configure :: "image_policy \<Rightarrow> 's raw_writer \<Rightarrow> bool \<times> 's raw_writer" where
  "writer_configure policy w =
     (if rw_handle w \<noteq> 0 \<or> rw_partition w \<noteq> None \<or> rw_uncertain w \<or> rw_validated w \<or> rw_hash_live w
      then (False, w) else (True, w\<lparr>rw_policy := policy\<rparr>))"

definition writer_error :: "esp_result \<Rightarrow> effect" where
  "writer_error r = (if r = EspOk then EffectOk else if r = EspNoMem then EffectNoMemory else EffectFailed)"

definition hash_error :: "psa_result \<Rightarrow> effect" where
  "hash_error r = (if r = PsaOk then EffectOk else if r = PsaNoMem then EffectNoMemory else EffectFailed)"

definition sdk_prefix_bytes :: "'s esp_sdk \<Rightarrow> nat" where
  "sdk_prefix_bytes sdk = sdk_header_bytes sdk + sdk_segment_bytes sdk + sdk_descriptor_bytes sdk"

text \<open>The application descriptor, behind the two headers, and its version.\<close>

definition image_descriptor :: "'s esp_sdk \<Rightarrow> bytes \<Rightarrow> bytes" where
  "image_descriptor sdk data = drop (sdk_header_bytes sdk + sdk_segment_bytes sdk) data"

definition descriptor_version :: "'s esp_sdk \<Rightarrow> bytes \<Rightarrow> string" where
  "descriptor_version sdk d =
     bounded_c_string_view (map (\<lambda>b. char_of (unat b)) (take (sdk_version_bytes sdk) (drop (sdk_version_at sdk) d)))"

definition project_name_z :: bytes where
  "project_name_z = map (\<lambda>c. of_nat (of_char c)) ''tesla-key-esp32'' @ [0]"

definition image_recognised :: "'s esp_sdk \<Rightarrow> bytes \<Rightarrow> bool" where
  "image_recognised sdk data =
     (let header = take (sdk_header_bytes sdk) data; d = image_descriptor sdk data in
      sdk_header_magic sdk header = sdk_image_magic sdk \<and>
      take 4 (drop (sdk_magic_at sdk) d) = sdk_app_magic sdk \<and>
      take (length project_name_z) (drop (sdk_project_at sdk) d) = project_name_z \<and>
      sdk_image_valid sdk header (if sdk_spi_check sdk then Some (take (sdk_descriptor_bytes sdk) d) else None))"

definition policy_admits :: "image_policy \<Rightarrow> string \<Rightarrow> bool" where
  "policy_admits p available =
     (let expected = bounded_c_string_view (pol_expected p); current = bounded_c_string_view (pol_current p) in
      if pol_direct_upload p then ota_upload_version_allowed available current (pol_channel p)
      else canonical_ota_version available \<and> canonical_ota_version expected \<and> canonical_ota_version current \<and>
        available = expected \<and> pol_expected_bytes p \<noteq> 0 \<and> unat (pol_expected_bytes p) \<le> kOtaUploadMaxBytes \<and>
        is_ota_update_available available current (pol_target_pr p) (pol_channel p))"

definition partition_usable :: "ota_partition option \<Rightarrow> ota_partition option \<Rightarrow> bool" where
  "partition_usable target running = (case target of None \<Rightarrow> False
     | Some p \<Rightarrow> target \<noteq> running \<and> part_is_app p \<and> (part_address p = 0x20000 \<or> part_address p = 0x210000) \<and>
         part_size p = 0x1f0000)"

definition writer_prefix :: "'s esp_sdk \<Rightarrow> bytes \<Rightarrow> 's raw_writer \<Rightarrow> effect \<times> 's raw_writer" where
  "writer_prefix sdk data w =
     (if length data \<noteq> sdk_prefix_bytes sdk \<or> rw_handle w \<noteq> 0 \<or> rw_uncertain w then (EffectFailed, w)
      else if \<not> image_recognised sdk data then (EffectFailed, w)
      else if \<not> policy_admits (rw_policy w) (descriptor_version sdk (image_descriptor sdk data)) then (EffectFailed, w)
      else let target = sdk_next_partition sdk (rw_device w); w = w\<lparr>rw_partition := target\<rparr> in
        (if partition_usable target (sdk_running_partition sdk (rw_device w)) then EffectOk else EffectFailed, w))"

text \<open>The hash of a feed update is set up first; once it was tried it must be aborted.\<close>

definition writer_hash_start :: "'s esp_sdk \<Rightarrow> 's raw_writer \<Rightarrow> psa_result \<times> 's raw_writer" where
  "writer_hash_start sdk w =
     (let (status, s) = sdk_crypto_init sdk (rw_device w);
          (status, s) = (if status = PsaOk then sdk_hash_setup sdk s else (status, s)) in
      (status, w\<lparr>rw_hash_live := True, rw_device := s\<rparr>))"

definition writer_begin :: "'s esp_sdk \<Rightarrow> 's raw_writer \<Rightarrow> effect \<times> 's raw_writer" where
  "writer_begin sdk w0 =
     (case rw_partition w0 of None \<Rightarrow> (EffectFailed, w0) | Some p \<Rightarrow>
      if rw_handle w0 \<noteq> 0 \<or> rw_uncertain w0 then (EffectFailed, w0)
      else let (status, w) = (if pol_direct_upload (rw_policy w0) then (PsaOk, w0) else writer_hash_start sdk w0) in
      if status \<noteq> PsaOk then (hash_error status, w)
      else let (result, h, s) = sdk_ota_begin sdk p (rw_device w); w = w\<lparr>rw_handle := h, rw_device := s\<rparr> in
      if result = EspOk \<and> h = 0 then (EffectUncertain, w\<lparr>rw_uncertain := True\<rparr>)
      else (writer_error result, w))"

definition writer_flash :: "'s esp_sdk \<Rightarrow> bytes \<Rightarrow> 's raw_writer \<Rightarrow> effect \<times> 's raw_writer" where
  "writer_flash sdk data w = (let (r, s) = sdk_ota_write sdk (rw_handle w) data (rw_device w) in
     (writer_error r, w\<lparr>rw_device := s\<rparr>))"

definition writer_write :: "'s esp_sdk \<Rightarrow> bytes \<Rightarrow> 's raw_writer \<Rightarrow> effect \<times> 's raw_writer" where
  "writer_write sdk data w =
     (if rw_handle w = 0 \<or> rw_uncertain w \<or> data = [] \<or> kBlockBytes < length data then (EffectFailed, w)
      else if pol_direct_upload (rw_policy w) then writer_flash sdk data w
      else if \<not> rw_hash_live w \<or> unat (pol_expected_bytes (rw_policy w) - rw_received w) < length data then (EffectFailed, w)
      else let (status, s) = sdk_hash_update sdk data (rw_device w); w = w\<lparr>rw_device := s\<rparr> in
      if status \<noteq> PsaOk then (hash_error status, w)
      else writer_flash sdk data (w\<lparr>rw_received := rw_received w + of_nat (length data)\<rparr>))"

definition writer_verify :: "'s esp_sdk \<Rightarrow> 's raw_writer \<Rightarrow> effect \<times> 's raw_writer" where
  "writer_verify sdk w =
     (if \<not> rw_hash_live w \<or> rw_received w \<noteq> pol_expected_bytes (rw_policy w) then (EffectFailed, w)
      else let (status, actual, s) = sdk_hash_finish sdk (rw_device w); w = w\<lparr>rw_device := s\<rparr> in
      if status \<noteq> PsaOk then (hash_error status, w)
      else (if length actual \<noteq> 32 \<or> actual \<noteq> pol_expected_sha256 (rw_policy w) then EffectFailed else EffectOk,
            w\<lparr>rw_hash_live := False\<rparr>))"

definition writer_end :: "'s esp_sdk \<Rightarrow> 's raw_writer \<Rightarrow> effect \<times> 's raw_writer" where
  "writer_end sdk w0 =
     (if rw_handle w0 = 0 \<or> rw_uncertain w0 then (EffectFailed, w0)
      else let (verdict, w) = (if pol_direct_upload (rw_policy w0) then (EffectOk, w0) else writer_verify sdk w0) in
      if verdict \<noteq> EffectOk then (verdict, w)
      else let (result, s) = sdk_ota_end sdk (rw_handle w) (rw_device w) in
        (writer_error result, w\<lparr>rw_handle := 0, rw_validated := result = EspOk, rw_device := s\<rparr>))"

definition writer_select :: "'s esp_sdk \<Rightarrow> 's raw_writer \<Rightarrow> effect \<times> 's raw_writer" where
  "writer_select sdk w =
     (case rw_partition w of None \<Rightarrow> (EffectFailed, w) | Some p \<Rightarrow>
      if \<not> rw_validated w \<or> rw_handle w \<noteq> 0 \<or> rw_uncertain w then (EffectFailed, w)
      else let (result, s) = sdk_set_boot sdk p (rw_device w); w = w\<lparr>rw_device := s\<rparr> in
      if result = EspOk then (EffectCommitted, w)
      else if result = EspValidateFailed then (EffectFailed, w)
      else (EffectUncertain, w\<lparr>rw_uncertain := True\<rparr>))"

definition writer_abort :: "'s esp_sdk \<Rightarrow> 's raw_writer \<Rightarrow> bool \<times> 's raw_writer" where
  "writer_abort sdk w0 =
     (if rw_uncertain w0 then (False, w0)
      else let (status, s) = (if rw_hash_live w0 then sdk_hash_abort sdk (rw_device w0) else (PsaOk, rw_device w0));
               w = w0\<lparr>rw_device := s\<rparr> in
      if status \<noteq> PsaOk then (False, w\<lparr>rw_uncertain := True\<rparr>)
      else let w = w\<lparr>rw_hash_live := False\<rparr> in
      if rw_handle w = 0 then (True, w)
      else let (result, s) = sdk_ota_abort sdk (rw_handle w) (rw_device w); w = w\<lparr>rw_device := s\<rparr> in
      if result \<noteq> EspOk \<and> result \<noteq> EspNotFound then (False, w\<lparr>rw_uncertain := True\<rparr>)
      else (True, w\<lparr>rw_handle := 0\<rparr>))"

definition writer_quiescent :: "'s raw_writer \<Rightarrow> bool" where
  "writer_quiescent w \<longleftrightarrow> rw_handle w = 0 \<and> \<not> rw_uncertain w \<and> \<not> rw_hash_live w"

definition writer_release :: "'s esp_sdk \<Rightarrow> 's raw_writer \<Rightarrow> bool \<times> 's raw_writer" where
  "writer_release sdk w = (let (ok, s) = sdk_release_lease sdk (rw_device w) in (ok, w\<lparr>rw_device := s\<rparr>))"

definition raw_effects :: "'s esp_sdk \<Rightarrow> 's raw_writer effects" where
  "raw_effects sdk = \<lparr>ef_prefix_bytes = sdk_prefix_bytes sdk, ef_check_prefix = writer_prefix sdk,
     ef_begin = writer_begin sdk, ef_write = writer_write sdk, ef_finish = writer_end sdk,
     ef_select_boot = writer_select sdk, ef_abort = writer_abort sdk, ef_quiescent = writer_quiescent,
     ef_release_lease = writer_release sdk\<rparr>"

subsection \<open>What the calls document\<close>

text \<open>
  How a device state is read: the bytes hashed so far, the open images with what was written to them, the
  contents of a closed partition, the partition to boot; and the hash and the image verification themselves.
\<close>

record 's sdk_view =
  sv_hashed :: "'s \<Rightarrow> bytes"
  sv_open :: "'s \<Rightarrow> u32 \<Rightarrow> (ota_partition \<times> bytes) option"
  sv_stored :: "'s \<Rightarrow> ota_partition \<Rightarrow> bytes"
  sv_boot :: "'s \<Rightarrow> ota_partition option"
  sv_sha256 :: "bytes \<Rightarrow> bytes"
  sv_verified :: "bytes \<Rightarrow> bool"

text \<open>The hash operation: what a successful call does; no call of it touches an image.\<close>

definition hash_ok :: "'s esp_sdk \<Rightarrow> 's sdk_view \<Rightarrow> bool" where
  "hash_ok sdk v \<longleftrightarrow>
     (\<forall>s s'. sdk_hash_setup sdk s = (PsaOk, s') \<longrightarrow> sv_hashed v s' = []) \<and>
     (\<forall>d s s'. sdk_hash_update sdk d s = (PsaOk, s') \<longrightarrow> sv_hashed v s' = sv_hashed v s @ d \<and> sv_open v s' = sv_open v s) \<and>
     (\<forall>s out s'. sdk_hash_finish sdk s = (PsaOk, out, s') \<longrightarrow>
        out = sv_sha256 v (sv_hashed v s) \<and> sv_open v s' = sv_open v s)"

text \<open>The update functions: an image is opened empty, a write appends, closing verifies, selection is of the partition.\<close>

definition update_ok :: "'s esp_sdk \<Rightarrow> 's sdk_view \<Rightarrow> bool" where
  "update_ok sdk v \<longleftrightarrow>
     (\<forall>p s h s'. sdk_ota_begin sdk p s = (EspOk, h, s') \<longrightarrow>
        sv_open v s' h = Some (p, []) \<and> sv_hashed v s' = sv_hashed v s) \<and>
     (\<forall>h d s s' p b. sdk_ota_write sdk h d s = (EspOk, s') \<longrightarrow> sv_open v s h = Some (p, b) \<longrightarrow>
        sv_open v s' h = Some (p, b @ d) \<and> sv_hashed v s' = sv_hashed v s) \<and>
     (\<forall>h s s' p b. sdk_ota_end sdk h s = (EspOk, s') \<longrightarrow> sv_open v s h = Some (p, b) \<longrightarrow>
        sv_stored v s' p = b \<and> sv_verified v b) \<and>
     (\<forall>p s s'. sdk_set_boot sdk p s = (EspOk, s') \<longrightarrow> sv_stored v s' p = sv_stored v s p \<and> sv_boot v s' = Some p)"

lemma hash_okD:
  assumes "hash_ok sdk v"
  shows "sdk_hash_setup sdk s = (PsaOk, s') \<Longrightarrow> sv_hashed v s' = []"
    and "sdk_hash_update sdk d s = (PsaOk, s') \<Longrightarrow> sv_hashed v s' = sv_hashed v s @ d \<and> sv_open v s' = sv_open v s"
    and "sdk_hash_finish sdk s = (PsaOk, out, s') \<Longrightarrow> out = sv_sha256 v (sv_hashed v s) \<and> sv_open v s' = sv_open v s"
  using assms unfolding hash_ok_def by blast+

lemma update_okD:
  assumes "update_ok sdk v"
  shows "sdk_ota_begin sdk p s = (EspOk, h, s') \<Longrightarrow> sv_open v s' h = Some (p, []) \<and> sv_hashed v s' = sv_hashed v s"
    and "sdk_ota_write sdk h d s = (EspOk, s') \<Longrightarrow> sv_open v s h = Some (p, b) \<Longrightarrow>
      sv_open v s' h = Some (p, b @ d) \<and> sv_hashed v s' = sv_hashed v s"
    and "sdk_ota_end sdk h s = (EspOk, s') \<Longrightarrow> sv_open v s h = Some (p, b) \<Longrightarrow> sv_stored v s' p = b \<and> sv_verified v b"
    and "sdk_set_boot sdk p s = (EspOk, s') \<Longrightarrow> sv_stored v s' p = sv_stored v s p \<and> sv_boot v s' = Some p"
  using assms unfolding update_ok_def by blast+

subsection \<open>The states of the writer\<close>

definition admitted_head :: "'s esp_sdk \<Rightarrow> image_policy \<Rightarrow> bytes \<Rightarrow> bool" where
  "admitted_head sdk policy head \<longleftrightarrow> image_recognised sdk head \<and>
     policy_admits policy (descriptor_version sdk (image_descriptor sdk head))"

text \<open>The partition was found usable when the prefix was admitted.\<close>

definition update_partition :: "ota_partition \<Rightarrow> bool" where
  "update_partition p \<longleftrightarrow> part_is_app p \<and> (part_address p = 0x20000 \<or> part_address p = 0x210000) \<and> part_size p = 0x1f0000"

definition writer_at :: "'s esp_sdk \<Rightarrow> 's sdk_view \<Rightarrow> image_policy \<Rightarrow> 's raw_writer \<Rightarrow> bool" where
  "writer_at sdk v policy w \<longleftrightarrow> hash_ok sdk v \<and> update_ok sdk v \<and> rw_policy w = policy \<and> \<not> rw_uncertain w"

definition writer_fresh :: "'s esp_sdk \<Rightarrow> 's sdk_view \<Rightarrow> image_policy \<Rightarrow> 's raw_writer \<Rightarrow> bool" where
  "writer_fresh sdk v policy w \<longleftrightarrow> writer_at sdk v policy w \<and> rw_handle w = 0 \<and> \<not> rw_validated w \<and>
     rw_received w = 0 \<and> \<not> rw_hash_live w"

definition writer_opened :: "'s esp_sdk \<Rightarrow> 's sdk_view \<Rightarrow> image_policy \<Rightarrow> bytes \<Rightarrow> 's raw_writer \<Rightarrow> bool" where
  "writer_opened sdk v policy head w \<longleftrightarrow> writer_fresh sdk v policy w \<and> admitted_head sdk policy head \<and>
     (\<exists>p. rw_partition w = Some p \<and> update_partition p)"

definition feed_image :: "'s sdk_view \<Rightarrow> image_policy \<Rightarrow> bytes \<Rightarrow> 's raw_writer \<Rightarrow> bool" where
  "feed_image v policy b w \<longleftrightarrow> rw_hash_live w \<and> sv_hashed v (rw_device w) = b \<and> unat (rw_received w) = length b \<and>
     rw_received w \<le> pol_expected_bytes policy"

definition writer_filled :: "'s esp_sdk \<Rightarrow> 's sdk_view \<Rightarrow> image_policy \<Rightarrow> bytes \<Rightarrow> bytes \<Rightarrow> 's raw_writer \<Rightarrow> bool" where
  "writer_filled sdk v policy head b w \<longleftrightarrow> writer_at sdk v policy w \<and> admitted_head sdk policy head \<and> rw_handle w \<noteq> 0 \<and>
     (\<exists>p. rw_partition w = Some p \<and> update_partition p \<and> sv_open v (rw_device w) (rw_handle w) = Some (p, b)) \<and>
     (\<not> pol_direct_upload policy \<longrightarrow> feed_image v policy b w)"

definition complete_image :: "'s sdk_view \<Rightarrow> image_policy \<Rightarrow> bytes \<Rightarrow> bool" where
  "complete_image v policy b \<longleftrightarrow> sv_verified v b \<and>
     (\<not> pol_direct_upload policy \<longrightarrow> length b = unat (pol_expected_bytes policy) \<and> sv_sha256 v b = pol_expected_sha256 policy)"

definition writer_sealed :: "'s esp_sdk \<Rightarrow> 's sdk_view \<Rightarrow> image_policy \<Rightarrow> bytes \<Rightarrow> bytes \<Rightarrow> 's raw_writer \<Rightarrow> bool" where
  "writer_sealed sdk v policy head b w \<longleftrightarrow> writer_at sdk v policy w \<and> admitted_head sdk policy head \<and> rw_validated w \<and>
     (\<exists>p. rw_partition w = Some p \<and> update_partition p \<and> sv_stored v (rw_device w) p = b) \<and> complete_image v policy b"

definition writer_chosen :: "'s esp_sdk \<Rightarrow> 's sdk_view \<Rightarrow> image_policy \<Rightarrow> bytes \<Rightarrow> bytes \<Rightarrow> 's raw_writer \<Rightarrow> bool" where
  "writer_chosen sdk v policy head b w \<longleftrightarrow> writer_sealed sdk v policy head b w \<and> sv_boot v (rw_device w) = rw_partition w"

lemma writer_prefix_opens:
  "writer_fresh sdk v P w \<Longrightarrow> writer_prefix sdk head w = (EffectOk, w') \<Longrightarrow> writer_opened sdk v P head w'"
  by (auto simp: writer_prefix_def writer_opened_def writer_fresh_def writer_at_def admitted_head_def update_partition_def
      partition_usable_def Let_def split: if_splits option.splits)

lemma writer_error_ok [simp]: "writer_error r = EffectOk \<longleftrightarrow> r = EspOk"
  by (simp add: writer_error_def)

lemma writer_hash_start_ok:
  assumes "hash_ok sdk v" "writer_hash_start sdk w = (PsaOk, w')"
  shows "\<exists>s. w' = w\<lparr>rw_hash_live := True, rw_device := s\<rparr> \<and> sv_hashed v s = []"
  using assms(2) hash_okD(1) [OF assms(1)] by (auto simp: writer_hash_start_def Let_def split: prod.splits if_splits)

lemma writer_begin_fills:
  assumes o: "writer_opened sdk v P head w" and r: "writer_begin sdk w = (EffectOk, w')"
  shows "writer_filled sdk v P head [] w'"
proof -
  have ok: "hash_ok sdk v" "update_ok sdk v" and pol: "rw_policy w = P"
    using o by (simp_all add: writer_opened_def writer_fresh_def writer_at_def)
  obtain p where p: "rw_partition w = Some p" "update_partition p" using o by (auto simp: writer_opened_def)
  obtain st w1 where s: "(if pol_direct_upload P then (PsaOk, w) else writer_hash_start sdk w) = (st, w1)" by fastforce
  obtain res h s' where b: "sdk_ota_begin sdk p (rw_device w1) = (res, h, s')" by (metis prod.exhaust)
  have fin: "st = PsaOk" "res = EspOk" "h \<noteq> 0" "w' = w1\<lparr>rw_handle := h, rw_device := s'\<rparr>"
    using r o p s b pol
    by (auto simp: writer_begin_def writer_opened_def writer_fresh_def writer_at_def hash_error_def Let_def split: if_splits)
  have w1: "rw_policy w1 = P" "\<not> rw_uncertain w1" "rw_received w1 = 0" "rw_partition w1 = Some p"
    and h1: "\<not> pol_direct_upload P \<longrightarrow> rw_hash_live w1 \<and> sv_hashed v (rw_device w1) = []"
    using s fin(1) writer_hash_start_ok [OF ok(1), of w w1] o p pol
    by (auto simp: writer_opened_def writer_fresh_def writer_at_def split: if_splits)
  from update_okD(1) [OF ok(2), of p "rw_device w1" h s'] b fin
  have "sv_open v s' h = Some (p, []) \<and> sv_hashed v s' = sv_hashed v (rw_device w1)" by simp
  with w1 h1 o p ok fin show ?thesis
    by (auto simp: writer_filled_def writer_at_def writer_opened_def feed_image_def)
qed

lemma writer_flash_fills:
  assumes at: "writer_at sdk v P w" "admitted_head sdk P head" "rw_handle w \<noteq> 0" "rw_partition w = Some p" "update_partition p"
    and o: "sv_open v (rw_device w) (rw_handle w) = Some (p, b)"
    and r: "writer_flash sdk d w = (EffectOk, w')"
    and feed: "\<not> pol_direct_upload P \<longrightarrow> feed_image v P (b @ d) w"
  shows "writer_filled sdk v P head (b @ d) w'"
proof -
  obtain res s where s: "sdk_ota_write sdk (rw_handle w) d (rw_device w) = (res, s)" by fastforce
  have u: "update_ok sdk v" using at by (simp add: writer_at_def)
  from update_okD(2) [OF u, of "rw_handle w" d "rw_device w" s p b] s r o
  have "sv_open v s (rw_handle w) = Some (p, b @ d) \<and> sv_hashed v s = sv_hashed v (rw_device w)"
    by (simp add: writer_flash_def)
  with at feed r s show ?thesis
    by (auto simp: writer_flash_def writer_filled_def writer_at_def feed_image_def)
qed

lemma received_step:
  fixes r e :: u32
  assumes "r \<le> e" "n \<le> unat (e - r)"
  shows "unat (r + of_nat n) = unat r + n \<and> r + of_nat n \<le> e"
proof -
  have "unat (e - r) = unat e - unat r" using assms(1) by (rule unat_sub)
  then have le: "unat r + n \<le> unat e" using assms by (simp add: word_le_nat_alt)
  moreover have "unat e < 2 ^ 32" using unsigned_less [where 'a = nat, of e] by simp
  ultimately have "unat (r + of_nat n) = unat r + n" by (simp add: unat_word_ariths unat_of_nat)
  with le show ?thesis by (simp add: word_le_nat_alt)
qed

lemma writer_write_fills:
  assumes f: "writer_filled sdk v P head b w" and r: "writer_write sdk d w = (EffectOk, w')"
  shows "writer_filled sdk v P head (b @ d) w'"
proof -
  obtain p where p: "rw_partition w = Some p" "update_partition p" "sv_open v (rw_device w) (rw_handle w) = Some (p, b)"
    using f by (auto simp: writer_filled_def)
  have at: "writer_at sdk v P w" "admitted_head sdk P head" "rw_handle w \<noteq> 0" and pol: "rw_policy w = P" and h: "hash_ok sdk v"
    using f by (simp_all add: writer_filled_def writer_at_def)
  show ?thesis
  proof (cases "pol_direct_upload P")
    case True
    with r pol have "writer_flash sdk d w = (EffectOk, w')" by (auto simp: writer_write_def split: if_splits)
    from writer_flash_fills [OF at p this] True show ?thesis by simp
  next
    case False
    then have feed: "feed_image v P b w" using f by (simp add: writer_filled_def)
    obtain st s where s: "sdk_hash_update sdk d (rw_device w) = (st, s)" by fastforce
    let ?w = "w\<lparr>rw_device := s, rw_received := rw_received w + of_nat (length d)\<rparr>"
    have fin: "st = PsaOk" "writer_flash sdk d ?w = (EffectOk, w')"
      and n: "length d \<le> unat (pol_expected_bytes P - rw_received w)"
      using r False pol s by (auto simp: writer_write_def hash_error_def Let_def split: if_splits)
    from hash_okD(2) [OF h, of d "rw_device w" s] s fin
    have hs: "sv_hashed v s = sv_hashed v (rw_device w) @ d" "sv_open v s = sv_open v (rw_device w)" by auto
    have "feed_image v P (b @ d) ?w"
      using feed hs received_step [OF _ n] by (simp add: feed_image_def)
    moreover have "writer_at sdk v P ?w" using at by (simp add: writer_at_def)
    ultimately show ?thesis using writer_flash_fills [of sdk v P ?w head p b d w'] at p hs fin by simp
  qed
qed

lemma writer_verify_ok:
  assumes h: "hash_ok sdk v" and feed: "feed_image v P b w" and pol: "rw_policy w = P"
    and r: "writer_verify sdk w = (EffectOk, w')"
  shows "length b = unat (pol_expected_bytes P) \<and> sv_sha256 v b = pol_expected_sha256 P \<and>
    (\<exists>s. w' = w\<lparr>rw_hash_live := False, rw_device := s\<rparr> \<and> sv_open v s = sv_open v (rw_device w))"
proof -
  obtain st out s where s: "sdk_hash_finish sdk (rw_device w) = (st, out, s)" by (metis prod.exhaust)
  have "st = PsaOk" "out = pol_expected_sha256 P" "rw_received w = pol_expected_bytes P"
    "w' = w\<lparr>rw_hash_live := False, rw_device := s\<rparr>"
    using r pol s by (auto simp: writer_verify_def hash_error_def Let_def split: if_splits)
  with hash_okD(3) [OF h, of "rw_device w" out s] s feed show ?thesis
    by (auto simp: feed_image_def)
qed

lemma writer_end_seals:
  assumes f: "writer_filled sdk v P head b w" and r: "writer_end sdk w = (EffectOk, w')"
  shows "writer_sealed sdk v P head b w'"
proof -
  obtain p where p: "rw_partition w = Some p" "update_partition p" "sv_open v (rw_device w) (rw_handle w) = Some (p, b)"
    using f by (auto simp: writer_filled_def)
  have at: "hash_ok sdk v" "update_ok sdk v" "rw_policy w = P" "\<not> rw_uncertain w" "admitted_head sdk P head"
    using f by (simp_all add: writer_filled_def writer_at_def)
  obtain verdict w1 where v1: "(if pol_direct_upload P then (EffectOk, w) else writer_verify sdk w) = (verdict, w1)" by fastforce
  obtain res s where s: "sdk_ota_end sdk (rw_handle w1) (rw_device w1) = (res, s)" by fastforce
  have fin: "verdict = EffectOk" "res = EspOk" "w' = w1\<lparr>rw_handle := 0, rw_validated := True, rw_device := s\<rparr>"
    using r v1 s at by (auto simp: writer_end_def Let_def split: if_splits)
  have w1: "rw_handle w1 = rw_handle w" "rw_partition w1 = Some p" "rw_policy w1 = P" "\<not> rw_uncertain w1"
    "sv_open v (rw_device w1) = sv_open v (rw_device w)"
    and img: "\<not> pol_direct_upload P \<longrightarrow> length b = unat (pol_expected_bytes P) \<and> sv_sha256 v b = pol_expected_sha256 P"
    using v1 fin(1) writer_verify_ok [OF at(1) _ at(3), of b w1] f p at
    by (auto simp: writer_filled_def split: if_splits)
  from update_okD(3) [OF at(2), of "rw_handle w1" "rw_device w1" s p b] s fin w1 p
  have "sv_stored v s p = b \<and> sv_verified v b" by simp
  with w1 img at p fin show ?thesis
    by (auto simp: writer_sealed_def writer_at_def complete_image_def)
qed

lemma writer_select_chooses:
  assumes f: "writer_sealed sdk v P head b w" and r: "writer_select sdk w = (EffectCommitted, w')"
  shows "writer_chosen sdk v P head b w'"
proof -
  obtain p where p: "rw_partition w = Some p" "update_partition p" "sv_stored v (rw_device w) p = b"
    using f by (auto simp: writer_sealed_def)
  obtain res s where s: "sdk_set_boot sdk p (rw_device w) = (res, s)" by fastforce
  have fin: "res = EspOk" "w' = w\<lparr>rw_device := s\<rparr>"
    using r p s by (auto simp: writer_select_def Let_def split: if_splits)
  have u: "update_ok sdk v" using f by (simp add: writer_sealed_def writer_at_def)
  from update_okD(4) [OF u, of p "rw_device w" s] s fin p
  have "sv_stored v s p = b \<and> sv_boot v s = Some p" by simp
  with f p fin show ?thesis by (auto simp: writer_chosen_def writer_sealed_def writer_at_def)
qed

interpretation rw: image_writer "raw_effects sdk" "writer_fresh sdk v P" "writer_opened sdk v P"
    "writer_filled sdk v P" "writer_sealed sdk v P" "writer_chosen sdk v P"
  for sdk :: "'s esp_sdk" and v P
  by unfold_locales
    (auto simp: raw_effects_def writer_quiescent_def writer_release_def writer_at_def writer_fresh_def
      split: prod.splits
      intro: writer_prefix_opens writer_begin_fills writer_write_fills writer_end_seals writer_select_chooses)

subsection \<open>From the head of the image to the boot partition\<close>

lemma fresh_raw_writer: "hash_ok sdk v \<Longrightarrow> update_ok sdk v \<Longrightarrow> writer_fresh sdk v P (new_raw_writer P s)"
  by (simp add: writer_fresh_def writer_at_def new_raw_writer_def)

text \<open>The policy can only change while nothing was admitted yet.\<close>

lemma configure_inv:
  assumes c: "rw.image_inv sdk v P0 c" and r: "writer_configure P (co_writer c) = (True, w)"
  shows "rw.image_inv sdk v P (c\<lparr>co_writer := w\<rparr>)"
proof -
  have w: "w = (co_writer c)\<lparr>rw_policy := P\<rparr>" and n: "rw_partition (co_writer c) = None"
    using r by (auto simp: writer_configure_def split: if_splits)
  have "writer_fresh sdk v P0 x \<Longrightarrow> writer_fresh sdk v P (x\<lparr>rw_policy := P\<rparr>)" for x :: "'a raw_writer"
    by (simp add: writer_fresh_def writer_at_def)
  moreover have "\<not> rw.holds_image sdk v P0 c" "\<not> rw.image_chosen sdk v P0 c"
    using n by (auto simp: rw.holds_image_def rw.image_chosen_def writer_filled_def writer_chosen_def writer_sealed_def)
  ultimately show ?thesis using c by (auto simp: rw.image_inv_def w)
qed

text \<open>What a selected image is: written to an update partition whose head names this project and an allowed version.\<close>

definition image_version :: "'s esp_sdk \<Rightarrow> bytes \<Rightarrow> string" where
  "image_version sdk b = descriptor_version sdk (image_descriptor sdk (take (sdk_prefix_bytes sdk) b))"

definition authentic_image :: "'s esp_sdk \<Rightarrow> 's sdk_view \<Rightarrow> image_policy \<Rightarrow> bytes \<Rightarrow> bool" where
  "authentic_image sdk v P b \<longleftrightarrow> sv_verified v b \<and> sdk_prefix_bytes sdk \<le> length b \<and>
     image_recognised sdk (take (sdk_prefix_bytes sdk) b) \<and>
     (if pol_direct_upload P
      then ota_upload_version_allowed (image_version sdk b) (bounded_c_string_view (pol_current P)) (pol_channel P)
      else sv_sha256 v b = pol_expected_sha256 P \<and> length b = unat (pol_expected_bytes P) \<and>
        length b \<le> kOtaUploadMaxBytes \<and> image_version sdk b = bounded_c_string_view (pol_expected P) \<and>
        is_ota_update_available (image_version sdk b) (bounded_c_string_view (pol_current P)) (pol_target_pr P) (pol_channel P))"

lemma raw_prefix_bytes [simp]: "ef_prefix_bytes (raw_effects sdk) = sdk_prefix_bytes sdk"
  by (simp add: raw_effects_def)

lemma chosen_authentic:
  assumes "rw.image_chosen sdk v P c"
  shows "\<exists>p. sv_boot v (rw_device (co_writer c)) = Some p \<and> update_partition p \<and>
    authentic_image sdk v P (sv_stored v (rw_device (co_writer c)) p)"
proof -
  from assms obtain b where b: "length (co_prefix c) = sdk_prefix_bytes sdk" "take (sdk_prefix_bytes sdk) b = co_prefix c"
    "writer_chosen sdk v P (co_prefix c) b (co_writer c)"
    by (auto simp: rw.image_chosen_def)
  have "length (take (sdk_prefix_bytes sdk) b) = sdk_prefix_bytes sdk" using b by simp
  then have "sdk_prefix_bytes sdk \<le> length b" by simp
  with b have "authentic_image sdk v P b"
    by (auto simp: writer_chosen_def writer_sealed_def authentic_image_def admitted_head_def policy_admits_def
        complete_image_def image_version_def Let_def split: if_splits)
  with b show ?thesis by (auto simp: writer_chosen_def writer_sealed_def)
qed

text \<open>C4: Whatever calls are made, whatever the network task and the device do and whichever of them fail: when an
  update reports that it committed, the partition selected for booting is an update partition holding a complete
  image that the SDK verified, whose own head names this project and a version the policy allows; for an update from
  the feed its length and SHA-256 are those announced, at most the size of a slot.\<close>

theorem boot_selection_authenticated:
  fixes env :: "('p, 's raw_writer) ota_env"
  assumes sdk: "hash_ok sdk v" "update_ok sdk v" and env: "env_effects env = raw_effects sdk"
    and calls: "list_all co_call_ok before" "list_all co_call_ok after"
    and first: "c = co_run env before (new_coordinator owner j budget (new_raw_writer P0 s))"
    and configured: "writer_configure P (co_writer c) = (True, w)"
    and last: "c' = co_run env after (c\<lparr>co_writer := w\<rparr>)" "co_outcome c' = OcCommitted"
  shows "\<exists>p. sv_boot v (rw_device (co_writer c')) = Some p \<and> update_partition p \<and>
    authentic_image sdk v P (sv_stored v (rw_device (co_writer c')) p)"
proof (rule chosen_authentic)
  have "rw.image_inv sdk v P0 (new_coordinator owner j budget (new_raw_writer P0 s) :: ('p, 's raw_writer) coordinator)"
    by (rule rw.fresh_inv) (simp_all add: new_coordinator_def fresh_raw_writer sdk)
  then have "rw.image_inv sdk v P0 c" unfolding first by (rule rw.co_run_inv [OF env calls(1)])
  then have "rw.image_inv sdk v P c'" unfolding last
    by (intro rw.co_run_inv [OF env calls(2)] configure_inv [OF _ configured])
  with last(2) show "rw.image_chosen sdk v P c'" by (simp add: rw.image_inv_def)
qed

subsection \<open>A device on which an update commits\<close>

record toy_device =
  td_hashed :: bytes
  td_image :: bytes
  td_stored :: bytes
  td_boot :: "ota_partition option"

definition toy_slot :: ota_partition where
  "toy_slot = \<lparr>part_label = 1, part_is_app = True, part_address = 0x210000, part_size = 0x1f0000\<rparr>"

definition toy_sha :: "bytes \<Rightarrow> bytes" where "toy_sha b = replicate 31 0 @ [of_nat (length b)]"

definition toy_verified :: "bytes \<Rightarrow> bool" where "toy_verified b \<longleftrightarrow> last b = 0xAA"

definition toy_sdk :: "toy_device esp_sdk" where
  "toy_sdk = \<lparr>sdk_header_bytes = 1, sdk_segment_bytes = 1, sdk_descriptor_bytes = 26, sdk_header_magic = hd,
     sdk_image_magic = 0xE9, sdk_magic_at = 0, sdk_app_magic = [0x32, 0x54, 0xCD, 0xAB], sdk_version_at = 4,
     sdk_version_bytes = 6, sdk_project_at = 10, sdk_spi_check = False, sdk_image_valid = (\<lambda>h d. True),
     sdk_next_partition = (\<lambda>s. Some toy_slot), sdk_running_partition = (\<lambda>s. None),
     sdk_crypto_init = (\<lambda>s. (PsaOk, s)),
     sdk_hash_setup = (\<lambda>s. (PsaOk, s\<lparr>td_hashed := []\<rparr>)),
     sdk_hash_update = (\<lambda>d s. (PsaOk, s\<lparr>td_hashed := td_hashed s @ d\<rparr>)),
     sdk_hash_finish = (\<lambda>s. (PsaOk, toy_sha (td_hashed s), s)),
     sdk_hash_abort = (\<lambda>s. (PsaOk, s)),
     sdk_ota_begin = (\<lambda>p s. if p = toy_slot then (EspOk, 1, s\<lparr>td_image := []\<rparr>) else (EspOther, 0, s)),
     sdk_ota_write = (\<lambda>h d s. if h = 1 then (EspOk, s\<lparr>td_image := td_image s @ d\<rparr>) else (EspOther, s)),
     sdk_ota_end = (\<lambda>h s. if h = 1 \<and> toy_verified (td_image s) then (EspOk, s\<lparr>td_stored := td_image s\<rparr>)
        else (EspValidateFailed, s)),
     sdk_ota_abort = (\<lambda>h s. (EspOk, s)),
     sdk_set_boot = (\<lambda>p s. (EspOk, s\<lparr>td_boot := Some p\<rparr>)),
     sdk_release_lease = (\<lambda>s. (True, s))\<rparr>"

definition toy_view :: "toy_device sdk_view" where
  "toy_view = \<lparr>sv_hashed = td_hashed, sv_open = (\<lambda>s h. if h = 1 then Some (toy_slot, td_image s) else None),
     sv_stored = (\<lambda>s p. td_stored s), sv_boot = td_boot, sv_sha256 = toy_sha, sv_verified = toy_verified\<rparr>"

lemma toy_ok: "hash_ok toy_sdk toy_view" "update_ok toy_sdk toy_view"
  by (auto simp: hash_ok_def update_ok_def toy_sdk_def toy_view_def split: if_splits)

definition toy_head :: bytes where
  "toy_head = [0xE9, 0] @ [0x32, 0x54, 0xCD, 0xAB] @ map (\<lambda>c. of_nat (of_char c)) ''1.2.4'' @ [0] @ project_name_z"

definition toy_policy :: image_policy where
  "toy_policy = \<lparr>pol_expected = ''1.2.4'', pol_current = ''1.2.3'', pol_target_pr = 0, pol_channel = Release,
     pol_direct_upload = False, pol_expected_sha256 = replicate 31 0 @ [29], pol_expected_bytes = 29\<rparr>"

definition toy_env :: "(unit, toy_device raw_writer) ota_env" where
  "toy_env = \<lparr>env_http = \<lparr>hp_init = (), hp_execute = (\<lambda>p d. HpEnd 0 False ())\<rparr>, env_url = (\<lambda>u. None),
     env_clock = (\<lambda>n. 0), env_effects = raw_effects toy_sdk, env_sink = metadata_append 100, env_overhead = 0\<rparr>"

definition toy_budget :: op_budget where
  "toy_budget = \<lparr>bd_policy = kOperationTimePolicy, bd_started = 0, bd_last = 0, bd_deadline = 149000,
     bd_maximum = 0x1f0000, bd_valid = True, bd_initialized = True\<rparr>"

definition toy_start :: "(unit, toy_device raw_writer) coordinator" where
  "toy_start = new_coordinator 7 (new_job 7 0 (bd_deadline toy_budget)) toy_budget
     (new_raw_writer toy_policy \<lparr>td_hashed = [], td_image = [], td_stored = [], td_boot = None\<rparr>)"

definition toy_calls :: "co_call list" where
  "toy_calls = [CallStartUpload 29, CallUpload (toy_head @ [0xAA]), CallFinishUpload]"

lemma toy_prefix_bytes: "sdk_prefix_bytes toy_sdk = 28" by (simp add: sdk_prefix_bytes_def toy_sdk_def)

lemma toy_canonical_new: "canonical_ota_version ''1.2.4''" by code_simp

lemma toy_canonical_old: "canonical_ota_version ''1.2.3''" by code_simp

lemma toy_offered: "is_ota_update_available ''1.2.4'' ''1.2.3'' 0 Release" by code_simp

lemma toy_head_bytes: "toy_head = [0xE9, 0, 0x32, 0x54, 0xCD, 0xAB, 49, 46, 50, 46, 52, 0, 116, 101, 115, 108, 97,
    45, 107, 101, 121, 45, 101, 115, 112, 51, 50, 0]" by code_simp

lemma project_name_bytes: "project_name_z = [116, 101, 115, 108, 97, 45, 107, 101, 121, 45, 101, 115, 112, 51, 50,
    0]" by code_simp

lemma toy_recognised: "image_recognised toy_sdk toy_head"
  by (simp add: image_recognised_def toy_sdk_def toy_head_bytes project_name_bytes image_descriptor_def Let_def)

lemma toy_version_chars: "map (\<lambda>b. char_of (unat b)) [49, 46, 50, 46, 52,
    0 :: u8] = ''1.2.4'' @ [CHR 0x00]" by code_simp

lemma toy_version: "descriptor_version toy_sdk (image_descriptor toy_sdk toy_head) = ''1.2.4''"
  using toy_version_chars by (simp add: descriptor_version_def toy_sdk_def toy_head_bytes project_name_bytes
      image_descriptor_def bounded_c_string_view_def)

lemma toy_admitted: "policy_admits toy_policy ''1.2.4''"
  using toy_canonical_new toy_canonical_old toy_offered by (simp add: policy_admits_def toy_policy_def
      bounded_c_string_view_def kOtaUploadMaxBytes_def)

lemma toy_configure: "writer_configure toy_policy (co_writer toy_start) = (True, co_writer toy_start)"
  by (simp add: writer_configure_def toy_start_def new_coordinator_def new_raw_writer_def)

lemma toy_head_length: "length toy_head = 28" by (simp add: toy_head_bytes)

lemma toy_sdk_fields: "sdk_next_partition toy_sdk d = Some toy_slot" "sdk_running_partition toy_sdk d = None"
  "sdk_crypto_init toy_sdk d = (PsaOk, d)" "sdk_hash_setup toy_sdk d = (PsaOk, d\<lparr>td_hashed := []\<rparr>)"
  "sdk_hash_update toy_sdk b d = (PsaOk, d\<lparr>td_hashed := td_hashed d @ b\<rparr>)"
  "sdk_hash_finish toy_sdk d = (PsaOk, toy_sha (td_hashed d), d)"
  "sdk_ota_begin toy_sdk toy_slot d = (EspOk, 1, d\<lparr>td_image := []\<rparr>)"
  "sdk_ota_write toy_sdk 1 b d = (EspOk, d\<lparr>td_image := td_image d @ b\<rparr>)"
  "toy_verified (td_image d) \<Longrightarrow> sdk_ota_end toy_sdk 1 d = (EspOk, d\<lparr>td_stored := td_image d\<rparr>)"
  "sdk_set_boot toy_sdk q d = (EspOk, d\<lparr>td_boot := Some q\<rparr>)"
  by (simp_all add: toy_sdk_def)

lemma toy_slot_usable: "partition_usable (Some toy_slot) None" by (simp add: partition_usable_def toy_slot_def)

lemma toy_policy_fields: "pol_direct_upload toy_policy = False" "pol_expected_bytes toy_policy = 29"
    "pol_expected_sha256 toy_policy = replicate 31 0 @ [29]"
  by (simp_all add: toy_policy_def)

lemma toy_env_fields: "env_effects toy_env = raw_effects toy_sdk" "env_clock toy_env n = 0" by (simp_all add: toy_env_def)

lemma raw_effects_fields: "ef_check_prefix (raw_effects toy_sdk) = writer_prefix toy_sdk"
  "ef_begin (raw_effects toy_sdk) = writer_begin toy_sdk" "ef_write (raw_effects toy_sdk) = writer_write toy_sdk"
  "ef_finish (raw_effects toy_sdk) = writer_end toy_sdk" "ef_select_boot (raw_effects toy_sdk) = writer_select toy_sdk"
  by (simp_all add: raw_effects_def)

lemma toy_prefix: "rw_handle w = 0 \<Longrightarrow> \<not> rw_uncertain w \<Longrightarrow>
    rw_policy w = toy_policy \<Longrightarrow>
   writer_prefix toy_sdk toy_head w = (EffectOk, w\<lparr>rw_partition := Some toy_slot\<rparr>)"
  using toy_recognised toy_version toy_admitted toy_prefix_bytes toy_head_length toy_slot_usable
  by (simp add: writer_prefix_def Let_def toy_sdk_fields)

definition toy_live :: "(unit, toy_device raw_writer) coordinator \<Rightarrow> bool" where
  "toy_live c \<longleftrightarrow> bd_valid (co_budget c) \<and> \<not> is_retired (job_control (co_job c)) \<and> bd_last (co_budget c) = 0 \<and>
   bd_started (co_budget c) = 0 \<and> bd_deadline (co_budget c) \<noteq> 0"

lemma toy_alive: "toy_live c \<Longrightarrow> co_alive toy_env c = (True, c\<lparr>co_ticks := co_ticks c + 1\<rparr>)"
  by (simp add: co_alive_def toy_env_fields budget_live_def toy_live_def)

lemma toy_live_upd: "toy_live (c\<lparr>co_ticks := n\<rparr>) = toy_live c"
    "toy_live (c\<lparr>co_writer := w\<rparr>) = toy_live c"
  "toy_live (c\<lparr>co_prefix := b\<rparr>) = toy_live c" "toy_live (c\<lparr>co_begun := x\<rparr>) = toy_live c"
    "toy_live (c\<lparr>co_upload_received := y\<rparr>) = toy_live c"
  by (simp_all add: toy_live_def)

lemma toy_check: "toy_live c \<Longrightarrow> co_check toy_env c = (True, c\<lparr>co_ticks := co_ticks c + 1\<rparr>)"
  by (simp add: co_check_def toy_alive)

lemma toy_writer_begin: "rw_partition w = Some toy_slot \<Longrightarrow> rw_handle w = 0 \<Longrightarrow>
    \<not> rw_uncertain w \<Longrightarrow> rw_policy w = toy_policy \<Longrightarrow>
  writer_begin toy_sdk w = (EffectOk, w\<lparr>rw_hash_live := True, rw_handle := 1,
    rw_device := (rw_device w)\<lparr>td_hashed := [], td_image := []\<rparr>\<rparr>)"
  by (simp add: writer_begin_def writer_hash_start_def toy_sdk_fields toy_policy_fields Let_def writer_error_def)

lemma toy_writer_write: "rw_handle w = 1 \<Longrightarrow> \<not> rw_uncertain w \<Longrightarrow>
    rw_policy w = toy_policy \<Longrightarrow> rw_hash_live w \<Longrightarrow> d \<noteq> [] \<Longrightarrow>
    length d \<le> kBlockBytes \<Longrightarrow> length d \<le> unat (29 - rw_received w) \<Longrightarrow>
  writer_write toy_sdk d w = (EffectOk, w\<lparr>rw_received := rw_received w + of_nat (length d),
    rw_device := (rw_device w)\<lparr>td_hashed := td_hashed (rw_device w) @ d,
     td_image := td_image (rw_device w) @ d\<rparr>\<rparr>)"
  by (simp add: writer_write_def writer_flash_def toy_sdk_fields toy_policy_fields Let_def writer_error_def)

lemma toy_writer_end: "rw_handle w = 1 \<Longrightarrow> \<not> rw_uncertain w \<Longrightarrow>
    rw_policy w = toy_policy \<Longrightarrow> rw_hash_live w \<Longrightarrow> rw_received w = 29 \<Longrightarrow>
   length (td_hashed (rw_device w)) = 29 \<Longrightarrow> toy_verified (td_image (rw_device w)) \<Longrightarrow>
   writer_end toy_sdk w = (EffectOk, w\<lparr>rw_hash_live := False, rw_handle := 0, rw_validated := True,
    rw_device := (rw_device w)\<lparr>td_stored := td_image (rw_device w)\<rparr>\<rparr>)"
  by (simp add: writer_end_def writer_verify_def toy_sdk_fields toy_policy_fields Let_def writer_error_def toy_sha_def)

lemma toy_begin_image:
  assumes "toy_live c" "co_prefix c = toy_head" "rw_handle (co_writer c) = 0" "\<not> rw_uncertain (co_writer c)"
    "rw_policy (co_writer c) = toy_policy"
    "rw_received (co_writer c) = 0"
  shows "co_begin_image toy_env c = (True, c\<lparr>co_begun := True, co_ticks := co_ticks c + 4,
    co_writer := (co_writer c)\<lparr>rw_partition := Some toy_slot, rw_hash_live := True,
     rw_handle := 1, rw_received := 28, rw_device := (rw_device (co_writer c))\<lparr>td_hashed := toy_head,
    td_image := toy_head\<rparr>\<rparr>\<rparr>)"
proof -
  have "toy_head \<noteq> []" by (simp add: toy_head_bytes)
  then show ?thesis
  using assms by (simp add: co_begin_image_def toy_check toy_live_upd and_then_def co_admit_def co_begin_def
      co_write_def raw_effects_fields toy_env_fields toy_prefix toy_writer_begin toy_writer_write Let_def toy_head_length kBlockBytes_def)
qed

lemma toy_start_upload: "co_step toy_env toy_start (CallStartUpload 29) = toy_start\<lparr>co_budget := toy_budget\<lparr>bd_deadline := 25002\<rparr>, co_ticks := 1, co_image := True, co_upload_expected := 29, co_outcome := OcWorking\<rparr>"
  by (simp add: co_step_def co_start_upload_def co_alive_def toy_env_fields toy_prefix_bytes toy_start_def
      new_coordinator_def new_job_def
   slot_owns_def is_retired_def phase_word_def budget_live_def budget_tighten_def toy_budget_def duration_for_def kOperationTimePolicy_def Let_def prefix_capacity_def)

lemma toy_upload:
  assumes "toy_live c" "co_prefix c = []" "rw_handle (co_writer c) = 0" "\<not> rw_uncertain (co_writer c)"
    "rw_policy (co_writer c) = toy_policy"
    "rw_received (co_writer c) = 0" "co_outcome c = OcWorking" "co_image c" "co_upload_expected c = 29"
    "co_upload_received c = 0" "\<not> co_begun c" "co_framing c = None"
  shows "co_step toy_env c (CallUpload (toy_head @ [0xAA])) = c\<lparr>co_prefix := toy_head,
    co_upload_received := 29, co_begun := True, co_ticks := co_ticks c + 6,
    co_writer := (co_writer c)\<lparr>rw_partition := Some toy_slot, rw_hash_live := True,
     rw_handle := 1, rw_received := 29, rw_device := (rw_device (co_writer c))\<lparr>td_hashed := toy_head @ [0xAA],
    td_image := toy_head @ [0xAA]\<rparr>\<rparr>\<rparr>"
  using assms by (simp add: co_step_def co_upload_def co_body_def co_image_data_def toy_begin_image toy_check
      toy_live_upd and_then_def co_write_def raw_effects_fields toy_env_fields toy_writer_write Let_def toy_head_length kBlockBytes_def toy_prefix_bytes)

lemma toy_finish:
  assumes "toy_live c" "rw_handle (co_writer c) = 1" "\<not> rw_uncertain (co_writer c)"
    "rw_policy (co_writer c) = toy_policy" "rw_hash_live (co_writer c)"
    "rw_received (co_writer c) = 29" "length (td_hashed (rw_device (co_writer c))) = 29"
    "toy_verified (td_image (rw_device (co_writer c)))"
    "co_outcome c = OcWorking" "co_begun c" "co_upload_expected c = 29"
    "co_upload_received c = 29"  "rw_partition (co_writer c) = Some toy_slot"
  shows "co_outcome (co_step toy_env c CallFinishUpload) = OcCommitted"
  using assms by (simp add: co_step_def co_finish_upload_def co_finish_image_def toy_alive toy_live_upd
      raw_effects_fields toy_env_fields toy_writer_end writer_select_def toy_sdk_fields Let_def)

lemma toy_commits: "co_outcome (co_run toy_env [CallStartUpload 29, CallUpload (toy_head @ [0xAA]),
    CallFinishUpload] toy_start) = OcCommitted"
proof -
  let ?c = "toy_start\<lparr>co_budget := toy_budget\<lparr>bd_deadline := 25002\<rparr>, co_ticks := 1,
    co_image := True, co_upload_expected := 29, co_outcome := OcWorking\<rparr>"
  have a: "toy_live ?c" by (simp add: toy_live_def toy_start_def new_coordinator_def new_job_def phase_word_def
      is_retired_def toy_budget_def)
  have "toy_verified (toy_head @ [0xAA])" by (simp add: toy_verified_def)
  with a show ?thesis
   unfolding co_run_def
   by (simp add: toy_start_upload) (subst toy_upload, simp_all add: toy_start_def new_coordinator_def new_raw_writer_def,
      rule toy_finish, simp_all add: toy_head_length toy_live_def new_job_def phase_word_def is_retired_def toy_budget_def)
qed

theorem boot_selection_authenticated_witness:
  "\<exists>p. td_boot (rw_device (co_writer (co_run toy_env toy_calls toy_start))) = Some p \<and> update_partition p \<and>
     authentic_image toy_sdk toy_view toy_policy (td_stored (rw_device (co_writer (co_run toy_env toy_calls toy_start))))"
proof -
  have start: "toy_start = co_run toy_env [] toy_start"
    "toy_start\<lparr>co_writer := co_writer toy_start\<rparr> = toy_start"
    by (simp_all add: co_run_def)
  from boot_selection_authenticated [OF toy_ok toy_env_fields(1), of "[]" toy_calls,
    OF _ _ start(1) [unfolded toy_start_def] toy_configure [unfolded toy_start_def] refl]
  show ?thesis using toy_commits start(2)
   by (simp add: toy_calls_def co_call_ok_def toy_view_def flip: toy_start_def)
qed

end
