(* ===== verification/OtaManifest.thy ===== *)
theory OtaManifest
  imports CommandTable OtaContract
begin

text \<open>
  The inspection of a parsed update manifest (\<open>ota_manifest.hpp\<close>): the version it names and the one image
  of this device in it. The tree is what cJSON built from a text the syntax gate accepted; a member is
  looked up by its first occurrence, as cJSON does.
\<close>

subsection \<open>The version\<close>

datatype manifest_status = MfValid | MfObjectRequired | MfDuplicateKey | MfVersionRequired

fun unique_members :: "(string \<times> cjson) list \<Rightarrow> bool" where
  "unique_members [] = True"
| "unique_members (m # ms) = (list_all (\<lambda>later. fst later \<noteq> fst m) ms \<and> unique_members ms)"

definition ota_manifest_unique_object :: "cjson \<Rightarrow> bool" where
  "ota_manifest_unique_object tree = (case tree of CObject ms \<Rightarrow> unique_members ms | _ \<Rightarrow> False)"

definition is_object :: "cjson \<Rightarrow> bool" where
  "is_object tree = (case tree of CObject ms \<Rightarrow> True | _ \<Rightarrow> False)"

definition inspect_ota_manifest :: "cjson \<Rightarrow> manifest_status + string" where
  "inspect_ota_manifest tree =
     (if \<not> is_object tree then Inl MfObjectRequired
      else if \<not> ota_manifest_unique_object tree then Inl MfDuplicateKey
      else case cjson_string (cjson_get (Some tree) ''version'') of
          None \<Rightarrow> Inl MfVersionRequired
        | Some v \<Rightarrow> Inr v)"

subsection \<open>The image\<close>

type_synonym manifest_image = "bytes \<times> u32"

definition cjson_items :: "cjson option \<Rightarrow> cjson list option" where
  "cjson_items tree = (case tree of Some (CArray xs) \<Rightarrow> Some xs | _ \<Rightarrow> None)"

definition image_size :: "cjson option \<Rightarrow> u32 option" where
  "image_size tree = (case tree of
       Some (CNumber (Finite d)) \<Rightarrow>
         if 512 \<le> d \<and> d \<le> of_nat kOtaUploadMaxBytes \<and> of_int \<lfloor>d\<rfloor> = d then Some (of_int \<lfloor>d\<rfloor>) else None
     | _ \<Rightarrow> None)"

definition image_offset_ok :: "cjson option \<Rightarrow> bool" where
  "image_offset_ok tree = (case tree of Some (CNumber (Finite d)) \<Rightarrow> d = 0x20000 | _ \<Rightarrow> False)"

definition part_image :: "cjson \<Rightarrow> manifest_image option" where
  "part_image part =
     (case (image_size (cjson_get (Some part) ''size''), cjson_string (cjson_get (Some part) ''sha256'')) of
        (Some n, Some digest) \<Rightarrow>
          if image_offset_ok (cjson_get (Some part) ''offset'')
          then map_option (\<lambda>d. (d, n)) (parse_ota_sha256 digest) else None
      | _ \<Rightarrow> None)"

text \<open>The loops: None is a refusal, otherwise what was found so far.\<close>

fun inspect_parts :: "string \<Rightarrow> cjson list \<Rightarrow> manifest_image option \<Rightarrow> manifest_image option option" where
  "inspect_parts app [] found = Some found"
| "inspect_parts app (part # parts) found =
     (if \<not> ota_manifest_unique_object part then None
      else case cjson_string (cjson_get (Some part) ''path'') of None \<Rightarrow> None | Some path \<Rightarrow>
        if path \<noteq> app then inspect_parts app parts found
        else if found \<noteq> None then None
        else case part_image part of None \<Rightarrow> None | Some i \<Rightarrow> inspect_parts app parts (Some i))"

fun inspect_builds :: "string \<Rightarrow> cjson list \<Rightarrow> manifest_image option \<Rightarrow> manifest_image option option" where
  "inspect_builds app [] found = Some found"
| "inspect_builds app (build # builds) found =
     (if \<not> ota_manifest_unique_object build then None
      else case cjson_items (cjson_get (Some build) ''parts'') of None \<Rightarrow> None | Some parts \<Rightarrow>
        case inspect_parts app parts found of None \<Rightarrow> None | Some found \<Rightarrow> inspect_builds app builds found)"

definition inspect_ota_image :: "cjson \<Rightarrow> string \<Rightarrow> manifest_image option" where
  "inspect_ota_image tree app =
     (case cjson_items (cjson_get (Some tree) ''builds'') of None \<Rightarrow> None | Some builds \<Rightarrow>
        (case inspect_builds app builds None of None \<Rightarrow> None | Some found \<Rightarrow> found))"

subsection \<open>What is found\<close>

definition part_path :: "cjson \<Rightarrow> string option" where "part_path part = cjson_string (cjson_get (Some part) ''path'')"

definition build_parts :: "cjson \<Rightarrow> cjson list" where
  "build_parts build = (case cjson_items (cjson_get (Some build) ''parts'') of Some parts \<Rightarrow> parts | None \<Rightarrow> [])"

text \<open>The parts are objects without repeated members that name a path.\<close>

definition good_part :: "cjson \<Rightarrow> bool" where
  "good_part part \<longleftrightarrow> ota_manifest_unique_object part \<and> part_path part \<noteq> None"

definition good_build :: "cjson \<Rightarrow> bool" where
  "good_build build \<longleftrightarrow> ota_manifest_unique_object build \<and> cjson_items (cjson_get (Some build) ''parts'') \<noteq> None \<and>
     list_all good_part (build_parts build)"

text \<open>The parts of a path, with the images they describe.\<close>

definition app_parts :: "string \<Rightarrow> cjson list \<Rightarrow> cjson list" where
  "app_parts app parts = filter (\<lambda>p. part_path p = Some app) parts"

lemma app_parts_simps [simp]:
  "app_parts app [] = []"
  "app_parts app (p # ps) = (if part_path p = Some app then p # app_parts app ps else app_parts app ps)"
  "app_parts app (xs @ ys) = app_parts app xs @ app_parts app ys"
  by (simp_all add: app_parts_def)

definition one_image :: "cjson list \<Rightarrow> manifest_image option \<Rightarrow> manifest_image option option" where
  "one_image ps found = (case ps of [] \<Rightarrow> Some found
     | [p] \<Rightarrow> if found = None then map_option Some (part_image p) else None
     | _ \<Rightarrow> None)"

lemma inspect_parts_exact:
  "inspect_parts app parts found =
     (if list_all good_part parts then one_image (app_parts app parts) found else None)"
proof (induction app parts found rule: inspect_parts.induct)
  case (1 app found)
  then show ?case by (simp add: one_image_def)
next
  case (2 app part parts found)
  show ?case
  proof (cases "part_path part")
    case None
    then show ?thesis by (simp add: good_part_def part_path_def)
  next
    case (Some path)
    then show ?thesis
      using 2 by (cases "app_parts app parts")
        (auto simp: good_part_def part_path_def one_image_def split: option.splits list.splits)
  qed
qed

lemma one_image_found: "one_image ps None = Some (Some i) \<longleftrightarrow> (\<exists>p. ps = [p] \<and> part_image p = Some i)"
  by (cases i; cases ps rule: remdups_adj.cases) (auto simp: one_image_def)

lemma one_image_append:
  "(case one_image ps found of None \<Rightarrow> None | Some f \<Rightarrow> one_image qs f) = one_image (ps @ qs) found"
  by (cases ps; cases qs) (auto simp: one_image_def split: option.splits list.splits)

lemma inspect_builds_exact:
  "inspect_builds app builds found =
     (if list_all good_build builds then one_image (app_parts app (concat (map build_parts builds))) found else None)"
proof (induction app builds found rule: inspect_builds.induct)
  case (1 app found)
  then show ?case by (simp add: one_image_def)
next
  case (2 app build builds found)
  show ?case
  proof (cases "cjson_items (cjson_get (Some build) ''parts'')")
    case None
    then show ?thesis by (simp add: good_build_def)
  next
    case (Some parts)
    then have "build_parts build = parts"
      "good_build build \<longleftrightarrow> ota_manifest_unique_object build \<and> list_all good_part parts"
      by (simp_all add: build_parts_def good_build_def)
    with 2 Some show ?thesis
      by (auto simp: inspect_parts_exact one_image_append [symmetric] split: option.splits)
  qed
qed

lemma image_size_iff:
  "image_size t = Some n \<longleftrightarrow>
    (\<exists>d. t = Some (CNumber (Finite (real d))) \<and> 512 \<le> d \<and> d \<le> kOtaUploadMaxBytes \<and> n = of_nat d)"
proof
  assume "image_size t = Some n"
  then obtain r where r: "t = Some (CNumber (Finite r))" "512 \<le> r" "r \<le> of_nat kOtaUploadMaxBytes"
    "of_int \<lfloor>r\<rfloor> = r" "n = of_int \<lfloor>r\<rfloor>"
    by (auto simp: image_size_def split: option.splits cjson.splits json_number.splits if_splits)
  define d where "d = nat \<lfloor>r\<rfloor>"
  have "0 \<le> \<lfloor>r\<rfloor>" using r(2) by simp
  then have "of_nat d = r" "of_int \<lfloor>r\<rfloor> = (of_nat d :: u32)" using r(4) by (simp_all add: d_def)
  with r show "\<exists>d. t = Some (CNumber (Finite (real d))) \<and> 512 \<le> d \<and> d \<le> kOtaUploadMaxBytes \<and> n = of_nat d"
    by (intro exI [of _ d]) auto
qed (auto simp: image_size_def)

lemma part_image_iff:
  "part_image p = Some (digest, n) \<longleftrightarrow>
    (\<exists>text d. cjson_get (Some p) ''offset'' = Some (CNumber (Finite 0x20000)) \<and>
      cjson_get (Some p) ''size'' = Some (CNumber (Finite (real d))) \<and> 512 \<le> d \<and> d \<le> kOtaUploadMaxBytes \<and>
      n = of_nat d \<and> cjson_get (Some p) ''sha256'' = Some (CString text) \<and> parse_ota_sha256 text = Some digest)"
proof -
  have "image_offset_ok t \<longleftrightarrow> t = Some (CNumber (Finite 0x20000))" for t
    by (simp add: image_offset_ok_def split: option.splits cjson.splits json_number.splits)
  moreover have "cjson_string t = Some x \<longleftrightarrow> t = Some (CString x)" for t x
    by (simp add: cjson_string_def split: option.splits cjson.splits)
  moreover have "part_image p = Some (digest, n) \<longleftrightarrow> image_size (cjson_get (Some p) ''size'') = Some n \<and>
      (\<exists>text. cjson_string (cjson_get (Some p) ''sha256'') = Some text \<and> parse_ota_sha256 text = Some digest) \<and>
      image_offset_ok (cjson_get (Some p) ''offset'')"
    by (auto simp: part_image_def split: option.splits)
  ultimately show ?thesis by (simp add: image_size_iff) blast
qed

text \<open>C26: An image is taken from a manifest exactly when its builds are well formed throughout (objects without
  repeated members, every part with a path), exactly one part anywhere in it names this device's application, and
  that part has the fixed offset, a whole size of 512 bytes to one slot and a digest of 64 lower-case hexadecimal digits;
  the image is that digest and size.\<close>

theorem manifest_image_exact:
  "inspect_ota_image tree app = Some (digest, n) \<longleftrightarrow>
     (\<exists>builds part text d.
        cjson_get (Some tree) ''builds'' = Some (CArray builds) \<and> list_all good_build builds \<and>
        filter (\<lambda>p. part_path p = Some app) (concat (map build_parts builds)) = [part] \<and>
        cjson_get (Some part) ''offset'' = Some (CNumber (Finite 0x20000)) \<and>
        cjson_get (Some part) ''size'' = Some (CNumber (Finite (real d))) \<and> 512 \<le> d \<and> d \<le> kOtaUploadMaxBytes \<and>
        n = of_nat d \<and>
        cjson_get (Some part) ''sha256'' = Some (CString text) \<and> parse_ota_sha256 text = Some digest)"
  (is "?l \<longleftrightarrow> ?r")
proof -
  have "?l \<longleftrightarrow> (\<exists>builds. cjson_get (Some tree) ''builds'' = Some (CArray builds) \<and> list_all good_build builds \<and>
      one_image (app_parts app (concat (map build_parts builds))) None = Some (Some (digest, n)))"
    by (auto simp: inspect_ota_image_def cjson_items_def inspect_builds_exact split: option.splits cjson.splits if_splits)
  also have "\<dots> \<longleftrightarrow> (\<exists>builds p. cjson_get (Some tree) ''builds'' = Some (CArray builds) \<and> list_all good_build builds \<and>
      app_parts app (concat (map build_parts builds)) = [p] \<and> part_image p = Some (digest, n))"
    by (auto simp: one_image_found)
  finally have l: "?l \<longleftrightarrow> \<dots>" .
  show ?thesis unfolding l part_image_iff app_parts_def
    by (rule iffI; (elim exE conjE; intro exI conjI; assumption))
qed

end
