(* ===== verification/OtaUpdate.thy ===== *)
theory OtaUpdate
  imports OtaWriter OtaManifest OtaChangelog JsonSyntax
begin

text \<open>
  The update module (\<open>ota_update.cpp\<close>): the shared status with its offer, the admission of an operation under
  the operation gate, the check of the feed, the decision to install and the tasks that drive the coordinator.
  Actions of different tasks are steps of one machine over the shared state; a metadata fetch with its polls is
  one step. Log lines, stack samples and delays are left out, and so are the exception handlers around calls
  that do not throw. \<open>lk n\<close> says whether the n-th acquisition of the status lock in a call succeeds.
\<close>

subsection \<open>Status\<close>

datatype ota_state = StIdle | StChecking | StDownloading | StDone | StError

definition zero_digest :: bytes where "zero_digest = replicate 32 0"

record ota_status =
  st_state :: ota_state
  st_progress :: nat
  st_message :: string
  st_available :: string
  st_update_available :: bool
  st_upload :: bool
  st_current :: string
  st_channel :: ota_channel
  st_configured :: ota_channel
  st_target_pr :: u32
  st_offer_id :: string
  st_image_sha256 :: bytes
  st_image_bytes :: u32
  st_channel_state :: u32
  st_generation :: u32
  st_manifest_sha256 :: bytes
  st_notes_sha256 :: bytes

definition blank_status :: ota_status where
  "blank_status = \<lparr>st_state = StIdle, st_progress = 0, st_message = [], st_available = [], st_update_available = False,
     st_upload = False, st_current = [], st_channel = Release, st_configured = Release, st_target_pr = 0, st_offer_id = [],
     st_image_sha256 = zero_digest, st_image_bytes = 0, st_channel_state = 0, st_generation = 0,
     st_manifest_sha256 = zero_digest, st_notes_sha256 = zero_digest\<rparr>"

definition status_text :: "nat \<Rightarrow> string \<Rightarrow> string" where
  "status_text n t = take (n - 1) (bounded_c_string_view t)"

definition initial_status :: ota_status where
  "initial_status = blank_status\<lparr>st_message := status_text 96 ''idle''\<rparr>"

record check_result =
  cr_ok :: bool
  cr_update_available :: bool
  cr_current :: string
  cr_available :: string
  cr_reason :: string
  cr_target_pr :: u32
  cr_manifest_sha256 :: bytes
  cr_notes_sha256 :: bytes
  cr_image_sha256 :: bytes
  cr_image_bytes :: u32

definition blank_check :: check_result where
  "blank_check = \<lparr>cr_ok = False, cr_update_available = False, cr_current = [], cr_available = [],
     cr_reason = ''update check failed'', cr_target_pr = 0, cr_manifest_sha256 = zero_digest,
     cr_notes_sha256 = zero_digest, cr_image_sha256 = zero_digest, cr_image_bytes = 0\<rparr>"

definition em_dash :: string where "em_dash = [CHR 0xE2, CHR 0x80, CHR 0x94]"

definition ota_start_reason :: "ota_start_result \<Rightarrow> bool \<Rightarrow> string" where
  "ota_start_reason r check = (case r of
       OtaStarted \<Rightarrow> if check then ''version check started'' else ''update started '' @ em_dash @ '' the device will reboot when done''
     | OtaBusy \<Rightarrow> ''another device operation is already in progress''
     | OtaPendingVerification \<Rightarrow> ''running firmware is still pending verification''
     | OtaInternalError \<Rightarrow> if check then ''could not start update check'' else ''could not start OTA task''
     | OtaNoMemory \<Rightarrow> ''not enough memory for update''
     | OtaOfferChanged \<Rightarrow> ''update offer changed; check again and confirm the new offer''
     | OtaUnavailable \<Rightarrow> ''OTA service or firmware verification state is unavailable'')"

definition kOtaNoMemory :: string where "kOtaNoMemory = ''not enough memory for update''"

subsection \<open>The lease\<close>

text \<open>\<open>release_owned\<close>: the gate and the two flags that say an operation runs.\<close>

type_synonym lease_word = "gate_state \<times> bool \<times> bool"

definition release_owned :: "lease_word \<Rightarrow> bool \<times> lease_word" where
  "release_owned = (\<lambda>(g, running, updating).
     if g \<noteq> GateOta then (False, g, running, updating)
     else let (ok, g') = gate_finish GateOta g in (ok, g', False, False))"

text \<open>What the writer of an operation works on: the device, the lease word and whether the lease is still held.\<close>

record 'd leased =
  ld_device :: 'd
  ld_word :: lease_word
  ld_held :: bool

definition ota_lease_release :: "'d leased \<Rightarrow> bool \<times> 'd leased" where
  "ota_lease_release l =
     (if \<not> ld_held l then (True, l)
      else case release_owned (ld_word l) of
          (False, w) \<Rightarrow> (False, l\<lparr>ld_word := w\<rparr>)
        | (True, w) \<Rightarrow> (True, l\<lparr>ld_word := w, ld_held := False\<rparr>))"

definition on_device :: "('d \<Rightarrow> 'r \<times> 'd) \<Rightarrow> 'd leased \<Rightarrow> 'r \<times> 'd leased" where
  "on_device f l = (let (r, d) = f (ld_device l) in (r, l\<lparr>ld_device := d\<rparr>))"

definition leased_sdk :: "'d esp_sdk \<Rightarrow> 'd leased esp_sdk" where
  "leased_sdk sdk = \<lparr>sdk_header_bytes = sdk_header_bytes sdk, sdk_segment_bytes = sdk_segment_bytes sdk,
     sdk_descriptor_bytes = sdk_descriptor_bytes sdk, sdk_header_magic = sdk_header_magic sdk,
     sdk_image_magic = sdk_image_magic sdk, sdk_magic_at = sdk_magic_at sdk, sdk_app_magic = sdk_app_magic sdk,
     sdk_version_at = sdk_version_at sdk, sdk_version_bytes = sdk_version_bytes sdk, sdk_project_at = sdk_project_at sdk,
     sdk_spi_check = sdk_spi_check sdk, sdk_image_valid = sdk_image_valid sdk,
     sdk_next_partition = (\<lambda>l. sdk_next_partition sdk (ld_device l)),
     sdk_running_partition = (\<lambda>l. sdk_running_partition sdk (ld_device l)),
     sdk_crypto_init = on_device (sdk_crypto_init sdk), sdk_hash_setup = on_device (sdk_hash_setup sdk),
     sdk_hash_update = (\<lambda>b. on_device (sdk_hash_update sdk b)),
     sdk_hash_finish = (\<lambda>l. let (r, out, d) = sdk_hash_finish sdk (ld_device l) in (r, out, l\<lparr>ld_device := d\<rparr>)),
     sdk_hash_abort = on_device (sdk_hash_abort sdk),
     sdk_ota_begin = (\<lambda>p l. let (r, h, d) = sdk_ota_begin sdk p (ld_device l) in (r, h, l\<lparr>ld_device := d\<rparr>)),
     sdk_ota_write = (\<lambda>h b. on_device (sdk_ota_write sdk h b)),
     sdk_ota_end = (\<lambda>h. on_device (sdk_ota_end sdk h)), sdk_ota_abort = (\<lambda>h. on_device (sdk_ota_abort sdk h)),
     sdk_set_boot = (\<lambda>p. on_device (sdk_set_boot sdk p)), sdk_release_lease = ota_lease_release\<rparr>"

subsection \<open>State\<close>

datatype network_launch = NlNotAttempted | NlUnknown | NlStarted | NlRefused
datatype create_result = CreatePass | CreateFail | CreateThrows

text \<open>Where the task of an operation is.\<close>

datatype task_at = TkCreated | TkNetwork | TkChecked check_result | TkImage | TkUpload nat | TkLeaving | TkGone | TkParked

type_synonym ('p, 'd) driver = "('p, 'd leased raw_writer) coordinator"

record ('p, 'd) operation =
  op_coord :: "('p, 'd) driver"
  op_clock :: "nat \<Rightarrow> u64"
  op_target_pr :: u32
  op_channel :: ota_channel
  op_image :: bool
  op_channel_state :: u32
  op_generation :: u32
  op_boot_nonce :: u64
  op_expected :: check_result
  op_done :: bool
  op_launch :: network_launch
  op_upload :: "nat option"
  op_task :: task_at

record deferred_check =
  dc_origin :: u64
  dc_pr :: u32
  dc_channel_state :: u32
  dc_generation :: u32

record ('p, 'd) update_world =
  uw_gate :: gate_state
  uw_verification :: ota_verification_state
  uw_status :: ota_status
  uw_changelog :: string
  uw_channel :: u32
  uw_serial :: u32
  uw_running :: bool
  uw_updating :: bool
  uw_target_pr :: u32
  uw_abort :: bool
  uw_slot :: u32
  uw_device :: 'd
  uw_operation :: "('p, 'd) operation option"
  uw_ticket :: nat
  uw_capture :: deferred_check
  uw_deferred_serial :: nat

text \<open>The fixed surroundings: the SDK, the two parser libraries, SHA-256, the configured addresses, the running version.\<close>

record ('p, 'd) update_env =
  ue_sdk :: "'d esp_sdk"
  ue_http :: "'p http_parser_api"
  ue_url :: url_parser
  ue_sha256 :: "bytes \<Rightarrow> bytes option"
  ue_parse :: "string \<Rightarrow> (cjson \<times> nat) option"
  ue_version :: string
  ue_manifest_url :: string
  ue_firmware_base :: string
  ue_suffix :: string
  ue_nonce :: u64

definition co_env :: "('p, 'd) update_env \<Rightarrow> (nat \<Rightarrow> u64) \<Rightarrow> ('p, 'd leased raw_writer) ota_env" where
  "co_env e clock = \<lparr>env_http = ue_http e, env_url = ue_url e, env_clock = clock,
     env_effects = raw_effects (leased_sdk (ue_sdk e)), env_sink = metadata_append kOtaManifestMaxBytes,
     env_overhead = kMetadataBudgetBytes\<rparr>"

text \<open>A call of the coordinator: its writer sees the lease word of the moment, and what it does to it is shared.\<close>

definition lend :: "lease_word \<Rightarrow> ('p, 'd) driver \<Rightarrow> ('p, 'd) driver" where
  "lend word c = c\<lparr>co_writer := (co_writer c)\<lparr>rw_device := (rw_device (co_writer c))\<lparr>ld_word := word\<rparr>\<rparr>\<rparr>"

definition on_driver :: "(('p, 'd) driver \<Rightarrow> 'r \<times> ('p, 'd) driver) \<Rightarrow> ('p, 'd) operation \<Rightarrow> ('p, 'd) update_world \<Rightarrow>
    'r \<times> ('p, 'd) operation \<times> ('p, 'd) update_world" where
  "on_driver f op w =
     (let (r, c) = f (lend (uw_gate w, uw_running w, uw_updating w) (op_coord op));
          l = rw_device (co_writer c); (g, running, updating) = ld_word l in
      (r, op\<lparr>op_coord := c\<rparr>, w\<lparr>uw_gate := g, uw_running := running, uw_updating := updating, uw_device := ld_device l\<rparr>))"

definition on_driver_op :: "('p, 'd leased raw_writer) co_op \<Rightarrow> ('p, 'd) operation \<Rightarrow> ('p, 'd) update_world \<Rightarrow>
    ('p, 'd) operation \<times> ('p, 'd) update_world" where
  "on_driver_op f op w = snd (on_driver (\<lambda>c. ((), f c)) op w)"

definition release_unstarted :: "('p, 'd) update_world \<Rightarrow> ('p, 'd) update_world" where
  "release_unstarted w = (let (g, running, updating) = snd (release_owned (uw_gate w, uw_running w, uw_updating w)) in
     w\<lparr>uw_gate := g, uw_running := running, uw_updating := updating\<rparr>)"

subsection \<open>Publishing\<close>

definition kOtaChangelogCapacity :: nat where "kOtaChangelogCapacity = 1024"

definition set_changelog :: "string option \<Rightarrow> ('p, 'd) update_world \<Rightarrow> ('p, 'd) update_world" where
  "set_changelog t w = w\<lparr>uw_changelog := (case t of None \<Rightarrow> [] | Some t \<Rightarrow> take kOtaChangelogCapacity (bounded_c_string_view t))\<rparr>"

definition set_state :: "bool \<Rightarrow> ota_state \<Rightarrow> nat \<Rightarrow> string \<Rightarrow> bool \<Rightarrow> ('p, 'd) update_world \<Rightarrow> ('p, 'd) update_world" where
  "set_state lk st pct msg upload w =
     (if \<not> lk then w
      else w\<lparr>uw_status := (uw_status w)\<lparr>st_state := st, st_progress := pct, st_target_pr := uw_target_pr w,
               st_message := status_text 96 msg, st_upload := upload\<rparr>\<rparr>)"

definition publish_check_status :: "bool \<Rightarrow> ota_status \<Rightarrow> bool \<Rightarrow> ('p, 'd) update_world \<Rightarrow> ('p, 'd) update_world" where
  "publish_check_status lk candidate keep_upload w =
     (if \<not> lk then w
      else let w = w\<lparr>uw_status := candidate\<lparr>st_upload := keep_upload \<and> st_upload (uw_status w)\<rparr>\<rparr> in
        if st_update_available candidate then w else set_changelog None w)"

definition set_check_error :: "('p, 'd) update_env \<Rightarrow> bool \<Rightarrow> string \<Rightarrow> ('p, 'd) update_world \<Rightarrow> ('p, 'd) update_world" where
  "set_check_error e lk message w =
     publish_check_status lk (blank_status\<lparr>st_state := StError, st_target_pr := uw_target_pr w,
       st_message := status_text 96 message, st_current := status_text 32 (ue_version e)\<rparr>) True w"

definition publish_upload_start :: "bool \<Rightarrow> ('p, 'd) update_world \<Rightarrow> bool \<times> ('p, 'd) update_world" where
  "publish_upload_start lk w =
     (if \<not> lk then (False, w)
      else (True, set_changelog None (w\<lparr>uw_status := (uw_status w)\<lparr>st_upload := True, st_update_available := False,
              st_available := [], st_target_pr := 0\<rparr>\<rparr>)))"

definition publish_operation_start :: "('p, 'd) update_env \<Rightarrow> bool \<Rightarrow> bool \<Rightarrow> u32 \<Rightarrow> u32 \<Rightarrow> check_result option \<Rightarrow>
    ('p, 'd) update_world \<Rightarrow> bool \<times> ('p, 'd) update_world" where
  "publish_operation_start e lk install channel_state generation expected w0 =
     (let w = w0\<lparr>uw_running := True, uw_updating := install\<rparr>;
          candidate = blank_status\<lparr>st_state := (if install then StDownloading else StChecking),
            st_target_pr := uw_target_pr w, st_channel_state := channel_state,
            st_channel := ota_channel_in_state channel_state, st_generation := generation,
            st_available := (case expected of Some x \<Rightarrow> if install then cr_available x else [] | None \<Rightarrow> []),
            st_message := status_text 96 (if install then ''starting download'' else ''checking for updates''),
            st_current := status_text 32 (ue_version e)\<rparr> in
      if \<not> lk then (False, w) else (True, set_changelog None (w\<lparr>uw_status := candidate\<rparr>)))"

subsection \<open>Readers\<close>

definition unavailable_status :: "('p, 'd) update_world \<Rightarrow> ota_status" where
  "unavailable_status w = blank_status\<lparr>st_state := StError, st_message := status_text 96 ''unavailable'',
     st_channel := ota_channel_in_state (uw_channel w), st_configured := ota_channel_in_state (uw_channel w)\<rparr>"

definition offer_is_current :: "('p, 'd) update_world \<Rightarrow> bool" where
  "offer_is_current w \<longleftrightarrow> st_generation (uw_status w) = uw_serial w \<and>
     ota_offer_current (st_channel_state (uw_status w)) (uw_channel w) (st_generation (uw_status w))
       (st_update_available (uw_status w))"

definition ota_get_status :: "bool \<Rightarrow> ('p, 'd) update_world \<Rightarrow> ota_status" where
  "ota_get_status lk w =
     (if \<not> lk then unavailable_status w
      else let s = (uw_status w)\<lparr>st_configured := ota_channel_in_state (uw_channel w)\<rparr> in
        if offer_is_current w then s
        else s\<lparr>st_update_available := False,
               st_available := (if st_upload s \<or> st_state s \<noteq> StDownloading \<and> st_state s \<noteq> StDone then [] else st_available s),
               st_offer_id := [], st_image_sha256 := zero_digest, st_image_bytes := 0\<rparr>)"

text \<open>The text, if any, and whether the given offer is stale.\<close>

definition ota_get_changelog :: "bool \<Rightarrow> nat \<Rightarrow> string \<Rightarrow> ('p, 'd) update_world \<Rightarrow> string option \<times> bool" where
  "ota_get_changelog lk max_len offer_id w =
     (if max_len = 0 \<or> \<not> lk \<or> \<not> offer_is_current w \<or> offer_id \<noteq> [] \<and> offer_id \<noteq> st_offer_id (uw_status w)
      then (None, offer_id \<noteq> [])
      else if uw_changelog w = [] then (None, False)
      else (Some (take (max_len - 1) (uw_changelog w)), False))"

definition ota_is_busy :: "('p, 'd) update_world \<Rightarrow> bool" where
  "ota_is_busy w \<longleftrightarrow> uw_running w \<or> uw_gate w = GateOta"

definition ota_set_channel :: "ota_channel \<Rightarrow> ('p, 'd) update_world \<Rightarrow> ('p, 'd) update_world" where
  "ota_set_channel channel w = w\<lparr>uw_channel := ota_changed_channel_state (uw_channel w) channel\<rparr>"

definition ota_request_heap_abort :: "('p, 'd) update_world \<Rightarrow> ('p, 'd) update_world" where
  "ota_request_heap_abort w = w\<lparr>uw_abort := True\<rparr>"


subsection \<open>The check of the feed\<close>

definition text_of :: "bytes \<Rightarrow> string" where "text_of b = map (\<lambda>x. char_of (unat x)) b"
definition bytes_of :: "string \<Rightarrow> bytes" where "bytes_of s = map (\<lambda>c. of_nat (of_char c)) s"

datatype fetch_result = FetchOk | FetchOptionalClosed | FetchNoMemory | FetchFailed | FetchDeadline

text \<open>One turn of a polling loop: whether an abort was requested and what the network task made of the job.\<close>

type_synonym poll_turn = "bool \<times> job"

definition poll_operation :: "('p, 'w) ota_env \<Rightarrow> bool \<Rightarrow> ('p, 'w) co_op" where
  "poll_operation env aborted c = co_poll env (if aborted then co_cancel env OcDeadline c else c)"

text \<open>A look at the budget with the clock of the operation.\<close>

definition budget_look :: "('p, 'w) ota_env \<Rightarrow> ('p, 'w) coordinator \<Rightarrow> bool \<times> ('p, 'w) coordinator" where
  "budget_look env c = (let (ok, b) = budget_live (env_clock env (co_ticks c)) (co_budget c) in
     (ok, c\<lparr>co_budget := b, co_ticks := co_ticks c + 1\<rparr>))"

definition fetch_failure :: "outcome \<Rightarrow> fetch_result" where
  "fetch_failure oc = (if oc = OcNoMemory then FetchNoMemory else if oc = OcDeadline then FetchDeadline else FetchFailed)"

text \<open>The polls of a fetch; None while it has not come to an end.\<close>

fun fetch_loop :: "('p, 'w) ota_env \<Rightarrow> poll_turn list \<Rightarrow> ('p, 'w) coordinator \<Rightarrow>
    (fetch_result \<times> bytes \<times> ('p, 'w) coordinator) option" where
  "fetch_loop env [] c = None"
| "fetch_loop env ((aborted, j) # turns) c0 =
     (let c = poll_operation env aborted (c0\<lparr>co_job := j\<rparr>); oc = co_outcome c in
      if oc = OcMetadataReady \<and> in_phase PhClosed (job_control (co_job c)) then
        Some (if co_metadata_failed c then (FetchOptionalClosed, [], c) else (FetchOk, co_metadata c, c))
      else if oc \<noteq> OcWorking \<and> oc \<noteq> OcMetadataReady then Some (fetch_failure oc, [], c)
      else fetch_loop env turns c)"

definition http_get_to_buffer :: "('p, 'w) ota_env \<Rightarrow> string \<Rightarrow> bool \<Rightarrow> bool \<times> poll_turn list \<Rightarrow> ('p, 'w) coordinator \<Rightarrow>
    (fetch_result \<times> bytes \<times> ('p, 'w) coordinator) option" where
  "http_get_to_buffer env url optional script c0 =
     (if \<not> fst script then Some (FetchNoMemory, [], co_cancel env OcNoMemory c0)
      else case co_start env url (http_limits_for kOtaManifestMaxBytes False) False optional (c0\<lparr>co_metadata := []\<rparr>) of
          (False, c) \<Rightarrow> (case budget_look env c of (live, c) \<Rightarrow>
             Some (if live then FetchFailed else FetchDeadline, [],
                   co_cancel env (if live then OcProtocolError else OcDeadline) c))
        | (True, c) \<Rightarrow> fetch_loop env (snd script) c)"

definition app_path :: "('p, 'd) update_env \<Rightarrow> string" where
  "app_path e = ''tesla-key-esp32'' @ ue_suffix e @ ''.bin''"

text \<open>What the manifest says: an error or the result so far.\<close>

definition read_manifest :: "('p, 'd) update_env \<Rightarrow> bytes \<Rightarrow> check_result \<Rightarrow> check_result + check_result" where
  "read_manifest e body res0 = (case ue_sha256 e body of
       None \<Rightarrow> Inl (res0\<lparr>cr_reason := ''could not identify update manifest''\<rparr>)
     | Some digest \<Rightarrow>
         let res = res0\<lparr>cr_manifest_sha256 := digest\<rparr>; text = text_of body;
             invalid = Inl (res\<lparr>cr_ok := False, cr_reason := ''invalid update manifest''\<rparr>) in
         case json_materialize (ue_parse e) text 0 of
           (None, status) \<Rightarrow> if status = MatNoMemory
             then Inl (res\<lparr>cr_ok := False, cr_reason := ''update manifest ran out of resources''\<rparr>) else invalid
         | (Some (tree, parse_end), status) \<Rightarrow>
             (case (inspect_ota_manifest tree, inspect_ota_image tree (app_path e)) of
                (Inr version, Some (sha, n)) \<Rightarrow>
                  if parse_end \<noteq> length text then invalid
                  else if \<not> canonical_ota_version version
                  then Inl (res\<lparr>cr_ok := False, cr_reason := ''invalid version in manifest''\<rparr>)
                  else Inr (res\<lparr>cr_available := status_text 32 version, cr_image_sha256 := sha, cr_image_bytes := n\<rparr>)
              | _ \<Rightarrow> invalid))"

definition withdrawn :: "string \<Rightarrow> check_result \<Rightarrow> check_result" where
  "withdrawn why res = res\<lparr>cr_ok := False, cr_update_available := False, cr_reason := why\<rparr>"

text \<open>The selected notes of the update, if the feed has them: the text to publish, and whether the check goes on.\<close>

definition read_notes :: "('p, 'd) update_env \<Rightarrow> bytes \<Rightarrow> check_result \<Rightarrow> bool \<times> check_result \<times> string option" where
  "read_notes e body res =
     (case manifest_changelog (text_of body) (cr_available res) (kOtaChangelogCapacity + 1) of
        None \<Rightarrow> (True, res, None)
      | Some decoded \<Rightarrow> (case ota_changelog_select_range decoded (cr_current res) (cr_available res) of
          (kind, selected) \<Rightarrow>
            if kind = RangeInvalid then (True, res, None)
            else (case ue_sha256 e (bytes_of selected) of
                None \<Rightarrow> (False, withdrawn ''could not identify release notes'' res, None)
              | Some digest \<Rightarrow> (True, res\<lparr>cr_notes_sha256 := digest\<rparr>, Some selected))))"

definition check_deadline :: string where "check_deadline = ''update check deadline reached''"

definition fetch_notes :: "('p, 'd) update_env \<Rightarrow> ('p, 'w) ota_env \<Rightarrow> string \<Rightarrow> bool \<times> poll_turn list \<Rightarrow> check_result \<Rightarrow>
    ('p, 'w) coordinator \<Rightarrow> (bool \<times> check_result \<times> string option \<times> ('p, 'w) coordinator) option" where
  "fetch_notes e env manifest_url script res c =
     (case ota_manifest_sibling_url manifest_url ''changelog.json'' 256 of
        None \<Rightarrow> Some (True, res, None, c)
      | Some url \<Rightarrow> (case http_get_to_buffer env url True script c of None \<Rightarrow> None | Some (r, body, c) \<Rightarrow>
          if r = FetchNoMemory then Some (False, withdrawn kOtaNoMemory res, None, c)
          else if r = FetchDeadline then Some (False, withdrawn check_deadline res, None, c)
          else if r = FetchFailed then Some (False, withdrawn ''could not complete release notes transfer'' res, None, c)
          else if r = FetchOk then (case read_notes e body res of (on, res, notes) \<Rightarrow> Some (on, res, notes, c))
          else Some (True, res, None, c)))"

text \<open>\<open>perform_check\<close> up to its last poll: whether that poll is still made, the result, the notes to publish.\<close>

definition perform_check :: "('p, 'd) update_env \<Rightarrow> ('p, 'w) ota_env \<Rightarrow> u32 \<Rightarrow> ota_channel \<Rightarrow>
    bool \<times> poll_turn list \<Rightarrow> bool \<times> poll_turn list \<Rightarrow> ('p, 'w) coordinator \<Rightarrow>
    (bool \<times> check_result \<times> string option \<times> ('p, 'w) coordinator) option" where
  "perform_check e env pr channel manifest_script notes_script c0 =
     (let res = blank_check\<lparr>cr_target_pr := pr\<rparr> in
      if \<not> canonical_ota_version (ue_version e)
      then Some (False, res\<lparr>cr_reason := ''invalid firmware version''\<rparr>, None, c0)
      else let res = res\<lparr>cr_current := status_text 32 (ue_version e)\<rparr>;
               url = resolve_manifest_url_into pr channel (ue_manifest_url e) in
      case http_get_to_buffer env url False manifest_script c0 of None \<Rightarrow> None | Some (r, body, c) \<Rightarrow>
      if r \<noteq> FetchOk then Some (False, res\<lparr>cr_ok := False, cr_reason := (if r = FetchNoMemory then kOtaNoMemory
          else if r = FetchDeadline then check_deadline else ''could not reach update server'')\<rparr>, None, c)
      else case read_manifest e body res of Inl res \<Rightarrow> Some (False, res, None, c) | Inr res \<Rightarrow>
      let offered = is_ota_update_available (cr_available res) (cr_current res) pr channel;
          res = res\<lparr>cr_ok := True, cr_update_available := offered,
                    cr_reason := (if offered then ''update available'' else ''up to date'')\<rparr> in
      case ue_sha256 e [] of None \<Rightarrow> Some (False, withdrawn ''could not identify release notes'' res, None, c)
      | Some digest \<Rightarrow>
          let res = res\<lparr>cr_notes_sha256 := digest\<rparr> in
          if offered then fetch_notes e env url notes_script res c else Some (True, res, None, c))"


subsection \<open>The end of a check\<close>

definition set_check_done :: "bool \<Rightarrow> check_result \<Rightarrow> ('p, 'd) operation \<Rightarrow> ('p, 'd) update_world \<Rightarrow> ('p, 'd) update_world" where
  "set_check_done lk r op w =
     (let offered = cr_ok r \<and> cr_update_available r \<and> \<not> op_image op;
          plain = \<lparr>st_state = (if cr_ok r then StIdle else StError), st_progress = 0, st_message = status_text 96 (cr_reason r),
            st_available = cr_available r, st_update_available = offered, st_upload = False, st_current = cr_current r,
            st_channel = op_channel op, st_configured = Release, st_target_pr = cr_target_pr r, st_offer_id = [],
            st_image_sha256 = cr_image_sha256 r, st_image_bytes = cr_image_bytes r,
            st_channel_state = op_channel_state op, st_generation = op_generation op,
            st_manifest_sha256 = cr_manifest_sha256 r, st_notes_sha256 = cr_notes_sha256 r\<rparr>;
          named = (if \<not> offered then plain
            else case format_ota_offer_id (op_boot_nonce op) (op_generation op) of
              Some offer \<Rightarrow> plain\<lparr>st_offer_id := offer\<rparr>
            | None \<Rightarrow> plain\<lparr>st_update_available := False, st_state := StError,
                st_message := status_text 96 ''update offer identity unavailable''\<rparr>) in
      if \<not> lk \<or> st_generation (uw_status w) \<noteq> op_generation op \<or> op_generation op \<noteq> uw_serial w then w
      else let candidate = (if op_channel_state op \<noteq> uw_channel w
             then named\<lparr>st_state := StError, st_update_available := False,
               st_message := status_text 96 ''update channel changed; check again''\<rparr> else named);
               w = w\<lparr>uw_status := candidate\<rparr> in
        if st_update_available candidate then w else set_changelog None w)"

definition publish_notes :: "bool \<Rightarrow> string option \<Rightarrow> ('p, 'd) operation \<Rightarrow> ('p, 'd) update_world \<Rightarrow> ('p, 'd) update_world" where
  "publish_notes lk notes op w =
     (if notes \<noteq> None \<and> lk \<and> \<not> op_image op \<and> st_generation (uw_status w) = op_generation op \<and>
         op_channel_state op = uw_channel w then set_changelog notes w else w)"

subsection \<open>Admission\<close>

definition acknowledge_no_network :: "('p, 'd) operation \<Rightarrow> ('p, 'd) operation" where
  "acknowledge_no_network op =
     (if op_launch op = NlUnknown \<or> op_launch op = NlStarted then op
      else op\<lparr>op_coord := (op_coord op)\<lparr>co_job := (co_job (op_coord op))\<lparr>job_control := kRetired OR phase_word PhAcked\<rparr>\<rparr>\<rparr>)"

definition op_env :: "('p, 'd) update_env \<Rightarrow> ('p, 'd) operation \<Rightarrow> ('p, 'd leased raw_writer) ota_env" where
  "op_env e op = co_env e (op_clock op)"

definition op_cancel :: "('p, 'd) update_env \<Rightarrow> outcome \<Rightarrow> ('p, 'd) operation \<Rightarrow> ('p, 'd) update_world \<Rightarrow>
    ('p, 'd) operation \<times> ('p, 'd) update_world" where
  "op_cancel e oc op = on_driver_op (co_cancel (op_env e op) oc) op"

text \<open>\<open>complete_operation\<close>: without the release of the lease the task parks for ever.\<close>

definition complete_operation :: "('p, 'd) update_env \<Rightarrow> ('p, 'd) operation \<Rightarrow> ('p, 'd) update_world \<Rightarrow>
    ('p, 'd) operation \<times> ('p, 'd) update_world" where
  "complete_operation e op0 w0 =
     (let c = op_coord op0;
          (op, w) = (if co_lease_released c then (op0, w0)
            else if co_outcome c = OcMetadataReady then on_driver_op (co_finish_metadata (op_env e op0)) op0 w0
            else if co_outcome c = OcIdle \<or> co_outcome c = OcWorking then op_cancel e OcNetworkError op0 w0
            else (op0, w0)) in
      if co_lease_released (op_coord op) then (op\<lparr>op_done := True, op_task := TkGone\<rparr>, w) else (op\<lparr>op_task := TkParked\<rparr>, w))"

definition recovery_reference_ready_owned :: "('p, 'd) update_env \<Rightarrow> gate_state \<Rightarrow> ('p, 'd) update_world \<Rightarrow> bool" where
  "recovery_reference_ready_owned e owner w \<longleftrightarrow>
     owner \<in> {GateOta, GateHealthCommit, GateConfigRestart} \<and> uw_gate w = owner \<and>
     (case uw_operation w of None \<Rightarrow> True
      | Some op \<Rightarrow> op_done op \<and> co_can_reclaim (op_env e op) (op_coord op) \<and> slot_owns (uw_slot w) (co_job (op_coord op)))"

definition reclaim_finished_operation :: "('p, 'd) update_env \<Rightarrow> ('p, 'd) update_world \<Rightarrow> bool \<times> ('p, 'd) update_world" where
  "reclaim_finished_operation e w = (case uw_operation w of
       None \<Rightarrow> (True, w)
     | Some op \<Rightarrow>
         if \<not> op_done op \<or> \<not> co_can_reclaim (op_env e op) (op_coord op) then (False, w)
         else (case release_after_ack (co_job (op_coord op)) True (uw_slot w) of
             (False, slot) \<Rightarrow> (False, w\<lparr>uw_slot := slot\<rparr>)
           | (True, slot) \<Rightarrow> (True, w\<lparr>uw_slot := slot, uw_operation := None\<rparr>)))"

text \<open>What a start meets: the time, the state of the running image, the largest free block, allocation and task creation.\<close>

record start_input =
  si_origin :: u64
  si_lock :: "nat \<Rightarrow> bool"
  si_image_state :: ota_verification_state
  si_largest :: nat
  si_alloc :: bool
  si_clock :: "nat \<Rightarrow> u64"
  si_create :: create_result
  si_accepted :: bool

definition reserve_operation :: "('p, 'd) update_env \<Rightarrow> bool \<Rightarrow> ota_verification_state \<Rightarrow> u32 \<Rightarrow> bool \<Rightarrow>
    ('p, 'd) update_world \<Rightarrow> ota_start_result \<times> ('p, 'd) update_world" where
  "reserve_operation e lk verification pr install w0 =
     (case gate_try_begin GateOta (uw_gate w0) of (False, g) \<Rightarrow> (OtaBusy, w0\<lparr>uw_gate := g\<rparr>) | (True, g) \<Rightarrow>
      case reclaim_finished_operation e (w0\<lparr>uw_gate := g\<rparr>) of (False, w) \<Rightarrow> (OtaBusy, release_unstarted w) | (True, w) \<Rightarrow>
      let w = (if install then w\<lparr>uw_verification := verification\<rparr> else w) in
      if install \<and> verification \<noteq> VerStable
      then (if verification = VerPendingVerify then OtaPendingVerification else OtaUnavailable, release_unstarted w)
      else let w = w\<lparr>uw_target_pr := pr\<rparr> in
      if \<not> lk then (OtaUnavailable, release_unstarted w) else (OtaStarted, w\<lparr>uw_abort := False\<rparr>))"

definition advance_offer_generation :: "('p, 'd) update_world \<Rightarrow> u32 \<times> ('p, 'd) update_world" where
  "advance_offer_generation w = (let next = ota_next_offer_generation (uw_serial w) in (next, w\<lparr>uw_serial := next\<rparr>))"

definition kMaximumImageBytes :: nat where "kMaximumImageBytes = 0x1f0000"

definition operation_budget :: "u64 \<Rightarrow> bool \<Rightarrow> op_budget" where
  "operation_budget origin install =
     snd (budget_begin origin (kMetadataBudgetBytes + (if install then of_nat kMaximumImageBytes else 0)) kOperationTimePolicy new_budget)"

definition blank_policy :: image_policy where
  "blank_policy = \<lparr>pol_expected = [], pol_current = [], pol_target_pr = 0, pol_channel = Release, pol_direct_upload = False,
     pol_expected_sha256 = zero_digest, pol_expected_bytes = 0\<rparr>"

definition new_operation :: "('p, 'd) update_env \<Rightarrow> start_input \<Rightarrow> u64 \<Rightarrow> u32 \<Rightarrow> u32 \<Rightarrow> bool \<Rightarrow> u32 \<Rightarrow> check_result option \<Rightarrow>
    ('p, 'd) update_world \<Rightarrow> ('p, 'd) operation" where
  "new_operation e i origin pr channel_state install generation expected w =
     (let budget = operation_budget origin install in
      \<lparr>op_coord = new_coordinator (uw_slot w) (new_job 1 origin (bd_deadline budget)) budget
         (new_raw_writer blank_policy \<lparr>ld_device = uw_device w, ld_word = (uw_gate w, uw_running w, uw_updating w), ld_held = True\<rparr>),
       op_clock = si_clock i, op_target_pr = pr, op_channel = ota_channel_in_state channel_state, op_image = install,
       op_channel_state = channel_state, op_generation = generation, op_boot_nonce = ue_nonce e,
       op_expected = (case expected of Some x \<Rightarrow> x | None \<Rightarrow> blank_check), op_done = False, op_launch = NlNotAttempted,
       op_upload = None, op_task = TkCreated\<rparr>)"

text \<open>The operation is stored only when everything succeeded.\<close>

definition prepare_owned_operation :: "('p, 'd) update_env \<Rightarrow> start_input \<Rightarrow> u64 \<Rightarrow> u32 \<Rightarrow> u32 \<Rightarrow> bool \<Rightarrow> u32 \<Rightarrow>
    check_result option \<Rightarrow> ('p, 'd) update_world \<Rightarrow> ota_start_result \<times> ('p, 'd) update_world" where
  "prepare_owned_operation e i origin pr channel_state install generation expected w0 =
     (if \<not> ota_recovery_memory_affordable (si_largest i) (ota_recovery_required_bytes_for OperationEntry kOtaRecoveryRequirements)
      then (OtaNoMemory, release_unstarted (set_check_error e (si_lock i 3) kOtaNoMemory w0))
      else case publish_operation_start e (si_lock i 4) install channel_state generation expected w0 of
        (False, w) \<Rightarrow> (OtaUnavailable, release_unstarted w)
      | (True, w) \<Rightarrow>
          if \<not> si_alloc i then (OtaInternalError, release_unstarted (set_check_error e (si_lock i 5) kOtaNoMemory w))
          else case slot_claim 1 (uw_slot w) of
            (False, slot) \<Rightarrow> (OtaBusy, release_unstarted (w\<lparr>uw_slot := slot\<rparr>))
          | (True, slot) \<Rightarrow>
              let w = w\<lparr>uw_slot := slot\<rparr> in
              (OtaStarted, w\<lparr>uw_operation := Some (new_operation e i origin pr channel_state install generation expected w)\<rparr>))"

definition exhausted_message :: string where
  "exhausted_message = ''update offer identity exhausted; reboot required''"

definition prepare_operation :: "('p, 'd) update_env \<Rightarrow> start_input \<Rightarrow> u32 \<Rightarrow> bool \<Rightarrow> ('p, 'd) update_world \<Rightarrow>
    ota_start_result \<times> ('p, 'd) update_world" where
  "prepare_operation e i pr install w0 =
     (if install then (OtaOfferChanged, w0)
      else if \<not> si_lock i 0 then (OtaUnavailable, w0)
      else case reserve_operation e (si_lock i 1) (si_image_state i) pr install w0 of (r, w) \<Rightarrow>
      if r \<noteq> OtaStarted then (r, w)
      else case advance_offer_generation w of (generation, w) \<Rightarrow>
      if uw_channel w AND kOtaChannelExhausted \<noteq> 0 \<or> generation = - 1
      then (OtaUnavailable, release_unstarted (set_check_error e (si_lock i 2) exhausted_message w))
      else prepare_owned_operation e i (si_origin i) pr (uw_channel w) False generation None w)"

definition finish_upload_request :: "('p, 'd) operation \<Rightarrow> ('p, 'd) operation" where
  "finish_upload_request op = op\<lparr>op_upload := None\<rparr>"

definition launch_coordinator :: "('p, 'd) update_env \<Rightarrow> start_input \<Rightarrow> ('p, 'd) operation \<Rightarrow> ('p, 'd) update_world \<Rightarrow>
    ota_start_result \<times> ('p, 'd) operation \<times> ('p, 'd) update_world" where
  "launch_coordinator e i op w = (case si_create i of
       CreatePass \<Rightarrow> (OtaStarted, op, w)
     | CreateThrows \<Rightarrow> (OtaInternalError, op, set_check_error e (si_lock i 6) ''OTA task creation outcome is uncertain'' w)
     | CreateFail \<Rightarrow>
         (case op_cancel e OcNoMemory (acknowledge_no_network (finish_upload_request op))
             (set_check_error e (si_lock i 6) ''could not start OTA coordinator task'' w) of
            (op, w) \<Rightarrow> (OtaInternalError, complete_operation e op w)))"

text \<open>An action on the current operation.\<close>

definition with_operation :: "(('p, 'd) operation \<Rightarrow> ('p, 'd) update_world \<Rightarrow> 'r \<times> ('p, 'd) operation \<times> ('p, 'd) update_world) \<Rightarrow>
    'r \<Rightarrow> ('p, 'd) update_world \<Rightarrow> 'r \<times> ('p, 'd) update_world" where
  "with_operation f r w = (case uw_operation w of None \<Rightarrow> (r, w)
     | Some op \<Rightarrow> (case f op w of (r, op', w') \<Rightarrow> (r, w'\<lparr>uw_operation := Some op'\<rparr>)))"

definition ota_check_start :: "('p, 'd) update_env \<Rightarrow> start_input \<Rightarrow> u32 \<Rightarrow> ('p, 'd) update_world \<Rightarrow>
    ota_start_result \<times> ('p, 'd) update_world" where
  "ota_check_start e i pr w0 = (case prepare_operation e i pr False w0 of (r, w) \<Rightarrow>
     if r \<noteq> OtaStarted then (r, w) else with_operation (launch_coordinator e i) r w)"

definition offer_matches :: "string \<Rightarrow> u32 \<Rightarrow> ('p, 'd) update_world \<Rightarrow> bool" where
  "offer_matches offer_id pr w \<longleftrightarrow> ota_offer_id_valid offer_id \<and> offer_id = st_offer_id (uw_status w) \<and>
     st_target_pr (uw_status w) = pr \<and> offer_is_current w"

definition confirmed_offer :: "ota_status \<Rightarrow> check_result" where
  "confirmed_offer s = blank_check\<lparr>cr_current := st_current s, cr_available := st_available s,
     cr_manifest_sha256 := st_manifest_sha256 s, cr_notes_sha256 := st_notes_sha256 s,
     cr_image_sha256 := st_image_sha256 s, cr_image_bytes := st_image_bytes s\<rparr>"

definition ota_start :: "('p, 'd) update_env \<Rightarrow> start_input \<Rightarrow> u32 \<Rightarrow> string \<Rightarrow> ('p, 'd) update_world \<Rightarrow>
    ota_start_result \<times> ('p, 'd) update_world" where
  "ota_start e i pr offer_id w0 =
     (if \<not> si_lock i 0 then (OtaUnavailable, w0)
      else case reserve_operation e (si_lock i 1) (si_image_state i) pr True w0 of (r, w) \<Rightarrow>
      if r \<noteq> OtaStarted then (r, w)
      else if \<not> (si_lock i 2 \<and> offer_matches offer_id pr w) then (OtaOfferChanged, release_unstarted w)
      else let expected = confirmed_offer (uw_status w); channel_state = uw_channel w in
      case advance_offer_generation w of (generation, w) \<Rightarrow>
      if generation = - 1 then (OtaUnavailable, release_unstarted (set_check_error e (si_lock i 3) exhausted_message w))
      else case prepare_owned_operation e i (si_origin i) pr channel_state True generation (Some expected) w of (r, w) \<Rightarrow>
      if r \<noteq> OtaStarted then (r, w) else with_operation (launch_coordinator e i) r w)"


definition ota_upload_start :: "('p, 'd) update_env \<Rightarrow> start_input \<Rightarrow> nat \<Rightarrow> ('p, 'd) update_world \<Rightarrow>
    (ota_start_result \<times> bool) \<times> ('p, 'd) update_world" where
  "ota_upload_start e i content_len w0 =
     (if ota_channel_in_state (uw_channel w0) \<noteq> Dev \<or> \<not> si_lock i 0 then ((OtaUnavailable, False), w0)
      else case reserve_operation e (si_lock i 1) (si_image_state i) 0 True w0 of (r, w) \<Rightarrow>
      if r \<noteq> OtaStarted then ((r, False), w)
      else let channel_state = uw_channel w in
      case advance_offer_generation w of (generation, w) \<Rightarrow>
      case prepare_owned_operation e i (si_origin i) 0 channel_state True generation None w of (r, w) \<Rightarrow>
      if r \<noteq> OtaStarted then ((r, False), w)
      else case publish_upload_start (si_lock i 2) w of (published, w) \<Rightarrow>
      if \<not> published \<or> ota_channel_in_state (uw_channel w) \<noteq> Dev \<or> \<not> si_accepted i
      then with_operation (\<lambda>op w. case op_cancel e OcNoMemory (acknowledge_no_network op) w of
             (op, w) \<Rightarrow> ((OtaNoMemory, False), complete_operation e op (set_check_error e (si_lock i 3) ''upload request unavailable'' w)))
           (OtaNoMemory, False) w
      else with_operation (\<lambda>op w. case launch_coordinator e i (op\<lparr>op_upload := Some content_len\<rparr>) w of
             (r, op, w) \<Rightarrow> ((r, True), op, w)) (OtaNoMemory, False) w)"

text \<open>The check a HTTP handler starts is prepared by work queued on the same server.\<close>

definition kDeferredTicketLimit :: nat where "kDeferredTicketLimit = 2 ^ 31"

definition ota_check_start_after_http :: "('p, 'd) update_env \<Rightarrow> start_input \<Rightarrow> u32 \<Rightarrow> ('p, 'd) update_world \<Rightarrow>
    ota_start_result \<times> ('p, 'd) update_world" where
  "ota_check_start_after_http e i pr w0 =
     (if uw_deferred_serial w0 = kDeferredTicketLimit - 1 \<or> \<not> si_lock i 0 then (OtaUnavailable, w0)
      else case reserve_operation e (si_lock i 1) (si_image_state i) pr False w0 of (r, w) \<Rightarrow>
      if r \<noteq> OtaStarted then (r, w)
      else let captured = uw_channel w in
      case advance_offer_generation w of (generation, w) \<Rightarrow>
      if captured AND kOtaChannelExhausted \<noteq> 0 \<or> generation = - 1
      then (OtaUnavailable, release_unstarted (set_check_error e (si_lock i 2) exhausted_message w))
      else let ticket = uw_deferred_serial w + 1;
               w = w\<lparr>uw_deferred_serial := ticket, uw_capture := \<lparr>dc_origin = si_origin i, dc_pr = pr,
                 dc_channel_state = captured, dc_generation = generation\<rparr>\<rparr> in
      case publish_operation_start e (si_lock i 3) False captured generation None w of
        (False, w) \<Rightarrow> (OtaUnavailable, release_unstarted w)
      | (True, w) \<Rightarrow>
          if \<not> si_accepted i
          then (OtaUnavailable, release_unstarted (set_check_error e (si_lock i 4) (ota_start_reason OtaUnavailable True) (w\<lparr>uw_ticket := 0\<rparr>)))
          else (OtaStarted, w\<lparr>uw_ticket := ticket\<rparr>))"

definition ota_check_after_http_work :: "('p, 'd) update_env \<Rightarrow> start_input \<Rightarrow> u64 \<Rightarrow> nat \<Rightarrow> ('p, 'd) update_world \<Rightarrow>
    ('p, 'd) update_world" where
  "ota_check_after_http_work e i now token w0 =
     (if token = 0 \<or> token \<noteq> uw_ticket w0 then w0
      else let captured = uw_capture w0; w = w0\<lparr>uw_ticket := 0\<rparr> in
      if uw_abort w \<or> \<not> fst (budget_live now (operation_budget (dc_origin captured) False))
      then release_unstarted (set_check_error e (si_lock i 2) ''update deadline reached during setup'' w)
      else case prepare_owned_operation e i (dc_origin captured) (dc_pr captured) (dc_channel_state captured) False
          (dc_generation captured) None w of (r, w) \<Rightarrow>
        if r = OtaStarted then snd (with_operation (launch_coordinator e i) r w) else w)"

subsection \<open>The tasks\<close>

definition start_network_task :: "('p, 'd) update_env \<Rightarrow> create_result \<Rightarrow> ('p, 'd) operation \<Rightarrow> ('p, 'd) update_world \<Rightarrow>
    bool \<times> ('p, 'd) operation \<times> ('p, 'd) update_world" where
  "start_network_task e created op0 w0 =
     (case on_driver (budget_look (op_env e op0)) op0 w0 of (live, op, w) \<Rightarrow>
      if \<not> live then (False, op_cancel e OcDeadline (acknowledge_no_network op) w)
      else if created \<noteq> CreatePass
      then (False, op_cancel e OcNetworkError (acknowledge_no_network (op\<lparr>op_launch := NlRefused\<rparr>)) w)
      else (True, op\<lparr>op_launch := NlStarted\<rparr>, w))"

definition resolve_firmware_url :: "('p, 'd) update_env \<Rightarrow> u32 \<Rightarrow> ota_channel \<Rightarrow> string" where
  "resolve_firmware_url e pr channel =
     (case (if 0 < pr then format_pr_firmware_url pr (ue_suffix e) 96 else None) of
        Some url \<Rightarrow> url
      | None \<Rightarrow> (case (if channel = Dev then format_dev_firmware_url (ue_suffix e) 96 else None) of
          Some url \<Rightarrow> url | None \<Rightarrow> ue_firmware_base e @ app_path e))"

definition feed_policy :: "check_result \<Rightarrow> ('p, 'd) operation \<Rightarrow> image_policy" where
  "feed_policy pre op = \<lparr>pol_expected = cr_available pre, pol_current = cr_current pre, pol_target_pr = op_target_pr op,
     pol_channel = op_channel op, pol_direct_upload = False, pol_expected_sha256 = cr_image_sha256 (op_expected op),
     pol_expected_bytes = cr_image_bytes (op_expected op)\<rparr>"

definition upload_policy :: "string \<Rightarrow> image_policy" where
  "upload_policy current = blank_policy\<lparr>pol_channel := Dev, pol_direct_upload := True, pol_current := current\<rparr>"

definition same_offer :: "check_result \<Rightarrow> check_result \<Rightarrow> bool" where
  "same_offer pre expected \<longleftrightarrow> cr_available pre = cr_available expected \<and>
     cr_manifest_sha256 pre = cr_manifest_sha256 expected \<and> cr_notes_sha256 pre = cr_notes_sha256 expected \<and>
     cr_image_sha256 pre = cr_image_sha256 expected \<and> cr_image_bytes pre = cr_image_bytes expected"

definition leave :: "('p, 'd) operation \<times> ('p, 'd) update_world \<Rightarrow> ('p, 'd) operation \<times> ('p, 'd) update_world" where
  "leave r = (case r of (op, w) \<Rightarrow> (op\<lparr>op_task := TkLeaving\<rparr>, w))"

definition co_configure :: "image_policy \<Rightarrow> ('p, 'd) driver \<Rightarrow> bool \<times> ('p, 'd) driver" where
  "co_configure policy c = (let (ok, wr) = writer_configure policy (co_writer c) in (ok, c\<lparr>co_writer := wr\<rparr>))"

definition start_outcome :: "('p, 'w) ota_env \<Rightarrow> bool \<times> ('p, 'w) coordinator \<Rightarrow> (bool \<times> bool) \<times> ('p, 'w) coordinator" where
  "start_outcome env r = (case r of (True, c) \<Rightarrow> ((True, False), c)
     | (False, c) \<Rightarrow> (case budget_look env c of (live, c) \<Rightarrow>
         ((False, \<not> live), co_cancel env (if live then OcProtocolError else OcDeadline) c)))"

text \<open>The decision of an installation, once the second check is done: the start of the image leg.\<close>

definition task_decide :: "('p, 'd) update_env \<Rightarrow> (nat \<Rightarrow> bool) \<Rightarrow> check_result \<Rightarrow> ('p, 'd) operation \<Rightarrow> ('p, 'd) update_world \<Rightarrow>
    ('p, 'd) operation \<times> ('p, 'd) update_world" where
  "task_decide e lk pre op0 w0 =
     (if \<not> cr_ok pre \<or> \<not> cr_update_available pre then
        (let w = set_check_done (lk 0) pre op0 w0 in
         leave (op0, if cr_ok pre then set_state (lk 1) StError 0 ''no newer version available'' False w else w))
      else if op_channel_state op0 \<noteq> uw_channel w0 \<or> \<not> same_offer pre (op_expected op0)
      then leave (op_cancel e OcProtocolError op0 (set_check_error e (lk 0) (ota_start_reason OtaOfferChanged False) w0))
      else case on_driver (co_configure (feed_policy pre op0)) op0 w0 of (configured, op, w) \<Rightarrow>
      if \<not> configured
      then (case op_cancel e OcInvalidState op w of (op, w) \<Rightarrow>
         leave (op, set_check_error e (lk 0) ''could not configure image policy'' w))
      else case on_driver (\<lambda>c. start_outcome (op_env e op) (co_start (op_env e op)
          (resolve_firmware_url e (op_target_pr op) (op_channel op)) (http_limits_for kMaximumImageBytes True) True False c)) op w of
        ((started, expired), op, w) \<Rightarrow>
          if started then (op\<lparr>op_task := TkImage\<rparr>, w)
          else leave (op, set_check_error e (lk 0) (if expired then ''update deadline reached'' else ''could not start download'') w))"

definition done_message :: string where "done_message = ''update complete '' @ em_dash @ '' rebooting''"

definition image_failure :: "outcome \<Rightarrow> string" where
  "image_failure oc = (if oc = OcNoMemory then kOtaNoMemory
     else if oc = OcDeadline then ''update deadline reached''
     else if oc = OcWriterUncertain then ''update outcome is uncertain''
     else ''download or image validation failed'')"

definition body_bytes :: "('p, 'w) coordinator \<Rightarrow> nat" where
  "body_bytes c = (case co_framing c of None \<Rightarrow> 0 | Some f \<Rightarrow> fr_body f)"

definition declared_size :: "('p, 'w) coordinator \<Rightarrow> nat" where
  "declared_size c = (case co_framing c of None \<Rightarrow> 0 | Some f \<Rightarrow> fr_length f)"

text \<open>One turn of the download loop.\<close>

definition task_poll :: "('p, 'd) update_env \<Rightarrow> (nat \<Rightarrow> bool) \<Rightarrow> job \<Rightarrow> ('p, 'd) operation \<Rightarrow> ('p, 'd) update_world \<Rightarrow>
    ('p, 'd) operation \<times> ('p, 'd) update_world" where
  "task_poll e lk j op0 w0 =
     (case on_driver_op (\<lambda>c. poll_operation (op_env e op0) (uw_abort w0) (c\<lparr>co_job := j\<rparr>)) op0 w0 of (op, w) \<Rightarrow>
      let oc = co_outcome (op_coord op); total = declared_size (op_coord op) in
      if oc = OcCommitted then leave (op, set_state (lk 0) StDone 100 done_message False w)
      else if oc \<noteq> OcWorking then leave (op, set_check_error e (lk 0) (image_failure oc) w)
      else (op, set_state (lk 0) StDownloading (if total = 0 then 0 else body_bytes (op_coord op) * 100 div total) ''downloading'' False w))"


text \<open>The direct upload: its start, one turn of its loop and its end.\<close>

definition upload_begin :: "('p, 'd) update_env \<Rightarrow> (nat \<Rightarrow> bool) \<Rightarrow> nat \<Rightarrow> ('p, 'd) operation \<Rightarrow> ('p, 'd) update_world \<Rightarrow>
    ('p, 'd) operation \<times> ('p, 'd) update_world" where
  "upload_begin e lk content_len op0 w0 =
     (if \<not> canonical_ota_version (ue_version e) \<or> 32 \<le> length (ue_version e)
      then leave (op0, set_check_error e (lk 0) ''invalid firmware version'' w0)
      else let refused = (\<lambda>(op, w). leave (op, set_check_error e (lk 0) ''upload refused'' w)) in
      if ota_channel_in_state (uw_channel w0) \<noteq> Dev then refused (op0, w0)
      else case on_driver (co_configure (upload_policy (ue_version e))) op0 w0 of (configured, op, w) \<Rightarrow>
      if \<not> configured then refused (op, w)
      else case on_driver (co_start_upload (op_env e op) content_len) op w of (started, op, w) \<Rightarrow>
      if \<not> started then refused (op, w) else (op\<lparr>op_task := TkUpload 0\<rparr>, w))"

definition upload_turn :: "('p, 'd) update_env \<Rightarrow> (nat \<Rightarrow> bool) \<Rightarrow> bytes option \<Rightarrow> nat \<Rightarrow> nat \<Rightarrow> ('p, 'd) operation \<Rightarrow>
    ('p, 'd) update_world \<Rightarrow> ('p, 'd) operation \<times> ('p, 'd) update_world" where
  "upload_turn e lk received_data content_len received op0 w0 =
     (case (if uw_abort w0 \<or> ota_channel_in_state (uw_channel w0) \<noteq> Dev then (False, op0, w0)
            else on_driver (budget_look (op_env e op0)) op0 w0) of (on, op, w) \<Rightarrow>
      if \<not> on then (case op_cancel e OcDeadline op w of (op, w) \<Rightarrow> leave (op, set_check_error e (lk 0) ''upload aborted'' w))
      else let want = min kBlockBytes (content_len - received);
               data = (case received_data of None \<Rightarrow> [] | Some b \<Rightarrow> b) in
      if data = [] \<or> want < length data
      then (case op_cancel e OcNetworkError op w of (op, w) \<Rightarrow> leave (op, set_check_error e (lk 0) ''upload interrupted'' w))
      else case on_driver (co_upload (op_env e op) data) op w of (ok, op, w) \<Rightarrow>
      if \<not> ok then leave (op, set_check_error e (lk 0) ''upload validation failed'' w)
      else (op\<lparr>op_task := TkUpload (received + length data)\<rparr>,
            set_state (lk 0) StDownloading ((received + length data) * 100 div content_len) ''uploading'' True w))"

definition upload_end :: "('p, 'd) update_env \<Rightarrow> (nat \<Rightarrow> bool) \<Rightarrow> ('p, 'd) operation \<Rightarrow> ('p, 'd) update_world \<Rightarrow>
    ('p, 'd) operation \<times> ('p, 'd) update_world" where
  "upload_end e lk op0 w0 =
     (if uw_abort w0 \<or> ota_channel_in_state (uw_channel w0) \<noteq> Dev
      then (case op_cancel e OcDeadline op0 w0 of (op, w) \<Rightarrow> leave (op, set_check_error e (lk 0) ''upload aborted'' w))
      else case on_driver_op (co_finish_upload (op_env e op0)) op0 w0 of (op, w) \<Rightarrow>
      if co_outcome (op_coord op) \<noteq> OcCommitted
      then leave (op, set_check_error e (lk 0) (if co_outcome (op_coord op) = OcWriterUncertain
             then ''upload uncertain; do not retry'' else ''upload validation failed'') w)
      else leave (finish_upload_request op, set_state (lk 0) StDone 100 done_message True w))"

text \<open>The head of a task: the upload, or the network task first.\<close>

definition task_head :: "('p, 'd) update_env \<Rightarrow> (nat \<Rightarrow> bool) \<Rightarrow> create_result \<Rightarrow> ('p, 'd) operation \<Rightarrow> ('p, 'd) update_world \<Rightarrow>
    ('p, 'd) operation \<times> ('p, 'd) update_world" where
  "task_head e lk created op w = (case op_upload op of
       Some content_len \<Rightarrow> upload_begin e lk content_len op w
     | None \<Rightarrow> (case start_network_task e created op w of
          (True, op, w) \<Rightarrow> (op\<lparr>op_task := TkNetwork\<rparr>, w)
        | (False, op, w) \<Rightarrow> leave (op, set_check_error e (lk 0) (if co_outcome (op_coord op) = OcDeadline
             then ''update deadline reached during setup'' else ''could not start network task'') w)))"

text \<open>The whole check with its last poll; nothing happens while it has not come to an end.\<close>

definition check_poll :: "('p, 'd) update_env \<Rightarrow> bool \<Rightarrow> job \<Rightarrow> check_result \<Rightarrow> ('p, 'd) operation \<Rightarrow> ('p, 'd) update_world \<Rightarrow>
    ('p, 'd) operation \<times> ('p, 'd) update_world" where
  "check_poll e on j res op0 w0 =
     (if \<not> on then (op0\<lparr>op_task := TkChecked res\<rparr>, w0)
      else case on_driver_op (\<lambda>c. poll_operation (op_env e op0) (uw_abort w0) (c\<lparr>co_job := j\<rparr>)) op0 w0 of (op, w) \<Rightarrow>
      (op\<lparr>op_task := TkChecked (if co_outcome (op_coord op) = OcDeadline then withdrawn check_deadline res else res)\<rparr>, w))"

definition task_check :: "('p, 'd) update_env \<Rightarrow> (nat \<Rightarrow> bool) \<Rightarrow> bool \<times> poll_turn list \<Rightarrow> bool \<times> poll_turn list \<Rightarrow> job \<Rightarrow>
    ('p, 'd) operation \<Rightarrow> ('p, 'd) update_world \<Rightarrow> ('p, 'd) operation \<times> ('p, 'd) update_world" where
  "task_check e lk manifest_script notes_script j op0 w0 =
     (case on_driver (\<lambda>c. case perform_check e (op_env e op0) (op_target_pr op0) (op_channel op0) manifest_script notes_script c of
          None \<Rightarrow> (None, c) | Some (on, res, notes, c) \<Rightarrow> (Some (on, res, notes), c)) op0 w0 of
        (None, _) \<Rightarrow> (op0, w0)
      | (Some (on, res, notes), op, w) \<Rightarrow> check_poll e on j res op (publish_notes (lk 0) notes op w))"

definition finish_check :: "('p, 'd) update_env \<Rightarrow> (nat \<Rightarrow> bool) \<Rightarrow> check_result \<Rightarrow> ('p, 'd) operation \<Rightarrow> ('p, 'd) update_world \<Rightarrow>
    ('p, 'd) operation \<times> ('p, 'd) update_world" where
  "finish_check e lk res op0 w0 =
     (let c = op_coord op0;
          (op, w) = (if \<not> co_lease_released c \<and> co_outcome c = OcMetadataReady
             then on_driver_op (co_finish_metadata (op_env e op0)) op0 w0 else (op0, w0));
          res = (if co_outcome (op_coord op) = OcDeadline then withdrawn check_deadline res else res) in
      leave (op, set_check_done (lk 0) res op w))"

definition task_throws :: "('p, 'd) update_env \<Rightarrow> (nat \<Rightarrow> bool) \<Rightarrow> bool \<Rightarrow> ('p, 'd) operation \<Rightarrow> ('p, 'd) update_world \<Rightarrow>
    ('p, 'd) operation \<times> ('p, 'd) update_world" where
  "task_throws e lk no_memory op0 w0 =
     (case op_cancel e (if no_memory then OcNoMemory else OcNetworkError) op0 w0 of (op, w) \<Rightarrow>
      leave (op, set_check_error e (lk 0) (if no_memory then kOtaNoMemory else ''update operation failed unexpectedly'') w))"

definition task_leave :: "('p, 'd) update_env \<Rightarrow> ('p, 'd) operation \<Rightarrow> ('p, 'd) update_world \<Rightarrow>
    ('p, 'd) operation \<times> ('p, 'd) update_world" where
  "task_leave e op w =
     (case (if op_upload op \<noteq> None then acknowledge_no_network (finish_upload_request op)
            else if op_launch op = NlNotAttempted then acknowledge_no_network op else op) of
        op \<Rightarrow> complete_operation e op w)"

subsection \<open>The machine\<close>

text \<open>What a task meets in its next action.\<close>

datatype task_input = InBegin create_result
  | InCheck "bool \<times> poll_turn list" "bool \<times> poll_turn list" job
  | InDecide | InPoll job | InUpload "bytes option" | InThrow bool

definition task_step :: "('p, 'd) update_env \<Rightarrow> (nat \<Rightarrow> bool) \<Rightarrow> task_input \<Rightarrow> ('p, 'd) operation \<Rightarrow> ('p, 'd) update_world \<Rightarrow>
    ('p, 'd) operation \<times> ('p, 'd) update_world" where
  "task_step e lk i op w = (case op_task op of
       TkCreated \<Rightarrow> (case i of InBegin created \<Rightarrow> task_head e lk created op w | InThrow n \<Rightarrow> task_throws e lk n op w | _ \<Rightarrow> (op, w))
     | TkNetwork \<Rightarrow> (case i of InCheck m n j \<Rightarrow> task_check e lk m n j op w | InThrow n \<Rightarrow> task_throws e lk n op w | _ \<Rightarrow> (op, w))
     | TkChecked res \<Rightarrow> (case i of InDecide \<Rightarrow> (if op_image op then task_decide e lk res op w else finish_check e lk res op w)
          | InThrow n \<Rightarrow> task_throws e lk n op w | _ \<Rightarrow> (op, w))
     | TkImage \<Rightarrow> (case i of InPoll j \<Rightarrow> task_poll e lk j op w | InThrow n \<Rightarrow> task_throws e lk n op w | _ \<Rightarrow> (op, w))
     | TkUpload received \<Rightarrow> (case i of
            InUpload data \<Rightarrow> (case op_upload op of None \<Rightarrow> (op, w) | Some content_len \<Rightarrow>
              if received < content_len then upload_turn e lk data content_len received op w else upload_end e lk op w)
          | InThrow n \<Rightarrow> task_throws e lk n op w | _ \<Rightarrow> (op, w))
     | TkLeaving \<Rightarrow> task_leave e op w
     | TkGone \<Rightarrow> (op, w)
     | TkParked \<Rightarrow> (op, w))"

datatype update_step = StepTask "nat \<Rightarrow> bool" task_input | StepChannel ota_channel | StepAbort
  | StepCheck start_input u32 | StepStart start_input u32 string | StepUpload start_input nat
  | StepDeferred start_input u32 | StepWork start_input u64 nat | StepOtherBegins gate_state | StepOtherEnds gate_state

definition update_next :: "('p, 'd) update_env \<Rightarrow> ('p, 'd) update_world \<Rightarrow> update_step \<Rightarrow> ('p, 'd) update_world" where
  "update_next e w s = (case s of
       StepTask lk i \<Rightarrow> (case uw_operation w of None \<Rightarrow> w
          | Some op \<Rightarrow> (case task_step e lk i op w of (op, w) \<Rightarrow> w\<lparr>uw_operation := Some op\<rparr>))
     | StepChannel channel \<Rightarrow> ota_set_channel channel w
     | StepAbort \<Rightarrow> ota_request_heap_abort w
     | StepCheck i pr \<Rightarrow> snd (ota_check_start e i pr w)
     | StepStart i pr offer_id \<Rightarrow> snd (ota_start e i pr offer_id w)
     | StepUpload i n \<Rightarrow> snd (ota_upload_start e i n w)
     | StepDeferred i pr \<Rightarrow> snd (ota_check_start_after_http e i pr w)
     | StepWork i now token \<Rightarrow> ota_check_after_http_work e i now token w
     | StepOtherBegins g \<Rightarrow> if g = GateOta then w else w\<lparr>uw_gate := snd (gate_try_begin g (uw_gate w))\<rparr>
     | StepOtherEnds g \<Rightarrow> if g = GateOta then w else w\<lparr>uw_gate := snd (gate_finish g (uw_gate w))\<rparr>)"

definition update_run :: "('p, 'd) update_env \<Rightarrow> update_step list \<Rightarrow> ('p, 'd) update_world \<Rightarrow> ('p, 'd) update_world" where
  "update_run e steps w = foldl (update_next e) w steps"

end
