(* ===== verification/OtaTask.thy ===== *)
theory OtaTask
  imports OtaUpdate
begin

text \<open>
  The actions of the task of an update (\<open>ota_update.cpp\<close>): what each of them keeps, of the invariant of an
  installation on top of the contract of the image writer and of any operation.
\<close>

subsection \<open>The SDK behind a lease\<close>

definition leased_view :: "'d sdk_view \<Rightarrow> 'd leased sdk_view" where
  "leased_view v = \<lparr>sv_hashed = (\<lambda>l. sv_hashed v (ld_device l)), sv_open = (\<lambda>l. sv_open v (ld_device l)),
     sv_stored = (\<lambda>l. sv_stored v (ld_device l)), sv_boot = (\<lambda>l. sv_boot v (ld_device l)),
     sv_sha256 = sv_sha256 v, sv_verified = sv_verified v\<rparr>"

lemma leased_hash_ok: "hash_ok sdk v \<Longrightarrow> hash_ok (leased_sdk sdk) (leased_view v)"
  unfolding hash_ok_def leased_sdk_def leased_view_def on_device_def
  by (auto simp: Let_def split: prod.splits)

lemma leased_update_ok: "update_ok sdk v \<Longrightarrow> update_ok (leased_sdk sdk) (leased_view v)"
  unfolding update_ok_def leased_sdk_def leased_view_def on_device_def
  by (auto simp: Let_def split: prod.splits)

text \<open>The invariant of the coordinator of an operation, for a policy of its writer.\<close>

definition driver_inv :: "('p, 'd) update_env \<Rightarrow> 'd sdk_view \<Rightarrow> image_policy \<Rightarrow> ('p, 'd) driver \<Rightarrow> bool" where
  "driver_inv e v P c \<longleftrightarrow> rw.image_inv (leased_sdk (ue_sdk e)) (leased_view v) P c"

text \<open>Nothing of a coordinator that the invariant reads changes.\<close>

definition same_core :: "('p, 'w) coordinator \<Rightarrow> ('p, 'w) coordinator \<Rightarrow> bool" where
  "same_core c d \<longleftrightarrow> co_outcome d = co_outcome c \<and> co_begun d = co_begun c \<and> co_image d = co_image c \<and>
     co_prefix d = co_prefix c \<and> co_writer d = co_writer c"

lemma driver_inv_core: "same_core c d \<Longrightarrow> driver_inv e v P d \<longleftrightarrow> driver_inv e v P c"
  unfolding driver_inv_def by (rule rw.core_inv) (simp add: rw.core_def same_core_def)

lemma lend_inv: "driver_inv e v P (lend word c) \<longleftrightarrow> driver_inv e v P c"
  by (simp add: driver_inv_def rw.image_inv_def rw.holds_image_def rw.image_chosen_def lend_def writer_fresh_def writer_at_def
      writer_filled_def writer_chosen_def writer_sealed_def feed_image_def leased_view_def)

lemma op_env_effects: "env_effects (op_env e op) = raw_effects (leased_sdk (ue_sdk e))"
  by (simp add: op_env_def co_env_def)

lemmas driver_facts = driver_inv_def op_env_effects

lemma cancel_inv: "failure r \<Longrightarrow> driver_inv e v P c \<Longrightarrow> driver_inv e v P (co_cancel (op_env e op) r c)"
  unfolding driver_inv_def co_cancel_def by (rule rw.co_fail_inv [OF op_env_effects])

lemma poll_inv: "driver_inv e v P c \<Longrightarrow> driver_inv e v P (poll_operation (op_env e op) aborted c)"
  using cancel_inv [of OcDeadline e v P c op]
  by (auto simp: poll_operation_def driver_inv_def failure_def intro: rw.co_poll_inv [OF op_env_effects])

lemma start_inv: "driver_inv e v P c \<Longrightarrow> co_start (op_env e op) url limits is_image optional c = (ok, d) \<Longrightarrow> driver_inv e v P d"
  using rw.co_start_inv [of "leased_sdk (ue_sdk e)" "leased_view v" P c "op_env e op" url limits is_image optional]
  by (simp add: driver_inv_def)

lemma look_inv: "budget_look env c = (ok, d) \<Longrightarrow> driver_inv e v P d \<longleftrightarrow> driver_inv e v P c"
  by (rule driver_inv_core) (auto simp: budget_look_def same_core_def split: prod.splits)

lemma job_inv [simp]: "driver_inv e v P (c\<lparr>co_job := j\<rparr>) \<longleftrightarrow> driver_inv e v P c"
  by (rule driver_inv_core) (simp add: same_core_def)

lemma metadata_inv [simp]: "driver_inv e v P (c\<lparr>co_metadata := b\<rparr>) \<longleftrightarrow> driver_inv e v P c"
  by (rule driver_inv_core) (simp add: same_core_def)

lemma finish_metadata_inv: "driver_inv e v P c \<Longrightarrow> driver_inv e v P (co_finish_metadata (op_env e op) c)"
  unfolding driver_inv_def by (rule rw.co_finish_metadata_inv [OF op_env_effects])

subsection \<open>The check keeps the invariant\<close>

lemma fetch_loop_inv:
  "fetch_loop (op_env e op) turns c = Some (r, body, d) \<Longrightarrow> driver_inv e v P c \<Longrightarrow> driver_inv e v P d"
proof (induction turns arbitrary: c)
  case (Cons t turns)
  obtain aborted j where t: "t = (aborted, j)" by (cases t)
  let ?c = "poll_operation (op_env e op) aborted (c\<lparr>co_job := j\<rparr>)"
  have "driver_inv e v P ?c" using Cons.prems(2) by (intro poll_inv) simp
  then show ?case using Cons.prems(1) Cons.IH [of ?c] by (auto simp: t Let_def split: if_splits)
qed simp

lemma http_get_inv:
  "http_get_to_buffer (op_env e op) url optional script c = Some (r, body, d) \<Longrightarrow> driver_inv e v P c \<Longrightarrow> driver_inv e v P d"
proof -
  assume g: "http_get_to_buffer (op_env e op) url optional script c = Some (r, body, d)" and c: "driver_inv e v P c"
  obtain ok d1 where s: "co_start (op_env e op) url (http_limits_for kOtaManifestMaxBytes False) False optional
      (c\<lparr>co_metadata := []\<rparr>) = (ok, d1)" by fastforce
  obtain live d2 where l: "budget_look (op_env e op) d1 = (live, d2)" by fastforce
  have d1: "driver_inv e v P d1" using start_inv [OF _ s] c by simp
  then have d2: "driver_inv e v P d2" using look_inv [OF l] by simp
  note cancels = cancel_inv [of OcNoMemory e v P c op, OF _ c] cancel_inv [of OcProtocolError e v P d2 op, OF _ d2]
    cancel_inv [of OcDeadline e v P d2 op, OF _ d2]
  show "driver_inv e v P d"
    using g d1 cancels fetch_loop_inv [of e op "snd script" d1 r body d v P]
    by (cases ok; cases live) (auto simp: http_get_to_buffer_def s l failure_def split: if_splits)
qed

lemma fetch_notes_inv:
  "fetch_notes e (op_env e op) url script res c = Some (on, res', notes, d) \<Longrightarrow> driver_inv e v P c \<Longrightarrow>
   driver_inv e v P d \<and> cr_current res' = cr_current res"
  by (auto simp: fetch_notes_def read_notes_def withdrawn_def split: option.splits if_splits prod.splits dest: http_get_inv)

lemma fetch_notes_current:
  "fetch_notes e env url script res c = Some (on, res', notes, d) \<Longrightarrow> cr_current res' = cr_current res"
  by (auto simp: fetch_notes_def read_notes_def withdrawn_def split: option.splits if_splits prod.splits)

lemma read_manifest_current: "read_manifest e body res = Inr res' \<Longrightarrow> cr_current res' = cr_current res"
  by (auto simp: read_manifest_def Let_def split: option.splits prod.splits sum.splits if_splits)

lemma read_manifest_error: "read_manifest e body res = Inl res' \<Longrightarrow> \<not> cr_ok res \<Longrightarrow> \<not> cr_ok res'"
  by (auto simp: read_manifest_def Let_def split: option.splits prod.splits sum.splits if_splits)

lemma perform_check_inv:
  assumes "perform_check e (op_env e op) pr channel m n c = Some (on, res, notes, d)" "driver_inv e v P c"
  shows "driver_inv e v P d"
  using assms
  by (auto simp: perform_check_def Let_def split: if_splits option.splits prod.splits sum.splits
      dest: http_get_inv fetch_notes_inv)

lemma perform_check_current:
  assumes "perform_check e env pr channel m n c = Some (on, res, notes, d)" "cr_ok res"
  shows "cr_current res = status_text 32 (ue_version e)"
  using assms
  by (auto simp: perform_check_def Let_def withdrawn_def blank_check_def split: if_splits option.splits prod.splits sum.splits
      dest!: fetch_notes_current read_manifest_current read_manifest_error)

subsection \<open>Drives\<close>

definition op_device :: "('p, 'd) operation \<Rightarrow> 'd" where
  "op_device op = ld_device (rw_device (co_writer (op_coord op)))"

text \<open>What the actions of a task leave alone.\<close>

definition frame :: "('p, 'd) update_world \<Rightarrow> ('p, 'd) update_world \<Rightarrow> bool" where
  "frame w w' \<longleftrightarrow> uw_serial w' = uw_serial w \<and> uw_capture w' = uw_capture w"

text \<open>What they do to an operation: only the driver, the place of the task, the request and the launch change.\<close>

definition op_frame :: "('p, 'd) operation \<Rightarrow> ('p, 'd) operation \<Rightarrow> bool" where
  "op_frame op op' \<longleftrightarrow> op_generation op' = op_generation op \<and> op_expected op' = op_expected op \<and> op_image op' = op_image op \<and>
     op_target_pr op' = op_target_pr op \<and> op_channel op' = op_channel op \<and> (op_upload op = None \<longrightarrow> op_upload op' = None)"

text \<open>The policy an installation may have: that of the confirmed offer, for the running version.\<close>

definition confirmed_policy :: "('p, 'd) update_env \<Rightarrow> ('p, 'd) operation \<Rightarrow> image_policy" where
  "confirmed_policy e op = \<lparr>pol_expected = cr_available (op_expected op), pol_current = status_text 32 (ue_version e),
     pol_target_pr = op_target_pr op, pol_channel = op_channel op, pol_direct_upload = False,
     pol_expected_sha256 = cr_image_sha256 (op_expected op), pol_expected_bytes = cr_image_bytes (op_expected op)\<rparr>"

definition install_inv :: "('p, 'd) update_env \<Rightarrow> 'd sdk_view \<Rightarrow> ('p, 'd) operation \<Rightarrow> ('p, 'd) update_world \<Rightarrow> bool" where
  "install_inv e v op w \<longleftrightarrow> op_image op \<and> op_upload op = None \<and> uw_device w = op_device op \<and>
     (\<exists>P. driver_inv e v P (op_coord op) \<and> (P = blank_policy \<or> P = confirmed_policy e op)) \<and>
     (\<forall>res. op_task op = TkChecked res \<and> cr_ok res \<longrightarrow> cr_current res = status_text 32 (ue_version e))"

text \<open>An action of the task keeps the invariant and the frames.\<close>

definition inst :: "('p, 'd) update_env \<Rightarrow> 'd sdk_view \<Rightarrow> ('p, 'd) operation \<Rightarrow> ('p, 'd) update_world \<Rightarrow>
    ('p, 'd) operation \<times> ('p, 'd) update_world \<Rightarrow> bool" where
  "inst e v op w r \<longleftrightarrow> install_inv e v (fst r) (snd r) \<and> op_frame op (fst r) \<and> frame w (snd r)"

lemma inst_refl: "install_inv e v op w \<Longrightarrow> inst e v op w (op, w)"
  by (simp add: inst_def op_frame_def frame_def)

lemma inst_trans: "inst e v op w (op1, w1) \<Longrightarrow> (install_inv e v op1 w1 \<Longrightarrow> inst e v op1 w1 r) \<Longrightarrow> inst e v op w r"
  by (auto simp: inst_def op_frame_def frame_def)

lemma inst_inv: "inst e v op w (op1, w1) \<Longrightarrow> install_inv e v op1 w1"
  by (simp add: inst_def)

text \<open>Publishing changes neither the device nor the frame.\<close>

lemma publish_frames [simp]:
  "uw_device (set_check_error e lk m w) = uw_device w" "uw_device (set_state lk st pct m up w) = uw_device w"
  "uw_device (set_check_done lk res op' w) = uw_device w" "uw_device (publish_notes lk notes op' w) = uw_device w"
  "frame w' (set_check_error e lk m w) = frame w' w" "frame w' (set_state lk st pct m up w) = frame w' w"
  "frame w' (set_check_done lk res op' w) = frame w' w" "frame w' (publish_notes lk notes op' w) = frame w' w"
  by (simp_all add: set_check_error_def publish_check_status_def set_state_def set_check_done_def publish_notes_def
      set_changelog_def frame_def Let_def)

lemma inst_world: "uw_device w2 = uw_device w1 \<Longrightarrow> frame w1 w2 \<Longrightarrow> inst e v op w (op1, w1) \<Longrightarrow> inst e v op w (op1, w2)"
  by (auto simp: inst_def install_inv_def frame_def)

lemma frame_refl [simp]: "frame w w"
  by (simp add: frame_def)

lemma inst_publish [simp]:
  "inst e v op w (op1, w1) \<Longrightarrow> inst e v op w (op1, set_check_error e lk m w1)"
  "inst e v op w (op1, w1) \<Longrightarrow> inst e v op w (op1, set_state lk st pct m up w1)"
  "inst e v op w (op1, w1) \<Longrightarrow> inst e v op w (op1, set_check_done lk res op' w1)"
  "inst e v op w (op1, w1) \<Longrightarrow> inst e v op w (op1, publish_notes lk notes op' w1)"
  by (rule inst_world; simp)+

lemma inst_task [simp]:
  "(\<forall>res. t \<noteq> TkChecked res) \<Longrightarrow> inst e v op w (op1, w1) \<Longrightarrow> inst e v op w (op1\<lparr>op_task := t\<rparr>, w1)"
  by (auto simp: inst_def install_inv_def op_device_def op_frame_def confirmed_policy_def)

lemma inst_leave [simp]: "inst e v op w r \<Longrightarrow> inst e v op w (leave r)"
  by (cases r) (simp add: leave_def)

lemma inst_drive:
  assumes inv: "install_inv e v op w" and d: "on_driver f op w = (r, op', w')"
    and keeps: "\<And>P c d. driver_inv e v P c \<Longrightarrow> f c = (r, d) \<Longrightarrow> driver_inv e v P d"
  shows "inst e v op w (op', w') \<and> op_task op' = op_task op"
proof -
  let ?c = "lend (uw_gate w, uw_running w, uw_updating w) (op_coord op)"
  obtain d where f: "f ?c = (r, d)" and op': "op' = op\<lparr>op_coord := d\<rparr>"
    and w': "uw_device w' = ld_device (rw_device (co_writer d))" "frame w w'"
    using d by (auto simp: on_driver_def Let_def frame_def split: prod.splits)
  obtain P where P: "driver_inv e v P (op_coord op)" "P = blank_policy \<or> P = confirmed_policy e op"
    using inv by (auto simp: install_inv_def)
  then have "driver_inv e v P d" using keeps [OF _ f] lend_inv by blast
  then show ?thesis using inv P w'
    by (auto simp: inst_def install_inv_def op' op_device_def op_frame_def confirmed_policy_def)
qed

lemma inst_drive_op:
  assumes "install_inv e v op w" "\<And>P c. driver_inv e v P c \<Longrightarrow> driver_inv e v P (f c)"
  shows "inst e v op w (on_driver_op f op w)"
proof -
  obtain op' w' where d: "on_driver (\<lambda>c. ((), f c)) op w = ((), op', w')" by (metis (full_types) old.unit.exhaust prod.exhaust)
  have "inst e v op w (op', w') \<and> op_task op' = op_task op"
    by (rule inst_drive [OF assms(1) d]) (use assms(2) in auto)
  with d show ?thesis by (simp add: on_driver_op_def)
qed

lemma inst_cancel: "failure r \<Longrightarrow> install_inv e v op w \<Longrightarrow> inst e v op w (op_cancel e r op w)"
  unfolding op_cancel_def by (rule inst_drive_op) (auto intro: cancel_inv)

lemma inst_acknowledge [simp]: "inst e v op w (op1, w1) \<Longrightarrow> inst e v op w (acknowledge_no_network op1, w1)"
  by (auto simp: inst_def install_inv_def acknowledge_no_network_def op_device_def op_frame_def confirmed_policy_def)

lemma inst_launch [simp]: "inst e v op w (op1, w1) \<Longrightarrow> inst e v op w (op1\<lparr>op_launch := l\<rparr>, w1)"
  by (auto simp: inst_def install_inv_def op_device_def op_frame_def confirmed_policy_def)


subsection \<open>The actions of a task\<close>

lemma inst_cancel_after: "failure r \<Longrightarrow> inst e v op w (op1, w1) \<Longrightarrow> inst e v op w (op_cancel e r op1 w1)"
  by (erule inst_trans) (rule inst_cancel)

lemma inst_start_network:
  assumes inv: "install_inv e v op w" and r: "start_network_task e created op w = (ok, op', w')"
  shows "inst e v op w (op', w') \<and> (ok \<longrightarrow> op_task op' = op_task op)"
proof -
  obtain live op1 w1 where l: "on_driver (budget_look (op_env e op)) op w = (live, op1, w1)" by (metis prod.exhaust)
  have i: "inst e v op w (op1, w1) \<and> op_task op1 = op_task op"
    by (rule inst_drive [OF inv l]) (simp add: look_inv)
  have "inst e v op w (op_cancel e OcDeadline (acknowledge_no_network op1) w1)"
    by (rule inst_cancel_after) (use i in \<open>simp_all add: failure_def\<close>)
  moreover have "inst e v op w (op_cancel e OcNetworkError (acknowledge_no_network (op1\<lparr>op_launch := NlRefused\<rparr>)) w1)"
    by (rule inst_cancel_after) (use i in \<open>simp_all add: failure_def\<close>)
  ultimately show ?thesis
    using r i by (auto simp: start_network_task_def l split: if_splits)
qed

lemma inst_begin:
  assumes inv: "install_inv e v op w"
  shows "inst e v op w (task_head e lk created op w)"
proof -
  obtain ok op1 w1 where r: "start_network_task e created op w = (ok, op1, w1)" by (metis prod.exhaust)
  from inv have "op_upload op = None" by (simp add: install_inv_def)
  with inst_start_network [OF inv r] show ?thesis
    by (cases ok) (simp_all add: task_head_def r)
qed

lemma inst_checked:
  "inst e v op w (op1, w1) \<Longrightarrow> (cr_ok res \<Longrightarrow> cr_current res = status_text 32 (ue_version e)) \<Longrightarrow>
   inst e v op w (op1\<lparr>op_task := TkChecked res\<rparr>, w1)"
  by (auto simp: inst_def install_inv_def op_device_def op_frame_def confirmed_policy_def)

lemma inst_check_poll:
  assumes inv: "install_inv e v op w" and res: "cr_ok res \<Longrightarrow> cr_current res = status_text 32 (ue_version e)"
  shows "inst e v op w (check_poll e on j res op w)"
proof (cases on)
  case False
  with inst_checked [OF inst_refl [OF inv] res] show ?thesis by (simp add: check_poll_def)
next
  case True
  let ?r = "on_driver_op (\<lambda>c. poll_operation (op_env e op) (uw_abort w) (c\<lparr>co_job := j\<rparr>)) op w"
  obtain op1 w1 where r: "?r = (op1, w1)" by (cases ?r)
  have "inst e v op w ?r" by (rule inst_drive_op [OF inv]) (simp add: poll_inv)
  with r have "inst e v op w (op1, w1)" by simp
  with True r res show ?thesis
    by (auto simp: check_poll_def withdrawn_def intro!: inst_checked)
qed

lemma drive_result: "on_driver f op w = (r, op', w') \<Longrightarrow> \<exists>c k. f c = (r, k)"
  by (auto simp: on_driver_def Let_def split: prod.splits)

lemma inst_check:
  assumes inv: "install_inv e v op w"
  shows "inst e v op w (task_check e lk m n j op w)"
proof -
  let ?f = "\<lambda>c. case perform_check e (op_env e op) (op_target_pr op) (op_channel op) m n c of
      None \<Rightarrow> (None, c) | Some (on, res, notes, c) \<Rightarrow> (Some (on, res, notes), c)"
  obtain r op1 w1 where d: "on_driver ?f op w = (r, op1, w1)" by (rule prod_cases3)
  have i: "inst e v op w (op1, w1) \<and> op_task op1 = op_task op"
  proof (rule inst_drive [OF inv d])
    fix P c k
    assume "driver_inv e v P c" "?f c = (r, k)"
    then show "driver_inv e v P k"
      by (cases "perform_check e (op_env e op) (op_target_pr op) (op_channel op) m n c")
        (auto dest: perform_check_inv)
  qed
  show ?thesis
  proof (cases r)
    case None
    with inst_refl [OF inv] show ?thesis by (simp add: task_check_def d)
  next
    case (Some x)
    then obtain on res nt where x: "r = Some (on, res, nt)" by (cases x) auto
    obtain c k where "?f c = (Some (on, res, nt), k)" using drive_result [OF d] x by blast
    then have "\<exists>c c'. perform_check e (op_env e op) (op_target_pr op) (op_channel op) m n c = Some (on, res, nt, c')"
      by (auto split: option.splits)
    then have res: "cr_ok res \<Longrightarrow> cr_current res = status_text 32 (ue_version e)"
      using perform_check_current by blast
    have "inst e v op w (op1, publish_notes (lk 0) nt op1 w1)" using i by simp
    then have "inst e v op w (check_poll e on j res op1 (publish_notes (lk 0) nt op1 w1))"
      by (rule inst_trans) (rule inst_check_poll [OF _ res])
    then show ?thesis by (simp add: task_check_def d x)
  qed
qed

lemma inst_poll:
  assumes inv: "install_inv e v op w"
  shows "inst e v op w (task_poll e lk j op w)"
proof -
  let ?r = "on_driver_op (\<lambda>c. poll_operation (op_env e op) (uw_abort w) (c\<lparr>co_job := j\<rparr>)) op w"
  obtain op1 w1 where r: "?r = (op1, w1)" by (cases ?r)
  have "inst e v op w ?r" by (rule inst_drive_op [OF inv]) (simp add: poll_inv)
  with r show ?thesis by (simp add: task_poll_def Let_def)
qed

lemma inst_throws:
  assumes inv: "install_inv e v op w"
  shows "inst e v op w (task_throws e lk n op w)"
proof -
  have "inst e v op w (op_cancel e (if n then OcNoMemory else OcNetworkError) op w)"
    by (rule inst_cancel [OF _ inv]) (simp add: failure_def)
  then show ?thesis by (auto simp: task_throws_def split: prod.splits)
qed

lemma inst_done [simp]: "inst e v op w (op1, w1) \<Longrightarrow> inst e v op w (op1\<lparr>op_done := b\<rparr>, w1)"
  by (auto simp: inst_def install_inv_def op_device_def op_frame_def confirmed_policy_def)

lemma inst_complete:
  assumes inv: "install_inv e v op w"
  shows "inst e v op w (complete_operation e op w)"
proof -
  have f: "inst e v op w (on_driver_op (co_finish_metadata (op_env e op)) op w)"
    by (rule inst_drive_op [OF inv finish_metadata_inv])
  have c: "inst e v op w (op_cancel e OcNetworkError op w)"
    by (rule inst_cancel [OF _ inv]) (simp add: failure_def)
  show ?thesis using f c inst_refl [OF inv]
    by (auto simp: complete_operation_def Let_def split: prod.splits)
qed

lemma inst_task_leave:
  assumes inv: "install_inv e v op w"
  shows "inst e v op w (task_leave e op w)"
proof -
  have "op_upload op = None" using inv by (simp add: install_inv_def)
  moreover have "inst e v op w (acknowledge_no_network op, w)" using inst_refl [OF inv] by simp
  then have "inst e v op w (complete_operation e (acknowledge_no_network op) w)"
    by (rule inst_trans) (rule inst_complete)
  ultimately show ?thesis using inst_complete [OF inv] by (simp add: task_leave_def)
qed

text \<open>The policy is set only to that of the confirmed offer.\<close>

lemma inst_configure:
  assumes inv: "install_inv e v op w"
    and same: "same_offer pre (op_expected op)" and current: "cr_current pre = status_text 32 (ue_version e)"
    and d: "on_driver (co_configure (feed_policy pre op)) op w = (ok, op', w')"
  shows "inst e v op w (op', w') \<and> op_task op' = op_task op"
proof -
  let ?c = "lend (uw_gate w, uw_running w, uw_updating w) (op_coord op)"
  have fp: "feed_policy pre op = confirmed_policy e op"
    using same current by (simp add: feed_policy_def confirmed_policy_def same_offer_def)
  obtain k where f: "co_configure (feed_policy pre op) ?c = (ok, k)" and op': "op' = op\<lparr>op_coord := k\<rparr>"
    and w': "uw_device w' = ld_device (rw_device (co_writer k))" "frame w w'"
    using d by (auto simp: on_driver_def Let_def frame_def split: prod.splits)
  obtain P where P: "driver_inv e v P ?c" "P = blank_policy \<or> P = confirmed_policy e op"
    using inv lend_inv by (fastforce simp: install_inv_def)
  have "\<exists>P. driver_inv e v P k \<and> (P = blank_policy \<or> P = confirmed_policy e op)"
  proof (cases ok)
    case True
    then obtain wr where "writer_configure (confirmed_policy e op) (co_writer ?c) = (True, wr)" "k = ?c\<lparr>co_writer := wr\<rparr>"
      using f fp by (auto simp: co_configure_def Let_def split: prod.splits)
    with configure_inv P(1) show ?thesis unfolding driver_inv_def by blast
  next
    case False
    then have "k = ?c" using f by (auto simp: co_configure_def writer_configure_def Let_def split: if_splits)
    with P show ?thesis by blast
  qed
  then show ?thesis using inv w'
    by (auto simp: inst_def install_inv_def op' op_device_def op_frame_def confirmed_policy_def)
qed


lemma start_outcome_inv:
  assumes c: "driver_inv e v P c" and r: "start_outcome (op_env e op) (co_start (op_env e op) url limits b optional c) = (x, d)"
  shows "driver_inv e v P d"
proof -
  obtain ok d1 where s: "co_start (op_env e op) url limits b optional c = (ok, d1)" by fastforce
  obtain live d2 where l: "budget_look (op_env e op) d1 = (live, d2)" by fastforce
  have d1: "driver_inv e v P d1" by (rule start_inv [OF c s])
  then have d2: "driver_inv e v P d2" using look_inv [OF l] by simp
  have "driver_inv e v P (co_cancel (op_env e op) (if live then OcProtocolError else OcDeadline) d2)"
    by (rule cancel_inv [OF _ d2]) (simp add: failure_def)
  with r d1 show ?thesis by (cases ok) (auto simp: start_outcome_def s l)
qed

lemma inst_decide:
  assumes inv: "install_inv e v op w" and task: "op_task op = TkChecked pre"
  shows "inst e v op w (task_decide e lk pre op w)"
proof (cases "cr_ok pre \<and> cr_update_available pre \<and> op_channel_state op = uw_channel w \<and> same_offer pre (op_expected op)")
  case False
  have c: "inst e v op w (op_cancel e OcProtocolError op (set_check_error e (lk 0) m w))" for m
    by (rule inst_cancel_after) (simp_all add: failure_def inst_refl [OF inv])
  show ?thesis using False c inst_refl [OF inv] by (auto simp: task_decide_def Let_def)
next
  case True
  then have current: "cr_current pre = status_text 32 (ue_version e)" using inv task by (simp add: install_inv_def)
  obtain ok op1 w1 where d: "on_driver (co_configure (feed_policy pre op)) op w = (ok, op1, w1)" by (rule prod_cases3)
  have i1: "inst e v op w (op1, w1)" using inst_configure [OF inv _ current d] True by simp
  have refused: "inst e v op w (op_cancel e OcInvalidState op1 w1)"
    by (rule inst_cancel_after [OF _ i1]) (simp add: failure_def)
  let ?f = "\<lambda>c. start_outcome (op_env e op1) (co_start (op_env e op1) (resolve_firmware_url e (op_target_pr op1) (op_channel op1))
      (http_limits_for kMaximumImageBytes True) True False c)"
  obtain r op2 w2 where d2: "on_driver ?f op1 w1 = (r, op2, w2)" by (rule prod_cases3)
  have "inst e v op1 w1 (op2, w2) \<and> op_task op2 = op_task op1"
    by (rule inst_drive [OF inst_inv [OF i1] d2]) (rule start_outcome_inv)
  then have i2: "inst e v op w (op2, w2)" using inst_trans [OF i1] by blast
  obtain started expired where r: "r = (started, expired)" by (cases r)
  show ?thesis
    using True refused i2 by (cases started) (auto simp: task_decide_def d d2 r split: prod.splits)
qed

lemma inst_step:
  assumes inv: "install_inv e v op w"
  shows "inst e v op w (task_step e lk i op w)"
  using inst_refl [OF inv] inst_begin [OF inv] inst_check [OF inv] inst_decide [OF inv] inst_poll [OF inv]
    inst_throws [OF inv] inst_task_leave [OF inv] inv
  by (auto simp: task_step_def install_inv_def split: task_at.splits task_input.splits option.splits)


subsection \<open>Other operations\<close>

text \<open>What every action of a task leaves alone, whatever the operation is.\<close>

definition plain :: "('p, 'd) operation \<Rightarrow> ('p, 'd) update_world \<Rightarrow> ('p, 'd) operation \<times> ('p, 'd) update_world \<Rightarrow> bool" where
  "plain op w r \<longleftrightarrow> op_generation (fst r) = op_generation op \<and> frame w (snd r)"

lemma plain_refl [simp]: "plain op w (op, w)"
  by (simp add: plain_def)

lemma plain_trans: "plain op w (op1, w1) \<Longrightarrow> plain op1 w1 r \<Longrightarrow> plain op w r"
  by (auto simp: plain_def frame_def)

lemma plain_publish [simp]:
  "plain op w (op1, set_check_error e lk m w1) \<longleftrightarrow> plain op w (op1, w1)"
  "plain op w (op1, set_state lk st pct m up w1) \<longleftrightarrow> plain op w (op1, w1)"
  "plain op w (op1, set_check_done lk res op' w1) \<longleftrightarrow> plain op w (op1, w1)"
  "plain op w (op1, publish_notes lk nt op' w1) \<longleftrightarrow> plain op w (op1, w1)"
  "plain op w (op1\<lparr>op_task := t\<rparr>, w1) \<longleftrightarrow> plain op w (op1, w1)"
  "plain op w (op1\<lparr>op_launch := l\<rparr>, w1) \<longleftrightarrow> plain op w (op1, w1)"
  "plain op w (op1\<lparr>op_upload := u\<rparr>, w1) \<longleftrightarrow> plain op w (op1, w1)"
  "plain op w (op1\<lparr>op_done := b\<rparr>, w1) \<longleftrightarrow> plain op w (op1, w1)"
  "plain op w (acknowledge_no_network op1, w1) \<longleftrightarrow> plain op w (op1, w1)"
  "plain op w (finish_upload_request op1, w1) \<longleftrightarrow> plain op w (op1, w1)"
  "plain op w (leave r) \<longleftrightarrow> plain op w r"
  by (auto simp: plain_def acknowledge_no_network_def finish_upload_request_def leave_def split: prod.splits)

lemma plain_drive: "on_driver f op w = (r, op', w') \<Longrightarrow> plain op w (op', w')"
  by (auto simp: on_driver_def plain_def frame_def Let_def split: prod.splits)

lemma plain_drive_op: "plain op w (on_driver_op f op w)"
  using plain_drive [of "\<lambda>c. ((), f c)" op w] by (cases "on_driver (\<lambda>c. ((), f c)) op w") (auto simp: on_driver_op_def)

lemma plain_cancel: "plain op w (op_cancel e r op w)"
  unfolding op_cancel_def by (rule plain_drive_op)

lemma plain_cancel_after: "plain op w (op1, w1) \<Longrightarrow> plain op w (op_cancel e r op1 w1)"
  by (erule plain_trans) (rule plain_cancel)

lemma plain_pair: "plain op w r \<Longrightarrow> r = (op1, w1) \<Longrightarrow> plain op w (op1, w1)"
  by simp

lemma plain_drive_after: "on_driver f op1 w1 = (r, op2, w2) \<Longrightarrow> plain op w (op1, w1) \<Longrightarrow> plain op w (op2, w2)"
  by (rule plain_trans) (auto dest: plain_drive)

lemma plain_drive_op_after: "on_driver_op f op1 w1 = (op2, w2) \<Longrightarrow> plain op w (op1, w1) \<Longrightarrow> plain op w (op2, w2)"
  using plain_drive_op [of op1 w1 f] by (auto intro: plain_trans)

lemma plain_cancelled: "op_cancel e r op1 w1 = (op2, w2) \<Longrightarrow> plain op w (op1, w1) \<Longrightarrow> plain op w (op2, w2)"
  using plain_cancel [of op1 w1 e r] by (auto intro: plain_trans)

lemma plain_complete: "plain op w (op1, w1) \<Longrightarrow> plain op w (complete_operation e op1 w1)"
  by (auto simp: complete_operation_def Let_def split: prod.splits if_splits
      intro: plain_cancelled plain_drive_op_after)

lemma plain_start_network:
  assumes r: "start_network_task e created op w = (ok, op', w')"
  shows "plain op w (op', w')"
proof -
  obtain live op1 w1 where d: "on_driver (budget_look (op_env e op)) op w = (live, op1, w1)" by (rule prod_cases3)
  then have p: "plain op w (op1, w1)" by (rule plain_drive)
  have "plain op w (op_cancel e OcDeadline (acknowledge_no_network op1) w1)"
    "plain op w (op_cancel e OcNetworkError (acknowledge_no_network (op1\<lparr>op_launch := NlRefused\<rparr>)) w1)"
    by (rule plain_cancel_after, simp add: p)+
  with r p d show ?thesis by (auto simp: start_network_task_def split: if_splits)
qed

lemma plain_upload_begin: "plain op w (upload_begin e lk n op w)"
  by (auto simp: upload_begin_def Let_def split: prod.splits dest: plain_drive intro: plain_drive_after)

lemma plain_begin: "plain op w (task_head e lk created op w)"
  by (auto simp: task_head_def plain_upload_begin split: option.splits prod.splits bool.splits dest: plain_start_network)

lemma plain_check_poll: "plain op w (op1, w1) \<Longrightarrow> plain op w (check_poll e on j res op1 w1)"
  by (auto simp: check_poll_def split: prod.splits intro: plain_drive_op_after)

lemma plain_check: "plain op w (task_check e lk m n j op w)"
  by (auto simp: task_check_def split: prod.splits option.splits intro!: plain_check_poll dest!: plain_drive)

lemma plain_finish_check: "plain op w (finish_check e lk res op w)"
  by (auto simp: finish_check_def Let_def split: prod.splits if_splits intro: plain_drive_op_after)

lemma plain_decide: "plain op w (task_decide e lk pre op w)"
  by (auto simp: task_decide_def Let_def split: prod.splits
      intro!: plain_cancel_after elim: plain_cancelled plain_drive_after dest: plain_drive)

lemma plain_poll: "plain op w (task_poll e lk j op w)"
  by (auto simp: task_poll_def Let_def split: prod.splits intro: plain_drive_op_after)

lemma plain_throws: "plain op w (task_throws e lk n op w)"
  by (auto simp: task_throws_def split: prod.splits intro: plain_cancelled)

lemma plain_upload_turn: "plain op w (upload_turn e lk data n m op w)"
  by (auto simp: upload_turn_def Let_def split: prod.splits if_splits
      elim!: plain_cancelled plain_drive_after dest: plain_drive)

lemma plain_upload_end: "plain op w (upload_end e lk op w)"
  by (auto simp: upload_end_def split: prod.splits intro: plain_cancelled plain_drive_op_after)

lemma plain_leave: "plain op w (task_leave e op w)"
  by (auto simp: task_leave_def intro: plain_complete)

lemma plain_step: "plain op w (task_step e lk i op w)"
  by (auto simp: task_step_def plain_begin plain_check plain_finish_check plain_decide plain_poll plain_throws
      plain_upload_turn plain_upload_end plain_leave split: task_at.splits task_input.splits option.splits)

end
