(* ===== verification/OtaScenario.thy ===== *)
theory OtaScenario
  imports OtaTask
begin

text \<open>
  An update that goes through, on the definitions of \<open>OtaUpdate\<close>: a small parser of responses, a feed with a
  manifest and an image of 513 bytes, a device, and the steps from the confirmation of the offer to the commit.
\<close>

subsection \<open>A feed that serves an update\<close>

text \<open>A parser of responses whose header is one byte, 49 for a body of one byte and anything else for 513.\<close>

definition toy_http :: "bool http_parser_api" where
  "toy_http = \<lparr>hp_init = False, hp_execute = (\<lambda>p d.
     if p then HpCall (EvBody d) (\<lambda>_. HpCall EvComplete (\<lambda>_. HpEnd (length d) True True))
     else HpCall EvBegin (\<lambda>_. HpCall (EvField ''content-length'') (\<lambda>_. HpCall (EvValue (if hd d = 49 then ''1'' else ''513''))
       (\<lambda>_. HpCall (EvHeaders 200 False) (\<lambda>_. HpEnd 1 True True)))))\<rparr>"

definition toy_size :: "u8 \<Rightarrow> nat" where "toy_size h = (if h = 49 then 1 else 513)"

definition toy_headed :: "http_limits \<Rightarrow> u8 \<Rightarrow> bool framing" where
  "toy_headed l h = (new_framing True l)\<lparr>fr_header_bytes := 1, fr_field_count := 1, fr_name := ''content-length'',
     fr_small := (if h = 49 then ''1'' else ''513''), fr_status := 200, fr_state := FsBody, fr_length := toy_size h,
     fr_remaining := toy_size h, fr_has_length := True\<rparr>"

definition toy_fed :: "http_limits \<Rightarrow> u8 \<Rightarrow> bool framing" where
  "toy_fed l h = (toy_headed l h)\<lparr>fr_body := toy_size h, fr_remaining := 0, fr_state := FsDone, fr_result := ParseComplete\<rparr>"

lemma toy_lengths: "length_digits 0 ''1'' = Some 1" "length_digits 0 ''513'' = Some 513"
  "trim_ows ''1'' = ''1''" "trim_ows ''513'' = ''513''"
  by (simp_all add: trim_ows_def ows_def)

lemma toy_field_name: "equal_ci ''content-length'' ''content-length''"
  by code_simp

lemma toy_header_piece:
  assumes "513 \<le> m" "rest = h # data"
  shows "feed_piece toy_http sink rest (new_framing False (http_limits_for m eof), c) =
    (True, toy_headed (http_limits_for m eof) h, c)"
  using assms toy_lengths toy_field_name
  by (simp add: feed_piece_def piece_size_def new_framing_def http_limits_for_def kUrlBytes_def count_metadata_def toy_http_def
      callback_def parser_begin_def parser_field_def parser_value_def parser_headers_def finish_field_def finish_value_def
      reset_fields_def field_of_name_def toy_headed_def toy_size_def Let_def)

lemma toy_body_piece:
  assumes "513 \<le> m" "length data = toy_size h" "sink (toy_headed (http_limits_for m eof) h) data c = (True, c')"
  shows "feed_piece toy_http sink data (toy_headed (http_limits_for m eof) h, c) =
    (False, toy_fed (http_limits_for m eof) h, c')"
proof -
  have "toy_size h \<noteq> 0" "toy_size h \<le> m" "data \<noteq> []" using assms by (auto simp: toy_size_def split: if_splits)
  with assms show ?thesis
    by (simp add: feed_piece_def piece_size_def new_framing_def http_limits_for_def kUrlBytes_def toy_http_def
      callback_def parser_body_def parser_complete_def finish_field_def toy_headed_def toy_fed_def Let_def)
qed

lemma toy_feed:
  assumes "513 \<le> m" "length data = toy_size h" "sink (toy_headed (http_limits_for m eof) h) data c = (True, c')"
  shows "framing_feed toy_http sink (h # data) (new_framing False (http_limits_for m eof), c) =
    (ParseComplete, toy_fed (http_limits_for m eof) h, c')"
proof -
  have [simp]: "fr_result (new_framing False (http_limits_for m eof)) = ParseMore"
    "fr_result (toy_headed (http_limits_for m eof) h) = ParseMore" "fr_result (toy_fed (http_limits_for m eof) h) = ParseComplete"
    "piece_size (new_framing False (http_limits_for m eof)) (h # data) = 1" "data \<noteq> []"
    using assms by (auto simp: new_framing_def http_limits_for_def kUrlBytes_def toy_headed_def toy_fed_def piece_size_def toy_size_def split: if_splits)
  show ?thesis
    by (simp add: framing_feed_def feed_loop.simps [of _ _ "h # data"] feed_loop.simps [of _ _ data]
        toy_header_piece [OF assms(1) refl] toy_body_piece [where sink = sink and c = c, OF assms])
qed

text \<open>The image of 513 bytes and the manifest that announces it, on a device like that of the image writer.\<close>

definition toy_image :: bytes where "toy_image = toy_head @ replicate 485 0xAA"

definition toy_digest :: bytes where "toy_digest = replicate 31 0 @ [1]"

definition toy_tree :: cjson where
  "toy_tree = CObject [(''version'', CString ''1.2.4''), (''builds'', CArray [CObject [(''parts'', CArray [CObject
     [(''path'', CString ''tesla-key-esp32.bin''), (''offset'', CNumber (Finite 0x20000)), (''size'', CNumber (Finite 513)),
      (''sha256'', CString (replicate 62 (CHR ''0'') @ ''01''))]])]])]"

definition toy_manifest_url :: string where
  "toy_manifest_url = (''https://h/'' @ replicate 250 (CHR ''m'')) @ CHR ''/'' # ''m''"

definition toy_ue :: "(bool, toy_device) update_env" where
  "toy_ue = \<lparr>ue_sdk = toy_sdk, ue_http = toy_http,
     ue_url = (\<lambda>t. Some \<lparr>uf_schema = Some (0, 5), uf_userinfo = None, uf_host = Some (8, 1), uf_port_text = None,
       uf_path = None, uf_query = None, uf_fragment = None, uf_port = 0\<rparr>),
     ue_sha256 = (\<lambda>b. Some (toy_sha b)), ue_parse = (\<lambda>t. Some (toy_tree, length t)), ue_version = ''1.2.3'',
     ue_manifest_url = toy_manifest_url, ue_firmware_base = ''https://h/'', ue_suffix = [], ue_nonce = 5\<rparr>"

definition toy_status :: ota_status where
  "toy_status = initial_status\<lparr>st_available := ''1.2.4'', st_update_available := True, st_current := ''1.2.3'',
     st_offer_id := ''000000000000000500000001'', st_image_sha256 := toy_digest, st_image_bytes := 513, st_generation := 1,
     st_manifest_sha256 := toy_sha [49], st_notes_sha256 := toy_sha []\<rparr>"

definition toy_device0 :: toy_device where
  "toy_device0 = \<lparr>td_hashed = [], td_image = [], td_stored = [], td_boot = None\<rparr>"

definition toy_world :: "(bool, toy_device) update_world" where
  "toy_world = \<lparr>uw_gate = GateIdle, uw_verification = VerStable, uw_status = toy_status, uw_changelog = [], uw_channel = 0,
     uw_serial = 1, uw_running = False, uw_updating = False, uw_target_pr = 0, uw_abort = False, uw_slot = 0,
     uw_device = toy_device0, uw_operation = None, uw_ticket = 0,
     uw_capture = \<lparr>dc_origin = 0, dc_pr = 0, dc_channel_state = 0, dc_generation = 0\<rparr>, uw_deferred_serial = 0\<rparr>"

definition toy_input :: start_input where
  "toy_input = \<lparr>si_origin = 0, si_lock = (\<lambda>n. True), si_image_state = VerStable, si_largest = 0x100000, si_alloc = True,
     si_clock = (\<lambda>n. 0), si_create = CreatePass, si_accepted = True\<rparr>"

definition toy_full :: "bytes \<Rightarrow> job" where
  "toy_full b = (new_job 1 0 (- 1))\<lparr>job_control := phase_word PhFull, job_block := b, job_bytes := length b, job_result := NetData\<rparr>"

definition toy_closed :: job where
  "toy_closed = (new_job 1 0 (- 1))\<lparr>job_control := kClose OR phase_word PhClosed\<rparr>"

text \<open>The budget of the operation and its coordinator when it starts.\<close>

definition toy_limit :: op_budget where "toy_limit = operation_budget 0 True"

lemma toy_limit_fields: "toy_limit = \<lparr>bd_policy = kOperationTimePolicy, bd_started = 0, bd_last = 0, bd_deadline = 150000,
     bd_maximum = 0x1f4000, bd_valid = True, bd_initialized = True\<rparr>"
  by (simp add: toy_limit_def operation_budget_def budget_begin_def new_budget_def duration_for_def kOperationTimePolicy_def
      kMetadataBudgetBytes_def kMaximumImageBytes_def Let_def)

lemma toy_tightened: "budget_tighten (of_nat 513 + kMetadataBudgetBytes) toy_limit = (True, toy_limit\<lparr>bd_deadline := 26032\<rparr>)"
  by (simp add: toy_limit_fields budget_tighten_def duration_for_def kOperationTimePolicy_def kMetadataBudgetBytes_def Let_def)

definition feed_env :: "(bool, toy_device leased raw_writer) ota_env" where "feed_env = co_env toy_ue (\<lambda>n. 0)"

lemma feed_env_fields: "env_http feed_env = toy_http" "env_url feed_env = ue_url toy_ue" "env_clock feed_env n = 0"
  "env_effects feed_env = raw_effects (leased_sdk toy_sdk)" "env_sink feed_env = metadata_append 8192"
  "env_overhead feed_env = kMetadataBudgetBytes" "env_effects feed_env = raw_effects (leased_sdk toy_sdk)"
  by (simp_all add: feed_env_def co_env_def toy_ue_def kOtaManifestMaxBytes_def)

definition feed_live :: "(bool, toy_device leased raw_writer) coordinator \<Rightarrow> bool" where
  "feed_live c \<longleftrightarrow> bd_valid (co_budget c) \<and> \<not> is_retired (job_control (co_job c)) \<and> bd_last (co_budget c) = 0 \<and>
   bd_started (co_budget c) = 0 \<and> bd_deadline (co_budget c) \<noteq> 0"

lemma feed_budget: "bd_valid b \<Longrightarrow> bd_last b = 0 \<Longrightarrow> bd_started b = 0 \<Longrightarrow> bd_deadline b \<noteq> 0 \<Longrightarrow> budget_live 0 b = (True, b)"
  by (cases b) (simp add: budget_live_def word_neq_0_conv)

lemma feed_alive: "feed_live c \<Longrightarrow> co_alive feed_env c = (True, c\<lparr>co_ticks := co_ticks c + 1\<rparr>)"
  by (simp add: co_alive_def feed_env_fields feed_budget feed_live_def)

lemma feed_check: "feed_live c \<Longrightarrow> co_check feed_env c = (True, c\<lparr>co_ticks := co_ticks c + 1\<rparr>)"
  by (simp add: co_check_def feed_alive)

lemma feed_look: "feed_live c \<Longrightarrow> budget_look feed_env c = (True, c\<lparr>co_ticks := co_ticks c + 1\<rparr>)"
  by (simp add: budget_look_def feed_env_fields feed_budget feed_live_def)

lemma feed_live_update [simp]:
  "feed_live (c\<lparr>co_ticks := n\<rparr>) = feed_live c" "feed_live (c\<lparr>co_writer := w\<rparr>) = feed_live c"
  "feed_live (c\<lparr>co_prefix := b\<rparr>) = feed_live c" "feed_live (c\<lparr>co_begun := x\<rparr>) = feed_live c"
  "feed_live (c\<lparr>co_borrowed := x\<rparr>) = feed_live c" "feed_live (c\<lparr>co_framing := fr\<rparr>) = feed_live c"
  "feed_live (c\<lparr>co_metadata := b\<rparr>) = feed_live c" "feed_live (c\<lparr>co_tightened := x\<rparr>) = feed_live c"
  "feed_live (c\<lparr>co_outcome := oc\<rparr>) = feed_live c" "feed_live (c\<lparr>co_image := x\<rparr>) = feed_live c"
  by (simp_all add: feed_live_def)

lemma toy_job_words: "job_control (toy_full b) = 3" "job_control toy_closed = 517" "\<not> is_retired 3" "\<not> is_retired 517"
  "\<not> in_phase PhCleanupFailed 3" "\<not> in_phase PhCleanupFailed 517" "in_phase PhClosed 517" "phase_word PhFull = 3"
  "phase_word PhBorrowed = 4" "\<not> is_retired 4" "\<not> is_retired 516" "in_phase PhBorrowed 516" "in_phase PhBorrowed 4"
  "with_phase PhReading 516 = 514" "kClose = 512" "(4 :: u32) OR 512 = 516"
  by (simp_all add: toy_full_def toy_closed_def phase_word_def kClose_def is_retired_def kRetired_def in_phase_def kPhaseMask_def
      with_phase_def)

lemma toy_full_fields: "job_result (toy_full b) = NetData" "job_bytes (toy_full b) = length b" "job_block (toy_full b) = b"
  by (simp_all add: toy_full_def)

text \<open>The poll that takes the manifest.\<close>

definition borrowed_job :: "bytes \<Rightarrow> job" where "borrowed_job b = (toy_full b)\<lparr>job_control := 4\<rparr>"

definition returned_job :: "bytes \<Rightarrow> job" where "returned_job b = (toy_full b)\<lparr>job_control := 514\<rparr>"

lemma borrowed_job_fields: "job_control (borrowed_job b) = 4" "job_result (borrowed_job b) = NetData"
  "job_bytes (borrowed_job b) = length b" "job_block (borrowed_job b) = b"
  by (simp_all add: borrowed_job_def toy_full_fields)

lemma toy_borrow: "job_borrow (toy_full b) = (True, borrowed_job b)"
  by (simp add: job_borrow_def toy_job_words borrowed_job_def)

lemma toy_return: "job_release (job_close_connection (borrowed_job b)) = (True, returned_job b)"
  by (simp add: job_release_def job_close_connection_def borrowed_job_def returned_job_def toy_job_words)

text \<open>A block that completes its response.\<close>

lemma feed_consume:
  assumes "feed_live c" "co_job c = borrowed_job (h # data)" "513 \<le> m" "length data = toy_size h"
    and body: "co_body feed_env (Some (toy_headed (http_limits_for m eof) h)) data (c\<lparr>co_ticks := co_ticks c + 1\<rparr>) = (True, d)"
  shows "co_consume feed_env (new_framing False (http_limits_for m eof)) c =
    (ParseComplete, d\<lparr>co_framing := Some (toy_fed (http_limits_for m eof) h)\<rparr>)"
  using toy_feed [OF assms(3,4), of "\<lambda>f data c. co_body feed_env (Some f) data c" eof, OF body] assms(1,2)
  by (simp add: co_consume_def feed_alive feed_env_fields borrowed_job_fields Let_def)

text \<open>What a step of a poll leaves alone.\<close>

definition feed_same :: "(bool, toy_device leased raw_writer) coordinator \<Rightarrow> (bool, toy_device leased raw_writer) coordinator \<Rightarrow> bool" where
  "feed_same c d \<longleftrightarrow> co_writer d = co_writer c \<and> co_budget d = co_budget c \<and> co_owner d = co_owner c \<and>
     co_lease_released d = co_lease_released c \<and> co_image d = co_image c \<and> co_metadata_failed d = co_metadata_failed c \<and>
     co_outcome d = co_outcome c \<and> co_job d = co_job c"

lemma manifest_body:
  assumes "feed_live c" "\<not> co_image c" "co_metadata c = []"
  shows "\<exists>d. co_body feed_env (Some f) [49] c = (True, d) \<and> co_metadata d = [49] \<and> feed_same c d"
  using assms by (simp add: co_body_def and_then_def feed_check feed_env_fields metadata_append_def feed_same_def)

lemma feed_poll_consume:
  assumes "feed_live c" "co_outcome c = OcWorking" "\<not> co_redirect_wait c" "\<not> co_lease_released c"
    "co_framing c = Some f" "co_job c = toy_full b"
    "co_consume feed_env f (c\<lparr>co_ticks := co_ticks c + 1, co_job := borrowed_job b, co_borrowed := True\<rparr>) = (parsed, d)"
    "co_outcome d = OcWorking"
  shows "co_poll feed_env c = co_return_block feed_env (co_settle feed_env parsed d)"
  using assms by (simp add: co_poll_def feed_check toy_job_words co_resume_def toy_borrow)

lemma manifest_poll:
  assumes "feed_live c" "co_outcome c = OcWorking" "\<not> co_redirect_wait c" "\<not> co_lease_released c" "\<not> co_image c"
    "co_framing c = Some (new_framing False (http_limits_for 8192 False))" "co_metadata c = []" "co_job c = toy_full [49, 49]"
  shows "\<exists>d. co_poll feed_env c = d \<and> co_metadata d = [49] \<and> co_outcome d = OcMetadataReady \<and> co_job d = returned_job [49, 49] \<and>
    co_writer d = co_writer c \<and> co_budget d = co_budget c \<and> co_owner d = co_owner c \<and>
    co_lease_released d = co_lease_released c \<and> co_image d = co_image c \<and> co_metadata_failed d = co_metadata_failed c"
proof -
  let ?c = "c\<lparr>co_ticks := co_ticks c + 1, co_job := borrowed_job [49, 49], co_borrowed := True\<rparr>"
  have live: "feed_live (c\<lparr>co_job := borrowed_job [49, 49]\<rparr>)" using assms(1) by (simp add: feed_live_def borrowed_job_fields toy_job_words)
  then have live': "feed_live (?c\<lparr>co_ticks := co_ticks ?c + 1\<rparr>)" "feed_live ?c" by (simp_all add: feed_live_def)
  from manifest_body [OF live'(1)] obtain d where d: "co_body feed_env (Some (toy_headed (http_limits_for 8192 False) 49)) [49]
      (?c\<lparr>co_ticks := co_ticks ?c + 1\<rparr>) = (True, d)" "co_metadata d = [49]" "feed_same (?c\<lparr>co_ticks := co_ticks ?c + 1\<rparr>) d"
    using assms(5,7) by auto
  from d(3) have same: "co_writer d = co_writer c" "co_budget d = co_budget c" "co_owner d = co_owner c" "co_image d = co_image c"
    "co_lease_released d = co_lease_released c" "co_metadata_failed d = co_metadata_failed c" "co_outcome d = OcWorking"
    "co_job d = borrowed_job [49, 49]" using assms(2) by (simp_all add: feed_same_def)
  have consume: "co_consume feed_env (new_framing False (http_limits_for 8192 False)) ?c =
      (ParseComplete, d\<lparr>co_framing := Some (toy_fed (http_limits_for 8192 False) 49)\<rparr>)"
    by (rule feed_consume) (use d(1) live'(2) in \<open>simp_all add: toy_size_def\<close>)
  have "feed_live d" using live same by (simp add: feed_live_def)
  with feed_poll_consume [OF assms(1-4,6,8) consume] same d(2) assms(5) show ?thesis
    by (simp add: co_settle_def feed_check co_close_def co_return_block_def toy_return Let_def)
qed

text \<open>The writer behind the lease.\<close>

definition offer_policy :: image_policy where
  "offer_policy = toy_policy\<lparr>pol_expected_sha256 := toy_digest, pol_expected_bytes := 513\<rparr>"

abbreviation leased_toy :: "toy_device leased esp_sdk" where "leased_toy \<equiv> leased_sdk toy_sdk"

lemma leased_recognised: "image_recognised (leased_sdk sdk) = image_recognised sdk"
  by (simp add: fun_eq_iff leased_sdk_def image_recognised_def image_descriptor_def Let_def)

lemma leased_toy_head: "sdk_prefix_bytes leased_toy = 28" "image_recognised leased_toy toy_head"
  "descriptor_version leased_toy (image_descriptor leased_toy toy_head) = ''1.2.4''"
  using toy_prefix_bytes toy_recognised toy_version
  by (simp_all add: leased_recognised) (simp_all add: leased_sdk_def sdk_prefix_bytes_def image_descriptor_def descriptor_version_def)

lemma leased_toy_fields: "sdk_next_partition leased_toy l = Some toy_slot" "sdk_running_partition leased_toy l = None"
  "sdk_crypto_init leased_toy l = (PsaOk, l)"
  "sdk_hash_setup leased_toy l = (PsaOk, l\<lparr>ld_device := (ld_device l)\<lparr>td_hashed := []\<rparr>\<rparr>)"
  "sdk_hash_update leased_toy b l = (PsaOk, l\<lparr>ld_device := (ld_device l)\<lparr>td_hashed := td_hashed (ld_device l) @ b\<rparr>\<rparr>)"
  "sdk_hash_finish leased_toy l = (PsaOk, toy_sha (td_hashed (ld_device l)), l)"
  "sdk_ota_begin leased_toy toy_slot l = (EspOk, 1, l\<lparr>ld_device := (ld_device l)\<lparr>td_image := []\<rparr>\<rparr>)"
  "sdk_ota_write leased_toy 1 b l = (EspOk, l\<lparr>ld_device := (ld_device l)\<lparr>td_image := td_image (ld_device l) @ b\<rparr>\<rparr>)"
  "toy_verified (td_image (ld_device l)) \<Longrightarrow>
   sdk_ota_end leased_toy 1 l = (EspOk, l\<lparr>ld_device := (ld_device l)\<lparr>td_stored := td_image (ld_device l)\<rparr>\<rparr>)"
  "sdk_set_boot leased_toy q l = (EspOk, l\<lparr>ld_device := (ld_device l)\<lparr>td_boot := Some q\<rparr>\<rparr>)"
  by (simp_all add: leased_sdk_def on_device_def toy_sdk_fields)

lemma offer_admitted: "policy_admits offer_policy ''1.2.4''"
  using toy_canonical_new toy_canonical_old toy_offered
  by (simp add: policy_admits_def offer_policy_def toy_policy_def bounded_c_string_view_def kOtaUploadMaxBytes_def)

lemma offer_policy_fields: "pol_direct_upload offer_policy = False" "pol_expected_bytes offer_policy = 513"
  "pol_expected_sha256 offer_policy = toy_digest"
  by (simp_all add: offer_policy_def toy_policy_def)

definition writer_ready :: "toy_device leased raw_writer \<Rightarrow> bool" where
  "writer_ready w \<longleftrightarrow> rw_handle w = 0 \<and> \<not> rw_uncertain w \<and> rw_policy w = offer_policy \<and> rw_received w = 0"

definition writer_filling :: "bytes \<Rightarrow> toy_device leased raw_writer \<Rightarrow> bool" where
  "writer_filling b w \<longleftrightarrow> rw_handle w = 1 \<and> \<not> rw_uncertain w \<and> rw_policy w = offer_policy \<and> rw_partition w = Some toy_slot \<and>
     rw_hash_live w \<and> rw_received w = of_nat (length b) \<and> td_hashed (ld_device (rw_device w)) = b \<and>
     td_image (ld_device (rw_device w)) = b"

lemma leased_toy_prefix: "writer_ready w \<Longrightarrow> writer_prefix leased_toy toy_head w = (EffectOk, w\<lparr>rw_partition := Some toy_slot\<rparr>)"
  using leased_toy_head offer_admitted toy_head_length toy_slot_usable
  by (simp add: writer_prefix_def writer_ready_def leased_toy_fields Let_def)

lemma leased_toy_begin: "writer_ready w \<Longrightarrow> \<exists>w'. writer_begin leased_toy (w\<lparr>rw_partition := Some toy_slot\<rparr>) = (EffectOk, w') \<and> writer_filling [] w'"
  by (simp add: writer_begin_def writer_hash_start_def leased_toy_fields offer_policy_fields Let_def writer_error_def
      writer_ready_def writer_filling_def)

lemma leased_toy_write:
  assumes "writer_filling b w" "d \<noteq> []" "length b + length d \<le> 513"
  shows "\<exists>w'. writer_write leased_toy d w = (EffectOk, w') \<and> writer_filling (b @ d) w'"
proof -
  have "of_nat (length b) \<le> (513 :: u32)" using assms(3) by (simp add: word_le_nat_alt unat_of_nat)
  then have "unat (513 - of_nat (length b) :: u32) = 513 - length b" using assms(3) by (simp add: unat_sub unat_of_nat)
  with assms show ?thesis
    by (simp add: writer_write_def writer_flash_def leased_toy_fields offer_policy_fields Let_def writer_error_def
        writer_filling_def kBlockBytes_def)
qed

lemma toy_image_facts: "length toy_image = 513" "take 28 toy_image = toy_head" "drop 28 toy_image \<noteq> []"
  "length (drop 28 toy_image) = 485" "toy_head @ drop 28 toy_image = toy_image" "toy_verified toy_image" "toy_head \<noteq> []"
  by (simp_all add: toy_image_def toy_head_length toy_verified_def toy_head_bytes)

lemma leased_toy_end:
  assumes "writer_filling toy_image w"
  shows "\<exists>w' w''. writer_end leased_toy w = (EffectOk, w') \<and> writer_select leased_toy w' = (EffectCommitted, w'')"
proof -
  have "toy_sha toy_image = toy_digest" "length toy_digest = 32" using toy_image_facts by (simp_all add: toy_sha_def toy_digest_def)
  with assms toy_image_facts show ?thesis
    by (simp add: writer_end_def writer_verify_def writer_select_def leased_toy_fields offer_policy_fields Let_def
        writer_error_def writer_filling_def)
qed

lemma leased_effects: "ef_prefix_bytes (raw_effects leased_toy) = 28" "ef_check_prefix (raw_effects leased_toy) = writer_prefix leased_toy"
  "ef_begin (raw_effects leased_toy) = writer_begin leased_toy" "ef_write (raw_effects leased_toy) = writer_write leased_toy"
  "ef_finish (raw_effects leased_toy) = writer_end leased_toy" "ef_select_boot (raw_effects leased_toy) = writer_select leased_toy"
  by (simp_all add: raw_effects_def leased_toy_head)

text \<open>The poll that takes the image.\<close>

lemma image_begin:
  assumes "feed_live c" "co_prefix c = toy_head" "writer_ready (co_writer c)"
  shows "\<exists>w n. co_begin_image feed_env c = (True, c\<lparr>co_begun := True, co_ticks := n, co_writer := w\<rparr>) \<and> writer_filling toy_head w"
proof -
  obtain w1 where w1: "writer_begin leased_toy ((co_writer c)\<lparr>rw_partition := Some toy_slot\<rparr>) = (EffectOk, w1)" "writer_filling [] w1"
    using leased_toy_begin [OF assms(3)] by blast
  obtain w2 where w2: "writer_write leased_toy toy_head w1 = (EffectOk, w2)" "writer_filling toy_head w2"
    using leased_toy_write [OF w1(2) toy_image_facts(7)] toy_head_length by auto
  from assms w1(1) w2(1) leased_toy_prefix [OF assms(3)] have
    "co_begin_image feed_env c = (True, c\<lparr>co_begun := True, co_ticks := co_ticks c + 4, co_writer := w2\<rparr>)"
    by (simp add: co_begin_image_def feed_check and_then_def co_admit_def co_begin_def co_write_def leased_effects feed_env_fields)
  with w2(2) show ?thesis by blast
qed

lemma image_body:
  assumes "feed_live c" "co_image c" "\<not> co_tightened c" "\<not> co_begun c" "co_prefix c = []" "co_budget c = toy_limit"
    "writer_ready (co_writer c)"
  shows "\<exists>d. co_body feed_env (Some (toy_headed l 0)) toy_image c = (True, d) \<and> feed_live d \<and> writer_filling toy_image (co_writer d) \<and>
    co_begun d \<and> co_image d \<and> co_tightened d \<and> co_outcome d = co_outcome c \<and> co_job d = co_job c"
proof -
  let ?c = "c\<lparr>co_tightened := True, co_budget := toy_limit\<lparr>bd_deadline := 26032\<rparr>\<rparr>"
  let ?d = "?c\<lparr>co_ticks := co_ticks c + 1, co_prefix := toy_head\<rparr>"
  have live: "feed_live ?c" using assms(1) by (simp add: feed_live_def toy_limit_fields)
  obtain w n where w: "co_begin_image feed_env ?d = (True, ?d\<lparr>co_begun := True, co_ticks := n, co_writer := w\<rparr>)" "writer_filling toy_head w"
    using image_begin [of ?d] live assms(7) by auto
  obtain w' where w': "writer_write leased_toy (drop 28 toy_image) w = (EffectOk, w')" "writer_filling toy_image w'"
    using leased_toy_write [OF w(2) toy_image_facts(3)] toy_image_facts toy_head_length by auto
  let ?e = "?d\<lparr>co_begun := True, co_ticks := n + 1, co_writer := w'\<rparr>"
  have "co_image_data feed_env (drop 28 toy_image) ?d = (True, ?e)"
    using w(1) w'(1) live toy_image_facts(3) assms(4)
    by (simp add: co_image_data_def and_then_def co_write_def feed_env_fields leased_effects feed_check)
  moreover have "co_tighten feed_env 513 c = (True, ?c)"
    using toy_tightened assms(6) by (simp add: co_tighten_def feed_env_fields)
  ultimately have "co_body feed_env (Some (toy_headed l 0)) toy_image c = (True, ?e)"
    using assms live toy_image_facts(1,2) toy_head_length leased_toy_head(1)
    by (simp add: co_body_def and_then_def toy_headed_def toy_size_def feed_check feed_env_fields leased_effects Let_def)
  moreover have "feed_live ?e" using live by (simp add: feed_live_def)
  ultimately show ?thesis using w'(2) assms(2) by (intro exI [of _ ?e]) simp
qed

lemma image_finish:
  assumes "feed_live c" "writer_filling toy_image (co_writer c)" "co_begun c"
  shows "\<exists>n w. co_finish_image feed_env c = co_retire (c\<lparr>co_ticks := n, co_writer := w\<rparr>)\<lparr>co_outcome := OcCommitted\<rparr>"
proof -
  obtain w1 w2 where "writer_end leased_toy (co_writer c) = (EffectOk, w1)" "writer_select leased_toy w1 = (EffectCommitted, w2)"
    using leased_toy_end [OF assms(2)] by blast
  with assms(1,3) have "co_finish_image feed_env c = co_retire (c\<lparr>co_ticks := co_ticks c + 2, co_writer := w2\<rparr>)\<lparr>co_outcome := OcCommitted\<rparr>"
    by (simp add: co_finish_image_def feed_alive feed_env_fields leased_effects co_retire_def Let_def)
  then show ?thesis by blast
qed

lemma image_poll:
  assumes "feed_live c" "co_outcome c = OcWorking" "\<not> co_redirect_wait c" "\<not> co_lease_released c" "co_image c"
    "co_framing c = Some (new_framing False (http_limits_for kMaximumImageBytes True))" "co_job c = toy_full (0 # toy_image)"
    "\<not> co_tightened c" "\<not> co_begun c" "co_prefix c = []" "co_budget c = toy_limit" "writer_ready (co_writer c)"
  shows "co_outcome (co_poll feed_env c) = OcCommitted"
proof -
  let ?l = "http_limits_for kMaximumImageBytes True"
  let ?c = "c\<lparr>co_ticks := co_ticks c + 1, co_job := borrowed_job (0 # toy_image), co_borrowed := True\<rparr>"
  have live: "feed_live (?c\<lparr>co_ticks := co_ticks ?c + 1\<rparr>)" "feed_live ?c"
    using assms(1) by (simp_all add: feed_live_def borrowed_job_fields toy_job_words)
  from image_body [OF live(1), of ?l] assms obtain d where d: "co_body feed_env (Some (toy_headed ?l 0)) toy_image
      (?c\<lparr>co_ticks := co_ticks ?c + 1\<rparr>) = (True, d)" "feed_live d" "writer_filling toy_image (co_writer d)"
    "co_begun d" "co_image d" "co_tightened d" "co_outcome d = OcWorking" "co_job d = borrowed_job (0 # toy_image)"
    by auto
  have consume: "co_consume feed_env (new_framing False ?l) ?c = (ParseComplete, d\<lparr>co_framing := Some (toy_fed ?l 0)\<rparr>)"
    by (rule feed_consume) (use d(1) live(2) toy_image_facts(1) in \<open>simp_all add: toy_size_def kMaximumImageBytes_def\<close>)
  let ?d = "co_close (d\<lparr>co_framing := Some (toy_fed ?l 0), co_ticks := co_ticks d + 1\<rparr>)"
  have "feed_live ?d" using d(2,8) by (simp add: feed_live_def co_close_def job_close_connection_def borrowed_job_fields toy_job_words)
  then obtain n w where f: "co_finish_image feed_env ?d = co_retire (?d\<lparr>co_ticks := n, co_writer := w\<rparr>)\<lparr>co_outcome := OcCommitted\<rparr>"
    using image_finish [of ?d] d(3,4) by (auto simp: co_close_def)
  have "co_settle feed_env ParseComplete (d\<lparr>co_framing := Some (toy_fed ?l 0)\<rparr>) = co_finish_image feed_env ?d"
    using d by (simp add: co_settle_def feed_check Let_def co_close_def)
  with feed_poll_consume [OF assms(1-4,6,7) consume] d(7,8) f show ?thesis
    by (simp add: co_return_block_def co_retire_def co_close_def job_retire_def job_close_connection_def job_release_def
        borrowed_job_fields in_phase_def kPhaseMask_def kRetired_def kClose_def phase_word_def release_if_safe_def Let_def)
qed

subsection \<open>The steps of the installation\<close>

text \<open>The operation as the start leaves it.\<close>

definition toy_coord :: "(bool, toy_device) driver" where
  "toy_coord = new_coordinator 1 (new_job 1 0 (bd_deadline toy_limit)) toy_limit
     (new_raw_writer blank_policy \<lparr>ld_device = toy_device0, ld_word = (GateOta, True, True), ld_held = True\<rparr>)"

definition toy_op :: "(bool, toy_device) operation" where
  "toy_op = \<lparr>op_coord = toy_coord, op_clock = (\<lambda>n. 0), op_target_pr = 0, op_channel = Release, op_image = True,
     op_channel_state = 0, op_generation = 2, op_boot_nonce = 5, op_expected = confirmed_offer toy_status, op_done = False,
     op_launch = NlNotAttempted, op_upload = None, op_task = TkCreated\<rparr>"

text \<open>A world that holds the lease for an operation.\<close>

definition toy_holds :: "(bool, toy_device) update_world \<Rightarrow> bool" where
  "toy_holds w \<longleftrightarrow> uw_gate w = GateOta \<and> uw_running w \<and> uw_updating w \<and> uw_channel w = 0 \<and> \<not> uw_abort w"

lemma toy_offer_id: "ota_offer_id_valid ''000000000000000500000001''"
  by code_simp

lemma toy_memory: "ota_recovery_memory_affordable 0x100000 (ota_recovery_required_bytes_for OperationEntry kOtaRecoveryRequirements)"
  by (simp add: ota_recovery_memory_affordable_def ota_recovery_required_bytes_for_def kOtaRecoveryRequirements_def
      kOtaRecoveryEntryRequiredB_def ota_recovery_requirement_valid_def)

lemma toy_reserves: "reserve_operation toy_ue True VerStable 0 True toy_world =
    (OtaStarted, toy_world\<lparr>uw_gate := GateOta, uw_verification := VerStable, uw_target_pr := 0, uw_abort := False\<rparr>)"
  by (simp add: reserve_operation_def gate_try_begin_def gate_try_begin_observed_def compare_exchange_def
      reclaim_finished_operation_def toy_world_def Let_def)

lemma toy_world_fields: "uw_status toy_world = toy_status" "uw_channel toy_world = 0" "uw_serial toy_world = 1"
  "uw_device toy_world = toy_device0" "uw_slot toy_world = 0"
  by (simp_all add: toy_world_def)

lemma toy_status_fields: "st_offer_id toy_status = ''000000000000000500000001''" "st_target_pr toy_status = 0"
  "st_generation toy_status = 1" "st_channel_state toy_status = 0" "st_update_available toy_status"
  by (simp_all add: toy_status_def initial_status_def blank_status_def)

lemma toy_matches: "uw_status w = toy_status \<Longrightarrow> uw_channel w = 0 \<Longrightarrow> uw_serial w = 1 \<Longrightarrow>
    offer_matches ''000000000000000500000001'' 0 w"
  using toy_offer_id
  by (simp add: offer_matches_def offer_is_current_def ota_offer_current_def toy_status_fields kOtaChannelExhausted_def)

lemma toy_prepares:
  assumes "uw_slot w = 0" "uw_gate w = GateOta" "uw_device w = toy_device0" "uw_channel w = 0" "\<not> uw_abort w"
  shows "\<exists>w'. prepare_owned_operation toy_ue toy_input 0 0 0 True 2 (Some (confirmed_offer toy_status)) w = (OtaStarted, w') \<and> toy_holds w' \<and> uw_operation w' = Some toy_op"
  using assms toy_memory
  by (simp add: prepare_owned_operation_def publish_operation_start_def set_changelog_def slot_claim_def new_operation_def
      toy_input_def toy_holds_def toy_op_def toy_coord_def toy_limit_def ota_channel_in_state_def Let_def toy_ue_def)

lemma toy_starts:
  "\<exists>w. ota_start toy_ue toy_input 0 ''000000000000000500000001'' toy_world = (OtaStarted, w) \<and> toy_holds w \<and> uw_operation w = Some toy_op"
proof -
  let ?w = "toy_world\<lparr>uw_gate := GateOta, uw_verification := VerStable, uw_target_pr := 0, uw_abort := False, uw_serial := 2\<rparr>"
  obtain w where w: "prepare_owned_operation toy_ue toy_input 0 0 0 True 2 (Some (confirmed_offer toy_status)) ?w = (OtaStarted, w)"
    "toy_holds w" "uw_operation w = Some toy_op" using toy_prepares [of ?w] by (auto simp: toy_world_fields)
  have i: "si_lock toy_input n" "si_image_state toy_input = VerStable" "si_origin toy_input = 0" "si_create toy_input = CreatePass" for n
    by (simp_all add: toy_input_def)
  have "\<not> - 2 \<le> (1 :: u32)" by code_simp
  then have "ota_start toy_ue toy_input 0 ''000000000000000500000001'' toy_world = (OtaStarted, w\<lparr>uw_operation := Some toy_op\<rparr>)"
    using w by (simp add: ota_start_def i toy_reserves toy_matches toy_world_fields advance_offer_generation_def
        ota_next_offer_generation_def with_operation_def launch_coordinator_def toy_holds_def Let_def)
  with w(2) show ?thesis by (simp add: toy_holds_def)
qed

text \<open>A call of the coordinator that leaves the lease as it is.\<close>

lemma feed_drive:
  assumes "toy_holds w" "ld_word (rw_device (co_writer (op_coord op))) = (GateOta, True, True)" "f (op_coord op) = (r, c)"
    "ld_word (rw_device (co_writer c)) = (GateOta, True, True)"
  shows "\<exists>w'. on_driver f op w = (r, op\<lparr>op_coord := c\<rparr>, w') \<and> toy_holds w'"
proof -
  have "lend (GateOta, True, True) (op_coord op) = op_coord op" using assms(2) by (simp add: lend_def)
  with assms show ?thesis by (simp add: on_driver_def toy_holds_def)
qed

lemma feed_drive_op:
  assumes "toy_holds w" "ld_word (rw_device (co_writer (op_coord op))) = (GateOta, True, True)"
    "ld_word (rw_device (co_writer (f (op_coord op)))) = (GateOta, True, True)"
  shows "\<exists>w'. on_driver_op f op w = (op\<lparr>op_coord := f (op_coord op)\<rparr>, w') \<and> toy_holds w'"
  using feed_drive [of w op "\<lambda>c. ((), f c)", OF assms(1,2) refl assms(3)] by (auto simp: on_driver_op_def)

lemma toy_op_env: "op_clock op = (\<lambda>n. 0) \<Longrightarrow> op_env toy_ue op = feed_env"
  by (simp add: op_env_def feed_env_def)

lemma toy_holds_publish [simp]:
  "toy_holds (set_state lk st n m u w) = toy_holds w" "toy_holds (publish_notes lk notes op' w) = toy_holds w"
  "toy_holds (w\<lparr>uw_operation := x\<rparr>) = toy_holds w"
  by (simp_all add: toy_holds_def set_state_def publish_notes_def set_changelog_def)

text \<open>What the coordinator is between the steps.\<close>

definition coord_with :: "toy_device leased raw_writer \<Rightarrow> (bool, toy_device) driver \<Rightarrow> bool" where
  "coord_with wr c \<longleftrightarrow> co_budget c = toy_limit \<and> co_owner c = 1 \<and> \<not> co_lease_released c \<and> co_writer c = wr"

abbreviation coord_ready :: "(bool, toy_device) driver \<Rightarrow> bool" where "coord_ready \<equiv> coord_with (co_writer toy_coord)"

lemma ready_live: "co_budget c = toy_limit \<Longrightarrow> \<not> is_retired (job_control (co_job c)) \<Longrightarrow> feed_live c"
  by (simp add: feed_live_def toy_limit_fields)

lemma toy_framing_more: "0 < m \<Longrightarrow> fr_result (new_framing p (http_limits_for m eof)) = ParseMore"
  by (simp add: new_framing_def http_limits_for_def kUrlBytes_def)

definition toy_job_ok :: "job \<Rightarrow> bool" where
  "toy_job_ok j \<longleftrightarrow> job_generation j = 1 \<and> job_started j = 0 \<and> \<not> job_deadline j < 150000 \<and> \<not> is_retired (job_control j) \<and>
     (in_phase PhIdle (job_control j) \<or> in_phase PhClosed (job_control j))"

definition toy_url_ok :: "string \<Rightarrow> bool" where
  "toy_url_ok u \<longleftrightarrow> u \<noteq> [] \<and> length u < kUrlBytes \<and> list_all url_char_ok u \<and> take 5 u = ''https''"

lemma toy_https: "toy_url_ok u \<Longrightarrow> valid_https_url (ue_url toy_ue) u \<noteq> None"
proof -
  have "equal_ci ''https'' ''https''" by code_simp
  then show "toy_url_ok u \<Longrightarrow> ?thesis"
    by (simp add: toy_url_ok_def valid_https_url_def toy_ue_def url_field_def field_data_def)
qed

lemma feed_start:
  assumes "coord_with wr c" "toy_job_ok (co_job c)" "co_outcome c = OcIdle \<or> co_outcome c = OcMetadataReady" "toy_url_ok url" "0 < m"
  shows "\<exists>d. co_start feed_env url (http_limits_for m eof) b False c = (True, d) \<and> coord_with wr d \<and> co_outcome d = OcWorking \<and>
    \<not> co_redirect_wait d \<and> co_framing d = Some (new_framing False (http_limits_for m eof)) \<and> co_image d = b \<and> \<not> co_tightened d \<and>
    \<not> co_begun d \<and> co_prefix d = [] \<and> \<not> co_metadata_failed d \<and> co_metadata d = co_metadata c"
proof -
  have "feed_live c" using assms(1,2) by (intro ready_live) (simp_all add: coord_with_def toy_job_ok_def)
  then have alive: "co_alive feed_env c = (True, c\<lparr>co_ticks := co_ticks c + 1\<rparr>)" by (rule feed_alive)
  obtain u where "valid_https_url (ue_url toy_ue) url = Some u" using toy_https [OF assms(4)] by blast
  moreover have "hp_init toy_http = False" by (simp add: toy_http_def)
  ultimately show ?thesis using assms(1-4) alive leased_toy_head(1)
    by (simp add: toy_framing_more [OF assms(5)] co_start_def coord_with_def toy_job_ok_def toy_limit_fields slot_owns_def feed_env_fields job_request_def
        request_admitted_def request_store_def toy_url_ok_def prefix_capacity_def Let_def)
qed

lemma toy_closed_ok: "toy_job_ok toy_closed" "job_control toy_closed = 517"
  by (simp_all add: toy_job_ok_def toy_closed_def new_job_def toy_job_words is_retired_def in_phase_def kRetired_def kPhaseMask_def phase_word_def)

text \<open>A poll when there is nothing to do.\<close>

lemma idle_poll:
  assumes "co_budget c = toy_limit" "co_job c = toy_closed" "co_outcome c = OcMetadataReady" "\<not> co_lease_released c"
  shows "poll_operation feed_env False c = c\<lparr>co_ticks := co_ticks c + 1\<rparr>"
proof -
  have "feed_live c" using assms by (intro ready_live) (simp_all add: toy_job_words)
  with assms show ?thesis by (simp add: poll_operation_def co_poll_def feed_check toy_job_words)
qed

lemma toy_fetch:
  assumes "coord_ready c" "toy_job_ok (co_job c)" "co_outcome c = OcIdle" "toy_url_ok url"
  shows "\<exists>d. http_get_to_buffer feed_env url False (True, [(False, toy_full [49, 49]), (False, toy_closed)]) c = Some (FetchOk, [49], d) \<and>
    coord_ready d \<and> co_job d = toy_closed \<and> co_outcome d = OcMetadataReady"
proof -
  obtain d where d: "co_start feed_env url (http_limits_for kOtaManifestMaxBytes False) False False (c\<lparr>co_metadata := []\<rparr>) = (True, d)"
    "coord_ready d" "co_outcome d = OcWorking" "\<not> co_redirect_wait d" "co_framing d = Some (new_framing False (http_limits_for 8192 False))"
    "\<not> co_image d" "\<not> co_metadata_failed d" "co_metadata d = []"
    using feed_start [of "co_writer toy_coord" "c\<lparr>co_metadata := []\<rparr>" url 8192 False False] assms by (auto simp: coord_with_def kOtaManifestMaxBytes_def)
  let ?d = "d\<lparr>co_job := toy_full [49, 49]\<rparr>"
  have "feed_live ?d" using d(2) by (intro ready_live) (simp_all add: coord_with_def toy_job_words)
  from manifest_poll [OF this] d obtain k where k: "co_poll feed_env ?d = k" "co_metadata k = [49]" "co_outcome k = OcMetadataReady"
    "co_job k = returned_job [49, 49]" "coord_ready k" "\<not> co_metadata_failed k"
    by (auto simp: coord_with_def)
  have "\<not> in_phase PhClosed (job_control (returned_job [49, 49]))"
    by (simp add: returned_job_def in_phase_def kPhaseMask_def phase_word_def)
  with k have turn: "fetch_loop feed_env ((False, toy_full [49, 49]) # t) d = fetch_loop feed_env t k" for t
    by (simp add: poll_operation_def Let_def)
  have "poll_operation feed_env False (k\<lparr>co_job := toy_closed\<rparr>) = k\<lparr>co_job := toy_closed, co_ticks := co_ticks k + 1\<rparr>"
    using idle_poll [of "k\<lparr>co_job := toy_closed\<rparr>"] k by (simp add: coord_with_def)
  with turn d(1) k show ?thesis
    by (simp add: http_get_to_buffer_def toy_job_words coord_with_def Let_def)
qed

text \<open>What the manifest says.\<close>

definition toy_result :: check_result where
  "toy_result = \<lparr>cr_ok = True, cr_update_available = True, cr_current = ''1.2.3'', cr_available = ''1.2.4'',
     cr_reason = ''update available'', cr_target_pr = 0, cr_manifest_sha256 = toy_sha [49], cr_notes_sha256 = toy_sha [],
     cr_image_sha256 = toy_digest, cr_image_bytes = 513\<rparr>"

lemma toy_version_texts: "status_text 32 ''1.2.3'' = ''1.2.3''" "status_text 32 ''1.2.4'' = ''1.2.4''"
  by (simp_all add: status_text_def bounded_c_string_view_def)

lemma toy_manifest_gate: "json_syntax_status ''1'' 0 = JsonValid"
  by code_simp

lemma toy_manifest_version: "inspect_ota_manifest toy_tree = Inr ''1.2.4''"
  by code_simp

lemma toy_digest_text: "parse_ota_sha256 (replicate 62 (CHR ''0'') @ ''01'') = Some toy_digest"
  by code_simp

lemma toy_manifest_image: "inspect_ota_image toy_tree ''tesla-key-esp32.bin'' = Some (toy_digest, 513)"
  using toy_digest_text
  by (simp add: inspect_ota_image_def toy_tree_def cjson_get_def cjson_items_def cjson_string_def ota_manifest_unique_object_def
      part_image_def image_size_def image_offset_ok_def kOtaUploadMaxBytes_def)

lemma toy_manifest: "read_manifest toy_ue [49] (blank_check\<lparr>cr_target_pr := 0, cr_current := ''1.2.3''\<rparr>) =
    Inr (blank_check\<lparr>cr_target_pr := 0, cr_current := ''1.2.3'', cr_manifest_sha256 := toy_sha [49], cr_available := ''1.2.4'',
      cr_image_sha256 := toy_digest, cr_image_bytes := 513\<rparr>)"
proof -
  have "text_of [49] = ''1''" by code_simp
  moreover have "app_path toy_ue = ''tesla-key-esp32.bin''" "ue_sha256 toy_ue b = Some (toy_sha b)"
    "ue_parse toy_ue t = Some (toy_tree, length t)" for b t by (simp_all add: app_path_def toy_ue_def)
  ultimately show ?thesis
    by (simp add: read_manifest_def json_materialize_def toy_manifest_gate toy_manifest_version toy_manifest_image
        toy_canonical_new toy_version_texts)
qed

lemma toy_sibling: "ota_manifest_sibling_url toy_manifest_url ''changelog.json'' 256 = None"
proof -
  have "rfind_char (CHR ''/'') toy_manifest_url = Some 260"
    unfolding toy_manifest_url_def by (subst rfind_char_append) simp_all
  then show ?thesis by (simp add: ota_manifest_sibling_url_def)
qed

lemma toy_urls_ok: "toy_url_ok toy_manifest_url" "toy_url_ok ''https://h/tesla-key-esp32.bin''"
proof -
  have parts: "list_all url_char_ok ''https://h/tesla-key-esp32.bin''" "list_all url_char_ok ''https://h/''"
    "list_all url_char_ok ''/m''" "url_char_ok (CHR ''m'')" by code_simp+
  have "list_all url_char_ok (replicate n (CHR ''m''))" for n using parts(4) by (induction n) simp_all
  with parts have "list_all url_char_ok toy_manifest_url" unfolding toy_manifest_url_def by simp
  moreover have "length toy_manifest_url = 262" "take 5 toy_manifest_url = ''https''"
    by (simp_all add: toy_manifest_url_def)
  ultimately show "toy_url_ok toy_manifest_url" by (auto simp: toy_url_ok_def kUrlBytes_def)
  show "toy_url_ok ''https://h/tesla-key-esp32.bin''" using parts(1) by (simp add: toy_url_ok_def kUrlBytes_def)
qed

text \<open>The check.\<close>

lemma toy_check_done:
  assumes "coord_ready c" "toy_job_ok (co_job c)" "co_outcome c = OcIdle"
  shows "\<exists>d. perform_check toy_ue feed_env 0 Release (True, [(False, toy_full [49, 49]), (False, toy_closed)]) notes c =
    Some (True, toy_result, None, d) \<and> coord_ready d \<and> co_job d = toy_closed \<and> co_outcome d = OcMetadataReady"
proof -
  obtain d where d: "http_get_to_buffer feed_env toy_manifest_url False (True, [(False, toy_full [49, 49]), (False, toy_closed)]) c =
      Some (FetchOk, [49], d)" "coord_ready d" "co_job d = toy_closed" "co_outcome d = OcMetadataReady"
    using toy_fetch [OF assms toy_urls_ok(1)] by blast
  have e: "ue_version toy_ue = ''1.2.3''" "ue_manifest_url toy_ue = toy_manifest_url" "ue_sha256 toy_ue [] = Some (toy_sha [])"
    "resolve_manifest_url_into 0 Release toy_manifest_url = toy_manifest_url"
    by (simp_all add: toy_ue_def resolve_manifest_url_into_def)
  have "perform_check toy_ue feed_env 0 Release (True, [(False, toy_full [49, 49]), (False, toy_closed)]) notes c =
    Some (True, toy_result, None, d)"
    using d(1) toy_manifest toy_offered toy_canonical_old toy_sibling
    by (simp add: perform_check_def e toy_version_texts fetch_notes_def toy_result_def blank_check_def Let_def)
  with d show ?thesis by blast
qed

text \<open>The operation between the steps.\<close>

definition toy_at :: "task_at \<Rightarrow> (bool, toy_device) operation \<Rightarrow> bool" where
  "toy_at t op \<longleftrightarrow> op_task op = t \<and> op_clock op = (\<lambda>n. 0) \<and> op_target_pr op = 0 \<and> op_channel op = Release \<and> op_image op \<and>
     op_channel_state op = 0 \<and> op_generation op = 2 \<and> op_expected op = confirmed_offer toy_status \<and> op_upload op = None"

lemma toy_at_env: "toy_at t op \<Longrightarrow> op_env toy_ue op = feed_env"
  by (simp add: toy_at_def toy_op_env)

lemma ready_word: "coord_ready c \<Longrightarrow> ld_word (rw_device (co_writer c)) = (GateOta, True, True)"
  by (simp add: coord_with_def toy_coord_def new_coordinator_def new_raw_writer_def)

text \<open>One step of the task.\<close>

definition toy_step :: "(bool, toy_device) update_world \<Rightarrow> task_input \<Rightarrow> (bool, toy_device) update_world" where
  "toy_step w i = update_next toy_ue w (StepTask (\<lambda>n. True) i)"

lemma toy_step_at:
  "uw_operation w = Some op \<Longrightarrow> task_step toy_ue (\<lambda>n. True) i op w = (op', w') \<Longrightarrow> toy_holds w' \<Longrightarrow>
   toy_holds (toy_step w i) \<and> uw_operation (toy_step w i) = Some op'"
  by (simp add: toy_step_def update_next_def)

lemma toy_first_step:
  assumes "toy_holds w" "uw_operation w = Some toy_op"
  shows "\<exists>op. toy_holds (toy_step w (InBegin CreatePass)) \<and> uw_operation (toy_step w (InBegin CreatePass)) = Some op \<and>
    toy_at TkNetwork op \<and> coord_ready (op_coord op) \<and> toy_job_ok (co_job (op_coord op)) \<and> co_outcome (op_coord op) = OcIdle"
proof -
  have ready: "coord_ready toy_coord" "toy_job_ok (co_job toy_coord)" "co_outcome toy_coord = OcIdle"
    by (simp_all add: coord_with_def toy_coord_def new_coordinator_def toy_job_ok_def new_job_def toy_limit_fields
        is_retired_def in_phase_def kRetired_def kPhaseMask_def phase_word_def)
  have at: "toy_at TkCreated toy_op" "op_coord toy_op = toy_coord" by (simp_all add: toy_at_def toy_op_def)
  have "feed_live toy_coord" using ready by (intro ready_live) (simp_all add: coord_with_def toy_job_ok_def)
  let ?c = "toy_coord\<lparr>co_ticks := co_ticks toy_coord + 1\<rparr>"
  have c: "coord_ready ?c" using ready by (simp add: coord_with_def)
  obtain w1 where w1: "on_driver (budget_look feed_env) toy_op w = (True, toy_op\<lparr>op_coord := ?c\<rparr>, w1)" "toy_holds w1"
    using feed_drive [of w toy_op "budget_look feed_env" True ?c] assms(1) at(2) ready_word [OF ready(1)] ready_word [OF c]
      feed_look [OF \<open>feed_live toy_coord\<close>] by auto
  let ?op = "toy_op\<lparr>op_coord := ?c, op_launch := NlStarted, op_task := TkNetwork\<rparr>"
  have "task_step toy_ue (\<lambda>n. True) (InBegin CreatePass) toy_op w = (?op, w1)"
    using w1(1) at(1) by (simp add: task_step_def task_head_def start_network_task_def toy_at_env toy_at_def toy_op_env)
  from toy_step_at [OF assms(2) this w1(2)] show ?thesis using at(1) ready c by (simp add: toy_at_def)
qed

lemma toy_second_step:
  assumes "toy_holds w" "uw_operation w = Some op" "toy_at TkNetwork op" "coord_ready (op_coord op)" "toy_job_ok (co_job (op_coord op))"
    "co_outcome (op_coord op) = OcIdle"
    and i: "i = InCheck (True, [(False, toy_full [49, 49]), (False, toy_closed)]) notes toy_closed"
  shows "\<exists>op'. toy_holds (toy_step w i) \<and> uw_operation (toy_step w i) = Some op' \<and> toy_at (TkChecked toy_result) op' \<and>
    coord_ready (op_coord op') \<and> co_job (op_coord op') = toy_closed \<and> co_outcome (op_coord op') = OcMetadataReady"
proof -
  let ?m = "(True, [(False, toy_full [49, 49]), (False, toy_closed)])"
  obtain d where d: "perform_check toy_ue feed_env 0 Release ?m notes (op_coord op) = Some (True, toy_result, None, d)"
    "coord_ready d" "co_job d = toy_closed" "co_outcome d = OcMetadataReady" using toy_check_done [OF assms(4-6)] by blast
  let ?f = "\<lambda>c. case perform_check toy_ue feed_env 0 Release ?m notes c of
      None \<Rightarrow> (None, c) | Some (on, res, notes, c) \<Rightarrow> (Some (on, res, notes), c)"
  let ?g = "\<lambda>c. poll_operation feed_env False (c\<lparr>co_job := toy_closed\<rparr>)"
  let ?op = "op\<lparr>op_coord := d\<rparr>"
  have "?f (op_coord op) = (Some (True, toy_result, None), d)" using d(1) by simp
  from feed_drive [where f = ?f, OF assms(1) ready_word [OF assms(4)] this ready_word [OF d(2)]]
  obtain w1 where w1: "on_driver ?f op w = (Some (True, toy_result, None), ?op, w1)" "toy_holds w1" by blast
  have p: "?g d = d\<lparr>co_job := toy_closed, co_ticks := co_ticks d + 1\<rparr>"
    using idle_poll [of "d\<lparr>co_job := toy_closed\<rparr>"] d by (simp add: coord_with_def)
  then have r: "coord_ready (?g d)" using d(2) by (simp add: coord_with_def)
  have "\<not> uw_abort w1" using w1(2) by (simp add: toy_holds_def)
  moreover obtain w2 where w2: "on_driver_op ?g ?op w1 = (?op\<lparr>op_coord := ?g d\<rparr>, w2)" "toy_holds w2"
    using feed_drive_op [where f = ?g and op = ?op, OF w1(2)] ready_word [OF d(2)] ready_word [OF r] by auto
  moreover have "publish_notes True None ?op w1 = w1" by (simp add: publish_notes_def)
  ultimately have "task_step toy_ue (\<lambda>n. True) i op w = (op\<lparr>op_coord := ?g d, op_task := TkChecked toy_result\<rparr>, w2)"
    using w1(1) assms(3) p d(4)
    by (simp add: i task_step_def task_check_def check_poll_def toy_at_env toy_at_def toy_op_env)
  from toy_step_at [OF assms(2) this w2(2)] show ?thesis using assms(3) r p d(4) by (simp add: toy_at_def)
qed

definition offer_writer :: "toy_device leased raw_writer" where
  "offer_writer = (co_writer toy_coord)\<lparr>rw_policy := offer_policy\<rparr>"

lemma toy_configured: "co_writer c = co_writer toy_coord \<Longrightarrow> co_configure offer_policy c = (True, c\<lparr>co_writer := offer_writer\<rparr>)"
  by (simp add: co_configure_def writer_configure_def offer_writer_def toy_coord_def new_coordinator_def new_raw_writer_def)

lemma offer_word: "ld_word (rw_device offer_writer) = (GateOta, True, True)" "writer_ready offer_writer"
  by (simp_all add: offer_writer_def toy_coord_def new_coordinator_def new_raw_writer_def writer_ready_def)

lemma toy_policy_set: "toy_at t op \<Longrightarrow> feed_policy toy_result op = offer_policy"
  by (simp add: feed_policy_def toy_result_def toy_at_def offer_policy_def toy_policy_def confirmed_offer_def toy_status_def)

lemma toy_same_offer: "toy_at t op \<Longrightarrow> same_offer toy_result (op_expected op)"
  by (simp add: same_offer_def toy_result_def toy_at_def confirmed_offer_def toy_status_def)

lemma toy_image_url: "resolve_firmware_url toy_ue 0 Release = ''https://h/tesla-key-esp32.bin''"
  by (simp add: resolve_firmware_url_def toy_ue_def app_path_def)

lemma toy_third_step:
  assumes "toy_holds w" "uw_operation w = Some op" "toy_at (TkChecked toy_result) op" "coord_ready (op_coord op)"
    "co_job (op_coord op) = toy_closed" "co_outcome (op_coord op) = OcMetadataReady"
  shows "\<exists>op'. toy_holds (toy_step w InDecide) \<and> uw_operation (toy_step w InDecide) = Some op' \<and> toy_at TkImage op' \<and>
    coord_with offer_writer (op_coord op') \<and> co_outcome (op_coord op') = OcWorking \<and> \<not> co_redirect_wait (op_coord op') \<and>
    co_framing (op_coord op') = Some (new_framing False (http_limits_for kMaximumImageBytes True)) \<and> co_image (op_coord op') \<and>
    \<not> co_tightened (op_coord op') \<and> \<not> co_begun (op_coord op') \<and> co_prefix (op_coord op') = []"
proof -
  let ?k = "(op_coord op)\<lparr>co_writer := offer_writer\<rparr>"
  let ?op = "op\<lparr>op_coord := ?k\<rparr>"
  have k: "coord_with offer_writer ?k" using assms(4) by (simp add: coord_with_def)
  have "co_configure offer_policy (op_coord op) = (True, ?k)" using assms(4) by (intro toy_configured) (simp add: coord_with_def)
  from feed_drive [where f = "co_configure offer_policy", OF assms(1) ready_word [OF assms(4)] this] offer_word(1)
  obtain w1 where w1: "on_driver (co_configure offer_policy) op w = (True, ?op, w1)" "toy_holds w1" by auto
  obtain d where d: "co_start feed_env ''https://h/tesla-key-esp32.bin'' (http_limits_for kMaximumImageBytes True) True False ?k = (True, d)"
    "coord_with offer_writer d" "co_outcome d = OcWorking" "\<not> co_redirect_wait d"
    "co_framing d = Some (new_framing False (http_limits_for kMaximumImageBytes True))" "co_image d" "\<not> co_tightened d"
    "\<not> co_begun d" "co_prefix d = []"
    using feed_start [OF k, of "''https://h/tesla-key-esp32.bin''" kMaximumImageBytes True True] assms(5,6) toy_closed_ok(1) toy_urls_ok(2)
    by (auto simp: kMaximumImageBytes_def)
  let ?f = "\<lambda>c. start_outcome feed_env (co_start feed_env ''https://h/tesla-key-esp32.bin'' (http_limits_for kMaximumImageBytes True) True False c)"
  have "?f ?k = ((True, False), d)" using d(1) by (simp add: start_outcome_def)
  moreover have "ld_word (rw_device (co_writer ?k)) = (GateOta, True, True)" "ld_word (rw_device (co_writer d)) = (GateOta, True, True)"
    using d(2) offer_word(1) by (simp_all add: coord_with_def)
  ultimately obtain w2 where w2: "on_driver ?f ?op w1 = ((True, False), ?op\<lparr>op_coord := d\<rparr>, w2)" "toy_holds w2"
    using feed_drive [where f = ?f and op = ?op, OF w1(2)] by auto
  have r: "cr_ok toy_result" "cr_update_available toy_result" by (simp_all add: toy_result_def)
  have h: "uw_channel w = 0" using assms(1) by (simp add: toy_holds_def)
  have "task_step toy_ue (\<lambda>n. True) InDecide op w = (op\<lparr>op_coord := d, op_task := TkImage\<rparr>, w2)"
    using w1(1) w2(1) assms(3) toy_policy_set [OF assms(3)] toy_same_offer [OF assms(3)] r h
    by (simp add: task_step_def task_decide_def toy_at_def toy_op_env toy_image_url)
  from toy_step_at [OF assms(2) this w2(2)] show ?thesis using assms(3) d(2-) by (simp add: toy_at_def)
qed

lemma toy_last_step:
  assumes "toy_holds w" "uw_operation w = Some op" "toy_at TkImage op"
    "coord_with offer_writer (op_coord op)" "co_outcome (op_coord op) = OcWorking" "\<not> co_redirect_wait (op_coord op)"
    "co_framing (op_coord op) = Some (new_framing False (http_limits_for kMaximumImageBytes True))" "co_image (op_coord op)"
    "\<not> co_tightened (op_coord op)" "\<not> co_begun (op_coord op)" "co_prefix (op_coord op) = []"
  shows "\<exists>op'. uw_operation (toy_step w (InPoll (toy_full (0 # toy_image)))) = Some op' \<and> op_generation op' = 2 \<and>
    co_outcome (op_coord op') = OcCommitted"
proof -
  let ?j = "toy_full (0 # toy_image)"
  let ?c = "lend (uw_gate w, uw_running w, uw_updating w) (op_coord op)"
  have c: "?c = op_coord op" using assms(1,4) offer_word(1) by (simp add: lend_def toy_holds_def coord_with_def)
  have "feed_live ((op_coord op)\<lparr>co_job := ?j\<rparr>)" using assms(4) by (intro ready_live) (simp_all add: coord_with_def toy_job_words)
  from image_poll [OF this] assms(4-) offer_word(2)
  have oc: "co_outcome (co_poll feed_env ((op_coord op)\<lparr>co_job := ?j\<rparr>)) = OcCommitted" by (simp add: coord_with_def)
  let ?g = "\<lambda>c. poll_operation feed_env False (c\<lparr>co_job := ?j\<rparr>)"
  obtain w1 where w1: "on_driver_op ?g op w = (op\<lparr>op_coord := co_poll feed_env ((op_coord op)\<lparr>co_job := ?j\<rparr>)\<rparr>, w1)"
    using c by (cases "ld_word (rw_device (co_writer (co_poll feed_env ((op_coord op)\<lparr>co_job := ?j\<rparr>))))")
      (simp add: on_driver_op_def on_driver_def poll_operation_def Let_def)
  have "\<not> uw_abort w" using assms(1) by (simp add: toy_holds_def)
  with w1 oc assms(3) have "task_step toy_ue (\<lambda>n. True) (InPoll ?j) op w =
      (op\<lparr>op_coord := co_poll feed_env ((op_coord op)\<lparr>co_job := ?j\<rparr>), op_task := TkLeaving\<rparr>, set_state True StDone 100 done_message False w1)"
    by (simp add: task_step_def task_poll_def toy_at_def toy_op_env leave_def)
  with oc assms(2,3) show ?thesis by (simp add: toy_step_def update_next_def toy_at_def)
qed

definition toy_steps :: "update_step list" where
  "toy_steps = map (StepTask (\<lambda>n. True)) [InBegin CreatePass,
     InCheck (True, [(False, toy_full [49, 49]), (False, toy_closed)]) (True, []) toy_closed, InDecide, InPoll (toy_full (0 # toy_image))]"

lemma toy_update_commits:
  assumes "toy_holds w" "uw_operation w = Some toy_op"
  shows "\<exists>op. uw_operation (update_run toy_ue toy_steps w) = Some op \<and> op_generation op = 2 \<and> co_outcome (op_coord op) = OcCommitted"
proof -
  let ?i = "InCheck (True, [(False, toy_full [49, 49]), (False, toy_closed)]) (True, []) toy_closed"
  obtain op1 where op1: "toy_holds (toy_step w (InBegin CreatePass))" "uw_operation (toy_step w (InBegin CreatePass)) = Some op1"
    "toy_at TkNetwork op1" "coord_ready (op_coord op1)" "toy_job_ok (co_job (op_coord op1))" "co_outcome (op_coord op1) = OcIdle"
    using toy_first_step [OF assms] by blast
  let ?w1 = "toy_step w (InBegin CreatePass)"
  obtain op2 where op2: "toy_holds (toy_step ?w1 ?i)" "uw_operation (toy_step ?w1 ?i) = Some op2" "toy_at (TkChecked toy_result) op2"
    "coord_ready (op_coord op2)" "co_job (op_coord op2) = toy_closed" "co_outcome (op_coord op2) = OcMetadataReady"
    using toy_second_step [OF op1 refl] by blast
  obtain op3 where op3: "toy_holds (toy_step (toy_step ?w1 ?i) InDecide)" "uw_operation (toy_step (toy_step ?w1 ?i) InDecide) = Some op3"
    "toy_at TkImage op3" "coord_with offer_writer (op_coord op3)" "co_outcome (op_coord op3) = OcWorking"
    "\<not> co_redirect_wait (op_coord op3)" "co_framing (op_coord op3) = Some (new_framing False (http_limits_for kMaximumImageBytes True))"
    "co_image (op_coord op3)" "\<not> co_tightened (op_coord op3)" "\<not> co_begun (op_coord op3)" "co_prefix (op_coord op3) = []"
    using toy_third_step [OF op2] by blast
  from toy_last_step [OF op3] show ?thesis by (simp add: toy_steps_def update_run_def toy_step_def)
qed

end
