(* ===== verification/OtaInstall.thy ===== *)
theory OtaInstall
  imports OtaScenario
begin

text \<open>
  From the offer a client confirmed to the image the device boots: an operation is followed through the steps
  of the update module by its number, which no other operation gets.
\<close>

subsection \<open>The steps of the machine\<close>

text \<open>What a start leaves of the shared state: it may only retire an operation that is done.\<close>

definition quiet :: "('p, 'd) update_world \<Rightarrow> ('p, 'd) update_world \<Rightarrow> bool" where
  "quiet w w' \<longleftrightarrow> frame w w' \<and> uw_device w' = uw_device w \<and>
     (uw_operation w' = uw_operation w \<or> uw_operation w' = None)"

lemma quiet_refl [simp]: "quiet w w"
  by (simp add: quiet_def)

lemma quiet_publish [simp]:
  "quiet w (set_check_error e lk m w1) \<longleftrightarrow> quiet w w1"
  "quiet w (release_unstarted w1) \<longleftrightarrow> quiet w w1"
  "quiet w (w1\<lparr>uw_gate := g\<rparr>) \<longleftrightarrow> quiet w w1"
  "quiet w (w1\<lparr>uw_slot := n\<rparr>) \<longleftrightarrow> quiet w w1"
  "quiet w (w1\<lparr>uw_verification := x\<rparr>) \<longleftrightarrow> quiet w w1"
  "quiet w (w1\<lparr>uw_target_pr := pr\<rparr>) \<longleftrightarrow> quiet w w1"
  "quiet w (w1\<lparr>uw_abort := a\<rparr>) \<longleftrightarrow> quiet w w1"
  by (auto simp: quiet_def frame_def set_check_error_def publish_check_status_def set_changelog_def release_unstarted_def
      Let_def split: prod.splits)

lemma reserve_quiet:
  "reserve_operation e lk ver pr install w = (r, w') \<Longrightarrow> quiet w w' \<and> (r = OtaStarted \<longrightarrow> uw_operation w' = None) \<and>
   uw_status w' = uw_status w \<and> uw_channel w' = uw_channel w"
  by (auto simp: reserve_operation_def reclaim_finished_operation_def release_unstarted_def Let_def quiet_def frame_def
      split: prod.splits if_splits option.splits bool.splits)

lemma publish_start_quiet: "publish_operation_start e lk install ch g x w = (ok, w') \<Longrightarrow> quiet w w'"
  by (auto simp: publish_operation_start_def set_changelog_def quiet_def frame_def Let_def split: if_splits)

lemma publish_upload_quiet: "publish_upload_start lk w = (ok, w') \<Longrightarrow> uw_operation w' = uw_operation w \<and> frame w w'"
  by (auto simp: publish_upload_start_def set_changelog_def frame_def split: if_splits)

lemma prepare_owned_new:
  assumes "prepare_owned_operation e i origin pr ch install g x w = (OtaStarted, w')"
  shows "\<exists>w1. quiet w w1 \<and> w' = w1\<lparr>uw_operation := Some (new_operation e i origin pr ch install g x w1)\<rparr>"
proof -
  obtain w2 n where p: "publish_operation_start e (si_lock i 4) install ch g x w = (True, w2)"
    and w': "w' = w2\<lparr>uw_slot := n, uw_operation := Some (new_operation e i origin pr ch install g x (w2\<lparr>uw_slot := n\<rparr>))\<rparr>"
    using assms by (auto simp: prepare_owned_operation_def Let_def split: if_splits prod.splits bool.splits)
  from publish_start_quiet [OF p] w' show ?thesis by (intro exI [of _ "w2\<lparr>uw_slot := n\<rparr>"]) simp
qed

lemma prepare_owned_quiet:
  assumes "prepare_owned_operation e i origin pr ch install g x w = (r, w')" "r \<noteq> OtaStarted"
  shows "quiet w w'"
  using assms
  by (auto simp: prepare_owned_operation_def Let_def split: if_splits prod.splits bool.splits dest!: publish_start_quiet)

text \<open>No operation but the followed one, nor a queued check, has its number, and its number was handed out.\<close>

definition numbered :: "u32 \<Rightarrow> ('p, 'd) update_world \<Rightarrow> bool" where
  "numbered g w \<longleftrightarrow> g \<le> uw_serial w \<and> dc_generation (uw_capture w) \<noteq> g"

text \<open>Between two states: the followed operation is as it was, or there is none of its number.\<close>

definition followed :: "u32 \<Rightarrow> ('p, 'd) update_world \<Rightarrow> ('p, 'd) update_world \<Rightarrow> bool" where
  "followed g w w' \<longleftrightarrow> numbered g w' \<and>
     (uw_operation w' = uw_operation w \<and> uw_device w' = uw_device w \<or>
      (\<forall>op. uw_operation w' = Some op \<longrightarrow> op_generation op \<noteq> g))"

lemma quiet_followed: "numbered g w \<Longrightarrow> quiet w w' \<Longrightarrow> followed g w w'"
  by (auto simp: followed_def numbered_def quiet_def frame_def)

lemma next_generation:
  fixes s g :: u32
  assumes "g \<le> s" "g \<noteq> - 1"
  shows "ota_next_offer_generation s \<noteq> g \<and> g \<le> ota_next_offer_generation s"
proof (cases "- 1 - 1 \<le> s")
  case True
  with assms show ?thesis by (simp add: ota_next_offer_generation_def)
next
  case False
  then have "unat s < unat (- 1 - 1 :: u32)" by (simp add: word_le_nat_alt)
  then have "unat (s + 1) = unat s + 1" by (simp add: unat_word_ariths)
  moreover have "unat g \<le> unat s" using assms(1) by (simp add: word_le_nat_alt)
  ultimately have "unat g < unat (s + 1)" by simp
  then have "s + 1 \<noteq> g \<and> g \<le> s + 1" by (auto simp: word_le_nat_alt)
  with False show ?thesis by (simp add: ota_next_offer_generation_def)
qed

lemma launch_generation:
  "launch_coordinator e i op w = (r, op', w') \<Longrightarrow> plain op w (op', w')"
proof -
  assume l: "launch_coordinator e i op w = (r, op', w')"
  let ?m = "set_check_error e (si_lock i 6) ''could not start OTA coordinator task'' w"
  obtain op1 w1 where c: "op_cancel e OcNoMemory (acknowledge_no_network (finish_upload_request op)) ?m = (op1, w1)" by fastforce
  have "plain op w (op1, w1)" by (rule plain_cancelled [OF c]) simp
  then have "plain op w (complete_operation e op1 w1)" by (rule plain_complete)
  with l c show ?thesis by (auto simp: launch_coordinator_def split: create_result.splits)
qed

lemma with_operation_generation:
  assumes "with_operation f r w = (r', w')" "uw_operation w = Some op"
    and "\<And>r op' w'. f op w = (r, op', w') \<Longrightarrow> plain op w (op', w')"
  shows "\<exists>op'. uw_operation w' = Some op' \<and> op_generation op' = op_generation op \<and> frame w w'"
  using assms(1,2) assms(3) [of "fst (f op w)" "fst (snd (f op w))" "snd (snd (f op w))"]
  by (auto simp: with_operation_def plain_def frame_def split: prod.splits)


lemma followed_trans: "followed g w w1 \<Longrightarrow> followed g w1 w2 \<Longrightarrow> followed g w w2"
  by (auto simp: followed_def)

lemma followed_numbered: "followed g w w1 \<Longrightarrow> numbered g w1"
  by (simp add: followed_def)

lemma quiet_after: "followed g w w1 \<Longrightarrow> quiet w1 w2 \<Longrightarrow> followed g w w2"
  by (rule followed_trans) (auto intro: quiet_followed followed_numbered)

lemma advance_followed:
  assumes "numbered g w" "g \<noteq> - 1" "advance_offer_generation w = (n, w')"
  shows "followed g w w' \<and> n \<noteq> g"
  using assms next_generation [of g "uw_serial w"]
  by (auto simp: advance_offer_generation_def Let_def followed_def numbered_def)

lemma prepared_generation:
  "prepare_owned_operation e i origin pr ch install n x w = (OtaStarted, w') \<Longrightarrow>
   \<exists>op. uw_operation w' = Some op \<and> op_generation op = n \<and> frame w w'"
  by (drule prepare_owned_new) (auto simp: new_operation_def Let_def quiet_def frame_def)

text \<open>A prepared and launched operation of another number.\<close>

lemma launched_followed:
  assumes num: "numbered g w" and prep: "prepare_owned_operation e i origin pr ch install n x w = (r, w1)" and n: "n \<noteq> g"
    and f: "\<And>op w r op' w'. f op w = (r, op', w') \<Longrightarrow> plain op w (op', w')"
  shows "followed g w (if r \<noteq> OtaStarted then w1 else snd (with_operation f r' w1))"
proof (cases "r = OtaStarted")
  case False
  with prepare_owned_quiet [OF prep] quiet_followed [OF num] show ?thesis by simp
next
  case True
  obtain op where op: "uw_operation w1 = Some op" "op_generation op = n" "frame w w1"
    using prepared_generation prep True by blast
  obtain r2 w2 where w2: "with_operation f r' w1 = (r2, w2)" by fastforce
  have "\<exists>op'. uw_operation w2 = Some op' \<and> op_generation op' = op_generation op \<and> frame w1 w2"
    by (rule with_operation_generation [OF w2 op(1)]) (rule f)
  with w2 op n num True show ?thesis
    by (auto simp: followed_def numbered_def frame_def)
qed

lemma reserved_followed:
  "numbered g w \<Longrightarrow> reserve_operation e lk ver pr install w = (r, w') \<Longrightarrow> followed g w w'"
  by (drule reserve_quiet) (auto intro: quiet_followed)

lemma start_followed:
  assumes num: "numbered g w" and g: "g \<noteq> - 1"
  shows "followed g w (snd (ota_start e i pr offer_id w))"
proof -
  obtain r w1 where r: "reserve_operation e (si_lock i 1) (si_image_state i) pr True w = (r, w1)" by fastforce
  obtain n w2 where a: "advance_offer_generation w1 = (n, w2)" by fastforce
  obtain r3 w3 where p: "prepare_owned_operation e i (si_origin i) pr (uw_channel w1) True n
      (Some (confirmed_offer (uw_status w1))) w2 = (r3, w3)" by fastforce
  note f1 = reserved_followed [OF num r]
  note f2 = advance_followed [OF followed_numbered [OF f1] g a]
  have f12: "followed g w w2" using f1 f2 followed_trans by blast
  note f3 = launched_followed [OF followed_numbered [OF f12] p conjunct2 [OF f2] launch_generation, where r' = r3]
  have f4: "followed g w (if r3 \<noteq> OtaStarted then w3 else snd (with_operation (launch_coordinator e i) r3 w3))"
    by (rule followed_trans [OF f12 f3])
  have "followed g w (release_unstarted w1)"
    "followed g w (release_unstarted (set_check_error e (si_lock i 3) exhausted_message w2))"
    using quiet_after [OF f1] quiet_after [OF f12] by simp_all
  with f1 f4 quiet_followed [OF num] show ?thesis
    by (cases "r3 = OtaStarted") (simp_all add: ota_start_def r a p Let_def del: One_nat_def)
qed

lemma check_start_followed:
  assumes num: "numbered g w" and g: "g \<noteq> - 1"
  shows "followed g w (snd (ota_check_start e i pr w))"
proof -
  obtain r w1 where r: "reserve_operation e (si_lock i 1) (si_image_state i) pr False w = (r, w1)" by fastforce
  obtain n w2 where a: "advance_offer_generation w1 = (n, w2)" by fastforce
  obtain r3 w3 where p: "prepare_owned_operation e i (si_origin i) pr (uw_channel w2) False n None w2 = (r3, w3)" by fastforce
  note f1 = reserved_followed [OF num r]
  note f2 = advance_followed [OF followed_numbered [OF f1] g a]
  have f12: "followed g w w2" using f1 f2 followed_trans by blast
  note f3 = launched_followed [OF followed_numbered [OF f12] p conjunct2 [OF f2] launch_generation, where r' = r3]
  have f4: "followed g w (if r3 \<noteq> OtaStarted then w3 else snd (with_operation (launch_coordinator e i) r3 w3))"
    by (rule followed_trans [OF f12 f3])
  have "followed g w (release_unstarted (set_check_error e (si_lock i 2) exhausted_message w2))"
    using quiet_after [OF f12] by simp
  with f1 f4 quiet_followed [OF num] show ?thesis
    by (cases "r3 = OtaStarted") (simp_all add: ota_check_start_def prepare_operation_def r a p Let_def del: One_nat_def)
qed

lemma deferred_followed:
  assumes num: "numbered g w" and g: "g \<noteq> - 1"
  shows "followed g w (snd (ota_check_start_after_http e i pr w))"
proof -
  obtain r w1 where r: "reserve_operation e (si_lock i 1) (si_image_state i) pr False w = (r, w1)" by fastforce
  obtain n w2 where a: "advance_offer_generation w1 = (n, w2)" by fastforce
  let ?w3 = "w2\<lparr>uw_deferred_serial := uw_deferred_serial w2 + 1, uw_capture := \<lparr>dc_origin = si_origin i, dc_pr = pr,
    dc_channel_state = uw_channel w1, dc_generation = n\<rparr>\<rparr>"
  obtain ok w4 where p: "publish_operation_start e (si_lock i 3) False (uw_channel w1) n None ?w3 = (ok, w4)" by fastforce
  note f1 = reserved_followed [OF num r]
  note f2 = advance_followed [OF followed_numbered [OF f1] g a]
  have f12: "followed g w w2" using f1 f2 followed_trans by blast
  have "followed g w2 ?w3" using followed_numbered [OF f12] f2 by (simp add: followed_def numbered_def)
  then have f13: "followed g w ?w3" by (rule followed_trans [OF f12])
  then have f4: "followed g w w4" using publish_start_quiet [OF p] by (rule quiet_after)
  have t: "followed g w (x\<lparr>uw_ticket := t\<rparr>) \<longleftrightarrow> followed g w x" for x :: "('a, 'b) update_world" and t
    by (simp add: followed_def numbered_def)
  have "followed g w (release_unstarted (set_check_error e (si_lock i 2) exhausted_message w2))"
    "followed g w (release_unstarted w4)"
    "followed g w (release_unstarted (set_check_error e (si_lock i 4) (ota_start_reason OtaUnavailable True) (w4\<lparr>uw_ticket := 0\<rparr>)))"
    using quiet_after [OF f12] quiet_after [OF f4] quiet_after [of g w "w4\<lparr>uw_ticket := 0\<rparr>"] f4 t by simp_all
  with f1 f4 t quiet_followed [OF num] show ?thesis
    by (cases ok) (simp_all add: ota_check_start_after_http_def r a p Let_def del: One_nat_def Suc_eq_plus1_left)
qed

lemma work_followed:
  assumes num: "numbered g w"
  shows "followed g w (ota_check_after_http_work e i now token w)"
proof -
  let ?w1 = "w\<lparr>uw_ticket := 0\<rparr>"
  obtain r w2 where p: "prepare_owned_operation e i (dc_origin (uw_capture w)) (dc_pr (uw_capture w))
      (dc_channel_state (uw_capture w)) False (dc_generation (uw_capture w)) None ?w1 = (r, w2)" by fastforce
  have f1: "followed g w ?w1" using num by (simp add: followed_def numbered_def)
  have n: "dc_generation (uw_capture w) \<noteq> g" using num by (simp add: numbered_def)
  note f2 = launched_followed [OF followed_numbered [OF f1] p n launch_generation, where r' = r]
  have f: "followed g w (if r \<noteq> OtaStarted then w2 else snd (with_operation (launch_coordinator e i) r w2))"
    by (rule followed_trans [OF f1 f2])
  have "followed g w (release_unstarted (set_check_error e (si_lock i 2) ''update deadline reached during setup'' ?w1))"
    using quiet_after [OF f1] by simp
  with f quiet_followed [OF num] show ?thesis
    by (auto simp: ota_check_after_http_work_def Let_def p)
qed


lemma upload_followed:
  assumes num: "numbered g w" and g: "g \<noteq> - 1"
  shows "followed g w (snd (ota_upload_start e i n w))"
proof -
  obtain r w1 where r: "reserve_operation e (si_lock i 1) (si_image_state i) 0 True w = (r, w1)" by fastforce
  obtain m w2 where a: "advance_offer_generation w1 = (m, w2)" by fastforce
  obtain r3 w3 where p: "prepare_owned_operation e i (si_origin i) 0 (uw_channel w1) True m None w2 = (r3, w3)" by fastforce
  obtain ok w4 where u: "publish_upload_start (si_lock i 2) w3 = (ok, w4)" by fastforce
  note f1 = reserved_followed [OF num r]
  note f2 = advance_followed [OF followed_numbered [OF f1] g a]
  have f12: "followed g w w2" using f1 f2 followed_trans by blast
  have f3: "followed g w w3" if "r3 \<noteq> OtaStarted"
    by (rule quiet_after [OF f12 prepare_owned_quiet [OF p that]])
  have last: "followed g w (snd (with_operation f x w4))"
    if started: "r3 = OtaStarted" and f: "\<And>op w r op' w'. f op w = (r, op', w') \<Longrightarrow> plain op w (op', w')" for f and x :: "ota_start_result \<times> bool"
  proof -
    obtain op where op: "uw_operation w3 = Some op" "op_generation op = m" "frame w2 w3"
      using prepared_generation p started by blast
    then have op4: "uw_operation w4 = Some op" "frame w2 w4"
      using publish_upload_quiet [OF u] by (auto simp: frame_def)
    obtain y w5 where w5: "with_operation f x w4 = (y, w5)" by fastforce
    have "\<exists>op'. uw_operation w5 = Some op' \<and> op_generation op' = op_generation op \<and> frame w4 w5"
      by (rule with_operation_generation [OF w5 op4(1)]) (rule f)
    with f2 op op4 w5 followed_numbered [OF f12] show ?thesis
      by (auto simp: followed_def numbered_def frame_def)
  qed
  let ?no = "\<lambda>op w. case op_cancel e OcNoMemory (acknowledge_no_network op) w of
    (op, w) \<Rightarrow> ((OtaNoMemory, False), complete_operation e op (set_check_error e (si_lock i 3) ''upload request unavailable'' w))"
  let ?yes = "\<lambda>op w. case launch_coordinator e i (op\<lparr>op_upload := Some n\<rparr>) w of (r, op, w) \<Rightarrow> ((r, True), op, w)"
  have no: "plain op w (op', w')" if "?no op w = (y, op', w')" for op w y op' w'
  proof -
    obtain op1 w1 where c: "op_cancel e OcNoMemory (acknowledge_no_network op) w = (op1, w1)" by fastforce
    have "plain op w (op1, w1)" by (rule plain_cancelled [OF c]) simp
    then have "plain op w (complete_operation e op1 (set_check_error e (si_lock i 3) ''upload request unavailable'' w1))"
      by (intro plain_complete) simp
    with that c show ?thesis by simp
  qed
  have yes: "plain op w (op', w')" if "?yes op w = (y, op', w')" for op w y op' w'
  proof -
    obtain r1 op1 w1 where l: "launch_coordinator e i (op\<lparr>op_upload := Some n\<rparr>) w = (r1, op1, w1)" by (rule prod_cases3)
    with that launch_generation [OF l] show ?thesis by (simp add: plain_def)
  qed
  from f1 f3 last [OF _ no, where x = "(OtaNoMemory, False)"] last [OF _ yes, where x = "(OtaNoMemory, False)"] quiet_followed [OF num]
  show ?thesis
    by (cases "r3 = OtaStarted") (simp_all add: ota_upload_start_def r a p u Let_def del: One_nat_def)
qed

text \<open>A step follows the operation, or its task makes one action.\<close>

lemma step_followed:
  assumes num: "numbered g w" and g: "g \<noteq> - 1"
  shows "followed g w (update_next e w s) \<or>
    (\<exists>lk i op. s = StepTask lk i \<and> uw_operation w = Some op \<and> op_generation op = g)"
proof (cases s)
  case (StepTask lk i)
  show ?thesis
  proof (cases "uw_operation w")
    case None
    with StepTask quiet_followed [OF num] show ?thesis by (simp add: update_next_def)
  next
    case (Some op)
    obtain op' w' where t: "task_step e lk i op w = (op', w')" by fastforce
    with plain_step [of op w e lk i] num Some StepTask show ?thesis
      by (auto simp: update_next_def followed_def numbered_def plain_def frame_def)
  qed
qed (use num quiet_followed [OF num] start_followed [OF num g] check_start_followed [OF num g] upload_followed [OF num g]
    deferred_followed [OF num g] work_followed [OF num] in
    \<open>auto simp: update_next_def ota_set_channel_def ota_request_heap_abort_def followed_def numbered_def\<close>)


subsection \<open>Numbers of operations\<close>

text \<open>A queued check has a number that was handed out.\<close>

definition offers_numbered :: "('p, 'd) update_world \<Rightarrow> bool" where
  "offers_numbered w \<longleftrightarrow> dc_generation (uw_capture w) \<le> uw_serial w"

definition counted :: "('p, 'd) update_world \<Rightarrow> ('p, 'd) update_world \<Rightarrow> bool" where
  "counted w w' \<longleftrightarrow> (offers_numbered w \<longrightarrow> offers_numbered w')"

lemma counted_frame: "frame w w' \<Longrightarrow> counted w w'"
  by (simp add: counted_def offers_numbered_def frame_def)

lemma counted_quiet: "quiet w w' \<Longrightarrow> counted w w'"
  by (rule counted_frame) (simp add: quiet_def)

lemma counted_trans: "counted w w1 \<Longrightarrow> counted w1 w2 \<Longrightarrow> counted w w2"
  by (simp add: counted_def)

lemma next_generation_mono: "(s :: u32) \<le> ota_next_offer_generation s"
proof (cases "s = - 1")
  case False
  with next_generation [of s s] show ?thesis by simp
qed (simp add: ota_next_offer_generation_def)

lemma counted_advance: "advance_offer_generation w = (n, w') \<Longrightarrow> counted w w' \<and> n = uw_serial w'"
  using next_generation_mono [of "uw_serial w"]
  by (auto simp: advance_offer_generation_def counted_def offers_numbered_def Let_def)

lemma frame_with_operation:
  "with_operation f r w = (r', w') \<Longrightarrow> (\<And>op w r op' w'. f op w = (r, op', w') \<Longrightarrow> plain op w (op', w')) \<Longrightarrow> frame w w'"
  by (auto simp: with_operation_def plain_def frame_def split: option.splits prod.splits)

lemma counted_launched:
  assumes "prepare_owned_operation e i origin pr ch install n x w = (r, w1)"
    and "\<And>op w r op' w'. f op w = (r, op', w') \<Longrightarrow> plain op w (op', w')"
  shows "counted w (if r \<noteq> OtaStarted then w1 else snd (with_operation f r' w1))"
proof -
  have "frame w w1" using prepared_generation [of e i origin pr ch install n x w w1] prepare_owned_quiet [OF assms(1)] assms(1)
    by (cases "r = OtaStarted") (auto simp: quiet_def)
  moreover obtain y w2 where w2: "with_operation f r' w1 = (y, w2)" by fastforce
  have "frame w1 w2" by (rule frame_with_operation [OF w2]) (rule assms(2))
  ultimately show ?thesis using w2 by (auto intro!: counted_frame simp: frame_def)
qed

lemma counted_reserved: "reserve_operation e lk ver pr install w = (r, w') \<Longrightarrow> counted w w'"
  by (drule reserve_quiet) (auto intro: counted_quiet)

lemma counted_published [simp]:
  "counted w (release_unstarted w1) \<longleftrightarrow> counted w w1" "counted w (set_check_error e lk m w1) \<longleftrightarrow> counted w w1"
  by (auto simp: counted_def offers_numbered_def set_check_error_def publish_check_status_def set_changelog_def
      release_unstarted_def Let_def split: prod.splits)

lemma start_counted: "counted w (snd (ota_start e i pr offer_id w))"
proof -
  obtain r w1 where r: "reserve_operation e (si_lock i 1) (si_image_state i) pr True w = (r, w1)" by fastforce
  obtain n w2 where a: "advance_offer_generation w1 = (n, w2)" by fastforce
  obtain r3 w3 where p: "prepare_owned_operation e i (si_origin i) pr (uw_channel w1) True n
      (Some (confirmed_offer (uw_status w1))) w2 = (r3, w3)" by fastforce
  note f1 = counted_reserved [OF r]
  have f2: "counted w w2" using f1 counted_advance [OF a] counted_trans by blast
  have f3: "counted w (if r3 \<noteq> OtaStarted then w3 else snd (with_operation (launch_coordinator e i) r3 w3))"
    by (rule counted_trans [OF f2 counted_launched [OF p launch_generation]])
  show ?thesis using f1 f2 f3 counted_frame [of w w]
    by (cases "r3 = OtaStarted") (simp_all add: ota_start_def r a p Let_def del: One_nat_def)
qed

lemma check_start_counted: "counted w (snd (ota_check_start e i pr w))"
proof -
  obtain r w1 where r: "reserve_operation e (si_lock i 1) (si_image_state i) pr False w = (r, w1)" by fastforce
  obtain n w2 where a: "advance_offer_generation w1 = (n, w2)" by fastforce
  obtain r3 w3 where p: "prepare_owned_operation e i (si_origin i) pr (uw_channel w2) False n None w2 = (r3, w3)" by fastforce
  note f1 = counted_reserved [OF r]
  have f2: "counted w w2" using f1 counted_advance [OF a] counted_trans by blast
  have f3: "counted w (if r3 \<noteq> OtaStarted then w3 else snd (with_operation (launch_coordinator e i) r3 w3))"
    by (rule counted_trans [OF f2 counted_launched [OF p launch_generation]])
  show ?thesis using f1 f2 f3 counted_frame [of w w]
    by (cases "r3 = OtaStarted") (simp_all add: ota_check_start_def prepare_operation_def r a p Let_def del: One_nat_def)
qed

lemma deferred_counted: "counted w (snd (ota_check_start_after_http e i pr w))"
proof -
  obtain r w1 where r: "reserve_operation e (si_lock i 1) (si_image_state i) pr False w = (r, w1)" by fastforce
  obtain n w2 where a: "advance_offer_generation w1 = (n, w2)" by fastforce
  let ?w3 = "w2\<lparr>uw_deferred_serial := uw_deferred_serial w2 + 1, uw_capture := \<lparr>dc_origin = si_origin i, dc_pr = pr,
    dc_channel_state = uw_channel w1, dc_generation = n\<rparr>\<rparr>"
  obtain ok w4 where p: "publish_operation_start e (si_lock i 3) False (uw_channel w1) n None ?w3 = (ok, w4)" by fastforce
  note f1 = counted_reserved [OF r]
  have f2: "counted w w2" using f1 counted_advance [OF a] counted_trans by blast
  have "counted w2 ?w3" using counted_advance [OF a] by (simp add: counted_def offers_numbered_def)
  then have f4: "counted w w4" using counted_quiet [OF publish_start_quiet [OF p]] f2 counted_trans by blast
  have t: "counted w (x\<lparr>uw_ticket := t\<rparr>) \<longleftrightarrow> counted w x" for x :: "('a, 'b) update_world" and t
    by (simp add: counted_def offers_numbered_def)
  show ?thesis using f1 f2 f4 t counted_frame [of w w]
    by (cases ok) (simp_all add: ota_check_start_after_http_def r a p Let_def del: One_nat_def Suc_eq_plus1_left)
qed

lemma work_counted: "counted w (ota_check_after_http_work e i now token w)"
proof -
  let ?w1 = "w\<lparr>uw_ticket := 0\<rparr>"
  obtain r w2 where p: "prepare_owned_operation e i (dc_origin (uw_capture w)) (dc_pr (uw_capture w))
      (dc_channel_state (uw_capture w)) False (dc_generation (uw_capture w)) None ?w1 = (r, w2)" by fastforce
  have f1: "counted w ?w1" by (simp add: counted_def offers_numbered_def)
  have f: "counted w (if r \<noteq> OtaStarted then w2 else snd (with_operation (launch_coordinator e i) r w2))"
    by (rule counted_trans [OF f1 counted_launched [OF p launch_generation]])
  with f1 counted_frame [of w w] show ?thesis by (auto simp: ota_check_after_http_work_def Let_def p)
qed

text \<open>The actions of a refused and of an accepted upload.\<close>

lemma plain_refused_upload:
  assumes "(case op_cancel e OcNoMemory (acknowledge_no_network op) w of
      (op, w) \<Rightarrow> ((OtaNoMemory, False), complete_operation e op (set_check_error e lk m w))) = (y, op', w')"
  shows "plain op w (op', w')"
proof -
  obtain op1 w1 where c: "op_cancel e OcNoMemory (acknowledge_no_network op) w = (op1, w1)" by fastforce
  have "plain op w (op1, w1)" by (rule plain_cancelled [OF c]) simp
  then have "plain op w (complete_operation e op1 (set_check_error e lk m w1))" by (intro plain_complete) simp
  with assms c show ?thesis by simp
qed

lemma plain_accepted_upload:
  assumes "(case launch_coordinator e i (op\<lparr>op_upload := Some n\<rparr>) w of (r, op, w) \<Rightarrow> ((r, True), op, w)) = (y, op', w')"
  shows "plain op w (op', w')"
proof -
  obtain r1 op1 w1 where l: "launch_coordinator e i (op\<lparr>op_upload := Some n\<rparr>) w = (r1, op1, w1)" by (rule prod_cases3)
  with assms launch_generation [OF l] show ?thesis by (simp add: plain_def)
qed

lemma upload_counted: "counted w (snd (ota_upload_start e i n w))"
proof -
  obtain r w1 where r: "reserve_operation e (si_lock i 1) (si_image_state i) 0 True w = (r, w1)" by fastforce
  obtain m w2 where a: "advance_offer_generation w1 = (m, w2)" by fastforce
  obtain r3 w3 where p: "prepare_owned_operation e i (si_origin i) 0 (uw_channel w1) True m None w2 = (r3, w3)" by fastforce
  obtain ok w4 where u: "publish_upload_start (si_lock i 2) w3 = (ok, w4)" by fastforce
  note f1 = counted_reserved [OF r]
  have f2: "counted w w2" using f1 counted_advance [OF a] counted_trans by blast
  have "frame w2 w3" using prepared_generation [of e i "si_origin i" 0 "uw_channel w1" True m None w2 w3]
    prepare_owned_quiet [OF p] p by (cases "r3 = OtaStarted") (auto simp: quiet_def)
  then have f3: "counted w w3" using f2 counted_frame counted_trans by blast
  then have f4: "counted w w4" using publish_upload_quiet [OF u] counted_frame counted_trans by blast
  have last: "counted w (snd (with_operation f x w4))"
    if f: "\<And>op w r op' w'. f op w = (r, op', w') \<Longrightarrow> plain op w (op', w')" for f and x :: "ota_start_result \<times> bool"
  proof -
    obtain y w5 where w5: "with_operation f x w4 = (y, w5)" by fastforce
    have "frame w4 w5" by (rule frame_with_operation [OF w5]) (rule f)
    with w5 f4 counted_frame counted_trans show ?thesis by fastforce
  qed
  show ?thesis
    using f1 f3 counted_frame [of w w] last [OF plain_refused_upload, where x = "(OtaNoMemory, False)"]
      last [OF plain_accepted_upload, where x = "(OtaNoMemory, False)"]
    by (cases "r3 = OtaStarted") (simp_all add: ota_upload_start_def r a p u Let_def del: One_nat_def)
qed

lemma offers_numbered_next: "offers_numbered w \<Longrightarrow> offers_numbered (update_next e w s)"
proof (cases s)
  case (StepTask lk i)
  show "offers_numbered w \<Longrightarrow> ?thesis"
  proof (cases "uw_operation w")
    case (Some op)
    obtain op' w' where t: "task_step e lk i op w = (op', w')" by fastforce
    with plain_step [of op w e lk i] Some StepTask show "offers_numbered w \<Longrightarrow> ?thesis"
      by (auto simp: update_next_def offers_numbered_def plain_def frame_def)
  qed (simp add: StepTask update_next_def)
qed (use start_counted [of w e] check_start_counted [of w e] upload_counted [of w e] deferred_counted [of w e]
    work_counted [of w e] in
    \<open>auto simp: update_next_def ota_set_channel_def ota_request_heap_abort_def offers_numbered_def counted_def\<close>)

interpretation update_numbers: transition_system "update_next e" offers_numbered "\<lambda>s. True" for e
  by unfold_locales (rule offers_numbered_next)

lemma offers_numbered_run: "offers_numbered w \<Longrightarrow> offers_numbered (update_run e steps w)"
  unfolding update_run_def by (rule update_numbers.run_inv) (simp_all add: list_all_iff)

subsection \<open>The installation as a whole\<close>

definition following :: "('p, 'd) update_env \<Rightarrow> 'd sdk_view \<Rightarrow> ('p, 'd) operation \<Rightarrow> ('p, 'd) update_world \<Rightarrow> bool" where
  "following e v op1 w \<longleftrightarrow> numbered (op_generation op1) w \<and>
     (\<forall>op. uw_operation w = Some op \<and> op_generation op = op_generation op1 \<longrightarrow> op_frame op1 op \<and> install_inv e v op w)"

lemma op_frame_trans: "op_frame op1 op2 \<Longrightarrow> op_frame op2 op3 \<Longrightarrow> op_frame op1 op3"
  by (auto simp: op_frame_def)

lemma install_inv_world: "uw_device w' = uw_device w \<Longrightarrow> install_inv e v op w' \<longleftrightarrow> install_inv e v op w"
  by (simp add: install_inv_def)

lemma following_step:
  assumes f: "following e v op1 w" and s: "uw_operation w = Some op" "op_generation op = op_generation op1"
    and t: "task_step e lk i op w = (op', w')"
  shows "following e v op1 (w'\<lparr>uw_operation := Some op'\<rparr>)"
proof -
  from f s have num: "numbered (op_generation op1) w" and op: "op_frame op1 op" "install_inv e v op w"
    by (simp_all add: following_def)
  have i: "install_inv e v op' w'" "op_frame op op'" "frame w w'"
    using inst_step [OF op(2), of lk i] t by (simp_all add: inst_def)
  have "numbered (op_generation op1) (w'\<lparr>uw_operation := Some op'\<rparr>)"
    using num i(3) by (simp add: numbered_def frame_def)
  moreover have "install_inv e v op' (w'\<lparr>uw_operation := Some op'\<rparr>)"
    using install_inv_world [of "w'\<lparr>uw_operation := Some op'\<rparr>" w' e v op'] i(1) by simp
  ultimately show ?thesis using op_frame_trans [OF op(1) i(2)] by (simp add: following_def)
qed

lemma following_followed:
  assumes f: "following e v op1 w" and n: "followed (op_generation op1) w w'"
  shows "following e v op1 w'"
proof (cases "uw_operation w' = uw_operation w \<and> uw_device w' = uw_device w")
  case True
  then have "uw_device w' = uw_device w" by simp
  from install_inv_world [OF this, of e v] True f n show ?thesis by (simp add: following_def followed_def)
next
  case False
  with n have "\<forall>op. uw_operation w' = Some op \<longrightarrow> op_generation op \<noteq> op_generation op1" "numbered (op_generation op1) w'"
    unfolding followed_def by blast+
  then show ?thesis by (auto simp: following_def)
qed

lemma following_next:
  assumes f: "following e v op1 w" and g: "op_generation op1 \<noteq> - 1"
  shows "following e v op1 (update_next e w s)"
proof -
  have num: "numbered (op_generation op1) w" using f by (simp add: following_def)
  from step_followed [OF num g, of e s] show ?thesis
  proof (elim disjE exE conjE)
    show ?thesis if "followed (op_generation op1) w (update_next e w s)"
      by (rule following_followed [OF f that])
  next
    fix lk i op
    assume s: "s = StepTask lk i" "uw_operation w = Some op" "op_generation op = op_generation op1"
    obtain op' w' where t: "task_step e lk i op w = (op', w')" by fastforce
    with following_step [OF f s(2,3) t] s show ?thesis by (simp add: update_next_def)
  qed
qed

interpretation update_followed: transition_system "update_next e"
    "\<lambda>w. following e v op1 w \<and> op_generation op1 \<noteq> - 1" "\<lambda>s. True" for e v op1
  by unfold_locales (auto intro: following_next)

lemma following_run:
  "following e v op1 w \<Longrightarrow> op_generation op1 \<noteq> - 1 \<Longrightarrow> following e v op1 (update_run e steps w)"
  using update_followed.run_inv [of e v op1 w steps] by (simp add: update_run_def list_all_iff)

text \<open>A start leaves the operation it stored ready to be followed.\<close>

lemma fresh_driver_inv:
  assumes "hash_ok (ue_sdk e) v" "update_ok (ue_sdk e) v"
  shows "driver_inv e v P (new_coordinator n j b (new_raw_writer P l))"
  unfolding driver_inv_def
  by (rule rw.fresh_inv) (simp_all add: new_coordinator_def fresh_raw_writer leased_hash_ok leased_update_ok assms)

lemma offer_matches_kept:
  "uw_status w' = uw_status w \<Longrightarrow> uw_channel w' = uw_channel w \<Longrightarrow> uw_serial w' = uw_serial w \<Longrightarrow>
   offer_matches offer_id pr w' \<longleftrightarrow> offer_matches offer_id pr w"
  by (simp add: offer_matches_def offer_is_current_def)

lemma new_operation_ready:
  assumes "hash_ok (ue_sdk e) v" "update_ok (ue_sdk e) v"
  shows "install_inv e v (new_operation e i origin pr ch True n x w) w"
proof -
  let ?op = "new_operation e i origin pr ch True n x w"
  have "op_coord ?op = new_coordinator (uw_slot w)
      (new_job 1 origin (bd_deadline (operation_budget origin True))) (operation_budget origin True)
      (new_raw_writer blank_policy \<lparr>ld_device = uw_device w, ld_word = (uw_gate w, uw_running w, uw_updating w), ld_held = True\<rparr>)"
    by (simp add: new_operation_def Let_def)
  then have "driver_inv e v blank_policy (op_coord ?op)" by (simp only: fresh_driver_inv [OF assms])
  moreover have "uw_device w = op_device (new_operation e i origin pr ch True n x w)"
    by (simp add: new_operation_def op_device_def Let_def new_coordinator_def new_raw_writer_def)
  moreover have "op_image ?op" "op_upload ?op = None" "op_task ?op = TkCreated"
    by (simp_all add: new_operation_def Let_def)
  ultimately show ?thesis unfolding install_inv_def by (intro conjI exI [of _ blank_policy]) simp_all
qed

lemma started_following:
  assumes sdk: "hash_ok (ue_sdk e) v" "update_ok (ue_sdk e) v" and num: "offers_numbered w"
    and start: "ota_start e i pr offer_id w = (OtaStarted, w1)"
  shows "\<exists>op1. uw_operation w1 = Some op1 \<and> following e v op1 w1 \<and> op_generation op1 \<noteq> - 1 \<and>
    op_target_pr op1 = pr \<and> op_channel op1 = ota_channel_in_state (uw_channel w) \<and>
    op_expected op1 = confirmed_offer (uw_status w) \<and> offer_matches offer_id pr w"
proof -
  obtain r w2 where r: "reserve_operation e (si_lock i 1) (si_image_state i) pr True w = (r, w2)" by fastforce
  have q: "quiet w w2" "uw_status w2 = uw_status w" "uw_channel w2 = uw_channel w" using reserve_quiet [OF r] by simp_all
  obtain n w3 where a: "advance_offer_generation w2 = (n, w3)" by fastforce
  obtain r3 w4 where p: "prepare_owned_operation e i (si_origin i) pr (uw_channel w2) True n
      (Some (confirmed_offer (uw_status w2))) w3 = (r3, w4)" by fastforce
  have run: "r = OtaStarted" "offer_matches offer_id pr w2" "n \<noteq> - 1" "r3 = OtaStarted"
    "with_operation (launch_coordinator e i) OtaStarted w4 = (OtaStarted, w1)"
    using start by (auto simp: ota_start_def r a p Let_def simp del: One_nat_def split: if_splits)
  from prepare_owned_new [of e i "si_origin i" pr "uw_channel w2" True n "Some (confirmed_offer (uw_status w2))" w3 w4]
  obtain w5 where w5: "quiet w3 w5"
    "w4 = w5\<lparr>uw_operation := Some (new_operation e i (si_origin i) pr (uw_channel w2) True n (Some (confirmed_offer (uw_status w2))) w5)\<rparr>"
    using p run(4) by (simp only:) blast
  let ?op = "new_operation e i (si_origin i) pr (uw_channel w2) True n (Some (confirmed_offer (uw_status w2))) w5"
  have w1: "w1 = w4" using run(5) w5(2)
    by (auto simp: with_operation_def launch_coordinator_def split: create_result.splits prod.splits)
  have serial: "uw_serial w5 = n" "uw_capture w5 = uw_capture w"
    using a w5(1) q(1) by (auto simp: advance_offer_generation_def Let_def quiet_def frame_def)
  have "dc_generation (uw_capture w) \<noteq> n"
  proof (cases "n = uw_serial w")
    case True
    with run(3) a q(1) next_generation [of "uw_serial w" "uw_serial w"] show ?thesis
      by (auto simp: advance_offer_generation_def Let_def quiet_def frame_def)
  next
    case False
    have "n = ota_next_offer_generation (uw_serial w)"
      using a q(1) by (auto simp: advance_offer_generation_def Let_def quiet_def frame_def)
    with next_generation_mono [of "uw_serial w"] False num show ?thesis by (auto simp: offers_numbered_def)
  qed
  then have "numbered n w1" using serial w5(2) w1 by (simp add: numbered_def)
  moreover have "install_inv e v ?op w1"
    using install_inv_world [of w1 w5 e v ?op] new_operation_ready [OF sdk] w5(2) w1 by simp
  ultimately have "following e v ?op w1"
    using w5(2) w1 by (simp add: following_def op_frame_def new_operation_def Let_def)
  moreover have "op_generation ?op \<noteq> - 1" "op_target_pr ?op = pr" "op_channel ?op = ota_channel_in_state (uw_channel w)"
    "op_expected ?op = confirmed_offer (uw_status w)"
    using run(3) q by (simp_all add: new_operation_def Let_def)
  moreover have "offer_matches offer_id pr w"
    using run(2) offer_matches_kept [OF q(2,3)] q(1) by (simp add: quiet_def frame_def)
  moreover have "uw_operation w1 = Some ?op" using w5(2) w1 by simp
  ultimately show ?thesis by blast
qed

text \<open>The lease does not change what an image is.\<close>

lemma authentic_leased: "authentic_image (leased_sdk sdk) (leased_view v) P b \<longleftrightarrow> authentic_image sdk v P b"
  by (simp add: authentic_image_def leased_sdk_def leased_view_def sdk_prefix_bytes_def image_recognised_def
      image_version_def image_descriptor_def descriptor_version_def Let_def)

lemma blank_not_authentic: "\<not> authentic_image sdk v blank_policy b"
proof -
  have "\<not> is_ota_update_available [] [] 0 Release" by code_simp
  then show ?thesis by (auto simp: authentic_image_def blank_policy_def bounded_c_string_view_def)
qed

lemma committed_image:
  assumes inv: "install_inv e v op w" and oc: "co_outcome (op_coord op) = OcCommitted"
  shows "\<exists>p. sv_boot v (uw_device w) = Some p \<and> update_partition p \<and>
    authentic_image (ue_sdk e) v (confirmed_policy e op) (sv_stored v (uw_device w) p)"
proof -
  obtain P where P: "driver_inv e v P (op_coord op)" "P = blank_policy \<or> P = confirmed_policy e op"
    and d: "uw_device w = op_device op" using inv unfolding install_inv_def by blast
  have "rw.image_chosen (leased_sdk (ue_sdk e)) (leased_view v) P (op_coord op)"
    using P(1) oc by (simp add: driver_inv_def rw.image_inv_def)
  from chosen_authentic [OF this] obtain p where p: "sv_boot v (uw_device w) = Some p" "update_partition p"
    "authentic_image (ue_sdk e) v P (sv_stored v (uw_device w) p)"
    unfolding authentic_leased d op_device_def by (auto simp: leased_view_def)
  with P(2) blank_not_authentic show ?thesis by blast
qed

lemma status_text_view: "bounded_c_string_view (status_text n t) = status_text n t"
  by (auto simp: status_text_def bounded_c_string_view_def dest: in_set_takeD set_takeWhileD)

lemma offered_status:
  assumes "offer_matches offer_id pr w"
  shows "ota_get_status True w = (uw_status w)\<lparr>st_configured := ota_channel_in_state (uw_channel w)\<rparr> \<and>
    st_update_available (uw_status w) \<and> st_offer_id (uw_status w) = offer_id \<and> st_target_pr (uw_status w) = pr"
  using assms by (auto simp: ota_get_status_def Let_def offer_matches_def offer_is_current_def ota_offer_current_def)

text \<open>C3: What the client confirms is what the device boots. When an installation that was accepted for an offer
  identity reports that it committed, whatever the other tasks, the network and the flash did in between, that
  identity named the offer the status showed at the moment of the confirmation, and the partition selected for
  booting is an update partition holding an image that the SDK verified, with the length, SHA-256 and version of
  that offer, and newer than the running version by the rules of the channel and pull request shown.\<close>

theorem confirmed_offer_installed:
  assumes sdk: "hash_ok (ue_sdk e) v" "update_ok (ue_sdk e) v" and numbers: "offers_numbered w"
    and start: "ota_start e i pr offer_id w = (OtaStarted, w1)" "uw_operation w1 = Some op1"
    and run: "w2 = update_run e steps w1" "uw_operation w2 = Some op2" "op_generation op2 = op_generation op1"
      "co_outcome (op_coord op2) = OcCommitted"
  shows "st_update_available (ota_get_status True w) \<and> st_offer_id (ota_get_status True w) = offer_id \<and>
    st_target_pr (ota_get_status True w) = pr \<and>
    (\<exists>p b. sv_boot v (uw_device w2) = Some p \<and> update_partition p \<and> b = sv_stored v (uw_device w2) p \<and> sv_verified v b \<and>
      sv_sha256 v b = st_image_sha256 (ota_get_status True w) \<and> length b = unat (st_image_bytes (ota_get_status True w)) \<and>
      image_version (ue_sdk e) b = bounded_c_string_view (st_available (ota_get_status True w)) \<and>
      is_ota_update_available (image_version (ue_sdk e) b) (status_text 32 (ue_version e)) pr (st_configured (ota_get_status True w)))"
proof -
  from started_following [OF sdk numbers start(1)] start(2)
  have f: "following e v op1 w1" "op_generation op1 \<noteq> - 1" "op_target_pr op1 = pr"
    "op_channel op1 = ota_channel_in_state (uw_channel w)" "op_expected op1 = confirmed_offer (uw_status w)"
    "offer_matches offer_id pr w" by auto
  have "following e v op1 w2" unfolding run(1) by (rule following_run [OF f(1,2)])
  then have op: "op_frame op1 op2" "install_inv e v op2 w2" using run(2,3) by (simp_all add: following_def)
  obtain p where p: "sv_boot v (uw_device w2) = Some p" "update_partition p"
    "authentic_image (ue_sdk e) v (confirmed_policy e op2) (sv_stored v (uw_device w2) p)"
    using committed_image [OF op(2) run(4)] by blast
  then show ?thesis using op(1) f(3-5) offered_status [OF f(6)]
    by (auto simp: authentic_image_def confirmed_policy_def op_frame_def confirmed_offer_def status_text_view)
qed

theorem confirmed_offer_installed_witness:
  "\<exists>p b. sv_boot toy_view (uw_device (update_run toy_ue toy_steps
        (snd (ota_start toy_ue toy_input 0 ''000000000000000500000001'' toy_world)))) = Some p \<and>
     update_partition p \<and> toy_verified b \<and> toy_sha b = toy_digest \<and> length b = 513 \<and> image_version toy_sdk b = ''1.2.4''"
proof -
  obtain w where w: "ota_start toy_ue toy_input 0 ''000000000000000500000001'' toy_world = (OtaStarted, w)" "toy_holds w"
    "uw_operation w = Some toy_op" using toy_starts by blast
  obtain op where op: "uw_operation (update_run toy_ue toy_steps w) = Some op" "op_generation op = op_generation toy_op"
    "co_outcome (op_coord op) = OcCommitted" using toy_update_commits [OF w(2,3)] by (auto simp: toy_op_def)
  have sdk: "ue_sdk toy_ue = toy_sdk" by (simp add: toy_ue_def)
  have n: "offers_numbered toy_world" by (simp add: offers_numbered_def toy_world_def)
  have m: "offer_matches ''000000000000000500000001'' 0 toy_world" by (rule toy_matches) (simp_all add: toy_world_fields)
  have s: "st_image_sha256 (ota_get_status True toy_world) = toy_digest" "st_image_bytes (ota_get_status True toy_world) = 513"
    "bounded_c_string_view (st_available (ota_get_status True toy_world)) = ''1.2.4''"
    using offered_status [OF m] by (simp_all add: toy_world_fields toy_status_def bounded_c_string_view_def)
  from confirmed_offer_installed [OF toy_ok [folded sdk] n w(1,3) refl op] show ?thesis
    by (auto simp: w(1) s sdk toy_view_def)
qed

end
