(* ===== verification/Spec2Isabelle.thy ===== *)
theory Spec2Isabelle
  imports RunnerHistory DeferredQueue WifiConfig VinSafety LinkPolicy JsonProps OtaChangelog CommandProps OtaInstall
begin

text \<open>
  The core logic of tesla-key-esp32: a firmware that acts as a Bluetooth LE key for a Tesla and
  publishes the car to HTTP and MQTT clients. Its decisions live in src/main/logic (headers without
  hardware calls) and in adapters of src/main; the rest of src/main is glue around ESP-IDF, NimBLE,
  tesla-ble, esp-mqtt and cJSON. This development models the decisions and the adapters.

  \<^bold>\<open>How the parts interact.\<close>
  \<^item> Vehicle link. The Bluetooth host task copies notifications and link changes into a bounded queue
    (\<open>DeferredQueue\<close>); the vehicle task drains it and feeds the bytes to the framer (\<open>RxFraming\<close>), whose
    frames are matched to the request they answer by the dispatcher (\<open>Dispatcher\<close>, with the anti-replay
    windows) or by the captured-request check for vehicle-security replies (\<open>VcsecResponse\<close>). The command
    runner (\<open>CommandRunner\<close>, with the vocabulary of \<open>CommandTypes\<close>) drives the queued commands through
    wake-up, session establishment, transmission, response, retry and deadline. \<open>LinkPolicy\<close> decides when
    the car counts as awake, when it is polled and when a link may be used.
  \<^item> Requests. \<open>HttpGuard\<close> stands in front of every handler: route table, origin check, bounded body. Bodies
    pass the JSON syntax gate (\<open>JsonSyntax\<close>); \<open>CommandTable\<close> is the one table of commands, arguments and
    bounds, \<open>CommandApi\<close> its REST and MCP surfaces. \<open>Admission\<close> holds the small state machines that decide
    whether a part of the program may start or act.
  \<^item> Records. \<open>NvsStorage\<close> is the adapter over the flash driver, \<open>ConfigStore\<close> the codec of the
    configuration image, \<open>ConfigBlob\<close> its load and save, \<open>WifiConfig\<close> the staging and rollback of Wi-Fi
    credentials, \<open>Identity\<close> the private key and VIN, \<open>VinTransaction\<close> the change of the identity over two
    namespaces, request handler and boot together. \<open>PowerLoss\<close> states what a power cut can leave behind.
  \<^item> Recovery. \<open>Recovery\<close> holds the policies of restarts and of the boot, \<open>SafeMode\<close> the durable ledger and
    the heap supervisor that use them.
  \<^item> Update. \<open>OtaContract\<close> has the rules for versions, channels and offers, \<open>OtaChangelog\<close> and \<open>OtaManifest\<close>
    read what the feed serves, \<open>OtaPolicy\<close> has the operation gate, the time budget and the confirmation of a
    new image. A network task hands blocks through a mailbox (\<open>OtaTransport\<close>) to the coordinator
    (\<open>OtaCoordinator\<close>), which frames the response (\<open>OtaHttp\<close>), follows redirects (\<open>OtaRedirect\<close>) and drives
    the image writer (\<open>OtaWriter\<close>). \<open>OtaUpdate\<close> is the module on top: status, offers, admission and the
    tasks, as steps of one machine over the shared state.

  \<^bold>\<open>Correspondence.\<close> Each theory opens with the files it models. Records and datatypes carry the
  source's fields and constructors, one definition per function, method or loop. Unsigned integers of a
  fixed width are words of that width (clocks, counters and control words wrap as in the code); sizes are
  natural numbers; stored strings are byte lists and texts are character lists (\<open>Texts\<close>, \<open>Prelude\<close>). A
  refusal is an option, a sum or a boolean with the state it leaves. Concurrent parts are explicit steps: the
  mailbox and the atomics of the gates step by single atomic operations, the update module by the actions of
  its tasks.

  \<^bold>\<open>Parameters.\<close> Third-party code is an argument: the message builders of tesla-ble, the flash driver, the
  key client, the HTTP server's request object, \<open>http_parser\<close> (a run is a tree of callbacks) and its address
  parser, cJSON's parser and printer, the update functions of ESP-IDF and the hash of PSA. What is relied on
  is a named predicate (\<open>nvs_driver_ok\<close>, \<open>nvs_write_atomic\<close>, \<open>key_client_ok\<close>, which promises the loaded
  key only where the load reports success, \<open>hash_ok\<close>, \<open>update_ok\<close>, \<open>url_parser_ok\<close>) and is met by a
  concrete instance in the witnesses.

  \<^bold>\<open>What is shown.\<close>
  \<^item> Framing: any segmentation of a well-formed stream yields its frames, the buffer is bounded.
  \<^item> Dispatch: the bit window implements the abstract replay rule, no authenticated counter is routed
    twice through a registration.
  \<^item> Command runner (\<open>RunnerSafety\<close>, \<open>RunnerProps\<close>, \<open>RunnerHistory\<close>): over whole histories of calls, a
    mutating payload is handed to the link a second time only after an authenticated fault proved the first
    one unexecuted, each accepted command has its callback called exactly once, wherever it leaves the queue,
    and a queue whose deadlines have passed drains. Over every reachable state, an uncertain outcome is
    reported as such and a payload waits for the prerequisites of its domain.
  \<^item> Requests: every state-changing request passed the route, host and origin checks; a REST or MCP request
    makes at most the one call it names, with arguments inside the bounds of the table (\<open>CommandProps\<close>); the
    JSON gate accepts exactly the grammar (\<open>JsonChars\<close>, \<open>JsonGrammar\<close>, \<open>JsonProps\<close>).
  \<^item> Storage: the configuration image round trips, a corrupted byte is detected, a confirmed save is what the
    next load gives, key rotation and its cleanup are safe whatever step fails, and a change of the VIN is
    atomic under power loss at any flash call (\<open>VinSafety\<close>).
  \<^item> Recovery: the restarts for lack of memory are bounded by the durable ledger and need its authority.
  \<^item> Update: the version rules are characterized (\<open>OtaProps\<close>), offers do not come back, blocks are handed over
    once, a network job is freed only after its task acknowledged a clean end and the coordinator is done with
    it, a redirect leads where RFC 3986 says or to an error, downloads stay in their limits, which are counted
    in the bytes given to the parser. A committed update has
    selected an image that was authenticated against its policy (\<open>OtaWriter\<close>); that policy is the offer the
    client confirmed (\<open>OtaTask\<close>: what each action of a task keeps; \<open>OtaInstall\<close>: the operation followed by its
    number through all steps of the module; \<open>OtaScenario\<close>: an update that goes through).

  \<^bold>\<open>Interfaces.\<close> Laws shared between components are locales, interpreted on the model's definitions where
  the provider is defined: bounded queues, replay windows, record stores and the image writer's table among
  them.

  \<^bold>\<open>Bounds and fuel.\<close> Loops are structural recursions or have a measure, with two exceptions. The readers
  of the JSON gate take fuel, twice the length of the document and one, which \<open>json_reader_terminates\<close>
  shows to be enough. The polling loop of a metadata fetch takes the turns of the network task as a list and
  is None while they have not brought it to an end.

  \<^bold>\<open>Not modelled.\<close> Logging text, memory order of atomics, task scheduling beyond the explicit
  interleavings of calls, the contents of protobuf messages built by tesla-ble, the ESP-IDF network and
  flash stacks, the emitters of JSON status documents, MQTT and Home Assistant, provisioning, the repair
  console, the shells around NimBLE and the web page.
\<close>

end
